(* ===== verification/Prelude.thy ===== *)
theory Prelude
  imports Main "HOL-Library.Word" "HOL-Library.Multiset"
begin

text \<open>
  Shared ground of the development: the machine types the sources use, C strings, the character
  classes of \<^verbatim>\<open>ctype.h\<close> in the C locale, number formatting, and the collections of rewrite
  rules the component theories extend.

  A C++ \<^verbatim>\<open>std::string\<close> is a list of bytes, that is a HOL \<^typ>\<open>string\<close>; reading it through
  \<^verbatim>\<open>c_str()\<close> stops at the first NUL byte.  \<^verbatim>\<open>long long\<close> is a 64 bit word read by \<^const>\<open>sint\<close>,
  \<^verbatim>\<open>u_int32_t\<close> a 32 bit word, \<^verbatim>\<open>unsigned char\<close> an 8 bit word.
\<close>

named_theorems ycp_defs \<open>definitions a component unfolds in its own proofs\<close>
named_theorems cmp_simps \<open>evaluation rules of the three-way comparisons\<close>
named_theorems stream_simps \<open>what a reader returns on what a writer produced\<close>

type_synonym int64 = "64 word"
type_synonym uint32 = "32 word"
type_synonym byte = "8 word"

abbreviation NUL :: char where "NUL \<equiv> CHR 0x00"

section \<open>C strings\<close>

text \<open>\<^verbatim>\<open>string (const char *)\<close>: everything before the first NUL.\<close>

definition c_str :: "string \<Rightarrow> string" where
  "c_str s = takeWhile (\<lambda>c. c \<noteq> NUL) s"

definition nul_free :: "string \<Rightarrow> bool" where
  "nul_free s \<longleftrightarrow> NUL \<notin> set s"

lemma nul_free_simps [simp]:
  "nul_free []"
  "nul_free (c # s) \<longleftrightarrow> c \<noteq> NUL \<and> nul_free s"
  "nul_free (s @ t) \<longleftrightarrow> nul_free s \<and> nul_free t"
  by (auto simp: nul_free_def)

lemma nul_free_code [code]: "nul_free s = list_all (\<lambda>c. c \<noteq> NUL) s"
  by (auto simp: nul_free_def list_all_iff)

lemma c_str_id [simp]: "nul_free s \<Longrightarrow> c_str s = s"
  unfolding c_str_def nul_free_def by (rule takeWhile_eq_all_conv [THEN iffD2]) auto

lemma nul_free_c_str [simp]: "nul_free (c_str s)"
  unfolding c_str_def nul_free_def by (auto dest: set_takeWhileD)

section \<open>Characters\<close>

abbreviation ccode :: "char \<Rightarrow> nat" where "ccode \<equiv> of_char"

definition is_digit :: "char \<Rightarrow> bool" where
  "is_digit c \<longleftrightarrow> 48 \<le> ccode c \<and> ccode c \<le> 57"

definition is_upper :: "char \<Rightarrow> bool" where
  "is_upper c \<longleftrightarrow> 65 \<le> ccode c \<and> ccode c \<le> 90"

definition is_lower :: "char \<Rightarrow> bool" where
  "is_lower c \<longleftrightarrow> 97 \<le> ccode c \<and> ccode c \<le> 122"

definition is_alpha :: "char \<Rightarrow> bool" where
  "is_alpha c \<longleftrightarrow> is_upper c \<or> is_lower c"

definition is_alnum :: "char \<Rightarrow> bool" where
  "is_alnum c \<longleftrightarrow> is_alpha c \<or> is_digit c"

definition is_xdigit :: "char \<Rightarrow> bool" where
  "is_xdigit c \<longleftrightarrow> is_digit c \<or> (65 \<le> ccode c \<and> ccode c \<le> 70) \<or> (97 \<le> ccode c \<and> ccode c \<le> 102)"

definition is_print :: "char \<Rightarrow> bool" where
  "is_print c \<longleftrightarrow> 32 \<le> ccode c \<and> ccode c \<le> 126"

definition is_space :: "char \<Rightarrow> bool" where
  "is_space c \<longleftrightarrow> ccode c = 32 \<or> (9 \<le> ccode c \<and> ccode c \<le> 13)"

lemma ccode_less [simp]: "ccode c < 256"
  by simp

lemma ccode_div_16 [simp]: "ccode c div 16 < 16"
  using ccode_less [of c] by linarith

lemma ccode_inject [simp]: "ccode c = ccode d \<longleftrightarrow> c = d"
  by (rule of_char_eq_iff)

text \<open>Byte values as characters and back.\<close>

definition byte_char :: "byte \<Rightarrow> char" where
  "byte_char b = char_of (unat b)"

definition char_byte :: "char \<Rightarrow> byte" where
  "char_byte c = of_nat (ccode c)"

lemma unat_byte_less [simp]: "unat (b :: byte) < 256"
  using unsigned_less [of b] by simp

lemma char_byte_char [simp]: "char_byte (byte_char b) = b"
  by (simp add: char_byte_def byte_char_def)

lemma byte_char_byte [simp]: "byte_char (char_byte c) = c"
  by (simp add: char_byte_def byte_char_def unat_of_nat)

lemma map_char_byte_char [simp]: "map (char_byte \<circ> byte_char) bs = bs"
  by (induction bs) auto

lemma map_byte_char_byte [simp]: "map (byte_char \<circ> char_byte) s = s"
  by (induction s) auto

section \<open>Numbers as text\<close>

text \<open>The digit characters of \<^verbatim>\<open>printf\<close>: \<^verbatim>\<open>0-9\<close>, then \<^verbatim>\<open>A-F\<close> for \<^verbatim>\<open>%X\<close>.\<close>

definition digit_char :: "nat \<Rightarrow> char" where
  "digit_char n = (if n < 10 then char_of (48 + n) else char_of (55 + n))"

text \<open>The value of a (hexadecimal) digit character.\<close>

definition digit_val :: "char \<Rightarrow> nat" where
  "digit_val c =
     (if is_digit c then ccode c - 48
      else if is_upper c then ccode c - 65 + 10
      else ccode c - 97 + 10)"

lemma ccode_digit_char: "n < 16 \<Longrightarrow> ccode (digit_char n) = (if n < 10 then 48 + n else 55 + n)"
  by (simp add: digit_char_def)

lemma is_digit_digit_char [simp]: "n < 10 \<Longrightarrow> is_digit (digit_char n)"
  by (simp add: is_digit_def ccode_digit_char)

lemma is_xdigit_digit_char [simp]: "n < 16 \<Longrightarrow> is_xdigit (digit_char n)"
  by (simp add: is_xdigit_def is_digit_def ccode_digit_char)

lemma digit_val_digit_char [simp]: "n < 16 \<Longrightarrow> digit_val (digit_char n) = n"
  by (simp add: digit_val_def is_digit_def is_upper_def ccode_digit_char)

text \<open>\<^verbatim>\<open>%d\<close> of a non-negative number, and the value of a run of decimal digits.\<close>

fun show_nat :: "nat \<Rightarrow> string" where
  "show_nat n = (if n < 10 then [digit_char n] else show_nat (n div 10) @ [digit_char (n mod 10)])"

declare show_nat.simps [simp del]

definition show_int :: "int \<Rightarrow> string" where
  "show_int i = (if i < 0 then CHR ''-'' # show_nat (nat (- i)) else show_nat (nat i))"

definition digits_val :: "nat \<Rightarrow> string \<Rightarrow> nat" where
  "digits_val base s = foldl (\<lambda>n c. n * base + digit_val c) 0 s"

lemma digits_val_snoc [simp]: "digits_val base (s @ [c]) = digits_val base s * base + digit_val c"
  by (simp add: digits_val_def)

lemma digits_val_show_nat [simp]: "digits_val 10 (show_nat n) = n"
proof (induction n rule: show_nat.induct)
  case (1 n)
  show ?case
  proof (cases "n < 10")
    case True
    then show ?thesis by (subst show_nat.simps) (simp add: digits_val_def)
  next
    case False
    with "1.IH" show ?thesis by (subst show_nat.simps) simp
  qed
qed

lemma show_nat_digits: "\<forall>c \<in> set (show_nat n). is_digit c"
proof (induction n rule: show_nat.induct)
  case (1 n)
  show ?case
  proof (cases "n < 10")
    case True
    then show ?thesis by (subst show_nat.simps) simp
  next
    case False
    with "1.IH" have "\<forall>c \<in> set (show_nat (n div 10)). is_digit c" by simp
    with False show ?thesis by (subst show_nat.simps) auto
  qed
qed

lemma show_nat_nonempty [simp]: "show_nat n \<noteq> []"
  by (subst show_nat.simps) simp

text \<open>A decimal representation starts with \<^verbatim>\<open>0\<close> only for zero itself.\<close>

lemma show_nat_hd: "0 < n \<Longrightarrow> hd (show_nat n) \<noteq> CHR ''0''"
proof (induction n rule: show_nat.induct)
  case (1 n)
  show ?case
  proof (cases "n < 10")
    case True
    with "1.prems" have "ccode (digit_char n) \<noteq> ccode (CHR ''0'')"
      by (simp add: ccode_digit_char)
    then have "digit_char n \<noteq> CHR ''0''" by auto
    with True show ?thesis by (subst show_nat.simps) simp
  next
    case False
    with "1.IH" have "hd (show_nat (n div 10)) \<noteq> CHR ''0''" by simp
    with False show ?thesis by (subst show_nat.simps) simp
  qed
qed

lemma show_nat_0 [simp]: "show_nat 0 = ''0''"
  by code_simp

section \<open>Lists\<close>

lemma takeWhile_append_stop:
  "\<forall>x \<in> set xs. P x \<Longrightarrow> ys = [] \<or> \<not> P (hd ys) \<Longrightarrow> takeWhile P (xs @ ys) = xs"
  by (induction xs) (cases ys; auto)+

lemma dropWhile_append_stop:
  "\<forall>x \<in> set xs. P x \<Longrightarrow> ys = [] \<or> \<not> P (hd ys) \<Longrightarrow> dropWhile P (xs @ ys) = ys"
  by (induction xs) (cases ys; auto)+

end
