(* ===== verification/Ordering.thy ===== *)
theory Ordering
  imports Prelude
begin

text \<open>
  Three-way comparison and the two pieces of the C++ library whose behaviour rests on it.

  \<^item> \<open>ycp_order\<close> is \<^verbatim>\<open>enum YCPOrder\<close> with one more value, for a comparison that dereferences a
    null handle and does not return.
  \<^item> \<open>cmp_loop\<close> and \<open>seq_compare\<close> are the loops over the common prefix and the length test that the
    \<^verbatim>\<open>compare\<close> methods of lists, strings, terms and maps share; \<open>lex_compare\<close> is the lexicographic
    order they are meant to compute, and \<open>seq_compare_lex\<close> says that they do.
  \<^item> The locale \<open>three_way\<close> states what a comparator owes its clients (a total preorder on a domain)
    and derives what \<^verbatim>\<open>std::sort\<close>, \<^verbatim>\<open>std::map\<close> and \<^verbatim>\<open>std::set\<close> promise in return.
\<close>

section \<open>The result of a comparison\<close>

datatype ycp_order = YO_LESS | YO_EQUAL | YO_GREATER | YO_CRASH

fun flip_order :: "ycp_order \<Rightarrow> ycp_order" where
  "flip_order YO_LESS = YO_GREATER"
| "flip_order YO_EQUAL = YO_EQUAL"
| "flip_order YO_GREATER = YO_LESS"
| "flip_order YO_CRASH = YO_CRASH"

lemma flip_flip [simp]: "flip_order (flip_order x) = x"
  by (cases x) simp_all

lemma flip_eq_simps [simp]:
  "flip_order x = YO_LESS \<longleftrightarrow> x = YO_GREATER"
  "flip_order x = YO_EQUAL \<longleftrightarrow> x = YO_EQUAL"
  "flip_order x = YO_GREATER \<longleftrightarrow> x = YO_LESS"
  "flip_order x = YO_CRASH \<longleftrightarrow> x = YO_CRASH"
  by (cases x, simp_all)+

definition ord_then :: "ycp_order \<Rightarrow> ycp_order \<Rightarrow> ycp_order" where
  "ord_then x y = (if x = YO_EQUAL then y else x)"

lemma ord_then_simps [simp]:
  "ord_then YO_EQUAL y = y"
  "ord_then YO_LESS y = YO_LESS"
  "ord_then YO_GREATER y = YO_GREATER"
  "ord_then YO_CRASH y = YO_CRASH"
  by (simp_all add: ord_then_def)

lemma flip_ord_then [simp]: "flip_order (ord_then x y) = ord_then (flip_order x) (flip_order y)"
  by (cases x) simp_all

text \<open>Comparison of two keys of a linear order: \<^verbatim>\<open>a == b ? EQUAL : a < b ? LESS : GREATER\<close>.\<close>

definition key_compare :: "'a::linorder \<Rightarrow> 'a \<Rightarrow> ycp_order" where
  "key_compare a b = (if a = b then YO_EQUAL else if a < b then YO_LESS else YO_GREATER)"

lemma key_compare_simps [cmp_simps]:
  "key_compare a b = YO_EQUAL \<longleftrightarrow> a = b"
  "key_compare a b = YO_LESS \<longleftrightarrow> a < b"
  "key_compare a b = YO_GREATER \<longleftrightarrow> b < a"
  "key_compare a b \<noteq> YO_CRASH"
  by (auto simp: key_compare_def)

lemma key_compare_refl [simp]: "key_compare a a = YO_EQUAL"
  by (simp add: key_compare_def)

lemma flip_key_compare [simp]: "flip_order (key_compare a b) = key_compare b a"
  by (auto simp: key_compare_def)

section \<open>Comparing sequences\<close>

text \<open>The loop over the common prefix: it stops at the first pair that is not equal.\<close>

fun cmp_loop :: "('a \<Rightarrow> 'b \<Rightarrow> ycp_order) \<Rightarrow> 'a list \<Rightarrow> 'b list \<Rightarrow> ycp_order" where
  "cmp_loop f (x # xs) (y # ys) = ord_then (f x y) (cmp_loop f xs ys)"
| "cmp_loop f xs ys = YO_EQUAL"

text \<open>The loop, and the shorter sequence first when it finds no difference.\<close>

definition seq_compare :: "('a \<Rightarrow> 'b \<Rightarrow> ycp_order) \<Rightarrow> 'a list \<Rightarrow> 'b list \<Rightarrow> ycp_order" where
  "seq_compare f xs ys = ord_then (cmp_loop f xs ys) (key_compare (length xs) (length ys))"

fun lex_compare :: "('a \<Rightarrow> 'b \<Rightarrow> ycp_order) \<Rightarrow> 'a list \<Rightarrow> 'b list \<Rightarrow> ycp_order" where
  "lex_compare f [] [] = YO_EQUAL"
| "lex_compare f [] (y # ys) = YO_LESS"
| "lex_compare f (x # xs) [] = YO_GREATER"
| "lex_compare f (x # xs) (y # ys) = ord_then (f x y) (lex_compare f xs ys)"

lemma seq_compare_lex: "seq_compare f xs ys = lex_compare f xs ys"
proof (induction f xs ys rule: lex_compare.induct)
  case (4 f x xs y ys)
  then show ?case
    by (cases "f x y") (auto simp: seq_compare_def key_compare_def)
qed (simp_all add: seq_compare_def key_compare_def)

lemma cmp_loop_cong [fundef_cong]:
  assumes "xs = xs'" and "ys = ys'"
    and "\<And>x y. x \<in> set xs' \<Longrightarrow> y \<in> set ys' \<Longrightarrow> f x y = g x y"
  shows "cmp_loop f xs ys = cmp_loop g xs' ys'"
proof -
  have "(\<And>x y. x \<in> set xs' \<Longrightarrow> y \<in> set ys' \<Longrightarrow> f x y = g x y) \<Longrightarrow> cmp_loop f xs' ys' = cmp_loop g xs' ys'"
    by (induction f xs' ys' rule: cmp_loop.induct) simp_all
  with assms show ?thesis by simp
qed

lemma seq_compare_cong [fundef_cong]:
  assumes "xs = xs'" and "ys = ys'"
    and "\<And>x y. x \<in> set xs' \<Longrightarrow> y \<in> set ys' \<Longrightarrow> f x y = g x y"
  shows "seq_compare f xs ys = seq_compare g xs' ys'"
  using cmp_loop_cong [OF assms] assms(1,2) by (simp add: seq_compare_def)

text \<open>Byte-wise comparison of strings: \<^verbatim>\<open>std::string::compare\<close> and \<^verbatim>\<open>operator <\<close>.\<close>

definition char_compare :: "char \<Rightarrow> char \<Rightarrow> ycp_order" where
  "char_compare c d = key_compare (ccode c) (ccode d)"

definition string_compare :: "string \<Rightarrow> string \<Rightarrow> ycp_order" where
  "string_compare s t = seq_compare char_compare s t"

section \<open>std::map, std::set and std::sort\<close>

text \<open>The strict comparator a three-way comparison induces, as \<^verbatim>\<open>class ycp_less\<close> does.\<close>

definition cmp_less :: "('a \<Rightarrow> 'a \<Rightarrow> ycp_order) \<Rightarrow> 'a \<Rightarrow> 'a \<Rightarrow> bool" where
  "cmp_less cmp x y \<longleftrightarrow> cmp x y = YO_LESS"

text \<open>
  The associative containers, over a comparator \<^verbatim>\<open>less\<close>, as the sequence of their elements in
  iteration order.  Two keys are the same key when neither is less than the other.  \<open>smap_assign\<close> is
  \<^verbatim>\<open>m[k] = v\<close> (the stored key stays), \<open>sset_insert\<close> is \<^verbatim>\<open>set::insert\<close> (an element that is already
  there stays).  \<open>std_sort\<close> is one of the results \<^verbatim>\<open>std::sort\<close> may produce: the C++ standard leaves
  the order of elements that compare equal open, and no lemma below depends on it.
\<close>

type_synonym ('k, 'v) smap = "('k \<times> 'v) list"

fun smap_find :: "('k \<Rightarrow> 'k \<Rightarrow> bool) \<Rightarrow> 'k \<Rightarrow> ('k, 'v) smap \<Rightarrow> 'v option" where
  "smap_find ls k [] = None"
| "smap_find ls k ((a, b) # m) =
     (if ls a k then smap_find ls k m else if ls k a then None else Some b)"

fun smap_assign :: "('k \<Rightarrow> 'k \<Rightarrow> bool) \<Rightarrow> 'k \<Rightarrow> 'v \<Rightarrow> ('k, 'v) smap \<Rightarrow> ('k, 'v) smap" where
  "smap_assign ls k v [] = [(k, v)]"
| "smap_assign ls k v ((a, b) # m) =
     (if ls a k then (a, b) # smap_assign ls k v m
      else if ls k a then (k, v) # (a, b) # m else (a, v) # m)"

fun smap_erase :: "('k \<Rightarrow> 'k \<Rightarrow> bool) \<Rightarrow> 'k \<Rightarrow> ('k, 'v) smap \<Rightarrow> ('k, 'v) smap" where
  "smap_erase ls k [] = []"
| "smap_erase ls k ((a, b) # m) =
     (if ls a k then (a, b) # smap_erase ls k m else if ls k a then (a, b) # m else m)"

fun sset_insert :: "('k \<Rightarrow> 'k \<Rightarrow> bool) \<Rightarrow> 'k \<Rightarrow> 'k list \<Rightarrow> 'k list" where
  "sset_insert ls k [] = [k]"
| "sset_insert ls k (a # m) =
     (if ls a k then a # sset_insert ls k m else if ls k a then k # a # m else a # m)"

fun sort_insert :: "('a \<Rightarrow> 'a \<Rightarrow> bool) \<Rightarrow> 'a \<Rightarrow> 'a list \<Rightarrow> 'a list" where
  "sort_insert ls x [] = [x]"
| "sort_insert ls x (y # ys) = (if ls y x then y # sort_insert ls x ys else x # y # ys)"

fun std_sort :: "('a \<Rightarrow> 'a \<Rightarrow> bool) \<Rightarrow> 'a list \<Rightarrow> 'a list" where
  "std_sort ls [] = []"
| "std_sort ls (x # xs) = sort_insert ls x (std_sort ls xs)"

lemma mset_sort_insert [simp]: "mset (sort_insert ls x xs) = add_mset x (mset xs)"
  by (induction xs) auto

lemma mset_std_sort [simp]: "mset (std_sort ls xs) = mset xs"
  by (induction xs) auto

lemma set_std_sort [simp]: "set (std_sort ls xs) = set xs"
  by (metis mset_std_sort set_mset_mset)

lemma set_sort_insert [simp]: "set (sort_insert ls x xs) = insert x (set xs)"
  by (induction xs) auto

lemma set_sset_insert: "set (sset_insert ls k m) \<subseteq> insert k (set m)" "set m \<subseteq> set (sset_insert ls k m)"
  by (induction m) auto

lemma set_fst_smap_assign: "fst ` set (smap_assign ls k v m) \<subseteq> insert k (fst ` set m)"
  by (induction ls k v m rule: smap_assign.induct) auto

lemma set_smap_erase: "set (smap_erase ls k m) \<subseteq> set m"
  by (induction ls k m rule: smap_erase.induct) auto

section \<open>The contract of a comparator\<close>

locale three_way =
  fixes cmp :: "'a \<Rightarrow> 'a \<Rightarrow> ycp_order"
    and dm :: "'a \<Rightarrow> bool"
  assumes cmp_refl: "dm x \<Longrightarrow> cmp x x = YO_EQUAL"
    and cmp_flip: "dm x \<Longrightarrow> dm y \<Longrightarrow> cmp y x = flip_order (cmp x y)"
    and cmp_trans: "dm x \<Longrightarrow> dm y \<Longrightarrow> dm z \<Longrightarrow> cmp x y \<noteq> YO_GREATER \<Longrightarrow> cmp y z \<noteq> YO_GREATER
      \<Longrightarrow> cmp x z = ord_then (cmp x y) (cmp y z)"
    and cmp_returns: "dm x \<Longrightarrow> dm y \<Longrightarrow> cmp x y \<noteq> YO_CRASH"
begin

abbreviation lt :: "'a \<Rightarrow> 'a \<Rightarrow> bool" where
  "lt \<equiv> cmp_less cmp"

lemmas lt_def = cmp_less_def [of cmp]

lemma lt_irrefl: "dm x \<Longrightarrow> \<not> lt x x"
  by (simp add: lt_def cmp_refl)

lemma lt_trans: "dm x \<Longrightarrow> dm y \<Longrightarrow> dm z \<Longrightarrow> lt x y \<Longrightarrow> lt y z \<Longrightarrow> lt x z"
  using cmp_trans [of x y z] by (simp add: lt_def)

lemma not_lt_swap: "dm x \<Longrightarrow> dm y \<Longrightarrow> \<not> lt x y \<longleftrightarrow> cmp y x \<noteq> YO_GREATER"
  using cmp_flip [of x y] by (auto simp: lt_def)

lemma incomparable_iff: "dm x \<Longrightarrow> dm y \<Longrightarrow> \<not> lt x y \<and> \<not> lt y x \<longleftrightarrow> cmp x y = YO_EQUAL"
  using cmp_flip [of x y] cmp_returns [of x y] by (cases "cmp x y") (auto simp: lt_def)

lemma equal_sym: "dm x \<Longrightarrow> dm y \<Longrightarrow> cmp x y = YO_EQUAL \<Longrightarrow> cmp y x = YO_EQUAL"
  using cmp_flip [of x y] by simp

lemma equal_left: "dm x \<Longrightarrow> dm y \<Longrightarrow> dm z \<Longrightarrow> cmp x y = YO_EQUAL \<Longrightarrow> cmp x z = cmp y z"
proof -
  assume d: "dm x" "dm y" "dm z" and e: "cmp x y = YO_EQUAL"
  show ?thesis
  proof (cases "cmp y z = YO_GREATER")
    case False
    with d e cmp_trans [of x y z] show ?thesis by simp
  next
    case True
    have zy: "cmp z y = YO_LESS" using cmp_flip [OF d(2,3)] True by simp
    have yx: "cmp y x = YO_EQUAL" using equal_sym [OF d(1,2) e] .
    have "cmp z x = YO_LESS" using cmp_trans [OF d(3,2,1)] zy yx by simp
    then show ?thesis using cmp_flip [OF d(3,1)] True by simp
  qed
qed

text \<open>Sequences of elements of the domain are compared by a total preorder again.\<close>

lemma lex_refl: "list_all dm xs \<Longrightarrow> lex_compare cmp xs xs = YO_EQUAL"
  by (induction xs) (simp_all add: cmp_refl)

lemma lex_flip: "list_all dm xs \<Longrightarrow> list_all dm ys
  \<Longrightarrow> lex_compare cmp ys xs = flip_order (lex_compare cmp xs ys)"
proof (induction xs ys rule: list_induct2')
  case (4 x xs y ys)
  then have "cmp y x = flip_order (cmp x y)" using cmp_flip [of x y] by simp
  with 4 show ?case by simp
qed simp_all

lemma lex_returns: "list_all dm xs \<Longrightarrow> list_all dm ys \<Longrightarrow> lex_compare cmp xs ys \<noteq> YO_CRASH"
proof (induction xs ys rule: list_induct2')
  case (4 x xs y ys)
  then have "cmp x y \<noteq> YO_CRASH" using cmp_returns [of x y] by simp
  with 4 show ?case by (cases "cmp x y") simp_all
qed simp_all

lemma lex_trans:
  assumes "list_all dm xs" and "list_all dm ys" and "list_all dm zs"
    and "lex_compare cmp xs ys \<noteq> YO_GREATER" and "lex_compare cmp ys zs \<noteq> YO_GREATER"
  shows "lex_compare cmp xs zs = ord_then (lex_compare cmp xs ys) (lex_compare cmp ys zs)"
  using assms
proof (induction xs ys arbitrary: zs rule: list_induct2')
  case (4 x xs y ys)
  show ?case
  proof (cases zs)
    case (Cons z zs')
    from "4.prems" Cons have d: "dm x" "dm y" "dm z" by simp_all
    from "4.prems" Cons have ng: "cmp x y \<noteq> YO_GREATER" "cmp y z \<noteq> YO_GREATER"
      by (auto simp: ord_then_def split: if_splits)
    have c: "cmp x z = ord_then (cmp x y) (cmp y z)" by (rule cmp_trans [OF d ng])
    have IH: "lex_compare cmp xs zs' = ord_then (lex_compare cmp xs ys) (lex_compare cmp ys zs')"
      if "cmp x y = YO_EQUAL" "cmp y z = YO_EQUAL"
      using "4.IH" [of zs'] "4.prems" Cons that by simp
    have xs: "lex_compare cmp xs ys \<in> {YO_LESS, YO_EQUAL}" if "cmp x y = YO_EQUAL"
      using that "4.prems" lex_returns [of xs ys] by (cases "lex_compare cmp xs ys") simp_all
    show ?thesis
      using IH xs c ng cmp_returns [OF d(1,2)] cmp_returns [OF d(2,3)] unfolding Cons
      by (cases "cmp x y"; cases "cmp y z") auto
  qed (use "4.prems" in simp)
next
  case (3 y ys)
  then show ?case by (cases zs) simp_all
qed simp_all

text \<open>Sorting.\<close>

lemma sort_insert_sorted:
  "dm x \<Longrightarrow> list_all dm ys \<Longrightarrow> sorted_wrt (\<lambda>a b. \<not> lt b a) ys
    \<Longrightarrow> sorted_wrt (\<lambda>a b. \<not> lt b a) (sort_insert lt x ys)"
proof (induction ys)
  case (Cons y ys)
  show ?case
  proof (cases "lt y x")
    case True
    with Cons have "\<not> lt x y" using lt_trans [of x y x] lt_irrefl [of x] by auto
    with Cons True show ?thesis by auto
  next
    case False
    have "\<not> lt z x" if "z \<in> set ys" for z
    proof
      assume "lt z x"
      moreover from Cons that have "\<not> lt z y" and z: "dm z" by (auto simp: list_all_iff)
      moreover from Cons have y: "dm y" by simp
      ultimately have "cmp x y = YO_GREATER"
        using Cons.prems(1) False cmp_trans [of y z x] cmp_trans [of z x y] cmp_flip [of x y]
          cmp_flip [of y z] cmp_returns [of x y] not_lt_swap [of z y]
        by (cases "cmp x y"; cases "cmp y z") (auto simp: lt_def)
      with False y Cons.prems(1) show False using cmp_flip [of x y] by (simp add: lt_def)
    qed
    with Cons False show ?thesis by auto
  qed
qed simp

lemma std_sort_sorted: "list_all dm xs \<Longrightarrow> sorted_wrt (\<lambda>a b. \<not> lt b a) (std_sort lt xs)"
  by (induction xs) (simp_all add: sort_insert_sorted list_all_iff)

text \<open>
  Associative containers: every operation keeps the keys strictly increasing, and what is found
  under a key after an assignment or an erasure.
\<close>

definition smap_inv :: "('a, 'v) smap \<Rightarrow> bool" where
  "smap_inv m \<longleftrightarrow> list_all dm (map fst m) \<and> sorted_wrt lt (map fst m)"

definition sset_inv :: "'a list \<Rightarrow> bool" where
  "sset_inv m \<longleftrightarrow> list_all dm m \<and> sorted_wrt lt m"

lemma smap_inv_simps [simp]:
  "smap_inv []"
  "smap_inv ((a, b) # m) \<longleftrightarrow> dm a \<and> (\<forall>k \<in> fst ` set m. lt a k) \<and> smap_inv m"
  by (auto simp: smap_inv_def)

lemma smap_inv_assign: "smap_inv m \<Longrightarrow> dm k \<Longrightarrow> smap_inv (smap_assign lt k v m)"
proof (induction m)
  case (Cons p m)
  obtain a b where p: "p = (a, b)" by (cases p)
  have dm: "dm x" if "x \<in> fst ` set m" for x
    using Cons.prems(1) that unfolding p smap_inv_def by (auto simp: list_all_iff)
  show ?case
  proof (cases "lt a k")
    case True
    then have "\<forall>x \<in> fst ` set (smap_assign lt k v m). lt a x"
      using Cons.prems set_fst_smap_assign [of lt k v m] unfolding p by (fastforce dest: subsetD)
    with True Cons show ?thesis unfolding p by simp
  next
    case False
    have "\<forall>x \<in> fst ` set m. lt k x" if "lt k a"
      using that Cons.prems dm lt_trans [of k a] unfolding p by auto
    with False Cons.prems show ?thesis unfolding p by auto
  qed
qed simp

lemma smap_inv_erase: "smap_inv m \<Longrightarrow> smap_inv (smap_erase lt k m)"
proof (induction m)
  case (Cons p m)
  obtain a b where p: "p = (a, b)" by (cases p)
  show ?case using Cons set_smap_erase [of lt k m] unfolding p by auto
qed simp

lemma smap_find_below: "smap_inv m \<Longrightarrow> dm k \<Longrightarrow> \<forall>x \<in> fst ` set m. lt k x \<Longrightarrow> smap_find lt k m = None"
proof (cases m)
  case (Cons p m')
  assume h: "smap_inv m" "dm k" "\<forall>x \<in> fst ` set m. lt k x"
  obtain a b where p: "p = (a, b)" by (cases p)
  from h Cons p have "lt k a" "dm a" by auto
  with h(2) have "\<not> lt a k" using lt_trans [of a k a] lt_irrefl [of a] by blast
  with \<open>lt k a\<close> show ?thesis unfolding Cons p by simp
qed simp

lemma lt_equal_left: "dm x \<Longrightarrow> dm y \<Longrightarrow> dm z \<Longrightarrow> cmp x y = YO_EQUAL \<Longrightarrow> lt x z \<longleftrightarrow> lt y z"
  using equal_left [of x y z] by (simp add: lt_def)

lemma lt_equal_right: "dm x \<Longrightarrow> dm y \<Longrightarrow> dm z \<Longrightarrow> cmp x y = YO_EQUAL \<Longrightarrow> lt z x \<longleftrightarrow> lt z y"
  using equal_left [of x y z] cmp_flip [of x z] cmp_flip [of y z] by (simp add: lt_def)

lemma smap_find_assign:
  assumes "smap_inv m" and "dm k" and "dm k'"
  shows "smap_find lt k' (smap_assign lt k v m)
    = (if cmp k' k = YO_EQUAL then Some v else smap_find lt k' m)"
  using assms(1)
proof (induction m)
  case Nil
  then show ?case using incomparable_iff [OF assms(3,2)] by auto
next
  case (Cons p m)
  obtain a b where p: "p = (a, b)" by (cases p)
  from Cons.prems have a: "dm a" unfolding p by simp
  have eq: "cmp k' k = YO_EQUAL \<longleftrightarrow> \<not> lt k' k \<and> \<not> lt k k'"
    using incomparable_iff [OF assms(3,2)] by blast
  have eql: "lt k' a \<longleftrightarrow> lt k a" "lt a k' \<longleftrightarrow> lt a k" if "cmp k' k = YO_EQUAL"
    using lt_equal_left [OF assms(3,2) a that] lt_equal_right [OF assms(3,2) a that] by auto
  have IH: "smap_find lt k' (smap_assign lt k v m) = (if cmp k' k = YO_EQUAL then Some v else smap_find lt k' m)"
    using Cons unfolding p by simp
  consider "lt a k" | "lt k a" "\<not> lt a k" | "\<not> lt a k" "\<not> lt k a" by blast
  then show ?case
  proof cases
    case 1
    then show ?thesis using IH eql unfolding p by simp
  next
    case 2
    consider "lt k' k" | "cmp k' k = YO_EQUAL" | "lt k k'" using eq by blast
    then show ?thesis
    proof cases
      case 1
      then have "lt k' a" "\<not> lt k k'" "\<not> lt a k'"
        using 2 lt_trans [OF assms(3,2) a] lt_trans [OF assms(2,3,2)] lt_trans [OF a assms(3,2)] lt_irrefl [OF assms(2)]
        by blast+
      with 1 2 eq show ?thesis unfolding p by simp
    next
      case 3
      with 2 eq show ?thesis unfolding p by auto
    qed (use 2 eq in \<open>simp add: p\<close>)
  next
    case 3
    then have ka: "cmp k a = YO_EQUAL" using incomparable_iff [OF assms(2) a] by blast
    show ?thesis
      using 3 eq lt_equal_left [OF assms(2) a assms(3) ka] lt_equal_right [OF assms(2) a assms(3) ka]
      unfolding p by auto
  qed
qed

lemma smap_find_erase:
  assumes "smap_inv m" and "dm k" and "dm k'"
  shows "smap_find lt k' (smap_erase lt k m)
    = (if cmp k' k = YO_EQUAL then None else smap_find lt k' m)"
  using assms(1)
proof (induction m)
  case (Cons p m)
  obtain a b where p: "p = (a, b)" by (cases p)
  from Cons.prems have a: "dm a" unfolding p by simp
  have eq: "cmp k' k = YO_EQUAL \<longleftrightarrow> \<not> lt k' k \<and> \<not> lt k k'"
    using incomparable_iff [OF assms(3,2)] by blast
  show ?case
  proof (cases "lt a k \<or> lt k a")
    case True
    then show ?thesis
      using Cons a eq lt_equal_left [OF assms(3,2) a] lt_equal_right [OF assms(3,2) a]
      unfolding p by auto
  next
    case False
    then have ka: "cmp k a = YO_EQUAL" using incomparable_iff [OF assms(2) a] by blast
    have "smap_find lt k' m = None" if "\<not> lt a k'"
    proof (cases m)
      case (Cons q m')
      obtain c d where q: "q = (c, d)" by (cases q)
      from Cons.prems \<open>m = q # m'\<close> have c: "lt a c" "dm c" unfolding p q by auto
      have "\<not> lt c k'" using that lt_trans [OF a c(2) assms(3) c(1)] by blast
      moreover have "lt k' c"
        using that c a assms(3) cmp_trans [of k' a c] cmp_flip [of a k'] not_lt_swap [of a k'] cmp_returns [of k' a]
        by (cases "cmp k' a") (auto simp: lt_def)
      ultimately show ?thesis unfolding \<open>m = q # m'\<close> q by simp
    qed simp
    then show ?thesis
      using False eq lt_equal_left [OF assms(2) a assms(3) ka] lt_equal_right [OF assms(2) a assms(3) ka]
      unfolding p by auto
  qed
qed simp

lemma lex_three_way: "three_way (lex_compare cmp) (list_all dm)"
  by (rule three_way.intro) (fact lex_refl lex_flip lex_trans lex_returns)+

end

section \<open>Building comparators\<close>

lemma three_way_key: "three_way (\<lambda>x y. key_compare (f x) (f y)) d"
proof (rule three_way.intro)
  fix x y z
  assume "key_compare (f x) (f y) \<noteq> YO_GREATER" "key_compare (f y) (f z) \<noteq> YO_GREATER"
  then have "f x \<le> f y" "f y \<le> f z" by (simp_all add: cmp_simps)
  then show "key_compare (f x) (f z) = ord_then (key_compare (f x) (f y)) (key_compare (f y) (f z))"
    by (auto simp: key_compare_def)
qed (simp_all add: cmp_simps)

lemma three_way_const: "three_way (\<lambda>x y. YO_EQUAL) d"
  by unfold_locales simp_all

text \<open>A comparator seen through a constructor.\<close>

lemma three_way_ctor:
  assumes "three_way c e"
    and "\<And>x. d x \<Longrightarrow> \<exists>a. x = C a \<and> e a"
    and "\<And>a b. e a \<Longrightarrow> e b \<Longrightarrow> cmp (C a) (C b) = c a b"
  shows "three_way cmp d"
proof (rule three_way.intro)
  fix x assume "d x"
  with assms(2) obtain a where "x = C a" "e a" by blast
  then show "cmp x x = YO_EQUAL" using three_way.cmp_refl [OF assms(1)] assms(3) by simp
next
  fix x y assume d: "d x" "d y"
  obtain a b where *: "x = C a" "e a" "y = C b" "e b"
    using assms(2) [OF d(1)] assms(2) [OF d(2)] by (elim exE conjE)
  show "cmp y x = flip_order (cmp x y)"
    unfolding *(1,3) assms(3) [OF *(2,4)] assms(3) [OF *(4,2)]
    by (rule three_way.cmp_flip [OF assms(1) *(2,4)])
  show "cmp x y \<noteq> YO_CRASH"
    unfolding *(1,3) assms(3) [OF *(2,4)] by (rule three_way.cmp_returns [OF assms(1) *(2,4)])
next
  fix x y z assume d: "d x" "d y" "d z" and ng: "cmp x y \<noteq> YO_GREATER" "cmp y z \<noteq> YO_GREATER"
  obtain a b k where *: "x = C a" "e a" "y = C b" "e b" "z = C k" "e k"
    using assms(2) [OF d(1)] assms(2) [OF d(2)] assms(2) [OF d(3)] by (elim exE conjE)
  note cs = assms(3) [OF *(2,4)] assms(3) [OF *(4,6)] assms(3) [OF *(2,6)]
  show "cmp x z = ord_then (cmp x y) (cmp y z)"
    using three_way.cmp_trans [OF assms(1) *(2,4,6)] ng unfolding *(1,3,5) cs .
qed

lemma three_way_subset: "three_way c d \<Longrightarrow> (\<And>x. e x \<Longrightarrow> d x) \<Longrightarrow> three_way c e"
  by (rule three_way_ctor [where C = "\<lambda>x. x" and e = d]) simp_all

lemma three_way_image: "three_way c d \<Longrightarrow> three_way (\<lambda>x y. c (f x) (f y)) (\<lambda>x. d (f x))"
  by (rule three_way.intro)
    (erule (5) three_way.cmp_trans | erule (2) three_way.cmp_flip | erule (2) three_way.cmp_returns
      | erule (1) three_way.cmp_refl)+

text \<open>First by one criterion, then by another.\<close>

lemma three_way_then:
  assumes c: "three_way c1 d" and e: "three_way c2 d"
  shows "three_way (\<lambda>x y. ord_then (c1 x y) (c2 x y)) d"
proof (rule three_way.intro)
  fix x assume "d x"
  then show "ord_then (c1 x x) (c2 x x) = YO_EQUAL"
    using three_way.cmp_refl [OF c] three_way.cmp_refl [OF e] by simp
next
  fix x y assume d: "d x" "d y"
  show "ord_then (c1 y x) (c2 y x) = flip_order (ord_then (c1 x y) (c2 x y))"
    using three_way.cmp_flip [OF c d] three_way.cmp_flip [OF e d] by simp
  show "ord_then (c1 x y) (c2 x y) \<noteq> YO_CRASH"
    using three_way.cmp_returns [OF c d] three_way.cmp_returns [OF e d] by (simp add: ord_then_def)
next
  fix x y z assume d: "d x" "d y" "d z"
    and ng: "ord_then (c1 x y) (c2 x y) \<noteq> YO_GREATER" "ord_then (c1 y z) (c2 y z) \<noteq> YO_GREATER"
  have r: "c1 x y \<noteq> YO_CRASH" "c1 y z \<noteq> YO_CRASH" "c2 x y \<noteq> YO_CRASH"
    using three_way.cmp_returns [OF c] three_way.cmp_returns [OF e] d by auto
  from ng have ng1: "c1 x y \<noteq> YO_GREATER" "c1 y z \<noteq> YO_GREATER"
    by (auto simp: ord_then_def split: if_splits)
  have t1: "c1 x z = ord_then (c1 x y) (c1 y z)" by (rule three_way.cmp_trans [OF c d ng1])
  have t2: "c2 x z = ord_then (c2 x y) (c2 y z)" if "c1 x y = YO_EQUAL" "c1 y z = YO_EQUAL"
    using three_way.cmp_trans [OF e d] ng that by simp
  show "ord_then (c1 x z) (c2 x z) = ord_then (ord_then (c1 x y) (c2 x y)) (ord_then (c1 y z) (c2 y z))"
    using t1 t2 r ng ng1 by (cases "c1 x y"; cases "c1 y z"; cases "c2 x y") simp_all
qed

text \<open>A ranked union: elements of different rank are ordered by their rank.\<close>

lemma three_way_ranked:
  assumes same: "\<And>k. three_way cmp (\<lambda>x. d x \<and> rank x = (k :: nat))"
    and diff: "\<And>x y. d x \<Longrightarrow> d y \<Longrightarrow> rank x \<noteq> rank y \<Longrightarrow> cmp x y = key_compare (rank x) (rank y)"
  shows "three_way cmp d"
proof (rule three_way.intro)
  fix x assume "d x"
  then show "cmp x x = YO_EQUAL" using three_way.cmp_refl [OF same, of x "rank x"] by simp
next
  fix x y assume d: "d x" "d y"
  show "cmp y x = flip_order (cmp x y)"
  proof (cases "rank x = rank y")
    case True
    then show ?thesis by (intro three_way.cmp_flip [OF same [of "rank x"]]) (simp_all add: d)
  qed (simp add: d diff)
  show "cmp x y \<noteq> YO_CRASH"
  proof (cases "rank x = rank y")
    case True
    then show ?thesis by (intro three_way.cmp_returns [OF same [of "rank x"]]) (simp_all add: d)
  qed (simp add: d diff cmp_simps)
next
  fix x y z assume d: "d x" "d y" "d z" and ng: "cmp x y \<noteq> YO_GREATER" "cmp y z \<noteq> YO_GREATER"
  have le: "rank a \<le> rank b" if "d a" "d b" "cmp a b \<noteq> YO_GREATER" for a b
    using that diff [OF that(1,2)] by (metis cmp_simps(3) less_irrefl not_less)
  have less: "cmp a b = YO_LESS" if "d a" "d b" "rank a < rank b" for a b
    using diff [OF that(1,2)] that(3) by (simp add: cmp_simps)
  show "cmp x z = ord_then (cmp x y) (cmp y z)"
  proof (cases "rank x = rank z")
    case True
    with le [OF d(1,2) ng(1)] le [OF d(2,3) ng(2)] have "rank y = rank x" "rank z = rank x" by simp_all
    with d ng show ?thesis by (intro three_way.cmp_trans [OF same [of "rank x"]]) simp_all
  next
    case False
    show ?thesis
    proof (cases "rank x = rank y")
      case True
      have "cmp x y \<noteq> YO_CRASH" using True by (intro three_way.cmp_returns [OF same [of "rank x"]]) (simp_all add: d)
      moreover have "rank y < rank z" using le [OF d(2,3) ng(2)] True False by simp
      ultimately show ?thesis using ng(1) less [OF d(2,3)] less [OF d(1,3)] True by (cases "cmp x y") simp_all
    next
      case neq: False
      have "rank x < rank y" "rank x < rank z" using le [OF d(1,2) ng(1)] le [OF d(2,3) ng(2)] neq by simp_all
      then show ?thesis using less [OF d(1,2)] less [OF d(1,3)] by simp
    qed
  qed
qed

interpretation string_order: three_way string_compare "\<lambda>_. True"
proof -
  have "three_way (lex_compare char_compare) (list_all (\<lambda>_. True))"
    unfolding char_compare_def by (rule three_way.lex_three_way [OF three_way_key])
  then show "three_way string_compare (\<lambda>_. True)"
    by (rule three_way_ctor [where C = "\<lambda>x. x"])
      (auto simp: string_compare_def seq_compare_lex list_all_iff)
qed

lemma string_compare_equal [simp]: "string_compare s t = YO_EQUAL \<longleftrightarrow> s = t"
proof -
  have "lex_compare char_compare s t = YO_EQUAL \<longleftrightarrow> s = t"
    by (induction s t rule: list_induct2') (auto simp: ord_then_def char_compare_def cmp_simps)
  then show ?thesis by (simp add: string_compare_def seq_compare_lex)
qed

lemma string_compare_refl [simp]: "string_compare s s = YO_EQUAL"
  by simp

end
