(* ===== verification/YCP_Value.thy ===== *)
theory YCP_Value
  imports Ordering
begin

unbundle bit_operations_syntax

text \<open>
  The values of the language (\<^verbatim>\<open>libycp/src/YCPValue.cc\<close> and the \<^verbatim>\<open>YCP*.cc\<close> file of every value
  class) and their three-way comparison.

  A value is what a \<^verbatim>\<open>YCPValue\<close> handle refers to.  Lists and maps are copied on write
  (\<^verbatim>\<open>DEF_COW_COMMON\<close>), every other representation is immutable, so a handle is modelled by its
  contents; \<open>YNull\<close> is the handle whose element pointer is null.  The code of a \<^verbatim>\<open>YCPCode\<close> is the type
  parameter \<open>'c\<close>; symbol entries and external payloads are represented by the address they have.
  A \<^verbatim>\<open>double\<close> is its IEEE 754 bit pattern.
\<close>

section \<open>Values\<close>

record path_component =
  component :: string
  is_complex :: bool

type_synonym double = "64 word"

datatype 'c ycp =
    YNull
  | YVoid
  | YBoolean bool
  | YInteger int64
  | YFloat double
  | YString string
  | YByteblock "byte list"
  | YPath "path_component list"
  | YSymbol string
  | YList "'c ycp list"
  | YTerm string "'c ycp list"
  | YMap "('c ycp \<times> 'c ycp) list"
  | YCode 'c
  | YReturn
  | YBreak
  | YEntry nat
  | YReference nat
  | YExternal nat string

text \<open>\<^verbatim>\<open>enum YCPValueType\<close>; a null handle has no type, its tag here is outside the enumeration.\<close>

fun valuetype :: "'c ycp \<Rightarrow> nat" where
  "valuetype YVoid = 0"
| "valuetype (YBoolean _) = 1"
| "valuetype (YInteger _) = 2"
| "valuetype (YFloat _) = 3"
| "valuetype (YString _) = 4"
| "valuetype (YByteblock _) = 5"
| "valuetype (YPath _) = 6"
| "valuetype (YSymbol _) = 7"
| "valuetype (YList _) = 8"
| "valuetype (YTerm _ _) = 9"
| "valuetype (YMap _) = 10"
| "valuetype (YCode _) = 11"
| "valuetype YReturn = 12"
| "valuetype YBreak = 13"
| "valuetype (YEntry _) = 14"
| "valuetype (YReference _) = 16"
| "valuetype (YExternal _ _) = 17"
| "valuetype YNull = 255"

text \<open>\<^verbatim>\<open>valuetype_str\<close>: the name of the type, \<^verbatim>\<open>UNKNOWN\<close> outside the table.\<close>

definition valuetype_names :: "string list" where
  "valuetype_names = [''VOID'', ''BOOLEAN'', ''INTEGER'', ''FLOAT'', ''STRING'', ''BYTEBLOCK'',
     ''PATH'', ''SYMBOL'', ''LIST'', ''TERM'', ''MAP'', ''CODE'', ''RETURN'', ''BREAK'', ''ENTRY'',
     ''ERROR'', ''REFERENCE'', ''EXTERNAL'']"

definition valuetype_str :: "'c ycp \<Rightarrow> string" where
  "valuetype_str v = (let vt = valuetype v in
     if length valuetype_names \<le> vt then ''UNKNOWN'' else valuetype_names ! vt)"

definition isNull :: "'c ycp \<Rightarrow> bool" where
  "isNull v \<longleftrightarrow> valuetype v = 255"

definition isVoid :: "'c ycp \<Rightarrow> bool" where
  "isVoid v \<longleftrightarrow> valuetype v = 0 \<or> valuetype v = 12"

definition isBoolean :: "'c ycp \<Rightarrow> bool" where "isBoolean v \<longleftrightarrow> valuetype v = 1"
definition isInteger :: "'c ycp \<Rightarrow> bool" where "isInteger v \<longleftrightarrow> valuetype v = 2"
definition isFloat :: "'c ycp \<Rightarrow> bool" where "isFloat v \<longleftrightarrow> valuetype v = 3"
definition isString :: "'c ycp \<Rightarrow> bool" where "isString v \<longleftrightarrow> valuetype v = 4"
definition isByteblock :: "'c ycp \<Rightarrow> bool" where "isByteblock v \<longleftrightarrow> valuetype v = 5"
definition isPath :: "'c ycp \<Rightarrow> bool" where "isPath v \<longleftrightarrow> valuetype v = 6"
definition isSymbol :: "'c ycp \<Rightarrow> bool" where "isSymbol v \<longleftrightarrow> valuetype v = 7"
definition isList :: "'c ycp \<Rightarrow> bool" where "isList v \<longleftrightarrow> valuetype v = 8"
definition isTerm :: "'c ycp \<Rightarrow> bool" where "isTerm v \<longleftrightarrow> valuetype v = 9"
definition isMap :: "'c ycp \<Rightarrow> bool" where "isMap v \<longleftrightarrow> valuetype v = 10"

lemma value_type_simps [simp]:
  "isNull v \<longleftrightarrow> v = YNull"
  "isVoid v \<longleftrightarrow> v = YVoid \<or> v = YReturn"
  "isBoolean v \<longleftrightarrow> (\<exists>b. v = YBoolean b)"
  "isInteger v \<longleftrightarrow> (\<exists>i. v = YInteger i)"
  "isFloat v \<longleftrightarrow> (\<exists>d. v = YFloat d)"
  "isString v \<longleftrightarrow> (\<exists>s. v = YString s)"
  "isByteblock v \<longleftrightarrow> (\<exists>bs. v = YByteblock bs)"
  "isPath v \<longleftrightarrow> (\<exists>p. v = YPath p)"
  "isSymbol v \<longleftrightarrow> (\<exists>s. v = YSymbol s)"
  "isList v \<longleftrightarrow> (\<exists>xs. v = YList xs)"
  "isTerm v \<longleftrightarrow> (\<exists>s xs. v = YTerm s xs)"
  "isMap v \<longleftrightarrow> (\<exists>m. v = YMap m)"
  by (cases v; simp add: isNull_def isVoid_def isBoolean_def isInteger_def isFloat_def isString_def
      isByteblock_def isPath_def isSymbol_def isList_def isTerm_def isMap_def)+

lemmas valuetype_iff =
  value_type_simps(3-12) [unfolded isBoolean_def isInteger_def isFloat_def isString_def isByteblock_def
    isPath_def isSymbol_def isList_def isTerm_def isMap_def]

section \<open>Comparison of doubles\<close>

text \<open>
  IEEE 754 comparison on the bit pattern: a NaN is neither equal to nor less than anything; the
  others are ordered by their magnitude with the sign applied, which identifies the two zeros.
\<close>

definition dbl_magnitude :: "double \<Rightarrow> int" where
  "dbl_magnitude d = uint (d AND 0x7FFFFFFFFFFFFFFF)"

definition dbl_nan :: "double \<Rightarrow> bool" where
  "dbl_nan d \<longleftrightarrow> 0x7FF0000000000000 < dbl_magnitude d"

definition dbl_key :: "double \<Rightarrow> int" where
  "dbl_key d = (if bit d 63 then - dbl_magnitude d else dbl_magnitude d)"

definition dbl_eq :: "double \<Rightarrow> double \<Rightarrow> bool" where
  "dbl_eq a b \<longleftrightarrow> \<not> dbl_nan a \<and> \<not> dbl_nan b \<and> dbl_key a = dbl_key b"

definition dbl_less :: "double \<Rightarrow> double \<Rightarrow> bool" where
  "dbl_less a b \<longleftrightarrow> \<not> dbl_nan a \<and> \<not> dbl_nan b \<and> dbl_key a < dbl_key b"

text \<open>\<^verbatim>\<open>YCPFloatRep::compare\<close>.\<close>

definition float_compare :: "double \<Rightarrow> double \<Rightarrow> ycp_order" where
  "float_compare a b = (if dbl_eq a b then YO_EQUAL else if dbl_less a b then YO_LESS else YO_GREATER)"

lemma float_compare_key:
  "\<not> dbl_nan a \<Longrightarrow> \<not> dbl_nan b \<Longrightarrow> float_compare a b = key_compare (dbl_key a) (dbl_key b)"
  by (simp add: float_compare_def key_compare_def dbl_eq_def dbl_less_def)

section \<open>Comparison of the other classes\<close>

definition integer_compare :: "int64 \<Rightarrow> int64 \<Rightarrow> ycp_order" where
  "integer_compare a b = key_compare (sint a) (sint b)"

text \<open>\<^verbatim>\<open>YCPByteblockRep::compare\<close>: sizes first, then content.\<close>

definition byteblock_compare :: "byte list \<Rightarrow> byte list \<Rightarrow> ycp_order" where
  "byteblock_compare as bs =
     (if length as < length bs then YO_LESS
      else if length bs < length as then YO_GREATER
      else cmp_loop (\<lambda>a b. if a < b then YO_LESS else if b < a then YO_GREATER else YO_EQUAL) as bs)"

definition component_compare :: "path_component \<Rightarrow> path_component \<Rightarrow> ycp_order" where
  "component_compare a b = string_compare (component a) (component b)"

text \<open>\<^verbatim>\<open>YCPPathRep::compare\<close>.\<close>

fun path_compare :: "path_component list \<Rightarrow> path_component list \<Rightarrow> ycp_order" where
  "path_compare (a # as) [] = YO_GREATER"
| "path_compare (a # as) (b # bs) =
     (case component_compare a b of YO_LESS \<Rightarrow> YO_LESS | YO_GREATER \<Rightarrow> YO_GREATER
      | _ \<Rightarrow> path_compare as bs)"
| "path_compare [] bs = (if bs = [] then YO_EQUAL else YO_LESS)"

text \<open>\<^verbatim>\<open>YCPListRep::compare\<close>, over the comparison of the elements.\<close>

definition list_compare :: "('a \<Rightarrow> 'b \<Rightarrow> ycp_order) \<Rightarrow> 'a list \<Rightarrow> 'b list \<Rightarrow> ycp_order" where
  "list_compare f xs ys =
     (if xs \<noteq> [] \<and> ys \<noteq> [] then
        (case cmp_loop f xs ys of
           YO_EQUAL \<Rightarrow> if length xs = length ys then YO_EQUAL
                      else if length xs < length ys then YO_LESS else YO_GREATER
         | order \<Rightarrow> order)
      else if xs \<noteq> [] \<or> ys \<noteq> [] then (if xs = [] then YO_LESS else YO_GREATER)
      else YO_EQUAL)"

text \<open>\<^verbatim>\<open>YCPTermRep::compare\<close>: names first, then the arguments.\<close>

definition term_compare :: "('a \<Rightarrow> 'b \<Rightarrow> ycp_order) \<Rightarrow> string \<times> 'a list \<Rightarrow> string \<times> 'b list \<Rightarrow> ycp_order" where
  "term_compare f = (\<lambda>(s, xs) (t, ys).
     if s = t then list_compare f xs ys
     else if string_compare s t = YO_LESS then YO_LESS else YO_GREATER)"

text \<open>\<^verbatim>\<open>YCPMapRep::compare\<close>: the smaller map first, then pairwise keys and values.\<close>

definition map_compare ::
  "('a \<Rightarrow> 'b \<Rightarrow> ycp_order) \<Rightarrow> ('a \<times> 'a) list \<Rightarrow> ('b \<times> 'b) list \<Rightarrow> ycp_order" where
  "map_compare f m n =
     (if m \<noteq> [] \<or> n \<noteq> [] then
        if length m < length n then YO_LESS
        else if length n < length m then YO_GREATER
        else cmp_loop (\<lambda>p q. ord_then (f (fst p) (fst q)) (f (snd p) (snd q))) m n
      else YO_EQUAL)"

lemma list_compare_seq: "list_compare f xs ys = seq_compare f xs ys"
proof (cases "xs = [] \<or> ys = []")
  case True
  then show ?thesis
    by (cases xs; cases ys) (simp_all add: list_compare_def seq_compare_def key_compare_def)
next
  case False
  then show ?thesis
    by (simp add: list_compare_def seq_compare_def key_compare_def ord_then_def split: ycp_order.split)
qed

lemma list_compare_cong [fundef_cong]:
  assumes "xs = xs'" and "ys = ys'"
    and "\<And>x y. x \<in> set xs' \<Longrightarrow> y \<in> set ys' \<Longrightarrow> f x y = g x y"
  shows "list_compare f xs ys = list_compare g xs' ys'"
  using seq_compare_cong [OF assms] by (simp add: list_compare_seq)

lemma term_compare_cong [fundef_cong]:
  assumes "p = p'" and "q = q'"
    and "\<And>x y. x \<in> set (snd p') \<Longrightarrow> y \<in> set (snd q') \<Longrightarrow> f x y = g x y"
  shows "term_compare f p q = term_compare g p' q'"
  using assms list_compare_cong [of "snd p'" "snd p'" "snd q'" "snd q'" f g]
  by (cases p'; cases q') (simp add: term_compare_def)

lemma map_compare_cong [fundef_cong]:
  assumes "m = m'" and "n = n'"
    and "\<And>x y. x \<in> fst ` set m' \<union> snd ` set m' \<Longrightarrow> y \<in> fst ` set n' \<union> snd ` set n' \<Longrightarrow> f x y = g x y"
  shows "map_compare f m n = map_compare g m' n'"
proof -
  have "cmp_loop (\<lambda>p q. ord_then (f (fst p) (fst q)) (f (snd p) (snd q))) m' n'
      = cmp_loop (\<lambda>p q. ord_then (g (fst p) (fst q)) (g (snd p) (snd q))) m' n'"
    by (rule cmp_loop_cong) (simp_all add: assms(3))
  with assms(1,2) show ?thesis by (simp add: map_compare_def)
qed

section \<open>Comparison of values\<close>

lemma size_fst_snd_map [termination_simp]:
  "p \<in> set m \<Longrightarrow> size (fst p) \<le> size_list (size_prod size size) m"
  "p \<in> set m \<Longrightarrow> size (snd p) \<le> size_list (size_prod size size) m"
  by (induction m) (auto simp: size_prod_def split: prod.splits)

text \<open>\<^verbatim>\<open>YCPValueRep::compare\<close> without \<^verbatim>\<open>rl\<close>.  A null \<^verbatim>\<open>this\<close> is dereferenced.\<close>

fun compare :: "'c ycp \<Rightarrow> 'c ycp \<Rightarrow> ycp_order" where
  "compare v w =
     (if isNull v then YO_CRASH
      else if isNull w then YO_EQUAL
      else case v of
        YBoolean a \<Rightarrow> (case w of YBoolean b \<Rightarrow> key_compare a b | _ \<Rightarrow> key_compare (valuetype v) (valuetype w))
      | YInteger a \<Rightarrow> (case w of YInteger b \<Rightarrow> integer_compare a b | _ \<Rightarrow> key_compare (valuetype v) (valuetype w))
      | YFloat a \<Rightarrow> (case w of YFloat b \<Rightarrow> float_compare a b | _ \<Rightarrow> key_compare (valuetype v) (valuetype w))
      | YString a \<Rightarrow> (case w of YString b \<Rightarrow> string_compare a b | _ \<Rightarrow> key_compare (valuetype v) (valuetype w))
      | YByteblock a \<Rightarrow> (case w of YByteblock b \<Rightarrow> byteblock_compare a b | _ \<Rightarrow> key_compare (valuetype v) (valuetype w))
      | YPath a \<Rightarrow> (case w of YPath b \<Rightarrow> path_compare a b | _ \<Rightarrow> key_compare (valuetype v) (valuetype w))
      | YSymbol a \<Rightarrow> (case w of YSymbol b \<Rightarrow> string_compare a b | _ \<Rightarrow> key_compare (valuetype v) (valuetype w))
      | YList a \<Rightarrow> (case w of YList b \<Rightarrow> list_compare compare a b | _ \<Rightarrow> key_compare (valuetype v) (valuetype w))
      | YTerm s a \<Rightarrow> (case w of YTerm t b \<Rightarrow> term_compare compare (s, a) (t, b)
                       | _ \<Rightarrow> key_compare (valuetype v) (valuetype w))
      | YMap a \<Rightarrow> (case w of YMap b \<Rightarrow> map_compare compare a b | _ \<Rightarrow> key_compare (valuetype v) (valuetype w))
      | YCode a \<Rightarrow> (case w of YCode b \<Rightarrow> YO_LESS | _ \<Rightarrow> key_compare (valuetype v) (valuetype w))
      | YReference a \<Rightarrow> (case w of YReference b \<Rightarrow> YO_LESS | _ \<Rightarrow> key_compare (valuetype v) (valuetype w))
      | _ \<Rightarrow> key_compare (valuetype v) (valuetype w))"

declare compare.simps [simp del]

lemma compare_simps [simp, cmp_simps]:
  "compare YNull w = YO_CRASH"
  "compare (YBoolean a) (YBoolean b) = key_compare a b"
  "compare (YInteger i) (YInteger j) = integer_compare i j"
  "compare (YFloat d) (YFloat e) = float_compare d e"
  "compare (YString s) (YString t) = string_compare s t"
  "compare (YByteblock bs) (YByteblock cs) = byteblock_compare bs cs"
  "compare (YPath p) (YPath q) = path_compare p q"
  "compare (YSymbol s) (YSymbol t) = string_compare s t"
  "compare (YList xs) (YList ys) = list_compare compare xs ys"
  "compare (YTerm s xs) (YTerm t ys) = term_compare compare (s, xs) (t, ys)"
  "compare (YMap m) (YMap n) = map_compare compare m n"
  "compare (YCode code1) (YCode code2) = YO_LESS"
  "compare (YReference e1) (YReference e2) = YO_LESS"
  by (subst compare.simps, simp)+

lemma compare_null [simp]: "v \<noteq> YNull \<Longrightarrow> compare v YNull = YO_EQUAL"
  by (subst compare.simps) simp

lemma compare_other_type:
  "v \<noteq> YNull \<Longrightarrow> w \<noteq> YNull \<Longrightarrow> valuetype v \<noteq> valuetype w
    \<Longrightarrow> compare v w = key_compare (valuetype v) (valuetype w)"
  by (subst compare.simps) (auto split: ycp.split)

text \<open>The classes without content: every two of them compare equal.\<close>

lemma compare_unit:
  "valuetype v = valuetype w \<Longrightarrow> valuetype v \<in> {0, 12, 13, 14, 17} \<Longrightarrow> compare v w = YO_EQUAL"
  by (subst compare.simps) (cases v; cases w; simp)

section \<open>When comparison is an order\<close>

text \<open>
  The values on which \<open>compare\<close> is a total preorder: no null handle, no NaN, no code and no
  reference anywhere inside.
\<close>

fun ordered_value :: "'c ycp \<Rightarrow> bool" where
  "ordered_value YNull = False"
| "ordered_value (YFloat d) = (\<not> dbl_nan d)"
| "ordered_value (YList xs) = list_all ordered_value xs"
| "ordered_value (YTerm s xs) = list_all ordered_value xs"
| "ordered_value (YMap m) = list_all (\<lambda>p. ordered_value (fst p) \<and> ordered_value (snd p)) m"
| "ordered_value (YCode c) = False"
| "ordered_value (YReference e) = False"
| "ordered_value _ = True"

lemma path_compare_lex: "path_compare p q = lex_compare component_compare p q"
proof (induction p q rule: path_compare.induct)
  case (2 a as b bs)
  have "component_compare a b \<noteq> YO_CRASH"
    by (simp add: component_compare_def string_order.cmp_returns)
  with 2 show ?case by (cases "component_compare a b") simp_all
qed (auto simp: neq_Nil_conv)

lemma cmp_loop_same_length: "length xs = length ys \<Longrightarrow> cmp_loop f xs ys = lex_compare f xs ys"
  by (simp flip: seq_compare_lex add: seq_compare_def ord_then_def)

lemma byteblock_compare_then:
  "byteblock_compare as bs = ord_then (key_compare (length as) (length bs)) (lex_compare key_compare as bs)"
proof -
  have "(\<lambda>a b. if a < b then YO_LESS else if b < a then YO_GREATER else YO_EQUAL) = (key_compare :: byte \<Rightarrow> _)"
    by (auto simp: fun_eq_iff key_compare_def)
  then show ?thesis
    by (auto simp: byteblock_compare_def key_compare_def cmp_loop_same_length)
qed

lemma term_compare_then:
  "term_compare f p q = ord_then (string_compare (fst p) (fst q)) (lex_compare f (snd p) (snd q))"
  using string_order.cmp_returns [of "fst p" "fst q"]
  by (cases p; cases q; cases "string_compare (fst p) (fst q)")
    (auto simp: term_compare_def list_compare_seq seq_compare_lex)

lemma map_compare_then:
  "map_compare f m n = ord_then (key_compare (length m) (length n))
     (lex_compare (\<lambda>p q. ord_then (f (fst p) (fst q)) (f (snd p) (snd q))) m n)"
  by (auto simp: map_compare_def key_compare_def cmp_loop_same_length)

lemma path_three_way: "three_way path_compare (\<lambda>_. True)"
proof -
  have "three_way component_compare (\<lambda>_. True)"
    unfolding component_compare_def [abs_def]
    by (rule three_way_image [where f = component, OF string_order.three_way_axioms])
  then have "three_way (lex_compare component_compare) (list_all (\<lambda>_. True))"
    by (rule three_way.lex_three_way)
  then show ?thesis
    unfolding path_compare_lex [abs_def] by (rule three_way_subset) (simp add: list_all_iff)
qed

lemma byteblock_three_way: "three_way byteblock_compare (\<lambda>_. True)"
proof -
  have "three_way (lex_compare key_compare) (list_all (\<lambda>_ :: byte. True))"
    by (rule three_way.lex_three_way [OF three_way_key [where f = "\<lambda>x. x"]])
  then show ?thesis
    unfolding byteblock_compare_then [abs_def]
    by (intro three_way_then three_way_key) (erule three_way_subset, simp add: list_all_iff)
qed

lemma float_three_way: "three_way float_compare (\<lambda>d. \<not> dbl_nan d)"
  by (rule three_way_ctor [where C = "\<lambda>x. x" and e = "\<lambda>d. \<not> dbl_nan d", OF three_way_key [where f = dbl_key]])
    (simp_all add: float_compare_key)

text \<open>Over elements of bounded size, lists, terms and maps inherit the order of their elements.\<close>

definition small :: "nat \<Rightarrow> 'c ycp \<Rightarrow> bool" where
  "small n v \<longleftrightarrow> ordered_value v \<and> size v < n"

lemma list_three_way:
  assumes "three_way compare (small n :: 'c ycp \<Rightarrow> bool)"
  shows "three_way (list_compare compare) (list_all (small n :: 'c ycp \<Rightarrow> bool))"
  unfolding list_compare_seq [abs_def] seq_compare_lex [abs_def] by (rule three_way.lex_three_way [OF assms])

lemma term_three_way:
  assumes "three_way compare (small n :: 'c ycp \<Rightarrow> bool)"
  shows "three_way (term_compare compare) (\<lambda>p. list_all (small n :: 'c ycp \<Rightarrow> bool) (snd p))"
  unfolding term_compare_then [abs_def]
proof (rule three_way_then)
  show "three_way (\<lambda>p q. string_compare (fst p) (fst q)) (\<lambda>p. list_all (small n :: 'c ycp \<Rightarrow> bool) (snd p))"
    by (rule three_way_subset [OF three_way_image [where f = fst, OF string_order.three_way_axioms]]) simp
  show "three_way (\<lambda>p q. lex_compare compare (snd p) (snd q)) (\<lambda>p. list_all (small n :: 'c ycp \<Rightarrow> bool) (snd p))"
    by (rule three_way_image [where f = snd, OF three_way.lex_three_way [OF assms]])
qed

lemma map_three_way:
  assumes "three_way compare (small n :: 'c ycp \<Rightarrow> bool)"
  shows "three_way (map_compare compare) (list_all (\<lambda>p. small n (fst p :: 'c ycp) \<and> small n (snd p :: 'c ycp)))"
proof -
  let ?d = "\<lambda>p. small n (fst p :: 'c ycp) \<and> small n (snd p :: 'c ycp)"
  have pair: "three_way (\<lambda>p q. ord_then (compare (fst p) (fst q)) (compare (snd p) (snd q))) ?d"
  proof (rule three_way_then)
    show "three_way (\<lambda>p q. compare (fst p) (fst q)) ?d"
      by (rule three_way_subset [OF three_way_image [where f = fst, OF assms]]) simp
    show "three_way (\<lambda>p q. compare (snd p) (snd q)) ?d"
      by (rule three_way_subset [OF three_way_image [where f = snd, OF assms]]) simp
  qed
  show ?thesis
    unfolding map_compare_then [abs_def]
    by (rule three_way_then [OF three_way_key three_way.lex_three_way [OF pair]])
qed

lemma size_in_list [simp]: "x \<in> set xs \<Longrightarrow> size x < Suc (size_list size xs)"
  by (induction xs) auto

lemma size_in_map [simp]:
  "p \<in> set m \<Longrightarrow> size (fst p) < Suc (size_list (size_prod size size) m)"
  "p \<in> set m \<Longrightarrow> size (snd p) < Suc (size_list (size_prod size size) m)"
  using size_fst_snd_map [of p m] by simp_all

lemma small_content:
  "small (Suc n) (YList xs) \<Longrightarrow> list_all (small n) xs"
  "small (Suc n) (YTerm s xs) \<Longrightarrow> list_all (small n) xs"
  "small (Suc n) (YMap m) \<Longrightarrow> list_all (\<lambda>p. small n (fst p) \<and> small n (snd p)) m"
  unfolding small_def
  by (auto simp: list_all_iff intro: less_le_trans [OF size_in_list] less_le_trans [OF size_in_map(1)] less_le_trans [OF size_in_map(2)])

lemma compare_three_way_type:
  assumes IH: "three_way compare (small n :: 'c ycp \<Rightarrow> bool)"
  shows "three_way compare (\<lambda>v :: 'c ycp. small (Suc n) v \<and> valuetype v = k)"
proof -
  let ?d = "\<lambda>v :: 'c ycp. small (Suc n) v \<and> valuetype v = k"
  have unit: "three_way compare ?d" if "k \<in> {0, 12, 13, 14, 17}"
    by (rule three_way_ctor [where C = "\<lambda>x. x" and e = ?d, OF three_way_const]) (use that in \<open>auto intro: compare_unit\<close>)
  have none: "three_way compare ?d" if "k \<notin> {0, 1, 2, 3, 4, 5, 6, 7, 8, 9, 10, 12, 13, 14, 17}"
  proof -
    have "\<not> ?d v" for v using that by (cases v) (auto simp: small_def)
    then show ?thesis by (intro three_way.intro) auto
  qed
  consider "k \<in> {0, 12, 13, 14, 17}" | "k \<notin> {0, 1, 2, 3, 4, 5, 6, 7, 8, 9, 10, 12, 13, 14, 17}" | "k = 1" | "k = 2" | "k = 3"
    | "k = 4" | "k = 5" | "k = 6" | "k = 7" | "k = 8" | "k = 9" | "k = 10"
    by blast
  then show ?thesis
  proof cases
    case 3
    show ?thesis
      by (rule three_way_ctor [where C = YBoolean, OF three_way_key [where f = "\<lambda>x. x" and d = "\<lambda>_. True"]])
        (use 3 valuetype_iff(1) in auto)
  next
    case 4
    show ?thesis
      by (rule three_way_ctor [where C = YInteger, OF three_way_key [where f = sint and d = "\<lambda>_. True"]])
        (use 4 in \<open>auto simp: valuetype_iff integer_compare_def\<close>)
  next
    case 5
    show ?thesis
      by (rule three_way_ctor [where C = YFloat, OF float_three_way])
        (use 5 in \<open>auto simp: valuetype_iff small_def\<close>)
  next
    case 6
    show ?thesis
      by (rule three_way_ctor [where C = YString, OF string_order.three_way_axioms])
        (use 6 in \<open>auto simp: valuetype_iff\<close>)
  next
    case 7
    show ?thesis
      by (rule three_way_ctor [where C = YByteblock, OF byteblock_three_way]) (use 7 in \<open>auto simp: valuetype_iff\<close>)
  next
    case 8
    show ?thesis
      by (rule three_way_ctor [where C = YPath, OF path_three_way]) (use 8 in \<open>auto simp: valuetype_iff\<close>)
  next
    case 9
    show ?thesis
      by (rule three_way_ctor [where C = YSymbol, OF string_order.three_way_axioms])
        (use 9 in \<open>auto simp: valuetype_iff\<close>)
  next
    case 10
    show ?thesis
      by (rule three_way_ctor [where C = YList, OF list_three_way [OF IH]])
        (use 10 in \<open>auto simp: valuetype_iff dest: small_content\<close>)
  next
    case 11
    show ?thesis
      by (rule three_way_ctor [where C = "\<lambda>(s, xs). YTerm s xs", OF term_three_way [OF IH]])
        (use 11 in \<open>auto simp: valuetype_iff dest: small_content\<close>)
  next
    case 12
    show ?thesis
      by (rule three_way_ctor [where C = YMap, OF map_three_way [OF IH]])
        (use 12 in \<open>auto simp: valuetype_iff dest: small_content\<close>)
  qed (use unit none in blast)+
qed

lemma compare_three_way_small: "three_way compare (small n :: 'c ycp \<Rightarrow> bool)"
proof (induction n)
  case 0
  show ?case by (rule three_way.intro) (simp_all add: small_def)
next
  case (Suc n)
  show ?case
    by (rule three_way_ranked [where rank = valuetype, OF compare_three_way_type [OF Suc]])
      (auto simp: small_def intro!: compare_other_type)
qed

interpretation ycp_ord: three_way "compare :: 'c ycp \<Rightarrow> 'c ycp \<Rightarrow> ycp_order" ordered_value
proof (rule three_way.intro)
  fix x y z :: "'c ycp"
  let ?n = "Suc (size x + size y + size z)"
  note tw = compare_three_way_small [of ?n]
  have s: "ordered_value v \<Longrightarrow> size v \<le> size x + size y + size z \<Longrightarrow> small ?n v" for v :: "'c ycp"
    by (simp add: small_def)
  show "compare x x = YO_EQUAL" if "ordered_value x"
    by (rule three_way.cmp_refl [OF tw]) (simp add: s that)
  show "compare y x = flip_order (compare x y)" if "ordered_value x" "ordered_value y"
    by (rule three_way.cmp_flip [OF tw]) (simp_all add: s that)
  show "compare x y \<noteq> YO_CRASH" if "ordered_value x" "ordered_value y"
    by (rule three_way.cmp_returns [OF tw]) (simp_all add: s that)
  show "compare x z = ord_then (compare x y) (compare y z)"
    if "ordered_value x" "ordered_value y" "ordered_value z"
      "compare x y \<noteq> YO_GREATER" "compare y z \<noteq> YO_GREATER"
    by (rule three_way.cmp_trans [OF tw]) (simp_all add: s that)
qed

section \<open>Properties of the comparison\<close>

text \<open>
  C5. On values without null handles, NaNs, code and references \<^verbatim>\<open>YCPValueRep::compare\<close> is a total
  preorder: reflexive, antisymmetric in the sense that swapping the arguments swaps the result,
  transitive, and it always returns.
\<close>

theorem compare_total_preorder:
  assumes "ordered_value u" and "ordered_value v" and "ordered_value w"
  shows "compare v v = YO_EQUAL
    \<and> compare v u = flip_order (compare u v)
    \<and> compare u v \<noteq> YO_CRASH
    \<and> (compare u v \<noteq> YO_GREATER \<longrightarrow> compare v w \<noteq> YO_GREATER
        \<longrightarrow> compare u w = ord_then (compare u v) (compare v w))"
  using ycp_ord.cmp_refl [OF assms(2)] ycp_ord.cmp_flip [OF assms(1,2)]
    ycp_ord.cmp_returns [OF assms(1,2)] ycp_ord.cmp_trans [OF assms] by blast

theorem compare_total_preorder_witness:
  "compare (YList [YInteger 1]) (YList [YInteger 2 :: nat ycp])
     = ord_then (compare (YList [YInteger 1]) (YList [YInteger 1, YVoid :: nat ycp]))
         (compare (YList [YInteger 1, YVoid :: nat ycp]) (YList [YInteger 2]))"
  using compare_total_preorder [of "YList [YInteger 1]" "YList [YInteger 1, YVoid :: nat ycp]" "YList [YInteger 2]"]
  by (simp add: list_compare_def integer_compare_def key_compare_def)

text \<open>
  Outside that domain it is none: a NaN is greater than itself, and a code value and a reference
  are less than themselves, so such a value is not equal to itself and \<^verbatim>\<open>ycp_less\<close> is no strict
  weak order on it.
\<close>

theorem compare_irreflexive_values:
  assumes "dbl_nan d"
  shows "compare (YFloat d) (YFloat d :: 'c ycp) = YO_GREATER
    \<and> compare (YCode c) (YCode c) = YO_LESS
    \<and> compare (YReference e) (YReference e :: 'c ycp) = YO_LESS"
  using assms by (simp add: float_compare_def dbl_eq_def dbl_less_def)

theorem compare_irreflexive_values_witness:
  "compare (YFloat 0x7FF8000000000000) (YFloat 0x7FF8000000000000 :: nat ycp) = YO_GREATER"
proof -
  have "dbl_nan 0x7FF8000000000000" by code_simp
  then show ?thesis by (rule compare_irreflexive_values [THEN conjunct1])
qed

text \<open>
  The comparison of lists, a loop over the common prefix followed by a test of the lengths, is the
  lexicographic order of its elements; that of terms puts the name first, that of maps the size.
\<close>

theorem container_compare_lex:
  "compare (YList xs) (YList ys) = lex_compare compare xs ys
   \<and> compare (YTerm s xs) (YTerm t ys) = ord_then (string_compare s t) (lex_compare compare xs ys)
   \<and> compare (YMap m) (YMap n) = ord_then (key_compare (length m) (length n))
       (lex_compare (\<lambda>p q. ord_then (compare (fst p) (fst q)) (compare (snd p) (snd q))) m n)"
  by (simp add: list_compare_seq seq_compare_lex term_compare_then map_compare_then)

end
