(* ===== verification/YCP_Path.thy ===== *)
theory YCP_Path
  imports YCP_Value
begin

text \<open>
  Paths (\<^verbatim>\<open>libycp/src/YCPPath.cc\<close>): the scanner that turns the text of a path constant into its
  components, the printer, and the operations on the component vector.  The main result is the round
  trip: scanning what a well-formed path prints gives the path back, with every escape sequence.
\<close>

abbreviation DQUOTE :: char where "DQUOTE \<equiv> CHR 0x22"
abbreviation BSLASH :: char where "BSLASH \<equiv> CHR 0x5C"

section \<open>Components\<close>

text \<open>
  The unescaping loop of \<^verbatim>\<open>Component::Component(string)\<close>, after the opening quote.  \<^const>\<open>None\<close>: the
  text ends after a backslash and the constructor returns before it sets the component.
\<close>

fun unescape :: "string \<Rightarrow> string option" where
  "unescape [] = Some []"
| "unescape (c # cs) =
     (if c = BSLASH then
        (case cs of
           [] \<Rightarrow> None
         | e # es \<Rightarrow>
             if e = BSLASH then map_option (Cons BSLASH) (unescape es)
             else if e = CHR ''n'' then map_option (Cons (CHR 0x0A)) (unescape es)
             else if e = CHR ''t'' then map_option (Cons (CHR 0x09)) (unescape es)
             else if e = CHR ''r'' then map_option (Cons (CHR 0x0D)) (unescape es)
             else if e = CHR ''b'' then map_option (Cons (CHR 0x08)) (unescape es)
             else if e = CHR ''f'' then map_option (Cons (CHR 0x0C)) (unescape es)
             else if e = DQUOTE then map_option (Cons DQUOTE) (unescape es)
             else if e = CHR ''x'' then
               (case es of
                  h # l # es' \<Rightarrow>
                    if is_xdigit h \<and> is_xdigit l then
                      map_option (Cons (char_of (digit_val l + 16 * digit_val h))) (unescape es')
                    else if is_xdigit h then map_option (Cons (char_of (digit_val h))) (unescape (l # es'))
                    else map_option (Cons NUL) (unescape (h # l # es'))
                | [h] \<Rightarrow>
                    if is_xdigit h then map_option (Cons (char_of (digit_val h))) (unescape [])
                    else map_option (Cons NUL) (unescape [h])
                | [] \<Rightarrow> map_option (Cons NUL) (unescape []))
             else map_option (Cons e) (unescape es))
      else if c = DQUOTE then Some []
      else map_option (Cons c) (unescape cs))"

definition simple_char :: "char \<Rightarrow> bool" where
  "simple_char c \<longleftrightarrow> is_alnum c \<or> c = CHR ''_'' \<or> c = CHR ''-''"

text \<open>\<^verbatim>\<open>Component::Component(string s)\<close>.\<close>

definition component_of_string :: "string \<Rightarrow> path_component" where
  "component_of_string s =
     (if s \<noteq> [] \<and> hd s = DQUOTE then
        (case unescape (tl s) of
           None \<Rightarrow> \<lparr>component = [], is_complex = True\<rparr>
         | Some u \<Rightarrow> \<lparr>component = u, is_complex = True\<rparr>)
      else \<lparr>component = s, is_complex = \<not> list_all simple_char s\<rparr>)"

text \<open>\<^verbatim>\<open>Component::toString\<close>.\<close>

definition escape_char :: "char \<Rightarrow> string" where
  "escape_char c =
     (if c = DQUOTE then [BSLASH, DQUOTE]
      else if c = BSLASH then [BSLASH, BSLASH]
      else if c = CHR 0x0A then [BSLASH, CHR ''n'']
      else if c = CHR 0x09 then [BSLASH, CHR ''t'']
      else if c = CHR 0x0D then [BSLASH, CHR ''r'']
      else if c = CHR 0x08 then [BSLASH, CHR ''b'']
      else if c = CHR 0x0C then [BSLASH, CHR ''f'']
      else if is_print c then [c]
      else [BSLASH, CHR ''x'', digit_char (ccode c div 16), digit_char (ccode c mod 16)])"

definition escape :: "string \<Rightarrow> string" where
  "escape s = concat (map escape_char s)"

definition component_string :: "path_component \<Rightarrow> string" where
  "component_string k =
     (if \<not> is_complex k then component k
      else [DQUOTE] @ escape (c_str (component k)) @ [DQUOTE])"

section \<open>Scanning a path constant\<close>

datatype path_state = P_dot | P_simple | P_complex_first | P_complex

text \<open>
  The loop of \<^verbatim>\<open>YCPPathRep::YCPPathRep (const char *)\<close>: \<open>tok\<close> is the text from \<^verbatim>\<open>start\<close> up to the
  current character, \<open>comps\<close> the components found so far.  A dash next to a dot empties the path.
  \<^const>\<open>None\<close>: the text ends right after a backslash inside quotes, and the loop reads on behind
  the terminating NUL.
\<close>

fun path_scan :: "path_state \<Rightarrow> string \<Rightarrow> string \<Rightarrow> path_component list \<Rightarrow> path_component list option" where
  "path_scan st tok [] comps = Some comps"
| "path_scan P_dot tok (c # cs) comps =
     path_scan (if cs \<noteq> [] \<and> hd cs = DQUOTE then P_complex_first else P_simple) [] cs comps"
| "path_scan P_simple tok (c # cs) comps =
     (let p = tok @ [c] in
      if cs = [] \<or> hd cs = CHR ''.'' then
        if hd p = CHR ''-'' \<or> c = CHR ''-'' then Some []
        else path_scan P_dot [] cs (comps @ [component_of_string p])
      else path_scan P_simple p cs comps)"
| "path_scan P_complex_first tok (c # cs) comps = path_scan P_complex (tok @ [c]) cs comps"
| "path_scan P_complex tok (c # cs) comps =
     (if c = BSLASH then
        (case cs of [] \<Rightarrow> None | e # es \<Rightarrow> path_scan P_complex (tok @ [c, e]) es comps)
      else if c = DQUOTE then path_scan P_dot [] cs (comps @ [component_of_string (tok @ [c])])
      else path_scan P_complex (tok @ [c]) cs comps)"

definition path_of_string :: "string \<Rightarrow> path_component list option" where
  "path_of_string r = (let r = c_str r in if r = ''.'' then Some [] else path_scan P_dot [] r [])"

text \<open>\<^verbatim>\<open>YCPPathRep::toString\<close>.\<close>

definition path_string :: "path_component list \<Rightarrow> string" where
  "path_string p = (if p = [] then ''.'' else concat (map (\<lambda>k. CHR ''.'' # component_string k) p))"

section \<open>Operations\<close>

definition path_isRoot :: "path_component list \<Rightarrow> bool" where
  "path_isRoot p \<longleftrightarrow> p = []"

definition path_append :: "path_component list \<Rightarrow> path_component list \<Rightarrow> path_component list" where
  "path_append p q = p @ q"

definition path_append_string :: "path_component list \<Rightarrow> string \<Rightarrow> path_component list" where
  "path_append_string p s = p @ [\<lparr>component = s, is_complex = True\<rparr>]"

text \<open>The loop of \<^verbatim>\<open>isPrefixOf\<close>, which compares the component strings only.\<close>

fun prefix_loop :: "path_component list \<Rightarrow> path_component list \<Rightarrow> bool" where
  "prefix_loop (a # as) (b # bs) = (if component a \<noteq> component b then False else prefix_loop as bs)"
| "prefix_loop as bs = True"

definition path_isPrefixOf :: "path_component list \<Rightarrow> path_component list \<Rightarrow> bool" where
  "path_isPrefixOf p q = (if length q < length p then False else prefix_loop p q)"

text \<open>
  \<^verbatim>\<open>at (index)\<close> and \<^verbatim>\<open>prefix (index)\<close>.  The first starts its loop at \<^verbatim>\<open>index\<close>, the second runs up
  to it: a negative start or an end behind the last component reads outside the vector.
\<close>

definition path_at :: "path_component list \<Rightarrow> int \<Rightarrow> path_component list option" where
  "path_at p i = (if i < 0 then None else Some (drop (nat i) p))"

definition path_prefix :: "path_component list \<Rightarrow> int \<Rightarrow> path_component list option" where
  "path_prefix p i = (if int (length p) < i then None else Some (take (nat i) p))"

section \<open>The round trip\<close>

text \<open>
  The components a path holds: a complex component is any NUL-free text, a simple one a non-empty
  run of simple characters without a dash at either end.
\<close>

definition good_component :: "path_component \<Rightarrow> bool" where
  "good_component k \<longleftrightarrow>
     (if is_complex k then nul_free (component k)
      else component k \<noteq> [] \<and> list_all simple_char (component k)
        \<and> hd (component k) \<noteq> CHR ''-'' \<and> last (component k) \<noteq> CHR ''-'')"

definition good_path :: "path_component list \<Rightarrow> bool" where
  "good_path p \<longleftrightarrow> list_all good_component p"

lemma escape_simps [simp]: "escape [] = []" "escape (c # s) = escape_char c @ escape s"
  by (simp_all add: escape_def)

lemma unescape_escape_char:
  assumes "c \<noteq> NUL"
  shows "unescape (escape_char c @ s) = map_option (Cons c) (unescape s)"
proof -
  have hex: "digit_val (digit_char (ccode c mod 16)) + 16 * digit_val (digit_char (ccode c div 16)) = ccode c"
    using ccode_less [of c] by simp
  show ?thesis
    using hex ccode_less [of c] by (simp add: escape_char_def)
qed

lemma unescape_escape: "nul_free s \<Longrightarrow> unescape (escape s @ [DQUOTE]) = Some s"
  by (induction s) (simp_all add: unescape_escape_char)

lemma digit_char_plain [simp]:
  assumes "n < 16"
  shows "digit_char n \<noteq> BSLASH" and "digit_char n \<noteq> DQUOTE"
proof -
  have "is_xdigit (digit_char n)" by (rule is_xdigit_digit_char [OF assms])
  then show "digit_char n \<noteq> BSLASH" "digit_char n \<noteq> DQUOTE" by (auto simp: is_xdigit_def is_digit_def)
qed

lemma scan_escape_char:
  "path_scan P_complex tok (escape_char c @ s) comps = path_scan P_complex (tok @ escape_char c) s comps"
  using ccode_less [of c] by (simp add: escape_char_def)

lemma scan_escape:
  "path_scan P_complex tok (escape s @ DQUOTE # rest) comps
     = path_scan P_dot [] rest (comps @ [component_of_string (tok @ escape s @ [DQUOTE])])"
proof (induction s arbitrary: tok)
  case (Cons c s)
  then show ?case by (simp add: scan_escape_char del: path_scan.simps(5))
qed simp

lemma simple_char_plain: "simple_char c \<Longrightarrow> c \<noteq> CHR ''.'' \<and> c \<noteq> DQUOTE \<and> c \<noteq> NUL"
  by (auto simp: simple_char_def is_alnum_def is_alpha_def is_digit_def is_upper_def is_lower_def)

lemma scan_simple:
  assumes "s \<noteq> []" and "list_all simple_char s" and "hd (tok @ s) \<noteq> CHR ''-''" and "last s \<noteq> CHR ''-''"
    and "rest = [] \<or> hd rest = CHR ''.''"
  shows "path_scan P_simple tok (s @ rest) comps
    = path_scan P_dot [] rest (comps @ [component_of_string (tok @ s)])"
  using assms
proof (induction s arbitrary: tok)
  case (Cons c s)
  show ?case
  proof (cases "s = []")
    case True
    with Cons.prems show ?thesis by (cases tok) auto
  next
    case False
    have "hd (s @ rest) \<noteq> CHR ''.''"
      using False Cons.prems(2) simple_char_plain [of "hd s"] by (cases s) auto
    moreover have "path_scan P_simple (tok @ [c]) (s @ rest) comps
        = path_scan P_dot [] rest (comps @ [component_of_string ((tok @ [c]) @ s)])"
      using Cons.prems False by (intro Cons.IH) auto
    ultimately show ?thesis using False by (simp add: Let_def)
  qed
qed simp

lemma component_of_string_string:
  "good_component k \<Longrightarrow> component_of_string (component_string k) = k"
  using unescape_escape [of "component k"] simple_char_plain [of "hd (component k)"]
  by (cases "component k")
    (auto simp: good_component_def component_string_def component_of_string_def)

lemma scan_component:
  assumes "good_component k" and "rest = [] \<or> hd rest = CHR ''.''"
  shows "path_scan P_dot tok (CHR ''.'' # component_string k @ rest) comps
    = path_scan P_dot [] rest (comps @ [k])"
proof (cases "is_complex k")
  case True
  then have "component_string k = DQUOTE # escape (component k) @ [DQUOTE]"
    using assms(1) by (simp add: component_string_def good_component_def)
  then show ?thesis
    using component_of_string_string [OF assms(1)] scan_escape [of "[DQUOTE]" "component k" rest comps]
    by simp
next
  case False
  with assms(1) have k: "component_string k = component k" "component k \<noteq> []" "list_all simple_char (component k)"
    "hd (component k) \<noteq> CHR ''-''" "last (component k) \<noteq> CHR ''-''"
    by (simp_all add: component_string_def good_component_def)
  have "path_scan P_simple [] (component k @ rest) comps
      = path_scan P_dot [] rest (comps @ [component_of_string ([] @ component k)])"
    using k assms(2) by (intro scan_simple) auto
  moreover have "hd (component k @ rest) \<noteq> DQUOTE"
    using k simple_char_plain [of "hd (component k)"] by (cases "component k") auto
  ultimately show ?thesis
    using k component_of_string_string [OF assms(1)] by simp
qed

lemma scan_path:
  assumes "good_path p"
  shows "path_scan P_dot tok (concat (map (\<lambda>k. CHR ''.'' # component_string k) p)) comps = Some (comps @ p)"
  using assms
proof (induction p arbitrary: tok comps)
  case (Cons k p)
  have "concat (map (\<lambda>k. CHR ''.'' # component_string k) p) = []
      \<or> hd (concat (map (\<lambda>k. CHR ''.'' # component_string k) p)) = CHR ''.''"
    by (cases p) auto
  with Cons show ?case by (simp add: good_path_def scan_component del: path_scan.simps(2))
qed simp

lemma escape_char_nul_free: "c \<noteq> NUL \<Longrightarrow> nul_free (escape_char c)"
proof -
  have "digit_char n \<noteq> NUL" if "n < 16" for n
    using is_xdigit_digit_char [OF that] by (auto simp: is_xdigit_def is_digit_def)
  then show "c \<noteq> NUL \<Longrightarrow> nul_free (escape_char c)"
    using ccode_less [of c] by (simp add: escape_char_def)
qed

lemma component_string_nul_free: "good_component k \<Longrightarrow> nul_free (component_string k)"
proof -
  assume k: "good_component k"
  have "nul_free s \<Longrightarrow> nul_free (escape s)" for s
    by (induction s) (simp_all add: escape_char_nul_free)
  moreover have "list_all simple_char s \<Longrightarrow> nul_free s" for s
    by (induction s) (auto dest: simple_char_plain)
  ultimately show ?thesis
    using k by (auto simp: component_string_def good_component_def split: if_splits)
qed

lemma path_string_nul_free: "good_path p \<Longrightarrow> nul_free (path_string p)"
  unfolding path_string_def good_path_def
  by (induction p) (auto simp: component_string_nul_free split: if_splits)

lemma path_string_not_root: "good_path p \<Longrightarrow> p \<noteq> [] \<Longrightarrow> path_string p \<noteq> ''.''"
  by (cases p) (auto simp: path_string_def good_path_def good_component_def component_string_def split: if_splits)

lemma path_roundtrip: "good_path p \<Longrightarrow> path_of_string (path_string p) = Some p"
  using scan_path [of p "[]" "[]"] path_string_nul_free [of p] path_string_not_root [of p]
  by (cases "p = []") (simp_all add: path_of_string_def path_string_def)

section \<open>Properties of paths\<close>

text \<open>
  C21. Scanning the text a well-formed path prints gives the path back: \<^verbatim>\<open>YCPPathRep (p->toString ())\<close>
  is \<^verbatim>\<open>p\<close>, whatever bytes other than NUL its quoted components hold.
\<close>

theorem path_print_scan:
  assumes "good_path p"
  shows "path_of_string (path_string p) = Some p"
  using assms by (rule path_roundtrip)

theorem path_print_scan_witness:
  "path_of_string (path_string [\<lparr>component = ''etc'', is_complex = False\<rparr>,
      \<lparr>component = [DQUOTE, BSLASH, CHR 0x01, CHR ''.''], is_complex = True\<rparr>])
    = Some [\<lparr>component = ''etc'', is_complex = False\<rparr>,
      \<lparr>component = [DQUOTE, BSLASH, CHR 0x01, CHR ''.''], is_complex = True\<rparr>]"
  by (rule path_print_scan) code_simp

lemma prefix_loop_take:
  "length p \<le> length q \<Longrightarrow> prefix_loop p q \<longleftrightarrow> map component p = take (length p) (map component q)"
  by (induction p q rule: prefix_loop.induct) auto

lemma isPrefixOf_take: "path_isPrefixOf p q \<longleftrightarrow> map component p = take (length p) (map component q)"
proof (cases "length p \<le> length q")
  case False
  then have "map component p \<noteq> take (length p) (map component q)"
    by (metis length_map length_take min.absorb_iff2 nat_le_linear)
  with False show ?thesis by (simp add: path_isPrefixOf_def)
qed (simp add: path_isPrefixOf_def prefix_loop_take)

text \<open>
  When \<^verbatim>\<open>isPrefixOf\<close> holds, \<^verbatim>\<open>prefix\<close> and \<^verbatim>\<open>at\<close> at the length of the first path cut the second
  into a part with the same component texts as the first and a rest, and appending them restores it.
\<close>

theorem path_prefix_split:
  assumes "path_isPrefixOf p q"
  shows "\<exists>a b. path_prefix q (int (length p)) = Some a \<and> path_at q (int (length p)) = Some b
    \<and> path_append a b = q \<and> map component a = map component p"
proof -
  from assms have "length p \<le> length q" by (auto simp: path_isPrefixOf_def split: if_splits)
  with assms show ?thesis
    by (simp add: path_prefix_def path_at_def path_append_def isPrefixOf_take take_map)
qed

theorem path_prefix_split_witness:
  "\<exists>a b. path_prefix [\<lparr>component = ''a'', is_complex = False\<rparr>, \<lparr>component = ''b'', is_complex = False\<rparr>]
        (int (length [\<lparr>component = ''a'', is_complex = True\<rparr>])) = Some a
     \<and> path_at [\<lparr>component = ''a'', is_complex = False\<rparr>, \<lparr>component = ''b'', is_complex = False\<rparr>]
        (int (length [\<lparr>component = ''a'', is_complex = True\<rparr>])) = Some b
     \<and> path_append a b = [\<lparr>component = ''a'', is_complex = False\<rparr>, \<lparr>component = ''b'', is_complex = False\<rparr>]
     \<and> map component a = map component [\<lparr>component = ''a'', is_complex = True\<rparr>]"
  by (rule path_prefix_split) (simp add: path_isPrefixOf_def)

end
