(* ===== verification/YCP_Print.thy ===== *)
theory YCP_Print
  imports YCP_Path
begin

text \<open>
  Values as text: the \<^verbatim>\<open>toString\<close> method of every value class and the reading of an integer
  constant.  How a double is printed (\<^verbatim>\<open>%g\<close>) and how code and symbol entries print are parameters.
\<close>

section \<open>Scalars\<close>

definition boolean_string :: "bool \<Rightarrow> string" where
  "boolean_string b = (if b then ''true'' else ''false'')"

definition boolean_of_string :: "string \<Rightarrow> bool" where
  "boolean_of_string r \<longleftrightarrow> c_str r = ''true''"

text \<open>\<^verbatim>\<open>YCPIntegerRep::toString\<close>: \<^verbatim>\<open>%Ld\<close>.\<close>

definition integer_string :: "int64 \<Rightarrow> string" where
  "integer_string i = show_int (sint i)"

text \<open>
  \<^verbatim>\<open>sscanf\<close> with one integer conversion: white space is skipped, a sign is taken, then the digits of
  the base; without a digit nothing is converted.  A value that does not fit is clamped, as glibc does:
  \<^verbatim>\<open>%Ld\<close> to the range of \<^verbatim>\<open>long long\<close>, \<^verbatim>\<open>%Lo\<close> and \<^verbatim>\<open>%Lx\<close> to that of \<^verbatim>\<open>unsigned long long\<close>.
\<close>

definition base_digit :: "nat \<Rightarrow> char \<Rightarrow> bool" where
  "base_digit base c \<longleftrightarrow> is_xdigit c \<and> digit_val c < base"

definition take_sign :: "string \<Rightarrow> bool \<times> string" where
  "take_sign s =
     (case s of
        c # cs \<Rightarrow> if c = CHR ''-'' then (True, cs) else if c = CHR ''+'' then (False, cs) else (False, s)
      | [] \<Rightarrow> (False, []))"

definition scan_number :: "nat \<Rightarrow> string \<Rightarrow> int option" where
  "scan_number base s =
     (let (neg, r) = take_sign (dropWhile is_space s);
          r = (if base = 16 \<and> length r > 1 \<and> hd r = CHR ''0'' \<and> r ! 1 \<in> {CHR ''x'', CHR ''X''} then drop 2 r else r);
          ds = takeWhile (base_digit base) r
      in if ds = [] then None
         else Some (if neg then - int (digits_val base ds) else int (digits_val base ds)))"

definition clamp_signed :: "int \<Rightarrow> int64" where
  "clamp_signed i = word_of_int (max (- (2 ^ 63)) (min (2 ^ 63 - 1) i))"

definition clamp_unsigned :: "int \<Rightarrow> int64" where
  "clamp_unsigned i = (if 2 ^ 64 \<le> \<bar>i\<bar> then - 1 else word_of_int i)"

text \<open>\<^verbatim>\<open>YCPIntegerRep::YCPIntegerRep (const char *r, bool *valid)\<close>: the value and \<^verbatim>\<open>*valid\<close>.\<close>

definition integer_of_string :: "string \<Rightarrow> int64 \<times> bool" where
  "integer_of_string r0 =
     (let r = c_str r0;
          converted =
            (if r \<noteq> [] \<and> hd r = CHR ''0'' then
               if length r > 1 \<and> r ! 1 = CHR ''x''
               then map_option clamp_unsigned (scan_number 16 r)
               else map_option clamp_unsigned (scan_number 8 r)
             else map_option clamp_signed (scan_number 10 r))
      in case converted of Some v \<Rightarrow> (v, True) | None \<Rightarrow> (0, False))"

text \<open>\<^verbatim>\<open>YCPStringRep::toString\<close>.\<close>

definition string_escape_char :: "char \<Rightarrow> string" where
  "string_escape_char c =
     (if c = CHR 0x0A then [BSLASH, CHR ''n'']
      else if c = CHR 0x09 then [BSLASH, CHR ''t'']
      else if c = CHR 0x0D then [BSLASH, CHR ''r'']
      else if c = CHR 0x0C then [BSLASH, CHR ''f'']
      else if c = CHR 0x08 then [BSLASH, CHR ''b'']
      else if ccode c < 32 then
        [BSLASH, digit_char (ccode c div 64), digit_char (ccode c div 8 mod 8), digit_char (ccode c mod 8)]
      else if c = DQUOTE \<or> c = BSLASH then [BSLASH, c]
      else [c])"

definition string_string :: "string \<Rightarrow> string" where
  "string_string v = [DQUOTE] @ concat (map string_escape_char (c_str v)) @ [DQUOTE]"

text \<open>\<^verbatim>\<open>YCPByteblockRep::toString\<close>: 32 bytes to a group, a space after every full group.\<close>

definition hex_byte :: "byte \<Rightarrow> string" where
  "hex_byte b = [digit_char (unat b div 16), digit_char (unat b mod 16)]"

function byteblock_groups :: "byte list \<Rightarrow> string" where
  "byteblock_groups bs =
     (if bs = [] then []
      else concat (map hex_byte (take 32 bs)) @ (if 32 \<le> length bs then '' '' else []) @ byteblock_groups (drop 32 bs))"
  by pat_completeness auto
termination by (relation "measure length") auto

declare byteblock_groups.simps [simp del]

definition byteblock_string :: "byte list \<Rightarrow> string" where
  "byteblock_string bs = ''#['' @ byteblock_groups bs @ '']''"

section \<open>All values\<close>

fun comma_join :: "string list \<Rightarrow> string" where
  "comma_join [] = []"
| "comma_join [s] = s"
| "comma_join (s # t # ss) = s @ '', '' @ comma_join (t # ss)"

record 'c printers =
  float_str :: "double \<Rightarrow> string"
  code_str :: "'c \<Rightarrow> string"
  entry_str :: "nat \<Rightarrow> string"

text \<open>
  \<^verbatim>\<open>toString\<close>, class by class.  Lists and maps print a null handle they hold as \<^verbatim>\<open>(null)\<close>; calling
  the method through a null handle is not defined in the sources, the model prints the same text.
\<close>

fun toString :: "'c printers \<Rightarrow> 'c ycp \<Rightarrow> string" where
  "toString P YNull = ''(null)''"
| "toString P YVoid = ''nil''"
| "toString P (YBoolean b) = boolean_string b"
| "toString P (YInteger i) = integer_string i"
| "toString P (YFloat d) = float_str P d"
| "toString P (YString s) = string_string s"
| "toString P (YByteblock bs) = byteblock_string bs"
| "toString P (YPath p) = path_string p"
| "toString P (YSymbol s) = CHR 0x60 # s"
| "toString P (YList xs) = ''['' @ comma_join (map (toString P) xs) @ '']''"
| "toString P (YTerm s xs) = CHR 0x60 # s @ '' ('' @ comma_join (map (toString P) xs) @ '')''"
| "toString P (YMap m) = ''$['' @ comma_join (map (\<lambda>p. toString P (fst p) @ '':'' @ toString P (snd p)) m) @ '']''"
| "toString P (YCode c) = code_str P c"
| "toString P YReturn = ''nil''"
| "toString P YBreak = ''nil''"
| "toString P (YEntry e) = entry_str P e"
| "toString P (YReference e) = ''<YCPRef:'' @ entry_str P e @ ''>''"
| "toString P (YExternal e magic) = ''<YCPExternal payload: magic '' @ [CHR 0x27] @ magic @ [CHR 0x27] @ ''>''"

section \<open>Properties\<close>

lemma sint_bounds: "- (2 ^ 63) \<le> sint (i :: int64)" "sint (i :: int64) < 2 ^ 63"
  using sint_ge [of i] sint_lt [of i] by simp_all

lemma base_digit_show_nat: "\<forall>c \<in> set (show_nat n). base_digit 10 c"
proof
  fix c assume "c \<in> set (show_nat n)"
  with show_nat_digits have "is_digit c" by blast
  then show "base_digit 10 c"
    by (auto simp: base_digit_def is_xdigit_def digit_val_def is_digit_def)
qed

lemma show_nat_no_space:
  "dropWhile is_space (show_nat n) = show_nat n" "take_sign (show_nat n) = (False, show_nat n)"
proof -
  obtain c cs where c: "show_nat n = c # cs" by (cases "show_nat n") auto
  with show_nat_digits [of n] have "is_digit c" by simp
  then have "\<not> is_space c" "c \<noteq> CHR ''-''" "c \<noteq> CHR ''+''"
    by (auto simp: is_digit_def is_space_def)
  with c show "dropWhile is_space (show_nat n) = show_nat n" "take_sign (show_nat n) = (False, show_nat n)"
    by (simp_all add: take_sign_def)
qed

lemma scan_show_int: "scan_number 10 (show_int i) = Some i"
proof -
  have tw: "takeWhile (base_digit 10) (show_nat n) = show_nat n" for n
    by (rule takeWhile_eq_all_conv [THEN iffD2]) (rule base_digit_show_nat)
  have neg: "\<not> is_space (CHR ''-'')" "take_sign (CHR ''-'' # r) = (True, r)" for r
    by (simp_all add: take_sign_def is_space_def)
  show ?thesis
    by (simp add: scan_number_def show_int_def tw neg show_nat_no_space)
qed

lemma show_int_nul_free: "nul_free (show_int i)"
proof -
  have "nul_free (show_nat n)" for n
    using show_nat_digits [of n] by (auto simp: nul_free_def is_digit_def)
  then show ?thesis by (simp add: show_int_def)
qed

lemma show_int_hd: "hd (show_int i) = CHR ''0'' \<Longrightarrow> i = 0"
  using show_nat_hd [of "nat i"] by (cases "i < 0"; cases "i = 0") (auto simp: show_int_def)

lemma integer_roundtrip: "integer_of_string (integer_string i) = (i, True)"
proof (cases "i = 0")
  case True
  have "integer_of_string (integer_string 0) = (0, True)" by code_simp
  with True show ?thesis by simp
next
  case False
  then have "sint i \<noteq> 0" by (metis signed_word_eqI sint_0)
  then have "hd (show_int (sint i)) \<noteq> CHR ''0''" using show_int_hd by blast
  moreover have "clamp_signed (sint i) = i"
    using sint_bounds [of i] by (simp add: clamp_signed_def)
  ultimately show ?thesis
    by (simp add: integer_of_string_def integer_string_def show_int_nul_free scan_show_int)
qed

lemma length_byteblock_groups: "length (byteblock_groups bs) = 2 * length bs + length bs div 32"
proof (induction bs rule: byteblock_groups.induct)
  case (1 bs)
  have hex: "length (concat (map hex_byte xs)) = 2 * length xs" for xs
    by (induction xs) (simp_all add: hex_byte_def)
  show ?case
  proof (cases "bs = []")
    case False
    with 1 have "length (byteblock_groups (drop 32 bs)) = 2 * (length bs - 32) + (length bs - 32) div 32" by simp
    with False show ?thesis
      by (subst byteblock_groups.simps) (auto simp: hex min_def le_div_geq)
  qed (simp add: byteblock_groups.simps)
qed

section \<open>Properties of printing\<close>

text \<open>
  Every 64 bit integer survives \<^verbatim>\<open>toString\<close> and the constructor from text, which reports the text
  as valid: the decimal notation never falls into the octal or hexadecimal branch.
\<close>

theorem integer_print_scan: "integer_of_string (integer_string i) = (i, True)"
  by (rule integer_roundtrip)

text \<open>
  The text of a byte block has two digits per byte, one space per full group of 32 bytes and three
  characters of brackets; \<^verbatim>\<open>toString\<close> reserves more than that whenever the last group is partial.
\<close>

theorem byteblock_string_length: "length (byteblock_string bs) = 2 * length bs + length bs div 32 + 3"
  by (simp add: byteblock_string_def length_byteblock_groups)

end
