(* ===== verification/YCP_Container.thy ===== *)
theory YCP_Container
  imports YCP_Print
begin

text \<open>
  Lists, terms and maps (\<^verbatim>\<open>YCPList.cc\<close>, \<^verbatim>\<open>YCPTerm.cc\<close>, \<^verbatim>\<open>YCPMap.cc\<close>).  The representation of a map is
  the sequence of its pairs in key order, as \<^verbatim>\<open>std::map\<close> iterates them; the locale \<open>finite_map\<close>
  states what a client may rely on, and \<open>ymap\<close> interprets it on the operations of \<^verbatim>\<open>YCPMapRep\<close>.
\<close>

definition ycp_less :: "'c ycp \<Rightarrow> 'c ycp \<Rightarrow> bool" where
  "ycp_less = cmp_less compare"

definition ycp_equal_to :: "'c ycp \<Rightarrow> 'c ycp \<Rightarrow> bool" where
  "ycp_equal_to x y \<longleftrightarrow> compare x y = YO_EQUAL"

text \<open>
  \<^verbatim>\<open>compare (v, rl)\<close>: with \<^verbatim>\<open>rl\<close> two strings are compared by the collation of the locale, the parameter
  \<open>coll\<close> (\<^verbatim>\<open>wcscoll\<close> on the decoded text); the flag is not passed on to the elements of a list.
\<close>

definition compare_rl :: "(string \<Rightarrow> string \<Rightarrow> int) \<Rightarrow> bool \<Rightarrow> 'c ycp \<Rightarrow> 'c ycp \<Rightarrow> ycp_order" where
  "compare_rl coll rl v w =
     (case v of
        YString a \<Rightarrow> (case w of
            YString b \<Rightarrow> if rl then key_compare (coll (c_str a) (c_str b)) 0 else compare v w
          | _ \<Rightarrow> compare v w)
      | _ \<Rightarrow> compare v w)"

section \<open>Lists\<close>

type_synonym 'c ylist = "'c ycp list"

definition list_size :: "'c ylist \<Rightarrow> nat" where "list_size xs = length xs"
definition list_isEmpty :: "'c ylist \<Rightarrow> bool" where "list_isEmpty xs \<longleftrightarrow> xs = []"
definition list_add :: "'c ylist \<Rightarrow> 'c ycp \<Rightarrow> 'c ylist" where "list_add xs v = xs @ [v]"

text \<open>\<^verbatim>\<open>set (i, value)\<close>: ignored for a negative index, otherwise the list is filled up with \<^verbatim>\<open>nil\<close>.\<close>

definition list_set :: "'c ylist \<Rightarrow> int \<Rightarrow> 'c ycp \<Rightarrow> 'c ylist" where
  "list_set xs i v =
     (if i < 0 then xs
      else (xs @ replicate (nat i + 1 - length xs) YVoid)[nat i := v])"

text \<open>\<^verbatim>\<open>remove (n)\<close> aborts on an index out of range.\<close>

definition list_remove :: "'c ylist \<Rightarrow> int \<Rightarrow> 'c ylist option" where
  "list_remove xs n =
     (if n < 0 \<or> int (length xs) \<le> n then None
      else Some (take (nat n) xs @ drop (nat n + 1) xs))"

definition list_swap :: "'c ylist \<Rightarrow> int \<Rightarrow> int \<Rightarrow> 'c ylist" where
  "list_swap xs x y =
     (if x < 0 \<or> int (length xs) \<le> x \<or> y < 0 \<or> int (length xs) \<le> y then xs
      else xs[nat x := xs ! nat y, nat y := xs ! nat x])"

definition list_contains :: "'c ylist \<Rightarrow> 'c ycp \<Rightarrow> bool" where
  "list_contains xs v \<longleftrightarrow> find (\<lambda>x. ycp_equal_to x v) xs \<noteq> None"

definition list_sortlist :: "'c ylist \<Rightarrow> 'c ylist" where
  "list_sortlist xs = std_sort ycp_less xs"

definition list_lsortlist :: "(string \<Rightarrow> string \<Rightarrow> int) \<Rightarrow> 'c ylist \<Rightarrow> 'c ylist" where
  "list_lsortlist coll xs = std_sort (\<lambda>x y. compare_rl coll True x y = YO_LESS) xs"

text \<open>\<^verbatim>\<open>YCPCodeCompare::operator ()\<close> on what the code evaluates to: anything but \<^verbatim>\<open>true\<close> is false.\<close>

definition code_compare :: "('c ycp \<Rightarrow> 'c ycp \<Rightarrow> 'c ycp) \<Rightarrow> 'c ycp \<Rightarrow> 'c ycp \<Rightarrow> bool" where
  "code_compare order a b =
     (let ret = order a b in
      if isNull ret then False
      else if \<not> isBoolean ret then False
      else (case ret of YBoolean r \<Rightarrow> r | _ \<Rightarrow> False))"

definition list_fsortlist :: "('c ycp \<Rightarrow> 'c ycp \<Rightarrow> 'c ycp) \<Rightarrow> 'c ylist \<Rightarrow> 'c ylist" where
  "list_fsortlist order xs = std_sort (code_compare order) xs"

definition list_functionalAdd :: "'c ylist \<Rightarrow> 'c ycp \<Rightarrow> bool \<Rightarrow> 'c ylist" where
  "list_functionalAdd xs v prepend = (if prepend then [v] else []) @ xs @ (if \<not> prepend then [v] else [])"

text \<open>\<^verbatim>\<open>value (n)\<close>: null for an index out of range.\<close>

definition list_value :: "'c ylist \<Rightarrow> int \<Rightarrow> 'c ycp" where
  "list_value xs n = (if n < 0 \<or> int (length xs) \<le> n then YNull else xs ! nat n)"

lemma length_list_set:
  "length (list_set xs i v) = (if i < 0 then length xs else max (length xs) (nat i + 1))"
  by (simp add: list_set_def max_def)

lemma list_value_set:
  assumes "0 \<le> i"
  shows "list_value (list_set xs i v) j =
    (if j = i then v
     else if int (length xs) \<le> j \<and> j < i then YVoid else list_value xs j)"
proof -
  have "j \<noteq> i \<Longrightarrow> 0 \<le> j \<Longrightarrow> nat j \<noteq> nat i" using assms by auto
  then show ?thesis
    using assms
    by (auto simp: list_value_def list_set_def nth_append nth_list_update max_def not_less less_diff_conv)
qed

lemma list_value_add: "list_value (list_add xs v) (int (length xs)) = v"
  by (simp add: list_value_def list_add_def)

lemma list_remove_set: "list_remove xs n = Some ys \<Longrightarrow> length ys + 1 = length xs"
  by (auto simp: list_remove_def min_def split: if_splits)

lemma list_contains_iff: "list_contains xs v \<longleftrightarrow> (\<exists>x \<in> set xs. compare x v = YO_EQUAL)"
  by (auto simp: list_contains_def ycp_equal_to_def find_None_iff)

lemma list_swap_mset: "mset (list_swap xs x y) = mset xs"
  by (auto simp: list_swap_def intro: mset_swap)

section \<open>Maps\<close>

type_synonym 'c ymap = "('c ycp \<times> 'c ycp) list"

definition is_key :: "'c ycp \<Rightarrow> bool" where
  "is_key k \<longleftrightarrow> isString k \<or> isInteger k \<or> isSymbol k"

text \<open>\<^verbatim>\<open>add (key, value)\<close>: a key of another type is reported and ignored.\<close>

definition ymap_add :: "'c ymap \<Rightarrow> 'c ycp \<Rightarrow> 'c ycp \<Rightarrow> 'c ymap" where
  "ymap_add m k v = (if \<not> isString k \<and> \<not> isInteger k \<and> \<not> isSymbol k then m else smap_assign ycp_less k v m)"

text \<open>\<^verbatim>\<open>functionalAdd\<close> copies pair by pair, then adds; null for a key of another type.\<close>

definition ymap_functionalAdd :: "'c ymap \<Rightarrow> 'c ycp \<Rightarrow> 'c ycp \<Rightarrow> 'c ycp" where
  "ymap_functionalAdd m k v =
     (if \<not> isString k \<and> \<not> isInteger k \<and> \<not> isSymbol k then YNull
      else YMap (ymap_add (foldl (\<lambda>n p. ymap_add n (fst p) (snd p)) [] m) k v))"

definition ymap_remove :: "'c ymap \<Rightarrow> 'c ycp \<Rightarrow> 'c ymap" where
  "ymap_remove m k = (if \<not> isString k \<and> \<not> isInteger k \<and> \<not> isSymbol k then m else smap_erase ycp_less k m)"

definition ymap_shallowCopy :: "'c ymap \<Rightarrow> 'c ymap" where
  "ymap_shallowCopy m = foldl (\<lambda>n p. ymap_add n (fst p) (snd p)) [] m"

definition ymap_size :: "'c ymap \<Rightarrow> nat" where "ymap_size m = length m"
definition ymap_isEmpty :: "'c ymap \<Rightarrow> bool" where "ymap_isEmpty m \<longleftrightarrow> m = []"

definition ymap_hasKey :: "'c ymap \<Rightarrow> 'c ycp \<Rightarrow> bool" where
  "ymap_hasKey m k \<longleftrightarrow> smap_find ycp_less k m \<noteq> None"

definition ymap_value :: "'c ymap \<Rightarrow> 'c ycp \<Rightarrow> 'c ycp" where
  "ymap_value m k = (case smap_find ycp_less k m of Some v \<Rightarrow> v | None \<Rightarrow> YNull)"

text \<open>The representation invariant: keys of a key type, strictly increasing.\<close>

definition ymap_inv :: "'c ymap \<Rightarrow> bool" where
  "ymap_inv m \<longleftrightarrow> list_all is_key (map fst m) \<and> sorted_wrt ycp_less (map fst m)"

lemma is_key_ordered: "is_key k \<Longrightarrow> ordered_value k"
  by (auto simp: is_key_def)

lemma is_key_simps [simp]: "is_key (YString s)" "is_key (YInteger i)" "is_key (YSymbol s)" "\<not> is_key YNull" "\<not> is_key YVoid"
  by (simp_all add: is_key_def)

text \<open>On keys the comparison is a linear order: only a key itself compares equal to it.\<close>

lemma key_equal: "is_key k \<Longrightarrow> is_key l \<Longrightarrow> compare k l = YO_EQUAL \<longleftrightarrow> k = l"
  by (auto simp: is_key_def integer_compare_def cmp_simps compare_other_type signed_word_eqI)

interpretation key_ord: three_way "compare :: 'c ycp \<Rightarrow> 'c ycp \<Rightarrow> ycp_order" is_key
  by (rule three_way_subset [OF ycp_ord.three_way_axioms is_key_ordered])

lemma ymap_inv_smap: "ymap_inv m \<longleftrightarrow> key_ord.smap_inv m"
  by (simp add: ymap_inv_def key_ord.smap_inv_def ycp_less_def)

section \<open>The contract of a finite map\<close>

locale finite_map =
  fixes fm_empty :: "'m"
    and fm_add :: "'m \<Rightarrow> 'k \<Rightarrow> 'v \<Rightarrow> 'm"
    and fm_remove :: "'m \<Rightarrow> 'k \<Rightarrow> 'm"
    and fm_lookup :: "'m \<Rightarrow> 'k \<Rightarrow> 'v option"
    and fm_inv :: "'m \<Rightarrow> bool"
    and fm_key :: "'k \<Rightarrow> bool"
  assumes inv_empty: "fm_inv fm_empty"
    and inv_add: "fm_inv m \<Longrightarrow> fm_inv (fm_add m k v)"
    and inv_remove: "fm_inv m \<Longrightarrow> fm_inv (fm_remove m k)"
    and lookup_empty: "fm_lookup fm_empty k = None"
    and lookup_add: "fm_inv m \<Longrightarrow> fm_key k \<Longrightarrow> fm_key l
      \<Longrightarrow> fm_lookup (fm_add m k v) l = (if l = k then Some v else fm_lookup m l)"
    and lookup_remove: "fm_inv m \<Longrightarrow> fm_key k \<Longrightarrow> fm_key l
      \<Longrightarrow> fm_lookup (fm_remove m k) l = (if l = k then None else fm_lookup m l)"
    and add_no_key: "\<not> fm_key k \<Longrightarrow> fm_add m k v = m"
begin

definition add_pairs :: "'m \<Rightarrow> ('k \<times> 'v) list \<Rightarrow> 'm" where
  "add_pairs m ps = foldl (\<lambda>n p. fm_add n (fst p) (snd p)) m ps"

lemma add_pairs_simps [simp]:
  "add_pairs m [] = m" "add_pairs m (p # ps) = add_pairs (fm_add m (fst p) (snd p)) ps"
  by (simp_all add: add_pairs_def)

lemma add_pairs_inv: "fm_inv m \<Longrightarrow> fm_inv (add_pairs m ps)"
  by (induction ps arbitrary: m) (simp_all add: inv_add)

text \<open>Adding pairs one after the other: the last one for a key wins, the others stay.\<close>

lemma lookup_add_pairs:
  "fm_inv m \<Longrightarrow> fm_key l \<Longrightarrow> fm_lookup (add_pairs m ps) l =
     (case map_of (rev (filter (\<lambda>p. fm_key (fst p)) ps)) l of Some v \<Rightarrow> Some v | None \<Rightarrow> fm_lookup m l)"
proof (induction ps arbitrary: m)
  case (Cons p ps)
  show ?case
  proof (cases "fm_key (fst p)")
    case True
    with Cons show ?thesis
      by (auto simp: inv_add lookup_add map_add_def split: option.split)
  next
    case False
    with Cons show ?thesis by (simp add: add_no_key)
  qed
qed simp

end

interpretation ymap: finite_map "[]" ymap_add ymap_remove "\<lambda>m k. smap_find ycp_less k m" ymap_inv is_key
proof (unfold_locales)
  fix m :: "'c ymap" and k l v :: "'c ycp"
  show "ymap_inv []" by (simp add: ymap_inv_def)
  show "ymap_inv (ymap_add m k v)" if "ymap_inv m"
    using that key_ord.smap_inv_assign [of m k v] unfolding ymap_inv_smap ymap_add_def ycp_less_def
    by (auto simp: is_key_def)
  show "ymap_inv (ymap_remove m k)" if "ymap_inv m"
    using that key_ord.smap_inv_erase [of m k] unfolding ymap_inv_smap ymap_remove_def ycp_less_def
    by auto
  show "smap_find ycp_less k [] = None" by simp
  show "smap_find ycp_less l (ymap_add m k v) = (if l = k then Some v else smap_find ycp_less l m)"
    if "ymap_inv m" "is_key k" "is_key l"
    using that key_ord.smap_find_assign [of m k l v] key_equal [of l k]
    unfolding ymap_inv_smap ymap_add_def ycp_less_def by (auto simp: is_key_def)
  show "smap_find ycp_less l (ymap_remove m k) = (if l = k then None else smap_find ycp_less l m)"
    if "ymap_inv m" "is_key k" "is_key l"
    using that key_ord.smap_find_erase [of m k l] key_equal [of l k]
    unfolding ymap_inv_smap ymap_remove_def ycp_less_def by (auto simp: is_key_def)
  show "ymap_add m k v = m" if "\<not> is_key k"
    using that by (auto simp: is_key_def ymap_add_def)
qed

section \<open>Copies and lookups\<close>

lemma smap_assign_last: "\<forall>a \<in> fst ` set m. ls a k \<Longrightarrow> smap_assign ls k v m = m @ [(k, v)]"
  by (induction ls k v m rule: smap_assign.induct) auto

lemma ymap_inv_append:
  "ymap_inv (m @ n) \<longleftrightarrow> ymap_inv m \<and> ymap_inv n \<and> (\<forall>a \<in> fst ` set m. \<forall>b \<in> fst ` set n. ycp_less a b)"
  by (auto simp: ymap_inv_def sorted_wrt_append)

lemma add_pairs_sorted: "ymap_inv (m @ n) \<Longrightarrow> ymap.add_pairs m n = m @ n"
proof (induction n arbitrary: m)
  case (Cons p n)
  obtain k v where p: "p = (k, v)" by (cases p)
  from Cons.prems have "is_key k" "\<forall>a \<in> fst ` set m. ycp_less a k"
    unfolding p by (auto simp: ymap_inv_def sorted_wrt_append)
  then have "ymap_add m k v = m @ [(k, v)]"
    by (auto simp: ymap_add_def is_key_def smap_assign_last)
  with Cons show ?case unfolding p by simp
qed simp

text \<open>Copying pair by pair reproduces a map, so \<^verbatim>\<open>functionalAdd\<close> and \<^verbatim>\<open>shallowCopy\<close> lose nothing.\<close>

lemma map_copy: "ymap_inv m \<Longrightarrow> foldl (\<lambda>n p. ymap_add n (fst p) (snd p)) [] m = m"
  using add_pairs_sorted [of "[]" m] by (simp add: ymap.add_pairs_def)

lemma map_find_map_of: "ymap_inv m \<Longrightarrow> is_key k \<Longrightarrow> smap_find ycp_less k m = map_of m k"
proof (induction m rule: rev_induct)
  case (snoc p m)
  obtain a v where p: "p = (a, v)" by (cases p)
  from snoc.prems have m: "ymap_inv m" "is_key a" "\<forall>b \<in> fst ` set m. ycp_less b a"
    unfolding p by (auto simp: ymap_inv_def sorted_wrt_append)
  then have add: "ymap_add m a v = m @ [p]"
    unfolding p by (auto simp: ymap_add_def is_key_def smap_assign_last)
  have "a \<notin> fst ` set m"
    using m key_ord.lt_irrefl [of a] by (auto simp: ycp_less_def)
  then have "map_of m a = None" by (simp add: map_of_eq_None_iff)
  then have "map_of (m @ [p]) k = (if k = a then Some v else map_of m k)"
    unfolding p by (simp add: map_add_def split: option.split)
  then show ?case
    using ymap.lookup_add [OF m(1,2) snoc.prems(2), of v] snoc.IH [OF m(1) snoc.prems(2)] unfolding add by simp
qed simp

text \<open>Well-formed values: no null handle inside, every map in representation order.\<close>

fun wf_value :: "'c ycp \<Rightarrow> bool" where
  "wf_value YNull = False"
| "wf_value (YList xs) = list_all wf_value xs"
| "wf_value (YTerm s xs) = list_all wf_value xs"
| "wf_value (YMap m) = (ymap_inv m \<and> list_all (\<lambda>p. wf_value (snd p)) m)"
| "wf_value _ = True"

section \<open>Properties of lists and maps\<close>

lemmas ymap_reads = ymap_value_def ymap_hasKey_def map_find_map_of domIff

lemma map_of_ymap_add:
  "ymap_inv m \<Longrightarrow> is_key k \<Longrightarrow> is_key l \<Longrightarrow> map_of (ymap_add m k v) l = ((map_of m)(k \<mapsto> v)) l"
  using ymap.lookup_add [of m k l v] map_find_map_of [OF ymap.inv_add, of m l k v] map_find_map_of [of m l] by simp

lemma map_of_ymap_remove:
  "ymap_inv m \<Longrightarrow> is_key k \<Longrightarrow> is_key l \<Longrightarrow> map_of (ymap_remove m k) l = ((map_of m)(k := None)) l"
  using ymap.lookup_remove [of m k l] map_find_map_of [OF ymap.inv_remove, of m l k] map_find_map_of [of m l] by simp

text \<open>
  C11. The operations of \<^verbatim>\<open>YCPMapRep\<close> implement finite partial maps: on a map in representation order
  \<^verbatim>\<open>add\<close> and \<^verbatim>\<open>remove\<close> keep the order and update and delete exactly the given key of the abstract map,
  and \<^verbatim>\<open>value\<close> and \<^verbatim>\<open>hasKey\<close> read it.
\<close>

theorem ymap_refines_map:
  assumes "ymap_inv m" and "is_key k" and "is_key l"
  shows "ymap_inv (ymap_add m k v) \<and> ymap_inv (ymap_remove m k)
    \<and> map_of (ymap_add m k v) l = ((map_of m)(k \<mapsto> v)) l
    \<and> map_of (ymap_remove m k) l = ((map_of m)(k := None)) l
    \<and> ymap_value m k = (case map_of m k of None \<Rightarrow> YNull | Some w \<Rightarrow> w)
    \<and> (ymap_hasKey m k \<longleftrightarrow> k \<in> dom (map_of m))"
  using assms
  by (simp add: ymap.inv_add ymap.inv_remove map_of_ymap_add map_of_ymap_remove ymap_reads split: option.split)

theorem ymap_refines_map_witness:
  "map_of (ymap_add [(YInteger 1, YVoid)] (YString ''a'') (YBoolean True :: nat ycp)) (YInteger 1)
     = ((map_of [(YInteger 1, YVoid)])(YString ''a'' \<mapsto> (YBoolean True :: nat ycp))) (YInteger 1)"
proof -
  have "ymap_inv [(YInteger 1, YVoid :: nat ycp)]" by (simp add: ymap_inv_def)
  from ymap_refines_map [OF this, of "YString ''a''" "YInteger 1" "YBoolean True"] show ?thesis by simp
qed

text \<open>
  A key that is no string, integer or symbol is refused: \<^verbatim>\<open>add\<close> and \<^verbatim>\<open>remove\<close> leave the map as it
  is and \<^verbatim>\<open>functionalAdd\<close> gives null; otherwise \<^verbatim>\<open>functionalAdd\<close> is \<^verbatim>\<open>add\<close> on the copy it makes pair by
  pair, and that copy, like \<^verbatim>\<open>shallowCopy\<close>, is the map itself.
\<close>

theorem ymap_copies:
  assumes "ymap_inv m"
  shows "ymap_shallowCopy m = m
    \<and> ymap_functionalAdd m k v = (if is_key k then YMap (ymap_add m k v) else YNull)
    \<and> (\<not> is_key k \<longrightarrow> ymap_add m k v = m \<and> ymap_remove m k = m)"
  using map_copy [OF assms]
  by (auto simp: ymap_shallowCopy_def ymap_functionalAdd_def is_key_def ymap_add_def ymap_remove_def)

theorem ymap_copies_witness:
  "ymap_shallowCopy [(YInteger 1, YVoid), (YInteger 2, YVoid)] = [(YInteger 1, YVoid), (YInteger 2, YVoid :: nat ycp)]"
proof -
  have "ymap_inv [(YInteger 1, YVoid), (YInteger 2, YVoid :: nat ycp)]"
    by (simp add: ymap_inv_def ycp_less_def cmp_less_def integer_compare_def key_compare_def)
  from ymap_copies [OF this] show ?thesis by blast
qed

text \<open>
  \<^verbatim>\<open>sortlist\<close> on comparable values gives a permutation of the list in which no element is less
  than one before it.
\<close>

theorem sortlist_sorts:
  assumes "list_all ordered_value xs"
  shows "mset (list_sortlist xs) = mset xs \<and> sorted_wrt (\<lambda>a b. \<not> ycp_less b a) (list_sortlist xs)"
  using ycp_ord.std_sort_sorted [OF assms] by (simp add: list_sortlist_def ycp_less_def)

theorem sortlist_sorts_witness:
  "sorted_wrt (\<lambda>a b. \<not> ycp_less b a) (list_sortlist [YString ''b'', YInteger 7, YString ''a'' :: nat ycp])"
proof -
  have "list_all ordered_value [YString ''b'', YInteger 7, YString ''a'' :: nat ycp]" by simp
  from sortlist_sorts [OF this] show ?thesis by blast
qed

text \<open>
  \<^verbatim>\<open>set (i, v)\<close> with \<^verbatim>\<open>i >= 0\<close> makes \<^verbatim>\<open>v\<close> the element at \<^verbatim>\<open>i\<close>, fills the gap up to it with
  \<^verbatim>\<open>nil\<close> and leaves what \<^verbatim>\<open>value\<close> gives at every other index as it was, out of range included.
\<close>

theorem list_set_value:
  assumes "0 \<le> i"
  shows "list_value (list_set xs i v) j =
      (if j = i then v else if int (length xs) \<le> j \<and> j < i then YVoid else list_value xs j)
    \<and> list_size (list_set xs i v) = max (list_size xs) (nat i + 1)"
  using list_value_set [OF assms, of xs v j] length_list_set [of xs i v] assms
  by (simp add: list_size_def)

theorem list_set_value_witness:
  "list_value (list_set [YBoolean True :: nat ycp] 3 (YInteger 5)) 2 = YVoid"
  using list_set_value [of 3 "[YBoolean True :: nat ycp]" "YInteger 5" 2] by simp

end
