(* ===== verification/Bytecode.thy ===== *)
theory Bytecode
  imports YCP_Container
begin

unbundle bit_operations_syntax

text \<open>
  The byte stream of compiled programs (\<^verbatim>\<open>libycp/src/Bytecode.cc\<close> and the \<^verbatim>\<open>toStream\<close> and stream
  constructors of the value classes): booleans, 32 bit numbers, strings, byte blocks and all values.

  A stream is its bytes and its error state, as \<^verbatim>\<open>std::ostream\<close> and \<^verbatim>\<open>std::ifstream\<close> keep them: once
  it failed, an output stream takes and an input stream gives nothing more.  Some readers look at a
  local buffer although the read that fills it failed; \<open>junk\<close> is what such a buffer held before.
\<close>

section \<open>Streams\<close>

record ostream =
  obuf :: string
  ofail :: bool

record istream =
  ibuf :: string
  ifail :: bool

definition os_write :: "ostream \<Rightarrow> string \<Rightarrow> ostream" where
  "os_write str s = (if ofail str then str else str\<lparr>obuf := obuf str @ s\<rparr>)"

abbreviation os_put :: "ostream \<Rightarrow> char \<Rightarrow> ostream" where
  "os_put str c \<equiv> os_write str [c]"

definition is_good :: "istream \<Rightarrow> bool" where
  "is_good str \<longleftrightarrow> \<not> ifail str"

definition is_get :: "istream \<Rightarrow> char option \<times> istream" where
  "is_get str =
     (if ifail str then (None, str)
      else case ibuf str of
        [] \<Rightarrow> (None, str\<lparr>ifail := True\<rparr>)
      | c # cs \<Rightarrow> (Some c, str\<lparr>ibuf := cs\<rparr>))"

text \<open>\<^verbatim>\<open>read (buf, n)\<close>: the bytes that were there, the stream, which fails when there were too few.\<close>

definition is_read :: "nat \<Rightarrow> istream \<Rightarrow> string \<times> istream" where
  "is_read n str =
     (if ifail str then ([], str)
      else (take n (ibuf str), str\<lparr>ibuf := drop n (ibuf str), ifail := length (ibuf str) < n\<rparr>))"

type_synonym junk = "nat \<Rightarrow> char"

definition fill :: "junk \<Rightarrow> nat \<Rightarrow> string \<Rightarrow> string" where
  "fill junk n s = map (\<lambda>i. if i < length s then s ! i else junk i) [0..<n]"

abbreviation istr :: "string \<Rightarrow> istream" where
  "istr s \<equiv> \<lparr>ibuf = s, ifail = False\<rparr>"

lemma is_get_simps [stream_simps, simp]:
  "is_get (istr (c # s)) = (Some c, istr s)"
  by (simp add: is_get_def)

lemma is_read_append [stream_simps]:
  "is_read n (istr (s @ t)) = (s, istr t)" if "n = length s"
  using that by (simp add: is_read_def)

lemma fill_all [simp]: "length s = n \<Longrightarrow> fill junk n s = s"
  unfolding fill_def by (rule nth_equalityI) auto

lemma os_write_write [simp]: "os_write (os_write str s) t = os_write str (s @ t)"
  by (simp add: os_write_def)

lemma os_write_Nil [simp]: "os_write str [] = str"
  by (simp add: os_write_def)

lemma ofail_os_write [simp]: "ofail (os_write str s) = ofail str"
  by (simp add: os_write_def)

section \<open>Booleans, numbers, strings\<close>

definition writeBool :: "ostream \<Rightarrow> bool \<Rightarrow> ostream" where
  "writeBool str v = os_put str (if v then CHR 0x01 else CHR 0x00)"

definition readBool :: "junk \<Rightarrow> istream \<Rightarrow> bool \<times> istream" where
  "readBool junk str =
     (case is_get str of (c, str') \<Rightarrow> ((case c of None \<Rightarrow> junk 0 | Some c \<Rightarrow> c) \<noteq> NUL, str'))"

definition low_byte :: "'a::len word \<Rightarrow> char" where
  "low_byte w = char_of (unat (w AND 0xff))"

definition writeInt32 :: "ostream \<Rightarrow> uint32 \<Rightarrow> ostream" where
  "writeInt32 str v =
     os_put (os_put (os_put (os_put (os_put str (CHR 0x04))
       (low_byte v)) (low_byte (drop_bit 8 v))) (low_byte (drop_bit 16 v))) (low_byte (drop_bit 24 v))"

definition readInt32 :: "junk \<Rightarrow> istream \<Rightarrow> uint32 \<times> istream" where
  "readInt32 junk str =
     (case is_read 5 str of (got, str') \<Rightarrow>
        let v = fill junk 5 got in
        if ccode (v ! 0) \<noteq> 4 then (0, str')
        else (of_nat (ccode (v ! 1)) OR push_bit 8 (of_nat (ccode (v ! 2)))
              OR push_bit 16 (of_nat (ccode (v ! 3))) OR push_bit 24 (of_nat (ccode (v ! 4))), str'))"

definition writeString :: "ostream \<Rightarrow> string \<Rightarrow> ostream" where
  "writeString str s = (let len = of_nat (length s) in os_write (writeInt32 str len) (take (unat len) s))"

text \<open>
  \<^verbatim>\<open>readString\<close>: whether it read a string (the empty one does not count), and the string, cut at
  its first NUL byte.
\<close>

definition readString :: "junk \<Rightarrow> istream \<Rightarrow> (bool \<times> string) \<times> istream" where
  "readString junk str =
     (case readInt32 junk str of (len, str1) \<Rightarrow>
        if 0 < len then
          (case is_read (unat len) str1 of (got, str2) \<Rightarrow>
             if is_good str2 then ((True, c_str got), str2) else ((False, []), str2))
        else ((False, []), str1))"

definition readUstring :: "junk \<Rightarrow> istream \<Rightarrow> string \<times> istream" where
  "readUstring junk str =
     (case readInt32 junk str of (len, str1) \<Rightarrow>
        if 0 < len then
          (case is_read (unat len) str1 of (got, str2) \<Rightarrow>
             if is_good str2 then (c_str got, str2) else ([], str2))
        else ([], str1))"

text \<open>\<^verbatim>\<open>writeCharp\<close>, \<^verbatim>\<open>readCharp\<close> (null when the stream failed), \<^verbatim>\<open>writeBytep\<close>, \<^verbatim>\<open>readBytep\<close>.\<close>

definition writeCharp :: "ostream \<Rightarrow> string \<Rightarrow> ostream" where
  "writeCharp str s = writeString str (c_str s)"

definition readCharp :: "junk \<Rightarrow> istream \<Rightarrow> string option \<times> istream" where
  "readCharp junk str =
     (case readInt32 junk str of (len, str1) \<Rightarrow>
        if is_good str1 then
          (case is_read (unat len) str1 of (got, str2) \<Rightarrow>
             if is_good str2 then (Some (c_str got), str2) else (None, str2))
        else (None, str1))"

definition writeBytep :: "ostream \<Rightarrow> byte list \<Rightarrow> ostream" where
  "writeBytep str bs = (let len = of_nat (length bs) in
     os_write (writeInt32 str len) (map byte_char (take (unat len) bs)))"

definition readBytep :: "junk \<Rightarrow> istream \<Rightarrow> byte list option \<times> istream" where
  "readBytep junk str =
     (case readInt32 junk str of (len, str1) \<Rightarrow>
        if is_good str1 then
          (case is_read (unat len) str1 of (got, str2) \<Rightarrow>
             if is_good str2 then (Some (map char_byte got), str2) else (None, str2))
        else (None, str1))"

lemma writeInt32_bytes:
  "writeInt32 str v = os_write str
     [CHR 0x04, low_byte v, low_byte (drop_bit 8 v), low_byte (drop_bit 16 v), low_byte (drop_bit 24 v)]"
  by (simp add: writeInt32_def)

lemma ccode_low_byte: "ccode (low_byte w) = unat (w AND 0xff)" for w :: "uint32"
proof -
  have "unat (w AND 0xff) \<le> unat (0xff :: uint32)"
    by (rule word_and_le1 [THEN word_le_nat_alt [THEN iffD1]])
  then show ?thesis by (simp add: low_byte_def)
qed

lemma word32_from_bytes:
  "(v AND 0xff) OR push_bit 8 (drop_bit 8 v AND 0xff) OR push_bit 16 (drop_bit 16 v AND 0xff)
     OR push_bit 24 (drop_bit 24 v AND 0xff) = (v :: uint32)"
proof -
  have m: "w AND 0xff = take_bit 8 w" for w :: uint32
    by (simp add: take_bit_eq_mask mask_eq_exp_minus_1)
  show ?thesis unfolding m
  proof (rule bit_word_eqI)
    fix n assume "n < LENGTH(32)"
    then consider "n < 8" | "8 \<le> n" "n < 16" | "16 \<le> n" "n < 24" | "24 \<le> n" "n < 32" by fastforce
    then show "bit (take_bit 8 v OR push_bit 8 (take_bit 8 (drop_bit 8 v)) OR push_bit 16 (take_bit 8 (drop_bit 16 v))
       OR push_bit 24 (take_bit 8 (drop_bit 24 v))) n = bit v n"
      by cases (auto simp: bit_simps)
  qed
qed

lemma readInt32_write [stream_simps]:
  "readInt32 junk (istr (CHR 0x04 # low_byte v # low_byte (drop_bit 8 v) # low_byte (drop_bit 16 v)
     # low_byte (drop_bit 24 v) # rest)) = (v, istr rest)"
  using word32_from_bytes [of v]
  by (simp add: readInt32_def is_read_def ccode_low_byte flip: nth_drop)

section \<open>Values: writing\<close>

text \<open>What the stream format leaves to others: the text of a double, code, and symbol entries.\<close>

record 'c codec =
  cd_float_str :: "double \<Rightarrow> string"
  cd_float_read :: "string \<Rightarrow> double"
  cd_code_write :: "ostream \<Rightarrow> 'c \<Rightarrow> ostream"
  cd_code_read :: "istream \<Rightarrow> 'c \<times> istream"
  cd_entry_write :: "ostream \<Rightarrow> nat \<Rightarrow> ostream"

text \<open>The loop of \<^verbatim>\<open>YCPIntegerRep::toStream\<close>: low byte first, arithmetic shift.\<close>

fun put_bytes :: "nat \<Rightarrow> int64 \<Rightarrow> string" where
  "put_bytes 0 ll = []"
| "put_bytes (Suc c) ll = low_byte ll # put_bytes c (signed_drop_bit 8 ll)"

definition writeInteger :: "ostream \<Rightarrow> int64 \<Rightarrow> ostream" where
  "writeInteger str v = os_write (os_put str (CHR 0x08)) (put_bytes 8 v)"

function (sequential) writeValue :: "'c codec \<Rightarrow> ostream \<Rightarrow> 'c ycp \<Rightarrow> ostream"
  and toStream :: "'c codec \<Rightarrow> ostream \<Rightarrow> 'c ycp \<Rightarrow> ostream"
  and writeValues :: "'c codec \<Rightarrow> ostream \<Rightarrow> 'c ycp list \<Rightarrow> ostream"
  and writePairs :: "'c codec \<Rightarrow> ostream \<Rightarrow> ('c ycp \<times> 'c ycp) list \<Rightarrow> ostream" where
  "writeValue cd str v =
     (if isNull v then str\<lparr>ofail := True\<rparr>
      else let str1 = os_put str (char_of (valuetype v)) in
           if ofail str1 then str1 else toStream cd str1 v)"
| "toStream cd str (YBoolean b) = writeBool str b"
| "toStream cd str (YInteger i) = writeInteger str i"
| "toStream cd str (YFloat d) = writeString str (cd_float_str cd d)"
| "toStream cd str (YString s) = writeString str s"
| "toStream cd str (YByteblock bs) = writeBytep str bs"
| "toStream cd str (YPath p) = writeString str (path_string p)"
| "toStream cd str (YSymbol s) = writeString str s"
| "toStream cd str (YList xs) = writeValues cd (writeInt32 str (of_nat (length xs))) xs"
| "toStream cd str (YTerm s xs) = writeValues cd (writeInt32 (writeString str s) (of_nat (length xs))) xs"
| "toStream cd str (YMap m) = writePairs cd (writeInt32 str (of_nat (length m))) m"
| "toStream cd str (YCode c) = cd_code_write cd str c"
| "toStream cd str (YEntry e) = cd_entry_write cd str e"
| "toStream cd str v = str"
| "writeValues cd str [] = str"
| "writeValues cd str (x # xs) =
     (let str1 = writeValue cd str x in if ofail str1 then str1 else writeValues cd str1 xs)"
| "writePairs cd str [] = str"
| "writePairs cd str ((k, v) # m) =
     (let str1 = writeValue cd str k in
      if ofail str1 then str1
      else let str2 = writeValue cd str1 v in
           if ofail str2 then str2 else writePairs cd str2 m)"
  by pat_completeness auto
termination
  by (relation "measure (case_sum
      (case_sum (\<lambda>(cd, str, v). 2 * size v + 1) (\<lambda>(cd, str, v). 2 * size v))
      (case_sum (\<lambda>(cd, str, xs). 2 * size_list size xs + 1)
        (\<lambda>(cd, str, m). 2 * size_list (size_prod size size) m + 1)))") auto

declare writeValue.simps [simp del]

section \<open>Values: reading\<close>

text \<open>
  A reader gives a value and the stream, or does something C++ leaves undefined, or, in the model
  only, runs out of nesting depth.
\<close>

datatype 'a outcome = Ret 'a | Undef | OutOfFuel

fun obind :: "'a outcome \<Rightarrow> ('a \<Rightarrow> 'b outcome) \<Rightarrow> 'b outcome" where
  "obind (Ret x) f = f x"
| "obind Undef f = Undef"
| "obind OutOfFuel f = OutOfFuel"

lemma obind_cong [fundef_cong]:
  "x = y \<Longrightarrow> (\<And>a. y = Ret a \<Longrightarrow> f a = g a) \<Longrightarrow> obind x f = obind y g"
  by (cases y) simp_all

text \<open>
  The loop of \<^verbatim>\<open>fromStream\<close> in \<^verbatim>\<open>YCPInteger.cc\<close>, \<^verbatim>\<open>c\<close> bytes to go.  The shift distance is computed from
  \<^verbatim>\<open>c\<close> and leaves the word when the count is above 8.
\<close>

fun get_bytes :: "nat \<Rightarrow> int64 \<Rightarrow> istream \<Rightarrow> (int64 \<times> istream) outcome" where
  "get_bytes 0 ll str = Ret (ll, str)"
| "get_bytes (Suc c) ll str =
     (case is_get str of
        (None, str1) \<Rightarrow> Ret (ll, str1)
      | (Some v, str1) \<Rightarrow>
          if 8 \<le> c then Undef
          else get_bytes c (ll OR push_bit ((8 - c - 1) * 8) (of_nat (ccode v))) str1)"

definition readInteger :: "istream \<Rightarrow> (int64 \<times> istream) outcome" where
  "readInteger str =
     (case is_get str of
        (None, str1) \<Rightarrow> Ret (0, str1)
      | (Some c, str1) \<Rightarrow> get_bytes (if 128 \<le> ccode c then 0 else ccode c) 0 str1)"

text \<open>\<^verbatim>\<open>YCPByteblock (bytecodeistream &)\<close>: the length goes through a signed \<^verbatim>\<open>int\<close>.\<close>

definition readByteblock :: "junk \<Rightarrow> istream \<Rightarrow> (byte list \<times> istream) outcome" where
  "readByteblock junk str =
     (case readInt32 junk str of (len, str1) \<Rightarrow>
        let n = (if is_good str1 then unat len else 0) in
        if 2 ^ 31 \<le> n then Undef
        else case is_read n str1 of (got, str2) \<Rightarrow> Ret (map char_byte (fill junk n got), str2))"

fun read_many :: "(istream \<Rightarrow> ('a \<times> istream) outcome) \<Rightarrow> nat \<Rightarrow> istream \<Rightarrow> ('a list \<times> istream) outcome" where
  "read_many rd 0 str = Ret ([], str)"
| "read_many rd (Suc n) str =
     obind (rd str) (\<lambda>(v, str1). obind (read_many rd n str1) (\<lambda>(vs, str2). Ret (v # vs, str2)))"

text \<open>
  \<^verbatim>\<open>YCPList (bytecodeistream &)\<close> and \<^verbatim>\<open>YCPMap (bytecodeistream &)\<close> over the reader of one value.  A key
  that could not be read is a null handle, which \<^verbatim>\<open>add\<close> dereferences.
\<close>

definition readList ::
  "(istream \<Rightarrow> ('c ycp \<times> istream) outcome) \<Rightarrow> junk \<Rightarrow> istream \<Rightarrow> ('c ycp list \<times> istream) outcome" where
  "readList rd junk str =
     (case readInt32 junk str of (len, str1) \<Rightarrow>
        if is_good str1 then read_many rd (unat len) str1 else Ret ([], str1))"

fun read_pairs ::
  "(istream \<Rightarrow> ('c ycp \<times> istream) outcome) \<Rightarrow> nat \<Rightarrow> 'c ymap \<Rightarrow> istream \<Rightarrow> ('c ymap \<times> istream) outcome" where
  "read_pairs rd 0 m str = Ret (m, str)"
| "read_pairs rd (Suc n) m str =
     obind (rd str) (\<lambda>(k, str1). obind (rd str1) (\<lambda>(v, str2).
       if isNull k then Undef else read_pairs rd n (ymap_add m k v) str2))"

definition readMap ::
  "(istream \<Rightarrow> ('c ycp \<times> istream) outcome) \<Rightarrow> junk \<Rightarrow> istream \<Rightarrow> ('c ymap \<times> istream) outcome" where
  "readMap rd junk str =
     (case readInt32 junk str of (len, str1) \<Rightarrow>
        if is_good str1 then read_pairs rd (unat len) [] str1 else Ret ([], str1))"

definition readTerm ::
  "(istream \<Rightarrow> ('c ycp \<times> istream) outcome) \<Rightarrow> junk \<Rightarrow> istream \<Rightarrow> ('c ycp \<times> istream) outcome" where
  "readTerm rd junk str =
     (case readString junk str of ((ok, s), str1) \<Rightarrow>
        if ok then obind (readList rd junk str1) (\<lambda>(xs, str2). Ret (YTerm s xs, str2))
        else Ret (YTerm ''no-name-so-far'' [], str1))"

text \<open>
  What follows the tag of a value: the stream constructors of the classes.  The first number bounds the nesting of
  values.
\<close>

definition readPayload ::
  "'c codec \<Rightarrow> junk \<Rightarrow> (istream \<Rightarrow> ('c ycp \<times> istream) outcome) \<Rightarrow> nat \<Rightarrow> istream \<Rightarrow> ('c ycp \<times> istream) outcome" where
  "readPayload cd junk rd t str1 =
     (if t = 0 then Ret (YVoid, str1)
      else if t = 1 then (case readBool junk str1 of (b, str2) \<Rightarrow> Ret (YBoolean b, str2))
      else if t = 2 then obind (readInteger str1) (\<lambda>(i, str2). Ret (YInteger i, str2))
      else if t = 3 then
        (case readString junk str1 of ((_, s), str2) \<Rightarrow> Ret (YFloat (cd_float_read cd s), str2))
      else if t = 4 then (case readString junk str1 of ((_, s), str2) \<Rightarrow> Ret (YString s, str2))
      else if t = 5 then obind (readByteblock junk str1) (\<lambda>(bs, str2). Ret (YByteblock bs, str2))
      else if t = 6 then
        (case readString junk str1 of ((_, s), str2) \<Rightarrow>
           case path_of_string s of None \<Rightarrow> Undef | Some p \<Rightarrow> Ret (YPath p, str2))
      else if t = 7 then (case readString junk str1 of ((_, s), str2) \<Rightarrow> Ret (YSymbol s, str2))
      else if t = 8 then obind (readList rd junk str1) (\<lambda>(xs, str2). Ret (YList xs, str2))
      else if t = 10 then obind (readMap rd junk str1) (\<lambda>(m, str2). Ret (YMap m, str2))
      else if t = 9 then readTerm rd junk str1
      else if t = 11 then (case cd_code_read cd str1 of (c, str2) \<Rightarrow> Ret (YCode c, str2))
      else Ret (YNull, str1))"

text \<open>\<^verbatim>\<open>Bytecode::readValue\<close>.\<close>

fun readValue :: "'c codec \<Rightarrow> junk \<Rightarrow> nat \<Rightarrow> istream \<Rightarrow> ('c ycp \<times> istream) outcome" where
  "readValue cd junk 0 str = OutOfFuel"
| "readValue cd junk (Suc n) str =
     (case is_get str of
        (None, str1) \<Rightarrow> Ret (YNull, str1)
      | (Some vt, str1) \<Rightarrow> readPayload cd junk (readValue cd junk n) (ccode vt) str1)"

declare readValue.simps [simp del]

lemmas value_readers = readValue.simps readPayload_def

section \<open>What is written is read back\<close>

lemma get_put_bytes:
  "c \<le> 8 \<Longrightarrow> get_bytes c ll (istr (put_bytes c w @ rest)) = Ret (ll OR push_bit (64 - 8 * c) w, istr rest)"
proof (induction c arbitrary: ll w)
  case 0
  have "push_bit 64 w = 0" by (rule bit_word_eqI) (simp add: bit_simps)
  then show ?case by simp
next
  case (Suc c)
  have m: "w AND 0xff = take_bit 8 w"
    by (simp add: take_bit_eq_mask mask_eq_exp_minus_1)
  have "unat (w AND 0xff) \<le> unat (0xff :: int64)"
    by (rule word_and_le1 [THEN word_le_nat_alt [THEN iffD1]])
  then have b: "of_nat (ccode (low_byte w)) = take_bit 8 w"
    by (simp add: low_byte_def m)
  have s: "(7 - c) * 8 = 64 - 8 * Suc c" by simp
  have "push_bit (64 - 8 * Suc c) (take_bit 8 w) OR push_bit (64 - 8 * c) (signed_drop_bit 8 w)
      = push_bit (64 - 8 * Suc c) w"
  proof (rule bit_word_eqI)
    fix n assume "n < LENGTH(64)"
    have "64 \<le> n + 8 * c \<Longrightarrow> 8 + (n + 8 * c - 64) = n + 8 * c - 56" by simp
    then show "bit (push_bit (64 - 8 * Suc c) (take_bit 8 w) OR push_bit (64 - 8 * c) (signed_drop_bit 8 w)) n
        = bit (push_bit (64 - 8 * Suc c) w) n"
      using Suc.prems \<open>n < LENGTH(64)\<close>
      by (cases "64 \<le> n + 8 * c") (auto simp: bit_simps bit_signed_drop_bit_iff)
  qed
  with Suc show ?case by (simp add: b s or.assoc del: mult_Suc_right)
qed

lemma readInteger_write: "readInteger (istr (CHR 0x08 # put_bytes 8 v @ rest)) = Ret (v, istr rest)"
  using get_put_bytes [of 8 0 v rest] by (simp add: readInteger_def)

text \<open>The bytes \<^verbatim>\<open>writeValue\<close> appends to a stream that has not failed.\<close>

definition int32_bytes :: "uint32 \<Rightarrow> string" where
  "int32_bytes v = [CHR 0x04, low_byte v, low_byte (drop_bit 8 v), low_byte (drop_bit 16 v), low_byte (drop_bit 24 v)]"

lemma writeInt32_int32_bytes: "writeInt32 str v = os_write str (int32_bytes v)"
  by (simp add: int32_bytes_def writeInt32_bytes)

lemma readInt32_int32_bytes [stream_simps, simp]: "readInt32 junk (istr (int32_bytes v @ rest)) = (v, istr rest)"
  by (simp add: int32_bytes_def readInt32_write)

text \<open>
  The values a stream can carry: lengths fit 32 bits, texts are NUL-free, a term has a name, maps are in
  representation order, and doubles are among those the text format keeps (\<open>okf\<close>).
\<close>

definition fits :: "'a list \<Rightarrow> bool" where
  "fits xs \<longleftrightarrow> length xs < 2 ^ 32"

fun storable :: "(double \<Rightarrow> bool) \<Rightarrow> 'c ycp \<Rightarrow> bool" where
  "storable okf YVoid = True"
| "storable okf (YBoolean b) = True"
| "storable okf (YInteger i) = True"
| "storable okf (YFloat d) = okf d"
| "storable okf (YString s) = (nul_free s \<and> fits s)"
| "storable okf (YByteblock bs) = (length bs < 2 ^ 31)"
| "storable okf (YPath p) = (good_path p \<and> fits (path_string p))"
| "storable okf (YSymbol s) = (nul_free s \<and> fits s)"
| "storable okf (YList xs) = (fits xs \<and> list_all (storable okf) xs)"
| "storable okf (YTerm s xs) = (s \<noteq> [] \<and> nul_free s \<and> fits s \<and> fits xs \<and> list_all (storable okf) xs)"
| "storable okf (YMap m) = (fits m \<and> ymap_inv m
     \<and> list_all (\<lambda>p. storable okf (fst p) \<and> storable okf (snd p)) m)"
| "storable okf v = False"

fun depth :: "'c ycp \<Rightarrow> nat" where
  "depth (YList xs) = Suc (foldr (\<lambda>x. max (depth x)) xs 0)"
| "depth (YTerm s xs) = Suc (foldr (\<lambda>x. max (depth x)) xs 0)"
| "depth (YMap m) = Suc (foldr (\<lambda>p. max (max (depth (fst p)) (depth (snd p)))) m 0)"
| "depth v = 0"

lemma fits_unat [simp]: "fits xs \<Longrightarrow> unat (of_nat (length xs) :: uint32) = length xs"
  by (simp add: fits_def unat_of_nat)

lemma fits_pos: "fits xs \<Longrightarrow> 0 < (of_nat (length xs) :: uint32) \<longleftrightarrow> xs \<noteq> []"
  using fits_unat [of xs] by (auto simp: word_less_nat_alt simp del: fits_unat)

lemma writeString_bytes: "fits s \<Longrightarrow> writeString str s = os_write str (int32_bytes (of_nat (length s)) @ s)"
  by (simp add: writeString_def Let_def writeInt32_int32_bytes)

lemma readString_bytes:
  assumes "fits s" and "nul_free s"
  shows "readString junk (istr (int32_bytes (of_nat (length s)) @ s @ rest)) = ((s \<noteq> [], s), istr rest)"
  using assms fits_pos [of s]
  by (auto simp: readString_def is_read_append is_good_def)

lemma tag_chars [simp]:
  "char_of (0 :: nat) = CHR 0x00" "char_of (Suc 0) = CHR 0x01" "char_of (2 :: nat) = CHR 0x02" "char_of (3 :: nat) = CHR 0x03"
  "char_of (4 :: nat) = CHR 0x04" "char_of (5 :: nat) = CHR 0x05" "char_of (6 :: nat) = CHR 0x06" "char_of (7 :: nat) = CHR 0x07"
  "char_of (8 :: nat) = CHR 0x08" "char_of (9 :: nat) = CHR 0x09" "char_of (10 :: nat) = CHR 0x0A"
  by code_simp+

text \<open>The encoding, as a function of the value alone.\<close>

definition text_bytes :: "string \<Rightarrow> string" where
  "text_bytes s = int32_bytes (of_nat (length s)) @ s"

fun encode :: "'c codec \<Rightarrow> 'c ycp \<Rightarrow> string" where
  "encode cd (YBoolean b) = [CHR 0x01, if b then CHR 0x01 else CHR 0x00]"
| "encode cd (YInteger i) = CHR 0x02 # CHR 0x08 # put_bytes 8 i"
| "encode cd (YFloat d) = CHR 0x03 # text_bytes (cd_float_str cd d)"
| "encode cd (YString s) = CHR 0x04 # text_bytes s"
| "encode cd (YByteblock bs) = CHR 0x05 # text_bytes (map byte_char bs)"
| "encode cd (YPath p) = CHR 0x06 # text_bytes (path_string p)"
| "encode cd (YSymbol s) = CHR 0x07 # text_bytes s"
| "encode cd (YList xs) = CHR 0x08 # int32_bytes (of_nat (length xs)) @ concat (map (encode cd) xs)"
| "encode cd (YTerm s xs) =
     CHR 0x09 # text_bytes s @ int32_bytes (of_nat (length xs)) @ concat (map (encode cd) xs)"
| "encode cd (YMap m) =
     CHR 0x0A # int32_bytes (of_nat (length m)) @ concat (map (\<lambda>p. encode cd (fst p) @ encode cd (snd p)) m)"
| "encode cd v = [char_of (valuetype v)]"

definition okc :: "'c codec \<Rightarrow> (double \<Rightarrow> bool) \<Rightarrow> bool" where
  "okc cd okf \<longleftrightarrow> (\<forall>d. okf d \<longrightarrow> nul_free (cd_float_str cd d) \<and> fits (cd_float_str cd d)
     \<and> cd_float_read cd (cd_float_str cd d) = d)"

lemma storable_not_null [simp]: "\<not> storable okf YNull"
  by simp

lemma writeValues_encode:
  assumes "\<And>x str. x \<in> set xs \<Longrightarrow> \<not> ofail str \<Longrightarrow> writeValue cd str x = os_write str (encode cd x)"
  shows "\<not> ofail str \<Longrightarrow> writeValues cd str xs = os_write str (concat (map (encode cd) xs))"
  using assms by (induction xs arbitrary: str) (simp_all add: Let_def)

lemma writePairs_encode:
  assumes "\<And>p str. p \<in> set m \<Longrightarrow> \<not> ofail str \<Longrightarrow> writeValue cd str (fst p) = os_write str (encode cd (fst p))"
    and "\<And>p str. p \<in> set m \<Longrightarrow> \<not> ofail str \<Longrightarrow> writeValue cd str (snd p) = os_write str (encode cd (snd p))"
  shows "\<not> ofail str
    \<Longrightarrow> writePairs cd str m = os_write str (concat (map (\<lambda>p. encode cd (fst p) @ encode cd (snd p)) m))"
  using assms
proof (induction m arbitrary: str)
  case (Cons p m)
  obtain k v where p: "p = (k, v)" by (cases p)
  have "writeValue cd str k = os_write str (encode cd k)" if "\<not> ofail str" for str
    using Cons.prems(2) [of p str] that p by simp
  moreover have "writeValue cd str v = os_write str (encode cd v)" if "\<not> ofail str" for str
    using Cons.prems(3) [of p str] that p by simp
  ultimately show ?case
    using Cons p by (simp add: Let_def)
qed simp

lemma take_fits: "length bs < 2 ^ 31 \<Longrightarrow> fits bs"
  by (simp add: fits_def)

lemma writeValue_toStream:
  "v \<noteq> YNull \<Longrightarrow> \<not> ofail str \<Longrightarrow> writeValue cd str v = toStream cd (os_put str (char_of (valuetype v))) v"
  by (simp add: writeValue.simps Let_def)

lemma writeValue_encode:
  assumes "okc cd okf"
  shows "storable okf v \<Longrightarrow> \<not> ofail str \<Longrightarrow> writeValue cd str v = os_write str (encode cd v)"
proof (induction v arbitrary: str)
  case (YMap m)
  have "writePairs cd (writeInt32 (os_put str (CHR 0x0A)) (of_nat (length m))) m
      = os_write (writeInt32 (os_put str (CHR 0x0A)) (of_nat (length m)))
          (concat (map (\<lambda>p. encode cd (fst p) @ encode cd (snd p)) m))"
    by (rule writePairs_encode) (use YMap in \<open>force simp: list_all_iff writeInt32_int32_bytes\<close>)+
  with YMap.prems show ?case
    by (simp add: writeValue_toStream writeInt32_int32_bytes)
qed (use assms in \<open>auto simp: writeValue_toStream writeInt32_int32_bytes writeBool_def writeInteger_def
      writeString_bytes writeBytep_def Let_def take_fits okc_def text_bytes_def list_all_iff
      writeValues_encode\<close>)

lemma read_many_encode:
  assumes "\<And>x rest. x \<in> set xs \<Longrightarrow> rd (istr (encode cd x @ rest)) = Ret (x, istr rest)"
  shows "read_many rd (length xs) (istr (concat (map (encode cd) xs) @ rest)) = Ret (xs, istr rest)"
  using assms by (induction xs) simp_all

lemma read_pairs_encode:
  assumes "\<And>p rest. p \<in> set ps \<Longrightarrow> rd (istr (encode cd (fst p) @ rest)) = Ret (fst p, istr rest)"
    and "\<And>p rest. p \<in> set ps \<Longrightarrow> rd (istr (encode cd (snd p) @ rest)) = Ret (snd p, istr rest)"
    and "\<And>p. p \<in> set ps \<Longrightarrow> fst p \<noteq> YNull"
  shows "read_pairs rd (length ps) m (istr (concat (map (\<lambda>p. encode cd (fst p) @ encode cd (snd p)) ps) @ rest))
    = Ret (foldl (\<lambda>n p. ymap_add n (fst p) (snd p)) m ps, istr rest)"
  using assms by (induction ps arbitrary: m) simp_all

lemma depth_in_list: "x \<in> set xs \<Longrightarrow> depth x \<le> foldr (\<lambda>x. max (depth x)) xs 0"
  by (induction xs) (auto simp: max_def)

lemma depth_in_map:
  "p \<in> set m \<Longrightarrow> depth (fst p) \<le> foldr (\<lambda>p. max (max (depth (fst p)) (depth (snd p)))) m 0"
  "p \<in> set m \<Longrightarrow> depth (snd p) \<le> foldr (\<lambda>p. max (max (depth (fst p)) (depth (snd p)))) m 0"
  by (induction m) (auto simp: max_def)

lemma readString_text [simp]:
  "fits s \<Longrightarrow> nul_free s \<Longrightarrow> readString junk (istr (text_bytes s @ rest)) = ((s \<noteq> [], s), istr rest)"
  by (simp add: text_bytes_def readString_bytes)

lemma readByteblock_bytes:
  assumes "length bs < 2 ^ 31"
  shows "readByteblock junk (istr (text_bytes (map byte_char bs) @ rest)) = Ret (bs, istr rest)"
proof -
  have "fits (map byte_char bs)" using assms by (simp add: fits_def)
  from fits_unat [OF this] assms show ?thesis
    by (simp add: readByteblock_def text_bytes_def is_good_def is_read_append)
qed

lemma readValue_encode:
  assumes okc: "okc cd okf"
  shows "storable okf v \<Longrightarrow> depth v < n \<Longrightarrow> readValue cd junk n (istr (encode cd v @ rest)) = Ret (v, istr rest)"
proof (induction v arbitrary: n rest)
  case (YList xs)
  then obtain k where n: "n = Suc k" by (cases n) auto
  have "read_many (readValue cd junk k) (length xs) (istr (concat (map (encode cd) xs) @ rest)) = Ret (xs, istr rest)"
    by (rule read_many_encode)
      (use YList n depth_in_list in \<open>force simp: list_all_iff intro!: YList.IH intro: le_less_trans\<close>)
  with YList.prems n show ?case by (simp add: value_readers readList_def is_good_def)
next
  case (YTerm s xs)
  then obtain k where n: "n = Suc k" by (cases n) auto
  have "read_many (readValue cd junk k) (length xs) (istr (concat (map (encode cd) xs) @ rest)) = Ret (xs, istr rest)"
    by (rule read_many_encode)
      (use YTerm n depth_in_list in \<open>force simp: list_all_iff intro!: YTerm.IH intro: le_less_trans\<close>)
  with YTerm.prems n show ?case by (simp add: value_readers readTerm_def readList_def is_good_def)
next
  case (YMap m)
  then obtain k where n: "n = Suc k" by (cases n) auto
  have "read_pairs (readValue cd junk k) (length m) [] (istr (concat (map (\<lambda>p. encode cd (fst p) @ encode cd (snd p)) m) @ rest))
      = Ret (foldl (\<lambda>n p. ymap_add n (fst p) (snd p)) [] m, istr rest)"
  proof (rule read_pairs_encode)
    fix p rest assume p: "p \<in> set m"
    obtain a b where ab: "p = (a, b)" by (cases p)
    have st: "storable okf a" "storable okf b" "depth a < k" "depth b < k"
      using YMap.prems p ab n depth_in_map [OF p] by (auto simp: list_all_iff)
    show "readValue cd junk k (istr (encode cd (fst p) @ rest)) = Ret (fst p, istr rest)"
      using YMap.IH(1) [OF p, of a] st ab by simp
    show "readValue cd junk k (istr (encode cd (snd p) @ rest)) = Ret (snd p, istr rest)"
      using YMap.IH(2) [OF p, of b] st ab by simp
    show "fst p \<noteq> YNull" using st(1) ab by auto
  qed
  with YMap.prems n show ?case by (simp add: value_readers readMap_def is_good_def map_copy)
qed (use okc in \<open>auto simp: value_readers gr0_conv_Suc readBool_def readInteger_write
      readByteblock_bytes path_roundtrip path_string_nul_free okc_def\<close>)

section \<open>The depth bound is no restriction\<close>

text \<open>
  No reader puts bytes back, and every value takes its tag byte: a depth above the number of bytes left
  in the stream is never used up.
\<close>

abbreviation left :: "istream \<Rightarrow> nat" where "left str \<equiv> length (ibuf str)"

definition shrinks :: "(istream \<Rightarrow> ('a \<times> istream) outcome) \<Rightarrow> bool" where
  "shrinks rd \<longleftrightarrow> (\<forall>str v str'. rd str = Ret (v, str') \<longrightarrow> left str' \<le> left str)"

definition enough :: "nat \<Rightarrow> (istream \<Rightarrow> ('a \<times> istream) outcome) \<Rightarrow> bool" where
  "enough k rd \<longleftrightarrow> (\<forall>str. left str \<le> k \<longrightarrow> rd str \<noteq> OutOfFuel)"

definition code_reader_shrinks :: "'c codec \<Rightarrow> bool" where
  "code_reader_shrinks cd \<longleftrightarrow> (\<forall>str. left (snd (cd_code_read cd str)) \<le> left str)"

lemma left_is_get: "is_get str = (c, str') \<Longrightarrow> left str' \<le> left str"
  by (auto simp: is_get_def split: if_splits list.splits)

lemma left_is_get_Some: "is_get str = (Some c, str') \<Longrightarrow> left str = Suc (left str')"
  by (auto simp: is_get_def split: if_splits list.splits)

lemma left_is_read: "is_read n str = (s, str') \<Longrightarrow> left str' \<le> left str"
  by (auto simp: is_read_def split: if_splits)

lemma left_readInt32: "readInt32 junk str = (v, str') \<Longrightarrow> left str' \<le> left str"
  by (auto simp: readInt32_def Let_def split: prod.splits if_splits dest: left_is_read)

lemma left_readString: "readString junk str = (r, str') \<Longrightarrow> left str' \<le> left str"
  by (auto simp: readString_def split: prod.splits if_splits dest!: left_is_read left_readInt32)

lemma left_readBool: "readBool junk str = (b, str') \<Longrightarrow> left str' \<le> left str"
  by (auto simp: readBool_def split: prod.splits dest: left_is_get)

lemma left_get_bytes: "get_bytes c ll str = Ret (v, str') \<Longrightarrow> left str' \<le> left str"
proof (induction c ll str rule: get_bytes.induct)
  case (2 c ll str)
  then show ?case
    by (auto split: prod.splits option.splits if_splits dest: left_is_get left_is_get_Some)
qed simp

lemma left_readInteger: "readInteger str = Ret (v, str') \<Longrightarrow> left str' \<le> left str"
  by (auto simp: readInteger_def split: prod.splits option.splits dest!: left_get_bytes dest: left_is_get)

lemma left_readByteblock: "readByteblock junk str = Ret (v, str') \<Longrightarrow> left str' \<le> left str"
  by (auto simp: readByteblock_def Let_def split: prod.splits if_splits dest!: left_is_read left_readInt32)

lemma obind_Ret: "obind x f = Ret y \<longleftrightarrow> (\<exists>a. x = Ret a \<and> f a = Ret y)"
  by (cases x) simp_all

lemma obind_OutOfFuel: "obind x f = OutOfFuel \<longleftrightarrow> x = OutOfFuel \<or> (\<exists>a. x = Ret a \<and> f a = OutOfFuel)"
  by (cases x) simp_all

lemma shrinks_read_many: "shrinks rd \<Longrightarrow> read_many rd n str = Ret (vs, str') \<Longrightarrow> left str' \<le> left str"
  by (induction n arbitrary: str vs) (fastforce simp: obind_Ret shrinks_def dest: le_trans)+

lemma shrinks_read_pairs: "shrinks rd \<Longrightarrow> read_pairs rd n m str = Ret (vs, str') \<Longrightarrow> left str' \<le> left str"
proof (induction n arbitrary: m str)
  case (Suc n)
  from Suc.prems(2) obtain k str1 v str2 where "rd str = Ret (k, str1)" "rd str1 = Ret (v, str2)"
    "read_pairs rd n (ymap_add m k v) str2 = Ret (vs, str')"
    by (auto simp: obind_Ret split: if_splits)
  with Suc.IH [OF Suc.prems(1)] Suc.prems(1) show ?case
    unfolding shrinks_def by (meson le_trans)
qed simp

lemma shrinks_readList: "shrinks rd \<Longrightarrow> readList rd junk str = Ret (vs, str') \<Longrightarrow> left str' \<le> left str"
  by (auto simp: readList_def split: prod.splits if_splits dest!: left_readInt32 shrinks_read_many)

lemma shrinks_readMap: "shrinks rd \<Longrightarrow> readMap rd junk str = Ret (vs, str') \<Longrightarrow> left str' \<le> left str"
  by (auto simp: readMap_def split: prod.splits if_splits dest!: left_readInt32 shrinks_read_pairs)

lemma shrinks_readTerm: "shrinks rd \<Longrightarrow> readTerm rd junk str = Ret (vs, str') \<Longrightarrow> left str' \<le> left str"
  by (auto simp: readTerm_def obind_Ret split: prod.splits if_splits dest!: left_readString shrinks_readList)

lemma readValue_shrinks: "code_reader_shrinks cd \<Longrightarrow> shrinks (readValue cd junk n)"
proof (induction n)
  case 0
  show ?case by (simp add: shrinks_def value_readers)
next
  case (Suc n)
  note IH = Suc.IH [OF Suc.prems]
  have code: "left str' \<le> left str" if "cd_code_read cd str = (c, str')" for str c str'
    using Suc.prems that unfolding code_reader_shrinks_def by (metis snd_conv)
  have "left str' \<le> left str" if r: "readValue cd junk (Suc n) str = Ret (v, str')" for str v str'
  proof (cases "is_get str")
    case (Pair c str1)
    then have "left str1 \<le> left str" by (rule left_is_get)
    moreover have "left str' \<le> left str1"
      using r Pair
      by (cases c)
        (auto simp: value_readers Let_def obind_Ret split: prod.splits if_splits option.splits
          dest: left_readBool left_readInteger left_readString left_readByteblock code
            shrinks_readList [OF IH] shrinks_readMap [OF IH] shrinks_readTerm [OF IH])
    ultimately show ?thesis by simp
  qed
  then show ?case by (simp add: shrinks_def)
qed

lemma enough_read_many: "shrinks rd \<Longrightarrow> enough k rd \<Longrightarrow> left str \<le> k \<Longrightarrow> read_many rd n str \<noteq> OutOfFuel"
proof (induction n arbitrary: str)
  case (Suc n)
  have "read_many rd n str1 \<noteq> OutOfFuel" if "rd str = Ret (v, str1)" for v str1
    using Suc.IH [OF Suc.prems(1,2)] Suc.prems that unfolding shrinks_def by (meson le_trans)
  with Suc.prems show ?case by (auto simp: obind_OutOfFuel enough_def)
qed simp

lemma enough_read_pairs: "shrinks rd \<Longrightarrow> enough k rd \<Longrightarrow> left str \<le> k \<Longrightarrow> read_pairs rd n m str \<noteq> OutOfFuel"
proof (induction n arbitrary: m str)
  case (Suc n)
  have s: "left str1 \<le> k" if "rd str = Ret (v, str1)" "left str \<le> k" for v str str1
    using Suc.prems(1) that unfolding shrinks_def by (meson le_trans)
  have "rd str \<noteq> OutOfFuel" if "left str \<le> k" for str
    using Suc.prems(2) that by (simp add: enough_def)
  with Suc s show ?case by (auto simp: obind_OutOfFuel split: if_splits)
qed simp

lemma get_bytes_fuel: "get_bytes c ll str \<noteq> OutOfFuel"
  by (induction c ll str rule: get_bytes.induct) (auto split: prod.splits option.splits)

lemma readInteger_fuel: "readInteger str \<noteq> OutOfFuel"
  by (auto simp: readInteger_def get_bytes_fuel split: prod.splits option.splits)

lemma readByteblock_fuel: "readByteblock junk str \<noteq> OutOfFuel"
  by (auto simp: readByteblock_def Let_def split: prod.splits)

lemma readValue_enough: "code_reader_shrinks cd \<Longrightarrow> left str < n \<Longrightarrow> readValue cd junk n str \<noteq> OutOfFuel"
proof (induction n arbitrary: str)
  case (Suc n)
  note sh = readValue_shrinks [OF Suc.prems(1), of junk n]
  show ?case
  proof (cases "is_get str")
    case (Pair c str1)
    show ?thesis
    proof (cases c)
      case (Some vt)
      with Pair have l: "left str = Suc (left str1)" by (simp add: left_is_get_Some)
      have en: "enough (left str1) (readValue cd junk n)"
        using Suc l unfolding enough_def by auto
      note many = enough_read_many [OF sh en] enough_read_pairs [OF sh en]
      have "readList (readValue cd junk n) junk str2 \<noteq> OutOfFuel" if "left str2 \<le> left str1" for str2
        using many(1) that by (auto simp: readList_def split: prod.splits dest: left_readInt32)
      moreover have "readMap (readValue cd junk n) junk str2 \<noteq> OutOfFuel" if "left str2 \<le> left str1" for str2
        using many(2) that by (auto simp: readMap_def split: prod.splits dest: left_readInt32)
      moreover note readInteger_fuel readByteblock_fuel
      ultimately show ?thesis
        using Pair Some
        by (auto simp: value_readers Let_def obind_OutOfFuel readTerm_def split: prod.splits if_splits option.splits
          dest: left_readString)
    qed (simp add: value_readers Pair)
  qed
qed simp

section \<open>Properties of the byte stream\<close>

abbreviation empty_stream :: ostream where
  "empty_stream \<equiv> \<lparr>obuf = [], ofail = False\<rparr>"

text \<open>
  C2. Reading a value back from the bytes \<^verbatim>\<open>writeValue\<close> produced gives that value and leaves what
  follows in the stream, for every storable value, given that the text of its doubles reads back.
\<close>

theorem value_write_read:
  assumes "okc cd okf" and "storable okf v" and "depth v < n"
  shows "readValue cd junk n (istr (obuf (writeValue cd empty_stream v) @ rest)) = Ret (v, istr rest)"
  using readValue_encode [OF assms] writeValue_encode [OF assms(1,2), of empty_stream] by (simp add: os_write_def)

definition unit_codec :: "nat codec" where
  "unit_codec = \<lparr>cd_float_str = (\<lambda>d. show_nat (unat d)), cd_float_read = (\<lambda>s. of_nat (digits_val 10 s)),
     cd_code_write = (\<lambda>str c. str), cd_code_read = (\<lambda>str. (0, str)), cd_entry_write = (\<lambda>str e. str)\<rparr>"

theorem value_write_read_witness:
  "readValue unit_codec (\<lambda>_. NUL) 2
     (istr (obuf (writeValue unit_codec empty_stream (YMap [(YInteger 1, YFloat 5)])) @ ''x''))
   = Ret (YMap [(YInteger 1, YFloat 5)], istr ''x'')"
proof (rule value_write_read)
  show "okc unit_codec (\<lambda>d. d = 5)"
  proof -
    have "cd_float_str unit_codec 5 = ''5''" "cd_float_read unit_codec ''5'' = 5" by code_simp+
    then show ?thesis by (simp add: okc_def fits_def)
  qed
  show "storable (\<lambda>d. d = 5) (YMap [(YInteger 1, YFloat 5)])"
    by (simp add: fits_def ymap_inv_def)
qed simp

text \<open>
  The reader never needs more nesting than there are bytes: with a bound above the length of the
  input it returns a value or meets undefined behaviour, provided the code reader puts no bytes back.
\<close>

theorem readValue_terminates:
  assumes "code_reader_shrinks cd" and "length (ibuf str) < n"
  shows "readValue cd junk n str = Undef \<or> (\<exists>v str'. readValue cd junk n str = Ret (v, str') \<and> length (ibuf str') \<le> length (ibuf str))"
  using readValue_enough [OF assms, of junk] readValue_shrinks [OF assms(1), of junk n]
  by (cases "readValue cd junk n str") (auto simp: shrinks_def)

theorem readValue_terminates_witness:
  "readValue unit_codec (\<lambda>_. NUL) 3 (istr [CHR 0x08, CHR 0x04]) = Undef
   \<or> (\<exists>v str'. readValue unit_codec (\<lambda>_. NUL) 3 (istr [CHR 0x08, CHR 0x04]) = Ret (v, str')
        \<and> length (ibuf str') \<le> length (ibuf (istr [CHR 0x08, CHR 0x04])))"
  by (rule readValue_terminates) (simp_all add: code_reader_shrinks_def unit_codec_def)

text \<open>
  32 bit numbers and strings: \<^verbatim>\<open>readInt32\<close> inverts \<^verbatim>\<open>writeInt32\<close> on every number, and \<^verbatim>\<open>readString\<close>
  gives back what \<^verbatim>\<open>writeString\<close> wrote up to its first NUL byte, reporting success unless it was empty.
\<close>

theorem int32_string_write_read:
  assumes "length s < 2 ^ 32"
  shows "readInt32 junk (istr (obuf (writeInt32 empty_stream v) @ rest)) = (v, istr rest)
    \<and> readString junk (istr (obuf (writeString empty_stream s) @ rest)) = ((s \<noteq> [], c_str s), istr rest)"
proof -
  have f: "fits s" using assms by (simp add: fits_def)
  have "c_str [] = []" by (simp add: c_str_def)
  with f fits_pos [OF f] show ?thesis
    by (auto simp: writeInt32_int32_bytes writeString_bytes os_write_def readString_def is_read_append is_good_def)
qed

theorem int32_string_write_read_witness:
  "readString (\<lambda>_. NUL) (istr (obuf (writeString empty_stream ''ab'') @ ''z'')) = ((''ab'' \<noteq> [], c_str ''ab''), istr ''z'')"
  using int32_string_write_read [of "''ab''" "\<lambda>_. NUL" 0 "''z''"] by simp

text \<open>
  A term with an empty name does not survive: the reader takes the empty name for a failed read,
  gives the placeholder term and leaves the bytes of the arguments in the stream for the next reader.
\<close>

theorem empty_term_name_lost:
  assumes "okc cd okf" and "fits xs" and "list_all (storable okf) xs"
  shows "readValue cd junk (Suc n) (istr (obuf (writeValue cd empty_stream (YTerm [] xs)) @ rest))
    = Ret (YTerm ''no-name-so-far'' [],
        istr (int32_bytes (of_nat (length xs)) @ concat (map (encode cd) xs) @ rest))"
proof -
  have "writeValues cd str xs = os_write str (concat (map (encode cd) xs))" if "\<not> ofail str" for str
    by (rule writeValues_encode [OF _ that]) (use assms in \<open>simp add: writeValue_encode list_all_iff\<close>)
  then have "writeValue cd empty_stream (YTerm [] xs)
      = os_write empty_stream (CHR 0x09 # text_bytes [] @ int32_bytes (of_nat (length xs)) @ concat (map (encode cd) xs))"
    by (simp add: writeValue_toStream writeString_bytes fits_def writeInt32_int32_bytes text_bytes_def)
  moreover have "readString junk (istr (text_bytes [] @ s)) = ((False, []), istr s)" for s
    using readString_text [of "[]" junk s] by (simp add: fits_def)
  ultimately show ?thesis
    by (simp add: value_readers readTerm_def os_write_def)
qed

theorem empty_term_name_lost_witness:
  "readValue unit_codec (\<lambda>_. NUL) (Suc 0) (istr (obuf (writeValue unit_codec empty_stream (YTerm [] [YVoid])) @ []))
    = Ret (YTerm ''no-name-so-far'' [],
        istr (int32_bytes (of_nat (length [YVoid :: nat ycp])) @ concat (map (encode unit_codec) [YVoid]) @ []))"
  by (rule empty_term_name_lost [where okf = "\<lambda>_. False"]) (simp_all add: okc_def fits_def)

end
