(* ===== verification/YCP_Type.thy ===== *)
theory YCP_Type
  imports Bytecode "HOL-Library.Monad_Syntax"
begin

text \<open>
  The static types of YCP (\<^verbatim>\<open>libycp/src/Type.cc\<close>, \<^verbatim>\<open>include/ycp/Type.h\<close>): the class hierarchy below
  \<^verbatim>\<open>Type\<close> with its qualifiers, printing, matching, casting, equality, the common and the detailed
  type, flex types and their replacement, and the stream format.

  One constructor of \<open>ytype\<close> per C++ class.  A \<^verbatim>\<open>Type\<close> object may carry any kind, also the kind of a
  derived class (\<^verbatim>\<open>Type::ConstList\<close> and the flex types read from a stream do), so the kind is a
  field of \<open>PlainType\<close>.  A cast of a handle to a derived class is a \<^verbatim>\<open>dynamic_cast\<close> that gives a null
  handle when the object is of another class; using that handle, or an index beyond a vector, is
  undefined and the value \<^const>\<open>None\<close> of the operations below.  Logging is not modelled.
\<close>

section \<open>Kinds, qualifiers and classes\<close>

datatype tkind =
    UnspecT | ErrorT | AnyT | BooleanT | ByteblockT | FloatT | IntegerT | LocaleT | PathT | StringT
  | SymbolT | TermT | VoidT | WildcardT
  | FlexT | VariableT | ListT | MapT | BlockT | TupleT | FunctionT
  | NilT | NFlexT

record tquals =
  m_const :: bool
  m_reference :: bool

abbreviation noq :: tquals where "noq \<equiv> \<lparr>m_const = False, m_reference = False\<rparr>"
abbreviation constq :: tquals where "constq \<equiv> \<lparr>m_const = True, m_reference = False\<rparr>"

abbreviation as_constq :: "bool \<Rightarrow> tquals" where
  "as_constq c \<equiv> \<lparr>m_const = c, m_reference = False\<rparr>"

datatype ytype =
    PlainType tkind tquals
  | FlexType tquals
  | NFlexType uint32 tquals
  | VariableType ytype tquals
  | ListType ytype tquals
  | MapType ytype ytype tquals
  | BlockType ytype tquals
  | TupleType "ytype list" tquals
  | FunctionType ytype "(ytype list \<times> tquals) option" tquals

fun m_kind :: "ytype \<Rightarrow> tkind" where
  "m_kind (PlainType k q) = k"
| "m_kind (FlexType q) = FlexT"
| "m_kind (NFlexType n q) = NFlexT"
| "m_kind (VariableType t q) = VariableT"
| "m_kind (ListType t q) = ListT"
| "m_kind (MapType k v q) = MapT"
| "m_kind (BlockType t q) = BlockT"
| "m_kind (TupleType ts q) = TupleT"
| "m_kind (FunctionType r a q) = FunctionT"

fun quals :: "ytype \<Rightarrow> tquals" where
  "quals (PlainType k q) = q"
| "quals (FlexType q) = q"
| "quals (NFlexType n q) = q"
| "quals (VariableType t q) = q"
| "quals (ListType t q) = q"
| "quals (MapType k v q) = q"
| "quals (BlockType t q) = q"
| "quals (TupleType ts q) = q"
| "quals (FunctionType r a q) = q"

fun set_quals :: "tquals \<Rightarrow> ytype \<Rightarrow> ytype" where
  "set_quals q (PlainType k _) = PlainType k q"
| "set_quals q (FlexType _) = FlexType q"
| "set_quals q (NFlexType n _) = NFlexType n q"
| "set_quals q (VariableType t _) = VariableType t q"
| "set_quals q (ListType t _) = ListType t q"
| "set_quals q (MapType k v _) = MapType k v q"
| "set_quals q (BlockType t _) = BlockType t q"
| "set_quals q (TupleType ts _) = TupleType ts q"
| "set_quals q (FunctionType r a _) = FunctionType r a q"

definition isConst :: "ytype \<Rightarrow> bool" where "isConst t = m_const (quals t)"
definition isReference :: "ytype \<Rightarrow> bool" where "isReference t = m_reference (quals t)"
definition asConst :: "ytype \<Rightarrow> ytype" where "asConst t = set_quals ((quals t)\<lparr>m_const := True\<rparr>) t"
definition asReference :: "ytype \<Rightarrow> ytype" where
  "asReference t = set_quals ((quals t)\<lparr>m_reference := True\<rparr>) t"

lemmas qual_defs = isConst_def isReference_def asConst_def asReference_def

text \<open>The overrides of \<^verbatim>\<open>isBasetype\<close>: only \<^verbatim>\<open>Type\<close> itself is a base type.\<close>

fun isBasetype :: "ytype \<Rightarrow> bool" where
  "isBasetype (PlainType k q) = True"
| "isBasetype _ = False"

definition is_Flex :: "ytype \<Rightarrow> bool" where
  "is_Flex t \<longleftrightarrow> m_kind t = FlexT \<or> m_kind t = NFlexT"

abbreviation Unspec :: ytype where "Unspec \<equiv> PlainType UnspecT noq"
abbreviation ErrorType :: ytype where "ErrorType \<equiv> PlainType ErrorT noq"
abbreviation AnyType :: ytype where "AnyType \<equiv> PlainType AnyT noq"

section \<open>Parameters\<close>

text \<open>\<^verbatim>\<open>TupleType::parameterType\<close>, and \<^verbatim>\<open>parameterCount\<close> and \<^verbatim>\<open>parameterType\<close> of a function.\<close>

definition parameterType :: "ytype list \<Rightarrow> nat \<Rightarrow> ytype" where
  "parameterType ts i = (if i < length ts then ts ! i else ErrorType)"

fun fun_parameterCount :: "(ytype list \<times> tquals) option \<Rightarrow> nat" where
  "fun_parameterCount None = 0"
| "fun_parameterCount (Some (ts, q)) = length ts"

fun fun_parameterType :: "(ytype list \<times> tquals) option \<Rightarrow> nat \<Rightarrow> ytype" where
  "fun_parameterType None i = ErrorType"
| "fun_parameterType (Some (ts, q)) i = parameterType ts i"

text \<open>\<^verbatim>\<open>FunctionType::concat\<close>: the first parameter creates the argument tuple.\<close>

fun fun_concat :: "ytype \<Rightarrow> ytype \<Rightarrow> ytype" where
  "fun_concat (FunctionType r None q) t = FunctionType r (Some ([t], noq)) q"
| "fun_concat (FunctionType r (Some (ts, q')) q) t = FunctionType r (Some (ts @ [t], q')) q"
| "fun_concat f t = f"

text \<open>\<^verbatim>\<open>m_types[i]\<close> of a vector: undefined out of range.\<close>

definition vec_at :: "'a list \<Rightarrow> nat \<Rightarrow> 'a option" where
  "vec_at ts i = (if i < length ts then Some (ts ! i) else None)"

section \<open>Printing\<close>

definition preToString :: "tquals \<Rightarrow> string" where
  "preToString q = (if m_const q then ''const '' else '''')"

definition postToString :: "tquals \<Rightarrow> string" where
  "postToString q = (if m_reference q then '' &'' else '''')"

fun kind_string :: "tkind \<Rightarrow> string" where
  "kind_string UnspecT = ''<unspec>''"
| "kind_string ErrorT = ''<*ERR*>''"
| "kind_string AnyT = ''any''"
| "kind_string BooleanT = ''boolean''"
| "kind_string ByteblockT = ''byteblock''"
| "kind_string FloatT = ''float''"
| "kind_string IntegerT = ''integer''"
| "kind_string LocaleT = ''locale''"
| "kind_string PathT = ''path''"
| "kind_string StringT = ''string''"
| "kind_string SymbolT = ''symbol''"
| "kind_string TermT = ''term''"
| "kind_string VoidT = ''void''"
| "kind_string WildcardT = ''...''"
| "kind_string FlexT = ''<T>''"
| "kind_string VariableT = ''<VARIABLE>''"
| "kind_string BlockT = ''<BLOCK>''"
| "kind_string ListT = ''<LIST>''"
| "kind_string MapT = ''<MAP>''"
| "kind_string TupleT = ''<TUPLE>''"
| "kind_string FunctionT = ''<FUNCTION>''"
| "kind_string NilT = ''<nil>''"
| "kind_string NFlexT = ''<Tx>''"

definition open_kind :: "ytype \<Rightarrow> bool" where
  "open_kind t \<longleftrightarrow> m_kind t = UnspecT \<or> m_kind t = AnyT"

definition nflex_string :: "uint32 \<Rightarrow> tquals \<Rightarrow> string" where
  "nflex_string n q = preToString q @ ''<T'' @ take 7 (show_int (sint n)) @ ''>'' @ postToString q"

definition variable_string :: "string \<Rightarrow> string" where
  "variable_string s = ''variable <'' @ s @ ''>''"

definition list_string :: "ytype \<Rightarrow> string \<Rightarrow> tquals \<Rightarrow> string" where
  "list_string t s q =
     preToString q @ ''list'' @ (if \<not> open_kind t then '' <'' @ s @ ''>'' else '''') @ postToString q"

definition map_string :: "ytype \<Rightarrow> string \<Rightarrow> ytype \<Rightarrow> string \<Rightarrow> tquals \<Rightarrow> string" where
  "map_string k ks v vs q =
     preToString q @ ''map'' @
     (if \<not> (open_kind k \<and> open_kind v) then '' <'' @ ks @ '', '' @ vs @ ''>'' else '''') @ postToString q"

definition block_string :: "string \<Rightarrow> tquals \<Rightarrow> string" where
  "block_string s q = preToString q @ ''block <'' @ s @ ''>'' @ postToString q"

definition tuple_string :: "string list \<Rightarrow> tquals \<Rightarrow> string" where
  "tuple_string ss q = preToString q @ ''('' @ comma_join ss @ '')'' @ postToString q"

definition function_string :: "string \<Rightarrow> string list \<Rightarrow> tquals \<Rightarrow> string" where
  "function_string r ss q = preToString q @ r @ '' ('' @ comma_join ss @ '')'' @ postToString q"

lemmas type_string_defs = nflex_string_def variable_string_def list_string_def map_string_def
  block_string_def tuple_string_def function_string_def

fun type_string :: "ytype \<Rightarrow> string" where
  "type_string (PlainType k q) = preToString q @ kind_string k @ postToString q"
| "type_string (FlexType q) = preToString q @ ''<T>'' @ postToString q"
| "type_string (NFlexType n q) = nflex_string n q"
| "type_string (VariableType t q) = variable_string (type_string t)"
| "type_string (ListType t q) = list_string t (type_string t) q"
| "type_string (MapType k v q) = map_string k (type_string k) v (type_string v) q"
| "type_string (BlockType t q) = block_string (type_string t) q"
| "type_string (TupleType ts q) = tuple_string (map type_string ts) q"
| "type_string (FunctionType r a q) =
     function_string (type_string r) (case a of None \<Rightarrow> [] | Some (ts, q') \<Rightarrow> map type_string ts) q"

section \<open>Matching\<close>

definition free_kind :: "tkind \<Rightarrow> bool" where
  "free_kind ek \<longleftrightarrow> ek = AnyT \<or> ek = FlexT \<or> ek = NFlexT \<or> ek = WildcardT \<or> ek = UnspecT"

definition basematch :: "ytype \<Rightarrow> ytype \<Rightarrow> int" where
  "basematch t expected =
     (if m_kind t = ErrorT \<or> m_kind expected = ErrorT then -1
      else if isReference expected \<and> \<not> isConst expected \<and> isConst t then -1
      else if free_kind (m_kind expected) then 1
      else if m_kind t = VoidT then 0
      else if isBasetype t = isBasetype expected then 0
      else -1)"

definition plain_match :: "ytype \<Rightarrow> ytype \<Rightarrow> int" where
  "plain_match t expected =
     (let k = m_kind t; ek = m_kind expected in
      if basematch t expected < 0 then -1
      else if free_kind ek then 0
      else if k = ek then 0
      else if k = AnyT then -1
      else if k = UnspecT then 0
      else if k = VoidT then 0
      else if k = IntegerT then (if ek = FloatT then 2 else -1)
      else if k = FloatT then (if ek = IntegerT then 1 else -1)
      else if k = LocaleT then (if ek = StringT then 0 else -1)
      else if k = StringT then (if ek = LocaleT then 0 else -1)
      else -1)"

text \<open>
  \<^verbatim>\<open>match\<close>, virtual: negative for no match, zero for a full and positive for a propagated one.  One
  definition per class, over the \<^verbatim>\<open>match\<close> of the members; then the dispatch.
\<close>

definition flex_match :: "ytype \<Rightarrow> int" where
  "flex_match expected = (if is_Flex expected then 0 else -1)"

definition variable_match :: "(ytype \<Rightarrow> int option) \<Rightarrow> ytype \<Rightarrow> ytype \<Rightarrow> int option" where
  "variable_match m this expected =
     (let bm = basematch this expected in
      if bm = 1 then Some 0
      else if bm = 0 \<and> m_kind expected = VariableT
      then (case expected of
              VariableType t' q' \<Rightarrow> do { r \<leftarrow> m t'; Some (if r \<ge> 0 then 0 else -1) }
            | _ \<Rightarrow> None)
      else Some (-1))"

definition list_match :: "(ytype \<Rightarrow> int option) \<Rightarrow> ytype \<Rightarrow> ytype \<Rightarrow> ytype \<Rightarrow> int option" where
  "list_match m t this expected =
     (let bm = basematch this expected in
      if bm = 1 then Some 0
      else if bm = 0 \<and> m_kind expected = ListT
      then (case expected of
              ListType t' q' \<Rightarrow>
                if m_kind t' = UnspecT \<or> m_kind t = UnspecT then Some 0
                else do { r \<leftarrow> m t'; Some (if r \<ge> 0 then 0 else -1) }
            | _ \<Rightarrow> None)
      else Some (-1))"

definition map_match ::
  "(ytype \<Rightarrow> int option) \<Rightarrow> (ytype \<Rightarrow> int option) \<Rightarrow> ytype \<Rightarrow> ytype \<Rightarrow> ytype \<Rightarrow> ytype \<Rightarrow> int option" where
  "map_match mk mv k v this expected =
     (let bm = basematch this expected in
      if bm = 1 then Some 0
      else if bm = 0 \<and> m_kind expected = MapT
      then (case expected of
              MapType k' v' q' \<Rightarrow> do {
                rk \<leftarrow> (if m_kind k = UnspecT then Some 0 else mk k');
                if rk < 0 then Some (-1)
                else do {
                  rv \<leftarrow> (if m_kind v = UnspecT then Some 0 else mv v');
                  Some (if rv \<ge> 0 then 0 else -1) } }
            | _ \<Rightarrow> None)
      else Some (-1))"

definition block_match :: "(ytype \<Rightarrow> int option) \<Rightarrow> ytype \<Rightarrow> ytype \<Rightarrow> int option" where
  "block_match m this expected =
     (let bm = basematch this expected in
      if bm = 1 then Some 0
      else if bm = 0 \<and> m_kind expected = BlockT
      then (case expected of
              BlockType t' q' \<Rightarrow> do { r \<leftarrow> m t'; Some (if r \<ge> 0 then 0 else -1) }
            | _ \<Rightarrow> None)
      else Some (-1))"

text \<open>
  The loops over parameters stop early only beyond \<open>esize\<close> and only for a wildcard.  \<open>loop at esize
  wildcard\<close> is the loop over the own parameters, where \<open>at\<close> gives the expected parameter of an index:
  out of range it does not exist for a tuple and is the error type for a function.
\<close>

type_synonym param_loop = "(nat \<Rightarrow> ytype option) \<Rightarrow> nat \<Rightarrow> bool \<Rightarrow> int option"

definition tuple_match :: "param_loop \<Rightarrow> ytype \<Rightarrow> ytype \<Rightarrow> int option" where
  "tuple_match loop this expected =
     (let bm = basematch this expected in
      if bm = 1 then Some 0
      else if bm = 0 \<and> m_kind expected = TupleT
      then (case expected of
              TupleType ts' q' \<Rightarrow>
                if ts' = [] then None
                else loop (vec_at ts') (length ts') (m_kind (last ts') = WildcardT)
            | _ \<Rightarrow> None)
      else Some (-1))"

definition function_match ::
  "(ytype \<Rightarrow> int option) \<Rightarrow> param_loop option \<Rightarrow> nat \<Rightarrow> ytype \<Rightarrow> ytype \<Rightarrow> int option" where
  "function_match m loop size_args this expected =
     (let bm = basematch this expected in
      if bm = 1 then Some 0
      else if bm = 0 \<and> m_kind expected = FunctionT
      then (case expected of
              FunctionType r' a' q' \<Rightarrow> do {
                r \<leftarrow> m r';
                if r < 0 then Some (-1)
                else let esize = fun_parameterCount a' in
                  if esize = 0 \<and> loop = None then Some 0
                  else let wildcard = (0 < esize \<and> m_kind (fun_parameterType a' (esize - 1)) = WildcardT) in
                    if \<not> wildcard \<and> (esize \<noteq> 0 \<and> loop = None \<or> esize \<noteq> size_args) then Some (-1)
                    else (case loop of
                            None \<Rightarrow> None
                          | Some l \<Rightarrow> l (\<lambda>i. Some (fun_parameterType a' i)) esize wildcard) }
            | _ \<Rightarrow> None)
      else Some (-1))"

lemmas class_match_defs [simp] = flex_match_def variable_match_def list_match_def map_match_def
  block_match_def tuple_match_def function_match_def

fun match :: "ytype \<Rightarrow> ytype \<Rightarrow> int option"
  and match_params :: "(nat \<Rightarrow> ytype option) \<Rightarrow> nat \<Rightarrow> bool \<Rightarrow> nat \<Rightarrow> ytype list \<Rightarrow> int option" where
  "match (PlainType k q) expected = Some (plain_match (PlainType k q) expected)"
| "match (FlexType q) expected = Some (flex_match expected)"
| "match (NFlexType n q) expected = Some (flex_match expected)"
| "match (VariableType t q) expected = variable_match (match t) (VariableType t q) expected"
| "match (ListType t q) expected = list_match (match t) t (ListType t q) expected"
| "match (MapType k v q) expected = map_match (match k) (match v) k v (MapType k v q) expected"
| "match (BlockType t q) expected = block_match (match t) (BlockType t q) expected"
| "match (TupleType ts q) expected =
     tuple_match (\<lambda>at esize wildcard. match_params at esize wildcard 0 ts) (TupleType ts q) expected"
| "match (FunctionType r a q) expected =
     function_match (match r)
       (case a of None \<Rightarrow> None | Some (ts, q1) \<Rightarrow> Some (\<lambda>at esize wildcard. match_params at esize wildcard 0 ts))
       (fun_parameterCount a) (FunctionType r a q) expected"
| "match_params at esize wildcard index [] = Some 0"
| "match_params at esize wildcard index (t # ts) =
     (if index > esize \<and> wildcard then Some 0
      else do {
        t' \<leftarrow> at index;
        m \<leftarrow> match t t';
        if m < 0 then Some (-1) else match_params at esize wildcard (Suc index) ts })"

section \<open>Values of a type\<close>

text \<open>The loop over list elements and map pairs: stops at the first that does not match.\<close>

fun check_all :: "('a \<Rightarrow> int option) \<Rightarrow> 'a list \<Rightarrow> int option" where
  "check_all f [] = Some 0"
| "check_all f (x # xs) = do { m \<leftarrow> f x; if m < 0 then Some (-1) else check_all f xs }"

fun matchvalue :: "ytype \<Rightarrow> 'c ycp \<Rightarrow> int option" where
  "matchvalue t v =
     (if isNull v then Some (-1)
      else if m_kind t = AnyT then Some 0
      else case v of
        YVoid \<Rightarrow> Some 0
      | YBoolean b \<Rightarrow> Some (if m_kind t = BooleanT then 0 else -1)
      | YInteger i \<Rightarrow> Some (if m_kind t = IntegerT then 0 else -1)
      | YFloat d \<Rightarrow> Some (if m_kind t = FloatT then 0 else -1)
      | YString s \<Rightarrow> Some (if m_kind t = StringT then 0 else -1)
      | YByteblock b \<Rightarrow> Some (if m_kind t = ByteblockT then 0 else -1)
      | YPath p \<Rightarrow> Some (if m_kind t = PathT then 0 else -1)
      | YSymbol s \<Rightarrow> Some (if m_kind t = SymbolT then 0 else -1)
      | YTerm s vs \<Rightarrow> Some (if m_kind t = TermT then 0 else -1)
      | YList vs \<Rightarrow>
          if m_kind t \<noteq> ListT then Some (-1)
          else (case t of
                  ListType et q \<Rightarrow>
                    if m_kind et = AnyT \<or> m_kind et = UnspecT then Some 0
                    else check_all (\<lambda>e. matchvalue et e) vs
                | _ \<Rightarrow> None)
      | YMap m \<Rightarrow>
          if m_kind t \<noteq> MapT then Some (-1)
          else (case t of
                  MapType kt et q \<Rightarrow>
                    if m_kind et = AnyT \<or> m_kind et = UnspecT then Some 0
                    else check_all (\<lambda>p. do {
                           mk \<leftarrow> matchvalue kt (fst p);
                           if mk < 0 then Some (-1) else matchvalue et (snd p) }) m
                | _ \<Rightarrow> None)
      | YReturn \<Rightarrow> Some 0
      | _ \<Rightarrow> Some (-1))"

declare matchvalue.simps [simp del]

section \<open>Casting and equality\<close>

text \<open>
  In \<^verbatim>\<open>TupleType\<close>, here and in \<^verbatim>\<open>equals\<close>, the cast \<^verbatim>\<open>(const TupleType) to\<close> is no cast of the object: it calls
  the constructor \<^verbatim>\<open>TupleType (constTypePtr)\<close>, so that \<^verbatim>\<open>tt\<close> is a new tuple whose only element is \<^verbatim>\<open>to\<close>.
\<close>

definition plain_canCast :: "ytype \<Rightarrow> ytype \<Rightarrow> bool option" where
  "plain_canCast t to = (if m_kind t = AnyT then Some True else do { m \<leftarrow> match t to; Some (m \<ge> 0) })"

definition list_canCast :: "(ytype \<Rightarrow> bool option) \<Rightarrow> ytype \<Rightarrow> bool option" where
  "list_canCast c to =
     (if m_kind to = ListT then (case to of ListType t' q' \<Rightarrow> c t' | _ \<Rightarrow> None) else Some False)"

definition map_canCast :: "(ytype \<Rightarrow> bool option) \<Rightarrow> (ytype \<Rightarrow> bool option) \<Rightarrow> ytype \<Rightarrow> bool option" where
  "map_canCast ck cv to =
     (if m_kind to = MapT
      then (case to of
              MapType k' v' q' \<Rightarrow> do { b \<leftarrow> ck k'; if b then cv v' else Some False }
            | _ \<Rightarrow> None)
      else Some False)"

definition block_canCast :: "(ytype \<Rightarrow> bool option) \<Rightarrow> ytype \<Rightarrow> bool option" where
  "block_canCast c to =
     (if m_kind to = BlockT then (case to of BlockType t' q' \<Rightarrow> c t' | _ \<Rightarrow> None) else Some False)"

definition tuple_canCast ::
  "((nat \<Rightarrow> ytype option) \<Rightarrow> nat \<Rightarrow> bool \<Rightarrow> bool option) \<Rightarrow> ytype \<Rightarrow> bool option" where
  "tuple_canCast loop to =
     (if m_kind to = TupleT then loop (vec_at [to]) 1 (m_kind to = WildcardT) else Some False)"

fun canCast :: "ytype \<Rightarrow> ytype \<Rightarrow> bool option"
  and cast_params :: "(nat \<Rightarrow> ytype option) \<Rightarrow> nat \<Rightarrow> bool \<Rightarrow> nat \<Rightarrow> ytype list \<Rightarrow> bool option" where
  "canCast (ListType t q) to = list_canCast (canCast t) to"
| "canCast (MapType k v q) to = map_canCast (canCast k) (canCast v) to"
| "canCast (BlockType t q) to = block_canCast (canCast t) to"
| "canCast (TupleType ts q) to =
     tuple_canCast (\<lambda>at esize wildcard. cast_params at esize wildcard 0 ts) to"
| "canCast (FunctionType r a q) to = Some False"
| "canCast t to = plain_canCast t to"
| "cast_params at esize wildcard index [] = Some True"
| "cast_params at esize wildcard index (t # ts) =
     (if index > esize \<and> wildcard then Some True
      else do {
        t' \<leftarrow> at index;
        b \<leftarrow> canCast t t';
        if \<not> b then Some False else cast_params at esize wildcard (Suc index) ts })"

definition plain_equals :: "ytype \<Rightarrow> ytype \<Rightarrow> bool" where
  "plain_equals t expected \<longleftrightarrow> isBasetype t = isBasetype expected \<and> m_kind expected = m_kind t"

definition variable_equals :: "(ytype \<Rightarrow> bool option) \<Rightarrow> ytype \<Rightarrow> bool option" where
  "variable_equals eq expected =
     (if m_kind expected = VariableT
      then (case expected of VariableType t' q' \<Rightarrow> eq t' | _ \<Rightarrow> None) else Some False)"

definition list_equals :: "(ytype \<Rightarrow> bool option) \<Rightarrow> ytype \<Rightarrow> bool option" where
  "list_equals eq expected =
     (if m_kind expected = ListT
      then (case expected of ListType t' q' \<Rightarrow> eq t' | _ \<Rightarrow> None) else Some False)"

definition map_equals :: "(ytype \<Rightarrow> bool option) \<Rightarrow> (ytype \<Rightarrow> bool option) \<Rightarrow> ytype \<Rightarrow> bool option" where
  "map_equals eqk eqv expected =
     (if m_kind expected = MapT
      then (case expected of
              MapType k' v' q' \<Rightarrow> do { b \<leftarrow> eqv v'; if b then eqk k' else Some False }
            | _ \<Rightarrow> None)
      else Some False)"

definition block_equals :: "(ytype \<Rightarrow> bool option) \<Rightarrow> ytype \<Rightarrow> bool option" where
  "block_equals eq expected =
     (if m_kind expected = BlockT
      then (case expected of BlockType t' q' \<Rightarrow> eq t' | _ \<Rightarrow> None) else Some False)"

definition tuple_equals :: "((nat \<Rightarrow> ytype) \<Rightarrow> bool option) \<Rightarrow> nat \<Rightarrow> ytype \<Rightarrow> bool option" where
  "tuple_equals differ n expected =
     (if m_kind expected = TupleT
      then if n \<noteq> 1 then Some False else differ (\<lambda>i. expected)
      else Some False)"

definition function_equals ::
  "(ytype \<Rightarrow> bool option) \<Rightarrow> ((nat \<Rightarrow> ytype) \<Rightarrow> bool option) option \<Rightarrow> ytype \<Rightarrow> bool option" where
  "function_equals eq loop expected =
     (if m_kind expected = FunctionT
      then (case expected of
              FunctionType r' a' q' \<Rightarrow> do {
                b \<leftarrow> eq r';
                if \<not> b then Some False
                else if fun_parameterCount a' = 0 \<and> loop = None then Some True
                else (case loop of None \<Rightarrow> None | Some l \<Rightarrow> l (fun_parameterType a')) }
            | _ \<Rightarrow> None)
      else Some False)"

lemmas class_equals_defs [simp] = plain_equals_def variable_equals_def list_equals_def map_equals_def
  block_equals_def tuple_equals_def function_equals_def

fun equals :: "ytype \<Rightarrow> ytype \<Rightarrow> bool option"
  and equals_params :: "(nat \<Rightarrow> ytype) \<Rightarrow> nat \<Rightarrow> ytype list \<Rightarrow> bool option"
  and differ_params :: "(nat \<Rightarrow> ytype) \<Rightarrow> nat \<Rightarrow> ytype list \<Rightarrow> bool option" where
  "equals (VariableType t q) expected = variable_equals (equals t) expected"
| "equals (ListType t q) expected = list_equals (equals t) expected"
| "equals (MapType k v q) expected = map_equals (equals k) (equals v) expected"
| "equals (BlockType t q) expected = block_equals (equals t) expected"
| "equals (TupleType ts q) expected = tuple_equals (\<lambda>at. differ_params at 0 ts) (length ts) expected"
| "equals (FunctionType r a q) expected =
     function_equals (equals r)
       (case a of None \<Rightarrow> None | Some (ts, q1) \<Rightarrow> Some (\<lambda>at. equals_params at 0 ts)) expected"
| "equals t expected = Some (plain_equals t expected)"
| "equals_params at index [] = Some True"
| "equals_params at index (t # ts) =
     do { b \<leftarrow> equals t (at index); if \<not> b then Some False else equals_params at (Suc index) ts }"
| "differ_params at index [] = Some True"
| "differ_params at index (t # ts) =
     do { b \<leftarrow> equals t (at index); if b then Some False else differ_params at (Suc index) ts }"

section \<open>Copies and flex types\<close>

text \<open>\<^verbatim>\<open>clone\<close>: a new object of the same class without the qualifiers.  A tuple reads its first
  element; the argument tuple of a function is rebuilt by \<^verbatim>\<open>concat\<close>.\<close>

definition tuple_clone :: "ytype list \<Rightarrow> ytype option" where
  "tuple_clone ts = (if ts = [] then None else Some (TupleType ts noq))"

definition function_clone :: "ytype \<Rightarrow> (ytype list \<times> tquals) option \<Rightarrow> ytype" where
  "function_clone r a =
     (case a of
        None \<Rightarrow> FunctionType r None noq
      | Some (ts, q) \<Rightarrow> foldl fun_concat (FunctionType r None noq) ts)"

fun clone :: "ytype \<Rightarrow> ytype option" where
  "clone (PlainType k q) = Some (PlainType k noq)"
| "clone (FlexType q) = Some (FlexType noq)"
| "clone (NFlexType n q) = Some (NFlexType n noq)"
| "clone (VariableType t q) = Some (VariableType t noq)"
| "clone (ListType t q) = Some (ListType t noq)"
| "clone (MapType k v q) = Some (MapType k v noq)"
| "clone (BlockType t q) = Some (BlockType t noq)"
| "clone (TupleType ts q) = tuple_clone ts"
| "clone (FunctionType r a q) = Some (function_clone r a)"

text \<open>\<^verbatim>\<open>matchFlex\<close>: what the flex type of the given number stands for, an inner \<^const>\<open>None\<close> for the null
  handle.\<close>

type_synonym flex_result = "ytype option option"

definition flex_target :: "ytype \<Rightarrow> ytype" where
  "flex_target type = (if m_kind type = UnspecT then AnyType else type)"

definition flex_matchFlex :: "ytype \<Rightarrow> uint32 \<Rightarrow> ytype option" where
  "flex_matchFlex type n = (if n \<noteq> 0 then None else Some (flex_target type))"

definition nflex_matchFlex :: "uint32 \<Rightarrow> ytype \<Rightarrow> uint32 \<Rightarrow> ytype option" where
  "nflex_matchFlex m type n = (if n = 0 \<or> n \<noteq> m then None else Some (flex_target type))"

definition variable_matchFlex :: "(ytype \<Rightarrow> flex_result) \<Rightarrow> ytype \<Rightarrow> flex_result" where
  "variable_matchFlex mf type =
     (if m_kind type = VariableT
      then (case type of VariableType t' q' \<Rightarrow> mf t' | _ \<Rightarrow> None) else Some None)"

definition list_matchFlex :: "(ytype \<Rightarrow> flex_result) \<Rightarrow> ytype \<Rightarrow> flex_result" where
  "list_matchFlex mf type =
     (if m_kind type = ListT
      then (case type of ListType t' q' \<Rightarrow> mf t' | _ \<Rightarrow> None) else Some None)"

definition map_matchFlex :: "(ytype \<Rightarrow> flex_result) \<Rightarrow> (ytype \<Rightarrow> flex_result) \<Rightarrow> ytype \<Rightarrow> flex_result" where
  "map_matchFlex mfk mfv type =
     (if m_kind type \<noteq> MapT then Some None
      else (case type of
              MapType k' v' q' \<Rightarrow> do { flex \<leftarrow> mfv v'; if flex \<noteq> None then Some flex else mfk k' }
            | _ \<Rightarrow> None))"

definition block_matchFlex :: "(ytype \<Rightarrow> flex_result) \<Rightarrow> ytype \<Rightarrow> flex_result" where
  "block_matchFlex mf type =
     (if m_kind type = BlockT
      then (case type of BlockType t' q' \<Rightarrow> mf t' | _ \<Rightarrow> None) else Some None)"

definition tuple_matchFlex :: "(ytype list \<Rightarrow> flex_result) \<Rightarrow> ytype \<Rightarrow> flex_result" where
  "tuple_matchFlex loop type =
     (if m_kind type \<noteq> TupleT then Some None
      else (case type of TupleType ts' q' \<Rightarrow> loop ts' | _ \<Rightarrow> None))"

definition function_matchFlex :: "(ytype list \<Rightarrow> flex_result) option \<Rightarrow> ytype \<Rightarrow> flex_result" where
  "function_matchFlex loop type =
     (if m_kind type \<noteq> FunctionT then Some None
      else (case loop of
              None \<Rightarrow> Some None
            | Some l \<Rightarrow>
                (case type of
                   FunctionType r' a' q' \<Rightarrow>
                     (case a' of None \<Rightarrow> Some None | Some (ts', q2) \<Rightarrow> l ts')
                 | _ \<Rightarrow> None)))"

lemmas class_matchFlex_defs [simp] = flex_matchFlex_def nflex_matchFlex_def variable_matchFlex_def
  list_matchFlex_def map_matchFlex_def block_matchFlex_def tuple_matchFlex_def function_matchFlex_def

fun matchFlex :: "ytype \<Rightarrow> uint32 \<Rightarrow> ytype \<Rightarrow> flex_result"
  and matchFlex_params :: "ytype list \<Rightarrow> uint32 \<Rightarrow> ytype list \<Rightarrow> flex_result" where
  "matchFlex (PlainType k q) n type = Some None"
| "matchFlex (FlexType q) n type = Some (flex_matchFlex type n)"
| "matchFlex (NFlexType m q) n type = Some (nflex_matchFlex m type n)"
| "matchFlex (VariableType t q) n type = variable_matchFlex (matchFlex t n) type"
| "matchFlex (ListType t q) n type = list_matchFlex (matchFlex t n) type"
| "matchFlex (MapType k v q) n type = map_matchFlex (matchFlex k n) (matchFlex v n) type"
| "matchFlex (BlockType t q) n type = block_matchFlex (matchFlex t n) type"
| "matchFlex (TupleType ts q) n type = tuple_matchFlex (matchFlex_params ts n) type"
| "matchFlex (FunctionType r a q) n type =
     function_matchFlex (case a of None \<Rightarrow> None | Some (ts, q1) \<Rightarrow> Some (matchFlex_params ts n)) type"
| "matchFlex_params [] n ts' = Some None"
| "matchFlex_params (t # ts) n [] = Some None"
| "matchFlex_params (t # ts) n (t' # ts') =
     (if m_kind t' = ErrorT then Some None
      else do { flex \<leftarrow> matchFlex t n t'; if flex \<noteq> None then Some flex else matchFlex_params ts n ts' })"

definition keep_quals :: "tquals \<Rightarrow> ytype \<Rightarrow> ytype" where
  "keep_quals q t =
     (let t1 = (if m_const q then asConst t else t) in if m_reference q then asReference t1 else t1)"

definition flex_unflex :: "ytype \<Rightarrow> uint32 \<Rightarrow> tquals \<Rightarrow> ytype option" where
  "flex_unflex type n q =
     (if n = 0 then map_option (keep_quals q) (clone type) else clone (FlexType q))"

definition nflex_unflex :: "ytype \<Rightarrow> uint32 \<Rightarrow> uint32 \<Rightarrow> tquals \<Rightarrow> ytype option" where
  "nflex_unflex type n m q =
     (if m = n then map_option (keep_quals q) (clone type) else clone (NFlexType m q))"

definition map_unflex :: "ytype option \<Rightarrow> ytype option \<Rightarrow> ytype \<Rightarrow> ytype \<Rightarrow> tquals \<Rightarrow> ytype option" where
  "map_unflex uk uv k v q =
     (if is_Flex k then do { k' \<leftarrow> uk; Some (MapType k' v noq) }
      else if is_Flex v then do { v' \<leftarrow> uv; Some (MapType k v' noq) }
      else clone (MapType k v q))"

definition tuple_unflex :: "ytype list option \<Rightarrow> bool \<Rightarrow> ytype option" where
  "tuple_unflex ts' none = (if none then None else do { us \<leftarrow> ts'; Some (TupleType us noq) })"

definition function_unflex :: "ytype option \<Rightarrow> ytype list option \<Rightarrow> ytype option" where
  "function_unflex r' ts' = do { r \<leftarrow> r'; us \<leftarrow> ts'; Some (foldl fun_concat (FunctionType r None noq) us) }"

lemmas class_unflex_defs = flex_unflex_def nflex_unflex_def map_unflex_def tuple_unflex_def function_unflex_def

fun unflex :: "ytype \<Rightarrow> uint32 \<Rightarrow> ytype \<Rightarrow> ytype option"
  and unflex_list :: "ytype \<Rightarrow> uint32 \<Rightarrow> ytype list \<Rightarrow> ytype list option" where
  "unflex type n (PlainType k q) = clone (PlainType k q)"
| "unflex type n (FlexType q) = flex_unflex type n q"
| "unflex type n (NFlexType m q) = nflex_unflex type n m q"
| "unflex type n (VariableType t q) = do { t' \<leftarrow> unflex type n t; Some (VariableType t' noq) }"
| "unflex type n (ListType t q) = do { t' \<leftarrow> unflex type n t; Some (ListType t' noq) }"
| "unflex type n (MapType k v q) =
     map_unflex (unflex type n k) (unflex type n v) k v q"
| "unflex type n (BlockType t q) = do { t' \<leftarrow> unflex type n t; Some (BlockType t' noq) }"
| "unflex type n (TupleType ts q) = tuple_unflex (unflex_list type n ts) (ts = [])"
| "unflex type n (FunctionType r a q) =
     function_unflex (unflex type n r) (case a of None \<Rightarrow> Some [] | Some (ts, q1) \<Rightarrow> unflex_list type n ts)"
| "unflex_list type n [] = Some []"
| "unflex_list type n (t # ts) =
     do { t' \<leftarrow> unflex type n t; ts' \<leftarrow> unflex_list type n ts; Some (t' # ts') }"

section \<open>Common and detailed type\<close>

definition plain_commontype :: "ytype \<Rightarrow> ytype \<Rightarrow> ytype option" where
  "plain_commontype t type =
     (if m_kind t = VoidT then Some type
      else do {
        m \<leftarrow> match t type;
        if m \<ge> 0 then Some t
        else if m_kind t \<noteq> AnyT
        then do { m' \<leftarrow> match type t; Some (if m' \<ge> 0 then type else AnyType) }
        else Some AnyType })"

definition list_commontype :: "(ytype \<Rightarrow> ytype option) \<Rightarrow> ytype \<Rightarrow> ytype \<Rightarrow> ytype option" where
  "list_commontype ct this type =
     (if m_kind type = VoidT \<or> m_kind type = UnspecT then Some this
      else if m_kind type = ListT
      then (case type of
              ListType t' q' \<Rightarrow> do { c \<leftarrow> ct t'; Some (ListType c noq) }
            | _ \<Rightarrow> None)
      else Some AnyType)"

definition map_commontype ::
  "(ytype \<Rightarrow> ytype option) \<Rightarrow> (ytype \<Rightarrow> ytype option) \<Rightarrow> ytype \<Rightarrow> ytype \<Rightarrow> ytype option" where
  "map_commontype ctk ctv this type =
     (if m_kind type = VoidT \<or> m_kind type = UnspecT then Some this
      else if m_kind type = MapT
      then (case type of
              MapType k' v' q' \<Rightarrow> do { ck \<leftarrow> ctk k'; cv \<leftarrow> ctv v'; Some (MapType ck cv noq) }
            | _ \<Rightarrow> None)
      else Some AnyType)"

lemmas class_commontype_defs [simp] = list_commontype_def map_commontype_def

fun commontype :: "ytype \<Rightarrow> ytype \<Rightarrow> ytype option" where
  "commontype (ListType t q) type = list_commontype (commontype t) (ListType t q) type"
| "commontype (MapType k v q) type = map_commontype (commontype k) (commontype v) (MapType k v q) type"
| "commontype t type = plain_commontype t type"

definition plain_detailedtype :: "ytype \<Rightarrow> ytype \<Rightarrow> ytype option" where
  "plain_detailedtype t type =
     (if m_kind t = VoidT then Some type
      else if m_kind type = VoidT then Some t
      else if m_kind type = UnspecT then Some t
      else if m_kind type = AnyT then Some t
      else if m_kind t = UnspecT then Some type
      else if m_kind t = AnyT then Some type
      else do {
        m \<leftarrow> match t type;
        if m \<ge> 0 then Some type
        else do { m' \<leftarrow> match type t; Some (if m' \<ge> 0 then t else ErrorType) } })"

definition list_detailedtype :: "(ytype \<Rightarrow> ytype option) \<Rightarrow> ytype \<Rightarrow> ytype \<Rightarrow> ytype option" where
  "list_detailedtype dt this type =
     (if m_kind type = VoidT \<or> m_kind type = UnspecT then Some this
      else if m_kind type = ListT
      then (case type of
              ListType t' q' \<Rightarrow> do { c \<leftarrow> dt t'; Some (ListType c noq) }
            | _ \<Rightarrow> None)
      else Some ErrorType)"

definition map_detailedtype ::
  "(ytype \<Rightarrow> ytype option) \<Rightarrow> (ytype \<Rightarrow> ytype option) \<Rightarrow> ytype \<Rightarrow> ytype \<Rightarrow> ytype option" where
  "map_detailedtype dtk dtv this type =
     (if m_kind type = VoidT \<or> m_kind type = UnspecT then Some this
      else if m_kind type = MapT
      then (case type of
              MapType k' v' q' \<Rightarrow> do { ck \<leftarrow> dtk k'; cv \<leftarrow> dtv v'; Some (MapType ck cv noq) }
            | _ \<Rightarrow> None)
      else Some ErrorType)"

fun detailedtype :: "ytype \<Rightarrow> ytype \<Rightarrow> ytype option" where
  "detailedtype (ListType t q) type = list_detailedtype (detailedtype t) (ListType t q) type"
| "detailedtype (MapType k v q) type = map_detailedtype (detailedtype k) (detailedtype v) (MapType k v q) type"
| "detailedtype t type = plain_detailedtype t type"

section \<open>Matching: reflexive and defined\<close>

text \<open>
  Proper types hold no error type, no plain object with the kind of a derived class and no empty tuple.
\<close>

fun derived_kind :: "tkind \<Rightarrow> bool" where
  "derived_kind k \<longleftrightarrow> k \<in> {FlexT, VariableT, ListT, MapT, BlockT, TupleT, FunctionT, NFlexT}"

fun proper :: "ytype \<Rightarrow> bool" where
  "proper (PlainType k q) \<longleftrightarrow> k \<noteq> ErrorT \<and> \<not> derived_kind k"
| "proper (FlexType q) \<longleftrightarrow> True"
| "proper (NFlexType n q) \<longleftrightarrow> True"
| "proper (VariableType t q) \<longleftrightarrow> proper t"
| "proper (ListType t q) \<longleftrightarrow> proper t"
| "proper (MapType k v q) \<longleftrightarrow> proper k \<and> proper v"
| "proper (BlockType t q) \<longleftrightarrow> proper t"
| "proper (TupleType ts q) \<longleftrightarrow> ts \<noteq> [] \<and> list_all proper ts"
| "proper (FunctionType r a q) \<longleftrightarrow> proper r \<and> (case a of None \<Rightarrow> True | Some (ts, q') \<Rightarrow> list_all proper ts)"

lemma basematch_self: "m_kind t \<noteq> ErrorT \<Longrightarrow> basematch t t = (if free_kind (m_kind t) then 1 else 0)"
  by (simp add: basematch_def)

lemma match_params_all:
  "\<forall>j < length ts. \<exists>t m. at (i + j) = Some t \<and> match (ts ! j) t = Some m \<and> 0 \<le> m
   \<Longrightarrow> match_params at n w i ts = Some 0"
proof (induction ts arbitrary: i)
  case (Cons t ts)
  have tail: "match_params at n w (Suc i) ts = Some 0"
  proof (rule Cons.IH, intro allI impI)
    fix j assume "j < length ts"
    with Cons.prems [rule_format, of "Suc j"]
    show "\<exists>t m. at (Suc i + j) = Some t \<and> match (ts ! j) t = Some m \<and> 0 \<le> m" by simp
  qed
  from Cons.prems [rule_format, of 0] obtain t' m
    where "at i = Some t'" "match t t' = Some m" "0 \<le> m" by auto
  with tail show ?case by simp
qed simp

lemma vec_at_nth [simp]: "i < length ts \<Longrightarrow> vec_at ts i = Some (ts ! i)"
  by (simp add: vec_at_def)

lemma match_refl: "proper t \<Longrightarrow> match t t = Some 0"
proof (induction t rule: proper.induct)
  case (1 k q)
  then show ?case by (auto simp: plain_match_def basematch_self)
next
  case (8 ts q)
  have "match_params (vec_at ts) (length ts) (m_kind (last ts) = WildcardT) 0 ts = Some 0"
    using 8 by (intro match_params_all) (auto simp: list_all_iff)
  with 8 show ?case by (simp add: basematch_self free_kind_def)
next
  case (9 r a q)
  show ?case
  proof (cases a)
    case None
    with 9 show ?thesis by (simp add: basematch_self free_kind_def)
  next
    case (Some p)
    obtain ts q' where p: "p = (ts, q')" by (cases p)
    have "match_params (\<lambda>i. Some (parameterType ts i)) n w 0 ts = Some 0" for n w
      using 9 Some p by (intro match_params_all) (auto simp: list_all_iff parameterType_def)
    with 9 Some p show ?thesis by (simp add: basematch_self free_kind_def Let_def)
  qed
qed (simp_all add: basematch_self free_kind_def is_Flex_def)

text \<open>
  Regular types avoid bare tuples, whose loop runs beyond the expected vector, and functions that expect a
  wildcard, whose loop reads arguments that may be missing.
\<close>

fun regular :: "ytype \<Rightarrow> bool" where
  "regular (PlainType k q) \<longleftrightarrow> \<not> derived_kind k"
| "regular (FlexType q) \<longleftrightarrow> True"
| "regular (NFlexType n q) \<longleftrightarrow> True"
| "regular (VariableType t q) \<longleftrightarrow> regular t"
| "regular (ListType t q) \<longleftrightarrow> regular t"
| "regular (MapType k v q) \<longleftrightarrow> regular k \<and> regular v"
| "regular (BlockType t q) \<longleftrightarrow> regular t"
| "regular (TupleType ts q) \<longleftrightarrow> False"
| "regular (FunctionType r a q) \<longleftrightarrow>
     regular r \<and> (case a of None \<Rightarrow> True
                    | Some (ts, q') \<Rightarrow> list_all regular ts \<and> (ts \<noteq> [] \<longrightarrow> m_kind (last ts) \<noteq> WildcardT))"

lemma regular_param: "list_all regular ts \<Longrightarrow> regular (parameterType ts i)"
  by (auto simp: parameterType_def list_all_iff)

lemma regular_fun_param:
  "case a of None \<Rightarrow> True | Some (ts, q') \<Rightarrow> list_all regular ts \<and> R ts \<Longrightarrow> regular (fun_parameterType a i)"
  by (cases a) (auto simp: regular_param)

lemma regular_no_wildcard:
  "case a of None \<Rightarrow> True | Some (ts, q') \<Rightarrow> P ts \<and> (ts \<noteq> [] \<longrightarrow> m_kind (last ts) \<noteq> WildcardT)
   \<Longrightarrow> 0 < fun_parameterCount a \<Longrightarrow> m_kind (fun_parameterType a (fun_parameterCount a - 1)) \<noteq> WildcardT"
  by (cases a) (auto simp: parameterType_def last_conv_nth)


lemma match_params_defined:
  "\<forall>t \<in> set ts. \<forall>e. regular e \<longrightarrow> match t e \<noteq> None \<Longrightarrow> \<forall>i. \<exists>t. at i = Some t \<and> regular t
   \<Longrightarrow> match_params at n w i ts \<noteq> None"
proof (induction ts arbitrary: i)
  case (Cons t ts)
  from Cons.prems(2) obtain t' where "at i = Some t'" "regular t'" by blast
  moreover from this Cons.prems(1) obtain m where "match t t' = Some m" by fastforce
  ultimately show ?case using Cons by (auto simp: bind_eq_None_conv)
qed simp

lemma match_regular: "regular t \<Longrightarrow> regular e \<Longrightarrow> match t e \<noteq> None"
proof (induction t arbitrary: e rule: regular.induct)
  case (9 r a q)
  show ?case
  proof (cases "\<exists>r' a' q'. e = FunctionType r' a' q'")
    case True
    then obtain r' a' q' where e: "e = FunctionType r' a' q'" by blast
    from 9 e obtain m where r: "match r r' = Some m" by fastforce
    have p: "match_params (\<lambda>i. Some (fun_parameterType a' i)) n w 0 ts \<noteq> None" if "a = Some (ts, q1)" for n w ts q1
    proof (rule match_params_defined)
      show "\<forall>t \<in> set ts. \<forall>e. regular e \<longrightarrow> match t e \<noteq> None"
        using 9 that by (auto simp: list_all_iff)
      show "\<forall>i. \<exists>t. Some (fun_parameterType a' i) = Some t \<and> regular t"
        using 9 e regular_fun_param by fastforce
    qed
    have w: "0 < fun_parameterCount a' \<Longrightarrow> m_kind (fun_parameterType a' (fun_parameterCount a' - 1)) \<noteq> WildcardT"
      using "9.prems"(2) e regular_no_wildcard [of "list_all regular" a'] by simp
    show ?thesis
    proof (cases a)
      case None
      with r w e show ?thesis by (simp add: Let_def)
    next
      case (Some arg)
      obtain ts q1 where "arg = (ts, q1)" by (cases arg)
      with r p Some e show ?thesis by (simp add: Let_def del: not_None_eq)
    qed
  next
    case False
    with "9.prems"(2) show ?thesis by (cases e) (auto simp: Let_def)
  qed
next
  case (4 t q)
  then show ?case by (cases e) (auto simp: Let_def bind_eq_None_conv simp del: not_None_eq)
next
  case (5 t q)
  then show ?case by (cases e) (auto simp: Let_def bind_eq_None_conv simp del: not_None_eq)
next
  case (6 k v q)
  then show ?case by (cases e) (auto simp: Let_def bind_eq_None_conv simp del: not_None_eq)
next
  case (7 t q)
  then show ?case by (cases e) (auto simp: Let_def bind_eq_None_conv simp del: not_None_eq)
qed simp_all

section \<open>Matching and values\<close>

text \<open>The types of data: base types, lists and maps.\<close>

fun data_type :: "ytype \<Rightarrow> bool" where
  "data_type (PlainType k q) \<longleftrightarrow>
     k \<in> {AnyT, BooleanT, ByteblockT, FloatT, IntegerT, PathT, StringT, SymbolT, TermT, VoidT}"
| "data_type (ListType t q) \<longleftrightarrow> data_type t"
| "data_type (MapType k v q) \<longleftrightarrow> data_type k \<and> data_type v"
| "data_type _ \<longleftrightarrow> False"

fun occurs :: "tkind \<Rightarrow> ytype \<Rightarrow> bool" where
  "occurs k (ListType t q) \<longleftrightarrow> occurs k t"
| "occurs k (MapType kt vt q) \<longleftrightarrow> occurs k kt \<or> occurs k vt"
| "occurs k t \<longleftrightarrow> m_kind t = k"

definition no_coercion :: "ytype \<Rightarrow> ytype \<Rightarrow> bool" where
  "no_coercion t e \<longleftrightarrow>
     \<not> (occurs IntegerT t \<and> occurs FloatT e) \<and> \<not> (occurs FloatT t \<and> occurs IntegerT e)"

definition accepts :: "ytype \<Rightarrow> 'c ycp \<Rightarrow> bool" where
  "accepts t v \<longleftrightarrow> matchvalue t v = Some 0"

lemma check_all_eq_0: "check_all f xs = Some 0 \<longleftrightarrow> (\<forall>x \<in> set xs. \<exists>m. f x = Some m \<and> 0 \<le> m)"
proof (induction xs)
  case (Cons x xs)
  then show ?case by (cases "f x") auto
qed simp

lemma check_all_range: "check_all f xs = Some m \<Longrightarrow> m = 0 \<or> m = -1"
  by (induction xs) (auto simp: bind_eq_Some_conv split: if_splits)

lemma matchvalue_range: "matchvalue t v = Some m \<Longrightarrow> m = 0 \<or> m = -1"
  by (subst (asm) matchvalue.simps)
     (auto split: if_splits ycp.splits ytype.splits dest: check_all_range)

lemma accepts_iff: "(\<exists>m. matchvalue t v = Some m \<and> 0 \<le> m) \<longleftrightarrow> accepts t v"
  using matchvalue_range [of t v] by (fastforce simp: accepts_def)

lemma accepts_any [simp]: "m_kind t = AnyT \<Longrightarrow> accepts t v \<longleftrightarrow> v \<noteq> YNull"
  by (subst accepts_def, subst matchvalue.simps) (auto simp: isNull_def)

lemma accepts_null [simp]: "\<not> accepts t YNull"
  by (subst accepts_def, subst matchvalue.simps) (auto simp: isNull_def)

lemma accepts_nil [simp]: "accepts t YVoid" "accepts t YReturn"
  by (subst accepts_def, subst matchvalue.simps, simp add: isNull_def)+

lemma accepts_list:
  "accepts (ListType t q) v \<longleftrightarrow>
     v = YVoid \<or> v = YReturn \<or>
     (\<exists>vs. v = YList vs \<and> (m_kind t = AnyT \<or> m_kind t = UnspecT \<or> (\<forall>e \<in> set vs. accepts t e)))"
  by (subst accepts_def, subst matchvalue.simps)
     (auto simp: isNull_def check_all_eq_0 accepts_iff split: ycp.splits)

lemma accepts_map:
  "accepts (MapType k t q) v \<longleftrightarrow>
     v = YVoid \<or> v = YReturn \<or>
     (\<exists>m. v = YMap m \<and> (m_kind t = AnyT \<or> m_kind t = UnspecT
                        \<or> (\<forall>p \<in> set m. accepts k (fst p) \<and> accepts t (snd p))))"
proof -
  have pair: "(\<exists>n. (matchvalue k a \<bind> (\<lambda>mk. if mk < 0 then Some (-1) else matchvalue t b)) = Some n \<and> 0 \<le> n)
              \<longleftrightarrow> accepts k a \<and> accepts t b" for a b :: "'a ycp"
    using matchvalue_range [of k a] matchvalue_range [of t b]
    by (fastforce simp: accepts_def bind_eq_Some_conv split: if_splits)
  show ?thesis
    by (subst accepts_def, subst matchvalue.simps)
       (auto simp: isNull_def check_all_eq_0 pair split: ycp.splits)
qed

lemma accepts_plain:
  "accepts (PlainType k q) v \<longleftrightarrow>
     v \<noteq> YNull \<and> (k = AnyT \<or> v = YVoid \<or> v = YReturn
       \<or> (\<exists>b. v = YBoolean b \<and> k = BooleanT) \<or> (\<exists>i. v = YInteger i \<and> k = IntegerT)
       \<or> (\<exists>d. v = YFloat d \<and> k = FloatT) \<or> (\<exists>s. v = YString s \<and> k = StringT)
       \<or> (\<exists>b. v = YByteblock b \<and> k = ByteblockT) \<or> (\<exists>p. v = YPath p \<and> k = PathT)
       \<or> (\<exists>s. v = YSymbol s \<and> k = SymbolT) \<or> (\<exists>s vs. v = YTerm s vs \<and> k = TermT))"
  by (subst accepts_def, subst matchvalue.simps) (cases v; auto simp: isNull_def)

lemma data_type_kind: "data_type t \<Longrightarrow> m_kind t \<noteq> UnspecT"
  by (cases t) auto

lemma match_any_only:
  "data_type t \<Longrightarrow> data_type e \<Longrightarrow> m_kind t = AnyT \<Longrightarrow> match t e = Some m \<Longrightarrow> 0 \<le> m \<Longrightarrow> m_kind e = AnyT"
  by (cases t; cases e) (auto simp: plain_match_def basematch_def free_kind_def Let_def split: if_splits)

lemma no_coercion_map:
  "no_coercion (MapType k t q) (MapType k' t' q') \<Longrightarrow> no_coercion k k' \<and> no_coercion t t'"
  by (auto simp: no_coercion_def)

lemma match_accepts:
  "data_type t \<Longrightarrow> data_type e \<Longrightarrow> no_coercion t e \<Longrightarrow> match t e = Some m \<Longrightarrow> 0 \<le> m \<Longrightarrow> accepts t v \<Longrightarrow> accepts e v"
  for v :: "'a ycp"
proof (induction t arbitrary: e v m rule: data_type.induct)
  case (1 k q)
  show ?case
  proof (cases e)
    case (PlainType k' q')
    with 1 show ?thesis
      by (simp add: plain_match_def basematch_def no_coercion_def accepts_plain free_kind_def Let_def
               split: if_splits) auto
  qed (use 1 in \<open>auto simp: plain_match_def basematch_def accepts_plain free_kind_def Let_def accepts_list accepts_map split: if_splits\<close>)
next
  case (2 t q)
  show ?case
  proof (cases e)
    case (PlainType k' q')
    with 2 show ?thesis
      by (auto simp: Let_def basematch_def accepts_plain free_kind_def split: if_splits)
  next
    case (ListType t' q')
    from 2 ListType have kinds: "m_kind t \<noteq> UnspecT" "m_kind t' \<noteq> UnspecT" by (simp_all add: data_type_kind)
    with 2 ListType obtain m' where m': "match t t' = Some m'" "0 \<le> m'"
      by (auto simp: Let_def bind_eq_Some_conv basematch_def free_kind_def split: if_splits)
    have any: "m_kind t' = AnyT" if "m_kind t = AnyT"
      using match_any_only [of t t' m'] that m' "2.prems" ListType by simp
    have "accepts t' x" if "accepts t x" for x :: "'a ycp"
      using "2.IH" [of t' m' x] "2.prems" ListType m' that by (simp add: no_coercion_def)
    with any kinds "2.prems"(6) show ?thesis unfolding ListType accepts_list by blast
  qed (use 2 in \<open>auto simp: basematch_def free_kind_def Let_def split: if_splits\<close>)
next
  case (3 k t q)
  show ?case
  proof (cases e)
    case (PlainType k' q')
    with 3 show ?thesis
      by (auto simp: Let_def basematch_def accepts_plain free_kind_def split: if_splits)
  next
    case (MapType k' t' q')
    from 3 MapType have kinds: "m_kind k \<noteq> UnspecT" "m_kind t \<noteq> UnspecT" "m_kind t' \<noteq> UnspecT" by (simp_all add: data_type_kind)
    with 3 MapType obtain mk m' where m': "match k k' = Some mk" "0 \<le> mk" "match t t' = Some m'" "0 \<le> m'"
      by (auto simp: Let_def bind_eq_Some_conv basematch_def free_kind_def split: if_splits)
    have any: "m_kind t' = AnyT" if "m_kind t = AnyT"
      using match_any_only [of t t' m'] that m' "3.prems" MapType by simp
    have "accepts t' x" if "accepts t x" for x :: "'a ycp"
      using "3.IH"(2) [of t' m' x] "3.prems" MapType m' that no_coercion_map by (metis data_type.simps(3))
    moreover have "accepts k' x" if "accepts k x" for x :: "'a ycp"
      using "3.IH"(1) [of k' mk x] "3.prems" MapType m' that no_coercion_map by (metis data_type.simps(3))
    ultimately show ?thesis using any kinds "3.prems"(6) unfolding MapType accepts_map by blast
  qed (use 3 in \<open>auto simp: basematch_def free_kind_def Let_def split: if_splits\<close>)
qed simp_all

section \<open>Equality\<close>

fun first_order :: "ytype \<Rightarrow> bool" where
  "first_order (PlainType k q) \<longleftrightarrow> k \<noteq> ErrorT \<and> \<not> derived_kind k"
| "first_order (FlexType q) \<longleftrightarrow> True"
| "first_order (NFlexType n q) \<longleftrightarrow> True"
| "first_order (VariableType t q) \<longleftrightarrow> first_order t"
| "first_order (ListType t q) \<longleftrightarrow> first_order t"
| "first_order (MapType k v q) \<longleftrightarrow> first_order k \<and> first_order v"
| "first_order (BlockType t q) \<longleftrightarrow> first_order t"
| "first_order _ \<longleftrightarrow> False"

fun skeleton :: "ytype \<Rightarrow> ytype" where
  "skeleton (PlainType k q) = PlainType k noq"
| "skeleton (FlexType q) = FlexType noq"
| "skeleton (NFlexType n q) = NFlexType 0 noq"
| "skeleton (VariableType t q) = VariableType (skeleton t) noq"
| "skeleton (ListType t q) = ListType (skeleton t) noq"
| "skeleton (MapType k v q) = MapType (skeleton k) (skeleton v) noq"
| "skeleton (BlockType t q) = BlockType (skeleton t) noq"
| "skeleton (TupleType ts q) = TupleType ts noq"
| "skeleton (FunctionType r a q) = FunctionType r a noq"

lemma equals_skeleton:
  "first_order t \<Longrightarrow> first_order t' \<or> t' = ErrorType \<Longrightarrow> equals t t' = Some (skeleton t = skeleton t')"
proof (induction t arbitrary: t' rule: first_order.induct)
  case (6 k v q)
  then show ?case by (cases t') auto
qed (case_tac [!] t', auto)

lemma equals_params_prefix:
  "list_all first_order ts \<Longrightarrow> list_all first_order us \<Longrightarrow>
   equals_params (parameterType us) i ts =
     Some (length ts \<le> length us - i \<and> map skeleton ts = map skeleton (take (length ts) (drop i us)))"
proof (induction ts arbitrary: i)
  case (Cons t ts)
  have fo: "first_order (parameterType us i) \<or> parameterType us i = ErrorType"
    using Cons.prems by (auto simp: parameterType_def list_all_length)
  show ?case
  proof (cases "i < length us")
    case True
    then have "drop i us = us ! i # drop (Suc i) us" by (rule Cons_nth_drop_Suc [symmetric])
    with True Cons fo show ?thesis
      by (auto simp: equals_skeleton parameterType_def)
  next
    case False
    with Cons fo have "equals t (parameterType us i) = Some False"
      by (cases t) (auto simp: parameterType_def)
    with False show ?thesis by simp
  qed
qed simp

lemma fun_parameterType_Some: "fun_parameterType (Some (us, q)) = parameterType us"
  by (simp add: fun_eq_iff)

lemma equals_function:
  assumes "first_order r" "first_order r'" "list_all first_order ts" "list_all first_order us" "ts \<noteq> []"
  shows "equals (FunctionType r (Some (ts, q1)) q) (FunctionType r' (Some (us, q2)) q')
    = Some (skeleton r = skeleton r' \<and> length ts \<le> length us \<and> map skeleton ts = map skeleton (take (length ts) us))"
  using assms by (auto simp: equals_skeleton equals_params_prefix fun_parameterType_Some
                       simp del: fun_parameterType.simps)

section \<open>Common type\<close>

text \<open>Unqualified types without \<^verbatim>\<open>any\<close>, \<^verbatim>\<open>void\<close>, \<^verbatim>\<open>float\<close> and \<^verbatim>\<open>locale\<close>.\<close>

fun ground :: "ytype \<Rightarrow> bool" where
  "ground (PlainType k q) \<longleftrightarrow> q = noq \<and> k \<in> {BooleanT, ByteblockT, IntegerT, PathT, StringT, SymbolT, TermT}"
| "ground (ListType t q) \<longleftrightarrow> q = noq \<and> ground t"
| "ground (MapType k v q) \<longleftrightarrow> q = noq \<and> ground k \<and> ground v"
| "ground _ \<longleftrightarrow> False"

lemma ground_match_any: "ground t \<Longrightarrow> match t AnyType = Some 0"
  by (cases t) (auto simp: plain_match_def basematch_def free_kind_def isReference_def Let_def)

lemma list_commontype_upper: 
 "m_kind c \<noteq> UnspecT \<Longrightarrow> match t c = Some m \<Longrightarrow> 0 \<le> m \<Longrightarrow> match (ListType t noq) (ListType c noq) = Some 0"
  by (simp add: basematch_def isReference_def free_kind_def)

lemma map_commontype_upper: 
 "match t c = Some m \<Longrightarrow> 0 \<le> m \<Longrightarrow> match k d = Some n \<Longrightarrow> 0 \<le> n \<Longrightarrow> match (MapType k t noq) (MapType d c noq) = Some 0"
  by (auto simp add: basematch_def isReference_def free_kind_def bind_eq_Some_conv)

lemma commontype_upper:
  "ground t \<Longrightarrow> ground t' \<Longrightarrow>
   \<exists>c. commontype t t' = Some c \<and> m_kind c \<notin> {UnspecT, VoidT} \<and> match t c = Some 0 \<and> match t' c = Some 0"
proof (induction t arbitrary: t' rule: ground.induct)
  case (1 k q)
  then show ?case
    by (cases t') (auto simp: plain_commontype_def plain_match_def basematch_def isReference_def free_kind_def Let_def ground_match_any)
next
  case (2 t q)
  show ?case
  proof (cases t')
    case (ListType u q')
    with 2 obtain c where "commontype t u = Some c" "m_kind c \<noteq> UnspecT" "match t c = Some 0" "match u c = Some 0"
      by fastforce
    with 2 ListType show ?thesis by (simp add: list_commontype_upper del: match.simps)
  qed (use 2 ground_match_any [of t'] ground_match_any [of "ListType t q"] in \<open>auto simp del: match.simps\<close>)
next
  case (3 k t q)
  show ?case
  proof (cases t')
    case (MapType l u q')
    with 3 obtain c where "commontype t u = Some c" "match t c = Some 0" "match u c = Some 0"
      by fastforce
    moreover from 3 MapType obtain d where "commontype k l = Some d" "match k d = Some 0" "match l d = Some 0"
      by fastforce
    ultimately show ?thesis using 3 MapType by (simp add: map_commontype_upper del: match.simps)
  qed (use 3 ground_match_any [of t'] ground_match_any [of "MapType k t q"] in \<open>auto simp del: match.simps\<close>)
qed simp_all

section \<open>Stream format\<close>

fun kind_code :: "tkind \<Rightarrow> uint32" where
  "kind_code UnspecT = 0" | "kind_code ErrorT = 1" | "kind_code AnyT = 2" | "kind_code BooleanT = 3"
| "kind_code ByteblockT = 4" | "kind_code FloatT = 5" | "kind_code IntegerT = 6" | "kind_code LocaleT = 7"
| "kind_code PathT = 8" | "kind_code StringT = 9" | "kind_code SymbolT = 10" | "kind_code TermT = 11"
| "kind_code VoidT = 12" | "kind_code WildcardT = 13" | "kind_code FlexT = 14" | "kind_code VariableT = 15"
| "kind_code ListT = 16" | "kind_code MapT = 17" | "kind_code BlockT = 18" | "kind_code TupleT = 19"
| "kind_code FunctionT = 20" | "kind_code NilT = 21" | "kind_code NFlexT = 22"

definition all_kinds :: "tkind list" where
  "all_kinds = [UnspecT, ErrorT, AnyT, BooleanT, ByteblockT, FloatT, IntegerT, LocaleT, PathT, StringT,
     SymbolT, TermT, VoidT, WildcardT, FlexT, VariableT, ListT, MapT, BlockT, TupleT, FunctionT, NilT, NFlexT]"

definition kind_of_code :: "uint32 \<Rightarrow> tkind option" where
  "kind_of_code n = (if n < 23 then Some (all_kinds ! unat n) else None)"

definition writeHead :: "ostream \<Rightarrow> tkind \<Rightarrow> tquals \<Rightarrow> ostream" where
  "writeHead str k q = writeBool (writeBool (writeInt32 str (kind_code k)) (m_const q)) (m_reference q)"

fun writeType :: "ostream \<Rightarrow> ytype \<Rightarrow> ostream"
  and writeTypes :: "ostream \<Rightarrow> ytype list \<Rightarrow> ostream" where
  "writeType str (PlainType k q) = writeHead str k q"
| "writeType str (FlexType q) = writeHead str FlexT q"
| "writeType str (NFlexType n q) = writeInt32 (writeHead str NFlexT q) n"
| "writeType str (VariableType t q) = writeType (writeHead str VariableT q) t"
| "writeType str (ListType t q) = writeType (writeHead str ListT q) t"
| "writeType str (MapType k v q) = writeType (writeType (writeHead str MapT q) k) v"
| "writeType str (BlockType t q) = writeType (writeHead str BlockT q) t"
| "writeType str (TupleType ts q) =
     writeTypes (writeInt32 (writeHead str TupleT q) (of_nat (length ts))) ts"
| "writeType str (FunctionType r a q) =
     (let str1 = writeType (writeHead str FunctionT q) r in
      case a of
        None \<Rightarrow> writeBool str1 False
      | Some (ts, q') \<Rightarrow>
          writeTypes (writeInt32 (writeHead (writeBool str1 True) TupleT q') (of_nat (length ts))) ts)"
| "writeTypes str [] = str"
| "writeTypes str (t # ts) = writeTypes (writeType str t) ts"

text \<open>The constructor \<^verbatim>\<open>Type (tkind, bytecodeistream &)\<close>: the two qualifiers.\<close>

definition readQuals :: "junk \<Rightarrow> istream \<Rightarrow> tquals \<times> istream" where
  "readQuals junk str =
     (case readBool junk str of (c, str1) \<Rightarrow>
        case readBool junk str1 of (r, str2) \<Rightarrow> (\<lparr>m_const = c, m_reference = r\<rparr>, str2))"

definition as_tuple :: "ytype \<Rightarrow> (ytype list \<times> tquals) option" where
  "as_tuple t = (case t of TupleType ts q \<Rightarrow> Some (ts, q) | _ \<Rightarrow> None)"

text \<open>The members of the derived classes after the qualifiers, over the reader of one type.\<close>

definition readTuple ::
  "(istream \<Rightarrow> (ytype \<times> istream) outcome) \<Rightarrow> junk \<Rightarrow> tquals \<Rightarrow> istream \<Rightarrow> (ytype \<times> istream) outcome" where
  "readTuple rd junk q str =
     (case readInt32 junk str of (cnt, str1) \<Rightarrow>
        obind (read_many rd (unat cnt) str1) (\<lambda>(ts, str2). Ret (TupleType ts q, str2)))"

definition readFunction ::
  "(istream \<Rightarrow> (ytype \<times> istream) outcome) \<Rightarrow> junk \<Rightarrow> tquals \<Rightarrow> istream \<Rightarrow> (ytype \<times> istream) outcome" where
  "readFunction rd junk q str =
     obind (rd str) (\<lambda>(r, str1).
       case readBool junk str1 of (args, str2) \<Rightarrow>
         if args then obind (rd str2) (\<lambda>(t, str3). Ret (FunctionType r (as_tuple t) q, str3))
         else Ret (FunctionType r None q, str2))"

definition readMembers ::
  "(istream \<Rightarrow> (ytype \<times> istream) outcome) \<Rightarrow> junk \<Rightarrow> tkind \<Rightarrow> tquals \<Rightarrow> istream \<Rightarrow> (ytype \<times> istream) outcome" where
  "readMembers rd junk k q str2 =
     (if k = NFlexT then (case readInt32 junk str2 of (m, str3) \<Rightarrow> Ret (NFlexType m q, str3))
      else if k = VariableT then obind (rd str2) (\<lambda>(t, str3). Ret (VariableType t q, str3))
      else if k = BlockT then obind (rd str2) (\<lambda>(t, str3). Ret (BlockType t q, str3))
      else if k = ListT then obind (rd str2) (\<lambda>(t, str3). Ret (ListType t q, str3))
      else if k = MapT then
        obind (rd str2) (\<lambda>(kt, str3). obind (rd str3) (\<lambda>(vt, str4). Ret (MapType kt vt q, str4)))
      else if k = TupleT then readTuple rd junk q str2
      else if k = FunctionT then readFunction rd junk q str2
      else Ret (PlainType k q, str2))"

fun readType :: "junk \<Rightarrow> nat \<Rightarrow> istream \<Rightarrow> (ytype \<times> istream) outcome" where
  "readType junk 0 str = OutOfFuel"
| "readType junk (Suc n) str =
     (case readInt32 junk str of (kind, str1) \<Rightarrow>
        case kind_of_code kind of
          None \<Rightarrow> Ret (ErrorType, str1)
        | Some k \<Rightarrow> (case readQuals junk str1 of (q, str2) \<Rightarrow> readMembers (readType junk n) junk k q str2))"

declare readType.simps [simp del]

text \<open>
  What the stream keeps: everything but the class \<^verbatim>\<open>FlexType\<close>; a plain object must not carry the kind of
  a class the reader would build instead.
\<close>

fun plain_kind :: "tkind \<Rightarrow> bool" where
  "plain_kind k \<longleftrightarrow> k \<notin> {VariableT, ListT, MapT, BlockT, TupleT, FunctionT, NFlexT}"

fun storable_type :: "ytype \<Rightarrow> bool" where
  "storable_type (PlainType k q) \<longleftrightarrow> plain_kind k"
| "storable_type (FlexType q) \<longleftrightarrow> False"
| "storable_type (NFlexType n q) \<longleftrightarrow> True"
| "storable_type (VariableType t q) \<longleftrightarrow> storable_type t"
| "storable_type (ListType t q) \<longleftrightarrow> storable_type t"
| "storable_type (MapType k v q) \<longleftrightarrow> storable_type k \<and> storable_type v"
| "storable_type (BlockType t q) \<longleftrightarrow> storable_type t"
| "storable_type (TupleType ts q) \<longleftrightarrow> fits ts \<and> list_all storable_type ts"
| "storable_type (FunctionType r a q) \<longleftrightarrow>
     storable_type r \<and> (case a of None \<Rightarrow> True | Some (ts, q') \<Rightarrow> fits ts \<and> list_all storable_type ts)"

fun type_depth :: "ytype \<Rightarrow> nat" where
  "type_depth (VariableType t q) = Suc (type_depth t)"
| "type_depth (ListType t q) = Suc (type_depth t)"
| "type_depth (MapType k v q) = Suc (max (type_depth k) (type_depth v))"
| "type_depth (BlockType t q) = Suc (type_depth t)"
| "type_depth (TupleType ts q) = Suc (Max (insert 0 (set (map type_depth ts))))"
| "type_depth (FunctionType r a q) =
     Suc (max (type_depth r) (case a of None \<Rightarrow> 0 | Some (ts, q') \<Rightarrow> Suc (Max (insert 0 (set (map type_depth ts))))))"
| "type_depth t = 0"

definition bool_byte :: "bool \<Rightarrow> string" where
  "bool_byte b = [if b then CHR 0x01 else CHR 0x00]"

definition head_bytes :: "tkind \<Rightarrow> tquals \<Rightarrow> string" where
  "head_bytes k q = int32_bytes (kind_code k) @ bool_byte (m_const q) @ bool_byte (m_reference q)"

fun type_bytes :: "ytype \<Rightarrow> string" where
  "type_bytes (PlainType k q) = head_bytes k q"
| "type_bytes (FlexType q) = head_bytes FlexT q"
| "type_bytes (NFlexType n q) = head_bytes NFlexT q @ int32_bytes n"
| "type_bytes (VariableType t q) = head_bytes VariableT q @ type_bytes t"
| "type_bytes (ListType t q) = head_bytes ListT q @ type_bytes t"
| "type_bytes (MapType k v q) = head_bytes MapT q @ type_bytes k @ type_bytes v"
| "type_bytes (BlockType t q) = head_bytes BlockT q @ type_bytes t"
| "type_bytes (TupleType ts q) = head_bytes TupleT q @ int32_bytes (of_nat (length ts)) @ concat (map type_bytes ts)"
| "type_bytes (FunctionType r a q) =
     head_bytes FunctionT q @ type_bytes r @
     (case a of
        None \<Rightarrow> bool_byte False
      | Some (ts, q') \<Rightarrow>
          bool_byte True @ head_bytes TupleT q' @ int32_bytes (of_nat (length ts)) @ concat (map type_bytes ts))"

lemma writeBool_byte: "writeBool str b = os_write str (bool_byte b)"
  by (simp add: writeBool_def bool_byte_def)

lemma readBool_byte [simp]: "readBool junk (istr (bool_byte b @ rest)) = (b, istr rest)"
  by (simp add: readBool_def bool_byte_def)

lemma writeHead_bytes: "writeHead str k q = os_write str (head_bytes k q)"
  by (simp add: writeHead_def head_bytes_def writeBool_byte writeInt32_int32_bytes)

lemma writeTypes_bytes:
  "(\<And>str t. t \<in> set ts \<Longrightarrow> writeType str t = os_write str (type_bytes t))
   \<Longrightarrow> writeTypes str ts = os_write str (concat (map type_bytes ts))"
  by (induction ts arbitrary: str) simp_all

lemma writeType_bytes: "writeType str t = os_write str (type_bytes t)"
proof (induction t arbitrary: str)
  case (TupleType ts q)
  then show ?case by (simp add: writeTypes_bytes writeHead_bytes writeInt32_int32_bytes)
next
  case (FunctionType r a q)
  show ?case
  proof (cases a)
    case None
    with FunctionType show ?thesis by (simp add: writeHead_bytes writeBool_byte)
  next
    case (Some p)
    obtain ts q' where "p = (ts, q')" by (cases p)
    with FunctionType Some have "writeTypes str ts = os_write str (concat (map type_bytes ts))" for str
      by (intro writeTypes_bytes) auto
    with FunctionType Some \<open>p = (ts, q')\<close> show ?thesis
      by (simp add: writeHead_bytes writeBool_byte writeInt32_int32_bytes Let_def)
  qed
qed (simp_all add: writeHead_bytes writeInt32_int32_bytes)

lemma readQuals_bytes [simp]:
  "readQuals junk (istr (bool_byte (m_const q) @ bool_byte (m_reference q) @ rest)) = (q, istr rest)"
  by (simp add: readQuals_def)

lemma kind_of_code_code [simp]: "kind_of_code (kind_code k) = Some k"
  by (cases k) (simp_all add: kind_of_code_def all_kinds_def)

lemma read_many_bytes:
  assumes "\<And>x rest. x \<in> set xs \<Longrightarrow> rd (istr (enc x @ rest)) = Ret (x, istr rest)"
  shows "read_many rd (length xs) (istr (concat (map enc xs) @ rest)) = Ret (xs, istr rest)"
  using assms by (induction xs) simp_all

lemma readType_head:
  "readType junk (Suc n) (istr (head_bytes k q @ rest)) = readMembers (readType junk n) junk k q (istr rest)"
  by (simp add: readType.simps head_bytes_def)

lemmas member_readers = readMembers_def readTuple_def readFunction_def
lemmas read_class = readType_head member_readers

lemma depth_elem: "t \<in> set ts \<Longrightarrow> type_depth t \<le> Max (insert 0 (set (map type_depth ts)))"
  by (intro Max_ge) auto

lemma readType_tuple:
  assumes "fits ts" "\<And>t rest. t \<in> set ts \<Longrightarrow> readType junk n (istr (type_bytes t @ rest)) = Ret (t, istr rest)"
  shows "readType junk (Suc n)
     (istr (head_bytes TupleT q @ int32_bytes (of_nat (length ts)) @ concat (map type_bytes ts) @ rest))
     = Ret (TupleType ts q, istr rest)"
  using assms by (simp add: read_class read_many_bytes)

lemma readType_bytes:
  "storable_type t \<Longrightarrow> type_depth t < n \<Longrightarrow> readType junk n (istr (type_bytes t @ rest)) = Ret (t, istr rest)"
proof (induction t arbitrary: n rest rule: storable_type.induct)
  case (8 ts q)
  then obtain m where n: "n = Suc m" by (cases n) auto
  have "readType junk m (istr (type_bytes t @ rest)) = Ret (t, istr rest)" if "t \<in> set ts" for t rest
    using 8 that n depth_elem [OF that] by (auto simp: list_all_iff)
  with 8 n show ?case using readType_tuple [of ts junk m q rest] by simp
next
  case (9 r a q)
  then obtain m where n: "n = Suc m" by (cases n) auto
  with 9 have r: "readType junk m (istr (type_bytes r @ rest)) = Ret (r, istr rest)" for rest by simp
  show ?case
  proof (cases a)
    case None
    with r n show ?thesis by (simp add: read_class)
  next
    case (Some p)
    obtain ts q' where p: "p = (ts, q')" by (cases p)
    from 9 n Some p obtain k where m: "m = Suc k" by (cases m) auto
    have "readType junk k (istr (type_bytes t @ rest)) = Ret (t, istr rest)" if "t \<in> set ts" for t rest
      using 9 that n m Some p depth_elem [OF that] by (auto simp: list_all_iff)
    with 9 Some p m have "readType junk m (istr (head_bytes TupleT q' @ int32_bytes (of_nat (length ts)) @ concat (map type_bytes ts) @ rest))
     = Ret (TupleType ts q', istr rest)" using readType_tuple [of ts junk k q' rest] by simp
    with r n Some p show ?thesis by (simp add: read_class as_tuple_def)
  qed
next
  case (1 k q) then show ?case by (cases n) (auto simp: read_class)
next
  case (3 m q) then show ?case by (cases n) (auto simp: read_class)
next
  case (4 t q) then show ?case by (cases n) (auto simp: read_class)
next
  case (5 t q) then show ?case by (cases n) (auto simp: read_class)
next
  case (6 k v q) then show ?case by (cases n) (auto simp: read_class)
next
  case (7 t q) then show ?case by (cases n) (auto simp: read_class)
qed simp

text \<open>Every nested type takes at least a byte, unless a failed read left a number tag in the buffer.\<close>

lemma left_readQuals: "readQuals junk str = (q, str') \<Longrightarrow> left str' \<le> left str"
  by (auto simp: readQuals_def split: prod.splits dest!: left_readBool)

lemma left_snd:
  "left (snd (readBool junk str)) \<le> left str" "left (snd (readInt32 junk str)) \<le> left str"
  "left (snd (readQuals junk str)) \<le> left str"
  using left_readBool left_readInt32 left_readQuals by (metis prod.collapse)+

lemma readMembers_shrinks:
  assumes "shrinks rd" "readMembers rd junk k q str = Ret (t, str')"
  shows "left str' \<le> left str"
proof -
  have sh: "left s' \<le> left str" if "rd s = Ret (t, s')" "left s \<le> left str" for s t s'
    using assms(1) that unfolding shrinks_def by (meson le_trans)
  have many: "left s' \<le> left str" if "read_many rd m s = Ret (ts, s')" "left s \<le> left str" for s s' m ts
    using shrinks_read_many [OF assms(1) that(1)] that(2) by simp
  have b: "left (snd (readBool junk s)) \<le> left str" if "left s \<le> left str" for s
    using left_snd(1) [of junk s] that by linarith
  from assms(2) sh many b left_snd(2) [of junk str] show ?thesis
    by (auto simp: member_readers obind_Ret case_prod_beta split: if_splits)
qed

lemma readType_shrinks: "shrinks (readType junk n)"
proof (induction n)
  case (Suc n)
  have "left str' \<le> left str" if "readType junk (Suc n) str = Ret (t, str')" for str t str'
    using that readMembers_shrinks [OF Suc] left_snd(2) [of junk str] left_snd(3) [of junk "snd (readInt32 junk str)"]
    by (fastforce simp: readType.simps case_prod_beta split: option.splits)
  then show ?case by (simp add: shrinks_def)
qed (simp add: shrinks_def readType.simps)

lemma readInt32_progress:
  "ccode (junk 0) \<noteq> 4 \<Longrightarrow> readInt32 junk str = (v, str') \<Longrightarrow> v = 0 \<or> left str' < left str"
  by (cases "ibuf str") (auto simp: readInt32_def is_read_def fill_def Let_def split: if_splits)

lemma readMembers_enough:
  assumes "shrinks rd" "enough (left str) rd"
  shows "readMembers rd junk k q str \<noteq> OutOfFuel"
proof -
  have sh: "left str' \<le> left str" if "rd s = Ret (t, str')" "left s \<le> left str" for s t str'
    using assms(1) that unfolding shrinks_def by (meson le_trans)
  have en: "rd s \<noteq> OutOfFuel" if "left s \<le> left str" for s
    using assms(2) that by (simp add: enough_def)
  have bl: "left s' \<le> left str" if "readBool junk s = (b, s')" "left s \<le> left str" for s s' b
    using left_readBool [OF that(1)] that(2) by simp
  have many: "read_many rd m s \<noteq> OutOfFuel" if "left s \<le> left str" for s m
    using enough_read_many [OF assms that] .
  show ?thesis
    using sh en bl many
    by (auto simp: member_readers obind_OutOfFuel split: prod.splits if_splits dest: left_readInt32)
qed

lemma readType_enough:
  "ccode (junk 0) \<noteq> 4 \<Longrightarrow> left str < n \<Longrightarrow> readType junk n str \<noteq> OutOfFuel"
proof (induction n arbitrary: str)
  case (Suc n)
  show ?case
  proof (cases "readInt32 junk str")
    case (Pair v str1)
    show ?thesis
    proof (cases "v = 0")
      case True
      with Pair show ?thesis
        by (simp add: readType.simps kind_of_code_def all_kinds_def readMembers_def split: prod.splits)
    next
      case False
      with Pair Suc.prems readInt32_progress [of junk str v str1] have "left str1 < n" by simp
      then have "enough (left str1) (readType junk n)"
        using Suc.IH [OF Suc.prems(1)] by (simp add: enough_def)
      then have "readMembers (readType junk n) junk k q str2 \<noteq> OutOfFuel" if "left str2 \<le> left str1" for k q str2
        using readMembers_enough [OF readType_shrinks, of str2] that by (auto simp: enough_def)
      with Pair show ?thesis
        by (auto simp: readType.simps split: prod.splits option.splits dest: left_readQuals)
    qed
  qed
qed simp

section \<open>Properties of types\<close>

text \<open>
  A type matches itself: \<^verbatim>\<open>match\<close> is reflexive on types without error types and empty tuples, for
  every class and whatever the qualifiers.
\<close>

theorem type_match_reflexive: "proper t \<Longrightarrow> match t t = Some 0"
  by (rule match_refl)

theorem type_match_reflexive_witness:
  "match (FunctionType AnyType (Some ([FlexType noq, MapType AnyType (PlainType StringT constq) noq], noq)) noq)
     (FunctionType AnyType (Some ([FlexType noq, MapType AnyType (PlainType StringT constq) noq], noq)) noq) = Some 0"
  by (rule type_match_reflexive) simp

text \<open>
  \<^verbatim>\<open>match\<close> comes back with an answer on every pair of regular types: no null handle is used and no
  vector is read out of range, whatever the numbers of parameters are.
\<close>

theorem type_match_returns: "regular t \<Longrightarrow> regular e \<Longrightarrow> \<exists>m. match t e = Some m"
  using match_regular by fastforce

theorem type_match_returns_witness:
  "\<exists>m. match (FunctionType AnyType (Some ([AnyType, AnyType], noq)) noq) (FunctionType AnyType (Some ([AnyType], noq)) noq) = Some m"
  by (rule type_match_returns) simp_all

text \<open>
  C6. Static matching is sound for values: when a type of data matches another without an implicit
  conversion between integer and float, every value accepted by \<^verbatim>\<open>matchvalue\<close> of the first is accepted by
  \<^verbatim>\<open>matchvalue\<close> of the second.
\<close>

theorem type_match_sound:
  assumes "data_type t" and "data_type e" and "no_coercion t e"
    and "match t e = Some m" and "0 \<le> m" and "matchvalue t v = Some 0"
  shows "matchvalue e v = Some 0"
  using match_accepts [OF assms(1-5)] assms(6) by (simp add: accepts_def)

theorem type_match_sound_witness:
  "matchvalue (ListType AnyType noq) (YList [YInteger 1] :: nat ycp) = Some 0"
proof (rule type_match_sound [of "ListType (PlainType IntegerT noq) noq" _ 0])
  show "match (ListType (PlainType IntegerT noq) noq) (ListType AnyType noq) = Some 0" by code_simp
  show "matchvalue (ListType (PlainType IntegerT noq) noq) (YList [YInteger 1] :: nat ycp) = Some 0"
    by (simp add: matchvalue.simps isNull_def)
qed (simp_all add: no_coercion_def)

text \<open>
  What \<^verbatim>\<open>equals\<close> decides: first-order types are equal when they agree up to qualifiers and the numbers
  of flex types; function types when the return types are equal and the parameters of the first are a
  prefix of those of the second; and comparing a function without an argument tuple to one with
  parameters uses a null handle.
\<close>

theorem type_equals_decides:
  assumes "first_order t" and "first_order t'" and "list_all first_order ts" and "list_all first_order us"
    and "ts \<noteq> []" and "us \<noteq> []"
  shows "equals t t' = Some (skeleton t = skeleton t')
    \<and> equals (FunctionType t (Some (ts, q1)) q) (FunctionType t' (Some (us, q2)) q')
       = Some (skeleton t = skeleton t' \<and> length ts \<le> length us \<and> map skeleton ts = map skeleton (take (length ts) us))
    \<and> (skeleton t = skeleton t' \<longrightarrow> equals (FunctionType t None q) (FunctionType t' (Some (us, q2)) q') = None)"
proof (intro conjI impI)
  show "equals t t' = Some (skeleton t = skeleton t')" by (rule equals_skeleton) (use assms in auto)
  then show "equals (FunctionType t None q) (FunctionType t' (Some (us, q2)) q') = None" if "skeleton t = skeleton t'"
    using that assms by simp
qed (rule equals_function [OF assms(1-5)])

theorem type_equals_decides_witness:
  "equals (FunctionType AnyType (Some ([PlainType StringT noq], noq)) noq)
     (FunctionType AnyType (Some ([PlainType StringT constq, PlainType PathT noq], noq)) noq) = Some True"
proof -
  have "length [PlainType StringT noq] \<le> length [PlainType StringT constq, PlainType PathT noq]" by simp
  with type_equals_decides [of AnyType AnyType "[PlainType StringT noq]" "[PlainType StringT constq, PlainType PathT noq]"]
  show ?thesis by simp
qed

text \<open>
  \<^verbatim>\<open>commontype\<close> gives a type that holds both on unqualified types without \<^verbatim>\<open>any\<close>, \<^verbatim>\<open>void\<close>, \<^verbatim>\<open>float\<close> and
  \<^verbatim>\<open>locale\<close>, nested lists and maps included: it returns, and both types match the result fully.
\<close>

theorem commontype_upper_bound:
  "ground t \<Longrightarrow> ground t' \<Longrightarrow> \<exists>c. commontype t t' = Some c \<and> match t c = Some 0 \<and> match t' c = Some 0"
  using commontype_upper by blast

theorem commontype_upper_bound_witness:
  "\<exists>c. commontype (ListType (PlainType IntegerT noq) noq) (ListType (PlainType StringT noq) noq) = Some c
     \<and> match (ListType (PlainType IntegerT noq) noq) c = Some 0 \<and> match (ListType (PlainType StringT noq) noq) c = Some 0"
  by (rule commontype_upper_bound) simp_all

text \<open>
  Outside those types the common type holds neither: of a base type and \<^verbatim>\<open>any\<close> it is the base type, which
  \<^verbatim>\<open>any\<close> does not match, and of a base type and \<^verbatim>\<open>void\<close> it is \<^verbatim>\<open>void\<close> unless \<^verbatim>\<open>void\<close> comes first, which the base
  type does not match.
\<close>

theorem commontype_not_upper_bound:
  assumes "k \<in> {BooleanT, ByteblockT, IntegerT, PathT, StringT, SymbolT, TermT}"
  shows "commontype (PlainType k noq) AnyType = Some (PlainType k noq)
    \<and> match AnyType (PlainType k noq) = Some (-1)
    \<and> commontype (PlainType k noq) (PlainType VoidT noq) = Some (PlainType VoidT noq)
    \<and> commontype (PlainType VoidT noq) (PlainType k noq) = Some (PlainType k noq)
    \<and> match (PlainType k noq) (PlainType VoidT noq) = Some (-1)"
  using assms by (auto simp: plain_commontype_def plain_match_def basematch_def isReference_def free_kind_def Let_def)

theorem commontype_not_upper_bound_witness:
  "commontype (PlainType IntegerT noq) AnyType = Some (PlainType IntegerT noq)"
  using commontype_not_upper_bound [of IntegerT] by simp

text \<open>
  A wildcard in a function type admits no more parameters than are listed: the loop compares the
  parameter right after the wildcard with the error type, so that a function with more parameters than
  the expected list never matches.
\<close>

theorem wildcard_parameters_limited:
  assumes "match r r' = Some m" and "0 \<le> m" and "us \<noteq> []" and "m_kind (last us) = WildcardT"
    and "length us < length ts" and "regular (FunctionType r (Some (ts, q1)) noq)" and "list_all regular us"
  shows "match (FunctionType r (Some (ts, q1)) q) (FunctionType r' (Some (us, q2)) noq) = Some (-1)"
proof -
  have loop: "match_params (\<lambda>i. Some (parameterType us i)) (length us) True i xs = Some (-1)"
    if "i \<le> length us" "length us < i + length xs" "list_all regular xs" for i xs
    using that
  proof (induction xs arbitrary: i)
    case (Cons x xs)
    have "regular (parameterType us i)" using assms(7) by (rule regular_param)
    then obtain n where n: "match x (parameterType us i) = Some n"
      using match_regular [of x] Cons.prems by fastforce
    show ?case
    proof (cases "i = length us")
      case True
      have "match x ErrorType = Some (-1)"
        using Cons.prems by (cases x) (auto simp: plain_match_def basematch_def is_Flex_def Let_def)
      with True show ?thesis by (simp add: parameterType_def)
    next
      case False
      with Cons n show ?thesis by simp
    qed
  qed simp
  have "m_kind (parameterType us (length us - Suc 0)) = WildcardT"
    using assms(3,4) by (simp add: parameterType_def last_conv_nth)
  with assms loop [of 0 ts] show ?thesis
    by (auto simp: basematch_def isReference_def free_kind_def Let_def)
qed

theorem wildcard_parameters_limited_witness:
  "match (FunctionType AnyType (Some ([PlainType StringT noq, AnyType, AnyType], noq)) noq)
     (FunctionType AnyType (Some ([PlainType StringT noq, PlainType WildcardT noq], noq)) noq) = Some (-1)"
  by (rule wildcard_parameters_limited [of _ _ 0])
     (simp_all add: plain_match_def basematch_def free_kind_def isReference_def isConst_def)



text \<open>
  The class of a flex type does not survive: what is read back is a plain type of the same kind,
  whose \<^verbatim>\<open>matchFlex\<close> never finds anything.
\<close>

theorem flex_type_not_restored:
  "readType junk (Suc n) (istr (obuf (writeType empty_stream (FlexType q)) @ rest)) = Ret (PlainType FlexT q, istr rest)
   \<and> matchFlex (PlainType FlexT q) 0 t = Some None \<and> matchFlex (FlexType q) 0 t = Some (Some (flex_target t))"
  by (simp add: writeHead_bytes os_write_def read_class)

text \<open>
  Reading a type ends: with a nesting bound above the bytes left the reader returns, provided that a
  failed read does not leave the tag of a number in the buffer, and it puts no byte back.
\<close>

theorem readType_terminates:
  assumes "ccode (junk 0) \<noteq> 4" and "length (ibuf str) < n"
  shows "readType junk n str = Undef
    \<or> (\<exists>t str'. readType junk n str = Ret (t, str') \<and> length (ibuf str') \<le> length (ibuf str))"
  using readType_enough [of junk, OF assms] readType_shrinks [of junk n]
  by (cases "readType junk n str") (auto simp: shrinks_def)

theorem readType_terminates_witness:
  "readType (\<lambda>_. NUL) 3 (istr ''ab'') = Undef
    \<or> (\<exists>t str'. readType (\<lambda>_. NUL) 3 (istr ''ab'') = Ret (t, str') \<and> length (ibuf str') \<le> length (ibuf (istr ''ab'')))"
  by (rule readType_terminates) simp_all

end
