(* ===== verification/YCP_Signature.thy ===== *)
theory YCP_Signature
  imports YCP_Type
begin

text \<open>
  The static operations of \<^verbatim>\<open>Type\<close> (\<^verbatim>\<open>libycp/src/TypeStatics.cc\<close>): types of values, the parser of type
  signatures such as \<^verbatim>\<open>list <string> (integer, const map <any, path> &)\<close> that declares the builtins, and
  the deduction of flex types from the actual parameters of a call.

  A signature is read through a \<^verbatim>\<open>const char *\<close>; the model passes the rest of the string, whose end is
  the NUL byte.  The null type handle is \<^const>\<open>None\<close>.  The nesting of a signature and the rounds of the
  parameter loops are bounded by a number that is proved large enough when it exceeds the length of
  the text.
\<close>

section \<open>Types of values\<close>

definition vt2type :: "nat \<Rightarrow> ytype" where
  "vt2type vt =
     (if vt = 0 then PlainType VoidT noq
      else if vt = 1 then PlainType BooleanT noq
      else if vt = 2 then PlainType IntegerT noq
      else if vt = 3 then PlainType FloatT noq
      else if vt = 4 then PlainType StringT noq
      else if vt = 5 then PlainType ByteblockT noq
      else if vt = 6 then PlainType PathT noq
      else if vt = 7 then PlainType SymbolT noq
      else if vt = 8 then ListType AnyType noq
      else if vt = 9 then PlainType TermT noq
      else if vt = 10 then MapType AnyType AnyType noq
      else if vt = 11 then BlockType AnyType noq
      else if vt = 14 then VariableType AnyType noq
      else if vt = 17 then AnyType
      else Unspec)"

definition type_valueType :: "ytype \<Rightarrow> nat" where
  "type_valueType t =
     (case m_kind t of
        VoidT \<Rightarrow> 0 | AnyT \<Rightarrow> 0 | BooleanT \<Rightarrow> 1 | IntegerT \<Rightarrow> 2 | FloatT \<Rightarrow> 3 | StringT \<Rightarrow> 4
      | ByteblockT \<Rightarrow> 5 | PathT \<Rightarrow> 6 | TermT \<Rightarrow> 9 | SymbolT \<Rightarrow> 7 | LocaleT \<Rightarrow> 4
      | VariableT \<Rightarrow> 14 | BlockT \<Rightarrow> 11 | ListT \<Rightarrow> 8 | MapT \<Rightarrow> 10 | NilT \<Rightarrow> 0
      | _ \<Rightarrow> 15)"

section \<open>Tokens\<close>

text \<open>
  The results of \<^verbatim>\<open>nextToken\<close>: a kind, \<^verbatim>\<open>-1\<close> for \<^verbatim>\<open>const\<close>, \<^verbatim>\<open>-100 - n\<close> for a numbered flex type, or the
  punctuation character itself.  The numbers of the kinds, up to 22, and of the characters, from 38 on,
  do not meet.
\<close>

datatype token = TkKind tkind | TkConst | TkFlexN nat | TkChar char

definition skip_space :: "string \<Rightarrow> string" where
  "skip_space s = dropWhile is_space s"

text \<open>\<^verbatim>\<open>strncasecmp\<close> against a word in lower case.\<close>

definition lower_code :: "char \<Rightarrow> nat" where
  "lower_code c = (if is_upper c then ccode c + 32 else ccode c)"

definition word_at :: "string \<Rightarrow> string \<Rightarrow> bool" where
  "word_at w s \<longleftrightarrow> map lower_code (take (length w) s) = map ccode w"

fun try_words :: "(string \<times> tkind) list \<Rightarrow> string \<Rightarrow> token \<times> string" where
  "try_words [] s = (TkKind UnspecT, s)"
| "try_words ((w, k) # ws) s = (if word_at w s then (TkKind k, drop (length w) s) else try_words ws s)"

text \<open>
  \<^verbatim>\<open>flex\<close> with a number: the digits are summed up in an \<^verbatim>\<open>int\<close>, and neither that nor \<^verbatim>\<open>-100 - k\<close> may leave
  its range.
\<close>

definition flex_token :: "string \<Rightarrow> (token \<times> string) option" where
  "flex_token s =
     (let ds = takeWhile is_digit s; k = digits_val 10 ds; rest = dropWhile is_digit s in
      if int k > 2 ^ 31 - 100 then None
      else Some (if k = 0 then TkKind FlexT else TkFlexN k, rest))"

text \<open>The \<^verbatim>\<open>switch\<close> on the first character.\<close>

definition token_at :: "string \<Rightarrow> (token \<times> string) option" where
  "token_at s =
     (case s of
        [] \<Rightarrow> Some (TkKind UnspecT, [])
      | c # cs \<Rightarrow>
          let l = lower_code c in
          if l = ccode (CHR ''a'') then Some (try_words [(''any'', AnyT)] s)
          else if l = ccode (CHR ''b'') then
            Some (try_words [(''boolean'', BooleanT), (''byteblock'', ByteblockT), (''block'', BlockT)] s)
          else if l = ccode (CHR ''c'') then
            Some (if word_at ''const'' s then (TkConst, drop 5 s) else (TkKind UnspecT, s))
          else if l = ccode (CHR ''f'') then
            (if word_at ''float'' s then Some (TkKind FloatT, drop 5 s)
             else if word_at ''flex'' s then flex_token (drop 4 s)
             else Some (TkKind UnspecT, s))
          else if l = ccode (CHR ''i'') then Some (try_words [(''integer'', IntegerT)] s)
          else if l = ccode (CHR ''l'') then Some (try_words [(''list'', ListT), (''locale'', LocaleT)] s)
          else if l = ccode (CHR ''m'') then Some (try_words [(''map'', MapT)] s)
          else if l = ccode (CHR ''p'') then Some (try_words [(''path'', PathT)] s)
          else if l = ccode (CHR ''s'') then Some (try_words [(''string'', StringT), (''symbol'', SymbolT)] s)
          else if l = ccode (CHR ''t'') then Some (try_words [(''term'', TermT), (''tuple'', TupleT)] s)
          else if l = ccode (CHR ''v'') then Some (try_words [(''void'', VoidT), (''variable'', VariableT)] s)
          else if c = CHR ''.'' then Some (try_words [(''...'', WildcardT)] s)
          else if c \<in> {CHR ''&'', CHR ''<'', CHR ''>'', CHR '','', CHR ''('', CHR '')''} then Some (TkChar c, cs)
          else Some (TkKind ErrorT, s))"

definition nextToken :: "string \<Rightarrow> (token \<times> string) option" where
  "nextToken s = map_option (\<lambda>(t, r). (t, skip_space r)) (token_at (skip_space s))"

section \<open>Signatures\<close>

type_synonym sig_reader = "string \<Rightarrow> (ytype \<times> string) option outcome"

definition null_then :: "'a option outcome \<Rightarrow> ('a \<Rightarrow> 'b option outcome) \<Rightarrow> 'b option outcome" where
  "null_then x f = obind x (\<lambda>r. case r of None \<Rightarrow> Ret None | Some a \<Rightarrow> f a)"

text \<open>\<^verbatim>\<open>nextToken (signature) != next\<close>.\<close>

definition expect :: "char \<Rightarrow> string \<Rightarrow> string option outcome" where
  "expect c s =
     (case nextToken s of
        None \<Rightarrow> Undef
      | Some (t, r) \<Rightarrow> Ret (if t = TkChar c then Some r else None))"

definition constructed :: "tkind \<Rightarrow> bool" where
  "constructed k \<longleftrightarrow> k \<in> {VariableT, BlockT, ListT, MapT, TupleT}"

text \<open>The first \<^verbatim>\<open>switch\<close>: the types that need nothing more.\<close>

definition simple_type :: "bool \<Rightarrow> token \<Rightarrow> ytype option" where
  "simple_type as_const k =
     (case k of
        TkKind FlexT \<Rightarrow> Some (FlexType (as_constq as_const))
      | TkKind ErrorT \<Rightarrow> Some ErrorType
      | TkKind WildcardT \<Rightarrow> Some (PlainType WildcardT noq)
      | TkKind kd \<Rightarrow>
          if kd \<in> {AnyT, BooleanT, ByteblockT, FloatT, IntegerT, LocaleT, PathT, StringT, SymbolT, TermT, VoidT}
          then Some (PlainType kd (as_constq as_const)) else None
      | TkFlexN n \<Rightarrow> Some (NFlexType (of_nat n) (as_constq (as_const \<and> n \<le> 4)))
      | _ \<Rightarrow> None)"

text \<open>
  The second \<^verbatim>\<open>switch\<close>, with the inner type \<open>t1\<close> at hand: the constructors, which close with \<^verbatim>\<open>>\<close>, and
  tuple and function, which do not.  Every other token ends in a null handle here.
\<close>

definition post_kind :: "sig_reader \<Rightarrow> bool \<Rightarrow> token \<Rightarrow> ytype \<Rightarrow> string \<Rightarrow> (ytype \<times> string) option outcome" where
  "post_kind rd as_const k t1 s =
     (let q = as_constq as_const; close = (\<lambda>t s. null_then (expect (CHR ''>'') s) (\<lambda>r. Ret (Some (t, r)))) in
      if k = TkKind VariableT then close (VariableType t1 q) s
      else if k = TkKind BlockT then close (BlockType t1 q) s
      else if k = TkKind ListT then close (ListType t1 q) s
      else if k = TkKind MapT then
        null_then (expect (CHR '','') s) (\<lambda>s1. null_then (rd s1) (\<lambda>(t2, s2). close (MapType t1 t2 q) s2))
      else if k = TkKind TupleT then Ret (Some (TupleType [t1] q, s))
      else if k = TkChar (CHR ''('') then Ret (Some (FunctionType t1 None q, s))
      else Ret None)"

definition head_type :: "sig_reader \<Rightarrow> bool \<Rightarrow> token \<Rightarrow> string \<Rightarrow> (ytype \<times> string) option outcome" where
  "head_type rd as_const k s1 =
     (case simple_type as_const k of
        Some t \<Rightarrow> Ret (Some (t, s1))
      | None \<Rightarrow>
          null_then (case k of TkKind kd \<Rightarrow> if constructed kd then expect (CHR ''<'') s1 else Ret None
                             | _ \<Rightarrow> Ret (Some s1))
            (\<lambda>s2. null_then (rd s2) (\<lambda>(t1, s3). post_kind rd as_const k t1 s3)))"

text \<open>A reference qualifier copies the type, which loses its constness.\<close>

definition sig_reference :: "ytype \<Rightarrow> string \<Rightarrow> (ytype \<times> string) option outcome" where
  "sig_reference t s =
     (if s \<noteq> [] \<and> hd s = CHR ''&''
      then (case clone t of
              None \<Rightarrow> Undef
            | Some t' \<Rightarrow> Ret (Some (asReference t', skip_space (tl s))))
      else Ret (Some (t, s)))"

text \<open>Everything up to the reference qualifier: the constness and the token, then the type and the rest.\<close>

definition sig_head :: "sig_reader \<Rightarrow> string \<Rightarrow> ((bool \<times> token \<times> ytype) \<times> string) option outcome" where
  "sig_head rd s =
     (case nextToken s of
        None \<Rightarrow> Undef
      | Some (k0, s0) \<Rightarrow>
          let as_const = (k0 = TkConst) in
          (case (if as_const then nextToken s0 else Some (k0, s0)) of
             None \<Rightarrow> Undef
           | Some (k, s1) \<Rightarrow>
               null_then (head_type rd as_const k s1) (\<lambda>(t, s2).
                 null_then (sig_reference t s2) (\<lambda>(t', s3). Ret (Some ((as_const, k, t'), s3))))))"

text \<open>The \<^verbatim>\<open>do\<close> loop over the parameters; it stands on \<^verbatim>\<open>(\<close> or \<^verbatim>\<open>,\<close> at its start.\<close>

fun sig_params :: "sig_reader \<Rightarrow> nat \<Rightarrow> ytype \<Rightarrow> string \<Rightarrow> (ytype \<times> string) outcome" where
  "sig_params rd 0 f s = OutOfFuel"
| "sig_params rd (Suc n) f s =
     (let s1 = skip_space (tl s) in
      if s1 \<noteq> [] \<and> hd s1 = CHR '')'' then Ret (f, s1)
      else obind (rd s1) (\<lambda>r.
        case r of
          None \<Rightarrow> Ret (f, s1)
        | Some (t1, s2) \<Rightarrow>
            let f' = fun_concat f t1 in
            if s2 \<noteq> [] \<and> hd s2 = CHR '','' then sig_params rd n f' s2 else Ret (f', s2)))"

fun tuple_concat :: "ytype \<Rightarrow> ytype \<Rightarrow> ytype" where
  "tuple_concat (TupleType ts q) t = TupleType (ts @ [t]) q"
| "tuple_concat u t = u"

fun sig_tuple :: "sig_reader \<Rightarrow> nat \<Rightarrow> ytype \<Rightarrow> string \<Rightarrow> (ytype \<times> string) option outcome" where
  "sig_tuple rd 0 tt s = OutOfFuel"
| "sig_tuple rd (Suc n) tt s =
     (if s \<noteq> [] \<and> hd s = CHR '','' then
        null_then (rd (tl s)) (\<lambda>(t1, s1). sig_tuple rd n (tuple_concat tt t1) s1)
      else Ret (if s \<noteq> [] \<and> hd s = CHR ''>'' then Some (tt, s) else None))"

fun fromSignature :: "nat \<Rightarrow> string \<Rightarrow> (ytype \<times> string) option outcome" where
  "fromSignature 0 s = OutOfFuel"
| "fromSignature (Suc n) s =
     (if s = [] then Ret (Some (Unspec, []))
      else null_then (sig_head (fromSignature n) s) (\<lambda>((as_const, k, t), s1).
        if s1 \<noteq> [] \<and> hd s1 = CHR ''('' then
          obind (sig_params (fromSignature n) (Suc (length s1)) (FunctionType t None (as_constq as_const)) s1) (\<lambda>(f, s2).
            Ret (if s2 \<noteq> [] \<and> hd s2 = CHR '')'' then Some (f, tl s2) else None))
        else if k = TkKind TupleT then
          (case clone t of
             None \<Rightarrow> Undef
           | Some tt \<Rightarrow> sig_tuple (fromSignature n) (Suc (length s1)) tt s1)
        else Ret (Some (t, s1))))"

declare fromSignature.simps [simp del]

text \<open>\<^verbatim>\<open>fromSignature (const string &)\<close>.\<close>

definition type_of_signature :: "string \<Rightarrow> ytype option outcome" where
  "type_of_signature s =
     obind (fromSignature (Suc (length s)) (c_str s)) (\<lambda>r. Ret (map_option fst r))"

section \<open>Flex types of a call\<close>

fun flex_loop :: "nat \<Rightarrow> uint32 \<Rightarrow> ytype \<Rightarrow> ytype \<Rightarrow> ytype outcome" where
  "flex_loop 0 flexnumber actual declared = OutOfFuel"
| "flex_loop (Suc n) flexnumber actual declared =
     (case matchFlex declared flexnumber actual of
        None \<Rightarrow> Undef
      | Some None \<Rightarrow>
          if flexnumber = 0 then flex_loop n (flexnumber + 1) actual declared else Ret declared
      | Some (Some flextype) \<Rightarrow>
          (case unflex flextype flexnumber declared of
             None \<Rightarrow> Undef
           | Some result \<Rightarrow> flex_loop n (flexnumber + 1) actual result))"

fun determineFlexType :: "nat \<Rightarrow> ytype \<Rightarrow> ytype \<Rightarrow> ytype option outcome" where
  "determineFlexType n actual (FunctionType r a q) =
     (if fun_parameterCount a \<le> 0 then Ret None
      else obind (flex_loop n 0 actual (FunctionType r a q)) (\<lambda>t. Ret (Some t)))"
| "determineFlexType n actual _ = Undef"



section \<open>The parser ends\<close>

text \<open>
  Every reader returns no more text than it got, and a reader of types that has enough nesting for shorter
  texts gives all that the pieces of the parser need.
\<close>

definition shorter :: "nat \<Rightarrow> ('a \<times> string) option outcome \<Rightarrow> bool" where
  "shorter n x \<longleftrightarrow> x \<noteq> OutOfFuel \<and> (\<forall>t r. x = Ret (Some (t, r)) \<longrightarrow> length r \<le> n)"

definition sig_good :: "nat \<Rightarrow> sig_reader \<Rightarrow> bool" where
  "sig_good n rd \<longleftrightarrow> (\<forall>s. length s < n \<longrightarrow> shorter (length s) (rd s))"

lemma shorter_mono: "shorter n x \<Longrightarrow> n \<le> m \<Longrightarrow> shorter m x"
  by (force simp: shorter_def)

lemma length_skip_space: "length (skip_space s) \<le> length s"
  by (simp add: skip_space_def length_dropWhile_le)

lemma try_words_shorter: "try_words ws s = (t, r) \<Longrightarrow> length r \<le> length s"
  by (induction ws s rule: try_words.induct) (auto split: if_splits)

lemma try_words_progress:
  "try_words ws s = (t, r) \<Longrightarrow> s \<noteq> [] \<Longrightarrow> list_all (\<lambda>(w, k). w \<noteq> []) ws
   \<Longrightarrow> t = TkKind UnspecT \<and> r = s \<or> length r < length s"
  by (induction ws s rule: try_words.induct) (auto split: if_splits)

lemma token_at_progress:
  assumes "token_at s = Some (t, r)"
  shows "length r < length s \<or> (t = TkKind UnspecT \<or> t = TkKind ErrorT) \<and> r = s"
proof (cases s)
  case (Cons c cs)
  have f: "length r \<le> length u" if "flex_token u = Some (t, r)" for u
    using that length_dropWhile_le [of is_digit u] by (auto simp: flex_token_def Let_def split: if_splits)
  have w: "\<And>ws. try_words ws s = (t, r) \<Longrightarrow> list_all (\<lambda>(w, k). w \<noteq> []) ws
      \<Longrightarrow> t = TkKind UnspecT \<and> r = s \<or> length r < length s"
    using try_words_progress Cons by blast
  show ?thesis using assms w f [of "drop 4 s"] Cons
    by (auto simp: token_at_def Let_def diff_less_Suc split: if_splits dest!: w)
qed (use assms in \<open>simp add: token_at_def\<close>)

lemma nextToken_progress:
  "nextToken s = Some (t, r) \<Longrightarrow> length r < length s \<or> (t = TkKind UnspecT \<or> t = TkKind ErrorT) \<and> length r \<le> length s"
proof -
  assume "nextToken s = Some (t, r)"
  then obtain u where u: "token_at (skip_space s) = Some (t, u)" and r: "r = skip_space u"
    by (auto simp: nextToken_def)
  from token_at_progress [OF u] length_skip_space [of s] length_skip_space [of u] r show ?thesis by auto
qed

lemma expect_shorter: "expect c s = Ret (Some r) \<Longrightarrow> length r < length s"
  by (auto simp: expect_def split: option.splits if_splits dest: nextToken_progress)

lemma expect_fuel [simp]: "expect c s \<noteq> OutOfFuel"
  by (auto simp: expect_def split: option.splits)

lemma null_then_Ret: "null_then x f = Ret (Some y) \<longleftrightarrow> (\<exists>a. x = Ret (Some a) \<and> f a = Ret (Some y))"
  by (cases x) (auto simp: null_then_def split: option.splits)

lemma null_then_fuel: "null_then x f = OutOfFuel \<longleftrightarrow> x = OutOfFuel \<or> (\<exists>a. x = Ret (Some a) \<and> f a = OutOfFuel)"
  by (cases x) (auto simp: null_then_def split: option.splits)

lemma shorter_null_then:
  "shorter n x \<Longrightarrow> (\<And>t r. x = Ret (Some (t, r)) \<Longrightarrow> length r \<le> n \<Longrightarrow> shorter m (f (t, r))) \<Longrightarrow> shorter m (null_then x f)"
  by (auto simp: shorter_def null_then_Ret null_then_fuel)

lemma shorter_expect:
  "(\<And>r. length r < length s \<Longrightarrow> shorter m (f r)) \<Longrightarrow> shorter m (null_then (expect c s) f)"
  by (auto simp: shorter_def null_then_Ret null_then_fuel dest: expect_shorter)

lemma shorter_Ret [simp]: "shorter n (Ret (Some (t, r))) \<longleftrightarrow> length r \<le> n" "shorter n (Ret None)" "shorter n Undef"
  by (auto simp: shorter_def)

lemma sig_goodD: "sig_good n rd \<Longrightarrow> length s < n \<Longrightarrow> shorter (length s) (rd s)"
  by (simp add: sig_good_def)

lemma post_kind_shorter:
  "sig_good n rd \<Longrightarrow> length s \<le> n \<Longrightarrow> shorter (length s) (post_kind rd c k t s)"
  unfolding post_kind_def Let_def
  by (auto intro!: shorter_expect shorter_null_then [OF sig_goodD] split: prod.splits)

lemma rd_shorter: "sig_good n rd \<Longrightarrow> length s < n \<Longrightarrow> (\<And>t r. length r \<le> length s \<Longrightarrow> shorter m (f (t, r))) \<Longrightarrow> shorter m (null_then (rd s) f)"
  by (rule shorter_null_then [OF sig_goodD]) auto

lemma skip_tl_shorter: "s \<noteq> [] \<Longrightarrow> length (skip_space (tl s)) < length s"
  using length_skip_space [of "tl s"] by (cases s) auto

lemma sig_params_shorter:
  "sig_good n rd \<Longrightarrow> length s \<le> n \<Longrightarrow> length s < m \<Longrightarrow> s \<noteq> [] \<Longrightarrow>
   sig_params rd m f s \<noteq> OutOfFuel \<and> (\<forall>t r. sig_params rd m f s = Ret (t, r) \<longrightarrow> length r \<le> length s)"
proof (induction m arbitrary: f s)
  case (Suc m)
  let ?s = "skip_space (tl s)"
  have l: "length ?s < length s" using Suc.prems by (intro skip_tl_shorter)
  with Suc.prems have rd: "shorter (length ?s) (rd ?s)" by (intro sig_goodD [of n]) auto
  have step: "sig_params rd m f' s2 \<noteq> OutOfFuel \<and> (\<forall>t r. sig_params rd m f' s2 = Ret (t, r) \<longrightarrow> length r \<le> length s)"
    if "length s2 \<le> length ?s" "s2 \<noteq> []" for f' s2
    using Suc.IH [of s2 f'] Suc.prems l that by fastforce
  show ?case using rd l step
    by (cases "rd ?s") (fastforce simp: shorter_def Let_def split: option.splits prod.splits if_splits)+
qed simp

lemma sig_tuple_shorter:
  "sig_good n rd \<Longrightarrow> length s \<le> n \<Longrightarrow> length s < m \<Longrightarrow> shorter (length s) (sig_tuple rd m t s)"
proof (induction m arbitrary: t s)
  case (Suc m)
  show ?case
  proof (cases "s \<noteq> [] \<and> hd s = CHR '',''")
    case True
    then have l: "length (tl s) < length s" by (cases s) auto
    have "shorter (length s) (null_then (rd (tl s)) (\<lambda>(t1, s1). sig_tuple rd m (tuple_concat t t1) s1))"
    proof (rule rd_shorter [OF Suc.prems(1)])
      show "length (tl s) < n" using l Suc.prems(2) by linarith
      fix t1 and r :: string assume r: "length r \<le> length (tl s)"
      with l Suc.prems have "length r \<le> n" "length r < m" "length r \<le> length s" by linarith+
      then show "shorter (length s) (case (t1, r) of (t1, s1) \<Rightarrow> sig_tuple rd m (tuple_concat t t1) s1)"
        using Suc.IH [OF Suc.prems(1)] shorter_mono by fastforce
    qed
    with True show ?thesis by simp
  qed (auto)
qed simp

lemma head_type_shorter:
  assumes "sig_good n rd" "length s1 < n"
  shows "shorter (length s1) (head_type rd c k s1)"
proof -
  have inner: "shorter (length s1) (null_then (rd s2) (\<lambda>(t1, s3). post_kind rd c k t1 s3))"
    if "length s2 \<le> length s1" for s2
    using that assms
    by (intro rd_shorter [OF assms(1)]) (auto intro: shorter_mono [OF post_kind_shorter [OF assms(1)]])
  show ?thesis
  proof (cases "simple_type c k")
    case None
    with inner show ?thesis
      by (cases k) (auto simp: head_type_def null_then_def [of "Ret _"] intro!: shorter_expect)
  qed (simp add: head_type_def)
qed

lemma head_type_stuck: "head_type rd c (TkKind UnspecT) s1 = Ret None" "head_type rd c (TkKind ErrorT) s1 = Ret (Some (ErrorType, s1))"
  by (simp_all add: head_type_def simple_type_def constructed_def null_then_def)

lemma sig_reference_shorter: "shorter (length s) (sig_reference t s)"
  using skip_tl_shorter [of s] by (auto simp: sig_reference_def split: option.splits)

lemma sig_head_shorter:
  assumes "sig_good n rd" "length s \<le> n" 
  shows "shorter (length s) (sig_head rd s)"
proof (cases "nextToken s")
  case (Some ks)
  then obtain k0 s0 where 0: "nextToken s = Some (k0, s0)" by (cases ks) auto
  let ?c = "k0 = TkConst"
  show ?thesis
  proof (cases "if ?c then nextToken s0 else Some (k0, s0)")
    case (Some ks1)
    then obtain k s1 where 1: "(if ?c then nextToken s0 else Some (k0, s0)) = Some (k, s1)" by (cases ks1) auto
    have p: "length s1 < length s \<or> (k = TkKind UnspecT \<or> k = TkKind ErrorT) \<and> length s1 \<le> length s"
      using nextToken_progress [OF 0] 1 nextToken_progress [of s0 k s1] by (auto split: if_splits)
    have h: "shorter (length s) (head_type rd ?c k s1)"
    proof (cases "length s1 < length s")
      case True
      with assms(2) head_type_shorter [OF assms(1), of s1 ?c k] show ?thesis by (auto elim: shorter_mono)
    next
      case False
      with p show ?thesis by (auto simp: head_type_stuck)
    qed
    have r: "shorter (length s) (null_then (sig_reference t s2) (\<lambda>(t', s3). Ret (Some ((?c, k, t'), s3))))"
      if "length s2 \<le> length s" for t s2
      using that by (intro shorter_null_then [OF sig_reference_shorter]) auto
    have "shorter (length s) (null_then (head_type rd ?c k s1)
        (\<lambda>(t, s2). null_then (sig_reference t s2) (\<lambda>(t', s3). Ret (Some ((?c, k, t'), s3)))))"
      by (rule shorter_null_then [OF h]) (use r in auto)
    then show ?thesis by (simp add: sig_head_def 0 1 Let_def)
  qed (simp add: sig_head_def 0 Let_def)
qed (simp add: sig_head_def)

lemma fromSignature_good: "sig_good n (fromSignature n)"
proof (induction n)
  case (Suc n)
  have "shorter (length s) (fromSignature (Suc n) s)" if "length s < Suc n" for s
  proof (cases "s = []")
    case False
    have params: "shorter (length s) (obind (sig_params (fromSignature n) (Suc (length s1)) f s1) (\<lambda>(f, s2).
            Ret (if s2 \<noteq> [] \<and> hd s2 = CHR '')'' then Some (f, tl s2) else None)))"
      if "length s1 \<le> length s" "s1 \<noteq> []" for f s1
      using sig_params_shorter [OF Suc, of s1 "Suc (length s1)" f] that \<open>length s < Suc n\<close>
      by (cases "sig_params (fromSignature n) (Suc (length s1)) f s1") (fastforce simp: shorter_def split: if_splits)+
    have tup: "shorter (length s) (sig_tuple (fromSignature n) (Suc (length s1)) tt s1)"
      if "length s1 \<le> length s" for tt s1
      using sig_tuple_shorter [OF Suc, of s1 "Suc (length s1)" tt] that \<open>length s < Suc n\<close>
      by (auto elim: shorter_mono)
    have "length s \<le> n" using that by simp
    from sig_head_shorter [OF Suc this] have "shorter (length s) (null_then (sig_head (fromSignature n) s)
      (\<lambda>((as_const, k, t), s1).
        if s1 \<noteq> [] \<and> hd s1 = CHR ''('' then
          obind (sig_params (fromSignature n) (Suc (length s1)) (FunctionType t None (as_constq as_const)) s1) (\<lambda>(f, s2).
            Ret (if s2 \<noteq> [] \<and> hd s2 = CHR '')'' then Some (f, tl s2) else None))
        else if k = TkKind TupleT then
          (case clone t of
             None \<Rightarrow> Undef
           | Some tt \<Rightarrow> sig_tuple (fromSignature n) (Suc (length s1)) tt s1)
        else Ret (Some (t, s1))))"
      by (rule shorter_null_then) (use params tup in \<open>auto split: option.splits\<close>)
    with False show ?thesis by (simp add: fromSignature.simps)
  qed (simp add: fromSignature.simps)
  then show ?case by (simp add: sig_good_def)
qed (simp add: sig_good_def)

section \<open>Printed types are read back\<close>

definition sig_kinds :: "tkind set" where
  "sig_kinds = {AnyT, BooleanT, ByteblockT, FloatT, IntegerT, LocaleT, PathT, StringT, SymbolT, TermT, VoidT}"

text \<open>Qualifiers that survive: a copy for the reference loses constness.\<close>

definition sig_quals :: "tquals \<Rightarrow> bool" where
  "sig_quals q \<longleftrightarrow> \<not> (m_const q \<and> m_reference q)"

fun sig_type :: "ytype \<Rightarrow> bool" where
  "sig_type (PlainType k q) \<longleftrightarrow> k \<in> sig_kinds \<and> sig_quals q \<or> k = WildcardT \<and> q = noq"
| "sig_type (VariableType t q) \<longleftrightarrow> q = noq \<and> sig_type t"
| "sig_type (ListType t q) \<longleftrightarrow> sig_quals q \<and> sig_type t \<and> \<not> open_kind t"
| "sig_type (MapType k v q) \<longleftrightarrow> sig_quals q \<and> sig_type k \<and> sig_type v \<and> \<not> (open_kind k \<and> open_kind v)"
| "sig_type (BlockType t q) \<longleftrightarrow> sig_quals q \<and> sig_type t"
| "sig_type (FunctionType r a q) \<longleftrightarrow>
     q = noq \<and> sig_type r \<and> m_kind r \<noteq> FunctionT \<and> \<not> isConst r
     \<and> (case a of None \<Rightarrow> True | Some (ts, q') \<Rightarrow> q' = noq \<and> ts \<noteq> [] \<and> list_all sig_type ts)"
| "sig_type _ \<longleftrightarrow> False"

text \<open>What may follow a type: the end, a comma or a closing bracket.\<close>

definition stops :: "string \<Rightarrow> bool" where
  "stops rest \<longleftrightarrow> rest = [] \<or> hd rest \<in> {CHR '','', CHR ''>'', CHR '')''}"

definition no_space :: "string \<Rightarrow> bool" where
  "no_space s \<longleftrightarrow> s = [] \<or> \<not> is_space (hd s)"

lemma skip_no_space [simp]: "no_space s \<Longrightarrow> skip_space s = s"
  by (cases s) (auto simp: no_space_def skip_space_def)

lemma skip_space_space [simp]: "skip_space (CHR '' '' # s) = skip_space s"
  by (simp add: skip_space_def is_space_def)

lemma skip_space_angle [simp]: "skip_space (CHR ''<'' # s) = CHR ''<'' # s"
  by (simp add: skip_space_def is_space_def)

lemma stops_no_space: "stops s \<Longrightarrow> no_space s"
  by (cases s) (auto simp: stops_def no_space_def is_space_def)

lemma token_kind:
  "k \<in> sig_kinds \<or> k = WildcardT \<Longrightarrow> token_at (kind_string k @ r) = Some (TkKind k, r)"
  by (auto simp: sig_kinds_def token_at_def word_at_def lower_code_def is_upper_def)

lemma kind_no_space: "k \<in> sig_kinds \<or> k = WildcardT \<Longrightarrow> no_space (kind_string k @ r)"
  by (auto simp: sig_kinds_def no_space_def is_space_def)

lemma nextToken_kind:
  "k \<in> sig_kinds \<or> k = WildcardT \<Longrightarrow> nextToken (kind_string k @ r) = Some (TkKind k, skip_space r)"
  by (simp add: nextToken_def token_kind kind_no_space)

lemma nextToken_words:
  "nextToken (CHR ''c'' # CHR ''o'' # CHR ''n'' # CHR ''s'' # CHR ''t'' # r) = Some (TkConst, skip_space r)"
  "nextToken (''list'' @ r) = Some (TkKind ListT, skip_space r)"
  "nextToken (''map'' @ r) = Some (TkKind MapT, skip_space r)"
  "nextToken (''block'' @ r) = Some (TkKind BlockT, skip_space r)"
  "nextToken (''variable'' @ r) = Some (TkKind VariableT, skip_space r)"
  by (simp_all add: nextToken_def token_at_def word_at_def lower_code_def is_upper_def skip_space_def is_space_def)

lemmas nextToken_words_simp [simp] = nextToken_words [simplified]

lemma expect_char [simp]:
  "expect (CHR ''<'') (CHR ''<'' # r) = Ret (Some (skip_space r))"
  "expect (CHR ''>'') (CHR ''>'' # r) = Ret (Some (skip_space r))"
  "expect (CHR '','') (CHR '','' # r) = Ret (Some (skip_space r))"
  by (simp_all add: expect_def nextToken_def token_at_def lower_code_def is_upper_def skip_space_def is_space_def)

lemma stops_close [simp]: "stops (CHR ''>'' # s)" "stops (CHR '','' # s)" "stops (CHR '')'' # s)"
  by (simp_all add: stops_def)

lemma null_then_Some [simp]: "null_then (Ret (Some a)) f = f a"
  by (simp add: null_then_def)

fun parts :: "ytype \<Rightarrow> ytype list" where
  "parts (VariableType t q) = [t]"
| "parts (ListType t q) = [t]"
| "parts (MapType k v q) = [k, v]"
| "parts (BlockType t q) = [t]"
| "parts t = []"

definition reads :: "sig_reader \<Rightarrow> ytype \<Rightarrow> bool" where
  "reads rd u \<longleftrightarrow> (\<forall>rest. stops rest \<longrightarrow> rd (type_string u @ rest) = Ret (Some (u, rest)))"

lemma readsD: "reads rd u \<Longrightarrow> stops rest \<Longrightarrow> rd (type_string u @ rest) = Ret (Some (u, rest))"
  by (simp add: reads_def)

lemma type_string_start:
  "sig_type t \<Longrightarrow> \<exists>c cs. type_string t = c # cs \<and> \<not> is_space c \<and> c \<noteq> CHR '')''"
proof (induction t rule: sig_type.induct)
  case (6 r a q)
  then show ?case by (auto simp: function_string_def preToString_def)
qed (auto simp: type_string_defs preToString_def sig_kinds_def is_space_def)

lemma type_no_space [simp]: "sig_type t \<Longrightarrow> no_space (type_string t @ s)"
  using type_string_start [of t] by (auto simp: no_space_def)

lemma type_string_core:
  "sig_type t \<Longrightarrow> m_kind t \<noteq> FunctionT \<Longrightarrow>
   type_string t = preToString (quals t) @ type_string (set_quals noq t) @ postToString (quals t)"
  by (cases t) (auto simp: type_string_defs preToString_def postToString_def)

lemma head_simple:
  "k \<in> sig_kinds \<or> k = WildcardT \<and> \<not> c \<Longrightarrow> head_type rd c (TkKind k) y = Ret (Some (PlainType k (as_constq c), y))"
  by (auto simp: head_type_def simple_type_def sig_kinds_def)

lemma core_reads:
  assumes "sig_type t" "m_kind t \<noteq> FunctionT" "\<forall>u \<in> set (parts t). reads rd u"
    and "c \<longrightarrow> m_kind t \<noteq> WildcardT"
  shows "\<exists>y. nextToken (type_string (set_quals noq t) @ w) = Some (TkKind (m_kind t), y)
    \<and> head_type rd c (TkKind (m_kind t)) y = Ret (Some (set_quals (as_constq c) t, skip_space w))"
proof (cases t)
  case (PlainType k q)
  with assms have "k \<in> sig_kinds \<or> k = WildcardT \<and> \<not> c" by auto
  with PlainType show ?thesis
    by (auto simp: preToString_def postToString_def nextToken_kind head_simple nextToken_kind [of WildcardT, simplified])
next
  case (VariableType u q)
  with assms have "rd (type_string u @ CHR ''>'' # w) = Ret (Some (u, CHR ''>'' # w))" "sig_type u"
    by (auto intro: readsD)
  with VariableType show ?thesis
    by (simp add: variable_string_def head_type_def simple_type_def constructed_def post_kind_def)
next
  case (ListType u q)
  with assms have "rd (type_string u @ CHR ''>'' # w) = Ret (Some (u, CHR ''>'' # w))" "sig_type u" "\<not> open_kind u"
    by (auto intro: readsD)
  with ListType show ?thesis
    by (simp add: list_string_def preToString_def postToString_def head_type_def simple_type_def constructed_def post_kind_def)
next
  case (BlockType u q)
  with assms have "rd (type_string u @ CHR ''>'' # w) = Ret (Some (u, CHR ''>'' # w))" "sig_type u"
    by (auto intro: readsD)
  with BlockType show ?thesis
    by (simp add: block_string_def preToString_def postToString_def head_type_def simple_type_def constructed_def post_kind_def)
next
  case (MapType k v q)
  with assms have "rd (type_string k @ CHR '','' # CHR '' '' # type_string v @ CHR ''>'' # w) =
      Ret (Some (k, CHR '','' # CHR '' '' # type_string v @ CHR ''>'' # w))"
    "rd (type_string v @ CHR ''>'' # w) = Ret (Some (v, CHR ''>'' # w))" "sig_type k" "sig_type v" "\<not> (open_kind k \<and> open_kind v)"
    by (auto intro: readsD)
  with MapType show ?thesis
    by (simp add: map_string_def preToString_def postToString_def head_type_def simple_type_def constructed_def post_kind_def)
qed (use assms in simp_all)

lemma set_quals_noq_idem: "set_quals q (set_quals p t) = set_quals q t" "quals (set_quals q t) = q" "set_quals (quals t) t = t"
  by (cases t; simp)+

lemma sig_quals_of: "sig_type t \<Longrightarrow> m_kind t \<noteq> FunctionT \<Longrightarrow> sig_quals (quals t)"
  by (cases t) (auto simp: sig_quals_def)

lemma clone_core: "sig_type t \<Longrightarrow> m_kind t \<noteq> FunctionT \<Longrightarrow> clone (set_quals noq t) = Some (set_quals noq t)"
  by (cases t) auto

lemma head_reads:
  assumes "sig_type t" "m_kind t \<noteq> FunctionT" "\<forall>u \<in> set (parts t). reads rd u" "skip_space sp = [] \<or> hd (skip_space sp) \<noteq> CHR ''&''"
  shows "sig_head rd (type_string t @ sp) = Ret (Some ((isConst t, TkKind (m_kind t), t), skip_space sp))"
proof -
  let ?core = "type_string (set_quals noq t)"
  have sc: "sig_type (set_quals noq t)" using assms(1,2) by (cases t) (auto simp: sig_quals_def)
  have noamp: "\<not> (skip_space sp \<noteq> [] \<and> hd (skip_space sp) = CHR ''&'')"
    using assms(4) by auto
  have tx: "type_string t @ sp = preToString (quals t) @ ?core @ postToString (quals t) @ sp"
    using type_string_core [OF assms(1,2)] by simp
  show ?thesis
  proof (cases "m_const (quals t)")
    case True
    have q: "quals t = as_constq True" using sig_quals_of [OF assms(1,2)] True
      by (cases "quals t") (simp add: sig_quals_def)
    have "m_kind t \<noteq> WildcardT" using assms(1) True by (cases t) (auto simp: sig_kinds_def)
    with core_reads [OF assms(1-3), of True sp] obtain y where
      "nextToken (?core @ sp) = Some (TkKind (m_kind t), y)"
      "head_type rd True (TkKind (m_kind t)) y = Ret (Some (set_quals (as_constq True) t, skip_space sp))"
      by auto
    moreover have "set_quals (as_constq True) t = t" using set_quals_noq_idem(3) [of t] q by simp
    ultimately have "nextToken (?core @ sp) = Some (TkKind (m_kind t), y)"
      "head_type rd True (TkKind (m_kind t)) y = Ret (Some (t, skip_space sp))" by simp_all
    moreover have "sig_reference t (skip_space sp) = Ret (Some (t, skip_space sp))"
      using noamp by (auto simp: sig_reference_def)
    ultimately show ?thesis using q tx sc
      by (simp add: sig_head_def preToString_def postToString_def isConst_def)
  next
    case False
    define w where "w = postToString (quals t) @ sp"
    from core_reads [OF assms(1-3), of False w] obtain y where
      y: "nextToken (?core @ w) = Some (TkKind (m_kind t), y)"
      "head_type rd False (TkKind (m_kind t)) y = Ret (Some (set_quals noq t, skip_space w))"
      by auto
    have "sig_reference (set_quals noq t) (skip_space w) = Ret (Some (t, skip_space sp))"
    proof (cases "m_reference (quals t)")
      case True
      then have "skip_space w = CHR ''&'' # sp"
        by (simp add: w_def postToString_def skip_space_def is_space_def)
      moreover have "asReference (set_quals noq t) = t"
        using True False by (cases t) (auto simp: asReference_def)
      ultimately show ?thesis using clone_core [OF assms(1,2)] by (simp add: sig_reference_def)
    next
      case nr: False
      with False have "quals t = noq" by (cases "quals t") simp
      with nr noamp show ?thesis
        using set_quals_noq_idem(3) [of t] by (auto simp: w_def postToString_def sig_reference_def)
    qed
    with y False tx show ?thesis
      by (simp add: sig_head_def preToString_def isConst_def w_def [symmetric])
  qed
qed

lemma params_read:
  assumes "ts \<noteq> []" "\<forall>u \<in> set ts. sig_type u \<and> reads rd u" "length ts \<le> n" "sp = [] \<or> sp = '' ''"
  shows "sig_params rd n f (c # sp @ comma_join (map type_string ts) @ CHR '')'' # rest)
    = Ret (foldl fun_concat f ts, CHR '')'' # rest)"
  using assms
proof (induction ts arbitrary: n f c sp)
  case (Cons t ts)
  from Cons.prems(3) obtain m where n: "n = Suc m" by (cases n) auto
  obtain d ds where d: "type_string t = d # ds" "\<not> is_space d" "d \<noteq> CHR '')''"
    using type_string_start [of t] Cons.prems(2) by auto
  show ?case
  proof (cases ts)
    case Nil
    have "rd (type_string t @ CHR '')'' # rest) = Ret (Some (t, CHR '')'' # rest))"
      using Cons.prems(2) by (auto intro: readsD)
    moreover have "skip_space (sp @ type_string t @ CHR '')'' # rest) = type_string t @ CHR '')'' # rest"
      using Cons.prems(4) d by (auto simp: skip_space_def is_space_def)
    ultimately show ?thesis using Nil n d by simp
  next
    case (Cons u us)
    let ?r = "CHR '','' # '' '' @ comma_join (map type_string ts) @ CHR '')'' # rest"
    have "rd (type_string t @ ?r) = Ret (Some (t, ?r))"
      using Cons.prems(2) by (auto intro: readsD)
    moreover have "skip_space (sp @ type_string t @ ?r) = type_string t @ ?r"
      using Cons.prems(4) d by (auto simp: skip_space_def is_space_def)
    moreover have "sig_params rd m (fun_concat f t) ?r = Ret (foldl fun_concat (fun_concat f t) ts, CHR '')'' # rest)"
      using Cons.IH [of m "'' ''" "fun_concat f t" "CHR '',''"] Cons.prems n Cons by simp
    ultimately show ?thesis using Cons n d by simp
  qed
qed simp

lemma foldl_concat:
  "foldl fun_concat (FunctionType r (Some (us, q')) q) ts = FunctionType r (Some (us @ ts, q')) q"
  "foldl fun_concat (FunctionType r None q) ts = FunctionType r (if ts = [] then None else Some (ts, noq)) q"
proof -
  show 1: "foldl fun_concat (FunctionType r (Some (us, q')) q) ts = FunctionType r (Some (us @ ts, q')) q" for us q' ts
    by (induction ts arbitrary: us) simp_all
  show "foldl fun_concat (FunctionType r None q) ts = FunctionType r (if ts = [] then None else Some (ts, noq)) q"
    by (cases ts) (simp_all add: 1)
qed

lemma length_comma_join: "length ss \<le> Suc (length (comma_join ss))"
  by (induction ss rule: comma_join.induct) auto

lemma fromSignature_plain:
  assumes "sig_type t" "m_kind t \<noteq> FunctionT" "\<forall>u \<in> set (parts t). reads (fromSignature n) u"
    and "stops rest"
  shows "fromSignature (Suc n) (type_string t @ rest) = Ret (Some (t, rest))"
proof -
  have "sig_head (fromSignature n) (type_string t @ rest) = Ret (Some ((isConst t, TkKind (m_kind t), t), rest))"
    using head_reads [OF assms(1-3), of rest] assms(4) stops_no_space [OF assms(4)] by (auto simp: stops_def)
  moreover have "m_kind t \<noteq> TupleT" using assms(1) by (cases t) (auto simp: sig_kinds_def)
  moreover have "\<not> (rest \<noteq> [] \<and> hd rest = CHR ''('')" using assms(4) by (auto simp: stops_def)
  moreover have "type_string t @ rest \<noteq> []" using type_string_start [OF assms(1)] by auto
  ultimately show ?thesis by (auto simp: fromSignature.simps)
qed

lemma fromSignature_fun:
  assumes "sig_type (FunctionType r a q)" "\<forall>u \<in> set (parts r). reads (fromSignature n) u"
    and "\<forall>u \<in> set (case a of None \<Rightarrow> [] | Some (ts, q') \<Rightarrow> ts). reads (fromSignature n) u"
  shows "fromSignature (Suc n) (type_string (FunctionType r a q) @ rest) = Ret (Some (FunctionType r a q, rest))"
proof -
  let ?ts = "case a of None \<Rightarrow> [] | Some (ts, q') \<Rightarrow> ts"
  let ?p = "CHR ''('' # comma_join (map type_string ?ts) @ CHR '')'' # rest"
  have r: "sig_type r" "m_kind r \<noteq> FunctionT" "\<not> isConst r" "q = noq" using assms(1) by auto
  have tx: "type_string (FunctionType r a q) @ rest = type_string r @ CHR '' '' # ?p"
    using r by (cases a) (auto simp: function_string_def preToString_def postToString_def)
  have "skip_space (CHR '' '' # ?p) = ?p" by (simp add: skip_space_def is_space_def)
  then have h: "sig_head (fromSignature n) (type_string r @ CHR '' '' # ?p) = Ret (Some ((False, TkKind (m_kind r), r), ?p))"
    using head_reads [OF r(1,2) assms(2), of "CHR '' '' # ?p"] r(3) by simp
  have "sig_params (fromSignature n) (Suc (length ?p)) (FunctionType r None noq) ?p
      = Ret (foldl fun_concat (FunctionType r None noq) ?ts, CHR '')'' # rest)"
  proof (cases "?ts = []")
    case True
    then show ?thesis by (simp add: skip_space_def is_space_def)
  next
    case False
    have "length ?ts \<le> Suc (length ?p)" using length_comma_join [of "map type_string ?ts"] by simp
    moreover have "\<forall>u \<in> set ?ts. sig_type u \<and> reads (fromSignature n) u"
      using assms by (auto simp: list_all_iff split: option.splits)
    ultimately show ?thesis
      using params_read [of ?ts "fromSignature n" "Suc (length ?p)" "[]" "FunctionType r None noq" "CHR ''(''" rest] False
      by simp
  qed
  moreover have "foldl fun_concat (FunctionType r None noq) ?ts = FunctionType r a q"
    using assms(1) by (auto simp: foldl_concat split: option.splits)
  moreover have "type_string r @ CHR '' '' # ?p \<noteq> []" by simp
  ultimately show ?thesis unfolding tx using h by (simp add: fromSignature.simps)
qed

lemma part_shorter:
  "sig_type t \<Longrightarrow> u \<in> set (parts t) \<Longrightarrow> sig_type u \<and> length (type_string u) < length (type_string t)"
  by (cases t) (auto simp: type_string_defs)

lemma param_shorter: "s \<in> set ss \<Longrightarrow> length s \<le> length (comma_join ss)"
  by (induction ss rule: comma_join.induct) auto

lemma fromSignature_reads: "sig_type t \<Longrightarrow> length (type_string t) \<le> n \<Longrightarrow> reads (fromSignature (Suc n)) t"
proof (induction n arbitrary: t)
  case 0
  with type_string_start [of t] show ?case by auto
next
  case (Suc n)
  have sub: "reads (fromSignature (Suc n)) u" if "sig_type u" "length (type_string u) < length (type_string t)" for u
    using Suc that by simp
  show ?case
  proof (cases "m_kind t = FunctionT")
    case False
    with Suc.prems(1) sub part_shorter show ?thesis
      by (auto simp: reads_def [of _ t] intro!: fromSignature_plain)
  next
    case True
    with Suc.prems(1) obtain r a q where t: "t = FunctionType r a q" by (cases t) (auto simp: sig_kinds_def)
    let ?ts = "case a of None \<Rightarrow> [] | Some (ts, q') \<Rightarrow> ts"
    have len: "length (type_string t) \<ge> length (type_string r) + 1 + length (comma_join (map type_string ?ts))"
      unfolding t by (cases a) (auto simp: function_string_def)
    have "\<forall>u \<in> set (parts r). reads (fromSignature (Suc n)) u"
      using sub part_shorter [of r] Suc.prems(1) len unfolding t by fastforce
    moreover have "\<forall>u \<in> set ?ts. reads (fromSignature (Suc n)) u"
    proof
      fix u assume u: "u \<in> set ?ts"
      with Suc.prems(1) have "sig_type u" unfolding t by (auto simp: list_all_iff split: option.splits)
      moreover have "length (type_string u) \<le> length (comma_join (map type_string ?ts))"
        using u by (intro param_shorter) auto
      ultimately show "reads (fromSignature (Suc n)) u" using sub len by simp
    qed
    ultimately show ?thesis
      using fromSignature_fun [of r a q "Suc n"] Suc.prems(1) unfolding t by (simp add: reads_def)
  qed
qed

section \<open>Flex types are replaced\<close>

text \<open>A property of all numbers of flex types in a type; the unnumbered one counts as zero.\<close>

fun all_flex :: "(uint32 \<Rightarrow> bool) \<Rightarrow> ytype \<Rightarrow> bool" where
  "all_flex P (PlainType k q) \<longleftrightarrow> True"
| "all_flex P (FlexType q) \<longleftrightarrow> P 0"
| "all_flex P (NFlexType n q) \<longleftrightarrow> P n"
| "all_flex P (VariableType t q) \<longleftrightarrow> all_flex P t"
| "all_flex P (ListType t q) \<longleftrightarrow> all_flex P t"
| "all_flex P (MapType k v q) \<longleftrightarrow> all_flex P k \<and> all_flex P v"
| "all_flex P (BlockType t q) \<longleftrightarrow> all_flex P t"
| "all_flex P (TupleType ts q) \<longleftrightarrow> list_all (all_flex P) ts"
| "all_flex P (FunctionType r a q) \<longleftrightarrow>
     all_flex P r \<and> (case a of None \<Rightarrow> True | Some (ts, q') \<Rightarrow> list_all (all_flex P) ts)"

abbreviation flex_free :: "uint32 \<Rightarrow> ytype \<Rightarrow> bool" where
  "flex_free n \<equiv> all_flex (\<lambda>m. m \<noteq> n)"

lemma foldl_concat_flex:
  "all_flex P f \<Longrightarrow> list_all (all_flex P) ts \<Longrightarrow> all_flex P (foldl fun_concat f ts)"
proof (induction ts arbitrary: f)
  case (Cons t ts)
  have "all_flex P (fun_concat f t)" using Cons.prems by (cases "(f, t)" rule: fun_concat.cases) auto
  with Cons show ?case by simp
qed simp

lemma clone_flex: "clone t = Some t' \<Longrightarrow> all_flex P t \<Longrightarrow> all_flex P t'"
  by (cases t) (auto simp: tuple_clone_def function_clone_def foldl_concat_flex split: if_splits option.splits)

lemma set_quals_flex: "all_flex P (set_quals q t) = all_flex P t"
  by (cases t) auto

lemma keep_quals_flex [simp]: "all_flex P (keep_quals q t) = all_flex P t"
  by (simp add: keep_quals_def asConst_def asReference_def set_quals_flex Let_def)

lemma matchFlex_flex:
  "all_flex P a \<Longrightarrow> matchFlex d n a = Some (Some ft) \<Longrightarrow> all_flex P ft"
  "list_all (all_flex P) as \<Longrightarrow> matchFlex_params ds n as = Some (Some ft) \<Longrightarrow> all_flex P ft"
proof (induction d n a and ds n as rule: matchFlex_matchFlex_params.induct)
  case (6 k v q n type)
  then show ?case by (cases type) (auto simp: bind_eq_Some_conv split: if_splits)
next
  case (9 r a q n type)
  then show ?case by (cases type) (auto split: option.splits if_splits)
qed (auto simp: flex_target_def bind_eq_Some_conv split: if_splits ytype.splits option.splits)

lemma matchFlex_number:
  "all_flex P d \<Longrightarrow> \<not> P n \<Longrightarrow> matchFlex d n a \<noteq> Some (Some ft)"
  "list_all (all_flex P) ds \<Longrightarrow> \<not> P n \<Longrightarrow> matchFlex_params ds n as \<noteq> Some (Some ft)"
proof (induction d n a and ds n as rule: matchFlex_matchFlex_params.induct)
  case (6 k v q n type)
  then show ?case by (cases type) (auto simp: bind_eq_Some_conv split: if_splits)
next
  case (9 r a q n type)
  then show ?case by (cases type) (auto split: option.splits if_splits)
qed (auto simp: flex_target_def bind_eq_Some_conv split: if_splits ytype.splits option.splits)

lemma map_unflex_cases:
  assumes "map_unflex uk uv k v q = Some t"
  obtains k' where "is_Flex k" "uk = Some k'" "t = MapType k' v noq"
  | v' where "\<not> is_Flex k" "is_Flex v" "uv = Some v'" "t = MapType k v' noq"
  | "\<not> is_Flex k" "\<not> is_Flex v" "t = MapType k v noq"
  using assms by (auto simp: map_unflex_def bind_eq_Some_conv split: if_splits)

lemma unflex_flex:
  "all_flex P t \<Longrightarrow> all_flex P ft \<Longrightarrow> unflex ft n t = Some t' \<Longrightarrow> all_flex P t'"
  "list_all (all_flex P) ts \<Longrightarrow> all_flex P ft \<Longrightarrow> unflex_list ft n ts = Some ts' \<Longrightarrow> list_all (all_flex P) ts'"
proof (induction ft n t and ft n ts arbitrary: t' and ts' rule: unflex_unflex_list.induct)
  case (2 type n q)
  then show ?case by (auto simp: flex_unflex_def dest: clone_flex split: if_splits)
next
  case (3 type n m q)
  then show ?case by (auto simp: nflex_unflex_def dest: clone_flex split: if_splits)
next
  case (6 type n k v q)
  from "6.prems"(3) have "map_unflex (unflex type n k) (unflex type n v) k v q = Some t'" by simp
  moreover have "all_flex P k" "all_flex P v" "all_flex P type" using "6.prems" by simp_all
  note parts = this
  ultimately show ?case
  proof (elim map_unflex_cases)
    fix k' assume u: "unflex type n k = Some k'" and t': "t' = MapType k' v noq"
    from "6.IH"(1) [OF parts(1,3) u] parts(2) show ?thesis unfolding t' by simp
  next
    fix v' assume u: "unflex type n v = Some v'" and t': "t' = MapType k v' noq"
    from "6.IH"(2) [OF parts(2,3) u] parts(1) show ?thesis unfolding t' by simp
  qed simp
next
  case (9 type n r a q)
  then show ?case by (cases a) (auto simp: function_unflex_def bind_eq_Some_conv foldl_concat_flex split: prod.splits)
qed (auto simp: tuple_unflex_def bind_eq_Some_conv split: if_splits)

lemma flex_loop_ends:
  assumes "b < 2 ^ 32" "all_flex (\<lambda>m. unat m < b) actual" "0 < b"
  shows "all_flex (\<lambda>m. unat m < b) declared \<Longrightarrow> unat num \<le> b \<Longrightarrow> b - unat num < m
    \<Longrightarrow> flex_loop m num actual declared \<noteq> OutOfFuel"
proof (induction m arbitrary: num declared)
  case (Suc m)
  have wrap: "unat (num + 1) = Suc (unat num)" if "unat num < b"
    using that assms(1) by (simp add: unat_word_ariths)
  show ?case
  proof (cases "matchFlex declared num actual")
    case (Some r)
    show ?thesis
    proof (cases r)
      case None
      show ?thesis
      proof (cases "num = 0")
        case True
        with assms(3) wrap have "unat (num + 1) = 1" by simp
        with Suc True assms(3) have "flex_loop m (num + 1) actual declared \<noteq> OutOfFuel" by (intro Suc.IH) auto
        with Some None True show ?thesis by simp
      qed (simp add: Some None)
    next
      case ft: (Some ft)
      with Some have below: "all_flex (\<lambda>m. unat m < b) ft" using matchFlex_flex(1) [OF assms(2)] by blast
      from matchFlex_number(1) [OF Suc.prems(1), of num] Some ft have lt: "unat num < b" by blast
      show ?thesis
      proof (cases "unflex ft num declared")
        case u: (Some d)
        with below Suc.prems have "all_flex (\<lambda>m. unat m < b) d" using unflex_flex(1) by blast
        with Suc lt wrap have "flex_loop m (num + 1) actual d \<noteq> OutOfFuel" by (intro Suc.IH) auto
        with Some ft u show ?thesis by simp
      qed (simp add: Some ft)
    qed
  qed simp
qed simp

text \<open>What \<^verbatim>\<open>MapType::unflex\<close> reaches: a flex type as the key, or else as the value, and nothing deeper.\<close>

fun reached :: "uint32 \<Rightarrow> ytype \<Rightarrow> bool" where
  "reached n (MapType k v q) \<longleftrightarrow>
     (if is_Flex k then reached n k \<and> flex_free n v else flex_free n k \<and> (is_Flex v \<and> reached n v \<or> flex_free n v))"
| "reached n (VariableType t q) \<longleftrightarrow> reached n t"
| "reached n (ListType t q) \<longleftrightarrow> reached n t"
| "reached n (BlockType t q) \<longleftrightarrow> reached n t"
| "reached n (TupleType ts q) \<longleftrightarrow> list_all (reached n) ts"
| "reached n (FunctionType r a q) \<longleftrightarrow>
     reached n r \<and> (case a of None \<Rightarrow> True | Some (ts, q') \<Rightarrow> list_all (reached n) ts)"
| "reached n t \<longleftrightarrow> True"

lemma unflex_removes:
  "reached n t \<Longrightarrow> flex_free n ft \<Longrightarrow> unflex ft n t = Some t' \<Longrightarrow> flex_free n t'"
  "list_all (reached n) ts \<Longrightarrow> flex_free n ft \<Longrightarrow> unflex_list ft n ts = Some ts' \<Longrightarrow> list_all (flex_free n) ts'"
proof (induction ft n t and ft n ts arbitrary: t' and ts' rule: unflex_unflex_list.induct)
  case (2 type n q)
  then show ?case by (auto simp: flex_unflex_def dest: clone_flex split: if_splits)
next
  case (3 type n m q)
  then show ?case by (auto simp: nflex_unflex_def dest: clone_flex split: if_splits)
next
  case (6 type n k v q)
  have v: "flex_free n v'" if "unflex type n v = Some v'" "is_Flex v \<and> reached n v \<or> flex_free n v" for v'
    using that 6 unflex_flex(1) [of "\<lambda>m. m \<noteq> n" v type n v'] by blast
  from "6.prems"(3) have "map_unflex (unflex type n k) (unflex type n v) k v q = Some t'" by simp
  then show ?case
  proof (cases rule: map_unflex_cases)
    case (1 k')
    with "6.prems" have "reached n k" "flex_free n v" by simp_all
    with "6.IH"(1) [OF _ "6.prems"(2) 1(2)] 1(3) show ?thesis by simp
  next
    case (2 v')
    with "6.prems"(1) v show ?thesis by simp
  next
    case 3
    with "6.prems"(1) show ?thesis by simp
  qed
next
  case (9 type n r a q)
  then show ?case by (cases a) (auto simp: function_unflex_def bind_eq_Some_conv foldl_concat_flex split: prod.splits)
qed (auto simp: tuple_unflex_def bind_eq_Some_conv split: if_splits)

lemma type_string_nul_free: "sig_type t \<Longrightarrow> nul_free (type_string t)"
proof (induction t rule: sig_type.induct)
  case (6 r a q)
  have join: "nul_free (comma_join ss)" if "\<forall>s \<in> set ss. nul_free s" for ss
    using that by (induction ss rule: comma_join.induct) auto
  show ?case
  proof (cases a)
    case None
    with 6 show ?thesis by (simp add: function_string_def preToString_def postToString_def)
  next
    case (Some p)
    obtain ts q' where "p = (ts, q')" by (cases p)
    with 6 Some have "nul_free (comma_join (map type_string ts))"
      by (intro join) (auto simp: list_all_iff)
    with 6 Some \<open>p = (ts, q')\<close> show ?thesis by (simp add: function_string_def preToString_def postToString_def)
  qed
qed (auto simp: type_string_defs preToString_def postToString_def sig_kinds_def)

section \<open>Properties of signatures and flex types\<close>



text \<open>
  C30. The parser of signatures ends on every text: nesting and rounds never exceed the length of the
  text, so that it gives a type, a null handle or overflows the number of a flex type.
\<close>

theorem signature_parser_ends: "type_of_signature s \<noteq> OutOfFuel"
proof -
  have "length (c_str s) < Suc (length s)" by (simp add: c_str_def le_imp_less_Suc length_takeWhile_le)
  with fromSignature_good [of "Suc (length s)"] have "fromSignature (Suc (length s)) (c_str s) \<noteq> OutOfFuel"
    by (auto simp: sig_good_def shorter_def)
  then show ?thesis by (auto simp: type_of_signature_def obind_OutOfFuel)
qed

text \<open>
  A reference qualifier drops \<^verbatim>\<open>const\<close>: the parser copies the type to set the reference, and the copy
  has no qualifiers, so that \<^verbatim>\<open>const string &\<close> declares a reference to a non-constant string.
\<close>

theorem const_reference_loses_const:
  assumes "k \<in> sig_kinds"
  shows "type_of_signature (''const '' @ kind_string k @ '' &'')
    = Ret (Some (PlainType k \<lparr>m_const = False, m_reference = True\<rparr>))"
proof -
  have "nextToken (kind_string k @ CHR '' '' # s) = Some (TkKind k, skip_space s)" for s
    using nextToken_kind [of k "CHR '' '' # s"] assms by simp
  moreover have "skip_space ''&'' = ''&''" by (simp add: skip_space_def is_space_def)
  moreover have "no_space (kind_string k @ s)" for s using kind_no_space assms by simp
  ultimately have "fromSignature (Suc n) (''const '' @ kind_string k @ '' &'')
      = Ret (Some (PlainType k \<lparr>m_const = False, m_reference = True\<rparr>, []))" for n
    using assms by (auto simp: fromSignature.simps sig_head_def head_simple sig_reference_def asReference_def skip_space_def [of "[]"] sig_kinds_def)
  moreover have "nul_free (''const '' @ kind_string k @ '' &'')" using assms by (auto simp: sig_kinds_def)
  ultimately show ?thesis unfolding type_of_signature_def by (simp only: c_str_id) simp
qed

theorem const_reference_loses_const_witness:
  "type_of_signature ''const string &'' = Ret (Some (PlainType StringT \<lparr>m_const = False, m_reference = True\<rparr>))"
  using const_reference_loses_const [of StringT] by (simp add: sig_kinds_def)

text \<open>
  The deduction of flex types ends: when all numbers of flex types in the declared and the actual
  type are below a bound, the loop takes at most one round more than the bound.
\<close>

theorem determineFlexType_ends:
  assumes "0 < b" and "b < 2 ^ 32" and "all_flex (\<lambda>m. unat m < b) actual"
    and "all_flex (\<lambda>m. unat m < b) (FunctionType r a q)" and "b < n"
  shows "determineFlexType n actual (FunctionType r a q) \<noteq> OutOfFuel"
  using flex_loop_ends [OF assms(2,3,1,4), of 0 n] assms(5) by (simp add: obind_OutOfFuel)

theorem determineFlexType_ends_witness:
  "determineFlexType 4 (FunctionType AnyType (Some ([ListType (PlainType PathT noq) noq], noq)) noq)
     (FunctionType (NFlexType 2 noq) (Some ([ListType (NFlexType 2 noq) noq], noq)) noq) \<noteq> OutOfFuel"
  by (rule determineFlexType_ends [of 3]) simp_all



text \<open>
  Deeper inside of a map flex types stay: \<^verbatim>\<open>unflex\<close> gives back a map whose value is a list of flex
  types as it is, whatever the type to put in.
\<close>

theorem map_keeps_nested_flex:
  "unflex type n (MapType (PlainType StringT q1) (ListType (NFlexType n q2) q3) q)
     = Some (MapType (PlainType StringT q1) (ListType (NFlexType n q2) q3) noq)"
  by (simp add: map_unflex_def is_Flex_def)

text \<open>
  The type of a value accepts the value: \<^verbatim>\<open>vt2type\<close> of the tag of every non-null data value is a type
  whose \<^verbatim>\<open>matchvalue\<close> accepts it and whose \<^verbatim>\<open>valueType\<close> is the tag.
\<close>

theorem value_type_accepts:
  assumes "valuetype v \<le> 10"
  shows "matchvalue (vt2type (valuetype v)) v = Some 0 \<and> type_valueType (vt2type (valuetype v)) = valuetype v"
  using assms by (cases v) (simp_all add: vt2type_def type_valueType_def matchvalue.simps isNull_def)

theorem value_type_accepts_witness:
  "matchvalue (vt2type (valuetype (YList [YVoid] :: nat ycp))) (YList [YVoid] :: nat ycp) = Some 0"
  using value_type_accepts [of "YList [YVoid] :: nat ycp"] by simp

end
