(* ===== verification/Symbol_Table.thy ===== *)
theory Symbol_Table
  imports YCP_Signature
begin

text \<open>
  The symbol table of the parser and of the byte code reader (\<^verbatim>\<open>libycp/src/SymbolTable.cc\<close>,
  \<^verbatim>\<open>include/ycp/SymbolTable.h\<close>, the data of \<^verbatim>\<open>liby2/src/include/y2/SymbolEntry.h\<close>): a hash table of doubly
  linked buckets, in which equal names of nested blocks hide each other along \<^verbatim>\<open>m_outer\<close> and equal names
  of one name space and category are chained along \<^verbatim>\<open>m_overloaded_next\<close>; usage tracking and the stack of
  external references; the removal of a block's entries (\<^verbatim>\<open>YBlock::detachEnvironment\<close>).

  The objects live in a store with one function per pointer field, addressed by numbers; the null pointer
  is \<^const>\<open>None\<close>.  Loops along pointers are partial: \<^const>\<open>None\<close> is a loop that never ends.
\<close>

section \<open>Entries and tables\<close>

datatype category =
    c_unspec | c_global | c_module | c_variable | c_reference | c_function | c_builtin | c_typedef
  | c_const | c_namespace | c_self | c_predefined | c_filename

record sentry =
  s_namespace :: nat
  s_position :: uint32
  s_name :: string
  s_category :: category
  s_type :: ytype

text \<open>
  A table entry is an address.  Its key is a \<^verbatim>\<open>const char *\<close>: \<open>key_ptr\<close> is the pointer, which the usage map
  compares, and \<open>key_of\<close> the text behind it, which \<^verbatim>\<open>strcmp\<close> compares.
\<close>

type_synonym taddr = nat

record symtab =
  prime :: nat
  buckets :: "nat \<Rightarrow> taddr option"
  m_next :: "taddr \<Rightarrow> taddr option"
  m_prev :: "taddr \<Rightarrow> taddr option"
  m_outer :: "taddr \<Rightarrow> taddr option"
  over_next :: "taddr \<Rightarrow> taddr option"
  over_prev :: "taddr \<Rightarrow> taddr option"
  key_ptr :: "taddr \<Rightarrow> nat"
  key_of :: "taddr \<Rightarrow> string"
  entry_of :: "taddr \<Rightarrow> nat"
  owned :: "taddr \<Rightarrow> bool"
  deleted :: "taddr \<Rightarrow> bool"
  sentries :: "nat \<Rightarrow> sentry"
  track_usage :: bool
  used :: "(nat \<times> taddr) list option"
  xrefs :: "taddr list list option"

definition sentry_of :: "symtab \<Rightarrow> taddr \<Rightarrow> sentry" where
  "sentry_of st a = sentries st (entry_of st a)"

text \<open>The constructor \<^verbatim>\<open>SymbolTable (int prime)\<close>.\<close>

definition table_prime :: "int \<Rightarrow> nat" where
  "table_prime p = (if p \<le> 0 then 31 else nat p)"

text \<open>
  \<^verbatim>\<open>SymbolTable::SymbolTable\<close> beside table entries with the given keys and symbols, all their links null.
\<close>

definition new_table :: "int \<Rightarrow> (taddr \<Rightarrow> string) \<Rightarrow> (taddr \<Rightarrow> nat) \<Rightarrow> (taddr \<Rightarrow> nat) \<Rightarrow> (nat \<Rightarrow> sentry) \<Rightarrow> symtab" where
  "new_table p keys ptrs entries data =
     \<lparr>prime = table_prime p, buckets = (\<lambda>_. None), m_next = (\<lambda>_. None), m_prev = (\<lambda>_. None), m_outer = (\<lambda>_. None),
      over_next = (\<lambda>_. None), over_prev = (\<lambda>_. None), key_ptr = ptrs, key_of = keys, entry_of = entries,
      owned = (\<lambda>_. False), deleted = (\<lambda>_. False), sentries = data, track_usage = True, used = None, xrefs = None\<rparr>"

text \<open>
  \<^verbatim>\<open>hash\<close>: 32 bit arithmetic over the characters, which are signed, then the remainder.
\<close>

definition hash_step :: "uint32 \<Rightarrow> char \<Rightarrow> uint32" where
  "hash_step h c =
     (let h1 = push_bit 4 h + scast (char_byte c); g = h1 AND 0xff000000 in
      if g \<noteq> 0 then xor (xor h1 (drop_bit 24 g)) g else h1)"

definition hash :: "nat \<Rightarrow> string \<Rightarrow> nat" where
  "hash p s = unat (foldl hash_step 0 s) mod p"

section \<open>Entering\<close>

text \<open>A match of another name space or category: the entry takes the place of the bucket member.\<close>

definition push_scope :: "symtab \<Rightarrow> nat \<Rightarrow> taddr \<Rightarrow> taddr \<Rightarrow> symtab" where
  "push_scope st h entry bucket =
     (let st1 = st\<lparr>m_outer := (m_outer st)(entry := Some bucket)\<rparr>;
          st2 = (case m_prev st1 bucket of
                   Some p \<Rightarrow> st1\<lparr>m_prev := (m_prev st1)(entry := Some p), m_next := (m_next st1)(p := Some entry)\<rparr>
                 | None \<Rightarrow> st1\<lparr>buckets := (buckets st1)(h := Some entry), m_prev := (m_prev st1)(entry := None)\<rparr>);
          st3 = (case m_next st2 bucket of
                   Some n \<Rightarrow> st2\<lparr>m_next := (m_next st2)(entry := Some n), m_prev := (m_prev st2)(n := Some entry)\<rparr>
                 | None \<Rightarrow> st2\<lparr>m_next := (m_next st2)(entry := None)\<rparr>)
      in st3\<lparr>m_prev := (m_prev st3)(bucket := None), m_next := (m_next st3)(bucket := None)\<rparr>)"

partial_function (option) last_overloaded :: "symtab \<Rightarrow> taddr \<Rightarrow> taddr option" where
  "last_overloaded st b =
     (case over_next st b of None \<Rightarrow> Some b | Some c \<Rightarrow> last_overloaded st c)"

definition overload :: "symtab \<Rightarrow> taddr \<Rightarrow> taddr \<Rightarrow> symtab" where
  "overload st entry l =
     st\<lparr>over_next := (over_next st)(l := Some entry), over_prev := (over_prev st)(entry := Some l)\<rparr>"

definition same_scope :: "symtab \<Rightarrow> taddr \<Rightarrow> taddr \<Rightarrow> bool" where
  "same_scope st a b \<longleftrightarrow>
     s_namespace (sentry_of st a) = s_namespace (sentry_of st b)
     \<and> s_category (sentry_of st a) = s_category (sentry_of st b)"

definition append_entry :: "symtab \<Rightarrow> taddr \<Rightarrow> taddr \<Rightarrow> symtab" where
  "append_entry st entry bucket =
     st\<lparr>m_next := (m_next st)(bucket := Some entry), m_prev := (m_prev st)(entry := Some bucket)\<rparr>"

partial_function (option) enter_loop :: "symtab \<Rightarrow> nat \<Rightarrow> taddr \<Rightarrow> taddr \<Rightarrow> symtab option" where
  "enter_loop st h entry bucket =
     (if key_of st entry = key_of st bucket
      then if same_scope st bucket entry
           then do { l \<leftarrow> last_overloaded st bucket; Some (overload st entry l) }
           else Some (push_scope st h entry bucket)
      else case m_next st bucket of
             None \<Rightarrow> Some (append_entry st entry bucket)
           | Some b \<Rightarrow> enter_loop st h entry b)"

definition enter :: "symtab \<Rightarrow> taddr \<Rightarrow> symtab option" where
  "enter st0 entry =
     (let st = st0\<lparr>owned := (owned st0)(entry := True)\<rparr>; h = hash (prime st) (key_of st entry) in
      case buckets st h of
        None \<Rightarrow> Some (st\<lparr>buckets := (buckets st)(h := Some entry)\<rparr>)
      | Some bucket \<Rightarrow> enter_loop st h entry bucket)"

section \<open>Finding\<close>

partial_function (option) find_loop :: "symtab \<Rightarrow> string \<Rightarrow> category \<Rightarrow> taddr option \<Rightarrow> taddr option option" where
  "find_loop st key cat t =
     (if t = None then Some None
      else if key = key_of st (the t)
      then if cat = c_unspec \<or> s_category (sentry_of st (the t)) = cat then Some t
           else find_loop st key cat (m_outer st (the t))
      else find_loop st key cat (m_next st (the t)))"

text \<open>The usage map is ordered by the key pointers.\<close>

fun used_insert :: "nat \<Rightarrow> taddr \<Rightarrow> (nat \<times> taddr) list \<Rightarrow> (nat \<times> taddr) list" where
  "used_insert k a [] = [(k, a)]"
| "used_insert k a ((l, b) # m) = (if k < l then (k, a) # (l, b) # m else (l, b) # used_insert k a m)"

definition set_position :: "symtab \<Rightarrow> taddr \<Rightarrow> uint32 \<Rightarrow> symtab" where
  "set_position st a p =
     st\<lparr>sentries := (sentries st)(entry_of st a := (sentry_of st a)\<lparr>s_position := p\<rparr>)\<rparr>"

definition note_usage :: "symtab \<Rightarrow> taddr \<Rightarrow> symtab" where
  "note_usage st a =
     (case used st of
        Some m \<Rightarrow>
          if track_usage st \<and> key_ptr st a \<notin> fst ` set m
          then (set_position st a (of_nat (length m)))\<lparr>used := Some (used_insert (key_ptr st a) a m)\<rparr>
          else st
      | None \<Rightarrow> st)"

definition find_entry :: "symtab \<Rightarrow> string \<Rightarrow> category \<Rightarrow> (taddr option \<times> symtab) option" where
  "find_entry st key cat =
     do { r \<leftarrow> find_loop st key cat (buckets st (hash (prime st) key));
          Some (case r of None \<Rightarrow> (None, st) | Some a \<Rightarrow> (Some a, note_usage st a)) }"

section \<open>Removing\<close>

text \<open>The loop that looks for the entry one scope further in; nothing in it advances \<^verbatim>\<open>shadow\<close>.\<close>

partial_function (option) shadow_loop :: "symtab \<Rightarrow> taddr \<Rightarrow> taddr \<Rightarrow> symtab option" where
  "shadow_loop st entry shadow =
     (if m_outer st shadow = Some entry
      then Some (st\<lparr>m_outer := (m_outer st)(shadow := m_outer st entry)\<rparr>)
      else shadow_loop st entry shadow)"

definition unshadow :: "symtab \<Rightarrow> taddr \<Rightarrow> nat \<Rightarrow> symtab option" where
  "unshadow st entry h =
     (case buckets st h of None \<Rightarrow> Some st | Some shadow \<Rightarrow> shadow_loop st entry shadow)"

definition set_prev :: "symtab \<Rightarrow> taddr option \<Rightarrow> taddr option \<Rightarrow> symtab" where
  "set_prev st a v = (case a of None \<Rightarrow> st | Some b \<Rightarrow> st\<lparr>m_prev := (m_prev st)(b := v)\<rparr>)"

definition remove_scope :: "symtab \<Rightarrow> taddr \<Rightarrow> taddr \<Rightarrow> symtab option" where
  "remove_scope st entry candidate =
     (let st1 = st\<lparr>m_prev := (m_prev st)(candidate := m_prev st entry),
                   m_next := (m_next st)(candidate := m_next st entry)\<rparr>;
          st2 = set_prev st1 (m_next st1 entry) (Some candidate)
      in case m_prev st2 entry of
           Some p \<Rightarrow> Some (st2\<lparr>m_next := (m_next st2)(p := Some candidate)\<rparr>)
         | None \<Rightarrow>
             let h = hash (prime st2) (key_of st2 entry) in
             if buckets st2 h = Some entry then Some (st2\<lparr>buckets := (buckets st2)(h := Some candidate)\<rparr>)
             else unshadow st2 entry h)"

definition remove_bucket :: "symtab \<Rightarrow> taddr \<Rightarrow> symtab option" where
  "remove_bucket st entry =
     (case m_prev st entry of
        Some p \<Rightarrow>
          (let st1 = st\<lparr>m_next := (m_next st)(p := m_next st entry)\<rparr>
           in Some (set_prev st1 (m_next st1 entry) (m_prev st1 entry)))
      | None \<Rightarrow>
          let h = hash (prime st) (key_of st entry) in
          if buckets st h = Some entry
          then (let st1 = st\<lparr>buckets := (buckets st)(h := m_next st entry)\<rparr>
                in Some (set_prev st1 (m_next st1 entry) None))
          else unshadow st entry h)"

definition remove_entry :: "symtab \<Rightarrow> taddr \<Rightarrow> symtab option" where
  "remove_entry st entry =
     do { st' \<leftarrow> (case m_outer st entry of
                    Some candidate \<Rightarrow> remove_scope st entry candidate
                  | None \<Rightarrow> remove_bucket st entry);
          Some (st'\<lparr>deleted := (deleted st')(entry := True)\<rparr>) }"

text \<open>
  \<^verbatim>\<open>YBlock::detachEnvironment\<close>: removes the entries of a block that belong to the table, keeps the others.
\<close>

fun detachEnvironment :: "symtab \<Rightarrow> taddr option list \<Rightarrow> (symtab \<times> taddr option list) option" where
  "detachEnvironment st [] = Some (st, [])"
| "detachEnvironment st (t # ts) =
     (case t of
        Some a \<Rightarrow>
          if owned st a
          then do { st1 \<leftarrow> remove_entry st a; detachEnvironment st1 ts }
          else do { (st1, us) \<leftarrow> detachEnvironment st ts; Some (st1, t # us) }
      | None \<Rightarrow> do { (st1, us) \<leftarrow> detachEnvironment st ts; Some (st1, t # us) })"

section \<open>Usage and external references\<close>

definition startUsage :: "symtab \<Rightarrow> symtab" where
  "startUsage st = (if used st = None then st\<lparr>used := Some []\<rparr> else st)"

definition countUsage :: "symtab \<Rightarrow> nat" where
  "countUsage st = (case used st of None \<Rightarrow> 0 | Some m \<Rightarrow> length m)"

definition endUsage :: "symtab \<Rightarrow> symtab" where
  "endUsage st = st\<lparr>used := None\<rparr>"

definition enableUsage :: "symtab \<Rightarrow> symtab" where "enableUsage st = st\<lparr>track_usage := True\<rparr>"
definition disableUsage :: "symtab \<Rightarrow> symtab" where "disableUsage st = st\<lparr>track_usage := False\<rparr>"

text \<open>\<^verbatim>\<open>writeUsage\<close>: numbers the used entries in the order of the map, writes names and types, and leaves
  negative positions behind.\<close>

fun write_refs :: "symtab \<Rightarrow> ostream \<Rightarrow> nat \<Rightarrow> taddr list \<Rightarrow> symtab \<times> ostream" where
  "write_refs st str n [] = (st, str)"
| "write_refs st str n (a # as) =
     write_refs (set_position st a (- of_nat n - 1))
       (writeType (writeCharp str (s_name (sentry_of st a))) (s_type (sentry_of st a))) (Suc n) as"

fun number_refs :: "symtab \<Rightarrow> nat \<Rightarrow> taddr list \<Rightarrow> symtab" where
  "number_refs st n [] = st"
| "number_refs st n (a # as) = number_refs (set_position st a (of_nat n)) (Suc n) as"

definition writeUsage :: "symtab \<Rightarrow> ostream \<Rightarrow> symtab \<times> ostream" where
  "writeUsage st str =
     (case used st of
        None \<Rightarrow> (st, writeInt32 str 0)
      | Some m \<Rightarrow>
          let refs = map snd m; st1 = number_refs st 0 refs in
          write_refs st1 (writeInt32 str (of_nat (length refs))) 0 refs)"

definition openXRefs :: "symtab \<Rightarrow> symtab" where
  "openXRefs st = st\<lparr>xrefs := Some ([] # (case xrefs st of None \<Rightarrow> [] | Some s \<Rightarrow> s))\<rparr>"

definition closeXRefs :: "symtab \<Rightarrow> symtab" where
  "closeXRefs st =
     (case xrefs st of
        None \<Rightarrow> st
      | Some s \<Rightarrow> if s = [] then st else st\<lparr>xrefs := Some (tl s)\<rparr>)"

definition getXRef :: "symtab \<Rightarrow> nat \<Rightarrow> nat option" where
  "getXRef st position =
     (case xrefs st of
        None \<Rightarrow> None
      | Some [] \<Rightarrow> None
      | Some (refs # _) \<Rightarrow> if position \<ge> length refs then None else Some (entry_of st (refs ! position)))"

text \<open>\<^verbatim>\<open>xref\<close>: pushing to the top of an empty stack is undefined.\<close>

definition xref :: "symtab \<Rightarrow> string \<Rightarrow> (taddr option \<times> symtab) option" where
  "xref st key =
     do { (t, st1) \<leftarrow> find_entry st key c_unspec;
          case t of
            None \<Rightarrow> Some (None, st1)
          | Some a \<Rightarrow>
              (case xrefs st1 of
                 Some (refs # s) \<Rightarrow> Some (Some a, st1\<lparr>xrefs := Some ((refs @ [a]) # s)\<rparr>)
               | _ \<Rightarrow> None) }"

section \<open>Linked segments\<close>

text \<open>The cells of a segment, one after the other along a pointer field, and what follows them.\<close>

fun first :: "'a list \<Rightarrow> 'a option \<Rightarrow> 'a option" where
  "first [] n = n"
| "first (a # as) n = Some a"

fun lseg :: "('a \<Rightarrow> 'a option) \<Rightarrow> 'a list \<Rightarrow> 'a option \<Rightarrow> bool" where
  "lseg f [] n \<longleftrightarrow> True"
| "lseg f (a # as) n \<longleftrightarrow> f a = first as n \<and> lseg f as n"

lemma first_append [simp]: "first (xs @ ys) n = first xs (first ys n)"
  by (cases xs) auto

lemma lseg_append [simp]: "lseg f (xs @ ys) n \<longleftrightarrow> lseg f xs (first ys n) \<and> lseg f ys n"
  by (induction xs) auto

lemma lseg_upd [simp]: "a \<notin> set xs \<Longrightarrow> lseg (f(a := v)) xs n = lseg f xs n"
  by (induction xs) auto

lemma lseg_cong: "(\<And>a. a \<in> set xs \<Longrightarrow> f a = g a) \<Longrightarrow> lseg f xs n = lseg g xs n"
  by (induction xs) auto

section \<open>Well-formed buckets\<close>

text \<open>
  A chain holds the scopes of one name, the innermost first; a scope holds the overloads of one name space and
  category.  A bucket is a list of chains whose heads are linked both ways.
\<close>

type_synonym chain = "taddr list list"

abbreviation heads :: "chain list \<Rightarrow> taddr list" where
  "heads cs \<equiv> map (\<lambda>c. hd (hd c)) cs"

fun cells :: "chain \<Rightarrow> taddr list" where
  "cells [] = []"
| "cells (s # c) = s @ cells c"

fun members :: "chain list \<Rightarrow> taddr list" where
  "members [] = []"
| "members (c # cs) = cells c @ members cs"

definition chain_key :: "symtab \<Rightarrow> chain \<Rightarrow> string" where
  "chain_key st c = key_of st (hd (hd c))"

definition chain_ok :: "symtab \<Rightarrow> chain \<Rightarrow> bool" where
  "chain_ok st c \<longleftrightarrow> c \<noteq> [] \<and> [] \<notin> set c
     \<and> lseg (m_outer st) (map hd c) None
     \<and> (\<forall>s \<in> set c. lseg (over_next st) s None)
     \<and> (\<forall>a \<in> set (cells c). key_of st a = chain_key st c)
     \<and> (\<forall>s \<in> set (tl c). m_next st (hd s) = None \<and> m_prev st (hd s) = None)"

definition bucket_ok :: "symtab \<Rightarrow> nat \<Rightarrow> chain list \<Rightarrow> bool" where
  "bucket_ok st h cs \<longleftrightarrow>
     buckets st h = first (heads cs) None
     \<and> lseg (m_next st) (heads cs) None \<and> lseg (m_prev st) (rev (heads cs)) None
     \<and> (\<forall>c \<in> set cs. chain_ok st c)
     \<and> distinct (map (chain_key st) cs) \<and> distinct (members cs)
     \<and> (\<forall>a \<in> set (members cs). hash (prime st) (key_of st a) = h)"

lemma members_append [simp]: "members (xs @ ys) = members xs @ members ys"
  by (induction xs) auto

lemma scope_cells: "s \<in> set c \<Longrightarrow> set s \<subseteq> set (cells c)"
  by (induction c) auto

lemma chain_members: "c \<in> set cs \<Longrightarrow> set (cells c) \<subseteq> set (members cs)"
  by (induction cs) auto

lemma hd_cells: "[] \<notin> set c \<Longrightarrow> a \<in> set (map hd c) \<Longrightarrow> a \<in> set (cells c)"
  by (induction c) (auto simp: neq_Nil_conv)

lemma chain_okD: "chain_ok st c \<Longrightarrow> c = (hd (hd c) # tl (hd c)) # tl c"
  by (cases c; cases "hd c") (auto simp: chain_ok_def)

lemma head_member: "chain_ok st c \<Longrightarrow> hd (hd c) \<in> set (cells c)"
  by (subst (2) chain_okD, assumption) simp

section \<open>Lookup and entry in a bucket\<close>

fun scope_find :: "(taddr \<Rightarrow> sentry) \<Rightarrow> category \<Rightarrow> taddr list \<Rightarrow> taddr option" where
  "scope_find d cat [] = None"
| "scope_find d cat (a # as) =
     (if cat = c_unspec \<or> s_category (d a) = cat then Some a else scope_find d cat as)"

lemma find_in_chain:
  "\<forall>a \<in> set as. key_of st a = key \<Longrightarrow> lseg (m_outer st) as None
   \<Longrightarrow> find_loop st key cat (first as None) = Some (scope_find (sentry_of st) cat as)"
proof (induction as)
  case Nil
  show ?case by (subst find_loop.simps) simp
next
  case (Cons a as)
  then show ?case by (subst find_loop.simps) auto
qed

definition stack_of :: "symtab \<Rightarrow> chain list \<Rightarrow> string \<Rightarrow> taddr list" where
  "stack_of st cs key = (case find (\<lambda>c. chain_key st c = key) cs of None \<Rightarrow> [] | Some c \<Rightarrow> map hd c)"

lemma find_in_bucket:
  assumes "\<forall>c \<in> set cs. chain_ok st c" "lseg (m_next st) (heads cs) None"
  shows "find_loop st key cat (first (heads cs) None) = Some (scope_find (sentry_of st) cat (stack_of st cs key))"
  using assms
proof (induction cs)
  case Nil
  show ?case by (subst find_loop.simps) (simp add: stack_of_def)
next
  case (Cons c cs)
  have c: "chain_ok st c" using Cons.prems by simp
  show ?case
  proof (cases "chain_key st c = key")
    case True
    have "first (map hd c) None = Some (hd (hd c))" using c by (cases c) (auto simp: chain_ok_def)
    moreover have "find_loop st key cat (first (map hd c) None) = Some (scope_find (sentry_of st) cat (map hd c))"
    proof (rule find_in_chain)
      show "\<forall>a \<in> set (map hd c). key_of st a = key"
        using c True hd_cells unfolding chain_ok_def by blast
    qed (use c in \<open>simp add: chain_ok_def\<close>)
    ultimately show ?thesis using True by (simp add: stack_of_def)
  next
    case False
    with Cons show ?thesis by (subst find_loop.simps) (auto simp: stack_of_def chain_key_def)
  qed
qed

definition matched :: "symtab \<Rightarrow> nat \<Rightarrow> taddr \<Rightarrow> taddr \<Rightarrow> symtab option" where
  "matched st h e b =
     (if same_scope st b e then do { l \<leftarrow> last_overloaded st b; Some (overload st e l) }
      else Some (push_scope st h e b))"

lemma enter_walk:
  assumes "lseg (m_next st) (heads cs) None" "cs \<noteq> []"
  shows "enter_loop st h e (hd (heads cs)) =
    (case find (\<lambda>c. chain_key st c = key_of st e) cs of
       Some c \<Rightarrow> matched st h e (hd (hd c)) | None \<Rightarrow> Some (append_entry st e (last (heads cs))))"
  using assms
proof (induction cs)
  case (Cons c cs)
  show ?case
  proof (cases "chain_key st c = key_of st e")
    case True
    then show ?thesis by (subst enter_loop.simps) (simp add: matched_def chain_key_def)
  next
    case False
    show ?thesis
    proof (cases cs)
      case Nil
      with Cons False show ?thesis by (subst enter_loop.simps) (simp add: chain_key_def)
    next
      case (Cons d ds)
      then have "last (heads (c # cs)) = last (heads cs)" by simp
      moreover have "m_next st (hd (hd c)) = Some (hd (heads cs))" using Cons.prems Cons by simp
      ultimately show ?thesis using Cons.IH Cons.prems False Cons
        by (subst enter_loop.simps) (simp add: chain_key_def cong: option.case_cong)
    qed
  qed
qed simp

lemma last_overloaded_walk: "lseg (over_next st) (a # as) None \<Longrightarrow> last_overloaded st a = Some (last (a # as))"
proof (induction as arbitrary: a)
  case (Cons b as)
  then show ?case by (subst last_overloaded.simps) auto
qed (subst last_overloaded.simps, simp)

lemma chain_ok_cong:
  assumes "chain_ok st c"
    and "\<And>a. a \<in> set (cells c) \<Longrightarrow> m_outer st' a = m_outer st a \<and> over_next st' a = over_next st a \<and> key_of st' a = key_of st a"
    and "\<And>a. a \<in> set (map hd (tl c)) \<Longrightarrow> m_next st' a = m_next st a \<and> m_prev st' a = m_prev st a"
  shows "chain_ok st' c" and "chain_key st' c = chain_key st c"
proof -
  show key: "chain_key st' c = chain_key st c"
    using assms(2) head_member [OF assms(1)] by (simp add: chain_key_def)
  have "lseg (m_outer st') (map hd c) None = lseg (m_outer st) (map hd c) None"
    by (intro lseg_cong) (use assms(1,2) hd_cells in \<open>auto simp: chain_ok_def\<close>)
  moreover have "lseg (over_next st') s None = lseg (over_next st) s None" if "s \<in> set c" for s
    by (intro lseg_cong) (use assms(2) scope_cells [OF that] in auto)
  ultimately show "chain_ok st' c"
    using assms key unfolding chain_ok_def by auto
qed

definition fresh :: "symtab \<Rightarrow> taddr \<Rightarrow> bool" where
  "fresh st e \<longleftrightarrow> m_next st e = None \<and> m_prev st e = None \<and> m_outer st e = None \<and> over_next st e = None"

lemma head_only:
  assumes "chain_ok st c" "distinct (cells c)" "a \<in> set (map hd (tl c))"
  shows "a \<noteq> hd (hd c)" "a \<in> set (cells c)"
proof -
  obtain b s ss where c: "c = (b # s) # ss" using chain_okD [OF assms(1)] by metis
  have "a \<in> set (cells ss)" using assms(1,3) hd_cells by (auto simp: c chain_ok_def)
  with assms(2) show "a \<noteq> hd (hd c)" "a \<in> set (cells c)" by (auto simp: c)
qed

lemma heads_members: "\<forall>c \<in> set cs. chain_ok st c \<Longrightarrow> set (heads cs) \<subseteq> set (members cs)"
  using head_member chain_members by fastforce

lemma distinct_heads:
  "\<forall>c \<in> set cs. chain_ok st c \<Longrightarrow> distinct (members cs) \<Longrightarrow> distinct (heads cs)"
proof (induction cs)
  case (Cons c cs)
  have "set (heads cs) \<subseteq> set (members cs)" using Cons.prems(1) by (intro heads_members [of cs st]) simp
  moreover have "hd (hd c) \<in> set (cells c)" using Cons.prems(1) head_member [of st c] by simp
  moreover have "distinct (heads cs)" using Cons by simp
  moreover have "set (cells c) \<inter> set (members cs) = {}" using Cons.prems(2) by simp
  ultimately show ?case by (simp del: set_map) blast
qed simp

lemma bucket_frame:
  assumes "\<forall>c \<in> set cs. chain_ok st c" "distinct (members cs)"
    and "\<And>a. a \<in> set (members cs) \<Longrightarrow> m_outer st' a = m_outer st a \<and> over_next st' a = over_next st a \<and> key_of st' a = key_of st a"
    and "\<And>a. a \<in> set (members cs) - set (heads cs) \<Longrightarrow> m_next st' a = m_next st a \<and> m_prev st' a = m_prev st a"
    and "c \<in> set cs"
  shows "chain_ok st' c" "chain_key st' c = chain_key st c"
proof -
  from assms(5) obtain xs ys where cs: "cs = xs @ c # ys" by (meson split_list)
  have ok: "chain_ok st c" using assms by blast
  have sub: "set (cells c) \<subseteq> set (members cs)" using chain_members [OF assms(5)] .
  have d: "distinct (cells c)" "set (cells c) \<inter> set (members (xs @ ys)) = {}"
    using assms(2) by (auto simp: cs)
  have hx: "set (heads (xs @ ys)) \<subseteq> set (members (xs @ ys))"
    using assms(1) by (intro heads_members [of _ st]) (auto simp: cs)
  have "m_next st' a = m_next st a \<and> m_prev st' a = m_prev st a" if "a \<in> set (map hd (tl c))" for a
  proof (rule assms(4))
    have "a \<noteq> hd (hd c)" "a \<in> set (cells c)" using head_only [OF ok d(1) that] .
    moreover from this(2) d(2) hx have "a \<notin> set (heads (xs @ ys))" by blast
    ultimately show "a \<in> set (members cs) - set (heads cs)" using sub by (auto simp: cs)
  qed
  with sub assms(3) show "chain_ok st' c" "chain_key st' c = chain_key st c"
    using chain_ok_cong [OF ok, of st'] by blast+
qed

lemma bucket_okI:
  assumes "buckets st h = first (heads cs) None"
    and "lseg (m_next st) (heads cs) None" and "lseg (m_prev st) (rev (heads cs)) None"
    and "\<And>c. c \<in> set cs \<Longrightarrow> chain_ok st c"
    and "distinct (map (chain_key st) cs)" and "distinct (members cs)"
    and "\<And>a. a \<in> set (members cs) \<Longrightarrow> hash (prime st) (key_of st a) = h"
  shows "bucket_ok st h cs"
  using assms by (auto simp: bucket_ok_def)

lemma append_ok:
  assumes ok: "bucket_ok st h cs" and "cs \<noteq> []" "fresh st e" "e \<notin> set (members cs)"
    and "\<forall>c \<in> set cs. chain_key st c \<noteq> key_of st e" "hash (prime st) (key_of st e) = h"
  shows "bucket_ok (append_entry st e (last (heads cs))) h (cs @ [[[e]]])"
proof -
  let ?l = "last (heads cs)" and ?st = "append_entry st e (last (heads cs))"
  note b = ok [unfolded bucket_ok_def]
  have hm: "distinct (heads cs)" "set (heads cs) \<subseteq> set (members cs)" using b distinct_heads heads_members by blast+
  define l where "l = ?l"
  define hs where "hs = butlast (heads cs)"
  have hs: "heads cs = hs @ [l]" using assms(2) by (simp add: hs_def l_def)
  have el: "e \<noteq> l" "e \<notin> set hs" "l \<notin> set hs" using hm assms(4) unfolding hs by auto
  have fr: "chain_ok ?st c" "chain_key ?st c = chain_key st c" if "c \<in> set cs" for c
  proof -
    have "m_next ?st a = m_next st a \<and> m_prev ?st a = m_prev st a" if "a \<in> set (members cs) - set (heads cs)" for a
      using that assms(4) unfolding l_def [symmetric] hs by (auto simp: append_entry_def)
    then show "chain_ok ?st c" "chain_key ?st c = chain_key st c"
      using bucket_frame [of cs st ?st c] b that by (auto simp: append_entry_def)
  qed
  have "chain_ok ?st [[e]]" "chain_key ?st [[e]] = key_of st e"
    using assms(3) el by (auto simp: chain_ok_def chain_key_def append_entry_def fresh_def l_def)
  note new = this
  have keys: "map (chain_key ?st) cs = map (chain_key st) cs" using fr by simp
  have fields: "key_of ?st = key_of st" "prime ?st = prime st" "buckets ?st = buckets st" by (simp_all add: append_entry_def)
  show ?thesis
  proof (rule bucket_okI)
    show "buckets ?st h = first (heads (cs @ [[[e]]])) None" using b fields assms(2) by (cases cs) auto
    show "lseg (m_next ?st) (heads (cs @ [[[e]]])) None" "lseg (m_prev ?st) (rev (heads (cs @ [[[e]]]))) None"
      using b el assms(3) unfolding l_def [symmetric] map_append hs by (simp_all add: append_entry_def fresh_def)
    show "distinct (map (chain_key ?st) (cs @ [[[e]]]))"
      unfolding map_append keys using b assms(5) new by auto
  qed (use b fr new assms(4,6) fields in auto)
qed

definition relink :: "('a \<Rightarrow> 'a option) \<Rightarrow> 'a option \<Rightarrow> 'a option \<Rightarrow> 'a \<Rightarrow> 'a option" where
  "relink f p v = (case p of None \<Rightarrow> f | Some q \<Rightarrow> f(q := v))"

lemma first_rev_snoc: "first (rev (xs @ [p])) n = Some p"
  by simp

text \<open>Lists linked both ways: replacing an element, taking one out.\<close>

lemma lseg_relink:
  assumes "lseg f (xs @ b # ys) n" "distinct (xs @ b # ys)" "e \<notin> set (xs @ ys)"
  shows "lseg (relink f (first (rev xs) None) (Some e)) xs (Some e)"
    and "lseg (relink f (first (rev xs) None) v) ys n"
    and "lseg (relink f (first (rev xs) None) (first ys n)) (xs @ ys) n"
proof -
  show "lseg (relink f (first (rev xs) None) v) ys n"
    using assms by (cases xs rule: rev_cases) (auto simp: relink_def)
  show "lseg (relink f (first (rev xs) None) (Some e)) xs (Some e)"
    using assms by (cases xs rule: rev_cases) (auto simp: relink_def)
  show "lseg (relink f (first (rev xs) None) (first ys n)) (xs @ ys) n"
    using assms by (cases xs rule: rev_cases) (auto simp: relink_def)
qed

lemma lseg_at: "lseg f (xs @ b # ys) n \<Longrightarrow> f b = first ys n"
  by simp

lemma lseg_replace:
  assumes "lseg f (xs @ b # ys) None" "distinct (xs @ b # ys)" "e \<notin> set (xs @ b # ys)"
    and "\<And>a. a \<in> set (xs @ ys) \<Longrightarrow> f' a = relink f (first (rev xs) None) (Some e) a"
    and "f' e = first ys None"
  shows "lseg f' (xs @ e # ys) None"
proof -
  have "lseg f' xs (Some e)"
    using lseg_relink(1) [OF assms(1,2), of e] lseg_cong [of xs f' "relink f (first (rev xs) None) (Some e)"] assms(3,4) by auto
  moreover have "lseg f' ys None"
    using lseg_relink(2) [OF assms(1,2), of e "Some e"] lseg_cong [of ys f' "relink f (first (rev xs) None) (Some e)"] assms(3,4) by auto
  ultimately show ?thesis using assms(5) by simp
qed

lemma chain_ok_Cons:
  assumes "chain_ok st c" "m_outer st e = Some (hd (hd c))" "over_next st e = None" "key_of st e = chain_key st c"
    and "m_next st (hd (hd c)) = None" "m_prev st (hd (hd c)) = None"
  shows "chain_ok st ([e] # c)"
  using assms by (cases c) (auto simp: chain_ok_def chain_key_def)

lemma chain_ok_tl:
  assumes "chain_ok st ([e] # c)" "c \<noteq> []"
  shows "chain_ok st c" "m_outer st e = Some (hd (hd c))" "chain_key st ([e] # c) = chain_key st c"
  using assms by (cases c; cases "hd c"; auto simp: chain_ok_def chain_key_def)+

lemma push_scope_fields:
  assumes "m_prev st b = p" "m_next st b = n" "b \<noteq> e" "p \<noteq> Some b" "p \<noteq> Some e" "n \<noteq> Some b" "n \<noteq> Some e"
  shows "m_next (push_scope st h e b) = (relink (m_next st) p (Some e))(e := n, b := None)"
    and "m_prev (push_scope st h e b) = (relink (m_prev st) n (Some e))(e := p, b := None)"
    and "buckets (push_scope st h e b) = (if p = None then (buckets st)(h := Some e) else buckets st)"
    and "m_outer (push_scope st h e b) = (m_outer st)(e := Some b)"
    and "over_next (push_scope st h e b) = over_next st" "key_of (push_scope st h e b) = key_of st"
        "prime (push_scope st h e b) = prime st"
  using assms by (auto simp: push_scope_def Let_def relink_def fun_eq_iff split: option.splits)

lemma push_ok:
  assumes ok: "bucket_ok st h (xs @ c # ys)" and "fresh st e" "e \<notin> set (members (xs @ c # ys))"
    and "chain_key st c = key_of st e" "hash (prime st) (key_of st e) = h"
  shows "bucket_ok (push_scope st h e (hd (hd c))) h (xs @ ([e] # c) # ys)"
proof -
  let ?cs = "xs @ c # ys" and ?b = "hd (hd c)" and ?st = "push_scope st h e (hd (hd c))"
  let ?hx = "heads xs" and ?hy = "heads ys"
  note b = ok [unfolded bucket_ok_def]
  have hm: "distinct (?hx @ ?b # ?hy)" "set (?hx @ ?b # ?hy) \<subseteq> set (members ?cs)"
    using b distinct_heads [of ?cs st] heads_members [of ?cs st] by auto
  have links: "lseg (m_next st) (?hx @ ?b # ?hy) None" "lseg (m_prev st) (rev ?hy @ ?b # rev ?hx) None"
    using b by simp_all
  have p: "m_prev st ?b = first (rev ?hx) None" and n: "m_next st ?b = first ?hy None"
    using lseg_at [OF links(1)] lseg_at [OF links(2)] by simp_all
  have e: "e \<notin> set (?hx @ ?b # ?hy)" using hm assms(3) by blast
  have pn: "first (rev ?hx) None \<noteq> Some a" "first ?hy None \<noteq> Some a" if "a \<notin> set (?hx @ ?hy)" for a
    using that by (cases ?hx rule: rev_cases, auto, cases ys, auto)
  have bn: "?b \<notin> set (?hx @ ?hy)" "e \<notin> set (?hx @ ?hy)" "?b \<noteq> e" using hm e by auto
  note F = push_scope_fields [OF p n bn(3) pn(1) [OF bn(1)] pn(1) [OF bn(2)] pn(2) [OF bn(1)] pn(2) [OF bn(2)], of h]
  have same: "m_next ?st a = m_next st a \<and> m_prev ?st a = m_prev st a" if "a \<in> set (members ?cs) - set (heads ?cs)" for a
  proof -
    have "a \<noteq> e" "a \<noteq> ?b" "a \<notin> set ?hx" "a \<notin> set ?hy" using that assms(3) by auto
    then show ?thesis unfolding F
      by (cases ?hx rule: rev_cases; cases ys) (auto simp: relink_def)
  qed
  have ch: "\<forall>c \<in> set ?cs. chain_ok st c" "distinct (members ?cs)" using b by blast+
  have rest: "m_outer ?st a = m_outer st a \<and> over_next ?st a = over_next st a \<and> key_of ?st a = key_of st a"
    if "a \<in> set (members ?cs)" for a
    using that assms(3) by (auto simp: F)
  note fr = bucket_frame [OF ch rest same]
  have new: "chain_ok ?st ([e] # c)" "chain_key ?st ([e] # c) = chain_key st c"
  proof -
    show "chain_ok ?st ([e] # c)"
      by (rule chain_ok_Cons) (use fr [of c] assms(2,4) bn(3) in \<open>simp_all add: F fresh_def\<close>)
    show "chain_key ?st ([e] # c) = chain_key st c" using assms(4) by (simp add: chain_key_def F)
  qed
  show ?thesis
  proof (rule bucket_okI)
    show "buckets ?st h = first (heads (xs @ ([e] # c) # ys)) None"
      using b by (cases xs; cases "heads xs" rule: rev_cases) (auto simp: F)
    have ne: "a \<noteq> ?b" "a \<noteq> e" if "a \<in> set (?hx @ ?hy)" for a using bn that by metis+
    have "lseg (m_next ?st) (?hx @ e # ?hy) None"
      by (rule lseg_replace [OF links(1) hm(1) e]) (use ne bn(3) in \<open>simp_all add: F\<close>)
    then show "lseg (m_next ?st) (heads (xs @ ([e] # c) # ys)) None" by simp
    have "distinct (rev ?hy @ ?b # rev ?hx)" "e \<notin> set (rev ?hy @ ?b # rev ?hx)" using hm(1) e by auto
    then have "lseg (m_prev ?st) (rev ?hy @ e # rev ?hx) None"
      by (rule lseg_replace [OF links(2)]) (use ne bn(3) in \<open>auto simp: F\<close>)
    then show "lseg (m_prev ?st) (rev (heads (xs @ ([e] # c) # ys))) None" by simp
    show "distinct (map (chain_key ?st) (xs @ ([e] # c) # ys))"
      using b fr(2) new(2) by (auto cong: map_cong)
  qed (use b fr new assms(3,5) F in auto)
qed


lemma overload_ok:
  assumes ok: "bucket_ok st h (xs @ (s # ss) # ys)" and "fresh st e" "e \<notin> set (members (xs @ (s # ss) # ys))"
    and "chain_key st (s # ss) = key_of st e" "hash (prime st) (key_of st e) = h"
  shows "bucket_ok (overload st e (last s)) h (xs @ ((s @ [e]) # ss) # ys)"
proof -
  let ?cs = "xs @ (s # ss) # ys" and ?st = "overload st e (last s)"
  note b = ok [unfolded bucket_ok_def]
  have F: "m_next ?st = m_next st" "m_prev ?st = m_prev st" "m_outer ?st = m_outer st" "key_of ?st = key_of st"
    "prime ?st = prime st" "buckets ?st = buckets st" "over_next ?st = (over_next st)(last s := Some e)"
    by (simp_all add: overload_def)
  have ch: "\<forall>c \<in> set ?cs. chain_ok st c" "distinct (members ?cs)" using b by blast+
  have c: "chain_ok st (s # ss)" "s \<noteq> []" using ch(1) by (simp, force simp: chain_ok_def)
  then have ls: "last s \<in> set s" by simp
  have d: "set s \<inter> set (members (xs @ [ss] @ ys)) = {}" "distinct s" using ch(2) by auto
  have key: "chain_key ?st d = chain_key st d" for d by (simp add: chain_key_def F)
  have other: "chain_ok ?st d" if "d \<in> set (xs @ ys)" for d
  proof -
    have "set (cells d) \<subseteq> set (members (xs @ ys))" using that by (rule chain_members)
    with d(1) ls have l: "last s \<notin> set (cells d)" by auto
    have "chain_ok st d" using ch(1) that by simp
    then show ?thesis by (rule chain_ok_cong(1)) (use l in \<open>auto simp: F\<close>)
  qed
  have "lseg (over_next ?st) (s @ [e]) None"
    using c d(2) assms(2,3) by (cases s rule: rev_cases) (simp_all add: overload_def chain_ok_def fresh_def)
  moreover have "lseg (over_next ?st) t None" if "t \<in> set ss" for t
  proof -
    have "set t \<subseteq> set (cells ss)" using that by (rule scope_cells)
    with d(1) ls have "last s \<notin> set t" by auto
    with c(1) that show ?thesis by (simp add: F chain_ok_def)
  qed
  ultimately have segs: "\<forall>t \<in> set ((s @ [e]) # ss). lseg (over_next ?st) t None" by simp
  have hd: "hd (s @ [e]) = hd s" using c(2) by simp
  have new: "chain_key ?st ((s @ [e]) # ss) = chain_key st (s # ss)" using hd by (simp add: chain_key_def F)
  have "\<forall>a \<in> set (cells (s # ss)). key_of st a = chain_key st (s # ss)" using c(1) unfolding chain_ok_def by blast
  then have "\<forall>a \<in> set (cells ((s @ [e]) # ss)). key_of ?st a = chain_key ?st ((s @ [e]) # ss)"
    unfolding new F assms(4) by simp
  moreover have "lseg (m_outer ?st) (map hd ((s @ [e]) # ss)) None" "[] \<notin> set ((s @ [e]) # ss)"
    "\<forall>t \<in> set (tl ((s @ [e]) # ss)). m_next ?st (hd t) = None \<and> m_prev ?st (hd t) = None"
    using c(1) hd by (simp_all add: chain_ok_def F)
  ultimately have ok': "chain_ok ?st ((s @ [e]) # ss)" using segs unfolding chain_ok_def by blast
  have hs: "heads (xs @ ((s @ [e]) # ss) # ys) = heads ?cs" using hd by simp
  have ks: "map (chain_key ?st) (xs @ ((s @ [e]) # ss) # ys) = map (chain_key st) ?cs"
    using key new by simp
  show ?thesis
  proof (rule bucket_okI)
    show "distinct (map (chain_key ?st) (xs @ ((s @ [e]) # ss) # ys))" unfolding ks using b by blast
    fix d assume "d \<in> set (xs @ ((s @ [e]) # ss) # ys)"
    then show "chain_ok ?st d" using other ok' by auto
  next
    show "distinct (members (xs @ ((s @ [e]) # ss) # ys))" using ch(2) assms(3) by auto
    fix a assume "a \<in> set (members (xs @ ((s @ [e]) # ss) # ys))"
    then have "a = e \<or> a \<in> set (members ?cs)" by auto
    then show "hash (prime ?st) (key_of ?st a) = h" using b assms(5) unfolding F by blast
  qed (use b in \<open>simp_all only: hs F\<close>)
qed

lemma first_ok:
  assumes "bucket_ok st h []" "fresh st e" "hash (prime st) (key_of st e) = h"
  shows "bucket_ok (st\<lparr>buckets := (buckets st)(h := Some e)\<rparr>) h [[[e]]]"
  using assms by (auto simp: bucket_ok_def chain_ok_def chain_key_def fresh_def)

lemma first_notin: "a \<notin> set xs \<Longrightarrow> first xs None \<noteq> Some a" "a \<notin> set xs \<Longrightarrow> first (rev xs) None \<noteq> Some a"
  by (cases xs, auto, cases xs rule: rev_cases, auto)

section \<open>The whole table\<close>

text \<open>What an operation on one bucket leaves alone.\<close>

definition frame :: "symtab \<Rightarrow> symtab \<Rightarrow> taddr set \<Rightarrow> nat \<Rightarrow> bool" where
  "frame st st' S h \<longleftrightarrow>
     prime st' = prime st \<and> key_of st' = key_of st \<and> entry_of st' = entry_of st \<and> sentries st' = sentries st \<and> owned st' = owned st
     \<and> (\<forall>k. k \<noteq> h \<longrightarrow> buckets st' k = buckets st k)
     \<and> (\<forall>a. a \<notin> S \<longrightarrow> m_next st' a = m_next st a \<and> m_prev st' a = m_prev st a
            \<and> m_outer st' a = m_outer st a \<and> over_next st' a = over_next st a)"

lemma remove_scope_fields:
  assumes "m_prev st e = p" "m_next st e = n" "d \<noteq> e" "p \<noteq> Some e" "n \<noteq> Some e" "p \<noteq> Some d" "n \<noteq> Some d"
    and "p = None \<longrightarrow> buckets st (hash (prime st) (key_of st e)) = Some e"
  shows "\<exists>st'. remove_scope st e d = Some st'
    \<and> m_next st' = (relink (m_next st) p (Some d))(d := n) \<and> m_prev st' = (relink (m_prev st) n (Some d))(d := p)
    \<and> buckets st' = (if p = None then (buckets st)(hash (prime st) (key_of st e) := Some d) else buckets st)
    \<and> m_outer st' = m_outer st \<and> over_next st' = over_next st \<and> key_of st' = key_of st \<and> prime st' = prime st
    \<and> entry_of st' = entry_of st \<and> sentries st' = sentries st \<and> owned st' = owned st"
  using assms
  by (cases p; cases n) (simp_all add: remove_scope_def set_prev_def Let_def relink_def fun_upd_twist)

lemma remove_bucket_fields:
  assumes "m_prev st e = p" "m_next st e = n" "p \<noteq> Some e" "n \<noteq> Some e"
    and "p = None \<longrightarrow> buckets st (hash (prime st) (key_of st e)) = Some e"
  shows "\<exists>st'. remove_bucket st e = Some st'
    \<and> m_next st' = relink (m_next st) p n \<and> m_prev st' = relink (m_prev st) n p
    \<and> buckets st' = (if p = None then (buckets st)(hash (prime st) (key_of st e) := n) else buckets st)
    \<and> m_outer st' = m_outer st \<and> over_next st' = over_next st \<and> key_of st' = key_of st \<and> prime st' = prime st
    \<and> entry_of st' = entry_of st \<and> sentries st' = sentries st \<and> owned st' = owned st"
  using assms
  by (cases p; cases n) (simp_all add: remove_bucket_def set_prev_def Let_def relink_def)

lemma relink_other: "p \<noteq> Some a \<Longrightarrow> relink f p v a = f a"
  by (cases p) (auto simp: relink_def)

lemma remove_scope_ok:
  assumes ok: "bucket_ok st h (xs @ ([e] # c) # ys)" and c: "c \<noteq> []"
  shows "\<exists>st'. remove_scope st e (hd (hd c)) = Some st' \<and> bucket_ok st' h (xs @ c # ys)
    \<and> frame st st' (set (members (xs @ ([e] # c) # ys))) h"
proof -
  let ?cs = "xs @ ([e] # c) # ys" and ?d = "hd (hd c)" and ?hx = "heads xs" and ?hy = "heads ys"
  note b = ok [unfolded bucket_ok_def]
  have ch: "\<forall>c \<in> set ?cs. chain_ok st c" "distinct (members ?cs)" using b by blast+
  have cok: "chain_ok st c" "chain_key st ([e] # c) = chain_key st c" using chain_ok_tl [of st e c] ch c by simp_all
  have hm: "distinct (?hx @ e # ?hy)" using distinct_heads [OF ch] by simp
  have hs: "set ?hx \<subseteq> set (members xs)" "set ?hy \<subseteq> set (members ys)"
    using ch by (intro heads_members [of _ st]; simp)+
  have dc: "?d \<in> set (cells c)" using cok(1) by (rule head_member)
  have d: "?d \<notin> set (?hx @ e # ?hy)" using dc hs ch(2) by auto
  have links: "lseg (m_next st) (?hx @ e # ?hy) None" "lseg (m_prev st) (rev ?hy @ e # rev ?hx) None"
    using b by simp_all
  have hash: "hash (prime st) (key_of st e) = h" using b by simp
  have p: "m_prev st e = first (rev ?hx) None" and n: "m_next st e = first ?hy None"
    using lseg_at [OF links(1)] lseg_at [OF links(2)] by simp_all
  have eh: "e \<notin> set ?hx" "e \<notin> set ?hy" "?d \<noteq> e" "?d \<notin> set ?hx" "?d \<notin> set ?hy" using hm d by auto
  have bk: "first (rev ?hx) None = None \<longrightarrow> buckets st (hash (prime st) (key_of st e)) = Some e"
    using b hash by (cases ?hx rule: rev_cases) auto
  obtain st' where st': "remove_scope st e ?d = Some st'"
    and F: "m_next st' = (relink (m_next st) (first (rev ?hx) None) (Some ?d))(?d := first ?hy None)"
      "m_prev st' = (relink (m_prev st) (first ?hy None) (Some ?d))(?d := first (rev ?hx) None)"
      "buckets st' = (if first (rev ?hx) None = None then (buckets st)(h := Some ?d) else buckets st)"
      "m_outer st' = m_outer st" "over_next st' = over_next st" "key_of st' = key_of st" "prime st' = prime st"
      "entry_of st' = entry_of st" "sentries st' = sentries st" "owned st' = owned st"
    using remove_scope_fields [OF p n eh(3) first_notin(2) [OF eh(1)] first_notin(1) [OF eh(2)]
        first_notin(2) [OF eh(4)] first_notin(1) [OF eh(5)] bk] unfolding hash by blast
  have same: "m_next st' a = m_next st a \<and> m_prev st' a = m_prev st a" if "a \<notin> set ?hx" "a \<notin> set ?hy" "a \<noteq> ?d" for a
    using first_notin [of a ?hx] first_notin [of a ?hy] that by (simp add: F relink_other)
  have "chain_ok st' c"
  proof (rule chain_ok_cong(1) [OF cok(1)])
    fix a assume a: "a \<in> set (map hd (tl c))"
    have "a \<noteq> ?d" "a \<in> set (cells c)" using head_only [OF cok(1) _ a] ch(2) by auto
    with hs ch(2) show "m_next st' a = m_next st a \<and> m_prev st' a = m_prev st a" by (intro same) auto
  qed (simp add: F)
  moreover have "chain_ok st' x" if "x \<in> set (xs @ ys)" for x
  proof (rule bucket_frame(1) [of "xs @ ys" st])
    fix a assume "a \<in> set (members (xs @ ys)) - set (heads (xs @ ys))"
    with dc ch(2) show "m_next st' a = m_next st a \<and> m_prev st' a = m_prev st a" by (intro same) auto
  qed (use ch that F in auto)
  ultimately have chains: "chain_ok st' x" if "x \<in> set (xs @ c # ys)" for x using that by auto
  have keys: "chain_key st' x = chain_key st x" for x by (simp add: chain_key_def F)
  have "bucket_ok st' h (xs @ c # ys)"
  proof (rule bucket_okI)
    show "buckets st' h = first (heads (xs @ c # ys)) None"
      using b by (cases xs; cases "heads xs" rule: rev_cases) (auto simp: F)
    have ne: "a \<noteq> ?d" if "a \<in> set (?hx @ ?hy)" for a using d that by auto
    have "lseg (m_next st') (?hx @ ?d # ?hy) None"
      by (rule lseg_replace [OF links(1) hm d]) (use ne in \<open>simp_all add: F\<close>)
    then show "lseg (m_next st') (heads (xs @ c # ys)) None" by simp
    have "distinct (rev ?hy @ e # rev ?hx)" "?d \<notin> set (rev ?hy @ e # rev ?hx)" using hm d by auto
    then have "lseg (m_prev st') (rev ?hy @ ?d # rev ?hx) None"
      by (rule lseg_replace [OF links(2)]) (use ne in \<open>auto simp: F\<close>)
    then show "lseg (m_prev st') (rev (heads (xs @ c # ys))) None" by simp
    show "distinct (map (chain_key st') (xs @ c # ys))"
      using b keys cok(2) by (simp cong: map_cong)
  qed (use b chains F in auto)
  moreover have "frame st st' (set (members ?cs)) h"
  proof -
    have "m_next st' a = m_next st a \<and> m_prev st' a = m_prev st a" if "a \<notin> set (members ?cs)" for a
      using that hs dc by (intro same) auto
    then show ?thesis by (simp add: frame_def F)
  qed
  ultimately show ?thesis using st' by blast
qed

lemma remove_bucket_ok:
  assumes ok: "bucket_ok st h (xs @ [[e]] # ys)"
  shows "\<exists>st'. remove_bucket st e = Some st' \<and> bucket_ok st' h (xs @ ys)
    \<and> frame st st' (set (members (xs @ [[e]] # ys))) h"
proof -
  let ?cs = "xs @ [[e]] # ys" and ?hx = "heads xs" and ?hy = "heads ys"
  note b = ok [unfolded bucket_ok_def]
  have ch: "\<forall>c \<in> set ?cs. chain_ok st c" "distinct (members ?cs)" using b by blast+
  have hm: "distinct (?hx @ e # ?hy)" using distinct_heads [OF ch] by simp
  have links: "lseg (m_next st) (?hx @ e # ?hy) None" "lseg (m_prev st) (rev ?hy @ e # rev ?hx) None"
    using b by simp_all
  have hash: "hash (prime st) (key_of st e) = h" using b by simp
  have p: "m_prev st e = first (rev ?hx) None" and n: "m_next st e = first ?hy None"
    using lseg_at [OF links(1)] lseg_at [OF links(2)] by simp_all
  have eh: "e \<notin> set ?hx" "e \<notin> set ?hy" using hm by auto
  have bk: "first (rev ?hx) None = None \<longrightarrow> buckets st (hash (prime st) (key_of st e)) = Some e"
    using b hash by (cases ?hx rule: rev_cases) auto
  obtain st' where st': "remove_bucket st e = Some st'"
    and F: "m_next st' = relink (m_next st) (first (rev ?hx) None) (first ?hy None)"
      "m_prev st' = relink (m_prev st) (first ?hy None) (first (rev ?hx) None)"
      "buckets st' = (if first (rev ?hx) None = None then (buckets st)(h := first ?hy None) else buckets st)"
      "m_outer st' = m_outer st" "over_next st' = over_next st" "key_of st' = key_of st" "prime st' = prime st"
      "entry_of st' = entry_of st" "sentries st' = sentries st" "owned st' = owned st"
    using remove_bucket_fields [OF p n first_notin(2) [OF eh(1)] first_notin(1) [OF eh(2)] bk] unfolding hash by blast
  have same: "m_next st' a = m_next st a \<and> m_prev st' a = m_prev st a" if "a \<notin> set ?hx" "a \<notin> set ?hy" for a
    using first_notin [of a ?hx] first_notin [of a ?hy] that by (simp add: F relink_other)
  have chains: "chain_ok st' x" if "x \<in> set (xs @ ys)" for x
  proof (rule bucket_frame(1) [of "xs @ ys" st])
    fix a assume "a \<in> set (members (xs @ ys)) - set (heads (xs @ ys))"
    then show "m_next st' a = m_next st a \<and> m_prev st' a = m_prev st a" by (intro same) auto
  qed (use ch that F in auto)
  have keys: "chain_key st' x = chain_key st x" for x by (simp add: chain_key_def F)
  have "bucket_ok st' h (xs @ ys)"
  proof (rule bucket_okI)
    show "buckets st' h = first (heads (xs @ ys)) None"
      using b by (cases xs; cases "heads xs" rule: rev_cases) (auto simp: F)
    show "lseg (m_next st') (heads (xs @ ys)) None"
      using lseg_relink(3) [OF links(1) hm] eh by (simp add: F)
    have "distinct (rev ?hy @ e # rev ?hx)" using hm by auto
    from lseg_relink(3) [OF links(2) this] eh
    show "lseg (m_prev st') (rev (heads (xs @ ys))) None" by (simp add: F)
    show "distinct (map (chain_key st') (xs @ ys))"
      using b keys by (simp cong: map_cong)
  qed (use b chains F in auto)
  moreover have "set ?hx \<subseteq> set (members xs)" "set ?hy \<subseteq> set (members ys)"
    using ch by (intro heads_members [of _ st]; simp)+
  then have "m_next st' a = m_next st a \<and> m_prev st' a = m_prev st a" if "a \<notin> set (members ?cs)" for a
    using that by (intro same) auto
  then have "frame st st' (set (members ?cs)) h" by (simp add: frame_def F)
  ultimately show ?thesis using st' by blast
qed

definition table_ok :: "symtab \<Rightarrow> (nat \<Rightarrow> chain list) \<Rightarrow> bool" where
  "table_ok st g \<longleftrightarrow> (\<forall>h. bucket_ok st h (g h))"

lemma frame_mono: "frame st st' S h \<Longrightarrow> S \<subseteq> T \<Longrightarrow> frame st st' T h"
  unfolding frame_def by blast

lemma append_frame: "frame st (append_entry st e b) {e, b} h"
  by (simp add: frame_def append_entry_def)

lemma overload_frame: "frame st (overload st e l) {l} h"
  by (simp add: frame_def overload_def)

lemma push_frame:
  "frame st (push_scope st h e b) ({e, b} \<union> set_option (m_prev st b) \<union> set_option (m_next st b)) h"
  by (cases "m_prev st b"; cases "m_next st b") (auto simp: frame_def push_scope_def Let_def split: option.splits)

lemma bucket_other:
  assumes "bucket_ok st k cs" "frame st st' S h" "k \<noteq> h" "S \<inter> set (members cs) = {}"
  shows "bucket_ok st' k cs"
proof -
  note b = assms(1) [unfolded bucket_ok_def]
  have fr: "m_next st' a = m_next st a" "m_prev st' a = m_prev st a" "m_outer st' a = m_outer st a"
    "over_next st' a = over_next st a" if "a \<in> set (members cs)" for a
    using assms(2,4) that unfolding frame_def by blast+
  have st: "prime st' = prime st" "key_of st' = key_of st" "buckets st' k = buckets st k"
    using assms(2,3) by (simp_all add: frame_def)
  have ch: "\<forall>c \<in> set cs. chain_ok st c" "distinct (members cs)" using b by blast+
  have hs: "set (heads cs) \<subseteq> set (members cs)" by (rule heads_members [OF ch(1)])
  have chains: "chain_ok st' c" "chain_key st' c = chain_key st c" if "c \<in> set cs" for c
    using bucket_frame [OF ch, of st' c] fr st that by simp_all
  have "lseg (m_next st') (heads cs) None = lseg (m_next st) (heads cs) None"
    using hs fr by (intro lseg_cong) blast
  moreover have "lseg (m_prev st') (rev (heads cs)) None = lseg (m_prev st) (rev (heads cs)) None"
    using hs fr by (intro lseg_cong) auto
  moreover have "distinct (map (chain_key st') cs)" using b chains(2) by (metis map_cong)
  ultimately show ?thesis using b chains(1) st unfolding bucket_ok_def by auto
qed

lemma member_bucket: "table_ok st g \<Longrightarrow> a \<in> set (members (g k)) \<Longrightarrow> hash (prime st) (key_of st a) = k"
  by (auto simp: table_ok_def bucket_ok_def)

lemma table_ok_update:
  assumes "table_ok st g" "frame st st' S h" "S \<subseteq> insert e (set (members (g h)))"
    and "\<forall>k. k \<noteq> h \<longrightarrow> e \<notin> set (members (g k))" "bucket_ok st' h cs"
  shows "table_ok st' (g(h := cs))"
proof -
  have "bucket_ok st' k (g k)" if "k \<noteq> h" for k
  proof (rule bucket_other [OF _ assms(2) that])
    show "bucket_ok st k (g k)" using assms(1) by (simp add: table_ok_def)
    show "S \<inter> set (members (g k)) = {}"
      using assms(3,4) that member_bucket [OF assms(1)] by blast
  qed
  with assms(5) show ?thesis by (simp add: table_ok_def)
qed

lemma find_replace:
  "distinct (map K (xs @ c # ys)) \<Longrightarrow> K c' = K c \<Longrightarrow>
   find (\<lambda>d. K d = k) (xs @ c' # ys) = (if k = K c then Some c' else find (\<lambda>d. K d = k) (xs @ c # ys))"
  by (induction xs) auto

lemma find_snoc:
  "K c \<notin> K ` set xs \<Longrightarrow> find (\<lambda>d. K d = k) (xs @ [c]) = (if k = K c then Some c else find (\<lambda>d. K d = k) xs)"
  by (induction xs) auto

lemma find_drop:
  "distinct (map K (xs @ c # ys)) \<Longrightarrow>
   find (\<lambda>d. K d = k) (xs @ ys) = (if k = K c then None else find (\<lambda>d. K d = k) (xs @ c # ys))"
proof (induction xs)
  case Nil
  then have "K c \<notin> K ` set ys" by simp
  then have "find (\<lambda>d. K d = K c) ys = None" unfolding find_None_iff by (metis image_eqI)
  then show ?case by simp
qed auto

definition scopes :: "symtab \<Rightarrow> (nat \<Rightarrow> chain list) \<Rightarrow> string \<Rightarrow> chain" where
  "scopes st g key = (case find (\<lambda>c. chain_key st c = key) (g (hash (prime st) key)) of None \<Rightarrow> [] | Some c \<Rightarrow> c)"

lemma scopes_frame:
  assumes "frame st st' S h"
  shows "scopes st' g = scopes st g"
  using assms by (simp add: scopes_def [abs_def] chain_key_def frame_def)

lemma scopes_update:
  assumes "\<And>k. hash (prime st) k = h \<Longrightarrow> find (\<lambda>d. chain_key st d = k) cs
      = (if k = key then if c = [] then None else Some c else find (\<lambda>d. chain_key st d = k) (g h))"
    and "hash (prime st) key = h"
  shows "scopes st (g(h := cs)) = (scopes st g)(key := c)"
  using assms by (auto simp: scopes_def fun_eq_iff)

lemma scopes_found:
  assumes "table_ok st g" "scopes st g key = c" "c \<noteq> []"
  obtains xs ys where "g (hash (prime st) key) = xs @ c # ys" "chain_key st c = key"
proof -
  have "find (\<lambda>c. chain_key st c = key) (g (hash (prime st) key)) = Some c"
    using assms(2,3) by (auto simp: scopes_def split: option.splits)
  then have "c \<in> set (g (hash (prime st) key))" "chain_key st c = key" by (auto simp: find_Some_iff)
  with that show thesis by (meson split_list)
qed

lemma scopes_empty:
  assumes "table_ok st g" "scopes st g key = []"
  shows "\<forall>c \<in> set (g (hash (prime st) key)). chain_key st c \<noteq> key"
proof -
  have "find (\<lambda>c. chain_key st c = key) (g (hash (prime st) key)) = None"
  proof (rule ccontr)
    assume "find (\<lambda>c. chain_key st c = key) (g (hash (prime st) key)) \<noteq> None"
    then obtain c where c: "find (\<lambda>c. chain_key st c = key) (g (hash (prime st) key)) = Some c" by auto
    then have "c \<in> set (g (hash (prime st) key))" by (auto simp: find_Some_iff)
    with assms(1) have "c \<noteq> []" by (auto simp: table_ok_def bucket_ok_def chain_ok_def)
    with c assms(2) show False by (simp add: scopes_def)
  qed
  then show ?thesis by (auto simp: find_None_iff)
qed

definition scope_insert :: "(taddr \<Rightarrow> taddr \<Rightarrow> bool) \<Rightarrow> taddr \<Rightarrow> chain \<Rightarrow> chain" where
  "scope_insert same e c =
     (if c = [] then [[e]] else if same (hd (hd c)) e then (hd c @ [e]) # tl c else [e] # c)"

lemma table_ok_owned [simp]: "table_ok (st\<lparr>owned := x\<rparr>) g = table_ok st g"
  by (simp add: table_ok_def bucket_ok_def chain_ok_def chain_key_def [abs_def])

lemma table_ok_deleted [simp]: "table_ok (st\<lparr>deleted := x\<rparr>) g = table_ok st g"
  by (simp add: table_ok_def bucket_ok_def chain_ok_def chain_key_def [abs_def])

lemma chain_key_frame: "frame st st' S h \<Longrightarrow> chain_key st' = chain_key st"
  by (simp add: chain_key_def [abs_def] frame_def)


text \<open>What entering \<open>e\<close> has to reach.\<close>

definition entered :: "symtab \<Rightarrow> (nat \<Rightarrow> chain list) \<Rightarrow> nat \<Rightarrow> taddr \<Rightarrow> symtab \<Rightarrow> chain list \<Rightarrow> bool" where
  "entered st g h e st' cs \<longleftrightarrow> bucket_ok st' h cs \<and> frame st st' (insert e (set (members (g h)))) h
     \<and> scopes st (g(h := cs)) = (scopes st g)(key_of st e := scope_insert (same_scope st) e (scopes st g (key_of st e)))"

lemma scopes_new:
  assumes "table_ok st g" "scopes st g (key_of st e) = []" "h = hash (prime st) (key_of st e)"
  shows "scopes st (g(h := g h @ [[[e]]])) = (scopes st g)(key_of st e := scope_insert (same_scope st) e (scopes st g (key_of st e)))"
proof -
  have "chain_key st [[e]] \<notin> chain_key st ` set (g h)"
    using scopes_empty [OF assms(1,2)] assms(3) by (auto simp: chain_key_def)
  then have "scopes st (g(h := g h @ [[[e]]])) = (scopes st g)(key_of st e := [[e]])"
    using assms(3) by (intro scopes_update) (simp_all add: find_snoc, simp add: chain_key_def)
  then show ?thesis by (simp add: scope_insert_def assms(2))
qed

lemma scopes_replace:
  assumes "distinct (map (chain_key st) (g h))" "g h = xs @ c # ys" "chain_key st c = key" "h = hash (prime st) key"
    and "chain_key st d = key" "d \<noteq> []"
  shows "scopes st (g(h := xs @ d # ys)) = (scopes st g)(key := d)"
proof (rule scopes_update)
  fix k
  show "find (\<lambda>x. chain_key st x = k) (xs @ d # ys) = (if k = key then if d = [] then None else Some d
     else find (\<lambda>x. chain_key st x = k) (g h))"
    using find_replace [of "chain_key st" xs c ys d k] assms by simp
qed (use assms(4) in simp)

lemma enter_new_name:
  assumes ok: "table_ok st g" and f: "fresh st e" and new: "e \<notin> set (members (g h))"
    and h: "h = hash (prime st) (key_of st e)" and nil: "scopes st g (key_of st e) = []"
  shows "g h = [] \<Longrightarrow> entered st g h e (st\<lparr>buckets := (buckets st)(h := Some e)\<rparr>) (g h @ [[[e]]])"
    and "g h \<noteq> [] \<Longrightarrow> entered st g h e (append_entry st e (last (heads (g h)))) (g h @ [[[e]]])"
proof -
  have b: "bucket_ok st h (g h)" using ok by (simp add: table_ok_def)
  have sc: "scopes st (g(h := g h @ [[[e]]])) = (scopes st g)(key_of st e := scope_insert (same_scope st) e (scopes st g (key_of st e)))"
    by (rule scopes_new [OF ok nil h])
  show "entered st g h e (st\<lparr>buckets := (buckets st)(h := Some e)\<rparr>) (g h @ [[[e]]])" if "g h = []"
    unfolding entered_def
  proof (intro conjI)
    show "bucket_ok (st\<lparr>buckets := (buckets st)(h := Some e)\<rparr>) h (g h @ [[[e]]])"
      using first_ok [OF b [unfolded that] f h [symmetric]] that by simp
    show "frame st (st\<lparr>buckets := (buckets st)(h := Some e)\<rparr>) (insert e (set (members (g h)))) h"
      by (simp add: frame_def)
  qed (rule sc)
  assume ne: "g h \<noteq> []"
  have nk: "\<forall>c \<in> set (g h). chain_key st c \<noteq> key_of st e" using scopes_empty [OF ok nil] h by simp
  have "\<forall>c \<in> set (g h). chain_ok st c" using b unfolding bucket_ok_def by blast
  then have hs: "set (heads (g h)) \<subseteq> set (members (g h))" by (rule heads_members)
  have "last (heads (g h)) \<in> set (heads (g h))" using ne by (intro last_in_set) simp
  then show "entered st g h e (append_entry st e (last (heads (g h)))) (g h @ [[[e]]])"
    unfolding entered_def using hs sc append_ok [OF b ne f new nk h [symmetric]]
    by (intro conjI frame_mono [OF append_frame]; blast)
qed

lemma enter_known_name:
  assumes ok: "table_ok st g" and f: "fresh st e" and new: "e \<notin> set (members (g h))"
    and h: "h = hash (prime st) (key_of st e)" and g: "g h = xs @ (s # ss) # ys"
    and ck: "scopes st g (key_of st e) = s # ss" "chain_key st (s # ss) = key_of st e"
  shows "same_scope st (hd s) e \<Longrightarrow> entered st g h e (overload st e (last s)) (xs @ ((s @ [e]) # ss) # ys)"
    and "\<not> same_scope st (hd s) e \<Longrightarrow> entered st g h e (push_scope st h e (hd s)) (xs @ ([e] # s # ss) # ys)"
proof -
  have b: "bucket_ok st h (xs @ (s # ss) # ys)" using ok g by (metis table_ok_def)
  note bo = b [unfolded bucket_ok_def]
  have chs: "\<forall>c \<in> set (xs @ (s # ss) # ys). chain_ok st c" using bo by blast
  have d: "distinct (map (chain_key st) (g h))" using bo unfolding g by blast
  have hs: "set (heads (xs @ (s # ss) # ys)) \<subseteq> set (members (g h))" unfolding g by (rule heads_members [OF chs])
  have s: "s \<noteq> []" using chs by (auto simp: chain_ok_def)
  have e: "e \<notin> set (members (xs @ (s # ss) # ys))" using new g by simp
  note rep = scopes_replace [where st = st and g = g and h = h, OF d g ck(2) h]
  show "entered st g h e (overload st e (last s)) (xs @ ((s @ [e]) # ss) # ys)" if same: "same_scope st (hd s) e"
    unfolding entered_def
  proof (intro conjI)
    show "bucket_ok (overload st e (last s)) h (xs @ ((s @ [e]) # ss) # ys)"
      by (rule overload_ok [OF b f e ck(2) h [symmetric]])
    show "frame st (overload st e (last s)) (insert e (set (members (g h)))) h"
      using s g by (intro frame_mono [OF overload_frame]) auto
    have "chain_key st ((s @ [e]) # ss) = key_of st e" using ck(2) s by (simp add: chain_key_def)
    then show "scopes st (g(h := xs @ ((s @ [e]) # ss) # ys))
        = (scopes st g)(key_of st e := scope_insert (same_scope st) e (scopes st g (key_of st e)))"
      using same ck(1) by (subst rep) (simp_all add: scope_insert_def)
  qed
  show "entered st g h e (push_scope st h e (hd s)) (xs @ ([e] # s # ss) # ys)" if other: "\<not> same_scope st (hd s) e"
    unfolding entered_def
  proof (intro conjI)
    show "bucket_ok (push_scope st h e (hd s)) h (xs @ ([e] # s # ss) # ys)"
      using push_ok [OF b f e ck(2) h [symmetric]] by simp
    show "frame st (push_scope st h e (hd s)) (insert e (set (members (g h)))) h"
    proof (rule frame_mono [OF push_frame])
      have "m_prev st (hd s) = first (rev (heads xs)) None" "m_next st (hd s) = first (heads ys) None"
        using bo by simp_all
      moreover have "set_option (first (rev (heads xs)) None) \<subseteq> set (heads xs)" "set_option (first (heads ys) None) \<subseteq> set (heads ys)"
        using first_notin by fastforce+
      ultimately show "{e, hd s} \<union> set_option (m_prev st (hd s)) \<union> set_option (m_next st (hd s)) \<subseteq> insert e (set (members (g h)))"
        using hs by (simp del: set_map) blast
    qed
    have "chain_key st ([e] # s # ss) = key_of st e" by (simp add: chain_key_def)
    then show "scopes st (g(h := xs @ ([e] # s # ss) # ys))
        = (scopes st g)(key_of st e := scope_insert (same_scope st) e (scopes st g (key_of st e)))"
      using other ck(1) by (subst rep) (simp_all add: scope_insert_def)
  qed
qed

lemma enter_bucket:
  assumes ok: "table_ok st g" and f: "fresh st e" and new: "e \<notin> set (members (g h))"
    and h: "h = hash (prime st) (key_of st e)"
  shows "\<exists>st' cs. (case buckets st h of None \<Rightarrow> Some (st\<lparr>buckets := (buckets st)(h := Some e)\<rparr>)
                | Some bucket \<Rightarrow> enter_loop st h e bucket) = Some st' \<and> entered st g h e st' cs"
    (is "\<exists>st' cs. ?ent = Some st' \<and> _")
proof -
  have b: "bucket_ok st h (g h)" using ok by (simp add: table_ok_def)
  note bo = b [unfolded bucket_ok_def]
  have hd: "buckets st h = first (heads (g h)) None" "lseg (m_next st) (heads (g h)) None"
    "distinct (map (chain_key st) (g h))" using bo by blast+
  have walk: "?ent = (case find (\<lambda>c. chain_key st c = key_of st e) (g h) of
       Some c \<Rightarrow> matched st h e (hd (hd c)) | None \<Rightarrow> Some (append_entry st e (last (heads (g h)))))" if "g h \<noteq> []"
    using enter_walk [OF hd(2) that, of h e] that hd(1) by (cases "g h") simp_all
  show ?thesis
  proof (cases "scopes st g (key_of st e)")
    case Nil
    have "find (\<lambda>c. chain_key st c = key_of st e) (g h) = None"
      using scopes_empty [OF ok Nil] h by (simp add: find_None_iff)
    then show ?thesis using enter_new_name [OF ok f new h Nil] walk hd(1) by (cases "g h = []") auto
  next
    case (Cons s ss)
    obtain xs ys where g: "g h = xs @ (s # ss) # ys" and ck: "chain_key st (s # ss) = key_of st e"
      using scopes_found [OF ok Cons] h by auto
    have "chain_ok st (s # ss)" using bo unfolding g by simp
    then have s: "s \<noteq> []" and "lseg (over_next st) s None" by (auto simp: chain_ok_def)
    then have seg: "lseg (over_next st) (hd s # tl s) None" by simp
    have fc: "find (\<lambda>d. chain_key st d = key_of st e) (g h) = Some (s # ss)"
      using find_replace [of "chain_key st" xs "s # ss" ys "s # ss" "key_of st e"] hd(3) ck g by simp
    have ent: "?ent = matched st h e (hd s)" using walk fc g by simp
    have "last_overloaded st (hd s) = Some (last s)" using last_overloaded_walk [OF seg] s by simp
    then show ?thesis using enter_known_name [OF ok f new h g Cons ck]
      by (cases "same_scope st (hd s) e") (auto simp: ent matched_def)
  qed
qed

section \<open>The abstract table\<close>

text \<open>A table holds, for every name, the scopes of that name.\<close>

definition represents :: "(string \<Rightarrow> chain) \<Rightarrow> symtab \<Rightarrow> bool" where
  "represents A st \<longleftrightarrow> (\<exists>g. table_ok st g \<and> A = scopes st g)"

lemma members_chain: "a \<in> set (members cs) \<Longrightarrow> \<exists>c \<in> set cs. a \<in> set (cells c)"
  by (induction cs) auto

lemma scopes_chain:
  assumes "table_ok st g" "c \<in> set (g k)"
  shows "scopes st g (chain_key st c) = c"
proof -
  note b = assms(1) [unfolded table_ok_def bucket_ok_def, rule_format, of k]
  have "hd (hd c) \<in> set (members (g k))"
    using b assms(2) head_member [of st c] chain_members [OF assms(2)] by blast
  then have "hash (prime st) (chain_key st c) = k" using member_bucket [OF assms(1)] by (simp add: chain_key_def)
  moreover obtain xs ys where "g k = xs @ c # ys" using assms(2) by (meson split_list)
  ultimately show ?thesis
    using find_replace [of "chain_key st" xs c ys c "chain_key st c"] b by (simp add: scopes_def)
qed

lemma outside_members:
  assumes "table_ok st g" "\<forall>key. e \<notin> set (cells (scopes st g key))"
  shows "e \<notin> set (members (g k))"
  using assms members_chain scopes_chain by metis

lemma fresh_frame: "frame st st' S h \<Longrightarrow> a \<notin> S \<Longrightarrow> fresh st a \<Longrightarrow> fresh st' a"
  by (simp add: frame_def fresh_def)

lemma sentry_frame: "frame st st' S h \<Longrightarrow> sentry_of st' = sentry_of st"
  by (simp add: frame_def sentry_of_def [abs_def])

lemma enter_represents:
  assumes "represents A st" "fresh st e" "\<forall>key. e \<notin> set (cells (A key))"
  shows "\<exists>st'. enter st e = Some st' \<and> key_of st' = key_of st \<and> sentry_of st' = sentry_of st
    \<and> owned st' = (owned st)(e := True)
    \<and> represents (A(key_of st e := scope_insert (same_scope st) e (A (key_of st e)))) st'
    \<and> (\<forall>a. a \<noteq> e \<and> (\<forall>key. a \<notin> set (cells (A key))) \<and> fresh st a \<longrightarrow> fresh st' a)"
proof -
  obtain g where g: "table_ok st g" and A: "A = scopes st g" using assms(1) by (auto simp: represents_def)
  define s1 where "s1 = st\<lparr>owned := (owned st)(e := True)\<rparr>"
  have s1: "table_ok s1 g" "fresh s1 e" "key_of s1 = key_of st" "prime s1 = prime st" "scopes s1 g = A"
    "same_scope s1 = same_scope st" "fresh s1 = fresh st"
    using g A assms(2)
    by (simp_all add: s1_def fresh_def [abs_def] scopes_def [abs_def] chain_key_def same_scope_def [abs_def] sentry_of_def)
  define h where "h = hash (prime s1) (key_of s1 e)"
  have out: "a \<notin> set (members (g k))" if "\<forall>key. a \<notin> set (cells (A key))" for a k
    using outside_members [OF g] that A by blast
  obtain st' cs where ent: "enter st e = Some st'" and st': "entered s1 g h e st' cs"
    using enter_bucket [OF s1(1,2) out [OF assms(3)] h_def]
    unfolding enter_def Let_def s1_def [symmetric] h_def [symmetric] by blast
  note fr = st' [unfolded entered_def, THEN conjunct2, THEN conjunct1]
  have "table_ok st' (g(h := cs))"
    by (rule table_ok_update [OF s1(1) fr]) (use out [OF assms(3)] st' in \<open>auto simp: entered_def\<close>)
  then have "represents (scopes st' (g(h := cs))) st'" by (auto simp: represents_def)
  moreover have "scopes st' (g(h := cs)) = A(key_of st e := scope_insert (same_scope st) e (A (key_of st e)))"
    using st' s1 unfolding scopes_frame [OF fr] by (simp add: entered_def)
  moreover have "fresh st' a" if "a \<noteq> e" "\<forall>key. a \<notin> set (cells (A key))" "fresh st a" for a
    using fresh_frame [OF fr] out [OF that(2)] that s1(7) by simp
  moreover have "key_of st' = key_of st" "owned st' = (owned st)(e := True)" using fr by (simp_all add: frame_def s1_def)
  moreover have "sentry_of st' = sentry_of st" using sentry_frame [OF fr] by (simp add: s1_def sentry_of_def [abs_def])
  ultimately show ?thesis using ent by auto
qed

lemma remove_represents:
  assumes "represents A st" "A (key_of st e) = [e] # c"
  shows "\<exists>st'. remove_entry st e = Some st' \<and> key_of st' = key_of st \<and> sentry_of st' = sentry_of st
    \<and> owned st' = owned st \<and> represents (A(key_of st e := c)) st'"
proof -
  obtain g where g: "table_ok st g" and A: "A = scopes st g" using assms(1) by (auto simp: represents_def)
  define h where "h = hash (prime st) (key_of st e)"
  obtain xs ys where gh: "g h = xs @ ([e] # c) # ys"
    using scopes_found [OF g assms(2) [unfolded A]] unfolding h_def by blast
  have ok: "bucket_ok st h (xs @ ([e] # c) # ys)" using g gh unfolding table_ok_def by metis
  note b = ok [unfolded bucket_ok_def]
  have ch: "chain_ok st ([e] # c)" and d: "distinct (map (chain_key st) (xs @ ([e] # c) # ys))" using b by auto
  have ck: "chain_key st ([e] # c) = key_of st e" by (simp add: chain_key_def)
  obtain s1 cs where s1: "(case m_outer st e of Some d \<Rightarrow> remove_scope st e d | None \<Rightarrow> remove_bucket st e) = Some s1"
    and ok1: "bucket_ok s1 h cs" and fr: "frame st s1 (set (members (xs @ ([e] # c) # ys))) h"
    and cs: "cs = (if c = [] then xs @ ys else xs @ c # ys)"
  proof (cases "c = []")
    case True
    then have "m_outer st e = None" using ch by (simp add: chain_ok_def)
    with remove_bucket_ok [of st h xs e ys] ok True that show thesis by auto
  next
    case False
    then have "m_outer st e = Some (hd (hd c))" using chain_ok_tl(2) [OF ch] by simp
    with remove_scope_ok [OF ok False] False that show thesis by auto
  qed
  have "scopes st (g(h := cs)) = (scopes st g)(key_of st e := c)"
  proof (rule scopes_update)
    fix k
    have "c \<noteq> [] \<Longrightarrow> chain_key st c = chain_key st ([e] # c)" using chain_ok_tl(3) [OF ch] by simp
    then show "find (\<lambda>d. chain_key st d = k) cs = (if k = key_of st e then if c = [] then None else Some c
         else find (\<lambda>d. chain_key st d = k) (g h))"
      using find_replace [OF d, of c k] find_drop [OF d, of k] by (auto simp: cs gh ck)
  qed (simp add: h_def)
  then have sc: "scopes s1 (g(h := cs)) = A(key_of st e := c)" using scopes_frame [OF fr] A by simp
  have "table_ok s1 (g(h := cs))"
    by (rule table_ok_update [OF g fr, of e]) (use ok1 gh member_bucket [OF g, of e] h_def in auto)
  moreover have "scopes (s1\<lparr>deleted := (deleted s1)(e := True)\<rparr>) = scopes s1"
    by (simp add: scopes_def [abs_def] chain_key_def)
  ultimately have "represents (A(key_of st e := c)) (s1\<lparr>deleted := (deleted s1)(e := True)\<rparr>)"
    using sc by (force simp: represents_def)
  moreover have "key_of s1 = key_of st" "owned s1 = owned st" using fr by (simp_all add: frame_def)
  moreover have "sentry_of (s1\<lparr>deleted := (deleted s1)(e := True)\<rparr>) = sentry_of st"
    using sentry_frame [OF fr] by (simp add: sentry_of_def [abs_def])
  ultimately show ?thesis using s1 by (simp add: remove_entry_def)
qed

definition lookup :: "symtab \<Rightarrow> string \<Rightarrow> category \<Rightarrow> taddr option option" where
  "lookup st key cat = find_loop st key cat (buckets st (hash (prime st) key))"

lemma lookup_represents:
  assumes "represents A st"
  shows "lookup st key cat = Some (scope_find (sentry_of st) cat (map hd (A key)))"
proof -
  obtain g where g: "table_ok st g" and A: "A = scopes st g" using assms(1) by (auto simp: represents_def)
  note b = g [unfolded table_ok_def bucket_ok_def, rule_format, of "hash (prime st) key"]
  have "stack_of st (g (hash (prime st) key)) key = map hd (A key)"
    by (simp add: stack_of_def A scopes_def split: option.split)
  with b find_in_bucket [of "g (hash (prime st) key)" st key cat] show ?thesis by (simp add: lookup_def)
qed

section \<open>A scoped table\<close>

fun run_all :: "('s \<Rightarrow> 'a \<Rightarrow> 's option) \<Rightarrow> 's \<Rightarrow> 'a list \<Rightarrow> 's option" where
  "run_all f s [] = Some s"
| "run_all f s (a # as) = do { t \<leftarrow> f s a; run_all f t as }"

text \<open>The names \<open>es\<close> of a block in front of what the table holds.\<close>

definition shade :: "(taddr \<Rightarrow> string) \<Rightarrow> taddr list \<Rightarrow> (string \<Rightarrow> chain) \<Rightarrow> string \<Rightarrow> chain" where
  "shade nm es A k = (case find (\<lambda>e. nm e = k) es of None \<Rightarrow> A k | Some e \<Rightarrow> [e] # A k)"

lemma find_none: "k \<notin> f ` set xs \<Longrightarrow> find (\<lambda>x. f x = k) xs = None"
  unfolding find_None_iff by (metis image_eqI)

lemma shade_Nil: "shade nm [] A = A"
  by (simp add: shade_def fun_eq_iff)

lemma shade_step:
  assumes "nm e \<notin> nm ` set es"
  shows "shade nm es (A(nm e := [e] # A (nm e))) = shade nm (e # es) A"
    and "(shade nm (e # es) A)(nm e := A (nm e)) = shade nm es A"
    and "shade nm (e # es) A (nm e) = [e] # A (nm e)"
  using find_none [OF assms] by (auto simp: shade_def fun_eq_iff split: option.splits)

definition scope_eq :: "sentry \<Rightarrow> sentry \<Rightarrow> bool" where
  "scope_eq a b \<longleftrightarrow> s_namespace a = s_namespace b \<and> s_category a = s_category b"

lemma same_scope_eq: "same_scope st = (\<lambda>a b. scope_eq (sentry_of st a) (sentry_of st b))"
  by (simp add: same_scope_def scope_eq_def fun_eq_iff)

locale scoped_table =
  fixes rep :: "(string \<Rightarrow> chain) \<Rightarrow> 's \<Rightarrow> bool"
    and enter_in remove_from :: "'s \<Rightarrow> taddr \<Rightarrow> 's option"
    and look :: "'s \<Rightarrow> string \<Rightarrow> category \<Rightarrow> taddr option option"
    and name_of :: "'s \<Rightarrow> taddr \<Rightarrow> string"
    and data_of :: "'s \<Rightarrow> taddr \<Rightarrow> sentry"
    and unused :: "'s \<Rightarrow> taddr \<Rightarrow> bool"
  assumes enter_law: "rep A s \<Longrightarrow> unused s e \<Longrightarrow> \<forall>k. e \<notin> set (cells (A k)) \<Longrightarrow>
      \<exists>t. enter_in s e = Some t \<and> name_of t = name_of s \<and> data_of t = data_of s
        \<and> rep (A(name_of s e :=
             scope_insert (\<lambda>a b. scope_eq (data_of s a) (data_of s b)) e (A (name_of s e)))) t
        \<and> (\<forall>a. a \<noteq> e \<and> (\<forall>k. a \<notin> set (cells (A k))) \<and> unused s a \<longrightarrow> unused t a)"
    and remove_law: "rep A s \<Longrightarrow> A (name_of s e) = [e] # c \<Longrightarrow>
      \<exists>t. remove_from s e = Some t \<and> name_of t = name_of s \<and> data_of t = data_of s \<and> rep (A(name_of s e := c)) t"
    and look_law: "rep A s \<Longrightarrow> look s k cat = Some (scope_find (data_of s) cat (map hd (A k)))"
begin

text \<open>The entries of a block: new ones, each of another name, none in the scope of the entry it hides.\<close>

definition block_entries :: "(string \<Rightarrow> chain) \<Rightarrow> 's \<Rightarrow> taddr list \<Rightarrow> bool" where
  "block_entries A s es \<longleftrightarrow> distinct (map (name_of s) es)
     \<and> (\<forall>e \<in> set es. unused s e \<and> (\<forall>k. e \<notin> set (cells (A k)))
          \<and> (A (name_of s e) \<noteq> [] \<longrightarrow> \<not> scope_eq (data_of s (hd (hd (A (name_of s e))))) (data_of s e)))"

lemma enter_block:
  "rep A s \<Longrightarrow> block_entries A s es \<Longrightarrow>
   \<exists>t. run_all enter_in s es = Some t \<and> name_of t = name_of s \<and> data_of t = data_of s
     \<and> rep (shade (name_of s) es A) t"
proof (induction es arbitrary: A s)
  case Nil
  then show ?case by (simp add: shade_Nil)
next
  case (Cons e es)
  let ?A = "A(name_of s e := [e] # A (name_of s e))"
  have e: "unused s e" "\<forall>k. e \<notin> set (cells (A k))" "name_of s e \<notin> name_of s ` set es"
    using Cons.prems(2) by (auto simp: block_entries_def)
  have ins: "scope_insert (\<lambda>a b. scope_eq (data_of s a) (data_of s b)) e (A (name_of s e)) = [e] # A (name_of s e)"
    using Cons.prems(2) by (simp add: block_entries_def scope_insert_def)
  obtain t where t: "enter_in s e = Some t" "name_of t = name_of s" "data_of t = data_of s" "rep ?A t"
    and keep: "\<And>a. a \<noteq> e \<Longrightarrow> \<forall>k. a \<notin> set (cells (A k)) \<Longrightarrow> unused s a \<Longrightarrow> unused t a"
    using enter_law [OF Cons.prems(1) e(1,2), unfolded ins] by blast
  have ne: "b \<noteq> e" "name_of s b \<noteq> name_of s e" if "b \<in> set es" for b using e(3) that by (metis image_eqI)+
  have "block_entries ?A t es"
    using Cons.prems(2) ne keep by (auto simp: block_entries_def t(2,3))
  from Cons.IH [OF t(4) this] show ?case
    unfolding t(2,3) shade_step(1) [OF e(3)] using t(1) by simp
qed

lemma leave_block:
  "rep (shade (name_of s) es A) s \<Longrightarrow> distinct (map (name_of s) es) \<Longrightarrow>
   \<exists>t. run_all remove_from s es = Some t \<and> name_of t = name_of s \<and> data_of t = data_of s \<and> rep A t"
proof (induction es arbitrary: s)
  case Nil
  then show ?case by (simp add: shade_Nil)
next
  case (Cons e es)
  have e: "name_of s e \<notin> name_of s ` set es" using Cons.prems(2) by simp
  obtain t where t: "remove_from s e = Some t" "name_of t = name_of s" "data_of t = data_of s"
    "rep (shade (name_of s) es A) t"
    using remove_law [OF Cons.prems(1) shade_step(3) [OF e]] shade_step(2) [OF e] by auto
  from Cons.IH [of t] t Cons.prems(2) show ?case by simp
qed

lemma block_visible:
  assumes "rep (shade (name_of s) es A) s" "distinct (map (name_of s) es)"
  shows "e \<in> set es \<Longrightarrow> look s (name_of s e) c_unspec = Some (Some e)"
    and "k \<notin> name_of s ` set es \<Longrightarrow> look s k cat = Some (scope_find (data_of s) cat (map hd (A k)))"
proof -
  assume "e \<in> set es"
  then obtain xs ys where "es = xs @ e # ys" by (meson split_list)
  then have "find (\<lambda>x. name_of s x = name_of s e) es = Some e"
    using find_replace [of "name_of s" xs e ys e "name_of s e"] assms(2) by simp
  then show "look s (name_of s e) c_unspec = Some (Some e)"
    using look_law [OF assms(1)] by (simp add: shade_def)
next
  assume "k \<notin> name_of s ` set es"
  from find_none [OF this] show "look s k cat = Some (scope_find (data_of s) cat (map hd (A k)))"
    using look_law [OF assms(1)] by (simp add: shade_def)
qed

lemma block_restored:
  assumes "rep A s" "block_entries A s es"
  shows "\<exists>t u. run_all enter_in s es = Some t \<and> run_all remove_from t es = Some u
    \<and> (\<forall>e \<in> set es. look t (name_of s e) c_unspec = Some (Some e))
    \<and> (\<forall>k cat. k \<notin> name_of s ` set es \<longrightarrow> look t k cat = look s k cat)
    \<and> (\<forall>k cat. look u k cat = look s k cat)"
proof -
  obtain t where t: "run_all enter_in s es = Some t" "name_of t = name_of s" "data_of t = data_of s"
    "rep (shade (name_of t) es A) t"
    using enter_block [OF assms] by auto
  have d: "distinct (map (name_of t) es)" using assms(2) t(2) by (simp add: block_entries_def)
  obtain u where u: "run_all remove_from t es = Some u" "data_of u = data_of s" "rep A u"
    using leave_block [OF t(4) d] t(3) by auto
  show ?thesis
    using t u block_visible [OF t(4) d] look_law [OF assms(1)] look_law [OF u(3)] by simp
qed

end

interpretation symbols: scoped_table represents enter remove_entry lookup key_of sentry_of fresh
proof
  fix A s e
  assume "represents A s" "fresh s e" "\<forall>k. e \<notin> set (cells (A k))"
  from enter_represents [OF this] show "\<exists>t. enter s e = Some t \<and> key_of t = key_of s \<and> sentry_of t = sentry_of s
        \<and> represents (A(key_of s e := scope_insert (\<lambda>a b. scope_eq (sentry_of s a) (sentry_of s b)) e (A (key_of s e)))) t
        \<and> (\<forall>a. a \<noteq> e \<and> (\<forall>k. a \<notin> set (cells (A k))) \<and> fresh s a \<longrightarrow> fresh t a)"
    unfolding same_scope_eq by blast
next
  fix A s e c
  assume "represents A s" "A (key_of s e) = [e] # c"
  from remove_represents [OF this]
  show "\<exists>t. remove_entry s e = Some t \<and> key_of t = key_of s \<and> sentry_of t = sentry_of s \<and> represents (A(key_of s e := c)) t"
    by blast
next
  fix A s k cat
  assume "represents A s"
  then show "lookup s k cat = Some (scope_find (sentry_of s) cat (map hd (A k)))" by (rule lookup_represents)
qed


section \<open>Properties\<close>

lemma shadow_loop_owned:
  assumes "shadow_loop st e s = Some st'"
  shows "owned st' = owned st"
  using assms
proof (rule shadow_loop.raw_induct [where P = "\<lambda>st e s st'. owned st' = owned st", rotated])
  fix f st e s y
  assume "\<And>st e s st'. f st e s = Some st' \<Longrightarrow> owned st' = owned st"
    and "(if m_outer st s = Some e then Some (st\<lparr>m_outer := (m_outer st)(s := m_outer st e)\<rparr>) else f st e s) = Some y"
  then show "owned y = owned st" by (auto split: if_splits)
qed

lemma remove_entry_owned: "remove_entry st e = Some st' \<Longrightarrow> owned st' = owned st"
  by (auto simp: remove_entry_def remove_scope_def remove_bucket_def unshadow_def set_prev_def Let_def bind_eq_Some_conv
      dest!: shadow_loop_owned split: option.splits if_splits)

lemma detach_run:
  "\<forall>e \<in> set es. owned st e \<Longrightarrow> run_all remove_entry st es = Some st' \<Longrightarrow>
   detachEnvironment st (map Some es) = Some (st', [])"
proof (induction es arbitrary: st)
  case (Cons e es)
  then obtain t where t: "remove_entry st e = Some t" "run_all remove_entry t es = Some st'"
    by (auto simp: bind_eq_Some_conv)
  with Cons show ?case using remove_entry_owned [OF t(1)] by simp
qed simp

lemma enter_owned:
  assumes "enter st e = Some st'"
  shows "owned st' = (owned st)(e := True)"
proof -
  have "owned st' = owned st" if "enter_loop st h e b = Some st'" for st h e b st'
    using that
  proof (rule enter_loop.raw_induct [where P = "\<lambda>st h e b st'. owned st' = owned st", rotated])
    fix f st h e b y
    assume "\<And>st h e b st'. f st h e b = Some st' \<Longrightarrow> owned st' = owned st"
      and "(if key_of st e = key_of st b
            then if same_scope st b e then do { l \<leftarrow> last_overloaded st b; Some (overload st e l) }
                 else Some (push_scope st h e b)
            else case m_next st b of None \<Rightarrow> Some (append_entry st e b) | Some c \<Rightarrow> f st h e c) = Some y"
    then show "owned y = owned st"
      by (auto simp: bind_eq_Some_conv overload_def push_scope_def append_entry_def Let_def split: if_splits option.splits)
  qed
  with assms show ?thesis by (auto simp: enter_def Let_def split: option.splits)
qed

lemma run_enter_owned: "run_all enter st es = Some st' \<Longrightarrow> owned st' a = (a \<in> set es \<or> owned st a)"
proof (induction es arbitrary: st)
  case (Cons e es)
  then obtain t where t: "enter st e = Some t" "run_all enter t es = Some st'"
    by (auto simp: bind_eq_Some_conv)
  with Cons.IH [OF t(2)] show ?case using enter_owned [OF t(1)] by auto
qed simp

lemma shadow_loop_diverges:
  assumes "m_outer st s \<noteq> Some e"
  shows "shadow_loop st e s = None"
proof (rule ccontr)
  assume "shadow_loop st e s \<noteq> None"
  then obtain r where "shadow_loop st e s = Some r" by auto
  then have "m_outer st s = Some e"
  proof (rule shadow_loop.raw_induct [where P = "\<lambda>st e s r. m_outer st s = Some e", rotated])
    fix f st e s y
    assume "\<And>st e s r. f st e s = Some r \<Longrightarrow> m_outer st s = Some e"
      and "(if m_outer st s = Some e then Some (st\<lparr>m_outer := (m_outer st)(s := m_outer st e)\<rparr>) else f st e s) = Some y"
    then show "m_outer st s = Some e" by (auto split: if_splits)
  qed
  with assms show False by simp
qed

lemma new_table_represents: "represents (\<lambda>_. []) (new_table p ks ps es ds)"
proof -
  have "table_ok (new_table p ks ps es ds) (\<lambda>_. [])"
    by (simp add: table_ok_def bucket_ok_def new_table_def)
  then show ?thesis by (auto simp: represents_def scopes_def intro!: exI [of _ "\<lambda>_. []"])
qed

lemma new_table_fresh: "fresh (new_table p ks ps es ds) e"
  by (simp add: fresh_def new_table_def)

lemma note_usage_fields [simp]:
  "xrefs (note_usage st a) = xrefs st" "entry_of (note_usage st a) = entry_of st"
  by (simp_all add: note_usage_def set_position_def split: option.split)

lemma find_entry_fields:
  "find_entry st k c = Some (t, st1) \<Longrightarrow> xrefs st1 = xrefs st \<and> entry_of st1 = entry_of st"
  unfolding find_entry_def bind_eq_Some_conv by (auto split: option.splits)

lemma xref_pushes:
  assumes "xrefs st = Some (refs # s)" "xref st k = Some (Some a, st')"
  shows "xrefs st' = Some ((refs @ [a]) # s)" "entry_of st' = entry_of st"
proof -
  obtain t st1 where f: "find_entry st k c_unspec = Some (t, st1)"
    using assms(2) by (cases "find_entry st k c_unspec") (auto simp: xref_def)
  then have "xrefs st1 = Some (refs # s)" "entry_of st1 = entry_of st" using find_entry_fields assms(1) by fastforce+
  with assms(2) f show "xrefs st' = Some ((refs @ [a]) # s)" "entry_of st' = entry_of st"
    by (cases t; auto simp: xref_def)+
qed

fun xref_all :: "symtab \<Rightarrow> string list \<Rightarrow> (taddr list \<times> symtab) option" where
  "xref_all st [] = Some ([], st)"
| "xref_all st (k # ks) =
     do { (t, st1) \<leftarrow> xref st k; a \<leftarrow> t; (as, st2) \<leftarrow> xref_all st1 ks; Some (a # as, st2) }"

lemma xref_all_pushes:
  "xrefs st = Some (refs # s) \<Longrightarrow> xref_all st ks = Some (as, st') \<Longrightarrow>
   xrefs st' = Some ((refs @ as) # s) \<and> entry_of st' = entry_of st"
proof (induction ks arbitrary: st refs as)
  case (Cons k ks)
  then obtain a st1 bs where st1: "xref st k = Some (Some a, st1)" "xref_all st1 ks = Some (bs, st')" "as = a # bs"
    by (auto simp: bind_eq_Some_conv)
  with Cons.IH [of st1 "refs @ [a]" bs] xref_pushes [OF Cons.prems(1) st1(1)] show ?case by simp
qed simp

text \<open>Symbols for the concrete tables below.\<close>

definition sample_symbols :: "nat \<Rightarrow> sentry" where
  "sample_symbols a = \<lparr>s_namespace = 1, s_position = 0, s_name = ''x'', s_category = c_variable, s_type = AnyType\<rparr>"

text \<open>
  C12. Entering the names of a block and detaching the block again: between the two every name of the block is
  found as the block's own entry and every other name as before, and afterwards every lookup is what it was
  before the block, whatever the block had hidden.
\<close>

theorem detach_restores_scopes:
  "represents A st \<and> distinct (map (key_of st) es)
   \<and> (\<forall>e \<in> set es. fresh st e \<and> (\<forall>k. e \<notin> set (cells (A k)))
        \<and> (A (key_of st e) \<noteq> [] \<longrightarrow> \<not> same_scope st (hd (hd (A (key_of st e)))) e))
   \<longrightarrow> (\<exists>t u. run_all enter st es = Some t \<and> detachEnvironment t (map Some es) = Some (u, [])
        \<and> (\<forall>e \<in> set es. lookup t (key_of st e) c_unspec = Some (Some e))
        \<and> (\<forall>k cat. k \<notin> key_of st ` set es \<longrightarrow> lookup t k cat = lookup st k cat)
        \<and> (\<forall>k cat. lookup u k cat = lookup st k cat))"
proof
  assume H: "represents A st \<and> distinct (map (key_of st) es)
   \<and> (\<forall>e \<in> set es. fresh st e \<and> (\<forall>k. e \<notin> set (cells (A k)))
        \<and> (A (key_of st e) \<noteq> [] \<longrightarrow> \<not> same_scope st (hd (hd (A (key_of st e)))) e))"
  then have "symbols.block_entries A st es" by (simp add: symbols.block_entries_def same_scope_eq)
  then obtain t u where tu: "run_all enter st es = Some t" "run_all remove_entry t es = Some u"
    and found: "\<forall>e \<in> set es. lookup t (key_of st e) c_unspec = Some (Some e)"
      "\<forall>k cat. k \<notin> key_of st ` set es \<longrightarrow> lookup t k cat = lookup st k cat"
      "\<forall>k cat. lookup u k cat = lookup st k cat"
    using symbols.block_restored H by blast
  have "detachEnvironment t (map Some es) = Some (u, [])"
    using tu run_enter_owned [OF tu(1)] by (intro detach_run) auto
  with tu(1) found show "\<exists>t u. run_all enter st es = Some t \<and> detachEnvironment t (map Some es) = Some (u, [])
        \<and> (\<forall>e \<in> set es. lookup t (key_of st e) c_unspec = Some (Some e))
        \<and> (\<forall>k cat. k \<notin> key_of st ` set es \<longrightarrow> lookup t k cat = lookup st k cat)
        \<and> (\<forall>k cat. lookup u k cat = lookup st k cat)" by blast
qed


theorem detach_restores_scopes_witness:
  "\<exists>t u. run_all enter (new_table 31 (\<lambda>a. if a = 0 then ''x'' else ''y'') id id sample_symbols) [0, 1] = Some t
     \<and> detachEnvironment t [Some 0, Some 1] = Some (u, [])
     \<and> lookup t ''x'' c_unspec = Some (Some 0) \<and> lookup t ''y'' c_unspec = Some (Some 1)"
proof -
  let ?t = "new_table 31 (\<lambda>a. if a = 0 then ''x'' else ''y'') id id sample_symbols"
  have k: "key_of ?t = (\<lambda>a. if a = 0 then ''x'' else ''y'')" by (simp add: new_table_def)
  have "represents (\<lambda>_. []) ?t \<and> distinct (map (key_of ?t) [0, 1]) \<and> (\<forall>e \<in> set [0, 1]. fresh ?t e)"
    unfolding k by (simp add: new_table_represents new_table_fresh)
  with detach_restores_scopes [of "\<lambda>_. []" ?t "[0, 1]"]
  obtain t u where "run_all enter ?t [0, 1] = Some t" "detachEnvironment t (map Some [0, 1]) = Some (u, [])"
    and "\<forall>e \<in> set [0, 1]. lookup t (key_of ?t e) c_unspec = Some (Some e)"
    by auto
  then show ?thesis unfolding k by (intro exI [of _ t] exI [of _ u]) simp
qed

text \<open>
  C18. Entering refines the abstract table of scopes: it always returns, and the scopes of the entry's name
  gain the entry, as an overload of the innermost scope when name space and category agree with it and as a
  new innermost scope otherwise; all other names, the keys and the symbols are left alone.
\<close>

theorem enter_refines:
  "represents A st \<and> fresh st e \<and> (\<forall>k. e \<notin> set (cells (A k)))
   \<longrightarrow> (\<exists>st'. enter st e = Some st' \<and> key_of st' = key_of st \<and> sentry_of st' = sentry_of st
        \<and> represents (A(key_of st e := scope_insert (same_scope st) e (A (key_of st e)))) st')"
  using enter_represents by blast

theorem enter_refines_witness:
  "\<exists>st'. enter (new_table 31 (\<lambda>_. ''x'') id id sample_symbols) 0 = Some st'
     \<and> represents ((\<lambda>_. [])(''x'' := [[0]])) st'"
  using enter_refines [of "\<lambda>_. []" "new_table 31 (\<lambda>_. ''x'') id id sample_symbols" 0]
  by (auto simp: new_table_represents new_table_fresh scope_insert_def) (auto simp: new_table_def)

text \<open>
  C26. A lookup in a well-formed table always ends: it returns the innermost entry of the name whose category
  is the one asked for, any category when none is asked for, and the null pointer when there is none; the
  only change is the note of the use of the entry found.
\<close>

theorem find_entry_innermost:
  "represents A st \<longrightarrow> find_entry st key cat =
     Some (case scope_find (sentry_of st) cat (map hd (A key)) of
             None \<Rightarrow> (None, st) | Some a \<Rightarrow> (Some a, note_usage st a))"
  using lookup_represents by (auto simp: find_entry_def lookup_def)

theorem find_entry_innermost_witness:
  "find_entry (new_table 31 (\<lambda>_. ''x'') id id sample_symbols) ''x'' c_unspec = Some (None, new_table 31 (\<lambda>_. ''x'') id id sample_symbols)"
  using find_entry_innermost [of "\<lambda>_. []" "new_table 31 (\<lambda>_. ''x'') id id sample_symbols" "''x''" c_unspec]
  by (simp add: new_table_represents)

text \<open>
  C32. Removing an entry that is hidden deeper than the first entry of its bucket never returns: the loop that
  looks for the entry one scope further in does not advance.
\<close>

theorem remove_hidden_diverges:
  "m_prev st e = None \<and> m_next st e = None \<and> m_outer st e \<noteq> Some e
   \<and> buckets st (hash (prime st) (key_of st e)) = Some s \<and> s \<noteq> e \<and> m_outer st s \<noteq> Some e
   \<longrightarrow> remove_entry st e = None"
  by (auto simp: remove_entry_def remove_scope_def remove_bucket_def unshadow_def set_prev_def Let_def
      shadow_loop_diverges split: option.splits)

theorem remove_hidden_diverges_witness:
  "remove_entry ((new_table 31 (\<lambda>_. ''x'') id id sample_symbols)
     \<lparr>buckets := (\<lambda>_. Some 2), m_outer := [2 \<mapsto> 1, 1 \<mapsto> 0]\<rparr>) 0 = None"
  using remove_hidden_diverges [of "(new_table 31 (\<lambda>_. ''x'') id id sample_symbols)
     \<lparr>buckets := (\<lambda>_. Some 2), m_outer := [2 \<mapsto> 1, 1 \<mapsto> 0]\<rparr>" 0 2]
  by (simp add: new_table_def)

text \<open>
  External references of a module: after the references have been opened and the names resolved one by one, a
  position of the byte code gives the symbol of the name resolved at that place, a position past the end
  gives none, and closing restores the references of the enclosing module.
\<close>

theorem xref_positions:
  "xref_all (openXRefs st) ks = Some (as, st')
   \<longrightarrow> (\<forall>i. getXRef st' i = (if i < length as then Some (entry_of st (as ! i)) else None))
     \<and> xrefs (closeXRefs st') = Some (case xrefs st of None \<Rightarrow> [] | Some s \<Rightarrow> s)"
proof
  assume *: "xref_all (openXRefs st) ks = Some (as, st')"
  have "xrefs (openXRefs st) = Some ([] # (case xrefs st of None \<Rightarrow> [] | Some s \<Rightarrow> s))" "entry_of (openXRefs st) = entry_of st"
    by (simp_all add: openXRefs_def)
  with xref_all_pushes [OF _ *] show "(\<forall>i. getXRef st' i = (if i < length as then Some (entry_of st (as ! i)) else None))
     \<and> xrefs (closeXRefs st') = Some (case xrefs st of None \<Rightarrow> [] | Some s \<Rightarrow> s)"
    by (simp add: getXRef_def closeXRefs_def)
qed

theorem xref_positions_witness:
  "\<forall>i. getXRef ((openXRefs (new_table 31 (\<lambda>_. ''x'') id Suc sample_symbols))\<lparr>buckets := (\<lambda>_. Some 0), xrefs := Some [[0]]\<rparr>) i
     = (if i < 1 then Some 1 else None)"
proof -
  let ?t = "(new_table 31 (\<lambda>_. ''x'') id Suc sample_symbols)\<lparr>buckets := (\<lambda>_. Some 0)\<rparr>"
  have "find_loop (openXRefs ?t) ''x'' c_unspec (Some 0) = Some (Some 0)"
    by (subst find_loop.simps) (simp add: new_table_def openXRefs_def)
  then have "xref_all (openXRefs ?t) [''x''] = Some ([0], (openXRefs ?t)\<lparr>xrefs := Some [[0]]\<rparr>)"
    by (simp add: xref_def find_entry_def note_usage_def new_table_def openXRefs_def)
  with xref_positions [of ?t "[''x'']" "[0]"] show ?thesis
    by (simp add: openXRefs_def new_table_def)
qed

end
