(* ===== verification/YCode.thy ===== *)
theory YCode
  imports Symbol_Table
begin

text \<open>
  The code the parser produces and what it runs on: the classes of \<^verbatim>\<open>YCode.h\<close>, \<^verbatim>\<open>YExpression.h\<close>,
  \<^verbatim>\<open>YStatement.h\<close> and \<^verbatim>\<open>YBlock.h\<close> as one datatype, the symbol entries with their values and recursion stacks
  (\<^verbatim>\<open>liby2/src/SymbolEntry.cc\<close>), the name spaces (\<^verbatim>\<open>liby2/src/Y2Namespace.cc\<close>) and the execution
  environment (\<^verbatim>\<open>ExecutionEnvironment.cc\<close>).

  Symbol entries, blocks, functions and name spaces are objects that are shared and compared by
  address; they are numbers here.  What the parser fixes is in the record \<open>program\<close>, what changes while
  the program runs in the record \<open>ystate\<close>.
\<close>

section \<open>Code\<close>

datatype blockkind =
    b_unknown | b_module | b_file | b_statement | b_definition | b_value | b_namespace | b_using

text \<open>The kinds of constants.\<close>

datatype ckind =
    ycVoid | ycBoolean | ycInteger | ycFloat | ycString | ycByteblock | ycPath | ycSymbol | ycList | ycMap
  | ycTerm | ycEntry

text \<open>
  A declaration of a builtin: \<open>d_ptr\<close> is the function, \<open>d_handler\<close> the call handler of its name space, where
  the name space has the flag \<^verbatim>\<open>DECL_CALL_HANDLER\<close>.
\<close>

record declaration_t =
  d_name :: string
  d_flags :: uint32
  d_type :: ytype
  d_ptr :: "nat option"
  d_handler :: "nat option option"

abbreviation DECL_NIL :: uint32 where "DECL_NIL \<equiv> 0x1"
abbreviation DECL_NOEVAL :: uint32 where "DECL_NOEVAL \<equiv> 0x200"

definition has_flag :: "declaration_t \<Rightarrow> uint32 \<Rightarrow> bool" where
  "has_flag d f \<longleftrightarrow> d_flags d AND f \<noteq> 0"

text \<open>
  \<^verbatim>\<open>YECompare::cmp_op\<close> is a set of bits.  The statements of a block are listed with their line numbers; a null
  statement or expression is \<^const>\<open>None\<close>.
\<close>

datatype (plugins only: code size) ycode =
    YConst ckind "ycode ycp"
  | YLocale string string
  | YFunction nat
  | YEVariable nat
  | YEReference nat
  | YETerm string "ycode list"
  | YECompare ycode nat ycode
  | YELocale string string ycode string
  | YEList "ycode list"
  | YEMap "(ycode \<times> ycode) list"
  | YEPropagate ycode ytype ytype
  | YEUnary declaration_t ycode
  | YEBinary declaration_t ycode ycode
  | YETriple ycode ycode ycode
  | YEIs ycode ytype
  | YEReturn ycode
  | YEBracket ycode ycode ycode ytype
  | YEBuiltin declaration_t ytype "nat option" "ycode list"
  | YEFunction nat "ycode list"
  | YEFunctionPointer nat "ycode list"
  | YBlock nat blockkind string "(int \<times> ycode) list"
  | YSBreak
  | YSContinue
  | YSExpression ycode
  | YSBlock ycode
  | YSReturn "ycode option"
  | YSFunction nat
  | YSTypedef string ytype
  | YSAssign nat ycode
  | YSVariable nat ycode
  | YSBracket nat ycode ycode
  | YSIf ycode "ycode option" "ycode option"
  | YSWhile ycode "ycode option"
  | YSRepeat "ycode option" ycode
  | YSDo "ycode option" ycode
  | YSTextdomain string
  | YSInclude string bool
  | YSImport "nat option"
  | YSFilename string
  | YSSwitch ycode "(ycode ycp \<times> nat) list" "nat option" ycode

type_synonym yvalue = "ycode ycp"

definition isConstant :: "ycode \<Rightarrow> bool" where
  "isConstant c = (case c of YConst _ _ \<Rightarrow> True | _ \<Rightarrow> False)"

definition isBlock :: "ycode \<Rightarrow> bool" where
  "isBlock c = (case c of YBlock _ _ _ _ \<Rightarrow> True | _ \<Rightarrow> False)"

definition isFunctionCode :: "ycode \<Rightarrow> bool" where
  "isFunctionCode c = (case c of YFunction _ \<Rightarrow> True | _ \<Rightarrow> False)"

definition isBreak :: "'c ycp \<Rightarrow> bool" where "isBreak v \<longleftrightarrow> valuetype v = 13"
definition isReturn :: "'c ycp \<Rightarrow> bool" where "isReturn v \<longleftrightarrow> valuetype v = 12"
definition isRefValue :: "'c ycp \<Rightarrow> bool" where "isRefValue v \<longleftrightarrow> valuetype v = 16"
definition isCode :: "'c ycp \<Rightarrow> bool" where "isCode v \<longleftrightarrow> valuetype v = 11"

section \<open>Programs and states\<close>

record yfunction =
  f_params :: "nat list"
  f_definition :: "ycode option"

text \<open>
  What \<^verbatim>\<open>createFunctionCall\<close> of a name space gives for a symbol: a function of the language, or one of another
  component.
\<close>

datatype callee = YCPFunction nat | Foreign nat

record program =
  p_category :: "nat \<Rightarrow> category"
  p_type :: "nat \<Rightarrow> ytype"
  p_function :: "nat \<Rightarrow> yfunction"
  p_blocktype :: "nat \<Rightarrow> ytype"
  p_symbols :: "nat \<Rightarrow> nat list"
  p_callee :: "nat \<Rightarrow> callee option"
  p_module :: "nat \<Rightarrow> ycode"
  p_constructor :: "nat \<Rightarrow> callee option"
  p_recursion_limit :: nat

record ystate =
  m_value :: "nat \<Rightarrow> yvalue"
  m_recurse_stack :: "nat \<Rightarrow> yvalue list option"
  m_running :: "nat \<Rightarrow> bool"
  m_initialized :: "nat \<Rightarrow> bool"
  m_filename :: string
  m_linenumber :: int
  m_backtrace :: "(string \<times> int \<times> nat \<times> yvalue list) list"

section \<open>Symbol entries\<close>

text \<open>\<^verbatim>\<open>SymbolEntry::value\<close>: a reference is followed; \<^const>\<open>None\<close> is a chain of references without end.\<close>

definition ref_target :: "'c ycp \<Rightarrow> nat option" where
  "ref_target v = (case v of YReference e \<Rightarrow> Some e | _ \<Rightarrow> None)"

partial_function (option) sym_value :: "program \<Rightarrow> ystate \<Rightarrow> nat \<Rightarrow> yvalue option" where
  "sym_value P st e =
     (if p_category P e = c_reference \<and> ref_target (m_value st e) \<noteq> None
      then sym_value P st (the (ref_target (m_value st e)))
      else Some (m_value st e))"

definition store_value :: "ystate \<Rightarrow> nat \<Rightarrow> yvalue \<Rightarrow> ystate" where
  "store_value st e v = st\<lparr>m_value := (m_value st)(e := v)\<rparr>"

text \<open>
  \<^verbatim>\<open>SymbolEntry::setValue\<close>: a reference that is set to a value other than a reference passes it on to the
  variable it refers to; null is stored as \<^verbatim>\<open>nil\<close>.
\<close>

partial_function (option) setValue :: "program \<Rightarrow> ystate \<Rightarrow> nat \<Rightarrow> yvalue \<Rightarrow> ystate option" where
  "setValue P st e v =
     (if \<not> isNull v \<and> p_category P e = c_reference
      then if isRefValue v then Some (store_value st e v)
           else if ref_target (m_value st e) = None then Some st
           else setValue P st (the (ref_target (m_value st e))) v
      else Some (store_value st e (if isNull v then YVoid else v)))"

definition sym_push :: "ystate \<Rightarrow> nat \<Rightarrow> ystate" where
  "sym_push st e =
     st\<lparr>m_recurse_stack := (m_recurse_stack st)(e :=
          Some (m_value st e # (case m_recurse_stack st e of None \<Rightarrow> [] | Some vs \<Rightarrow> vs)))\<rparr>"

text \<open>\<^verbatim>\<open>pop\<close> of a stack that exists and is empty is undefined.\<close>

definition sym_pop :: "ystate \<Rightarrow> nat \<Rightarrow> ystate option" where
  "sym_pop st e =
     (case m_recurse_stack st e of
        None \<Rightarrow> Some st
      | Some [] \<Rightarrow> None
      | Some (v # vs) \<Rightarrow>
          Some (st\<lparr>m_value := (m_value st)(e := v), m_recurse_stack := (m_recurse_stack st)(e := Some vs)\<rparr>))"

section \<open>Name spaces\<close>

definition isVariable :: "program \<Rightarrow> nat \<Rightarrow> bool" where
  "isVariable P e \<longleftrightarrow> p_category P e = c_variable"

definition block_variables :: "program \<Rightarrow> nat \<Rightarrow> nat list" where
  "block_variables P b = filter (isVariable P) (p_symbols P b)"

fun push_all :: "ystate \<Rightarrow> nat list \<Rightarrow> ystate" where
  "push_all st [] = st"
| "push_all st (e # es) = push_all (sym_push st e) es"

fun pop_all :: "ystate \<Rightarrow> nat list \<Rightarrow> ystate option" where
  "pop_all st [] = Some st"
| "pop_all st (e # es) = (case sym_pop st e of None \<Rightarrow> None | Some st1 \<Rightarrow> pop_all st1 es)"

definition pushToStack :: "program \<Rightarrow> ystate \<Rightarrow> nat \<Rightarrow> ystate" where
  "pushToStack P st b = push_all st (block_variables P b)"

definition popFromStack :: "program \<Rightarrow> ystate \<Rightarrow> nat \<Rightarrow> ystate option" where
  "popFromStack P st b = pop_all st (block_variables P b)"

section \<open>The execution environment\<close>

definition setFilename :: "ystate \<Rightarrow> string \<Rightarrow> ystate" where
  "setFilename st f = st\<lparr>m_filename := f\<rparr>"

definition setLinenumber :: "ystate \<Rightarrow> int \<Rightarrow> ystate" where
  "setLinenumber st l = st\<lparr>m_linenumber := l\<rparr>"

definition endlessRecursion :: "program \<Rightarrow> ystate \<Rightarrow> bool" where
  "endlessRecursion P st \<longleftrightarrow> length (m_backtrace st) = p_recursion_limit P"

definition pushframe :: "ystate \<Rightarrow> nat \<Rightarrow> yvalue list \<Rightarrow> ystate" where
  "pushframe st f params = st\<lparr>m_backtrace := (m_filename st, m_linenumber st, f, params) # m_backtrace st\<rparr>"

definition popframe :: "ystate \<Rightarrow> ystate" where
  "popframe st = st\<lparr>m_backtrace := tl (m_backtrace st)\<rparr>"

end
