(* ===== verification/YCP_Float.thy ===== *)
theory YCP_Float
  imports YCP_Value
begin

text \<open>
  The conversions between \<^verbatim>\<open>long long\<close> and \<^verbatim>\<open>double\<close> that \<^verbatim>\<open>YEPropagate\<close>, \<^verbatim>\<open>tofloat\<close> and \<^verbatim>\<open>tointeger\<close> use, on the
  IEEE 754 bit pattern: to \<^verbatim>\<open>double\<close> rounds to nearest, ties to even; back cuts the fraction off and is
  undefined when the result is no \<^verbatim>\<open>long long\<close>.
\<close>

function ilog2 :: "int \<Rightarrow> nat" where
  "ilog2 m = (if m < 2 then 0 else Suc (ilog2 (m div 2)))"
  by auto
termination by (relation "measure nat") auto

declare ilog2.simps [simp del]

text \<open>The significand and the exponent of a positive number: \<open>52\<close> bits after the leading one.\<close>

definition round_shift :: "int \<Rightarrow> nat \<Rightarrow> int" where
  "round_shift m s =
     (if s = 0 then m
      else let q = m div 2 ^ s; r = m mod 2 ^ s; half = 2 ^ (s - 1) in
           if half < r \<or> (r = half \<and> odd q) then q + 1 else q)"

definition dbl_of_pos :: "int \<Rightarrow> int" where
  "dbl_of_pos m =
     (let n = ilog2 m; q = (if n \<le> 52 then m * 2 ^ (52 - n) else round_shift m (n - 52)) in
      int (n + 1023) * 2 ^ 52 + (q - 2 ^ 52))"

definition dbl_of_int :: "int \<Rightarrow> double" where
  "dbl_of_int i =
     (if i = 0 then 0 else if i < 0 then word_of_int (2 ^ 63 + dbl_of_pos (- i)) else word_of_int (dbl_of_pos i))"

definition dbl_trunc :: "int \<Rightarrow> int option" where
  "dbl_trunc mag =
     (let e = mag div 2 ^ 52; f = mag mod 2 ^ 52 in
      if e = 2047 then None
      else if e < 1023 then Some 0
      else if e < 1075 then Some ((2 ^ 52 + f) div 2 ^ nat (1075 - e))
      else Some ((2 ^ 52 + f) * 2 ^ nat (e - 1075)))"

definition dbl_to_int :: "double \<Rightarrow> int64 option" where
  "dbl_to_int d =
     (case dbl_trunc (dbl_magnitude d) of
        None \<Rightarrow> None
      | Some m \<Rightarrow> let i = (if bit d 63 then - m else m) in
                  if - (2 ^ 63) \<le> i \<and> i < 2 ^ 63 then Some (word_of_int i) else None)"

lemma ilog2_bounds: "0 < m \<Longrightarrow> 2 ^ ilog2 m \<le> m \<and> m < 2 ^ Suc (ilog2 m)"
proof (induction m rule: ilog2.induct)
  case (1 m)
  show ?case
  proof (cases "m < 2")
    case True
    with 1 show ?thesis by (simp add: ilog2.simps [of m])
  next
    case False
    with "1.IH" have "2 ^ ilog2 (m div 2) \<le> m div 2" "m div 2 < 2 ^ Suc (ilog2 (m div 2))" by auto
    then have "2 * 2 ^ ilog2 (m div 2) \<le> m" "m < 2 * 2 ^ Suc (ilog2 (m div 2))" by auto
    with False show ?thesis by (simp add: ilog2.simps [of m])
  qed
qed

lemma ilog2_unique: "2 ^ n \<le> m \<Longrightarrow> m < 2 ^ Suc n \<Longrightarrow> ilog2 m = n"
proof -
  assume a: "2 ^ n \<le> m" "m < 2 ^ Suc n"
  then have "0 < m" by (smt (verit) zero_less_power)
  from ilog2_bounds [OF this] have b: "2 ^ ilog2 m \<le> m" "m < 2 ^ Suc (ilog2 m)" by auto
  have "(2 :: int) ^ n < 2 ^ Suc (ilog2 m)" "(2 :: int) ^ ilog2 m < 2 ^ Suc n" using a b by linarith+
  then have "n < Suc (ilog2 m)" "ilog2 m < Suc n" by (simp_all only: power_strict_increasing_iff)
  then show ?thesis by simp
qed

lemma dbl_of_pos_small:
  assumes "0 < m" "m \<le> 2 ^ 53"
  shows "dbl_trunc (dbl_of_pos m) = Some m" "0 < dbl_of_pos m" "dbl_of_pos m < 2 ^ 63"
proof -
  define n where "n = ilog2 m"
  have b: "2 ^ n \<le> m" "m < 2 ^ Suc n" using ilog2_bounds [OF assms(1)] by (simp_all add: n_def)
  define q where "q = (if n \<le> 52 then m * 2 ^ (52 - n) else round_shift m (n - 52))"
  have n: "n \<le> 53"
  proof -
    have "(2 :: int) ^ n \<le> 2 ^ 53" using b(1) assms(2) by linarith
    then show ?thesis by (simp only: power_increasing_iff)
  qed
  have qs: "2 ^ 52 \<le> q \<and> q < 2 ^ 53 \<and> m = (if n \<le> 52 then q div 2 ^ (52 - n) else q * 2)"
  proof -
    consider "n \<le> 52" | "n = 53" using n by linarith
    then show ?thesis
    proof cases
      case 1
      have "2 ^ n * 2 ^ (52 - n) \<le> m * 2 ^ (52 - n)" using b(1) by simp
      moreover have "m * 2 ^ (52 - n) < 2 ^ Suc n * 2 ^ (52 - n)" using b(2) by (simp del: power_Suc)
      moreover have "(2 :: int) ^ n * 2 ^ (52 - n) = 2 ^ 52" "(2 :: int) ^ Suc n * 2 ^ (52 - n) = 2 ^ 53"
        using 1 by (simp_all only: power_add [symmetric]) simp_all
      ultimately have "2 ^ 52 \<le> q" "q < 2 ^ 53" using 1 unfolding q_def by presburger+
      moreover have "m = (if n \<le> 52 then q div 2 ^ (52 - n) else q * 2)" using 1 by (simp add: q_def)
      ultimately show ?thesis by blast
    next
      case 2
      then have "m = 2 ^ 53" using b(1) assms(2) by simp
      with 2 show ?thesis
        by (simp add: q_def round_shift_def)
    qed
  qed
  then have q: "2 ^ 52 \<le> q" "q < 2 ^ 53" "m = (if n \<le> 52 then q div 2 ^ (52 - n) else q * 2)" by blast+
  have d: "dbl_of_pos m = int (n + 1023) * 2 ^ 52 + (q - 2 ^ 52)"
    by (simp add: dbl_of_pos_def Let_def n_def q_def)
  have e: "dbl_of_pos m div 2 ^ 52 = int (n + 1023)" "dbl_of_pos m mod 2 ^ 52 = q - 2 ^ 52"
    by (rule int_div_pos_eq [of _ _ _ "q - 2 ^ 52"], use d q(1,2) in simp_all)
      (rule int_mod_pos_eq [of _ _ "int (n + 1023)"], use d q(1,2) in simp_all)
  show "0 < dbl_of_pos m" "dbl_of_pos m < 2 ^ 63" using q(1,2) n unfolding d by (simp_all add: algebra_simps)
  show "dbl_trunc (dbl_of_pos m) = Some m"
  proof (cases "n \<le> 51")
    case True
    then have "nat (1075 - int (n + 1023)) = 52 - n" by simp
    moreover have "q div 2 ^ (52 - n) = m" using True q(3) by simp
    ultimately show ?thesis using True unfolding dbl_trunc_def Let_def e by simp
  next
    case False
    then have "n = 52 \<or> n = 53" using n by auto
    then have "q * 2 ^ (n - 52) = m" "nat (int (n + 1023) - 1075) = n - 52" "52 \<le> n" using q(3) by auto
    then show ?thesis using n unfolding dbl_trunc_def Let_def e by simp
  qed
qed

text \<open>Whole numbers of at most 53 bits survive the way to a float and back.\<close>

lemma dbl_int_roundtrip:
  assumes "\<bar>i\<bar> \<le> 2 ^ 53"
  shows "dbl_to_int (dbl_of_int i) = Some (word_of_int i)"
proof -
  have word: "uint (word_of_int k :: double) = k" if "0 \<le> k" "k < 2 ^ 64" for k
    using that by (simp add: uint_word_of_int_eq take_bit_int_eq_self)
  have mag: "dbl_magnitude (word_of_int k) = k mod 2 ^ 63" if "0 \<le> k" "k < 2 ^ 64" for k
  proof -
    have "(0x7FFFFFFFFFFFFFFF :: double) = mask 63" by (simp add: mask_eq_exp_minus_1)
    then have "dbl_magnitude (word_of_int k) = uint (take_bit 63 (word_of_int k :: double))"
      by (simp add: dbl_magnitude_def take_bit_eq_mask)
    also have "\<dots> = take_bit 63 (uint (word_of_int k :: double))" by (simp add: unsigned_take_bit_eq)
    finally show ?thesis using word [OF that] by (simp add: take_bit_eq_mod)
  qed
  have sign: "bit (word_of_int k :: double) 63 \<longleftrightarrow> 2 ^ 63 \<le> k" if "0 \<le> k" "k < 2 ^ 64" for k
  proof -
    have "bit (word_of_int k :: double) 63 \<longleftrightarrow> bit k 63" by (simp add: bit_word_of_int_iff)
    then have "bit (word_of_int k :: double) 63 \<longleftrightarrow> odd (k div 2 ^ 63)" by (simp only: bit_iff_odd)
    moreover have "k div 2 ^ 63 = (if 2 ^ 63 \<le> k then 1 else 0)"
      using that by (auto simp: div_pos_pos_trivial intro!: int_div_pos_eq [of k "2 ^ 63" 1 "k - 2 ^ 63"])
    ultimately show ?thesis by simp
  qed
  consider "i = 0" | "0 < i" | "i < 0" by linarith
  then show ?thesis
  proof cases
    case 1
    then show ?thesis by (simp add: dbl_of_int_def dbl_to_int_def dbl_magnitude_def dbl_trunc_def Let_def)
  next
    case 2
    with assms dbl_of_pos_small [of i] show ?thesis
      by (simp add: dbl_of_int_def dbl_to_int_def mag sign)
  next
    case 3
    define k where "k = 2 ^ 63 + dbl_of_pos (- i)"
    have d: "dbl_trunc (dbl_of_pos (- i)) = Some (- i)" "0 < dbl_of_pos (- i)" "dbl_of_pos (- i) < 2 ^ 63"
      using dbl_of_pos_small [of "- i"] 3 assms by simp_all
    then have "dbl_magnitude (word_of_int k) = dbl_of_pos (- i)" "bit (word_of_int k :: double) 63"
      using mag [of k] sign [of k] by (simp_all add: k_def)
    moreover have "dbl_of_int i = word_of_int k" using 3 by (simp add: dbl_of_int_def k_def)
    ultimately show ?thesis using 3 assms d(1) by (simp add: dbl_to_int_def)
  qed
qed

end
