(* ===== verification/Interpreter.thy ===== *)
theory Interpreter
  imports YCode YCP_Float
begin

text \<open>
  The interpreter: \<^verbatim>\<open>evaluate\<close> of every class of code (\<^verbatim>\<open>YCode.cc\<close>, \<^verbatim>\<open>YExpression.cc\<close>, \<^verbatim>\<open>YStatement.cc\<close>,
  \<^verbatim>\<open>YBlock.cc\<close>), with one definition per class.  Each definition takes the function \<open>ev\<close> that the virtual call
  \<^verbatim>\<open>->evaluate (cse)\<close> on a part reaches; \<open>evaluate\<close> ties the knot with a bound on the depth of nested calls
  and loop rounds, and \<open>OutOfFuel\<close> says that the bound was too small.

  Builtin functions, functions of other components and the message catalogues of gettext are fields of \<open>yenv\<close>.
  Messages to the log are not modelled, and no debugger is attached (\<^verbatim>\<open>debugger_instance\<close> is null).
\<close>

section \<open>Evaluation\<close>

type_synonym 'a eval = "ystate \<Rightarrow> ('a \<times> ystate) outcome"
type_synonym evaluator = "ycode \<Rightarrow> bool \<Rightarrow> yvalue eval"

record yenv =
  e_prog :: program
  e_builtin :: "nat \<Rightarrow> evaluator \<Rightarrow> yvalue list \<Rightarrow> yvalue eval"
  e_handler :: "nat \<Rightarrow> nat \<Rightarrow> nat \<Rightarrow> yvalue list \<Rightarrow> yvalue eval"
  e_foreign :: "nat \<Rightarrow> yvalue list \<Rightarrow> yvalue eval"
  e_flex_rounds :: nat
  e_dgettext :: "string \<Rightarrow> string \<Rightarrow> string"
  e_dngettext :: "string \<Rightarrow> string \<Rightarrow> string \<Rightarrow> int64 \<Rightarrow> string"

definition eret :: "'a \<Rightarrow> 'a eval" where
  "eret a = (\<lambda>st. Ret (a, st))"

definition ebind :: "'a eval \<Rightarrow> ('a \<Rightarrow> 'b eval) \<Rightarrow> 'b eval" where
  "ebind m f = (\<lambda>st. obind (m st) (\<lambda>(a, st1). f a st1))"

definition eundef :: "'a eval" where
  "eundef = (\<lambda>st. Undef)"

definition emodify :: "(ystate \<Rightarrow> ystate) \<Rightarrow> unit eval" where
  "emodify f = (\<lambda>st. Ret ((), f st))"

text \<open>An operation that is undefined, or does not end, in some states.\<close>

definition epartial :: "(ystate \<Rightarrow> ystate option) \<Rightarrow> unit eval" where
  "epartial f = (\<lambda>st. case f st of None \<Rightarrow> Undef | Some st1 \<Rightarrow> Ret ((), st1))"

definition eread :: "(ystate \<Rightarrow> 'a) \<Rightarrow> 'a eval" where
  "eread f = (\<lambda>st. Ret (f st, st))"

definition esome :: "'a option \<Rightarrow> 'a eval" where
  "esome r = (case r of None \<Rightarrow> eundef | Some a \<Rightarrow> eret a)"

lemmas eval_defs = eret_def ebind_def eundef_def emodify_def epartial_def eread_def esome_def

definition nil :: "'c ycp \<Rightarrow> bool" where
  "nil v \<longleftrightarrow> isNull v \<or> isVoid v"

section \<open>Variables, terms, comparison\<close>

definition yevariable_evaluate :: "yenv \<Rightarrow> nat \<Rightarrow> bool \<Rightarrow> yvalue eval" where
  "yevariable_evaluate E e cse =
     (if cse then eret YNull
      else ebind (eread (\<lambda>st. sym_value (e_prog E) st e)) (\<lambda>r. ebind (esome r) (\<lambda>v.
        if isNull v
        then eret (if p_category (e_prog E) e \<noteq> c_function then YVoid else YReference e)
        else eret v)))"

definition yereference_evaluate :: "nat \<Rightarrow> bool \<Rightarrow> yvalue eval" where
  "yereference_evaluate e cse = eret (if cse then YNull else YReference e)"

fun yeterm_evaluate :: "evaluator \<Rightarrow> string \<Rightarrow> yvalue list \<Rightarrow> ycode list \<Rightarrow> bool \<Rightarrow> yvalue eval" where
  "yeterm_evaluate ev name vs [] cse = eret (YTerm name vs)"
| "yeterm_evaluate ev name vs (c # cs) cse =
     ebind (ev c cse) (\<lambda>v. if isNull v then eret YNull else yeterm_evaluate ev name (vs @ [v]) cs cse)"

text \<open>The comparison operators are sets of bits: \<^verbatim>\<open>C_NOT = 1\<close>, \<^verbatim>\<open>C_EQ = 2\<close>, \<^verbatim>\<open>C_LT = 4\<close>.\<close>

abbreviation C_EQ :: nat where "C_EQ \<equiv> 2"
abbreviation C_NEQ :: nat where "C_NEQ \<equiv> 3"
abbreviation C_LT :: nat where "C_LT \<equiv> 4"
abbreviation C_GE :: nat where "C_GE \<equiv> 5"
abbreviation C_LE :: nat where "C_LE \<equiv> 6"
abbreviation C_GT :: nat where "C_GT \<equiv> 7"

definition compare_values :: "nat \<Rightarrow> yvalue \<Rightarrow> yvalue \<Rightarrow> yvalue" where
  "compare_values op vl vr =
     (if (nil vl \<or> nil vr) \<and> op \<noteq> C_EQ \<and> op \<noteq> C_NEQ then YNull
      else if nil vl then (if op = C_NEQ then YBoolean (\<not> nil vr) else YBoolean (nil vr))
      else if nil vr then YBoolean (op = C_NEQ)
      else let order = compare vl vr in
        if op = C_EQ then YBoolean (order = YO_EQUAL)
        else if op = C_NEQ then YBoolean (order \<noteq> YO_EQUAL)
        else if op = C_LT then YBoolean (order = YO_LESS)
        else if op = C_GE then YBoolean (order \<noteq> YO_LESS)
        else if op = C_LE then YBoolean (order = YO_EQUAL \<or> order = YO_LESS)
        else if op = C_GT then YBoolean (order = YO_GREATER)
        else YBoolean False)"

definition yecompare_evaluate :: "evaluator \<Rightarrow> ycode \<Rightarrow> nat \<Rightarrow> ycode \<Rightarrow> bool \<Rightarrow> yvalue eval" where
  "yecompare_evaluate ev l op r cse =
     (if cse then eret YNull
      else ebind (ev l cse) (\<lambda>vl. ebind (ev r cse) (\<lambda>vr. eret (compare_values op vl vr))))"

section \<open>Texts, lists, maps\<close>

definition ylocale_evaluate :: "yenv \<Rightarrow> string \<Rightarrow> string \<Rightarrow> bool \<Rightarrow> yvalue eval" where
  "ylocale_evaluate E text domain cse = eret (if cse then YNull else YString (e_dgettext E domain text))"

definition yelocale_evaluate ::
  "yenv \<Rightarrow> evaluator \<Rightarrow> string \<Rightarrow> string \<Rightarrow> ycode \<Rightarrow> string \<Rightarrow> bool \<Rightarrow> yvalue eval" where
  "yelocale_evaluate E ev singular plural cnt domain cse =
     (if cse then eret YNull
      else ebind (ev cnt False) (\<lambda>v. case v of
        YInteger i \<Rightarrow> eret (YString (e_dngettext E domain singular plural i))
      | _ \<Rightarrow> eret YNull))"

fun yelist_evaluate :: "evaluator \<Rightarrow> yvalue list \<Rightarrow> ycode list \<Rightarrow> bool \<Rightarrow> yvalue eval" where
  "yelist_evaluate ev vs [] cse = eret (YList vs)"
| "yelist_evaluate ev vs (c # cs) cse =
     ebind (ev c cse) (\<lambda>v.
       if isNull v then if cse then eret v else yelist_evaluate ev (vs @ [YVoid]) cs cse
       else yelist_evaluate ev (vs @ [v]) cs cse)"

text \<open>A null key of a pair whose key expression is no constant is used by \<^verbatim>\<open>YCPMap::add\<close>.\<close>

fun yemap_evaluate :: "evaluator \<Rightarrow> ycode ymap \<Rightarrow> (ycode \<times> ycode) list \<Rightarrow> bool \<Rightarrow> yvalue eval" where
  "yemap_evaluate ev m [] cse = eret (YMap m)"
| "yemap_evaluate ev m ((kc, vc) # cs) cse =
     ebind (ev kc cse) (\<lambda>k.
       if isNull k \<and> (isConstant kc \<or> cse) then eret YNull
       else ebind (ev vc cse) (\<lambda>v.
         if isNull v \<and> cse then eret v
         else if isNull k then eundef
         else yemap_evaluate ev (ymap_add m k v) cs cse))"

section \<open>Type propagation and \<open>is\<close>\<close>

fun canPropagate :: "yvalue \<Rightarrow> ytype \<Rightarrow> bool" where
  "canPropagate v t =
     (if nil v \<or> m_kind t = AnyT \<or> m_kind t = UnspecT \<or> (isBasetype t \<and> valuetype v = type_valueType t) then True
      else case t of
        ListType e q \<Rightarrow>
          (case v of
             YList xs \<Rightarrow> m_kind e = AnyT \<or> m_kind e = UnspecT \<or> list_all (\<lambda>x. canPropagate x e) xs
           | _ \<Rightarrow> False)
      | MapType kt e q \<Rightarrow>
          (case v of
             YMap m \<Rightarrow> (m_kind e = AnyT \<and> m_kind kt = AnyT) \<or> (m_kind e = UnspecT \<and> m_kind kt = UnspecT)
               \<or> list_all (\<lambda>p. canPropagate (fst p) kt \<and> canPropagate (snd p) e) m
           | _ \<Rightarrow> False)
      | FunctionType r a q \<Rightarrow> (case v of YCode c \<Rightarrow> isFunctionCode c | _ \<Rightarrow> False)
      | _ \<Rightarrow> False)"

declare canPropagate.simps [simp del]

definition propagate_value :: "program \<Rightarrow> ytype \<Rightarrow> yvalue \<Rightarrow> yvalue eval" where
  "propagate_value P to v =
     (if nil v then eret v
      else case v of
        YInteger i \<Rightarrow> if m_kind to = FloatT then eret (YFloat (dbl_of_int (sint i)))
                      else eret (if canPropagate v to then v else YNull)
      | YFloat d \<Rightarrow> if m_kind to = IntegerT then ebind (esome (dbl_to_int d)) (\<lambda>i. eret (YInteger i))
                    else eret (if canPropagate v to then v else YNull)
      | YReference e \<Rightarrow> ebind (esome (match to (p_type P e))) (\<lambda>r.
                          eret (if r = 0 \<or> canPropagate v to then v else YNull))
      | _ \<Rightarrow> eret (if canPropagate v to then v else YNull))"

definition yepropagate_evaluate :: "yenv \<Rightarrow> evaluator \<Rightarrow> ycode \<Rightarrow> ytype \<Rightarrow> bool \<Rightarrow> yvalue eval" where
  "yepropagate_evaluate E ev c to cse =
     (if cse then eret YNull else ebind (ev c False) (propagate_value (e_prog E) to))"

text \<open>\<^verbatim>\<open>type ()\<close> of code; \<^const>\<open>None\<close> where a null pointer would be used.\<close>

definition const_type :: "ckind \<Rightarrow> ytype" where
  "const_type k =
     (case k of
        ycVoid \<Rightarrow> PlainType VoidT constq | ycBoolean \<Rightarrow> PlainType BooleanT constq
      | ycInteger \<Rightarrow> PlainType IntegerT constq | ycFloat \<Rightarrow> PlainType FloatT constq
      | ycString \<Rightarrow> PlainType StringT constq | ycByteblock \<Rightarrow> PlainType ByteblockT constq
      | ycPath \<Rightarrow> PlainType PathT constq | ycSymbol \<Rightarrow> PlainType SymbolT constq
      | ycList \<Rightarrow> ListType Unspec noq | ycMap \<Rightarrow> MapType Unspec Unspec noq
      | ycTerm \<Rightarrow> PlainType TermT constq | ycEntry \<Rightarrow> Unspec)"

definition osome :: "'a option \<Rightarrow> 'a outcome" where
  "osome r = (case r of None \<Rightarrow> Undef | Some a \<Rightarrow> Ret a)"

fun fold_common :: "ytype outcome list \<Rightarrow> ytype outcome" where
  "fold_common [] = Undef"
| "fold_common (t # ts) = foldl (\<lambda>a b. obind a (\<lambda>x. obind b (\<lambda>y. osome (commontype x y)))) t ts"

definition return_type :: "ytype \<Rightarrow> ytype outcome" where
  "return_type t = (case t of FunctionType r a q \<Rightarrow> Ret r | _ \<Rightarrow> Undef)"

text \<open>
  \<^verbatim>\<open>YEBinary::type\<close> tests its flags with \<^verbatim>\<open>&&\<close>: any flag at all makes it look for a flexible type.  The first
  number bounds the rounds of \<^verbatim>\<open>determineFlexType\<close>.
\<close>

fun code_type :: "nat \<Rightarrow> program \<Rightarrow> ycode \<Rightarrow> ytype outcome" where
  "code_type n P (YConst k v) = Ret (const_type k)"
| "code_type n P (YLocale s d) = Ret (PlainType LocaleT noq)"
| "code_type n P (YFunction f) =
     Ret (FunctionType Unspec
       (case f_params (p_function P f) of [] \<Rightarrow> None | es \<Rightarrow> Some (map (p_type P) es, noq)) noq)"
| "code_type n P (YEVariable e) = Ret (p_type P e)"
| "code_type n P (YEReference e) = osome (map_option asReference (clone (p_type P e)))"
| "code_type n P (YETerm m cs) = Ret (PlainType TermT noq)"
| "code_type n P (YECompare l op r) = Ret (PlainType BooleanT noq)"
| "code_type n P (YELocale s p c d) = Ret (PlainType LocaleT noq)"
| "code_type n P (YEList cs) = obind (fold_common (map (code_type n P) cs)) (\<lambda>t. Ret (ListType t noq))"
| "code_type n P (YEMap cs) =
     obind (fold_common (map (\<lambda>p. code_type n P (fst p)) cs)) (\<lambda>k.
     obind (fold_common (map (\<lambda>p. code_type n P (snd p)) cs)) (\<lambda>v. Ret (MapType k v noq)))"
| "code_type n P (YEPropagate c f t) = Ret t"
| "code_type n P (YEUnary d c) = return_type (d_type d)"
| "code_type n P (YEBinary d a b) =
     (if d_flags d \<noteq> 0
      then obind (code_type n P a) (\<lambda>ta. obind (code_type n P b) (\<lambda>tb.
           obind (determineFlexType n (FunctionType Unspec (Some ([ta, tb], noq)) noq) (d_type d)) (\<lambda>r.
             case r of None \<Rightarrow> Ret Unspec | Some t \<Rightarrow> return_type t)))
      else return_type (d_type d))"
| "code_type n P (YETriple c a b) =
     obind (code_type n P a) (\<lambda>ta. obind (code_type n P b) (\<lambda>tb. osome (commontype ta tb)))"
| "code_type n P (YEIs c t) = Ret (PlainType BooleanT noq)"
| "code_type n P (YEReturn c) = code_type n P c"
| "code_type n P (YEBracket v a d t) = Ret t"
| "code_type n P (YEBuiltin d t b cs) =
     obind (return_type t) (\<lambda>r. if m_kind r \<noteq> UnspecT then Ret r else return_type (d_type d))"
| "code_type n P (YEFunction e cs) = return_type (p_type P e)"
| "code_type n P (YEFunctionPointer e cs) = return_type (p_type P e)"
| "code_type n P (YBlock b k f ss) = Ret (p_blocktype P b)"
| "code_type n P c = Ret (PlainType VoidT noq)"

definition eout :: "'a outcome \<Rightarrow> 'a eval" where
  "eout r = (\<lambda>st. obind r (\<lambda>a. Ret (a, st)))"

definition is_value :: "yenv \<Rightarrow> ytype \<Rightarrow> yvalue \<Rightarrow> bool outcome" where
  "is_value E t v =
     (let vt = (\<lambda>r. obind r (\<lambda>value_type. obind (osome (match value_type t)) (\<lambda>m. Ret (m \<ge> 0)))) in
      case v of
        YCode c \<Rightarrow>
          vt (obind (code_type (e_flex_rounds E) (e_prog E) c) (\<lambda>ct.
                Ret (if isFunctionCode c then ct else BlockType ct noq)))
      | YReference e \<Rightarrow> vt (Ret (p_type (e_prog E) e))
      | _ \<Rightarrow> obind (osome (matchvalue t v)) (\<lambda>m. Ret (m \<ge> 0)))"

definition yeis_evaluate :: "yenv \<Rightarrow> evaluator \<Rightarrow> ycode \<Rightarrow> ytype \<Rightarrow> bool \<Rightarrow> yvalue eval" where
  "yeis_evaluate E ev c t cse =
     ebind (ev c cse) (\<lambda>v. if isNull v then eret v else ebind (eout (is_value E t v)) (\<lambda>b. eret (YBoolean b)))"

section \<open>Operators\<close>

definition call_ptr :: "yenv \<Rightarrow> evaluator \<Rightarrow> declaration_t \<Rightarrow> yvalue list \<Rightarrow> yvalue eval" where
  "call_ptr E ev d args = (case d_ptr d of None \<Rightarrow> eundef | Some f \<Rightarrow> e_builtin E f ev args)"

definition yeunary_evaluate :: "yenv \<Rightarrow> evaluator \<Rightarrow> declaration_t \<Rightarrow> ycode \<Rightarrow> bool \<Rightarrow> yvalue eval" where
  "yeunary_evaluate E ev d c cse =
     (if cse then eret YNull
      else ebind (ev c False) (\<lambda>v.
        if isNull v \<and> \<not> has_flag d DECL_NIL then eret YNull else call_ptr E ev d [v]))"

definition yebinary_evaluate :: "yenv \<Rightarrow> evaluator \<Rightarrow> declaration_t \<Rightarrow> ycode \<Rightarrow> ycode \<Rightarrow> bool \<Rightarrow> yvalue eval" where
  "yebinary_evaluate E ev d a b cse =
     (if cse then eret YNull
      else if has_flag d DECL_NOEVAL then call_ptr E ev d [YCode a, YCode b]
      else ebind (ev a False) (\<lambda>va.
        if nil va \<and> \<not> has_flag d DECL_NIL then eret YNull
        else ebind (ev b False) (\<lambda>vb.
          if nil vb \<and> \<not> has_flag d DECL_NIL then eret YNull else call_ptr E ev d [va, vb])))"

definition yetriple_evaluate :: "evaluator \<Rightarrow> ycode \<Rightarrow> ycode \<Rightarrow> ycode \<Rightarrow> bool \<Rightarrow> yvalue eval" where
  "yetriple_evaluate ev c a b cse =
     (if cse then eret YNull
      else ebind (ev c False) (\<lambda>v.
        if nil v then ev b False
        else case v of YBoolean t \<Rightarrow> if t then ev a False else ev b False | _ \<Rightarrow> eret YNull))"

section \<open>Bracket expressions\<close>

definition bracket_step :: "'c ycp \<Rightarrow> 'c ycp \<Rightarrow> 'c ycp" where
  "bracket_step result v =
     (case result of
        YList l \<Rightarrow> (case v of YInteger i \<Rightarrow> list_value l (sint i) | _ \<Rightarrow> YNull)
      | YTerm n l \<Rightarrow> (case v of YInteger i \<Rightarrow> list_value l (sint i) | _ \<Rightarrow> YNull)
      | YMap m \<Rightarrow> ymap_value m v
      | _ \<Rightarrow> YNull)"

fun bracket_walk :: "'c ycp \<Rightarrow> 'c ycp list \<Rightarrow> 'c ycp" where
  "bracket_walk result [] = result"
| "bracket_walk result (v # vs) =
     (if isNull v then YNull
      else let r = bracket_step result v in if isNull r then YNull else bracket_walk r vs)"

definition yebracket_evaluate :: "evaluator \<Rightarrow> ycode \<Rightarrow> ycode \<Rightarrow> ycode \<Rightarrow> bool \<Rightarrow> yvalue eval" where
  "yebracket_evaluate ev var arg def cse =
     ebind (ev var cse) (\<lambda>v.
       if cse \<and> isNull v then eret YNull
       else if nil v then ev def cse
       else ebind (ev arg cse) (\<lambda>a.
         if cse \<and> isNull a then eret YNull
         else case a of
           YList is \<Rightarrow> let r = bracket_walk v is in if isNull r then ev def cse else eret r
         | _ \<Rightarrow> ev def cse))"

section \<open>Builtin calls\<close>

definition builtin_arg :: "evaluator \<Rightarrow> declaration_t \<Rightarrow> ycode \<Rightarrow> yvalue eval" where
  "builtin_arg ev d c =
     (if isBlock c \<or> has_flag d DECL_NOEVAL then eret (YCode c)
      else case c of YConst ycEntry v \<Rightarrow> eret v | _ \<Rightarrow> ev c False)"

text \<open>
  The loop over the arguments: at most ten; from the position of \<^verbatim>\<open>...\<close> on they are collected in a list.
  \<^const>\<open>None\<close> ends the call with null.
\<close>

fun builtin_args ::
  "evaluator \<Rightarrow> declaration_t \<Rightarrow> (ytype list \<times> tquals) option \<Rightarrow> nat option \<Rightarrow> yvalue list \<Rightarrow> yvalue list
    \<Rightarrow> ycode list \<Rightarrow> (nat option \<times> yvalue list \<times> yvalue list) option eval" where
  "builtin_args ev d ps typepos args wild [] = eret (Some (typepos, args, wild))"
| "builtin_args ev d ps typepos args wild (c # cs) =
     (if 10 \<le> length args then eret None
      else ebind (builtin_arg ev d c) (\<lambda>v.
        if nil v \<and> \<not> has_flag d DECL_NIL then eret None
        else let tp = (if typepos = None \<and> m_kind (fun_parameterType ps (length args)) = WildcardT
                       then Some (length args) else typepos) in
             builtin_args ev d ps tp (args @ [v]) (if tp = None then wild else wild @ [v]) cs))"

definition pad_args :: "nat option \<Rightarrow> yvalue list \<Rightarrow> yvalue list \<Rightarrow> yvalue list" where
  "pad_args typepos args wild =
     (let full = args @ replicate (10 - length args) YNull in
      case typepos of None \<Rightarrow> full | Some i \<Rightarrow> full[i := YList wild])"

definition with_block :: "program \<Rightarrow> nat option \<Rightarrow> yvalue eval \<Rightarrow> yvalue eval" where
  "with_block P b m =
     (case b of
        None \<Rightarrow> m
      | Some k \<Rightarrow> ebind (emodify (\<lambda>st. pushToStack P st k)) (\<lambda>_. ebind m (\<lambda>v.
                    ebind (epartial (\<lambda>st. popFromStack P st k)) (\<lambda>_. eret v))))"

definition yebuiltin_evaluate ::
  "yenv \<Rightarrow> evaluator \<Rightarrow> declaration_t \<Rightarrow> nat option \<Rightarrow> ycode list \<Rightarrow> bool \<Rightarrow> yvalue eval" where
  "yebuiltin_evaluate E ev d block cs cse =
     (if cse then eret YNull
      else case d_type d of
        FunctionType r ps q \<Rightarrow>
          ebind (builtin_args ev d ps None [] [] cs) (\<lambda>res. case res of
            None \<Rightarrow> eret YNull
          | Some (typepos, args, wild) \<Rightarrow>
              let full = pad_args typepos args wild; n = fun_parameterCount ps in
              (case d_ptr d of
                 None \<Rightarrow> eret YNull
               | Some f \<Rightarrow>
                   (case d_handler d of
                      Some (Some h) \<Rightarrow> e_handler E h f n full
                    | Some None \<Rightarrow> eret YNull
                    | None \<Rightarrow>
                        with_block (e_prog E) block
                          (if n \<le> 5 then e_builtin E f ev (take n full) else eret YNull))))
      | _ \<Rightarrow> eundef)"

section \<open>Function calls\<close>

fun call_args :: "evaluator \<Rightarrow> yvalue list \<Rightarrow> ycode list \<Rightarrow> yvalue list option eval" where
  "call_args ev vs [] = eret (Some vs)"
| "call_args ev vs (c # cs) =
     ebind (ev c False) (\<lambda>v. if isNull v then eret None else call_args ev (vs @ [v]) cs)"

text \<open>
  \<^verbatim>\<open>formalp->setValue (value)\<close> for all parameters; \<open>False\<close> at the first parameter that has no value.
\<close>

fun set_params :: "program \<Rightarrow> nat list \<Rightarrow> yvalue list \<Rightarrow> bool eval" where
  "set_params P [] vs = eret True"
| "set_params P (e # es) vs =
     (case vs of
        [] \<Rightarrow> eret False
      | v # vs1 \<Rightarrow>
          if isNull v then eret False
          else ebind (epartial (\<lambda>st. setValue P st e v)) (\<lambda>_. set_params P es vs1))"

definition with_context :: "'a eval \<Rightarrow> 'a eval" where
  "with_context m =
     ebind (eread m_linenumber) (\<lambda>l. ebind (eread m_filename) (\<lambda>f. ebind m (\<lambda>v.
       ebind (emodify (\<lambda>st. setFilename (setLinenumber st l) f)) (\<lambda>_. eret v))))"

text \<open>
  \<^verbatim>\<open>Y2YCPFunction::evaluateCall\<close>.  A function that is only declared leaves its parameters on their stacks.
\<close>

definition ycp_evaluateCall :: "yenv \<Rightarrow> evaluator \<Rightarrow> nat \<Rightarrow> yvalue list \<Rightarrow> yvalue eval" where
  "ycp_evaluateCall E ev f args =
     (let P = e_prog E; fn = p_function P f; ps = f_params fn in
      ebind (emodify (\<lambda>st. push_all st ps)) (\<lambda>_.
        case f_definition fn of
          None \<Rightarrow> eret YNull
        | Some def \<Rightarrow>
            ebind (set_params P ps args) (\<lambda>ok.
              ebind (if ok then with_context (ev def False) else eret YNull) (\<lambda>v.
              ebind (epartial (\<lambda>st. pop_all st ps)) (\<lambda>_. eret v)))))"

text \<open>\<^verbatim>\<open>attachParameter\<close> writes one element behind the parameters when there is one argument too many.\<close>

definition evaluateCall :: "yenv \<Rightarrow> evaluator \<Rightarrow> callee \<Rightarrow> yvalue list \<Rightarrow> yvalue eval" where
  "evaluateCall E ev c args =
     (case c of
        YCPFunction f \<Rightarrow>
          if length (f_params (p_function (e_prog E) f)) < length args then eundef
          else ycp_evaluateCall E ev f args
      | Foreign k \<Rightarrow> e_foreign E k args)"

definition yefunction_evaluate :: "yenv \<Rightarrow> evaluator \<Rightarrow> nat \<Rightarrow> ycode list \<Rightarrow> bool \<Rightarrow> yvalue eval" where
  "yefunction_evaluate E ev e cs cse =
     (if cse then eret YNull
      else case p_callee (e_prog E) e of
        None \<Rightarrow> eret YVoid
      | Some callee \<Rightarrow>
          ebind (call_args ev [] cs) (\<lambda>r. case r of
            None \<Rightarrow> eret YNull
          | Some args \<Rightarrow>
              ebind (eread (endlessRecursion (e_prog E))) (\<lambda>endless.
                if endless then eret YVoid
                else with_context (
                  ebind (emodify (\<lambda>st. pushframe st e args)) (\<lambda>_.
                  ebind (evaluateCall E ev callee args) (\<lambda>v.
                  ebind (emodify popframe) (\<lambda>_. eret v)))))))"

definition yefunctionpointer_evaluate :: "yenv \<Rightarrow> evaluator \<Rightarrow> nat \<Rightarrow> ycode list \<Rightarrow> bool \<Rightarrow> yvalue eval" where
  "yefunctionpointer_evaluate E ev e cs cse =
     (if cse then eret YNull
      else ebind (eread (\<lambda>st. sym_value (e_prog E) st e)) (\<lambda>r. ebind (esome r) (\<lambda>ptr.
        case ref_target ptr of
          None \<Rightarrow> eret YVoid
        | Some target \<Rightarrow>
            (case p_callee (e_prog E) target of
               None \<Rightarrow> eret YVoid
             | Some callee \<Rightarrow>
                 ebind (call_args ev [] cs) (\<lambda>r. case r of
                   None \<Rightarrow> eret YNull
                 | Some args \<Rightarrow> with_context (evaluateCall E ev callee args))))))"

section \<open>Blocks\<close>

fun block_loop :: "evaluator \<Rightarrow> (int \<times> ycode) list \<Rightarrow> yvalue option eval" where
  "block_loop ev [] = eret None"
| "block_loop ev ((l, s) # ss) =
     ebind (emodify (\<lambda>st. setLinenumber st l)) (\<lambda>_. ebind (ev s False) (\<lambda>v.
       if isNull v then block_loop ev ss else eret (Some v)))"

definition with_filename :: "string \<Rightarrow> 'a eval \<Rightarrow> 'a eval" where
  "with_filename file m =
     (if file = [] then m
      else ebind (eread m_filename) (\<lambda>restore. ebind (emodify (\<lambda>st. setFilename st file)) (\<lambda>_. ebind m (\<lambda>v.
        ebind (emodify (\<lambda>st. if restore = [] then st else setFilename st restore)) (\<lambda>_. eret v)))))"

definition set_running :: "nat \<Rightarrow> bool \<Rightarrow> unit eval" where
  "set_running b r = emodify (\<lambda>st. st\<lparr>m_running := (m_running st)(b := r)\<rparr>)"

definition run_block :: "yenv \<Rightarrow> evaluator \<Rightarrow> nat \<Rightarrow> blockkind \<Rightarrow> bool \<Rightarrow> string \<Rightarrow> (int \<times> ycode) list \<Rightarrow> yvalue eval" where
  "run_block E ev b kind push_module file stmts =
     (let P = e_prog E in
      ebind (eread (\<lambda>st. m_running st b)) (\<lambda>old.
      ebind (emodify (\<lambda>st. if old \<and> (push_module \<or> kind \<noteq> b_module) then pushToStack P st b else st)) (\<lambda>_.
      ebind (set_running b True) (\<lambda>_.
      ebind (with_filename file (block_loop ev stmts)) (\<lambda>r.
      ebind (set_running b old) (\<lambda>_.
      ebind (if old \<and> kind \<noteq> b_module then epartial (\<lambda>st. popFromStack P st b) else eret ()) (\<lambda>_.
        eret (case r of Some v \<Rightarrow> v | None \<Rightarrow> if kind = b_statement then YNull else YVoid))))))))"

text \<open>
  \<^verbatim>\<open>YBlock::evaluate (bool)\<close> and \<^verbatim>\<open>YBlock::evaluateFrom\<close>, which pushes the variables of a module too but does
  not pop them.
\<close>

definition yblock_evaluate :: "yenv \<Rightarrow> evaluator \<Rightarrow> nat \<Rightarrow> blockkind \<Rightarrow> string \<Rightarrow> (int \<times> ycode) list \<Rightarrow> bool \<Rightarrow> yvalue eval" where
  "yblock_evaluate E ev b kind file stmts cse =
     (if cse then eret YNull else run_block E ev b kind False file stmts)"

definition yblock_evaluateFrom :: "yenv \<Rightarrow> evaluator \<Rightarrow> ycode \<Rightarrow> nat \<Rightarrow> yvalue eval" where
  "yblock_evaluateFrom E ev c i =
     (case c of
        YBlock b kind file stmts \<Rightarrow> run_block E ev b kind True file (drop i stmts)
      | _ \<Rightarrow> eundef)"

section \<open>Statements\<close>

definition ysexpression_evaluate :: "evaluator \<Rightarrow> ycode \<Rightarrow> bool \<Rightarrow> yvalue eval" where
  "ysexpression_evaluate ev c cse = ebind (ev c cse) (\<lambda>_. eret YNull)"

definition ysreturn_evaluate :: "evaluator \<Rightarrow> ycode option \<Rightarrow> bool \<Rightarrow> yvalue eval" where
  "ysreturn_evaluate ev c cse =
     (if cse then eret YNull
      else case c of
        None \<Rightarrow> eret YReturn
      | Some d \<Rightarrow> ebind (ev d cse) (\<lambda>v. eret (if \<not> nil v then v else YReturn)))"

definition ysassign_evaluate :: "yenv \<Rightarrow> evaluator \<Rightarrow> nat \<Rightarrow> ycode \<Rightarrow> bool \<Rightarrow> yvalue eval" where
  "ysassign_evaluate E ev e c cse =
     (if cse then eret YNull
      else ebind (ev c False) (\<lambda>v.
        ebind (epartial (\<lambda>st. setValue (e_prog E) st e (if isNull v then YVoid else v))) (\<lambda>_. eret YNull)))"

text \<open>An index of an assignment is cut down to an \<^verbatim>\<open>int\<close>.\<close>

definition to_int32 :: "int64 \<Rightarrow> int" where
  "to_int32 i = sint (ucast i :: 32 word)"

fun commit :: "'c ycp \<Rightarrow> 'c ycp list \<Rightarrow> 'c ycp \<Rightarrow> 'c ycp" where
  "commit current [] v = v"
| "commit current (a # as) v =
     (if isNull current \<or> isNull a then YNull
      else case current of
        YList xs \<Rightarrow>
          (case a of
             YInteger i \<Rightarrow>
               let w = (if as = [] then v else commit (list_value xs (to_int32 i)) as v) in
               if as \<noteq> [] \<and> isNull w then YNull
               else YList (list_set xs (to_int32 i) (if isNull w then YVoid else w))
           | _ \<Rightarrow> YNull)
      | YMap m \<Rightarrow>
          let w = (if as = [] then v else commit (ymap_value m a) as v) in
          if as \<noteq> [] \<and> isNull w then YNull
          else ymap_functionalAdd m a (if isNull w then YVoid else w)
      | YTerm n xs \<Rightarrow>
          (case a of
             YInteger i \<Rightarrow>
               let w = (if as = [] then v else commit (list_value xs (to_int32 i)) as v) in
               if as \<noteq> [] \<and> isNull w then YNull
               else YTerm n (list_set xs (to_int32 i) (if isNull w then YVoid else w))
           | _ \<Rightarrow> YNull)
      | _ \<Rightarrow> YNull)"

definition ysbracket_evaluate :: "yenv \<Rightarrow> evaluator \<Rightarrow> nat \<Rightarrow> ycode \<Rightarrow> ycode \<Rightarrow> bool \<Rightarrow> yvalue eval" where
  "ysbracket_evaluate E ev e arg c cse =
     (if cse then eret YNull
      else ebind (ev arg False) (\<lambda>a. ebind (ev c False) (\<lambda>new.
        ebind (eread (\<lambda>st. sym_value (e_prog E) st e)) (\<lambda>s. ebind (esome s) (\<lambda>old.
          case a of
            YList is \<Rightarrow>
              let r = commit (if isNull old then YVoid else old) is (if isNull new then YVoid else new) in
              if isNull r then eret YNull
              else ebind (epartial (\<lambda>st. setValue (e_prog E) st e r)) (\<lambda>_. eret YNull)
          | _ \<Rightarrow> eret YNull)))))"

definition is_true :: "'c ycp \<Rightarrow> bool" where
  "is_true v = (case v of YBoolean t \<Rightarrow> t | _ \<Rightarrow> False)"

definition ysif_evaluate :: "evaluator \<Rightarrow> ycode \<Rightarrow> ycode option \<Rightarrow> ycode option \<Rightarrow> bool \<Rightarrow> yvalue eval" where
  "ysif_evaluate ev c a b cse =
     ebind (ev c cse) (\<lambda>v.
       if isNull v then eret YNull
       else case (if is_true v then a else b) of None \<Rightarrow> eret YNull | Some s \<Rightarrow> ev s cse)"

text \<open>
  The loops.  A round that goes on evaluates the statement again.  What the body returned decides: null and \<^verbatim>\<open>nil\<close>
  (\<^verbatim>\<open>continue\<close>) go on, \<^verbatim>\<open>break\<close> ends the loop, everything else leaves it as a \<^verbatim>\<open>return\<close>.
\<close>

definition opt_evaluate :: "evaluator \<Rightarrow> ycode option \<Rightarrow> yvalue eval" where
  "opt_evaluate ev c = (case c of None \<Rightarrow> eret YNull | Some d \<Rightarrow> ev d False)"

definition yswhile_evaluate :: "evaluator \<Rightarrow> ycode \<Rightarrow> ycode option \<Rightarrow> bool \<Rightarrow> yvalue eval" where
  "yswhile_evaluate ev c body cse =
     (if cse then eret YNull
      else ebind (ev c False) (\<lambda>b.
        case b of
          YBoolean True \<Rightarrow>
            ebind (opt_evaluate ev body) (\<lambda>l.
              if isNull l then ev (YSWhile c body) False
              else if isBreak l then eret YNull
              else if isReturn l then eret l
              else if isVoid l then ev (YSWhile c body) False
              else eret l)
        | _ \<Rightarrow> eret YNull))"

text \<open>The two loops that test at the end differ in the value of the condition that ends them.\<close>

definition loop_tail :: "evaluator \<Rightarrow> ycode \<Rightarrow> bool \<Rightarrow> ycode \<Rightarrow> yvalue \<Rightarrow> yvalue eval" where
  "loop_tail ev again stop c l =
     (if nil l
      then ebind (ev c False) (\<lambda>b.
             case b of YBoolean t \<Rightarrow> if t = stop then eret YNull else ev again False | _ \<Rightarrow> eret YNull)
      else if isBreak l then eret YNull
      else eret l)"

definition ysrepeat_evaluate :: "evaluator \<Rightarrow> ycode option \<Rightarrow> ycode \<Rightarrow> bool \<Rightarrow> yvalue eval" where
  "ysrepeat_evaluate ev body c cse =
     (if cse then eret YNull
      else ebind (opt_evaluate ev body) (loop_tail ev (YSRepeat body c) True c))"

definition ysdo_evaluate :: "evaluator \<Rightarrow> ycode option \<Rightarrow> ycode \<Rightarrow> bool \<Rightarrow> yvalue eval" where
  "ysdo_evaluate ev body c cse =
     (if cse then eret YNull
      else ebind (opt_evaluate ev body) (loop_tail ev (YSDo body c) False c))"

text \<open>\<^verbatim>\<open>Y2Namespace::initialize\<close>: once, the module block and then the function of the module's own name.\<close>

definition ns_initialize :: "yenv \<Rightarrow> evaluator \<Rightarrow> nat \<Rightarrow> unit eval" where
  "ns_initialize E ev ns =
     ebind (eread (\<lambda>st. m_initialized st ns)) (\<lambda>done.
       if done then eret ()
       else ebind (emodify (\<lambda>st. st\<lparr>m_initialized := (m_initialized st)(ns := True)\<rparr>)) (\<lambda>_.
            ebind (ev (p_module (e_prog E) ns) False) (\<lambda>_.
              case p_constructor (e_prog E) ns of
                None \<Rightarrow> eret ()
              | Some callee \<Rightarrow> ebind (evaluateCall E ev callee []) (\<lambda>_. eret ()))))"

definition ysimport_evaluate :: "yenv \<Rightarrow> evaluator \<Rightarrow> nat option \<Rightarrow> bool \<Rightarrow> yvalue eval" where
  "ysimport_evaluate E ev ns cse =
     (case ns of
        Some k \<Rightarrow> if cse then eret YNull else ebind (ns_initialize E ev k) (\<lambda>_. eret YNull)
      | None \<Rightarrow> eret YNull)"

definition set_filename_evaluate :: "string \<Rightarrow> bool \<Rightarrow> bool \<Rightarrow> yvalue eval" where
  "set_filename_evaluate file skipped cse =
     (if \<not> cse \<and> \<not> skipped then ebind (emodify (\<lambda>st. setFilename st file)) (\<lambda>_. eret YNull) else eret YNull)"

text \<open>\<^verbatim>\<open>YSSwitch\<close>: a \<^verbatim>\<open>break\<close> ends the switch and is not passed on.\<close>

definition ysswitch_evaluate ::
  "yenv \<Rightarrow> evaluator \<Rightarrow> ycode \<Rightarrow> (yvalue \<times> nat) list \<Rightarrow> nat option \<Rightarrow> ycode \<Rightarrow> bool \<Rightarrow> yvalue eval" where
  "ysswitch_evaluate E ev c cases dflt block cse =
     (if cse then eret YNull
      else ebind (ev c False) (\<lambda>v.
        if isNull v then eret YNull
        else case (case smap_find ycp_less v cases of Some i \<Rightarrow> Some i | None \<Rightarrow> dflt) of
               None \<Rightarrow> eret YNull
             | Some i \<Rightarrow> ebind (yblock_evaluateFrom E ev block i) (\<lambda>r. eret (if isBreak r then YNull else r))))"

section \<open>All code\<close>

definition eval_code :: "yenv \<Rightarrow> evaluator \<Rightarrow> evaluator" where
  "eval_code E ev c cse =
     (case c of
        YConst k v \<Rightarrow> eret v
      | YLocale text domain \<Rightarrow> ylocale_evaluate E text domain cse
      | YFunction f \<Rightarrow> eret (YCode (YFunction f))
      | YEVariable e \<Rightarrow> yevariable_evaluate E e cse
      | YEReference e \<Rightarrow> yereference_evaluate e cse
      | YETerm n cs \<Rightarrow> yeterm_evaluate ev n [] cs cse
      | YECompare l op r \<Rightarrow> yecompare_evaluate ev l op r cse
      | YELocale s p n d \<Rightarrow> yelocale_evaluate E ev s p n d cse
      | YEList cs \<Rightarrow> yelist_evaluate ev [] cs cse
      | YEMap cs \<Rightarrow> yemap_evaluate ev [] cs cse
      | YEPropagate d from to \<Rightarrow> yepropagate_evaluate E ev d to cse
      | YEUnary d a \<Rightarrow> yeunary_evaluate E ev d a cse
      | YEBinary d a b \<Rightarrow> yebinary_evaluate E ev d a b cse
      | YETriple d a b \<Rightarrow> yetriple_evaluate ev d a b cse
      | YEIs d t \<Rightarrow> yeis_evaluate E ev d t cse
      | YEReturn d \<Rightarrow> eret (YCode d)
      | YEBracket v a d t \<Rightarrow> yebracket_evaluate ev v a d cse
      | YEBuiltin d t b cs \<Rightarrow> yebuiltin_evaluate E ev d b cs cse
      | YEFunction e cs \<Rightarrow> yefunction_evaluate E ev e cs cse
      | YEFunctionPointer e cs \<Rightarrow> yefunctionpointer_evaluate E ev e cs cse
      | YBlock b k f ss \<Rightarrow> yblock_evaluate E ev b k f ss cse
      | YSBreak \<Rightarrow> eret YBreak
      | YSContinue \<Rightarrow> eret YVoid
      | YSExpression d \<Rightarrow> ysexpression_evaluate ev d cse
      | YSBlock d \<Rightarrow> ev d cse
      | YSReturn d \<Rightarrow> ysreturn_evaluate ev d cse
      | YSFunction f \<Rightarrow> eret YNull
      | YSTypedef n t \<Rightarrow> eret YNull
      | YSAssign e d \<Rightarrow> ysassign_evaluate E ev e d cse
      | YSVariable e d \<Rightarrow> ysassign_evaluate E ev e d cse
      | YSBracket e a d \<Rightarrow> ysbracket_evaluate E ev e a d cse
      | YSIf d a b \<Rightarrow> ysif_evaluate ev d a b cse
      | YSWhile d b \<Rightarrow> yswhile_evaluate ev d b cse
      | YSRepeat b d \<Rightarrow> ysrepeat_evaluate ev b d cse
      | YSDo b d \<Rightarrow> ysdo_evaluate ev b d cse
      | YSTextdomain d \<Rightarrow> eret YNull
      | YSInclude f skipped \<Rightarrow> set_filename_evaluate f skipped cse
      | YSImport ns \<Rightarrow> ysimport_evaluate E ev ns cse
      | YSFilename f \<Rightarrow> set_filename_evaluate f False cse
      | YSSwitch d cs def b \<Rightarrow> ysswitch_evaluate E ev d cs def b cse)"

primrec evaluate :: "nat \<Rightarrow> yenv \<Rightarrow> evaluator" where
  "evaluate 0 E c cse = (\<lambda>st. OutOfFuel)"
| "evaluate (Suc n) E c cse = eval_code E (evaluate n E) c cse"

end
