(* ===== verification/Evaluation.thy ===== *)
theory Evaluation
  imports Interpreter "HOL-Library.Sublist"
begin

text \<open>
  What holds of every evaluation.  More fuel never changes a result (\<open>eval_le\<close>, \<open>chain\<close>), so that \<open>yields\<close>, a run that
  returns, can be taken apart statement by statement.  An evaluation leaves the running flags, the backtrace and
  the recursion stacks as it found them (\<open>kept\<close>), which is why a call gives its parameters their old values back.  The
  evaluation of constant subexpressions agrees with the evaluation proper (\<open>folds\<close>).

  The builtin functions enter through the locale \<open>builtin_interface\<close>.
\<close>


section \<open>Fuel\<close>

definition eval_le :: "'a eval \<Rightarrow> 'a eval \<Rightarrow> bool" where
  "eval_le m m' \<longleftrightarrow> (\<forall>st. m st \<noteq> OutOfFuel \<longrightarrow> m' st = m st)"

definition ev_le :: "evaluator \<Rightarrow> evaluator \<Rightarrow> bool" where
  "ev_le ev ev' \<longleftrightarrow> (\<forall>c cse. eval_le (ev c cse) (ev' c cse))"

named_theorems le_intros \<open>monotonicity of evaluations in the evaluator\<close>

lemma eval_le_refl [le_intros, simp]: "eval_le m m"
  by (simp add: eval_le_def)

lemma ev_leD: "ev_le ev ev' \<Longrightarrow> eval_le (ev c cse) (ev' c cse)"
  by (simp add: ev_le_def)

lemma eval_le_bind [le_intros]:
  assumes "eval_le m m'" "\<And>a. eval_le (f a) (f' a)"
  shows "eval_le (ebind m f) (ebind m' f')"
proof -
  have "obind (m' st) (\<lambda>(a, st1). f' a st1) = obind (m st) (\<lambda>(a, st1). f a st1)"
    if "obind (m st) (\<lambda>(a, st1). f a st1) \<noteq> OutOfFuel" for st
  proof (cases "m st")
    case (Ret r)
    with assms that show ?thesis by (cases r) (auto simp: eval_le_def)
  qed (use assms that in \<open>auto simp: eval_le_def\<close>)
  then show ?thesis by (simp add: eval_le_def ebind_def)
qed

lemma eval_le_if [le_intros]:
  "(b \<Longrightarrow> eval_le m m') \<Longrightarrow> (\<not> b \<Longrightarrow> eval_le n n') \<Longrightarrow> eval_le (if b then m else n) (if b then m' else n')"
  by simp

lemma eval_le_let [le_intros]: "eval_le (f a) (f' a) \<Longrightarrow> eval_le (Let a f) (Let a f')"
  by simp

lemma eval_le_option [le_intros]:
  "eval_le m m' \<Longrightarrow> (\<And>a. eval_le (f a) (f' a)) \<Longrightarrow>
   eval_le (case r of None \<Rightarrow> m | Some a \<Rightarrow> f a) (case r of None \<Rightarrow> m' | Some a \<Rightarrow> f' a)"
  by (cases r) simp_all

lemma yeterm_le [le_intros]:
  assumes "\<And>c cse. eval_le (ev c cse) (ev' c cse)"
  shows "eval_le (yeterm_evaluate ev n vs cs cse) (yeterm_evaluate ev' n vs cs cse)"
  by (induction cs arbitrary: vs) (auto intro!: le_intros assms)

lemma yelist_le [le_intros]:
  assumes "\<And>c cse. eval_le (ev c cse) (ev' c cse)"
  shows "eval_le (yelist_evaluate ev vs cs cse) (yelist_evaluate ev' vs cs cse)"
  by (induction cs arbitrary: vs) (auto intro!: le_intros assms)

lemma yemap_le [le_intros]:
  assumes "\<And>c cse. eval_le (ev c cse) (ev' c cse)"
  shows "eval_le (yemap_evaluate ev m cs cse) (yemap_evaluate ev' m cs cse)"
  by (induction cs arbitrary: m) (auto intro!: le_intros assms)

lemma call_args_le [le_intros]:
  assumes "\<And>c cse. eval_le (ev c cse) (ev' c cse)"
  shows "eval_le (call_args ev vs cs) (call_args ev' vs cs)"
  by (induction cs arbitrary: vs) (auto intro!: le_intros assms)

lemma block_loop_le [le_intros]:
  assumes "\<And>c cse. eval_le (ev c cse) (ev' c cse)"
  shows "eval_le (block_loop ev ss) (block_loop ev' ss)"
  by (induction ss) (auto intro!: le_intros assms)

lemma builtin_arg_le [le_intros]:
  assumes "\<And>c cse. eval_le (ev c cse) (ev' c cse)"
  shows "eval_le (builtin_arg ev d c) (builtin_arg ev' d c)"
  using assms by (cases c) (auto simp: builtin_arg_def intro!: le_intros split: ckind.split)

lemma builtin_args_le [le_intros]:
  assumes "\<And>c cse. eval_le (ev c cse) (ev' c cse)"
  shows "eval_le (builtin_args ev d ps tp as ws cs) (builtin_args ev' d ps tp as ws cs)"
  by (induction cs arbitrary: tp as ws) (auto intro!: le_intros assms simp: Let_def)


lemma with_le [le_intros]:
  "eval_le m m' \<Longrightarrow> eval_le (with_block P b m) (with_block P b m')"
  "eval_le k k' \<Longrightarrow> eval_le (with_context k) (with_context k')"
  "eval_le k k' \<Longrightarrow> eval_le (with_filename f k) (with_filename f k')"
  by (auto simp: with_block_def with_context_def with_filename_def intro!: le_intros)

lemma eval_le_ycp [le_intros]:
  "(\<And>xs. eval_le (f xs) (f' xs)) \<Longrightarrow> eval_le m m' \<Longrightarrow>
   eval_le (case v of YList xs \<Rightarrow> f xs | _ \<Rightarrow> m) (case v of YList xs \<Rightarrow> f' xs | _ \<Rightarrow> m')"
  "(\<And>b. eval_le (g b) (g' b)) \<Longrightarrow> eval_le m m' \<Longrightarrow>
   eval_le (case v of YBoolean b \<Rightarrow> g b | _ \<Rightarrow> m) (case v of YBoolean b \<Rightarrow> g' b | _ \<Rightarrow> m')"
  by (cases v; simp)+

lemma evaluateCall_le [le_intros]:
  assumes "\<And>c cse. eval_le (ev c cse) (ev' c cse)"
  shows "eval_le (evaluateCall E ev callee args) (evaluateCall E ev' callee args)"
  by (auto simp: evaluateCall_def ycp_evaluateCall_def Let_def intro!: le_intros assms split: callee.split)

lemma run_block_le [le_intros]:
  assumes "\<And>c cse. eval_le (ev c cse) (ev' c cse)"
  shows "eval_le (run_block E ev b k p f ss) (run_block E ev' b k p f ss)"
  by (auto simp: run_block_def Let_def intro!: le_intros assms)

lemma opt_evaluate_le [le_intros]:
  assumes "\<And>c cse. eval_le (ev c cse) (ev' c cse)"
  shows "eval_le (opt_evaluate ev c) (opt_evaluate ev' c)"
  by (auto simp: opt_evaluate_def intro!: le_intros assms)

lemma call_ptr_le [le_intros]:
  assumes "\<And>f args. eval_le (e_builtin E f ev args) (e_builtin E f ev' args)"
  shows "eval_le (call_ptr E ev d args) (call_ptr E ev' d args)"
  by (auto simp: call_ptr_def intro!: le_intros assms)

lemma eval_code_le:
  assumes ev: "\<And>c cse. eval_le (ev c cse) (ev' c cse)"
    and builtins: "\<And>f args. eval_le (e_builtin E f ev args) (e_builtin E f ev' args)"
  shows "eval_le (eval_code E ev c cse) (eval_code E ev' c cse)"
proof (cases c)
  case (YEBuiltin d t b cs)
  then show ?thesis
    by (cases "d_type d") (auto simp: eval_code_def yebuiltin_evaluate_def Let_def intro!: le_intros assms)
next
  case (YSBracket e a d)
  then show ?thesis
    by (auto simp: eval_code_def ysbracket_evaluate_def Let_def intro!: le_intros assms split: ycp.split)
next
  case (YEBracket v a d t)
  then show ?thesis
    by (auto simp: eval_code_def yebracket_evaluate_def Let_def intro!: le_intros assms split: ycp.split)
next
  case (YSWhile d b)
  then show ?thesis
    by (auto simp: eval_code_def yswhile_evaluate_def intro!: le_intros assms split: ycp.split bool.split)
next
  case (YSRepeat b d)
  then show ?thesis
    by (auto simp: eval_code_def ysrepeat_evaluate_def loop_tail_def intro!: le_intros assms split: ycp.split)
next
  case (YSDo b d)
  then show ?thesis
    by (auto simp: eval_code_def ysdo_evaluate_def loop_tail_def intro!: le_intros assms split: ycp.split)
next
  case (YELocale s p n d)
  then show ?thesis
    by (auto simp: eval_code_def yelocale_evaluate_def intro!: le_intros assms)
next
  case (YETriple d a b)
  then show ?thesis
    by (auto simp: eval_code_def yetriple_evaluate_def intro!: le_intros assms split: ycp.split)
next
  case (YSSwitch d cs def b)
  then show ?thesis
    by (auto simp: eval_code_def ysswitch_evaluate_def yblock_evaluateFrom_def intro!: le_intros assms split: ycode.split)
qed (auto simp: eval_code_def yecompare_evaluate_def yepropagate_evaluate_def yeis_evaluate_def yeunary_evaluate_def
    yebinary_evaluate_def yefunction_evaluate_def yefunctionpointer_evaluate_def yblock_evaluate_def
    ysexpression_evaluate_def ysreturn_evaluate_def ysassign_evaluate_def ysif_evaluate_def ysimport_evaluate_def
    ns_initialize_def intro!: le_intros assms)


section \<open>Balance\<close>

text \<open>
  What an evaluation keeps: the running flags of blocks and the frames of the backtrace are as before, and the
  recursion stack of an entry still holds what was on it.  Only an entry \<open>at_risk\<close> can have more on its stack:
  a variable of a block, or a parameter of a function that is only declared.
\<close>

definition rec_stack :: "ystate \<Rightarrow> nat \<Rightarrow> yvalue list" where
  "rec_stack st e = (case m_recurse_stack st e of None \<Rightarrow> [] | Some vs \<Rightarrow> vs)"

definition at_risk :: "program \<Rightarrow> nat \<Rightarrow> bool" where
  "at_risk P e \<longleftrightarrow>
     (\<exists>b. e \<in> set (block_variables P b)) \<or>
     (\<exists>f. f_definition (p_function P f) = None \<and> e \<in> set (f_params (p_function P f)))"

definition kept :: "program \<Rightarrow> ystate \<Rightarrow> ystate \<Rightarrow> bool" where
  "kept P st st' \<longleftrightarrow>
     m_running st' = m_running st \<and> m_backtrace st' = m_backtrace st \<and>
     (\<forall>e. suffix (rec_stack st e) (rec_stack st' e) \<and> (\<not> at_risk P e \<longrightarrow> rec_stack st' e = rec_stack st e))"

definition keeps :: "program \<Rightarrow> 'a eval \<Rightarrow> bool" where
  "keeps P m \<longleftrightarrow> (\<forall>st v st'. m st = Ret (v, st') \<longrightarrow> kept P st st')"

named_theorems keeps_intros \<open>evaluations that keep the environment\<close>

lemma kept_refl [simp]: "kept P st st"
  by (simp add: kept_def)

lemma kept_trans: "kept P st st1 \<Longrightarrow> kept P st1 st2 \<Longrightarrow> kept P st st2"
  unfolding kept_def by (metis suffix_order.trans)

lemma keeps_simple [keeps_intros, simp]:
  "keeps P (eret a)" "keeps P eundef" "keeps P (eread f)" "keeps P (esome r)" "keeps P (eout q)"
  by (auto simp: keeps_def eval_defs eout_def split: option.splits) (cases q; simp)

lemma keeps_bind [keeps_intros]:
  assumes "keeps P m" "\<And>a. keeps P (f a)"
  shows "keeps P (ebind m f)"
  unfolding keeps_def ebind_def
proof (intro allI impI)
  fix st v st'
  assume r: "obind (m st) (\<lambda>(a, st1). f a st1) = Ret (v, st')"
  then obtain a st1 where "m st = Ret (a, st1)" "f a st1 = Ret (v, st')" by (cases "m st") auto
  with assms show "kept P st st'" unfolding keeps_def by (blast intro: kept_trans)
qed

lemma keeps_if [keeps_intros]:
  "(b \<Longrightarrow> keeps P m) \<Longrightarrow> (\<not> b \<Longrightarrow> keeps P n) \<Longrightarrow> keeps P (if b then m else n)"
  by simp

lemma keeps_let [keeps_intros]: "keeps P (f a) \<Longrightarrow> keeps P (Let a f)"
  by simp

lemma keeps_option [keeps_intros]:
  "keeps P m \<Longrightarrow> (\<And>a. keeps P (f a)) \<Longrightarrow> keeps P (case r of None \<Rightarrow> m | Some a \<Rightarrow> f a)"
  by (cases r) simp_all

lemma keeps_emodify [keeps_intros]: "(\<And>st. kept P st (f st)) \<Longrightarrow> keeps P (emodify f)"
  by (simp add: keeps_def emodify_def)

lemma keeps_epartial [keeps_intros]: "(\<And>st st'. f st = Some st' \<Longrightarrow> kept P st st') \<Longrightarrow> keeps P (epartial f)"
  by (auto simp: keeps_def epartial_def split: option.splits)

lemma setValue_frame:
  assumes "setValue P st e v = Some st'"
  shows "\<exists>f. st' = st\<lparr>m_value := f\<rparr>"
proof -
  let ?Q = "\<lambda>(((P, st), e), v) st'. \<exists>f. st' = st\<lparr>m_value := f\<rparr>"
  have store: "\<exists>f. store_value st e w = st\<lparr>m_value := f\<rparr>" for st e w
    unfolding store_value_def by blast
  have same: "\<exists>f. st = st\<lparr>m_value := f\<rparr>" for st :: ystate
    by (rule exI [of _ "m_value st"]) simp
  from assms have "?Q (((P, st), e), v) st'"
  proof (rule setValue.raw_induct [rotated])
    fix rec P st e v st'
    assume IH: "\<And>P st e v st'. rec P st e v = Some st' \<Longrightarrow> ?Q (((P, st), e), v) st'"
      and r: "(if \<not> isNull v \<and> p_category P e = c_reference
        then if isRefValue v then Some (store_value st e v)
             else if ref_target (m_value st e) = None then Some st
             else rec P st (the (ref_target (m_value st e))) v
        else Some (store_value st e (if isNull v then YVoid else v))) = Some st'"
    show "?Q (((P, st), e), v) st'" using IH r store same by (auto split: if_splits)
  qed
  then show ?thesis by simp
qed

lemma setValue_kept: "setValue P st e v = Some st' \<Longrightarrow> kept Q st st'"
  by (drule setValue_frame) (auto simp: kept_def rec_stack_def)

lemma rec_stack_push_all [simp]:
  "rec_stack (push_all st es) e = replicate (count_list es e) (m_value st e) @ rec_stack st e"
  "m_value (push_all st es) = m_value st"
  "m_running (push_all st es) = m_running st"
  "m_backtrace (push_all st es) = m_backtrace st"
  by (induction es arbitrary: st)
    (auto simp: sym_push_def rec_stack_def replicate_app_Cons_same split: option.splits)

lemma sym_pop_stack:
  assumes "sym_pop st x = Some st'"
  shows "rec_stack st' e = (if e = x then tl (rec_stack st e) else rec_stack st e)"
    "m_value st' e = (if e = x \<and> rec_stack st e \<noteq> [] then hd (rec_stack st e) else m_value st e)"
    "m_running st' = m_running st" "m_backtrace st' = m_backtrace st"
  using assms by (auto simp: sym_pop_def rec_stack_def split: option.splits list.splits)

lemma pop_all_stack:
  assumes "pop_all st es = Some st'"
  shows "rec_stack st' e = drop (count_list es e) (rec_stack st e)"
    "m_running st' = m_running st" "m_backtrace st' = m_backtrace st"
  using assms
  by (induction es arbitrary: st) (auto split: option.splits dest!: sym_pop_stack simp: drop_Suc sym_pop_stack)

lemma pop_all_value:
  "pop_all st es = Some st' \<Longrightarrow> count_list es e \<le> length (rec_stack st e) \<Longrightarrow>
   m_value st' e = (if e \<in> set es then rec_stack st e ! (count_list es e - 1) else m_value st e)"
proof (induction es arbitrary: st)
  case (Cons x es)
  then obtain st1 where st1: "sym_pop st x = Some st1" "pop_all st1 es = Some st'" by (auto split: option.splits)
  show ?case
  proof (cases "e = x")
    case True
    with Cons.prems(2) obtain w ws where w: "rec_stack st e = w # ws" by (cases "rec_stack st e") auto
    have "count_list es e \<noteq> 0 \<longleftrightarrow> e \<in> set es" by (simp add: count_list_0_iff)
    with True w Cons.IH [OF st1(2)] Cons.prems(2) sym_pop_stack(1,2) [OF st1(1), of e] show ?thesis
      by (auto simp: nth_Cons' count_list_0_iff)
  next
    case False
    with Cons.IH [OF st1(2)] Cons.prems(2) sym_pop_stack(1,2) [OF st1(1), of e] show ?thesis by simp
  qed
qed simp

lemma push_pop_kept:
  assumes "kept P (push_all st es) st1" "pop_all st1 es = Some st'"
  shows "kept P st st'"
proof -
  have "suffix (rec_stack st e) (rec_stack st' e) \<and> (\<not> at_risk P e \<longrightarrow> rec_stack st' e = rec_stack st e)" for e
  proof -
    let ?n = "count_list es e"
    have "suffix (replicate ?n (m_value st e) @ rec_stack st e) (rec_stack st1 e)"
      and eq: "\<not> at_risk P e \<Longrightarrow> rec_stack st1 e = replicate ?n (m_value st e) @ rec_stack st e"
      using assms(1) by (auto simp: kept_def)
    then obtain xs where "rec_stack st1 e = (xs @ replicate ?n (m_value st e)) @ rec_stack st e"
      by (auto simp: suffix_def)
    moreover have "drop ?n ((xs @ replicate ?n (m_value st e)) @ rec_stack st e) =
        drop ?n (xs @ replicate ?n (m_value st e)) @ rec_stack st e" by simp
    ultimately show ?thesis using pop_all_stack(1) [OF assms(2), of e] eq by (auto simp: suffix_def)
  qed
  moreover have "m_running st' = m_running st" "m_backtrace st' = m_backtrace st"
    using pop_all_stack [OF assms(2)] assms(1) by (simp_all add: kept_def)
  ultimately show ?thesis by (simp add: kept_def)
qed

lemma keeps_ycp [keeps_intros]:
  "(\<And>xs. keeps P (f xs)) \<Longrightarrow> keeps P m \<Longrightarrow> keeps P (case v of YList xs \<Rightarrow> f xs | _ \<Rightarrow> m)"
  "(\<And>b. keeps P (g b)) \<Longrightarrow> keeps P m \<Longrightarrow> keeps P (case v of YBoolean b \<Rightarrow> g b | _ \<Rightarrow> m)"
  "(\<And>i. keeps P (h i)) \<Longrightarrow> keeps P m \<Longrightarrow> keeps P (case v of YInteger i \<Rightarrow> h i | _ \<Rightarrow> m)"
  by (cases v; simp)+

lemma keeps_between:
  assumes "keeps P m"
  shows "keeps P (ebind (emodify (\<lambda>st. push_all st es)) (\<lambda>_. ebind m (\<lambda>v.
           ebind (epartial (\<lambda>st. pop_all st es)) (\<lambda>_. eret v))))"
  unfolding keeps_def
proof (intro allI impI)
  fix st v st'
  assume "ebind (emodify (\<lambda>st. push_all st es)) (\<lambda>_. ebind m (\<lambda>v.
           ebind (epartial (\<lambda>st. pop_all st es)) (\<lambda>_. eret v))) st = Ret (v, st')"
  then obtain st1 where "m (push_all st es) = Ret (v, st1)" "pop_all st1 es = Some st'"
    by (cases "m (push_all st es)") (auto simp: eval_defs split: option.splits)
  with assms show "kept P st st'" by (auto simp: keeps_def intro: push_pop_kept)
qed

lemma keeps_state [keeps_intros]:
  "kept P st (setLinenumber st l)" "kept P st (setFilename st f)"
  "kept P st (setFilename (setLinenumber st l) f)"
  "kept P st (st\<lparr>m_initialized := i\<rparr>)"
  by (simp_all add: kept_def rec_stack_def setLinenumber_def setFilename_def)

lemma set_params_keeps [keeps_intros]: "keeps P (set_params Q es vs)"
  by (induction es arbitrary: vs) (auto intro!: keeps_intros intro: setValue_kept split: list.split)

lemma loops_keep [keeps_intros]:
  assumes "\<And>c cse. keeps P (ev c cse)"
  shows "keeps P (yeterm_evaluate ev n vs cs cse)" "keeps P (yelist_evaluate ev vs cs cse)"
    "keeps P (yemap_evaluate ev m ps cse)" "keeps P (call_args ev vs cs)" "keeps P (block_loop ev ss)"
proof -
  show "keeps P (yeterm_evaluate ev n vs cs cse)"
    by (induction cs arbitrary: vs) (auto intro!: keeps_intros assms)
  show "keeps P (yelist_evaluate ev vs cs cse)"
    by (induction cs arbitrary: vs) (auto intro!: keeps_intros assms)
  show "keeps P (yemap_evaluate ev m ps cse)"
    by (induction ps arbitrary: m) (auto intro!: keeps_intros assms)
  show "keeps P (call_args ev vs cs)"
    by (induction cs arbitrary: vs) (auto intro!: keeps_intros assms)
  show "keeps P (block_loop ev ss)"
    by (induction ss) (auto intro!: keeps_intros assms)
qed

lemma builtin_args_keep [keeps_intros]:
  assumes "\<And>c cse. keeps P (ev c cse)"
  shows "keeps P (builtin_args ev d ps tp as ws cs)"
proof -
  have "keeps P (builtin_arg ev d c)" for c
    using assms by (cases c) (auto simp: builtin_arg_def intro!: keeps_intros split: ckind.split)
  then show ?thesis by (induction cs arbitrary: tp as ws) (auto intro!: keeps_intros assms simp: Let_def)
qed

lemma with_block_keeps [keeps_intros]: "keeps P m \<Longrightarrow> keeps P (with_block Q b m)"
  using keeps_between [of P m]
  by (auto simp: with_block_def pushToStack_def popFromStack_def split: option.split)

lemma with_keep [keeps_intros]:
  "keeps P k \<Longrightarrow> keeps P (with_context k)" "keeps P k \<Longrightarrow> keeps P (with_filename f k)"
  by (auto simp: with_context_def with_filename_def intro!: keeps_intros)

lemma opt_evaluate_keeps [keeps_intros]:
  "(\<And>c cse. keeps P (ev c cse)) \<Longrightarrow> keeps P (opt_evaluate ev c)"
  by (auto simp: opt_evaluate_def intro!: keeps_intros)

lemma loop_tail_keeps [keeps_intros]:
  "(\<And>c cse. keeps P (ev c cse)) \<Longrightarrow> keeps P (loop_tail ev again stop c l)"
  by (auto simp: loop_tail_def intro!: keeps_intros)

lemma propagate_value_keeps [keeps_intros]: "keeps P (propagate_value Q t v)"
  by (cases v) (auto simp: propagate_value_def intro!: keeps_intros)

text \<open>The two places that need not be balanced.\<close>

lemma push_all_kept: "(\<And>e. e \<in> set es \<Longrightarrow> at_risk P e) \<Longrightarrow> kept P st (push_all st es)"
  by (auto simp: kept_def suffix_def count_list_0_iff)

lemma ebind_assoc: "ebind (ebind m f) g = ebind m (\<lambda>a. ebind (f a) g)"
proof
  fix st
  show "ebind (ebind m f) g st = ebind m (\<lambda>a. ebind (f a) g) st" by (cases "m st") (auto simp: ebind_def)
qed

lemma run_block_Ret:
  assumes "run_block E ev b k p f ss st = Ret (v, st')"
  obtains st1 r st2 where
    "st1 = (if m_running st b \<and> (p \<or> k \<noteq> b_module) then pushToStack (e_prog E) st b else st)"
    "with_filename f (block_loop ev ss) (st1\<lparr>m_running := (m_running st1)(b := True)\<rparr>) = Ret (r, st2)"
    "(if m_running st b \<and> k \<noteq> b_module
      then popFromStack (e_prog E) (st2\<lparr>m_running := (m_running st2)(b := m_running st b)\<rparr>) b
      else Some (st2\<lparr>m_running := (m_running st2)(b := m_running st b)\<rparr>)) = Some st'"
    "v = (case r of Some v \<Rightarrow> v | None \<Rightarrow> if k = b_statement then YNull else YVoid)"
proof -
  define st1 where "st1 = (if m_running st b \<and> (p \<or> k \<noteq> b_module) then pushToStack (e_prog E) st b else st)"
  from assms obtain r st2 where
    "with_filename f (block_loop ev ss) (st1\<lparr>m_running := (m_running st1)(b := True)\<rparr>) = Ret (r, st2)"
    by (cases "with_filename f (block_loop ev ss) (st1\<lparr>m_running := (m_running st1)(b := True)\<rparr>)")
      (auto simp: run_block_def Let_def eval_defs set_running_def st1_def)
  moreover with assms have "(if m_running st b \<and> k \<noteq> b_module
      then popFromStack (e_prog E) (st2\<lparr>m_running := (m_running st2)(b := m_running st b)\<rparr>) b
      else Some (st2\<lparr>m_running := (m_running st2)(b := m_running st b)\<rparr>)) = Some st'"
    "v = (case r of Some v \<Rightarrow> v | None \<Rightarrow> if k = b_statement then YNull else YVoid)"
    unfolding st1_def by (auto simp: run_block_def Let_def eval_defs set_running_def split: if_splits option.splits)
  ultimately show thesis using that st1_def by blast
qed

lemma run_block_keeps [keeps_intros]:
  assumes "\<And>c cse. keeps (e_prog E) (ev c cse)"
  shows "keeps (e_prog E) (run_block E ev b k p f ss)"
  unfolding keeps_def
proof (intro allI impI)
  fix st v st'
  assume "run_block E ev b k p f ss st = Ret (v, st')"
  then obtain st1 r st2 where st1: "st1 = (if m_running st b \<and> (p \<or> k \<noteq> b_module) then pushToStack (e_prog E) st b else st)"
    and loop: "with_filename f (block_loop ev ss) (st1\<lparr>m_running := (m_running st1)(b := True)\<rparr>) = Ret (r, st2)"
    and st': "(if m_running st b \<and> k \<noteq> b_module
      then popFromStack (e_prog E) (st2\<lparr>m_running := (m_running st2)(b := m_running st b)\<rparr>) b
      else Some (st2\<lparr>m_running := (m_running st2)(b := m_running st b)\<rparr>)) = Some st'"
    by (rule run_block_Ret)
  define st3 where "st3 = st2\<lparr>m_running := (m_running st2)(b := m_running st b)\<rparr>"
  have "keeps (e_prog E) (with_filename f (block_loop ev ss))" by (intro keeps_intros assms)
  with loop have "kept (e_prog E) (st1\<lparr>m_running := (m_running st1)(b := True)\<rparr>) st2" by (simp add: keeps_def)
  moreover have "m_running st1 = m_running st" by (simp add: st1 pushToStack_def)
  ultimately have k3: "kept (e_prog E) st1 st3" by (auto simp: kept_def st3_def rec_stack_def)
  show "kept (e_prog E) st st'"
  proof (cases "m_running st b \<and> k \<noteq> b_module")
    case True
    with st1 st' k3 show ?thesis
      by (auto simp: pushToStack_def popFromStack_def st3_def intro: push_pop_kept)
  next
    case False
    have "kept (e_prog E) st st1"
      using st1 by (auto simp: pushToStack_def at_risk_def intro!: push_all_kept)
    with False st' k3 show ?thesis by (auto simp: st3_def intro: kept_trans)
  qed
qed

lemma evaluateCall_keeps [keeps_intros]:
  assumes "\<And>c cse. keeps (e_prog E) (ev c cse)" "\<And>k args. keeps (e_prog E) (e_foreign E k args)"
  shows "keeps (e_prog E) (evaluateCall E ev callee args)"
proof (cases callee)
  case (YCPFunction f)
  let ?ps = "f_params (p_function (e_prog E) f)"
  have "keeps (e_prog E) (ycp_evaluateCall E ev f args)"
  proof (cases "f_definition (p_function (e_prog E) f)")
    case None
    then have "kept (e_prog E) st (push_all st ?ps)" for st
      by (intro push_all_kept) (auto simp: at_risk_def)
    with None show ?thesis by (auto simp: ycp_evaluateCall_def Let_def intro!: keeps_intros)
  next
    case (Some def)
    have "keeps (e_prog E) (ebind (set_params (e_prog E) ?ps args) (\<lambda>ok. if ok then with_context (ev def False) else eret YNull))"
      by (intro keeps_intros assms)
    from keeps_between [OF this, of ?ps] Some show ?thesis
      by (simp add: ycp_evaluateCall_def Let_def ebind_assoc)
  qed
  with YCPFunction show ?thesis by (simp add: evaluateCall_def)
qed (simp add: evaluateCall_def assms(2))

lemma frame_keeps:
  assumes "keeps P m"
  shows "keeps P (ebind (emodify (\<lambda>st. pushframe st e args)) (\<lambda>_. ebind m (\<lambda>v. ebind (emodify popframe) (\<lambda>_. eret v))))"
  unfolding keeps_def
proof (intro allI impI)
  fix st v st'
  assume "ebind (emodify (\<lambda>st. pushframe st e args)) (\<lambda>_. ebind m (\<lambda>v. ebind (emodify popframe) (\<lambda>_. eret v))) st = Ret (v, st')"
  then obtain st1 where "m (pushframe st e args) = Ret (v, st1)" "st' = popframe st1"
    by (cases "m (pushframe st e args)") (auto simp: eval_defs)
  with assms have "kept P (pushframe st e args) st1" "st' = popframe st1" by (auto simp: keeps_def)
  then show "kept P st st'" by (auto simp: kept_def pushframe_def popframe_def rec_stack_def)
qed

lemma eval_code_keeps:
  assumes ev: "\<And>c cse. keeps (e_prog E) (ev c cse)"
    and builtins: "\<And>f args. keeps (e_prog E) (e_builtin E f ev args)"
    and others: "\<And>h f n args. keeps (e_prog E) (e_handler E h f n args)" "\<And>k args. keeps (e_prog E) (e_foreign E k args)"
  shows "keeps (e_prog E) (eval_code E ev c cse)"
proof (cases c)
  case (YEBuiltin d t b cs)
  then show ?thesis
    by (cases "d_type d") (auto simp: eval_code_def yebuiltin_evaluate_def Let_def intro!: keeps_intros assms)
next
  case (YSWhile d b)
  then show ?thesis
    by (auto simp: eval_code_def yswhile_evaluate_def intro!: keeps_intros assms split: bool.split)
next
  case (YSSwitch d cs def b)
  then show ?thesis
    by (auto simp: eval_code_def ysswitch_evaluate_def yblock_evaluateFrom_def intro!: keeps_intros assms split: ycode.split)
next
  case (YEFunction e cs)
  then show ?thesis
    by (auto simp: eval_code_def yefunction_evaluate_def intro!: keeps_intros frame_keeps assms)
qed (auto simp: eval_code_def yecompare_evaluate_def yepropagate_evaluate_def yeis_evaluate_def yeunary_evaluate_def
    yebinary_evaluate_def yefunctionpointer_evaluate_def yblock_evaluate_def yevariable_evaluate_def
    yereference_evaluate_def ylocale_evaluate_def yelocale_evaluate_def yetriple_evaluate_def yebracket_evaluate_def
    ysbracket_evaluate_def ysrepeat_evaluate_def ysdo_evaluate_def set_filename_evaluate_def
    ysexpression_evaluate_def ysreturn_evaluate_def ysassign_evaluate_def ysif_evaluate_def ysimport_evaluate_def
    ns_initialize_def call_ptr_def intro!: keeps_intros assms intro: setValue_kept)

section \<open>Constant subexpressions\<close>

text \<open>
  \<open>folds m m'\<close> for the evaluation \<open>m\<close> of code as a constant subexpression and its evaluation proper \<open>m'\<close>: the first
  neither reads nor changes the state, and where it gives a value, the second gives the same one.
\<close>

definition folds :: "yvalue eval \<Rightarrow> yvalue eval \<Rightarrow> bool" where
  "folds m m' \<longleftrightarrow> (\<exists>r. m = eout r \<and> (\<forall>v. r = Ret v \<longrightarrow> \<not> isNull v \<longrightarrow> m' = eret v))"

named_theorems folds_intros \<open>evaluations that constant folding agrees with\<close>

lemma eout_Ret [simp]: "eout (Ret v) = eret v"
  by (simp add: eout_def eret_def)

lemma folds_simple [folds_intros, simp]: "folds (eret YNull) m'" "folds (eret v) (eret v)" "folds (eout r) (eout r)"
  by (auto simp: folds_def simp flip: eout_Ret)

lemma ebind_eout [simp]:
  "ebind (eret v) f = f v" "ebind (eout Undef) f = eout Undef" "ebind (eout OutOfFuel) f = eout OutOfFuel"
  by (auto simp: ebind_def eret_def eout_def)

lemma folds_bind [folds_intros]:
  assumes "folds m m'" "f YNull = eret YNull" "\<And>v. \<not> isNull v \<Longrightarrow> folds (f v) (f' v)"
  shows "folds (ebind m f) (ebind m' f')"
proof -
  obtain r where r: "m = eout r" "\<And>v. r = Ret v \<Longrightarrow> \<not> isNull v \<Longrightarrow> m' = eret v"
    using assms(1) by (auto simp: folds_def)
  show ?thesis
  proof (cases r)
    case (Ret v)
    with r assms(2,3) show ?thesis by (cases "isNull v") auto
  qed (use r in \<open>auto simp: folds_def\<close>)
qed

lemma folds_out [folds_intros]: "(\<And>v. folds (f v) (f' v)) \<Longrightarrow> folds (ebind (eout r) f) (ebind (eout r) f')"
  by (cases r) (auto simp: folds_def)

lemma folds_if [folds_intros]:
  "(b \<Longrightarrow> folds m m') \<Longrightarrow> (\<not> b \<Longrightarrow> folds n n') \<Longrightarrow> folds (if b then m else n) (if b then m' else n')"
  by simp

lemma folds_option [folds_intros]:
  "folds m m' \<Longrightarrow> (\<And>a. folds (f a) (f' a)) \<Longrightarrow>
   folds (case r of None \<Rightarrow> m | Some a \<Rightarrow> f a) (case r of None \<Rightarrow> m' | Some a \<Rightarrow> f' a)"
  by (cases r) simp_all

lemma folds_list [folds_intros]:
  "(\<And>xs. folds (f xs) (f' xs)) \<Longrightarrow> folds m m' \<Longrightarrow>
   folds (case v of YList xs \<Rightarrow> f xs | _ \<Rightarrow> m) (case v of YList xs \<Rightarrow> f' xs | _ \<Rightarrow> m')"
  by (cases v) simp_all

lemma loops_fold [folds_intros]:
  assumes "\<And>c. folds (ev c True) (ev c False)"
  shows "folds (yeterm_evaluate ev n vs cs True) (yeterm_evaluate ev n vs cs False)"
    "folds (yelist_evaluate ev vs cs True) (yelist_evaluate ev vs cs False)"
    "folds (yemap_evaluate ev m ps True) (yemap_evaluate ev m ps False)"
proof -
  show "folds (yeterm_evaluate ev n vs cs True) (yeterm_evaluate ev n vs cs False)"
    by (induction cs arbitrary: vs) (auto intro!: folds_intros assms)
  show "folds (yelist_evaluate ev vs cs True) (yelist_evaluate ev vs cs False)"
    by (induction cs arbitrary: vs) (auto intro!: folds_intros assms)
  show "folds (yemap_evaluate ev m ps True) (yemap_evaluate ev m ps False)"
    by (induction ps arbitrary: m) (auto intro!: folds_intros assms)
qed

lemma eval_code_folds:
  assumes "\<And>c. folds (ev c True) (ev c False)"
  shows "folds (eval_code E ev c True) (eval_code E ev c False)"
  by (cases c)
    (auto simp: eval_code_def yecompare_evaluate_def yepropagate_evaluate_def yeis_evaluate_def yeunary_evaluate_def
    yebinary_evaluate_def yefunctionpointer_evaluate_def yefunction_evaluate_def yblock_evaluate_def yevariable_evaluate_def
    yereference_evaluate_def ylocale_evaluate_def yelocale_evaluate_def yetriple_evaluate_def yebracket_evaluate_def
    ysbracket_evaluate_def ysrepeat_evaluate_def ysdo_evaluate_def yswhile_evaluate_def set_filename_evaluate_def
    ysexpression_evaluate_def ysreturn_evaluate_def ysassign_evaluate_def ysif_evaluate_def ysimport_evaluate_def
    ysswitch_evaluate_def yebuiltin_evaluate_def Let_def intro!: folds_intros assms split: option.split)

lemma evaluate_folds: "folds (evaluate n E c True) (evaluate n E c False)"
proof (induction n arbitrary: c)
  case 0
  then show ?case by (auto simp: folds_def eout_def intro!: exI [of _ OutOfFuel])
qed (simp add: eval_code_folds)

section \<open>Runs\<close>

text \<open>
  A run that returns, with as much fuel as it needs.  A family of evaluations that grows with the fuel can be
  taken apart at a \<^const>\<open>ebind\<close>.
\<close>

definition yields :: "yenv \<Rightarrow> ycode \<Rightarrow> ystate \<Rightarrow> yvalue \<Rightarrow> ystate \<Rightarrow> bool" where
  "yields E c st v st' \<longleftrightarrow> (\<exists>n. evaluate n E c False st = Ret (v, st'))"

definition chain :: "(nat \<Rightarrow> 'a eval) \<Rightarrow> bool" where
  "chain F \<longleftrightarrow> (\<forall>n m. n \<le> m \<longrightarrow> eval_le (F n) (F m))"

lemma eval_leD: "eval_le m m' \<Longrightarrow> m st = Ret r \<Longrightarrow> m' st = Ret r"
  by (auto simp: eval_le_def)

lemma chain_bind_Ret:
  assumes "chain M" "\<And>a. chain (\<lambda>n. F n a)"
  shows "(\<exists>n. ebind (M n) (F n) st = Ret r) \<longleftrightarrow>
         (\<exists>a st1. (\<exists>n. M n st = Ret (a, st1)) \<and> (\<exists>n. F n a st1 = Ret r))" (is "?L \<longleftrightarrow> ?R")
proof
  assume ?L
  then obtain n where "ebind (M n) (F n) st = Ret r" by blast
  then obtain a st1 where "M n st = Ret (a, st1)" "F n a st1 = Ret r"
    by (cases "M n st") (auto simp: ebind_def)
  then show ?R by blast
next
  assume ?R
  then obtain a st1 n k where a: "M n st = Ret (a, st1)" "F k a st1 = Ret r" by blast
  have "eval_le (M n) (M (max n k))" "eval_le (F k a) (F (max n k) a)"
    using assms by (simp_all add: chain_def)
  then have "M (max n k) st = Ret (a, st1)" "F (max n k) a st1 = Ret r" using a by (blast intro: eval_leD)+
  then have "ebind (M (max n k)) (F (max n k)) st = Ret r" by (simp add: ebind_def)
  then show ?L by blast
qed

text \<open>
  What the interpreter needs of the builtin functions it calls: with an evaluator that returns more often they
  do so too, and with one that keeps the environment they keep it.
\<close>

text \<open>
  \<^verbatim>\<open>return;\<close> gives a \<^verbatim>\<open>YCPReturn\<close>, which is a \<^verbatim>\<open>YCPVoid\<close> too: \<^verbatim>\<open>YSWhile\<close> tests for it first, \<^verbatim>\<open>YSDo\<close> and \<^verbatim>\<open>YSRepeat\<close> do not.
\<close>

definition goes_on :: "yvalue \<Rightarrow> bool" where
  "goes_on l \<longleftrightarrow> nil l \<and> \<not> isReturn l"

lemma yswhile_cases:
  "yswhile_evaluate ev c (Some b) False =
     ebind (ev c False) (\<lambda>t. if t = YBoolean True
       then ebind (ev b False) (\<lambda>l. if goes_on l then ev (YSWhile c (Some b)) False else eret (if isBreak l then YNull else l))
       else eret YNull)"
proof -
  have **: "(if isNull l then m else if isBreak l then eret YNull else if isReturn l then eret l
         else if isVoid l then m else eret l) = (if goes_on l then m else eret (if isBreak l then YNull else l))"
    for l :: yvalue and m
    by (cases l) (simp_all add: goes_on_def nil_def isBreak_def isReturn_def isVoid_def)
  have *: "(case t of YBoolean True \<Rightarrow> m | _ \<Rightarrow> n) = (if t = YBoolean True then m else n)"
    for t :: yvalue and m n :: "yvalue eval"
    by (cases t) (simp_all split: bool.split)
  show ?thesis unfolding yswhile_evaluate_def opt_evaluate_def option.case * ** by simp
qed

lemma ysdo_cases:
  "ysdo_evaluate ev (Some b) c False =
     ebind (ev b False) (\<lambda>l. if nil l
       then ebind (ev c False) (\<lambda>t. if t = YBoolean True then ev (YSDo (Some b) c) False else eret YNull)
       else eret (if isBreak l then YNull else l))"
proof -
  have *: "(case t of YBoolean b \<Rightarrow> if b = False then n else m | _ \<Rightarrow> n) = (if t = YBoolean True then m else n)"
    for t :: yvalue and m n :: "yvalue eval"
    by (cases t) simp_all
  have "loop_tail ev (YSDo (Some b) c) False c = (\<lambda>l. if nil l
       then ebind (ev c False) (\<lambda>t. if t = YBoolean True then ev (YSDo (Some b) c) False else eret YNull)
       else eret (if isBreak l then YNull else l))"
    unfolding loop_tail_def * by (intro ext) simp
  then show ?thesis by (simp add: ysdo_evaluate_def opt_evaluate_def)
qed

lemma if_Ret:
  "(\<exists>n. (if q then F n else G n) s = Ret r) = (if q then \<exists>n. F n s = Ret r else \<exists>n. G n s = Ret r)"
  by simp

lemma chain_const [simp]: "chain (\<lambda>n. m)"
  by (simp add: chain_def)

lemma chain_if: "(b \<Longrightarrow> chain F) \<Longrightarrow> (\<not> b \<Longrightarrow> chain G) \<Longrightarrow> chain (\<lambda>n. if b then F n else G n)"
  by (cases b) simp_all

lemma chain_bind: "chain M \<Longrightarrow> (\<And>a. chain (\<lambda>n. F n a)) \<Longrightarrow> chain (\<lambda>n. ebind (M n) (F n))"
  by (simp add: chain_def eval_le_bind)

locale builtin_interface =
  fixes P :: program and call :: "nat \<Rightarrow> evaluator \<Rightarrow> yvalue list \<Rightarrow> yvalue eval"
  assumes call_mono: "(\<And>c cse. eval_le (ev c cse) (ev' c cse)) \<Longrightarrow> eval_le (call f ev args) (call f ev' args)"
    and call_keeps: "(\<And>c cse. keeps P (ev c cse)) \<Longrightarrow> keeps P (call f ev args)"
begin

definition serves :: "yenv \<Rightarrow> bool" where
  "serves E \<longleftrightarrow> e_prog E = P \<and> e_builtin E = call"

lemma evaluate_mono:
  assumes "serves E" "n \<le> m"
  shows "eval_le (evaluate n E c cse) (evaluate m E c cse)"
  using assms(2)
proof (induction n arbitrary: m c cse)
  case 0
  show ?case by (simp add: eval_le_def)
next
  case (Suc n)
  then obtain k where k: "m = Suc k" "n \<le> k" by (cases m) auto
  with Suc.IH have le: "\<And>c cse. eval_le (evaluate n E c cse) (evaluate k E c cse)" by blast
  have "eval_le (call f (evaluate n E) args) (call f (evaluate k E) args)" for f args
    by (intro call_mono le)
  with le k assms(1) show ?case by (simp add: eval_code_le serves_def)
qed

lemma evaluate_keeps:
  assumes "serves E" "\<And>h f n args. keeps P (e_handler E h f n args)" "\<And>k args. keeps P (e_foreign E k args)"
  shows "keeps P (evaluate n E c cse)"
proof (induction n arbitrary: c cse)
  case 0
  show ?case by (simp add: keeps_def)
next
  case (Suc n)
  then have "\<And>f args. keeps P (e_builtin E f (evaluate n E) args)"
    using assms(1) call_keeps by (auto simp: serves_def)
  with Suc assms show ?case using eval_code_keeps [of E "evaluate n E"] by (auto simp: serves_def)
qed

lemma evaluate_chain: "serves E \<Longrightarrow> chain (\<lambda>n. evaluate n E c cse)"
  by (simp add: chain_def evaluate_mono)

lemma yields_step: "yields E c st v st' \<longleftrightarrow> (\<exists>n. eval_code E (evaluate n E) c False st = Ret (v, st'))"
proof
  assume "yields E c st v st'"
  then obtain n where n: "evaluate n E c False st = Ret (v, st')" by (auto simp: yields_def)
  then show "\<exists>n. eval_code E (evaluate n E) c False st = Ret (v, st')" by (cases n) auto
next
  assume "\<exists>n. eval_code E (evaluate n E) c False st = Ret (v, st')"
  then obtain n where "evaluate (Suc n) E c False st = Ret (v, st')" by auto
  then show "yields E c st v st'" unfolding yields_def by blast
qed

lemma yields_bind:
  assumes "serves E" "\<And>a. chain (\<lambda>n. F n a)"
  shows "(\<exists>n. ebind (evaluate n E c False) (F n) st = Ret r) \<longleftrightarrow>
         (\<exists>a st1. yields E c st a st1 \<and> (\<exists>n. F n a st1 = Ret r))"
  using chain_bind_Ret [OF evaluate_chain [OF assms(1)] assms(2)] by (simp add: yields_def)


lemma yields_while:
  assumes "serves E"
  shows "yields E (YSWhile c (Some b)) st v st' \<longleftrightarrow>
    (\<exists>t st1. yields E c st t st1 \<and>
      (if t = YBoolean True
       then \<exists>l st2. yields E b st1 l st2 \<and>
              (if goes_on l then yields E (YSWhile c (Some b)) st2 v st'
               else st' = st2 \<and> v = (if isBreak l then YNull else l))
       else st' = st1 \<and> v = YNull))"
proof -
  note chain = evaluate_chain [OF assms]
  have body: "(\<exists>n. ebind (evaluate n E b False) (\<lambda>l. if goes_on l then evaluate n E (YSWhile c (Some b)) False
        else eret (if isBreak l then YNull else l)) st1 = Ret (v, st')) =
      (\<exists>l st2. yields E b st1 l st2 \<and> (if goes_on l then yields E (YSWhile c (Some b)) st2 v st'
               else st' = st2 \<and> v = (if isBreak l then YNull else l)))" for st1
    by (subst yields_bind [OF assms]) (auto intro!: chain chain_if chain_bind simp: if_Ret eret_def yields_def)
  show ?thesis
    unfolding yields_step [of E "YSWhile c (Some b)" st] eval_code_def ycode.case yswhile_cases
    by (subst yields_bind [OF assms]) (auto intro!: chain chain_if chain_bind simp: if_Ret body eret_def simp del: ex_simps)
qed


lemma yields_while_enter:
  assumes "serves E" "yields E c st (YBoolean True) st1" "yields E b st1 l st2"
    "if goes_on l then yields E (YSWhile c (Some b)) st2 v st' else st' = st2 \<and> v = (if isBreak l then YNull else l)"
  shows "yields E (YSWhile c (Some b)) st v st'"
  by (subst yields_while [OF assms(1)], intro exI [of _ "YBoolean True"] exI [of _ st1] conjI assms(2), subst if_P [OF refl])
    (intro exI [of _ l] exI [of _ st2] conjI assms(3,4))

lemma yields_while_leave:
  assumes "serves E" "yields E c st t st'" "t \<noteq> YBoolean True"
  shows "yields E (YSWhile c (Some b)) st YNull st'"
  by (subst yields_while [OF assms(1)], intro exI [of _ t] exI [of _ st'] conjI assms(2)) (simp add: assms(3))

lemma yields_do:
  assumes "serves E"
  shows "yields E (YSDo (Some b) c) st v st' \<longleftrightarrow>
    (\<exists>l st1. yields E b st l st1 \<and>
      (if nil l
       then \<exists>t st2. yields E c st1 t st2 \<and>
              (if t = YBoolean True then yields E (YSDo (Some b) c) st2 v st' else st' = st2 \<and> v = YNull)
       else st' = st1 \<and> v = (if isBreak l then YNull else l)))"
proof -
  note chain = evaluate_chain [OF assms]
  have test: "(\<exists>n. ebind (evaluate n E c False) (\<lambda>t. if t = YBoolean True then evaluate n E (YSDo (Some b) c) False
        else eret YNull) st1 = Ret (v, st')) =
      (\<exists>t st2. yields E c st1 t st2 \<and>
        (if t = YBoolean True then yields E (YSDo (Some b) c) st2 v st' else st' = st2 \<and> v = YNull))" for st1
    by (subst yields_bind [OF assms]) (auto intro!: chain chain_if chain_bind simp: if_Ret eret_def yields_def)
  show ?thesis
    unfolding yields_step [of E "YSDo (Some b) c" st] eval_code_def ycode.case ysdo_cases
    by (subst yields_bind [OF assms]) (auto intro!: chain chain_if chain_bind simp: if_Ret test eret_def simp del: ex_simps)
qed

lemma do_to_while:
  assumes "serves E" "\<And>st l st1. yields E b st l st1 \<Longrightarrow> \<not> isReturn l"
    and "evaluate n E (YSDo (Some b) c) False st = Ret (v, st')"
  shows "\<exists>l st1. yields E b st l st1 \<and>
           (if nil l then yields E (YSWhile c (Some b)) st1 v st' else st' = st1 \<and> v = (if isBreak l then YNull else l))"
  using assms(3)
proof (induction n arbitrary: st)
  case (Suc n)
  then obtain l st1 where l: "evaluate n E b False st = Ret (l, st1)"
    and rest: "(if nil l then ebind (evaluate n E c False) (\<lambda>t. if t = YBoolean True
         then evaluate n E (YSDo (Some b) c) False else eret YNull)
       else eret (if isBreak l then YNull else l)) st1 = Ret (v, st')"
    by (cases "evaluate n E b False st") (auto simp: eval_code_def ysdo_cases ebind_def)
  have yl: "yields E b st l st1" using l by (auto simp: yields_def)
  show ?case
  proof (cases "nil l")
    case True
    with rest obtain t st2 where t: "evaluate n E c False st1 = Ret (t, st2)"
      "(if t = YBoolean True then evaluate n E (YSDo (Some b) c) False else eret YNull) st2 = Ret (v, st')"
      by (cases "evaluate n E c False st1") (auto simp: ebind_def)
    then have yt: "yields E c st1 t st2" by (auto simp: yields_def)
    have "yields E (YSWhile c (Some b)) st1 v st'"
    proof (cases "t = YBoolean True")
      case True
      with t Suc.IH obtain l2 st3 where "yields E b st2 l2 st3"
        "if nil l2 then yields E (YSWhile c (Some b)) st3 v st' else st' = st3 \<and> v = (if isBreak l2 then YNull else l2)"
        by auto blast
      moreover from this(1) assms(2) have "goes_on l2 = nil l2" by (auto simp: goes_on_def)
      ultimately show ?thesis using yt unfolding True by (intro yields_while_enter [OF assms(1)]) auto
    next
      case False
      with t yt have "yields E c st1 t st'" "v = YNull" by (auto simp: eret_def)
      with False show ?thesis by (auto intro: yields_while_leave [OF assms(1)])
    qed
    with yl True show ?thesis by auto
  next
    case False
    with rest have "st' = st1 \<and> v = (if isBreak l then YNull else l)" by (auto simp: eret_def)
    with yl False show ?thesis by (intro exI [of _ l] exI [of _ st1]) simp
  qed
qed simp

lemma yields_do_again:
  assumes "serves E" "yields E b st l st1" "nil l" "yields E c st1 t st2"
    "if t = YBoolean True then yields E (YSDo (Some b) c) st2 v st' else st' = st2 \<and> v = YNull"
  shows "yields E (YSDo (Some b) c) st v st'"
  by (subst yields_do [OF assms(1)], intro exI [of _ l] exI [of _ st1] conjI assms(2), subst if_P [OF assms(3)])
    (intro exI [of _ t] exI [of _ st2] conjI assms(4,5))

lemma yields_do_leave:
  assumes "serves E" "yields E b st l st1" "\<not> nil l"
  shows "yields E (YSDo (Some b) c) st (if isBreak l then YNull else l) st1"
  by (subst yields_do [OF assms(1)], intro exI [of _ l] exI [of _ st1] conjI assms(2)) (simp add: assms(3))

lemma while_to_do:
  assumes "serves E" "\<And>st l st1. yields E b st l st1 \<Longrightarrow> \<not> isReturn l"
    and "evaluate n E (YSWhile c (Some b)) False st1 = Ret (v, st')" "yields E b st l st1" "nil l"
  shows "yields E (YSDo (Some b) c) st v st'"
  using assms(3-5)
proof (induction n arbitrary: st l st1)
  case (Suc n)
  then obtain t st2 where t: "evaluate n E c False st1 = Ret (t, st2)"
    and rest: "(if t = YBoolean True then ebind (evaluate n E b False) (\<lambda>l. if goes_on l
          then evaluate n E (YSWhile c (Some b)) False else eret (if isBreak l then YNull else l))
       else eret YNull) st2 = Ret (v, st')"
    by (cases "evaluate n E c False st1") (auto simp: eval_code_def yswhile_cases ebind_def)
  have "if t = YBoolean True then yields E (YSDo (Some b) c) st2 v st' else st' = st2 \<and> v = YNull"
  proof (cases "t = YBoolean True")
    case True
    with rest obtain l2 st3 where l2: "evaluate n E b False st2 = Ret (l2, st3)"
      and rest2: "(if goes_on l2 then evaluate n E (YSWhile c (Some b)) False
        else eret (if isBreak l2 then YNull else l2)) st3 = Ret (v, st')"
      by (cases "evaluate n E b False st2") (auto simp: ebind_def)
    have yl: "yields E b st2 l2 st3" using l2 by (auto simp: yields_def)
    moreover from yl assms(2) have "goes_on l2 = nil l2" by (auto simp: goes_on_def)
    ultimately have "yields E (YSDo (Some b) c) st2 v st'"
      using rest2 Suc.IH [of st3 st2 l2] yields_do_leave [OF assms(1) yl]
      by (cases "nil l2") (auto simp: eret_def)
    with True show ?thesis by simp
  qed (use rest in \<open>auto simp: eret_def\<close>)
  moreover have "yields E c st1 t st2" using t by (auto simp: yields_def)
  ultimately show ?case using Suc.prems assms(1) by (blast intro: yields_do_again)
qed simp

lemma do_while_unrolls:
  assumes "serves E" "\<And>st l st1. yields E b st l st1 \<Longrightarrow> \<not> isReturn l"
  shows "yields E (YSDo (Some b) c) st v st' \<longleftrightarrow>
    (\<exists>l st1. yields E b st l st1 \<and>
       (if nil l then yields E (YSWhile c (Some b)) st1 v st' else st' = st1 \<and> v = (if isBreak l then YNull else l)))"
    (is "?L \<longleftrightarrow> ?R")
proof
  assume ?L
  then obtain n where "evaluate n E (YSDo (Some b) c) False st = Ret (v, st')" by (auto simp: yields_def)
  with assms show ?R by (rule do_to_while)
next
  assume ?R
  then obtain l st1 where l: "yields E b st l st1"
    "if nil l then yields E (YSWhile c (Some b)) st1 v st' else st' = st1 \<and> v = (if isBreak l then YNull else l)"
    by blast
  show ?L
  proof (cases "nil l")
    case True
    with l obtain n where "evaluate n E (YSWhile c (Some b)) False st1 = Ret (v, st')" by (auto simp: yields_def)
    with l True show ?thesis by (intro while_to_do [OF assms])
  next
    case False
    with l yields_do_leave [OF assms(1) l(1)] show ?thesis by auto
  qed
qed


text \<open>A call of a function that is defined gives its parameters back the values they had before.\<close>

lemma call_restores:
  assumes "serves E" "\<And>h f n args. keeps P (e_handler E h f n args)" "\<And>k args. keeps P (e_foreign E k args)"
    and def: "f_definition (p_function P f) = Some d"
    and run: "evaluateCall E (evaluate n E) (YCPFunction f) args st = Ret (v, st')"
    and e: "e \<in> set (f_params (p_function P f))" "\<not> at_risk P e"
  shows "m_value st' e = m_value st e"
proof -
  let ?ps = "f_params (p_function P f)"
  define m where "m = ebind (set_params P ?ps args)
      (\<lambda>ok. if ok then with_context (evaluate n E d False) else eret YNull)"
  have "ebind (emodify (\<lambda>st. push_all st ?ps)) (\<lambda>_. ebind m (\<lambda>v.
      ebind (epartial (\<lambda>st. pop_all st ?ps)) (\<lambda>_. eret v))) st = Ret (v, st')"
    using run assms(1) def
    by (auto simp: evaluateCall_def ycp_evaluateCall_def Let_def serves_def m_def ebind_assoc eundef_def split: if_splits)
  then obtain st1 where st1: "m (push_all st ?ps) = Ret (v, st1)" "pop_all st1 ?ps = Some st'"
    by (cases "m (push_all st ?ps)") (auto simp: eval_defs split: option.splits)
  have "keeps P m" unfolding m_def by (intro keeps_intros evaluate_keeps assms(1-3))
  with st1 e have "rec_stack st1 e = replicate (count_list ?ps e) (m_value st e) @ rec_stack st e"
    by (auto simp: keeps_def kept_def)
  moreover have "count_list ?ps e \<noteq> 0" using e(1) by (simp add: count_list_0_iff)
  ultimately show ?thesis using pop_all_value [OF st1(2), of e] e(1) by (simp add: nth_append)
qed

end

end
