(* ===== verification/Access.thy ===== *)
theory Access
  imports Interpreter
begin

text \<open>
  Bracket expressions and assignments (\<^verbatim>\<open>YEBracket::evaluate\<close>, \<^verbatim>\<open>YSBracket::commit\<close>): what is assigned is read back and nothing
  else changes; type propagation (\<^verbatim>\<open>YEPropagate::evaluate\<close>): what it lets through is a value of the type.
\<close>

section \<open>Indices\<close>

lemma to_int32_word: "to_int32 (word_of_int s) = signed_take_bit 31 s"
proof -
  have "(ucast (word_of_int s :: int64) :: 32 word) = word_of_int s"
    by (rule bit_word_eqI) (simp add: bit_ucast_iff bit_word_of_int_iff)
  then show ?thesis by (simp only: to_int32_def sint_sbintrunc') simp
qed

lemma to_int32_small: "- (2 ^ 31) \<le> s \<Longrightarrow> s < 2 ^ 31 \<Longrightarrow> to_int32 (word_of_int s) = s"
  by (simp add: to_int32_word signed_take_bit_int_eq_self)

lemma to_int32_wraps: "2 ^ 31 \<le> s \<Longrightarrow> s < 2 ^ 32 \<Longrightarrow> to_int32 (word_of_int s) < 0"
  unfolding to_int32_word signed_take_bit_eq_take_bit_shift take_bit_eq_mod
  by (simp add: mod_pos_geq [of "2 ^ 32" "s + 2 ^ 31", simplified])

lemma to_int32_add: "to_int32 (word_of_int s + 2 ^ 32) = to_int32 (word_of_int s)"
proof -
  have eq: "word_of_int s + 2 ^ 32 = (word_of_int (s + 2 ^ 32) :: int64)" by (simp only: wi_hom_add [symmetric]) simp
  have m: "(s + 2 ^ 32 + 2 ^ 31) mod 2 ^ 32 = (s + 2 ^ 31 :: int) mod 2 ^ 32"
    using mod_add_self2 [of "s + 2 ^ 31" "2 ^ 32 :: int"] by (simp add: algebra_simps)
  show ?thesis
    unfolding eq to_int32_word signed_take_bit_eq_take_bit_shift take_bit_eq_mod using m by simp
qed

lemma to_int32_index: "0 \<le> sint i \<Longrightarrow> sint i < 2 ^ 31 \<Longrightarrow> to_int32 i = sint i"
  using to_int32_small [of "sint i"] by simp

section \<open>Bracket expressions and assignments\<close>

text \<open>
  The indices of an assignment are in range when those that select from a list or a term are not negative and fit an
  \<^verbatim>\<open>int\<close>.  Two lists of indices part at the first index in which they differ.
\<close>

fun in_range :: "'c ycp \<Rightarrow> 'c ycp list \<Rightarrow> bool" where
  "in_range current [] \<longleftrightarrow> True"
| "in_range current (a # as) \<longleftrightarrow>
     (isMap current \<or> (case a of YInteger i \<Rightarrow> 0 \<le> sint i \<and> sint i < 2 ^ 31 | _ \<Rightarrow> True))
     \<and> in_range (bracket_step current a) as"

fun part :: "'c ycp list \<Rightarrow> 'c ycp list \<Rightarrow> bool" where
  "part (a # as) (b # bs) \<longleftrightarrow> a \<noteq> b \<or> part as bs"
| "part _ _ \<longleftrightarrow> False"

text \<open>One step of an assignment: the container with one element replaced.\<close>

definition put :: "'c ycp \<Rightarrow> 'c ycp \<Rightarrow> 'c ycp \<Rightarrow> 'c ycp" where
  "put current a w =
     (case current of
        YList xs \<Rightarrow> (case a of YInteger i \<Rightarrow> YList (list_set xs (sint i) w) | _ \<Rightarrow> YNull)
      | YTerm n xs \<Rightarrow> (case a of YInteger i \<Rightarrow> YTerm n (list_set xs (sint i) w) | _ \<Rightarrow> YNull)
      | YMap m \<Rightarrow> if is_key a then YMap (ymap_add m a w) else YNull
      | _ \<Rightarrow> YNull)"

lemma functionalAdd_put:
  "ymap_inv m \<Longrightarrow> ymap_functionalAdd m a w = (if is_key a then YMap (ymap_add m a w) else YNull)"
  by (auto simp: ymap_functionalAdd_def map_copy is_key_def)

lemma commit_steps:
  assumes "v \<noteq> YNull"
  shows "commit (YList xs) (YInteger i # as) v =
      (let w = commit (list_value xs (to_int32 i)) as v in if w = YNull then YNull else YList (list_set xs (to_int32 i) w))"
    "commit (YTerm n xs) (YInteger i # as) v =
      (let w = commit (list_value xs (to_int32 i)) as v in if w = YNull then YNull else YTerm n (list_set xs (to_int32 i) w))"
    "a \<noteq> YNull \<Longrightarrow> commit (YMap m) (a # as) v =
      (let w = commit (ymap_value m a) as v in if w = YNull then YNull else ymap_functionalAdd m a w)"
  using assms by (cases as; simp add: isNull_def Let_def)+

declare commit.simps(2) [simp del]

lemma commit_list_index: "commit (YList xs) (a # as) v \<noteq> YNull \<Longrightarrow> \<exists>i. a = YInteger i"
  and commit_term_index: "commit (YTerm n xs) (a # as) v \<noteq> YNull \<Longrightarrow> \<exists>i. a = YInteger i"
  and commit_index: "commit current (a # as) v \<noteq> YNull \<Longrightarrow> a \<noteq> YNull"
  and commit_container: "commit current (a # as) v \<noteq> YNull \<Longrightarrow> isList current \<or> isTerm current \<or> isMap current"
  by (cases a; simp add: commit.simps isNull_def; fail)+
     (cases current; simp add: commit.simps isNull_def split: if_splits)

lemma commit_put:
  assumes "wf_value current" "in_range current (a # as)" "v \<noteq> YNull" "commit current (a # as) v \<noteq> YNull"
  shows "commit (bracket_step current a) as v \<noteq> YNull \<and>
    commit current (a # as) v = put current a (commit (bracket_step current a) as v)"
proof -
  consider (list) xs where "current = YList xs" | (trm) n xs where "current = YTerm n xs" | (map) m where "current = YMap m"
    using commit_container [OF assms(4)] by (cases current) simp_all
  then show ?thesis
  proof cases
    case list
    with assms(4) obtain i where "a = YInteger i" using commit_list_index by blast
    with list assms show ?thesis
      by (simp add: commit_steps to_int32_index put_def bracket_step_def Let_def split: if_splits)
  next
    case trm
    with assms(4) obtain i where "a = YInteger i" using commit_term_index by blast
    with trm assms show ?thesis
      by (simp add: commit_steps to_int32_index put_def bracket_step_def Let_def split: if_splits)
  next
    case map
    with assms commit_index [OF assms(4)] show ?thesis
      by (auto simp: commit_steps put_def bracket_step_def Let_def functionalAdd_put split: if_splits)
  qed
qed

lemma list_set_other:
  "0 \<le> sint i \<Longrightarrow> j \<noteq> i \<Longrightarrow> list_value xs (sint j) \<noteq> YNull \<Longrightarrow> list_value (list_set xs (sint i) w) (sint j) = list_value xs (sint j)"
  for i j :: int64
  by (auto simp: list_value_set signed_word_eqI) (simp add: list_value_def)

lemma put_cases:
  assumes "put current a w \<noteq> YNull"
  obtains (list) xs i where "current = YList xs" "a = YInteger i"
    | (trm) n xs i where "current = YTerm n xs" "a = YInteger i" | (map) m where "current = YMap m" "is_key a"
  using assms by (cases current; cases a; simp add: put_def split: if_splits)

lemma step_cases:
  assumes "bracket_step current a \<noteq> YNull"
  obtains (list) xs i where "current = YList xs" "a = YInteger i"
    | (trm) n xs i where "current = YTerm n xs" "a = YInteger i" | (map) m where "current = YMap m"
  using assms by (cases current; cases a; simp add: bracket_step_def)

lemma put_step:
  assumes "wf_value current" "put current a w \<noteq> YNull"
    "isMap current \<or> (case a of YInteger i \<Rightarrow> 0 \<le> sint i \<and> sint i < 2 ^ 31 | _ \<Rightarrow> True)"
  shows "bracket_step (put current a w) a = w \<and>
    (\<forall>b. is_key b \<and> b \<noteq> a \<and> bracket_step current b \<noteq> YNull \<longrightarrow> bracket_step (put current a w) b = bracket_step current b)"
  using assms(2)
proof (cases rule: put_cases)
  case list
    have "bracket_step (put current a w) b = bracket_step current b" if "b \<noteq> a" "bracket_step current b \<noteq> YNull" for b
      using list assms(3) that by (cases b) (simp_all add: put_def bracket_step_def list_set_other)
    with list assms(3) show ?thesis by (simp add: put_def bracket_step_def list_value_set)
  next
    case trm
    have "bracket_step (put current a w) b = bracket_step current b" if "b \<noteq> a" "bracket_step current b \<noteq> YNull" for b
      using trm assms(3) that by (cases b) (simp_all add: put_def bracket_step_def list_set_other)
    with trm assms(3) show ?thesis by (simp add: put_def bracket_step_def list_value_set)
  next
    case map
    with assms(1) show ?thesis by (simp add: put_def bracket_step_def ymap_value_def ymap.lookup_add)
qed

lemma wf_value_list_value: "list_all wf_value xs \<Longrightarrow> list_value xs i = YNull \<or> wf_value (list_value xs i)"
  by (auto simp: list_value_def list_all_length)

lemma wf_value_map_value: "wf_value (YMap m) \<Longrightarrow> is_key k \<Longrightarrow> ymap_value m k = YNull \<or> wf_value (ymap_value m k)"
  by (auto simp: ymap_value_def map_find_map_of list_all_iff split: option.split dest!: map_of_SomeD)

lemma ymap_inv_distinct: "ymap_inv m \<Longrightarrow> distinct (map fst m)"
proof (induction m)
  case (Cons p m)
  from Cons.prems have "ymap_inv m" "is_key (fst p)" "\<forall>b \<in> fst ` set m. ycp_less (fst p) b" by (auto simp: ymap_inv_def)
  with Cons.IH key_ord.lt_irrefl [of "fst p"] show ?case by (auto simp: ycp_less_def)
qed simp

lemma list_set_wf: "list_all wf_value xs \<Longrightarrow> wf_value w \<Longrightarrow> list_all wf_value (list_set xs i w)"
  by (auto simp: list_set_def list_all_length nth_list_update nth_append)

lemma put_wf:
  assumes "wf_value current" "wf_value w" "put current a w \<noteq> YNull"
  shows "wf_value (put current a w)"
  using assms(3)
proof (cases rule: put_cases)
  case (map m)
  with assms have m: "ymap_inv m" "is_key a" "list_all (\<lambda>p. wf_value (snd p)) m" by simp_all
  have inv: "ymap_inv (ymap_add m a w)" using m(1) by (rule ymap.inv_add)
  have "wf_value x" if "(k, x) \<in> set (ymap_add m a w)" for k x
  proof -
    have k: "is_key k" using that inv by (auto simp: ymap_inv_def list_all_iff)
    have "map_of (ymap_add m a w) k = Some x" using that ymap_inv_distinct [OF inv] by simp
    with m k assms(2) show ?thesis
      by (auto simp: map_of_ymap_add list_all_iff split: if_splits dest!: map_of_SomeD)
  qed
  with map inv show ?thesis by (auto simp: put_def list_all_iff)
qed (use assms list_set_wf in \<open>simp_all add: put_def\<close>)

lemma step_wf:
  assumes "wf_value current" "bracket_step current a \<noteq> YNull" "isMap current \<longrightarrow> is_key a"
  shows "wf_value (bracket_step current a)"
  using assms(2)
proof (cases rule: step_cases)
  case (map m)
  with assms wf_value_map_value [of m a] show ?thesis by (auto simp: bracket_step_def)
qed (use assms wf_value_list_value in \<open>force simp: bracket_step_def\<close>)+

lemma put_key: "put current a w \<noteq> YNull \<Longrightarrow> is_key a"
  by (cases current; cases a; simp add: put_def split: if_splits)

lemma commit_walk:
  assumes "current = YNull \<or> wf_value current" "in_range current is" "wf_value v" "commit current is v = r" "r \<noteq> YNull"
  shows "bracket_walk r is = v \<and> wf_value r \<and>
    (\<forall>js. list_all is_key js \<and> part is js \<and> bracket_walk current js \<noteq> YNull \<longrightarrow> bracket_walk r js = bracket_walk current js)"
  using assms
proof (induction "is" arbitrary: current r)
  case (Cons a as)
  have v: "v \<noteq> YNull" using Cons.prems(3) by auto
  have wf: "wf_value current" using Cons.prems(1,4,5) by (auto simp: commit.simps isNull_def)
  define w where "w = commit (bracket_step current a) as v"
  have w: "w \<noteq> YNull" "r = put current a w"
    using commit_put [OF wf Cons.prems(2) v] Cons.prems(4,5) by (simp_all add: w_def)
  have key: "is_key a" using put_key [of current a w] Cons.prems(5) w(2) by simp
  have range: "isMap current \<or> (case a of YInteger i \<Rightarrow> 0 \<le> sint i \<and> sint i < 2 ^ 31 | _ \<Rightarrow> True)"
    "in_range (bracket_step current a) as" using Cons.prems(2) by simp_all
  have put: "put current a w \<noteq> YNull" using Cons.prems(5) w(2) by simp
  note step = put_step [OF wf put range(1)]
  have IH: "bracket_walk w as = v \<and> wf_value w \<and>
      (\<forall>js. list_all is_key js \<and> part as js \<and> bracket_walk (bracket_step current a) js \<noteq> YNull
         \<longrightarrow> bracket_walk w js = bracket_walk (bracket_step current a) js)"
    using step_wf [OF wf] key by (intro Cons.IH range(2) Cons.prems(3) w(1)) (auto simp: w_def)
  have "bracket_walk r js = bracket_walk current js"
    if js: "list_all is_key js" "part (a # as) js" "bracket_walk current js \<noteq> YNull" for js
  proof -
    from js(2) obtain b bs where b: "js = b # bs" by (cases js) auto
    with js have "is_key b" "bracket_step current b \<noteq> YNull" by (auto simp: isNull_def Let_def split: if_splits)
    with b js IH step w show ?thesis by (cases "b = a") (auto simp: isNull_def Let_def split: if_splits)
  qed
  then show ?case using IH step w key put_wf [OF wf _ put] by (auto simp: isNull_def)
qed (auto split: if_splits)

text \<open>
  An index that does not fit an \<^verbatim>\<open>int\<close> writes to the element at the index cut down to 32 bits, while reading with the same
  index finds nothing.
\<close>

lemma index_truncated:
  assumes "0 \<le> i" "i < 2 ^ 31" "length xs \<le> 2 ^ 31" "v \<noteq> YNull"
  shows "commit (YList xs) [YInteger (word_of_int i + 2 ^ 32)] v = YList (list_set xs i v) \<and>
    bracket_walk (YList (list_set xs i v)) [YInteger (word_of_int i + 2 ^ 32)] = YNull"
proof -
  have "word_of_int i + 2 ^ 32 = (word_of_int (i + 2 ^ 32) :: int64)" by (simp only: wi_hom_add [symmetric]) simp
  then have "sint (word_of_int i + 2 ^ 32 :: int64) = i + 2 ^ 32"
    using assms(1,2) by (simp only: sint_sbintrunc') (simp add: signed_take_bit_int_eq_self)
  moreover have "int (length (list_set xs i v)) \<le> i + 2 ^ 32" using assms(1-3) by (simp add: length_list_set max_def)
  moreover have "to_int32 (word_of_int i + 2 ^ 32) = i" using assms(1,2) by (simp only: to_int32_add to_int32_small)
  ultimately show ?thesis using assms(4)
    by (simp add: commit_steps bracket_step_def list_value_def isNull_def Let_def)
qed

section \<open>Type propagation\<close>

lemma canPropagate_accepts: "data_type t \<Longrightarrow> wf_value v \<Longrightarrow> canPropagate v t \<Longrightarrow> accepts t v"
proof (induction t arbitrary: v rule: data_type.induct)
  case (1 k q)
  then show ?case by (cases v; cases k; simp add: canPropagate.simps nil_def isNull_def accepts_plain type_valueType_def)
next
  case (2 t q)
  then show ?case
    by (cases v) (auto simp: canPropagate.simps [of _ "ListType t q"] nil_def isNull_def accepts_list list_all_iff)
next
  case (3 k t q)
  note can = canPropagate.simps [of _ "MapType k t q"]
  show ?case
  proof (cases v)
    case (YMap m)
    have key: "wf_value a" if "(a, b) \<in> set m" for a b
      using 3(4) that unfolding YMap by (auto simp: ymap_inv_def list_all_iff is_key_def; cases a; auto)
    have "accepts k a \<and> accepts t b"
      if "(a, b) \<in> set m" "\<forall>p \<in> set m. canPropagate (fst p) k \<and> canPropagate (snd p) t" for a b
      using that key [OF that(1)] 3 unfolding YMap by (fastforce simp: list_all_iff)
    with 3 YMap show ?thesis by (auto simp: can nil_def isNull_def accepts_map list_all_iff data_type_kind)
  qed (use 3 in \<open>simp_all add: can nil_def isNull_def accepts_map\<close>)
qed simp_all

text \<open>Types whose maps have a value type that is not \<^verbatim>\<open>any\<close>, where \<^verbatim>\<open>matchvalue\<close> looks at the keys.\<close>

fun keys_checked :: "ytype \<Rightarrow> bool" where
  "keys_checked (ListType t q) \<longleftrightarrow> keys_checked t"
| "keys_checked (MapType k t q) \<longleftrightarrow> m_kind t \<noteq> AnyT \<and> keys_checked k \<and> keys_checked t"
| "keys_checked t \<longleftrightarrow> True"

lemma accepts_canPropagate: "data_type t \<Longrightarrow> keys_checked t \<Longrightarrow> accepts t v \<Longrightarrow> canPropagate v t"
proof (induction t arbitrary: v rule: data_type.induct)
  case (1 k q)
  then show ?case by (cases v; cases k; simp add: canPropagate.simps nil_def isNull_def accepts_plain type_valueType_def)
next
  case (2 t q)
  then show ?case
    by (auto simp: canPropagate.simps [of _ "ListType t q"] nil_def isNull_def accepts_list list_all_iff data_type_kind)
next
  case (3 k t q)
  then show ?case
    by (auto simp: canPropagate.simps [of _ "MapType k t q"] nil_def isNull_def accepts_map list_all_iff data_type_kind)
qed simp_all


section \<open>Properties\<close>

lemma sym_value_variable: "p_category P e = c_variable \<Longrightarrow> sym_value P st e = Some (m_value st e)"
  by (subst sym_value.simps) simp

lemma setValue_variable: "p_category P e = c_variable \<Longrightarrow> v \<noteq> YNull \<Longrightarrow> setValue P st e v = Some (store_value st e v)"
  by (subst setValue.simps) (simp add: isNull_def)

text \<open>
  C38. Type propagation is sound for types of data: what it gives for a value other than a reference is null, or a value that
  \<^verbatim>\<open>matchvalue\<close> of the target type accepts, after converting between integer and float where needed; a value that the
  type accepts already is passed on as it is, where \<^verbatim>\<open>matchvalue\<close> checks the keys of maps.
\<close>

theorem propagate_sound:
  assumes "data_type t" "wf_value v" "\<not> isRefValue v"
  shows "(propagate_value P t v st = Ret (w, st') \<and> w \<noteq> YNull \<longrightarrow> st' = st \<and> matchvalue t w = Some 0) \<and>
    (matchvalue t v = Some 0 \<and> keys_checked t \<longrightarrow> propagate_value P t v st = Ret (v, st))"
proof -
  have null: "v \<noteq> YNull" using assms(2) by auto
  have int: "m_kind t = IntegerT \<Longrightarrow> matchvalue t (YInteger i :: yvalue) = Some 0"
    and float: "m_kind t = FloatT \<Longrightarrow> matchvalue t (YFloat x :: yvalue) = Some 0" for i x
    by (simp_all add: matchvalue.simps isNull_def)
  have nil: "nil v \<Longrightarrow> matchvalue t v = Some 0"
    using null by (cases v) (simp_all add: nil_def matchvalue.simps isNull_def)
  have mismatch: "m_kind t = FloatT \<Longrightarrow> matchvalue t (YInteger i :: yvalue) \<noteq> Some 0"
    "m_kind t = IntegerT \<Longrightarrow> matchvalue t (YFloat x :: yvalue) \<noteq> Some 0" for i x
    by (simp_all add: matchvalue.simps isNull_def)
  have "propagate_value P t v st = Ret (w, st') \<and> w \<noteq> YNull \<longrightarrow> st' = st \<and> matchvalue t w = Some 0"
    using canPropagate_accepts [OF assms(1,2)] nil int float assms(3)
    by (cases v; auto simp: propagate_value_def eval_defs accepts_def nil_def isNull_def isRefValue_def split: if_splits option.splits)
  moreover have "matchvalue t v = Some 0 \<and> keys_checked t \<longrightarrow> propagate_value P t v st = Ret (v, st)"
    using accepts_canPropagate [OF assms(1), of v] mismatch assms(3)
    by (cases v; simp add: propagate_value_def eval_defs accepts_def nil_def isNull_def isRefValue_def)
  ultimately show ?thesis ..
qed

theorem propagate_sound_witness:
  "\<forall>P st. propagate_value P (ListType (PlainType IntegerT noq) noq) (YList [YInteger 1]) st = Ret (YList [YInteger 1], st)"
proof (intro allI)
  fix P and st :: ystate
  have "matchvalue (ListType (PlainType IntegerT noq) noq) (YList [YInteger 1] :: yvalue) = Some 0"
    by (simp add: matchvalue.simps isNull_def)
  with propagate_sound [of "ListType (PlainType IntegerT noq) noq" "YList [YInteger 1]" P st]
  show "propagate_value P (ListType (PlainType IntegerT noq) noq) (YList [YInteger 1]) st = Ret (YList [YInteger 1], st)"
    by (simp add: isRefValue_def)
qed

end
