(* ===== verification/Builtin_List.thy ===== *)
theory Builtin_List
  imports Evaluation Access
begin

text \<open>
  The builtin functions on lists, maps and multisets (\<^verbatim>\<open>YCPBuiltinList.cc\<close>, \<^verbatim>\<open>YCPBuiltinMap.cc\<close>,
  \<^verbatim>\<open>YCPBuiltinMultiset.cc\<close>).  A function that evaluates no code gives a value or \<^const>\<open>None\<close>, where the code
  aborts or uses a handle of the wrong class; one that runs a block for every element is an evaluation.  The sort
  that evaluates a block for its order is not modelled: the order in which \<^verbatim>\<open>std::sort\<close> compares is not determined.

  Lists are copied on writing, so that changing the local copy leaves the argument as it is.
\<close>

section \<open>Arguments\<close>

text \<open>A handle of class \<^verbatim>\<open>YCPList\<close> or \<^verbatim>\<open>YCPMap\<close> that the function tests for null first.\<close>

definition list_arg :: "'c ycp \<Rightarrow> ('c ycp list \<Rightarrow> 'c ycp option) \<Rightarrow> 'c ycp option" where
  "list_arg l f = (case l of YNull \<Rightarrow> Some YNull | YList xs \<Rightarrow> f xs | _ \<Rightarrow> None)"

definition map_arg :: "'c ycp \<Rightarrow> ('c ymap \<Rightarrow> 'c ycp option) \<Rightarrow> 'c ycp option" where
  "map_arg l f = (case l of YNull \<Rightarrow> Some YNull | YMap m \<Rightarrow> f m | _ \<Rightarrow> None)"

text \<open>The same for the functions that evaluate code.\<close>

definition over_list :: "yvalue \<Rightarrow> (yvalue list \<Rightarrow> yvalue eval) \<Rightarrow> yvalue eval" where
  "over_list l f = (case l of YNull \<Rightarrow> eret YNull | YList xs \<Rightarrow> f xs | _ \<Rightarrow> eundef)"

definition over_map :: "yvalue \<Rightarrow> (ycode ymap \<Rightarrow> yvalue eval) \<Rightarrow> yvalue eval" where
  "over_map l f = (case l of YNull \<Rightarrow> eret YNull | YMap m \<Rightarrow> f m | _ \<Rightarrow> eundef)"

text \<open>\<^verbatim>\<open>asEntry ()->entry ()\<close>, \<^verbatim>\<open>setValue\<close> of an entry, \<^verbatim>\<open>YCPCodeRep::evaluate\<close> and \<^verbatim>\<open>asBoolean ()->value ()\<close>.\<close>

definition as_entry :: "yvalue \<Rightarrow> nat eval" where
  "as_entry v = (case v of YEntry e \<Rightarrow> eret e | _ \<Rightarrow> eundef)"

definition entry_set :: "program \<Rightarrow> nat \<Rightarrow> yvalue \<Rightarrow> unit eval" where
  "entry_set P e v = epartial (\<lambda>st. setValue P st e v)"

definition code_evaluate :: "evaluator \<Rightarrow> yvalue \<Rightarrow> yvalue eval" where
  "code_evaluate ev v = (case v of YCode c \<Rightarrow> ev c False | _ \<Rightarrow> eundef)"

definition as_boolean :: "yvalue \<Rightarrow> bool eval" where
  "as_boolean v = (case v of YBoolean b \<Rightarrow> eret b | _ \<Rightarrow> eundef)"

section \<open>Lists\<close>

fun l_find_loop :: "program \<Rightarrow> evaluator \<Rightarrow> nat \<Rightarrow> yvalue list \<Rightarrow> yvalue \<Rightarrow> yvalue eval" where
  "l_find_loop P ev s [] expr = eret YNull"
| "l_find_loop P ev s (x # xs) expr =
     ebind (entry_set P s x) (\<lambda>_. ebind (code_evaluate ev expr) (\<lambda>v.
       if isNull v then eret YNull
       else if isVoid v then l_find_loop P ev s xs expr
       else ebind (as_boolean v) (\<lambda>b. if b then eret x else l_find_loop P ev s xs expr)))"

definition l_find :: "program \<Rightarrow> evaluator \<Rightarrow> yvalue \<Rightarrow> yvalue \<Rightarrow> yvalue \<Rightarrow> yvalue eval" where
  "l_find P ev symbol l expr = over_list l (\<lambda>xs. ebind (as_entry symbol) (\<lambda>s. l_find_loop P ev s xs expr))"

definition l_prepend :: "'c ycp \<Rightarrow> 'c ycp \<Rightarrow> 'c ycp option" where
  "l_prepend l v = list_arg l (\<lambda>xs. Some (YList (list_functionalAdd xs v True)))"

definition l_contains :: "'c ycp \<Rightarrow> 'c ycp \<Rightarrow> 'c ycp option" where
  "l_contains l v = (case l of YList xs \<Rightarrow> Some (YBoolean (list_contains xs v)) | _ \<Rightarrow> None)"

text \<open>\<^verbatim>\<open>std::lower_bound\<close> and \<^verbatim>\<open>std::binary_search\<close>, halving the length of the range.\<close>

function lower_bound :: "('a \<Rightarrow> 'a \<Rightarrow> bool) \<Rightarrow> 'a \<Rightarrow> 'a list \<Rightarrow> nat" where
  "lower_bound ls v xs =
     (if xs = [] then 0
      else let half = length xs div 2 in
        if ls (xs ! half) v then half + 1 + lower_bound ls v (drop (half + 1) xs)
        else lower_bound ls v (take half xs))"
  by auto
termination
  by (relation "measure (\<lambda>(ls, v, xs). length xs)") (auto simp: neq_Nil_conv)

declare lower_bound.simps [simp del]

definition binary_search :: "('a \<Rightarrow> 'a \<Rightarrow> bool) \<Rightarrow> 'a \<Rightarrow> 'a list \<Rightarrow> bool" where
  "binary_search ls v xs = (let i = lower_bound ls v xs in i < length xs \<and> \<not> ls v (xs ! i))"

definition l_setcontains :: "'c ycp \<Rightarrow> 'c ycp \<Rightarrow> 'c ycp option" where
  "l_setcontains l v = (case l of YList xs \<Rightarrow> Some (YBoolean (binary_search ycp_less v xs)) | _ \<Rightarrow> None)"

fun union_add :: "'c ylist \<Rightarrow> 'c ylist \<Rightarrow> 'c ylist" where
  "union_add new [] = new"
| "union_add new (x # xs) = union_add (if \<not> list_contains new x then list_add new x else new) xs"

definition l_unionlist :: "'c ycp \<Rightarrow> 'c ycp \<Rightarrow> 'c ycp option" where
  "l_unionlist l1 l2 =
     (if isNull l1 \<or> isNull l2 then Some YNull
      else list_arg l1 (\<lambda>xs. list_arg l2 (\<lambda>ys. Some (YList (union_add (union_add [] xs) ys)))))"

definition l_mergelist :: "'c ycp \<Rightarrow> 'c ycp \<Rightarrow> 'c ycp option" where
  "l_mergelist l1 l2 =
     (if isNull l1 \<or> isNull l2 then Some YNull
      else list_arg l1 (\<lambda>xs. list_arg l2 (\<lambda>ys. Some (YList (foldl list_add (foldl list_add [] xs) ys)))))"

text \<open>\<^verbatim>\<open>for (int i = i1; i < i2; i++) newlist->add (list->value (i))\<close>\<close>

definition list_range :: "'c ylist \<Rightarrow> int \<Rightarrow> int \<Rightarrow> 'c ylist" where
  "list_range xs i1 i2 = map (list_value xs) [i1..i2 - 1]"

definition l_sublist1 :: "'c ycp \<Rightarrow> 'c ycp \<Rightarrow> 'c ycp option" where
  "l_sublist1 l offset =
     (if isNull l \<or> isNull offset then Some YNull
      else case (l, offset) of
        (YList xs, YInteger off) \<Rightarrow>
          let i1 = to_int32 off; i2 = int (list_size xs) in
          if i1 < 0 \<or> int (list_size xs) \<le> i1 then Some YNull else Some (YList (list_range xs i1 i2))
      | _ \<Rightarrow> None)"

text \<open>The sum of an \<^verbatim>\<open>int\<close> and a \<^verbatim>\<open>long long\<close>, undefined on overflow, cut down to an \<^verbatim>\<open>int\<close>.\<close>

definition sum_to_int :: "int \<Rightarrow> int64 \<Rightarrow> int option" where
  "sum_to_int i n =
     (let s = i + sint n in if - (2 ^ 63) \<le> s \<and> s < 2 ^ 63 then Some (to_int32 (word_of_int s)) else None)"

definition l_sublist2 :: "'c ycp \<Rightarrow> 'c ycp \<Rightarrow> 'c ycp \<Rightarrow> 'c ycp option" where
  "l_sublist2 l offset len =
     (if isNull l \<or> isNull offset \<or> isNull len then Some YNull
      else case (l, offset, len) of
        (YList xs, YInteger off, YInteger n) \<Rightarrow>
          let i1 = to_int32 off in
          (case sum_to_int i1 n of
             None \<Rightarrow> None
           | Some i2 \<Rightarrow>
               if i1 < 0 \<or> int (list_size xs) \<le> i1 then Some YNull
               else if i2 < i1 \<or> int (list_size xs) < i2 then Some YNull
               else Some (YList (list_range xs i1 i2)))
      | _ \<Rightarrow> None)"

fun l_filter_loop :: "program \<Rightarrow> evaluator \<Rightarrow> nat \<Rightarrow> yvalue list \<Rightarrow> yvalue list \<Rightarrow> yvalue \<Rightarrow> yvalue eval" where
  "l_filter_loop P ev s ret [] expr = eret (YList ret)"
| "l_filter_loop P ev s ret (x # xs) expr =
     ebind (entry_set P s x) (\<lambda>_. ebind (code_evaluate ev expr) (\<lambda>v.
       if isNull v then eret YNull
       else if isVoid v then l_filter_loop P ev s ret xs expr
       else if isBreak v then eret (YList ret)
       else ebind (as_boolean v) (\<lambda>b. l_filter_loop P ev s (if b then list_add ret x else ret) xs expr)))"

definition l_filter :: "program \<Rightarrow> evaluator \<Rightarrow> yvalue \<Rightarrow> yvalue \<Rightarrow> yvalue \<Rightarrow> yvalue eval" where
  "l_filter P ev symbol l expr = over_list l (\<lambda>xs. ebind (as_entry symbol) (\<lambda>s. l_filter_loop P ev s [] xs expr))"

fun l_maplist_loop :: "program \<Rightarrow> evaluator \<Rightarrow> nat \<Rightarrow> yvalue list \<Rightarrow> yvalue list \<Rightarrow> yvalue \<Rightarrow> yvalue eval" where
  "l_maplist_loop P ev s ret [] expr = eret (YList ret)"
| "l_maplist_loop P ev s ret (x # xs) expr =
     ebind (entry_set P s x) (\<lambda>_. ebind (code_evaluate ev expr) (\<lambda>v.
       if isNull v then eret YNull
       else if isBreak v then eret (YList ret)
       else l_maplist_loop P ev s (list_add ret v) xs expr))"

definition l_maplist :: "program \<Rightarrow> evaluator \<Rightarrow> yvalue \<Rightarrow> yvalue \<Rightarrow> yvalue \<Rightarrow> yvalue eval" where
  "l_maplist P ev symbol l expr = over_list l (\<lambda>xs. ebind (as_entry symbol) (\<lambda>s. l_maplist_loop P ev s [] xs expr))"

fun l_listmap_loop :: "program \<Rightarrow> evaluator \<Rightarrow> nat \<Rightarrow> ycode ymap \<Rightarrow> yvalue list \<Rightarrow> yvalue \<Rightarrow> yvalue eval" where
  "l_listmap_loop P ev s ret [] expr = eret (YMap ret)"
| "l_listmap_loop P ev s ret (x # xs) expr =
     ebind (entry_set P s x) (\<lambda>_. ebind (code_evaluate ev expr) (\<lambda>v.
       if isNull v then eret YNull
       else if isBreak v then eret (YMap ret)
       else case v of
         YMap m \<Rightarrow> if ymap_size m = 1 then l_listmap_loop P ev s (ymap_add ret (fst (hd m)) (snd (hd m))) xs expr
                   else eret YNull
       | _ \<Rightarrow> eret YNull))"

definition l_listmap :: "program \<Rightarrow> evaluator \<Rightarrow> yvalue \<Rightarrow> yvalue \<Rightarrow> yvalue \<Rightarrow> yvalue eval" where
  "l_listmap P ev symbol l expr = over_list l (\<lambda>xs. ebind (as_entry symbol) (\<lambda>s. l_listmap_loop P ev s [] xs expr))"

fun flatten_loop :: "'c ylist \<Rightarrow> 'c ylist \<Rightarrow> 'c ycp option" where
  "flatten_loop ret [] = Some (YList ret)"
| "flatten_loop ret (x # xs) =
     (case x of
        YNull \<Rightarrow> None
      | YList sub \<Rightarrow> flatten_loop (foldl list_add ret sub) xs
      | _ \<Rightarrow> Some YNull)"

definition l_flatten :: "'c ycp \<Rightarrow> 'c ycp option" where
  "l_flatten l = list_arg l (flatten_loop [])"

definition l_toset :: "'c ycp \<Rightarrow> 'c ycp option" where
  "l_toset l = (case l of YList xs \<Rightarrow> Some (YList (foldl (\<lambda>s x. sset_insert ycp_less x s) [] xs)) | _ \<Rightarrow> None)"

definition l_sortlist :: "'c ycp \<Rightarrow> 'c ycp option" where
  "l_sortlist l = list_arg l (\<lambda>xs. Some (YList (list_sortlist xs)))"

definition l_lsortlist :: "(string \<Rightarrow> string \<Rightarrow> int) \<Rightarrow> 'c ycp \<Rightarrow> 'c ycp option" where
  "l_lsortlist coll l = list_arg l (\<lambda>xs. Some (YList (list_lsortlist coll xs)))"

text \<open>The loop of \<^verbatim>\<open>splitstring\<close> on what is left of the text from \<^verbatim>\<open>spos\<close> on.\<close>

function split_loop :: "string \<Rightarrow> string \<Rightarrow> string list" where
  "split_loop sc s =
     (if \<forall>c \<in> set s. c \<notin> set sc then [s]
      else let piece = takeWhile (\<lambda>c. c \<notin> set sc) s; rest = drop (length piece + 1) s in
        if rest = [] then [piece, []] else piece # split_loop sc rest)"
  by auto
termination
proof (relation "measure (\<lambda>(sc, s). length s)", goal_cases)
  case (2 sc s piece rest)
  then show ?case by (cases s) auto
qed simp

declare split_loop.simps [simp del]

definition l_splitstring :: "'c ycp \<Rightarrow> 'c ycp \<Rightarrow> 'c ycp option" where
  "l_splitstring s c =
     (case s of
        YNull \<Rightarrow> Some YNull
      | YString ss \<Rightarrow>
          (case c of
             YNull \<Rightarrow> Some YNull
           | YString sc \<Rightarrow> Some (YList (if ss = [] \<or> sc = [] then [] else map YString (split_loop sc ss)))
           | _ \<Rightarrow> None)
      | _ \<Rightarrow> None)"

definition l_changelist :: "'c ycp \<Rightarrow> 'c ycp \<Rightarrow> 'c ycp option" where
  "l_changelist l v = list_arg l (\<lambda>xs. Some (YList (list_add xs v)))"

definition l_add :: "'c ycp \<Rightarrow> 'c ycp \<Rightarrow> 'c ycp option" where
  "l_add l v = Some (case l of YList xs \<Rightarrow> YList (list_functionalAdd xs v False) | _ \<Rightarrow> YNull)"

definition l_isempty :: "'c ycp \<Rightarrow> 'c ycp option" where
  "l_isempty l = (case l of YList xs \<Rightarrow> Some (YBoolean (list_isEmpty xs)) | _ \<Rightarrow> None)"

definition l_size :: "'c ycp \<Rightarrow> 'c ycp option" where
  "l_size l = Some (YInteger (case l of YList xs \<Rightarrow> of_nat (list_size xs) | _ \<Rightarrow> 0))"

definition l_remove :: "'c ycp \<Rightarrow> 'c ycp \<Rightarrow> 'c ycp option" where
  "l_remove l i =
     list_arg l (\<lambda>xs. case i of
         YNull \<Rightarrow> Some YNull
       | YInteger n \<Rightarrow>
           if sint n < 0 \<or> int (list_size xs) \<le> sint n then Some (YList xs)
           else map_option YList (list_remove xs (sint n))
       | _ \<Rightarrow> None)"

definition l_select :: "'c ycp \<Rightarrow> 'c ycp \<Rightarrow> 'c ycp \<Rightarrow> 'c ycp option" where
  "l_select l i dflt =
     Some (case l of
        YList xs \<Rightarrow>
          (case i of
             YInteger n \<Rightarrow> if sint n < 0 \<or> int (list_size xs) \<le> sint n then dflt else list_value xs (sint n)
           | _ \<Rightarrow> dflt)
      | _ \<Rightarrow> dflt)"

fun l_foreach_loop :: "program \<Rightarrow> evaluator \<Rightarrow> nat \<Rightarrow> yvalue \<Rightarrow> yvalue list \<Rightarrow> yvalue \<Rightarrow> yvalue eval" where
  "l_foreach_loop P ev s ret [] expr = eret ret"
| "l_foreach_loop P ev s ret (x # xs) expr =
     ebind (entry_set P s x) (\<lambda>_. ebind (code_evaluate ev expr) (\<lambda>v.
       if isNull v then l_foreach_loop P ev s v xs expr
       else if isBreak v then eret YVoid
       else l_foreach_loop P ev s v xs expr))"

definition l_foreach :: "program \<Rightarrow> evaluator \<Rightarrow> yvalue \<Rightarrow> yvalue \<Rightarrow> yvalue \<Rightarrow> yvalue eval" where
  "l_foreach P ev symbol l expr = over_list l (\<lambda>xs. ebind (as_entry symbol) (\<lambda>s. l_foreach_loop P ev s YVoid xs expr))"

fun l_reduce_loop :: "program \<Rightarrow> evaluator \<Rightarrow> nat \<Rightarrow> nat \<Rightarrow> yvalue \<Rightarrow> yvalue list \<Rightarrow> yvalue \<Rightarrow> yvalue eval" where
  "l_reduce_loop P ev x y ret [] expr = eret ret"
| "l_reduce_loop P ev x y ret (v # vs) expr =
     ebind (entry_set P x ret) (\<lambda>_. ebind (entry_set P y v) (\<lambda>_. ebind (code_evaluate ev expr) (\<lambda>tmp.
       if isNull tmp then l_reduce_loop P ev x y ret vs expr
       else if isVoid tmp then l_reduce_loop P ev x y ret vs expr
       else if isBreak tmp then eret ret
       else l_reduce_loop P ev x y tmp vs expr)))"

definition l_reduce_helper :: "program \<Rightarrow> evaluator \<Rightarrow> yvalue \<Rightarrow> yvalue \<Rightarrow> yvalue \<Rightarrow> yvalue list \<Rightarrow> yvalue \<Rightarrow> yvalue eval" where
  "l_reduce_helper P ev x y init vs expr =
     ebind (as_entry x) (\<lambda>xe. ebind (as_entry y) (\<lambda>ye. l_reduce_loop P ev xe ye init vs expr))"

definition l_reduce1 :: "program \<Rightarrow> evaluator \<Rightarrow> yvalue \<Rightarrow> yvalue \<Rightarrow> yvalue \<Rightarrow> yvalue \<Rightarrow> yvalue eval" where
  "l_reduce1 P ev x y l expr =
     (case l of
        YList xs \<Rightarrow> (case xs of [] \<Rightarrow> eret YNull | v # vs \<Rightarrow> l_reduce_helper P ev x y v vs expr)
      | _ \<Rightarrow> eundef)"

definition l_reduce2 :: "program \<Rightarrow> evaluator \<Rightarrow> yvalue \<Rightarrow> yvalue \<Rightarrow> yvalue \<Rightarrow> yvalue \<Rightarrow> yvalue \<Rightarrow> yvalue eval" where
  "l_reduce2 P ev x y init l expr =
     (case l of YList xs \<Rightarrow> l_reduce_helper P ev x y init xs expr | _ \<Rightarrow> eundef)"

definition l_swaplist :: "'c ycp \<Rightarrow> 'c ycp \<Rightarrow> 'c ycp \<Rightarrow> 'c ycp option" where
  "l_swaplist l i1 i2 =
     list_arg l (\<lambda>xs.
       if isNull i1 \<or> isNull i2 then Some YNull
       else case (i1, i2) of
         (YInteger a, YInteger b) \<Rightarrow>
           let it1 = to_int32 a; it2 = to_int32 b; siz = int (list_size xs) in
           if it1 < 0 \<or> siz \<le> it1 then Some (YList xs)
           else if it2 < 0 \<or> siz \<le> it2 then Some (YList xs)
           else Some (YList (list_swap xs it1 it2))
       | _ \<Rightarrow> None)"

definition l_tolist :: "'c ycp \<Rightarrow> 'c ycp option" where
  "l_tolist v = Some (case v of YList xs \<Rightarrow> YList xs | _ \<Rightarrow> YNull)"

section \<open>Maps\<close>

definition m_haskey :: "'c ycp \<Rightarrow> 'c ycp \<Rightarrow> 'c ycp option" where
  "m_haskey m k = map_arg m (\<lambda>ps. Some (if isNull k then YNull else YBoolean (ymap_hasKey ps k)))"

fun m_filter_loop :: "program \<Rightarrow> evaluator \<Rightarrow> nat \<Rightarrow> nat \<Rightarrow> ycode ymap \<Rightarrow> ycode ymap \<Rightarrow> yvalue \<Rightarrow> yvalue eval" where
  "m_filter_loop P ev k v ret [] expr = eret (YMap ret)"
| "m_filter_loop P ev k v ret (p # ps) expr =
     ebind (entry_set P k (fst p)) (\<lambda>_. ebind (entry_set P v (snd p)) (\<lambda>_. ebind (code_evaluate ev expr) (\<lambda>r.
       if isNull r then eret YNull
       else if isVoid r then m_filter_loop P ev k v ret ps expr
       else if isBreak r then eret (YMap ret)
       else ebind (as_boolean r) (\<lambda>b. m_filter_loop P ev k v (if b then ymap_add ret (fst p) (snd p) else ret) ps expr))))"

text \<open>The two entries a loop over a map sets.\<close>

definition over_pairs ::
  "yvalue \<Rightarrow> yvalue \<Rightarrow> yvalue \<Rightarrow> (nat \<Rightarrow> nat \<Rightarrow> ycode ymap \<Rightarrow> yvalue eval) \<Rightarrow> yvalue eval" where
  "over_pairs key val m loop =
     over_map m (\<lambda>ps. ebind (as_entry key) (\<lambda>k. ebind (as_entry val) (\<lambda>v. loop k v ps)))"

definition m_filter :: "program \<Rightarrow> evaluator \<Rightarrow> yvalue \<Rightarrow> yvalue \<Rightarrow> yvalue \<Rightarrow> yvalue \<Rightarrow> yvalue eval" where
  "m_filter P ev key val m expr = over_pairs key val m (\<lambda>k v ps. m_filter_loop P ev k v [] ps expr)"

text \<open>The first pair of the map a round of \<^verbatim>\<open>mapmap\<close> gives is read without a test whether there is one.\<close>

fun m_mapmap_loop :: "program \<Rightarrow> evaluator \<Rightarrow> nat \<Rightarrow> nat \<Rightarrow> ycode ymap \<Rightarrow> ycode ymap \<Rightarrow> yvalue \<Rightarrow> yvalue eval" where
  "m_mapmap_loop P ev k v ret [] expr = eret (YMap ret)"
| "m_mapmap_loop P ev k v ret (p # ps) expr =
     ebind (entry_set P k (fst p)) (\<lambda>_. ebind (entry_set P v (snd p)) (\<lambda>_. ebind (code_evaluate ev expr) (\<lambda>r.
       if \<not> isNull r
       then if isBreak r then eret (YMap ret)
            else case r of
              YMap (q # qs) \<Rightarrow> m_mapmap_loop P ev k v (ymap_add ret (fst q) (snd q)) ps expr
            | _ \<Rightarrow> eundef
       else eret YNull)))"

definition m_mapmap :: "program \<Rightarrow> evaluator \<Rightarrow> yvalue \<Rightarrow> yvalue \<Rightarrow> yvalue \<Rightarrow> yvalue \<Rightarrow> yvalue eval" where
  "m_mapmap P ev key val m expr = over_pairs key val m (\<lambda>k v ps. m_mapmap_loop P ev k v [] ps expr)"

fun m_maplist_loop :: "program \<Rightarrow> evaluator \<Rightarrow> nat \<Rightarrow> nat \<Rightarrow> yvalue list \<Rightarrow> ycode ymap \<Rightarrow> yvalue \<Rightarrow> yvalue eval" where
  "m_maplist_loop P ev k v ret [] expr = eret (YList ret)"
| "m_maplist_loop P ev k v ret (p # ps) expr =
     ebind (entry_set P k (fst p)) (\<lambda>_. ebind (entry_set P v (snd p)) (\<lambda>_. ebind (code_evaluate ev expr) (\<lambda>r.
       if isNull r then eret YNull
       else if isBreak r then eret (YList ret)
       else m_maplist_loop P ev k v (list_add ret r) ps expr)))"

definition m_maplist :: "program \<Rightarrow> evaluator \<Rightarrow> yvalue \<Rightarrow> yvalue \<Rightarrow> yvalue \<Rightarrow> yvalue \<Rightarrow> yvalue eval" where
  "m_maplist P ev key val m expr = over_pairs key val m (\<lambda>k v ps. m_maplist_loop P ev k v [] ps expr)"

definition m_unionmap :: "'c ycp \<Rightarrow> 'c ycp \<Rightarrow> 'c ycp option" where
  "m_unionmap m1 m2 =
     (if isNull m1 \<or> isNull m2 then Some YNull
      else map_arg m1 (\<lambda>ps. map_arg m2 (\<lambda>qs.
        let addall = foldl (\<lambda>n p. ymap_add n (fst p) (snd p)) in Some (YMap (addall (addall [] ps) qs)))))"

definition m_addmap :: "'c ycp \<Rightarrow> 'c ycp \<Rightarrow> 'c ycp \<Rightarrow> 'c ycp option" where
  "m_addmap m k v = map_arg m (\<lambda>ps. Some (if isNull k then YNull else ymap_functionalAdd ps k v))"

definition m_changemap :: "'c ycp \<Rightarrow> 'c ycp \<Rightarrow> 'c ycp \<Rightarrow> 'c ycp option" where
  "m_changemap m k v = map_arg m (\<lambda>ps. Some (if isNull k then YNull else YMap (ymap_add ps k v)))"

definition m_isempty :: "'c ycp \<Rightarrow> 'c ycp option" where
  "m_isempty m = (case m of YMap ps \<Rightarrow> Some (YBoolean (ymap_isEmpty ps)) | _ \<Rightarrow> None)"

definition m_size :: "'c ycp \<Rightarrow> 'c ycp option" where
  "m_size m = Some (YInteger (case m of YMap ps \<Rightarrow> of_nat (ymap_size ps) | _ \<Rightarrow> 0))"

fun m_foreach_loop :: "program \<Rightarrow> evaluator \<Rightarrow> nat \<Rightarrow> nat \<Rightarrow> yvalue \<Rightarrow> ycode ymap \<Rightarrow> yvalue \<Rightarrow> yvalue eval" where
  "m_foreach_loop P ev k v ret [] expr = eret ret"
| "m_foreach_loop P ev k v ret (p # ps) expr =
     ebind (entry_set P k (fst p)) (\<lambda>_. ebind (entry_set P v (snd p)) (\<lambda>_. ebind (code_evaluate ev expr) (\<lambda>r.
       if isNull r then eret YNull
       else if isBreak r then eret YVoid
       else m_foreach_loop P ev k v r ps expr)))"

definition m_foreach :: "program \<Rightarrow> evaluator \<Rightarrow> yvalue \<Rightarrow> yvalue \<Rightarrow> yvalue \<Rightarrow> yvalue \<Rightarrow> yvalue eval" where
  "m_foreach P ev key val m expr = over_pairs key val m (\<lambda>k v ps. m_foreach_loop P ev k v YVoid ps expr)"

definition m_tomap :: "'c ycp \<Rightarrow> 'c ycp option" where
  "m_tomap v = Some (case v of YMap m \<Rightarrow> YMap m | _ \<Rightarrow> YNull)"

definition m_remove :: "'c ycp \<Rightarrow> 'c ycp \<Rightarrow> 'c ycp option" where
  "m_remove m k =
     map_arg m (\<lambda>ps. Some (if isNull k then YNull
                           else if \<not> ymap_hasKey ps k then YMap ps else YMap (ymap_remove ps k)))"

section \<open>Multisets\<close>

text \<open>The algorithms of the C++ library on sorted ranges.\<close>

fun std_includes :: "('a \<Rightarrow> 'a \<Rightarrow> bool) \<Rightarrow> 'a list \<Rightarrow> 'a list \<Rightarrow> bool" where
  "std_includes ls xs [] = True"
| "std_includes ls [] (y # ys) = False"
| "std_includes ls (x # xs) (y # ys) =
     (if ls y x then False
      else if ls x y then std_includes ls xs (y # ys) else std_includes ls xs ys)"

fun std_set_difference :: "('a \<Rightarrow> 'a \<Rightarrow> bool) \<Rightarrow> 'a list \<Rightarrow> 'a list \<Rightarrow> 'a list" where
  "std_set_difference ls [] ys = []"
| "std_set_difference ls (x # xs) [] = x # xs"
| "std_set_difference ls (x # xs) (y # ys) =
     (if ls x y then x # std_set_difference ls xs (y # ys)
      else if ls y x then std_set_difference ls (x # xs) ys else std_set_difference ls xs ys)"

fun std_set_symmetric_difference :: "('a \<Rightarrow> 'a \<Rightarrow> bool) \<Rightarrow> 'a list \<Rightarrow> 'a list \<Rightarrow> 'a list" where
  "std_set_symmetric_difference ls [] ys = ys"
| "std_set_symmetric_difference ls (x # xs) [] = x # xs"
| "std_set_symmetric_difference ls (x # xs) (y # ys) =
     (if ls x y then x # std_set_symmetric_difference ls xs (y # ys)
      else if ls y x then y # std_set_symmetric_difference ls (x # xs) ys
      else std_set_symmetric_difference ls xs ys)"

fun std_set_intersection :: "('a \<Rightarrow> 'a \<Rightarrow> bool) \<Rightarrow> 'a list \<Rightarrow> 'a list \<Rightarrow> 'a list" where
  "std_set_intersection ls [] ys = []"
| "std_set_intersection ls (x # xs) [] = []"
| "std_set_intersection ls (x # xs) (y # ys) =
     (if ls x y then std_set_intersection ls xs (y # ys)
      else if ls y x then std_set_intersection ls (x # xs) ys
      else x # std_set_intersection ls xs ys)"

fun std_set_union :: "('a \<Rightarrow> 'a \<Rightarrow> bool) \<Rightarrow> 'a list \<Rightarrow> 'a list \<Rightarrow> 'a list" where
  "std_set_union ls [] ys = ys"
| "std_set_union ls (x # xs) [] = x # xs"
| "std_set_union ls (x # xs) (y # ys) =
     (if ls x y then x # std_set_union ls xs (y # ys)
      else if ls y x then y # std_set_union ls (x # xs) ys
      else x # std_set_union ls xs ys)"

fun std_merge :: "('a \<Rightarrow> 'a \<Rightarrow> bool) \<Rightarrow> 'a list \<Rightarrow> 'a list \<Rightarrow> 'a list" where
  "std_merge ls [] ys = ys"
| "std_merge ls (x # xs) [] = x # xs"
| "std_merge ls (x # xs) (y # ys) =
     (if ls y x then y # std_merge ls (x # xs) ys else x # std_merge ls xs (y # ys))"

definition both_lists :: "'c ycp \<Rightarrow> 'c ycp \<Rightarrow> ('c ylist \<Rightarrow> 'c ylist \<Rightarrow> 'c ycp) \<Rightarrow> 'c ycp option" where
  "both_lists a b f = (case (a, b) of (YList xs, YList ys) \<Rightarrow> Some (f xs ys) | _ \<Rightarrow> None)"

definition ms_includes :: "'c ycp \<Rightarrow> 'c ycp \<Rightarrow> 'c ycp option" where
  "ms_includes a b = both_lists a b (\<lambda>xs ys. YBoolean (std_includes ycp_less xs ys))"

definition ms_difference :: "'c ycp \<Rightarrow> 'c ycp \<Rightarrow> 'c ycp option" where
  "ms_difference a b = both_lists a b (\<lambda>xs ys. YList (std_set_difference ycp_less xs ys))"

definition ms_symmetric_difference :: "'c ycp \<Rightarrow> 'c ycp \<Rightarrow> 'c ycp option" where
  "ms_symmetric_difference a b = both_lists a b (\<lambda>xs ys. YList (std_set_symmetric_difference ycp_less xs ys))"

definition ms_intersection :: "'c ycp \<Rightarrow> 'c ycp \<Rightarrow> 'c ycp option" where
  "ms_intersection a b = both_lists a b (\<lambda>xs ys. YList (std_set_intersection ycp_less xs ys))"

definition ms_union :: "'c ycp \<Rightarrow> 'c ycp \<Rightarrow> 'c ycp option" where
  "ms_union a b = both_lists a b (\<lambda>xs ys. YList (std_set_union ycp_less xs ys))"

definition ms_merge :: "'c ycp \<Rightarrow> 'c ycp \<Rightarrow> 'c ycp option" where
  "ms_merge a b = both_lists a b (\<lambda>xs ys. YList (std_merge ycp_less xs ys))"

section \<open>The algorithms on sorted ranges\<close>

text \<open>
  For a comparator with the contract \<open>three_way\<close>: \<open>occ v xs\<close> counts the elements that compare equal to \<open>v\<close>.
\<close>

context three_way
begin

definition occ :: "'a \<Rightarrow> 'a list \<Rightarrow> nat" where
  "occ v xs = length (filter (\<lambda>x. cmp x v = YO_EQUAL) xs)"

definition rising :: "'a list \<Rightarrow> bool" where
  "rising xs \<longleftrightarrow> list_all dm xs \<and> sorted_wrt (\<lambda>a b. \<not> lt b a) xs"

lemma occ_simps [simp]:
  "occ v [] = 0" "occ v (x # xs) = (if cmp x v = YO_EQUAL then 1 else 0) + occ v xs"
  by (simp_all add: occ_def)

lemma occ_0_iff: "occ v xs = 0 \<longleftrightarrow> (\<forall>x \<in> set xs. cmp x v \<noteq> YO_EQUAL)"
  by (auto simp: occ_def filter_empty_conv)

lemma rising_simps [simp]:
  "rising []" "rising (x # xs) \<longleftrightarrow> dm x \<and> (\<forall>z \<in> set xs. \<not> lt z x) \<and> rising xs"
  by (auto simp: rising_def)

lemma rising_dm: "rising xs \<Longrightarrow> x \<in> set xs \<Longrightarrow> dm x"
  by (auto simp: rising_def list_all_iff)

lemma lt_not_lt: "dm x \<Longrightarrow> dm y \<Longrightarrow> dm z \<Longrightarrow> lt x y \<Longrightarrow> \<not> lt z y \<Longrightarrow> lt x z"
  using cmp_trans [of x y z] not_lt_swap [of z y] by (simp add: lt_def)

lemma lt_not_equal: "dm x \<Longrightarrow> dm y \<Longrightarrow> lt x y \<Longrightarrow> cmp y x \<noteq> YO_EQUAL"
  using cmp_flip [of x y] by (simp add: lt_def)

lemma occ_below:
  assumes "rising (y # ys)" "dm x" "dm v" "cmp x v = YO_EQUAL" "lt x y"
  shows "cmp y v \<noteq> YO_EQUAL" "occ v ys = 0"
proof -
  have "cmp z v \<noteq> YO_EQUAL" if "z \<in> set (y # ys)" for z
  proof -
    have z: "dm z" "dm y" using assms(1) that rising_dm by auto
    have "lt x z" using that assms(1,2,5) z lt_not_lt [of x y z] by auto
    then have "lt v z" using lt_equal_left [of x v z] assms z by simp
    then show ?thesis using lt_not_equal assms(3) z(1) by blast
  qed
  then show "cmp y v \<noteq> YO_EQUAL" "occ v ys = 0" by (auto simp: occ_0_iff)
qed

lemma equal_same:
  assumes "dm x" "dm y" "dm v" "\<not> lt x y" "\<not> lt y x"
  shows "cmp x v = YO_EQUAL \<longleftrightarrow> cmp y v = YO_EQUAL"
  using equal_left [of x y v] incomparable_iff [of x y] assms by simp

text \<open>One round of each algorithm.\<close>

lemma round_cases:
  assumes "rising (x # xs)" "rising (y # ys)" "dm v"
  shows "lt x y \<Longrightarrow> cmp x v = YO_EQUAL \<Longrightarrow> cmp y v \<noteq> YO_EQUAL \<and> occ v ys = 0"
    "lt y x \<Longrightarrow> cmp y v = YO_EQUAL \<Longrightarrow> cmp x v \<noteq> YO_EQUAL \<and> occ v xs = 0"
    "\<not> lt x y \<Longrightarrow> \<not> lt y x \<Longrightarrow> cmp x v = YO_EQUAL \<longleftrightarrow> cmp y v = YO_EQUAL"
  using assms occ_below [of y ys x v] occ_below [of x xs y v] equal_same [of x y v] by auto

lemma occ_difference: "rising xs \<Longrightarrow> rising ys \<Longrightarrow> dm v \<Longrightarrow> occ v (std_set_difference lt xs ys) = occ v xs - occ v ys"
proof (induction lt xs ys rule: std_set_difference.induct)
  case (3 x xs y ys)
  then show ?case using round_cases [OF "3.prems"] by auto
qed auto

lemma occ_intersection: "rising xs \<Longrightarrow> rising ys \<Longrightarrow> dm v \<Longrightarrow> occ v (std_set_intersection lt xs ys) = min (occ v xs) (occ v ys)"
proof (induction lt xs ys rule: std_set_intersection.induct)
  case (3 x xs y ys)
  then show ?case using round_cases [OF "3.prems"] by auto
qed auto

lemma occ_union: "rising xs \<Longrightarrow> rising ys \<Longrightarrow> dm v \<Longrightarrow> occ v (std_set_union lt xs ys) = max (occ v xs) (occ v ys)"
proof (induction lt xs ys rule: std_set_union.induct)
  case (3 x xs y ys)
  then show ?case using round_cases [OF "3.prems"] by auto
qed auto

lemma occ_symmetric_difference: "rising xs \<Longrightarrow> rising ys \<Longrightarrow> dm v \<Longrightarrow> occ v (std_set_symmetric_difference lt xs ys) = (occ v xs - occ v ys) + (occ v ys - occ v xs)"
proof (induction lt xs ys rule: std_set_symmetric_difference.induct)
  case (3 x xs y ys)
  then show ?case using round_cases [OF "3.prems"] by auto
qed auto

lemma mset_merge: "mset (std_merge lt xs ys) = mset xs + mset ys"
  by (induction lt xs ys rule: std_merge.induct) auto

lemma occ_mset: "mset xs = mset ys \<Longrightarrow> occ v xs = occ v ys"
  unfolding occ_def by (metis mset_filter size_mset)

lemma occ_append: "occ v (xs @ ys) = occ v xs + occ v ys"
  by (simp add: occ_def)

lemma occ_merge: "occ v (std_merge lt xs ys) = occ v xs + occ v ys"
  using occ_mset [of "std_merge lt xs ys" "xs @ ys"] by (simp add: mset_merge occ_append)

lemma set_set_difference: "set (std_set_difference ls xs ys) \<subseteq> set xs"
  by (induction ls xs ys rule: std_set_difference.induct) auto

lemma set_set_intersection: "set (std_set_intersection ls xs ys) \<subseteq> set xs"
  by (induction ls xs ys rule: std_set_intersection.induct) auto

lemma set_set_union: "set (std_set_union ls xs ys) \<subseteq> set xs \<union> set ys"
  by (induction ls xs ys rule: std_set_union.induct) auto

lemma set_set_symmetric_difference: "set (std_set_symmetric_difference ls xs ys) \<subseteq> set xs \<union> set ys"
  by (induction ls xs ys rule: std_set_symmetric_difference.induct) auto

lemma set_merge: "set (std_merge ls xs ys) \<subseteq> set xs \<union> set ys"
  by (induction ls xs ys rule: std_merge.induct) auto

lemma above:
  assumes "rising (y # ys)" "dm x" "\<not> lt y x" "z \<in> set (y # ys)"
  shows "\<not> lt z x"
proof
  assume "lt z x"
  have z: "dm z" "dm y" using assms(1,4) rising_dm by auto
  with \<open>lt z x\<close> assms(2,3) have "lt z y" using lt_not_lt [of z x y] by simp
  with assms(1,4) z show False using lt_irrefl [of z] by auto
qed

lemma lt_asym: "dm x \<Longrightarrow> dm y \<Longrightarrow> lt x y \<Longrightarrow> \<not> lt y x"
  using lt_trans [of x y x] lt_irrefl [of x] by blast

text \<open>What a round puts in front of the rest of a result.\<close>

lemma rising_step:
  assumes "rising (x # xs)" "rising (y # ys)" "rising zs"
  shows "set zs \<subseteq> set xs \<union> set (y # ys) \<Longrightarrow> \<not> lt y x \<Longrightarrow> rising (x # zs)"
    "set zs \<subseteq> set (x # xs) \<union> set ys \<Longrightarrow> \<not> lt x y \<Longrightarrow> rising (y # zs)"
proof -
  have dm: "dm x" "dm y" using assms by simp_all
  show "set zs \<subseteq> set xs \<union> set (y # ys) \<Longrightarrow> \<not> lt y x \<Longrightarrow> rising (x # zs)"
    using assms(1,3) above [OF assms(2) dm(1)] by auto
  show "set zs \<subseteq> set (x # xs) \<union> set ys \<Longrightarrow> \<not> lt x y \<Longrightarrow> rising (y # zs)"
    using assms(2,3) above [OF assms(1) dm(2)] by auto
qed

lemma rising_tail: "rising (x # xs) \<Longrightarrow> rising xs"
  by simp

lemma rising_if: "(b \<Longrightarrow> rising xs) \<Longrightarrow> (\<not> b \<Longrightarrow> rising ys) \<Longrightarrow> rising (if b then xs else ys)"
  by simp

lemma rising_set_difference: "rising xs \<Longrightarrow> rising ys \<Longrightarrow> rising (std_set_difference lt xs ys)"
proof (induction lt xs ys rule: std_set_difference.induct)
  case (3 x xs y ys)
  have "lt x y \<Longrightarrow> \<not> lt y x" using "3.prems" by (intro lt_asym) simp_all
  then show ?case
    unfolding std_set_difference.simps
    by (intro rising_if rising_step [OF "3.prems"] "3.hyps" "3.prems" rising_tail [OF "3.prems"(1)] rising_tail [OF "3.prems"(2)]
        order.trans [OF set_set_difference]) auto
qed auto

lemma rising_set_intersection: "rising xs \<Longrightarrow> rising ys \<Longrightarrow> rising (std_set_intersection lt xs ys)"
proof (induction lt xs ys rule: std_set_intersection.induct)
  case (3 x xs y ys)
  have "lt x y \<Longrightarrow> \<not> lt y x" using "3.prems" by (intro lt_asym) simp_all
  then show ?case
    unfolding std_set_intersection.simps
    by (intro rising_if rising_step [OF "3.prems"] "3.hyps" "3.prems" rising_tail [OF "3.prems"(1)] rising_tail [OF "3.prems"(2)]
        order.trans [OF set_set_intersection]) auto
qed auto

lemma rising_set_union: "rising xs \<Longrightarrow> rising ys \<Longrightarrow> rising (std_set_union lt xs ys)"
proof (induction lt xs ys rule: std_set_union.induct)
  case (3 x xs y ys)
  have "lt x y \<Longrightarrow> \<not> lt y x" using "3.prems" by (intro lt_asym) simp_all
  then show ?case
    unfolding std_set_union.simps
    by (intro rising_if rising_step [OF "3.prems"] "3.hyps" "3.prems" rising_tail [OF "3.prems"(1)] rising_tail [OF "3.prems"(2)]
        order.trans [OF set_set_union]) auto
qed auto

lemma rising_set_symmetric_difference: "rising xs \<Longrightarrow> rising ys \<Longrightarrow> rising (std_set_symmetric_difference lt xs ys)"
proof (induction lt xs ys rule: std_set_symmetric_difference.induct)
  case (3 x xs y ys)
  have "lt x y \<Longrightarrow> \<not> lt y x" using "3.prems" by (intro lt_asym) simp_all
  then show ?case
    unfolding std_set_symmetric_difference.simps
    by (intro rising_if rising_step [OF "3.prems"] "3.hyps" "3.prems" rising_tail [OF "3.prems"(1)] rising_tail [OF "3.prems"(2)]
        order.trans [OF set_set_symmetric_difference]) auto
qed auto

lemma rising_merge: "rising xs \<Longrightarrow> rising ys \<Longrightarrow> rising (std_merge lt xs ys)"
proof (induction lt xs ys rule: std_merge.induct)
  case (3 x xs y ys)
  have "lt x y \<Longrightarrow> \<not> lt y x" using "3.prems" by (intro lt_asym) simp_all
  then show ?case
    unfolding std_merge.simps
    by (intro rising_if rising_step [OF "3.prems"] "3.hyps" "3.prems" rising_tail [OF "3.prems"(1)] rising_tail [OF "3.prems"(2)]
        order.trans [OF set_merge]) auto
qed auto

lemma includes_occ:
  "rising xs \<Longrightarrow> rising ys \<Longrightarrow> std_includes lt xs ys \<longleftrightarrow> (\<forall>v. dm v \<longrightarrow> occ v ys \<le> occ v xs)"
proof (induction lt xs ys rule: std_includes.induct)
  case (2 y ys)
  then show ?case using cmp_refl [of y] by (auto intro!: exI [of _ y])
next
  case (3 x xs y ys)
  note round = round_cases [OF "3.prems"] and IH = "3.hyps" and prems = "3.prems"
  have dm: "dm x" "dm y" using "3.prems" by simp_all
  consider "lt y x" | "\<not> lt y x" "lt x y" | "\<not> lt y x" "\<not> lt x y" by blast
  then show ?case
  proof cases
    case 1
    then show ?thesis using round(2) [OF dm(2) 1] cmp_refl [OF dm(2)] dm by (auto intro!: exI [of _ y])
  next
    case 2
    have "(if cmp x v = YO_EQUAL then 1 else 0) + occ v xs \<ge> occ v (y # ys) \<longleftrightarrow> occ v xs \<ge> occ v (y # ys)" if "dm v" for v
      using round(1) [OF that 2(2)] by auto
    with 2 IH(1) prems show ?thesis by auto
  next
    case 3
    have "occ v (x # xs) \<ge> occ v (y # ys) \<longleftrightarrow> occ v xs \<ge> occ v ys" if "dm v" for v
      using round(3) [OF that 3(2,1)] by auto
    with 3 IH(2) prems show ?thesis by auto
  qed
qed simp

text \<open>The binary search.\<close>

lemma le_lt_trans: "dm x \<Longrightarrow> dm y \<Longrightarrow> dm z \<Longrightarrow> \<not> lt y x \<Longrightarrow> lt y z \<Longrightarrow> lt x z"
  using cmp_trans [of x y z] not_lt_swap [of y x] cmp_returns [of x y]
  by (cases "cmp x y") (simp_all add: lt_def)

lemma rising_nth:
  assumes "rising xs" "i \<le> j" "j < length xs"
  shows "\<not> lt (xs ! j) (xs ! i)" "dm (xs ! i)" "dm (xs ! j)"
proof -
  show dm: "dm (xs ! i)" "dm (xs ! j)" using assms rising_dm by auto
  show "\<not> lt (xs ! j) (xs ! i)"
    using assms sorted_wrt_nth_less [of "\<lambda>a b. \<not> lt b a" xs i j] lt_irrefl [OF dm(1)]
    by (cases "i = j") (auto simp: rising_def)
qed

lemma rising_take_drop: "rising xs \<Longrightarrow> rising (take n xs)" "rising xs \<Longrightarrow> rising (drop n xs)"
  by (auto simp: rising_def list_all_iff sorted_wrt_take sorted_wrt_drop dest: in_set_takeD in_set_dropD)

lemma lower_bound_spec:
  assumes "rising xs" "dm v"
  shows "lower_bound lt v xs \<le> length xs \<and> (\<forall>j < lower_bound lt v xs. lt (xs ! j) v) \<and>
    (\<forall>j. lower_bound lt v xs \<le> j \<longrightarrow> j < length xs \<longrightarrow> \<not> lt (xs ! j) v)"
  using assms(1)
proof (induction "length xs" arbitrary: xs rule: less_induct)
  case less
  show ?case
  proof (cases "xs = []")
    case True
    then show ?thesis by (simp add: lower_bound.simps)
  next
    case False
    define half where "half = length xs div 2"
    have half: "half < length xs" using False by (simp add: half_def)
    show ?thesis
    proof (cases "lt (xs ! half) v")
      case True
      let ?i = "lower_bound lt v (drop (half + 1) xs)"
      have IH: "?i \<le> length xs - (half + 1)" "\<forall>j < ?i. lt (xs ! (half + 1 + j)) v"
        "\<forall>j. ?i \<le> j \<longrightarrow> j < length xs - (half + 1) \<longrightarrow> \<not> lt (xs ! (half + 1 + j)) v"
        using less.hyps [of "drop (half + 1) xs"] rising_take_drop(2) [OF less.prems] half by (auto simp: nth_drop)
      have "lt (xs ! j) v" if "j \<le> half" for j
        using rising_nth [OF less.prems that half] True assms(2) le_lt_trans by blast
      moreover have "lt (xs ! j) v" if "half < j" "j < half + 1 + ?i" for j
        using IH(2) that by (auto dest!: spec [of _ "j - (half + 1)"])
      moreover have "\<not> lt (xs ! j) v" if "half + 1 + ?i \<le> j" "j < length xs" for j
        using IH(3) that by (auto dest!: spec [of _ "j - (half + 1)"])
      moreover have "lower_bound lt v xs = half + 1 + ?i"
        using False True by (subst lower_bound.simps) (simp add: half_def [symmetric] Let_def)
      ultimately show ?thesis using IH(1) half by (auto simp: not_less [symmetric])
    next
      case False
      let ?i = "lower_bound lt v (take half xs)"
      have IH: "?i \<le> half" "\<forall>j < ?i. lt (xs ! j) v" "\<forall>j. ?i \<le> j \<longrightarrow> j < half \<longrightarrow> \<not> lt (xs ! j) v"
        using less.hyps [of "take half xs"] rising_take_drop(1) [OF less.prems] half by auto
      have "\<not> lt (xs ! j) v" if "half \<le> j" "j < length xs" for j
        using rising_nth [OF less.prems that] False assms(2) le_lt_trans by blast
      moreover have "lower_bound lt v xs = ?i"
        using \<open>xs \<noteq> []\<close> False by (subst lower_bound.simps) (simp add: half_def [symmetric] Let_def)
      ultimately show ?thesis using IH half by (auto simp: not_less [symmetric])
    qed
  qed
qed

lemma binary_search_iff:
  assumes "rising xs" "dm v"
  shows "binary_search lt v xs \<longleftrightarrow> (\<exists>x \<in> set xs. cmp x v = YO_EQUAL)"
proof -
  let ?i = "lower_bound lt v xs"
  note spec = lower_bound_spec [OF assms]
  show ?thesis
  proof
    assume "binary_search lt v xs"
    then have i: "?i < length xs" "\<not> lt v (xs ! ?i)" by (auto simp: binary_search_def Let_def)
    with spec have "\<not> lt (xs ! ?i) v" by auto
    with i assms show "\<exists>x \<in> set xs. cmp x v = YO_EQUAL"
      using incomparable_iff [of "xs ! ?i" v] rising_dm [OF assms(1)] by (auto intro!: bexI [of _ "xs ! ?i"])
  next
    assume "\<exists>x \<in> set xs. cmp x v = YO_EQUAL"
    then obtain k where k: "k < length xs" "cmp (xs ! k) v = YO_EQUAL" by (auto simp: in_set_conv_nth)
    have dk: "dm (xs ! k)" using k(1) assms(1) rising_dm by auto
    have "\<not> lt (xs ! k) v" "\<not> lt v (xs ! k)" using incomparable_iff [OF dk assms(2)] k(2) by blast+
    with spec k(1) have ik: "?i \<le> k" by (meson not_less)
    have "\<not> lt v (xs ! ?i)"
      using rising_nth [OF assms(1) ik k(1)] lt_equal_left [OF dk assms(2) _ k(2), of "xs ! ?i"] by auto
    with ik k(1) show "binary_search lt v xs" by (auto simp: binary_search_def Let_def)
  qed
qed

text \<open>Sets: inserting keeps the order and adds exactly the elements equal to the new one.\<close>

lemma sset_insert_inv:
  assumes "sset_inv m" "dm k"
  shows "sset_inv (sset_insert lt k m)"
  using assms(1)
proof (induction m)
  case (Cons a m)
  then have a: "dm a" "sset_inv m" "\<forall>x \<in> set m. lt a x" by (auto simp: sset_inv_def)
  then have "list_all dm m" by (simp add: sset_inv_def)
  with a assms(2) Cons show ?case
    using set_sset_insert(1) [of lt k m] lt_trans [of k a]
    by (auto simp: sset_inv_def list_all_iff)
qed (simp add: sset_inv_def assms)

lemma sset_insert_mem:
  assumes "sset_inv m" "dm k" "dm v"
  shows "(\<exists>x \<in> set (sset_insert lt k m). cmp x v = YO_EQUAL) \<longleftrightarrow> cmp k v = YO_EQUAL \<or> (\<exists>x \<in> set m. cmp x v = YO_EQUAL)"
  using assms(1)
proof (induction m)
  case (Cons a m)
  then have a: "dm a" "sset_inv m" by (auto simp: sset_inv_def)
  have "\<not> lt a k \<Longrightarrow> \<not> lt k a \<Longrightarrow> cmp k v = YO_EQUAL \<longleftrightarrow> cmp a v = YO_EQUAL"
    using equal_same [of k a v] a assms by blast
  with Cons.IH [OF a(2)] show ?case by auto
qed simp

lemma toset_spec:
  assumes "list_all dm xs" "sset_inv m"
  shows "sset_inv (foldl (\<lambda>s x. sset_insert lt x s) m xs) \<and>
    (\<forall>v. dm v \<longrightarrow> (\<exists>x \<in> set (foldl (\<lambda>s x. sset_insert lt x s) m xs). cmp x v = YO_EQUAL) \<longleftrightarrow>
      (\<exists>x \<in> set m \<union> set xs. cmp x v = YO_EQUAL))"
  using assms
proof (induction xs arbitrary: m)
  case (Cons x xs)
  then have "sset_inv (sset_insert lt x m)" by (simp add: sset_insert_inv)
  with Cons.IH [OF _ this] Cons.prems sset_insert_mem [of m x] show ?case by (auto simp: bex_Un)
qed simp

lemma sset_inv_rising: "sset_inv xs \<Longrightarrow> rising xs"
  unfolding sset_inv_def rising_def list_all_iff
  by (auto intro!: sorted_wrt_mono_rel [of xs lt] dest: lt_asym)

end

section \<open>Loops\<close>

lemma over_list_le [le_intros]: "(\<And>xs. eval_le (f xs) (f' xs)) \<Longrightarrow> eval_le (over_list l f) (over_list l f')"
  by (cases l) (simp_all add: over_list_def)

lemma over_pairs_le [le_intros]: "(\<And>k v ps. eval_le (f k v ps) (f' k v ps)) \<Longrightarrow> eval_le (over_pairs a b l f) (over_pairs a b l f')"
  by (cases l) (auto simp: over_pairs_def over_map_def intro!: le_intros)

lemma code_evaluate_le [le_intros]:
  "(\<And>c cse. eval_le (ev c cse) (ev' c cse)) \<Longrightarrow> eval_le (code_evaluate ev v) (code_evaluate ev' v)"
  by (cases v) (simp_all add: code_evaluate_def)

lemma eval_le_map_case [le_intros]:
  "(\<And>m. eval_le (f m) (f' m)) \<Longrightarrow> eval_le n n' \<Longrightarrow>
   eval_le (case v of YMap m \<Rightarrow> f m | _ \<Rightarrow> n) (case v of YMap m \<Rightarrow> f' m | _ \<Rightarrow> n')"
  by (cases v) simp_all

lemma eval_le_list_case [le_intros]:
  "eval_le n n' \<Longrightarrow> (\<And>a as. eval_le (f a as) (f' a as)) \<Longrightarrow>
   eval_le (case xs of [] \<Rightarrow> n | a # as \<Rightarrow> f a as) (case xs of [] \<Rightarrow> n' | a # as \<Rightarrow> f' a as)"
  by (cases xs) simp_all

lemma list_loops_le [le_intros]:
  assumes "\<And>c cse. eval_le (ev c cse) (ev' c cse)"
  shows "eval_le (l_find_loop P ev s xs x) (l_find_loop P ev' s xs x)"
    "eval_le (l_filter_loop P ev s ret xs x) (l_filter_loop P ev' s ret xs x)"
    "eval_le (l_maplist_loop P ev s ret xs x) (l_maplist_loop P ev' s ret xs x)"
    "eval_le (l_listmap_loop P ev s m xs x) (l_listmap_loop P ev' s m xs x)"
    "eval_le (l_foreach_loop P ev s v xs x) (l_foreach_loop P ev' s v xs x)"
    "eval_le (l_reduce_loop P ev s t v xs x) (l_reduce_loop P ev' s t v xs x)"
proof -
  show "eval_le (l_find_loop P ev s xs x) (l_find_loop P ev' s xs x)"
    by (induction xs) (auto intro!: le_intros assms)
  show "eval_le (l_filter_loop P ev s ret xs x) (l_filter_loop P ev' s ret xs x)"
    by (induction xs arbitrary: ret) (auto intro!: le_intros assms)
  show "eval_le (l_maplist_loop P ev s ret xs x) (l_maplist_loop P ev' s ret xs x)"
    by (induction xs arbitrary: ret) (auto intro!: le_intros assms)
  show "eval_le (l_listmap_loop P ev s m xs x) (l_listmap_loop P ev' s m xs x)"
    by (induction xs arbitrary: m) (auto intro!: le_intros assms)
  show "eval_le (l_foreach_loop P ev s v xs x) (l_foreach_loop P ev' s v xs x)"
    by (induction xs arbitrary: v) (auto intro!: le_intros assms)
  show "eval_le (l_reduce_loop P ev s t v xs x) (l_reduce_loop P ev' s t v xs x)"
    by (induction xs arbitrary: v) (auto intro!: le_intros assms)
qed

lemma map_loops_le [le_intros]:
  assumes "\<And>c cse. eval_le (ev c cse) (ev' c cse)"
  shows "eval_le (m_filter_loop P ev k v m ps x) (m_filter_loop P ev' k v m ps x)"
    "eval_le (m_mapmap_loop P ev k v m ps x) (m_mapmap_loop P ev' k v m ps x)"
    "eval_le (m_maplist_loop P ev k v ret ps x) (m_maplist_loop P ev' k v ret ps x)"
    "eval_le (m_foreach_loop P ev k v r ps x) (m_foreach_loop P ev' k v r ps x)"
proof -
  show "eval_le (m_filter_loop P ev k v m ps x) (m_filter_loop P ev' k v m ps x)"
    by (induction ps arbitrary: m) (auto intro!: le_intros assms)
  show "eval_le (m_mapmap_loop P ev k v m ps x) (m_mapmap_loop P ev' k v m ps x)"
    by (induction ps arbitrary: m) (auto intro!: le_intros assms)
  show "eval_le (m_maplist_loop P ev k v ret ps x) (m_maplist_loop P ev' k v ret ps x)"
    by (induction ps arbitrary: ret) (auto intro!: le_intros assms)
  show "eval_le (m_foreach_loop P ev k v r ps x) (m_foreach_loop P ev' k v r ps x)"
    by (induction ps arbitrary: r) (auto intro!: le_intros assms)
qed

lemma over_keeps [keeps_intros]:
  "(\<And>xs. keeps P (f xs)) \<Longrightarrow> keeps P (over_list l f)"
  "(\<And>k v ps. keeps P (g k v ps)) \<Longrightarrow> keeps P (over_pairs a b l g)"
  by (cases l; auto simp: over_list_def over_pairs_def over_map_def as_entry_def intro!: keeps_intros split: ycp.split)+

lemma loop_parts_keep [keeps_intros]:
  "(\<And>c cse. keeps P (ev c cse)) \<Longrightarrow> keeps P (code_evaluate ev v)"
  "keeps P (entry_set Q e v)" "keeps P (as_entry v)" "keeps P (as_boolean v)"
  by (cases v; auto simp: code_evaluate_def entry_set_def as_entry_def as_boolean_def intro!: keeps_intros intro: setValue_kept)+

lemma keeps_map_case [keeps_intros]:
  "(\<And>m. keeps P (f m)) \<Longrightarrow> keeps P n \<Longrightarrow> keeps P (case v of YMap m \<Rightarrow> f m | _ \<Rightarrow> n)"
  by (cases v) simp_all

lemma keeps_list_case [keeps_intros]:
  "keeps P n \<Longrightarrow> (\<And>a as. keeps P (f a as)) \<Longrightarrow> keeps P (case xs of [] \<Rightarrow> n | a # as \<Rightarrow> f a as)"
  by (cases xs) simp_all

lemma list_loops_keep [keeps_intros]:
  assumes "\<And>c cse. keeps P (ev c cse)"
  shows "keeps P (l_find_loop Q ev s xs x)" "keeps P (l_filter_loop Q ev s ret xs x)"
    "keeps P (l_maplist_loop Q ev s ret xs x)" "keeps P (l_listmap_loop Q ev s m xs x)"
    "keeps P (l_foreach_loop Q ev s v xs x)" "keeps P (l_reduce_loop Q ev s t v xs x)"
proof -
  show "keeps P (l_find_loop Q ev s xs x)" by (induction xs) (auto intro!: keeps_intros assms)
  show "keeps P (l_filter_loop Q ev s ret xs x)" by (induction xs arbitrary: ret) (auto intro!: keeps_intros assms)
  show "keeps P (l_maplist_loop Q ev s ret xs x)" by (induction xs arbitrary: ret) (auto intro!: keeps_intros assms)
  show "keeps P (l_listmap_loop Q ev s m xs x)" by (induction xs arbitrary: m) (auto intro!: keeps_intros assms)
  show "keeps P (l_foreach_loop Q ev s v xs x)" by (induction xs arbitrary: v) (auto intro!: keeps_intros assms)
  show "keeps P (l_reduce_loop Q ev s t v xs x)" by (induction xs arbitrary: v) (auto intro!: keeps_intros assms)
qed

lemma map_loops_keep [keeps_intros]:
  assumes "\<And>c cse. keeps P (ev c cse)"
  shows "keeps P (m_filter_loop Q ev k v m ps x)" "keeps P (m_mapmap_loop Q ev k v m ps x)"
    "keeps P (m_maplist_loop Q ev k v ret ps x)" "keeps P (m_foreach_loop Q ev k v r ps x)"
proof -
  show "keeps P (m_filter_loop Q ev k v m ps x)" by (induction ps arbitrary: m) (auto intro!: keeps_intros assms)
  show "keeps P (m_mapmap_loop Q ev k v m ps x)" by (induction ps arbitrary: m) (auto intro!: keeps_intros assms)
  show "keeps P (m_maplist_loop Q ev k v ret ps x)" by (induction ps arbitrary: ret) (auto intro!: keeps_intros assms)
  show "keeps P (m_foreach_loop Q ev k v r ps x)" by (induction ps arbitrary: r) (auto intro!: keeps_intros assms)
qed

text \<open>
  A block that computes a function of the loop variable \<open>s\<close> and changes nothing.  The last element stays in \<open>s\<close>.
\<close>

definition computes :: "program \<Rightarrow> evaluator \<Rightarrow> nat \<Rightarrow> yvalue \<Rightarrow> (yvalue \<Rightarrow> yvalue) \<Rightarrow> bool" where
  "computes P ev s expr g \<longleftrightarrow>
     p_category P s \<noteq> c_reference \<and> (\<forall>st x. code_evaluate ev expr (store_value st s x) = Ret (g x, store_value st s x))"

definition stored :: "ystate \<Rightarrow> nat \<Rightarrow> yvalue list \<Rightarrow> ystate" where
  "stored st s xs = (if xs = [] then st else store_value st s (last xs))"

lemma stored_simps [simp]: "stored st s [] = st" "stored st s [x] = store_value st s x" "stored (store_value st s x) s xs = stored st s (x # xs)"
  by (auto simp: stored_def store_value_def)

lemma entry_set_variable:
  "p_category P s \<noteq> c_reference \<Longrightarrow> x \<noteq> YNull \<Longrightarrow> entry_set P s x st = Ret ((), store_value st s x)"
  by (subst entry_set_def, subst epartial_def, subst setValue.simps) simp

lemma break_iff: "isBreak v \<longleftrightarrow> v = YBreak"
  by (cases v) (simp_all add: isBreak_def)

lemmas loop_simps = computes_def ebind_def entry_set_variable as_boolean_def eret_def break_iff list_add_def

lemma l_filter_computes:
  "computes P ev s expr (\<lambda>x. YBoolean (g x)) \<Longrightarrow> YNull \<notin> set xs \<Longrightarrow>
   l_filter_loop P ev s ret xs expr st = Ret (YList (ret @ filter g xs), stored st s xs)"
  by (induction xs arbitrary: ret st) (auto simp: loop_simps)

lemma l_find_computes:
  "computes P ev s expr (\<lambda>x. YBoolean (g x)) \<Longrightarrow> YNull \<notin> set xs \<Longrightarrow>
   l_find_loop P ev s xs expr st =
     Ret (case find g xs of Some x \<Rightarrow> x | None \<Rightarrow> YNull,
          stored st s (take (Suc (length (takeWhile (\<lambda>x. \<not> g x) xs))) xs))"
  by (induction xs arbitrary: st) (auto simp: loop_simps)

lemma l_maplist_computes:
  "computes P ev s expr g \<Longrightarrow> YNull \<notin> set xs \<Longrightarrow> \<forall>x \<in> set xs. g x \<noteq> YNull \<and> g x \<noteq> YBreak \<Longrightarrow>
   l_maplist_loop P ev s ret xs expr st = Ret (YList (ret @ map g xs), stored st s xs)"
  by (induction xs arbitrary: ret st) (auto simp: loop_simps)

lemma l_foreach_computes:
  "computes P ev s expr g \<Longrightarrow> YNull \<notin> set xs \<Longrightarrow> \<forall>x \<in> set xs. g x \<noteq> YBreak \<Longrightarrow>
   l_foreach_loop P ev s ret xs expr st = Ret (if xs = [] then ret else g (last xs), stored st s xs)"
  by (induction xs arbitrary: ret st) (auto simp: loop_simps)

text \<open>The same for the two variables of \<^verbatim>\<open>reduce\<close>.\<close>

definition computes2 :: "program \<Rightarrow> evaluator \<Rightarrow> nat \<Rightarrow> nat \<Rightarrow> yvalue \<Rightarrow> (yvalue \<Rightarrow> yvalue \<Rightarrow> yvalue) \<Rightarrow> bool" where
  "computes2 P ev s t expr h \<longleftrightarrow>
     p_category P s \<noteq> c_reference \<and> p_category P t \<noteq> c_reference \<and>
     (\<forall>st a b. code_evaluate ev expr (store_value (store_value st s a) t b) =
        Ret (h a b, store_value (store_value st s a) t b))"

lemma l_reduce_computes:
  "computes2 P ev s t expr h \<Longrightarrow> YNull \<notin> set xs \<Longrightarrow> init \<noteq> YNull \<Longrightarrow> \<forall>a b. \<not> nil (h a b) \<and> h a b \<noteq> YBreak \<Longrightarrow>
   \<exists>st'. l_reduce_loop P ev s t init xs expr st = Ret (foldl h init xs, st')"
  by (induction xs arbitrary: init st) (auto simp: loop_simps computes2_def nil_def)

section \<open>Properties of the list builtins\<close>

definition occurrences :: "'c ycp \<Rightarrow> 'c ycp list \<Rightarrow> nat" where
  "occurrences v xs = length (filter (\<lambda>x. compare x v = YO_EQUAL) xs)"

definition sorted_values :: "'c ycp list \<Rightarrow> bool" where
  "sorted_values xs \<longleftrightarrow> list_all ordered_value xs \<and> sorted_wrt (\<lambda>a b. \<not> ycp_less b a) xs"

lemma occurrences_occ: "occurrences = ycp_ord.occ" "sorted_values = ycp_ord.rising"
  by (auto simp: fun_eq_iff occurrences_def ycp_ord.occ_def sorted_values_def ycp_ord.rising_def ycp_less_def)

text \<open>
  C20. On sorted lists of comparable values the functions of the name space \<^verbatim>\<open>multiset\<close> compute the operations on
  multisets: how often a value occurs in a result is the difference, minimum, maximum, symmetric difference or
  sum of how often it occurs in the arguments, the results are sorted again, and \<^verbatim>\<open>includes\<close> decides whether
  every value occurs at least as often.
\<close>

theorem multiset_builtins:
  assumes "sorted_values xs" "sorted_values ys"
  shows "\<exists>d i u s m.
    ms_difference (YList xs) (YList ys) = Some (YList d) \<and> ms_intersection (YList xs) (YList ys) = Some (YList i) \<and>
    ms_union (YList xs) (YList ys) = Some (YList u) \<and> ms_symmetric_difference (YList xs) (YList ys) = Some (YList s) \<and>
    ms_merge (YList xs) (YList ys) = Some (YList m) \<and>
    sorted_values d \<and> sorted_values i \<and> sorted_values u \<and> sorted_values s \<and> sorted_values m \<and>
    (\<forall>v. ordered_value v \<longrightarrow>
       occurrences v d = occurrences v xs - occurrences v ys \<and>
       occurrences v i = min (occurrences v xs) (occurrences v ys) \<and>
       occurrences v u = max (occurrences v xs) (occurrences v ys) \<and>
       occurrences v s = (occurrences v xs - occurrences v ys) + (occurrences v ys - occurrences v xs) \<and>
       occurrences v m = occurrences v xs + occurrences v ys) \<and>
    ms_includes (YList xs) (YList ys) =
      Some (YBoolean (\<forall>v. ordered_value v \<longrightarrow> occurrences v ys \<le> occurrences v xs))"
  using assms unfolding occurrences_occ
  by (simp add: ms_difference_def ms_intersection_def ms_union_def ms_symmetric_difference_def ms_merge_def ms_includes_def
      both_lists_def ycp_less_def ycp_ord.rising_set_difference ycp_ord.rising_set_intersection ycp_ord.rising_set_union
      ycp_ord.rising_set_symmetric_difference ycp_ord.rising_merge ycp_ord.occ_difference ycp_ord.occ_intersection
      ycp_ord.occ_union ycp_ord.occ_symmetric_difference ycp_ord.occ_merge ycp_ord.includes_occ)

theorem multiset_builtins_witness:
  "\<exists>d. ms_difference (YList [YInteger 1, YInteger 1, YInteger 2]) (YList [YInteger 1 :: unit ycp]) = Some (YList d) \<and>
     sorted_values d \<and> occurrences (YInteger 1) d = 1"
proof -
  have s: "sorted_values [YInteger 1, YInteger 1, YInteger 2 :: unit ycp]" "sorted_values [YInteger 1 :: unit ycp]"
    by (simp_all add: sorted_values_def ycp_less_def cmp_less_def integer_compare_def cmp_simps)
  have "occurrences (YInteger 1) [YInteger 1, YInteger 1, YInteger 2 :: unit ycp] = 2"
    "occurrences (YInteger 1) [YInteger 1 :: unit ycp] = 1"
    by (simp_all add: occurrences_def integer_compare_def cmp_simps)
  then show ?thesis using multiset_builtins [OF s] by fastforce
qed

text \<open>
  \<^verbatim>\<open>toset\<close> gives a strictly rising list, and the binary search of \<^verbatim>\<open>setcontains\<close> on it answers what \<^verbatim>\<open>contains\<close>
  answers by a linear search of the original list.
\<close>

theorem toset_setcontains:
  assumes "list_all ordered_value xs"
  shows "\<exists>ys. l_toset (YList xs) = Some (YList ys) \<and> sorted_wrt ycp_less ys \<and>
    (\<forall>v. ordered_value v \<longrightarrow> l_setcontains (YList ys) v = l_contains (YList xs) v)"
proof -
  let ?ys = "foldl (\<lambda>s x. sset_insert ycp_less x s) [] xs"
  have inv: "ycp_ord.sset_inv ?ys"
    and mem: "\<And>v. ordered_value v \<Longrightarrow>
      (\<exists>x \<in> set ?ys. compare x v = YO_EQUAL) \<longleftrightarrow> (\<exists>x \<in> set xs. compare x v = YO_EQUAL)"
    using ycp_ord.toset_spec [OF assms, of "[]"] by (auto simp: ycp_ord.sset_inv_def ycp_less_def)
  have "l_setcontains (YList ?ys) v = l_contains (YList xs) v" if "ordered_value v" for v
    using ycp_ord.binary_search_iff [OF ycp_ord.sset_inv_rising [OF inv] that] mem [OF that]
    by (simp add: l_setcontains_def l_contains_def list_contains_iff ycp_less_def)
  moreover have "sorted_wrt ycp_less ?ys" using inv by (simp add: ycp_ord.sset_inv_def ycp_less_def)
  ultimately show ?thesis by (auto simp: l_toset_def)
qed

theorem toset_setcontains_witness:
  "\<exists>ys. l_toset (YList [YInteger 3, YInteger 1, YInteger 3 :: unit ycp]) = Some (YList ys) \<and> sorted_wrt ycp_less ys \<and>
     l_setcontains (YList ys) (YInteger 3) = Some (YBoolean True) \<and> l_setcontains (YList ys) (YInteger 2) = Some (YBoolean False)"
proof -
  have "l_contains (YList [YInteger 3, YInteger 1, YInteger 3 :: unit ycp]) (YInteger 3) = Some (YBoolean True)"
    "l_contains (YList [YInteger 3, YInteger 1, YInteger 3 :: unit ycp]) (YInteger 2) = Some (YBoolean False)"
    by (simp_all add: l_contains_def list_contains_iff integer_compare_def cmp_simps)
  then show ?thesis using toset_setcontains [of "[YInteger 3, YInteger 1, YInteger 3 :: unit ycp]"] by auto
qed



text \<open>How \<^verbatim>\<open>int\<close> variables see a 64 bit offset.\<close>

lemma sint_small: "- (2 ^ 31) \<le> s \<Longrightarrow> s < 2 ^ 31 \<Longrightarrow> sint (word_of_int s :: int64) = s"
  by (simp add: sint_sbintrunc' signed_take_bit_int_eq_self)

lemma list_range_take: "0 \<le> i \<Longrightarrow> i \<le> j \<Longrightarrow> j \<le> int (length xs) \<Longrightarrow> list_range xs i j = take (nat (j - i)) (drop (nat i) xs)"
  by (rule nth_equalityI) (auto simp: list_range_def list_value_def nat_add_distrib)

text \<open>
  \<^verbatim>\<open>sublist\<close> cuts out exactly the elements asked for when offset and length are in range and gives null otherwise,
  for lists, offsets and lengths below \<open>2 ^ 31\<close>; beyond that an offset is taken modulo \<open>2 ^ 32\<close>.
\<close>

theorem sublist_bounds:
  assumes "length xs < 2 ^ 31" "- (2 ^ 31) \<le> i" "i < 2 ^ 31" "- (2 ^ 31) \<le> n" "n < 2 ^ 31"
  shows "l_sublist1 (YList xs) (YInteger (word_of_int i)) =
      Some (if 0 \<le> i \<and> i < int (length xs) then YList (drop (nat i) xs) else YNull) \<and>
    l_sublist2 (YList xs) (YInteger (word_of_int i)) (YInteger (word_of_int n)) =
      Some (if 0 \<le> i \<and> i < int (length xs) \<and> 0 \<le> n \<and> i + n \<le> int (length xs)
            then YList (take (nat n) (drop (nat i) xs)) else YNull) \<and>
    l_sublist1 (YList xs) (YInteger (word_of_int i + 2 ^ 32)) = l_sublist1 (YList xs) (YInteger (word_of_int i))"
proof -
  let ?l = "int (length xs)"
  have l: "?l < 2 ^ 31" using assms(1) by simp
  have sum: "sum_to_int i (word_of_int n) = Some (to_int32 (word_of_int (i + n)))"
    using assms by (simp add: sum_to_int_def sint_small)
  have two: "(to_int32 (word_of_int (i + n)) < i \<or> ?l < to_int32 (word_of_int (i + n))) \<longleftrightarrow> \<not> (0 \<le> n \<and> i + n \<le> ?l)"
    "0 \<le> n \<and> i + n \<le> ?l \<longrightarrow> to_int32 (word_of_int (i + n)) = i + n" if "0 \<le> i" "i < ?l"
    using that l assms to_int32_small [of "i + n"] to_int32_wraps [of "i + n"] by (cases "i + n < 2 ^ 31"; force)+
  show ?thesis
  proof (intro conjI)
    show "l_sublist1 (YList xs) (YInteger (word_of_int i)) =
        Some (if 0 \<le> i \<and> i < ?l then YList (drop (nat i) xs) else YNull)"
      using assms by (auto simp: l_sublist1_def to_int32_small list_size_def Let_def list_range_take)
    show "l_sublist2 (YList xs) (YInteger (word_of_int i)) (YInteger (word_of_int n)) =
      Some (if 0 \<le> i \<and> i < ?l \<and> 0 \<le> n \<and> i + n \<le> ?l then YList (take (nat n) (drop (nat i) xs)) else YNull)"
      using assms two sum by (auto simp: l_sublist2_def to_int32_small list_size_def Let_def list_range_take)
    show "l_sublist1 (YList xs) (YInteger (word_of_int i + 2 ^ 32)) = l_sublist1 (YList xs) (YInteger (word_of_int i))"
      using to_int32_add [of i] by (simp add: l_sublist1_def)
  qed
qed

theorem sublist_bounds_witness:
  "l_sublist2 (YList [YVoid, YInteger 7, YInteger 8 :: unit ycp]) (YInteger 1) (YInteger 2) = Some (YList [YInteger 7, YInteger 8]) \<and>
   l_sublist1 (YList [YVoid, YInteger 7 :: unit ycp]) (YInteger (1 + 2 ^ 32)) = Some (YList [YInteger 7])"
  using sublist_bounds [of "[YVoid, YInteger 7, YInteger 8 :: unit ycp]" 1 2] sublist_bounds [of "[YVoid, YInteger 7 :: unit ycp]" 1 0]
  by simp

end
