(* ===== verification/Builtin_Scalar.thy ===== *)
theory Builtin_Scalar
  imports Builtin_List "HOL-Library.Signed_Division"
begin

text \<open>
  The builtin functions on booleans, integers, floats, paths, terms, symbols and byte blocks and the miscellaneous
  ones (\<^verbatim>\<open>YCPBuiltinBoolean.cc\<close>, \<^verbatim>\<open>YCPBuiltinInteger.cc\<close>, \<^verbatim>\<open>YCPBuiltinFloat.cc\<close>, \<^verbatim>\<open>YCPBuiltinPath.cc\<close>,
  \<^verbatim>\<open>YCPBuiltinTerm.cc\<close>, \<^verbatim>\<open>YCPBuiltinSymbol.cc\<close>, \<^verbatim>\<open>YCPBuiltinByteblock.cc\<close>, \<^verbatim>\<open>YCPBuiltinMisc.cc\<close>).
  \<^const>\<open>None\<close> is undefined behaviour or \<^verbatim>\<open>abort ()\<close>: overflow of signed arithmetic, division by zero, a handle
  of the wrong class.
\<close>

section \<open>Booleans\<close>

definition b_lnot :: "'c ycp \<Rightarrow> 'c ycp option" where
  "b_lnot b = (case b of YNull \<Rightarrow> Some YNull | YBoolean v \<Rightarrow> Some (YBoolean (\<not> v)) | _ \<Rightarrow> None)"

definition b_or :: "evaluator \<Rightarrow> yvalue \<Rightarrow> yvalue \<Rightarrow> yvalue eval" where
  "b_or ev b1 b2 =
     ebind (code_evaluate ev b1) (\<lambda>v1.
       let second = ebind (code_evaluate ev b2) (\<lambda>v2.
             if isNull v2 \<or> isVoid v2 then eret (YBoolean False)
             else ebind (as_boolean v2) (\<lambda>t. eret (YBoolean t))) in
       if isNull v1 \<or> isVoid v1 then second
       else ebind (as_boolean v1) (\<lambda>t. if t then eret (YBoolean True) else second))"

definition b_and :: "evaluator \<Rightarrow> yvalue \<Rightarrow> yvalue \<Rightarrow> yvalue eval" where
  "b_and ev b1 b2 =
     ebind (code_evaluate ev b1) (\<lambda>v1.
       if isNull v1 \<or> isVoid v1 then eret (YBoolean False)
       else ebind (as_boolean v1) (\<lambda>t.
         if \<not> t then eret (YBoolean False)
         else ebind (code_evaluate ev b2) (\<lambda>v2.
           if isNull v2 \<or> isVoid v2 then eret (YBoolean False)
           else ebind (as_boolean v2) (\<lambda>u. eret (YBoolean u)))))"

section \<open>Integers\<close>

definition int_args :: "'c ycp \<Rightarrow> 'c ycp \<Rightarrow> (int64 \<Rightarrow> int64 \<Rightarrow> 'c ycp option) \<Rightarrow> 'c ycp option" where
  "int_args a b f =
     (if isNull a \<or> isNull b then Some YNull
      else case (a, b) of (YInteger i, YInteger j) \<Rightarrow> f i j | _ \<Rightarrow> None)"

text \<open>The result of signed 64 bit arithmetic.\<close>

definition ll_result :: "int \<Rightarrow> 'c ycp option" where
  "ll_result r = (if - (2 ^ 63) \<le> r \<and> r < 2 ^ 63 then Some (YInteger (word_of_int r)) else None)"

definition i_plus :: "'c ycp \<Rightarrow> 'c ycp \<Rightarrow> 'c ycp option" where
  "i_plus a b = int_args a b (\<lambda>i j. ll_result (sint i + sint j))"

definition i_minus :: "'c ycp \<Rightarrow> 'c ycp \<Rightarrow> 'c ycp option" where
  "i_minus a b = int_args a b (\<lambda>i j. ll_result (sint i - sint j))"

definition i_mult :: "'c ycp \<Rightarrow> 'c ycp \<Rightarrow> 'c ycp option" where
  "i_mult a b = int_args a b (\<lambda>i j. ll_result (sint i * sint j))"

definition i_div :: "'c ycp \<Rightarrow> 'c ycp \<Rightarrow> 'c ycp option" where
  "i_div a b = int_args a b (\<lambda>i j. if j = 0 then Some YNull else ll_result (sint i sdiv sint j))"

text \<open>\<^verbatim>\<open>i_mod\<close> has no test for zero; the remainder is undefined when the quotient is.\<close>

definition i_mod :: "'c ycp \<Rightarrow> 'c ycp \<Rightarrow> 'c ycp option" where
  "i_mod a b = int_args a b (\<lambda>i j.
     if j = 0 \<or> ll_result (sint i sdiv sint j) = (None :: 'c ycp option) then None else ll_result (sint i smod sint j))"

definition i_and :: "'c ycp \<Rightarrow> 'c ycp \<Rightarrow> 'c ycp option" where
  "i_and a b = int_args a b (\<lambda>i j. Some (YInteger (i AND j)))"

definition i_xor :: "'c ycp \<Rightarrow> 'c ycp \<Rightarrow> 'c ycp option" where
  "i_xor a b = int_args a b (\<lambda>i j. Some (YInteger (i XOR j)))"

definition i_or :: "'c ycp \<Rightarrow> 'c ycp \<Rightarrow> 'c ycp option" where
  "i_or a b = int_args a b (\<lambda>i j. Some (YInteger (i OR j)))"

text \<open>Shifts by a negative number of bits or by 64 and more are undefined; \<^verbatim>\<open>>>\<close> keeps the sign.\<close>

definition i_left :: "'c ycp \<Rightarrow> 'c ycp \<Rightarrow> 'c ycp option" where
  "i_left a b = int_args a b (\<lambda>i j. if sint j < 0 \<or> 64 \<le> sint j then None else Some (YInteger (push_bit (nat (sint j)) i)))"

definition i_right :: "'c ycp \<Rightarrow> 'c ycp \<Rightarrow> 'c ycp option" where
  "i_right a b =
     int_args a b (\<lambda>i j. if sint j < 0 \<or> 64 \<le> sint j then None else Some (YInteger (signed_drop_bit (nat (sint j)) i)))"

definition i_neg :: "'c ycp \<Rightarrow> 'c ycp option" where
  "i_neg a = (case a of YNull \<Rightarrow> Some YNull | YInteger i \<Rightarrow> ll_result (- sint i) | _ \<Rightarrow> None)"

definition i_bnot :: "'c ycp \<Rightarrow> 'c ycp option" where
  "i_bnot a = (case a of YNull \<Rightarrow> Some YNull | YInteger i \<Rightarrow> Some (YInteger (NOT i)) | _ \<Rightarrow> None)"

definition i_tointeger1 :: "'c ycp \<Rightarrow> 'c ycp option" where
  "i_tointeger1 v =
     (case v of
        YInteger i \<Rightarrow> Some (YInteger i)
      | YFloat d \<Rightarrow> map_option YInteger (dbl_to_int d)
      | YString s \<Rightarrow> Some (let (i, valid) = integer_of_string s in if valid then YInteger i else YNull)
      | _ \<Rightarrow> Some YNull)"

section \<open>Floats\<close>

text \<open>The arithmetic of the processor and of \<^verbatim>\<open>libm\<close> and the conversion from text are the parameter \<open>op\<close>.\<close>

definition float_args :: "'c ycp \<Rightarrow> 'c ycp \<Rightarrow> (double \<Rightarrow> double \<Rightarrow> 'c ycp option) \<Rightarrow> 'c ycp option" where
  "float_args a b f =
     (if isNull a \<or> isNull b then Some YNull
      else case (a, b) of (YFloat x, YFloat y) \<Rightarrow> f x y | _ \<Rightarrow> None)"

text \<open>\<^verbatim>\<open>f_plus\<close>, \<^verbatim>\<open>f_minus\<close>, \<^verbatim>\<open>f_mult\<close> and \<^verbatim>\<open>f_pow\<close>.\<close>

definition f_binary :: "(double \<Rightarrow> double \<Rightarrow> double) \<Rightarrow> 'c ycp \<Rightarrow> 'c ycp \<Rightarrow> 'c ycp option" where
  "f_binary op a b = float_args a b (\<lambda>x y. Some (YFloat (op x y)))"

definition f_div :: "(double \<Rightarrow> double \<Rightarrow> double) \<Rightarrow> 'c ycp \<Rightarrow> 'c ycp \<Rightarrow> 'c ycp option" where
  "f_div op a b = float_args a b (\<lambda>x y. Some (if dbl_magnitude y = 0 then YNull else YFloat (op x y)))"

text \<open>\<^verbatim>\<open>f_floor\<close>, \<^verbatim>\<open>f_ceil\<close> and \<^verbatim>\<open>f_trunc\<close>; \<^verbatim>\<open>f_neg\<close> and \<^verbatim>\<open>f_abs\<close> change the sign bit only.\<close>

definition f_unary :: "(double \<Rightarrow> double) \<Rightarrow> 'c ycp \<Rightarrow> 'c ycp option" where
  "f_unary op a = (case a of YNull \<Rightarrow> Some YNull | YFloat x \<Rightarrow> Some (YFloat (op x)) | _ \<Rightarrow> None)"

definition f_neg :: "'c ycp \<Rightarrow> 'c ycp option" where
  "f_neg = f_unary (\<lambda>x. flip_bit 63 x)"

definition f_abs :: "'c ycp \<Rightarrow> 'c ycp option" where
  "f_abs = f_unary (\<lambda>x. unset_bit 63 x)"

definition f_tofloat :: "(string \<Rightarrow> double) \<Rightarrow> 'c ycp \<Rightarrow> 'c ycp option" where
  "f_tofloat conv v =
     Some (case v of
        YInteger i \<Rightarrow> YFloat (dbl_of_int (sint i))
      | YFloat d \<Rightarrow> YFloat d
      | YString s \<Rightarrow> YFloat (conv (c_str s))
      | _ \<Rightarrow> YNull)"

section \<open>Paths\<close>

definition p_size :: "'c ycp \<Rightarrow> 'c ycp option" where
  "p_size p = (case p of YNull \<Rightarrow> Some YNull | YPath c \<Rightarrow> Some (YInteger (of_nat (length c))) | _ \<Rightarrow> None)"

definition p_add :: "'c ycp \<Rightarrow> 'c ycp \<Rightarrow> 'c ycp option" where
  "p_add p s =
     (if isNull p \<or> isNull s then Some YNull
      else case (p, s) of
        (YPath c, YString t) \<Rightarrow> Some (YPath (path_append_string (path_append [] c) t))
      | _ \<Rightarrow> None)"

definition p_plus :: "'c ycp \<Rightarrow> 'c ycp \<Rightarrow> 'c ycp option" where
  "p_plus p q =
     (if isNull p \<or> isNull q then Some YNull
      else case (p, q) of (YPath c, YPath d) \<Rightarrow> Some (YPath (path_append (path_append [] c) d)) | _ \<Rightarrow> None)"

definition p_topath :: "'c ycp \<Rightarrow> 'c ycp option" where
  "p_topath v =
     (case v of
        YPath c \<Rightarrow> Some (YPath c)
      | YString s \<Rightarrow>
          (let t = (if (case s of [] \<Rightarrow> True | c # _ \<Rightarrow> c \<noteq> CHR ''.'') then CHR ''.'' # s else s) in
           map_option YPath (path_of_string t))
      | _ \<Rightarrow> Some YNull)"

section \<open>Terms\<close>

definition term_arg :: "'c ycp \<Rightarrow> (string \<Rightarrow> 'c ycp list \<Rightarrow> 'c ycp option) \<Rightarrow> 'c ycp option" where
  "term_arg t f = (case t of YNull \<Rightarrow> Some YNull | YTerm n xs \<Rightarrow> f n xs | _ \<Rightarrow> None)"

definition t_size :: "'c ycp \<Rightarrow> 'c ycp option" where
  "t_size t = term_arg t (\<lambda>n xs. Some (YInteger (of_nat (list_size xs))))"

definition t_add :: "'c ycp \<Rightarrow> 'c ycp \<Rightarrow> 'c ycp option" where
  "t_add t v = term_arg t (\<lambda>n xs. Some (if isNull v then YNull else YTerm n (list_functionalAdd xs v False)))"

definition t_symbolof :: "'c ycp \<Rightarrow> 'c ycp option" where
  "t_symbolof t = term_arg t (\<lambda>n xs. Some (YSymbol n))"

definition t_select :: "'c ycp \<Rightarrow> 'c ycp \<Rightarrow> 'c ycp \<Rightarrow> 'c ycp option" where
  "t_select t i dflt =
     Some (case t of
        YTerm n xs \<Rightarrow>
          (case i of
             YInteger k \<Rightarrow> if sint k < 0 \<or> int (list_size xs) \<le> sint k then dflt else list_value xs (sint k)
           | _ \<Rightarrow> YNull)
      | _ \<Rightarrow> YNull)"

definition t_toterm1 :: "'c ycp \<Rightarrow> 'c ycp option" where
  "t_toterm1 v =
     Some (case v of YTerm n xs \<Rightarrow> YTerm n xs | YString s \<Rightarrow> YTerm s [] | YSymbol s \<Rightarrow> YTerm s [] | _ \<Rightarrow> YNull)"

definition t_toterm2 :: "'c ycp \<Rightarrow> 'c ycp \<Rightarrow> 'c ycp option" where
  "t_toterm2 s l =
     (if isNull s \<or> isNull l then Some YNull
      else case (s, l) of (YSymbol n, YList xs) \<Rightarrow> Some (YTerm n (foldl list_add [] xs)) | _ \<Rightarrow> None)"

text \<open>\<^verbatim>\<open>t_remove\<close> counts from one.\<close>

definition t_remove :: "'c ycp \<Rightarrow> 'c ycp \<Rightarrow> 'c ycp option" where
  "t_remove t i =
     (if isNull t \<or> isNull i then Some YNull
      else case (t, i) of
        (YTerm n xs, YInteger k) \<Rightarrow>
          if sint k \<le> 0 \<or> int (list_size xs) < sint k then Some (YTerm n xs)
          else map_option (YTerm n) (list_remove xs (sint k - 1))
      | _ \<Rightarrow> None)"

definition t_argsof :: "'c ycp \<Rightarrow> 'c ycp option" where
  "t_argsof t = term_arg t (\<lambda>n xs. Some (YList xs))"

section \<open>Symbols and byte blocks\<close>

definition s_tosymbol :: "'c ycp \<Rightarrow> 'c ycp option" where
  "s_tosymbol v = (case v of YString s \<Rightarrow> Some (YSymbol s) | _ \<Rightarrow> None)"

definition b_tobyteblock :: "'c ycp \<Rightarrow> 'c ycp option" where
  "b_tobyteblock v = Some (case v of YByteblock bs \<Rightarrow> YByteblock bs | _ \<Rightarrow> YNull)"

definition b_size :: "'c ycp \<Rightarrow> 'c ycp option" where
  "b_size v = (case v of YNull \<Rightarrow> Some YNull | YByteblock bs \<Rightarrow> Some (YInteger (of_nat (length bs))) | _ \<Rightarrow> None)"

section \<open>Miscellaneous\<close>

definition Eval :: "evaluator \<Rightarrow> yvalue \<Rightarrow> yvalue eval" where
  "Eval ev v = (case v of YCode c \<Rightarrow> ev c False | _ \<Rightarrow> eret v)"

text \<open>
  The loop of \<^verbatim>\<open>s_sformat\<close> over the format.  The step over the character behind a percent sign is made at the end of
  the text too, and what is read after that is not defined.
\<close>

definition sformat_arg :: "'c printers \<Rightarrow> 'c ycp list \<Rightarrow> nat \<Rightarrow> string" where
  "sformat_arg pr argv num =
     (if length argv \<le> num then []
      else case argv ! num of YNull \<Rightarrow> ''<NULL>'' | YString s \<Rightarrow> s | v \<Rightarrow> toString pr v)"

fun sformat_loop :: "'c printers \<Rightarrow> 'c ycp list \<Rightarrow> string \<Rightarrow> string \<Rightarrow> string option" where
  "sformat_loop pr argv result [] = Some result"
| "sformat_loop pr argv result (c # cs) =
     (if c = CHR ''%''
      then case cs of
        [] \<Rightarrow> None
      | d # ds \<Rightarrow>
          sformat_loop pr argv
            (result @ (if d = CHR ''%'' then ''%''
                       else if 49 \<le> ccode d \<and> ccode d \<le> 57 then sformat_arg pr argv (ccode d - 49)
                       else [])) ds
      else sformat_loop pr argv (result @ [c]) cs)"

definition s_sformat :: "'c printers \<Rightarrow> 'c ycp \<Rightarrow> 'c ycp \<Rightarrow> 'c ycp option" where
  "s_sformat pr format argv =
     (case format of
        YString f \<Rightarrow>
          (case argv of
             YList xs \<Rightarrow> map_option YString (sformat_loop pr xs [] (c_str f))
           | _ \<Rightarrow> Some (YString f))
      | _ \<Rightarrow> Some YNull)"

text \<open>
  \<^verbatim>\<open>Y2Log\<close> and the functions that call it with a level, \<^verbatim>\<open>Y2UserItem\<close> and \<^verbatim>\<open>Y2UserNote\<close>, without the message;
  with a frame number as \<^verbatim>\<open>Y2FDebug\<close> and the others.
\<close>

definition Y2Log :: "'c printers \<Rightarrow> 'c ycp \<Rightarrow> 'c ycp \<Rightarrow> 'c ycp option" where
  "Y2Log pr format args =
     map_option (\<lambda>arg. if isNull arg \<or> \<not> isString arg then YNull else YVoid) (s_sformat pr format args)"

definition Y2FLog :: "'c printers \<Rightarrow> 'c ycp \<Rightarrow> 'c ycp \<Rightarrow> 'c ycp \<Rightarrow> 'c ycp option" where
  "Y2FLog pr f format args =
     (case f of YInteger level \<Rightarrow> map_option (\<lambda>_. YVoid) (Y2Log pr format args) | _ \<Rightarrow> None)"

section \<open>Evaluating functions\<close>

lemma evaluating_le [le_intros]:
  assumes "\<And>c cse. eval_le (ev c cse) (ev' c cse)"
  shows "eval_le (b_or ev a b) (b_or ev' a b)" "eval_le (b_and ev a b) (b_and ev' a b)" "eval_le (Eval ev v) (Eval ev' v)"
  using assms by (auto simp: b_or_def b_and_def Eval_def Let_def intro!: le_intros split: ycp.split)

lemma evaluating_keep [keeps_intros]:
  assumes "\<And>c cse. keeps P (ev c cse)"
  shows "keeps P (b_or ev a b)" "keeps P (b_and ev a b)" "keeps P (Eval ev v)"
  using assms by (auto simp: b_or_def b_and_def Eval_def Let_def intro!: keeps_intros split: ycp.split)

section \<open>Properties\<close>

lemma sint_word_of_int: "- (2 ^ 63) \<le> r \<Longrightarrow> r < 2 ^ 63 \<Longrightarrow> sint (word_of_int r :: int64) = r"
  by (simp add: sint_sbintrunc' signed_take_bit_int_eq_self)

lemma sdiv_overflow:
  assumes "sint (j :: int64) \<noteq> 0" "\<not> (sint (i :: int64) = - (2 ^ 63) \<and> sint j = - 1)"
  shows "- (2 ^ 63) \<le> sint i sdiv sint j \<and> sint i sdiv sint j < 2 ^ 63"
proof -
  have r: "sint i sdiv sint j \<in> {- \<bar>sint i\<bar>..\<bar>sint i\<bar>}" by (rule sdiv_int_range)
  show ?thesis
  proof (cases "sint i = - (2 ^ 63)")
    case True
    then have "sint i sdiv sint j \<noteq> - sint i" using assms(2) int_sdiv_negated_is_minus1 [of "sint i" "sint j"] by simp
    with True r show ?thesis by simp
  next
    case False
    with r sint_bounds [of i] show ?thesis by auto
  qed
qed

text \<open>
  Integer division: where the quotient fits into 64 bits, \<^verbatim>\<open>/\<close> and \<^verbatim>\<open>%\<close> give a quotient rounded towards zero and the
  remainder that belongs to it, with the sign of the dividend.  Division by zero is null for \<^verbatim>\<open>/\<close>, but
  undefined for \<^verbatim>\<open>%\<close>, and both are undefined for the smallest integer divided by minus one.
\<close>

theorem integer_division:
  "(sint j \<noteq> 0 \<and> \<not> (sint i = - (2 ^ 63) \<and> sint j = - 1) \<longrightarrow>
     (\<exists>q r. i_div (YInteger i) (YInteger j) = Some (YInteger q) \<and> i_mod (YInteger i) (YInteger j) = Some (YInteger r) \<and>
        sint i = sint q * sint j + sint r \<and> \<bar>sint r\<bar> < \<bar>sint j\<bar> \<and> (sint r = 0 \<or> sgn (sint r) = sgn (sint i)))) \<and>
   i_div (YInteger i) (YInteger 0) = Some YNull \<and> i_mod (YInteger i) (YInteger 0) = None \<and>
   i_div (YInteger (- (2 ^ 63))) (YInteger (- 1)) = None \<and> i_mod (YInteger (- (2 ^ 63))) (YInteger (- 1)) = None"
proof (intro conjI impI)
  assume a: "sint j \<noteq> 0 \<and> \<not> (sint i = - (2 ^ 63) \<and> sint j = - 1)"
  let ?q = "sint i sdiv sint j" and ?r = "sint i smod sint j"
  have q: "- (2 ^ 63) \<le> ?q" "?q < 2 ^ 63" using sdiv_overflow a by blast+
  have r: "\<bar>?r\<bar> < \<bar>sint j\<bar>" using smod_int_range [of "sint j" "sint i"] a by auto
  then have r2: "- (2 ^ 63) \<le> ?r" "?r < 2 ^ 63" using sint_bounds [of j] by linarith+
  have "sgn k * m = 0 \<or> sgn (sgn k * m) = sgn k" if "0 \<le> m" for k m :: int
    using that by (cases "m = 0") (auto simp: sgn_mult)
  then have "?r = 0 \<or> sgn ?r = sgn (sint i)" using a by (simp add: smod_int_alt_def)
  moreover have "j \<noteq> 0" using a by auto
  ultimately show "\<exists>q r. i_div (YInteger i) (YInteger j) = Some (YInteger q) \<and> i_mod (YInteger i) (YInteger j) = Some (YInteger r) \<and>
        sint i = sint q * sint j + sint r \<and> \<bar>sint r\<bar> < \<bar>sint j\<bar> \<and> (sint r = 0 \<or> sgn (sint r) = sgn (sint i))"
    using q r r2 sdiv_mult_smod_eq [of "sint i" "sint j"]
    by (auto simp: i_div_def i_mod_def int_args_def ll_result_def sint_word_of_int)
qed (simp_all add: i_div_def i_mod_def int_args_def ll_result_def)

theorem integer_division_witness:
  "\<exists>q r. i_div (YInteger (- 7)) (YInteger 2) = Some (YInteger q :: unit ycp) \<and> i_mod (YInteger (- 7)) (YInteger 2) = Some (YInteger r :: unit ycp) \<and>
     - 7 = sint q * 2 + sint r \<and> \<bar>sint r\<bar> < 2"
proof -
  have "sint (2 :: int64) = 2" "sint (- 7 :: int64) = - 7" by simp_all
  then show ?thesis using integer_division [of "2 :: int64" "- 7 :: int64", where ?'a = unit] by auto
qed

text \<open>
  \<^verbatim>\<open>topath\<close> reads back the path that \<^verbatim>\<open>tostring\<close> printed.
\<close>

theorem topath_reads_path:
  assumes "good_path p"
  shows "p_topath (YString (path_string p)) = Some (YPath p)"
proof -
  obtain t where "path_string p = CHR ''.'' # t"
    by (cases p) (simp_all add: path_string_def)
  then show ?thesis
    using path_roundtrip [OF assms] by (simp add: p_topath_def)
qed

theorem topath_reads_path_witness:
  "p_topath (YString (path_string [\<lparr>component = ''etc'', is_complex = False\<rparr>, \<lparr>component = ''a.b'', is_complex = True\<rparr>])) =
     Some (YPath [\<lparr>component = ''etc'', is_complex = False\<rparr>, \<lparr>component = ''a.b'', is_complex = True\<rparr>] :: unit ycp)"
  by (rule topath_reads_path) code_simp

definition percent_escape :: "string \<Rightarrow> string" where
  "percent_escape s = concat (map (\<lambda>c. if c = CHR ''%'' then ''%%'' else [c]) s)"

lemma percent_escape_simps [simp]:
  "percent_escape [] = []" "percent_escape (c # s) = (if c = CHR ''%'' then ''%%'' else [c]) @ percent_escape s"
  by (simp_all add: percent_escape_def)

lemma sformat_escape: "sformat_loop pr argv r (percent_escape a @ b) = sformat_loop pr argv (r @ a) b"
  by (induction a arbitrary: r) auto

lemma nul_free_escape [simp]: "nul_free (percent_escape s) = nul_free s"
  by (induction s) (auto simp: nul_free_def)

text \<open>
  \<^verbatim>\<open>sformat\<close> copies its format, with \<^verbatim>\<open>%%\<close> for a percent sign, and puts an argument in the place of its number:
  a string as it is, any other value as its text, nothing for a number without an argument.  A format that ends in
  a single percent sign makes it read behind the end of the text.
\<close>

theorem sformat_fills:
  assumes "nul_free a" "nul_free b" "49 \<le> ccode d" "ccode d \<le> 57"
  shows "s_sformat pr (YString (percent_escape a @ [CHR ''%'', d] @ percent_escape b)) (YList argv) =
      Some (YString (a @ (if length argv \<le> ccode d - 49 then []
        else case argv ! (ccode d - 49) of YNull \<Rightarrow> ''<NULL>'' | YString s \<Rightarrow> s | v \<Rightarrow> toString pr v) @ b)) \<and>
    s_sformat pr (YString (percent_escape a)) (YList argv) = Some (YString a) \<and>
    s_sformat pr (YString (percent_escape a @ ''%'')) (YList argv) = None"
proof -
  have d: "d \<noteq> CHR ''%''" "d \<noteq> NUL" using assms(3) by auto
  have "sformat_loop pr argv r (percent_escape b) = Some (r @ b)" for r
    using sformat_escape [of pr argv r b "[]"] by simp
  moreover have "sformat_loop pr argv [] (percent_escape a) = Some a"
    using sformat_escape [of pr argv "[]" a "[]"] by simp
  ultimately show ?thesis
    using assms d by (simp add: s_sformat_def sformat_escape sformat_arg_def)
qed

theorem sformat_fills_witness:
  "\<forall>pr :: unit printers. s_sformat pr (YString ''a%1%%'') (YList [YString ''x'']) = Some (YString ''ax%'') \<and>
     s_sformat pr (YString ''a%'') (YList [YString ''x'']) = None"
proof
  fix pr :: "unit printers"
  show "s_sformat pr (YString ''a%1%%'') (YList [YString ''x'']) = Some (YString ''ax%'') \<and>
     s_sformat pr (YString ''a%'') (YList [YString ''x'']) = None"
    using sformat_fills [of "''a''" "''%''" "CHR ''1''" pr "[YString ''x'']"] by simp
qed

end
