(* ===== verification/Builtin_String.thy ===== *)
theory Builtin_String
  imports Builtin_Scalar
begin

text \<open>
  The builtin functions on strings (\<^verbatim>\<open>YCPBuiltinString.cc\<close>).  A string that holds bytes outside ASCII is converted to
  wide characters and back; the two conversions (\<^verbatim>\<open>iconv\<close> in \<^verbatim>\<open>y2string.cc\<close>) and the regular expressions of the C
  library are the parameter record \<open>slib\<close>.  Encryption, message catalogues and time formats are not modelled.
\<close>

section \<open>Searching, as \<^verbatim>\<open>std::basic_string\<close> does\<close>

fun first_index :: "('a \<Rightarrow> bool) \<Rightarrow> 'a list \<Rightarrow> nat option" where
  "first_index p [] = None"
| "first_index p (x # xs) = (if p x then Some 0 else map_option Suc (first_index p xs))"

definition last_index :: "('a \<Rightarrow> bool) \<Rightarrow> 'a list \<Rightarrow> nat option" where
  "last_index p xs = map_option (\<lambda>i. length xs - 1 - i) (first_index p (rev xs))"

fun find_sub :: "'a list \<Rightarrow> 'a list \<Rightarrow> nat option" where
  "find_sub sub [] = (if sub = [] then Some 0 else None)"
| "find_sub sub (x # xs) =
     (if take (length sub) (x # xs) = sub then Some 0 else map_option Suc (find_sub sub xs))"

lemma first_index_Some: "first_index p xs = Some i \<Longrightarrow> i < length xs \<and> p (xs ! i) \<and> (\<forall>j < i. \<not> p (xs ! j))"
  by (induction xs arbitrary: i) (auto split: if_splits simp: less_Suc_eq_0_disj)

lemma first_index_None: "first_index p xs = None \<longleftrightarrow> (\<forall>x \<in> set xs. \<not> p x)"
  by (induction xs) auto

text \<open>
  The loop of \<^verbatim>\<open>deletechars\<close> and \<^verbatim>\<open>filterchars\<close>: from \<open>pos\<close> on, find a character that is to go, erase up to the next
  one that is to stay.
\<close>

function erase_loop :: "('a \<Rightarrow> bool) \<Rightarrow> nat \<Rightarrow> 'a list \<Rightarrow> 'a list" where
  "erase_loop p pos ss =
     (case first_index p (drop pos ss) of
        None \<Rightarrow> ss
      | Some k \<Rightarrow>
          let q = pos + k;
              n = (case first_index (\<lambda>c. \<not> p c) (drop q ss) of None \<Rightarrow> length ss - q | Some j \<Rightarrow> j) in
          erase_loop p q (take q ss @ drop (q + n) ss))"
  by auto
termination
proof (relation "measure (\<lambda>(p, pos, ss). length ss)", goal_cases)
  case (2 p pos ss k q n)
  then have k: "k < length (drop pos ss)" "p (drop pos ss ! k)" using first_index_Some by blast+
  then have q: "q < length ss" "p (drop q ss ! 0)" using 2(2) by auto
  have "0 < n"
  proof (cases "first_index (\<lambda>c. \<not> p c) (drop q ss)")
    case None
    with q 2(3) show ?thesis by simp
  next
    case (Some j)
    then have "\<not> p (drop q ss ! j)" using first_index_Some by blast
    with q(2) have "j \<noteq> 0" by metis
    with Some 2(3) show ?thesis by simp
  qed
  with q(1) show ?case by simp
qed simp

declare erase_loop.simps [simp del]

section \<open>Parameters\<close>

text \<open>
  \<^verbatim>\<open>regcomp\<close> gives an error text, or the number of subexpressions \<^verbatim>\<open>re_nsub\<close> and what \<^verbatim>\<open>regexec\<close> answers for an input:
  \<^const>\<open>None\<close> without a match, otherwise begin and end of the match and of each subexpression, minus one for one
  that takes no part.
\<close>

record slib =
  lib_utf82wchar :: "string \<Rightarrow> nat list"
  lib_wchar2utf8 :: "nat list \<Rightarrow> string"
  lib_regcomp :: "string \<Rightarrow> string + nat \<times> (string \<Rightarrow> (int \<times> int) list option)"

definition isAscii :: "string \<Rightarrow> bool" where
  "isAscii s \<longleftrightarrow> list_all (\<lambda>c. ccode c < 128) s"

text \<open>Arguments of class \<^verbatim>\<open>YCPString\<close> and \<^verbatim>\<open>YCPInteger\<close>, tested for null.\<close>

definition string_arg :: "'c ycp \<Rightarrow> (string \<Rightarrow> 'c ycp option) \<Rightarrow> 'c ycp option" where
  "string_arg a f = (case a of YNull \<Rightarrow> Some YNull | YString s \<Rightarrow> f s | _ \<Rightarrow> None)"

definition string_args :: "'c ycp \<Rightarrow> 'c ycp \<Rightarrow> (string \<Rightarrow> string \<Rightarrow> 'c ycp option) \<Rightarrow> 'c ycp option" where
  "string_args a b f =
     (if isNull a \<or> isNull b then Some YNull
      else case (a, b) of (YString s, YString t) \<Rightarrow> f s t | _ \<Rightarrow> None)"

section \<open>Functions\<close>

definition s_isempty :: "'c ycp \<Rightarrow> 'c ycp option" where
  "s_isempty a = (case a of YString s \<Rightarrow> Some (YBoolean (s = [])) | _ \<Rightarrow> None)"

definition s_size :: "slib \<Rightarrow> 'c ycp \<Rightarrow> 'c ycp option" where
  "s_size L a = string_arg a (\<lambda>s. Some (YInteger (of_nat (if isAscii s then length s else length (lib_utf82wchar L s)))))"

definition s_plus1 :: "'c ycp \<Rightarrow> 'c ycp \<Rightarrow> 'c ycp option" where
  "s_plus1 a b = string_args a b (\<lambda>s t. Some (YString (s @ t)))"

definition s_plus2 :: "'c ycp \<Rightarrow> 'c ycp \<Rightarrow> 'c ycp option" where
  "s_plus2 a b =
     (if isNull a \<or> isNull b then Some YNull
      else case (a, b) of (YString s, YInteger i) \<Rightarrow> Some (YString (s @ integer_string i)) | _ \<Rightarrow> None)"

definition s_plus3 :: "'c ycp \<Rightarrow> 'c ycp \<Rightarrow> 'c ycp option" where
  "s_plus3 a b =
     (if isNull a \<or> isNull b then Some YNull
      else case (a, b) of (YString s, YPath p) \<Rightarrow> Some (YString (s @ path_string p)) | _ \<Rightarrow> None)"

definition s_plus4 :: "'c ycp \<Rightarrow> 'c ycp \<Rightarrow> 'c ycp option" where
  "s_plus4 a b =
     (if isNull a \<or> isNull b then Some YNull
      else case (a, b) of (YString s, YSymbol t) \<Rightarrow> Some (YString (s @ t)) | _ \<Rightarrow> None)"

definition s_issubstring :: "'c ycp \<Rightarrow> 'c ycp \<Rightarrow> 'c ycp option" where
  "s_issubstring target sub = string_args target sub (\<lambda>s t. Some (YBoolean (find_sub t s \<noteq> None)))"

text \<open>\<^verbatim>\<open>%llx\<close>: lower case digits of the unsigned value.\<close>

definition hex_digit :: "nat \<Rightarrow> char" where
  "hex_digit n = char_of (if n < 10 then 48 + n else 87 + n)"

fun show_hex :: "nat \<Rightarrow> string" where
  "show_hex n = (if n < 16 then [hex_digit n] else show_hex (n div 16) @ [hex_digit (n mod 16)])"

declare show_hex.simps [simp del]

definition s_tohexstring1 :: "'c ycp \<Rightarrow> 'c ycp option" where
  "s_tohexstring1 a =
     (case a of YNull \<Rightarrow> Some YNull | YInteger i \<Rightarrow> Some (YString (take 66 (''0x'' @ show_hex (unat i)))) | _ \<Rightarrow> None)"

text \<open>
  A negative width pads with blanks on the right; 66 characters fit into the buffer.  When the length of the whole
  output is no \<^verbatim>\<open>int\<close>, the contents of the buffer are not specified.
\<close>

definition s_tohexstring2 :: "'c ycp \<Rightarrow> 'c ycp \<Rightarrow> 'c ycp option" where
  "s_tohexstring2 a b =
     int_args a b (\<lambda>i w0.
       let w = to_int32 w0; h = show_hex (unat i) in
       if 2147483645 < \<bar>w\<bar> then None
       else Some (YString (take 66 (''0x'' @
         (if 0 \<le> w then replicate (nat w - length h) CHR ''0'' @ h else h @ replicate (nat (- w) - length h) CHR '' '')))))"

text \<open>An index becomes an unsigned \<^verbatim>\<open>size_type\<close>, so that a negative one is out of range.\<close>

definition s_substring1 :: "slib \<Rightarrow> 'c ycp \<Rightarrow> 'c ycp \<Rightarrow> 'c ycp option" where
  "s_substring1 L a b =
     (if isNull a \<or> isNull b then Some YNull
      else case (a, b) of
        (YString s, YInteger i) \<Rightarrow>
          let start = unat i in
          if isAscii s then Some (YString (if length s < start then [] else drop start s))
          else let ws = lib_utf82wchar L s in
               Some (YString (if length ws < start then [] else lib_wchar2utf8 L (drop start ws)))
      | _ \<Rightarrow> None)"

definition s_substring2 :: "slib \<Rightarrow> 'c ycp \<Rightarrow> 'c ycp \<Rightarrow> 'c ycp \<Rightarrow> 'c ycp option" where
  "s_substring2 L a b c =
     (if isNull a \<or> isNull b \<or> isNull c then Some YNull
      else case (a, b, c) of
        (YString s, YInteger i, YInteger n) \<Rightarrow>
          let start = unat i; len = unat n in
          if isAscii s then Some (YString (if length s < start then [] else take len (drop start s)))
          else let ws = lib_utf82wchar L s in
               Some (YString (if length ws < start then [] else lib_wchar2utf8 L (take len (drop start ws))))
      | _ \<Rightarrow> None)"

definition pos_value :: "nat option \<Rightarrow> 'c ycp" where
  "pos_value r = (case r of None \<Rightarrow> YVoid | Some i \<Rightarrow> YInteger (of_nat i))"

definition s_search :: "slib \<Rightarrow> 'c ycp \<Rightarrow> 'c ycp \<Rightarrow> 'c ycp option" where
  "s_search L a b = string_args a b (\<lambda>s t. Some (pos_value (
     if isAscii s \<and> isAscii t then find_sub t s else find_sub (lib_utf82wchar L t) (lib_utf82wchar L s))))"

definition s_find :: "slib \<Rightarrow> 'c ycp \<Rightarrow> 'c ycp \<Rightarrow> 'c ycp option" where
  "s_find L a b = map_option (\<lambda>r. if \<not> isNull r \<and> isVoid r then YInteger (- 1) else r) (s_search L a b)"

definition char_lower :: "char \<Rightarrow> char" where
  "char_lower c = (if is_upper c then char_of (ccode c + 32) else c)"

definition char_upper :: "char \<Rightarrow> char" where
  "char_upper c = (if is_lower c then char_of (ccode c - 32) else c)"

definition s_tolower :: "'c ycp \<Rightarrow> 'c ycp option" where
  "s_tolower a = string_arg a (\<lambda>s. Some (YString (map char_lower s)))"

definition s_toupper :: "'c ycp \<Rightarrow> 'c ycp option" where
  "s_toupper a = string_arg a (\<lambda>s. Some (YString (map char_upper s)))"

definition s_toascii :: "'c ycp \<Rightarrow> 'c ycp option" where
  "s_toascii a = string_arg a (\<lambda>s. Some (YString (filter (\<lambda>c. ccode c < 128) s)))"

definition s_removechars :: "slib \<Rightarrow> 'c ycp \<Rightarrow> 'c ycp \<Rightarrow> 'c ycp option" where
  "s_removechars L a b = string_args a b (\<lambda>s r. Some (YString (
     if isAscii s \<and> isAscii r then erase_loop (\<lambda>c. c \<in> set r) 0 s
     else lib_wchar2utf8 L (erase_loop (\<lambda>c. c \<in> set (lib_utf82wchar L r)) 0 (lib_utf82wchar L s)))))"

definition s_filterchars :: "slib \<Rightarrow> 'c ycp \<Rightarrow> 'c ycp \<Rightarrow> 'c ycp option" where
  "s_filterchars L a b = string_args a b (\<lambda>s r. Some (YString (
     if isAscii s \<and> isAscii r then erase_loop (\<lambda>c. c \<notin> set r) 0 s
     else lib_wchar2utf8 L (erase_loop (\<lambda>c. c \<notin> set (lib_utf82wchar L r)) 0 (lib_utf82wchar L s)))))"

text \<open>The separator goes before every string but the one at index zero.\<close>

fun merge_loop :: "string \<Rightarrow> nat \<Rightarrow> string \<Rightarrow> 'c ycp list \<Rightarrow> string option" where
  "merge_loop c i ret [] = Some ret"
| "merge_loop c i ret (v # vs) =
     (case v of
        YNull \<Rightarrow> None
      | YString s \<Rightarrow> merge_loop c (Suc i) (ret @ (if i \<noteq> 0 then c else []) @ s) vs
      | _ \<Rightarrow> merge_loop c (Suc i) ret vs)"

definition s_mergestring :: "'c ycp \<Rightarrow> 'c ycp \<Rightarrow> 'c ycp option" where
  "s_mergestring l s =
     list_arg l (\<lambda>xs. string_arg s (\<lambda>c. if xs = [] then Some (YString []) else map_option YString (merge_loop c 0 [] xs)))"

text \<open>The four searches for a character of a set differ in the search and its condition.\<close>

definition char_search ::
  "slib \<Rightarrow> ((char \<Rightarrow> bool) \<Rightarrow> string \<Rightarrow> nat option) \<Rightarrow> ((nat \<Rightarrow> bool) \<Rightarrow> nat list \<Rightarrow> nat option) \<Rightarrow> bool \<Rightarrow> string \<Rightarrow> string \<Rightarrow> 'c ycp" where
  "char_search L search wsearch neg s t =
     pos_value (if isAscii s \<and> isAscii t then search (\<lambda>c. (c \<in> set t) \<noteq> neg) s
                else wsearch (\<lambda>c. (c \<in> set (lib_utf82wchar L t)) \<noteq> neg) (lib_utf82wchar L s))"

definition s_findfirstnotof :: "slib \<Rightarrow> 'c ycp \<Rightarrow> 'c ycp \<Rightarrow> 'c ycp option" where
  "s_findfirstnotof L a b = string_args a b (\<lambda>s t.
     if s = [] then Some (YInteger 0) else Some (char_search L first_index first_index True s t))"

definition s_findfirstof :: "slib \<Rightarrow> 'c ycp \<Rightarrow> 'c ycp \<Rightarrow> 'c ycp option" where
  "s_findfirstof L a b = string_args a b (\<lambda>s t. Some (char_search L first_index first_index False s t))"

definition s_findlastof :: "slib \<Rightarrow> 'c ycp \<Rightarrow> 'c ycp \<Rightarrow> 'c ycp option" where
  "s_findlastof L a b = string_args a b (\<lambda>s t. Some (char_search L last_index last_index False s t))"

definition s_findlastnotof :: "slib \<Rightarrow> 'c ycp \<Rightarrow> 'c ycp \<Rightarrow> 'c ycp option" where
  "s_findlastnotof L a b = string_args a b (\<lambda>s t. Some (char_search L last_index last_index True s t))"

section \<open>Regular expressions\<close>

record reg_ret =
  result_str :: string
  match_str :: "string list"
  match_nb :: nat
  reg_error :: bool
  reg_solved :: bool

text \<open>
  The replacement text: \<open>pend\<close> is what stands between \<^verbatim>\<open>done\<close> and \<^verbatim>\<open>bspos\<close>.  A backslash before a digit from one to nine is
  replaced, any other stays.
\<close>

fun subst_loop :: "string list \<Rightarrow> string \<Rightarrow> string \<Rightarrow> string \<Rightarrow> string" where
  "subst_loop ms res pend [] = res @ pend"
| "subst_loop ms res pend (c # cs) =
     (if c = BSLASH
      then case cs of
        [] \<Rightarrow> res @ pend @ [c]
      | d # ds \<Rightarrow>
          if 49 \<le> ccode d \<and> ccode d \<le> 57 then subst_loop ms (res @ pend @ ms ! (ccode d - 48)) [] ds
          else subst_loop ms res (pend @ [c]) (d # ds)
      else subst_loop ms res (pend @ [c]) cs)"

definition match_text :: "string \<Rightarrow> int \<times> int \<Rightarrow> string" where
  "match_text input m = (if 0 \<le> fst m then take (nat (snd m - fst m)) (drop (nat (fst m)) input) else [])"

text \<open>
  \<^verbatim>\<open>match_str\<close> has ten elements, but the test for too many subexpressions lets ten subexpressions pass, and
  the match of the tenth is written behind the end.
\<close>

definition solve_regular_expression :: "slib \<Rightarrow> string \<Rightarrow> string \<Rightarrow> string \<Rightarrow> reg_ret option" where
  "solve_regular_expression L input pattern result =
     (let failed = \<lparr>result_str = [], match_str = replicate 10 [], match_nb = 0, reg_error = True, reg_solved = False\<rparr> in
      case lib_regcomp L pattern of
        Inl err \<Rightarrow> Some failed
      | Inr (nsub, exec) \<Rightarrow>
          if 10 < nsub then Some failed
          else (case exec input of
            None \<Rightarrow> Some (failed\<lparr>reg_error := False\<rparr>)
          | Some ms \<Rightarrow>
              if nsub = 10 then None
              else let texts = map (match_text input) (take (nsub + 1) ms) @ replicate (10 - (nsub + 1)) [] in
                   Some \<lparr>result_str = subst_loop texts [] [] result, match_str = texts, match_nb = nsub,
                          reg_error = False, reg_solved = True\<rparr>))"

definition s_regexpmatch :: "slib \<Rightarrow> 'c ycp \<Rightarrow> 'c ycp \<Rightarrow> 'c ycp option" where
  "s_regexpmatch L i p = string_args i p (\<lambda>s t.
     map_option (\<lambda>r. if reg_error r then YNull else YBoolean (reg_solved r)) (solve_regular_expression L (c_str s) (c_str t) []))"

text \<open>\<^verbatim>\<open>regexppos\<close> searches the input for the text that matched.\<close>

definition s_regexppos :: "slib \<Rightarrow> 'c ycp \<Rightarrow> 'c ycp \<Rightarrow> 'c ycp option" where
  "s_regexppos L i p = string_args i p (\<lambda>s t.
     map_option (\<lambda>r. if reg_error r then YNull
         else if reg_solved r
         then YList [YInteger (case find_sub (match_str r ! 0) s of None \<Rightarrow> - 1 | Some k \<Rightarrow> of_nat k),
                     YInteger (of_nat (length (match_str r ! 0)))]
         else YList []) (solve_regular_expression L (c_str s) (c_str t) []))"

definition s_regexpsub :: "slib \<Rightarrow> 'c ycp \<Rightarrow> 'c ycp \<Rightarrow> 'c ycp \<Rightarrow> 'c ycp option" where
  "s_regexpsub L i p m =
     (if isNull i \<or> isNull p \<or> isNull m then Some YNull
      else case (i, p, m) of
        (YString s, YString t, YString u) \<Rightarrow>
          map_option (\<lambda>r. if reg_error r then YNull
              else if reg_solved r then YString (c_str (result_str r)) else YNull)
            (solve_regular_expression L (c_str s) (c_str t) (c_str u))
      | _ \<Rightarrow> None)"

definition s_regexptokenize :: "slib \<Rightarrow> 'c ycp \<Rightarrow> 'c ycp \<Rightarrow> 'c ycp option" where
  "s_regexptokenize L i p = string_args i p (\<lambda>s t.
     map_option (\<lambda>r. if reg_error r then YNull
         else YList (if reg_solved r then map (\<lambda>k. YString (match_str r ! k)) [1..<match_nb r + 1] else []))
       (solve_regular_expression L (c_str s) (c_str t) []))"

definition s_tostring :: "'c printers \<Rightarrow> 'c ycp \<Rightarrow> 'c ycp option" where
  "s_tostring pr v = Some (case v of YNull \<Rightarrow> YNull | YString s \<Rightarrow> YString s | _ \<Rightarrow> YString (toString pr v))"

section \<open>Properties of the string builtins\<close>

lemma erase_step:
  assumes "first_index p (drop pos ss) = Some k" "q = pos + k"
    "n = (case first_index (\<lambda>c. \<not> p c) (drop q ss) of None \<Rightarrow> length ss - q | Some j \<Rightarrow> j)"
  shows "\<forall>x \<in> set (take n (drop q ss)). p x" "\<forall>x \<in> set (take k (drop pos ss)). \<not> p x" "q < length ss"
proof -
  have k: "k < length (drop pos ss)" "\<forall>j < k. \<not> p (drop pos ss ! j)"
    using first_index_Some [OF assms(1)] by blast+
  then show "\<forall>x \<in> set (take k (drop pos ss)). \<not> p x" by (auto simp: in_set_conv_nth)
  show "q < length ss" using k(1) assms(2) by simp
  show "\<forall>x \<in> set (take n (drop q ss)). p x"
  proof (cases "first_index (\<lambda>c. \<not> p c) (drop q ss)")
    case None
    then show ?thesis by (auto simp: first_index_None dest: in_set_takeD)
  next
    case (Some j)
    then show ?thesis using first_index_Some [OF Some] assms(3) by (auto simp: in_set_conv_nth)
  qed
qed

lemma erase_loop_filter:
  "\<forall>x \<in> set (take pos ss). \<not> p x \<Longrightarrow> erase_loop p pos ss = filter (\<lambda>x. \<not> p x) ss"
proof (induction p pos ss rule: erase_loop.induct)
  case (1 p pos ss)
  show ?case
  proof (cases "first_index p (drop pos ss)")
    case None
    then have "\<forall>x \<in> set (drop pos ss). \<not> p x" by (simp add: first_index_None)
    with "1.prems" have "filter (\<lambda>x. \<not> p x) (take pos ss @ drop pos ss) = take pos ss @ drop pos ss"
      unfolding filter_append by (metis filter_True)
    with None show ?thesis by (simp add: erase_loop.simps [of p pos ss])
  next
    case (Some k)
    define q where "q = pos + k"
    define n where "n = (case first_index (\<lambda>c. \<not> p c) (drop q ss) of None \<Rightarrow> length ss - q | Some j \<Rightarrow> j)"
    note step = erase_step [OF Some q_def n_def]
    have "take q ss = take pos ss @ take k (drop pos ss)" by (simp add: q_def take_add)
    with "1.prems" step(2) have clean: "\<forall>x \<in> set (take q ss). \<not> p x" by auto
    have "erase_loop p pos ss = erase_loop p q (take q ss @ drop (q + n) ss)"
      by (simp add: erase_loop.simps [of p pos ss] Some q_def [symmetric] n_def [symmetric] Let_def)
    also have "\<dots> = filter (\<lambda>x. \<not> p x) (take q ss @ drop (q + n) ss)"
      using "1.IH" [OF Some q_def n_def] clean step(3) by simp
    also have "\<dots> = filter (\<lambda>x. \<not> p x) (take q ss @ take n (drop q ss) @ drop (q + n) ss)"
      using step(1) by (simp add: filter_empty_conv)
    also have "take q ss @ take n (drop q ss) @ drop (q + n) ss = ss"
      by (metis append_take_drop_id drop_drop add.commute)
    finally show ?thesis .
  qed
qed

text \<open>
  On ASCII strings the erasing loops of \<^verbatim>\<open>deletechars\<close> and \<^verbatim>\<open>filterchars\<close> end and keep exactly the characters that are
  not, or that are, in the second string, in their order.
\<close>

theorem char_filters:
  assumes "isAscii s" "isAscii r"
  shows "s_removechars L (YString s) (YString r) = Some (YString (filter (\<lambda>c. c \<notin> set r) s) :: 'c ycp) \<and>
    s_filterchars L (YString s) (YString r) = Some (YString (filter (\<lambda>c. c \<in> set r) s) :: 'c ycp)"
  using assms by (simp add: s_removechars_def s_filterchars_def string_args_def erase_loop_filter)

theorem char_filters_witness:
  "\<forall>L. s_removechars L (YString ''abcd'') (YString ''db'') = Some (YString ''ac'' :: unit ycp)"
proof -
  have "isAscii ''abcd''" "isAscii ''db''" by (simp_all add: isAscii_def)
  from char_filters [OF this, where ?'c = unit] show ?thesis by simp
qed

lemma takeWhile_split: "d \<in> set s \<Longrightarrow> s = takeWhile (\<lambda>c. c \<noteq> d) s @ d # drop (Suc (length (takeWhile (\<lambda>c. c \<noteq> d) s))) s"
  by (induction s) auto

lemma split_loop_join:
  "\<exists>p ps. split_loop [d] s = p # ps \<and> s = p @ concat (map (\<lambda>t. d # t) ps)"
proof (induction "[d]" s rule: split_loop.induct)
  case (1 s)
  show ?case
  proof (cases "\<forall>c \<in> set s. c \<notin> set [d]")
    case True
    then show ?thesis by (subst split_loop.simps) simp
  next
    case False
    define piece where "piece = takeWhile (\<lambda>c. c \<noteq> d) s"
    define rest where "rest = drop (length piece + 1) s"
    from False have "d \<in> set s" by auto
    then have s: "s = piece @ d # rest" using takeWhile_split [of d s] by (simp add: piece_def rest_def)
    have eq: "split_loop [d] s = (if rest = [] then [piece, []] else piece # split_loop [d] rest)"
      unfolding split_loop.simps [of "[d]" s] using \<open>d \<in> set s\<close> by (auto simp: piece_def rest_def Let_def)
    have IH: "rest \<noteq> [] \<Longrightarrow> \<exists>p ps. split_loop [d] rest = p # ps \<and> rest = p @ concat (map (\<lambda>t. d # t) ps)"
      by (rule 1 [OF False]) (simp_all add: piece_def rest_def)
    show ?thesis
    proof (cases "rest = []")
      case True
      with s show ?thesis using eq by (intro exI [of _ piece] exI [of _ "[[]]"]) simp
    next
      case False
      then obtain p ps where "split_loop [d] rest = p # ps" "rest = p @ concat (map (\<lambda>t. d # t) ps)"
        using IH by blast
      with s False show ?thesis
        using eq by (intro exI [of _ piece] exI [of _ "p # ps"]) simp
    qed
  qed
qed

lemma merge_loop_tail: "0 < i \<Longrightarrow> merge_loop c i ret (map YString ps) = Some (ret @ concat (map (\<lambda>t. c @ t) ps))"
  by (induction ps arbitrary: i ret) auto

text \<open>
  \<^verbatim>\<open>mergestring\<close> puts together what \<^verbatim>\<open>splitstring\<close> took apart at one delimiter.
\<close>

theorem split_merge:
  assumes "s \<noteq> []"
  shows "\<exists>ps. l_splitstring (YString s) (YString [d]) = Some (YList (map YString ps)) \<and>
    s_mergestring (YList (map YString ps)) (YString [d]) = Some (YString s :: 'c ycp)"
proof -
  obtain p ps where p: "split_loop [d] s = p # ps" "s = p @ concat (map (\<lambda>t. d # t) ps)"
    using split_loop_join by blast
  then have "merge_loop [d] 0 [] (map YString (p # ps) :: 'c ycp list) = Some s"
    by (simp add: merge_loop_tail)
  then have "s_mergestring (YList (map YString (p # ps))) (YString [d]) = Some (YString s :: 'c ycp)"
    by (simp add: s_mergestring_def list_arg_def string_arg_def)
  with p(1) assms show ?thesis by (intro exI [of _ "p # ps"]) (simp add: l_splitstring_def)
qed

theorem split_merge_witness:
  "\<exists>ps. l_splitstring (YString ''/abc//d'') (YString ''/'') = Some (YList (map YString ps)) \<and>
     s_mergestring (YList (map YString ps)) (YString ''/'') = Some (YString ''/abc//d'' :: unit ycp)"
  using split_merge [of "''/abc//d''" "CHR ''/''"] by simp

text \<open>
  A separator is put before the first string when a value that is no string precedes it:
  \<^verbatim>\<open>mergestring ([1, "a", 3], ".")\<close> is \<^verbatim>\<open>".a"\<close>.
\<close>

theorem mergestring_leading_separator:
  "s_mergestring (YList [YInteger 1, YString ''a'', YInteger 3]) (YString ''.'') = Some (YString ''.a'')"
  by (simp add: s_mergestring_def list_arg_def string_arg_def)

lemma find_sub_Some:
  "find_sub t s = Some i \<Longrightarrow> i + length t \<le> length s \<and> take (length t) (drop i s) = t \<and> (\<forall>j < i. take (length t) (drop j s) \<noteq> t)"
proof (induction s arbitrary: i)
  case (Cons x s)
  show ?case
  proof (cases "take (length t) (x # s) = t")
    case True
    with Cons.prems show ?thesis by (auto dest: arg_cong [where f = length])
  next
    case False
    with Cons.prems obtain k where "find_sub t s = Some k" "i = Suc k" by auto
    with Cons.IH [of k] False show ?thesis by (auto simp: less_Suc_eq_0_disj)
  qed
qed (auto split: if_splits)

lemma all_le_Suc: "(\<forall>j \<le> Suc n. P j) \<longleftrightarrow> P 0 \<and> (\<forall>j \<le> n. P (Suc j))"
  by (metis Suc_le_mono le0 not0_implies_Suc)

lemma find_sub_None: "find_sub t s = None \<longleftrightarrow> (\<forall>j \<le> length s. take (length t) (drop j s) \<noteq> t)"
  by (induction s) (auto simp: all_le_Suc)

text \<open>
  \<^verbatim>\<open>search\<close> finds the first place where the second ASCII string stands in the first, \<^verbatim>\<open>substring\<close> from there on gives
  it back, and without such a place \<^verbatim>\<open>search\<close> gives nil, \<^verbatim>\<open>find\<close> minus one and \<^verbatim>\<open>issubstring\<close> false.
\<close>

theorem search_substring:
  assumes "isAscii s" "isAscii t" "length s < 2 ^ 63"
  shows "(\<exists>i. i + length t \<le> length s \<and> (\<forall>j < i. take (length t) (drop j s) \<noteq> t) \<and>
        s_search L (YString s) (YString t) = Some (YInteger (of_nat i) :: 'c ycp) \<and>
        s_find L (YString s) (YString t) = Some (YInteger (of_nat i)) \<and>
        s_issubstring (YString s) (YString t) = Some (YBoolean True) \<and>
        s_substring2 L (YString s) (YInteger (of_nat i)) (YInteger (of_nat (length t))) = Some (YString t)) \<or>
    (\<forall>j \<le> length s. take (length t) (drop j s) \<noteq> t) \<and> s_search L (YString s) (YString t) = Some (YVoid :: 'c ycp) \<and>
        s_find L (YString s) (YString t) = Some (YInteger (- 1)) \<and>
        s_issubstring (YString s) (YString t) = Some (YBoolean False)"
proof (cases "find_sub t s")
  case None
  then have "\<forall>j \<le> length s. take (length t) (drop j s) \<noteq> t" by (simp only: find_sub_None)
  with None assms show ?thesis
    by (intro disjI2) (simp add: s_search_def s_find_def s_issubstring_def string_args_def pos_value_def)
next
  case (Some i)
  note i = find_sub_Some [OF Some]
  have "unat (of_nat i :: int64) = i" "unat (of_nat (length t) :: int64) = length t"
    using i assms(3) by (simp_all add: unat_of_nat)
  with assms Some i show ?thesis
    by (intro disjI1 exI [of _ i])
      (simp add: s_search_def s_find_def s_issubstring_def s_substring2_def string_args_def pos_value_def)
qed

theorem search_substring_witness:
  "\<forall>L. \<exists>i. s_search L (YString ''xaby'') (YString ''ab'') = Some (YInteger (of_nat i) :: unit ycp) \<and>
     s_substring2 L (YString ''xaby'') (YInteger (of_nat i)) (YInteger 2) = Some (YString ''ab'' :: unit ycp)"
proof
  fix L
  have a: "isAscii ''xaby''" "isAscii ''ab''" by (simp_all add: isAscii_def)
  have "take 2 (drop 1 ''xaby'') = ''ab''" by simp
  then show "\<exists>i. s_search L (YString ''xaby'') (YString ''ab'') = Some (YInteger (of_nat i) :: unit ycp) \<and>
     s_substring2 L (YString ''xaby'') (YInteger (of_nat i)) (YInteger 2) = Some (YString ''ab'' :: unit ycp)"
    using search_substring [OF a, of L, where ?'c = unit] by (auto dest: spec [of _ "1 :: nat"])
qed

lemma show_hex_digits: "\<forall>c \<in> set (show_hex n). base_digit 16 c \<and> c \<noteq> NUL" "show_hex n \<noteq> []" "digits_val 16 (show_hex n) = n"
proof -
  have d: "base_digit 16 (hex_digit k)" "hex_digit k \<noteq> NUL" "digit_val (hex_digit k) = k" if "k < 16" for k
  proof -
    have "ccode (hex_digit k) = (if k < 10 then 48 + k else 87 + k)" using that by (simp add: hex_digit_def)
    then show "base_digit 16 (hex_digit k)" "hex_digit k \<noteq> NUL" "digit_val (hex_digit k) = k"
      using that by (auto split: if_splits simp: base_digit_def is_xdigit_def is_digit_def is_upper_def digit_val_def)
  qed
  show "show_hex n \<noteq> []" by (subst show_hex.simps) simp
  have "(\<forall>c \<in> set (show_hex n). base_digit 16 c \<and> c \<noteq> NUL) \<and> digits_val 16 (show_hex n) = n"
  proof (induction n rule: show_hex.induct)
    case (1 n)
    then show ?case
    proof (cases "n < 16")
      case True
      with d show ?thesis by (subst (1 2) show_hex.simps) (simp add: digits_val_def)
    next
      case False
      with 1 d [of "n mod 16"] show ?thesis by (subst (1 2) show_hex.simps) auto
    qed
  qed
  then show "\<forall>c \<in> set (show_hex n). base_digit 16 c \<and> c \<noteq> NUL" "digits_val 16 (show_hex n) = n" by blast+
qed

lemma length_show_hex: "n < 16 ^ k \<Longrightarrow> 0 < k \<Longrightarrow> length (show_hex n) \<le> k"
proof (induction k arbitrary: n)
  case (Suc k)
  then show ?case
  proof (cases "n < 16")
    case False
    with Suc have "n div 16 < 16 ^ k" "0 < k" by (auto simp: less_mult_imp_div_less mult.commute intro: Nat.gr0I)
    with Suc.IH [of "n div 16"] False show ?thesis by (subst show_hex.simps) simp
  qed (subst show_hex.simps, simp)
qed simp

text \<open>
  \<^verbatim>\<open>tointeger\<close> reads back what \<^verbatim>\<open>tohexstring\<close> printed, for every 64 bit integer.
\<close>

theorem hex_roundtrip:
  "\<exists>s. s_tohexstring1 (YInteger i) = Some (YString s) \<and> i_tointeger1 (YString s) = Some (YInteger i :: 'c ycp)"
proof -
  let ?h = "show_hex (unat i)"
  have u: "unat i < 2 ^ 64" using unsigned_less [of i, where ?'a = nat] by simp
  then have "unat i < 16 ^ 16" by simp
  then have "length ?h \<le> 16" by (rule length_show_hex) simp
  then have take: "take 64 ?h = ?h" by simp
  have tw: "takeWhile (base_digit 16) ?h = ?h"
    by (rule takeWhile_eq_all_conv [THEN iffD2]) (use show_hex_digits(1) in blast)
  have "nul_free ?h" using show_hex_digits(1) by (auto simp: nul_free_def)
  moreover have "\<not> is_space CHR ''0''" by (simp add: is_space_def)
  moreover have "clamp_unsigned (int (unat i)) = i"
    using uint_lt2p [of i] by (simp add: clamp_unsigned_def)
  ultimately show ?thesis
    by (simp add: s_tohexstring1_def i_tointeger1_def integer_of_string_def scan_number_def take_sign_def show_hex_digits tw take Let_def)
qed

lemma solve_plain:
  assumes "lib_regcomp L pattern = Inr (0, exec)" "exec input = Some [(int b, int e)]" "b \<le> e" "e \<le> length input"
  shows "\<exists>r. solve_regular_expression L input pattern [] = Some r \<and> \<not> reg_error r \<and> reg_solved r \<and>
    match_str r ! 0 = take (e - b) (drop b input)"
  using assms by (simp add: solve_regular_expression_def match_text_def Let_def nat_diff_distrib)

text \<open>
  \<^verbatim>\<open>regexppos\<close> reports the first place where the text that matched stands in the input, which need not be where
  \<^verbatim>\<open>regexec\<close> found the match; the length is right.
\<close>

theorem regexppos_first_occurrence:
  assumes "lib_regcomp L t = Inr (0, exec)" "exec s = Some [(int b, int e)]" "b \<le> e" "e \<le> length s"
    and "nul_free s" "nul_free t"
  shows "\<exists>k \<le> b. s_regexppos L (YString s) (YString t) = Some (YList [YInteger (of_nat k), YInteger (of_nat (e - b))]) \<and>
    (\<forall>j < k. take (e - b) (drop j s) \<noteq> take (e - b) (drop b s)) \<and> take (e - b) (drop k s) = take (e - b) (drop b s)"
proof -
  let ?m = "take (e - b) (drop b s)"
  have len: "length ?m = e - b" using assms(3,4) by simp
  obtain r where r: "solve_regular_expression L s t [] = Some r" "\<not> reg_error r" "reg_solved r" "match_str r ! 0 = ?m"
    using solve_plain [OF assms(1-4)] by blast
  have "b \<le> length s" "take (length ?m) (drop b s) = ?m" using assms(3,4) len by simp_all
  then have "find_sub ?m s \<noteq> None" unfolding find_sub_None by blast
  then obtain k where k: "find_sub ?m s = Some k" by blast
  then have "\<not> b < k" "\<forall>j < k. take (e - b) (drop j s) \<noteq> ?m" "take (e - b) (drop k s) = ?m"
    using find_sub_Some [OF k] len by auto
  with r k len assms(5,6) show ?thesis
    by (intro exI [of _ k]) (simp add: s_regexppos_def string_args_def)
qed

theorem regexppos_first_occurrence_witness:
  "\<exists>L. s_regexppos L (YString ''bab'') (YString ''b$'') = Some (YList [YInteger 0, YInteger 1] :: unit ycp)"
proof -
  define L where "L = \<lparr>lib_utf82wchar = \<lambda>_. [], lib_wchar2utf8 = \<lambda>_. [],
    lib_regcomp = \<lambda>_. Inr (0, \<lambda>s. if s = ''bab'' then Some [(2, 3)] else None)\<rparr>"
  have "\<exists>k \<le> 2. s_regexppos L (YString ''bab'') (YString ''b$'') = Some (YList [YInteger (of_nat k), YInteger (of_nat (3 - 2))] :: unit ycp) \<and>
    (\<forall>j < k. take (3 - 2) (drop j ''bab'') \<noteq> take (3 - 2) (drop 2 ''bab'')) \<and> take (3 - 2) (drop k ''bab'') = take (3 - 2) (drop 2 ''bab'')"
    by (rule regexppos_first_occurrence [where exec = "\<lambda>s. if s = ''bab'' then Some [(2, 3)] else None"]) (simp_all add: L_def)
  then obtain k where k: "s_regexppos L (YString ''bab'') (YString ''b$'') = Some (YList [YInteger (of_nat k), YInteger 1] :: unit ycp)"
    "\<forall>j < k. take 1 (drop j ''bab'') \<noteq> ''b''" by auto
  have "k = 0" using k(2) by (cases k) auto
  with k(1) show ?thesis by auto
qed

text \<open>With ten subexpressions the match of the last one is written behind the array.\<close>

lemma tenth_subexpression_overflows:
  assumes "lib_regcomp L (c_str t) = Inr (10, exec)" "exec (c_str s) \<noteq> None"
  shows "s_regexpmatch L (YString s) (YString t) = None"
  using assms by (auto simp: s_regexpmatch_def string_args_def solve_regular_expression_def)

end
