(* ===== verification/Builtins.thy ===== *)
theory Builtins
  imports Builtin_String
begin

text \<open>
  The table of the builtin functions, one group for each file whose \<^verbatim>\<open>declarations\<close> array registers them: the pointer in
  a declaration (\<^const>\<open>d_ptr\<close>) is a position in it.  The table fulfils the contract \<open>builtin_interface\<close> of the
  interpreter.
\<close>

section \<open>Calls by number of arguments\<close>

text \<open>\<^verbatim>\<open>YEBuiltin\<close> casts the pointer by the number of parameters of the declared type.\<close>

type_synonym bfun = "evaluator \<Rightarrow> yvalue list \<Rightarrow> yvalue eval"

definition call1 :: "(evaluator \<Rightarrow> yvalue \<Rightarrow> yvalue eval) \<Rightarrow> bfun" where
  "call1 f ev args = (case args of [a] \<Rightarrow> f ev a | _ \<Rightarrow> eundef)"

definition call2 :: "(evaluator \<Rightarrow> yvalue \<Rightarrow> yvalue \<Rightarrow> yvalue eval) \<Rightarrow> bfun" where
  "call2 f ev args = (case args of [a, b] \<Rightarrow> f ev a b | _ \<Rightarrow> eundef)"

definition call3 :: "(evaluator \<Rightarrow> yvalue \<Rightarrow> yvalue \<Rightarrow> yvalue \<Rightarrow> yvalue eval) \<Rightarrow> bfun" where
  "call3 f ev args = (case args of [a, b, c] \<Rightarrow> f ev a b c | _ \<Rightarrow> eundef)"

definition call4 :: "(evaluator \<Rightarrow> yvalue \<Rightarrow> yvalue \<Rightarrow> yvalue \<Rightarrow> yvalue \<Rightarrow> yvalue eval) \<Rightarrow> bfun" where
  "call4 f ev args = (case args of [a, b, c, d] \<Rightarrow> f ev a b c d | _ \<Rightarrow> eundef)"

definition call5 :: "(evaluator \<Rightarrow> yvalue \<Rightarrow> yvalue \<Rightarrow> yvalue \<Rightarrow> yvalue \<Rightarrow> yvalue \<Rightarrow> yvalue eval) \<Rightarrow> bfun" where
  "call5 f ev args = (case args of [a, b, c, d, e] \<Rightarrow> f ev a b c d e | _ \<Rightarrow> eundef)"

definition pure1 :: "(yvalue \<Rightarrow> yvalue option) \<Rightarrow> bfun" where
  "pure1 f = call1 (\<lambda>ev a. esome (f a))"

definition pure2 :: "(yvalue \<Rightarrow> yvalue \<Rightarrow> yvalue option) \<Rightarrow> bfun" where
  "pure2 f = call2 (\<lambda>ev a b. esome (f a b))"

definition pure3 :: "(yvalue \<Rightarrow> yvalue \<Rightarrow> yvalue \<Rightarrow> yvalue option) \<Rightarrow> bfun" where
  "pure3 f = call3 (\<lambda>ev a b c. esome (f a b c))"

section \<open>The table\<close>

record blib = slib +
  lib_coll :: "string \<Rightarrow> string \<Rightarrow> int"
  lib_printers :: "ycode printers"
  lib_fadd :: "double \<Rightarrow> double \<Rightarrow> double"
  lib_fsub :: "double \<Rightarrow> double \<Rightarrow> double"
  lib_fmul :: "double \<Rightarrow> double \<Rightarrow> double"
  lib_fdiv :: "double \<Rightarrow> double \<Rightarrow> double"
  lib_fpow :: "double \<Rightarrow> double \<Rightarrow> double"
  lib_floor :: "double \<Rightarrow> double"
  lib_ceil :: "double \<Rightarrow> double"
  lib_trunc :: "double \<Rightarrow> double"
  lib_strtod :: "string \<Rightarrow> double"

definition boolean_builtins :: "(string \<times> bfun) list" where
  "boolean_builtins = [(''b_lnot'', pure1 b_lnot), (''b_or'', call2 b_or), (''b_and'', call2 b_and)]"

definition integer_builtins :: "(string \<times> bfun) list" where
  "integer_builtins =
     [(''i_plus'', pure2 i_plus), (''i_minus'', pure2 i_minus), (''i_neg'', pure1 i_neg), (''i_mult'', pure2 i_mult),
      (''i_div'', pure2 i_div), (''i_mod'', pure2 i_mod), (''i_and'', pure2 i_and), (''i_xor'', pure2 i_xor),
      (''i_or'', pure2 i_or), (''i_left'', pure2 i_left), (''i_right'', pure2 i_right), (''i_bnot'', pure1 i_bnot),
      (''i_tointeger1'', pure1 i_tointeger1)]"

definition float_builtins :: "blib \<Rightarrow> (string \<times> bfun) list" where
  "float_builtins L =
     [(''f_plus'', pure2 (f_binary (lib_fadd L))), (''f_minus'', pure2 (f_binary (lib_fsub L))), (''f_neg'', pure1 f_neg),
      (''f_mult'', pure2 (f_binary (lib_fmul L))), (''f_div'', pure2 (f_div (lib_fdiv L))),
      (''f_tofloat'', pure1 (f_tofloat (lib_strtod L))), (''f_abs'', pure1 f_abs), (''f_floor'', pure1 (f_unary (lib_floor L))),
      (''f_ceil'', pure1 (f_unary (lib_ceil L))), (''f_trunc'', pure1 (f_unary (lib_trunc L))),
      (''f_pow'', pure2 (f_binary (lib_fpow L)))]"

definition list_builtins :: "program \<Rightarrow> blib \<Rightarrow> (string \<times> bfun) list" where
  "list_builtins P L =
     [(''l_find'', call3 (l_find P)), (''l_prepend'', pure2 l_prepend), (''l_contains'', pure2 l_contains),
      (''l_setcontains'', pure2 l_setcontains), (''l_unionlist'', pure2 l_unionlist), (''l_mergelist'', pure2 l_mergelist),
      (''l_sublist1'', pure2 l_sublist1), (''l_sublist2'', pure3 l_sublist2), (''l_filter'', call3 (l_filter P)),
      (''l_maplist'', call3 (l_maplist P)), (''l_listmap'', call3 (l_listmap P)), (''l_flatten'', pure1 l_flatten),
      (''l_toset'', pure1 l_toset), (''l_sortlist'', pure1 l_sortlist), (''l_lsortlist'', pure1 (l_lsortlist (lib_coll L))),
      (''l_splitstring'', pure2 l_splitstring), (''l_changelist'', pure2 l_changelist), (''l_add'', pure2 l_add),
      (''l_isempty'', pure1 l_isempty), (''l_size'', pure1 l_size), (''l_remove'', pure2 l_remove), (''l_select'', pure3 l_select),
      (''l_foreach'', call3 (l_foreach P)), (''l_tolist'', pure1 l_tolist), (''l_reduce1'', call4 (l_reduce1 P)),
      (''l_reduce2'', call5 (l_reduce2 P)), (''l_swaplist'', pure3 l_swaplist)]"

definition map_builtins :: "program \<Rightarrow> (string \<times> bfun) list" where
  "map_builtins P =
     [(''m_haskey'', pure2 m_haskey), (''m_mapmap'', call4 (m_mapmap P)), (''m_maplist'', call4 (m_maplist P)),
      (''m_filter'', call4 (m_filter P)), (''m_unionmap'', pure2 m_unionmap), (''m_addmap'', pure3 m_addmap),
      (''m_changemap'', pure3 m_changemap), (''m_isempty'', pure1 m_isempty), (''m_size'', pure1 m_size),
      (''m_foreach'', call4 (m_foreach P)), (''m_tomap'', pure1 m_tomap), (''m_remove'', pure2 m_remove)]"

definition multiset_builtins_table :: "(string \<times> bfun) list" where
  "multiset_builtins_table =
     [(''ms_includes'', pure2 ms_includes), (''ms_difference'', pure2 ms_difference),
      (''ms_symmetric_difference'', pure2 ms_symmetric_difference), (''ms_intersection'', pure2 ms_intersection),
      (''ms_union'', pure2 ms_union), (''ms_merge'', pure2 ms_merge)]"

definition path_term_builtins :: "(string \<times> bfun) list" where
  "path_term_builtins =
     [(''p_plus'', pure2 p_plus), (''p_add'', pure2 p_add), (''p_size'', pure1 p_size), (''p_topath'', pure1 p_topath),
      (''t_add'', pure2 t_add), (''t_size'', pure1 t_size), (''t_symbolof'', pure1 t_symbolof), (''t_select'', pure3 t_select),
      (''t_toterm1'', pure1 t_toterm1), (''t_toterm2'', pure2 t_toterm2), (''t_remove'', pure2 t_remove),
      (''t_argsof'', pure1 t_argsof), (''s_tosymbol'', pure1 s_tosymbol), (''b_tobyteblock'', pure1 b_tobyteblock),
      (''b_size'', pure1 b_size)]"

definition string_builtins :: "blib \<Rightarrow> (string \<times> bfun) list" where
  "string_builtins L =
     (let S = slib.truncate L in
     [(''s_plus1'', pure2 s_plus1), (''s_plus2'', pure2 s_plus2), (''s_plus3'', pure2 s_plus3), (''s_plus4'', pure2 s_plus4),
      (''s_issubstring'', pure2 s_issubstring), (''s_tostring'', pure1 (s_tostring (lib_printers L))),
      (''s_tohexstring1'', pure1 s_tohexstring1), (''s_tohexstring2'', pure2 s_tohexstring2), (''s_isempty'', pure1 s_isempty),
      (''s_size'', pure1 (s_size S)), (''s_find'', pure2 (s_find S)), (''s_search'', pure2 (s_search S)),
      (''s_tolower'', pure1 s_tolower), (''s_toupper'', pure1 s_toupper), (''s_toascii'', pure1 s_toascii),
      (''s_removechars'', pure2 (s_removechars S)), (''s_filterchars'', pure2 (s_filterchars S)),
      (''s_findfirstnotof'', pure2 (s_findfirstnotof S)), (''s_findfirstof'', pure2 (s_findfirstof S)),
      (''s_findlastof'', pure2 (s_findlastof S)), (''s_findlastnotof'', pure2 (s_findlastnotof S)),
      (''s_substring1'', pure2 (s_substring1 S)), (''s_substring2'', pure3 (s_substring2 S)),
      (''s_mergestring'', pure2 s_mergestring), (''s_regexpmatch'', pure2 (s_regexpmatch S)),
      (''s_regexppos'', pure2 (s_regexppos S)), (''s_regexpsub'', pure3 (s_regexpsub S)),
      (''s_regexptokenize'', pure2 (s_regexptokenize S))])"

definition misc_builtins :: "blib \<Rightarrow> (string \<times> bfun) list" where
  "misc_builtins L =
     [(''Eval'', call1 Eval), (''s_sformat'', pure2 (s_sformat (lib_printers L))), (''Y2Log'', pure2 (Y2Log (lib_printers L))),
      (''Y2FLog'', pure3 (Y2FLog (lib_printers L)))]"

definition builtin_table :: "program \<Rightarrow> blib \<Rightarrow> (string \<times> bfun) list" where
  "builtin_table P L =
     boolean_builtins @ integer_builtins @ float_builtins L @ list_builtins P L @ map_builtins P @ multiset_builtins_table @
     path_term_builtins @ string_builtins L @ misc_builtins L"

definition builtin_call :: "program \<Rightarrow> blib \<Rightarrow> nat \<Rightarrow> bfun" where
  "builtin_call P L f ev args =
     (let t = builtin_table P L in if f < length t then snd (t ! f) ev args else eundef)"

section \<open>The contract of the interpreter\<close>

definition mono_fun :: "bfun \<Rightarrow> bool" where
  "mono_fun f \<longleftrightarrow> (\<forall>ev ev' args. (\<forall>c cse. eval_le (ev c cse) (ev' c cse)) \<longrightarrow> eval_le (f ev args) (f ev' args))"

definition keeping_fun :: "program \<Rightarrow> bfun \<Rightarrow> bool" where
  "keeping_fun P f \<longleftrightarrow> (\<forall>ev args. (\<forall>c cse. keeps P (ev c cse)) \<longrightarrow> keeps P (f ev args))"

lemma call1_interface:
  "(\<And>ev ev' a. (\<And>c cse. eval_le (ev c cse) (ev' c cse)) \<Longrightarrow> eval_le (f ev a) (f ev' a)) \<Longrightarrow> mono_fun (call1 f)"
  "(\<And>ev a. (\<And>c cse. keeps P (ev c cse)) \<Longrightarrow> keeps P (f ev a)) \<Longrightarrow> keeping_fun P (call1 f)"
  by (auto simp: mono_fun_def keeping_fun_def call1_def intro!: le_intros keeps_intros)

lemma call2_interface:
  "(\<And>ev ev' a b. (\<And>c cse. eval_le (ev c cse) (ev' c cse)) \<Longrightarrow> eval_le (f ev a b) (f ev' a b)) \<Longrightarrow> mono_fun (call2 f)"
  "(\<And>ev a b. (\<And>c cse. keeps P (ev c cse)) \<Longrightarrow> keeps P (f ev a b)) \<Longrightarrow> keeping_fun P (call2 f)"
  by (auto simp: mono_fun_def keeping_fun_def call2_def intro!: le_intros keeps_intros)

lemma call3_interface:
  "(\<And>ev ev' a b c. (\<And>c cse. eval_le (ev c cse) (ev' c cse)) \<Longrightarrow> eval_le (f ev a b c) (f ev' a b c)) \<Longrightarrow> mono_fun (call3 f)"
  "(\<And>ev a b c. (\<And>c cse. keeps P (ev c cse)) \<Longrightarrow> keeps P (f ev a b c)) \<Longrightarrow> keeping_fun P (call3 f)"
  by (auto simp: mono_fun_def keeping_fun_def call3_def intro!: le_intros keeps_intros)

lemma call4_interface:
  "(\<And>ev ev' a b c d. (\<And>c cse. eval_le (ev c cse) (ev' c cse)) \<Longrightarrow> eval_le (f ev a b c d) (f ev' a b c d)) \<Longrightarrow> mono_fun (call4 f)"
  "(\<And>ev a b c d. (\<And>c cse. keeps P (ev c cse)) \<Longrightarrow> keeps P (f ev a b c d)) \<Longrightarrow> keeping_fun P (call4 f)"
  by (auto simp: mono_fun_def keeping_fun_def call4_def intro!: le_intros keeps_intros)

lemma call5_interface:
  "(\<And>ev ev' a b c d e. (\<And>c cse. eval_le (ev c cse) (ev' c cse)) \<Longrightarrow> eval_le (f ev a b c d e) (f ev' a b c d e)) \<Longrightarrow> mono_fun (call5 f)"
  "(\<And>ev a b c d e. (\<And>c cse. keeps P (ev c cse)) \<Longrightarrow> keeps P (f ev a b c d e)) \<Longrightarrow> keeping_fun P (call5 f)"
  by (auto simp: mono_fun_def keeping_fun_def call5_def intro!: le_intros keeps_intros)

lemma pure_interface [simp]:
  "mono_fun (pure1 f)" "mono_fun (pure2 g)" "mono_fun (pure3 h)"
  "keeping_fun P (pure1 f)" "keeping_fun P (pure2 g)" "keeping_fun P (pure3 h)"
  unfolding pure1_def pure2_def pure3_def
  by (rule call1_interface call2_interface call3_interface; simp)+

lemmas call_mono = call1_interface(1) call2_interface(1) call3_interface(1) call4_interface(1) call5_interface(1)
lemmas call_keeping = call1_interface(2) call2_interface(2) call3_interface(2) call4_interface(2) call5_interface(2)

lemmas list_calls = l_find_def l_filter_def l_maplist_def l_listmap_def l_foreach_def l_reduce1_def l_reduce2_def
  l_reduce_helper_def m_filter_def m_mapmap_def m_maplist_def m_foreach_def

lemma evaluating_calls_mono [simp]:
  "mono_fun (call2 b_or)" "mono_fun (call2 b_and)" "mono_fun (call1 Eval)" "mono_fun (call3 (l_find P))"
  "mono_fun (call3 (l_filter P))" "mono_fun (call3 (l_maplist P))" "mono_fun (call3 (l_listmap P))"
  "mono_fun (call3 (l_foreach P))" "mono_fun (call4 (l_reduce1 P))" "mono_fun (call5 (l_reduce2 P))"
  "mono_fun (call4 (m_filter P))" "mono_fun (call4 (m_mapmap P))" "mono_fun (call4 (m_maplist P))" "mono_fun (call4 (m_foreach P))"
  unfolding list_calls by (auto intro!: call_mono le_intros)

lemma evaluating_calls_keep [simp]:
  "keeping_fun Q (call2 b_or)" "keeping_fun Q (call2 b_and)" "keeping_fun Q (call1 Eval)" "keeping_fun Q (call3 (l_find P))"
  "keeping_fun Q (call3 (l_filter P))" "keeping_fun Q (call3 (l_maplist P))" "keeping_fun Q (call3 (l_listmap P))"
  "keeping_fun Q (call3 (l_foreach P))" "keeping_fun Q (call4 (l_reduce1 P))" "keeping_fun Q (call5 (l_reduce2 P))"
  "keeping_fun Q (call4 (m_filter P))" "keeping_fun Q (call4 (m_mapmap P))" "keeping_fun Q (call4 (m_maplist P))"
  "keeping_fun Q (call4 (m_foreach P))"
  unfolding list_calls by (auto intro!: call_keeping keeps_intros)

lemmas table_defs = builtin_table_def boolean_builtins_def integer_builtins_def float_builtins_def list_builtins_def
  map_builtins_def multiset_builtins_table_def path_term_builtins_def string_builtins_def misc_builtins_def Let_def

lemma table_interface: "list_all (\<lambda>p. mono_fun (snd p) \<and> keeping_fun Q (snd p)) (builtin_table P L)"
  by (simp add: table_defs)

interpretation ycp_builtins: builtin_interface P "builtin_call P L" for P L
proof
  fix ev ev' :: evaluator and f args
  have table: "f < length (builtin_table P L) \<Longrightarrow>
      mono_fun (snd (builtin_table P L ! f)) \<and> keeping_fun P (snd (builtin_table P L ! f))"
    using table_interface [of P P L] by (simp add: list_all_length)
  show "eval_le (builtin_call P L f ev args) (builtin_call P L f ev' args)" if "\<And>c cse. eval_le (ev c cse) (ev' c cse)"
    using that table by (auto simp: builtin_call_def Let_def mono_fun_def)
  show "keeps P (builtin_call P L f ev args)" if "\<And>c cse. keeps P (ev c cse)"
    using that table by (auto simp: builtin_call_def Let_def keeping_fun_def)
qed

text \<open>A program without symbols and an environment without other components, for concrete runs.\<close>

definition plain_program :: program where
  "plain_program = \<lparr>p_category = \<lambda>_. c_variable, p_type = \<lambda>_. Unspec, p_function = \<lambda>_. \<lparr>f_params = [], f_definition = None\<rparr>,
     p_blocktype = \<lambda>_. Unspec, p_symbols = \<lambda>_. [], p_callee = \<lambda>_. None, p_module = \<lambda>_. YSBreak, p_constructor = \<lambda>_. None,
     p_recursion_limit = 1000\<rparr>"

definition plain_env :: "program \<Rightarrow> blib \<Rightarrow> yenv" where
  "plain_env P L = \<lparr>e_prog = P, e_builtin = builtin_call P L, e_handler = \<lambda>h f n args. eundef, e_foreign = \<lambda>k args. eundef,
     e_flex_rounds = 100, e_dgettext = \<lambda>d s. s, e_dngettext = \<lambda>d s p n. if n = 1 then s else p\<rparr>"

end
