(* ===== verification/Declarations.thy ===== *)
theory Declarations
  imports YCode
begin

text \<open>
  The registry of builtin functions (\<^verbatim>\<open>StaticDeclaration.cc\<close>): the lookup of a declaration by its name, which may be
  qualified with a name space, and by the types of the actual parameters.  A declaration has the names of the name
  spaces it is declared in, the innermost first; the table of the registry gives, for a name, the chain of overloaded
  declarations or the table of a name space.
\<close>

record sdecl = declaration_t +
  d_space :: "string list"

datatype rentry = RDecls "sdecl list" | RSpace "string \<Rightarrow> sdecl list"

type_synonym registry = "string \<Rightarrow> rentry option"

section \<open>Lookup by name\<close>

text \<open>\<^verbatim>\<open>strstr (name, "::")\<close>: what is before and what is behind the first separator.\<close>

fun split_space :: "string \<Rightarrow> (string \<times> string) option" where
  "split_space (c # d # s) =
     (if c = CHR '':'' \<and> d = CHR '':'' then Some ([], s)
      else map_option (map_prod (Cons c) id) (split_space (d # s)))"
| "split_space s = None"

definition decls_of :: "rentry option \<Rightarrow> sdecl list" where
  "decls_of r = (case r of Some (RDecls ds) \<Rightarrow> ds | _ \<Rightarrow> [])"

definition find_name :: "registry \<Rightarrow> string \<Rightarrow> sdecl list" where
  "find_name reg name =
     (case split_space name of
        None \<Rightarrow> decls_of (reg name)
      | Some (space, rest) \<Rightarrow> (case reg space of Some (RSpace tab) \<Rightarrow> tab rest | r \<Rightarrow> decls_of r))"

text \<open>The name \<^verbatim>\<open>writeDeclaration\<close> builds.\<close>

fun add_spaces :: "string list \<Rightarrow> string \<Rightarrow> string" where
  "add_spaces [] n = n"
| "add_spaces (s # ss) n = add_spaces ss (s @ ''::'' @ n)"

definition full_name :: "sdecl \<Rightarrow> string" where
  "full_name d = add_spaces (d_space d) (d_name d)"

section \<open>Lookup by type\<close>

definition wild :: "ytype \<Rightarrow> bool" where
  "wild t \<longleftrightarrow> m_kind t = WildcardT"

text \<open>
  The loop over the actual parameters: whether it failed, the position it stopped at, and whether the declared type
  seen last is a wildcard.
\<close>

fun check_args :: "ytype list \<Rightarrow> ytype list \<Rightarrow> nat \<Rightarrow> bool \<Rightarrow> (bool \<times> nat \<times> bool) option" where
  "check_args dps [] i w = Some (False, i, w)"
| "check_args dps (a # as) i w =
     (if length dps \<le> i then Some (True, i, w)
      else case match a (dps ! i) of
        None \<Rightarrow> None
      | Some m \<Rightarrow>
          if m \<noteq> 0 then Some (True, i, wild (dps ! i))
          else if wild (dps ! i) then Some (False, i, True)
          else check_args dps as (Suc i) False)"

definition params :: "(ytype list \<times> tquals) option \<Rightarrow> ytype list" where
  "params a = (case a of None \<Rightarrow> [] | Some (ts, q) \<Rightarrow> ts)"

definition decl_matches :: "ytype \<Rightarrow> ytype \<Rightarrow> bool \<Rightarrow> bool option" where
  "decl_matches dtype atype partial =
     (case (dtype, atype) of
        (FunctionType dr da dq, FunctionType ar aa aq) \<Rightarrow>
          let dps = params da; aps = params aa in
          if aps = [] then Some (dps = [] \<or> wild (dps ! 0))
          else (case check_args dps aps 0 False of
                  None \<Rightarrow> None
                | Some (error, i, w) \<Rightarrow>
                    Some (\<not> error \<and> \<not> (\<not> partial \<and> i \<noteq> length dps \<and> \<not> w \<and> \<not> wild (fun_parameterType da i))))
      | _ \<Rightarrow> Some False)"

text \<open>Along the chain of overloaded declarations; the first one that matches.\<close>

fun find_overloaded :: "sdecl list \<Rightarrow> ytype \<Rightarrow> bool \<Rightarrow> sdecl option option" where
  "find_overloaded [] t partial = Some None"
| "find_overloaded (d # ds) t partial =
     (case decl_matches (d_type d) t partial of
        None \<Rightarrow> None
      | Some found \<Rightarrow> if found then Some (Some d) else find_overloaded ds t partial)"

definition findDeclaration :: "registry \<Rightarrow> string \<Rightarrow> ytype \<Rightarrow> bool \<Rightarrow> sdecl option option" where
  "findDeclaration reg name t partial = find_overloaded (find_name reg name) t partial"

section \<open>What the lookup finds\<close>

text \<open>The part of a name before the first separator holds none, and the parts make up the name.\<close>

lemma split_space_append: "split_space name = Some (a, b) \<Longrightarrow> name = a @ ''::'' @ b"
  by (induction name arbitrary: a rule: split_space.induct) (auto split: if_splits)

lemma split_space_None: "CHR '':'' \<notin> set s \<Longrightarrow> split_space s = None"
  by (induction s rule: split_space.induct) auto

lemma split_space_first: "CHR '':'' \<notin> set a \<Longrightarrow> split_space (a @ ''::'' @ b) = Some (a, b)"
proof (induction a)
  case (Cons c a)
  then show ?case by (cases a) auto
qed simp

lemma find_name_plain: "CHR '':'' \<notin> set name \<Longrightarrow> find_name reg name = decls_of (reg name)"
  by (simp add: find_name_def split_space_None)

lemma find_name_space:
  "CHR '':'' \<notin> set space \<Longrightarrow> reg space = Some (RSpace tab) \<Longrightarrow> find_name reg (space @ ''::'' @ name) = tab name"
  unfolding find_name_def by (subst split_space_first) simp_all

end
