(* ===== verification/Code_Write.thy ===== *)
theory Code_Write
  imports Declarations
begin

text \<open>
  Writing programs as byte code: \<^verbatim>\<open>toStream\<close> of all code classes (\<^verbatim>\<open>YCode.cc\<close>, \<^verbatim>\<open>YExpression.cc\<close>, \<^verbatim>\<open>YStatement.cc\<close>,
  \<^verbatim>\<open>YBlock.cc\<close>), of symbol entries (\<^verbatim>\<open>YSymbolEntry.cc\<close>), table entries (\<^verbatim>\<open>SymbolTable.cc\<close>) and points (\<^verbatim>\<open>Point.cc\<close>), and the
  stack of name spaces (\<^verbatim>\<open>Bytecode.cc\<close>).

  In contrast to \<open>ycode\<close> the code here carries everything that is written: line numbers of statements, names,
  symbols, tables and points of blocks, declarations of functions.  \<open>SNull\<close> is a null pointer.  A symbol entry is named
  by its name space and position, or, for a symbol of an imported module, by its name.  Blocks are numbers.  The
  declaration of a function is part of the table entry for a global function of a module, and of the statement that
  defines it for any other function; \<open>SSFunction\<close> has \<^const>\<open>None\<close> in the first case.
\<close>

section \<open>Code\<close>

datatype sref = Local nat nat | Ext nat string

record sym =
  y_global :: bool
  y_position :: uint32
  y_name :: string
  y_category :: uint32
  y_type :: ytype

abbreviation cat_module :: uint32 where "cat_module \<equiv> 2"
abbreviation cat_variable :: uint32 where "cat_variable \<equiv> 3"
abbreviation cat_function :: uint32 where "cat_function \<equiv> 5"
abbreviation cat_builtin :: uint32 where "cat_builtin \<equiv> 6"

datatype point = Point "sref option" uint32 "point option"

datatype (plugins only: size code) scode =
    SNull
  | SConst nat "unit ycp"
  | SEntryConst "sref option"
  | SLocale "string option" string
  | SFunction scode
  | SEVariable "sref option"
  | SEReference "sref option"
  | SETerm "string option" "scode list"
  | SECompare scode char scode
  | SELocale "string option" "string option" scode string
  | SEList "scode list"
  | SEMap "(scode \<times> scode) list"
  | SEPropagate ytype ytype scode
  | SEUnary sdecl scode
  | SEBinary sdecl scode scode
  | SETriple scode scode scode
  | SEIs ytype scode
  | SEReturn scode
  | SEBracket scode scode scode ytype
  | SEBuiltin ytype sdecl scode "scode list"
  | SEFunction sref "scode list"
  | SEFunctionPointer "sref option" "scode list"
  | SBlock nat string uint32 "sym list" "(sref \<times> point \<times> scode option) list" point "scode list"
  | SSBreak uint32
  | SSContinue uint32
  | SSExpression uint32 scode
  | SSBlock uint32 scode
  | SSReturn uint32 "scode option"
  | SSFunction uint32 sref "scode option" "scode option"
  | SSTypedef uint32 string ytype
  | SSAssign uint32 "sref option" scode
  | SSVariable uint32 sref scode
  | SSBracket uint32 "sref option" scode scode
  | SSIf uint32 scode "scode option" "scode option"
  | SSWhile uint32 scode "scode option"
  | SSRepeat uint32 "scode option" scode
  | SSDo uint32 "scode option" scode
  | SSTextdomain uint32 string
  | SSInclude uint32 string bool
  | SSImport uint32 string nat
  | SSFilename uint32 string
  | SSSwitch uint32 scode "(unit ycp \<times> uint32) list" uint32 scode

text \<open>The kinds, as the numbers that are written.\<close>

fun skind :: "scode \<Rightarrow> nat" where
  "skind SNull = 0" | "skind (SConst k v) = k" | "skind (SEntryConst e) = 12" | "skind (SLocale s d) = 14"
| "skind (SFunction d) = 15" | "skind (SEPropagate f t c) = 16" | "skind (SEUnary d c) = 17" | "skind (SEBinary d a b) = 18"
| "skind (SETriple c a b) = 19" | "skind (SECompare l p r) = 20" | "skind (SELocale s p c d) = 21" | "skind (SEList cs) = 22"
| "skind (SEMap ps) = 23" | "skind (SETerm n cs) = 24" | "skind (SEIs t c) = 25" | "skind (SEBracket v a d t) = 26"
| "skind (SBlock b n k ys ts p ss) = 27" | "skind (SEReturn c) = 28" | "skind (SEVariable e) = 29" | "skind (SEBuiltin t d b cs) = 30"
| "skind (SEFunction e cs) = 31" | "skind (SEReference e) = 32" | "skind (SEFunctionPointer e cs) = 33"
| "skind (SSTypedef l n t) = 35" | "skind (SSVariable l e c) = 36" | "skind (SSFunction l e p d) = 37" | "skind (SSAssign l e c) = 38"
| "skind (SSBracket l e a c) = 39" | "skind (SSIf l c a b) = 40" | "skind (SSWhile l c b) = 41" | "skind (SSDo l b c) = 42"
| "skind (SSRepeat l b c) = 43" | "skind (SSExpression l c) = 44" | "skind (SSReturn l c) = 45" | "skind (SSBreak l) = 46"
| "skind (SSContinue l) = 47" | "skind (SSTextdomain l d) = 48" | "skind (SSInclude l f s) = 49" | "skind (SSFilename l f) = 50"
| "skind (SSImport l m n) = 51" | "skind (SSBlock l b) = 52" | "skind (SSSwitch l c cs d b) = 53"

definition isStatement :: "scode \<Rightarrow> bool" where
  "isStatement c \<longleftrightarrow> 35 \<le> skind c"

abbreviation b_module_kind :: uint32 where "b_module_kind \<equiv> 1"
abbreviation b_definition_kind :: uint32 where "b_definition_kind \<equiv> 4"

section \<open>The stack of name spaces\<close>

record frame_t =
  f_ns :: nat
  f_syms :: "sym list"
  f_table :: bool
  f_with_xrefs :: bool

text \<open>
  \<open>n_array\<close> holds the elements up to the nesting level; \<open>n_xrefs\<close> the stack of external references of the table of a name
  space, \<open>n_codes\<close> the code of the entries of functions.
\<close>

record nstack =
  n_array :: "frame_t list"
  n_tare :: nat
  n_xrefs :: "nat \<Rightarrow> string list list"
  n_codes :: "sref \<Rightarrow> scode option"

definition empty_stack :: nstack where
  "empty_stack = \<lparr>n_array = [], n_tare = 0, n_xrefs = (\<lambda>_. []), n_codes = (\<lambda>_. None)\<rparr>"

fun index_of :: "nat \<Rightarrow> frame_t list \<Rightarrow> nat option" where
  "index_of ns [] = None"
| "index_of ns (f # fs) = (if f_ns f = ns then Some 0 else map_option Suc (index_of ns fs))"

text \<open>Levels are kept in an \<^verbatim>\<open>int\<close>; a name space on a level beyond its range is not found.\<close>

definition namespaceId :: "nstack \<Rightarrow> nat \<Rightarrow> nat option" where
  "namespaceId N ns =
     (case index_of ns (drop (n_tare N) (n_array N)) of
        None \<Rightarrow> None
      | Some i \<Rightarrow> if int i < 2 ^ 31 then Some i else None)"

definition namespacePtr :: "nstack \<Rightarrow> int \<Rightarrow> frame_t option" where
  "namespacePtr N i =
     (if i < 0 then None
      else let k = nat i + n_tare N in if k < length (n_array N) then Some (n_array N ! k) else None)"

definition open_xrefs :: "nstack \<Rightarrow> nat \<Rightarrow> nstack" where
  "open_xrefs N ns = N\<lparr>n_xrefs := (n_xrefs N)(ns := [] # n_xrefs N ns)\<rparr>"

definition close_xrefs :: "nstack \<Rightarrow> nat \<Rightarrow> nstack" where
  "close_xrefs N ns = N\<lparr>n_xrefs := (n_xrefs N)(ns := tl (n_xrefs N ns))\<rparr>"

definition pushNamespace :: "nat \<Rightarrow> sym list \<Rightarrow> bool \<Rightarrow> bool \<Rightarrow> nstack \<Rightarrow> nstack" where
  "pushNamespace ns syms tab with_xrefs N =
     (let N1 = N\<lparr>n_array := n_array N @ [\<lparr>f_ns = ns, f_syms = syms, f_table = tab, f_with_xrefs = with_xrefs\<rparr>]\<rparr> in
      if with_xrefs then open_xrefs N1 ns else N1)"

definition drop_top :: "nstack \<Rightarrow> nstack" where
  "drop_top N =
     (let f = last (n_array N); N1 = (if f_with_xrefs f then close_xrefs N (f_ns f) else N) in
      N1\<lparr>n_array := butlast (n_array N1)\<rparr>)"

definition popNamespace :: "nat \<Rightarrow> nstack \<Rightarrow> nstack" where
  "popNamespace ns N =
     (if length (n_array N) \<le> n_tare N then N
      else if f_ns (last (n_array N)) \<noteq> ns then N
      else drop_top N)"

lemma array_drop_top [simp]: "n_array (drop_top N) = butlast (n_array N)" "n_tare (drop_top N) = n_tare N"
  by (simp_all add: drop_top_def Let_def close_xrefs_def)

function popUptoNamespace :: "nat \<Rightarrow> nstack \<Rightarrow> nstack" where
  "popUptoNamespace ns N =
     (if length (n_array N) \<le> n_tare N then N
      else if f_ns (last (n_array N)) = ns then drop_top N
      else popUptoNamespace ns (drop_top N))"
  by pat_completeness auto

termination by (relation "measure (\<lambda>(ns, N). length (n_array N))") auto

declare popUptoNamespace.simps [simp del]

definition tareStack :: "nstack \<Rightarrow> int \<times> nstack" where
  "tareStack N = (int (length (n_array N)) - int (n_tare N), N\<lparr>n_tare := length (n_array N)\<rparr>)"

definition untareStack :: "nstack \<Rightarrow> int \<Rightarrow> nstack" where
  "untareStack N tare = N\<lparr>n_tare := nat (int (n_tare N) - tare)\<rparr>"

section \<open>Writing\<close>

text \<open>
  A writer takes the stream and the stack; \<^const>\<open>None\<close> is an abort (an entry whose name space is not on the stack) or the use
  of a null pointer.
\<close>

record wst =
  w_str :: ostream
  w_ns :: nstack

type_synonym wr = "wst \<Rightarrow> wst option"

definition wskip :: wr where "wskip = Some"
definition wfail :: wr where "wfail = (\<lambda>W. None)"

definition wseq :: "wr \<Rightarrow> wr \<Rightarrow> wr" where
  "wseq f g = (\<lambda>W. case f W of None \<Rightarrow> None | Some W1 \<Rightarrow> g W1)"

fun wlist :: "wr list \<Rightarrow> wr" where
  "wlist [] = wskip"
| "wlist (f # fs) = wseq f (wlist fs)"

definition wput :: "(ostream \<Rightarrow> ostream) \<Rightarrow> wr" where
  "wput f = (\<lambda>W. Some (W\<lparr>w_str := f (w_str W)\<rparr>))"

definition wns :: "(nstack \<Rightarrow> nstack) \<Rightarrow> wr" where
  "wns f = (\<lambda>W. Some (W\<lparr>w_ns := f (w_ns W)\<rparr>))"

definition wwith :: "(nstack \<Rightarrow> 'a option) \<Rightarrow> ('a \<Rightarrow> wr) \<Rightarrow> wr" where
  "wwith look f = (\<lambda>W. case look (w_ns W) of None \<Rightarrow> None | Some a \<Rightarrow> f a W)"

definition wtag :: "nat \<Rightarrow> wr" where "wtag k = wput (\<lambda>str. os_put str (char_of k))"
definition wbool :: "bool \<Rightarrow> wr" where "wbool b = wput (\<lambda>str. writeBool str b)"
definition wint :: "uint32 \<Rightarrow> wr" where "wint v = wput (\<lambda>str. writeInt32 str v)"
definition wcharp :: "string \<Rightarrow> wr" where "wcharp s = wput (\<lambda>str. writeCharp str s)"
definition wstring :: "string \<Rightarrow> wr" where "wstring s = wput (\<lambda>str. writeString str s)"
definition wtype :: "ytype \<Rightarrow> wr" where "wtype t = wput (\<lambda>str. writeType str t)"

definition wopt :: "('a \<Rightarrow> wr) \<Rightarrow> 'a option \<Rightarrow> wr" where
  "wopt f x = (case x of None \<Rightarrow> wfail | Some a \<Rightarrow> f a)"

definition wmaybe :: "wr option \<Rightarrow> wr" where
  "wmaybe x = (case x of None \<Rightarrow> wbool False | Some f \<Rightarrow> wseq (wbool True) f)"

text \<open>
  What a writer knows of the imported modules: the symbols that are used, in the order \<^verbatim>\<open>SymbolTable::writeUsage\<close> numbers
  them, and the symbol entries by name.
\<close>

record wenv =
  e_codec :: "unit codec"
  e_used :: "nat \<Rightarrow> (string \<times> ytype) list option"
  e_ext :: "nat \<Rightarrow> string \<Rightarrow> sym option"

definition name_index :: "string \<Rightarrow> (string \<times> ytype) list \<Rightarrow> nat option" where
  "name_index s us = (if s \<in> fst ` set us then Some (length (takeWhile (\<lambda>u. fst u \<noteq> s) us)) else None)"

text \<open>The frame of a name space and its place on the stack; the symbol entry for a reference.\<close>

definition frame_of :: "nstack \<Rightarrow> nat \<Rightarrow> (nat \<times> frame_t) option" where
  "frame_of N ns = (case namespaceId N ns of None \<Rightarrow> None | Some i \<Rightarrow> Some (i, n_array N ! (n_tare N + i)))"

definition entry_sym :: "(nat \<Rightarrow> string \<Rightarrow> sym option) \<Rightarrow> nstack \<Rightarrow> sref \<Rightarrow> sym option" where
  "entry_sym ext N e =
     (case e of
        Local ns i \<Rightarrow> (case frame_of N ns of
            None \<Rightarrow> None
          | Some (k, f) \<Rightarrow> if i < length (f_syms f) then Some (f_syms f ! i) else None)
      | Ext ns s \<Rightarrow> ext ns s)"

definition writeEntry :: "wenv \<Rightarrow> sref \<Rightarrow> wr" where
  "writeEntry E e =
     wwith (\<lambda>N. frame_of N (case e of Local ns i \<Rightarrow> ns | Ext ns s \<Rightarrow> ns)) (\<lambda>(k, f).
       wseq (wint (of_nat k))
         (case e of
            Local ns i \<Rightarrow> if i < length (f_syms f) then wint (y_position (f_syms f ! i)) else wfail
          | Ext ns s \<Rightarrow>
              (case e_used E ns of
                 None \<Rightarrow> wfail
               | Some us \<Rightarrow> wopt (\<lambda>j. wint (- of_nat j - 1)) (name_index s us))))"

fun writePoint :: "wenv \<Rightarrow> point \<Rightarrow> wr" where
  "writePoint E (Point e l p) = wlist [wopt (writeEntry E) e, wint l, wmaybe (map_option (writePoint E) p)]"

definition writeSym :: "sym \<Rightarrow> wr" where
  "writeSym y = wlist [wbool (y_global y), wint (y_position y), wcharp (y_name y), wint (y_category y), wtype (y_type y)]"

definition writeDeclaration :: "sdecl \<Rightarrow> wr" where
  "writeDeclaration d = wseq (wcharp (full_name d)) (wtype (d_type d))"

text \<open>\<^verbatim>\<open>YSymbolEntry::setCode\<close>.  The code an entry has is kept with the stack.\<close>

definition setCode :: "(nat \<Rightarrow> string \<Rightarrow> sym option) \<Rightarrow> sref \<Rightarrow> scode \<Rightarrow> nstack \<Rightarrow> nstack" where
  "setCode ext e c N =
     (case entry_sym ext N e of
        None \<Rightarrow> N
      | Some y \<Rightarrow>
          if y_category y = cat_builtin \<or> y_category y = cat_module then N
          else N\<lparr>n_codes := (n_codes N)(e := Some c)\<rparr>)"

text \<open>
  A table entry, with the prototype of a global function.
\<close>

definition wset :: "wenv \<Rightarrow> sref \<Rightarrow> scode \<Rightarrow> wr" where
  "wset E e c = wwith (\<lambda>N. entry_sym (e_ext E) N e) (\<lambda>_. wns (setCode (e_ext E) e c))"

definition write_code :: "wenv \<Rightarrow> sref \<Rightarrow> scode option \<Rightarrow> wr option \<Rightarrow> wr" where
  "write_code E e c w = wopt (\<lambda>c. wopt (\<lambda>w. wseq w (wset E e c)) w) c"

definition write_tentry :: "wenv \<Rightarrow> sref \<times> point \<times> scode option \<Rightarrow> wr option \<Rightarrow> wr" where
  "write_tentry E t w =
     (case t of (e, p, c) \<Rightarrow>
        wlist [writeEntry E e, writePoint E p,
          wwith (\<lambda>N. entry_sym (e_ext E) N e) (\<lambda>y.
            if y_category y = cat_function \<and> y_global y then write_code E e c w
            else if c = None then wskip else wfail)])"

text \<open>\<^verbatim>\<open>YFunction::toStream\<close>, \<^verbatim>\<open>toStreamDefinition\<close> and \<^verbatim>\<open>YSFunction::toStream\<close>; the declaration is a block or null.\<close>

definition as_block :: "scode \<Rightarrow> (nat \<times> sym list \<times> bool) option" where
  "as_block c = (case c of SBlock b n k ys ts p ss \<Rightarrow> Some (b, ys, k = b_module_kind) | _ \<Rightarrow> None)"

definition need_declaration :: "scode \<Rightarrow> (nat \<times> sym list \<times> bool) option" where
  "need_declaration d = (case as_block d of None \<Rightarrow> None | Some (b, ys, m) \<Rightarrow> if ys = [] then None else Some (b, ys, m))"

definition write_function :: "scode \<Rightarrow> wr \<Rightarrow> wr" where
  "write_function d wd = wseq (wtag 15) (wmaybe (case need_declaration d of None \<Rightarrow> None | Some _ \<Rightarrow> Some wd))"

definition push_block :: "(nat \<times> sym list \<times> bool) option \<Rightarrow> nstack \<Rightarrow> nstack" where
  "push_block x N = (case x of None \<Rightarrow> N | Some (b, ys, m) \<Rightarrow> pushNamespace b ys m False N)"

definition pop_block :: "(nat \<times> sym list \<times> bool) option \<Rightarrow> nstack \<Rightarrow> nstack" where
  "pop_block x N = (case x of None \<Rightarrow> N | Some (b, ys, m) \<Rightarrow> popNamespace b N)"

definition write_definition :: "scode \<Rightarrow> wr option \<Rightarrow> wr" where
  "write_definition d wdef =
     wmaybe (map_option (\<lambda>w. wlist [wns (push_block (need_declaration d)), w, wns (pop_block (need_declaration d))]) wdef)"

definition function_of :: "nstack \<Rightarrow> sref \<Rightarrow> scode option" where
  "function_of N e = (case n_codes N e of Some c \<Rightarrow> (case c of SFunction d \<Rightarrow> Some d | _ \<Rightarrow> None) | None \<Rightarrow> None)"

definition write_sfunction :: "wenv \<Rightarrow> uint32 \<Rightarrow> sref \<Rightarrow> scode option \<Rightarrow> wr option \<Rightarrow> wr option \<Rightarrow> wr" where
  "write_sfunction E l e proto w wdef =
     wlist [wtag 37, wint l, writeEntry E e,
       wwith (\<lambda>N. entry_sym (e_ext E) N e) (\<lambda>y.
         if y_global y then (if proto = None then wskip else wfail)
         else write_code E e proto w),
       wwith (\<lambda>N. function_of N e) (\<lambda>d. write_definition d wdef)]"

definition writeUsage_xrefs :: "wenv \<Rightarrow> nat \<Rightarrow> wr" where
  "writeUsage_xrefs E ns =
     wopt (\<lambda>us. wseq (wint (of_nat (length us))) (wlist (map (\<lambda>u. wseq (wcharp (fst u)) (wtype (snd u))) us))) (e_used E ns)"

text \<open>\<^verbatim>\<open>Bytecode::writeYCodelist\<close>, and the calls.\<close>

definition writeYCodelist :: "wr list \<Rightarrow> wr" where
  "writeYCodelist ws = wseq (wint (of_nat (length ws))) (wlist ws)"

definition write_builtin :: "(nat \<times> sym list \<times> bool) option \<Rightarrow> wr option \<Rightarrow> wr list \<Rightarrow> wr" where
  "write_builtin blk wb ws =
     wlist [wmaybe wb, wns (push_block blk), writeYCodelist ws, wns (pop_block blk)]"

definition write_block ::
  "wenv \<Rightarrow> nat \<Rightarrow> string \<Rightarrow> uint32 \<Rightarrow> sym list \<Rightarrow> wr list \<Rightarrow> point \<Rightarrow> wr list \<Rightarrow> wr" where
  "write_block E b name k ys wtab p wstmts =
     wlist [wtag 27, wns (pushNamespace b ys (k = b_module_kind) False), wstring name, wint k,
       wint (of_nat (length ys)), wlist (map writeSym ys),
       if ys \<noteq> [] \<and> k = b_module_kind then writeYCodelist wtab else wskip,
       writePoint E p, writeYCodelist wstmts, wns (popUptoNamespace b)]"

definition write_case :: "wenv \<Rightarrow> unit ycp \<times> uint32 \<Rightarrow> wr" where
  "write_case E p = wseq (wput (\<lambda>str. writeValue (e_codec E) str (fst p))) (wint (snd p))"

text \<open>
  The classes of expressions and statements, given the writers of their parts; a statement starts with its line number.
\<close>

definition yconst_toStream :: "wenv \<Rightarrow> nat \<Rightarrow> unit ycp \<Rightarrow> wr" where
  "yconst_toStream E k v = wseq (wtag k) (if v = YNull then wbool False else wseq (wbool True) (wput (\<lambda>str. toStream (e_codec E) str v)))"

definition yconst_entry_toStream :: "wenv \<Rightarrow> sref option \<Rightarrow> wr" where
  "yconst_entry_toStream E e = wlist [wtag 12, wbool True, wopt (writeEntry E) e]"

definition ylocale_toStream :: "string option \<Rightarrow> string \<Rightarrow> wr" where
  "ylocale_toStream s d = wlist [wtag 14, wopt wcharp s, wcharp d]"

definition yevariable_toStream :: "wenv \<Rightarrow> sref option \<Rightarrow> wr" where
  "yevariable_toStream E e = wseq (wtag 29) (wopt (writeEntry E) e)"

definition yereference_toStream :: "wenv \<Rightarrow> sref option \<Rightarrow> wr" where
  "yereference_toStream E e = wseq (wtag 32) (wopt (writeEntry E) e)"

definition yeterm_toStream :: "string option \<Rightarrow> wr list \<Rightarrow> wr" where
  "yeterm_toStream n cs = wlist [wtag 24, wopt wcharp n, writeYCodelist cs]"

definition yecompare_toStream :: "wr \<Rightarrow> char \<Rightarrow> wr \<Rightarrow> wr" where
  "yecompare_toStream l p r = wlist [wtag 20, l, wput (\<lambda>str. os_put str p), r]"

definition yelocale_toStream :: "string option \<Rightarrow> string option \<Rightarrow> wr \<Rightarrow> string \<Rightarrow> wr" where
  "yelocale_toStream s p c d = wlist [wtag 21, wopt wcharp s, wopt wcharp p, c, wcharp d]"

definition yelist_toStream :: "wr list \<Rightarrow> wr" where
  "yelist_toStream cs = wseq (wtag 22) (writeYCodelist cs)"

definition yemap_toStream :: "(wr \<times> wr) list \<Rightarrow> wr" where
  "yemap_toStream ps = wseq (wtag 23) (writeYCodelist (map (\<lambda>p. wseq (fst p) (snd p)) ps))"

definition yepropagate_toStream :: "ytype \<Rightarrow> ytype \<Rightarrow> wr \<Rightarrow> wr" where
  "yepropagate_toStream f t c = wlist [wtag 16, wtype f, wtype t, c]"

definition yeunary_toStream :: "sdecl \<Rightarrow> wr \<Rightarrow> wr" where
  "yeunary_toStream d c = wlist [wtag 17, writeDeclaration d, c]"

definition yebinary_toStream :: "sdecl \<Rightarrow> wr \<Rightarrow> wr \<Rightarrow> wr" where
  "yebinary_toStream d a b = wlist [wtag 18, writeDeclaration d, a, b]"

definition yetriple_toStream :: "wr \<Rightarrow> wr \<Rightarrow> wr \<Rightarrow> wr" where
  "yetriple_toStream c a b = wlist [wtag 19, c, a, b]"

definition yeis_toStream :: "ytype \<Rightarrow> wr \<Rightarrow> wr" where
  "yeis_toStream t c = wlist [wtag 25, wtype t, c]"

definition yereturn_toStream :: "wr \<Rightarrow> wr" where
  "yereturn_toStream c = wseq (wtag 28) c"

definition yebracket_toStream :: "wr \<Rightarrow> wr \<Rightarrow> wr \<Rightarrow> ytype \<Rightarrow> wr" where
  "yebracket_toStream v a d t = wlist [wtag 26, v, a, d, wtype t]"

definition yecall_toStream :: "wenv \<Rightarrow> sref \<Rightarrow> wr list \<Rightarrow> wr" where
  "yecall_toStream E e cs = wlist [wtag 31, writeEntry E e, writeYCodelist cs]"

definition yefunctionpointer_toStream :: "wenv \<Rightarrow> sref option \<Rightarrow> wr list \<Rightarrow> wr" where
  "yefunctionpointer_toStream E e cs = wlist [wtag 33, wopt (writeEntry E) e, writeYCodelist cs]"

definition ysbreak_toStream :: "uint32 \<Rightarrow> wr" where
  "ysbreak_toStream l = wseq (wtag 46) (wint l)"

definition yscontinue_toStream :: "uint32 \<Rightarrow> wr" where
  "yscontinue_toStream l = wseq (wtag 47) (wint l)"

definition ysexpression_toStream :: "uint32 \<Rightarrow> wr \<Rightarrow> wr" where
  "ysexpression_toStream l c = wlist [wtag 44, wint l, c]"

definition ysblock_toStream :: "uint32 \<Rightarrow> wr \<Rightarrow> wr" where
  "ysblock_toStream l c = wlist [wtag 52, wint l, c]"

definition ysreturn_toStream :: "uint32 \<Rightarrow> wr option \<Rightarrow> wr" where
  "ysreturn_toStream l c = wlist [wtag 45, wint l, wmaybe c]"

definition ystypedef_toStream :: "uint32 \<Rightarrow> string \<Rightarrow> ytype \<Rightarrow> wr" where
  "ystypedef_toStream l n t = wlist [wtag 35, wint l, wstring n, wtype t]"

definition ysassign_toStream :: "wenv \<Rightarrow> uint32 \<Rightarrow> sref option \<Rightarrow> wr \<Rightarrow> wr" where
  "ysassign_toStream E l e c = wlist [wtag 38, wint l, wopt (writeEntry E) e, c]"

definition ysvariable_toStream :: "wenv \<Rightarrow> uint32 \<Rightarrow> sref \<Rightarrow> scode \<Rightarrow> wr \<Rightarrow> wr" where
  "ysvariable_toStream E l e c w = wlist [wtag 36, wint l, writeEntry E e, w, wset E e c]"

definition ysbracket_toStream :: "wenv \<Rightarrow> uint32 \<Rightarrow> sref option \<Rightarrow> wr \<Rightarrow> wr \<Rightarrow> wr" where
  "ysbracket_toStream E l e a c = wlist [wtag 39, wint l, wopt (writeEntry E) e, a, c]"

definition ysif_toStream :: "uint32 \<Rightarrow> wr \<Rightarrow> wr option \<Rightarrow> wr option \<Rightarrow> wr" where
  "ysif_toStream l c a b = wlist [wtag 40, wint l, c, wmaybe a, wmaybe b]"

definition yswhile_toStream :: "uint32 \<Rightarrow> wr \<Rightarrow> wr option \<Rightarrow> wr" where
  "yswhile_toStream l c b = wlist [wtag 41, wint l, c, wmaybe b]"

definition ysrepeat_toStream :: "uint32 \<Rightarrow> wr option \<Rightarrow> wr \<Rightarrow> wr" where
  "ysrepeat_toStream l b c = wlist [wtag 43, wint l, wmaybe b, c]"

definition ysdo_toStream :: "uint32 \<Rightarrow> wr option \<Rightarrow> wr \<Rightarrow> wr" where
  "ysdo_toStream l b c = wlist [wtag 42, wint l, wmaybe b, c]"

definition ystextdomain_toStream :: "uint32 \<Rightarrow> string \<Rightarrow> wr" where
  "ystextdomain_toStream l d = wlist [wtag 48, wint l, wstring d]"

definition ysinclude_toStream :: "uint32 \<Rightarrow> string \<Rightarrow> bool \<Rightarrow> wr" where
  "ysinclude_toStream l f skipped = wlist [wtag 49, wint l, wstring f, wbool skipped]"

definition ysimport_toStream :: "wenv \<Rightarrow> uint32 \<Rightarrow> string \<Rightarrow> nat \<Rightarrow> wr" where
  "ysimport_toStream E l m ns = wlist [wtag 51, wint l, wstring m, writeUsage_xrefs E ns, wns (pushNamespace ns [] True False)]"

definition ysfilename_toStream :: "uint32 \<Rightarrow> string \<Rightarrow> wr" where
  "ysfilename_toStream l f = wlist [wtag 50, wint l, wstring f]"

definition ysswitch_toStream :: "wenv \<Rightarrow> uint32 \<Rightarrow> wr \<Rightarrow> (unit ycp \<times> uint32) list \<Rightarrow> uint32 \<Rightarrow> wr \<Rightarrow> wr" where
  "ysswitch_toStream E l c cases dflt b = wlist [wtag 53, wint l, c, writeYCodelist (map (write_case E) cases), wint dflt, b]"

primrec swrite :: "wenv \<Rightarrow> scode \<Rightarrow> wr" where
  "swrite E SNull = wfail"
| "swrite E (SConst k v) = yconst_toStream E k v"
| "swrite E (SEntryConst e) = yconst_entry_toStream E e"
| "swrite E (SLocale s d) = ylocale_toStream s d"
| "swrite E (SFunction d) = write_function d (swrite E d)"
| "swrite E (SEVariable e) = yevariable_toStream E e"
| "swrite E (SEReference e) = yereference_toStream E e"
| "swrite E (SETerm n cs) = yeterm_toStream n (map (swrite E) cs)"
| "swrite E (SECompare l p r) = yecompare_toStream (swrite E l) p (swrite E r)"
| "swrite E (SELocale s p c d) = yelocale_toStream s p (swrite E c) d"
| "swrite E (SEList cs) = yelist_toStream (map (swrite E) cs)"
| "swrite E (SEMap ps) = yemap_toStream (map (map_prod (swrite E) (swrite E)) ps)"
| "swrite E (SEPropagate f t c) = yepropagate_toStream f t (swrite E c)"
| "swrite E (SEUnary d c) = yeunary_toStream d (swrite E c)"
| "swrite E (SEBinary d a b) = yebinary_toStream d (swrite E a) (swrite E b)"
| "swrite E (SETriple c a b) = yetriple_toStream (swrite E c) (swrite E a) (swrite E b)"
| "swrite E (SEIs t c) = yeis_toStream t (swrite E c)"
| "swrite E (SEReturn c) = yereturn_toStream (swrite E c)"
| "swrite E (SEBracket v a d t) = yebracket_toStream (swrite E v) (swrite E a) (swrite E d) t"
| "swrite E (SEBuiltin t d b cs) =
     wlist [wtag 30, wtype t, writeDeclaration d,
       (if b = SNull then write_builtin None None (map (swrite E) cs)
        else if as_block b = None then wfail
        else write_builtin (as_block b) (Some (swrite E b)) (map (swrite E) cs))]"
| "swrite E (SEFunction e cs) = yecall_toStream E e (map (swrite E) cs)"
| "swrite E (SEFunctionPointer e cs) = yefunctionpointer_toStream E e (map (swrite E) cs)"
| "swrite E (SBlock b n k ys ts p ss) =
     write_block E b n k ys
       (map2 (write_tentry E) ts (map (snd \<circ> snd) (map (map_prod id (map_prod id (map_option (swrite E)))) ts))) p
       (map (swrite E) ss)"
| "swrite E (SSBreak l) = ysbreak_toStream l"
| "swrite E (SSContinue l) = yscontinue_toStream l"
| "swrite E (SSExpression l c) = ysexpression_toStream l (swrite E c)"
| "swrite E (SSBlock l c) = ysblock_toStream l (swrite E c)"
| "swrite E (SSReturn l c) = ysreturn_toStream l (map_option (swrite E) c)"
| "swrite E (SSFunction l e proto def) = write_sfunction E l e proto (map_option (swrite E) proto) (map_option (swrite E) def)"
| "swrite E (SSTypedef l n t) = ystypedef_toStream l n t"
| "swrite E (SSAssign l e c) = ysassign_toStream E l e (swrite E c)"
| "swrite E (SSVariable l e c) = ysvariable_toStream E l e c (swrite E c)"
| "swrite E (SSBracket l e a c) = ysbracket_toStream E l e (swrite E a) (swrite E c)"
| "swrite E (SSIf l c a b) = ysif_toStream l (swrite E c) (map_option (swrite E) a) (map_option (swrite E) b)"
| "swrite E (SSWhile l c b) = yswhile_toStream l (swrite E c) (map_option (swrite E) b)"
| "swrite E (SSRepeat l b c) = ysrepeat_toStream l (map_option (swrite E) b) (swrite E c)"
| "swrite E (SSDo l b c) = ysdo_toStream l (map_option (swrite E) b) (swrite E c)"
| "swrite E (SSTextdomain l d) = ystextdomain_toStream l d"
| "swrite E (SSInclude l f skipped) = ysinclude_toStream l f skipped"
| "swrite E (SSImport l m ns) = ysimport_toStream E l m ns"
| "swrite E (SSFilename l f) = ysfilename_toStream l f"
| "swrite E (SSSwitch l c cases dflt b) = ysswitch_toStream E l (swrite E c) cases dflt (swrite E b)"

lemmas class_writers =
  yconst_toStream_def yconst_entry_toStream_def ylocale_toStream_def yevariable_toStream_def yereference_toStream_def
  yeterm_toStream_def yecompare_toStream_def yelocale_toStream_def yelist_toStream_def yemap_toStream_def
  yepropagate_toStream_def yeunary_toStream_def yebinary_toStream_def yetriple_toStream_def yeis_toStream_def
  yereturn_toStream_def yebracket_toStream_def yecall_toStream_def yefunctionpointer_toStream_def ysbreak_toStream_def
  yscontinue_toStream_def ysexpression_toStream_def ysblock_toStream_def ysreturn_toStream_def ystypedef_toStream_def
  ysassign_toStream_def ysvariable_toStream_def ysbracket_toStream_def ysif_toStream_def yswhile_toStream_def
  ysrepeat_toStream_def ysdo_toStream_def ystextdomain_toStream_def ysinclude_toStream_def ysimport_toStream_def
  ysfilename_toStream_def ysswitch_toStream_def

lemmas swrite_simps = swrite.simps [unfolded class_writers]

declare swrite.simps [simp del] swrite_simps [simp]

end
