(* ===== verification/Code_Read.thy ===== *)
theory Code_Read
  imports Code_Write
begin

text \<open>
  Reading byte code: \<^verbatim>\<open>Bytecode::readCode\<close> and the stream constructors of all code classes, of symbol entries, table
  entries and points.  The environment variable \<^verbatim>\<open>Y2ALLGLOBAL\<close> is not set; the table a module gets when it has no table
  entries is not represented.
\<close>

section \<open>Reading\<close>

text \<open>
  A reader gives a result, throws \<^verbatim>\<open>Bytecode::Invalid\<close> (\<^const>\<open>None\<close>), or uses a null pointer.  The list \<open>r_new\<close> holds the
  addresses of the blocks that will be created.
\<close>

record rst =
  r_str :: istream
  r_ns :: nstack
  r_new :: "nat list"

type_synonym 'a rd = "rst \<Rightarrow> ('a \<times> rst) option outcome"

text \<open>
  What a reader depends on: the values of uninitialised locals, the readers of doubles and of code values, whether the
  stream has the old version 1.3.2, the registry of builtins, the import of modules, which gives a name space and its
  symbols, and the tables of the modules.
\<close>

record renv =
  x_junk :: junk
  x_codec :: "unit codec"
  x_old :: bool
  x_decls :: registry
  x_import :: "string \<Rightarrow> (nat \<times> sym list) option"
  x_ext :: "nat \<Rightarrow> string \<Rightarrow> sym option"

definition rret :: "'a \<Rightarrow> 'a rd" where "rret v = (\<lambda>R. Ret (Some (v, R)))"
definition rthrow :: "'a rd" where "rthrow = (\<lambda>R. Ret None)"
definition rundef :: "'a rd" where "rundef = (\<lambda>R. Undef)"

definition rbind :: "'a rd \<Rightarrow> ('a \<Rightarrow> 'b rd) \<Rightarrow> 'b rd" where
  "rbind m f = (\<lambda>R. obind (m R) (\<lambda>r. case r of None \<Rightarrow> Ret None | Some (v, R1) \<Rightarrow> f v R1))"

definition rstr :: "(istream \<Rightarrow> 'a \<times> istream) \<Rightarrow> 'a rd" where
  "rstr f = (\<lambda>R. case f (r_str R) of (v, str) \<Rightarrow> Ret (Some (v, R\<lparr>r_str := str\<rparr>)))"

definition rout :: "(istream \<Rightarrow> ('a \<times> istream) outcome) \<Rightarrow> 'a rd" where
  "rout f = (\<lambda>R. obind (f (r_str R)) (\<lambda>(v, str). Ret (Some (v, R\<lparr>r_str := str\<rparr>))))"

definition rns :: "(nstack \<Rightarrow> nstack) \<Rightarrow> unit rd" where
  "rns f = (\<lambda>R. Ret (Some ((), R\<lparr>r_ns := f (r_ns R)\<rparr>)))"

definition rlook :: "(nstack \<Rightarrow> 'a) \<Rightarrow> 'a rd" where
  "rlook f = (\<lambda>R. Ret (Some (f (r_ns R), R)))"

definition rsome :: "'a option \<Rightarrow> 'a rd" where
  "rsome x = (case x of None \<Rightarrow> rundef | Some v \<Rightarrow> rret v)"

definition rgood :: "bool rd" where "rgood = (\<lambda>R. Ret (Some (is_good (r_str R), R)))"

definition rnew :: "nat rd" where
  "rnew = (\<lambda>R. case r_new R of [] \<Rightarrow> Undef | a # as \<Rightarrow> Ret (Some (a, R\<lparr>r_new := as\<rparr>)))"

definition rbool :: "renv \<Rightarrow> bool rd" where "rbool X = rstr (readBool (x_junk X))"
definition rint :: "renv \<Rightarrow> uint32 rd" where "rint X = rstr (readInt32 (x_junk X))"
definition rcharp :: "renv \<Rightarrow> string option rd" where "rcharp X = rstr (readCharp (x_junk X))"
definition rustring :: "renv \<Rightarrow> string rd" where "rustring X = rstr (readUstring (x_junk X))"
definition rstring :: "renv \<Rightarrow> string rd" where "rstring X = rbind (rstr (readString (x_junk X))) (\<lambda>r. rret (snd r))"

abbreviation void_type :: ytype where "void_type \<equiv> PlainType VoidT noq"

text \<open>The nesting of types and values in a stream is less than its length.\<close>

definition rtype :: "renv \<Rightarrow> ytype rd" where
  "rtype X = rout (\<lambda>str. readType (x_junk X) (Suc (left str)) str)"

definition rvalue :: "renv \<Rightarrow> unit ycp rd" where
  "rvalue X = rout (\<lambda>str. readValue (x_codec X) (x_junk X) (Suc (left str)) str)"

definition rpayload :: "renv \<Rightarrow> nat \<Rightarrow> unit ycp rd" where
  "rpayload X t = rout (\<lambda>str. readPayload (x_codec X) (x_junk X) (readValue (x_codec X) (x_junk X) (Suc (left str))) t str)"

fun rtimes :: "nat \<Rightarrow> 'a rd \<Rightarrow> 'a list rd" where
  "rtimes 0 r = rret []"
| "rtimes (Suc n) r = rbind r (\<lambda>v. rbind (rtimes n r) (\<lambda>vs. rret (v # vs)))"

definition rmaybe :: "renv \<Rightarrow> 'a rd \<Rightarrow> 'a option rd" where
  "rmaybe X r = rbind (rbool X) (\<lambda>b. if b then rbind r (\<lambda>v. rret (Some v)) else rret None)"

text \<open>
  \<^verbatim>\<open>Bytecode::readEntry\<close>: a null pointer for a name space or a position that is not there.  A negative position in a name
  space without a table ends the process.
\<close>

definition xref_at :: "string list list \<Rightarrow> nat \<Rightarrow> string option" where
  "xref_at xs k = (case xs of [] \<Rightarrow> None | refs # _ \<Rightarrow> if k < length refs then Some (refs ! k) else None)"

definition entry_at :: "nstack \<Rightarrow> uint32 \<Rightarrow> uint32 \<Rightarrow> sref option option" where
  "entry_at N i position =
     (case namespacePtr N (sint i) of
        None \<Rightarrow> Some None
      | Some f \<Rightarrow>
          if sint position < 0
          then if f_table f
               then Some (map_option (Ext (f_ns f)) (xref_at (n_xrefs N (f_ns f)) (nat (- sint position - 1))))
               else None
          else Some (if unat position < length (f_syms f) then Some (Local (f_ns f) (unat position)) else None))"

definition readEntry :: "renv \<Rightarrow> sref option rd" where
  "readEntry X =
     rbind (rint X) (\<lambda>i. rbind (rint X) (\<lambda>position. rbind (rlook (\<lambda>N. entry_at N i position)) rsome))"

definition readEntry_used :: "renv \<Rightarrow> sref rd" where
  "readEntry_used X = rbind (readEntry X) rsome"

fun readPoint :: "renv \<Rightarrow> nat \<Rightarrow> point rd" where
  "readPoint X 0 = (\<lambda>R. OutOfFuel)"
| "readPoint X (Suc n) =
     rbind (readEntry X) (\<lambda>e. rbind (rint X) (\<lambda>l. rbind (rmaybe X (readPoint X n)) (\<lambda>p. rret (Point e l p))))"

text \<open>
  A symbol entry; the declaration of a builtin, which is looked up again, is not represented.  The name is a null pointer
  when it cannot be read.
\<close>

definition readSym :: "renv \<Rightarrow> sym rd" where
  "readSym X =
     rbind (rbool X) (\<lambda>g. rbind (rint X) (\<lambda>pos. rbind (rcharp X) (\<lambda>name0. rbind (rsome name0) (\<lambda>name.
     rbind (rint X) (\<lambda>cat. rbind (rtype X) (\<lambda>t.
       rret \<lparr>y_global = g, y_position = pos, y_name = name, y_category = cat, y_type = t\<rparr>))))))"

text \<open>\<^verbatim>\<open>readDeclaration\<close>; builtins without a match are invalid byte code.\<close>

definition readDeclaration :: "renv \<Rightarrow> sdecl rd" where
  "readDeclaration X =
     rbind (rcharp X) (\<lambda>name0. rbind (rsome name0) (\<lambda>name. rbind (rtype X) (\<lambda>t.
     rbind (rsome (findDeclaration (x_decls X) name t False)) (\<lambda>r.
       case r of None \<Rightarrow> rthrow | Some d \<Rightarrow> rret d))))"

text \<open>\<^verbatim>\<open>readYCodelist\<close>: whether it succeeded, and the codes it has read.\<close>

fun read_codes :: "nat \<Rightarrow> scode rd \<Rightarrow> (bool \<times> scode list) rd" where
  "read_codes 0 r = rbind rgood (\<lambda>g. rret (g, []))"
| "read_codes (Suc n) r =
     rbind r (\<lambda>c. if c = SNull then rret (False, [])
                  else rbind (read_codes n r) (\<lambda>(g, cs). rret (g, c # cs)))"

definition readYCodelist :: "renv \<Rightarrow> scode rd \<Rightarrow> (bool \<times> scode list) rd" where
  "readYCodelist X r = rbind (rint X) (\<lambda>n. read_codes (unat n) r)"

text \<open>The parameters of a call; \<^const>\<open>None\<close> when one of them cannot be read.\<close>

fun read_params :: "nat \<Rightarrow> scode rd \<Rightarrow> scode list option rd" where
  "read_params 0 r = rret (Some [])"
| "read_params (Suc n) r =
     rbind r (\<lambda>c. if c = SNull then rret None
                  else rbind (read_params n r) (\<lambda>cs. rret (map_option (Cons c) cs)))"

definition block_or_null :: "scode \<Rightarrow> scode" where
  "block_or_null c = (if as_block c = None then SNull else c)"

definition setKind :: "scode \<Rightarrow> scode" where
  "setKind c = (case c of SBlock b n k ys ts p ss \<Rightarrow> SBlock b n b_definition_kind ys ts p ss | _ \<Rightarrow> c)"

text \<open>The constructors of functions, their definitions and the statement that holds them.\<close>

definition read_function :: "renv \<Rightarrow> scode rd \<Rightarrow> scode rd" where
  "read_function X r =
     rbind (rmaybe X r) (\<lambda>d. rret (SFunction (case d of None \<Rightarrow> SNull | Some c \<Rightarrow> block_or_null c)))"

definition setDefinition :: "renv \<Rightarrow> scode rd \<Rightarrow> scode \<Rightarrow> scode option rd" where
  "setDefinition X r d =
     rmaybe X (
       rbind (rns (push_block (as_block d))) (\<lambda>_.
       rbind r (\<lambda>def. if as_block def = None then rundef
         else rbind (rns (pop_block (as_block d))) (\<lambda>_. rret (setKind def)))))"

definition read_sfunction :: "renv \<Rightarrow> scode rd \<Rightarrow> uint32 \<Rightarrow> scode rd" where
  "read_sfunction X r l =
     rbind (readEntry_used X) (\<lambda>e.
     rbind (rlook (\<lambda>N. entry_sym (x_ext X) N e)) (\<lambda>y0. rbind (rsome y0) (\<lambda>y.
     rbind (if y_global y then rret None
            else rbind r (\<lambda>c. rbind (rns (setCode (x_ext X) e c)) (\<lambda>_. rret (Some c)))) (\<lambda>proto.
     rbind (rlook (\<lambda>N. function_of N e)) (\<lambda>d0. rbind (rsome d0) (\<lambda>d.
     rbind (setDefinition X r d) (\<lambda>def. rret (SSFunction l e proto def))))))))"

text \<open>A table entry, with the prototype of a function.\<close>

definition read_tentry :: "renv \<Rightarrow> nat \<Rightarrow> scode rd \<Rightarrow> (sref \<times> point \<times> scode option) rd" where
  "read_tentry X n r =
     rbind (readEntry_used X) (\<lambda>e. rbind (readPoint X n) (\<lambda>p.
     rbind (rlook (\<lambda>N. entry_sym (x_ext X) N e)) (\<lambda>y0. rbind (rsome y0) (\<lambda>y.
       if y_category y = cat_function
       then rbind r (\<lambda>c. if c = SNull then rundef
              else rbind (rns (setCode (x_ext X) e c)) (\<lambda>_. rret (e, p, Some c)))
       else rret (e, p, None)))))"

text \<open>The statements of a block: a block among them ends the loop, everything else that is no statement is invalid.\<close>

fun read_stmts :: "nat \<Rightarrow> scode rd \<Rightarrow> scode list rd" where
  "read_stmts 0 r = rret []"
| "read_stmts (Suc n) r =
     rbind r (\<lambda>c.
       if isStatement c then rbind (read_stmts n r) (\<lambda>cs. rret (c # cs))
       else case c of SBlock b m k ys ts p ss \<Rightarrow> if k = 3 then rret [] else rthrow | _ \<Rightarrow> rthrow)"

definition set_top :: "(frame_t \<Rightarrow> frame_t) \<Rightarrow> nstack \<Rightarrow> nstack" where
  "set_top g N = N\<lparr>n_array := (n_array N)[length (n_array N) - 1 := g (last (n_array N))]\<rparr>"

text \<open>The table of a module; the block has a table as soon as an entry is announced.\<close>

definition read_table :: "renv \<Rightarrow> nat \<Rightarrow> scode rd \<Rightarrow> (sref \<times> point \<times> scode option) list rd" where
  "read_table X n r =
     rbind (rint X) (\<lambda>tcount.
     rbind (rns (set_top (\<lambda>f. f\<lparr>f_table := f_table f \<or> 0 < sint tcount\<rparr>))) (\<lambda>_.
       rtimes (nat (sint tcount)) (read_tentry X n r)))"

definition read_block :: "renv \<Rightarrow> nat \<Rightarrow> scode rd \<Rightarrow> scode rd" where
  "read_block X n r =
     rbind rnew (\<lambda>b. rbind (rstring X) (\<lambda>name. rbind (rint X) (\<lambda>k.
     rbind (rns (pushNamespace b [] False False)) (\<lambda>_.
     rbind (rint X) (\<lambda>scount. rbind (rtimes (unat scount) (readSym X)) (\<lambda>ys.
     rbind (rns (set_top (\<lambda>f. f\<lparr>f_syms := ys\<rparr>))) (\<lambda>_.
     rbind (if ys \<noteq> [] \<and> k = b_module_kind then read_table X n r else rret []) (\<lambda>ts.
     rbind (readPoint X n) (\<lambda>p. rbind (rint X) (\<lambda>cnt. rbind (read_stmts (unat cnt) r) (\<lambda>ss.
     rbind (rns (popUptoNamespace b)) (\<lambda>_. rret (SBlock b name k ys ts p ss)))))))))))))"

text \<open>An import resolves the references into the module; their types have to match.\<close>

definition add_xref :: "nat \<Rightarrow> string \<Rightarrow> nstack \<Rightarrow> nstack" where
  "add_xref ns s N =
     N\<lparr>n_xrefs := (n_xrefs N)(ns := (case n_xrefs N ns of [] \<Rightarrow> [] | refs # xs \<Rightarrow> (refs @ [s]) # xs))\<rparr>"

definition read_xref :: "renv \<Rightarrow> nat \<Rightarrow> unit rd" where
  "read_xref X ns =
     rbind (rcharp X) (\<lambda>name0. rbind (rsome name0) (\<lambda>name. rbind (rtype X) (\<lambda>stype.
       case x_ext X ns name of
         None \<Rightarrow> rthrow
       | Some y \<Rightarrow> rbind (rns (add_xref ns name)) (\<lambda>_.
           rbind (rsome (match (y_type y) stype)) (\<lambda>m. if m \<noteq> 0 then rthrow else rret ())))))"

definition read_import :: "renv \<Rightarrow> uint32 \<Rightarrow> scode rd" where
  "read_import X l =
     rbind (rcharp X) (\<lambda>name0. rbind (rsome name0) (\<lambda>name.
       case x_import X name of
         None \<Rightarrow> rthrow
       | Some (ns, ys) \<Rightarrow>
           rbind (rns (pushNamespace ns ys True True)) (\<lambda>_.
           rbind (rint X) (\<lambda>cnt. rbind (rtimes (nat (sint cnt)) (read_xref X ns)) (\<lambda>_.
             rret (SSImport l name ns))))))"

definition read_case :: "renv \<Rightarrow> (unit ycp \<times> uint32) rd" where
  "read_case X = rbind (rvalue X) (\<lambda>v. if v = YNull then rthrow else rbind (rint X) (\<lambda>i. rret (v, i)))"

definition read_switch :: "renv \<Rightarrow> scode rd \<Rightarrow> uint32 \<Rightarrow> scode rd" where
  "read_switch X r l =
     rbind r (\<lambda>c. if c = SNull then rthrow
       else rbind (rint X) (\<lambda>size. rbind (rtimes (nat (sint size)) (read_case X)) (\<lambda>cases.
            rbind (rint X) (\<lambda>dflt. rbind r (\<lambda>b.
              if as_block b = None then rthrow
              else rret (SSSwitch l c (foldl (\<lambda>m p. smap_assign ycp_less (fst p) (snd p) m) [] cases) dflt b))))))"

definition read_const :: "renv \<Rightarrow> nat \<Rightarrow> scode rd" where
  "read_const X k =
     rbind (rbool X) (\<lambda>b.
       if k = 12 then (if b then rbind (readEntry X) (\<lambda>e. rret (SEntryConst e)) else rret (SConst k YNull))
       else if b \<and> 1 \<le> k \<and> k \<le> 11
       then rbind (rpayload X (if k = 10 then 10 else if k = 11 then 9 else k - 1)) (\<lambda>v. rret (SConst k v))
       else rret (SConst k YNull))"

definition read_builtin :: "renv \<Rightarrow> scode rd \<Rightarrow> scode rd" where
  "read_builtin X r =
     rbind (rtype X) (\<lambda>_. rbind (readDeclaration X) (\<lambda>d. rbind (rmaybe X r) (\<lambda>b.
       case b of
         None \<Rightarrow> rbind (readYCodelist X r) (\<lambda>(g, cs). rret (SEBuiltin void_type d SNull cs))
       | Some c \<Rightarrow>
           if as_block c = None then rundef
           else rbind (rns (push_block (as_block c))) (\<lambda>_.
                rbind (readYCodelist X r) (\<lambda>(g, cs).
                rbind (rns (pop_block (as_block c))) (\<lambda>_. rret (SEBuiltin void_type d c cs)))))))"

text \<open>Calls: \<^verbatim>\<open>YECall::readCall\<close>, and the constructor of function pointers, which rejects an unreadable parameter.\<close>

definition read_call :: "renv \<Rightarrow> scode rd \<Rightarrow> scode rd" where
  "read_call X r =
     rbind (readEntry X) (\<lambda>e0.
       case e0 of
         None \<Rightarrow> rret SNull
       | Some e \<Rightarrow>
           rbind (rlook (\<lambda>N. entry_sym (x_ext X) N e)) (\<lambda>y.
           rbind (rint X) (\<lambda>count. rbind (read_params (unat count) r) (\<lambda>ps.
             rret (case ps of
                 None \<Rightarrow> SNull
               | Some cs \<Rightarrow>
                   if x_old X \<and> (\<exists>z. y = Some z \<and> y_category z = cat_variable) then SEFunctionPointer (Some e) cs
                   else SEFunction e cs)))))"

definition read_pointer_call :: "renv \<Rightarrow> scode rd \<Rightarrow> scode rd" where
  "read_pointer_call X r =
     rbind (readEntry X) (\<lambda>e. rbind (rint X) (\<lambda>count. rbind (read_params (unat count) r) (\<lambda>ps.
       case ps of None \<Rightarrow> rthrow | Some cs \<Rightarrow> rret (SEFunctionPointer e cs))))"

definition read_term :: "renv \<Rightarrow> scode rd \<Rightarrow> scode rd" where
  "read_term X r =
     rbind (rcharp X) (\<lambda>name.
       case name of
         None \<Rightarrow> rret (SETerm None [])
       | Some s \<Rightarrow> rbind (readYCodelist X r) (\<lambda>(g, cs). rret (SETerm (if g then Some s else None) cs)))"

text \<open>The operator of a comparison is a local variable, which keeps its old value at the end of the stream.\<close>

definition rop :: "renv \<Rightarrow> char rd" where
  "rop X = rstr (\<lambda>str. case is_get str of (c, str') \<Rightarrow> (case c of None \<Rightarrow> x_junk X 0 | Some c \<Rightarrow> c, str'))"

definition read_compare :: "renv \<Rightarrow> scode rd \<Rightarrow> scode rd" where
  "read_compare X r = rbind r (\<lambda>a. rbind (rop X) (\<lambda>p. rbind r (\<lambda>b. rret (SECompare a p b))))"

definition read_map :: "renv \<Rightarrow> scode rd \<Rightarrow> scode rd" where
  "read_map X r =
     rbind (rint X) (\<lambda>n. rbind (rtimes (unat n) (rbind r (\<lambda>k. rbind r (\<lambda>v. rret (k, v))))) (\<lambda>ps. rret (SEMap ps)))"

definition read_locale :: "renv \<Rightarrow> scode rd" where
  "read_locale X = rbind (rcharp X) (\<lambda>s. rbind (rcharp X) (\<lambda>d0. rbind (rsome d0) (\<lambda>d. rret (SLocale s d))))"

definition read_plural :: "renv \<Rightarrow> scode rd \<Rightarrow> scode rd" where
  "read_plural X r =
     rbind (rcharp X) (\<lambda>s. rbind (rcharp X) (\<lambda>p. rbind r (\<lambda>c. rbind (rcharp X) (\<lambda>d0. rbind (rsome d0) (\<lambda>d.
       rret (SELocale s p c d))))))"

text \<open>The constructors of the other classes; a statement is given the line number that was read.\<close>

definition yepropagate_read :: "renv \<Rightarrow> scode rd \<Rightarrow> scode rd" where
  "yepropagate_read X r = rbind (rtype X) (\<lambda>f. rbind (rtype X) (\<lambda>t. rbind r (\<lambda>c. rret (SEPropagate f t c))))"

definition yeunary_read :: "renv \<Rightarrow> scode rd \<Rightarrow> scode rd" where
  "yeunary_read X r = rbind (readDeclaration X) (\<lambda>d. rbind r (\<lambda>c. rret (SEUnary d c)))"

definition yebinary_read :: "renv \<Rightarrow> scode rd \<Rightarrow> scode rd" where
  "yebinary_read X r = rbind (readDeclaration X) (\<lambda>d. rbind r (\<lambda>a. rbind r (\<lambda>b. rret (SEBinary d a b))))"

definition yetriple_read :: "scode rd \<Rightarrow> scode rd" where
  "yetriple_read r = rbind r (\<lambda>c. rbind r (\<lambda>a. rbind r (\<lambda>b. rret (SETriple c a b))))"

definition yelist_read :: "renv \<Rightarrow> scode rd \<Rightarrow> scode rd" where
  "yelist_read X r = rbind (readYCodelist X r) (\<lambda>(g, cs). rret (SEList cs))"

definition yeis_read :: "renv \<Rightarrow> scode rd \<Rightarrow> scode rd" where
  "yeis_read X r = rbind (rtype X) (\<lambda>t. rbind r (\<lambda>c. rret (SEIs t c)))"

definition yebracket_read :: "renv \<Rightarrow> scode rd \<Rightarrow> scode rd" where
  "yebracket_read X r = rbind r (\<lambda>v. rbind r (\<lambda>a. rbind r (\<lambda>d. rbind (rtype X) (\<lambda>_. rret (SEBracket v a d void_type)))))"

definition yereturn_read :: "scode rd \<Rightarrow> scode rd" where
  "yereturn_read r = rbind r (\<lambda>c. rret (SEReturn c))"

definition yevariable_read :: "renv \<Rightarrow> scode rd" where
  "yevariable_read X = rbind (readEntry X) (\<lambda>e. rret (SEVariable e))"

definition yereference_read :: "renv \<Rightarrow> scode rd" where
  "yereference_read X = rbind (readEntry X) (\<lambda>e. rret (SEReference e))"

definition ystypedef_read :: "renv \<Rightarrow> uint32 \<Rightarrow> scode rd" where
  "ystypedef_read X l = rbind (rustring X) (\<lambda>s. rbind (rtype X) (\<lambda>t. rret (SSTypedef l s t)))"

definition ysvariable_read :: "renv \<Rightarrow> scode rd \<Rightarrow> uint32 \<Rightarrow> scode rd" where
  "ysvariable_read X r l = rbind (readEntry_used X) (\<lambda>e. rbind r (\<lambda>c. rbind (rns (setCode (x_ext X) e c)) (\<lambda>_. rret (SSVariable l e c))))"

definition ysassign_read :: "renv \<Rightarrow> scode rd \<Rightarrow> uint32 \<Rightarrow> scode rd" where
  "ysassign_read X r l = rbind (readEntry X) (\<lambda>e. rbind r (\<lambda>c. rret (SSAssign l e c)))"

definition ysbracket_read :: "renv \<Rightarrow> scode rd \<Rightarrow> uint32 \<Rightarrow> scode rd" where
  "ysbracket_read X r l = rbind (readEntry X) (\<lambda>e. rbind r (\<lambda>a. rbind r (\<lambda>c. rret (SSBracket l e a c))))"

definition ysif_read :: "renv \<Rightarrow> scode rd \<Rightarrow> uint32 \<Rightarrow> scode rd" where
  "ysif_read X r l = rbind r (\<lambda>c. rbind (rmaybe X r) (\<lambda>a. rbind (rmaybe X r) (\<lambda>b. rret (SSIf l c a b))))"

definition yswhile_read :: "renv \<Rightarrow> scode rd \<Rightarrow> uint32 \<Rightarrow> scode rd" where
  "yswhile_read X r l = rbind r (\<lambda>c. rbind (rmaybe X r) (\<lambda>b. rret (SSWhile l c b)))"

definition ysdo_read :: "renv \<Rightarrow> scode rd \<Rightarrow> uint32 \<Rightarrow> scode rd" where
  "ysdo_read X r l = rbind (rmaybe X r) (\<lambda>b. rbind r (\<lambda>c. rret (SSDo l b c)))"

definition ysrepeat_read :: "renv \<Rightarrow> scode rd \<Rightarrow> uint32 \<Rightarrow> scode rd" where
  "ysrepeat_read X r l = rbind (rmaybe X r) (\<lambda>b. rbind r (\<lambda>c. rret (SSRepeat l b c)))"

definition ysexpression_read :: "scode rd \<Rightarrow> uint32 \<Rightarrow> scode rd" where
  "ysexpression_read r l = rbind r (\<lambda>c. rret (SSExpression l c))"

definition ysreturn_read :: "renv \<Rightarrow> scode rd \<Rightarrow> uint32 \<Rightarrow> scode rd" where
  "ysreturn_read X r l = rbind (rmaybe X r) (\<lambda>c. rret (SSReturn l c))"

definition ystextdomain_read :: "renv \<Rightarrow> uint32 \<Rightarrow> scode rd" where
  "ystextdomain_read X l = rbind (rustring X) (\<lambda>s. rret (SSTextdomain l s))"

definition ysinclude_read :: "renv \<Rightarrow> uint32 \<Rightarrow> scode rd" where
  "ysinclude_read X l = rbind (rustring X) (\<lambda>s. rbind (rbool X) (\<lambda>b. rret (SSInclude l s b)))"

definition ysfilename_read :: "renv \<Rightarrow> uint32 \<Rightarrow> scode rd" where
  "ysfilename_read X l = rbind (rustring X) (\<lambda>s. rret (SSFilename l s))"

definition ysblock_read :: "scode rd \<Rightarrow> uint32 \<Rightarrow> scode rd" where
  "ysblock_read r l = rbind r (\<lambda>c. rret (SSBlock l c))"

section \<open>The dispatch\<close>

definition read_expression :: "renv \<Rightarrow> nat \<Rightarrow> scode rd \<Rightarrow> nat \<Rightarrow> scode rd" where
  "read_expression X n r k =
     (if k = 14 then read_locale X
      else if k = 15 then read_function X r
      else if k = 16 then yepropagate_read X r
      else if k = 17 then yeunary_read X r
      else if k = 18 then yebinary_read X r
      else if k = 19 then yetriple_read r
      else if k = 20 then read_compare X r
      else if k = 21 then read_plural X r
      else if k = 22 then yelist_read X r
      else if k = 23 then read_map X r
      else if k = 24 then read_term X r
      else if k = 25 then yeis_read X r
      else if k = 26 then yebracket_read X r
      else if k = 27 then read_block X n r
      else if k = 28 then yereturn_read r
      else if k = 29 then yevariable_read X
      else if k = 30 then read_builtin X r
      else if k = 31 then read_call X r
      else if k = 32 then yereference_read X
      else if k = 33 then read_pointer_call X r
      else rret SNull)"

definition read_statement :: "renv \<Rightarrow> scode rd \<Rightarrow> nat \<Rightarrow> uint32 \<Rightarrow> scode rd" where
  "read_statement X r k l =
     (if k = 35 then ystypedef_read X l
      else if k = 36 then ysvariable_read X r l
      else if k = 37 then read_sfunction X r l
      else if k = 38 then ysassign_read X r l
      else if k = 39 then ysbracket_read X r l
      else if k = 40 then ysif_read X r l
      else if k = 41 then yswhile_read X r l
      else if k = 42 then ysdo_read X r l
      else if k = 43 then ysrepeat_read X r l
      else if k = 44 then ysexpression_read r l
      else if k = 45 then ysreturn_read X r l
      else if k = 46 then rret (SSBreak l)
      else if k = 47 then rret (SSContinue l)
      else if k = 48 then ystextdomain_read X l
      else if k = 49 then ysinclude_read X l
      else if k = 50 then ysfilename_read X l
      else if k = 51 then read_import X l
      else if k = 52 then ysblock_read r l
      else read_switch X r l)"

lemmas class_constructors =
  yepropagate_read_def yeunary_read_def yebinary_read_def yetriple_read_def yelist_read_def
  yeis_read_def yebracket_read_def yereturn_read_def yevariable_read_def yereference_read_def
  ystypedef_read_def ysvariable_read_def ysassign_read_def ysbracket_read_def ysif_read_def
  yswhile_read_def ysdo_read_def ysrepeat_read_def ysexpression_read_def ysreturn_read_def
  ystextdomain_read_def ysinclude_read_def ysfilename_read_def ysblock_read_def

lemmas read_expression_unfold = read_expression_def [unfolded class_constructors]

lemmas read_statement_unfold = read_statement_def [unfolded class_constructors]

text \<open>
  \<^verbatim>\<open>Bytecode::readCode\<close> behind the tag.  The tag is a signed \<^verbatim>\<open>char\<close>; version 1.3.2 has no function pointers.
\<close>

definition read_tagged :: "renv \<Rightarrow> nat \<Rightarrow> scode rd \<Rightarrow> nat \<Rightarrow> scode rd" where
  "read_tagged X n r code =
     (if code < 13 \<or> 128 \<le> code then read_const X code
      else let k = (if x_old X \<and> 34 < code then code + 1 else code) in
        if 14 \<le> k \<and> k \<le> 33 then read_expression X n r k
        else if 35 \<le> k \<and> k \<le> 53 then rbind (rint X) (read_statement X r k)
        else rret SNull)"

definition rget :: "char option rd" where "rget = rstr is_get"

fun readCode :: "renv \<Rightarrow> nat \<Rightarrow> scode rd" where
  "readCode X 0 = (\<lambda>R. OutOfFuel)"
| "readCode X (Suc n) =
     rbind rget (\<lambda>t. case t of None \<Rightarrow> rret SNull | Some c \<Rightarrow> read_tagged X n (readCode X n) (ccode c))"

declare readCode.simps [simp del]

end
