(* ===== verification/Code_Parts.thy ===== *)
theory Code_Parts
  imports Code_Read
begin

text \<open>
  Notions the proofs about byte code share: the codes within a code, their number, the addresses of the blocks, the
  part of a program a stream keeps (\<open>erase\<close>), and the programs a stream can carry (\<open>code_ok\<close>).

  Some of a program is not kept: the result types of brackets and builtins, the declaration of a function without
  parameters, and the kind of a block that is the definition of a function.
\<close>

section \<open>The parts of a program\<close>

definition olist :: "'a option \<Rightarrow> 'a list" where
  "olist x = (case x of None \<Rightarrow> [] | Some a \<Rightarrow> [a])"

lemma olist_simps [simp]: "olist None = []" "olist (Some a) = [a]"
  by (simp_all add: olist_def)

text \<open>The codes directly within a code, in the order of the stream.\<close>

fun children :: "scode \<Rightarrow> scode list" where
  "children (SFunction d) = (if need_declaration d = None then [] else [d])"
| "children (SETerm n cs) = cs"
| "children (SECompare l p r) = [l, r]"
| "children (SELocale s p c d) = [c]"
| "children (SEList cs) = cs"
| "children (SEMap ps) = concat (map (\<lambda>p. [fst p, snd p]) ps)"
| "children (SEPropagate f t c) = [c]"
| "children (SEUnary d c) = [c]"
| "children (SEBinary d a b) = [a, b]"
| "children (SETriple c a b) = [c, a, b]"
| "children (SEIs t c) = [c]"
| "children (SEReturn c) = [c]"
| "children (SEBracket v a d t) = [v, a, d]"
| "children (SEBuiltin t d b cs) = (if b = SNull then cs else b # cs)"
| "children (SEFunction e cs) = cs"
| "children (SEFunctionPointer e cs) = cs"
| "children (SBlock b n k ys ts p ss) = concat (map (\<lambda>t. olist (snd (snd t))) ts) @ ss"
| "children (SSExpression l c) = [c]"
| "children (SSBlock l c) = [c]"
| "children (SSReturn l c) = olist c"
| "children (SSFunction l e proto def) = olist proto @ olist def"
| "children (SSAssign l e c) = [c]"
| "children (SSVariable l e c) = [c]"
| "children (SSBracket l e a c) = [a, c]"
| "children (SSIf l c a b) = c # olist a @ olist b"
| "children (SSWhile l c b) = c # olist b"
| "children (SSRepeat l b c) = olist b @ [c]"
| "children (SSDo l b c) = olist b @ [c]"
| "children (SSSwitch l c cs d b) = [c, b]"
| "children c = []"

lemma size_elem: "x \<in> set xs \<Longrightarrow> f x \<le> size_list f xs"
  by (rule size_list_estimation' [OF _ order_refl])

lemma size_elem': "x \<in> set xs \<Longrightarrow> f x < Suc (size_list f xs)"
  using size_elem [of x xs f] by simp

lemma size_children: "x \<in> set (children c) \<Longrightarrow> size x < size c"
proof (cases c)
  case (SEMap ps)
  then show "x \<in> set (children c) \<Longrightarrow> ?thesis"
    using size_elem [of _ ps "size_prod size size"] by fastforce
next
  case (SBlock b n k ys ts p ss)
  then show "x \<in> set (children c) \<Longrightarrow> ?thesis"
    using size_elem [of _ ts "size_prod (\<lambda>_. 0) (size_prod (\<lambda>_. 0) (size_option size))"] size_elem [of _ ss size]
    by (fastforce simp: olist_def split: option.splits)
qed (auto simp: olist_def size_elem' less_Suc_eq_le trans_le_add1 trans_le_add2 size_elem split: option.splits if_splits)

lemma children_induct [case_names children]:
  "(\<And>c. (\<And>x. x \<in> set (children c) \<Longrightarrow> P x) \<Longrightarrow> P c) \<Longrightarrow> P c"
  by (induction c rule: measure_induct_rule [of size]) (blast dest: size_children)

fun pcount :: "point \<Rightarrow> nat" where
  "pcount (Point e l p) = Suc (case p of None \<Rightarrow> 0 | Some q \<Rightarrow> pcount q)"

definition points :: "scode \<Rightarrow> nat" where
  "points c = (case c of SBlock b n k ys ts p ss \<Rightarrow> sum_list (map (\<lambda>t. pcount (fst (snd t))) ts) + pcount p | _ \<Rightarrow> 0)"

text \<open>The number of codes and points, and the addresses of the blocks in the order of the stream.\<close>

function weight :: "scode \<Rightarrow> nat" where
  "weight c = Suc (points c + sum_list (map weight (children c)))"
  by pat_completeness auto
termination by (relation "measure size") (auto dest: size_children)

function blocks :: "scode \<Rightarrow> nat list" where
  "blocks c = (case c of SBlock b n k ys ts p ss \<Rightarrow> [b] | _ \<Rightarrow> []) @ concat (map blocks (children c))"
  by pat_completeness auto
termination by (relation "measure size") (auto dest: size_children)

declare weight.simps [simp del] blocks.simps [simp del]

primrec erase :: "scode \<Rightarrow> scode" where
  "erase SNull = SNull"
| "erase (SConst k v) = SConst k v"
| "erase (SEntryConst e) = SEntryConst e"
| "erase (SLocale s d) = SLocale s d"
| "erase (SFunction d) = SFunction (if need_declaration d = None then SNull else erase d)"
| "erase (SEVariable e) = SEVariable e"
| "erase (SEReference e) = SEReference e"
| "erase (SETerm n cs) = SETerm n (map erase cs)"
| "erase (SECompare l p r) = SECompare (erase l) p (erase r)"
| "erase (SELocale s p c d) = SELocale s p (erase c) d"
| "erase (SEList cs) = SEList (map erase cs)"
| "erase (SEMap ps) = SEMap (map (map_prod erase erase) ps)"
| "erase (SEPropagate f t c) = SEPropagate f t (erase c)"
| "erase (SEUnary d c) = SEUnary d (erase c)"
| "erase (SEBinary d a b) = SEBinary d (erase a) (erase b)"
| "erase (SETriple c a b) = SETriple (erase c) (erase a) (erase b)"
| "erase (SEIs t c) = SEIs t (erase c)"
| "erase (SEReturn c) = SEReturn (erase c)"
| "erase (SEBracket v a d t) = SEBracket (erase v) (erase a) (erase d) void_type"
| "erase (SEBuiltin t d b cs) = SEBuiltin void_type d (erase b) (map erase cs)"
| "erase (SEFunction e cs) = SEFunction e (map erase cs)"
| "erase (SEFunctionPointer e cs) = SEFunctionPointer e (map erase cs)"
| "erase (SBlock b n k ys ts p ss) =
     SBlock b n k ys (map (map_prod id (map_prod id (map_option erase))) ts) p (map erase ss)"
| "erase (SSBreak l) = SSBreak l"
| "erase (SSContinue l) = SSContinue l"
| "erase (SSExpression l c) = SSExpression l (erase c)"
| "erase (SSBlock l c) = SSBlock l (erase c)"
| "erase (SSReturn l c) = SSReturn l (map_option erase c)"
| "erase (SSFunction l e proto def) = SSFunction l e (map_option erase proto) (map_option setKind (map_option erase def))"
| "erase (SSTypedef l n t) = SSTypedef l n t"
| "erase (SSAssign l e c) = SSAssign l e (erase c)"
| "erase (SSVariable l e c) = SSVariable l e (erase c)"
| "erase (SSBracket l e a c) = SSBracket l e (erase a) (erase c)"
| "erase (SSIf l c a b) = SSIf l (erase c) (map_option erase a) (map_option erase b)"
| "erase (SSWhile l c b) = SSWhile l (erase c) (map_option erase b)"
| "erase (SSRepeat l b c) = SSRepeat l (map_option erase b) (erase c)"
| "erase (SSDo l b c) = SSDo l (map_option erase b) (erase c)"
| "erase (SSTextdomain l d) = SSTextdomain l d"
| "erase (SSInclude l f b) = SSInclude l f b"
| "erase (SSImport l m ns) = SSImport l m ns"
| "erase (SSFilename l f) = SSFilename l f"
| "erase (SSSwitch l c cs d b) = SSSwitch l (erase c) cs d (erase b)"

lemma as_block_erase [simp]: "as_block (erase c) = as_block c"
  by (cases c) (simp_all add: as_block_def)

lemma erase_SNull [simp]: "erase c = SNull \<longleftrightarrow> c = SNull"
  by (cases c) simp_all

lemma isStatement_erase [simp]: "isStatement (erase c) = isStatement c"
  by (cases c) (simp_all add: isStatement_def)

section \<open>Programs a stream can carry\<close>

definition plain_text :: "string \<Rightarrow> bool" where
  "plain_text s \<longleftrightarrow> nul_free s \<and> fits s"

abbreviation short :: "'a list \<Rightarrow> bool" where
  "short xs \<equiv> length xs < 2 ^ 31"

record world =
  g_w :: wenv
  g_r :: renv
  g_syms :: "nat \<Rightarrow> sym list"
  g_float :: "double \<Rightarrow> bool"

text \<open>
  A writer, a reader and the symbols of the blocks that fit together: the same texts of doubles, the same tables of
  modules, the current version; the position of a symbol is its index.
\<close>

definition world_ok :: "world \<Rightarrow> bool" where
  "world_ok G \<longleftrightarrow>
     okc (e_codec (g_w G)) (g_float G) \<and> x_codec (g_r G) = e_codec (g_w G) \<and> x_ext (g_r G) = e_ext (g_w G)
     \<and> \<not> x_old (g_r G)
     \<and> (\<forall>ns. short (g_syms G ns) \<and> (\<forall>i < length (g_syms G ns). y_position (g_syms G ns ! i) = of_nat i))
     \<and> (\<forall>ns us. e_used (g_w G) ns = Some us \<longrightarrow> short us)"

definition sym_ok :: "sym \<Rightarrow> bool" where
  "sym_ok y \<longleftrightarrow> plain_text (y_name y) \<and> storable_type (y_type y)"

definition decl_ok :: "world \<Rightarrow> sdecl \<Rightarrow> bool" where
  "decl_ok G d \<longleftrightarrow> plain_text (full_name d) \<and> storable_type (d_type d)
     \<and> findDeclaration (x_decls (g_r G)) (full_name d) (d_type d) False = Some (Some d)"

text \<open>The symbol a reference denotes, when addresses denote the blocks with the given symbols.\<close>

definition ref_sym :: "world \<Rightarrow> sref \<Rightarrow> sym option" where
  "ref_sym G e =
     (case e of
        Local ns i \<Rightarrow> if i < length (g_syms G ns) then Some (g_syms G ns ! i) else None
      | Ext ns s \<Rightarrow> e_ext (g_w G) ns s)"

definition payload_tag :: "nat \<Rightarrow> nat" where
  "payload_tag k = (if k = 10 then 10 else if k = 11 then 9 else k - 1)"

definition import_ok :: "world \<Rightarrow> string \<Rightarrow> nat \<Rightarrow> bool" where
  "import_ok G m ns \<longleftrightarrow> plain_text m \<and> (\<exists>ys. x_import (g_r G) m = Some (ns, ys))
     \<and> (\<forall>us. e_used (g_w G) ns = Some us \<longrightarrow>
          (\<forall>u \<in> set us. plain_text (fst u) \<and> storable_type (snd u)
             \<and> (\<exists>y. x_ext (g_r G) ns (fst u) = Some y \<and> match (y_type y) (snd u) = Some 0)))"

definition block_ok :: "world \<Rightarrow> nat \<Rightarrow> string \<Rightarrow> uint32 \<Rightarrow> sym list \<Rightarrow> (sref \<times> point \<times> scode option) list \<Rightarrow> scode list \<Rightarrow> bool" where
  "block_ok G b n k ys ts ss \<longleftrightarrow>
     e_used (g_w G) b = None \<and> g_syms G b = ys \<and> plain_text n \<and> list_all sym_ok ys
     \<and> short ts \<and> (ts = [] \<or> ys \<noteq> [] \<and> k = b_module_kind)
     \<and> (\<forall>t \<in> set ts. \<forall>y. ref_sym G (fst t) = Some y \<longrightarrow> y_category y = cat_function \<longrightarrow> y_global y)
     \<and> fits ss \<and> list_all isStatement ss"

fun node_ok :: "world \<Rightarrow> scode \<Rightarrow> bool" where
  "node_ok G SNull = False"
| "node_ok G (SConst k v) =
     (if v = YNull then k < 13
      else 1 \<le> k \<and> k \<le> 11 \<and> storable (g_float G) v \<and> valuetype v = payload_tag k)"
| "node_ok G (SLocale s d) = (pred_option plain_text s \<and> plain_text d)"
| "node_ok G (SETerm n cs) = (pred_option plain_text n \<and> fits cs)"
| "node_ok G (SELocale s p c d) = (pred_option plain_text s \<and> pred_option plain_text p \<and> plain_text d)"
| "node_ok G (SEList cs) = fits cs"
| "node_ok G (SEMap ps) = fits ps"
| "node_ok G (SEPropagate f t c) = (storable_type f \<and> storable_type t)"
| "node_ok G (SEUnary d c) = decl_ok G d"
| "node_ok G (SEBinary d a b) = decl_ok G d"
| "node_ok G (SEIs t c) = storable_type t"
| "node_ok G (SEBracket v a d t) = storable_type t"
| "node_ok G (SEBuiltin t d b cs) = (storable_type t \<and> decl_ok G d \<and> fits cs)"
| "node_ok G (SEFunction e cs) = fits cs"
| "node_ok G (SEFunctionPointer e cs) = fits cs"
| "node_ok G (SBlock b n k ys ts p ss) = block_ok G b n k ys ts ss"
| "node_ok G (SSFunction l e proto def) = pred_option (\<lambda>d. as_block d \<noteq> None) def"
| "node_ok G (SSTypedef l n t) = (plain_text n \<and> storable_type t)"
| "node_ok G (SSTextdomain l d) = plain_text d"
| "node_ok G (SSInclude l f b) = plain_text f"
| "node_ok G (SSImport l m ns) = import_ok G m ns"
| "node_ok G (SSFilename l f) = plain_text f"
| "node_ok G (SSSwitch l c cs d b) =
     (short cs \<and> list_all (\<lambda>p. storable (g_float G) (fst p)) cs \<and> sorted_wrt ycp_less (map fst cs) \<and> as_block b \<noteq> None)"
| "node_ok G c = True"

function code_ok :: "world \<Rightarrow> scode \<Rightarrow> bool" where
  "code_ok G c \<longleftrightarrow> node_ok G c \<and> list_all (code_ok G) (children c)"
  by pat_completeness auto
termination by (relation "measure (\<lambda>(G, c). size c)") (auto dest: size_children)

declare code_ok.simps [simp del]

lemma code_ok_node: "code_ok G c \<Longrightarrow> node_ok G c"
  by (subst (asm) code_ok.simps) simp

lemma code_ok_child: "code_ok G c \<Longrightarrow> x \<in> set (children c) \<Longrightarrow> code_ok G x"
  by (subst (asm) code_ok.simps) (simp add: list_all_iff)

section \<open>A program\<close>

text \<open>
  The module \<^verbatim>\<open>{ module "M"; integer x = 5; return x; }\<close>, with a position, and a world it fits in.
\<close>

definition sample_sym :: sym where
  "sample_sym = \<lparr>y_global = False, y_position = 0, y_name = ''x'', y_category = cat_variable, y_type = PlainType IntegerT noq\<rparr>"

definition sample_code :: scode where
  "sample_code =
     SBlock 7 ''M'' b_module_kind [sample_sym] [] (Point (Some (Local 7 0)) 1 None)
       [SSVariable 1 (Local 7 0) (SConst 3 (YInteger 5)), SSReturn 2 (Some (SEVariable (Some (Local 7 0))))]"

definition sample_codec :: "unit codec" where
  "sample_codec = \<lparr>cd_float_str = (\<lambda>d. []), cd_float_read = (\<lambda>s. 0), cd_code_write = (\<lambda>str c. str), cd_code_read = (\<lambda>str. ((), str)),
     cd_entry_write = (\<lambda>str e. str)\<rparr>"

definition sample_world :: world where
  "sample_world =
     \<lparr>g_w = \<lparr>e_codec = sample_codec, e_used = (\<lambda>_. None), e_ext = (\<lambda>_ _. None)\<rparr>,
      g_r = \<lparr>x_junk = (\<lambda>_. NUL), x_codec = sample_codec, x_old = False, x_decls = (\<lambda>_. None), x_import = (\<lambda>_. None),
             x_ext = (\<lambda>_ _. None)\<rparr>,
      g_syms = (\<lambda>b. if b = 7 then [sample_sym] else []),
      g_float = (\<lambda>_. False)\<rparr>"

end
