(* ===== verification/Code_Sim.thy ===== *)
theory Code_Sim
  imports Code_Parts
begin

text \<open>
  A writer and a reader fit together (\<open>echo\<close>) when the reader, started on the bytes the
  writer appends, gives the expected result and leaves the rest of the stream.  The fit is kept by sequencing, and the
  theorem about programs is put together from the fits of their parts.  \<open>sim\<close> relates the stacks of name spaces of writer
  and reader.
\<close>

section \<open>The stacks of writer and reader\<close>

definition visible :: "nstack \<Rightarrow> frame_t list" where
  "visible N = drop (n_tare N) (n_array N)"

definition frame_sim :: "world \<Rightarrow> frame_t \<Rightarrow> frame_t \<Rightarrow> bool" where
  "frame_sim G f g \<longleftrightarrow>
     f_ns g = f_ns f \<and> \<not> f_with_xrefs f
     \<and> (case e_used (g_w G) (f_ns f) of
          None \<Rightarrow> f_syms f = g_syms G (f_ns f) \<and> f_syms g = f_syms f \<and> \<not> f_with_xrefs g
        | Some us \<Rightarrow> f_syms f = [] \<and> f_table g \<and> f_with_xrefs g)"

definition imports_of :: "nat \<Rightarrow> frame_t list \<Rightarrow> nat" where
  "imports_of ns fs = length (filter (\<lambda>f. f_ns f = ns) fs)"

definition xrefs_sim :: "world \<Rightarrow> frame_t list \<Rightarrow> (nat \<Rightarrow> string list list) \<Rightarrow> bool" where
  "xrefs_sim G fs xs \<longleftrightarrow>
     (\<forall>ns us. e_used (g_w G) ns = Some us
        \<longrightarrow> take (imports_of ns fs) (xs ns) = replicate (imports_of ns fs) (map fst us))"

definition codes_sim :: "world \<Rightarrow> (sref \<Rightarrow> scode option) \<Rightarrow> (sref \<Rightarrow> scode option) \<Rightarrow> bool" where
  "codes_sim G cw cr \<longleftrightarrow> (\<forall>e c. cw e = Some c \<longrightarrow> cr e = Some (erase c) \<and> code_ok G c)"

definition sim :: "world \<Rightarrow> nstack \<Rightarrow> nstack \<Rightarrow> bool" where
  "sim G Nw Nr \<longleftrightarrow>
     n_tare Nw \<le> length (n_array Nw) \<and> n_tare Nr \<le> length (n_array Nr)
     \<and> list_all2 (frame_sim G) (visible Nw) (visible Nr)
     \<and> xrefs_sim G (visible Nr) (n_xrefs Nr)
     \<and> codes_sim G (n_codes Nw) (n_codes Nr)"

lemma visible_push:
  "n_tare N \<le> length (n_array N)
   \<Longrightarrow> visible (pushNamespace b ys m x N) = visible N @ [\<lparr>f_ns = b, f_syms = ys, f_table = m, f_with_xrefs = x\<rparr>]"
  by (simp add: visible_def pushNamespace_def Let_def open_xrefs_def)

lemma push_fields [simp]:
  "n_tare (pushNamespace b ys m x N) = n_tare N"
  "length (n_array (pushNamespace b ys m x N)) = Suc (length (n_array N))"
  "n_codes (pushNamespace b ys m x N) = n_codes N"
  "n_xrefs (pushNamespace b ys m False N) = n_xrefs N"
  "n_xrefs (pushNamespace b ys m True N) = (n_xrefs N)(b := [] # n_xrefs N b)"
  by (simp_all add: pushNamespace_def Let_def open_xrefs_def)

lemma drop_top_codes [simp]: "n_codes (drop_top N) = n_codes N"
  by (simp add: drop_top_def Let_def close_xrefs_def)

lemma imports_of_append [simp]: "imports_of ns (fs @ gs) = imports_of ns fs + imports_of ns gs"
  by (simp add: imports_of_def)

lemma imports_of_single [simp]: "imports_of ns [f] = (if f_ns f = ns then 1 else 0)"
  by (simp add: imports_of_def)

lemma sim_push_block:
  assumes "sim G Nw Nr" "e_used (g_w G) b = None" "g_syms G b = ys"
  shows "sim G (pushNamespace b ys m False Nw) (pushNamespace b ys m' False Nr)"
  using assms by (auto simp: sim_def visible_push frame_sim_def xrefs_sim_def list_all2_appendI)

lemma visible_top:
  assumes "n_tare N \<le> length (n_array N)" "visible N \<noteq> []"
  shows "last (n_array N) = last (visible N)" "visible (drop_top N) = butlast (visible N)" "n_tare N < length (n_array N)"
proof -
  show t: "n_tare N < length (n_array N)" using assms by (simp add: visible_def)
  show "last (n_array N) = last (visible N)" using t by (simp add: visible_def)
  show "visible (drop_top N) = butlast (visible N)" by (simp add: visible_def drop_butlast)
qed

lemma xrefs_drop_top:
  "f_with_xrefs (last (n_array N))
   \<Longrightarrow> n_xrefs (drop_top N) = (n_xrefs N)(f_ns (last (n_array N)) := tl (n_xrefs N (f_ns (last (n_array N)))))"
  "\<not> f_with_xrefs (last (n_array N)) \<Longrightarrow> n_xrefs (drop_top N) = n_xrefs N"
  by (simp_all add: drop_top_def Let_def close_xrefs_def)

lemma tl_replicate_take: "take (Suc n) xs = replicate (Suc n) x \<Longrightarrow> take n (tl xs) = replicate n x"
  by (cases xs) auto

lemma sim_last:
  assumes "sim G Nw Nr" "visible Nw \<noteq> []"
  shows "visible Nr \<noteq> []" "frame_sim G (last (visible Nw)) (last (visible Nr))"
proof -
  have l: "list_all2 (frame_sim G) (visible Nw) (visible Nr)" using assms(1) by (simp add: sim_def)
  note n = list_all2_lengthD [OF l]
  then show r: "visible Nr \<noteq> []" using assms(2) by auto
  show "frame_sim G (last (visible Nw)) (last (visible Nr))"
    using list_all2_nthD [OF l, of "length (visible Nw) - 1"] assms(2) r n by (simp add: last_conv_nth)
qed

lemma sim_drop_top:
  assumes s: "sim G Nw Nr" and v: "visible Nw \<noteq> []"
  shows "sim G (drop_top Nw) (drop_top Nr)"
proof -
  have w: "n_tare Nw \<le> length (n_array Nw)" and r: "n_tare Nr \<le> length (n_array Nr)"
    and l: "list_all2 (frame_sim G) (visible Nw) (visible Nr)"
    and x: "xrefs_sim G (visible Nr) (n_xrefs Nr)" and c: "codes_sim G (n_codes Nw) (n_codes Nr)"
    using s by (auto simp: sim_def)
  note vr = sim_last [OF s v]
  note tw = visible_top [OF w v] and tr = visible_top [OF r vr(1)]
  have "list_all2 (frame_sim G) (butlast (visible Nw)) (butlast (visible Nr))"
    using l list_all2_lengthD [OF l] by (simp add: list_all2_conv_all_nth nth_butlast)
  moreover have "xrefs_sim G (butlast (visible Nr)) (n_xrefs (drop_top Nr))"
    unfolding xrefs_sim_def
  proof (intro allI impI)
    fix ns us assume u: "e_used (g_w G) ns = Some us"
    have n: "imports_of ns (visible Nr) = imports_of ns (butlast (visible Nr)) + (if f_ns (last (visible Nr)) = ns then 1 else 0)"
      using imports_of_append [of ns "butlast (visible Nr)" "[last (visible Nr)]"] vr(1) by simp
    have t: "take (imports_of ns (visible Nr)) (n_xrefs Nr ns) = replicate (imports_of ns (visible Nr)) (map fst us)"
      using x u by (simp add: xrefs_sim_def)
    show "take (imports_of ns (butlast (visible Nr))) (n_xrefs (drop_top Nr) ns)
        = replicate (imports_of ns (butlast (visible Nr))) (map fst us)"
    proof (cases "f_ns (last (visible Nr)) = ns")
      case True
      then have "f_with_xrefs (last (n_array Nr))" using vr(2) u tr(1) by (simp add: frame_sim_def)
      then have "n_xrefs (drop_top Nr) ns = tl (n_xrefs Nr ns)" using True tr(1) by (simp add: xrefs_drop_top)
      then show ?thesis using t n True tl_replicate_take by simp
    next
      case False
      then have "n_xrefs (drop_top Nr) ns = n_xrefs Nr ns"
        using tr(1) by (cases "f_with_xrefs (last (n_array Nr))") (auto simp: xrefs_drop_top)
      then show ?thesis using t n False by simp
    qed
  qed
  ultimately show ?thesis
    using c tw tr by (auto simp: sim_def)
qed

lemma visible_Nil: "n_tare N \<le> length (n_array N) \<Longrightarrow> visible N = [] \<longleftrightarrow> length (n_array N) \<le> n_tare N"
  by (auto simp: visible_def)

lemma sim_tops:
  assumes s: "sim G Nw Nr"
  shows "length (n_array Nw) \<le> n_tare Nw \<longleftrightarrow> length (n_array Nr) \<le> n_tare Nr"
    and "\<not> length (n_array Nw) \<le> n_tare Nw \<Longrightarrow> f_ns (last (n_array Nr)) = f_ns (last (n_array Nw))"
proof -
  have v: "visible Nw = [] \<longleftrightarrow> visible Nr = []"
    using s list_all2_lengthD by (fastforce simp: sim_def)
  have w: "n_tare Nw \<le> length (n_array Nw)" and r: "n_tare Nr \<le> length (n_array Nr)" using s by (auto simp: sim_def)
  show "length (n_array Nw) \<le> n_tare Nw \<longleftrightarrow> length (n_array Nr) \<le> n_tare Nr"
    using v visible_Nil [OF w] visible_Nil [OF r] by simp
  assume "\<not> length (n_array Nw) \<le> n_tare Nw"
  then have vw: "visible Nw \<noteq> []" using visible_Nil [OF w] by simp
  from visible_top(1) [OF w vw] visible_top(1) [OF r] sim_last [OF s vw]
  show "f_ns (last (n_array Nr)) = f_ns (last (n_array Nw))" by (simp add: frame_sim_def)
qed

lemma sim_popNamespace: "sim G Nw Nr \<Longrightarrow> sim G (popNamespace b Nw) (popNamespace b Nr)"
  using sim_tops [of G Nw Nr] sim_drop_top [of G Nw Nr] visible_Nil [of Nw]
  by (auto simp: popNamespace_def sim_def [of G Nw Nr])

lemma sim_popUpto: "sim G Nw Nr \<Longrightarrow> sim G (popUptoNamespace b Nw) (popUptoNamespace b Nr)"
proof (induction b Nw arbitrary: Nr rule: popUptoNamespace.induct)
  case (1 b Nw)
  show ?case
  proof (cases "length (n_array Nw) \<le> n_tare Nw")
    case True
    then show ?thesis using 1 sim_tops(1) [OF 1(2)] by (subst (1 2) popUptoNamespace.simps) simp
  next
    case False
    then have "visible Nw \<noteq> []" using 1(2) visible_Nil [of Nw] by (simp add: sim_def)
    then have s: "sim G (drop_top Nw) (drop_top Nr)" by (rule sim_drop_top [OF 1(2)])
    have t: "f_ns (last (n_array Nr)) = f_ns (last (n_array Nw))" "\<not> length (n_array Nr) \<le> n_tare Nr"
      using sim_tops [OF 1(2)] False by auto
    show ?thesis
      using 1(1) [OF False _ s] s t False by (subst (1 2) popUptoNamespace.simps) simp
  qed
qed

section \<open>The stack operations keep the relation\<close>

lemma index_of_sim: "list_all2 (frame_sim G) fs gs \<Longrightarrow> index_of ns gs = index_of ns fs"
  by (induction rule: list_all2_induct) (auto simp: frame_sim_def)

lemma index_of_Some: "index_of ns fs = Some i \<Longrightarrow> i < length fs \<and> f_ns (fs ! i) = ns"
  by (induction fs arbitrary: i) (auto split: if_splits)

lemma visible_nth: "n_tare N \<le> length (n_array N) \<Longrightarrow> n_array N ! (n_tare N + i) = visible N ! i"
  by (simp add: visible_def)

lemma frame_of_visible:
  "n_tare N \<le> length (n_array N) \<Longrightarrow> frame_of N ns = Some (i, f)
    \<longleftrightarrow> index_of ns (visible N) = Some i \<and> i < 2 ^ 31 \<and> f = visible N ! i"
  by (auto simp: frame_of_def namespaceId_def visible_nth visible_def [symmetric] split: option.splits if_splits)

lemma frame_of_sim:
  assumes "sim G Nw Nr" "frame_of Nw ns = Some (i, f)"
  shows "\<exists>g. frame_of Nr ns = Some (i, g) \<and> frame_sim G f g \<and> f_ns f = ns \<and> i < length (visible Nr) \<and> i < 2 ^ 31 \<and> g = visible Nr ! i"
proof -
  have l: "list_all2 (frame_sim G) (visible Nw) (visible Nr)"
    and t: "n_tare Nw \<le> length (n_array Nw)" "n_tare Nr \<le> length (n_array Nr)" using assms(1) by (auto simp: sim_def)
  have i: "index_of ns (visible Nw) = Some i" "i < 2 ^ 31" "f = visible Nw ! i"
    using assms(2) frame_of_visible [OF t(1)] by auto
  then show ?thesis
    using index_of_sim [OF l, of ns] index_of_Some [OF i(1)] list_all2_lengthD [OF l] list_all2_nthD [OF l, of i]
      frame_of_visible [OF t(2), of ns i] by auto
qed

lemma entry_sym_sim:
  assumes w: "world_ok G" and s: "sim G Nw Nr" and e: "entry_sym (e_ext (g_w G)) Nw e = Some y"
  shows "entry_sym (x_ext (g_r G)) Nr e = Some y" "ref_sym G e = Some y"
proof -
  have "entry_sym (x_ext (g_r G)) Nr e = Some y \<and> ref_sym G e = Some y"
  proof (cases e)
    case (Local ns i)
    with e obtain k f where f: "frame_of Nw ns = Some (k, f)" "i < length (f_syms f)" "y = f_syms f ! i"
      by (auto simp: entry_sym_def split: option.splits if_splits)
    from frame_of_sim [OF s f(1)] obtain g where g: "frame_of Nr ns = Some (k, g)" "frame_sim G f g" "f_ns f = ns" by blast
    have "f_syms f = g_syms G ns \<and> f_syms g = f_syms f"
      using g f(2) by (auto simp: frame_sim_def split: option.splits)
    then show ?thesis using Local f g by (simp add: entry_sym_def ref_sym_def)
  next
    case (Ext ns n)
    then show ?thesis using e w by (simp add: entry_sym_def ref_sym_def world_ok_def)
  qed
  then show "entry_sym (x_ext (g_r G)) Nr e = Some y" "ref_sym G e = Some y" by auto
qed

lemma sim_setCode:
  assumes "world_ok G" "sim G Nw Nr" "code_ok G c" "entry_sym (e_ext (g_w G)) Nw e = Some y"
  shows "sim G (setCode (e_ext (g_w G)) e c Nw) (setCode (x_ext (g_r G)) e (erase c) Nr)"
  using assms entry_sym_sim [OF assms(1,2,4)]
  by (auto simp: setCode_def sim_def codes_sim_def visible_def)

lemma function_of_sim:
  assumes "sim G Nw Nr" "function_of Nw e = Some d"
  shows "function_of Nr e = Some (if need_declaration d = None then SNull else erase d) \<and> code_ok G (SFunction d)"
proof -
  from assms(2) have "n_codes Nw e = Some (SFunction d)"
    by (auto simp: function_of_def split: option.splits scode.splits)
  with assms(1) have "n_codes Nr e = Some (erase (SFunction d)) \<and> code_ok G (SFunction d)"
    by (auto simp: sim_def codes_sim_def)
  then show ?thesis by (simp add: function_of_def)
qed

definition blk_ok :: "world \<Rightarrow> (nat \<times> sym list \<times> bool) option \<Rightarrow> bool" where
  "blk_ok G x \<longleftrightarrow> (case x of None \<Rightarrow> True | Some (b, ys, m) \<Rightarrow> e_used (g_w G) b = None \<and> g_syms G b = ys)"

lemma as_block_ok: "code_ok G c \<Longrightarrow> blk_ok G (as_block c)"
  by (drule code_ok_node) (cases c; simp add: blk_ok_def as_block_def block_ok_def)

lemma sim_push_pop:
  "sim G Nw Nr \<Longrightarrow> blk_ok G x \<Longrightarrow> sim G (push_block x Nw) (push_block x Nr)"
  "sim G Nw Nr \<Longrightarrow> sim G (pop_block x Nw) (pop_block x Nr)"
  by (auto simp: push_block_def pop_block_def blk_ok_def sim_push_block sim_popNamespace split: option.splits)

section \<open>Writers and readers that fit\<close>

definition run :: "string \<Rightarrow> nstack \<Rightarrow> nat list \<Rightarrow> rst" where
  "run bs N as = \<lparr>r_str = istr bs, r_ns = N, r_new = as\<rparr>"

text \<open>
  The reader gives \<open>v\<close>, uses the addresses \<open>as\<close>, and the writer has appended at least \<open>d\<close> bytes.
\<close>

definition echo :: "world \<Rightarrow> wr \<Rightarrow> 'a rd \<Rightarrow> 'a \<Rightarrow> nat list \<Rightarrow> nat \<Rightarrow> bool" where
  "echo G w r v as d \<longleftrightarrow>
     (\<forall>W W' N. w W = Some W' \<longrightarrow> \<not> ofail (w_str W) \<longrightarrow> sim G (w_ns W) N \<longrightarrow>
        (\<exists>bs. w_str W' = os_write (w_str W) bs \<and> d \<le> length bs
           \<and> (\<forall>rest new. \<exists>N'. r (run (bs @ rest) N (as @ new)) = Ret (Some (v, run rest N' new)) \<and> sim G (w_ns W') N')))"

lemma echoD:
  assumes "echo G w r v as d" "w W = Some W'" "\<not> ofail (w_str W)" "sim G (w_ns W) N"
  obtains bs where "w_str W' = os_write (w_str W) bs" "d \<le> length bs"
    "\<And>rest new. \<exists>N'. r (run (bs @ rest) N (as @ new)) = Ret (Some (v, run rest N' new)) \<and> sim G (w_ns W') N'"
  using assms unfolding echo_def by blast

lemma echo_cong: "echo G w r v' as' d' \<Longrightarrow> v = v' \<Longrightarrow> as = as' \<Longrightarrow> d = d' \<Longrightarrow> echo G w r v as d"
  by simp

lemma echo_ret: "echo G wskip (rret v) v [] 0"
  unfolding echo_def wskip_def rret_def by (intro allI impI exI [of _ "[]"]) auto

lemma echo_fail: "echo G wfail r v as d"
  by (simp add: echo_def wfail_def)

lemma rbind_run: "r R = Ret (Some (v, R')) \<Longrightarrow> rbind r f R = f v R'"
  by (simp add: rbind_def)

lemma rbind_ret [simp]: "rbind (rret v) f = f v" "rbind (rsome (Some v)) f = f v"
  by (simp_all add: rbind_def rret_def rsome_def)

lemma wseq_Some: "wseq f g W = Some W' \<longleftrightarrow> (\<exists>W1. f W = Some W1 \<and> g W1 = Some W')"
  by (simp add: wseq_def split: option.splits)

lemma os_write_inj: "os_write str bs = os_write str cs \<Longrightarrow> \<not> ofail str \<Longrightarrow> bs = cs"
  by (cases str) (simp add: os_write_def)

lemma echo_bind:
  assumes a: "echo G w1 r1 v1 as1 d1" and b: "echo G w2 (f v1) v2 as2 d2"
  shows "echo G (wseq w1 w2) (rbind r1 f) v2 (as1 @ as2) (d1 + d2)"
  unfolding echo_def
proof (intro allI impI)
  fix W W' N assume w: "wseq w1 w2 W = Some W'" and o: "\<not> ofail (w_str W)" and s: "sim G (w_ns W) N"
  then obtain W1 where w1: "w1 W = Some W1" and w2: "w2 W1 = Some W'" by (auto simp: wseq_Some)
  from echoD [OF a w1 o s] obtain bs1 where 1: "w_str W1 = os_write (w_str W) bs1" "d1 \<le> length bs1"
    "\<And>rest new. \<exists>N'. r1 (run (bs1 @ rest) N (as1 @ new)) = Ret (Some (v1, run rest N' new)) \<and> sim G (w_ns W1) N'" by blast
  have o1: "\<not> ofail (w_str W1)" using o 1 by simp
  have two: "\<exists>bs. w_str W' = os_write (w_str W1) bs \<and> d2 \<le> length bs \<and>
      (\<forall>rest new. \<exists>N''. f v1 (run (bs @ rest) N' (as2 @ new)) = Ret (Some (v2, run rest N'' new)) \<and> sim G (w_ns W') N'')"
    if "sim G (w_ns W1) N'" for N'
    using echoD [OF b w2 o1 that] by (metis (no_types))
  from 1(3) obtain N0 where "sim G (w_ns W1) N0" by blast
  from two [OF this] obtain bs2 where 2: "w_str W' = os_write (w_str W1) bs2" "d2 \<le> length bs2" by blast
  have inj: "bs = bs2" if "w_str W' = os_write (w_str W1) bs" for bs
    using os_write_inj [of "w_str W1" bs bs2] that 2 o1 by simp
  show "\<exists>bs. w_str W' = os_write (w_str W) bs \<and> d1 + d2 \<le> length bs \<and>
      (\<forall>rest new. \<exists>N'. rbind r1 f (run (bs @ rest) N ((as1 @ as2) @ new)) = Ret (Some (v2, run rest N' new)) \<and> sim G (w_ns W') N')"
  proof (intro exI [of _ "bs1 @ bs2"] conjI allI)
    fix rest new
    from 1(3) [of "bs2 @ rest" "as2 @ new"] obtain N1 where
      n1: "r1 (run (bs1 @ bs2 @ rest) N (as1 @ as2 @ new)) = Ret (Some (v1, run (bs2 @ rest) N1 (as2 @ new)))" "sim G (w_ns W1) N1"
      by blast
    from two [OF n1(2)] inj obtain N2 where
      "f v1 (run (bs2 @ rest) N1 (as2 @ new)) = Ret (Some (v2, run rest N2 new))" "sim G (w_ns W') N2" by blast
    with n1(1) show "\<exists>N'. rbind r1 f (run ((bs1 @ bs2) @ rest) N ((as1 @ as2) @ new)) = Ret (Some (v2, run rest N' new)) \<and> sim G (w_ns W') N'"
      by (auto simp: rbind_run)
  qed (use 1 2 in simp_all)
qed

text \<open>Steps of the stack alone.\<close>

lemma echo_ns: "(\<And>Nw Nr. sim G Nw Nr \<Longrightarrow> sim G (f Nw) (g Nr)) \<Longrightarrow> echo G (wns f) (rns g) () [] 0"
  unfolding echo_def wns_def rns_def run_def by (intro allI impI exI [of _ "[]"]) auto

lemma echo_with:
  assumes "\<And>Nw Nr a. sim G Nw Nr \<Longrightarrow> look Nw = Some a \<Longrightarrow> look' Nr = g a"
    and "\<And>a. (\<exists>Nw Nr. sim G Nw Nr \<and> look Nw = Some a) \<Longrightarrow> echo G (w a) (f (g a)) v as d"
  shows "echo G (wwith look w) (rbind (rlook look') f) v as d"
  unfolding echo_def
proof (intro allI impI)
  fix W W' N assume w: "wwith look w W = Some W'" and o: "\<not> ofail (w_str W)" and s: "sim G (w_ns W) N"
  then obtain a where a: "look (w_ns W) = Some a" "w a W = Some W'" by (auto simp: wwith_def split: option.splits)
  have "rbind (rlook look') f (run bs N new) = f (g a) (run bs N new)" for bs new
    using assms(1) [OF s a(1)] by (simp add: rbind_def rlook_def run_def)
  with echoD [OF assms(2) a(2) o s] a(1) s show "\<exists>bs. w_str W' = os_write (w_str W) bs \<and> d \<le> length bs \<and>
      (\<forall>rest new. \<exists>N'. rbind (rlook look') f (run (bs @ rest) N (as @ new)) = Ret (Some (v, run rest N' new)) \<and> sim G (w_ns W') N')"
    by (metis (no_types, lifting))
qed

lemma echo_reader:
  assumes "echo G w r v as d" and "\<And>R R'. r R = Ret (Some (v, R')) \<Longrightarrow> r' R = Ret (Some (v', R'))"
  shows "echo G w r' v' as d"
  using assms(1) unfolding echo_def by (meson assms(2))

lemma echo_map: "echo G w r v as d \<Longrightarrow> echo G w (rbind r (\<lambda>x. rret (f x))) (f v) as d"
  by (erule echo_reader) (auto simp: rbind_run rret_def)

lemma wseq_skip [simp]: "wseq w wskip = w" "wseq wskip w = w"
  by (auto simp: wseq_def wskip_def split: option.splits)

end
