(* ===== verification/Code_Echo.thy ===== *)
theory Code_Echo
  imports Code_Sim
begin

text \<open>
  The fits of writers and readers of numbers, texts, types, values, entries, points, symbols, declarations and lists of
  codes.
\<close>

section \<open>Depths are bounded by the bytes\<close>

lemma length_head_bytes [simp]: "length (head_bytes k q) = 7"
  by (simp add: head_bytes_def int32_bytes_def bool_byte_def)

lemma concat_length_ge: "x \<in> set xs \<Longrightarrow> length (f x) \<le> length (concat (map f xs))"
  by (induction xs) auto

lemma Max_bytes:
  assumes "\<And>t. t \<in> set ts \<Longrightarrow> type_depth t \<le> length (type_bytes t)"
  shows "Max (insert 0 (set (map type_depth ts))) \<le> length (concat (map type_bytes ts))"
  using assms by (auto intro!: order_trans [OF _ concat_length_ge])

lemma type_depth_bytes: "type_depth t \<le> length (type_bytes t)"
proof (induction t)
  case (TupleType ts q)
  then have "Max (insert 0 (set (map type_depth ts))) \<le> length (concat (map type_bytes ts))" by (rule Max_bytes)
  then show ?case unfolding type_depth.simps type_bytes.simps length_append length_head_bytes by linarith
next
  case (FunctionType r a q)
  show ?case
  proof (cases a)
    case (Some p)
    obtain ts q' where p: "p = (ts, q')" by (cases p)
    define M where "M = Max (insert 0 (set (map type_depth ts)))"
    have "M \<le> length (concat (map type_bytes ts))"
      unfolding M_def by (rule Max_bytes) (use FunctionType Some p in auto)
    then show ?thesis
      using FunctionType(1) unfolding Some p type_depth.simps option.case prod.case M_def [symmetric] type_bytes.simps by simp
  qed (use FunctionType in simp)
qed auto

lemma foldr_max_bytes:
  assumes "\<And>x. x \<in> set xs \<Longrightarrow> g x \<le> length (f x)"
  shows "foldr (\<lambda>x. max (g x)) xs 0 \<le> length (concat (map f xs))"
  using assms by (induction xs) (auto simp: le_SucI trans_le_add1 trans_le_add2)

lemma depth_encode: "depth v \<le> length (encode cd v)"
proof (induction v)
  case (YMap m)
  have "max (depth (fst p)) (depth (snd p)) \<le> length (encode cd (fst p) @ encode cd (snd p))" if "p \<in> set m" for p
    using YMap [of p] that by (cases p) (fastforce simp: trans_le_add1 trans_le_add2)
  then show ?case using foldr_max_bytes [of m "\<lambda>p. max (depth (fst p)) (depth (snd p))" "\<lambda>p. encode cd (fst p) @ encode cd (snd p)"]
    by (simp add: comp_def)
next
  case (YList xs)
  then show ?case using foldr_max_bytes [of xs depth "encode cd"] by simp
next
  case (YTerm s xs)
  then show ?case using foldr_max_bytes [of xs depth "encode cd"] by simp
qed simp_all

section \<open>The fits of the basic writers\<close>

lemma echo_put:
  assumes "\<And>str. \<not> ofail str \<Longrightarrow> f str = os_write str bs" and "d \<le> length bs"
    and "\<And>rest N new. r (run (bs @ rest) N new) = Ret (Some (v, run rest N new))"
  shows "echo G (wput f) r v [] d"
  unfolding echo_def wput_def
  by (intro allI impI exI [of _ bs]) (use assms in auto)

lemma rstr_run: "f (istr bs) = (v, istr rest) \<Longrightarrow> rstr f (run bs N new) = Ret (Some (v, run rest N new))"
  by (simp add: rstr_def run_def)

lemma rout_run: "f (istr bs) = Ret (v, istr rest) \<Longrightarrow> rout f (run bs N new) = Ret (Some (v, run rest N new))"
  by (simp add: rout_def run_def)

lemma echo_tag: "echo G (wtag k) rget (Some (char_of k)) [] 1"
  unfolding wtag_def rget_def by (rule echo_put [where bs = "[char_of k]"]) (auto intro: rstr_run)

lemma echo_bool: "echo G (wbool b) (rbool X) b [] 0"
  unfolding wbool_def rbool_def by (rule echo_put [where bs = "bool_byte b"]) (auto simp: writeBool_byte intro: rstr_run)

lemma echo_int1: "d \<le> 5 \<Longrightarrow> echo G (wint n) (rint X) n [] d"
  unfolding wint_def rint_def
  by (rule echo_put [where bs = "int32_bytes n"]) (auto simp: writeInt32_int32_bytes int32_bytes_def [of n] readInt32_write intro: rstr_run)

lemmas echo_int = echo_int1 [of 0, simplified]

lemma c_str_plain [simp]: "plain_text s \<Longrightarrow> c_str s = s"
  by (simp add: plain_text_def)

lemma text_reads:
  assumes "plain_text s"
  shows "readString junk (istr (text_bytes s @ rest)) = ((s \<noteq> [], s), istr rest)"
    and "readUstring junk (istr (text_bytes s @ rest)) = (s, istr rest)"
    and "readCharp junk (istr (text_bytes s @ rest)) = (Some s, istr rest)"
proof -
  from assms show "readString junk (istr (text_bytes s @ rest)) = ((s \<noteq> [], s), istr rest)"
    by (simp add: plain_text_def readString_text)
  show "readUstring junk (istr (text_bytes s @ rest)) = (s, istr rest)"
    "readCharp junk (istr (text_bytes s @ rest)) = (Some s, istr rest)"
    using assms fits_pos [of s] by (auto simp: plain_text_def readUstring_def readCharp_def text_bytes_def is_read_append is_good_def)
qed

lemma write_text: "plain_text s \<Longrightarrow> writeString str s = os_write str (text_bytes s)"
  by (simp add: plain_text_def writeString_bytes text_bytes_def)

lemma echo_charp: "plain_text s \<Longrightarrow> echo G (wcharp s) (rcharp X) (Some s) [] 0"
  unfolding wcharp_def rcharp_def
  by (rule echo_put [where bs = "text_bytes s"]) (auto simp: writeCharp_def write_text text_reads intro: rstr_run)

lemma echo_string_charp: "plain_text s \<Longrightarrow> echo G (wstring s) (rcharp X) (Some s) [] 0"
  unfolding wstring_def rcharp_def
  by (rule echo_put [where bs = "text_bytes s"]) (auto simp: write_text text_reads intro: rstr_run)

lemma echo_ustring: "plain_text s \<Longrightarrow> echo G (wstring s) (rustring X) s [] 0"
  unfolding wstring_def rustring_def
  by (rule echo_put [where bs = "text_bytes s"]) (auto simp: write_text text_reads intro: rstr_run)

lemma echo_string: "plain_text s \<Longrightarrow> echo G (wstring s) (rstring X) s [] 0"
  unfolding wstring_def rstring_def
proof (rule echo_put [where bs = "text_bytes s"])
  fix rest N new assume s: "plain_text s"
  have "rstr (readString (x_junk X)) (run (text_bytes s @ rest) N new) = Ret (Some ((s \<noteq> [], s), run rest N new))"
    by (rule rstr_run) (simp add: text_reads [OF s])
  then show "rbind (rstr (readString (x_junk X))) (\<lambda>r. rret (snd r)) (run (text_bytes s @ rest) N new) = Ret (Some (s, run rest N new))"
    by (simp add: rbind_run rret_def)
qed (simp_all add: write_text)

lemma echo_type: "storable_type t \<Longrightarrow> echo G (wtype t) (rtype X) t [] 0"
  unfolding wtype_def rtype_def
  by (rule echo_put [where bs = "type_bytes t"])
    (use type_depth_bytes [of t] in \<open>auto simp: writeType_bytes readType_bytes intro!: rout_run\<close>)

lemma echo_value:
  assumes "world_ok G" "storable (g_float G) v"
  shows "echo G (wput (\<lambda>str. writeValue (e_codec (g_w G)) str v)) (rvalue (g_r G)) v [] 0"
  unfolding rvalue_def
  by (rule echo_put [where bs = "encode (e_codec (g_w G)) v"])
    (use assms depth_encode [of v "e_codec (g_w G)"] in
      \<open>auto simp: world_ok_def writeValue_encode [where okf = "g_float G"] readValue_encode [where okf = "g_float G"] intro!: rout_run\<close>)

text \<open>The payload of a constant: what a value writes behind its tag.\<close>

lemma toStream_payload:
  assumes "okc cd okf" "storable okf v" "\<not> ofail str"
  shows "toStream cd str v = os_write str (tl (encode cd v))"
proof -
  have nn: "v \<noteq> YNull" using assms(2) by auto
  show ?thesis
  proof (cases v)
    case (YMap m)
    have "writePairs cd (writeInt32 str (of_nat (length m))) m
        = os_write (writeInt32 str (of_nat (length m))) (concat (map (\<lambda>p. encode cd (fst p) @ encode cd (snd p)) m))"
      by (rule writePairs_encode) (use assms YMap in \<open>auto simp: list_all_iff writeInt32_int32_bytes intro!: writeValue_encode\<close>)
    then show ?thesis using YMap by (simp add: writeInt32_int32_bytes)
  next
    case (YList xs)
    then show ?thesis
      using assms writeValue_encode [OF assms(1)] by (auto simp: list_all_iff writeInt32_int32_bytes writeValues_encode)
  next
    case (YTerm s xs)
    then show ?thesis
      using assms writeValue_encode [OF assms(1)]
      by (auto simp: list_all_iff writeInt32_int32_bytes writeValues_encode writeString_bytes text_bytes_def)
  qed (use assms in \<open>auto simp: writeInt32_int32_bytes writeBool_def writeInteger_def
      writeString_bytes writeBytep_def Let_def take_fits okc_def text_bytes_def\<close>)
qed

lemma encode_tag: "storable okf v \<Longrightarrow> encode cd v = char_of (valuetype v) # tl (encode cd v) \<and> valuetype v \<le> 10"
  by (cases v) auto

lemma readPayload_encode:
  assumes "okc cd okf" "storable okf v" "depth v < n"
  shows "readPayload cd junk (readValue cd junk (n - 1)) (valuetype v) (istr (tl (encode cd v) @ rest)) = Ret (v, istr rest)"
proof -
  obtain k where n: "n = Suc k" using assms(3) by (cases n) auto
  have e: "encode cd v @ rest = char_of (valuetype v) # tl (encode cd v) @ rest" "ccode (char_of (valuetype v)) = valuetype v"
    using encode_tag [OF assms(2), of cd] by auto
  show ?thesis
    using readValue_encode [OF assms, of junk rest] e by (simp add: n readValue.simps)
qed

lemma echo_payload:
  assumes w: "world_ok G" and v: "storable (g_float G) v"
  shows "echo G (wput (\<lambda>str. toStream (e_codec (g_w G)) str v)) (rpayload (g_r G) (valuetype v)) v [] 0"
  unfolding rpayload_def
proof (rule echo_put [where bs = "tl (encode (e_codec (g_w G)) v)"])
  have ok: "okc (e_codec (g_w G)) (g_float G)" and c: "x_codec (g_r G) = e_codec (g_w G)" using w by (auto simp: world_ok_def)
  show "\<not> ofail str \<Longrightarrow> toStream (e_codec (g_w G)) str v = os_write str (tl (encode (e_codec (g_w G)) v))" for str
    by (rule toStream_payload [OF ok v])
  fix rest N new
  let ?bs = "tl (encode (e_codec (g_w G)) v) @ rest"
  have "depth v < Suc (Suc (length ?bs))"
    using depth_encode [of v "e_codec (g_w G)"] by simp
  from readPayload_encode [OF ok v this, of "x_junk (g_r G)" rest] c
  show "rout (\<lambda>str. readPayload (x_codec (g_r G)) (x_junk (g_r G)) (readValue (x_codec (g_r G)) (x_junk (g_r G)) (Suc (left str))) (valuetype v) str)
      (run ?bs N new) = Ret (Some (v, run rest N new))"
    by (intro rout_run) simp
qed simp

section \<open>Entries, points, symbols, declarations\<close>

lemma sint_of_nat_32: "i < 2 ^ 31 \<Longrightarrow> sint (of_nat i :: uint32) = int i"
  by (simp add: signed_of_nat signed_take_bit_int_eq_self)

lemma unat_of_nat_32: "i < 2 ^ 31 \<Longrightarrow> unat (of_nat i :: uint32) = i"
  by (simp add: unat_of_nat)

lemma sint_neg_32: "j < 2 ^ 31 \<Longrightarrow> sint (- of_nat j - 1 :: uint32) = - int j - 1"
proof -
  assume j: "j < 2 ^ 31"
  have "(- of_nat j - 1 :: uint32) = of_int (- int j - 1)" by simp
  also have "sint \<dots> = - int j - 1"
    using j by (simp only: signed_of_int) (simp add: signed_take_bit_int_eq_self)
  finally show ?thesis .
qed

lemma takeWhile_less: "x \<in> set xs \<Longrightarrow> \<not> P x \<Longrightarrow> length (takeWhile P xs) < length xs"
  by (induction xs) auto

lemma name_index_nth: "name_index s us = Some j \<Longrightarrow> j < length us \<and> fst (us ! j) = s"
proof -
  assume "name_index s us = Some j"
  then have s: "s \<in> fst ` set us" and j: "j = length (takeWhile (\<lambda>u. fst u \<noteq> s) us)"
    by (auto simp: name_index_def split: if_splits)
  then have "j < length us" by (auto intro: takeWhile_less)
  with nth_length_takeWhile [of "\<lambda>u. fst u \<noteq> s" us] j show ?thesis by simp
qed

lemma entry_at_Local:
  assumes w: "world_ok G" and s: "sim G Nw Nr" and f: "frame_of Nw ns = Some (k, f)" and i: "i < length (f_syms f)"
  shows "entry_at Nr (of_nat k) (y_position (f_syms f ! i)) = Some (Some (Local ns i))"
proof -
  from frame_of_sim [OF s f] obtain g where g: "frame_sim G f g" "f_ns f = ns" "k < length (visible Nr)" "k < 2 ^ 31" "g = visible Nr ! k"
    by blast
  have y: "f_syms f = g_syms G ns" "f_syms g = f_syms f" "f_ns g = ns"
    using g i by (auto simp: frame_sim_def split: option.splits)
  have p: "y_position (f_syms f ! i) = of_nat i" "i < 2 ^ 31"
    using w i y unfolding world_ok_def by (auto intro: less_trans)
  have "namespacePtr Nr (int k) = Some g"
    using g s by (simp add: namespacePtr_def Let_def visible_def sim_def add.commute)
  then show ?thesis
    using g y p i by (simp add: entry_at_def sint_of_nat_32 unat_of_nat_32)
qed

lemma entry_at_Ext:
  assumes w: "world_ok G" and s: "sim G Nw Nr" and f: "frame_of Nw ns = Some (k, f)" and u: "e_used (g_w G) ns = Some us"
    and j: "name_index n us = Some j"
  shows "entry_at Nr (of_nat k) (- of_nat j - 1) = Some (Some (Ext ns n))"
proof -
  from frame_of_sim [OF s f] obtain g where g: "frame_sim G f g" "f_ns f = ns" "k < length (visible Nr)" "k < 2 ^ 31" "g = visible Nr ! k"
    by blast
  have t: "f_ns g = ns" "f_table g" using g u by (auto simp: frame_sim_def)
  have n: "j < length us" "fst (us ! j) = n" using name_index_nth [OF j] by auto
  then have j31: "j < 2 ^ 31" using w u by (fastforce simp: world_ok_def)
  have "g \<in> set (visible Nr)" using g by simp
  then have "0 < imports_of ns (visible Nr)" using t by (auto simp: imports_of_def filter_empty_conv)
  then obtain m where m: "imports_of ns (visible Nr) = Suc m" by (cases "imports_of ns (visible Nr)") auto
  have "take (Suc m) (n_xrefs Nr ns) = replicate (Suc m) (map fst us)"
    using s u m unfolding sim_def xrefs_sim_def by metis
  then obtain xs where x: "n_xrefs Nr ns = map fst us # xs" by (cases "n_xrefs Nr ns") auto
  have "namespacePtr Nr (int k) = Some g"
    using g s by (simp add: namespacePtr_def Let_def visible_def sim_def add.commute)
  then show ?thesis
    using g t n x j31 by (simp add: entry_at_def sint_of_nat_32 sint_neg_32 xref_at_def)
qed

text \<open>Entries look at the stack before they write; the state does not change.\<close>

lemma echo_entry_aux:
  assumes "wseq (wint i) (wint p) W = Some W'" "\<not> ofail (w_str W)" "sim G (w_ns W) N" "entry_at N i p = Some e"
  shows "\<exists>bs. w_str W' = os_write (w_str W) bs \<and> 0 \<le> length bs \<and>
      (\<forall>rest new. \<exists>N'. readEntry X (run (bs @ rest) N ([] @ new)) = Ret (Some (e, run rest N' new)) \<and> sim G (w_ns W') N')"
proof (intro exI [of _ "int32_bytes i @ int32_bytes p"] conjI allI)
  show "w_str W' = os_write (w_str W) (int32_bytes i @ int32_bytes p)"
    using assms(1) by (auto simp: wseq_Some wint_def wput_def writeInt32_int32_bytes)
  fix rest new
  have "rint X (run ((int32_bytes i @ int32_bytes p) @ rest) N new) = Ret (Some (i, run (int32_bytes p @ rest) N new))"
    "rint X (run (int32_bytes p @ rest) N new) = Ret (Some (p, run rest N new))"
    by (auto simp: rint_def intro!: rstr_run)
  moreover have "sim G (w_ns W') N" using assms(1,3) by (auto simp: wseq_Some wint_def wput_def)
  ultimately show "\<exists>N'. readEntry X (run ((int32_bytes i @ int32_bytes p) @ rest) N ([] @ new)) = Ret (Some (e, run rest N' new)) \<and> sim G (w_ns W') N'"
    using assms(4) by (intro exI [of _ N]) (simp add: readEntry_def rbind_run rlook_def run_def rbind_def rsome_def rret_def)
qed simp

lemma echo_entry:
  assumes w: "world_ok G"
  shows "echo G (writeEntry (g_w G) e) (readEntry X) (Some e) [] 0"
  unfolding echo_def
proof (intro allI impI)
  fix W W' N assume wr: "writeEntry (g_w G) e W = Some W'" and o: "\<not> ofail (w_str W)" and s: "sim G (w_ns W) N"
  show "\<exists>bs. w_str W' = os_write (w_str W) bs \<and> 0 \<le> length bs \<and>
      (\<forall>rest new. \<exists>N'. readEntry X (run (bs @ rest) N ([] @ new)) = Ret (Some (Some e, run rest N' new)) \<and> sim G (w_ns W') N')"
  proof (cases e)
    case (Local ns i)
    with wr obtain k f where f: "frame_of (w_ns W) ns = Some (k, f)" "i < length (f_syms f)"
        and x: "wseq (wint (of_nat k)) (wint (y_position (f_syms f ! i))) W = Some W'"
      by (auto simp: writeEntry_def wwith_def wseq_def wfail_def split: option.splits if_splits)
    from echo_entry_aux [OF x o s entry_at_Local [OF w s f]] Local show ?thesis by simp
  next
    case (Ext ns n)
    with wr obtain k f us j where f: "frame_of (w_ns W) ns = Some (k, f)" "e_used (g_w G) ns = Some us" "name_index n us = Some j"
        and x: "wseq (wint (of_nat k)) (wint (- of_nat j - 1)) W = Some W'"
      by (auto simp: writeEntry_def wwith_def wseq_def wfail_def wopt_def split: option.splits)
    from echo_entry_aux [OF x o s entry_at_Ext [OF w s f]] Ext show ?thesis by simp
  qed
qed

lemma echo_entry_used: "world_ok G \<Longrightarrow> echo G (writeEntry (g_w G) e) (readEntry_used X) e [] 0"
  by (rule echo_reader [OF echo_entry [of G e X]]) (auto simp: readEntry_used_def rbind_run rsome_def rret_def)

lemma echo_opt: "(\<And>x. z = Some x \<Longrightarrow> echo G (w x) r (Some x) as d) \<Longrightarrow> echo G (wopt w z) r z as d"
  by (cases z) (auto simp: wopt_def echo_fail)

lemma echo_maybe:
  assumes "\<And>x. z = Some x \<Longrightarrow> echo G (w x) r (v x) (as x) (d x)"
  shows "echo G (wmaybe (map_option w z)) (rmaybe X r) (map_option v z) (concat (map as (olist z))) (sum_list (map d (olist z)))"
proof (cases z)
  case None
  then show ?thesis
    unfolding wmaybe_def rmaybe_def
    by (auto simp: rbind_def rret_def intro!: echo_reader [OF echo_bool [of G False X]])
next
  case (Some x)
  show ?thesis
    unfolding wmaybe_def rmaybe_def Some
    using echo_bind [OF echo_bool [of G True X], of "w x" "\<lambda>b. if b then rbind r (\<lambda>v. rret (Some v)) else rret None"]
      echo_map [OF assms [OF Some], of Some] by simp
qed

lemma echo_rtimes:
  "(\<And>x. x \<in> set xs \<Longrightarrow> echo G (w x) r (v x) (as x) (d x))
   \<Longrightarrow> echo G (wlist (map w xs)) (rtimes (length xs) r) (map v xs) (concat (map as xs)) (sum_list (map d xs))"
proof (induction xs)
  case (Cons x xs)
  have "echo G (wlist (map w xs)) (rbind (rtimes (length xs) r) (\<lambda>vs. rret (v x # vs))) (v x # map v xs) (concat (map as xs)) (sum_list (map d xs))"
    by (rule echo_map [OF Cons.IH]) (use Cons.prems in simp)
  then show ?case
    using Cons.prems [of x] by (simp, intro echo_bind [where ?v1.0 = "v x"]) simp_all
qed (simp add: echo_ret)

lemma echo_codes:
  "(\<And>x. x \<in> set xs \<Longrightarrow> echo G (w x) r (v x) (as x) (d x) \<and> v x \<noteq> SNull)
   \<Longrightarrow> echo G (wlist (map w xs)) (read_codes (length xs) r) (True, map v xs) (concat (map as xs)) (sum_list (map d xs))"
proof (induction xs)
  case Nil
  have "rbind rgood (\<lambda>g. rret (g, [])) (run bs N new) = Ret (Some ((True, [] :: scode list), run bs N new))" for bs N new
    by (simp add: rbind_def rgood_def rret_def run_def is_good_def)
  then show ?case
    unfolding echo_def list.map wlist.simps wskip_def by (intro allI impI exI [of _ "[]"]) auto
next
  case (Cons x xs)
  have "echo G (wlist (map w xs)) (rbind (read_codes (length xs) r) (\<lambda>(g, cs). rret (g, v x # cs))) (True, v x # map v xs)
      (concat (map as xs)) (sum_list (map d xs))"
    using echo_map [OF Cons.IH, of "\<lambda>p. (fst p, v x # snd p)"] Cons.prems by (simp add: case_prod_unfold)
  then have "echo G (wlist (map w xs)) (if v x = SNull then rret (False, []) else rbind (read_codes (length xs) r) (\<lambda>(g, cs). rret (g, v x # cs)))
      (True, v x # map v xs) (concat (map as xs)) (sum_list (map d xs))"
    using Cons.prems by simp
  then show ?case
    using Cons.prems [of x] by (simp, intro echo_bind [where ?v1.0 = "v x"]) simp_all
qed

lemma echo_params:
  "(\<And>x. x \<in> set xs \<Longrightarrow> echo G (w x) r (v x) (as x) (d x) \<and> v x \<noteq> SNull)
   \<Longrightarrow> echo G (wlist (map w xs)) (read_params (length xs) r) (Some (map v xs)) (concat (map as xs)) (sum_list (map d xs))"
proof (induction xs)
  case (Cons x xs)
  have "echo G (wlist (map w xs)) (rbind (read_params (length xs) r) (\<lambda>cs. rret (map_option (Cons (v x)) cs))) (Some (v x # map v xs))
      (concat (map as xs)) (sum_list (map d xs))"
    using echo_map [OF Cons.IH, of "map_option (Cons (v x))"] Cons.prems by simp
  then have "echo G (wlist (map w xs)) (if v x = SNull then rret None else rbind (read_params (length xs) r) (\<lambda>cs. rret (map_option (Cons (v x)) cs)))
      (Some (v x # map v xs)) (concat (map as xs)) (sum_list (map d xs))"
    using Cons.prems by simp
  then show ?case
    using Cons.prems [of x] by (simp, intro echo_bind [where ?v1.0 = "v x"]) simp_all
qed (simp add: echo_ret)

lemma echo_stmts:
  "(\<And>x. x \<in> set xs \<Longrightarrow> echo G (w x) r (v x) (as x) (d x) \<and> isStatement (v x))
   \<Longrightarrow> echo G (wlist (map w xs)) (read_stmts (length xs) r) (map v xs) (concat (map as xs)) (sum_list (map d xs))"
proof (induction xs)
  case (Cons x xs)
  have "echo G (wlist (map w xs)) (rbind (read_stmts (length xs) r) (\<lambda>cs. rret (v x # cs))) (v x # map v xs)
      (concat (map as xs)) (sum_list (map d xs))"
    using echo_map [OF Cons.IH, of "Cons (v x)"] Cons.prems by simp
  then have "echo G (wlist (map w xs)) (if isStatement (v x) then rbind (read_stmts (length xs) r) (\<lambda>cs. rret (v x # cs))
       else case v x of SBlock b m k ys ts p ss \<Rightarrow> if k = 3 then rret [] else rthrow | _ \<Rightarrow> rthrow)
      (v x # map v xs) (concat (map as xs)) (sum_list (map d xs))"
    using Cons.prems by simp
  then show ?case
    using Cons.prems [of x] by (simp, intro echo_bind [where ?v1.0 = "v x"]) simp_all
qed (simp add: echo_ret)

lemma echo_point: "world_ok G \<Longrightarrow> pcount p \<le> n \<Longrightarrow> echo G (writePoint (g_w G) p) (readPoint X n) p [] (pcount p)"
proof (induction p arbitrary: n)
  case (Point e l q)
  then obtain m where n: "n = Suc m" by (cases n) auto
  have q: "echo G (wmaybe (map_option (writePoint (g_w G)) q)) (rmaybe X (readPoint X m)) (map_option id q) (concat (map (\<lambda>_. []) (olist q)))
      (sum_list (map pcount (olist q)))"
    by (rule echo_maybe) (use Point n in auto)
  have q': "map_option id q = q" "concat (map (\<lambda>_. []) (olist q)) = ([] :: nat list)" "pcount (Point e l q) = 0 + (1 + sum_list (map pcount (olist q)))"
    by (simp_all add: option.map_id olist_def split: option.splits)
  have "echo G (wseq (wopt (writeEntry (g_w G)) e) (wseq (wint l) (wmaybe (map_option (writePoint (g_w G)) q))))
      (rbind (readEntry X) (\<lambda>e. rbind (rint X) (\<lambda>l. rbind (rmaybe X (readPoint X m)) (\<lambda>p. rret (Point e l p)))))
      (Point e l q) ([] @ [] @ []) (0 + (1 + sum_list (map pcount (olist q))))"
    by (rule echo_bind [where ?v1.0 = e], rule echo_opt, rule echo_entry [OF Point.prems(1)],
      rule echo_bind [where ?v1.0 = l], rule echo_int1, simp, rule echo_map [OF q [unfolded q']])
  then show ?case
    by (simp only: q'(3) n readPoint.simps writePoint.simps wlist.simps wseq_skip append_Nil)
qed

lemma echo_bind_some:
  "echo G w1 r1 (Some v1) as1 d1 \<Longrightarrow> echo G w2 (f v1) v2 as2 d2
   \<Longrightarrow> echo G (wseq w1 w2) (rbind r1 (\<lambda>x. rbind (rsome x) f)) v2 (as1 @ as2) (d1 + d2)"
  by (rule echo_bind, assumption) simp

lemma echo_last: "echo G w r v1 as d \<Longrightarrow> echo G wskip (f v1) v2 [] 0 \<Longrightarrow> echo G w (rbind r f) v2 as d"
  using echo_bind [of G w r v1 as d wskip f v2 "[]" 0] by simp

lemma echo_sym:
  assumes "sym_ok y"
  shows "echo G (writeSym y) (readSym X) y [] 0"
proof -
  have ok: "plain_text (y_name y)" "storable_type (y_type y)" using assms by (auto simp: sym_ok_def)
  have "echo G (wseq (wbool (y_global y)) (wseq (wint (y_position y)) (wseq (wcharp (y_name y)) (wseq (wint (y_category y)) (wseq (wtype (y_type y)) wskip)))))
      (readSym X) (\<lparr>y_global = y_global y, y_position = y_position y, y_name = y_name y, y_category = y_category y, y_type = y_type y\<rparr>)
      ([] @ [] @ [] @ [] @ [] @ []) (0 + (0 + (0 + (0 + (0 + 0)))))"
    unfolding readSym_def
    by (rule echo_bind, rule echo_bool, rule echo_bind, rule echo_int, rule echo_bind_some, rule echo_charp, rule ok,
      rule echo_bind, rule echo_int, rule echo_bind, rule echo_type, rule ok, rule echo_ret)
  then show ?thesis by (cases y) (simp add: writeSym_def)
qed

lemma echo_declaration:
  assumes "decl_ok G d"
  shows "echo G (writeDeclaration d) (readDeclaration (g_r G)) d [] 0"
proof -
  have ok: "plain_text (full_name d)" "storable_type (d_type d)"
      "findDeclaration (x_decls (g_r G)) (full_name d) (d_type d) False = Some (Some d)"
    using assms by (auto simp: decl_ok_def)
  have "echo G (wseq (wcharp (full_name d)) (wtype (d_type d))) (readDeclaration (g_r G)) d ([] @ []) (0 + 0)"
    unfolding readDeclaration_def
    by (rule echo_bind_some, rule echo_charp, rule ok, rule echo_last, rule echo_type, rule ok)
      (simp add: ok echo_ret)
  then show ?thesis by (simp add: writeDeclaration_def)
qed

lemma echo_set:
  assumes "world_ok G" "code_ok G c"
  shows "echo G (wset (g_w G) e c) (rns (setCode (x_ext (g_r G)) e (erase c))) () [] 0"
  unfolding echo_def
proof (intro allI impI exI [of _ "[]"])
  fix W W' N assume "wset (g_w G) e c W = Some W'" "sim G (w_ns W) N"
  then show "w_str W' = os_write (w_str W) [] \<and> 0 \<le> length ([] :: string) \<and>
     (\<forall>rest new. \<exists>N'. rns (setCode (x_ext (g_r G)) e (erase c)) (run ([] @ rest) N ([] @ new)) = Ret (Some ((), run rest N' new)) \<and> sim G (w_ns W') N')"
    using sim_setCode [OF assms(1) _ assms(2)]
    by (fastforce simp: wset_def wwith_def wns_def rns_def run_def split: option.splits)
qed

lemma map2_map: "map2 f xs (map h xs) = map (\<lambda>x. f x (h x)) xs"
  by (induction xs) auto

lemma unat_fits: "fits xs \<Longrightarrow> unat (of_nat (length xs) :: uint32) = length xs"
  by simp

section \<open>The fits of the code classes\<close>

text \<open>The reader of one code, over the reader of the codes within it.\<close>

lemma echo_tagged:
  assumes "k < 128" "echo G w (read_tagged X m (readCode X m) k) v as d"
  shows "echo G (wseq (wtag k) w) (readCode X (Suc m)) v as (Suc d)"
proof -
  have "echo G (wseq (wtag k) w) (readCode X (Suc m)) v ([] @ as) (1 + d)"
    unfolding readCode.simps by (rule echo_bind, rule echo_tag) (use assms in simp)
  then show ?thesis by simp
qed

lemma echo_expression:
  assumes "14 \<le> k" "k \<le> 33" "\<not> x_old X" "echo G w (read_expression X m (readCode X m) k) v as d"
  shows "echo G (wseq (wtag k) w) (readCode X (Suc m)) v as (Suc d)"
  by (rule echo_tagged) (use assms in \<open>simp_all add: read_tagged_def\<close>)

lemma echo_statement:
  assumes "35 \<le> k" "k \<le> 53" "\<not> x_old X" "echo G w (read_statement X (readCode X m) k l) v as d"
  shows "echo G (wseq (wtag k) (wseq (wint l) w)) (readCode X (Suc m)) v as (Suc d)"
proof (rule echo_tagged)
  have "echo G (wseq (wint l) w) (rbind (rint X) (read_statement X (readCode X m) k)) v ([] @ as) (0 + d)"
    by (rule echo_bind, rule echo_int, rule assms)
  then show "echo G (wseq (wint l) w) (read_tagged X m (readCode X m) k) v as d"
    using assms by (simp add: read_tagged_def)
qed (use assms in simp)

lemma echo_YCodelist:
  assumes "fits cs" "\<And>x. x \<in> set cs \<Longrightarrow> echo G (w x) r (v x) (as x) (d x) \<and> v x \<noteq> SNull"
  shows "echo G (writeYCodelist (map w cs)) (readYCodelist X r) (True, map v cs) (concat (map as cs)) (sum_list (map d cs))"
proof -
  have "echo G (wseq (wint (of_nat (length cs))) (wlist (map w cs))) (readYCodelist X r) (True, map v cs)
      ([] @ concat (map as cs)) (0 + sum_list (map d cs))"
    unfolding readYCodelist_def by (rule echo_bind, rule echo_int) (use assms in \<open>simp add: echo_codes\<close>)
  then show ?thesis by (simp add: writeYCodelist_def)
qed

lemma echo_call_params:
  assumes "fits cs" "\<And>x. x \<in> set cs \<Longrightarrow> echo G (w x) r (v x) (as x) (d x) \<and> v x \<noteq> SNull"
  shows "echo G (writeYCodelist (map w cs)) (rbind (rint X) (\<lambda>n. read_params (unat n) r)) (Some (map v cs)) (concat (map as cs)) (sum_list (map d cs))"
proof -
  have "echo G (wseq (wint (of_nat (length cs))) (wlist (map w cs))) (rbind (rint X) (\<lambda>n. read_params (unat n) r)) (Some (map v cs))
      ([] @ concat (map as cs)) (0 + sum_list (map d cs))"
    by (rule echo_bind, rule echo_int) (use assms in \<open>simp add: echo_params\<close>)
  then show ?thesis by (simp add: writeYCodelist_def)
qed

end
