(* ===== verification/Code_Classes.thy ===== *)
theory Code_Classes
  imports Code_Echo
begin

text \<open>
  The fits of the code classes whose parts follow each other in the stream: most expressions and statements.
\<close>

section \<open>Codes whose parts are read back\<close>

definition good :: "world \<Rightarrow> nat \<Rightarrow> scode \<Rightarrow> bool" where
  "good G m x \<longleftrightarrow> code_ok G x \<and> echo G (swrite (g_w G) x) (readCode (g_r G) m) (erase x) (blocks x) (weight x)"

lemma good_echo: "good G m x \<Longrightarrow> echo G (swrite (g_w G) x) (readCode (g_r G) m) (erase x) (blocks x) (weight x)"
  by (simp add: good_def)

lemma good_not_null: "good G m x \<Longrightarrow> x \<noteq> SNull"
  by (auto simp: good_def dest: code_ok_node)

lemma erase_good: "good G m x \<Longrightarrow> erase x \<noteq> SNull"
  by (simp add: good_not_null)

lemma echo_list:
  assumes "fits cs" "\<And>x. x \<in> set cs \<Longrightarrow> good G m x"
  shows "echo G (writeYCodelist (map (swrite (g_w G)) cs)) (readYCodelist X (readCode (g_r G) m)) (True, map erase cs) (concat (map blocks cs)) (sum_list (map weight cs))"
  by (rule echo_YCodelist) (use assms in \<open>auto simp: good_echo dest: good_not_null\<close>)

lemma echo_good_maybe:
  assumes "\<And>x. z = Some x \<Longrightarrow> good G m x"
  shows "echo G (wmaybe (map_option (swrite (g_w G)) z)) (rmaybe X (readCode (g_r G) m)) (map_option erase z)
    (concat (map blocks (olist z))) (sum_list (map weight (olist z)))"
  by (rule echo_maybe) (use assms in \<open>simp add: good_echo\<close>)

lemma echo_text_opt: "pred_option plain_text s \<Longrightarrow> echo G (wopt wcharp s) (rcharp X) s [] 0"
  by (rule echo_opt) (auto intro: echo_charp)

lemma echo_put_char: "echo G (wput (\<lambda>str. os_put str p)) (rop X) p [] 0"
  unfolding rop_def by (rule echo_put [where bs = "[p]"]) (auto intro!: rstr_run)

definition own :: "scode \<Rightarrow> nat list" where
  "own c = (case c of SBlock b n k ys ts p ss \<Rightarrow> [b] | _ \<Rightarrow> [])"

lemma echo_bind_pair:
  "echo G w1 r1 (a, b) as1 d1 \<Longrightarrow> echo G w2 (f a b) v2 as2 d2
   \<Longrightarrow> echo G (wseq w1 w2) (rbind r1 (\<lambda>(x, y). f x y)) v2 (as1 @ as2) (d1 + d2)"
  by (rule echo_bind, assumption) simp

lemma echo_expr:
  "14 \<le> k \<Longrightarrow> k \<le> 33 \<Longrightarrow> \<not> x_old X \<Longrightarrow> echo G w (read_expression X m (readCode X m) k) v' as' d'
   \<Longrightarrow> v = v' \<Longrightarrow> as = as' \<Longrightarrow> d = Suc d' \<Longrightarrow> echo G (wseq (wtag k) w) (readCode X (Suc m)) v as d"
  by (simp add: echo_expression)

lemma echo_stmt:
  "35 \<le> k \<Longrightarrow> k \<le> 53 \<Longrightarrow> \<not> x_old X \<Longrightarrow> echo G w (read_statement X (readCode X m) k l) v' as' d'
   \<Longrightarrow> v = v' \<Longrightarrow> as = as' \<Longrightarrow> d = Suc d' \<Longrightarrow> echo G (wseq (wtag k) (wseq (wint l) w)) (readCode X (Suc m)) v as d"
  by (simp add: echo_statement)

lemma echo_stmt0:
  "35 \<le> k \<Longrightarrow> k \<le> 53 \<Longrightarrow> \<not> x_old X \<Longrightarrow> echo G wskip (read_statement X (readCode X m) k l) v' as' d'
   \<Longrightarrow> v = v' \<Longrightarrow> as = as' \<Longrightarrow> d = Suc d' \<Longrightarrow> echo G (wseq (wtag k) (wint l)) (readCode X (Suc m)) v as d"
  using echo_stmt [of k X G wskip m l v' as' d' v as d] by simp

lemma echo_rsome: "echo G wskip (rsome (Some v)) v [] 0"
  using echo_ret [of G v] by (simp add: rsome_def)

lemmas echo_steps = echo_rsome echo_bind_some echo_bind_pair echo_bind echo_ret echo_bool echo_int echo_put_char

text \<open>What the reader has to give for a code, when the codes within it are read back.\<close>

definition node_fits :: "world \<Rightarrow> nat \<Rightarrow> scode \<Rightarrow> bool" where
  "node_fits G m c \<longleftrightarrow>
     echo G (swrite (g_w G) c) (readCode (g_r G) (Suc m)) (erase c) (own c @ concat (map blocks (children c)))
       (Suc (points c + sum_list (map weight (children c))))"

definition parts_fit :: "world \<Rightarrow> nat \<Rightarrow> scode \<Rightarrow> bool" where
  "parts_fit G m c \<longleftrightarrow> world_ok G \<and> node_ok G c \<and> points c \<le> m \<and> (\<forall>x \<in> set (children c). good G m x)"

lemma parts_old: "parts_fit G m c \<Longrightarrow> \<not> x_old (g_r G)"
  by (simp add: parts_fit_def world_ok_def)

lemma parts_echo:
  "parts_fit G m c \<Longrightarrow> x \<in> set (children c)
   \<Longrightarrow> echo G (swrite (g_w G) x) (readCode (g_r G) m) (erase x) (blocks x) (weight x)"
  by (simp add: parts_fit_def good_echo)

lemma parts_good: "parts_fit G m c \<Longrightarrow> x \<in> set (children c) \<Longrightarrow> good G m x"
  by (simp add: parts_fit_def)

lemma parts_node: "parts_fit G m c \<Longrightarrow> node_ok G c" "parts_fit G m c \<Longrightarrow> world_ok G"
  by (simp_all add: parts_fit_def)

lemma echo_entry_opt: "world_ok G \<Longrightarrow> echo G (wopt (writeEntry (g_w G)) e) (readEntry X) e [] 0"
  by (rule echo_opt) (rule echo_entry)

section \<open>Classes whose parts follow each other\<close>

lemmas echo_leaves = echo_type echo_declaration echo_text_opt echo_charp echo_ustring

lemmas class_readers = read_expression_unfold read_statement_unfold read_compare_def read_locale_def read_plural_def

text \<open>All classes but constants, functions, lists, maps, terms, calls, builtins, blocks, variables, imports and switches.\<close>

definition plain_class :: "scode \<Rightarrow> bool" where
  "plain_class c \<longleftrightarrow> skind c \<in> {14, 16, 17, 18, 19, 20, 21, 25, 26, 28, 29, 32, 35, 38, 39, 40, 41, 42, 43, 44, 45, 46, 47, 48, 49, 50, 52}"

lemma fits_plain:
  assumes "parts_fit G m c" "plain_class c" "\<And>k v. c \<noteq> SConst k v"
  shows "node_fits G m c"
  using assms
  by (cases c; simp add: plain_class_def)
    ((frule parts_node(1), frule parts_node(2), unfold node_fits_def swrite_simps wlist.simps,
      (rule echo_expr, (simp; fail), (simp; fail) | rule echo_stmt0, simp, simp | rule echo_stmt, simp, simp),
      rule parts_old, assumption, simp add: class_readers,
      (rule echo_steps | (rule echo_leaves, (simp; fail)) | (rule echo_entry_opt, assumption)
        | (rule echo_good_maybe, rule parts_good, assumption, simp) | (rule parts_echo, assumption, simp) | rule echo_last)+,
      simp_all add: own_def points_def)[1])+

end
