(* ===== verification/Code_Roundtrip.thy ===== *)
theory Code_Roundtrip
  imports Code_Classes
begin

text \<open>
  What is written is read back: the code classes with lists, blocks and functions, imports and switches, and the theorem
  about whole programs.
\<close>

lemma rbind_Some: "rbind r f R = Ret (Some p) \<longleftrightarrow> (\<exists>v R1. r R = Ret (Some (v, R1)) \<and> f v R1 = Ret (Some p))"
  by (auto simp: rbind_def obind_Ret split: option.splits)

lemma wseq_assoc: "wseq (wseq a b) c = wseq a (wseq b c)"
  by (auto simp: wseq_def split: option.splits)

lemma rns_run: "rns f (run bs N new) = Ret (Some ((), run bs (f N) new))"
  by (simp add: rns_def run_def)

section \<open>Constants\<close>

lemma fits_const:
  assumes p: "parts_fit G m (SConst k v)"
  shows "node_fits G m (SConst k v)"
proof -
  note ok = parts_node(1) [OF p, simplified] and w = parts_node(2) [OF p]
  have "echo G (wseq (wtag k) (if v = YNull then wbool False else wseq (wbool True) (wput (\<lambda>str. toStream (e_codec (g_w G)) str v))))
      (readCode (g_r G) (Suc m)) (SConst k v) [] (Suc 0)"
  proof (rule echo_tagged)
    have k: "k < 13" using ok by (auto split: if_splits)
    then show "k < 128" by simp
    have r: "read_tagged (g_r G) m (readCode (g_r G) m) k = read_const (g_r G) k" using k by (simp add: read_tagged_def)
    show "echo G (if v = YNull then wbool False else wseq (wbool True) (wput (\<lambda>str. toStream (e_codec (g_w G)) str v)))
        (read_tagged (g_r G) m (readCode (g_r G) m) k) (SConst k v) [] 0"
    proof (cases "v = YNull")
      case True
      have "echo G (wbool False) (read_const (g_r G) k) (SConst k YNull) [] 0"
        unfolding read_const_def by (rule echo_last [OF echo_bool]) (simp add: echo_ret)
      then show ?thesis using True by (simp add: r)
    next
      case False
      with ok have v: "1 \<le> k" "k \<le> 11" "storable (g_float G) v" "valuetype v = payload_tag k" by auto
      have "echo G (wseq (wbool True) (wput (\<lambda>str. toStream (e_codec (g_w G)) str v))) (read_const (g_r G) k) (SConst k v) ([] @ []) (0 + 0)"
        unfolding read_const_def
        by (rule echo_bind [OF echo_bool]) (use v echo_map [OF echo_payload [OF w v(3)], of "SConst k"] in \<open>simp add: payload_tag_def\<close>)
      then show ?thesis using False by (simp add: r)
    qed
  qed
  then show ?thesis by (simp add: node_fits_def own_def points_def)
qed

lemma fits_entry:
  assumes p: "parts_fit G m (SEntryConst e)"
  shows "node_fits G m (SEntryConst e)"
proof -
  note w = parts_node(2) [OF p]
  have "echo G (wseq (wtag 12) (wseq (wbool True) (wopt (writeEntry (g_w G)) e))) (readCode (g_r G) (Suc m)) (SEntryConst e) [] (Suc 0)"
  proof (rule echo_tagged)
    have "echo G (wseq (wbool True) (wopt (writeEntry (g_w G)) e)) (read_const (g_r G) 12) (SEntryConst e) ([] @ []) (0 + 0)"
      unfolding read_const_def
      by (rule echo_bind [OF echo_bool]) (use echo_map [OF echo_entry_opt [OF w]] in simp)
    then show "echo G (wseq (wbool True) (wopt (writeEntry (g_w G)) e)) (read_tagged (g_r G) m (readCode (g_r G) m) 12) (SEntryConst e) [] 0"
      by (simp add: read_tagged_def)
  qed simp
  then show ?thesis by (simp add: node_fits_def own_def points_def)
qed

section \<open>Lists, maps, terms and calls\<close>

lemma fits_list:
  assumes p: "parts_fit G m (SEList cs)"
  shows "node_fits G m (SEList cs)"
proof -
  note ok = parts_node(1) [OF p, simplified] and L = parts_good [OF p, simplified]
  show ?thesis
    unfolding node_fits_def swrite_simps
    by (rule echo_expr, simp, simp, rule parts_old [OF p], simp add: read_expression_unfold case_prod_unfold,
      rule echo_map, rule echo_list, rule ok, rule L, assumption, simp_all add: own_def points_def)
qed

lemma fits_term:
  assumes p: "parts_fit G m (SETerm n cs)"
  shows "node_fits G m (SETerm n cs)"
proof -
  note ok = parts_node(1) [OF p, simplified] and L = parts_good [OF p, simplified]
  have t: "echo G (writeYCodelist (map (swrite (g_w G)) cs))
      (rbind (readYCodelist (g_r G) (readCode (g_r G) m)) (\<lambda>(g, cs). rret (SETerm (if g then Some s else None) cs)))
      (SETerm (Some s) (map erase cs)) (concat (map blocks cs)) (sum_list (map weight cs))" for s
    using echo_map [OF echo_list [of cs G m "g_r G"], of "\<lambda>(g, cs). SETerm (if g then Some s else None) cs"] ok L
    by (simp add: case_prod_unfold)
  have "echo G (wseq (wopt wcharp n) (writeYCodelist (map (swrite (g_w G)) cs))) (read_term (g_r G) (readCode (g_r G) m))
      (SETerm n (map erase cs)) ([] @ concat (map blocks cs)) (0 + sum_list (map weight cs))"
  proof (cases n)
    case (Some s)
    show ?thesis
      unfolding read_term_def Some
      by (rule echo_bind, rule echo_text_opt) (use ok t Some in \<open>simp_all add: case_prod_unfold\<close>)
  qed (simp add: wopt_def echo_def wseq_def wfail_def)
  then show ?thesis
    unfolding node_fits_def swrite_simps wlist.simps wseq_skip
    by (intro echo_expr) (use parts_old [OF p] in \<open>simp_all add: read_expression_unfold own_def points_def\<close>)
qed

lemma fits_map:
  assumes p: "parts_fit G m (SEMap ps)"
  shows "node_fits G m (SEMap ps)"
proof -
  note ok = parts_node(1) [OF p, simplified] and E = parts_echo [OF p]
  let ?r = "readCode (g_r G) m"
  have pair: "echo G (wseq (swrite (g_w G) (fst q)) (swrite (g_w G) (snd q))) (rbind ?r (\<lambda>k. rbind ?r (\<lambda>v. rret (k, v))))
      (map_prod erase erase q) (blocks (fst q) @ blocks (snd q)) (weight (fst q) + weight (snd q))" if "q \<in> set ps" for q
    unfolding map_prod_def case_prod_unfold
    by (rule echo_bind, rule E, use that in force, rule echo_map, rule E, use that in force)
  have all: "echo G (wlist (map (\<lambda>q. wseq (swrite (g_w G) (fst q)) (swrite (g_w G) (snd q))) ps))
      (rtimes (length ps) (rbind ?r (\<lambda>k. rbind ?r (\<lambda>v. rret (k, v))))) (map (map_prod erase erase) ps)
      (concat (map (\<lambda>q. blocks (fst q) @ blocks (snd q)) ps)) (sum_list (map (\<lambda>q. weight (fst q) + weight (snd q)) ps))"
    by (rule echo_rtimes) (rule pair)
  have c: "concat (map blocks (concat (map (\<lambda>p. [fst p, snd p]) ps))) = concat (map (\<lambda>q. blocks (fst q) @ blocks (snd q)) ps)"
    "sum_list (map weight (concat (map (\<lambda>p. [fst p, snd p]) ps))) = sum_list (map (\<lambda>q. weight (fst q) + weight (snd q)) ps)"
    by (induction ps) auto
  have "echo G (wseq (wint (of_nat (length ps))) (wlist (map (\<lambda>q. wseq (swrite (g_w G) (fst q)) (swrite (g_w G) (snd q))) ps)))
      (read_map (g_r G) ?r) (SEMap (map (map_prod erase erase) ps))
      ([] @ concat (map (\<lambda>q. blocks (fst q) @ blocks (snd q)) ps)) (0 + sum_list (map (\<lambda>q. weight (fst q) + weight (snd q)) ps))"
    unfolding read_map_def by (rule echo_bind [OF echo_int]) (use ok echo_map [OF all, of SEMap] in simp)
  then show ?thesis
    unfolding node_fits_def swrite_simps writeYCodelist_def
    by (intro echo_expr) (use parts_old [OF p] in \<open>simp_all add: read_expression_unfold own_def points_def c comp_def\<close>)
qed

lemma echo_look: "(\<And>a. echo G w (h a) v as d) \<Longrightarrow> echo G w (rbind (rlook look) h) v as d"
  unfolding echo_def rbind_def rlook_def run_def by simp

lemma echo_calls:
  assumes "fits cs" "\<And>x. x \<in> set cs \<Longrightarrow> good G m x"
  shows "echo G (writeYCodelist (map (swrite (g_w G)) cs)) (rbind (rint X) (\<lambda>n. rbind (read_params (unat n) (readCode (g_r G) m)) (\<lambda>ps. rret (f ps))))
    (f (Some (map erase cs))) (concat (map blocks cs)) (sum_list (map weight cs))"
proof -
  have "echo G (wlist (map (swrite (g_w G)) cs)) (read_params (length cs) (readCode (g_r G) m)) (Some (map erase cs))
      (concat (map blocks cs)) (sum_list (map weight cs))"
    by (rule echo_params) (use assms in \<open>auto simp: good_echo dest: good_not_null\<close>)
  from echo_map [OF this, of f] have "echo G (wseq (wint (of_nat (length cs))) (wlist (map (swrite (g_w G)) cs)))
      (rbind (rint X) (\<lambda>n. rbind (read_params (unat n) (readCode (g_r G) m)) (\<lambda>ps. rret (f ps))))
      (f (Some (map erase cs))) ([] @ concat (map blocks cs)) (0 + sum_list (map weight cs))"
    by (intro echo_bind [OF echo_int]) (use assms(1) in simp)
  then show ?thesis by (simp add: writeYCodelist_def)
qed

lemma fits_call:
  assumes p: "parts_fit G m (SEFunction e cs)"
  shows "node_fits G m (SEFunction e cs)"
proof -
  note ok = parts_node(1) [OF p, simplified] and L = parts_good [OF p, simplified] and w = parts_node(2) [OF p]
  have "echo G (wseq (writeEntry (g_w G) e) (writeYCodelist (map (swrite (g_w G)) cs))) (read_call (g_r G) (readCode (g_r G) m))
      (SEFunction e (map erase cs)) ([] @ concat (map blocks cs)) (0 + sum_list (map weight cs))"
    unfolding read_call_def
    by (rule echo_bind [OF echo_entry [OF w]], simp, rule echo_look, rule echo_cong, rule echo_calls [OF ok L])
      (use parts_old [OF p] in simp_all)
  then show ?thesis
    unfolding node_fits_def swrite_simps wlist.simps wseq_skip
    by (intro echo_expr) (use parts_old [OF p] in \<open>simp_all add: read_expression_unfold own_def points_def\<close>)
qed

lemma fits_pointer_call:
  assumes p: "parts_fit G m (SEFunctionPointer e cs)"
  shows "node_fits G m (SEFunctionPointer e cs)"
proof -
  note ok = parts_node(1) [OF p, simplified] and L = parts_good [OF p, simplified] and w = parts_node(2) [OF p]
  have "echo G (writeYCodelist (map (swrite (g_w G)) cs)) (rbind (rint (g_r G)) (\<lambda>n. rbind (read_params (unat n) (readCode (g_r G) m)) (\<lambda>ps.
        case ps of None \<Rightarrow> rthrow | Some cs \<Rightarrow> rret (SEFunctionPointer e cs))))
      (SEFunctionPointer e (map erase cs)) (concat (map blocks cs)) (sum_list (map weight cs))"
    by (rule echo_reader [OF echo_calls [of cs G m "g_r G" id, OF ok L]])
      (auto simp: rbind_Some rret_def)
  from echo_bind [OF echo_entry_opt [OF w], of _ "\<lambda>e. rbind (rint (g_r G)) (\<lambda>n. rbind (read_params (unat n) (readCode (g_r G) m)) (\<lambda>ps.
        case ps of None \<Rightarrow> rthrow | Some cs \<Rightarrow> rret (SEFunctionPointer e cs)))" e, OF this]
  show ?thesis
    unfolding node_fits_def swrite_simps wlist.simps wseq_skip
    by (intro echo_expr) (use parts_old [OF p] in \<open>simp_all add: read_expression_unfold read_pointer_call_def own_def points_def\<close>)
qed

section \<open>Builtins\<close>

lemma wns_None [simp]: "wns (push_block None) = wskip" "wns (pop_block None) = wskip"
  by (auto simp: wns_def push_block_def pop_block_def wskip_def)

lemma echo_push: "blk_ok G x \<Longrightarrow> echo G (wns (push_block x)) (rns (push_block x)) () [] 0"
  by (rule echo_ns) (rule sim_push_pop)

lemma echo_pop: "echo G (wns (pop_block x)) (rns (pop_block x)) () [] 0"
  by (rule echo_ns) (rule sim_push_pop)

lemma good_block: "good G m c \<Longrightarrow> blk_ok G (as_block c)"
  by (simp add: good_def as_block_ok)

lemma fits_builtin:
  assumes p: "parts_fit G m (SEBuiltin t d b cs)"
  shows "node_fits G m (SEBuiltin t d b cs)"
proof -
  note ok = parts_node(1) [OF p, simplified] and L = parts_good [OF p] and w = parts_node(2) [OF p]
  let ?r = "readCode (g_r G) m" and ?w = "map (swrite (g_w G)) cs"
  have cs: "echo G (writeYCodelist ?w) (readYCodelist (g_r G) ?r) (True, map erase cs) (concat (map blocks cs)) (sum_list (map weight cs))"
    by (rule echo_list) (use ok L in auto)
  define body where "body = (\<lambda>b. case b of
         None \<Rightarrow> rbind (readYCodelist (g_r G) ?r) (\<lambda>(g, cs). rret (SEBuiltin void_type d SNull cs))
       | Some c \<Rightarrow>
           if as_block c = None then rundef
           else rbind (rns (push_block (as_block c))) (\<lambda>_.
                rbind (readYCodelist (g_r G) ?r) (\<lambda>(g, cs).
                rbind (rns (pop_block (as_block c))) (\<lambda>_. rret (SEBuiltin void_type d c cs)))))"
  let ?wb = "if b = SNull then write_builtin None None ?w else if as_block b = None then wfail
      else write_builtin (as_block b) (Some (swrite (g_w G) b)) ?w"
  have b: "echo G ?wb (rbind (rmaybe (g_r G) ?r) body) (SEBuiltin void_type d (erase b) (map erase cs))
      (concat (map blocks (children (SEBuiltin t d b cs)))) (sum_list (map weight (children (SEBuiltin t d b cs))))"
  proof (cases "b = SNull \<or> as_block b = None")
    case True
    have "echo G (wseq (wmaybe (map_option (swrite (g_w G)) None)) (writeYCodelist ?w)) (rbind (rmaybe (g_r G) ?r) body) (SEBuiltin void_type d SNull (map erase cs))
        (concat (map blocks (olist None)) @ concat (map blocks cs)) (sum_list (map weight (olist None)) + sum_list (map weight cs))"
      by (rule echo_bind, rule echo_good_maybe, simp)
        (use echo_map [OF cs, of "\<lambda>p. SEBuiltin void_type d SNull (snd p)"] in \<open>simp add: body_def case_prod_unfold\<close>)
    then show ?thesis using True by (auto simp: write_builtin_def echo_fail)
  next
    case False
    then have g: "good G m b" using L by simp
    have x: "blk_ok G (as_block b)" using good_block [OF g] .
    have bs: "body (Some (erase b)) = rbind (rns (push_block (as_block b))) (\<lambda>_. rbind (readYCodelist (g_r G) ?r) (\<lambda>(g, cs).
        rbind (rns (pop_block (as_block b))) (\<lambda>_. rret (SEBuiltin void_type d (erase b) cs))))"
      using False by (auto simp: body_def)
    have "echo G (wseq (wns (push_block (as_block b))) (wseq (writeYCodelist ?w) (wns (pop_block (as_block b))))) (body (Some (erase b)))
        (SEBuiltin void_type d (erase b) (map erase cs)) ([] @ concat (map blocks cs) @ []) (0 + (sum_list (map weight cs) + 0))"
      unfolding bs by (rule echo_bind, rule echo_push, rule x, rule echo_bind_pair, rule cs, rule echo_map, rule echo_pop)
    then have "echo G (wseq (wmaybe (map_option (swrite (g_w G)) (Some b))) (wseq (wns (push_block (as_block b))) (wseq (writeYCodelist ?w) (wns (pop_block (as_block b))))))
        (rbind (rmaybe (g_r G) ?r) body) (SEBuiltin void_type d (erase b) (map erase cs))
        (concat (map blocks (olist (Some b))) @ ([] @ concat (map blocks cs) @ [])) (sum_list (map weight (olist (Some b))) + (0 + (sum_list (map weight cs) + 0)))"
      by (intro echo_bind [OF echo_good_maybe]) (use g in auto)
    then show ?thesis using False by (auto simp: write_builtin_def)
  qed
  have rd: "read_builtin (g_r G) ?r = rbind (rtype (g_r G)) (\<lambda>_. rbind (readDeclaration (g_r G)) (\<lambda>d. rbind (rmaybe (g_r G) ?r) (\<lambda>b. case b of
         None \<Rightarrow> rbind (readYCodelist (g_r G) ?r) (\<lambda>(g, cs). rret (SEBuiltin void_type d SNull cs))
       | Some c \<Rightarrow>
           if as_block c = None then rundef
           else rbind (rns (push_block (as_block c))) (\<lambda>_.
                rbind (readYCodelist (g_r G) ?r) (\<lambda>(g, cs).
                rbind (rns (pop_block (as_block c))) (\<lambda>_. rret (SEBuiltin void_type d c cs)))))))"
    by (simp add: read_builtin_def)
  have "echo G (wseq (wtype t) (wseq (writeDeclaration d) ?wb)) (read_builtin (g_r G) ?r) (SEBuiltin void_type d (erase b) (map erase cs))
      ([] @ [] @ concat (map blocks (children (SEBuiltin t d b cs)))) (0 + (0 + sum_list (map weight (children (SEBuiltin t d b cs)))))"
    unfolding rd
    by (rule echo_bind, rule echo_type, simp add: ok, rule echo_bind, rule echo_declaration, simp add: ok, rule b [unfolded body_def])
  then show ?thesis
    unfolding node_fits_def swrite_simps wlist.simps wseq_skip
    by (intro echo_expr) (use parts_old [OF p] in \<open>simp_all add: read_expression_unfold own_def points_def\<close>)
qed

section \<open>Functions\<close>

lemma wwith_seq: "wseq (wwith look f) w = wwith look (\<lambda>a. wseq (f a) w)"
  by (auto simp: wseq_def wwith_def split: option.splits)

lemma code_ok_decl: "code_ok G (SFunction d) \<Longrightarrow> need_declaration d \<noteq> None \<Longrightarrow> code_ok G d"
  by (rule code_ok_child) auto

lemma need_as_block: "need_declaration d = Some x \<Longrightarrow> as_block d = Some x"
  by (auto simp: need_declaration_def split: option.splits if_splits)

lemma fits_function:
  assumes p: "parts_fit G m (SFunction d)"
  shows "node_fits G m (SFunction d)"
proof -
  let ?r = "readCode (g_r G) m" and ?z = "if need_declaration d = None then None else Some d"
  note L = parts_good [OF p]
  have "echo G (wmaybe (map_option (swrite (g_w G)) ?z)) (read_function (g_r G) ?r)
      (SFunction (case map_option erase ?z of None \<Rightarrow> SNull | Some c \<Rightarrow> block_or_null c))
      (concat (map blocks (olist ?z))) (sum_list (map weight (olist ?z)))"
    unfolding read_function_def by (rule echo_map, rule echo_good_maybe) (use L in \<open>auto split: if_splits\<close>)
  moreover have "as_block d \<noteq> None" if "need_declaration d \<noteq> None" using that need_as_block by fastforce
  ultimately show ?thesis
    unfolding node_fits_def swrite_simps write_function_def
    by (intro echo_expr)
      (use parts_old [OF p] in \<open>auto simp: read_expression_unfold own_def points_def block_or_null_def split: option.splits\<close>)
qed

lemma echo_definition:
  assumes d: "code_ok G (SFunction d)" and def: "\<And>x. def = Some x \<Longrightarrow> good G m x \<and> as_block x \<noteq> None"
  shows "echo G (write_definition d (map_option (swrite (g_w G)) def))
    (setDefinition (g_r G) (readCode (g_r G) m) (if need_declaration d = None then SNull else erase d)) (map_option setKind (map_option erase def))
    (concat (map blocks (olist def))) (sum_list (map weight (olist def)))"
proof -
  let ?x = "need_declaration d" and ?r = "readCode (g_r G) m"
  have x: "as_block (if need_declaration d = None then SNull else erase d) = ?x"
    using need_as_block by (auto simp: as_block_def [of SNull])
  have b: "blk_ok G ?x"
  proof (cases ?x)
    case (Some y)
    then show ?thesis using as_block_ok [OF code_ok_decl [OF d]] need_as_block [OF Some] by simp
  qed (simp add: blk_ok_def)
  have "echo G (wseq (wns (push_block ?x)) (wseq (swrite (g_w G) c) (wns (pop_block ?x))))
      (rbind (rns (push_block ?x)) (\<lambda>_. rbind ?r (\<lambda>def. if as_block def = None then rundef
         else rbind (rns (pop_block ?x)) (\<lambda>_. rret (setKind def)))))
      (setKind (erase c)) ([] @ blocks c @ []) (0 + (weight c + 0))" if "def = Some c" for c
  proof (rule echo_bind [OF echo_push [OF b]], rule echo_bind)
    show "echo G (swrite (g_w G) c) ?r (erase c) (blocks c) (weight c)" using def [OF that] by (simp add: good_echo)
    show "echo G (wns (pop_block ?x)) (if as_block (erase c) = None then rundef else rbind (rns (pop_block ?x)) (\<lambda>_. rret (setKind (erase c)))) (setKind (erase c)) [] 0"
      using def [OF that] echo_map [OF echo_pop, of G ?x "\<lambda>_. setKind (erase c)"] by auto
  qed
  then show ?thesis
    unfolding write_definition_def setDefinition_def x
    using echo_maybe [of def G "\<lambda>c. wseq (wns (push_block ?x)) (wseq (swrite (g_w G) c) (wns (pop_block ?x)))"
        "rbind (rns (push_block ?x)) (\<lambda>_. rbind ?r (\<lambda>def. if as_block def = None then rundef
         else rbind (rns (pop_block ?x)) (\<lambda>_. rret (setKind def))))" "\<lambda>c. setKind (erase c)" blocks weight "g_r G"]
    by (simp add: option.map_comp comp_def)
qed

lemma echo_code:
  assumes "world_ok G" "\<And>x. c = Some x \<Longrightarrow> good G m x"
  shows "echo G (write_code (g_w G) e c (map_option (swrite (g_w G)) c))
    (rbind (readCode (g_r G) m) (\<lambda>c. rbind (rns (setCode (x_ext (g_r G)) e c)) (\<lambda>_. rret (Some c)))) (map_option erase c)
    (concat (map blocks (olist c))) (sum_list (map weight (olist c)))"
proof (cases c)
  case (Some x)
  then have g: "good G m x" using assms by simp
  have "echo G (wseq (swrite (g_w G) x) (wset (g_w G) e x))
      (rbind (readCode (g_r G) m) (\<lambda>c. rbind (rns (setCode (x_ext (g_r G)) e c)) (\<lambda>_. rret (Some c)))) (Some (erase x)) (blocks x @ []) (weight x + 0)"
    by (rule echo_bind, rule good_echo, rule g, rule echo_map, rule echo_set)
      (use assms(1) g in \<open>simp_all add: good_def\<close>)
  then show ?thesis using Some by (simp add: write_code_def wopt_def)
qed (simp add: write_code_def wopt_def echo_fail)

lemma fits_sfunction:
  assumes p: "parts_fit G m (SSFunction l e proto def)"
  shows "node_fits G m (SSFunction l e proto def)"
proof -
  note ok = parts_node(1) [OF p, simplified] and L = parts_good [OF p, simplified] and w = parts_node(2) [OF p]
  let ?r = "readCode (g_r G) m" and ?X = "g_r G" and ?E = "g_w G"
  let ?wd = "wwith (\<lambda>N. function_of N e) (\<lambda>d. write_definition d (map_option (swrite ?E) def))"
  let ?rd = "\<lambda>proto. rbind (rlook (\<lambda>N. function_of N e)) (\<lambda>d0. rbind (rsome d0) (\<lambda>d.
     rbind (setDefinition ?X ?r d) (\<lambda>def. rret (SSFunction l e proto def))))"
  have d: "echo G ?wd (?rd q) (SSFunction l e q (map_option setKind (map_option erase def)))
      (concat (map blocks (olist def))) (sum_list (map weight (olist def)))" for q
  proof (rule echo_with [where g = "\<lambda>d. Some (if need_declaration d = None then SNull else erase d)"])
    show "function_of Nr e = Some (if need_declaration d = None then SNull else erase d)" if "sim G Nw Nr" "function_of Nw e = Some d" for Nw Nr d
      using function_of_sim [OF that] by simp
    fix d assume "\<exists>Nw Nr. sim G Nw Nr \<and> function_of Nw e = Some d"
    then have "code_ok G (SFunction d)" using function_of_sim by blast
    from echo_map [OF echo_definition [OF this], of def m "SSFunction l e q"] ok L
    show "echo G (write_definition d (map_option (swrite ?E) def)) (rbind (rsome (Some (if need_declaration d = None then SNull else erase d))) (\<lambda>d.
         rbind (setDefinition ?X ?r d) (\<lambda>def. rret (SSFunction l e q def))))
       (SSFunction l e q (map_option setKind (map_option erase def))) (concat (map blocks (olist def))) (sum_list (map weight (olist def)))"
      by (simp add: pred_option_def olist_def split: option.splits)
  qed
  have pr: "echo G (if y_global y then (if proto = None then wskip else wfail) else write_code ?E e proto (map_option (swrite ?E) proto))
      (if y_global y then rret None else rbind ?r (\<lambda>c. rbind (rns (setCode (x_ext ?X) e c)) (\<lambda>_. rret (Some c))))
      (map_option erase proto) (concat (map blocks (olist proto))) (sum_list (map weight (olist proto)))" for y
    using echo_code [OF w, of proto m e] L by (auto simp: echo_fail echo_ret)
  have "echo G (wseq (writeEntry ?E e) (wwith (\<lambda>N. entry_sym (e_ext ?E) N e) (\<lambda>y. wseq
        (if y_global y then (if proto = None then wskip else wfail) else write_code ?E e proto (map_option (swrite ?E) proto)) ?wd)))
      (read_sfunction ?X ?r l) (SSFunction l e (map_option erase proto) (map_option setKind (map_option erase def)))
      ([] @ (concat (map blocks (olist proto)) @ concat (map blocks (olist def))))
      (0 + (sum_list (map weight (olist proto)) + sum_list (map weight (olist def))))"
    unfolding read_sfunction_def
    by (rule echo_bind, rule echo_entry_used, rule w, rule echo_with [where g = Some], rule entry_sym_sim(1) [OF w], assumption, assumption,
      simp only: rbind_ret, rule echo_bind, rule pr, rule d)
  then show ?thesis
    unfolding node_fits_def swrite_simps write_sfunction_def wlist.simps wseq_skip wwith_seq
    by (intro echo_stmt) (use parts_old [OF p] in \<open>simp_all add: read_statement_unfold own_def points_def\<close>)
qed

lemma fits_svariable:
  assumes p: "parts_fit G m (SSVariable l e c)"
  shows "node_fits G m (SSVariable l e c)"
proof -
  note L = parts_good [OF p, simplified] and w = parts_node(2) [OF p]
  have k: "code_ok G c" using L [of c] by (simp add: good_def)
  show ?thesis
    unfolding node_fits_def swrite_simps wlist.simps wseq_skip
    by (rule echo_stmt, simp, simp, rule parts_old [OF p], simp add: read_statement_unfold, rule echo_bind, rule echo_entry_used, rule w,
      rule echo_bind, rule good_echo, rule L, simp, rule echo_map, rule echo_set, rule w, rule k, simp_all add: own_def points_def)
qed

section \<open>Imports\<close>

lemma read_xrefs:
  assumes "\<forall>u \<in> set us. plain_text (fst u) \<and> storable_type (snd u) \<and> (\<exists>y. x_ext X ns (fst u) = Some y \<and> match (y_type y) (snd u) = Some 0)"
    and "n_xrefs N ns = refs # xs"
  shows "rtimes (length us) (read_xref X ns) (run (concat (map (\<lambda>u. text_bytes (fst u) @ type_bytes (snd u)) us) @ rest) N new)
    = Ret (Some (replicate (length us) (), run rest (N\<lparr>n_xrefs := (n_xrefs N)(ns := (refs @ map fst us) # xs)\<rparr>) new))"
  using assms
proof (induction us arbitrary: N refs)
  case Nil
  then show ?case by (simp add: rret_def fun_upd_idem)
next
  case (Cons u us)
  then obtain y where u: "plain_text (fst u)" "storable_type (snd u)" "x_ext X ns (fst u) = Some y" "match (y_type y) (snd u) = Some 0" by auto
  let ?N = "add_xref ns (fst u) N"
  let ?rest = "concat (map (\<lambda>u. text_bytes (fst u) @ type_bytes (snd u)) us) @ rest"
  have N: "n_xrefs ?N ns = (refs @ [fst u]) # xs" using Cons.prems by (simp add: add_xref_def)
  have c: "rcharp X (run (text_bytes (fst u) @ type_bytes (snd u) @ ?rest) N new) = Ret (Some (Some (fst u), run (type_bytes (snd u) @ ?rest) N new))"
    unfolding rcharp_def by (rule rstr_run) (simp add: text_reads [OF u(1)])
  have t: "rtype X (run (type_bytes (snd u) @ ?rest) N new) = Ret (Some (snd u, run ?rest N new))"
    unfolding rtype_def by (rule rout_run) (use type_depth_bytes [of "snd u"] in \<open>simp add: readType_bytes [OF u(2)]\<close>)
  have one: "read_xref X ns (run (text_bytes (fst u) @ type_bytes (snd u) @ ?rest) N new) = Ret (Some ((), run ?rest ?N new))"
    unfolding read_xref_def
    by (simp add: rbind_def c t u rsome_def rret_def rns_run)
  have eq: "?N\<lparr>n_xrefs := (n_xrefs ?N)(ns := ((refs @ [fst u]) @ map fst us) # xs)\<rparr> = N\<lparr>n_xrefs := (n_xrefs N)(ns := (refs @ map fst (u # us)) # xs)\<rparr>"
    using Cons.prems by (simp add: add_xref_def)
  have "rtimes (length us) (read_xref X ns) (run ?rest ?N new)
      = Ret (Some (replicate (length us) (), run rest (?N\<lparr>n_xrefs := (n_xrefs ?N)(ns := ((refs @ [fst u]) @ map fst us) # xs)\<rparr>) new))"
    by (intro Cons.IH N) (use Cons.prems in simp)
  with one show ?case
    unfolding eq by (simp add: rbind_def rret_def fun_upd_def)
qed

lemma wlist_bytes:
  assumes "\<And>x W. x \<in> set xs \<Longrightarrow> w x W = Some (W\<lparr>w_str := os_write (w_str W) (f x)\<rparr>)"
  shows "wlist (map w xs) W = Some (W\<lparr>w_str := os_write (w_str W) (concat (map f xs))\<rparr>)"
  using assms by (induction xs arbitrary: W) (simp_all add: wskip_def wseq_def)

lemma visible_xrefs: "visible (N\<lparr>n_xrefs := x\<rparr>) = visible N"
  by (simp add: visible_def)

lemma sim_import:
  assumes "sim G Nw Nr" "e_used (g_w G) ns = Some us"
  shows "sim G (pushNamespace ns [] True False Nw) ((pushNamespace ns ys True True Nr)\<lparr>n_xrefs := (n_xrefs Nr)(ns := map fst us # n_xrefs Nr ns)\<rparr>)"
  using assms
  by (auto simp: sim_def visible_push visible_xrefs frame_sim_def xrefs_sim_def list_all2_appendI)

lemma fits_import:
  assumes p: "parts_fit G m (SSImport l s ns)"
  shows "node_fits G m (SSImport l s ns)"
proof -
  note ok = parts_node(1) [OF p, simplified] and w = parts_node(2) [OF p]
  obtain ys where s: "plain_text s" "x_import (g_r G) s = Some (ns, ys)" using ok by (auto simp: import_ok_def)
  let ?w = "wseq (writeUsage_xrefs (g_w G) ns) (wns (pushNamespace ns [] True False))"
  let ?r = "rbind (rns (pushNamespace ns ys True True)) (\<lambda>_. rbind (rint (g_r G)) (\<lambda>cnt. rbind (rtimes (nat (sint cnt)) (read_xref (g_r G) ns)) (\<lambda>_.
             rret (SSImport l s ns))))"
  have "echo G ?w ?r (SSImport l s ns) [] 0"
    unfolding echo_def
  proof (intro allI impI)
    fix W W' N assume wr: "?w W = Some W'" and s: "sim G (w_ns W) N"
    then obtain us where u: "e_used (g_w G) ns = Some us" by (auto simp: writeUsage_xrefs_def wopt_def wfail_def wseq_def split: option.splits)
    have us: "\<forall>u \<in> set us. plain_text (fst u) \<and> storable_type (snd u) \<and> (\<exists>y. x_ext (g_r G) ns (fst u) = Some y \<and> match (y_type y) (snd u) = Some 0)"
      using ok u by (simp add: import_ok_def)
    have n: "nat (sint (of_nat (length us) :: uint32)) = length us" using w u by (simp add: world_ok_def sint_of_nat_32)
    let ?bs = "concat (map (\<lambda>u. text_bytes (fst u) @ type_bytes (snd u)) us)"
    have b: "wlist (map (\<lambda>u. wseq (wcharp (fst u)) (wtype (snd u))) us) V = Some (V\<lparr>w_str := os_write (w_str V) ?bs\<rparr>)" for V
      by (rule wlist_bytes) (use us in \<open>auto simp: wseq_def wcharp_def wtype_def wput_def writeCharp_def write_text writeType_bytes\<close>)
    have W': "W' = W\<lparr>w_str := os_write (w_str W) (int32_bytes (of_nat (length us)) @ ?bs), w_ns := pushNamespace ns [] True False (w_ns W)\<rparr>"
      using wr u by (auto simp: writeUsage_xrefs_def wopt_def wseq_Some wint_def wput_def writeInt32_int32_bytes b wns_def)
    let ?N = "pushNamespace ns ys True True N" and ?N' = "(pushNamespace ns ys True True N)\<lparr>n_xrefs := (n_xrefs N)(ns := map fst us # n_xrefs N ns)\<rparr>"
    have "?r (run ((int32_bytes (of_nat (length us)) @ ?bs) @ rest) N new) = Ret (Some (SSImport l s ns, run rest ?N' new))" for rest new
    proof -
      have i: "rint (g_r G) (run (int32_bytes (of_nat (length us)) @ ?bs @ rest) ?N new) = Ret (Some (of_nat (length us), run (?bs @ rest) ?N new))"
        unfolding rint_def by (rule rstr_run) simp
      have x: "n_xrefs ?N ns = [] # n_xrefs N ns" by simp
      from read_xrefs [OF us x, of rest new] show ?thesis
        by (simp add: rbind_def rns_run i n rret_def)
    qed
    moreover have "sim G (w_ns W') ?N'" using sim_import [OF s u] W' by simp
    ultimately show "\<exists>bs. w_str W' = os_write (w_str W) bs \<and> 0 \<le> length bs \<and>
        (\<forall>rest new. \<exists>N'. ?r (run (bs @ rest) N ([] @ new)) = Ret (Some (SSImport l s ns, run rest N' new)) \<and> sim G (w_ns W') N')"
      using W' by (intro exI [of _ "int32_bytes (of_nat (length us)) @ ?bs"]) auto
  qed
  then have "echo G (wseq (wstring s) ?w) (read_import (g_r G) l) (SSImport l s ns) ([] @ []) (0 + 0)"
    unfolding read_import_def by (intro echo_bind_some [OF echo_string_charp [OF s(1)]]) (simp add: s(2))
  then show ?thesis
    unfolding node_fits_def swrite_simps wlist.simps wseq_skip
    by (intro echo_stmt) (use parts_old [OF p] in \<open>simp_all add: read_statement_unfold own_def points_def\<close>)
qed

section \<open>Switches\<close>

lemma assign_sorted:
  "sorted_wrt ycp_less (map fst (m @ cs)) \<Longrightarrow> foldl (\<lambda>m p. smap_assign ycp_less (fst p) (snd p) m) m cs = m @ cs"
proof (induction cs arbitrary: m)
  case (Cons c cs)
  have "smap_assign ycp_less (fst c) (snd c) m = m @ [c]"
    using Cons.prems by (subst smap_assign_last) (auto simp: sorted_wrt_append)
  then show ?case using Cons.IH [of "m @ [c]"] Cons.prems by simp
qed simp

lemma fits_switch:
  assumes p: "parts_fit G m (SSSwitch l c cs d b)"
  shows "node_fits G m (SSSwitch l c cs d b)"
proof -
  note ok = parts_node(1) [OF p, simplified] and w = parts_node(2) [OF p] and L = parts_good [OF p, simplified]
  let ?r = "readCode (g_r G) m"
  have cs: "foldl (\<lambda>m p. smap_assign ycp_less (fst p) (snd p) m) [] cs = cs" using assign_sorted [of "[]" cs] ok by simp
  have n: "nat (sint (of_nat (length cs) :: uint32)) = length cs" using ok by (simp add: sint_of_nat_32)
  have one: "echo G (write_case (g_w G) q) (read_case (g_r G)) (id q) [] 0" if "q \<in> set cs" for q
  proof -
    have v: "storable (g_float G) (fst q)" using ok that by (simp add: list_all_iff)
    then have "fst q \<noteq> YNull" by auto
    have "echo G (wseq (wput (\<lambda>str. writeValue (e_codec (g_w G)) str (fst q))) (wint (snd q))) (read_case (g_r G)) (fst q, snd q) ([] @ []) (0 + 0)"
      unfolding read_case_def
      by (rule echo_bind [OF echo_value [OF w v]]) (use \<open>fst q \<noteq> YNull\<close> echo_map [OF echo_int, of G "snd q" "g_r G" "\<lambda>i. (fst q, i)"] in simp)
    then show ?thesis by (simp add: write_case_def)
  qed
  have all: "echo G (wlist (map (write_case (g_w G)) cs)) (rtimes (length cs) (read_case (g_r G))) (map id cs) (concat (map (\<lambda>_. []) cs)) (sum_list (map (\<lambda>_. 0) cs))"
    by (rule echo_rtimes) (rule one)
  have z: "concat (map (\<lambda>_. []) cs) = ([] :: nat list)" by (induction cs) auto
  have all': "echo G (wlist (map (write_case (g_w G)) cs)) (rtimes (length cs) (read_case (g_r G))) cs [] 0"
    using all by (simp add: z)
  have e: "erase c \<noteq> SNull" "as_block (erase b) \<noteq> None" using L [of c] ok by (auto dest: good_not_null)
  have "echo G (wseq (swrite (g_w G) c) (wseq (wint (of_nat (length cs))) (wseq (wlist (map (write_case (g_w G)) cs)) (wseq (wint d) (swrite (g_w G) b)))))
      (read_switch (g_r G) ?r l) (SSSwitch l (erase c) cs d (erase b)) (blocks c @ ([] @ ([] @ ([] @ blocks b)))) (weight c + (0 + (0 + (0 + weight b))))"
    unfolding read_switch_def
    by (rule echo_bind, rule good_echo, rule L, simp, simp only: e if_False, rule echo_bind, rule echo_int, simp only: n,
      rule echo_bind, rule all', rule echo_bind, rule echo_int, rule echo_last, rule good_echo, rule L, simp, simp only: e if_False cs, rule echo_ret)
  then show ?thesis
    unfolding node_fits_def swrite_simps wlist.simps wseq_skip writeYCodelist_def
    by (intro echo_stmt) (use parts_old [OF p] in \<open>simp_all add: read_statement_unfold own_def points_def wseq_assoc\<close>)
qed

section \<open>Blocks\<close>

lemma set_syms_push: "set_top (\<lambda>f. f\<lparr>f_syms := ys\<rparr>) (pushNamespace b [] t False N) = pushNamespace b ys t False N"
  by (simp add: set_top_def pushNamespace_def Let_def)

lemma visible_set_top:
  assumes "n_tare N \<le> length (n_array N)"
  shows "visible (set_top g N) = (visible N)[length (visible N) - 1 := g (last (visible N))]"
proof (cases "visible N = []")
  case True
  then show ?thesis using assms by (simp add: visible_def set_top_def drop_update_cancel)
next
  case False
  note t = visible_top [OF assms False]
  then have "drop (n_tare N) ((n_array N)[length (n_array N) - 1 := g (last (n_array N))])
      = (drop (n_tare N) (n_array N))[length (n_array N) - 1 - n_tare N := g (last (n_array N))]"
    by (intro drop_update_swap) simp
  then show ?thesis using t(1) by (simp add: visible_def set_top_def)
qed

lemma imports_of_f_ns: "imports_of ns fs = length (filter (\<lambda>x. x = ns) (map f_ns fs))"
  by (induction fs) (auto simp: imports_of_def)

lemma sim_set_table:
  assumes s: "sim G Nw Nr"
  shows "sim G Nw (set_top (\<lambda>f. f\<lparr>f_table := f_table f \<or> t\<rparr>) Nr)"
proof -
  let ?g = "\<lambda>f. f\<lparr>f_table := f_table f \<or> t\<rparr>" and ?i = "length (visible Nr) - 1"
  have r: "n_tare Nr \<le> length (n_array Nr)" and l: "list_all2 (frame_sim G) (visible Nw) (visible Nr)"
    using s by (auto simp: sim_def)
  have v: "visible (set_top ?g Nr) = (visible Nr)[?i := ?g (last (visible Nr))]" by (rule visible_set_top [OF r])
  have "map f_ns (visible (set_top ?g Nr)) = map f_ns (visible Nr)"
    unfolding v by (cases "visible Nr = []") (simp_all add: map_update last_conv_nth list_update_same_conv)
  then have x: "xrefs_sim G (visible (set_top ?g Nr)) (n_xrefs (set_top ?g Nr))"
    using s by (simp add: sim_def xrefs_sim_def imports_of_f_ns set_top_def)
  have "frame_sim G (visible Nw ! k) ((visible Nr)[?i := ?g (last (visible Nr))] ! k)" if "k < length (visible Nw)" for k
  proof -
    have "last (visible Nr) = visible Nr ! ?i" using that list_all2_lengthD [OF l] by (intro last_conv_nth) auto
    then show ?thesis
      using list_all2_nthD [OF l that] list_all2_lengthD [OF l] that
      by (cases "k = ?i") (auto simp: nth_list_update frame_sim_def split: option.splits)
  qed
  then have "list_all2 (frame_sim G) (visible Nw) (visible (set_top ?g Nr))"
    using list_all2_lengthD [OF l] unfolding v by (simp add: list_all2_conv_all_nth)
  with s x show ?thesis by (simp add: sim_def) (simp add: set_top_def)
qed

lemma echo_tentry:
  assumes w: "world_ok G" and n: "pcount q \<le> m" and g: "\<And>x. c = Some x \<Longrightarrow> good G m x"
    and ok: "\<And>y. ref_sym G e = Some y \<Longrightarrow> y_category y = cat_function \<Longrightarrow> y_global y"
  shows "echo G (write_tentry (g_w G) (e, q, c) (map_option (swrite (g_w G)) c)) (read_tentry (g_r G) m (readCode (g_r G) m))
    (e, q, map_option erase c) (concat (map blocks (olist c))) (pcount q + sum_list (map weight (olist c)))"
proof -
  let ?E = "g_w G" and ?X = "g_r G" and ?r = "readCode (g_r G) m"
  have body: "echo G (if y_category y = cat_function \<and> y_global y then write_code ?E e c (map_option (swrite ?E) c) else if c = None then wskip else wfail)
      (rbind (rsome (Some y)) (\<lambda>y. if y_category y = cat_function
       then rbind ?r (\<lambda>c. if c = SNull then rundef else rbind (rns (setCode (x_ext ?X) e c)) (\<lambda>_. rret (e, q, Some c)))
       else rret (e, q, None))) (e, q, map_option erase c) (concat (map blocks (olist c))) (sum_list (map weight (olist c)))"
    if "\<exists>Nw Nr. sim G Nw Nr \<and> entry_sym (e_ext ?E) Nw e = Some y" for y
  proof (cases "y_category y = cat_function")
    case False
    then show ?thesis using echo_ret [of G "(e, q, None)"] by (auto simp: echo_fail)
  next
    case True
    have gl: "y_global y" using that True ok entry_sym_sim(2) [OF w] by blast
    show ?thesis
    proof (cases c)
      case (Some x)
      then have x: "good G m x" "erase x \<noteq> SNull" using g by (auto dest: good_not_null)
      have "echo G (wseq (swrite ?E x) (wset ?E e x))
          (rbind ?r (\<lambda>c. if c = SNull then rundef else rbind (rns (setCode (x_ext ?X) e c)) (\<lambda>_. rret (e, q, Some c)))) (e, q, Some (erase x)) (blocks x @ []) (weight x + 0)"
        by (rule echo_bind, rule good_echo, rule x, simp only: x if_False, rule echo_map, rule echo_set, rule w)
          (use x in \<open>simp add: good_def\<close>)
      then show ?thesis using Some True gl by (simp add: write_code_def wopt_def)
    qed (simp add: True gl write_code_def wopt_def echo_fail)
  qed
  have "echo G (wseq (writeEntry ?E e) (wseq (writePoint ?E q) (wwith (\<lambda>N. entry_sym (e_ext ?E) N e) (\<lambda>y.
            if y_category y = cat_function \<and> y_global y then write_code ?E e c (map_option (swrite ?E) c) else if c = None then wskip else wfail))))
      (read_tentry ?X m ?r) (e, q, map_option erase c) ([] @ [] @ concat (map blocks (olist c))) (0 + (pcount q + sum_list (map weight (olist c))))"
    unfolding read_tentry_def
    by (rule echo_bind, rule echo_entry_used, rule w, rule echo_bind, rule echo_point, rule w, rule n,
      rule echo_with [where g = Some], rule entry_sym_sim(1) [OF w], assumption, assumption, rule body)
  then show ?thesis by (simp add: write_tentry_def)
qed

definition sym_bytes :: "sym \<Rightarrow> string" where
  "sym_bytes y = bool_byte (y_global y) @ int32_bytes (y_position y) @ text_bytes (y_name y) @ int32_bytes (y_category y) @ type_bytes (y_type y)"

lemma writeSym_bytes: "sym_ok y \<Longrightarrow> writeSym y W = Some (W\<lparr>w_str := os_write (w_str W) (sym_bytes y)\<rparr>)"
  by (simp add: sym_ok_def writeSym_def wseq_def wbool_def wint_def wcharp_def wtype_def wput_def writeCharp_def write_text
      writeBool_byte writeInt32_int32_bytes writeType_bytes sym_bytes_def wskip_def)

lemma readSym_bytes:
  assumes "sym_ok y"
  shows "readSym X (run (sym_bytes y @ rest) N new) = Ret (Some (y, run rest N new))"
proof -
  have ok: "plain_text (y_name y)" "storable_type (y_type y)" using assms by (auto simp: sym_ok_def)
  let ?r4 = "type_bytes (y_type y) @ rest" let ?r3 = "int32_bytes (y_category y) @ ?r4"
  let ?r2 = "text_bytes (y_name y) @ ?r3" let ?r1 = "int32_bytes (y_position y) @ ?r2"
  have 1: "rbool X (run (bool_byte (y_global y) @ ?r1) N new) = Ret (Some (y_global y, run ?r1 N new))"
    unfolding rbool_def by (rule rstr_run) simp
  have 2: "rint X (run ?r1 N new) = Ret (Some (y_position y, run ?r2 N new))" "rint X (run ?r3 N new) = Ret (Some (y_category y, run ?r4 N new))"
    unfolding rint_def by (rule rstr_run, simp)+
  have 3: "rcharp X (run ?r2 N new) = Ret (Some (Some (y_name y), run ?r3 N new))"
    unfolding rcharp_def by (rule rstr_run) (simp add: text_reads [OF ok(1)])
  have 4: "rtype X (run ?r4 N new) = Ret (Some (y_type y, run rest N new))"
    unfolding rtype_def by (rule rout_run) (use type_depth_bytes [of "y_type y"] in \<open>simp add: readType_bytes [OF ok(2)]\<close>)
  show ?thesis
    by (simp add: readSym_def sym_bytes_def rbind_def 1 2 3 4 rsome_def rret_def)
qed

lemma rtimes_bytes:
  assumes "\<And>x rest. x \<in> set xs \<Longrightarrow> r (run (f x @ rest) N new) = Ret (Some (x, run rest N new))"
  shows "rtimes (length xs) r (run (concat (map f xs) @ rest) N new) = Ret (Some (xs, run rest N new))"
  using assms by (induction xs) (simp_all add: rret_def rbind_def)

text \<open>The head of a block: the writer pushes the name space first, the reader when it has read the kind.\<close>

lemma echo_block_head:
  assumes b: "e_used (g_w G) b = None" "g_syms G b = ys" and n: "plain_text name" and ys: "list_all sym_ok ys" "short ys"
    and t: "echo G w (tail b name k ys) v as d"
  shows "echo G (wseq (wns (pushNamespace b ys tab False)) (wseq (wstring name) (wseq (wint k) (wseq (wint (of_nat (length ys)))
      (wseq (wlist (map writeSym ys)) w)))))
    (rbind rnew (\<lambda>b. rbind (rstring X) (\<lambda>name. rbind (rint X) (\<lambda>k. rbind (rns (pushNamespace b [] False False)) (\<lambda>_.
     rbind (rint X) (\<lambda>scount. rbind (rtimes (unat scount) (readSym X)) (\<lambda>ys.
     rbind (rns (set_top (\<lambda>f. f\<lparr>f_syms := ys\<rparr>))) (\<lambda>_. tail b name k ys)))))))) v (b # as) d"
  unfolding echo_def
proof (intro allI impI)
  let ?bs = "text_bytes name @ int32_bytes k @ int32_bytes (of_nat (length ys)) @ concat (map sym_bytes ys)"
  let ?R = "rbind rnew (\<lambda>b. rbind (rstring X) (\<lambda>name. rbind (rint X) (\<lambda>k. rbind (rns (pushNamespace b [] False False)) (\<lambda>_.
     rbind (rint X) (\<lambda>scount. rbind (rtimes (unat scount) (readSym X)) (\<lambda>ys.
     rbind (rns (set_top (\<lambda>f. f\<lparr>f_syms := ys\<rparr>))) (\<lambda>_. tail b name k ys)))))))"
  fix W W' N assume "wseq (wns (pushNamespace b ys tab False)) (wseq (wstring name) (wseq (wint k) (wseq (wint (of_nat (length ys)))
      (wseq (wlist (map writeSym ys)) w)))) W = Some W'" and o: "\<not> ofail (w_str W)" and s: "sim G (w_ns W) N"
  moreover have "wlist (map writeSym ys) V = Some (V\<lparr>w_str := os_write (w_str V) (concat (map sym_bytes ys))\<rparr>)" for V
    by (rule wlist_bytes) (use ys in \<open>simp add: writeSym_bytes list_all_iff\<close>)
  ultimately obtain W1 where W1: "w W1 = Some W'" "w_str W1 = os_write (w_str W) ?bs" "w_ns W1 = pushNamespace b ys tab False (w_ns W)"
    by (auto simp: wseq_Some wns_def wstring_def wint_def wput_def write_text [OF n] writeInt32_int32_bytes)
  have s1: "sim G (w_ns W1) (pushNamespace b ys False False N)" using W1(3) sim_push_block [OF s b] by simp
  have "\<not> ofail (w_str W1)" using o W1 by simp
  from echoD [OF t W1(1) this s1] obtain cs where cs: "w_str W' = os_write (w_str W1) cs" "d \<le> length cs"
    "\<And>rest new. \<exists>N'. tail b name k ys (run (cs @ rest) (pushNamespace b ys False False N) (as @ new)) = Ret (Some (v, run rest N' new)) \<and> sim G (w_ns W') N'"
    by blast
  have "?R (run ((?bs @ cs) @ rest) N ((b # as) @ new)) = tail b name k ys (run (cs @ rest) (pushNamespace b ys False False N) (as @ new))" for rest new
  proof -
    let ?N = "pushNamespace b [] False False N"
    let ?r4 = "concat (map sym_bytes ys) @ cs @ rest" let ?r3 = "int32_bytes (of_nat (length ys)) @ ?r4" let ?r2 = "int32_bytes k @ ?r3"
    have 0: "rnew (run (text_bytes name @ ?r2) N (b # as @ new)) = Ret (Some (b, run (text_bytes name @ ?r2) N (as @ new)))"
      by (simp add: rnew_def run_def)
    have 1: "rstring X (run (text_bytes name @ ?r2) N (as @ new)) = Ret (Some (name, run ?r2 N (as @ new)))"
    proof -
      have "rstr (readString (x_junk X)) (run (text_bytes name @ ?r2) N (as @ new)) = Ret (Some ((name \<noteq> [], name), run ?r2 N (as @ new)))"
        by (rule rstr_run) (simp add: text_reads [OF n])
      then show ?thesis by (simp add: rstring_def rbind_def rret_def)
    qed
    have 2: "rint X (run ?r2 N (as @ new)) = Ret (Some (k, run ?r3 N (as @ new)))" "rint X (run ?r3 ?N (as @ new)) = Ret (Some (of_nat (length ys), run ?r4 ?N (as @ new)))"
      unfolding rint_def by (rule rstr_run, simp)+
    have 3: "rtimes (length ys) (readSym X) (run ?r4 ?N (as @ new)) = Ret (Some (ys, run (cs @ rest) ?N (as @ new)))"
      by (rule rtimes_bytes) (use ys in \<open>simp add: readSym_bytes list_all_iff\<close>)
    have u: "unat (of_nat (length ys) :: uint32) = length ys" using ys(2) by (simp add: unat_of_nat_32)
    show ?thesis
      by (simp add: rbind_def 0 1 2 3 u rns_run set_syms_push)
  qed
  with cs W1(2) show "\<exists>bs. w_str W' = os_write (w_str W) bs \<and> d \<le> length bs \<and>
      (\<forall>rest new. \<exists>N'. ?R (run (bs @ rest) N ((b # as) @ new)) = Ret (Some (v, run rest N' new)) \<and> sim G (w_ns W') N')"
    by (intro exI [of _ "?bs @ cs"]) auto
qed

lemma echo_table:
  assumes w: "world_ok G" and n: "sum_list (map (\<lambda>t. pcount (fst (snd t))) ts) \<le> m" and s: "short ts"
    and g: "\<And>t x. t \<in> set ts \<Longrightarrow> snd (snd t) = Some x \<Longrightarrow> good G m x"
    and ok: "\<And>t y. t \<in> set ts \<Longrightarrow> ref_sym G (fst t) = Some y \<Longrightarrow> y_category y = cat_function \<Longrightarrow> y_global y"
  shows "echo G (writeYCodelist (map (\<lambda>t. write_tentry (g_w G) t (map_option (swrite (g_w G)) (snd (snd t)))) ts))
    (read_table (g_r G) m (readCode (g_r G) m)) (map (map_prod id (map_prod id (map_option erase))) ts)
    (concat (map (\<lambda>t. concat (map blocks (olist (snd (snd t))))) ts))
    (sum_list (map (\<lambda>t. pcount (fst (snd t)) + sum_list (map weight (olist (snd (snd t))))) ts))"
proof -
  let ?w = "\<lambda>t. write_tentry (g_w G) t (map_option (swrite (g_w G)) (snd (snd t)))" and ?r = "read_tentry (g_r G) m (readCode (g_r G) m)"
  have one: "echo G (?w t) ?r (map_prod id (map_prod id (map_option erase)) t) (concat (map blocks (olist (snd (snd t)))))
      (pcount (fst (snd t)) + sum_list (map weight (olist (snd (snd t)))))" if t: "t \<in> set ts" for t
  proof -
    have "pcount (fst (snd t)) \<le> m"
      using member_le_sum_list [of "pcount (fst (snd t))" "map (\<lambda>t. pcount (fst (snd t))) ts"] n t by auto
    from echo_tentry [OF w this g [OF t] ok [OF t]] show ?thesis by (cases t) auto
  qed
  have "echo G (wlist (map ?w ts)) (rtimes (length ts) ?r) (map (map_prod id (map_prod id (map_option erase))) ts)
    (concat (map (\<lambda>t. concat (map blocks (olist (snd (snd t))))) ts))
    (sum_list (map (\<lambda>t. pcount (fst (snd t)) + sum_list (map weight (olist (snd (snd t))))) ts))"
    by (rule echo_rtimes) (rule one)
  moreover have "echo G (wns (\<lambda>N. N)) (rns (set_top (\<lambda>f. f\<lparr>f_table := f_table f \<or> 0 < sint (of_nat (length ts) :: uint32)\<rparr>))) () [] 0"
    by (rule echo_ns) (rule sim_set_table)
  moreover have "wns (\<lambda>N. N) = wskip" by (simp add: wns_def wskip_def)
  moreover have "nat (sint (of_nat (length ts) :: uint32)) = length ts" using s by (simp add: sint_of_nat_32)
  ultimately have "echo G (wseq (wint (of_nat (length ts))) (wseq wskip (wlist (map ?w ts)))) (read_table (g_r G) m (readCode (g_r G) m))
    (map (map_prod id (map_prod id (map_option erase))) ts)
    ([] @ [] @ concat (map (\<lambda>t. concat (map blocks (olist (snd (snd t))))) ts))
    (0 + (0 + sum_list (map (\<lambda>t. pcount (fst (snd t)) + sum_list (map weight (olist (snd (snd t))))) ts)))"
    unfolding read_table_def by (intro echo_bind [OF echo_int] echo_bind) simp_all
  then show ?thesis by (simp add: writeYCodelist_def)
qed

lemma nested_lists:
  "sum_list (map (h :: 'a \<Rightarrow> nat) (concat (map f ts))) = sum_list (map (\<lambda>t. sum_list (map h (f t))) ts)"
  "concat (map k (concat (map f ts))) = concat (map (\<lambda>t. concat (map k (f t))) ts)"
  by (induction ts) auto

lemma fits_block:
  assumes p: "parts_fit G m (SBlock b n k ys ts q ss)"
  shows "node_fits G m (SBlock b n k ys ts q ss)"
proof -
  note w = parts_node(2) [OF p] and L = parts_good [OF p]
  have ok: "e_used (g_w G) b = None" "g_syms G b = ys" "plain_text n" "list_all sym_ok ys" "short ts" "ts = [] \<or> ys \<noteq> [] \<and> k = b_module_kind"
    "\<And>t y. t \<in> set ts \<Longrightarrow> ref_sym G (fst t) = Some y \<Longrightarrow> y_category y = cat_function \<Longrightarrow> y_global y" "fits ss" "list_all isStatement ss"
    using parts_node(1) [OF p] by (auto simp: block_ok_def)
  have short: "short ys" using w ok(2) by (auto simp: world_ok_def)
  have pts: "sum_list (map (\<lambda>t. pcount (fst (snd t))) ts) \<le> m" "pcount q \<le> m" using p by (auto simp: parts_fit_def points_def)
  let ?r = "readCode (g_r G) m" and ?ts = "map (map_prod id (map_prod id (map_option erase))) ts"
  let ?bt = "concat (map (\<lambda>t. concat (map blocks (olist (snd (snd t))))) ts)"
  let ?dt = "sum_list (map (\<lambda>t. pcount (fst (snd t)) + sum_list (map weight (olist (snd (snd t))))) ts)"
  let ?wt = "map (\<lambda>t. write_tentry (g_w G) t (map_option (swrite (g_w G)) (snd (snd t)))) ts"
  have tab: "echo G (if ys \<noteq> [] \<and> k = b_module_kind then writeYCodelist ?wt else wskip)
      (if ys \<noteq> [] \<and> k = b_module_kind then read_table (g_r G) m ?r else rret []) ?ts ?bt ?dt"
  proof (cases "ys \<noteq> [] \<and> k = b_module_kind")
    case True
    have g: "good G m x" if "t \<in> set ts" "snd (snd t) = Some x" for t x
      by (rule L) (use that in force)
    have "echo G (writeYCodelist ?wt) (read_table (g_r G) m ?r) ?ts ?bt ?dt"
      by (rule echo_table [OF w pts(1) ok(5)]) (use g ok(7) in blast)+
    then show ?thesis using True by simp
  next
    case False
    then show ?thesis using ok(6) by (auto simp: echo_ret)
  qed
  have st: "echo G (wlist (map (swrite (g_w G)) ss)) (read_stmts (length ss) ?r) (map erase ss) (concat (map blocks ss)) (sum_list (map weight ss))"
    by (rule echo_stmts) (use L ok(9) in \<open>auto simp: good_echo list_all_iff\<close>)
  define tail where "tail = (\<lambda>b name k ys. rbind (if ys \<noteq> [] \<and> k = b_module_kind then read_table (g_r G) m ?r else rret []) (\<lambda>ts.
     rbind (readPoint (g_r G) m) (\<lambda>p. rbind (rint (g_r G)) (\<lambda>cnt. rbind (read_stmts (unat cnt) ?r) (\<lambda>ss.
     rbind (rns (popUptoNamespace b)) (\<lambda>_. rret (SBlock b name k ys ts p ss)))))))"
  have u: "unat (of_nat (length ss) :: uint32) = length ss" using ok(8) by simp
  have t: "echo G (wseq (if ys \<noteq> [] \<and> k = b_module_kind then writeYCodelist ?wt else wskip)
       (wseq (writePoint (g_w G) q) (wseq (wint (of_nat (length ss))) (wseq (wlist (map (swrite (g_w G)) ss)) (wns (popUptoNamespace b))))))
     (tail b n k ys) (SBlock b n k ys ?ts q (map erase ss)) (?bt @ ([] @ ([] @ (concat (map blocks ss) @ [])))) (?dt + (pcount q + (0 + (sum_list (map weight ss) + 0))))"
    unfolding tail_def
    by (rule echo_bind, rule tab, rule echo_bind, rule echo_point, rule w, rule pts, rule echo_bind, rule echo_int, simp only: u,
      rule echo_bind, rule st, rule echo_map, rule echo_ns, rule sim_popUpto)
  have d: "Suc (points (SBlock b n k ys ts q ss) + sum_list (map weight (children (SBlock b n k ys ts q ss)))) = Suc (?dt + (pcount q + (0 + (sum_list (map weight ss) + 0))))"
    by (simp add: points_def sum_list_addf nested_lists)
  have a: "own (SBlock b n k ys ts q ss) @ concat (map blocks (children (SBlock b n k ys ts q ss))) = b # (?bt @ ([] @ ([] @ (concat (map blocks ss) @ []))))"
    by (simp add: own_def nested_lists)
  have rd: "read_expression (g_r G) m ?r 27 = read_block (g_r G) m ?r" by (simp add: read_expression_unfold)
  have m2: "map2 (write_tentry (g_w G)) ts (map (snd \<circ> snd) (map (map_prod id (map_prod id (map_option (swrite (g_w G))))) ts)) = ?wt"
    by (simp add: comp_def map2_map)
  have "node_fits G m (SBlock b n k ys ts q ss) \<longleftrightarrow> echo G (swrite (g_w G) (SBlock b n k ys ts q ss)) (readCode (g_r G) (Suc m)) (erase (SBlock b n k ys ts q ss))
      (b # (?bt @ ([] @ ([] @ (concat (map blocks ss) @ []))))) (Suc (?dt + (pcount q + (0 + (sum_list (map weight ss) + 0)))))"
    unfolding node_fits_def a d ..
  also have \<dots>
    unfolding swrite_simps write_block_def wlist.simps wseq_skip m2 writeYCodelist_def length_map wseq_assoc erase.simps
    by (rule echo_expr, simp, simp, rule parts_old [OF p])
      (simp only: rd read_block_def,
        rule echo_block_head [where tail = tail, OF ok(1-4) short t, unfolded tail_def writeYCodelist_def length_map], simp_all)
  finally show ?thesis .
qed

section \<open>Programs\<close>

lemma node_fits:
  assumes "parts_fit G m c"
  shows "node_fits G m c"
proof (cases "plain_class c \<and> (\<forall>k v. c \<noteq> SConst k v)")
  case True
  then show ?thesis using fits_plain [OF assms] by blast
next
  case False
  then show ?thesis
    using assms parts_node(1) [OF assms]
    by (cases c) (simp_all add: plain_class_def fits_const fits_entry fits_function fits_term fits_list fits_map fits_builtin
      fits_call fits_pointer_call fits_block fits_sfunction fits_svariable fits_import fits_switch)
qed

lemma code_good:
  assumes w: "world_ok G"
  shows "code_ok G c \<Longrightarrow> weight c \<le> n \<Longrightarrow> good G n c"
proof (induction c arbitrary: n rule: children_induct)
  case (children c)
  have wt: "weight c = Suc (points c + sum_list (map weight (children c)))" by (rule weight.simps)
  with children.prems obtain m where n: "n = Suc m" by (cases n) auto
  have "good G m x" if "x \<in> set (children c)" for x
    by (rule children.IH [OF that])
      (use that children.prems wt n member_le_sum_list [of "weight x" "map weight (children c)"] in \<open>auto simp: code_ok_child\<close>)
  then have "parts_fit G m c"
    using w children.prems wt n by (auto simp: parts_fit_def code_ok_node)
  from node_fits [OF this] show ?case
    unfolding good_def node_fits_def n wt blocks.simps [of c] own_def by (simp add: children.prems)
qed

text \<open>
  A program that a stream can carry is read back up to what the format does not keep, whatever follows it in the
  stream; with the bytes left as bound of the nesting, the blocks get the given addresses.
\<close>

lemma code_echoed:
  assumes "world_ok G" "code_ok G c" "swrite (g_w G) c W = Some W'" "\<not> ofail (w_str W)" "sim G (w_ns W) N"
  shows "\<exists>bs N'. w_str W' = os_write (w_str W) bs \<and> sim G (w_ns W') N'
    \<and> readCode (g_r G) (Suc (length bs)) (run (bs @ rest) N (blocks c @ new)) = Ret (Some (erase c, run rest N' new))"
proof -
  have big: "good G n c" if "weight c \<le> n" for n by (rule code_good [OF assms(1,2) that])
  from echoD [OF good_echo [OF big [OF order_refl]] assms(3-5)] obtain bs where bs: "w_str W' = os_write (w_str W) bs" "weight c \<le> length bs"
    by metis
  from echoD [OF good_echo [OF big [of "Suc (length bs)"]] assms(3-5)] bs obtain bs' N' where
    "w_str W' = os_write (w_str W) bs'" "readCode (g_r G) (Suc (length bs)) (run (bs' @ rest) N (blocks c @ new)) = Ret (Some (erase c, run rest N' new))"
    "sim G (w_ns W') N'" by (metis le_SucI)
  with bs os_write_inj [OF _ assms(4)] show ?thesis by metis
qed

lemma sim_empty: "sim G empty_stack empty_stack"
  by (simp add: sim_def empty_stack_def visible_def xrefs_sim_def imports_of_def codes_sim_def)

lemmas writer_defs = wput_def wns_def wwith_def wseq_def wskip_def wopt_def wmaybe_def wtag_def wbool_def wint_def wcharp_def
  wstring_def wtype_def wset_def setCode_def write_block_def writeSym_def writeEntry_def writeYCodelist_def
  entry_sym_def frame_of_def namespaceId_def pushNamespace_def

lemma sample_world_ok: "world_ok sample_world"
  by (auto simp: world_ok_def sample_world_def okc_def sample_sym_def)

lemma sample_code_ok: "code_ok sample_world sample_code"
  by (simp add: sample_code_def code_ok.simps block_ok_def sample_world_def sym_ok_def sample_sym_def plain_text_def fits_def
    isStatement_def payload_tag_def)

lemma sample_blocks: "blocks sample_code = [7]"
  by (simp add: sample_code_def blocks.simps)

lemma sample_erase: "erase sample_code = sample_code"
  by (simp add: sample_code_def)

lemma sample_written: "\<exists>W. swrite (g_w sample_world) sample_code \<lparr>w_str = empty_stream, w_ns = empty_stack\<rparr> = Some W"
  by (simp add: sample_code_def sample_world_def sample_sym_def empty_stack_def writer_defs)

text \<open>
  C1. Code that is written to an empty stream and read back gives the code again, up to what the format does not keep,
  and leaves what follows it in the stream.  The nesting the reader allows is the length of the written code; the blocks
  get the addresses they are given.
\<close>

theorem code_write_read:
  assumes "world_ok G" and "code_ok G c"
    and "swrite (g_w G) c \<lparr>w_str = empty_stream, w_ns = empty_stack\<rparr> = Some W"
  shows "\<exists>N. readCode (g_r G) (Suc (length (obuf (w_str W))))
      \<lparr>r_str = istr (obuf (w_str W) @ rest), r_ns = empty_stack, r_new = blocks c @ new\<rparr>
    = Ret (Some (erase c, \<lparr>r_str = istr rest, r_ns = N, r_new = new\<rparr>))"
  using code_echoed [OF assms, of empty_stack rest new] by (auto simp: sim_empty os_write_def run_def)

theorem code_write_read_witness:
  "\<exists>W N. swrite (g_w sample_world) sample_code \<lparr>w_str = empty_stream, w_ns = empty_stack\<rparr> = Some W
     \<and> readCode (g_r sample_world) (Suc (length (obuf (w_str W))))
         \<lparr>r_str = istr (obuf (w_str W) @ ''z''), r_ns = empty_stack, r_new = [7, 8]\<rparr>
       = Ret (Some (sample_code, \<lparr>r_str = istr ''z'', r_ns = N, r_new = [8]\<rparr>))"
proof -
  obtain W where W: "swrite (g_w sample_world) sample_code \<lparr>w_str = empty_stream, w_ns = empty_stack\<rparr> = Some W"
    using sample_written by blast
  with code_write_read [OF sample_world_ok sample_code_ok W, of "''z''" "[8]"] show ?thesis by (simp add: sample_blocks sample_erase)
qed

end
