(* ===== verification/Path_Search.thy ===== *)
theory Path_Search
  imports Prelude
begin

text \<open>
  The search for files of the system (\<^verbatim>\<open>pathsearch.cc\<close>): the levels at which components are looked for, and the
  lists of directories for clients, include files and modules.

  The environment variables, the file system and the directories set when the system is built are given by a record of
  parameters.  \<^const>\<open>None\<close> is the access to a level that is not there, or to the last character of an empty string.
\<close>

unbundle bit_operations_syntax

section \<open>The surroundings\<close>

record stat_t =
  st_mode :: uint32
  st_mtime :: int

record surroundings =
  o_getenv :: "string \<Rightarrow> string option"
  o_canonical :: "string \<Rightarrow> string option"
  o_access :: "string \<Rightarrow> nat \<Rightarrow> bool"
  o_stat :: "string \<Rightarrow> stat_t option"
  o_yast2dir :: string
  o_execcompdir :: string
  o_plugindir :: string

abbreviation R_OK :: nat where "R_OK \<equiv> 4"
abbreviation S_IFMT :: uint32 where "S_IFMT \<equiv> 0xF000"
abbreviation S_IFREG :: uint32 where "S_IFREG \<equiv> 0x8000"
abbreviation S_IXOTH :: uint32 where "S_IXOTH \<equiv> 1"

definition s_isreg :: "stat_t \<Rightarrow> bool" where
  "s_isreg b \<longleftrightarrow> st_mode b AND S_IFMT = S_IFREG"

text \<open>\<^verbatim>\<open>boost::split\<close> at a character, and \<^verbatim>\<open>boost::replace_all_copy\<close> of the separator of name spaces.\<close>

fun split_at_char :: "char \<Rightarrow> string \<Rightarrow> string list" where
  "split_at_char d [] = [[]]"
| "split_at_char d (c # s) =
     (if c = d then [] # split_at_char d s
      else case split_at_char d s of [] \<Rightarrow> [[c]] | w # ws \<Rightarrow> (c # w) # ws)"

fun slashes :: "string \<Rightarrow> string" where
  "slashes (c # d # s) = (if c = CHR '':'' \<and> d = CHR '':'' then CHR ''/'' # slashes s else c # slashes (d # s))"
| "slashes s = s"

text \<open>
  \<^verbatim>\<open>atoi\<close>: blanks, a sign, digits.  A number outside the range of \<^verbatim>\<open>int\<close> is cut to its low bits.
\<close>

definition atoi :: "string \<Rightarrow> int" where
  "atoi s =
     (let t = dropWhile is_space s;
          (neg, u) = (case t of c # r \<Rightarrow> if c = CHR ''-'' then (True, r) else if c = CHR ''+'' then (False, r) else (False, t)
                      | [] \<Rightarrow> (False, t));
          n = int (digits_val 10 (takeWhile is_digit u)) in
      sint (word_of_int (if neg then - n else n) :: uint32))"

section \<open>The levels\<close>

definition getPaths :: "surroundings \<Rightarrow> string list" where
  "getPaths V =
     ''/y2update''
     # (case o_getenv V ''Y2DIR'' of None \<Rightarrow> [] | Some y2dir \<Rightarrow> filter (\<lambda>d. d \<noteq> o_yast2dir V) (split_at_char CHR '':'' y2dir))
     @ (case o_getenv V ''HOME'' of None \<Rightarrow> [] | Some home \<Rightarrow> [home @ ''/.yast2''])
     @ [o_yast2dir V]"

datatype kind = Client | Include | Module

record search =
  s_paths :: "string list"
  s_prefixWarn :: bool
  s_lists :: "kind \<Rightarrow> string list"
  s_initialized :: bool

definition search_start :: search where
  "search_start = \<lparr>s_paths = [], s_prefixWarn = True, s_lists = (\<lambda>_. []), s_initialized = False\<rparr>"

definition initializePaths :: "surroundings \<Rightarrow> search \<Rightarrow> search" where
  "initializePaths V S = (if s_paths S = [] then S\<lparr>s_paths := getPaths V\<rparr> else S)"

definition numberOfComponentLevels :: "surroundings \<Rightarrow> search \<Rightarrow> nat \<times> search" where
  "numberOfComponentLevels V S = (let S1 = initializePaths V S in (length (s_paths S1), S1))"

datatype what = GENERIC | EXECCOMP | PLUGIN

definition path_at :: "string list \<Rightarrow> int \<Rightarrow> string option" where
  "path_at ps level = (if 0 \<le> level \<and> nat level < length ps then Some (ps ! nat level) else None)"

definition searchPath :: "surroundings \<Rightarrow> what \<Rightarrow> int \<Rightarrow> search \<Rightarrow> string option \<times> search" where
  "searchPath V what level S =
     (let S1 = initializePaths V S; ps = s_paths S1; levels = int (length ps) in
      (case what of
         EXECCOMP \<Rightarrow> if level = levels - 1 then Some (o_execcompdir V) else path_at ps level
       | PLUGIN \<Rightarrow> if level = levels - 1 then Some (o_plugindir V) else map_option (\<lambda>p. p @ ''/plugin'') (path_at ps level)
       | GENERIC \<Rightarrow> path_at ps level, S1))"

text \<open>The file name with \<^verbatim>\<open>::\<close> read as a slash; the name as it was when the file system does not know it.\<close>

definition completeFilename :: "surroundings \<Rightarrow> string \<Rightarrow> string" where
  "completeFilename V fname = (case o_canonical V (slashes fname) of None \<Rightarrow> fname | Some cfn \<Rightarrow> cfn)"

definition in_directory :: "string \<Rightarrow> string \<Rightarrow> string" where
  "in_directory d f = (if last d \<noteq> CHR ''/'' then d @ ''/'' else d) @ f"

fun findy2_from :: "surroundings \<Rightarrow> string \<Rightarrow> nat \<Rightarrow> int \<Rightarrow> int \<Rightarrow> string list \<Rightarrow> string option" where
  "findy2_from V filename mode level i [] = Some []"
| "findy2_from V filename mode level i (p # ps) =
     (if 0 \<le> level \<and> i \<noteq> level then findy2_from V filename mode level (i + 1) ps
      else if p = [] then None
      else let pathname = completeFilename V (in_directory p filename) in
        if o_access V pathname mode then Some pathname else findy2_from V filename mode level (i + 1) ps)"

definition findy2 :: "surroundings \<Rightarrow> string \<Rightarrow> nat \<Rightarrow> int \<Rightarrow> search \<Rightarrow> string option \<times> search" where
  "findy2 V filename mode level S =
     (let S1 = initializePaths V S in (findy2_from V filename mode level 0 (s_paths S1), S1))"

text \<open>The condition on the mode is \<^verbatim>\<open>buf.st_mode & (S_IXOTH == S_IXOTH)\<close>.\<close>

definition findy2exe :: "surroundings \<Rightarrow> string \<Rightarrow> string \<Rightarrow> bool \<Rightarrow> bool \<Rightarrow> int \<Rightarrow> search \<Rightarrow> string option \<times> search" where
  "findy2exe V root compname server non_y2 level S =
     (let subdir = (if server then (if non_y2 then ''/servers_non_y2/'' else ''/servers/'')
                    else (if non_y2 then ''/clients_non_y2/'' else ''/clients/''));
          (p, S1) = searchPath V EXECCOMP level S in
      (map_option (\<lambda>p. let pathname = root @ p @ subdir @ compname in
         case o_stat V pathname of
           None \<Rightarrow> []
         | Some buf \<Rightarrow>
             if s_isreg buf \<and> st_mode buf AND (if S_IXOTH = S_IXOTH then 1 else 0) \<noteq> 0 then pathname else []) p, S1))"

definition findy2plugin :: "surroundings \<Rightarrow> string \<Rightarrow> int \<Rightarrow> search \<Rightarrow> string option \<times> search" where
  "findy2plugin V name level S =
     (let (p, S1) = searchPath V PLUGIN level S in
      (map_option (\<lambda>p. let filename = p @ ''/libpy2'' @ name @ ''.so.2'' in
         case o_stat V filename of None \<Rightarrow> [] | Some buf \<Rightarrow> if s_isreg buf then filename else []) p, S1))"

fun level_of :: "string \<Rightarrow> string list \<Rightarrow> nat \<Rightarrow> nat option" where
  "level_of d [] i = None"
| "level_of d (p # ps) i = (if p = d then Some i else level_of d ps (Suc i))"

definition defaultComponentLevel :: "surroundings \<Rightarrow> search \<Rightarrow> int \<times> search" where
  "defaultComponentLevel V S =
     (let S1 = initializePaths V S in
      (case level_of (o_yast2dir V) (s_paths S1) 0 of Some i \<Rightarrow> int i | None \<Rightarrow> int (length (s_paths S1)) - 1, S1))"

definition currentComponentLevel :: "surroundings \<Rightarrow> search \<Rightarrow> int \<times> search" where
  "currentComponentLevel V S =
     (let (l, S1) = defaultComponentLevel V S in
      (case o_getenv V ''Y2LEVEL'' of None \<Rightarrow> l | Some s \<Rightarrow> atoi s, S1))"

section \<open>The lists of directories\<close>

definition addPath :: "kind \<Rightarrow> string \<Rightarrow> search \<Rightarrow> search" where
  "addPath k path S =
     (let l = s_lists S k in if path \<in> set l then S else S\<lparr>s_lists := (s_lists S)(k := path # l)\<rparr>)"

definition clearPaths :: "kind \<Rightarrow> search \<Rightarrow> search" where
  "clearPaths k S = S\<lparr>s_lists := (s_lists S)(k := [])\<rparr>"

definition initialize_kind :: "surroundings \<Rightarrow> kind \<Rightarrow> string \<Rightarrow> search \<Rightarrow> search" where
  "initialize_kind V k suffix S =
     fold (\<lambda>p. addPath k (p @ suffix)) (rev (getPaths V)) (S\<lparr>s_prefixWarn := o_getenv V ''Y2SILENTSEARCH'' = None\<rparr>)"

definition initialize :: "surroundings \<Rightarrow> search \<Rightarrow> search" where
  "initialize V S =
     (if s_initialized S then S
      else (initialize_kind V Module ''/modules''
             (initialize_kind V Include ''/include''
               (initialize_kind V Client ''/clients'' S)))\<lparr>s_initialized := True\<rparr>)"

fun find_in :: "surroundings \<Rightarrow> string \<Rightarrow> string list \<Rightarrow> string" where
  "find_in V name [] = []"
| "find_in V name (d # ds) =
     (let pathname = completeFilename V (d @ ''/'' @ name) in
      if o_access V pathname R_OK then pathname else find_in V name ds)"

definition path_find :: "surroundings \<Rightarrow> kind \<Rightarrow> string \<Rightarrow> search \<Rightarrow> string \<times> search" where
  "path_find V k name S =
     (if take 2 name = ''./'' then (if o_access V name R_OK then name else [], S)
      else let S1 = initialize V S in (find_in V name (s_lists S1 k), S1))"

definition findInclude :: "surroundings \<Rightarrow> string \<Rightarrow> search \<Rightarrow> string \<times> search" where
  "findInclude V name S = path_find V Include name S"

definition ends_with :: "string \<Rightarrow> string \<Rightarrow> bool" where
  "ends_with s t \<longleftrightarrow> length t \<le> length s \<and> drop (length s - length t) s = t"

definition findModule :: "surroundings \<Rightarrow> string \<Rightarrow> bool \<Rightarrow> search \<Rightarrow> string \<times> search" where
  "findModule V name the_source S =
     (let extension = (if the_source then ''.ycp'' else ''.ybc'') in
      path_find V Module (if ends_with name extension then name else name @ extension) S)"

text \<open>
  \<^verbatim>\<open>find_last_of ("ycp")\<close> is the last position with one of the three letters; the empty name counts as found, and its
  last but one character is written.
\<close>

definition bytecodeForFile :: "surroundings \<Rightarrow> string \<Rightarrow> string option" where
  "bytecodeForFile V filename =
     (if filename = [] then None
      else if last filename \<in> set ''ycp''
      then if length filename = 1 then None
        else let ybc = filename[length filename - 2 := CHR ''b'', length filename - 1 := CHR ''c''] in
          (case o_stat V ybc of
             None \<Rightarrow> Some []
           | Some b \<Rightarrow> if \<not> s_isreg b then Some []
               else case o_stat V filename of
                 None \<Rightarrow> Some []
               | Some s \<Rightarrow> if \<not> s_isreg s then Some [] else if st_mtime b < st_mtime s then Some [] else Some ybc)
      else Some [])"

section \<open>What the search finds\<close>

lemma lists_addPath: "s_lists (addPath k p S) j = (if j = k \<and> p \<notin> set (s_lists S k) then p # s_lists S k else s_lists S j)"
  by (simp add: addPath_def Let_def)

lemma lists_addPaths:
  "s_lists (fold (\<lambda>p. addPath k (f p)) ps S) j
   = (if j = k then fold (\<lambda>p l. if f p \<in> set l then l else f p # l) ps (s_lists S k) else s_lists S j)"
  by (induction ps arbitrary: S) (auto simp: lists_addPath)

lemma push_new_remdups:
  "fold (\<lambda>p l. if f p \<in> set l then l else f p # l) (rev ps) l
   = filter (\<lambda>x. x \<notin> set l) (remdups (map f ps)) @ l"
  by (induction ps) auto

lemma lists_initialize_kind:
  "s_lists (initialize_kind V k suffix S) j =
     (if j = k then filter (\<lambda>x. x \<notin> set (s_lists S k)) (remdups (map (\<lambda>p. p @ suffix) (getPaths V))) @ s_lists S k
      else s_lists S j)"
  by (simp add: initialize_kind_def lists_addPaths push_new_remdups)

definition suffix_of :: "kind \<Rightarrow> string" where
  "suffix_of k = (case k of Client \<Rightarrow> ''/clients'' | Include \<Rightarrow> ''/include'' | Module \<Rightarrow> ''/modules'')"

lemma lists_initialize:
  "\<not> s_initialized S \<Longrightarrow>
   s_lists (initialize V S) k
   = filter (\<lambda>x. x \<notin> set (s_lists S k)) (remdups (map (\<lambda>p. p @ suffix_of k) (getPaths V))) @ s_lists S k"
  by (cases k) (simp_all add: initialize_def lists_initialize_kind suffix_of_def)

text \<open>The first readable file of a list, or the empty string.\<close>

definition first_readable :: "surroundings \<Rightarrow> string list \<Rightarrow> string" where
  "first_readable V fs = (case List.find (\<lambda>f. o_access V f R_OK) fs of None \<Rightarrow> [] | Some f \<Rightarrow> f)"

lemma find_in_readable: "find_in V name ds = first_readable V (map (\<lambda>d. completeFilename V (d @ ''/'' @ name)) ds)"
  by (induction ds) (auto simp: first_readable_def Let_def)

definition module_file :: "string \<Rightarrow> bool \<Rightarrow> string" where
  "module_file name the_source =
     (let ext = (if the_source then ''.ycp'' else ''.ybc'') in if ends_with name ext then name else name @ ext)"

lemma findModule_file: "findModule V name src S = path_find V Module (module_file name src) S"
  by (simp add: findModule_def module_file_def Let_def)

lemma path_find_lists:
  "take 2 name \<noteq> ''./'' \<Longrightarrow>
   path_find V k name S
   = (first_readable V (map (\<lambda>d. completeFilename V (d @ ''/'' @ name)) (s_lists (initialize V S) k)), initialize V S)"
  by (simp add: path_find_def Let_def find_in_readable)

lemma initialize_again: "initialize V (initialize V S) = initialize V S"
  by (simp add: initialize_def)

lemma path_find_again: "path_find V k name (snd (path_find V k name S)) = path_find V k name S"
  by (simp add: path_find_def Let_def initialize_again)

lemma findModule_again: "findModule V name src S = (f, S1) \<Longrightarrow> findModule V name src S1 = (f, S1)"
  using path_find_again [of V Module "module_file name src" S] by (simp add: findModule_file)

text \<open>Once the lists are set up, a directory that is added is looked at first.\<close>

lemma path_find_added:
  assumes "s_initialized S" and "take 2 name \<noteq> ''./''" and "o_access V (completeFilename V (d @ ''/'' @ name)) R_OK"
    and "d \<notin> set (s_lists S k)"
  shows "fst (path_find V k name (addPath k d S)) = completeFilename V (d @ ''/'' @ name)"
  using assms by (simp add: path_find_lists initialize_def lists_addPath first_readable_def) (simp add: addPath_def Let_def lists_addPath)

text \<open>Only the last letter of a name is looked at, and the two last ones are replaced.\<close>

lemma bytecode_of_any_letter:
  assumes "o_stat V ''main.c'' = Some b" "s_isreg b" "o_stat V ''mainbc'' = Some b'" "s_isreg b'" "st_mtime b \<le> st_mtime b'"
  shows "bytecodeForFile V ''main.c'' = Some ''mainbc''"
  using assms by (simp add: bytecodeForFile_def)

lemma empty_level_undefined:
  assumes "o_getenv V ''Y2DIR'' = Some []" "o_yast2dir V \<noteq> []" "\<not> o_access V (completeFilename V (''/y2update/'' @ f)) mode"
  shows "fst (findy2 V f mode (- 1) search_start) = None"
  using assms by (simp add: findy2_def initializePaths_def search_start_def getPaths_def in_directory_def Let_def)

lemma executable_for_others:
  "fst (findy2exe V root c server non_y2 level S) = Some f \<Longrightarrow> f \<noteq> [] \<Longrightarrow>
   \<exists>buf. o_stat V f = Some buf \<and> s_isreg buf \<and> st_mode buf AND S_IXOTH \<noteq> 0"
  by (auto simp: findy2exe_def Let_def split: prod.splits option.splits if_splits)

definition sample_surroundings :: surroundings where
  "sample_surroundings =
     \<lparr>o_getenv = (\<lambda>n. if n = ''Y2DIR'' then Some ''/a:/b:/a'' else None), o_canonical = Some, o_access = (\<lambda>f m. f \<noteq> ''/y2update/modules/M.ybc''),
      o_stat = (\<lambda>_. None), o_yast2dir = ''/usr'', o_execcompdir = ''/lib'', o_plugindir = ''/plug''\<rparr>"

lemma sample_found: "fst (findModule sample_surroundings ''M'' False search_start) = ''/b/modules/M.ybc''"
  by (simp add: findModule_file path_find_lists lists_initialize search_start_def suffix_of_def sample_surroundings_def getPaths_def
    first_readable_def module_file_def ends_with_def completeFilename_def)

text \<open>
  C39. The first search for a module looks into the directories of the search path from the front, the user's own before
  the system's, a directory that occurs twice at its last place only, and gives the first file that can be read, or the
  empty string.
\<close>

theorem findModule_search:
  assumes "take 2 (module_file name src) \<noteq> ''./''"
  shows "fst (findModule V name src search_start)
      = first_readable V (map (\<lambda>d. completeFilename V (d @ ''/'' @ module_file name src))
          (remdups (map (\<lambda>p. p @ ''/modules'') (getPaths V))))"
proof -
  have "s_lists (initialize V search_start) Module = remdups (map (\<lambda>p. p @ ''/modules'') (getPaths V))"
    by (subst lists_initialize) (simp_all add: search_start_def suffix_of_def)
  then show ?thesis by (simp add: findModule_file path_find_lists [OF assms])
qed

theorem findModule_search_witness: "fst (findModule sample_surroundings ''M'' False search_start) = ''/b/modules/M.ybc''"
proof -
  have "fst (findModule sample_surroundings ''M'' False search_start)
      = first_readable sample_surroundings (map (\<lambda>d. completeFilename sample_surroundings (d @ ''/'' @ module_file ''M'' False))
          (remdups (map (\<lambda>p. p @ ''/modules'') (getPaths sample_surroundings))))"
    by (rule findModule_search) (simp add: module_file_def ends_with_def)
  then show ?thesis
    by (simp add: sample_surroundings_def getPaths_def first_readable_def module_file_def ends_with_def completeFilename_def)
qed

end
