(* ===== verification/Code_File.thy ===== *)
theory Code_File
  imports Code_Roundtrip Path_Search
begin

text \<open>
  Files of byte code (\<^verbatim>\<open>Bytecode.cc\<close>): the header with the version, reading and writing a file, and reading a module, which
  is kept in a cache.  The file system maps names to contents; which files can be written is a parameter.
\<close>

section \<open>The header\<close>

abbreviation yast_bytecode_header :: string where "yast_bytecode_header \<equiv> ''YaST bytecode ''"

text \<open>
  \<^verbatim>\<open>readInt\<close>: digits up to some other character.  At the end of the stream the character keeps its value, and a
  digit is seen again and again.
\<close>

partial_function (option) readInt_from :: "char \<Rightarrow> uint32 \<Rightarrow> istream \<Rightarrow> (uint32 \<times> istream) option" where
  "readInt_from c i str =
     (case is_get str of (r, str1) \<Rightarrow>
        let c1 = (case r of None \<Rightarrow> c | Some d \<Rightarrow> d) in
        if \<not> is_digit c1 then Some (i, str1)
        else readInt_from c1 (i * 10 + of_nat (digit_val c1)) str1)"

definition readInt :: "junk \<Rightarrow> istream \<Rightarrow> (uint32 \<times> istream) option" where
  "readInt junk str = readInt_from (junk 0) 0 str"

record bytecodeistream =
  b_str :: istream
  b_major :: uint32
  b_minor :: uint32
  b_release :: uint32

text \<open>The constructor, for a file that could be opened; the version stays \<^verbatim>\<open>-1\<close> when the header is not there.\<close>

definition bytecodeistream_open :: "junk \<Rightarrow> string \<Rightarrow> bytecodeistream option" where
  "bytecodeistream_open junk contents =
     (let n = length yast_bytecode_header;
          (got, str) = is_read n (istr contents);
          header = fill junk n got in
      if c_str header \<noteq> yast_bytecode_header
      then Some \<lparr>b_str = str, b_major = - 1, b_minor = - 1, b_release = - 1\<rparr>
      else case readInt junk str of
        None \<Rightarrow> None
      | Some (ma, str1) \<Rightarrow> (case readInt junk str1 of
          None \<Rightarrow> None
        | Some (mi, str2) \<Rightarrow> (case readInt junk str2 of
            None \<Rightarrow> None
          | Some (re, str3) \<Rightarrow> Some \<lparr>b_str = str3, b_major = ma, b_minor = mi, b_release = re\<rparr>)))"

definition isVersion :: "bytecodeistream \<Rightarrow> uint32 \<Rightarrow> uint32 \<Rightarrow> uint32 \<Rightarrow> bool" where
  "isVersion b major minor release \<longleftrightarrow> major = b_major b \<and> minor = b_minor b \<and> release = b_release b"

definition isVersionAtMost :: "bytecodeistream \<Rightarrow> uint32 \<Rightarrow> uint32 \<Rightarrow> uint32 \<Rightarrow> bool" where
  "isVersionAtMost b major minor release =
     (if sint (b_major b) > sint major then False
      else if b_major b = major \<and> sint (b_minor b) > sint minor then False
      else if b_major b = major \<and> b_minor b = minor \<and> sint (b_release b) > sint release then False
      else True)"

section \<open>Files\<close>

type_synonym files = "string \<Rightarrow> string option"

definition file_header :: string where
  "file_header = yast_bytecode_header @ ''1.4.0'' @ [NUL]"

text \<open>
  \<^verbatim>\<open>Bytecode::writeFile\<close>: whether it succeeded, and the files.  \<^const>\<open>None\<close> is an abort while the code is written.
\<close>

definition writeFile :: "wenv \<Rightarrow> (string \<Rightarrow> bool) \<Rightarrow> scode \<Rightarrow> string \<Rightarrow> nstack \<Rightarrow> files \<Rightarrow> (bool \<times> nstack \<times> files) option" where
  "writeFile E writable c filename N fs =
     (if \<not> writable filename then Some (False, N, fs)
      else case swrite E c \<lparr>w_str = os_write empty_stream file_header, w_ns = N\<rparr> of
        None \<Rightarrow> None
      | Some W \<Rightarrow> Some (\<not> ofail (w_str W), w_ns W, fs(filename := Some (obuf (w_str W)))))"

text \<open>
  \<^verbatim>\<open>Bytecode::readFile\<close>; \<^const>\<open>None\<close> if it does not return.  A null pointer is \<open>Ret (Some (SNull, \<dots>))\<close>, or \<open>Ret None\<close> when invalid
  byte code was found; then the stack is left as it was at that point, which is not represented.
\<close>

definition readFile :: "renv \<Rightarrow> files \<Rightarrow> string \<Rightarrow> nstack \<Rightarrow> nat list \<Rightarrow> (scode \<times> rst) option outcome option" where
  "readFile X fs filename N new =
     (case fs filename of
        None \<Rightarrow> Some (Ret (Some (SNull, \<lparr>r_str = istr [], r_ns = N, r_new = new\<rparr>)))
      | Some contents \<Rightarrow>
          map_option (\<lambda>b.
            let R = \<lparr>r_str = b_str b, r_ns = N, r_new = new\<rparr> in
            if isVersion b 1 4 0 \<or> isVersion b 1 3 2
            then readCode (X\<lparr>x_old := isVersion b 1 3 2\<rparr>) (Suc (left (b_str b))) R
            else Ret (Some (SNull, R))) (bytecodeistream_open (x_junk X) contents))"

record loader =
  l_search :: search
  l_cache :: "string \<Rightarrow> scode option"
  l_ns :: nstack
  l_new :: "nat list"

definition is_module :: "scode \<Rightarrow> bool" where
  "is_module c = (case as_block c of Some (b, ys, m) \<Rightarrow> m | None \<Rightarrow> False)"

text \<open>
  \<^verbatim>\<open>Bytecode::readModule\<close>, first what follows \<^verbatim>\<open>readFile\<close>.  When the file gives no block, the level of the stack is not set back.
\<close>

definition keep_module :: "string \<Rightarrow> int \<Rightarrow> loader \<Rightarrow> scode \<times> rst \<Rightarrow> scode \<times> loader" where
  "keep_module mname tare L q =
     (let block = block_or_null (fst q); R = snd q; L1 = L\<lparr>l_ns := r_ns R, l_new := r_new R\<rparr> in
      if block = SNull then (SNull, L1)
      else let L2 = L1\<lparr>l_ns := untareStack (r_ns R) tare\<rparr> in
        if \<not> is_module block then (SNull, L2)
        else (block, L2\<lparr>l_cache := (l_cache L)(mname := Some block)\<rparr>))"

definition readModule :: "surroundings \<Rightarrow> renv \<Rightarrow> files \<Rightarrow> string \<Rightarrow> loader \<Rightarrow> (scode \<times> loader) option outcome option" where
  "readModule V X fs mname L =
     (let (filename, S1) = findModule V mname False (l_search L); L1 = L\<lparr>l_search := S1\<rparr> in
      if filename = [] then Some (Ret (Some (SNull, L1)))
      else case l_cache L mname of
        Some b \<Rightarrow> Some (Ret (Some (b, L1)))
      | None \<Rightarrow>
          let (tare, N1) = tareStack (l_ns L) in
          map_option (\<lambda>r. obind r (\<lambda>q. Ret (map_option (keep_module mname tare L1) q)))
            (readFile X fs filename N1 (l_new L)))"

section \<open>Numbers in the header\<close>

lemma readInt_step: "is_digit d \<Longrightarrow> readInt_from c i (istr (d # s)) = readInt_from d (i * 10 + of_nat (digit_val d)) (istr s)"
  by (subst readInt_from.simps) (simp add: Let_def)

lemma readInt_other: "\<not> is_digit d \<Longrightarrow> readInt_from c i (istr (d # s)) = Some (i, istr s)"
  by (subst readInt_from.simps) (simp add: Let_def)

lemma readInt_stuck: "is_digit c \<Longrightarrow> readInt_from c i \<lparr>ibuf = [], ifail = True\<rparr> = None"
proof -
  have "\<not> (is_digit c \<and> ifail str)" if "readInt_from c i str = Some r" for c i str r
    by (rule readInt_from.raw_induct [where P = "\<lambda>c i str r. \<not> (is_digit c \<and> ifail str)", OF _ that])
      (auto simp: is_get_def Let_def split: if_splits)
  from this [of c i "\<lparr>ibuf = [], ifail = True\<rparr>"] show "is_digit c \<Longrightarrow> ?thesis"
    by (cases "readInt_from c i \<lparr>ibuf = [], ifail = True\<rparr>") auto
qed

lemma readInt_end: "readInt_from c i (istr []) = (if is_digit c then None else Some (i, \<lparr>ibuf = [], ifail = True\<rparr>))"
  by (subst readInt_from.simps) (simp add: is_get_def Let_def readInt_stuck)

lemma digits_foldl:
  "foldl (\<lambda>n c. n * 10 + of_nat (digit_val c)) (of_nat n :: uint32) s = of_nat (foldl (\<lambda>n c. n * 10 + digit_val c) n s)"
proof (induction s arbitrary: n)
  case (Cons c s)
  show ?case using Cons [of "n * 10 + digit_val c"] by simp
qed simp

lemma readInt_from_digits:
  "readInt_from c i (istr s) =
     (case dropWhile is_digit s of
        d # rest \<Rightarrow> Some (foldl (\<lambda>n c. n * 10 + of_nat (digit_val c)) i (takeWhile is_digit s), istr rest)
      | [] \<Rightarrow> if s = [] \<and> \<not> is_digit c then Some (i, \<lparr>ibuf = [], ifail = True\<rparr>) else None)"
proof (induction s arbitrary: c i)
  case (Cons d s)
  then show ?case by (cases "is_digit d") (auto simp: readInt_step readInt_other simp del: dropWhile_eq_Nil_conv split: list.splits)
qed (simp add: readInt_end)

text \<open>
  A number of the header is read up to the first character that is no digit, modulo the width of \<^verbatim>\<open>int\<close>.  The loop does
  not end when the file ends within a number; when it has ended before, the uninitialised character decides.
\<close>

theorem readInt_digits:
  "readInt junk (istr s) =
     (case dropWhile is_digit s of
        d # rest \<Rightarrow> Some (of_nat (digits_val 10 (takeWhile is_digit s)), istr rest)
      | [] \<Rightarrow> if s = [] \<and> \<not> is_digit (junk 0) then Some (0, \<lparr>ibuf = [], ifail = True\<rparr>) else None)"
  using digits_foldl [of 0] by (cases "dropWhile is_digit s") (simp_all add: readInt_def readInt_from_digits digits_val_def del: dropWhile_eq_Nil_conv)

section \<open>Files are read back\<close>

lemma open_header:
  "bytecodeistream_open junk (file_header @ s) = Some \<lparr>b_str = istr s, b_major = 1, b_minor = 4, b_release = 0\<rparr>"
  by (simp add: bytecodeistream_open_def file_header_def is_read_def readInt_digits c_str_def is_digit_def digits_val_def digit_val_def)

lemma file_echoed:
  assumes "world_ok G" and "code_ok G c" and "sim G Nw Nr"
    and "writeFile (g_w G) writable c f Nw fs = Some (True, Nw', fs')"
  shows "\<exists>Nr' rest. sim G Nw' Nr'
    \<and> readFile (g_r G) fs' f Nr (blocks c @ new) = Some (Ret (Some (erase c, \<lparr>r_str = rest, r_ns = Nr', r_new = new\<rparr>)))"
proof -
  let ?h = "os_write empty_stream file_header"
  obtain W where W: "swrite (g_w G) c \<lparr>w_str = ?h, w_ns = Nw\<rparr> = Some W" "w_ns W = Nw'" "fs' f = Some (obuf (w_str W))"
    using assms(4) by (auto simp: writeFile_def split: if_splits option.splits)
  from code_echoed [OF assms(1,2) W(1), of Nr "[]" new] assms(3) obtain bs N' where
    bs: "w_str W = os_write ?h bs" "sim G Nw' N'"
    "readCode (g_r G) (Suc (length bs)) (run bs Nr (blocks c @ new)) = Ret (Some (erase c, run [] N' new))"
    using W(2) by (auto simp: os_write_def)
  have "obuf (w_str W) = file_header @ bs" using bs(1) by (simp add: os_write_def)
  moreover have "g_r G\<lparr>x_old := False\<rparr> = g_r G"
    using assms(1) by (cases "g_r G") (simp add: world_ok_def)
  ultimately have "readFile (g_r G) fs' f Nr (blocks c @ new) = Some (readCode (g_r G) (Suc (length bs)) (run bs Nr (blocks c @ new)))"
    using assms(1) W(3) by (simp add: readFile_def open_header isVersion_def run_def)
  with bs show ?thesis by (auto simp: run_def)
qed

text \<open>
  C25. A file that was written is read back: the header is accepted and \<open>readFile\<close> returns the code, up to what the format does
  not keep.
\<close>

theorem file_write_read:
  assumes "world_ok G" and "code_ok G c"
    and "writeFile (g_w G) writable c f empty_stack fs = Some (True, N, fs')"
  shows "\<exists>R. readFile (g_r G) fs' f empty_stack (blocks c @ new) = Some (Ret (Some (erase c, R))) \<and> r_new R = new"
  using file_echoed [OF assms(1,2) sim_empty assms(3), of new] by fastforce

lemma sample_file_written:
  "\<exists>N fs. writeFile (g_w sample_world) (\<lambda>_. True) sample_code f empty_stack (\<lambda>_. None) = Some (True, N, fs)"
proof -
  let ?h = "os_write empty_stream file_header"
  have "\<exists>W. swrite (g_w sample_world) sample_code \<lparr>w_str = ?h, w_ns = empty_stack\<rparr> = Some W"
    by (simp add: sample_code_def sample_world_def sample_sym_def empty_stack_def writer_defs)
  then obtain W where W: "swrite (g_w sample_world) sample_code \<lparr>w_str = ?h, w_ns = empty_stack\<rparr> = Some W" ..
  from code_echoed [OF sample_world_ok sample_code_ok W, of empty_stack "[]" "[]"] have "\<not> ofail (w_str W)" by (auto simp: sim_empty)
  with W show ?thesis by (simp add: writeFile_def)
qed

theorem file_write_read_witness:
  "\<exists>N fs R. writeFile (g_w sample_world) (\<lambda>_. True) sample_code ''a.ybc'' empty_stack (\<lambda>_. None) = Some (True, N, fs)
     \<and> readFile (g_r sample_world) fs ''a.ybc'' empty_stack [7] = Some (Ret (Some (sample_code, R)))"
proof -
  obtain N fs where w: "writeFile (g_w sample_world) (\<lambda>_. True) sample_code ''a.ybc'' empty_stack (\<lambda>_. None) = Some (True, N, fs)"
    using sample_file_written by blast
  with file_write_read [OF sample_world_ok sample_code_ok w, of "[]"] show ?thesis
    by (auto simp: sample_blocks sample_erase)
qed

section \<open>Modules are read once\<close>

lemma keep_module_cache:
  "keep_module m tare L q = (b, L') \<Longrightarrow> b \<noteq> SNull \<Longrightarrow> l_cache L' m = Some b"
  by (auto simp: keep_module_def Let_def split: if_splits)

lemma keep_module_search: "keep_module m tare L q = (b, L') \<Longrightarrow> l_search L' = l_search L"
  by (auto simp: keep_module_def Let_def split: if_splits)

lemma readModule_cache:
  assumes "readModule V X fs m L = Some (Ret (Some (b, L')))" and "b \<noteq> SNull"
  shows "\<exists>f. f \<noteq> [] \<and> findModule V m False (l_search L) = (f, l_search L') \<and> l_cache L' m = Some b"
  using assms
  by (auto simp: readModule_def Let_def obind_Ret map_option_eq_Some keep_module_search
      split: prod.splits if_splits option.splits dest: keep_module_cache)



end
