(* ===== verification/Code_Total.thy ===== *)
theory Code_Total
  imports Code_Parts
begin

text \<open>
  Reading byte code comes to an end.  No reader puts bytes back and every code takes its tag from the stream, so that the
  bound on the nesting of \<open>readCode\<close> is never used up when it is above the number of bytes left.  Two local variables are
  read although the stream has ended; the condition on \<open>x_junk\<close> says that they happen to be zero.
\<close>

section \<open>Readers that end\<close>

abbreviation rleft :: "rst \<Rightarrow> nat" where "rleft R \<equiv> left (r_str R)"

definition safe :: "nat \<Rightarrow> 'a rd \<Rightarrow> bool" where
  "safe k r \<longleftrightarrow> (\<forall>R. rleft R \<le> k \<longrightarrow> r R \<noteq> OutOfFuel \<and> (\<forall>v R'. r R = Ret (Some (v, R')) \<longrightarrow> rleft R' \<le> rleft R))"

lemma safeD: "safe k r \<Longrightarrow> rleft R \<le> k \<Longrightarrow> r R \<noteq> OutOfFuel"
  "safe k r \<Longrightarrow> rleft R \<le> k \<Longrightarrow> r R = Ret (Some (v, R')) \<Longrightarrow> rleft R' \<le> rleft R"
  by (auto simp: safe_def)

lemma safe_step:
  assumes "safe k q" "x = q R1" "rleft R1 \<le> k" "rleft R1 \<le> rleft R"
  shows "x \<noteq> OutOfFuel \<and> (\<forall>v R'. x = Ret (Some (v, R')) \<longrightarrow> rleft R' \<le> rleft R)"
  using safeD [OF assms(1,3)] assms(2,4) by (metis le_trans)

lemma safe_bind:
  assumes "safe k r" and "\<And>v. safe k (f v)"
  shows "safe k (rbind r f)"
  unfolding safe_def
proof (intro allI impI conjI)
  fix R assume R: "rleft R \<le> k"
  show "rbind r f R \<noteq> OutOfFuel"
    using safeD(1) [OF assms(1) R] safeD [OF assms(1) R] safeD(1) [OF assms(2)] R
    by (cases "r R") (fastforce simp: rbind_def split: option.splits dest: le_trans)+
  fix v R' assume "rbind r f R = Ret (Some (v, R'))"
  then obtain u R1 where "r R = Ret (Some (u, R1))" "f u R1 = Ret (Some (v, R'))"
    by (auto simp: rbind_def obind_Ret split: option.splits)
  then show "rleft R' \<le> rleft R"
    using safeD(2) [OF assms(1) R] safeD(2) [OF assms(2), of R1 u v R'] R by fastforce
qed

lemma safe_simple [intro!]:
  "safe k (rret v)" "safe k rthrow" "safe k rundef" "safe k (rns g)" "safe k (rlook h)" "safe k (rsome x)" "safe k rgood" "safe k rnew"
  by (auto simp: safe_def rret_def rthrow_def rundef_def rns_def rlook_def rsome_def rgood_def rnew_def split: option.splits list.splits)

lemma safe_rstr: "(\<And>str v str'. f str = (v, str') \<Longrightarrow> left str' \<le> left str) \<Longrightarrow> safe k (rstr f)"
  by (auto simp: safe_def rstr_def split: prod.splits)

lemma safe_rout: "shrinks f \<Longrightarrow> (\<And>str. f str \<noteq> OutOfFuel) \<Longrightarrow> safe k (rout f)"
  by (auto simp: safe_def rout_def shrinks_def obind_Ret obind_OutOfFuel)

lemma left_readCharp: "readCharp junk str = (r, str') \<Longrightarrow> left str' \<le> left str"
  by (auto simp: readCharp_def split: prod.splits if_splits dest!: left_is_read left_readInt32)

lemma left_readUstring: "readUstring junk str = (r, str') \<Longrightarrow> left str' \<le> left str"
  by (auto simp: readUstring_def split: prod.splits if_splits dest!: left_is_read left_readInt32)

lemma safe_basic [intro!]:
  "safe k (rbool X)" "safe k (rint X)" "safe k (rcharp X)" "safe k (rustring X)" "safe k (rop X)"
  unfolding rbool_def rint_def rcharp_def rustring_def rop_def
  by (auto intro!: safe_rstr dest: left_readBool left_readInt32 left_readCharp left_readUstring left_is_get split: prod.splits option.splits)

lemma safe_rstring [intro!]: "safe k (rstring X)"
  unfolding rstring_def by (intro safe_bind safe_rstr safe_simple) (auto dest: left_readString)

lemma safe_rtype [intro]: "ccode (x_junk X 0) \<noteq> 4 \<Longrightarrow> safe k (rtype X)"
  unfolding rtype_def safe_def rout_def
  using readType_enough [of "x_junk X"] readType_shrinks [of "x_junk X"]
  by (auto simp: obind_Ret obind_OutOfFuel shrinks_def)

lemma safe_rvalue [intro]: "code_reader_shrinks (x_codec X) \<Longrightarrow> safe k (rvalue X)"
  unfolding rvalue_def safe_def rout_def
  using readValue_enough [of "x_codec X"] readValue_shrinks [of "x_codec X"]
  by (fastforce simp: obind_Ret obind_OutOfFuel shrinks_def)

lemma readPayload_shrinks: "code_reader_shrinks cd \<Longrightarrow> shrinks (readPayload cd junk (readValue cd junk n) t)"
proof -
  assume c: "code_reader_shrinks cd"
  note IH = readValue_shrinks [OF c, of junk n]
  have "left str' \<le> left str" if "cd_code_read cd str = (v, str')" for str v str'
    using c that unfolding code_reader_shrinks_def by (metis snd_conv)
  then show ?thesis
    unfolding shrinks_def readPayload_def
    by (auto simp: obind_Ret split: prod.splits if_splits option.splits
      dest: left_readBool left_readInteger left_readString left_readByteblock
        shrinks_readList [OF IH] shrinks_readMap [OF IH] shrinks_readTerm [OF IH])
qed

lemma readPayload_enough:
  assumes c: "code_reader_shrinks cd" and n: "left str < n"
  shows "readPayload cd junk (readValue cd junk n) t str \<noteq> OutOfFuel"
proof -
  have sh: "shrinks (readValue cd junk n)" by (rule readValue_shrinks [OF c])
  have en: "enough (left str) (readValue cd junk n)"
    using readValue_enough [OF c] n by (simp add: enough_def)
  note many = enough_read_many [OF sh en] enough_read_pairs [OF sh en]
  have "readList (readValue cd junk n) junk str2 \<noteq> OutOfFuel" if "left str2 \<le> left str" for str2
    using many(1) that by (auto simp: readList_def split: prod.splits dest: left_readInt32)
  moreover have "readMap (readValue cd junk n) junk str \<noteq> OutOfFuel"
    using many(2) by (auto simp: readMap_def split: prod.splits dest: left_readInt32)
  moreover note readInteger_fuel readByteblock_fuel
  ultimately show ?thesis
    by (auto simp: readPayload_def obind_OutOfFuel readTerm_def split: prod.splits if_splits option.splits dest: left_readString)
qed

lemma safe_rpayload [intro]: "code_reader_shrinks (x_codec X) \<Longrightarrow> safe k (rpayload X t)"
  unfolding rpayload_def safe_def rout_def
  using readPayload_enough [of "x_codec X"] readPayload_shrinks [of "x_codec X"]
  by (fastforce simp: obind_Ret obind_OutOfFuel shrinks_def)

lemma safe_rtimes [intro!]: "safe k r \<Longrightarrow> safe k (rtimes n r)"
  by (induction n) (auto intro!: safe_bind)

lemma safe_rmaybe [intro!]: "safe k r \<Longrightarrow> safe k (rmaybe X r)"
  unfolding rmaybe_def by (intro safe_bind safe_basic) (auto intro!: safe_bind)

lemma safe_read_codes [intro!]: "safe k r \<Longrightarrow> safe k (read_codes n r)"
  by (induction n) (auto intro!: safe_bind split: prod.splits)

lemma safe_YCodelist [intro!]: "safe k r \<Longrightarrow> safe k (readYCodelist X r)"
  unfolding readYCodelist_def by (intro safe_bind safe_basic) auto

lemma safe_read_params [intro!]: "safe k r \<Longrightarrow> safe k (read_params n r)"
  by (induction n) (auto intro!: safe_bind)

lemma safe_read_stmts [intro!]: "safe k r \<Longrightarrow> safe k (read_stmts n r)"
  by (induction n) (auto intro!: safe_bind split: scode.splits)

section \<open>The parts of a stream\<close>

lemma safe_readEntry [intro!]: "safe k (readEntry X)" "safe k (readEntry_used X)"
  unfolding readEntry_def readEntry_used_def by (auto intro!: safe_bind)

text \<open>A point that is followed by another one has taken a byte.\<close>

lemma rbool_True:
  assumes "x_junk X 0 = NUL" "rbool X R = Ret (Some (True, R'))"
  shows "rleft R' < rleft R"
  using assms left_is_get_Some [of "r_str R"]
  by (auto simp: rbool_def rstr_def readBool_def split: prod.splits option.splits)

lemma safe_rmaybe_less:
  assumes j: "x_junk X 0 = NUL" and r: "0 < k \<Longrightarrow> safe (k - 1) r"
  shows "safe k (rmaybe X r)"
  unfolding safe_def
proof (intro allI impI)
  fix R assume R: "rleft R \<le> k"
  show "rmaybe X r R \<noteq> OutOfFuel \<and> (\<forall>v R'. rmaybe X r R = Ret (Some (v, R')) \<longrightarrow> rleft R' \<le> rleft R)"
  proof (cases "\<exists>R1. rbool X R = Ret (Some (True, R1))")
    case True
    then obtain R1 where R1: "rbool X R = Ret (Some (True, R1))" by blast
    have l: "rleft R1 < rleft R" by (rule rbool_True [OF j R1])
    then have "safe (k - 1) (rbind r (\<lambda>v. rret (Some v)))" using r R by (intro safe_bind safe_simple) simp
    moreover have "rmaybe X r R = rbind r (\<lambda>v. rret (Some v)) R1"
      unfolding rmaybe_def by (subst rbind_def) (simp add: R1)
    ultimately show ?thesis by (rule safe_step) (use l R in auto)
  next
    case False
    then have "rmaybe X r R = rbind (rbool X) (\<lambda>b. rret None) R"
      unfolding rmaybe_def rbind_def by (cases "rbool X R") (auto split: option.splits if_splits)
    moreover have "safe k (rbind (rbool X) (\<lambda>b. rret None))" by (intro safe_bind safe_basic safe_simple)
    ultimately show ?thesis using R unfolding safe_def by auto
  qed
qed

lemma safe_readPoint: "x_junk X 0 = NUL \<Longrightarrow> k < n \<Longrightarrow> safe k (readPoint X n)"
proof (induction n arbitrary: k)
  case (Suc n)
  have "safe k (rmaybe X (readPoint X n))"
    by (rule safe_rmaybe_less) (use Suc in auto)
  then show ?case by (auto intro!: safe_bind)
qed simp

text \<open>What the stream constructors need to end.\<close>

definition reader_ok :: "renv \<Rightarrow> bool" where
  "reader_ok X \<longleftrightarrow> x_junk X 0 = NUL \<and> code_reader_shrinks (x_codec X)"

lemma reader_ok_parts:
  assumes "reader_ok X"
  shows "safe k (rtype X)" "safe k (rvalue X)" "safe k (rpayload X t)" "k < n \<Longrightarrow> safe k (readPoint X n)"
  using assms by (auto simp: reader_ok_def intro: safe_readPoint)

lemma safe_parts:
  assumes "reader_ok X"
  shows "safe k (readSym X)" "safe k (readDeclaration X)" "safe k (read_xref X ns)" "safe k (read_case X)" "safe k (read_const X t)"
  using reader_ok_parts [OF assms]
  by (auto simp: readSym_def readDeclaration_def read_xref_def read_case_def read_const_def intro!: safe_bind split: option.splits)

lemma safe_import: "reader_ok X \<Longrightarrow> safe k (read_import X l)"
  using safe_parts by (auto simp: read_import_def intro!: safe_bind split: option.splits)

lemma safe_block:
  assumes "reader_ok X" "safe k r" "k < n"
  shows "safe k (read_block X n r)"
  using reader_ok_parts [OF assms(1)] safe_parts [OF assms(1)] assms
  by (auto simp: read_block_def read_table_def read_tentry_def intro!: safe_bind)

lemma safe_expression:
  assumes "reader_ok X" "safe k r" "k < n"
  shows "safe k (read_expression X n r t)"
proof -
  note p = reader_ok_parts [OF assms(1)] safe_parts [OF assms(1)]
  have "safe k (read_builtin X r)" "safe k (read_function X r)" "safe k (read_call X r)" "safe k (read_pointer_call X r)" "safe k (read_term X r)"
    "safe k (read_compare X r)" "safe k (read_map X r)" "safe k (read_locale X)" "safe k (read_plural X r)"
    using p assms(2)
    by (auto simp: read_builtin_def read_function_def read_call_def read_pointer_call_def read_term_def read_compare_def read_map_def
      read_locale_def read_plural_def intro!: safe_bind split: option.splits)
  then show ?thesis
    using p assms(2) safe_block [OF assms]
    unfolding read_expression_unfold by (auto intro!: safe_bind)
qed

lemma safe_statement:
  assumes "reader_ok X" "safe k r"
  shows "safe k (read_statement X r t l)"
proof -
  note p = reader_ok_parts [OF assms(1)] safe_parts [OF assms(1)]
  have "safe k (read_sfunction X r l)" "safe k (read_switch X r l)" "safe k (read_import X l)"
    using p assms(2) safe_import [OF assms(1)]
    by (auto simp: read_sfunction_def setDefinition_def read_switch_def intro!: safe_bind)
  then show ?thesis
    using p assms(2) unfolding read_statement_unfold by (auto intro!: safe_bind)
qed

section \<open>Codes\<close>

lemma safe_tagged:
  assumes "reader_ok X" "safe k r" "k < n"
  shows "safe k (read_tagged X n r t)"
  using safe_expression [OF assms] safe_statement [OF assms(1,2)] safe_parts [OF assms(1)]
  unfolding read_tagged_def Let_def by (auto intro!: safe_bind)

lemma safe_readCode: "reader_ok X \<Longrightarrow> k < n \<Longrightarrow> safe k (readCode X n)"
proof (induction n arbitrary: k)
  case (Suc n)
  show ?case
    unfolding safe_def
  proof (intro allI impI)
    fix R assume R: "rleft R \<le> k"
    show "readCode X (Suc n) R \<noteq> OutOfFuel \<and> (\<forall>v R'. readCode X (Suc n) R = Ret (Some (v, R')) \<longrightarrow> rleft R' \<le> rleft R)"
    proof (cases "is_get (r_str R)")
      case (Pair t str)
      show ?thesis
      proof (cases t)
        case None
        then show ?thesis using Pair left_is_get [OF Pair]
          by (auto simp: readCode.simps rget_def rstr_def rbind_def rret_def)
      next
        case (Some c)
        let ?R = "R\<lparr>r_str := str\<rparr>"
        have l: "rleft R = Suc (rleft ?R)" using left_is_get_Some Pair Some by simp
        then obtain m where m: "n = Suc m" using R Suc.prems(2) by (cases n) auto
        have "safe (n - 1) (read_tagged X n (readCode X n) (ccode c))"
          by (rule safe_tagged) (use Suc m in auto)
        moreover have "readCode X (Suc n) R = read_tagged X n (readCode X n) (ccode c) ?R"
          by (simp add: readCode.simps rget_def rstr_def rbind_def Pair Some)
        ultimately show ?thesis by (rule safe_step) (use l R Suc.prems(2) in auto)
      qed
    qed
  qed
qed simp



end
