(* ===== verification/Scripting_Agent.thy ===== *)
theory Scripting_Agent
  imports Builtin_List Path_Search
begin

text \<open>
  The scripting agent (\<^verbatim>\<open>scr/src/ScriptingAgent.cc\<close>, \<^verbatim>\<open>scr/src/SCRSubAgent.cc\<close>): the sorted vector of agents registered at
  paths of the configuration tree, their registration from configuration files, mounting and unmounting, and the dispatch
  of a command to the agent with the longest matching path.

  The component broker, the components it creates, the parser of configuration terms and the file system are parameters that act on a world
  \<open>'w\<close>.  A component does not call back into the scripting agent while it evaluates a command.  \<^const>\<open>Undef\<close> is an access
  outside a vector or a string, or through a null handle.
\<close>

unbundle bit_operations_syntax

section \<open>The system around the agent\<close>

record ('c, 'm, 'w) scr_system =
  sy_env :: surroundings
  sy_stat :: "'w \<Rightarrow> string \<Rightarrow> stat_t option"
  sy_dir :: "'w \<Rightarrow> string \<Rightarrow> (nat \<times> string) list option"
  sy_file :: "'w \<Rightarrow> string \<Rightarrow> string option"
  sy_parse :: "string \<Rightarrow> string \<Rightarrow> 'c option"
  sy_is_term :: "'c \<Rightarrow> bool"
  sy_run :: "'c \<Rightarrow> 'w \<Rightarrow> ('c ycp \<times> 'w) outcome"
  sy_create :: "string \<Rightarrow> 'w \<Rightarrow> 'm option \<times> 'w"
  sy_adopt :: "'m \<Rightarrow> 'w \<Rightarrow> 'w"
  sy_evaluate :: "'m \<Rightarrow> 'c ycp \<Rightarrow> 'w \<Rightarrow> ('c ycp \<times> 'w) outcome"
  sy_finish :: "'m \<Rightarrow> 'w \<Rightarrow> 'w outcome"
  sy_version :: string

abbreviation S_IFLNK :: uint32 where "S_IFLNK \<equiv> 0xA000"

definition s_islnk :: "stat_t \<Rightarrow> bool" where
  "s_islnk b \<longleftrightarrow> st_mode b AND S_IFMT = S_IFLNK"

text \<open>\<^verbatim>\<open>fgets\<close> with room for \<open>n\<close> characters: the text up to and including a newline, at most \<open>n\<close> characters, and the rest.\<close>

fun fgets :: "nat \<Rightarrow> string \<Rightarrow> string \<times> string" where
  "fgets (Suc n) (c # s) = (if c = CHR 0x0A then ([c], s) else let (l, r) = fgets n s in (c # l, r))"
| "fgets n s = ([], s)"

lemma fgets_append: "fgets n s = (l, r) \<Longrightarrow> s = l @ r"
  by (induction n s arbitrary: l r rule: fgets.induct) (auto split: if_splits prod.splits)

lemma fgets_nonempty: "fgets n s = (l, r) \<Longrightarrow> 0 < n \<Longrightarrow> s \<noteq> [] \<Longrightarrow> l \<noteq> []"
  by (cases n; cases s) (auto split: if_splits prod.splits)

lemma fgets_rest: "fgets n s = (l, r) \<Longrightarrow> 0 < n \<Longrightarrow> s \<noteq> [] \<Longrightarrow> length r < length s"
  using fgets_append [of n s l r] fgets_nonempty [of n s l r] by simp

lemma fgets_shorter [termination_simp]: "s \<noteq> [] \<Longrightarrow> (l, r) = fgets 249 s \<Longrightarrow> length r < length s"
  by (rule fgets_rest [of 249 s l r, OF sym]) simp_all

text \<open>
  The line with the path of a configuration file: \<^verbatim>\<open>parseSingleConfigFile\<close> deletes the last character of what
  \<^verbatim>\<open>fgets\<close> delivers, whether it is a newline or not, and takes the first line that begins with a dot.
\<close>

fun config_line :: "string \<Rightarrow> string option" where
  "config_line s =
     (if s = [] then None
      else let (l, r) = fgets 249 s; line = butlast (c_str l) in
        if line \<noteq> [] \<and> hd line = CHR ''.'' then Some line else config_line r)"

text \<open>The loop of \<^verbatim>\<open>readconf\<close>, which leaves the text behind the first line with a dot to the parser.\<close>

fun after_path_line :: "string \<Rightarrow> string" where
  "after_path_line s =
     (if s = [] then []
      else let (l, r) = fgets 249 s in if hd l = CHR ''.'' then r else after_path_line r)"

declare config_line.simps [simp del] after_path_line.simps [simp del]

definition readconf :: "('c, 'm, 'w) scr_system \<Rightarrow> string \<Rightarrow> 'w \<Rightarrow> ('c ycp \<times> 'w) outcome" where
  "readconf G filename w =
     (case sy_file G w (c_str filename) of
        None \<Rightarrow> Ret (YNull, w)
      | Some t \<Rightarrow>
          (case sy_parse G (c_str filename) (after_path_line t) of
             None \<Rightarrow> Ret (YNull, w)
           | Some code \<Rightarrow> if \<not> sy_is_term G code then Ret (YNull, w) else sy_run G code w))"

section \<open>One agent\<close>

type_synonym scr_path = "path_component list"

record ('c, 'm) sub_agent =
  my_path :: scr_path
  my_value :: "'c ycp"
  my_comp :: "'m option"

definition new_subagent :: "scr_path \<Rightarrow> 'c ycp \<Rightarrow> ('c, 'm) sub_agent" where
  "new_subagent p v = \<lparr>my_path = p, my_value = v, my_comp = None\<rparr>"

text \<open>The arguments of the term are preloaded into the component; what it answers is ignored.\<close>

fun preload :: "('c, 'm, 'w) scr_system \<Rightarrow> 'm \<Rightarrow> 'c ycp list \<Rightarrow> 'w \<Rightarrow> 'w outcome" where
  "preload G m [] w = Ret w"
| "preload G m (v # vs) w = obind (sy_evaluate G m v w) (\<lambda>(_, w). preload G m vs w)"

definition start_component ::
  "('c, 'm, 'w) scr_system \<Rightarrow> string \<Rightarrow> 'c ycp list \<Rightarrow> ('c, 'm) sub_agent \<Rightarrow> 'w \<Rightarrow> ('c ycp \<times> ('c, 'm) sub_agent \<times> 'w) outcome" where
  "start_component G name args a w =
     (case sy_create G (c_str name) w of
        (None, w) \<Rightarrow> Ret (YBoolean False, a, w)
      | (Some m, w) \<Rightarrow> obind (preload G m args (sy_adopt G m w)) (\<lambda>w. Ret (YBoolean True, a\<lparr>my_comp := Some m\<rparr>, w)))"

definition sub_mount :: "('c, 'm, 'w) scr_system \<Rightarrow> ('c, 'm) sub_agent \<Rightarrow> 'w \<Rightarrow> ('c ycp \<times> ('c, 'm) sub_agent \<times> 'w) outcome" where
  "sub_mount G a w =
     (if my_comp a \<noteq> None then Ret (YBoolean True, a, w)
      else case my_value a of
        YNull \<Rightarrow> Undef
      | YString f \<Rightarrow> obind (readconf G f w) (\<lambda>(confval, w).
          case confval of YTerm n vs \<Rightarrow> start_component G n vs a w | _ \<Rightarrow> Ret (confval, a, w))
      | YTerm n vs \<Rightarrow> start_component G n vs a w
      | _ \<Rightarrow> Ret (YBoolean False, a, w))"

definition sub_unmount :: "('c, 'm, 'w) scr_system \<Rightarrow> ('c, 'm) sub_agent \<Rightarrow> 'w \<Rightarrow> (('c, 'm) sub_agent \<times> 'w) outcome" where
  "sub_unmount G a w =
     (case my_comp a of
        None \<Rightarrow> Ret (a, w)
      | Some m \<Rightarrow> obind (sy_finish G m w) (\<lambda>w. Ret (a\<lparr>my_comp := None\<rparr>, w)))"

section \<open>The vector of agents\<close>

record reg_dir =
  rd_name :: string
  last_changed :: int

record ('c, 'm, 'w) scripting =
  agents :: "('c, 'm) sub_agent list"
  done_sweep :: bool
  registration_dirs :: "reg_dir list"
  sc_search :: search
  sc_world :: 'w

definition path_less :: "scr_path \<Rightarrow> scr_path \<Rightarrow> bool" where
  "path_less = cmp_less path_compare"

definition insert_position :: "scr_path \<Rightarrow> ('c, 'm) sub_agent list \<Rightarrow> nat" where
  "insert_position p as = lower_bound path_less p (map my_path as)"

definition findByPath :: "scr_path \<Rightarrow> ('c, 'm) sub_agent list \<Rightarrow> nat option" where
  "findByPath p as =
     (let i = insert_position p as in
      if i < length as \<and> path_compare (my_path (as ! i)) p = YO_EQUAL then Some i else None)"

definition vector_insert :: "nat \<Rightarrow> 'a \<Rightarrow> 'a list \<Rightarrow> 'a list" where
  "vector_insert i x xs = take i xs @ x # drop i xs"

definition vector_erase :: "nat \<Rightarrow> 'a list \<Rightarrow> 'a list" where
  "vector_erase i xs = take i xs @ drop (Suc i) xs"

text \<open>\<^verbatim>\<open>delete *agent; agents.erase (agent)\<close>: the destructor unmounts.\<close>

definition erase_agent :: "('c, 'm, 'w) scr_system \<Rightarrow> nat \<Rightarrow> ('c, 'm, 'w) scripting \<Rightarrow> ('c, 'm, 'w) scripting outcome" where
  "erase_agent G i st =
     obind (sub_unmount G (agents st ! i) (sc_world st)) (\<lambda>(_, w).
       Ret (st\<lparr>agents := vector_erase i (agents st), sc_world := w\<rparr>))"

definition RegisterAgent :: "('c, 'm, 'w) scr_system \<Rightarrow> scr_path \<Rightarrow> 'c ycp \<Rightarrow> ('c, 'm, 'w) scripting \<Rightarrow> (bool \<times> ('c, 'm, 'w) scripting) outcome" where
  "RegisterAgent G p v st =
     obind (case findByPath p (agents st) of None \<Rightarrow> Ret st | Some i \<Rightarrow> erase_agent G i st) (\<lambda>st.
       Ret (True, st\<lparr>agents := vector_insert (insert_position p (agents st)) (new_subagent p v) (agents st)\<rparr>))"

definition UnregisterAgent :: "('c, 'm, 'w) scr_system \<Rightarrow> scr_path \<Rightarrow> ('c, 'm, 'w) scripting \<Rightarrow> (bool \<times> ('c, 'm, 'w) scripting) outcome" where
  "UnregisterAgent G p st =
     (case findByPath p (agents st) of
        None \<Rightarrow> Ret (False, st)
      | Some i \<Rightarrow> obind (erase_agent G i st) (\<lambda>st. Ret (True, st)))"

fun unmount_loop :: "('c, 'm, 'w) scr_system \<Rightarrow> ('c, 'm) sub_agent list \<Rightarrow> 'w \<Rightarrow> (('c, 'm) sub_agent list \<times> 'w) outcome" where
  "unmount_loop G [] w = Ret ([], w)"
| "unmount_loop G (a # as) w =
     obind (sub_unmount G a w) (\<lambda>(a, w). obind (unmount_loop G as w) (\<lambda>(as, w). Ret (a # as, w)))"

definition UnregisterAllAgents :: "('c, 'm, 'w) scr_system \<Rightarrow> ('c, 'm, 'w) scripting \<Rightarrow> (bool \<times> ('c, 'm, 'w) scripting) outcome" where
  "UnregisterAllAgents G st =
     obind (unmount_loop G (agents st) (sc_world st)) (\<lambda>(_, w).
       Ret (True, st\<lparr>agents := [], done_sweep := True, sc_world := w\<rparr>))"

definition mount_at :: "('c, 'm, 'w) scr_system \<Rightarrow> nat \<Rightarrow> ('c, 'm, 'w) scripting \<Rightarrow> ('c ycp \<times> ('c, 'm, 'w) scripting) outcome" where
  "mount_at G i st =
     obind (sub_mount G (agents st ! i) (sc_world st)) (\<lambda>(v, a, w).
       Ret (v, st\<lparr>agents := (agents st)[i := a], sc_world := w\<rparr>))"

definition MountAgent :: "('c, 'm, 'w) scr_system \<Rightarrow> scr_path \<Rightarrow> ('c, 'm, 'w) scripting \<Rightarrow> ('c ycp \<times> ('c, 'm, 'w) scripting) outcome" where
  "MountAgent G p st =
     (case findByPath p (agents st) of None \<Rightarrow> Ret (YBoolean False, st) | Some i \<Rightarrow> mount_at G i st)"

fun mount_loop ::
  "('c, 'm, 'w) scr_system \<Rightarrow> ('c, 'm) sub_agent list \<Rightarrow> 'w \<Rightarrow> ('c ycp \<times> ('c, 'm) sub_agent list \<times> 'w) outcome" where
  "mount_loop G [] w = Ret (YBoolean True, [], w)"
| "mount_loop G (a # as) w =
     obind (sub_mount G a w) (\<lambda>(v, a, w).
       if v = YNull then Ret (YNull, a # as, w)
       else obind (mount_loop G as w) (\<lambda>(v, as, w). Ret (v, a # as, w)))"

definition MountAllAgents :: "('c, 'm, 'w) scr_system \<Rightarrow> ('c, 'm, 'w) scripting \<Rightarrow> ('c ycp \<times> ('c, 'm, 'w) scripting) outcome" where
  "MountAllAgents G st =
     obind (mount_loop G (agents st) (sc_world st)) (\<lambda>(v, as, w). Ret (v, st\<lparr>agents := as, sc_world := w\<rparr>))"

definition UnmountAgent :: "('c, 'm, 'w) scr_system \<Rightarrow> scr_path \<Rightarrow> ('c, 'm, 'w) scripting \<Rightarrow> (bool \<times> ('c, 'm, 'w) scripting) outcome" where
  "UnmountAgent G p st =
     (case findByPath p (agents st) of
        None \<Rightarrow> Ret (False, st)
      | Some i \<Rightarrow>
          if my_comp (agents st ! i) = None then Ret (False, st)
          else obind (sub_unmount G (agents st ! i) (sc_world st)) (\<lambda>(a, w).
            Ret (True, st\<lparr>agents := (agents st)[i := a], sc_world := w\<rparr>)))"

definition UnmountAllAgents :: "('c, 'm, 'w) scr_system \<Rightarrow> ('c, 'm, 'w) scripting \<Rightarrow> (bool \<times> ('c, 'm, 'w) scripting) outcome" where
  "UnmountAllAgents G st =
     obind (unmount_loop G (agents st) (sc_world st)) (\<lambda>(as, w). Ret (True, st\<lparr>agents := as, sc_world := w\<rparr>))"

section \<open>Registration from files\<close>

definition parseSingleConfigFile :: "('c, 'm, 'w) scr_system \<Rightarrow> string \<Rightarrow> ('c, 'm, 'w) scripting \<Rightarrow> ('c, 'm, 'w) scripting outcome" where
  "parseSingleConfigFile G filename st =
     (case sy_stat G (sc_world st) (c_str filename) of
        None \<Rightarrow> Ret st
      | Some b \<Rightarrow>
          if \<not> s_isreg b \<and> \<not> s_islnk b then Ret st
          else case sy_file G (sc_world st) (c_str filename) of
            None \<Rightarrow> Ret st
          | Some t \<Rightarrow> (case config_line t of
              None \<Rightarrow> Ret st
            | Some line \<Rightarrow> (case path_of_string line of
                None \<Rightarrow> Undef
              | Some path \<Rightarrow>
                  if findByPath path (agents st) \<noteq> None then Ret st
                  else obind (RegisterAgent G path (YString filename) st) (\<lambda>(_, st). Ret st))))"

fun parse_files :: "('c, 'm, 'w) scr_system \<Rightarrow> string list \<Rightarrow> ('c, 'm, 'w) scripting \<Rightarrow> ('c, 'm, 'w) scripting outcome" where
  "parse_files G [] st = Ret st"
| "parse_files G (f # fs) st = obind (parseSingleConfigFile G f st) (parse_files G fs)"

definition scr_name :: "string \<Rightarrow> bool" where
  "scr_name n \<longleftrightarrow> 4 < length n \<and> drop (length n - 4) n = ''.scr''"

text \<open>The files of a directory, in the order of their inodes unless \<^verbatim>\<open>Y2SCRNOSORT\<close> is set; \<^verbatim>\<open>list::sort\<close> is stable.\<close>

definition scr_files :: "('c, 'm, 'w) scr_system \<Rightarrow> (nat \<times> string) list \<Rightarrow> (nat \<times> string) list" where
  "scr_files G es =
     (let ns = filter (\<lambda>e. scr_name (snd e)) es in
      if o_getenv (sy_env G) ''Y2SCRNOSORT'' = None then sort_key fst ns else ns)"

definition parseConfigFiles :: "('c, 'm, 'w) scr_system \<Rightarrow> string \<Rightarrow> ('c, 'm, 'w) scripting \<Rightarrow> ('c, 'm, 'w) scripting outcome" where
  "parseConfigFiles G directory st =
     (case sy_dir G (sc_world st) (c_str directory) of
        None \<Rightarrow> Ret st
      | Some es \<Rightarrow> parse_files G (map (\<lambda>e. directory @ ''/'' @ snd e) (scr_files G es)) st)"

text \<open>The directories of all levels.  The levels are set up once, so that their number does not change in the loop.\<close>

definition scrconf_dir :: "('c, 'm, 'w) scr_system \<Rightarrow> nat \<Rightarrow> search \<Rightarrow> (string \<times> search) outcome" where
  "scrconf_dir G level S =
     (case searchPath (sy_env G) GENERIC (int level) S of
        (None, S) \<Rightarrow> Undef
      | (Some p, S) \<Rightarrow> Ret (p @ ''/scrconf'', S))"

fun sweep_levels :: "('c, 'm, 'w) scr_system \<Rightarrow> nat list \<Rightarrow> ('c, 'm, 'w) scripting \<Rightarrow> ('c, 'm, 'w) scripting outcome" where
  "sweep_levels G [] st = Ret st"
| "sweep_levels G (l # ls) st =
     obind (scrconf_dir G l (sc_search st)) (\<lambda>(dir, S).
       obind (parseConfigFiles G dir (st\<lparr>sc_search := S\<rparr>)) (sweep_levels G ls))"

definition Sweep :: "('c, 'm, 'w) scr_system \<Rightarrow> ('c, 'm, 'w) scripting \<Rightarrow> ('c, 'm, 'w) scripting outcome" where
  "Sweep G st =
     (let (n, S) = numberOfComponentLevels (sy_env G) (sc_search st) in
      obind (sweep_levels G [0..<n] (st\<lparr>sc_search := S\<rparr>)) (\<lambda>st. Ret (st\<lparr>done_sweep := True\<rparr>)))"

definition RegisterNewAgents :: "('c, 'm, 'w) scr_system \<Rightarrow> ('c, 'm, 'w) scripting \<Rightarrow> (bool \<times> ('c, 'm, 'w) scripting) outcome" where
  "RegisterNewAgents G st = obind (Sweep G st) (\<lambda>st. Ret (True, st))"

fun reg_levels :: "('c, 'm, 'w) scr_system \<Rightarrow> nat list \<Rightarrow> ('c, 'm, 'w) scripting \<Rightarrow> ('c, 'm, 'w) scripting outcome" where
  "reg_levels G [] st = Ret st"
| "reg_levels G (l # ls) st =
     obind (scrconf_dir G l (sc_search st)) (\<lambda>(dir, S).
       let st = st\<lparr>sc_search := S\<rparr> in
       case sy_stat G (sc_world st) (c_str dir) of
         None \<Rightarrow> reg_levels G ls st
       | Some _ \<Rightarrow> reg_levels G ls (st\<lparr>registration_dirs := registration_dirs st @ [\<lparr>rd_name = dir, last_changed = 0\<rparr>]\<rparr>))"

definition InitRegDirs :: "('c, 'm, 'w) scr_system \<Rightarrow> ('c, 'm, 'w) scripting \<Rightarrow> ('c, 'm, 'w) scripting outcome" where
  "InitRegDirs G st =
     (let (n, S) = numberOfComponentLevels (sy_env G) (sc_search st) in reg_levels G [0..<n] (st\<lparr>sc_search := S\<rparr>))"

definition scripting_start :: "search \<Rightarrow> 'w \<Rightarrow> ('c, 'm, 'w) scripting" where
  "scripting_start S w = \<lparr>agents = [], done_sweep = False, registration_dirs = [], sc_search = S, sc_world = w\<rparr>"

definition new_scripting :: "('c, 'm, 'w) scr_system \<Rightarrow> search \<Rightarrow> 'w \<Rightarrow> ('c, 'm, 'w) scripting outcome" where
  "new_scripting G S w =
     obind (InitRegDirs G (scripting_start S w)) (\<lambda>st.
       if o_getenv (sy_env G) ''Y2SCRSWEEP'' \<noteq> None then Sweep G st else Ret st)"

definition new_scripting_file :: "('c, 'm, 'w) scr_system \<Rightarrow> string \<Rightarrow> search \<Rightarrow> 'w \<Rightarrow> ('c, 'm, 'w) scripting outcome" where
  "new_scripting_file G file S w = obind (InitRegDirs G (scripting_start S w)) (parseSingleConfigFile G file)"

text \<open>\<^verbatim>\<open>tr\<close> works on the C string.\<close>

definition tr_char :: "string \<Rightarrow> char \<Rightarrow> char \<Rightarrow> string" where
  "tr_char s a b = map (\<lambda>c. if c = a then b else c) (c_str s)"

definition scr_basename :: "scr_path \<Rightarrow> string" where
  "scr_basename p = tr_char (drop 1 (path_string p)) (CHR ''.'') (CHR ''_'') @ ''.scr''"

fun try_dirs :: "('c, 'm, 'w) scr_system \<Rightarrow> string \<Rightarrow> reg_dir list \<Rightarrow> ('c, 'm, 'w) scripting \<Rightarrow> ('c, 'm, 'w) scripting outcome" where
  "try_dirs G base [] st = Ret st"
| "try_dirs G base (d # ds) st =
     (if sy_stat G (sc_world st) (c_str (rd_name d)) = None then try_dirs G base ds st
      else let fname = rd_name d @ ''/'' @ base in
        if sy_stat G (sc_world st) (c_str fname) \<noteq> None then parseSingleConfigFile G fname st
        else try_dirs G base ds st)"

definition tryRegister :: "('c, 'm, 'w) scr_system \<Rightarrow> scr_path \<Rightarrow> ('c, 'm, 'w) scripting \<Rightarrow> ('c, 'm, 'w) scripting outcome" where
  "tryRegister G p st = try_dirs G (scr_basename p) (registration_dirs st) st"

section \<open>Dispatch\<close>

text \<open>\<open>acc\<close> is \<^verbatim>\<open>dir_list\<close>.  An agent whose path is not longer than the one that is listed has no component at that index.\<close>

fun dir_loop :: "scr_path \<Rightarrow> ('c, 'm) sub_agent list \<Rightarrow> string list \<Rightarrow> string list outcome" where
  "dir_loop p [] acc = Ret acc"
| "dir_loop p (a # as) acc =
     (if path_isPrefixOf p (my_path a)
      then if length p < length (my_path a)
        then let str = component (my_path a ! length p) in
          dir_loop p as (if acc = [] \<or> last acc \<noteq> str then acc @ [str] else acc)
        else Undef
      else dir_loop p as acc)"

definition dirSubagents :: "scr_path \<Rightarrow> ('c, 'm) sub_agent list \<Rightarrow> string list outcome" where
  "dirSubagents p as = dir_loop p as []"

text \<open>The scan from the end of the vector, with \<open>n\<close> agents still to be looked at.\<close>

fun find_back :: "scr_path \<Rightarrow> ('c, 'm) sub_agent list \<Rightarrow> nat \<Rightarrow> nat option" where
  "find_back p as 0 = None"
| "find_back p as (Suc n) = (if path_isPrefixOf (my_path (as ! n)) p then Some n else find_back p as n)"

definition findSubagent :: "scr_path \<Rightarrow> ('c, 'm) sub_agent list \<Rightarrow> nat option" where
  "findSubagent p as = find_back p as (length as)"

text \<open>The guesses, from the whole path, which is the round \<open>i\<close>, down to the root, and the sweep when none of them helps.\<close>

fun guess_loop :: "('c, 'm, 'w) scr_system \<Rightarrow> scr_path \<Rightarrow> nat \<Rightarrow> ('c, 'm, 'w) scripting \<Rightarrow> (nat option \<times> ('c, 'm, 'w) scripting) outcome" where
  "guess_loop G p i st =
     (case path_prefix p (int i) of
        None \<Rightarrow> Undef
      | Some q \<Rightarrow> obind (tryRegister G q st) (\<lambda>st.
          case findSubagent p (agents st) of
            Some k \<Rightarrow> Ret (Some k, st)
          | None \<Rightarrow>
              (case i of
                 Suc j \<Rightarrow> guess_loop G p j st
               | 0 \<Rightarrow> obind (if done_sweep st then Ret st else Sweep G st) (\<lambda>st. Ret (findSubagent p (agents st), st)))))"

declare guess_loop.simps [simp del]

definition findAndRegisterSubagent ::
  "('c, 'm, 'w) scr_system \<Rightarrow> scr_path \<Rightarrow> ('c, 'm, 'w) scripting \<Rightarrow> (nat option \<times> ('c, 'm, 'w) scripting) outcome" where
  "findAndRegisterSubagent G p st =
     (case findSubagent p (agents st) of
        Some k \<Rightarrow> Ret (Some k, st)
      | None \<Rightarrow> guess_loop G p (length p) st)"

definition command_term :: "string \<Rightarrow> scr_path \<Rightarrow> 'c ycp \<Rightarrow> 'c ycp \<Rightarrow> 'c ycp" where
  "command_term command p arg opt =
     YTerm command (YPath p # (if arg = YNull then [] else [arg]) @ (if opt = YNull then [] else [opt]))"

definition executeSubagentCommand ::
  "('c, 'm, 'w) scr_system \<Rightarrow> string \<Rightarrow> scr_path \<Rightarrow> 'c ycp \<Rightarrow> 'c ycp \<Rightarrow> ('c, 'm, 'w) scripting
   \<Rightarrow> ('c ycp \<times> ('c, 'm, 'w) scripting) outcome" where
  "executeSubagentCommand G command p arg opt st =
     obind (findAndRegisterSubagent G p st) (\<lambda>(r, st).
       case r of
         None \<Rightarrow>
           if command = ''Dir'' then obind (dirSubagents p (agents st)) (\<lambda>l. Ret (YList (map YString l), st))
           else Ret (YNull, st)
       | Some i \<Rightarrow> obind (mount_at G i st) (\<lambda>(_, st).
           case my_comp (agents st ! i) of
             None \<Rightarrow> Ret (YNull, st)
           | Some m \<Rightarrow>
               (case YCP_Path.path_at p (int (length (my_path (agents st ! i)))) of
                  None \<Rightarrow> Undef
                | Some rel \<Rightarrow> obind (sy_evaluate G m (command_term command rel arg opt) (sc_world st)) (\<lambda>(v, w).
                    Ret (v, st\<lparr>sc_world := w\<rparr>)))))"

text \<open>\<^verbatim>\<open>Write\<close>, \<^verbatim>\<open>Dir\<close> and \<^verbatim>\<open>Error\<close> give the null value when the answer has another type.\<close>

definition only_if :: "('c ycp \<Rightarrow> bool) \<Rightarrow> 'c ycp \<Rightarrow> 'c ycp" where
  "only_if T v = (if v = YNull \<or> \<not> T v then YNull else v)"

definition scripting_Read ::
  "('c, 'm, 'w) scr_system \<Rightarrow> scr_path \<Rightarrow> 'c ycp \<Rightarrow> 'c ycp \<Rightarrow> ('c, 'm, 'w) scripting \<Rightarrow> ('c ycp \<times> ('c, 'm, 'w) scripting) outcome" where
  "scripting_Read G p arg opt st = executeSubagentCommand G ''Read'' p arg opt st"

definition scripting_Write ::
  "('c, 'm, 'w) scr_system \<Rightarrow> scr_path \<Rightarrow> 'c ycp \<Rightarrow> 'c ycp \<Rightarrow> ('c, 'm, 'w) scripting \<Rightarrow> ('c ycp \<times> ('c, 'm, 'w) scripting) outcome" where
  "scripting_Write G p v arg st =
     obind (executeSubagentCommand G ''Write'' p v arg st) (\<lambda>(v, st). Ret (only_if isBoolean v, st))"

definition scripting_Dir ::
  "('c, 'm, 'w) scr_system \<Rightarrow> scr_path \<Rightarrow> ('c, 'm, 'w) scripting \<Rightarrow> ('c ycp \<times> ('c, 'm, 'w) scripting) outcome" where
  "scripting_Dir G p st = obind (executeSubagentCommand G ''Dir'' p YNull YNull st) (\<lambda>(v, st). Ret (only_if isList v, st))"

definition scripting_Execute ::
  "('c, 'm, 'w) scr_system \<Rightarrow> scr_path \<Rightarrow> 'c ycp \<Rightarrow> 'c ycp \<Rightarrow> ('c, 'm, 'w) scripting \<Rightarrow> ('c ycp \<times> ('c, 'm, 'w) scripting) outcome" where
  "scripting_Execute G p v arg st = executeSubagentCommand G ''Execute'' p v arg st"

definition scripting_Error ::
  "('c, 'm, 'w) scr_system \<Rightarrow> scr_path \<Rightarrow> ('c, 'm, 'w) scripting \<Rightarrow> ('c ycp \<times> ('c, 'm, 'w) scripting) outcome" where
  "scripting_Error G p st = obind (executeSubagentCommand G ''Error'' p YNull YNull st) (\<lambda>(v, st). Ret (only_if isMap v, st))"

definition bool_result :: "(bool \<times> 's) outcome \<Rightarrow> ('c ycp \<times> 's) outcome" where
  "bool_result r = obind r (\<lambda>(b, st). Ret (YBoolean b, st))"

text \<open>A null argument where a path is expected is dereferenced; any other value makes the command an unknown one.\<close>

definition with_path :: "'c ycp \<Rightarrow> 's \<Rightarrow> (scr_path \<Rightarrow> ('c ycp \<times> 's) outcome) \<Rightarrow> ('c ycp \<times> 's) outcome" where
  "with_path v st f = (case v of YNull \<Rightarrow> Undef | YPath p \<Rightarrow> f p | _ \<Rightarrow> Ret (YNull, st))"

definition scripting_otherCommand ::
  "('c, 'm, 'w) scr_system \<Rightarrow> string \<Rightarrow> 'c ycp list \<Rightarrow> ('c, 'm, 'w) scripting \<Rightarrow> ('c ycp \<times> ('c, 'm, 'w) scripting) outcome" where
  "scripting_otherCommand G cmd args st =
     (if cmd = ''MountAgent'' \<and> length args = 1 then with_path (args ! 0) st (\<lambda>p. MountAgent G p st)
      else if cmd = ''MountAllAgents'' \<and> length args = 0 then MountAllAgents G st
      else if cmd = ''UnmountAllAgents'' \<and> length args = 0 then bool_result (UnmountAllAgents G st)
      else if cmd = ''RegisterAgent'' \<and> length args = 2
        then with_path (args ! 0) st (\<lambda>p. bool_result (RegisterAgent G p (args ! 1) st))
      else if cmd = ''UnregisterAgent'' \<and> length args = 1
        then with_path (args ! 0) st (\<lambda>p. bool_result (UnregisterAgent G p st))
      else if cmd = ''YaST2Version'' \<or> cmd = ''SuSEVersion'' then Ret (YString (sy_version G), st)
      else Ret (YNull, st))"

text \<open>The destructor.\<close>

definition delete_scripting :: "('c, 'm, 'w) scr_system \<Rightarrow> ('c, 'm, 'w) scripting \<Rightarrow> 'w outcome" where
  "delete_scripting G st = obind (UnregisterAllAgents G st) (\<lambda>(_, st). Ret (sc_world st))"

end
