(* ===== verification/Scripting_Laws.thy ===== *)
theory Scripting_Laws
  imports Scripting_Agent
begin

text \<open>
  What the scripting agent promises: its vector of agents is a map from paths to values, sorted at every moment; a command goes to the
  agent with the longest path that is a prefix of the one asked for; and what a command does to the agents that were
  registered before.
\<close>

section \<open>The order of paths\<close>

interpretation path_order: three_way path_compare "\<lambda>_. True"
  by (rule path_three_way)

abbreviation names :: "scr_path \<Rightarrow> string list" where
  "names p \<equiv> map component p"

lemma path_equal_names: "path_compare p q = YO_EQUAL \<longleftrightarrow> names p = names q"
proof (induction p q rule: path_compare.induct)
  case (2 a as b bs)
  have "component_compare a b \<noteq> YO_CRASH" by (simp add: component_compare_def string_order.cmp_returns)
  with 2 show ?case
    by (cases "component_compare a b") (auto simp: component_compare_def dest: string_compare_equal [THEN iffD1])
qed auto

lemma path_less_trans: "path_less p q \<Longrightarrow> path_less q r \<Longrightarrow> path_less p r"
  using path_order.lt_trans by (simp add: path_less_def)

lemma path_less_names: "path_less p q \<Longrightarrow> names p \<noteq> names q"
  using path_equal_names [of p q] by (auto simp: path_less_def cmp_less_def)

lemma path_less_asym: "path_less p q \<Longrightarrow> \<not> path_less q p"
  using path_less_trans [of p q p] path_less_names [of p p] by blast

lemma path_less_total: "\<not> path_less p q \<Longrightarrow> names p \<noteq> names q \<Longrightarrow> path_less q p"
  using path_order.incomparable_iff [of p q] path_equal_names [of p q] by (auto simp: path_less_def)

lemma path_compare_root [simp]: "path_compare p [] \<noteq> YO_LESS"
  by (cases p) auto

lemma prefix_loop_less: "length p \<le> length q \<Longrightarrow> prefix_loop p q \<Longrightarrow> \<not> path_less q p"
  by (induction p q rule: prefix_loop.induct) (auto simp: path_less_def cmp_less_def component_compare_def split: if_splits)

lemma prefix_not_less: "path_isPrefixOf p q \<Longrightarrow> \<not> path_less q p"
  by (simp add: path_isPrefixOf_def prefix_loop_less split: if_splits)

text \<open>Of two prefixes of a path the shorter one is a prefix of the other.\<close>

lemma prefix_of_same:
  assumes "path_isPrefixOf p r" "path_isPrefixOf q r" "length p \<le> length q"
  shows "path_isPrefixOf p q"
  using assms by (simp add: isPrefixOf_take)

lemma prefix_same_length: "path_isPrefixOf p q \<Longrightarrow> length q \<le> length p \<Longrightarrow> path_isPrefixOf q p"
proof -
  assume "path_isPrefixOf p q" "length q \<le> length p"
  then have "names p = names q" by (simp add: isPrefixOf_take)
  then show ?thesis by (simp add: isPrefixOf_take)
qed

section \<open>The vector as a map\<close>

definition sorted_agents :: "('c, 'm) sub_agent list \<Rightarrow> bool" where
  "sorted_agents as \<longleftrightarrow> sorted_wrt path_less (map my_path as)"

lemma sorted_agents_nth:
  "sorted_agents as \<Longrightarrow> i < j \<Longrightarrow> j < length as \<Longrightarrow> path_less (my_path (as ! i)) (my_path (as ! j))"
  by (simp add: sorted_agents_def sorted_wrt_map sorted_wrt_iff_nth_less)

lemma insert_position_spec:
  assumes "sorted_agents as"
  shows "insert_position p as \<le> length as"
    and "j < insert_position p as \<Longrightarrow> path_less (my_path (as ! j)) p"
    and "insert_position p as \<le> j \<Longrightarrow> j < length as \<Longrightarrow> \<not> path_less (my_path (as ! j)) p"
proof -
  have "path_order.rising (map my_path as)"
    unfolding path_order.rising_def
  proof (intro conjI)
    show "sorted_wrt (\<lambda>a b. \<not> path_order.lt b a) (map my_path as)"
      by (rule sorted_wrt_mono_rel [OF _ assms [unfolded sorted_agents_def]]) (auto dest: path_less_asym simp flip: path_less_def)
  qed (simp add: list_all_iff)
  note lb = path_order.lower_bound_spec [OF this TrueI, of p, folded path_less_def, folded insert_position_def]
  show "insert_position p as \<le> length as" using lb by simp
  then show "path_less (my_path (as ! j)) p" if "j < insert_position p as"
    using lb that by auto
  show "\<not> path_less (my_path (as ! j)) p" if "insert_position p as \<le> j" "j < length as"
    using lb that by auto
qed

lemma findByPath_Some:
  assumes "sorted_agents as"
  shows "findByPath p as = Some i \<longleftrightarrow> i < length as \<and> names (my_path (as ! i)) = names p"
proof
  assume "findByPath p as = Some i"
  then show "i < length as \<and> names (my_path (as ! i)) = names p"
    by (auto simp: findByPath_def Let_def path_equal_names split: if_splits)
next
  assume i: "i < length as \<and> names (my_path (as ! i)) = names p"
  let ?k = "insert_position p as"
  have eq: "path_compare (my_path (as ! i)) p = YO_EQUAL" using i by (simp add: path_equal_names)
  have "?k = i"
  proof (rule antisym)
    show "?k \<le> i" using insert_position_spec(2) [OF assms, where j = i and p = p] path_less_names i by (metis not_less)
    show "i \<le> ?k"
    proof (rule ccontr)
      assume "\<not> i \<le> ?k"
      then have "path_less (my_path (as ! ?k)) (my_path (as ! i))" using sorted_agents_nth [OF assms] i by simp
      then have "path_less (my_path (as ! ?k)) p"
        using path_order.cmp_trans [of "my_path (as ! ?k)" "my_path (as ! i)" p] eq by (simp add: path_less_def cmp_less_def)
      with insert_position_spec(3) [OF assms, where j = ?k and p = p] \<open>\<not> i \<le> ?k\<close> i show False by simp
    qed
  qed
  with i eq show "findByPath p as = Some i" by (simp add: findByPath_def)
qed

lemma findByPath_None: "sorted_agents as \<Longrightarrow> findByPath p as = None \<longleftrightarrow> (\<forall>a \<in> set as. names (my_path a) \<noteq> names p)"
  using findByPath_Some [of as p] by (metis in_set_conv_nth not_Some_eq)

lemma set_vector_insert [simp]: "set (vector_insert i x xs) = insert x (set xs)"
  by (metis append_take_drop_id insert_is_Un list.simps(15) set_append sup_left_commute vector_insert_def)

lemma sorted_vector_insert:
  assumes "sorted_agents as" "findByPath p as = None"
  shows "sorted_agents (vector_insert (insert_position p as) (new_subagent p v) as)"
proof -
  let ?i = "insert_position p as"
  note pos = insert_position_spec [OF assms(1), where p = p]
  have "path_less (my_path a) p" if "a \<in> set (take ?i as)" for a
    using that pos(1,2) by (auto simp: in_set_conv_nth)
  moreover have "path_less p (my_path a)" if a: "a \<in> set (drop ?i as)" for a
  proof -
    from a have "a \<in> set as" by (rule in_set_dropD)
    moreover from a obtain j where "j < length as - ?i" "a = as ! (?i + j)" by (auto simp: in_set_conv_nth)
    ultimately show ?thesis
      using assms pos(3) [where j = "?i + j"] findByPath_None [OF assms(1), of p] by (intro path_less_total) auto
  qed
  moreover have "sorted_wrt path_less (map my_path (take ?i as) @ map my_path (drop ?i as))"
    using assms(1) by (simp add: sorted_agents_def flip: map_append)
  ultimately show ?thesis
    by (auto simp: sorted_agents_def vector_insert_def new_subagent_def sorted_wrt_append intro: path_less_trans)
qed

lemma sorted_vector_erase: "sorted_agents as \<Longrightarrow> sorted_agents (vector_erase i as)"
proof -
  assume "sorted_agents as"
  then have "sorted_wrt path_less (map my_path (take i as) @ map my_path (drop i as))"
    by (simp add: sorted_agents_def flip: map_append)
  moreover have "drop (Suc i) as = tl (drop i as)" by (simp add: drop_Suc tl_drop)
  ultimately show ?thesis
    by (cases "drop i as") (auto simp: sorted_agents_def vector_erase_def sorted_wrt_append)
qed

lemma sorted_same_paths: "map my_path bs = map my_path as \<Longrightarrow> sorted_agents bs = sorted_agents as"
  by (simp add: sorted_agents_def)

text \<open>The map from the names of a path to the value the agent was registered with.\<close>

definition agent_map :: "('c, 'm) sub_agent list \<Rightarrow> string list \<rightharpoonup> 'c ycp" where
  "agent_map as = map_of (map (\<lambda>a. (names (my_path a), my_value a)) as)"

lemma sorted_distinct: "sorted_agents as \<Longrightarrow> distinct (map (\<lambda>a. names (my_path a)) as)"
  by (induction as) (auto simp: sorted_agents_def dest: path_less_names)

lemma agent_map_Some:
  "sorted_agents as \<Longrightarrow> agent_map as ns = Some v \<longleftrightarrow> (\<exists>a \<in> set as. names (my_path a) = ns \<and> my_value a = v)"
  using sorted_distinct [of as] by (subst agent_map_def, subst map_of_eq_Some_iff) (auto simp: o_def)

lemma agent_map_None: "agent_map as ns = None \<longleftrightarrow> (\<forall>a \<in> set as. names (my_path a) \<noteq> ns)"
  by (auto simp: agent_map_def map_of_eq_None_iff image_image)

lemma agent_map_insert:
  assumes "sorted_agents as" "findByPath p as = None"
  shows "agent_map (vector_insert (insert_position p as) (new_subagent p v) as) = (agent_map as)(names p \<mapsto> v)"
proof
  fix ns
  let ?bs = "vector_insert (insert_position p as) (new_subagent p v) as"
  note s = sorted_vector_insert [OF assms, of v]
  have new: "agent_map ?bs (names p) = Some v"
    using s by (subst agent_map_Some) (auto simp: new_subagent_def)
  moreover have "agent_map ?bs ns = agent_map as ns" if "names p \<noteq> ns"
  proof -
    have "agent_map ?bs ns = Some w \<longleftrightarrow> agent_map as ns = Some w" for w
      using that assms(1) s by (auto simp: agent_map_Some new_subagent_def)
    then show ?thesis by (metis not_Some_eq)
  qed
  ultimately show "agent_map ?bs ns = ((agent_map as)(names p \<mapsto> v)) ns" by auto
qed

lemma set_vector_erase:
  assumes "distinct xs" "i < length xs"
  shows "set (vector_erase i xs) = set xs - {xs ! i}"
proof -
  have "xs = take i xs @ xs ! i # drop (Suc i) xs" using assms(2) by (simp add: id_take_nth_drop)
  moreover have "distinct (take i xs @ xs ! i # drop (Suc i) xs)" using assms calculation by simp
  ultimately show ?thesis
    unfolding vector_erase_def by (metis Diff_insert_absorb Un_insert_right distinct_append distinct.simps(2) disjoint_iff insertI1 list.simps(15) set_append Un_iff)
qed

lemma agent_map_erase:
  assumes "sorted_agents as" "findByPath p as = Some i"
  shows "agent_map (vector_erase i as) = (agent_map as)(names p := None)"
proof
  fix ns
  let ?bs = "vector_erase i as"
  have i: "i < length as" "names (my_path (as ! i)) = names p" using findByPath_Some [OF assms(1)] assms(2) by auto
  have d: "distinct as" using sorted_distinct [OF assms(1)] by (simp add: distinct_map)
  have same: "a = as ! i" if "a \<in> set as" "names (my_path a) = names p" for a
    using that i sorted_distinct [OF assms(1)] by (auto simp: in_set_conv_nth distinct_conv_nth) (metis length_map nth_map)
  have "agent_map ?bs ns = Some w \<longleftrightarrow> ns \<noteq> names p \<and> agent_map as ns = Some w" for w
    using sorted_vector_erase [OF assms(1), of i] assms(1) same i
    by (auto simp: agent_map_Some set_vector_erase [OF d i(1)])
  then show "agent_map ?bs ns = ((agent_map as)(names p := None)) ns"
    by (cases "ns = names p") (auto, metis not_Some_eq)
qed

lemma agent_map_same:
  "map my_path bs = map my_path as \<Longrightarrow> map my_value bs = map my_value as \<Longrightarrow> agent_map bs = agent_map as"
proof -
  assume "map my_path bs = map my_path as" "map my_value bs = map my_value as"
  then have "zip (map names (map my_path bs)) (map my_value bs) = zip (map names (map my_path as)) (map my_value as)" by simp
  then show "agent_map bs = agent_map as" by (simp add: agent_map_def zip_map_map zip_same_conv_map o_def)
qed

subsection \<open>Mounting keeps the map\<close>

lemma start_component_same: "start_component G n vs a w = Ret (v, b, w') \<Longrightarrow> \<exists>c. b = a\<lparr>my_comp := c\<rparr>"
  by (auto simp: start_component_def obind_Ret split: prod.splits option.splits intro: exI [of _ "my_comp a"])

lemma sub_mount_same: "sub_mount G a w = Ret (v, b, w') \<Longrightarrow> \<exists>c. b = a\<lparr>my_comp := c\<rparr>"
proof -
  have conf: "obind r (\<lambda>(cv, w). case cv of YTerm n vs \<Rightarrow> start_component G n vs a w | _ \<Rightarrow> Ret (cv, a, w)) = Ret (v, b, w')
      \<Longrightarrow> \<exists>c. b = a\<lparr>my_comp := c\<rparr>" for r
    by (cases r) (auto split: ycp.splits prod.splits dest: start_component_same intro: exI [of _ "my_comp a"])
  assume "sub_mount G a w = Ret (v, b, w')"
  then show ?thesis
    by (auto simp: sub_mount_def split: if_splits ycp.splits dest: start_component_same conf intro: exI [of _ "my_comp a"])
qed

lemma sub_unmount_same: "sub_unmount G a w = Ret (b, w') \<Longrightarrow> b = a\<lparr>my_comp := None\<rparr>"
  by (auto simp: sub_unmount_def obind_Ret split: option.splits)

lemma mount_loop_same:
  "mount_loop G as w = Ret (v, bs, w') \<Longrightarrow> map my_path bs = map my_path as \<and> map my_value bs = map my_value as"
proof (induction as arbitrary: w v bs)
  case (Cons a as)
  from Cons.prems obtain v1 a1 w1 where 1: "sub_mount G a w = Ret (v1, a1, w1)" by (auto simp: obind_Ret)
  from sub_mount_same [OF 1] have "my_path a1 = my_path a" "my_value a1 = my_value a" by auto
  with Cons.prems 1 show ?case by (auto simp: obind_Ret split: if_splits dest: Cons.IH)
qed simp

lemma unmount_loop_same:
  "unmount_loop G as w = Ret (bs, w') \<Longrightarrow> bs = map (\<lambda>a. a\<lparr>my_comp := None\<rparr>) as"
  by (induction as arbitrary: w bs) (auto simp: obind_Ret dest!: sub_unmount_same)

lemma sub_unmount_returns: "\<forall>m w. \<exists>w'. sy_finish G m w = Ret w' \<Longrightarrow> \<exists>w'. sub_unmount G a w = Ret (a\<lparr>my_comp := None\<rparr>, w')"
proof (cases "my_comp a")
  case (Some m)
  assume "\<forall>m w. \<exists>w'. sy_finish G m w = Ret w'"
  then obtain w' where "sy_finish G m w = Ret w'" by blast
  with Some show ?thesis by (simp add: sub_unmount_def)
qed (simp add: sub_unmount_def)

text \<open>
  C19. Registering and unregistering act on the sorted vector as updates of a map from paths to values: afterwards the path has the new value, or none, and
  every other path what it had; an agent that was registered before at the path is unmounted first; unregistering tells whether there was one.
\<close>

theorem registration_refines_map:
  assumes "sorted_agents (agents st)" "\<forall>m w. \<exists>w'. sy_finish G m w = Ret w'"
  shows "(\<exists>st'. RegisterAgent G p v st = Ret (True, st') \<and> sorted_agents (agents st')
      \<and> agent_map (agents st') = (agent_map (agents st))(names p \<mapsto> v))
    \<and> (\<exists>st'. UnregisterAgent G p st = Ret (agent_map (agents st) (names p) \<noteq> None, st') \<and> sorted_agents (agents st')
      \<and> agent_map (agents st') = (agent_map (agents st))(names p := None))"
proof (intro conjI)
  have erase: "\<exists>w'. erase_agent G i st = Ret (st\<lparr>agents := vector_erase i (agents st), sc_world := w'\<rparr>)" for i
    using sub_unmount_returns [OF assms(2), of "agents st ! i" "sc_world st"] by (auto simp: erase_agent_def)
  show "\<exists>st'. UnregisterAgent G p st = Ret (agent_map (agents st) (names p) \<noteq> None, st') \<and> sorted_agents (agents st')
      \<and> agent_map (agents st') = (agent_map (agents st))(names p := None)"
  proof (cases "findByPath p (agents st)")
    case None
    then have "agent_map (agents st) (names p) = None" using findByPath_None [OF assms(1)] by (auto simp: agent_map_None)
    with None assms(1) show ?thesis by (simp add: UnregisterAgent_def fun_upd_idem)
  next
    case (Some i)
    then have "agent_map (agents st) (names p) \<noteq> None"
      using findByPath_Some [OF assms(1)] by (auto simp: agent_map_None intro!: bexI [of _ "agents st ! i"])
    with Some erase [of i] show ?thesis
      using agent_map_erase [OF assms(1) Some] sorted_vector_erase [OF assms(1), of i] by (auto simp: UnregisterAgent_def)
  qed
  show "\<exists>st'. RegisterAgent G p v st = Ret (True, st') \<and> sorted_agents (agents st')
      \<and> agent_map (agents st') = (agent_map (agents st))(names p \<mapsto> v)"
  proof (cases "findByPath p (agents st)")
    case None
    then show ?thesis
      using agent_map_insert [OF assms(1) None] sorted_vector_insert [OF assms(1) None] by (simp add: RegisterAgent_def)
  next
    case (Some i)
    let ?as = "vector_erase i (agents st)"
    have s: "sorted_agents ?as" by (rule sorted_vector_erase [OF assms(1)])
    have r: "agent_map ?as = (agent_map (agents st))(names p := None)" by (rule agent_map_erase [OF assms(1) Some])
    then have n: "findByPath p ?as = None"
      using findByPath_None [OF s, of p] agent_map_None [of ?as "names p"] by simp
    from Some erase [of i] show ?thesis
      using agent_map_insert [OF s n] sorted_vector_insert [OF s n] r by (auto simp: RegisterAgent_def)
  qed
qed

definition simple_path :: "string list \<Rightarrow> scr_path" where
  "simple_path ns = map (\<lambda>n. \<lparr>component = n, is_complex = False\<rparr>) ns"

definition quiet_system :: "(unit, 'm, 'w) scr_system" where
  "quiet_system =
     \<lparr>sy_env = sample_surroundings, sy_stat = (\<lambda>_ _. None), sy_dir = (\<lambda>_ _. None), sy_file = (\<lambda>_ _. None), sy_parse = (\<lambda>_ _. None),
      sy_is_term = (\<lambda>_. False), sy_run = (\<lambda>_ w. Ret (YVoid, w)), sy_create = (\<lambda>_ w. (None, w)), sy_adopt = (\<lambda>_ w. w),
      sy_evaluate = (\<lambda>_ _ w. Ret (YVoid, w)), sy_finish = (\<lambda>_ w. Ret w), sy_version = []\<rparr>"

text \<open>A system whose components answer with the command they get, with one configuration file.\<close>

definition sample_system :: "(unit, nat, nat) scr_system" where
  "sample_system =
     quiet_system
       \<lparr>sy_stat := (\<lambda>_ f. if f \<in> {''/b/scrconf'', ''/b/scrconf/etc_net.scr''} then Some \<lparr>st_mode = S_IFREG, st_mtime = 0\<rparr> else None),
        sy_file := (\<lambda>_ f. if f = ''/b/scrconf/etc_net.scr'' then Some (''.etc.net'' @ [CHR 0x0A]) else None),
        sy_create := (\<lambda>_ w. (Some w, w + 1)), sy_evaluate := (\<lambda>_ v w. Ret (v, w))\<rparr>"

definition sample_scripting :: "(unit, nat, nat) scripting" where
  "sample_scripting =
     \<lparr>agents = [\<lparr>my_path = simple_path [''etc'', ''a''], my_value = YTerm ''ag'' [], my_comp = None\<rparr>],
      done_sweep = False, registration_dirs = [\<lparr>rd_name = ''/b/scrconf'', last_changed = 0\<rparr>], sc_search = search_start, sc_world = 0\<rparr>"

lemma sample_sorted: "sorted_agents (agents sample_scripting)"
  by (simp add: sample_scripting_def sorted_agents_def)

theorem registration_refines_map_witness:
  "\<exists>st'. RegisterAgent sample_system (simple_path [''etc'', ''a'']) (YString ''f'') sample_scripting = Ret (True, st')
    \<and> agent_map (agents st') [''etc'', ''a''] = Some (YString ''f'')"
proof -
  have "\<forall>m w. \<exists>w'. sy_finish sample_system m w = Ret w'" by (simp add: sample_system_def quiet_system_def)
  from registration_refines_map [OF sample_sorted this, of "simple_path [''etc'', ''a'']" "YString ''f''"] show ?thesis
    by (auto simp: simple_path_def)
qed

section \<open>The longest prefix\<close>

lemma find_back_Some:
  "find_back p as n = Some i \<longleftrightarrow> i < n \<and> path_isPrefixOf (my_path (as ! i)) p \<and> (\<forall>j. i < j \<longrightarrow> j < n \<longrightarrow> \<not> path_isPrefixOf (my_path (as ! j)) p)"
  by (induction n) (auto simp: less_Suc_eq)

lemma find_back_None: "find_back p as n = None \<longleftrightarrow> (\<forall>j < n. \<not> path_isPrefixOf (my_path (as ! j)) p)"
  by (induction n) (auto simp: less_Suc_eq)

lemma findSubagent_None: "findSubagent p as = None \<longleftrightarrow> (\<forall>a \<in> set as. \<not> path_isPrefixOf (my_path a) p)"
  by (simp add: findSubagent_def find_back_None all_set_conv_all_nth)

text \<open>The agent at \<open>i\<close> answers for a path: every other agent above the path is shorter.\<close>

definition handles :: "('c, 'm) sub_agent list \<Rightarrow> nat \<Rightarrow> scr_path \<Rightarrow> bool" where
  "handles as i p \<longleftrightarrow> i < length as \<and> path_isPrefixOf (my_path (as ! i)) p
     \<and> (\<forall>j < length as. j \<noteq> i \<longrightarrow> path_isPrefixOf (my_path (as ! j)) p \<longrightarrow> length (my_path (as ! j)) < length (my_path (as ! i)))"

lemma findSubagent_handles:
  assumes "sorted_agents as" "findSubagent p as = Some i"
  shows "handles as i p"
proof -
  from assms(2) have i: "i < length as" "path_isPrefixOf (my_path (as ! i)) p"
    and last: "\<forall>j. i < j \<longrightarrow> j < length as \<longrightarrow> \<not> path_isPrefixOf (my_path (as ! j)) p"
    by (auto simp: findSubagent_def find_back_Some)
  have "length (my_path (as ! j)) < length (my_path (as ! i))"
    if j: "j < length as" "j \<noteq> i" "path_isPrefixOf (my_path (as ! j)) p" for j
  proof (rule ccontr)
    assume "\<not> length (my_path (as ! j)) < length (my_path (as ! i))"
    then have "path_isPrefixOf (my_path (as ! i)) (my_path (as ! j))" using prefix_of_same [OF i(2) j(3)] by simp
    moreover have "j < i" using last j by (meson linorder_neqE_nat)
    ultimately show False using prefix_not_less sorted_agents_nth [OF assms(1) _ i(1)] by blast
  qed
  with i show ?thesis by (auto simp: handles_def)
qed

section \<open>Listing the agents below a path\<close>

definition next_name :: "scr_path \<Rightarrow> ('c, 'm) sub_agent \<Rightarrow> string" where
  "next_name p a = component (my_path a ! length p)"

abbreviation string_less :: "string \<Rightarrow> string \<Rightarrow> bool" where
  "string_less \<equiv> cmp_less string_compare"

definition add_new :: "string \<Rightarrow> string list \<Rightarrow> string list" where
  "add_new s acc = (if acc = [] \<or> last acc \<noteq> s then acc @ [s] else acc)"

lemma dir_loop_fold:
  assumes "\<forall>a \<in> set as. path_isPrefixOf p (my_path a) \<longrightarrow> length p < length (my_path a)"
  shows "dir_loop p as acc = Ret (fold add_new (map (next_name p) (filter (\<lambda>a. path_isPrefixOf p (my_path a)) as)) acc)"
  using assms by (induction p as acc rule: dir_loop.induct) (auto simp: next_name_def add_new_def)

lemma prefix_next_less:
  assumes "prefix_loop p x" "prefix_loop p y" "length p < length x" "length p < length y" "path_compare x y = YO_LESS"
  shows "\<not> string_less (component (y ! length p)) (component (x ! length p))"
  using assms
proof (induction p arbitrary: x y)
  case Nil
  then obtain a as b bs where "x = a # as" "y = b # bs" by (auto simp: neq_Nil_conv)
  with Nil.prems(5) string_order.cmp_flip [of "component a" "component b"] show ?case
    by (auto simp: cmp_less_def component_compare_def)
next
  case (Cons c p)
  then obtain a as b bs where xy: "x = a # as" "y = b # bs" by (cases x; cases y) auto
  with Cons.prems have "component a = component b" by (auto split: if_splits)
  with Cons.prems(5) xy have "path_compare as bs = YO_LESS" by (simp add: component_compare_def)
  with Cons xy show ?case by (auto split: if_splits)
qed

lemma next_names_rising:
  assumes "sorted_agents as" "\<forall>a \<in> set as. path_isPrefixOf p (my_path a) \<longrightarrow> length p < length (my_path a)"
  shows "string_order.rising (map (next_name p) (filter (\<lambda>a. path_isPrefixOf p (my_path a)) as))"
  using assms
proof (induction as)
  case (Cons a as)
  have "\<not> string_less (next_name p b) (next_name p a)"
    if "b \<in> set as" "path_isPrefixOf p (my_path b)" "path_isPrefixOf p (my_path a)" for b
    using that Cons.prems prefix_next_less [of p "my_path a" "my_path b"]
    by (auto simp: next_name_def sorted_agents_def path_isPrefixOf_def path_less_def cmp_less_def split: if_splits)
  with Cons show ?case by (auto simp: sorted_agents_def)
qed simp

lemma fold_add_new:
  assumes "string_order.rising l" "sorted_wrt string_less acc" "acc \<noteq> [] \<longrightarrow> (\<forall>x \<in> set l. \<not> string_less x (last acc))"
  shows "sorted_wrt string_less (fold add_new l acc) \<and> set (fold add_new l acc) = set acc \<union> set l"
  using assms
proof (induction l arbitrary: acc)
  case (Cons x l)
  show ?case
  proof (cases "acc = [] \<or> last acc \<noteq> x")
    case True
    have less: "string_less y x" if "y \<in> set acc" for y
    proof -
      from that True have ne: "last acc \<noteq> x" "acc \<noteq> []" by auto
      with Cons.prems(3) have last: "string_less (last acc) x"
        using string_order.incomparable_iff [of "last acc" x] by auto
      have "y = last acc \<or> string_less y (last acc)"
        using that Cons.prems(2) ne(2) by (metis append_butlast_last_id list.set_intros(1) rotate1.simps(2) set_ConsD set_rotate1 sorted_wrt_append)
      with last string_order.lt_trans show ?thesis by blast
    qed
    have "sorted_wrt string_less (acc @ [x])" using Cons.prems(2) less by (simp add: sorted_wrt_append)
    with Cons.prems(1) True Cons.IH [of "acc @ [x]"] show ?thesis by (auto simp: add_new_def)
  next
    case False
    then have "x \<in> set acc" by auto
    with False Cons show ?thesis by (auto simp: add_new_def insert_absorb)
  qed
qed simp

lemma dirSubagents_names:
  assumes "sorted_agents as" "findSubagent p as = None"
  shows "\<exists>l. dirSubagents p as = Ret l \<and> sorted_wrt string_less l
    \<and> set l = next_name p ` {a \<in> set as. path_isPrefixOf p (my_path a)}"
proof -
  have longer: "\<forall>a \<in> set as. path_isPrefixOf p (my_path a) \<longrightarrow> length p < length (my_path a)"
  proof (intro ballI impI)
    fix a
    assume a: "a \<in> set as" "path_isPrefixOf p (my_path a)"
    with assms(2) have "\<not> path_isPrefixOf (my_path a) p" by (auto simp: findSubagent_None)
    with a(2) show "length p < length (my_path a)" using prefix_same_length [of p "my_path a"] not_less by blast
  qed
  from fold_add_new [OF next_names_rising [OF assms(1) longer], of "[]"] dir_loop_fold [OF longer, of "[]"]
  show ?thesis by (auto simp: dirSubagents_def)
qed

section \<open>What registration and commands keep\<close>

text \<open>\<open>P\<close> holds of what is returned; whether it returns at all is left open when \<open>U\<close> is true.\<close>

definition outcome_ok :: "bool \<Rightarrow> ('a \<Rightarrow> bool) \<Rightarrow> 'a outcome \<Rightarrow> bool" where
  "outcome_ok U P r \<longleftrightarrow> (case r of Ret x \<Rightarrow> P x | _ \<Rightarrow> U)"

lemma outcome_ok_simps [simp]: "outcome_ok U P (Ret x) = P x" "outcome_ok U P Undef = U" "outcome_ok U P OutOfFuel = U"
  by (simp_all add: outcome_ok_def)

lemma outcome_ok_bind: "outcome_ok U P r \<Longrightarrow> (\<And>x. P x \<Longrightarrow> outcome_ok U Q (f x)) \<Longrightarrow> outcome_ok U Q (obind r f)"
  by (cases r) simp_all

lemma outcome_ok_mono: "outcome_ok U P r \<Longrightarrow> (\<And>x. P x \<Longrightarrow> Q x) \<Longrightarrow> outcome_ok U Q r"
  by (cases r) simp_all

lemma outcome_okD: "outcome_ok U P r \<Longrightarrow> r = Ret x \<Longrightarrow> P x"
  by simp

lemma outcome_ok_returns: "outcome_ok False P r \<Longrightarrow> \<exists>x. r = Ret x \<and> P x"
  by (cases r) simp_all

lemma outcome_okI: "(\<And>x. r = Ret x \<Longrightarrow> P x) \<Longrightarrow> outcome_ok True P r"
  by (cases r) simp_all

text \<open>
  The contract of registration: a property of the state that the registration of a file at a new path keeps, as well as setting up the search
  path and the note that all directories were read.  When the lines with paths in all files can be scanned, registration returns.
\<close>

locale registration_kept =
  fixes G :: "('c, 'm, 'w) scr_system"
    and U :: bool
    and J :: "('c, 'm, 'w) scripting \<Rightarrow> bool"
  assumes J_sorted: "J st \<Longrightarrow> sorted_agents (agents st)"
    and J_insert: "J st \<Longrightarrow> findByPath p (agents st) = None
      \<Longrightarrow> J (st\<lparr>agents := vector_insert (insert_position p (agents st)) (new_subagent p (YString f)) (agents st)\<rparr>)"
    and J_search: "J st \<Longrightarrow> J (st\<lparr>sc_search := S\<rparr>)"
    and J_sweep: "J st \<Longrightarrow> J (st\<lparr>done_sweep := True\<rparr>)"
    and J_scans: "\<not> U \<Longrightarrow> J st \<Longrightarrow> sy_file G (sc_world st) f = Some t \<Longrightarrow> config_line t = Some l \<Longrightarrow> path_of_string l \<noteq> None"
begin

lemma not_scanned:
  "path_of_string l = None \<Longrightarrow> config_line t = Some l \<Longrightarrow> sy_file G (sc_world st) f = Some t \<Longrightarrow> J st \<Longrightarrow> U"
  using J_scans by blast

lemma parse_keeps: "J st \<Longrightarrow> outcome_ok U J (parseSingleConfigFile G f st)"
  by (auto simp: parseSingleConfigFile_def RegisterAgent_def J_insert split: option.split intro: not_scanned)

lemma parse_files_keeps: "J st \<Longrightarrow> outcome_ok U J (parse_files G fs st)"
proof (induction fs arbitrary: st)
  case (Cons f fs)
  from parse_keeps [OF Cons.prems] show ?case unfolding parse_files.simps by (rule outcome_ok_bind) (rule Cons.IH)
qed simp

lemma parse_directory_keeps: "J st \<Longrightarrow> outcome_ok U J (parseConfigFiles G d st)"
  by (simp add: parseConfigFiles_def parse_files_keeps split: option.split)

lemma try_dirs_keeps: "J st \<Longrightarrow> outcome_ok U J (try_dirs G b ds st)"
  by (induction ds) (simp_all add: Let_def parse_keeps)

end

lemma parse_same_search: "parseSingleConfigFile G f st = Ret st' \<Longrightarrow> sc_search st' = sc_search st"
  by (auto simp: parseSingleConfigFile_def RegisterAgent_def split: option.splits if_splits)

lemma parse_files_same_search: "parse_files G fs st = Ret st' \<Longrightarrow> sc_search st' = sc_search st"
  by (induction fs arbitrary: st) (auto simp: obind_Ret dest!: parse_same_search)

lemma parse_directory_same_search: "parseConfigFiles G d st = Ret st' \<Longrightarrow> sc_search st' = sc_search st"
  by (auto simp: parseConfigFiles_def parse_files_same_search split: option.splits)

lemma scrconf_dir_returns: "s_paths S \<noteq> [] \<Longrightarrow> l < length (s_paths S) \<Longrightarrow> scrconf_dir G l S = Ret (s_paths S ! l @ ''/scrconf'', S)"
  by (simp add: scrconf_dir_def searchPath_def Path_Search.path_at_def initializePaths_def Let_def)

lemma initializePaths_nonempty: "s_paths (initializePaths V S) \<noteq> []"
  by (simp add: initializePaths_def getPaths_def)

context registration_kept
begin

lemma sweep_levels_keeps:
  "J st \<Longrightarrow> s_paths (sc_search st) \<noteq> [] \<Longrightarrow> \<forall>l \<in> set ls. l < length (s_paths (sc_search st)) \<Longrightarrow> outcome_ok U J (sweep_levels G ls st)"
proof (induction ls arbitrary: st)
  case (Cons l ls)
  have st: "st\<lparr>sc_search := sc_search st\<rparr> = st" by simp
  from parse_directory_keeps [OF Cons.prems(1), of "s_paths (sc_search st) ! l @ ''/scrconf''"]
  have "outcome_ok U (\<lambda>st'. J st' \<and> sc_search st' = sc_search st) (parseConfigFiles G (s_paths (sc_search st) ! l @ ''/scrconf'') st)"
    by (cases "parseConfigFiles G (s_paths (sc_search st) ! l @ ''/scrconf'') st") (auto dest: parse_directory_same_search)
  then have "outcome_ok U J (obind (parseConfigFiles G (s_paths (sc_search st) ! l @ ''/scrconf'') st) (sweep_levels G ls))"
    using Cons by (auto elim!: outcome_ok_bind)
  with Cons.prems st show ?case by (simp add: scrconf_dir_returns)
qed simp

lemma sweep_keeps: "J st \<Longrightarrow> outcome_ok U J (Sweep G st)"
  by (auto simp: Sweep_def numberOfComponentLevels_def Let_def initializePaths_nonempty
      intro!: outcome_ok_bind [OF sweep_levels_keeps] J_search J_sweep)

lemma guess_keeps: "J st \<Longrightarrow> i \<le> length p \<Longrightarrow> outcome_ok U (\<lambda>(r, st'). J st' \<and> r = findSubagent p (agents st')) (guess_loop G p i st)"
proof (induction i arbitrary: st)
  case 0
  then show ?case
    unfolding guess_loop.simps [of G p 0]
    by (auto simp: path_prefix_def tryRegister_def intro!: outcome_ok_bind [OF try_dirs_keeps] outcome_ok_bind [OF sweep_keeps]
        split: option.split)
next
  case (Suc i)
  then show ?case
    unfolding guess_loop.simps [of G p "Suc i"]
    by (auto simp: path_prefix_def tryRegister_def intro!: outcome_ok_bind [OF try_dirs_keeps] split: option.split)
qed

lemma find_keeps: "J st \<Longrightarrow> outcome_ok U (\<lambda>(r, st'). J st' \<and> r = findSubagent p (agents st')) (findAndRegisterSubagent G p st)"
  by (auto simp: findAndRegisterSubagent_def guess_keeps split: option.split)

end

text \<open>Commands also mount agents and change the world.\<close>

locale commands_kept = registration_kept G U J
  for G :: "('c, 'm, 'w) scr_system" and U J +
  assumes J_mount: "J st \<Longrightarrow> i < length (agents st)
      \<Longrightarrow> outcome_ok U (\<lambda>(v, a, w). J (st\<lparr>agents := (agents st)[i := a], sc_world := w\<rparr>)) (sub_mount G (agents st ! i) (sc_world st))"
    and J_evaluate: "J st \<Longrightarrow> outcome_ok U (\<lambda>(v, w). J (st\<lparr>sc_world := w\<rparr>)) (sy_evaluate G m v (sc_world st))"
begin

lemma mount_at_keeps: "J st \<Longrightarrow> i < length (agents st) \<Longrightarrow> outcome_ok U (\<lambda>(v, st'). J st') (mount_at G i st)"
  unfolding mount_at_def by (rule outcome_ok_bind [OF J_mount]) auto

lemma run_keeps:
  "J st \<Longrightarrow> outcome_ok U (\<lambda>(v, st'). J st') (obind (sy_evaluate G m v (sc_world st)) (\<lambda>(v, w). Ret (v, st\<lparr>sc_world := w\<rparr>)))"
  by (rule outcome_ok_bind [OF J_evaluate]) auto

lemma command_keeps: "J st \<Longrightarrow> outcome_ok U (\<lambda>(v, st'). J st') (executeSubagentCommand G cmd p arg opt st)"
  unfolding executeSubagentCommand_def
proof (rule outcome_ok_bind [OF find_keeps], assumption, clarify)
  fix st
  assume J: "J st"
  show "outcome_ok U (\<lambda>(v, st'). J st')
      (case findSubagent p (agents st) of
         None \<Rightarrow>
           if cmd = ''Dir'' then obind (dirSubagents p (agents st)) (\<lambda>l. Ret (YList (map YString l), st))
           else Ret (YNull, st)
       | Some i \<Rightarrow> obind (mount_at G i st) (\<lambda>(_, st).
           case my_comp (agents st ! i) of
             None \<Rightarrow> Ret (YNull, st)
           | Some m \<Rightarrow>
               (case YCP_Path.path_at p (int (length (my_path (agents st ! i)))) of
                  None \<Rightarrow> Undef
                | Some rel \<Rightarrow> obind (sy_evaluate G m (command_term cmd rel arg opt) (sc_world st)) (\<lambda>(v, w).
                    Ret (v, st\<lparr>sc_world := w\<rparr>)))))"
  proof (cases "findSubagent p (agents st)")
    case None
    with dirSubagents_names [OF J_sorted [OF J] None] J show ?thesis by auto
  next
    case (Some i)
    then have "i < length (agents st)" using findSubagent_handles [OF J_sorted [OF J]] by (auto simp: handles_def)
    from mount_at_keeps [OF J this] Some show ?thesis
      by (auto elim!: outcome_ok_bind simp: YCP_Path.path_at_def run_keeps split: option.split)
  qed
qed

end

end
