(* ===== verification/Scripting_Commands.thy ===== *)
theory Scripting_Commands
  imports Scripting_Laws
begin

text \<open>
  The commands of the scripting agent as a whole: which component answers, what stays registered, and that commands return.
\<close>

section \<open>What registration leaves alone\<close>

lemma insert_extends:
  assumes "sorted_agents as" "findByPath p as = None" "r \<subseteq>\<^sub>m agent_map as"
  shows "r \<subseteq>\<^sub>m agent_map (vector_insert (insert_position p as) (new_subagent p v) as)"
proof -
  have "agent_map as (names p) = None" using findByPath_None [OF assms(1)] assms(2) by (auto simp: agent_map_None)
  then have "agent_map as \<subseteq>\<^sub>m (agent_map as)(names p \<mapsto> v)" by (auto simp: map_le_def)
  with assms show ?thesis by (simp add: agent_map_insert map_le_trans)
qed

interpretation registering: registration_kept G True
    "\<lambda>st. sorted_agents (agents st) \<and> sc_world st = w \<and> registration_dirs st = ds \<and> r \<subseteq>\<^sub>m agent_map (agents st)"
  for G :: "('c, 'm, 'w) scr_system" and w ds r
  by unfold_locales (auto simp: sorted_vector_insert insert_extends)

lemma comp_same: "i < length as \<Longrightarrow> map my_path (as[i := (as ! i)\<lparr>my_comp := c\<rparr>]) = map my_path as"
  "i < length as \<Longrightarrow> map my_value (as[i := (as ! i)\<lparr>my_comp := c\<rparr>]) = map my_value as"
  by (simp_all add: map_update list_update_same_conv)

lemma mount_same:
  assumes "sub_mount G (as ! i) w = Ret (v, a, w')" "i < length as"
  shows "map my_path (as[i := a]) = map my_path as" "map my_value (as[i := a]) = map my_value as"
    "sorted_agents (as[i := a]) = sorted_agents as" "agent_map (as[i := a]) = agent_map as"
proof -
  from sub_mount_same [OF assms(1)] obtain c where a: "a = (as ! i)\<lparr>my_comp := c\<rparr>" by blast
  from comp_same [OF assms(2)] a show p: "map my_path (as[i := a]) = map my_path as" "map my_value (as[i := a]) = map my_value as"
    by simp_all
  from sorted_same_paths [OF p(1)] agent_map_same [OF p]
  show "sorted_agents (as[i := a]) = sorted_agents as" "agent_map (as[i := a]) = agent_map as" by simp_all
qed

text \<open>
  Every command returns when the components and the code of configuration files do, when the path lines of all files can be scanned, and when no agent was
  registered with a null handle.
\<close>

definition system_returns :: "('c, 'm, 'w) scr_system \<Rightarrow> bool" where
  "system_returns G \<longleftrightarrow>
     (\<forall>w f t l. sy_file G w f = Some t \<longrightarrow> config_line t = Some l \<longrightarrow> path_of_string l \<noteq> None)
     \<and> (\<forall>m v w. \<exists>r. sy_evaluate G m v w = Ret r) \<and> (\<forall>c w. \<exists>r. sy_run G c w = Ret r)"

definition values_given :: "('c, 'm) sub_agent list \<Rightarrow> bool" where
  "values_given as \<longleftrightarrow> YNull \<notin> set (map my_value as)"

lemma new_subagent_value [simp]: "my_value (new_subagent p v) = v" "my_path (new_subagent p v) = p"
  by (simp_all add: new_subagent_def)

lemma preload_returns: "system_returns G \<Longrightarrow> \<exists>w'. preload G m vs w = Ret w'"
proof (induction vs arbitrary: w)
  case (Cons v vs)
  obtain r where "sy_evaluate G m v w = Ret r" using Cons.prems unfolding system_returns_def by blast
  with Cons show ?case by (cases r) simp
qed simp

lemma start_component_returns: "system_returns G \<Longrightarrow> \<exists>r. start_component G n vs a w = Ret r"
  using preload_returns [of G] by (auto simp: start_component_def split: prod.split option.split) (metis obind.simps(1))

lemma readconf_returns: "system_returns G \<Longrightarrow> \<exists>r. readconf G f w = Ret r"
  by (auto simp: readconf_def system_returns_def split: option.split)

lemma sub_mount_returns:
  assumes "system_returns G" "my_value a \<noteq> YNull"
  shows "\<exists>r. sub_mount G a w = Ret r"
proof -
  note start = start_component_returns [OF assms(1)]
  have conf: "\<exists>r. (case cv of YTerm n vs \<Rightarrow> start_component G n vs a w | _ \<Rightarrow> Ret (cv, a, w)) = Ret r" for cv w
    using start by (cases cv) auto
  show ?thesis
  proof (cases "my_value a")
    case (YString f)
    from readconf_returns [OF assms(1)] obtain cv w' where "readconf G f w = Ret (cv, w')" by fast
    with YString conf [of cv w'] show ?thesis by (auto simp: sub_mount_def)
  qed (use assms(2) start in \<open>auto simp: sub_mount_def\<close>)
qed

text \<open>What a command keeps, when it returns and when the system returns.\<close>

interpretation command: commands_kept G True "\<lambda>st. sorted_agents (agents st) \<and> r \<subseteq>\<^sub>m agent_map (agents st)"
  for G :: "('c, 'm, 'w) scr_system" and r
  by unfold_locales (auto simp: sorted_vector_insert insert_extends mount_same intro!: outcome_okI)

interpretation total: commands_kept G False "\<lambda>st. sorted_agents (agents st) \<and> values_given (agents st) \<and> system_returns G"
  for G :: "('c, 'm, 'w) scr_system"
proof (unfold_locales, goal_cases)
  case (6 st i)
  then have v: "my_value (agents st ! i) \<noteq> YNull" by (metis length_map nth_map nth_mem values_given_def)
  with 6 obtain v a w where m: "sub_mount G (agents st ! i) (sc_world st) = Ret (v, a, w)"
    using sub_mount_returns [OF _ v, of G] by (metis prod_cases3)
  have "values_given ((agents st)[i := a])"
    using 6 mount_same(2) [OF m] by (simp add: values_given_def del: set_map)
  with 6 m mount_same(3) [OF m] show ?case by simp
next
  case (7 st m v)
  then obtain r where "sy_evaluate G m v (sc_world st) = Ret r" unfolding system_returns_def by blast
  with 7 show ?case by (cases r) simp
qed (auto simp: sorted_vector_insert values_given_def system_returns_def)

section \<open>Who answers\<close>

lemma handles_same:
  assumes "map my_path bs = map my_path as"
  shows "handles bs i p = handles as i p"
proof -
  have l: "length bs = length as" using assms by (metis length_map)
  have "my_path (bs ! j) = my_path (as ! j)" if "j < length as" for j
    using that l assms by (metis nth_map)
  with l show ?thesis by (auto simp: handles_def)
qed

lemma guess_sweeps: "guess_loop G p i st = Ret (None, st') \<Longrightarrow> done_sweep st'"
proof (induction i arbitrary: st)
  case 0
  then show ?case
    unfolding guess_loop.simps [of G p 0]
    by (auto simp: obind_Ret Sweep_def split: option.splits if_splits prod.splits)
next
  case (Suc i)
  then show ?case
    unfolding guess_loop.simps [of G p "Suc i"]
    by (auto simp: obind_Ret split: option.splits)
qed

lemma find_sweeps: "findAndRegisterSubagent G p st = Ret (None, st') \<Longrightarrow> done_sweep st'"
  by (auto simp: findAndRegisterSubagent_def split: option.splits dest: guess_sweeps)

lemma command_answer:
  assumes "sorted_agents (agents st)" "executeSubagentCommand G cmd p arg opt st = Ret (v, st')"
  shows "(\<exists>i. handles (agents st') i p \<and>
        (case my_comp (agents st' ! i) of
           None \<Rightarrow> v = YNull
         | Some m \<Rightarrow> \<exists>w. sy_evaluate G m (command_term cmd (drop (length (my_path (agents st' ! i))) p) arg opt) w = Ret (v, sc_world st')))
    \<or> done_sweep st' \<and> (\<forall>a \<in> set (agents st'). \<not> path_isPrefixOf (my_path a) p) \<and>
        (if cmd = ''Dir'' then \<exists>l. v = YList (map YString l) \<and> sorted_wrt string_less l
            \<and> set l = next_name p ` {a \<in> set (agents st'). path_isPrefixOf p (my_path a)}
         else v = YNull)"
proof -
  from assms(2) obtain r st1 where 1: "findAndRegisterSubagent G p st = Ret (r, st1)"
    by (auto simp: executeSubagentCommand_def obind_Ret)
  from outcome_okD [OF registering.find_keeps 1, of "sc_world st" "registration_dirs st" "Map.empty"] assms(1)
  have st1: "sorted_agents (agents st1)" "r = findSubagent p (agents st1)" by auto
  show ?thesis
  proof (cases r)
    case None
    with st1 have "findSubagent p (agents st1) = None" by simp
    with dirSubagents_names [OF st1(1) this] assms(2) 1 None find_sweeps [of G p st st1] show ?thesis
      by (auto simp: executeSubagentCommand_def findSubagent_None split: if_splits)
  next
    case (Some i)
    with st1 have h: "handles (agents st1) i p" using findSubagent_handles by metis
    from assms(2) 1 Some obtain v1 a w1 where m: "sub_mount G (agents st1 ! i) (sc_world st1) = Ret (v1, a, w1)"
      by (auto simp: executeSubagentCommand_def mount_at_def obind_Ret)
    let ?as = "(agents st1)[i := a]"
    have i: "i < length (agents st1)" using h by (simp add: handles_def)
    have "handles ?as i p" using handles_same [OF mount_same(1) [OF m i]] h by simp
    moreover have as: "agents st' = ?as"
      using assms(2) 1 Some m
      by (auto simp: executeSubagentCommand_def mount_at_def obind_Ret YCP_Path.path_at_def split: option.splits)
    moreover have "case my_comp (?as ! i) of
           None \<Rightarrow> v = YNull
         | Some c \<Rightarrow> \<exists>w. sy_evaluate G c (command_term cmd (drop (length (my_path (?as ! i))) p) arg opt) w = Ret (v, sc_world st')"
      using assms(2) 1 Some m
      by (auto simp: executeSubagentCommand_def mount_at_def obind_Ret YCP_Path.path_at_def split: option.splits)
    ultimately show ?thesis unfolding as by blast
  qed
qed

lemma sample_line: "config_line (''.etc.net'' @ [CHR 0x0A]) = Some ''.etc.net''"
  by code_simp

lemma sample_returns: "system_returns sample_system"
proof -
  have "path_of_string ''.etc.net'' = Some (simple_path [''etc'', ''net''])" by code_simp
  then show ?thesis
    using sample_line by (auto simp: system_returns_def sample_system_def quiet_system_def split: if_splits)
qed

lemma sample_values: "values_given (agents sample_scripting)"
  by (simp add: sample_scripting_def values_given_def)

text \<open>
  C9. Every command returns and is answered by the mounted component of the agent with the longest registered path above the path of the command, which gets the
  command with the rest of the path and the arguments that were given; without such an agent all directories have been searched, and the
  command fails, except that a listing gives the next names of the agents below, in order and each once.  The vector stays sorted, and every agent that
  was registered before still is, with its value.
\<close>

theorem command_dispatch:
  assumes "sorted_agents (agents st)" "values_given (agents st)" "system_returns G"
  shows "\<exists>v st'. executeSubagentCommand G cmd p arg opt st = Ret (v, st')
    \<and> sorted_agents (agents st') \<and> agent_map (agents st) \<subseteq>\<^sub>m agent_map (agents st') \<and>
    ((\<exists>i. handles (agents st') i p \<and>
        (case my_comp (agents st' ! i) of
           None \<Rightarrow> v = YNull
         | Some m \<Rightarrow> \<exists>w. sy_evaluate G m (command_term cmd (drop (length (my_path (agents st' ! i))) p) arg opt) w = Ret (v, sc_world st')))
    \<or> done_sweep st' \<and> (\<forall>a \<in> set (agents st'). \<not> path_isPrefixOf (my_path a) p) \<and>
        (if cmd = ''Dir'' then \<exists>l. v = YList (map YString l) \<and> sorted_wrt string_less l
            \<and> set l = next_name p ` {a \<in> set (agents st'). path_isPrefixOf p (my_path a)}
         else v = YNull))"
proof -
  from assms have "sorted_agents (agents st) \<and> values_given (agents st) \<and> system_returns G" by simp
  from outcome_ok_returns [OF total.command_keeps [OF this]] obtain v st'
    where r: "executeSubagentCommand G cmd p arg opt st = Ret (v, st')" by fast
  have "sorted_agents (agents st) \<and> agent_map (agents st) \<subseteq>\<^sub>m agent_map (agents st)" using assms(1) by simp
  from outcome_okD [OF command.command_keeps [OF this] r]
  have "sorted_agents (agents st')" "agent_map (agents st) \<subseteq>\<^sub>m agent_map (agents st')" by auto
  with command_answer [OF assms(1) r] r show ?thesis by blast
qed

theorem command_dispatch_witness:
  "\<exists>v st'. executeSubagentCommand sample_system ''Read'' (simple_path [''etc'', ''a'', ''b'']) (YInteger 1) YNull sample_scripting = Ret (v, st')
    \<and> sorted_agents (agents st') \<and> agent_map (agents sample_scripting) \<subseteq>\<^sub>m agent_map (agents st')"
  using command_dispatch [OF sample_sorted sample_values sample_returns, of "''Read''" "simple_path [''etc'', ''a'', ''b'']" "YInteger 1" YNull] by blast

section \<open>Registration on first use\<close>

text \<open>The first directory with the file that belongs to a path has a regular file there, whose path line is the path.\<close>

definition file_in_place :: "('c, 'm, 'w) scr_system \<Rightarrow> 'w \<Rightarrow> reg_dir list \<Rightarrow> scr_path \<Rightarrow> bool" where
  "file_in_place G w ds q \<longleftrightarrow> good_path q \<and>
     (case List.find (\<lambda>d. sy_stat G w (c_str (rd_name d)) \<noteq> None \<and> sy_stat G w (c_str (rd_name d @ ''/'' @ scr_basename q)) \<noteq> None) ds of
        None \<Rightarrow> False
      | Some d \<Rightarrow> let f = c_str (rd_name d @ ''/'' @ scr_basename q) in
          (case sy_stat G w f of None \<Rightarrow> False | Some b \<Rightarrow> s_isreg b)
          \<and> (case sy_file G w f of None \<Rightarrow> False | Some t \<Rightarrow> config_line t = Some (path_string q)))"

lemma parse_registers:
  assumes "sorted_agents (agents st)" "good_path q" "sy_stat G (sc_world st) (c_str f) = Some b" "s_isreg b"
    "sy_file G (sc_world st) (c_str f) = Some t" "config_line t = Some (path_string q)"
  shows "\<exists>st'. parseSingleConfigFile G f st = Ret st' \<and> (\<exists>a \<in> set (agents st'). names (my_path a) = names q)"
  using assms findByPath_None [OF assms(1), of q]
  by (auto simp: parseSingleConfigFile_def RegisterAgent_def path_roundtrip)

lemma try_dirs_registers:
  assumes "sorted_agents (agents st)" "file_in_place G (sc_world st) ds q"
  shows "\<exists>st'. try_dirs G (scr_basename q) ds st = Ret st' \<and> (\<exists>a \<in> set (agents st'). names (my_path a) = names q)"
  using assms(2)
proof (induction ds)
  case Nil
  then show ?case by (simp add: file_in_place_def)
next
  case (Cons d ds)
  let ?f = "rd_name d @ ''/'' @ scr_basename q"
  show ?case
  proof (cases "sy_stat G (sc_world st) (c_str (rd_name d)) \<noteq> None \<and> sy_stat G (sc_world st) (c_str ?f) \<noteq> None")
    case True
    with Cons.prems have "\<exists>st'. parseSingleConfigFile G ?f st = Ret st' \<and> (\<exists>a \<in> set (agents st'). names (my_path a) = names q)"
      by (auto simp: file_in_place_def Let_def split: option.splits intro!: parse_registers [OF assms(1)])
    with True show ?thesis by (auto simp: Let_def)
  next
    case False
    then have "file_in_place G (sc_world st) ds q" using Cons.prems by (auto simp: file_in_place_def)
    with False Cons.IH show ?thesis by (auto simp: Let_def)
  qed
qed

lemma parse_same_sweep: "parseSingleConfigFile G f st = Ret st' \<Longrightarrow> done_sweep st' = done_sweep st"
  by (auto simp: parseSingleConfigFile_def RegisterAgent_def split: option.splits if_splits)

lemma try_dirs_same_sweep: "try_dirs G b ds st = Ret st' \<Longrightarrow> done_sweep st' = done_sweep st"
  by (induction ds) (auto simp: Let_def parse_same_sweep split: if_splits)

lemma names_prefix: "names q = names (take i p) \<Longrightarrow> path_isPrefixOf q p"
proof -
  assume q: "names q = names (take i p)"
  then have "length q = min (length p) i" by (metis length_map length_take)
  with q show ?thesis by (cases "i \<le> length p") (simp_all add: isPrefixOf_take take_map min_def)
qed

lemma guess_step:
  "i \<le> length p \<Longrightarrow> guess_loop G p i st
   = obind (try_dirs G (scr_basename (take i p)) (registration_dirs st) st) (\<lambda>st.
       case findSubagent p (agents st) of
         Some k \<Rightarrow> Ret (Some k, st)
       | None \<Rightarrow>
           (case i of
              Suc j \<Rightarrow> guess_loop G p j st
            | 0 \<Rightarrow> obind (if done_sweep st then Ret st else Sweep G st) (\<lambda>st. Ret (findSubagent p (agents st), st))))"
  by (subst guess_loop.simps) (simp add: path_prefix_def tryRegister_def)

lemma guess_finds:
  assumes "system_returns G" "file_in_place G w ds (take i p)" "i \<le> j" "j \<le> length p"
    "sorted_agents (agents st)" "values_given (agents st)" "sc_world st = w" "registration_dirs st = ds"
  shows "\<exists>k st'. guess_loop G p j st = Ret (Some k, st') \<and> handles (agents st') k p \<and> done_sweep st' = done_sweep st"
  using assms(3-8)
proof (induction j arbitrary: st)
  case (0 st)
  from try_dirs_registers [OF 0(3), of G ds "take i p"] assms(2) 0 obtain st1 a where
    1: "try_dirs G (scr_basename []) ds st = Ret st1" "a \<in> set (agents st1)" "names (my_path a) = names (take i p)" by auto
  have "sorted_agents (agents st) \<and> sc_world st = w \<and> registration_dirs st = ds \<and> Map.empty \<subseteq>\<^sub>m agent_map (agents st)" using 0 by simp
  from outcome_okD [OF registering.try_dirs_keeps [OF this] 1(1)] have s: "sorted_agents (agents st1)" by simp
  have "findSubagent p (agents st1) \<noteq> None" using names_prefix [OF 1(3)] 1(2) by (auto simp: findSubagent_None)
  then obtain k where "findSubagent p (agents st1) = Some k" by blast
  with 1 0 findSubagent_handles [OF s this] show ?case
    by (simp add: guess_step try_dirs_same_sweep)
next
  case (Suc j)
  have "sorted_agents (agents st) \<and> values_given (agents st) \<and> system_returns G" using Suc.prems assms(1) by simp
  from outcome_ok_returns [OF total.try_dirs_keeps [OF this, of "scr_basename (take (Suc j) p)" ds]] obtain st1 where
    1: "try_dirs G (scr_basename (take (Suc j) p)) ds st = Ret st1" "sorted_agents (agents st1)" "values_given (agents st1)" by auto
  have "sorted_agents (agents st) \<and> sc_world st = w \<and> registration_dirs st = ds \<and> Map.empty \<subseteq>\<^sub>m agent_map (agents st)" using Suc.prems by simp
  from outcome_okD [OF registering.try_dirs_keeps [OF this] 1(1)] have st1: "sc_world st1 = w" "registration_dirs st1 = ds" by simp_all
  show ?case
  proof (cases "findSubagent p (agents st1)")
    case (Some k)
    with 1 Suc.prems findSubagent_handles [OF 1(2) Some] show ?thesis by (simp add: guess_step try_dirs_same_sweep)
  next
    case None
    have "i \<noteq> Suc j"
    proof
      assume i: "i = Suc j"
      from try_dirs_registers [OF Suc.prems(3), of G ds "take i p"] assms(2) Suc.prems 1(1) i
      have "\<exists>a \<in> set (agents st1). names (my_path a) = names (take i p)" by simp
      with None show False using names_prefix by (auto simp: findSubagent_None)
    qed
    with Suc.prems have "i \<le> j" "j \<le> length p" by simp_all
    from Suc.IH [OF this 1(2,3) st1] None 1(1) Suc.prems show ?thesis by (auto simp: guess_step try_dirs_same_sweep)
  qed
qed



section \<open>Lines of configuration files\<close>

lemma fgets_line: "CHR 0x0A \<notin> set l \<Longrightarrow> length l < n \<Longrightarrow> fgets n (l @ CHR 0x0A # r) = (l @ [CHR 0x0A], r)"
proof (induction l arbitrary: n)
  case Nil
  then show ?case by (cases n) auto
next
  case (Cons c l)
  then show ?case by (cases n) auto
qed

lemma config_line_first:
  assumes "nul_free l" "CHR 0x0A \<notin> set l" "length l < 249" "l \<noteq> []" "hd l = CHR ''.''"
  shows "config_line (l @ CHR 0x0A # r) = Some l"
  using assms by (subst config_line.simps) (simp add: fgets_line)

text \<open>A line without a newline at the end of the file loses its last character, and the rest of a long line counts as a line.\<close>

lemma last_line_cut: "config_line ''.etc.net'' = Some ''.etc.ne''"
  by code_simp

lemma long_line_continues: "config_line (replicate 249 CHR ''#'' @ ''.etc'' @ [CHR 0x0A]) = Some ''.etc''"
  by code_simp

end
