(* ===== verification/SCR_Agents.thy ===== *)
theory SCR_Agents
  imports Scripting_Commands
begin

text \<open>
  The interface of agents and its users: the virtual methods of \<^verbatim>\<open>libscr/src/include/scr/SCRAgent.h\<close> with their defaults, the component that
  makes an agent out of terms (\<^verbatim>\<open>Y2AgentComponent.h\<close>), the agent that forwards to another process (\<^verbatim>\<open>scr/src/StdioSCRAgent.cc\<close>)
  and the builtins of the name space \<^verbatim>\<open>SCR\<close> (\<^verbatim>\<open>libscr/src/SCR.cc\<close>).
\<close>

section \<open>Agents\<close>

text \<open>The virtual methods, on a state \<open>'s\<close>.\<close>

record ('c, 's) scr_agent =
  v_Read :: "scr_path \<Rightarrow> 'c ycp \<Rightarrow> 'c ycp \<Rightarrow> 's \<Rightarrow> ('c ycp \<times> 's) outcome"
  v_Write :: "scr_path \<Rightarrow> 'c ycp \<Rightarrow> 'c ycp \<Rightarrow> 's \<Rightarrow> ('c ycp \<times> 's) outcome"
  v_Dir :: "scr_path \<Rightarrow> 's \<Rightarrow> ('c ycp \<times> 's) outcome"
  v_Execute :: "scr_path \<Rightarrow> 'c ycp \<Rightarrow> 'c ycp \<Rightarrow> 's \<Rightarrow> ('c ycp \<times> 's) outcome"
  v_Error :: "scr_path \<Rightarrow> 's \<Rightarrow> ('c ycp \<times> 's) outcome"
  v_RegisterAgent :: "scr_path \<Rightarrow> 'c ycp \<Rightarrow> 's \<Rightarrow> ('c ycp \<times> 's) outcome"
  v_UnregisterAgent :: "scr_path \<Rightarrow> 's \<Rightarrow> ('c ycp \<times> 's) outcome"
  v_UnregisterAllAgents :: "'s \<Rightarrow> ('c ycp \<times> 's) outcome"
  v_UnmountAgent :: "scr_path \<Rightarrow> 's \<Rightarrow> ('c ycp \<times> 's) outcome"
  v_RegisterNewAgents :: "'s \<Rightarrow> ('c ycp \<times> 's) outcome"
  v_otherCommand :: "string \<Rightarrow> 'c ycp list \<Rightarrow> 's \<Rightarrow> ('c ycp \<times> 's) outcome"

definition unspecified_error :: "'c ycp" where
  "unspecified_error =
     YMap (ymap_add (ymap_add [] (YString ''code'') (YString ''UNSPEC'')) (YString ''summary'') (YString ''Unspecified error''))"

text \<open>The methods of the base class; the three first ones are pure virtual.\<close>

definition base_agent ::
  "(scr_path \<Rightarrow> 'c ycp \<Rightarrow> 'c ycp \<Rightarrow> 's \<Rightarrow> ('c ycp \<times> 's) outcome) \<Rightarrow> (scr_path \<Rightarrow> 'c ycp \<Rightarrow> 'c ycp \<Rightarrow> 's \<Rightarrow> ('c ycp \<times> 's) outcome)
   \<Rightarrow> (scr_path \<Rightarrow> 's \<Rightarrow> ('c ycp \<times> 's) outcome) \<Rightarrow> ('c, 's) scr_agent" where
  "base_agent rd wr dr =
     \<lparr>v_Read = rd, v_Write = wr, v_Dir = dr,
      v_Execute = (\<lambda>p v arg s. Ret (YNull, s)),
      v_Error = (\<lambda>p s. Ret (unspecified_error, s)),
      v_RegisterAgent = (\<lambda>p v s. Ret (YBoolean False, s)),
      v_UnregisterAgent = (\<lambda>p s. Ret (YBoolean False, s)),
      v_UnregisterAllAgents = (\<lambda>s. Ret (YBoolean False, s)),
      v_UnmountAgent = (\<lambda>p s. Ret (YBoolean False, s)),
      v_RegisterNewAgents = (\<lambda>s. Ret (YBoolean False, s)),
      v_otherCommand = (\<lambda>cmd args s. Ret (YNull, s))\<rparr>"

definition scripting_agent :: "('c, 'm, 'w) scr_system \<Rightarrow> ('c, ('c, 'm, 'w) scripting) scr_agent" where
  "scripting_agent G =
     \<lparr>v_Read = scripting_Read G, v_Write = scripting_Write G, v_Dir = scripting_Dir G,
      v_Execute = scripting_Execute G, v_Error = scripting_Error G,
      v_RegisterAgent = (\<lambda>p v st. bool_result (RegisterAgent G p v st)),
      v_UnregisterAgent = (\<lambda>p st. bool_result (UnregisterAgent G p st)),
      v_UnregisterAllAgents = (\<lambda>st. bool_result (UnregisterAllAgents G st)),
      v_UnmountAgent = (\<lambda>p st. bool_result (UnmountAgent G p st)),
      v_RegisterNewAgents = (\<lambda>st. bool_result (RegisterNewAgents G st)),
      v_otherCommand = scripting_otherCommand G\<rparr>"

text \<open>\<^verbatim>\<open>SCRAgent::current_scr\<close>: the first agent that is constructed, until it is destroyed or replaced.\<close>

definition scr_construct :: "'a \<Rightarrow> 'a option \<Rightarrow> 'a option" where
  "scr_construct this current = (case current of None \<Rightarrow> Some this | Some a \<Rightarrow> Some a)"

definition scr_destroy :: "'a \<Rightarrow> 'a option \<Rightarrow> 'a option" where
  "scr_destroy this current = (if current = Some this then None else current)"

definition setAsCurrentSCR :: "'a \<Rightarrow> 'a option \<Rightarrow> 'a option" where
  "setAsCurrentSCR this current = Some this"

section \<open>The component of an agent\<close>

text \<open>\<^verbatim>\<open>args->value (0)->asPath ()\<close> ends the program when there is no such argument or when it is not a path.\<close>

definition path_argument :: "'c ycp list \<Rightarrow> (scr_path \<Rightarrow> 'a outcome) \<Rightarrow> 'a outcome" where
  "path_argument args f = (case list_value args 0 of YPath p \<Rightarrow> f p | _ \<Rightarrow> Undef)"

definition agent_term :: "('c, 's) scr_agent \<Rightarrow> string \<Rightarrow> 'c ycp list \<Rightarrow> 's \<Rightarrow> ('c ycp \<times> 's) outcome" where
  "agent_term A command args s =
     (if command = ''Read'' then
        path_argument args (\<lambda>p. v_Read A p (if 1 < length args then list_value args 1 else YNull) YNull s)
      else if command = ''Write'' then
        path_argument args (\<lambda>p. v_Write A p (list_value args 1) (if 2 < length args then list_value args 2 else YNull) s)
      else if command = ''Dir'' then path_argument args (\<lambda>p. v_Dir A p s)
      else if command = ''Error'' then path_argument args (\<lambda>p. v_Error A p s)
      else if command = ''Execute'' then
        path_argument args (\<lambda>p.
          if length args = 1 then v_Execute A p YNull YNull s
          else if length args = 2 then v_Execute A p (list_value args 1) YNull s
          else v_Execute A p (list_value args 1) (list_value args 2) s)
      else v_otherCommand A command args s)"

definition agent_value :: "('c, 's) scr_agent \<Rightarrow> 'c ycp \<Rightarrow> 's \<Rightarrow> ('c ycp \<times> 's) outcome" where
  "agent_value A v s =
     (if v = YNull \<or> isVoid v then Ret (v, s)
      else case v of YTerm command args \<Rightarrow> agent_term A command args s | _ \<Rightarrow> Ret (YVoid, s))"

text \<open>
  \<^verbatim>\<open>evaluate\<close>.  The agent is created with the first command: \<^const>\<open>Inl\<close> is what it is created from, \<^const>\<open>Inr\<close> its state.  Code is run first;
  only the value of a term is a command.
\<close>

definition getSCRAgent :: "('n \<Rightarrow> 's outcome) \<Rightarrow> 'n + 's \<Rightarrow> 's outcome" where
  "getSCRAgent new c = (case c of Inl n \<Rightarrow> new n | Inr s \<Rightarrow> Ret s)"

definition agent_evaluate ::
  "('c, 's) scr_agent \<Rightarrow> ('n \<Rightarrow> 's outcome) \<Rightarrow> ('c \<Rightarrow> bool) \<Rightarrow> ('c \<Rightarrow> 's \<Rightarrow> ('c ycp \<times> 's) outcome) \<Rightarrow> 'c ycp \<Rightarrow> 'n + 's
   \<Rightarrow> ('c ycp \<times> 's) outcome" where
  "agent_evaluate A new is_term run v c =
     (if v = YNull then Undef
      else obind (getSCRAgent new c) (\<lambda>s.
        case v of
          YCode code \<Rightarrow> obind (run code s) (\<lambda>(v, s). if is_term code then agent_value A v s else Ret (v, s))
        | _ \<Rightarrow> agent_value A v s))"

section \<open>The agent that forwards\<close>

text \<open>\<^verbatim>\<open>m_handler\<close> is the component of the other side; without one every command gives the null value.\<close>

type_synonym ('c, 's) handler = "('c ycp \<Rightarrow> 's \<Rightarrow> ('c ycp \<times> 's) outcome) option"

definition hand_over :: "('c, 's) handler \<Rightarrow> string \<Rightarrow> 'c ycp list \<Rightarrow> ('c ycp \<Rightarrow> bool) \<Rightarrow> 's \<Rightarrow> ('c ycp \<times> 's) outcome" where
  "hand_over h command args T s =
     (case h of
        None \<Rightarrow> Ret (YNull, s)
      | Some f \<Rightarrow> obind (f (YTerm command args) s) (\<lambda>(v, s). Ret (only_if T v, s)))"

definition given :: "'c ycp \<Rightarrow> 'c ycp \<Rightarrow> 'c ycp list" where
  "given arg opt = (if arg = YNull then [] else if opt = YNull then [arg] else [arg, opt])"

definition stdio_Read :: "('c, 's) handler \<Rightarrow> scr_path \<Rightarrow> 'c ycp \<Rightarrow> 'c ycp \<Rightarrow> 's \<Rightarrow> ('c ycp \<times> 's) outcome" where
  "stdio_Read h p arg opt s = hand_over h ''Read'' (YPath p # given arg opt) (\<lambda>_. True) s"

definition stdio_Write :: "('c, 's) handler \<Rightarrow> scr_path \<Rightarrow> 'c ycp \<Rightarrow> 'c ycp \<Rightarrow> 's \<Rightarrow> ('c ycp \<times> 's) outcome" where
  "stdio_Write h p v arg s =
     hand_over h ''Write'' (YPath p # (if v = YNull then [YVoid] else given v arg)) isBoolean s"

definition stdio_Dir :: "('c, 's) handler \<Rightarrow> scr_path \<Rightarrow> 's \<Rightarrow> ('c ycp \<times> 's) outcome" where
  "stdio_Dir h p s = hand_over h ''Dir'' [YPath p] isList s"

definition stdio_Execute :: "('c, 's) handler \<Rightarrow> scr_path \<Rightarrow> 'c ycp \<Rightarrow> 'c ycp \<Rightarrow> 's \<Rightarrow> ('c ycp \<times> 's) outcome" where
  "stdio_Execute h p v arg s = hand_over h ''Execute'' (YPath p # given v arg) (\<lambda>_. True) s"

definition stdio_Error :: "('c, 's) handler \<Rightarrow> scr_path \<Rightarrow> 's \<Rightarrow> ('c ycp \<times> 's) outcome" where
  "stdio_Error h p s = hand_over h ''Error'' [YPath p] isMap s"

definition stdio_RegisterAgent :: "('c, 's) handler \<Rightarrow> scr_path \<Rightarrow> 'c ycp \<Rightarrow> 's \<Rightarrow> ('c ycp \<times> 's) outcome" where
  "stdio_RegisterAgent h p v s = hand_over h ''RegisterAgent'' [YPath p, v] isBoolean s"

definition stdio_UnregisterAgent :: "('c, 's) handler \<Rightarrow> scr_path \<Rightarrow> 's \<Rightarrow> ('c ycp \<times> 's) outcome" where
  "stdio_UnregisterAgent h p s = hand_over h ''UnregisterAgent'' [YPath p] isBoolean s"

definition stdio_otherCommand :: "('c, 's) handler \<Rightarrow> string \<Rightarrow> 'c ycp list \<Rightarrow> 's \<Rightarrow> ('c ycp \<times> 's) outcome" where
  "stdio_otherCommand h cmd args s = Ret (YNull, s)"

definition stdio_agent :: "('c, 's) handler \<Rightarrow> ('c, 's) scr_agent" where
  "stdio_agent h =
     (base_agent (stdio_Read h) (stdio_Write h) (stdio_Dir h))
       \<lparr>v_Execute := stdio_Execute h, v_Error := stdio_Error h, v_RegisterAgent := stdio_RegisterAgent h,
        v_UnregisterAgent := stdio_UnregisterAgent h, v_otherCommand := stdio_otherCommand h\<rparr>"

section \<open>The builtins\<close>

text \<open>Without an agent every builtin gives nil.\<close>

definition with_instance :: "'a option \<Rightarrow> ('a \<Rightarrow> 's \<Rightarrow> ('c ycp \<times> 's) outcome) \<Rightarrow> 's \<Rightarrow> ('c ycp \<times> 's) outcome" where
  "with_instance current f s = (case current of None \<Rightarrow> Ret (YVoid, s) | Some A \<Rightarrow> f A s)"

definition nil_for_null :: "'c ycp \<Rightarrow> 'c ycp" where
  "nil_for_null v = (if v = YNull then YVoid else v)"

definition SCRRead3 where
  "SCRRead3 cur p args opt s = with_instance cur (\<lambda>A. v_Read A p args opt) s"

definition SCRRead2 where
  "SCRRead2 cur p arg s = SCRRead3 cur p arg YNull s"

definition SCRRead where
  "SCRRead cur p s = SCRRead3 cur p YNull YNull s"

definition SCRWrite2 where
  "SCRWrite2 cur p v s = with_instance cur (\<lambda>A. v_Write A p (nil_for_null v) YNull) s"

definition SCRWrite3 where
  "SCRWrite3 cur p v arg s = with_instance cur (\<lambda>A. v_Write A p (nil_for_null v) (nil_for_null arg)) s"

definition SCRDir where
  "SCRDir cur p s = with_instance cur (\<lambda>A. v_Dir A p) s"

definition SCRExecute where
  "SCRExecute cur p s = with_instance cur (\<lambda>A. v_Execute A p YNull YNull) s"

definition SCRError where
  "SCRError cur p s = with_instance cur (\<lambda>A. v_Error A p) s"

definition SCRExecute2 where
  "SCRExecute2 cur p arg s = with_instance cur (\<lambda>A. v_Execute A p (nil_for_null arg) YNull) s"

definition SCRExecute3 where
  "SCRExecute3 cur p arg opt s = with_instance cur (\<lambda>A. v_Execute A p (nil_for_null arg) (nil_for_null opt)) s"

definition SCRRegisterAgent where
  "SCRRegisterAgent cur p v s = with_instance cur (\<lambda>A. v_RegisterAgent A p v) s"

definition SCRUnregisterAgent where
  "SCRUnregisterAgent cur p s = with_instance cur (\<lambda>A. v_UnregisterAgent A p) s"

definition SCRUnregisterAllAgents where
  "SCRUnregisterAllAgents cur s = with_instance cur v_UnregisterAllAgents s"

definition SCRUnmountAgent where
  "SCRUnmountAgent cur p s = with_instance cur (\<lambda>A. v_UnmountAgent A p) s"

definition SCRRegisterNewAgents where
  "SCRRegisterNewAgents cur s = with_instance cur v_RegisterNewAgents s"

section \<open>Forwarding is transparent\<close>

text \<open>The scripting agent of another process, as the handler of the agent that forwards.\<close>

definition remote_scr ::
  "('c, 'm, 'w) scr_system \<Rightarrow> ('n \<Rightarrow> ('c, 'm, 'w) scripting outcome) \<Rightarrow> ('c \<Rightarrow> ('c, 'm, 'w) scripting \<Rightarrow> ('c ycp \<times> ('c, 'm, 'w) scripting) outcome)
   \<Rightarrow> ('c, ('c, 'm, 'w) scripting) handler" where
  "remote_scr G new run = Some (\<lambda>v st. agent_evaluate (scripting_agent G) new (sy_is_term G) run v (Inr st))"

lemma only_if_simps [simp]: "only_if T YNull = YNull" "only_if T (only_if T v) = only_if T v" "only_if (\<lambda>_. True) v = v"
  "only_if isBoolean (YBoolean b) = YBoolean b"
  by (simp_all add: only_if_def isBoolean_def)

lemma obind_return: "obind r Ret = r"
  by (cases r) simp_all

lemma agent_evaluate_term [simp]: "agent_evaluate A new it run (YTerm cmd args) (Inr s) = agent_term A cmd args s"
  by (simp add: agent_evaluate_def getSCRAgent_def agent_value_def isVoid_def)

lemma remote_hand_over:
  "hand_over (remote_scr G new run) cmd args T st
   = obind (agent_term (scripting_agent G) cmd args st) (\<lambda>(v, st). Ret (only_if T v, st))"
  by (simp add: hand_over_def remote_scr_def)

lemma typed_again: "obind (obind r (\<lambda>(v, s). Ret (only_if T v, s))) (\<lambda>(v, s). Ret (only_if T v, s)) = obind r (\<lambda>(v, s). Ret (only_if T v, s))"
  by (cases r) auto

lemma bool_result_typed: "obind (bool_result r) (\<lambda>(v, s). Ret (only_if isBoolean v, s)) = bool_result r"
  by (cases r) (auto simp: bool_result_def)

lemmas remote_simps = remote_hand_over agent_term_def path_argument_def list_value_def scripting_agent_def given_def obind_return
  typed_again bool_result_typed

definition local_scr :: "('c, 'm, 'w) scr_system \<Rightarrow> ('c, ('c, 'm, 'w) scripting) scr_agent option" where
  "local_scr G = Some (scripting_agent G)"

definition forwarded_scr ::
  "('c, 'm, 'w) scr_system \<Rightarrow> ('n \<Rightarrow> ('c, 'm, 'w) scripting outcome) \<Rightarrow> ('c \<Rightarrow> ('c, 'm, 'w) scripting \<Rightarrow> ('c ycp \<times> ('c, 'm, 'w) scripting) outcome)
   \<Rightarrow> ('c, ('c, 'm, 'w) scripting) scr_agent option" where
  "forwarded_scr G new run = Some (stdio_agent (remote_scr G new run))"


text \<open>The other builtins are not forwarded, and the third argument of a read gets lost on the way.\<close>

lemma unregister_all_not_forwarded:
  "SCRUnregisterAllAgents (Some (stdio_agent h)) st = Ret (YBoolean False, st)"
  "SCRRegisterNewAgents (Some (stdio_agent h)) st = Ret (YBoolean False, st)"
  "SCRUnmountAgent (Some (stdio_agent h)) p st = Ret (YBoolean False, st)"
  by (simp_all add: SCRUnregisterAllAgents_def SCRRegisterNewAgents_def SCRUnmountAgent_def with_instance_def stdio_agent_def base_agent_def)

lemma read_option_lost:
  "arg \<noteq> YNull \<Longrightarrow> agent_evaluate A new it run (command_term ''Read'' p arg opt) (Inr s) = v_Read A p arg YNull s"
  by (simp add: command_term_def agent_term_def path_argument_def list_value_def)

end
