(* ===== verification/Ini_File.thy ===== *)
theory Ini_File
  imports Builtin_String
begin

text \<open>
  The data of the agent for ini files (\<^verbatim>\<open>agent-ini/src/IniFile.h\<close>, \<^verbatim>\<open>IniFile.cc\<close>): sections with their values and
  subsections, and the operations behind \<^verbatim>\<open>Read\<close>, \<^verbatim>\<open>Write\<close>, \<^verbatim>\<open>Dir\<close> and delete.

  A section holds its values and subsections in one list, in the order of the file, and two multimaps from names to list
  iterators.  An element of the list has a number, which stands for the iterator; a multimap is the list of its pairs in the
  order they were inserted, since the order of different keys is not observable.  An iterator that is not in the list is
  \<^const>\<open>Undef\<close>.  Paths are lists of the strings of their components.
\<close>

section \<open>Options of the parser\<close>

record ini_options =
  line_can_continue :: bool
  ignore_case_regexps :: bool
  ignore_case :: bool
  prefer_uppercase :: bool
  first_upper :: bool
  no_nested_sections :: bool
  global_values :: bool
  repeat_names :: bool
  comments_last :: bool
  join_multiline :: bool
  no_finalcomment_kill :: bool
  read_only :: bool
  flat :: bool
  shell_quoted_value :: bool
  rewrite_outs :: "string list"

definition changeCase :: "('o ini_options_scheme) \<Rightarrow> string \<Rightarrow> string" where
  "changeCase ip str =
     (if \<not> ignore_case ip then str
      else if prefer_uppercase ip then map char_upper str
      else let tmp = map char_lower str in
        if first_upper ip then (case tmp of [] \<Rightarrow> [] | c # cs \<Rightarrow> char_upper c # cs) else tmp)"

text \<open>\<^verbatim>\<open>printf\<close> with string arguments; \<^const>\<open>None\<close> for a missing argument and for other conversions.\<close>

fun c_printf :: "string \<Rightarrow> string list \<Rightarrow> string option" where
  "c_printf [] as = Some []"
| "c_printf [c] as = (if c = CHR ''%'' then None else Some [c])"
| "c_printf (c # d # s) as =
     (if c \<noteq> CHR ''%'' then map_option (Cons c) (c_printf (d # s) as)
      else if d = CHR ''%'' then map_option (Cons d) (c_printf s as)
      else if d = CHR ''s'' then (case as of [] \<Rightarrow> None | a # as' \<Rightarrow> map_option (\<lambda>r. c_str a @ r) (c_printf s as'))
      else None)"

definition getFileName :: "('o ini_options_scheme) \<Rightarrow> string \<Rightarrow> int \<Rightarrow> string option" where
  "getFileName ip sec rb =
     (if rb \<noteq> - 1 \<and> rb < int (length (rewrite_outs ip))
      then if rb < 0 then None else c_printf (c_str (rewrite_outs ip ! nat rb)) [sec]
      else Some sec)"

section \<open>Sections\<close>

record ini_base =
  i_name :: string
  i_comment :: string
  i_read_by :: int
  i_dirty :: bool

record ini_entry = ini_base +
  e_val :: string

type_synonym ini_index = "(string \<times> nat) list"

datatype ini_section =
    IniSection (s_base: ini_base) (s_end_comment: string) (s_private: bool) (s_rewrite_by: int)
      (s_container: "(nat \<times> ini_element) list") (s_ivalues: ini_index) (s_isections: ini_index)
and ini_element = VALUE ini_entry | SECTION ini_section

definition base_read :: "int \<Rightarrow> ini_base" where
  "base_read rb = \<lparr>i_name = [], i_comment = [], i_read_by = rb, i_dirty = False\<rparr>"

definition base_named :: "string \<Rightarrow> ini_base" where
  "base_named n = \<lparr>i_name = n, i_comment = [], i_read_by = 0, i_dirty = True\<rparr>"

definition new_entry :: ini_entry where
  "new_entry = ini_base.extend (base_read 0) \<lparr>e_val = []\<rparr>"

text \<open>The constructor for sections that are read, and the one for sections that are added.\<close>

definition new_section :: ini_section where
  "new_section = IniSection (base_read (- 1)) [] False (- 1) [] [] []"

definition added_section :: "string \<Rightarrow> ini_section" where
  "added_section n = IniSection (base_named n) [] False 0 [] [] []"

definition init_base :: "string \<Rightarrow> string \<Rightarrow> int \<Rightarrow> 'a ini_base_scheme \<Rightarrow> 'a ini_base_scheme" where
  "init_base n c rb b = (if i_dirty b then b else b\<lparr>i_name := n, i_comment := c, i_read_by := rb\<rparr>)"

definition init_entry :: "string \<Rightarrow> string \<Rightarrow> int \<Rightarrow> string \<Rightarrow> ini_entry \<Rightarrow> ini_entry" where
  "init_entry n c rb v e = (if i_dirty e then e else init_base n c rb (e\<lparr>e_val := v\<rparr>))"

fun set_base :: "(ini_base \<Rightarrow> ini_base) \<Rightarrow> ini_section \<Rightarrow> ini_section" where
  "set_base f (IniSection b ec p rw cs vs ss) = IniSection (f b) ec p rw cs vs ss"

fun set_rest :: "(string \<Rightarrow> string) \<Rightarrow> (bool \<Rightarrow> bool) \<Rightarrow> (int \<Rightarrow> int) \<Rightarrow> ini_section \<Rightarrow> ini_section" where
  "set_rest fe fp fr (IniSection b ec p rw cs vs ss) = IniSection b (fe ec) (fp p) (fr rw) cs vs ss"

fun set_lists ::
  "((nat \<times> ini_element) list \<Rightarrow> (nat \<times> ini_element) list) \<Rightarrow> (ini_index \<Rightarrow> ini_index) \<Rightarrow> (ini_index \<Rightarrow> ini_index)
   \<Rightarrow> ini_section \<Rightarrow> ini_section" where
  "set_lists fc fv fs (IniSection b ec p rw cs vs ss) = IniSection b ec p rw (fc cs) (fv vs) (fs ss)"

definition touch :: "ini_section \<Rightarrow> ini_section" where
  "touch = set_base (\<lambda>b. b\<lparr>i_dirty := True\<rparr>)"

subsection \<open>Container and indices\<close>

definition mm_range :: "string \<Rightarrow> ini_index \<Rightarrow> nat list" where
  "mm_range k m = map snd (filter (\<lambda>p. fst p = k) m)"

definition mm_insert :: "string \<Rightarrow> nat \<Rightarrow> ini_index \<Rightarrow> ini_index" where
  "mm_insert k i m = m @ [(k, i)]"

definition mm_erase :: "nat \<Rightarrow> ini_index \<Rightarrow> ini_index" where
  "mm_erase i m = filter (\<lambda>p. snd p \<noteq> i) m"

definition fresh_id :: "(nat \<times> 'a) list \<Rightarrow> nat" where
  "fresh_id cs = Suc (foldr max (map fst cs) 0)"

definition erase_id :: "nat \<Rightarrow> (nat \<times> 'a) list \<Rightarrow> (nat \<times> 'a) list" where
  "erase_id i cs = filter (\<lambda>p. fst p \<noteq> i) cs"

definition replace_id :: "nat \<Rightarrow> 'a \<Rightarrow> (nat \<times> 'a) list \<Rightarrow> (nat \<times> 'a) list" where
  "replace_id i x cs = map (\<lambda>p. if fst p = i then (i, x) else p) cs"

definition ent_of :: "ini_section \<Rightarrow> nat \<Rightarrow> ini_entry option" where
  "ent_of s i = (case map_of (s_container s) i of Some (VALUE e) \<Rightarrow> Some e | _ \<Rightarrow> None)"

definition section_of :: "ini_section \<Rightarrow> nat \<Rightarrow> ini_section option" where
  "section_of s i = (case map_of (s_container s) i of Some (SECTION t) \<Rightarrow> Some t | _ \<Rightarrow> None)"

definition replace_element :: "nat \<Rightarrow> ini_element \<Rightarrow> ini_section \<Rightarrow> ini_section" where
  "replace_element i x = set_lists (replace_id i x) id id"

definition push_value :: "string \<Rightarrow> ini_entry \<Rightarrow> ini_section \<Rightarrow> ini_section" where
  "push_value k e s = (let i = fresh_id (s_container s) in set_lists (\<lambda>cs. cs @ [(i, VALUE e)]) (mm_insert k i) id s)"

definition push_section :: "string \<Rightarrow> ini_section \<Rightarrow> ini_section \<Rightarrow> ini_section" where
  "push_section k t s = (let i = fresh_id (s_container s) in set_lists (\<lambda>cs. cs @ [(i, SECTION t)]) id (mm_insert k i) s)"

definition drop_value :: "nat \<Rightarrow> ini_section \<Rightarrow> ini_section" where
  "drop_value i = set_lists (erase_id i) (mm_erase i) id"

definition drop_section :: "nat \<Rightarrow> ini_section \<Rightarrow> ini_section" where
  "drop_section i = set_lists (erase_id i) id (mm_erase i)"

text \<open>The indices of a container, as \<^verbatim>\<open>reindex\<close> builds them.\<close>

fun value_key :: "('o ini_options_scheme) \<Rightarrow> nat \<times> ini_element \<Rightarrow> ini_index" where
  "value_key ip (i, VALUE e) = [(changeCase ip (c_str (i_name e)), i)]"
| "value_key ip (i, SECTION t) = []"

fun section_key :: "('o ini_options_scheme) \<Rightarrow> nat \<times> ini_element \<Rightarrow> ini_index" where
  "section_key ip (i, VALUE e) = []"
| "section_key ip (i, SECTION t) = [(changeCase ip (c_str (i_name (s_base t))), i)]"

definition reindex :: "('o ini_options_scheme) \<Rightarrow> ini_section \<Rightarrow> ini_section" where
  "reindex ip s =
     set_lists id (\<lambda>_. concat (map (value_key ip) (s_container s))) (\<lambda>_. concat (map (section_key ip) (s_container s))) s"

text \<open>Copies of sections, with the indices of all their subsections built again.\<close>

fun copy_section :: "('o ini_options_scheme) \<Rightarrow> ini_section \<Rightarrow> ini_section"
and copy_element :: "('o ini_options_scheme) \<Rightarrow> ini_element \<Rightarrow> ini_element" where
  "copy_section ip (IniSection b ec p rw cs vs ss) =
     reindex ip (IniSection b ec p rw (map (\<lambda>x. (fst x, copy_element ip (snd x))) cs) vs ss)"
| "copy_element ip (VALUE e) = VALUE e"
| "copy_element ip (SECTION t) = SECTION (copy_section ip t)"

subsection \<open>Reading a file\<close>

definition initValue :: "('o ini_options_scheme) \<Rightarrow> string \<Rightarrow> string \<Rightarrow> string \<Rightarrow> int \<Rightarrow> ini_section \<Rightarrow> ini_section outcome" where
  "initValue ip key val comment rb s =
     (let k = changeCase ip key in
      case (if repeat_names ip then [] else mm_range k (s_ivalues s)) of
        [] \<Rightarrow> Ret (push_value k (init_entry k comment rb val new_entry) s)
      | i # _ \<Rightarrow> (case ent_of s i of
            None \<Rightarrow> Undef
          | Some e \<Rightarrow> Ret (push_value k (init_entry k comment rb val e) (drop_value i s))))"

text \<open>\<^verbatim>\<open>wb = None\<close> is the default argument \<^verbatim>\<open>-2\<close>, which leaves \<^verbatim>\<open>rewrite_by\<close> alone.\<close>

definition init_section_base :: "string \<Rightarrow> string \<Rightarrow> int \<Rightarrow> int option \<Rightarrow> ini_section \<Rightarrow> ini_section" where
  "init_section_base k comment rb wb s =
     set_rest id id (\<lambda>r. case wb of None \<Rightarrow> r | Some w \<Rightarrow> w)
       (set_base (\<lambda>b. b\<lparr>i_name := k, i_comment := comment, i_read_by := rb\<rparr>) s)"

definition initSection ::
  "('o ini_options_scheme) \<Rightarrow> string \<Rightarrow> string \<Rightarrow> int \<Rightarrow> int option \<Rightarrow> ini_section \<Rightarrow> ini_section outcome" where
  "initSection ip name comment rb wb s =
     (let k = changeCase ip name in
      case (if repeat_names ip then [] else mm_range k (s_isections s)) of
        [] \<Rightarrow> Ret (push_section k (init_section_base k comment rb wb new_section) s)
      | i # _ \<Rightarrow> (case section_of s i of
            None \<Rightarrow> Undef
          | Some t \<Rightarrow>
              let u = copy_section ip t in
              Ret (push_section k (if i_dirty (s_base u) then u else init_section_base k comment rb wb u) (drop_section i s))))"

definition setEndComment :: "string \<Rightarrow> ini_section \<Rightarrow> ini_section" where
  "setEndComment c s =
     (if i_comment (s_base s) = [] \<and> s_container s = [] then set_base (\<lambda>b. b\<lparr>i_comment := c\<rparr>) s
      else set_rest (\<lambda>_. c) id id s)"

subsection \<open>Looking up values\<close>

text \<open>
  \<^verbatim>\<open>-1\<close> is \<^const>\<open>None\<close>.  \<open>what\<close> is 0 for the value, 1 for the comment, anything else for the number of the rule the
  item was read by.
\<close>

definition entry_prop :: "nat \<Rightarrow> ini_entry \<Rightarrow> 'c ycp" where
  "entry_prop what e =
     (if what = 0 then YString (c_str (e_val e)) else if what = 1 then YString (c_str (i_comment e))
      else YInteger (word_of_int (i_read_by e)))"

definition section_prop :: "nat \<Rightarrow> ini_section \<Rightarrow> 'c ycp" where
  "section_prop what s =
     (if what = 0 then YString (i_comment (s_base s)) else if what = 1 then YInteger (word_of_int (s_rewrite_by s))
      else YInteger (word_of_int (i_read_by (s_base s))))"

text \<open>All items a range of the index refers to.\<close>

fun collect :: "(nat \<Rightarrow> 'a option) \<Rightarrow> nat list \<Rightarrow> 'a list outcome" where
  "collect f [] = Ret []"
| "collect f (i # is) = (case f i of None \<Rightarrow> Undef | Some x \<Rightarrow> obind (collect f is) (\<lambda>xs. Ret (x # xs)))"

text \<open>A list with \<^verbatim>\<open>repeat_names\<close>, otherwise the last item.\<close>

definition gathered :: "('o ini_options_scheme) \<Rightarrow> 'c ycp list \<Rightarrow> 'c ycp option" where
  "gathered ip results = (if repeat_names ip then Some (YList results) else if results = [] then None else Some (last results))"

definition getMyValue :: "('o ini_options_scheme) \<Rightarrow> string \<Rightarrow> nat \<Rightarrow> ini_section \<Rightarrow> 'c ycp option outcome" where
  "getMyValue ip name what s =
     obind (collect (ent_of s) (mm_range (changeCase ip name) (s_ivalues s))) (\<lambda>es.
       Ret (gathered ip (map (entry_prop what) es)))"

text \<open>\<^verbatim>\<open>multimap::find\<close> gives the first element of a range.\<close>

fun getValue :: "('o ini_options_scheme) \<Rightarrow> string list \<Rightarrow> nat \<Rightarrow> ini_section \<Rightarrow> 'c ycp option outcome" where
  "getValue ip [] what s = Undef"
| "getValue ip [k] what s = getMyValue ip k what s"
| "getValue ip (k # ks) what s =
     (case mm_range (changeCase ip k) (s_isections s) of
        [] \<Rightarrow> Ret None
      | i # _ \<Rightarrow> (case section_of s i of None \<Rightarrow> Undef | Some t \<Rightarrow> getValue ip ks what t))"

fun getSectionProp :: "('o ini_options_scheme) \<Rightarrow> string list \<Rightarrow> nat \<Rightarrow> ini_section \<Rightarrow> 'c ycp option outcome" where
  "getSectionProp ip [] what s = Undef"
| "getSectionProp ip [k] what s =
     obind (collect (section_of s) (mm_range (changeCase ip k) (s_isections s))) (\<lambda>ts.
       Ret (gathered ip (map (section_prop what) ts)))"
| "getSectionProp ip (k # ks) what s =
     (case mm_range (changeCase ip k) (s_isections s) of
        [] \<Rightarrow> Ret None
      | is \<Rightarrow> (case section_of s (last is) of None \<Rightarrow> Undef | Some t \<Rightarrow> getSectionProp ip ks what t))"

text \<open>The map of all properties, for \<^verbatim>\<open>Read (.all)\<close>.\<close>

definition base_all :: "'a ini_base_scheme \<Rightarrow> 'c ymap" where
  "base_all b =
     ymap_add (ymap_add (ymap_add [] (YString ''name'') (YString (i_name b)))
       (YString ''type'') (YInteger (word_of_int (i_read_by b)))) (YString ''comment'') (YString (i_comment b))"

definition entry_all :: "ini_entry \<Rightarrow> 'c ymap" where
  "entry_all e =
     ymap_add (ymap_add (base_all e) (YString ''kind'') (YString ''value'')) (YString ''value'') (YString (e_val e))"

fun getAllDoIt :: "ini_section \<Rightarrow> 'c ymap"
and element_all :: "ini_element \<Rightarrow> 'c ycp" where
  "getAllDoIt (IniSection b ec p rw cs vs ss) =
     ymap_add (ymap_add (ymap_add (base_all b) (YString ''kind'') (YString ''section''))
       (YString ''file'') (YInteger (word_of_int rw))) (YString ''value'') (YList (map (\<lambda>x. element_all (snd x)) cs))"
| "element_all (VALUE e) = YMap (entry_all e)"
| "element_all (SECTION t) = YMap (getAllDoIt t)"

fun getAll :: "('o ini_options_scheme) \<Rightarrow> string list \<Rightarrow> ini_section \<Rightarrow> 'c ycp option outcome" where
  "getAll ip [] s = Ret (Some (YMap (getAllDoIt s)))"
| "getAll ip (k # ks) s =
     (case mm_range (changeCase ip k) (s_isections s) of
        [] \<Rightarrow> Ret None
      | i # _ \<Rightarrow> (case section_of s i of None \<Rightarrow> Undef | Some t \<Rightarrow> getAll ip ks t))"

text \<open>The names of the values or of the subsections.\<close>

fun dir_name :: "bool \<Rightarrow> nat \<times> ini_element \<Rightarrow> 'c ycp list" where
  "dir_name get_sect (i, VALUE e) = (if get_sect then [] else [YString (c_str (i_name e))])"
| "dir_name get_sect (i, SECTION t) = (if get_sect then [YString (c_str (i_name (s_base t)))] else [])"

definition myDir :: "bool \<Rightarrow> ini_section \<Rightarrow> 'c ycp list" where
  "myDir get_sect s = concat (map (dir_name get_sect) (s_container s))"

fun dirHelper :: "('o ini_options_scheme) \<Rightarrow> string list \<Rightarrow> bool \<Rightarrow> ini_section \<Rightarrow> 'c ycp list option outcome" where
  "dirHelper ip [] get_sect s = Ret (Some (myDir get_sect s))"
| "dirHelper ip (k # ks) get_sect s =
     (case mm_range (changeCase ip k) (s_isections s) of
        [] \<Rightarrow> Ret None
      | is \<Rightarrow> (case section_of s (last is) of None \<Rightarrow> Undef | Some t \<Rightarrow> dirHelper ip ks get_sect t))"

definition getValueFlat :: "('o ini_options_scheme) \<Rightarrow> string list \<Rightarrow> ini_section \<Rightarrow> 'c ycp option outcome" where
  "getValueFlat ip p s =
     (case p of [] \<Rightarrow> Ret None
      | k # ks \<Rightarrow> getMyValue ip k (case ks of c # _ \<Rightarrow> if c = ''comment'' then 1 else 0 | [] \<Rightarrow> 0) s)"

definition ini_Read :: "('o ini_options_scheme) \<Rightarrow> string list \<Rightarrow> bool \<Rightarrow> ini_section \<Rightarrow> 'c ycp option outcome" where
  "ini_Read ip p rewrite s =
     (if flat ip then getValueFlat ip p s
      else case p of
        [] \<Rightarrow> Ret None
      | c # ks \<Rightarrow>
          if c = ''all'' then getAll ip ks s
          else if ks = [] then Ret None
          else if c \<in> {''v'', ''value''} then getValue ip ks 0 s
          else if c \<in> {''vc'', ''value_comment'', ''valuecomment''} then getValue ip ks 1 s
          else if c \<in> {''vt'', ''value_type'', ''valuetype''} then getValue ip ks 2 s
          else if c \<in> {''sc'', ''section_comment'', ''sectioncomment''} then getSectionProp ip ks 0 s
          else if c \<in> {''st'', ''section_type'', ''sectiontype''} then getSectionProp ip ks (if rewrite then 1 else 2) s
          else Ret None)"

definition ini_Dir :: "('o ini_options_scheme) \<Rightarrow> string list \<Rightarrow> ini_section \<Rightarrow> 'c ycp list option outcome" where
  "ini_Dir ip p s =
     (if flat ip then Ret (Some (if p \<noteq> [] then [] else myDir False s))
      else case p of
        [] \<Rightarrow> Ret (Some [YString ''section'', YString ''value''])
      | c # ks \<Rightarrow>
          if c \<in> {''v'', ''value''} then dirHelper ip ks False s
          else if c \<in> {''s'', ''section''} then dirHelper ip ks True s
          else Ret None)"

subsection \<open>Changing values\<close>

text \<open>
  The result is the section and whether the code returned 0; a failure leaves what was changed so far.
\<close>

type_synonym ini_res = "(ini_section \<times> bool) outcome"

definition to_string :: "'c printers \<Rightarrow> 'c ycp \<Rightarrow> string" where
  "to_string P v = (case v of YString s \<Rightarrow> s | _ \<Rightarrow> toString P v)"

definition set_entry_prop :: "'c printers \<Rightarrow> nat \<Rightarrow> 'c ycp \<Rightarrow> ini_entry \<Rightarrow> ini_entry option" where
  "set_entry_prop P what v e =
     (if what = 0 then Some (e\<lparr>e_val := to_string P v, i_dirty := True\<rparr>)
      else if what = 1 then (case v of YString c \<Rightarrow> Some (e\<lparr>i_comment := c, i_dirty := True\<rparr>) | _ \<Rightarrow> None)
      else case v of YInteger i \<Rightarrow> Some (e\<lparr>i_read_by := to_int32 i, i_dirty := True\<rparr>) | _ \<Rightarrow> None)"

definition delValue1 :: "nat \<Rightarrow> ini_section \<Rightarrow> ini_section" where
  "delValue1 i s = drop_value i (touch s)"

definition delSection1 :: "nat \<Rightarrow> ini_section \<Rightarrow> ini_section" where
  "delSection1 i s = drop_section i (touch s)"

text \<open>The values of one name and the given ones side by side: missing ones are added, superfluous ones deleted.\<close>

fun set_values :: "'c printers \<Rightarrow> string \<Rightarrow> nat \<Rightarrow> nat list \<Rightarrow> 'c ycp list \<Rightarrow> ini_section \<Rightarrow> ini_res" where
  "set_values P k what [] [] s = Ret (touch s, True)"
| "set_values P k what (i # is) [] s = set_values P k what is [] (delValue1 i s)"
| "set_values P k what [] (v # vs) s =
     (if what \<noteq> 0 then Ret (s, False)
      else let e = new_entry\<lparr>i_name := k, i_dirty := True\<rparr> in
        case set_entry_prop P what v e of
          None \<Rightarrow> Ret (push_value k e s, False)
        | Some e' \<Rightarrow> set_values P k what [] vs (push_value k e' s))"
| "set_values P k what (i # is) (v # vs) s =
     (case ent_of s i of
        None \<Rightarrow> Undef
      | Some e \<Rightarrow> (case set_entry_prop P what v e of
            None \<Rightarrow> Ret (s, False)
          | Some e' \<Rightarrow> set_values P k what is vs (replace_element i (VALUE e') s)))"

definition prop_list :: "('o ini_options_scheme) \<Rightarrow> 'c ycp \<Rightarrow> 'c ycp list option" where
  "prop_list ip v = (if repeat_names ip then (case v of YList l \<Rightarrow> Some l | _ \<Rightarrow> None) else Some [v])"

definition setMyValue :: "('o ini_options_scheme) \<Rightarrow> 'c printers \<Rightarrow> string \<Rightarrow> 'c ycp \<Rightarrow> nat \<Rightarrow> ini_section \<Rightarrow> ini_res" where
  "setMyValue ip P name v what s =
     (let k = changeCase ip name in
      case prop_list ip v of
        None \<Rightarrow> Ret (s, False)
      | Some props \<Rightarrow> set_values P k what (mm_range k (s_ivalues s)) props s)"

text \<open>Within the last section of a name, which is added if there is none.\<close>

definition within_added :: "string \<Rightarrow> (ini_section \<Rightarrow> ini_res) \<Rightarrow> ini_section \<Rightarrow> ini_res" where
  "within_added k f s =
     (let s1 = (if mm_range k (s_isections s) = [] then push_section k (added_section k) s else s);
          i = last (mm_range k (s_isections s1)) in
      case section_of s1 i of
        None \<Rightarrow> Undef
      | Some t \<Rightarrow> obind (f t) (\<lambda>(t', ok). Ret (replace_element i (SECTION t') s1, ok)))"

fun ini_setValue :: "('o ini_options_scheme) \<Rightarrow> 'c printers \<Rightarrow> string list \<Rightarrow> 'c ycp \<Rightarrow> nat \<Rightarrow> ini_section \<Rightarrow> ini_res" where
  "ini_setValue ip P [] v what s = Undef"
| "ini_setValue ip P [k] v what s = setMyValue ip P k v what s"
| "ini_setValue ip P (k # ks) v what s = within_added (changeCase ip k) (ini_setValue ip P ks v what) s"

text \<open>Properties of sections: comment, rewrite rule, reading rule, privacy.\<close>

definition set_section_prop :: "nat \<Rightarrow> 'c ycp \<Rightarrow> ini_section \<Rightarrow> ini_section option" where
  "set_section_prop what v t =
     (if what = 0 then (case v of YString c \<Rightarrow> Some (set_base (\<lambda>b. b\<lparr>i_comment := c_str c, i_dirty := True\<rparr>) t) | _ \<Rightarrow> None)
      else if what = 1 then (case v of YInteger i \<Rightarrow> Some (touch (set_rest id id (\<lambda>_. to_int32 i) t)) | _ \<Rightarrow> None)
      else if what = 2 then (case v of YInteger i \<Rightarrow> Some (set_base (\<lambda>b. b\<lparr>i_read_by := to_int32 i, i_dirty := True\<rparr>) t) | _ \<Rightarrow> None)
      else if what = 3 then (case v of YBoolean b \<Rightarrow> Some (set_rest id (\<lambda>_. b) id t) | _ \<Rightarrow> None)
      else Some t)"

fun set_sections :: "string \<Rightarrow> nat \<Rightarrow> nat list \<Rightarrow> 'c ycp list \<Rightarrow> ini_section \<Rightarrow> ini_res" where
  "set_sections k what [] [] s = Ret (s, True)"
| "set_sections k what (i # is) [] s = set_sections k what is [] (delSection1 i s)"
| "set_sections k what [] (v # vs) s =
     (case set_section_prop what v (touch (added_section k)) of
        None \<Rightarrow> Ret (push_section k (touch (added_section k)) s, False)
      | Some t' \<Rightarrow> set_sections k what [] vs (push_section k t' s))"
| "set_sections k what (i # is) (v # vs) s =
     (case section_of s i of
        None \<Rightarrow> Undef
      | Some t \<Rightarrow> (case set_section_prop what v t of
            None \<Rightarrow> Ret (s, False)
          | Some t' \<Rightarrow> set_sections k what is vs (replace_element i (SECTION t') s)))"

fun setSectionProp :: "('o ini_options_scheme) \<Rightarrow> string list \<Rightarrow> 'c ycp \<Rightarrow> nat \<Rightarrow> ini_section \<Rightarrow> ini_res" where
  "setSectionProp ip [] v what s = Undef"
| "setSectionProp ip [k] v what s =
     (case prop_list ip v of
        None \<Rightarrow> Ret (s, False)
      | Some props \<Rightarrow> set_sections (changeCase ip k) what (mm_range (changeCase ip k) (s_isections s)) props s)"
| "setSectionProp ip (k # ks) v what s = within_added (changeCase ip k) (setSectionProp ip ks v what) s"

subsection \<open>Deleting\<close>

definition delMyValue :: "string \<Rightarrow> ini_section \<Rightarrow> ini_section" where
  "delMyValue k s = foldl (\<lambda>s i. delValue1 i s) s (mm_range k (s_ivalues s))"

definition within_last :: "string \<Rightarrow> (ini_section \<Rightarrow> ini_res) \<Rightarrow> ini_section \<Rightarrow> ini_res" where
  "within_last k f s =
     (case mm_range k (s_isections s) of
        [] \<Rightarrow> Ret (s, False)
      | is \<Rightarrow> (case section_of s (last is) of
            None \<Rightarrow> Undef
          | Some t \<Rightarrow> obind (f t) (\<lambda>(t', ok). Ret (replace_element (last is) (SECTION t') s, ok))))"

fun delValue :: "('o ini_options_scheme) \<Rightarrow> string list \<Rightarrow> ini_section \<Rightarrow> ini_res" where
  "delValue ip [] s = Undef"
| "delValue ip [k] s = Ret (delMyValue (changeCase ip k) s, True)"
| "delValue ip (k # ks) s = within_last (changeCase ip k) (delValue ip ks) s"

fun delSection :: "('o ini_options_scheme) \<Rightarrow> string list \<Rightarrow> ini_section \<Rightarrow> ini_res" where
  "delSection ip [] s = Undef"
| "delSection ip [k] s =
     Ret (foldl (\<lambda>s i. delSection1 i s) s (mm_range (changeCase ip k) (s_isections s)), True)"
| "delSection ip (k # ks) s = within_last (changeCase ip k) (delSection ip ks) s"

definition ini_Delete :: "('o ini_options_scheme) \<Rightarrow> string list \<Rightarrow> ini_section \<Rightarrow> ini_res" where
  "ini_Delete ip p s =
     (if flat ip then (case p of [] \<Rightarrow> Ret (s, False) | k # _ \<Rightarrow> Ret (delMyValue (changeCase ip k) s, True))
      else case p of
        [] \<Rightarrow> Ret (s, False)
      | c # ks \<Rightarrow>
          if ks = [] then Ret (s, False)
          else if c \<in> {''v'', ''value''} then delValue ip ks s
          else if c \<in> {''s'', ''section''} then delSection ip ks s
          else Ret (s, False))"

subsection \<open>Writing all properties\<close>

definition getMapString :: "'c ymap \<Rightarrow> string \<Rightarrow> string option" where
  "getMapString m k = (case ymap_value m (YString k) of YString s \<Rightarrow> Some s | _ \<Rightarrow> None)"

definition getMapInteger :: "'c ymap \<Rightarrow> string \<Rightarrow> int option" where
  "getMapInteger m k = (case ymap_value m (YString k) of YInteger i \<Rightarrow> Some (to_int32 i) | _ \<Rightarrow> None)"

definition base_setAll :: "'c ymap \<Rightarrow> 'a ini_base_scheme \<Rightarrow> 'a ini_base_scheme \<times> bool" where
  "base_setAll m b =
     (let b = b\<lparr>i_dirty := True\<rparr> in
      case getMapString m ''name'' of
        None \<Rightarrow> (b, False)
      | Some n \<Rightarrow> (let b = b\<lparr>i_name := n\<rparr> in
          case getMapInteger m ''type'' of
            None \<Rightarrow> (b, False)
          | Some rb \<Rightarrow> (let b = b\<lparr>i_read_by := rb\<rparr> in
              case getMapString m ''comment'' of
                None \<Rightarrow> (b, False)
              | Some c \<Rightarrow> (b\<lparr>i_comment := c\<rparr>, True))))"

definition entry_setAll :: "'c ymap \<Rightarrow> ini_entry \<Rightarrow> ini_entry \<times> bool" where
  "entry_setAll m e =
     (case base_setAll m e of
        (e, False) \<Rightarrow> (e, False)
      | (e, True) \<Rightarrow>
          if getMapString m ''kind'' \<noteq> Some ''value'' then (e, False)
          else case getMapString m ''value'' of None \<Rightarrow> (e, False) | Some v \<Rightarrow> (e\<lparr>e_val := v\<rparr>, True))"

definition put_base :: "ini_base \<Rightarrow> ini_section \<Rightarrow> ini_section" where
  "put_base b = set_base (\<lambda>_. b)"

definition push_element :: "ini_element \<Rightarrow> ini_section \<Rightarrow> ini_section" where
  "push_element x s = set_lists (\<lambda>cs. cs @ [(fresh_id cs, x)]) id id s"

lemma smap_find_in: "smap_find ls k m = Some v \<Longrightarrow> \<exists>k'. (k', v) \<in> set m"
  by (induction ls k m rule: smap_find.induct) (auto split: if_splits)

lemma size_ymap_value: "ymap_value m k = YList l \<Longrightarrow> size_list size l < Suc (size_list (size_prod size size) m)"
proof -
  assume "ymap_value m k = YList l"
  then obtain k' where k': "(k', YList l) \<in> set m"
    by (auto simp: ymap_value_def split: option.splits dest: smap_find_in)
  have "size_list size l < size (YList l)" by simp
  also have "\<dots> \<le> size_list (size_prod size size) m"
    using size_list_estimation' [OF k', of "size (YList l)" "size_prod size size"] by simp
  finally show ?thesis by simp
qed

text \<open>
  A section and its items from a map.  The parser collects the names of files whose sections are deleted; the result of
  setting a value is not looked at.
\<close>

type_synonym all_res = "(ini_section \<times> string list \<times> bool) outcome"

function setAllDoIt :: "('o ini_options_scheme) \<Rightarrow> 'c ycp \<Rightarrow> ini_section \<Rightarrow> string list \<Rightarrow> all_res"
and set_items :: "('o ini_options_scheme) \<Rightarrow> 'c ycp list \<Rightarrow> ini_section \<Rightarrow> string list \<Rightarrow> all_res" where
  "setAllDoIt ip m s D =
     (case m of
        YMap m \<Rightarrow>
          (case base_setAll m (s_base s) of
             (b, False) \<Rightarrow> Ret (put_base b s, D, False)
           | (b, True) \<Rightarrow>
               let s = put_base b s in
               if getMapString m ''kind'' \<noteq> Some ''section'' then Ret (s, D, False)
               else case getMapInteger m ''file'' of
                 None \<Rightarrow> Ret (s, D, False)
               | Some rw \<Rightarrow>
                   let s = set_rest id id (\<lambda>_. rw) s in
                   case ymap_value m (YString ''value'') of
                     YList l \<Rightarrow> obind (set_items ip l (set_lists (\<lambda>_. []) id id s) D) (\<lambda>(s', D', ok). Ret (reindex ip s', D', ok))
                   | _ \<Rightarrow> Ret (s, D, False))
      | _ \<Rightarrow> Undef)"
| "set_items ip [] s D = Ret (s, D, True)"
| "set_items ip (item # l) s D =
     (case item of
        YMap m \<Rightarrow>
          (case getMapString m ''kind'' of
             None \<Rightarrow> Ret (s, D, False)
           | Some kind \<Rightarrow>
               if kind = ''section'' then
                 (if isNull (ymap_value m (YString ''value'')) then Undef
                  else if isVoid (ymap_value m (YString ''value'')) then
                    (case (getMapString m ''name'', getMapInteger m ''file'') of
                       (Some n, Some rb) \<Rightarrow>
                         (case getFileName ip n rb of None \<Rightarrow> Undef | Some f \<Rightarrow> set_items ip l s (List.insert f D))
                     | _ \<Rightarrow> Ret (s, D, False))
                  else obind (setAllDoIt ip item new_section D) (\<lambda>(t, D', ok).
                    if ok then set_items ip l (push_element (SECTION (copy_section ip t)) s) D' else Ret (s, D', False)))
               else if kind = ''value'' then set_items ip l (push_element (VALUE (fst (entry_setAll m new_entry))) s) D
               else Ret (s, D, False))
      | _ \<Rightarrow> Ret (s, D, False))"
  by pat_completeness auto
termination
  by (relation "measure (\<lambda>x. case x of Inl (ip, m, s, D) \<Rightarrow> size m | Inr (ip, l, s, D) \<Rightarrow> size_list size l)")
    (auto simp: size_ymap_value)

declare setAllDoIt.simps [simp del] set_items.simps [simp del]

fun setAll :: "('o ini_options_scheme) \<Rightarrow> string list \<Rightarrow> 'c ycp \<Rightarrow> ini_section \<Rightarrow> string list \<Rightarrow> all_res" where
  "setAll ip [] v s D = setAllDoIt ip v s D"
| "setAll ip (k # ks) v s D =
     (case mm_range (changeCase ip k) (s_isections s) of
        [] \<Rightarrow> Ret (s, D, False)
      | i # _ \<Rightarrow> (case section_of s i of
            None \<Rightarrow> Undef
          | Some t \<Rightarrow> obind (setAll ip ks v t D) (\<lambda>(t', D', ok). Ret (replace_element i (SECTION t') s, D', ok))))"

definition keep_deleted :: "string list \<Rightarrow> ini_res \<Rightarrow> all_res" where
  "keep_deleted D r = obind r (\<lambda>(s, ok). Ret (s, D, ok))"

definition setValueFlat :: "('o ini_options_scheme) \<Rightarrow> 'c printers \<Rightarrow> string list \<Rightarrow> 'c ycp \<Rightarrow> ini_section \<Rightarrow> ini_res" where
  "setValueFlat ip P p v s =
     (case p of [] \<Rightarrow> Ret (s, False)
      | k # ks \<Rightarrow> setMyValue ip P k v (case ks of c # _ \<Rightarrow> if c = ''comment'' then 1 else 0 | [] \<Rightarrow> 0) s)"

definition write_item :: "('o ini_options_scheme) \<Rightarrow> 'c printers \<Rightarrow> string list \<Rightarrow> 'c ycp \<Rightarrow> bool \<Rightarrow> ini_section \<Rightarrow> ini_res" where
  "write_item ip P p v rewrite s =
     (case p of
        [] \<Rightarrow> Ret (s, False)
      | c # ks \<Rightarrow>
          if ks = [] then Ret (s, False)
          else if c \<in> {''v'', ''value''} then ini_setValue ip P ks v 0 s
          else if c \<in> {''vc'', ''value_comment'', ''valuecomment''} then ini_setValue ip P ks v 1 s
          else if c \<in> {''vt'', ''value_type'', ''valuetype''} then ini_setValue ip P ks v 2 s
          else if c \<in> {''s'', ''section'', ''sc'', ''section_comment'', ''sectioncomment''} then setSectionProp ip ks v 0 s
          else if c \<in> {''st'', ''section_type'', ''sectiontype''} then setSectionProp ip ks v (if rewrite then 1 else 2) s
          else if c = ''section_private'' then setSectionProp ip ks v 3 s
          else Ret (s, False))"

definition ini_Write :: "('o ini_options_scheme) \<Rightarrow> 'c printers \<Rightarrow> string list \<Rightarrow> 'c ycp \<Rightarrow> bool \<Rightarrow> ini_section \<Rightarrow> string list \<Rightarrow> all_res" where
  "ini_Write ip P p v rewrite s D =
     (if flat ip then keep_deleted D (setValueFlat ip P p v s)
      else if p \<noteq> [] \<and> hd p = ''all'' then setAll ip (tl p) v s D
      else keep_deleted D (write_item ip P p v rewrite s))"

subsection \<open>Dirty flags\<close>

text \<open>\<^verbatim>\<open>isDirty\<close> asks the subsections in the index, not the values.\<close>

lemma size_section_of: "section_of s i = Some t \<Longrightarrow> size t < size s"
proof -
  assume "section_of s i = Some t"
  then have "(i, SECTION t) \<in> set (s_container s)"
    by (auto simp: section_of_def split: option.splits ini_element.splits dest: map_of_SomeD)
  from size_list_estimation' [OF this, of "size (SECTION t)" "size_prod (\<lambda>_. 0) size"] show ?thesis
    by (cases s) simp
qed

function isDirty :: "ini_section \<Rightarrow> bool outcome" where
  "isDirty s =
     (if i_dirty (s_base s) then Ret True
      else foldr (\<lambda>x r. case section_of s (snd x) of None \<Rightarrow> Undef | Some t \<Rightarrow> obind (isDirty t) (\<lambda>d. if d then Ret True else r))
        (s_isections s) (Ret False))"
  by pat_completeness auto
termination by (relation "measure size") (auto simp: size_section_of)

declare isDirty.simps [simp del]

fun clean_section :: "ini_section \<Rightarrow> ini_section"
and clean_element :: "ini_element \<Rightarrow> ini_element" where
  "clean_section (IniSection b ec p rw cs vs ss) =
     IniSection (b\<lparr>i_dirty := False\<rparr>) ec p rw (map (\<lambda>x. (fst x, clean_element (snd x))) cs) vs ss"
| "clean_element (VALUE e) = VALUE (e\<lparr>i_dirty := False\<rparr>)"
| "clean_element (SECTION t) = SECTION (clean_section t)"

definition getSubSectionRewriteBy :: "string \<Rightarrow> ini_section \<Rightarrow> int outcome" where
  "getSubSectionRewriteBy name s =
     (case mm_range name (s_isections s) of
        [] \<Rightarrow> Ret (- 1)
      | is \<Rightarrow> (case section_of s (last is) of None \<Rightarrow> Undef | Some t \<Rightarrow> Ret (s_rewrite_by t)))"

end
