(* ===== verification/Ini_Index.thy ===== *)
theory Ini_Index
  imports Ini_File
begin

text \<open>
  The indices of a section stay in step with its container.  \<open>sec_ok\<close> says that they are what \<^verbatim>\<open>reindex\<close> would build, for the section and
  all its subsections; every operation keeps it and meets no stale iterator, except that \<^verbatim>\<open>Write (.all)\<close> of a
  subsection can rename it behind the back of its parent.
\<close>

section \<open>Names\<close>

lemma ccode_lower: "ccode (char_lower c) = (if is_upper c then ccode c + 32 else ccode c)"
  by (simp add: char_lower_def is_upper_def)

lemma ccode_upper: "ccode (char_upper c) = (if is_lower c then ccode c - 32 else ccode c)"
proof -
  have "ccode c - 32 < 256" using ccode_less [of c] by linarith
  then show ?thesis by (simp add: char_upper_def)
qed

lemma char_case [simp]:
  "char_upper (char_upper c) = char_upper c" "char_lower (char_lower c) = char_lower c"
  "char_upper (char_lower c) = char_upper c" "char_lower (char_upper c) = char_lower c"
  by (auto simp del: ccode_inject simp: ccode_inject [symmetric] ccode_upper ccode_lower is_lower_def is_upper_def)

lemma char_case_nul [simp]: "char_upper c = NUL \<longleftrightarrow> c = NUL" "char_lower c = NUL \<longleftrightarrow> c = NUL"
  by (auto simp del: ccode_inject simp: ccode_inject [symmetric] ccode_upper ccode_lower is_lower_def is_upper_def)

lemma changeCase_idem [simp]: "changeCase ip (changeCase ip s) = changeCase ip s"
  by (cases s) (auto simp: changeCase_def Let_def comp_def)

lemma nul_free_case [simp]: "nul_free (map char_upper s) \<longleftrightarrow> nul_free s" "nul_free (map char_lower s) \<longleftrightarrow> nul_free s"
  by (induction s) simp_all

lemma changeCase_nul_free [simp]: "nul_free (changeCase ip s) \<longleftrightarrow> nul_free s"
  by (cases s) (simp_all add: changeCase_def Let_def)

section \<open>The invariant\<close>

fun sec_ok :: "('o ini_options_scheme) \<Rightarrow> ini_section \<Rightarrow> bool"
and elem_ok :: "('o ini_options_scheme) \<Rightarrow> ini_element \<Rightarrow> bool" where
  "sec_ok ip (IniSection b ec p rw cs vs ss) \<longleftrightarrow>
     distinct (map fst cs) \<and> vs = concat (map (value_key ip) cs) \<and> ss = concat (map (section_key ip) cs)
     \<and> (\<forall>x \<in> set cs. elem_ok ip (snd x))"
| "elem_ok ip (VALUE e) \<longleftrightarrow> True"
| "elem_ok ip (SECTION t) \<longleftrightarrow> sec_ok ip t"

abbreviation entry_key :: "('o ini_options_scheme) \<Rightarrow> ini_entry \<Rightarrow> string" where
  "entry_key ip e \<equiv> changeCase ip (c_str (i_name e))"

abbreviation sec_key :: "('o ini_options_scheme) \<Rightarrow> ini_section \<Rightarrow> string" where
  "sec_key ip t \<equiv> changeCase ip (c_str (i_name (s_base t)))"

lemma sec_ok_iff:
  "sec_ok ip s \<longleftrightarrow>
     distinct (map fst (s_container s)) \<and> s_ivalues s = concat (map (value_key ip) (s_container s))
     \<and> s_isections s = concat (map (section_key ip) (s_container s)) \<and> (\<forall>x \<in> set (s_container s). elem_ok ip (snd x))"
  by (cases s) simp

lemma sec_ok_new [simp]: "sec_ok ip new_section" "sec_ok ip (added_section n)"
  by (simp_all add: new_section_def added_section_def)

lemma set_lists_fields [simp]:
  "s_container (set_lists fc fv fs s) = fc (s_container s)" "s_ivalues (set_lists fc fv fs s) = fv (s_ivalues s)"
  "s_isections (set_lists fc fv fs s) = fs (s_isections s)" "s_base (set_lists fc fv fs s) = s_base s"
  "s_end_comment (set_lists fc fv fs s) = s_end_comment s" "s_private (set_lists fc fv fs s) = s_private s"
  "s_rewrite_by (set_lists fc fv fs s) = s_rewrite_by s"
  by (cases s; simp)+

lemma set_base_fields [simp]:
  "s_container (set_base f s) = s_container s" "s_ivalues (set_base f s) = s_ivalues s"
  "s_isections (set_base f s) = s_isections s" "s_base (set_base f s) = f (s_base s)"
  "s_end_comment (set_base f s) = s_end_comment s" "s_private (set_base f s) = s_private s"
  "s_rewrite_by (set_base f s) = s_rewrite_by s"
  by (cases s; simp)+

lemma set_rest_fields [simp]:
  "s_container (set_rest fe fp fr s) = s_container s" "s_ivalues (set_rest fe fp fr s) = s_ivalues s"
  "s_isections (set_rest fe fp fr s) = s_isections s" "s_base (set_rest fe fp fr s) = s_base s"
  "s_end_comment (set_rest fe fp fr s) = fe (s_end_comment s)" "s_private (set_rest fe fp fr s) = fp (s_private s)"
  "s_rewrite_by (set_rest fe fp fr s) = fr (s_rewrite_by s)"
  by (cases s; simp)+

lemma sec_ok_fields [simp]:
  "sec_ok ip (set_base f s) \<longleftrightarrow> sec_ok ip s" "sec_ok ip (set_rest fe fp fr s) \<longleftrightarrow> sec_ok ip s" "sec_ok ip (touch s) \<longleftrightarrow> sec_ok ip s"
  by (simp_all add: sec_ok_iff touch_def)

lemma touch_fields [simp]:
  "s_container (touch s) = s_container s" "s_ivalues (touch s) = s_ivalues s" "s_isections (touch s) = s_isections s"
  "i_name (s_base (touch s)) = i_name (s_base s)"
  by (simp_all add: touch_def)

subsection \<open>The indices of a list of elements\<close>

lemma fst_value_key: "p \<in> set (value_key ip x) \<Longrightarrow> snd p = fst x"
  by (cases x; cases "snd x") auto

lemma fst_section_key: "p \<in> set (section_key ip x) \<Longrightarrow> snd p = fst x"
  by (cases x; cases "snd x") auto

lemma erase_key:
  assumes "\<And>x p. p \<in> set (f x) \<Longrightarrow> snd p = fst x"
  shows "concat (map f (erase_id i cs)) = mm_erase i (concat (map f cs))"
proof (induction cs)
  case (Cons x cs)
  have "filter (\<lambda>p. snd p \<noteq> i) (f x) = (if fst x = i then [] else f x)"
    using assms [of _ x] by (auto simp: filter_empty_conv filter_id_conv)
  with Cons show ?case by (auto simp: erase_id_def mm_erase_def)
qed (simp add: erase_id_def mm_erase_def)

lemmas erase_keys = erase_key [OF fst_value_key] erase_key [OF fst_section_key]

lemma mm_erase_none: "i \<notin> snd ` set m \<Longrightarrow> mm_erase i m = m"
  by (force simp: mm_erase_def filter_id_conv)

lemma replace_same_key:
  assumes "map_of cs i = Some x" "distinct (map fst cs)" "f (i, y) = f (i, x)"
  shows "concat (map f (replace_id i y cs)) = concat (map f cs)"
proof -
  have "f (if fst z = i then (i, y) else z) = f z" if "z \<in> set cs" for z
    using assms that map_of_is_SomeI [OF assms(2)] by (cases z) fastforce
  then show ?thesis unfolding replace_id_def by (simp add: comp_def cong: map_cong)
qed

lemma fst_replace_id [simp]: "map fst (replace_id i y cs) = map fst cs"
  by (auto simp: replace_id_def)

lemma fresh_id_new: "fresh_id cs \<notin> fst ` set cs"
proof -
  have "fst x \<le> foldr max (map fst cs) 0" if "x \<in> set cs" for x
    using that by (induction cs) auto
  then show ?thesis by (force simp: fresh_id_def)
qed

lemma distinct_erase: "distinct (map fst cs) \<Longrightarrow> distinct (map fst (erase_id i cs))"
  by (induction cs) (auto simp: erase_id_def)

lemma map_of_erase: "map_of (erase_id i cs) j = (if j = i then None else map_of cs j)"
  by (induction cs) (auto simp: erase_id_def)

lemma map_of_replace: "map_of (replace_id i y cs) j = (if j = i \<and> map_of cs i \<noteq> None then Some y else map_of cs j)"
  by (induction cs) (auto simp: replace_id_def)

lemma map_of_fresh: "map_of cs (fresh_id cs) = None"
  using fresh_id_new [of cs] by (simp add: map_of_eq_None_iff)

lemma map_of_push: "map_of (cs @ [(fresh_id cs, y)]) j = (if j = fresh_id cs then Some y else map_of cs j)"
  using map_of_fresh [of cs] by (auto simp: map_add_def split: option.split)

section \<open>Elements\<close>

lemma sec_ok_set_lists:
  "sec_ok ip (set_lists fc fv fs s) \<longleftrightarrow>
     distinct (map fst (fc (s_container s))) \<and> fv (s_ivalues s) = concat (map (value_key ip) (fc (s_container s)))
     \<and> fs (s_isections s) = concat (map (section_key ip) (fc (s_container s))) \<and> (\<forall>x \<in> set (fc (s_container s)). elem_ok ip (snd x))"
  by (cases s) simp

lemma map_of_container: "sec_ok ip s \<Longrightarrow> map_of (s_container s) i = Some x \<longleftrightarrow> (i, x) \<in> set (s_container s)"
  by (auto simp: sec_ok_iff dest: map_of_SomeD map_of_is_SomeI)

lemma ent_of_in: "sec_ok ip s \<Longrightarrow> ent_of s i = Some e \<longleftrightarrow> (i, VALUE e) \<in> set (s_container s)"
  by (auto simp: ent_of_def map_of_container [symmetric] split: option.splits ini_element.splits)

lemma section_of_in: "sec_ok ip s \<Longrightarrow> section_of s i = Some t \<longleftrightarrow> (i, SECTION t) \<in> set (s_container s)"
  by (auto simp: section_of_def map_of_container [symmetric] split: option.splits ini_element.splits)

lemma in_value_keys: "(k, i) \<in> set (value_key ip x) \<longleftrightarrow> (\<exists>e. x = (i, VALUE e) \<and> entry_key ip e = k)"
  by (cases x; cases "snd x") auto

lemma in_section_keys: "(k, i) \<in> set (section_key ip x) \<longleftrightarrow> (\<exists>t. x = (i, SECTION t) \<and> sec_key ip t = k)"
  by (cases x; cases "snd x") auto

lemma mm_range_in: "i \<in> set (mm_range k m) \<longleftrightarrow> (k, i) \<in> set m"
  by (force simp: mm_range_def)

lemma value_range: "sec_ok ip s \<Longrightarrow> i \<in> set (mm_range k (s_ivalues s)) \<longleftrightarrow> (\<exists>e. ent_of s i = Some e \<and> entry_key ip e = k)"
  by (auto simp: ent_of_in mm_range_in sec_ok_iff in_value_keys)

lemma section_range: "sec_ok ip s \<Longrightarrow> i \<in> set (mm_range k (s_isections s)) \<longleftrightarrow> (\<exists>t. section_of s i = Some t \<and> sec_key ip t = k)"
  by (auto simp: section_of_in mm_range_in sec_ok_iff in_section_keys)

lemma distinct_keys:
  assumes "\<And>x p. p \<in> set (f x) \<Longrightarrow> snd p = fst x" "\<And>x. distinct (map snd (f x))" "distinct (map fst cs)"
  shows "distinct (map snd (concat (map f cs)))"
  using assms(3)
proof (induction cs)
  case (Cons x cs)
  have "snd p \<noteq> snd q" if "p \<in> set (f x)" "q \<in> set (f y)" "y \<in> set cs" for p q y
    using assms(1) [OF that(1)] assms(1) [OF that(2)] that(3) Cons.prems by auto
  then have "set (map snd (f x)) \<inter> set (map snd (concat (map f cs))) = {}" by fastforce
  with Cons show ?case by (simp add: assms(2))
qed simp

lemma distinct_index:
  assumes "sec_ok ip s"
  shows "distinct (map snd (s_ivalues s))" "distinct (map snd (s_isections s))"
proof -
  have v: "distinct (map snd (value_key ip x))" and c: "distinct (map snd (section_key ip x))" for x
    by (cases x; cases "snd x"; simp)+
  show "distinct (map snd (s_ivalues s))" "distinct (map snd (s_isections s))"
    using assms distinct_keys [OF fst_value_key v] distinct_keys [OF fst_section_key c] by (auto simp: sec_ok_iff)
qed

lemma distinct_map_filter: "distinct (map f xs) \<Longrightarrow> distinct (map f (filter p xs))"
  by (induction xs) auto

lemma distinct_range: "sec_ok ip s \<Longrightarrow> distinct (mm_range k (s_ivalues s))" "sec_ok ip s \<Longrightarrow> distinct (mm_range k (s_isections s))"
  by (simp_all add: mm_range_def distinct_map_filter distinct_index)

lemma section_of_ok: "sec_ok ip s \<Longrightarrow> section_of s i = Some t \<Longrightarrow> sec_ok ip t"
proof -
  assume "sec_ok ip s" "section_of s i = Some t"
  then have "(i, SECTION t) \<in> set (s_container s)" "\<forall>x \<in> set (s_container s). elem_ok ip (snd x)"
    by (simp_all add: section_of_in) (simp add: sec_ok_iff)
  then show ?thesis by force
qed

subsection \<open>Looking up after a change\<close>

definition next_id :: "ini_section \<Rightarrow> nat" where
  "next_id s = fresh_id (s_container s)"

lemma map_of_next: "map_of (s_container s) (next_id s) = None"
  by (simp add: next_id_def map_of_fresh)

lemma ent_of_next [simp]: "ent_of s (next_id s) = None" "section_of s (next_id s) = None"
  by (simp_all add: ent_of_def section_of_def map_of_next)

lemma map_of_changes:
  "map_of (s_container (push_value k e s)) i = (if i = next_id s then Some (VALUE e) else map_of (s_container s) i)"
  "map_of (s_container (push_section k t s)) i = (if i = next_id s then Some (SECTION t) else map_of (s_container s) i)"
  "map_of (s_container (drop_value j s)) i = (if i = j then None else map_of (s_container s) i)"
  "map_of (s_container (drop_section j s)) i = (if i = j then None else map_of (s_container s) i)"
  unfolding push_value_def push_section_def drop_value_def drop_section_def Let_def next_id_def
  by (simp_all only: set_lists_fields map_of_push map_of_erase)

lemma ent_of_changes [simp]:
  "ent_of (push_value k e s) i = (if i = next_id s then Some e else ent_of s i)"
  "ent_of (push_section k t s) i = ent_of s i"
  "ent_of (drop_value j s) i = (if i = j then None else ent_of s i)"
  "ent_of (drop_section j s) i = (if i = j then None else ent_of s i)"
  "ent_of (touch s) i = ent_of s i" "ent_of (set_base f s) i = ent_of s i" "ent_of (set_rest g h r s) i = ent_of s i"
  by (simp_all add: ent_of_def map_of_changes map_of_next)

lemma section_of_changes [simp]:
  "section_of (push_value k e s) i = section_of s i"
  "section_of (push_section k t s) i = (if i = next_id s then Some t else section_of s i)"
  "section_of (drop_value j s) i = (if i = j then None else section_of s i)"
  "section_of (drop_section j s) i = (if i = j then None else section_of s i)"
  "section_of (touch s) i = section_of s i" "section_of (set_base f s) i = section_of s i" "section_of (set_rest g h r s) i = section_of s i"
  by (simp_all add: section_of_def map_of_changes map_of_next)

lemma of_replace [simp]:
  "ent_of s j \<noteq> None \<Longrightarrow> ent_of (replace_element j (VALUE e) s) i = (if i = j then Some e else ent_of s i)"
  "ent_of s j \<noteq> None \<Longrightarrow> section_of (replace_element j (VALUE e) s) i = section_of s i"
  "section_of s j \<noteq> None \<Longrightarrow> section_of (replace_element j (SECTION t) s) i = (if i = j then Some t else section_of s i)"
  "section_of s j \<noteq> None \<Longrightarrow> ent_of (replace_element j (SECTION t) s) i = ent_of s i"
  by (auto simp: ent_of_def section_of_def replace_element_def map_of_replace split: option.splits ini_element.splits)

lemma changes_fields [simp]:
  "s_base (push_value k e s) = s_base s" "s_base (push_section k t s) = s_base s" "s_base (drop_value i s) = s_base s"
  "s_base (drop_section i s) = s_base s" "s_base (replace_element i x s) = s_base s"
  "s_isections (push_value k e s) = s_isections s" "s_ivalues (push_section k t s) = s_ivalues s"
  "s_isections (drop_value i s) = s_isections s" "s_ivalues (drop_section i s) = s_ivalues s"
  "s_isections (replace_element i x s) = s_isections s" "s_ivalues (replace_element i x s) = s_ivalues s"
  "s_ivalues (push_value k e s) = s_ivalues s @ [(k, next_id s)]" "s_isections (push_section k t s) = s_isections s @ [(k, next_id s)]"
  "s_ivalues (drop_value i s) = mm_erase i (s_ivalues s)" "s_isections (drop_section i s) = mm_erase i (s_isections s)"
  by (simp_all add: push_value_def push_section_def drop_value_def drop_section_def replace_element_def Let_def mm_insert_def next_id_def)

subsection \<open>The elementary changes keep the indices\<close>

lemma push_value_ok: "sec_ok ip s \<Longrightarrow> entry_key ip e = k \<Longrightarrow> sec_ok ip (push_value k e s)"
  using fresh_id_new [of "s_container s"] by (auto simp: sec_ok_iff push_value_def Let_def mm_insert_def)

lemma push_section_ok: "sec_ok ip s \<Longrightarrow> sec_ok ip t \<Longrightarrow> sec_key ip t = k \<Longrightarrow> sec_ok ip (push_section k t s)"
  using fresh_id_new [of "s_container s"] by (auto simp: sec_ok_iff [of ip s] sec_ok_set_lists push_section_def Let_def mm_insert_def)

lemma erase_id_subset: "set (erase_id i cs) \<subseteq> set cs"
  by (auto simp: erase_id_def)

lemma drop_value_ok:
  assumes "sec_ok ip s" "ent_of s i \<noteq> None"
  shows "sec_ok ip (drop_value i s)"
proof -
  have "i \<notin> snd ` set (s_isections s)"
    using section_range [OF assms(1)] assms(2)
    by (auto simp: mm_range_in ent_of_def section_of_def split: option.splits ini_element.splits)
  then have "mm_erase i (s_isections s) = s_isections s" by (rule mm_erase_none)
  with assms(1) show ?thesis
    using erase_id_subset by (auto simp: sec_ok_iff drop_value_def distinct_erase erase_keys)
qed

lemma drop_section_ok:
  assumes "sec_ok ip s" "section_of s i \<noteq> None"
  shows "sec_ok ip (drop_section i s)"
proof -
  have "i \<notin> snd ` set (s_ivalues s)"
    using value_range [OF assms(1)] assms(2)
    by (auto simp: mm_range_in ent_of_def section_of_def split: option.splits ini_element.splits)
  then have "mm_erase i (s_ivalues s) = s_ivalues s" by (rule mm_erase_none)
  with assms(1) show ?thesis
    using erase_id_subset by (auto simp: sec_ok_iff drop_section_def distinct_erase erase_keys)
qed

lemma replace_value_ok:
  assumes s: "sec_ok ip s" and e: "ent_of s i = Some e" and k: "entry_key ip e' = entry_key ip e"
  shows "sec_ok ip (replace_element i (VALUE e') s)"
proof -
  have m: "map_of (s_container s) i = Some (VALUE e)" using e by (auto simp: ent_of_def split: option.splits ini_element.splits)
  have "concat (map (value_key ip) (replace_id i (VALUE e') (s_container s))) = concat (map (value_key ip) (s_container s))"
    "concat (map (section_key ip) (replace_id i (VALUE e') (s_container s))) = concat (map (section_key ip) (s_container s))"
    by (rule replace_same_key [OF m]; use s k in \<open>simp add: sec_ok_iff\<close>)+
  moreover have "\<forall>x \<in> set (replace_id i (VALUE e') (s_container s)). elem_ok ip (snd x)"
    using s by (auto simp: sec_ok_iff replace_id_def split: if_splits)
  ultimately show ?thesis using s by (simp add: sec_ok_iff [of ip s] sec_ok_set_lists replace_element_def)
qed

lemma replace_section_ok:
  assumes s: "sec_ok ip s" and t: "section_of s i = Some t" and k: "sec_key ip t' = sec_key ip t" and t': "sec_ok ip t'"
  shows "sec_ok ip (replace_element i (SECTION t') s)"
proof -
  have m: "map_of (s_container s) i = Some (SECTION t)" using t by (auto simp: section_of_def split: option.splits ini_element.splits)
  have "concat (map (value_key ip) (replace_id i (SECTION t') (s_container s))) = concat (map (value_key ip) (s_container s))"
    "concat (map (section_key ip) (replace_id i (SECTION t') (s_container s))) = concat (map (section_key ip) (s_container s))"
    by (rule replace_same_key [OF m]; use s k in \<open>simp add: sec_ok_iff\<close>)+
  moreover have "\<forall>x \<in> set (replace_id i (SECTION t') (s_container s)). elem_ok ip (snd x)"
    using s t' by (auto simp: sec_ok_iff [of ip s] replace_id_def split: if_splits)
  ultimately show ?thesis using s by (simp add: sec_ok_iff [of ip s] sec_ok_set_lists replace_element_def)
qed

lemma reindex_ok: "sec_ok ip s \<Longrightarrow> reindex ip s = s"
  by (cases s) (simp add: reindex_def)

lemma copy_ok: "sec_ok ip s \<Longrightarrow> copy_section ip s = s"
  and copy_elem_ok: "elem_ok ip x \<Longrightarrow> copy_element ip x = x"
proof (induction ip s and ip x rule: sec_ok_elem_ok.induct)
  case (1 ip b ec p rw cs vs ss)
  then have "map (\<lambda>x. (fst x, copy_element ip (snd x))) cs = cs" by (intro map_idI) auto
  with 1 show ?case by (simp add: reindex_def)
qed simp_all

end
