(* ===== verification/Shell_Quotes.thy ===== *)
theory Shell_Quotes
  imports Prelude
begin

text \<open>
  Quoting of values for the shell (\<^verbatim>\<open>agent-ini/src/quotes.cc\<close>).  An iterator is the rest of the string it stands before.
\<close>

abbreviation squote :: char where "squote \<equiv> CHR 0x27"
abbreviation dquote :: char where "dquote \<equiv> CHR 0x22"
abbreviation bslash :: char where "bslash \<equiv> CHR 0x5C"

definition quote_char :: "char \<Rightarrow> string" where
  "quote_char c = (if c = squote then [squote, bslash, squote, squote] else [c])"

definition shell_quote :: "string \<Rightarrow> string" where
  "shell_quote s = squote # concat (map quote_char s) @ [squote]"

section \<open>Parsing\<close>

text \<open>
  The text up to the closing quote, and the rest from there; the inner \<^const>\<open>None\<close> is the exception for a missing quote.  Behind a
  backslash that ends the string the loop stays where it is.
\<close>

partial_function (option) parse_dquoted_string :: "string \<Rightarrow> string \<Rightarrow> (string \<times> string) option option" where
  "parse_dquoted_string ret s =
     (case s of
        [] \<Rightarrow> Some None
      | c # cs \<Rightarrow>
          if c = dquote then Some (Some (ret, s))
          else if c = bslash then
            (case cs of
               [] \<Rightarrow> parse_dquoted_string ret s
             | d # ds \<Rightarrow>
                 if d = dquote \<or> d = bslash \<or> d = CHR 0x60 \<or> d = CHR ''$'' \<or> d = CHR 0x0A
                 then parse_dquoted_string (ret @ [d]) ds
                 else parse_dquoted_string (ret @ [bslash]) cs)
          else parse_dquoted_string (ret @ [c]) cs)"

fun parse_squoted_string :: "string \<Rightarrow> string \<Rightarrow> (string \<times> string) option" where
  "parse_squoted_string ret [] = None"
| "parse_squoted_string ret (c # cs) =
     (if c = squote then Some (ret, c # cs) else parse_squoted_string (ret @ [c]) cs)"

definition parse_quoted_string :: "char \<Rightarrow> string \<Rightarrow> (string \<times> string) option option" where
  "parse_quoted_string q s = (if q = dquote then parse_dquoted_string [] s else Some (parse_squoted_string [] s))"

text \<open>The two loops of \<^verbatim>\<open>shell_unquote\<close>; the exception gives the empty string.\<close>

partial_function (option) unquote_loop :: "string \<Rightarrow> string \<Rightarrow> string option" where
  "unquote_loop res s =
     (case s of
        [] \<Rightarrow> Some res
      | c # cs \<Rightarrow>
          if c = dquote \<or> c = squote then
            (case parse_quoted_string c cs of
               None \<Rightarrow> None
             | Some None \<Rightarrow> Some []
             | Some (Some (r, rest)) \<Rightarrow> unquote_loop (res @ r) (tl rest))
          else if c = bslash then
            (case cs of [] \<Rightarrow> Some res | d # ds \<Rightarrow> unquote_loop (res @ [d]) ds)
          else unquote_loop (res @ [c]) cs)"

definition shell_unquote :: "string \<Rightarrow> string option" where
  "shell_unquote s = unquote_loop [] s"

section \<open>Unquoting undoes quoting\<close>

lemma squoted_plain: "squote \<notin> set t \<Longrightarrow> parse_squoted_string ret (t @ squote # s) = Some (ret @ t, squote # s)"
  by (induction t arbitrary: ret) auto

lemma quote_plain: "squote \<notin> set t \<Longrightarrow> concat (map quote_char t) = t"
  by (induction t) (auto simp: quote_char_def)

lemma unquote_squoted:
  "squote \<notin> set t \<Longrightarrow> unquote_loop res (squote # t @ squote # s) = unquote_loop (res @ t) s"
  by (subst unquote_loop.simps) (simp add: parse_quoted_string_def squoted_plain)

lemma unquote_escaped: "unquote_loop res (bslash # c # s) = unquote_loop (res @ [c]) s"
  by (subst unquote_loop.simps) simp

lemma split_at_quote: "squote \<in> set s \<Longrightarrow> \<exists>t u. s = t @ squote # u \<and> squote \<notin> set t"
  by (rule split_list_first)

lemma unquote_quoted: "unquote_loop res (squote # concat (map quote_char s) @ [squote]) = Some (res @ s)"
proof (induction s arbitrary: res rule: length_induct)
  case (1 s)
  show ?case
  proof (cases "squote \<in> set s")
    case True
    then obtain t u where s: "s = t @ squote # u" and t: "squote \<notin> set t" using split_at_quote by blast
    have "unquote_loop res (squote # concat (map quote_char s) @ [squote])
        = unquote_loop (res @ t) (bslash # squote # squote # concat (map quote_char u) @ [squote])"
      using unquote_squoted [OF t, of res "bslash # squote # squote # concat (map quote_char u) @ [squote]"]
      by (simp add: s quote_plain [OF t]) (simp add: quote_char_def)
    also have "\<dots> = Some (res @ s)" using "1" s by (simp add: unquote_escaped)
    finally show ?thesis .
  next
    case False
    have "unquote_loop (res @ s) [] = Some (res @ s)" by (subst unquote_loop.simps) simp
    then show ?thesis using unquote_squoted [OF False, of res "[]"] quote_plain [OF False] by simp
  qed
qed

text \<open>
  C36. A value that is quoted for the shell is unquoted to the same value, whatever characters it has.
\<close>

theorem shell_quote_unquote: "shell_unquote (shell_quote s) = Some s"
  using unquote_quoted [of "[]"] by (simp add: shell_unquote_def shell_quote_def)

section \<open>Where unquoting does not end\<close>

lemma dquoted_ends:
  assumes "s = [] \<or> last s \<noteq> bslash"
  shows "\<exists>r. parse_dquoted_string ret s = Some r \<and> (\<forall>t u. r = Some (t, u) \<longrightarrow> (\<exists>v. s = v @ u))"
  using assms
proof (induction s arbitrary: ret rule: length_induct)
  case (1 s)
  show ?case
  proof (cases s)
    case Nil
    then show ?thesis by (subst parse_dquoted_string.simps) simp
  next
    case (Cons c cs)
    have step: "\<exists>r. parse_dquoted_string x t = Some r \<and> (\<forall>p u. r = Some (p, u) \<longrightarrow> (\<exists>v. s = v @ u))"
      if "s = a @ t" "a \<noteq> []" for a t x
    proof -
      have "length t < length s" "t = [] \<or> last t \<noteq> bslash" using that "1.prems" by auto
      with "1.IH" obtain r where "parse_dquoted_string x t = Some r" "\<forall>p u. r = Some (p, u) \<longrightarrow> (\<exists>v. t = v @ u)" by blast
      with that show ?thesis by (metis append_assoc)
    qed
    show ?thesis
    proof (cases "c = bslash \<and> cs \<noteq> []")
      case True
      then obtain d ds where "cs = d # ds" by (cases cs) auto
      with True Cons step [of "[c, d]" ds] step [of "[c]" cs] show ?thesis
        by (subst parse_dquoted_string.simps) auto
    next
      case False
      with Cons "1.prems" step [of "[c]" cs] show ?thesis
        by (subst parse_dquoted_string.simps) auto
    qed
  qed
qed

lemma squoted_rest: "parse_squoted_string ret s = Some (t, u) \<Longrightarrow> \<exists>v. s = v @ u"
proof (induction s arbitrary: ret)
  case (Cons c s)
  then show ?case by (auto split: if_splits) (metis append_Cons)
qed simp

lemma unquote_ends:
  assumes "s = [] \<or> last s \<noteq> bslash"
  shows "\<exists>r. unquote_loop res s = Some r"
  using assms
proof (induction s arbitrary: res rule: length_induct)
  case (1 s)
  show ?case
  proof (cases s)
    case Nil
    then show ?thesis by (subst unquote_loop.simps) simp
  next
    case (Cons c cs)
    have step: "\<exists>r. unquote_loop x t = Some r" if "s = a @ t" "a \<noteq> []" for a t x
      using that "1.prems" by (intro "1.IH" [rule_format]) auto
    have cs: "cs = [] \<or> last cs \<noteq> bslash" using "1.prems" Cons by auto
    obtain q where q: "parse_quoted_string c cs = Some q" "\<forall>t u. q = Some (t, u) \<longrightarrow> (\<exists>v. cs = v @ u)"
      using dquoted_ends [OF cs, of "[]"] squoted_rest [of "[]" cs]
      by (cases "c = dquote") (auto simp: parse_quoted_string_def)
    have "\<exists>r. unquote_loop (res @ t) (tl u) = Some r" if "q = Some (t, u)" for t u
    proof -
      from q(2) that obtain v where v: "cs = v @ u" by blast
      show ?thesis
      proof (cases u)
        case Nil
        then show ?thesis by (subst unquote_loop.simps) simp
      next
        case (Cons d ds)
        with v \<open>s = c # cs\<close> show ?thesis by (intro step [of "c # v @ [d]"]) auto
      qed
    qed
    with q show ?thesis using Cons step [of "[c]" cs] step [of "[c, hd cs]" "tl cs"]
      by (subst unquote_loop.simps) (auto split: option.splits list.splits)
  qed
qed

lemma dquoted_stuck: "parse_dquoted_string ret [bslash] = None"
proof -
  have "s \<noteq> [bslash]" if "parse_dquoted_string ret s = Some r" for ret s r
    by (rule parse_dquoted_string.raw_induct [where P = "\<lambda>ret s r. s \<noteq> [bslash]", OF _ that])
      (auto split: list.splits if_splits)
  from this [of ret "[bslash]"] show ?thesis by (cases "parse_dquoted_string ret [bslash]") auto
qed

lemma dquoted_plain: "dquote \<notin> set t \<Longrightarrow> bslash \<notin> set t \<Longrightarrow> parse_dquoted_string ret (t @ s) = parse_dquoted_string (ret @ t) s"
proof (induction t arbitrary: ret)
  case (Cons c t)
  then show ?case by (subst parse_dquoted_string.simps) auto
qed simp

text \<open>
  Unquoting returns for every value that does not end in a backslash; for one that ends in a backslash within double quotes it
  never returns.
\<close>

theorem shell_unquote_returns:
  "(s = [] \<or> last s \<noteq> bslash \<longrightarrow> (\<exists>r. shell_unquote s = Some r))
   \<and> (dquote \<notin> set t \<and> bslash \<notin> set t \<longrightarrow> shell_unquote (dquote # t @ [bslash]) = None)"
proof (intro conjI impI)
  assume "dquote \<notin> set t \<and> bslash \<notin> set t"
  then show "shell_unquote (dquote # t @ [bslash]) = None"
    unfolding shell_unquote_def
    by (subst unquote_loop.simps) (simp add: parse_quoted_string_def dquoted_plain dquoted_stuck)
qed (auto simp: shell_unquote_def intro: unquote_ends)

theorem shell_unquote_returns_witness:
  "(\<exists>r. shell_unquote ''a'' = Some r) \<and> shell_unquote (dquote # ''a'' @ [bslash]) = None"
  using shell_unquote_returns [of "''a''" "''a''"] by simp

end
