(* ===== verification/Ini_Parser.thy ===== *)
theory Ini_Parser
  imports Ini_Index Shell_Quotes
begin

text \<open>
  The parser and the writer of ini files (\<^verbatim>\<open>agent-ini/src/IniParser.h\<close>, \<^verbatim>\<open>IniParser.cc\<close>): the rules of the control script, the
  line scanner, the state machine that builds sections out of lines, and the text of a section.

  Regular expressions are those of the C library: what \<^verbatim>\<open>regcomp\<close> and \<^verbatim>\<open>regexec\<close> do is a parameter.  An index out of range, a
  string position out of range and an iterator that is not in its list are \<^const>\<open>Undef\<close>; a loop that does not end is
  \<^const>\<open>OutOfFuel\<close>.  Messages of the log are left out.
\<close>

section \<open>Regular expressions\<close>

text \<open>
  \<^verbatim>\<open>regcomp\<close> of a pattern (and whether to ignore case) and \<^verbatim>\<open>regexec\<close>, with start and end of the match and of all
  subexpressions.
\<close>

record 'r regex_lib =
  rx_comp :: "string \<Rightarrow> bool \<Rightarrow> 'r option"
  rx_exec :: "'r \<Rightarrow> string \<Rightarrow> (int \<times> int) list option"

record regex_match =
  rm_matches :: "string list"
  rm_rest :: string

definition compile :: "'r regex_lib \<Rightarrow> string \<Rightarrow> bool \<Rightarrow> 'r option" where
  "compile L pattern ic = rx_comp L (c_str pattern) ic"

definition match_part :: "string \<Rightarrow> int \<times> int \<Rightarrow> string outcome" where
  "match_part s p =
     (if 0 \<le> fst p \<and> fst p \<le> int (length s)
      then Ret (if snd p < fst p then drop (nat (fst p)) s else take (nat (snd p - fst p)) (drop (nat (fst p)) s))
      else Undef)"

fun match_parts :: "string \<Rightarrow> (int \<times> int) list \<Rightarrow> string list outcome" where
  "match_parts s [] = Ret []"
| "match_parts s (p # ps) = obind (match_part s p) (\<lambda>t. obind (match_parts s ps) (\<lambda>ts. Ret (t # ts)))"

definition RegexMatch :: "'r regex_lib \<Rightarrow> 'r \<Rightarrow> string \<Rightarrow> nat \<Rightarrow> regex_match outcome" where
  "RegexMatch L rx s nmatch =
     (case rx_exec L rx (c_str s) of
        None \<Rightarrow> Ret \<lparr>rm_matches = [], rm_rest = s\<rparr>
      | Some ms \<Rightarrow> (case ms of
            [] \<Rightarrow> Undef
          | (so, eo) # _ \<Rightarrow>
              if so < 0 \<or> eo < 0 \<or> int (length s) < eo then Undef
              else obind (match_parts s (takeWhile (\<lambda>p. fst p \<noteq> - 1) (take (max 1 nmatch) ms))) (\<lambda>ts.
                Ret \<lparr>rm_matches = ts, rm_rest = take (nat so) s @ drop (nat eo) s\<rparr>)))"

text \<open>The first of a list of numbered expressions that matches.\<close>

fun first_match :: "'r regex_lib \<Rightarrow> nat \<Rightarrow> (nat \<times> 'r) list \<Rightarrow> string \<Rightarrow> (nat \<times> regex_match) option outcome" where
  "first_match L n [] s = Ret None"
| "first_match L n ((i, rx) # rxs) s =
     obind (RegexMatch L rx s n) (\<lambda>m. if rm_matches m \<noteq> [] then Ret (Some (i, m)) else first_match L n rxs s)"

definition submatch :: "regex_match \<Rightarrow> nat \<Rightarrow> string outcome" where
  "submatch m i = (if i < length (rm_matches m) then Ret (rm_matches m ! i) else Undef)"

section \<open>Rules\<close>

record 'r io_pattern =
  io_rx :: 'r
  io_out :: string

text \<open>\<^const>\<open>None\<close> stands for \<^verbatim>\<open>end_valid\<close> and \<^verbatim>\<open>multiline_valid\<close> being false.\<close>

record 'r section_rule =
  sec_begin :: "'r io_pattern"
  sec_end :: "'r io_pattern option"

record 'r param_rule =
  par_line :: "'r io_pattern"
  par_multiline :: "('r \<times> 'r) option"

text \<open>\<^const>\<open>rewrite_outs\<close> has the second parts of the \<^verbatim>\<open>rewrites\<close>.\<close>

record 'r ini_machine = ini_options +
  rewrite_rxs :: "'r list"
  subindent :: string
  linecomments :: "'r list"
  comments :: "'r list"
  sections :: "'r section_rule list"
  params :: "'r param_rule list"

definition sectionNeedsEnd :: "('r, 'o) ini_machine_scheme \<Rightarrow> int \<Rightarrow> bool outcome" where
  "sectionNeedsEnd ip i = (if 0 \<le> i \<and> i < int (length (sections ip)) then Ret (sec_end (sections ip ! nat i) \<noteq> None) else Undef)"

definition HaveRewrites :: "('r, 'o) ini_machine_scheme \<Rightarrow> bool" where
  "HaveRewrites ip \<longleftrightarrow> length (rewrite_outs ip) > 0"

subsection \<open>The control script\<close>

fun string_pair :: "'c ycp \<Rightarrow> (string \<times> string) option" where
  "string_pair (YList [YString a, YString b]) = Some (a, b)"
| "string_pair v = None"

abbreviation script_value :: "'c ymap \<Rightarrow> string \<Rightarrow> 'c ycp" where
  "script_value m k \<equiv> ymap_value m (YString k)"

text \<open>
  \<^const>\<open>None\<close> is \<^verbatim>\<open>-1\<close>, a broken format; otherwise the pair under the first key and the one under the second, if it has the format.
\<close>

definition getBeginEndType :: "'c ymap \<Rightarrow> ((string \<times> string) \<times> (string \<times> string) option) option" where
  "getBeginEndType m = map_option (\<lambda>b. (b, string_pair (script_value m ''end''))) (string_pair (script_value m ''begin''))"

definition getParamsType :: "'c ymap \<Rightarrow> ((string \<times> string) \<times> (string \<times> string) option) option" where
  "getParamsType m = map_option (\<lambda>b. (b, string_pair (script_value m ''multiline''))) (string_pair (script_value m ''match''))"

definition no_options :: "('r, 'o) ini_machine_scheme \<Rightarrow> ('r, 'o) ini_machine_scheme" where
  "no_options ip = ip\<lparr>ignore_case_regexps := False, ignore_case := False, prefer_uppercase := False, first_upper := False,
     line_can_continue := False, no_nested_sections := False, global_values := False, repeat_names := False, comments_last := False,
     join_multiline := False, no_finalcomment_kill := False, read_only := False, flat := False, shell_quoted_value := False\<rparr>"

definition set_option :: "string \<Rightarrow> ('r, 'o) ini_machine_scheme \<Rightarrow> ('r, 'o) ini_machine_scheme" where
  "set_option sv ip =
     (if sv = ''ignore_case_regexps'' then ip\<lparr>ignore_case_regexps := True\<rparr>
      else if sv = ''ignore_case'' then ip\<lparr>ignore_case := True\<rparr>
      else if sv = ''prefer_uppercase'' then ip\<lparr>prefer_uppercase := True\<rparr>
      else if sv = ''first_upper'' then ip\<lparr>first_upper := True\<rparr>
      else if sv = ''line_can_continue'' then ip\<lparr>line_can_continue := True\<rparr>
      else if sv = ''no_nested_sections'' then ip\<lparr>no_nested_sections := True\<rparr>
      else if sv = ''global_values'' then ip\<lparr>global_values := True\<rparr>
      else if sv = ''repeat_names'' then ip\<lparr>repeat_names := True\<rparr>
      else if sv = ''comments_last'' then ip\<lparr>comments_last := True\<rparr>
      else if sv = ''join_multiline'' then ip\<lparr>join_multiline := True\<rparr>
      else if sv = ''no_finalcomment_kill'' then ip\<lparr>no_finalcomment_kill := True\<rparr>
      else if sv = ''read_only'' then ip\<lparr>read_only := True\<rparr>
      else if sv = ''flat'' then ip\<lparr>flat := True\<rparr>
      else if sv = ''shell_quoted_value'' then ip\<lparr>shell_quoted_value := True\<rparr>
      else ip)"

fun option_item :: "'c ycp \<Rightarrow> ('r, 'o) ini_machine_scheme \<Rightarrow> ('r, 'o) ini_machine_scheme" where
  "option_item (YString sv) ip = set_option sv ip"
| "option_item _ ip = ip"

definition rewrite_item :: "'r regex_lib \<Rightarrow> bool \<Rightarrow> 'c ycp \<Rightarrow> 'r io_pattern option" where
  "rewrite_item L ic v =
     (case string_pair v of None \<Rightarrow> None | Some (rx, out) \<Rightarrow> map_option (\<lambda>r. \<lparr>io_rx = r, io_out = out\<rparr>) (compile L rx ic))"

text \<open>A pattern that starts with \<open>^\<close> is one for whole lines.\<close>

fun comment_item :: "'r regex_lib \<Rightarrow> bool \<Rightarrow> bool \<Rightarrow> 'c ycp \<Rightarrow> 'r option" where
  "comment_item L ic whole (YString s) = (if (take 1 (c_str s) = ''^'') = whole then compile L s ic else None)"
| "comment_item L ic whole _ = None"

fun section_item :: "'r regex_lib \<Rightarrow> bool \<Rightarrow> 'c ycp \<Rightarrow> 'r section_rule option" where
  "section_item L ic (YMap m) =
     (case getBeginEndType m of
        None \<Rightarrow> None
      | Some ((brx, bout), en) \<Rightarrow>
          (case (case en of None \<Rightarrow> Some None
                 | Some (erx, e_out) \<Rightarrow> map_option (\<lambda>r. Some \<lparr>io_rx = r, io_out = e_out\<rparr>) (compile L erx ic)) of
             None \<Rightarrow> None
           | Some e \<Rightarrow> map_option (\<lambda>r. \<lparr>sec_begin = \<lparr>io_rx = r, io_out = bout\<rparr>, sec_end = e\<rparr>) (compile L brx ic)))"
| "section_item L ic _ = None"

fun param_item :: "'r regex_lib \<Rightarrow> bool \<Rightarrow> 'c ycp \<Rightarrow> 'r param_rule option" where
  "param_item L ic (YMap m) =
     (case getParamsType m of
        None \<Rightarrow> None
      | Some ((rx, out), ml) \<Rightarrow>
          let multiline = (case ml of None \<Rightarrow> None
            | Some (b, e) \<Rightarrow> (case compile L b ic of None \<Rightarrow> None | Some rb \<Rightarrow> map_option (Pair rb) (compile L e ic)))
          in map_option (\<lambda>r. \<lparr>par_line = \<lparr>io_rx = r, io_out = out\<rparr>, par_multiline = multiline\<rparr>) (compile L rx ic))"
| "param_item L ic _ = None"

definition initMachine :: "'r regex_lib \<Rightarrow> bool \<Rightarrow> 'c ymap \<Rightarrow> ('r, 'o) ini_machine_scheme \<Rightarrow> ('r, 'o) ini_machine_scheme" where
  "initMachine L multiple scr ip =
     (let ip = no_options ip;
        ip = (case script_value scr ''options'' of YList l \<Rightarrow> fold option_item l ip | _ \<Rightarrow> ip);
        ip = (if ignore_case ip \<and> multiple then ip\<lparr>ignore_case := False\<rparr> else ip);
        ic = ignore_case_regexps ip;
        ip = (case script_value scr ''rewrite'' of
            YList l \<Rightarrow> (let ps = List.map_filter (rewrite_item L ic) l in ip\<lparr>rewrite_rxs := map io_rx ps, rewrite_outs := map io_out ps\<rparr>)
          | _ \<Rightarrow> ip);
        ip = (case script_value scr ''subindent'' of YString s \<Rightarrow> ip\<lparr>subindent := s\<rparr> | _ \<Rightarrow> ip);
        ip = (case script_value scr ''comments'' of
            YList l \<Rightarrow> ip\<lparr>linecomments := List.map_filter (comment_item L ic True) l, comments := List.map_filter (comment_item L ic False) l\<rparr>
          | _ \<Rightarrow> ip);
        ip = (case script_value scr ''sections'' of YList l \<Rightarrow> ip\<lparr>sections := List.map_filter (section_item L ic) l\<rparr> | _ \<Rightarrow> ip)
      in case script_value scr ''params'' of YList l \<Rightarrow> ip\<lparr>params := List.map_filter (param_item L ic) l\<rparr> | _ \<Rightarrow> ip)"

section \<open>The scanner\<close>

record ifstream =
  is_rest :: string
  is_eof :: bool
  is_fail :: bool

abbreviation NL :: char where "NL \<equiv> CHR 0x0A"

definition stream_of :: "string \<Rightarrow> ifstream" where
  "stream_of t = \<lparr>is_rest = t, is_eof = False, is_fail = False\<rparr>"

text \<open>\<^verbatim>\<open>std::getline\<close>: at the end of the file the string keeps its value.\<close>

definition getline :: "ifstream \<Rightarrow> string \<Rightarrow> ifstream \<times> string" where
  "getline f s =
     (if is_eof f \<or> is_fail f then (f\<lparr>is_fail := True\<rparr>, s)
      else if NL \<in> set (is_rest f)
      then (f\<lparr>is_rest := tl (dropWhile (\<lambda>c. c \<noteq> NL) (is_rest f))\<rparr>, takeWhile (\<lambda>c. c \<noteq> NL) (is_rest f))
      else (f\<lparr>is_rest := [], is_eof := True, is_fail := (is_rest f = [])\<rparr>, is_rest f))"

text \<open>A line that ends in a backslash is continued by the next one.\<close>

partial_function (option) continue_lines :: "ifstream \<Rightarrow> string \<Rightarrow> string \<Rightarrow> (ifstream \<times> string) option" where
  "continue_lines f s tmp =
     (if last s = bslash
      then case getline f tmp of (f', tmp') \<Rightarrow> continue_lines f' (s @ NL # tmp') tmp'
      else Some (f, s))"

text \<open>The inner \<^const>\<open>None\<close> is the result \<^verbatim>\<open>-1\<close>.\<close>

definition scanner_get :: "bool \<Rightarrow> ifstream \<Rightarrow> string \<Rightarrow> (ifstream \<times> string) option option" where
  "scanner_get lcc f s =
     (if is_fail f then Some None
      else case getline f s of (f', s') \<Rightarrow>
        if lcc \<and> s' \<noteq> [] then map_option Some (continue_lines f' s' []) else Some (Some (f', s')))"

definition stream_size :: "ifstream \<Rightarrow> nat" where
  "stream_size f = length (is_rest f) + (if is_fail f then 0 else if is_eof f then 1 else 2)"

lemma tl_dropWhile_shorter: "x \<in> set s \<Longrightarrow> length (tl (dropWhile (\<lambda>c. c \<noteq> x) s)) < length s"
  by (induction s) (auto simp: less_Suc_eq)

lemma getline_size:
  "stream_size (fst (getline f s)) \<le> stream_size f"
  "\<not> is_fail f \<Longrightarrow> stream_size (fst (getline f s)) < stream_size f"
  using tl_dropWhile_shorter [of NL "is_rest f"]
  by (auto simp: getline_def stream_size_def)

lemma continue_lines_size:
  assumes "continue_lines f s tmp = Some r"
  shows "stream_size (fst r) \<le> stream_size f"
proof (rule continue_lines.raw_induct [where P = "\<lambda>f s tmp r. stream_size (fst r) \<le> stream_size f", OF _ assms])
  fix rec f s tmp and r :: "ifstream \<times> string"
  assume IH: "\<And>f s tmp r. rec f s tmp = Some r \<Longrightarrow> stream_size (fst r) \<le> stream_size f"
    and r: "(if last s = bslash then case getline f tmp of (f', tmp') \<Rightarrow> rec f' (s @ NL # tmp') tmp' else Some (f, s)) = Some r"
  obtain g t where g: "getline f tmp = (g, t)" by fastforce
  then have "stream_size g \<le> stream_size f" using getline_size(1) [of f tmp] by simp
  with r g IH [of g "s @ NL # t" t r] show "stream_size (fst r) \<le> stream_size f" by (cases "last s = bslash") auto
qed

lemma scanner_get_size:
  assumes "scanner_get lcc f s = Some (Some (f', s'))"
  shows "stream_size f' < stream_size f"
proof -
  obtain g t where g: "getline f s = (g, t)" by fastforce
  with getline_size(2) [of f s] assms have "stream_size g < stream_size f" by (auto simp: scanner_get_def split: if_splits)
  moreover have "stream_size f' \<le> stream_size g"
    using assms g continue_lines_size [of g t "[]" "(f', s')"] by (auto simp: scanner_get_def split: if_splits)
  ultimately show ?thesis by simp
qed

section \<open>Sections out of lines\<close>

text \<open>
  The local variables of \<^verbatim>\<open>parse_helper\<close>.  \<open>ps_open\<close> has the numbers of the open sections in the lists of the sections around them,
  the innermost first; \<open>ps_multi\<close> is \<^verbatim>\<open>matched_by\<close> when \<^verbatim>\<open>state\<close> is 1.
\<close>

record parse_state =
  ps_ini :: ini_section
  ps_open :: "nat list"
  ps_comment :: string
  ps_key :: string
  ps_val :: string
  ps_multi :: "nat option"
  ps_line :: string

fun open_at :: "nat list \<Rightarrow> ini_section \<Rightarrow> ini_section outcome" where
  "open_at [] s = Ret s"
| "open_at (i # is) s = (case section_of s i of None \<Rightarrow> Undef | Some t \<Rightarrow> open_at is t)"

fun within_open :: "nat list \<Rightarrow> (ini_section \<Rightarrow> ini_section outcome) \<Rightarrow> ini_section \<Rightarrow> ini_section outcome" where
  "within_open [] f s = f s"
| "within_open (i # is) f s =
     (case section_of s i of
        None \<Rightarrow> Undef
      | Some t \<Rightarrow> obind (within_open is f t) (\<lambda>t'. Ret (replace_element i (SECTION t') s)))"

text \<open>Names and rules of the open sections, the outermost first.\<close>

fun open_names :: "nat list \<Rightarrow> ini_section \<Rightarrow> (string \<times> int) list outcome" where
  "open_names [] s = Ret []"
| "open_names (i # is) s =
     (case section_of s i of
        None \<Rightarrow> Undef
      | Some t \<Rightarrow> obind (open_names is t) (\<lambda>r. Ret ((c_str (i_name (s_base t)), i_read_by (s_base t)) # r)))"

definition parsed_value :: "('o ini_options_scheme) \<Rightarrow> string \<Rightarrow> string outcome" where
  "parsed_value ip v =
     (if shell_quoted_value ip then (case shell_unquote v of None \<Rightarrow> OutOfFuel | Some u \<Rightarrow> Ret u) else Ret v)"

definition store_parsed :: "('o ini_options_scheme) \<Rightarrow> string \<Rightarrow> string \<Rightarrow> nat \<Rightarrow> parse_state \<Rightarrow> parse_state outcome" where
  "store_parsed ip key val i st =
     (if ps_open st = [] \<and> \<not> global_values ip then Ret (st\<lparr>ps_comment := []\<rparr>)
      else obind (parsed_value ip val) (\<lambda>v.
        obind (within_open (rev (ps_open st)) (initValue ip key v (ps_comment st) (int i)) (ps_ini st)) (\<lambda>s.
          Ret (st\<lparr>ps_ini := s, ps_comment := []\<rparr>))))"

definition on_line_comment :: "'r regex_lib \<Rightarrow> ('r, 'o) ini_machine_scheme \<Rightarrow> parse_state \<Rightarrow> parse_state outcome" where
  "on_line_comment L ip st =
     obind (first_match L 20 (enumerate 0 (comments ip)) (ps_line st)) (\<lambda>r. case r of
         None \<Rightarrow> Ret st
       | Some (i, m) \<Rightarrow> obind (submatch m 0) (\<lambda>c. Ret (st\<lparr>ps_comment := ps_comment st @ c @ [NL], ps_line := rm_rest m\<rparr>)))"

definition broken_line_end :: "'r regex_lib \<Rightarrow> ('r, 'o) ini_machine_scheme \<Rightarrow> parse_state \<Rightarrow> parse_state outcome" where
  "broken_line_end L ip st =
     (case ps_multi st of
        None \<Rightarrow> Ret st
      | Some j \<Rightarrow>
          let sep = (if join_multiline ip then '' '' else [NL]) in
          case (if j < length (params ip) then par_multiline (params ip ! j) else None) of
            None \<Rightarrow> Undef
          | Some (_, rx) \<Rightarrow> obind (RegexMatch L rx (ps_line st) 20) (\<lambda>m.
              if rm_matches m \<noteq> [] then
                obind (submatch m 1) (\<lambda>v.
                  let st = st\<lparr>ps_multi := None, ps_val := ps_val st @ sep @ v, ps_line := rm_rest m\<rparr> in
                  store_parsed ip (ps_key st) (ps_val st) j st)
              else Ret (st\<lparr>ps_val := ps_val st @ sep @ ps_line st\<rparr>)))"

definition section_begin :: "'r regex_lib \<Rightarrow> ('r, 'o) ini_machine_scheme \<Rightarrow> parse_state \<Rightarrow> parse_state outcome" where
  "section_begin L ip st =
     obind (first_match L 20 (enumerate 0 (map (\<lambda>r. io_rx (sec_begin r)) (sections ip))) (ps_line st)) (\<lambda>r. case r of
         None \<Rightarrow> Ret st
       | Some (i, m) \<Rightarrow> obind (submatch m 1) (\<lambda>found.
           obind (if ps_open st = [] then Ret []
                  else obind (open_at (rev (ps_open st)) (ps_ini st)) (\<lambda>cur.
                    obind (sectionNeedsEnd ip (i_read_by (s_base cur))) (\<lambda>needs.
                      Ret (if needs \<and> \<not> no_nested_sections ip then ps_open st else tl (ps_open st))))) (\<lambda>open.
             let st = st\<lparr>ps_open := open, ps_line := rm_rest m\<rparr> in
             if open \<noteq> [] \<and> no_nested_sections ip then Ret (st\<lparr>ps_comment := []\<rparr>)
             else obind (within_open (rev open) (initSection ip found (ps_comment st) (int i) None) (ps_ini st)) (\<lambda>s.
               obind (open_at (rev open) s) (\<lambda>parent.
                 Ret (st\<lparr>ps_ini := s, ps_open := fst (last (s_container parent)) # open, ps_comment := []\<rparr>))))))"

fun position :: "('a \<Rightarrow> bool) \<Rightarrow> 'a list \<Rightarrow> nat option" where
  "position P [] = None"
| "position P (x # xs) = (if P x then Some 0 else map_option Suc (position P xs))"

text \<open>The open section that a closing line of rule \<open>i\<close> with the name \<open>found\<close> means.\<close>

definition section_to_close :: "(string \<times> int) list \<Rightarrow> string \<Rightarrow> nat \<Rightarrow> nat" where
  "section_to_close os found i =
     (case (if found = [] then None else position (\<lambda>p. fst p = found) os) of
        Some k \<Rightarrow> k
      | None \<Rightarrow> (case position (\<lambda>p. snd p = int i) os of Some k \<Rightarrow> k | None \<Rightarrow> 0))"

definition end_rules :: "('r, 'o) ini_machine_scheme \<Rightarrow> (nat \<times> 'r) list" where
  "end_rules ip = List.map_filter (\<lambda>(i, r). map_option (\<lambda>e. (i, io_rx e)) (sec_end r)) (enumerate 0 (sections ip))"

definition section_end :: "'r regex_lib \<Rightarrow> ('r, 'o) ini_machine_scheme \<Rightarrow> parse_state \<Rightarrow> parse_state outcome" where
  "section_end L ip st =
     obind (first_match L 20 (end_rules ip) (ps_line st)) (\<lambda>r. case r of
         None \<Rightarrow> Ret st
       | Some (i, m) \<Rightarrow>
           let found = (if 1 < length (rm_matches m) then rm_matches m ! 1 else []) in
           obind (if ps_comment st = [] then Ret (ps_ini st)
                  else within_open (rev (ps_open st)) (\<lambda>s. Ret (setEndComment (c_str (ps_comment st)) s)) (ps_ini st)) (\<lambda>s.
             obind (open_names (rev (ps_open st)) s) (\<lambda>os.
               Ret (st\<lparr>ps_ini := s, ps_comment := [], ps_line := rm_rest m,
                 ps_open := (if ps_open st = [] then [] else drop (Suc (section_to_close (rev os) found i)) (ps_open st))\<rparr>))))"

definition single_line :: "'r regex_lib \<Rightarrow> ('r, 'o) ini_machine_scheme \<Rightarrow> parse_state \<Rightarrow> parse_state outcome" where
  "single_line L ip st =
     obind (first_match L 20 (enumerate 0 (map (\<lambda>r. io_rx (par_line r)) (params ip))) (ps_line st)) (\<lambda>r. case r of
         None \<Rightarrow> Ret st
       | Some (i, m) \<Rightarrow> obind (submatch m 1) (\<lambda>key. obind (submatch m 2) (\<lambda>val.
           store_parsed ip key val i (st\<lparr>ps_line := rm_rest m\<rparr>))))"

definition begin_rules :: "('r, 'o) ini_machine_scheme \<Rightarrow> (nat \<times> 'r) list" where
  "begin_rules ip = List.map_filter (\<lambda>(i, r). map_option (\<lambda>b. (i, fst b)) (par_multiline r)) (enumerate 0 (params ip))"

definition broken_line_begin :: "'r regex_lib \<Rightarrow> ('r, 'o) ini_machine_scheme \<Rightarrow> parse_state \<Rightarrow> parse_state outcome" where
  "broken_line_begin L ip st =
     obind (first_match L 20 (begin_rules ip) (ps_line st)) (\<lambda>r. case r of
         None \<Rightarrow> Ret st
       | Some (i, m) \<Rightarrow> obind (submatch m 1) (\<lambda>key. obind (submatch m 2) (\<lambda>val.
           Ret (st\<lparr>ps_key := key, ps_val := val, ps_line := rm_rest m, ps_multi := Some i\<rparr>))))"

definition parse_line :: "'r regex_lib \<Rightarrow> ('r, 'o) ini_machine_scheme \<Rightarrow> parse_state \<Rightarrow> parse_state outcome" where
  "parse_line L ip st =
     obind (first_match L 0 (enumerate 0 (linecomments ip)) (ps_line st)) (\<lambda>r.
       if r \<noteq> None then Ret (st\<lparr>ps_comment := ps_comment st @ ps_line st @ [NL]\<rparr>)
       else obind (if comments_last ip then Ret st else on_line_comment L ip st) (\<lambda>st.
         obind (broken_line_end L ip st) (\<lambda>st.
           if ps_multi st \<noteq> None then Ret st
           else obind (section_begin L ip st) (\<lambda>st.
             obind (section_end L ip st) (\<lambda>st.
               obind (single_line L ip st) (\<lambda>st.
                 obind (broken_line_begin L ip st) (\<lambda>st.
                   if comments_last ip then on_line_comment L ip st else Ret st)))))))"

function parse_lines :: "'r regex_lib \<Rightarrow> ('r, 'o) ini_machine_scheme \<Rightarrow> ifstream \<Rightarrow> parse_state \<Rightarrow> parse_state outcome" where
  "parse_lines L ip f st =
     (case scanner_get (line_can_continue ip) f (ps_line st) of
        None \<Rightarrow> OutOfFuel
      | Some None \<Rightarrow> Ret st
      | Some (Some (f', line)) \<Rightarrow> obind (parse_line L ip (st\<lparr>ps_line := line\<rparr>)) (\<lambda>st'. parse_lines L ip f' st'))"
  by pat_completeness auto
termination by (relation "measure (\<lambda>(L, ip, f, st). stream_size f)") (auto simp: scanner_get_size)

declare parse_lines.simps [simp del]

text \<open>Empty lines at the end of the last comment go, unless \<^verbatim>\<open>no_finalcomment_kill\<close> is set.\<close>

definition final_comment :: "('o ini_options_scheme) \<Rightarrow> string \<Rightarrow> string" where
  "final_comment ip c =
     (if no_finalcomment_kill ip then c
      else let i = length (dropWhile (\<lambda>x. x = NL) (rev c)) in if i > 0 then take (Suc i) (c @ [NUL]) else [])"

definition parse_helper :: "'r regex_lib \<Rightarrow> ('r, 'o) ini_machine_scheme \<Rightarrow> string \<Rightarrow> ini_section \<Rightarrow> ini_section outcome" where
  "parse_helper L ip file_text ini =
     obind (parse_lines L ip (stream_of file_text)
         \<lparr>ps_ini = ini, ps_open = [], ps_comment = [], ps_key = [], ps_val = [], ps_multi = None, ps_line = []\<rparr>) (\<lambda>st.
       Ret (if ps_comment st = [] then ps_ini st else setEndComment (c_str (final_comment ip (ps_comment st))) (ps_ini st)))"

section \<open>Text of a section\<close>

definition printed :: "string \<Rightarrow> string list \<Rightarrow> string outcome" where
  "printed fmt as = (case c_printf (c_str fmt) as of None \<Rightarrow> Undef | Some t \<Rightarrow> Ret t)"

fun oconcat :: "string outcome list \<Rightarrow> string outcome" where
  "oconcat [] = Ret []"
| "oconcat (x # xs) = obind x (\<lambda>s. obind (oconcat xs) (\<lambda>t. Ret (s @ t)))"

definition rule_of :: "'a list \<Rightarrow> int \<Rightarrow> 'a option" where
  "rule_of rs i = (if 0 \<le> i \<and> i < int (length rs) then Some (rs ! nat i) else None)"

definition indent_of :: "string \<Rightarrow> nat \<Rightarrow> string" where
  "indent_of si n = concat (replicate n si)"

definition rule_line :: "string \<Rightarrow> 'r io_pattern option \<Rightarrow> string list \<Rightarrow> string outcome" where
  "rule_line indent p as = (case p of None \<Rightarrow> Ret [] | Some p \<Rightarrow> obind (printed (io_out p) as) (\<lambda>t. Ret (indent @ t @ [NL])))"

definition written_value :: "('o ini_options_scheme) \<Rightarrow> ini_entry \<Rightarrow> string" where
  "written_value ip e = (if shell_quoted_value ip then shell_quote (c_str (e_val e)) else c_str (e_val e))"

definition write_entry :: "('r, 'o) ini_machine_scheme \<Rightarrow> nat \<Rightarrow> ini_entry \<Rightarrow> string outcome" where
  "write_entry ip dep e =
     obind (rule_line (indent_of (subindent ip) dep) (map_option par_line (rule_of (params ip) (i_read_by e)))
         [i_name e, written_value ip e]) (\<lambda>t.
       Ret (c_str (i_comment e) @ t))"

text \<open>The text; \<^const>\<open>clean_section\<close> is what \<^verbatim>\<open>write_helper\<close> does to the section.\<close>

fun write_helper :: "('r, 'o) ini_machine_scheme \<Rightarrow> nat \<Rightarrow> ini_section \<Rightarrow> string outcome"
and write_element :: "('r, 'o) ini_machine_scheme \<Rightarrow> nat \<Rightarrow> ini_element \<Rightarrow> string outcome" where
  "write_helper ip dep (IniSection b ec p rw cs vs ss) =
     (let indent = indent_of (subindent ip) (dep - 1); r = rule_of (sections ip) (i_read_by b) in
      obind (rule_line indent (map_option sec_begin r) [i_name b]) (\<lambda>hd_line.
        obind (oconcat (map (\<lambda>x. write_element ip dep (snd x)) cs)) (\<lambda>body.
          obind (rule_line indent (case r of None \<Rightarrow> None | Some r \<Rightarrow> sec_end r) [i_name b]) (\<lambda>end_line.
            Ret (c_str (i_comment b) @ hd_line @ body @ (if c_str ec = [] then [] else indent @ c_str ec) @ end_line)))))"
| "write_element ip dep (VALUE e) = write_entry ip dep e"
| "write_element ip dep (SECTION t) = write_helper ip (Suc dep) t"

end
