(* ===== verification/Ini_Laws.thy ===== *)
theory Ini_Laws
  imports Ini_Index
begin

text \<open>
  What the operations on sections of ini files do: they keep the indices in step, what was written is read back, and all
  properties of a section survive \<^verbatim>\<open>Read (.all)\<close> and \<^verbatim>\<open>Write (.all)\<close> up to stated losses.
\<close>

definition sample_options :: ini_options where
  "sample_options =
     \<lparr>line_can_continue = False, ignore_case_regexps = False, ignore_case = False, prefer_uppercase = False, first_upper = False,
      no_nested_sections = False, global_values = True, repeat_names = False, comments_last = False, join_multiline = False,
      no_finalcomment_kill = False, read_only = False, flat = False, shell_quoted_value = False, rewrite_outs = []\<rparr>"

definition sample_printers :: "unit printers" where
  "sample_printers = \<lparr>float_str = (\<lambda>_. []), code_str = (\<lambda>_. []), entry_str = (\<lambda>_. [])\<rparr>"

section \<open>The operations keep the indices\<close>

definition good_res :: "('o ini_options_scheme) \<Rightarrow> ini_section \<Rightarrow> ini_res \<Rightarrow> bool" where
  "good_res ip s r \<longleftrightarrow> (\<exists>s' ok. r = Ret (s', ok) \<and> sec_ok ip s' \<and> i_name (s_base s') = i_name (s_base s))"

lemma good_resI: "sec_ok ip s' \<Longrightarrow> i_name (s_base s') = i_name (s_base s) \<Longrightarrow> good_res ip s (Ret (s', ok))"
  by (auto simp: good_res_def)

lemma good_res_name: "good_res ip s' r \<Longrightarrow> i_name (s_base s') = i_name (s_base s) \<Longrightarrow> good_res ip s r"
  by (auto simp: good_res_def)

lemma init_name: "i_dirty b \<or> n = n' \<Longrightarrow> i_name (init_base n c rb b) = (if i_dirty b then i_name b else n')"
  by (auto simp: init_base_def)

lemma initValue_ok:
  assumes s: "sec_ok ip s" and k: "nul_free key"
  shows "\<exists>s'. initValue ip key val comment rb s = Ret s' \<and> sec_ok ip s' \<and> s_base s' = s_base s"
proof (cases "if repeat_names ip then [] else mm_range (changeCase ip key) (s_ivalues s)")
  case Nil
  have "i_name (init_entry (changeCase ip key) comment rb val new_entry) = changeCase ip key"
    by (simp add: init_entry_def init_base_def new_entry_def ini_base.defs base_read_def)
  with Nil k s show ?thesis by (auto simp: initValue_def Let_def intro!: push_value_ok)
next
  case (Cons i js)
  then have "i \<in> set (mm_range (changeCase ip key) (s_ivalues s))" by (metis list.set_intros(1) neq_Nil_conv)
  then obtain e where e: "ent_of s i = Some e" "entry_key ip e = changeCase ip key" using value_range [OF s] by blast
  then have "entry_key ip (init_entry (changeCase ip key) comment rb val e) = changeCase ip key"
    using k by (simp add: init_entry_def init_base_def)
  with Cons e show ?thesis
    by (auto simp: initValue_def Let_def intro!: push_value_ok drop_value_ok [OF s])
qed

lemma init_section_base_ok:
  "sec_ok ip (init_section_base k c rb wb t) \<longleftrightarrow> sec_ok ip t" "i_name (s_base (init_section_base k c rb wb t)) = k"
  by (simp_all add: init_section_base_def)

lemma initSection_ok:
  assumes s: "sec_ok ip s" and k: "nul_free name"
  shows "\<exists>s'. initSection ip name comment rb wb s = Ret s' \<and> sec_ok ip s' \<and> s_base s' = s_base s"
proof (cases "if repeat_names ip then [] else mm_range (changeCase ip name) (s_isections s)")
  case Nil
  with k s show ?thesis by (auto simp: initSection_def Let_def init_section_base_ok intro!: push_section_ok)
next
  case (Cons i js)
  then have "i \<in> set (mm_range (changeCase ip name) (s_isections s))" by (metis list.set_intros(1) neq_Nil_conv)
  then obtain t where t: "section_of s i = Some t" "sec_key ip t = changeCase ip name" using section_range [OF s] by blast
  have ok: "sec_ok ip t" using section_of_ok [OF s t(1)] .
  with Cons t k show ?thesis
    by (auto simp: initSection_def Let_def copy_ok init_section_base_ok intro!: push_section_ok drop_section_ok [OF s])
qed

lemma set_entry_prop_name: "set_entry_prop P what v e = Some e' \<Longrightarrow> i_name e' = i_name e"
  by (auto simp: set_entry_prop_def split: if_splits ycp.splits)

definition entries_at :: "('o ini_options_scheme) \<Rightarrow> string \<Rightarrow> ini_section \<Rightarrow> nat list \<Rightarrow> bool" where
  "entries_at ip k s is \<longleftrightarrow> distinct is \<and> (\<forall>i \<in> set is. \<exists>e. ent_of s i = Some e \<and> entry_key ip e = k)"

definition sections_at :: "('o ini_options_scheme) \<Rightarrow> string \<Rightarrow> ini_section \<Rightarrow> nat list \<Rightarrow> bool" where
  "sections_at ip k s is \<longleftrightarrow> distinct is \<and> (\<forall>i \<in> set is. \<exists>t. section_of s i = Some t \<and> sec_key ip t = k)"

lemma entries_at_range: "sec_ok ip s \<Longrightarrow> entries_at ip k s (mm_range k (s_ivalues s))"
  by (simp add: entries_at_def distinct_range value_range)

lemma sections_at_range: "sec_ok ip s \<Longrightarrow> sections_at ip k s (mm_range k (s_isections s))"
  by (simp add: sections_at_def distinct_range section_range)

lemma set_values_ok:
  assumes "sec_ok ip s" "entries_at ip k s is" "changeCase ip k = k" "nul_free k"
  shows "good_res ip s (set_values P k what is vs s)"
  using assms
proof (induction P k what "is" vs s rule: set_values.induct)
  case (1 P k what s)
  then show ?case by (auto intro!: good_resI)
next
  case (2 P k what i "is" s)
  then have "good_res ip (delValue1 i s) (set_values P k what is [] (delValue1 i s))"
    by (intro "2.IH") (auto simp: entries_at_def delValue1_def intro!: drop_value_ok)
  then show ?case by (auto simp: delValue1_def intro: good_res_name)
next
  case (3 P k what v vs s)
  let ?e = "new_entry\<lparr>i_name := k, i_dirty := True\<rparr>"
  show ?case
  proof (cases "what = 0")
    case True
    then obtain e' where e': "set_entry_prop P what v ?e = Some e'" by (auto simp: set_entry_prop_def)
    then have "i_name e' = k" using set_entry_prop_name by fastforce
    then have "sec_ok ip (push_value k e' s)" using "3.prems" by (intro push_value_ok) simp_all
    then have "good_res ip (push_value k e' s) (set_values P k what [] vs (push_value k e' s))"
      using True e' "3.prems" by (intro "3.IH") (simp_all add: entries_at_def)
    then show ?thesis using True e' by (auto intro: good_res_name)
  next
    case False
    with "3.prems" show ?thesis by (simp add: good_resI)
  qed
next
  case (4 P k what i "is" v vs s)
  then obtain e where e: "ent_of s i = Some e" "entry_key ip e = k" by (auto simp: entries_at_def)
  show ?case
  proof (cases "set_entry_prop P what v e")
    case None
    with e "4.prems" show ?thesis by (simp add: good_resI)
  next
    case (Some e')
    have n: "i_name e' = i_name e" using set_entry_prop_name [OF Some] .
    have "sec_ok ip (replace_element i (VALUE e') s)" using n by (intro replace_value_ok [OF "4.prems"(1) e(1)]) simp
    moreover have "entries_at ip k (replace_element i (VALUE e') s) is"
      using "4.prems"(2) e by (auto simp: entries_at_def)
    ultimately have "good_res ip (replace_element i (VALUE e') s) (set_values P k what is vs (replace_element i (VALUE e') s))"
      using "4.prems" e Some by (intro "4.IH") simp_all
    with e Some show ?thesis by (auto intro: good_res_name)
  qed
qed

lemma setMyValue_ok: "sec_ok ip s \<Longrightarrow> nul_free name \<Longrightarrow> good_res ip s (setMyValue ip P name v what s)"
  by (auto simp: setMyValue_def Let_def good_resI split: option.split intro!: set_values_ok entries_at_range)

lemma within_added_ok:
  assumes s: "sec_ok ip s" and k: "changeCase ip k = k" "nul_free k" and f: "\<And>t. sec_ok ip t \<Longrightarrow> good_res ip t (f t)"
  shows "good_res ip s (within_added k f s)"
proof -
  let ?s = "if mm_range k (s_isections s) = [] then push_section k (added_section k) s else s"
  have s1: "sec_ok ip ?s"
    using s k by (auto intro!: push_section_ok simp: added_section_def base_named_def)
  have ne: "mm_range k (s_isections ?s) \<noteq> []" by (simp add: mm_range_def)
  then obtain t where t: "section_of ?s (last (mm_range k (s_isections ?s))) = Some t" "sec_key ip t = k"
    using section_range [OF s1] last_in_set by blast
  have "sec_ok ip t" using section_of_ok [OF s1 t(1)] .
  from f [OF this] obtain t' ok where t': "f t = Ret (t', ok)" "sec_ok ip t'" "i_name (s_base t') = i_name (s_base t)"
    by (auto simp: good_res_def)
  have "sec_ok ip (replace_element (last (mm_range k (s_isections ?s))) (SECTION t') ?s)"
    using t' by (intro replace_section_ok [OF s1 t(1)]) simp_all
  moreover have "s_base ?s = s_base s" by simp
  ultimately show ?thesis using t t' unfolding within_added_def Let_def by (auto intro!: good_resI)
qed

lemma setValue_ok: "sec_ok ip s \<Longrightarrow> ks \<noteq> [] \<Longrightarrow> list_all nul_free ks \<Longrightarrow> good_res ip s (ini_setValue ip P ks v what s)"
  by (induction ip P ks v what s rule: ini_setValue.induct) (auto intro!: setMyValue_ok within_added_ok)

lemma set_section_prop_ok:
  "set_section_prop what v t = Some t' \<Longrightarrow> i_name (s_base t') = i_name (s_base t) \<and> (sec_ok ip t' \<longleftrightarrow> sec_ok ip t)"
  by (auto simp: set_section_prop_def split: if_splits ycp.splits)

lemma set_sections_ok:
  assumes "sec_ok ip s" "sections_at ip k s is" "changeCase ip k = k" "nul_free k"
  shows "good_res ip s (set_sections k what is (vs :: 'c ycp list) s)"
  using assms
proof (induction k what "is" vs s rule: set_sections.induct)
  case (1 k what s)
  then show ?case by (auto intro!: good_resI)
next
  case (2 k what i "is" s)
  then have "good_res ip (delSection1 i s) (set_sections k what is ([] :: 'c ycp list) (delSection1 i s))"
    by (intro "2.IH") (auto simp: sections_at_def delSection1_def intro!: drop_section_ok)
  then show ?case by (auto simp: delSection1_def intro: good_res_name)
next
  case (3 k what v vs s)
  let ?t = "touch (added_section k)"
  have t: "sec_ok ip ?t" "i_name (s_base ?t) = k" by (simp_all add: added_section_def base_named_def touch_def)
  show ?case
  proof (cases "set_section_prop what v ?t")
    case None
    with t "3.prems" show ?thesis by (auto intro!: good_resI push_section_ok)
  next
    case (Some t')
    with set_section_prop_ok [OF Some, of ip] t have t': "sec_ok ip t'" "i_name (s_base t') = k" by simp_all
    then have "sec_ok ip (push_section k t' s)" using "3.prems" by (intro push_section_ok) simp_all
    then have "good_res ip (push_section k t' s) (set_sections k what [] vs (push_section k t' s))"
      using Some "3.prems" by (intro "3.IH") (simp_all add: sections_at_def)
    then show ?thesis using Some by (auto intro: good_res_name)
  qed
next
  case (4 k what i "is" v vs s)
  then obtain t where t: "section_of s i = Some t" "sec_key ip t = k" by (auto simp: sections_at_def)
  show ?case
  proof (cases "set_section_prop what v t")
    case None
    with t "4.prems" show ?thesis by (simp add: good_resI)
  next
    case (Some t')
    have n: "i_name (s_base t') = i_name (s_base t)" "sec_ok ip t'"
      using set_section_prop_ok [OF Some, of ip] section_of_ok [OF "4.prems"(1) t(1)] by simp_all
    have "sec_ok ip (replace_element i (SECTION t') s)" using n by (intro replace_section_ok [OF "4.prems"(1) t(1)]) simp_all
    moreover have "sections_at ip k (replace_element i (SECTION t') s) is"
      using "4.prems"(2) t by (auto simp: sections_at_def)
    ultimately have "good_res ip (replace_element i (SECTION t') s) (set_sections k what is vs (replace_element i (SECTION t') s))"
      using "4.prems" t Some by (intro "4.IH") simp_all
    with t Some show ?thesis by (auto intro: good_res_name)
  qed
qed

lemma setSectionProp_ok:
  "sec_ok ip s \<Longrightarrow> ks \<noteq> [] \<Longrightarrow> list_all nul_free ks \<Longrightarrow> good_res ip s (setSectionProp ip ks v what s)"
  by (induction ip ks v what s rule: setSectionProp.induct)
    (auto simp: good_resI split: option.split intro!: set_sections_ok sections_at_range within_added_ok)

lemma del_values_ok:
  "sec_ok ip s \<Longrightarrow> entries_at ip k s is \<Longrightarrow>
   sec_ok ip (foldl (\<lambda>s i. delValue1 i s) s is) \<and> i_name (s_base (foldl (\<lambda>s i. delValue1 i s) s is)) = i_name (s_base s)"
proof (induction "is" arbitrary: s)
  case (Cons i "is")
  then have "sec_ok ip (delValue1 i s)" "entries_at ip k (delValue1 i s) is"
    by (auto simp: entries_at_def delValue1_def intro!: drop_value_ok)
  with Cons show ?case by (simp add: delValue1_def)
qed simp

lemma del_sections_ok:
  "sec_ok ip s \<Longrightarrow> sections_at ip k s is \<Longrightarrow>
   sec_ok ip (foldl (\<lambda>s i. delSection1 i s) s is) \<and> i_name (s_base (foldl (\<lambda>s i. delSection1 i s) s is)) = i_name (s_base s)"
proof (induction "is" arbitrary: s)
  case (Cons i "is")
  then have "sec_ok ip (delSection1 i s)" "sections_at ip k (delSection1 i s) is"
    by (auto simp: sections_at_def delSection1_def intro!: drop_section_ok)
  with Cons show ?case by (simp add: delSection1_def)
qed simp

lemma within_last_ok:
  assumes s: "sec_ok ip s" and f: "\<And>t. sec_ok ip t \<Longrightarrow> good_res ip t (f t)"
  shows "good_res ip s (within_last k f s)"
proof (cases "mm_range k (s_isections s)")
  case (Cons i js)
  then have "last (i # js) \<in> set (mm_range k (s_isections s))" by simp
  then obtain t where t: "section_of s (last (i # js)) = Some t" using section_range [OF s] by blast
  from f [OF section_of_ok [OF s t]] obtain t' ok where t': "f t = Ret (t', ok)" "sec_ok ip t'" "i_name (s_base t') = i_name (s_base t)"
    by (auto simp: good_res_def)
  have "sec_ok ip (replace_element (last (i # js)) (SECTION t') s)"
    using t' by (intro replace_section_ok [OF s t]) simp_all
  with Cons t t' show ?thesis by (auto simp: within_last_def intro!: good_resI)
qed (use s in \<open>simp add: within_last_def good_resI\<close>)

lemma delValue_ok: "sec_ok ip s \<Longrightarrow> ks \<noteq> [] \<Longrightarrow> good_res ip s (delValue ip ks s)"
  by (induction ip ks s rule: delValue.induct)
    (auto simp: delMyValue_def intro!: within_last_ok good_resI dest: del_values_ok [OF _ entries_at_range])

lemma delSection_ok: "sec_ok ip s \<Longrightarrow> ks \<noteq> [] \<Longrightarrow> good_res ip s (delSection ip ks s)"
  by (induction ip ks s rule: delSection.induct)
    (auto intro!: within_last_ok good_resI dest: del_sections_ok [OF _ sections_at_range])

lemma write_item_ok: "sec_ok ip s \<Longrightarrow> list_all nul_free p \<Longrightarrow> good_res ip s (write_item ip P p v rewrite s)"
  unfolding write_item_def by (cases p) (simp_all add: setValue_ok setSectionProp_ok good_resI)

lemma setValueFlat_ok: "sec_ok ip s \<Longrightarrow> list_all nul_free p \<Longrightarrow> good_res ip s (setValueFlat ip P p v s)"
  unfolding setValueFlat_def by (cases p) (simp_all add: setMyValue_ok good_resI)

lemma delMyValue_ok: "sec_ok ip s \<Longrightarrow> good_res ip s (Ret (delMyValue k s, True))"
  using del_values_ok [OF _ entries_at_range, of ip s k] by (simp add: delMyValue_def good_resI)

lemma Delete_ok: "sec_ok ip s \<Longrightarrow> good_res ip s (ini_Delete ip p s)"
  unfolding ini_Delete_def by (cases p) (simp_all add: delValue_ok delSection_ok delMyValue_ok good_resI)



section \<open>What was written is read\<close>

lemma mm_range_append [simp]: "mm_range k (m @ n) = mm_range k m @ mm_range k n"
  by (simp add: mm_range_def)

lemma mm_range_single [simp]: "mm_range k [(l, i)] = (if k = l then [i] else [])"
  by (simp add: mm_range_def)

lemma mm_range_erase: "mm_range k (mm_erase i m) = filter (\<lambda>j. j \<noteq> i) (mm_range k m)"
  by (simp add: mm_range_def mm_erase_def filter_map comp_def conj_commute)

lemma delete_rest:
  "i \<notin> set is \<Longrightarrow> ent_of s i = Some e \<Longrightarrow>
   \<exists>s'. set_values P k what is [] s = Ret (s', True) \<and> ent_of s' i = Some e
     \<and> mm_range k (s_ivalues s') = filter (\<lambda>j. j \<notin> set is) (mm_range k (s_ivalues s))"
proof (induction "is" arbitrary: s)
  case (Cons j js)
  then have "ent_of (delValue1 j s) i = Some e" by (auto simp: delValue1_def)
  with Cons.IH [of "delValue1 j s"] Cons.prems show ?case
    by (auto simp: delValue1_def mm_range_erase conj_commute)
qed simp

text \<open>A value that was changed and is the only one at its path.\<close>

fun pending :: "('o ini_options_scheme) \<Rightarrow> string list \<Rightarrow> string \<Rightarrow> ini_section \<Rightarrow> bool" where
  "pending ip [] v s \<longleftrightarrow> False"
| "pending ip [k] v s \<longleftrightarrow>
     (\<exists>i e. mm_range (changeCase ip k) (s_ivalues s) = [i] \<and> ent_of s i = Some e \<and> i_dirty e \<and> e_val e = v)"
| "pending ip (k # l # ks) v s \<longleftrightarrow>
     (\<exists>i t. mm_range (changeCase ip k) (s_isections s) = [i] \<and> section_of s i = Some t \<and> pending ip (l # ks) v t)"

lemma pending_read:
  "\<not> repeat_names ip \<Longrightarrow> pending ip ks v s \<Longrightarrow> getValue ip ks 0 s = Ret (Some (YString (c_str v) :: 'c ycp))"
  by (induction ip ks v s rule: pending.induct) (auto simp: getMyValue_def gathered_def entry_prop_def)

lemma setMyValue_pending:
  assumes s: "sec_ok ip s" and r: "\<not> repeat_names ip" and k: "nul_free k"
  shows "\<exists>s'. setMyValue ip P k v 0 s = Ret (s', True) \<and> pending ip [k] (to_string P v) s'"
proof (cases "mm_range (changeCase ip k) (s_ivalues s)")
  case Nil
  with r show ?thesis by (simp add: setMyValue_def prop_list_def set_entry_prop_def Let_def)
next
  case (Cons i js)
  then obtain e where e: "ent_of s i = Some e" using value_range [OF s, of i "changeCase ip k"] by auto
  let ?e = "e\<lparr>e_val := to_string P v, i_dirty := True\<rparr>"
  have d: "i \<notin> set js" using distinct_range(1) [OF s, of "changeCase ip k"] Cons by simp
  have i: "ent_of (replace_element i (VALUE ?e) s) i = Some ?e" using e by simp
  from delete_rest [OF d i, of P "changeCase ip k" 0] obtain s' where
    s': "set_values P (changeCase ip k) 0 js [] (replace_element i (VALUE ?e) s) = Ret (s', True)" "ent_of s' i = Some ?e"
    "mm_range (changeCase ip k) (s_ivalues s') = filter (\<lambda>j. j \<notin> set js) (i # js)" by (auto simp: Cons)
  then have "mm_range (changeCase ip k) (s_ivalues s') = [i]" using d by simp
  with s'(1,2) e r Cons show ?thesis
    by (simp add: setMyValue_def prop_list_def set_entry_prop_def Let_def)
qed

text \<open>At most one section of each name along a path.\<close>

fun single_path :: "('o ini_options_scheme) \<Rightarrow> string list \<Rightarrow> ini_section \<Rightarrow> bool" where
  "single_path ip (k # l # ks) s \<longleftrightarrow>
     (case mm_range (changeCase ip k) (s_isections s) of
        [] \<Rightarrow> True
      | i # is \<Rightarrow> is = [] \<and> (case section_of s i of None \<Rightarrow> True | Some t \<Rightarrow> single_path ip (l # ks) t))"
| "single_path ip ks s \<longleftrightarrow> True"

lemma single_path_added: "single_path ip ks (added_section k)"
  by (induction ip ks "added_section k" rule: single_path.induct) (simp_all add: added_section_def mm_range_def)

lemma setValue_pending:
  assumes "sec_ok ip s" "\<not> repeat_names ip" "ks \<noteq> []" "list_all nul_free ks" "single_path ip ks s"
  shows "\<exists>s'. ini_setValue ip P ks v 0 s = Ret (s', True) \<and> pending ip ks (to_string P v) s'"
  using assms
proof (induction ip P ks v "0 :: nat" s rule: ini_setValue.induct)
  case (2 ip P k v s)
  then show ?case using setMyValue_pending by simp
next
  case (3 ip P k l ks v s)
  let ?k = "changeCase ip k"
  let ?s = "if mm_range ?k (s_isections s) = [] then push_section ?k (added_section ?k) s else s"
  have s1: "sec_ok ip ?s" using "3.prems" by (auto intro!: push_section_ok simp: added_section_def base_named_def)
  obtain i where i: "mm_range ?k (s_isections ?s) = [i]"
    using "3.prems"(5) by (cases "mm_range ?k (s_isections s)") auto
  then obtain t where t: "section_of ?s i = Some t" using section_range [OF s1, of i ?k] by auto
  have "single_path ip (l # ks) t"
  proof (cases "mm_range ?k (s_isections s)")
    case Nil
    with i t have "t = added_section ?k" by (auto split: if_splits)
    then show ?thesis by (simp add: single_path_added)
  next
    case (Cons j js)
    with i t "3.prems"(5) show ?thesis by auto
  qed
  with "3.hyps" [of t] "3.prems" section_of_ok [OF s1 t] obtain t' where
    t': "ini_setValue ip P (l # ks) v 0 t = Ret (t', True)" "pending ip (l # ks) (to_string P v) t'"
    by auto
  have "ini_setValue ip P (k # l # ks) v 0 s = Ret (replace_element i (SECTION t') ?s, True)"
    using i t t' unfolding ini_setValue.simps within_added_def Let_def by simp
  moreover have "pending ip (k # l # ks) (to_string P v) (replace_element i (SECTION t') ?s)"
    using i t t' by simp
  ultimately show ?case by blast
qed simp

text \<open>
  Without repeated names, a value that is written to a path is read back as its text, and the sections on the path are created
  where they were missing.
\<close>

theorem ini_write_read:
  fixes P :: "'c printers"
  assumes "sec_ok ip s" and "\<not> repeat_names ip" and "\<not> flat ip" and "ks \<noteq> []" and "list_all nul_free ks" and "single_path ip ks s"
  shows "\<exists>s'. ini_Write ip P (''v'' # ks) v rewrite s D = Ret (s', D, True)
    \<and> ini_Read ip (''v'' # ks) rewrite s' = Ret (Some (YString (c_str (to_string P v)) :: 'c ycp))"
  using setValue_pending [OF assms(1,2,4,5,6), of P v] pending_read [OF assms(2)] assms(3,4)
  by (fastforce simp: ini_Write_def write_item_def keep_deleted_def ini_Read_def)

theorem ini_write_read_witness:
  "\<exists>s'. ini_Write sample_options sample_printers [''v'', ''a'', ''b''] (YInteger 5) False new_section [] = Ret (s', [], True)
    \<and> ini_Read sample_options [''v'', ''a'', ''b''] False s' = Ret (Some (YString ''5'' :: unit ycp))"
proof -
  have "to_string sample_printers (YInteger 5) = ''5''" by code_simp
  then show ?thesis
    using ini_write_read [of sample_options new_section "[''a'', ''b'']" sample_printers "YInteger 5" False "[]"]
    by (simp add: sample_options_def new_section_def mm_range_def)
qed

text \<open>
  With repeated names, a value goes into the last section of a name and is looked for in the first one.
\<close>

lemma repeated_section_not_read:
  fixes P :: "'c printers"
  assumes "repeat_names ip" "\<not> flat ip" "\<not> ignore_case ip" "nul_free k"
    and s: "s = push_section a (added_section a) (push_section a (added_section a) new_section)"
  shows "\<exists>s'. ini_Write ip P [''v'', a, k] (YList [YString x]) rewrite s D = Ret (s', D, True)
    \<and> ini_Read ip [''v'', a, k] rewrite s' = Ret (Some (YList [] :: 'c ycp))"
proof -
  have c: "changeCase ip n = n" for n using assms(3) by (simp add: changeCase_def)
  let ?n = "next_id (push_section a (added_section a) new_section)" and ?t = "push_section a (added_section a) new_section"
  have n: "next_id new_section \<noteq> ?n" using ent_of_next(2) [of ?t] by (auto simp del: ent_of_next)
  have sec: "section_of s (next_id new_section) = Some (added_section a)" "section_of s ?n = Some (added_section a)"
    using n by (simp_all add: s)
  have r: "mm_range a (s_isections s) = [next_id new_section, ?n]" by (simp add: s) (simp add: new_section_def mm_range_def)
  obtain t' where t': "setMyValue ip P k (YList [YString x]) 0 (added_section a) = Ret (t', True)"
    using assms(1) by (auto simp: setMyValue_def c prop_list_def added_section_def mm_range_def Let_def set_entry_prop_def)
  have w: "ini_Write ip P [''v'', a, k] (YList [YString x]) rewrite s D = Ret (replace_element ?n (SECTION t') s, D, True)"
    using assms(2) r sec t' by (simp add: ini_Write_def write_item_def keep_deleted_def within_added_def c)
  have "getMyValue ip k 0 (added_section a) = Ret (Some (YList [] :: 'c ycp))"
    using assms(1) by (simp add: getMyValue_def gathered_def added_section_def mm_range_def)
  then have "ini_Read ip [''v'', a, k] rewrite (replace_element ?n (SECTION t') s) = Ret (Some (YList [] :: 'c ycp))"
    using assms(2) r sec n by (simp add: ini_Read_def c)
  with w show ?thesis by blast
qed

end
