(* ===== verification/Ini_Safety.thy ===== *)
theory Ini_Safety
  imports Ini_Parser Ini_Laws
begin

text \<open>
  Parsing an ini file uses only iterators that are in their lists, indices that are in range and subexpressions that the
  expressions have, keeps the indices of all sections in step with their containers, and comes to an end.
\<close>

section \<open>Outcomes\<close>

text \<open>The result satisfies \<open>P\<close>; with \<open>b\<close>, the program may also not return.\<close>

fun run_safe :: "bool \<Rightarrow> ('a \<Rightarrow> bool) \<Rightarrow> 'a outcome \<Rightarrow> bool" where
  "run_safe b P (Ret x) = P x"
| "run_safe b P Undef = False"
| "run_safe b P OutOfFuel = b"

lemma run_safe_bind: "run_safe b Q r \<Longrightarrow> (\<And>x. Q x \<Longrightarrow> run_safe b P (f x)) \<Longrightarrow> run_safe b P (obind r f)"
  by (cases r) auto

section \<open>Regular expressions\<close>

text \<open>
  What \<^verbatim>\<open>regexec\<close> documents: the match, and every subexpression that took part in it, is a range of the string.
\<close>

definition rx_ok :: "'r regex_lib \<Rightarrow> bool" where
  "rx_ok L \<longleftrightarrow> (\<forall>rx t ms. rx_exec L rx t = Some ms \<longrightarrow>
     ms \<noteq> [] \<and> fst (hd ms) \<noteq> - 1 \<and> (\<forall>p \<in> set ms. fst p = - 1 \<or> 0 \<le> fst p \<and> fst p \<le> snd p \<and> snd p \<le> int (length t)))"

text \<open>An expression all whose matches give at least the subexpressions 0 to \<open>n\<close>.\<close>

definition has_groups :: "'r regex_lib \<Rightarrow> nat \<Rightarrow> 'r \<Rightarrow> bool" where
  "has_groups L n rx \<longleftrightarrow> (\<forall>t ms. rx_exec L rx t = Some ms \<longrightarrow> n < length (takeWhile (\<lambda>p. fst p \<noteq> - 1) (take 20 ms)))"

lemma has_groups_0:
  assumes "rx_ok L"
  shows "has_groups L 0 rx"
  unfolding has_groups_def
proof (intro allI impI)
  fix t ms
  assume "rx_exec L rx t = Some ms"
  with assms have "ms \<noteq> []" "fst (hd ms) \<noteq> - 1" unfolding rx_ok_def by blast+
  then show "0 < length (takeWhile (\<lambda>p. fst p \<noteq> - 1) (take 20 ms))" by (cases ms) simp_all
qed

lemma take_c_str: "n \<le> length (c_str s) \<Longrightarrow> take n s = take n (c_str s)"
  unfolding c_str_def by (metis takeWhile_eq_take min.absorb1 take_take)

lemma match_part_ok:
  assumes "0 \<le> fst p" "fst p \<le> snd p" "snd p \<le> int (length (c_str s))"
  shows "\<exists>t. match_part s p = Ret t \<and> nul_free t"
proof -
  have "length (c_str s) \<le> length s" unfolding c_str_def by (rule length_takeWhile_le)
  with assms have "match_part s p = Ret (take (nat (snd p - fst p)) (drop (nat (fst p)) s))" by (auto simp: match_part_def)
  moreover have "take (nat (snd p - fst p)) (drop (nat (fst p)) s) = drop (nat (fst p)) (take (nat (snd p)) (c_str s))"
    using assms by (simp add: take_drop nat_diff_distrib take_c_str [symmetric])
  moreover have "set (drop (nat (fst p)) (take (nat (snd p)) (c_str s))) \<subseteq> set (c_str s)"
    by (meson order_trans set_drop_subset set_take_subset)
  ultimately show ?thesis by (auto simp: nul_free_def c_str_def dest!: set_takeWhileD subsetD)
qed

lemma match_parts_ok:
  "\<forall>p \<in> set ps. 0 \<le> fst p \<and> fst p \<le> snd p \<and> snd p \<le> int (length (c_str s)) \<Longrightarrow>
   \<exists>ts. match_parts s ps = Ret ts \<and> length ts = length ps \<and> list_all nul_free ts"
proof (induction ps)
  case (Cons p ps)
  with match_part_ok [of p s] show ?case by auto
qed simp

definition match_ok :: "nat \<Rightarrow> regex_match \<Rightarrow> bool" where
  "match_ok n m \<longleftrightarrow> list_all nul_free (rm_matches m) \<and> n < length (rm_matches m)"

lemma RegexMatch_ok:
  assumes L: "rx_ok L"
  shows "\<exists>m. RegexMatch L rx s k = Ret m \<and> (k = 20 \<and> has_groups L n rx \<and> rm_matches m \<noteq> [] \<longrightarrow> match_ok n m)"
proof (cases "rx_exec L rx (c_str s)")
  case (Some ms)
  let ?ps = "takeWhile (\<lambda>p. fst p \<noteq> - 1) (take (max 1 k) ms)"
  from L Some have ms: "ms \<noteq> []" "fst (hd ms) \<noteq> - 1"
    "\<forall>p \<in> set ms. fst p = - 1 \<or> 0 \<le> fst p \<and> fst p \<le> snd p \<and> snd p \<le> int (length (c_str s))" unfolding rx_ok_def by blast+
  have "\<forall>p \<in> set ?ps. 0 \<le> fst p \<and> fst p \<le> snd p \<and> snd p \<le> int (length (c_str s))"
    using ms(3) by (blast dest: set_takeWhileD in_set_takeD)
  from match_parts_ok [OF this] obtain ts where ts: "match_parts s ?ps = Ret ts" "length ts = length ?ps" "list_all nul_free ts" by blast
  have "length (c_str s) \<le> length s" unfolding c_str_def by (rule length_takeWhile_le)
  with ms obtain so eo ms' where p: "ms = (so, eo) # ms'" "0 \<le> so" "0 \<le> eo" "eo \<le> int (length s)" by (cases ms) force+
  with Some ts(1) have "RegexMatch L rx s k = Ret \<lparr>rm_matches = ts, rm_rest = take (nat so) s @ drop (nat eo) s\<rparr>"
    by (simp add: RegexMatch_def)
  moreover have "n < length ts" if "k = 20" "has_groups L n rx"
    using that ts(2) Some unfolding has_groups_def by simp
  ultimately show ?thesis using ts(3) by (simp add: match_ok_def)
qed (simp add: RegexMatch_def)

lemma first_match_ok:
  assumes L: "rx_ok L"
  shows "\<forall>r \<in> set rxs. has_groups L n (snd r) \<Longrightarrow>
    \<exists>r. first_match L 20 rxs s = Ret r \<and> (\<forall>i m. r = Some (i, m) \<longrightarrow> i \<in> fst ` set rxs \<and> match_ok n m)"
proof (induction rxs)
  case (Cons x rxs)
  obtain i rx where x: "x = (i, rx)" by fastforce
  from RegexMatch_ok [OF L, of rx s 20 n] obtain m where
    "RegexMatch L rx s 20 = Ret m" "has_groups L n rx \<and> rm_matches m \<noteq> [] \<longrightarrow> match_ok n m" by blast
  with Cons x show ?case by auto
qed simp

lemma first_match_returns: "rx_ok L \<Longrightarrow> \<exists>r. first_match L k rxs s = Ret r"
proof (induction rxs)
  case (Cons x rxs)
  obtain i rx where x: "x = (i, rx)" by fastforce
  from RegexMatch_ok [OF Cons.prems, of rx s k] obtain m where "RegexMatch L rx s k = Ret m" by blast
  with Cons x show ?case by auto
qed simp

lemma submatch_ok: "match_ok n m \<Longrightarrow> i \<le> n \<Longrightarrow> \<exists>t. submatch m i = Ret t \<and> nul_free t"
  by (auto simp: match_ok_def submatch_def list_all_length)

section \<open>Rules of the sections\<close>

text \<open>The rules that subsections were read by, at any depth, are rules of the machine.\<close>

fun subs_ok :: "nat \<Rightarrow> ini_section \<Rightarrow> bool"
and sub_ok :: "nat \<Rightarrow> ini_element \<Rightarrow> bool" where
  "subs_ok n (IniSection b ec p rw cs vs ss) \<longleftrightarrow> (\<forall>x \<in> set cs. sub_ok n (snd x))"
| "sub_ok n (VALUE e) \<longleftrightarrow> True"
| "sub_ok n (SECTION t) \<longleftrightarrow> 0 \<le> i_read_by (s_base t) \<and> i_read_by (s_base t) < int n \<and> subs_ok n t"

lemma subs_ok_iff: "subs_ok n s \<longleftrightarrow> (\<forall>x \<in> set (s_container s). sub_ok n (snd x))"
  by (cases s) simp

lemma subs_ok_fields [simp]: "subs_ok n (set_base f s) \<longleftrightarrow> subs_ok n s" "subs_ok n (set_rest fe fp fr s) \<longleftrightarrow> subs_ok n s"
  by (simp_all add: subs_ok_iff)

lemma subs_ok_new [simp]: "subs_ok n new_section"
  by (simp add: new_section_def)

lemma subs_ok_changes:
  "subs_ok n s \<Longrightarrow> subs_ok n (push_value k e s)" "subs_ok n s \<Longrightarrow> subs_ok n (drop_value i s)" "subs_ok n s \<Longrightarrow> subs_ok n (drop_section i s)"
  "subs_ok n s \<Longrightarrow> sub_ok n (SECTION t) \<Longrightarrow> subs_ok n (push_section k t s)"
  "subs_ok n s \<Longrightarrow> sub_ok n x \<Longrightarrow> subs_ok n (replace_element i x s)"
  using erase_id_subset [of i "s_container s"]
  by (auto simp: subs_ok_iff [of _ s] subs_ok_iff [of _ "set_lists fc fv fs s" for fc fv fs] push_value_def drop_value_def drop_section_def
      push_section_def replace_element_def replace_id_def Let_def simp del: sub_ok.simps(2) split: if_splits)

lemma section_of_sub: "subs_ok n s \<Longrightarrow> section_of s i = Some t \<Longrightarrow> sub_ok n (SECTION t)"
  by (force simp: subs_ok_iff [of _ s] section_of_def simp del: sub_ok.simps(2) split: option.splits ini_element.splits dest!: map_of_SomeD)

definition tree_ok :: "('r, 'o) ini_machine_scheme \<Rightarrow> ini_section \<Rightarrow> bool" where
  "tree_ok ip s \<longleftrightarrow> sec_ok ip s \<and> subs_ok (length (sections ip)) s"

definition same_rule :: "ini_section \<Rightarrow> ini_section \<Rightarrow> bool" where
  "same_rule s t \<longleftrightarrow> i_name (s_base s) = i_name (s_base t) \<and> i_read_by (s_base s) = i_read_by (s_base t)"

lemma tree_ok_section: "tree_ok ip s \<Longrightarrow> section_of s i = Some t \<Longrightarrow> tree_ok ip t"
  using section_of_sub [of "length (sections ip)" s i t] by (auto simp: tree_ok_def section_of_ok)

lemma initValue_tree:
  assumes "tree_ok ip s" "nul_free key"
  shows "\<exists>s'. initValue ip key val comment rb s = Ret s' \<and> tree_ok ip s' \<and> same_rule s' s"
proof -
  from assms initValue_ok [of ip s key val comment rb] obtain s' where
    s': "initValue ip key val comment rb s = Ret s'" "sec_ok ip s'" "s_base s' = s_base s" by (auto simp: tree_ok_def)
  moreover have "subs_ok (length (sections ip)) s'"
    using s'(1) assms(1) by (auto simp: initValue_def Let_def tree_ok_def intro!: subs_ok_changes split: list.splits option.splits)
  ultimately show ?thesis by (simp add: tree_ok_def same_rule_def)
qed

text \<open>The new section is the last of the container.\<close>

lemma push_last: "fst (last (s_container (push_section k t s))) = next_id s"
  by (simp add: push_section_def next_id_def Let_def)

lemma initSection_new:
  assumes s: "tree_ok ip s" and n: "nul_free name" and i: "i < length (sections ip)"
  shows "\<exists>s' t. initSection ip name comment (int i) wb s = Ret s' \<and> tree_ok ip s' \<and> same_rule s' s
    \<and> section_of s' (fst (last (s_container s'))) = Some t"
proof -
  let ?n = "length (sections ip)"
  from assms initSection_ok [of ip s name comment "int i" wb] obtain s' where
    s': "initSection ip name comment (int i) wb s = Ret s'" "sec_ok ip s'" "s_base s' = s_base s" by (auto simp: tree_ok_def)
  have new: "sub_ok ?n (SECTION (init_section_base k comment (int i) wb t))" if "subs_ok ?n t" for k t
    using that i by (simp add: init_section_base_def)
  have old: "subs_ok ?n (copy_section ip t) \<and> sub_ok ?n (SECTION (copy_section ip t))" if "section_of s j = Some t" for j t
    using that s section_of_sub [of ?n s j t] copy_ok [OF section_of_ok [of ip s j t]] by (simp add: tree_ok_def)
  have "subs_ok ?n s' \<and> (\<exists>k t s0. s' = push_section k t s0)"
    using s'(1) s new old
    by (auto simp: initSection_def Let_def tree_ok_def intro!: subs_ok_changes simp del: sub_ok.simps(2) split: list.splits option.splits if_splits)
  with s' show ?thesis by (auto simp: tree_ok_def same_rule_def push_last)
qed

lemma setEndComment_tree: "tree_ok ip s \<Longrightarrow> tree_ok ip (setEndComment c s) \<and> same_rule (setEndComment c s) s"
  by (simp add: setEndComment_def tree_ok_def same_rule_def)

section \<open>Open sections\<close>

lemma open_at_append: "open_at (is @ js) s = obind (open_at is s) (open_at js)"
  by (induction "is" arbitrary: s) (auto split: option.split)

lemma open_at_tree: "tree_ok ip s \<Longrightarrow> open_at is s = Ret t \<Longrightarrow> tree_ok ip t"
  by (induction "is" arbitrary: s) (auto split: option.splits dest: tree_ok_section)

lemma open_at_rule:
  "subs_ok n s \<Longrightarrow> is \<noteq> [] \<Longrightarrow> open_at is s = Ret t \<Longrightarrow> 0 \<le> i_read_by (s_base t) \<and> i_read_by (s_base t) < int n"
proof (induction "is" arbitrary: s)
  case (Cons i js)
  from Cons.prems obtain u where "section_of s i = Some u" "open_at js u = Ret t" by (auto split: option.splits)
  with Cons section_of_sub [of n s i u] show ?case by (cases "js = []") auto
qed simp

lemma within_open_tree:
  assumes f: "\<And>t. tree_ok ip t \<Longrightarrow> \<exists>t'. f t = Ret t' \<and> tree_ok ip t' \<and> same_rule t' t"
  shows "tree_ok ip s \<Longrightarrow> open_at is s = Ret t \<Longrightarrow>
    \<exists>s' t'. within_open is f s = Ret s' \<and> tree_ok ip s' \<and> same_rule s' s \<and> f t = Ret t' \<and> open_at is s' = Ret t'"
proof (induction "is" arbitrary: s)
  case Nil
  with f [of s] show ?case by auto
next
  case (Cons i js)
  then obtain u where u: "section_of s i = Some u" "open_at js u = Ret t" by (auto split: option.splits)
  with Cons tree_ok_section [of ip s i u] obtain u' t' where
    u': "within_open js f u = Ret u'" "tree_ok ip u'" "same_rule u' u" "f t = Ret t'" "open_at js u' = Ret t'" by blast
  have "sub_ok (length (sections ip)) (SECTION u')"
    using u' u(1) Cons.prems(1) section_of_sub [of "length (sections ip)" s i u] by (auto simp: tree_ok_def same_rule_def)
  then have "tree_ok ip (replace_element i (SECTION u') s)"
    using u(1) u' Cons.prems(1) replace_section_ok [of ip s i u u'] by (auto simp: tree_ok_def same_rule_def intro: subs_ok_changes)
  with u u' show ?case by (simp add: same_rule_def)
qed

lemma open_names_length: "open_at is s = Ret t \<Longrightarrow> \<exists>os. open_names is s = Ret os \<and> length os = length is"
proof (induction "is" arbitrary: s)
  case (Cons i js)
  then obtain u where "section_of s i = Some u" "open_at js u = Ret t" by (auto split: option.splits)
  with Cons.IH [of u] show ?case by auto
qed simp

lemma open_at_drop:
  assumes "open_at (rev is) s = Ret t"
  shows "\<exists>t'. open_at (rev (drop n is)) s = Ret t'"
proof -
  have "rev is = rev (drop n is) @ rev (take n is)" by (simp flip: rev_append)
  with assms show ?thesis by (cases "open_at (rev (drop n is)) s") (auto simp: open_at_append)
qed

section \<open>Steps of the parser\<close>

text \<open>The subexpressions the parser takes from a match are those of the rules.\<close>

definition machine_ok :: "'r regex_lib \<Rightarrow> ('r, 'o) ini_machine_scheme \<Rightarrow> bool" where
  "machine_ok L ip \<longleftrightarrow> rx_ok L
     \<and> (\<forall>r \<in> set (sections ip). has_groups L 1 (io_rx (sec_begin r)))
     \<and> (\<forall>r \<in> set (params ip). has_groups L 2 (io_rx (par_line r))
         \<and> (\<forall>b e. par_multiline r = Some (b, e) \<longrightarrow> has_groups L 2 b \<and> has_groups L 1 e))"

text \<open>\<open>Q\<close> is a property of the section that is built.\<close>

definition parse_inv :: "(('r, 'o) ini_machine_scheme \<Rightarrow> ini_section \<Rightarrow> bool) \<Rightarrow> ('r, 'o) ini_machine_scheme \<Rightarrow> parse_state \<Rightarrow> bool" where
  "parse_inv Q ip st \<longleftrightarrow> tree_ok ip (ps_ini st) \<and> Q ip (ps_ini st) \<and> (\<exists>t. open_at (rev (ps_open st)) (ps_ini st) = Ret t) \<and> nul_free (ps_key st)
     \<and> (\<forall>j. ps_multi st = Some j \<longrightarrow> j < length (params ip) \<and> par_multiline (params ip ! j) \<noteq> None)"

abbreviation parse_safe ::
  "(('r, 'o) ini_machine_scheme \<Rightarrow> ini_section \<Rightarrow> bool) \<Rightarrow> ('r, 'o) ini_machine_scheme \<Rightarrow> parse_state outcome \<Rightarrow> bool" where
  "parse_safe Q ip \<equiv> run_safe (shell_quoted_value ip) (parse_inv Q ip)"

text \<open>
  What a property of sections has to promise to hold after a file was parsed: the three changes that parsing makes to open sections keep it.
\<close>

locale section_invariant =
  fixes Q :: "('r, 'o) ini_machine_scheme \<Rightarrow> ini_section \<Rightarrow> bool"
  assumes init_value: "tree_ok ip s \<Longrightarrow> Q ip s \<Longrightarrow> within_open is (initValue ip key v comment rb) s = Ret s' \<Longrightarrow> Q ip s'"
    and init_section: "tree_ok ip s \<Longrightarrow> Q ip s \<Longrightarrow> within_open is (initSection ip name comment rb wb) s = Ret s' \<Longrightarrow> Q ip s'"
    and end_comment: "tree_ok ip s \<Longrightarrow> Q ip s \<Longrightarrow> within_open is (\<lambda>t. Ret (setEndComment comment t)) s = Ret s' \<Longrightarrow> Q ip s'"
begin

lemma store_parsed_keeps:
  assumes st: "parse_inv Q ip st" and key: "nul_free key"
  shows "parse_safe Q ip (store_parsed ip key val i st)"
proof -
  from st obtain t where t: "tree_ok ip (ps_ini st)" "open_at (rev (ps_open st)) (ps_ini st) = Ret t" by (auto simp: parse_inv_def)
  have "run_safe (shell_quoted_value ip) (\<lambda>_. True) (parsed_value ip val)" by (simp add: parsed_value_def split: option.split)
  moreover have "parse_safe Q ip (obind (within_open (rev (ps_open st)) (initValue ip key v (ps_comment st) (int i)) (ps_ini st)) (\<lambda>s.
      Ret (st\<lparr>ps_ini := s, ps_comment := []\<rparr>)))" for v
    using within_open_tree [of ip "initValue ip key v (ps_comment st) (int i)", OF initValue_tree [OF _ key] t] st init_value [OF t(1)]
    by (auto simp: parse_inv_def)
  ultimately show ?thesis using st by (auto simp: store_parsed_def intro: run_safe_bind) (simp add: parse_inv_def)
qed

lemma on_line_comment_keeps:
  assumes L: "rx_ok L" and st: "parse_inv Q ip st"
  shows "parse_safe Q ip (on_line_comment L ip st)"
proof -
  from first_match_ok [OF L, of "enumerate 0 (comments ip)" 0 "ps_line st"] obtain r where
    r: "first_match L 20 (enumerate 0 (comments ip)) (ps_line st) = Ret r" "\<forall>i m. r = Some (i, m) \<longrightarrow> match_ok 0 m"
    using has_groups_0 [OF L] by auto
  then show ?thesis using st submatch_ok [of 0 _ 0]
    by (cases r) (force simp: on_line_comment_def parse_inv_def)+
qed

lemma broken_line_end_keeps:
  assumes ip: "machine_ok L ip" and st: "parse_inv Q ip st"
  shows "parse_safe Q ip (broken_line_end L ip st)"
proof (cases "ps_multi st")
  case (Some j)
  with st obtain b rx where j: "j < length (params ip)" "par_multiline (params ip ! j) = Some (b, rx)" by (force simp: parse_inv_def)
  with ip have L: "rx_ok L" "has_groups L 1 rx" unfolding machine_ok_def by (metis nth_mem)+
  from RegexMatch_ok [OF L(1), of rx "ps_line st" 20 1] L(2) obtain m where
    m: "RegexMatch L rx (ps_line st) 20 = Ret m" "rm_matches m \<noteq> [] \<longrightarrow> match_ok 1 m" by blast
  show ?thesis
  proof (cases "rm_matches m = []")
    case True
    with Some j m st show ?thesis by (simp add: broken_line_end_def parse_inv_def)
  next
    case False
    with m(2) submatch_ok [of 1 m 1] obtain v where v: "submatch m 1 = Ret v" by auto
    let ?st = "st\<lparr>ps_multi := None, ps_val := ps_val st @ (if join_multiline ip then '' '' else [NL]) @ v, ps_line := rm_rest m\<rparr>"
    have "broken_line_end L ip st = store_parsed ip (ps_key ?st) (ps_val ?st) j ?st"
      using Some j m(1) False v by (simp add: broken_line_end_def Let_def)
    moreover have "parse_safe Q ip (store_parsed ip (ps_key ?st) (ps_val ?st) j ?st)"
      by (rule store_parsed_keeps) (use st in \<open>simp_all add: parse_inv_def\<close>)
    ultimately show ?thesis by simp
  qed
qed (use st in \<open>simp add: broken_line_end_def\<close>)

lemma section_begin_keeps:
  assumes ip: "machine_ok L ip" and st: "parse_inv Q ip st"
  shows "parse_safe Q ip (section_begin L ip st)"
proof -
  let ?rxs = "enumerate 0 (map (\<lambda>r. io_rx (sec_begin r)) (sections ip))"
  have "\<forall>r \<in> set ?rxs. has_groups L 1 (snd r)" using ip by (auto simp: machine_ok_def in_set_enumerate_eq)
  from first_match_ok [OF _ this, of "ps_line st"] ip obtain r where r: "first_match L 20 ?rxs (ps_line st) = Ret r"
    "\<forall>i m. r = Some (i, m) \<longrightarrow> i < length (sections ip) \<and> match_ok 1 m"
    by (force simp: machine_ok_def in_set_enumerate_eq)
  show ?thesis
  proof (cases r)
    case (Some im)
    then obtain i m where im: "r = Some (i, m)" "i < length (sections ip)" "match_ok 1 m" using r(2) by (cases im) auto
    from submatch_ok [OF im(3), of 1] obtain found where found: "submatch m 1 = Ret found" "nul_free found" by auto
    from st obtain t where t: "tree_ok ip (ps_ini st)" "open_at (rev (ps_open st)) (ps_ini st) = Ret t" by (auto simp: parse_inv_def)
    let ?pop = "if ps_open st = [] then Ret []
      else obind (open_at (rev (ps_open st)) (ps_ini st)) (\<lambda>cur. obind (sectionNeedsEnd ip (i_read_by (s_base cur))) (\<lambda>needs.
        Ret (if needs \<and> \<not> no_nested_sections ip then ps_open st else tl (ps_open st))))"
    have "\<exists>n. ?pop = Ret (drop n (ps_open st))"
    proof (cases "ps_open st = []")
      case False
      then obtain needs where "sectionNeedsEnd ip (i_read_by (s_base t)) = Ret needs"
        using open_at_rule [OF _ _ t(2), of "length (sections ip)"] t(1) by (auto simp: sectionNeedsEnd_def tree_ok_def)
      with False t(2) have "?pop = Ret (drop (if needs \<and> \<not> no_nested_sections ip then 0 else 1) (ps_open st))" by (simp add: drop_Suc)
      then show ?thesis by blast
    qed simp
    then obtain n where n: "?pop = Ret (drop n (ps_open st))" by blast
    let ?o = "drop n (ps_open st)" and ?init = "initSection ip found (ps_comment st) (int i) None"
    from open_at_drop [OF t(2)] obtain u where u: "open_at (rev ?o) (ps_ini st) = Ret u" by blast
    have "\<And>t. tree_ok ip t \<Longrightarrow> \<exists>t'. ?init t = Ret t' \<and> tree_ok ip t' \<and> same_rule t' t"
      using initSection_new [OF _ found(2) im(2)] by blast
    from within_open_tree [of ip ?init, OF this t(1) u] obtain s' u' where
      s': "within_open (rev ?o) ?init (ps_ini st) = Ret s'" "tree_ok ip s'" "?init u = Ret u'" "open_at (rev ?o) s' = Ret u'" by blast
    from initSection_new [OF open_at_tree [OF t(1) u] found(2) im(2), of "ps_comment st" None] s'(3)
    obtain v where "section_of u' (fst (last (s_container u'))) = Some v" by auto
    with s'(4) have "open_at (rev (fst (last (s_container u')) # ?o)) s' = Ret v" by (simp add: open_at_append)
    moreover have "Q ip s'" using init_section [OF t(1) _ s'(1)] st by (simp add: parse_inv_def)
    ultimately show ?thesis using r(1) im(1) found n s' u st
      by (simp add: section_begin_def Let_def parse_inv_def)
  qed (use r(1) st in \<open>simp add: section_begin_def\<close>)
qed

lemma section_end_keeps:
  assumes L: "rx_ok L" and st: "parse_inv Q ip st"
  shows "parse_safe Q ip (section_end L ip st)"
proof -
  from first_match_returns [OF L] obtain r where r: "first_match L 20 (end_rules ip) (ps_line st) = Ret r" by blast
  show ?thesis
  proof (cases r)
    case (Some im)
    obtain i m where im: "r = Some (i, m)" using Some by (cases im) auto
    from st obtain t where t: "tree_ok ip (ps_ini st)" "open_at (rev (ps_open st)) (ps_ini st) = Ret t" by (auto simp: parse_inv_def)
    let ?w = "if ps_comment st = [] then Ret (ps_ini st)
      else within_open (rev (ps_open st)) (\<lambda>s. Ret (setEndComment (c_str (ps_comment st)) s)) (ps_ini st)"
    have "\<exists>s u. ?w = Ret s \<and> tree_ok ip s \<and> Q ip s \<and> open_at (rev (ps_open st)) s = Ret u"
    proof (cases "ps_comment st = []")
      case True
      with t st show ?thesis by (simp add: parse_inv_def)
    next
      case False
      have "\<exists>t'. Ret (setEndComment (c_str (ps_comment st)) t) = Ret t' \<and> tree_ok ip t' \<and> same_rule t' t" if "tree_ok ip t" for t
        using setEndComment_tree [OF that] by blast
      from within_open_tree [of ip "\<lambda>s. Ret (setEndComment (c_str (ps_comment st)) s)", OF this t] obtain s u where
        s: "within_open (rev (ps_open st)) (\<lambda>s. Ret (setEndComment (c_str (ps_comment st)) s)) (ps_ini st) = Ret s" "tree_ok ip s"
          "open_at (rev (ps_open st)) s = Ret u" by blast
      have "Q ip s" by (rule end_comment [OF t(1) _ s(1)]) (use st in \<open>simp add: parse_inv_def\<close>)
      with False s show ?thesis by simp
    qed
    then obtain s u where s: "?w = Ret s" "tree_ok ip s" "open_at (rev (ps_open st)) s = Ret u" "Q ip s" by blast
    from open_names_length [OF s(3)] obtain os where "open_names (rev (ps_open st)) s = Ret os" by blast
    with r im s st open_at_drop [OF s(3)] show ?thesis by (simp add: section_end_def Let_def parse_inv_def)
  qed (use r st in \<open>simp add: section_end_def\<close>)
qed

lemma single_line_keeps:
  assumes ip: "machine_ok L ip" and st: "parse_inv Q ip st"
  shows "parse_safe Q ip (single_line L ip st)"
proof -
  let ?rxs = "enumerate 0 (map (\<lambda>r. io_rx (par_line r)) (params ip))"
  have "\<forall>r \<in> set ?rxs. has_groups L 2 (snd r)" using ip by (auto simp: machine_ok_def in_set_enumerate_eq)
  from first_match_ok [OF _ this, of "ps_line st"] ip obtain r where r: "first_match L 20 ?rxs (ps_line st) = Ret r"
    "\<forall>i m. r = Some (i, m) \<longrightarrow> match_ok 2 m"
    by (force simp: machine_ok_def)
  show ?thesis
  proof (cases r)
    case (Some im)
    then obtain i m where im: "r = Some (i, m)" "match_ok 2 m" using r(2) by (cases im) auto
    from submatch_ok [OF im(2), of 1] submatch_ok [OF im(2), of 2] obtain key val where
      "submatch m 1 = Ret key" "nul_free key" "submatch m 2 = Ret val" by auto
    moreover have "parse_inv Q ip (st\<lparr>ps_line := rm_rest m\<rparr>)" using st by (simp add: parse_inv_def)
    ultimately show ?thesis using r(1) im(1) store_parsed_keeps by (simp add: single_line_def)
  qed (use r(1) st in \<open>simp add: single_line_def\<close>)
qed

lemma in_begin_rules: "(i, rx) \<in> set (begin_rules ip) \<Longrightarrow> i < length (params ip) \<and> (\<exists>e. par_multiline (params ip ! i) = Some (rx, e))"
  by (auto simp: begin_rules_def List.map_filter_def in_set_enumerate_eq split: option.splits)

lemma broken_line_begin_keeps:
  assumes ip: "machine_ok L ip" and st: "parse_inv Q ip st"
  shows "parse_safe Q ip (broken_line_begin L ip st)"
proof -
  have "has_groups L 2 rx" if "(i, rx) \<in> set (begin_rules ip)" for i rx
    using in_begin_rules [OF that] ip unfolding machine_ok_def by (metis nth_mem)
  then have "\<forall>r \<in> set (begin_rules ip). has_groups L 2 (snd r)" by force
  from first_match_ok [OF _ this, of "ps_line st"] ip obtain r where r: "first_match L 20 (begin_rules ip) (ps_line st) = Ret r"
    "\<forall>i m. r = Some (i, m) \<longrightarrow> i \<in> fst ` set (begin_rules ip) \<and> match_ok 2 m"
    by (force simp: machine_ok_def)
  show ?thesis
  proof (cases r)
    case (Some im)
    then obtain i m where im: "r = Some (i, m)" "i \<in> fst ` set (begin_rules ip)" "match_ok 2 m" using r(2) by (cases im) auto
    from submatch_ok [OF im(3), of 1] submatch_ok [OF im(3), of 2] obtain key val where
      "submatch m 1 = Ret key" "nul_free key" "submatch m 2 = Ret val" by auto
    moreover have "i < length (params ip) \<and> par_multiline (params ip ! i) \<noteq> None" using im(2) by (auto dest: in_begin_rules)
    ultimately show ?thesis using r(1) im(1) st by (simp add: broken_line_begin_def parse_inv_def)
  qed (use r(1) st in \<open>simp add: broken_line_begin_def\<close>)
qed

lemma parse_line_keeps:
  assumes ip: "machine_ok L ip" and st: "parse_inv Q ip st"
  shows "parse_safe Q ip (parse_line L ip st)"
proof -
  have L: "rx_ok L" using ip by (simp add: machine_ok_def)
  from first_match_returns [OF L] obtain r where r: "first_match L 0 (enumerate 0 (linecomments ip)) (ps_line st) = Ret r" by blast
  note keep = on_line_comment_keeps [OF L] broken_line_end_keeps [OF ip] section_begin_keeps [OF ip] section_end_keeps [OF L]
    single_line_keeps [OF ip] broken_line_begin_keeps [OF ip]
  show ?thesis
  proof (cases "r = None")
    case True
    have "parse_safe Q ip (obind (section_begin L ip st) (\<lambda>st. obind (section_end L ip st) (\<lambda>st. obind (single_line L ip st) (\<lambda>st.
        obind (broken_line_begin L ip st) (\<lambda>st. if comments_last ip then on_line_comment L ip st else Ret st)))))"
      if "parse_inv Q ip st" for st
      by (rule run_safe_bind, rule keep(3), rule that)+ (use keep in \<open>auto intro!: run_safe_bind [where Q = "parse_inv Q ip"]\<close>)
    moreover have "parse_safe Q ip (if comments_last ip then Ret st else on_line_comment L ip st)" using keep(1) [OF st] st by simp
    ultimately show ?thesis using r True keep(2)
      by (auto simp: parse_line_def intro!: run_safe_bind [where Q = "parse_inv Q ip"])
  next
    case False
    with r st show ?thesis by (simp add: parse_line_def parse_inv_def)
  qed
qed

end

section \<open>Lines\<close>

definition no_open_end :: "string \<Rightarrow> bool" where
  "no_open_end t \<longleftrightarrow> t = [] \<or> last t \<noteq> bslash"

lemma no_open_end_tl: "no_open_end t \<Longrightarrow> no_open_end (tl (dropWhile (\<lambda>c. c \<noteq> x) t))"
  by (induction t) (auto simp: no_open_end_def split: if_splits)

lemma getline_end:
  assumes "no_open_end (is_rest f)"
  shows "no_open_end (is_rest (fst (getline f s)))"
    "is_eof f \<or> is_fail f \<longrightarrow> no_open_end s \<Longrightarrow>
     is_eof (fst (getline f s)) \<or> is_fail (fst (getline f s)) \<longrightarrow> no_open_end (snd (getline f s))"
proof -
  show "no_open_end (is_rest (fst (getline f s)))"
  proof (cases "NL \<in> set (is_rest f)")
    case True
    with assms show ?thesis by (simp add: getline_def no_open_end_tl)
  next
    case False
    with assms show ?thesis by (simp add: getline_def) (simp add: no_open_end_def)
  qed
next
  assume "is_eof f \<or> is_fail f \<longrightarrow> no_open_end s"
  with assms show "is_eof (fst (getline f s)) \<or> is_fail (fst (getline f s)) \<longrightarrow> no_open_end (snd (getline f s))"
    by (cases "is_eof f \<or> is_fail f"; cases "NL \<in> set (is_rest f)") (simp_all add: getline_def)
qed

lemma continue_lines_returns:
  assumes "no_open_end (is_rest f)" "is_eof f \<or> is_fail f \<longrightarrow> no_open_end tmp"
  shows "\<exists>f' s'. continue_lines f s tmp = Some (f', s') \<and> no_open_end (is_rest f')"
  using assms
proof (induction "stream_size f" arbitrary: f s tmp rule: less_induct)
  case less
  obtain g t where g: "getline f tmp = (g, t)" by fastforce
  show ?case
  proof (cases "last s = bslash")
    case True
    then have step: "continue_lines f s tmp = continue_lines g (s @ NL # t) t"
      using g by (subst continue_lines.simps) simp
    show ?thesis
    proof (cases "is_eof g \<or> is_fail g")
      case True
      with getline_end(2) [OF less.prems] g have "no_open_end t" by simp
      then have "last (s @ NL # t) \<noteq> bslash" by (auto simp: no_open_end_def)
      then have "continue_lines g (s @ NL # t) t = Some (g, s @ NL # t)" by (subst continue_lines.simps) simp
      with step getline_end(1) [OF less.prems(1), of tmp] g show ?thesis by simp
    next
      case False
      then have "\<not> is_fail f" using g by (auto simp: getline_def split: if_splits)
      then have "stream_size g < stream_size f" using getline_size(2) [of f tmp] g by simp
      with less.hyps [of g t "s @ NL # t"] getline_end(1) [OF less.prems(1), of tmp] g False step show ?thesis by simp
    qed
  next
    case False
    then show ?thesis using less.prems by (subst continue_lines.simps) simp
  qed
qed

text \<open>A file whose last line is the continuation of another, is not terminated and ends in a backslash is read for ever.\<close>

lemma continue_lines_stuck:
  assumes "is_eof f \<or> is_fail f" "last s = bslash" "tmp \<noteq> []" "last tmp = bslash"
  shows "continue_lines f s tmp = None"
proof -
  let ?P = "\<lambda>f s tmp. (is_eof f \<or> is_fail f) \<and> last s = bslash \<and> tmp \<noteq> [] \<and> last tmp = bslash"
  have "\<not> ?P f s tmp" if "continue_lines f s tmp = Some r" for f s tmp r
  proof (rule continue_lines.raw_induct [where P = "\<lambda>f s tmp r. \<not> ?P f s tmp", OF _ that], rule notI)
    fix rec f s tmp and r :: "ifstream \<times> string"
    assume IH: "\<And>f s tmp r. rec f s tmp = Some r \<Longrightarrow> \<not> ?P f s tmp"
      and r: "(if last s = bslash then case getline f tmp of (f', tmp') \<Rightarrow> rec f' (s @ NL # tmp') tmp' else Some (f, s)) = Some r"
      and P: "?P f s tmp"
    then have "rec (f\<lparr>is_fail := True\<rparr>) (s @ NL # tmp) tmp = Some r" by (simp add: getline_def)
    from IH [OF this] P show False by simp
  qed
  from this [of f s tmp] assms show ?thesis by (cases "continue_lines f s tmp") blast+
qed

lemma scanner_get_stuck: "scanner_get True (stream_of ([CHR ''a'', bslash, NL, CHR ''b'', bslash])) [] = None"
proof -
  have "continue_lines \<lparr>is_rest = [CHR ''b'', bslash], is_eof = False, is_fail = False\<rparr> [CHR ''a'', bslash] [] = None"
    by (subst continue_lines.simps) (simp add: getline_def continue_lines_stuck)
  then show ?thesis by (simp add: scanner_get_def stream_of_def getline_def)
qed

lemma scanner_get_returns:
  assumes "lcc \<longrightarrow> no_open_end (is_rest f)"
  shows "\<exists>r. scanner_get lcc f s = Some r \<and> (\<forall>f' s'. r = Some (f', s') \<longrightarrow> lcc \<longrightarrow> no_open_end (is_rest f'))"
proof -
  obtain g t where g: "getline f s = (g, t)" by fastforce
  with assms getline_end(1) [of f s] have "lcc \<longrightarrow> no_open_end (is_rest g)" by auto
  with g continue_lines_returns [of g "[]" t] show ?thesis by (auto simp: scanner_get_def no_open_end_def)
qed

context section_invariant
begin

lemma parse_lines_safe:
  assumes ip: "machine_ok L ip"
  shows "parse_inv Q ip st \<Longrightarrow> line_can_continue ip \<longrightarrow> no_open_end (is_rest f) \<Longrightarrow> parse_safe Q ip (parse_lines L ip f st)"
proof (induction "stream_size f" arbitrary: f st rule: less_induct)
  case less
  from scanner_get_returns [OF less.prems(2), of "ps_line st"] obtain r where
    r: "scanner_get (line_can_continue ip) f (ps_line st) = Some r"
      "\<forall>f' s'. r = Some (f', s') \<longrightarrow> line_can_continue ip \<longrightarrow> no_open_end (is_rest f')" by blast
  show ?case
  proof (cases r)
    case None
    with r(1) less.prems show ?thesis by (simp add: parse_lines.simps [of L ip f])
  next
    case (Some fl)
    then obtain f' line where f': "r = Some (f', line)" by (cases fl) auto
    have "parse_inv Q ip (st\<lparr>ps_line := line\<rparr>)" using less.prems(1) by (simp add: parse_inv_def)
    then have "parse_safe Q ip (parse_line L ip (st\<lparr>ps_line := line\<rparr>))" by (rule parse_line_keeps [OF ip])
    then have "parse_safe Q ip (obind (parse_line L ip (st\<lparr>ps_line := line\<rparr>)) (parse_lines L ip f'))"
      by (rule run_safe_bind) (use less.hyps r f' scanner_get_size in blast)
    with r(1) f' show ?thesis by (simp add: parse_lines.simps [of L ip f])
  qed
qed

theorem parse_helper_keeps:
  assumes "machine_ok L ip" "tree_ok ip s" "Q ip s" "line_can_continue ip \<longrightarrow> no_open_end file_text"
  shows "run_safe (shell_quoted_value ip) (\<lambda>s'. tree_ok ip s' \<and> Q ip s') (parse_helper L ip file_text s)"
proof -
  let ?st = "\<lparr>ps_ini = s, ps_open = [], ps_comment = [], ps_key = [], ps_val = [], ps_multi = None, ps_line = []\<rparr>"
  have "parse_safe Q ip (parse_lines L ip (stream_of file_text) ?st)"
    by (rule parse_lines_safe [OF assms(1)]) (use assms in \<open>simp_all add: parse_inv_def stream_of_def\<close>)
  moreover have "tree_ok ip (setEndComment c t) \<and> Q ip (setEndComment c t)" if "tree_ok ip t" "Q ip t" for c t
    using that setEndComment_tree [OF that(1)] end_comment [of ip t "[]" c] by simp
  ultimately show ?thesis
    unfolding parse_helper_def by (elim run_safe_bind) (auto simp: parse_inv_def)
qed

end

interpretation any_section: section_invariant "\<lambda>ip s. True"
  by unfold_locales simp_all


text \<open>A machine for files of sections \<^verbatim>\<open>[name]\<close> and values \<^verbatim>\<open>key=value\<close>.\<close>

definition sample_exec :: "bool \<Rightarrow> string \<Rightarrow> (int \<times> int) list option" where
  "sample_exec rx t =
     (if rx then if take 1 t = ''['' \<and> 2 \<le> length t \<and> last t = CHR '']'' then Some [(0, int (length t)), (1, int (length t) - 1)] else None
      else let n = length (takeWhile (\<lambda>c. c \<noteq> CHR ''='') t) in
        if n < length t then Some [(0, int (length t)), (0, int n), (int n + 1, int (length t))] else None)"

definition sample_lib :: "bool regex_lib" where
  "sample_lib = \<lparr>rx_comp = \<lambda>p _. Some (take 1 p = ''[''), rx_exec = sample_exec\<rparr>"

definition sample_machine :: "bool ini_machine" where
  "sample_machine = ini_options.extend (sample_options\<lparr>global_values := True\<rparr>)
     \<lparr>rewrite_rxs = [], subindent = [], linecomments = [], comments = [],
      sections = [\<lparr>sec_begin = \<lparr>io_rx = True, io_out = ''[%s]''\<rparr>, sec_end = None\<rparr>],
      params = [\<lparr>par_line = \<lparr>io_rx = False, io_out = ''%s=%s''\<rparr>, par_multiline = None\<rparr>]\<rparr>"

lemma sample_rx_ok: "rx_ok sample_lib"
  by (auto simp: rx_ok_def sample_lib_def sample_exec_def Let_def simp del: One_nat_def split: if_splits)

lemma sample_machine_ok: "machine_ok sample_lib sample_machine"
  unfolding machine_ok_def
  by (intro conjI sample_rx_ok) (auto simp: has_groups_def sample_machine_def sample_options_def ini_options.defs
      sample_lib_def sample_exec_def Let_def split: if_splits)


end
