(* ===== verification/Ini_Roundtrip.thy ===== *)
theory Ini_Roundtrip
  imports Ini_Safety
begin

text \<open>
  Reading what was written: the text of an ini file of values and sections without end marks is parsed to the same sections.
\<close>

section \<open>Lines of a text\<close>

abbreviation lines :: "string list \<Rightarrow> string" where
  "lines ls \<equiv> concat (map (\<lambda>l. l @ [NL]) ls)"

text \<open>A line of the file that the scanner takes as it is.\<close>

definition plain_line :: "('o ini_options_scheme) \<Rightarrow> string \<Rightarrow> bool" where
  "plain_line ip l \<longleftrightarrow> NL \<notin> set l \<and> (line_can_continue ip \<longrightarrow> no_open_end l)"

fun run_lines :: "'r regex_lib \<Rightarrow> ('r, 'o) ini_machine_scheme \<Rightarrow> string list \<Rightarrow> parse_state \<Rightarrow> parse_state outcome" where
  "run_lines L ip [] st = Ret st"
| "run_lines L ip (l # ls) st = obind (parse_line L ip (st\<lparr>ps_line := l\<rparr>)) (run_lines L ip ls)"

lemma run_lines_append: "run_lines L ip (ls @ ks) st = obind (run_lines L ip ls st) (run_lines L ip ks)"
proof (induction ls arbitrary: st)
  case (Cons l ls)
  show ?case by (cases "parse_line L ip (st\<lparr>ps_line := l\<rparr>)") (simp_all add: Cons)
qed simp

lemma scanner_get_plain:
  assumes "plain_line ip l"
  shows "scanner_get (line_can_continue ip) (stream_of (l @ NL # t)) s = Some (Some (stream_of t, l))"
proof -
  have l: "takeWhile (\<lambda>c. c \<noteq> NL) (l @ NL # t) = l" "dropWhile (\<lambda>c. c \<noteq> NL) (l @ NL # t) = NL # t"
    using assms by (auto simp: plain_line_def takeWhile_append dropWhile_append)
  then have "getline (stream_of (l @ NL # t)) s = (stream_of t, l)" by (simp add: getline_def stream_of_def)
  moreover have "continue_lines (stream_of t) l [] = Some (stream_of t, l)" if "line_can_continue ip" "l \<noteq> []"
    using that assms by (subst continue_lines.simps) (auto simp: plain_line_def no_open_end_def)
  ultimately show ?thesis by (simp add: scanner_get_def) (simp add: stream_of_def)
qed

text \<open>After the last line the parser gets an empty one.\<close>

lemma parse_lines_run:
  assumes "\<forall>l \<in> set ls. plain_line ip l"
  shows "parse_lines L ip (stream_of (lines ls)) st = run_lines L ip (ls @ [[]]) st"
  using assms
proof (induction ls arbitrary: st)
  case Nil
  let ?f = "\<lparr>is_rest = [], is_eof = True, is_fail = True\<rparr>"
  have "scanner_get b (stream_of []) s = Some (Some (?f, []))" "scanner_get b ?f s = Some None" for b s
    by (simp_all add: scanner_get_def getline_def stream_of_def)
  then have "parse_lines L ip (stream_of []) st = obind (parse_line L ip (st\<lparr>ps_line := []\<rparr>)) (parse_lines L ip ?f)"
    "parse_lines L ip ?f st' = Ret st'" for st'
    by (simp_all add: parse_lines.simps)
  then show ?case by (cases "parse_line L ip (st\<lparr>ps_line := []\<rparr>)") simp_all
next
  case (Cons l ls)
  then have "parse_lines L ip (stream_of (lines (l # ls))) st
      = obind (parse_line L ip (st\<lparr>ps_line := l\<rparr>)) (parse_lines L ip (stream_of (lines ls)))"
    using scanner_get_plain [of ip l "lines ls" "ps_line st"] by (simp add: parse_lines.simps [of L ip _ st])
  with Cons show ?case by (cases "parse_line L ip (st\<lparr>ps_line := l\<rparr>)") simp_all
qed

section \<open>What lines are read as\<close>

abbreviation hit :: "'r regex_lib \<Rightarrow> (nat \<times> 'r) list \<Rightarrow> string \<Rightarrow> (nat \<times> regex_match) option outcome" where
  "hit L rxs l \<equiv> first_match L 20 rxs l"

abbreviation rxs_of :: "('a \<Rightarrow> 'r) \<Rightarrow> 'a list \<Rightarrow> (nat \<times> 'r) list" where
  "rxs_of f rs \<equiv> enumerate 0 (map f rs)"

definition comment_line :: "'r regex_lib \<Rightarrow> ('r, 'o) ini_machine_scheme \<Rightarrow> string \<Rightarrow> bool" where
  "comment_line L ip l \<longleftrightarrow> (\<exists>r. first_match L 0 (enumerate 0 (linecomments ip)) l = Ret (Some r))"

text \<open>Neither a comment nor a line with one.\<close>

definition no_comment :: "'r regex_lib \<Rightarrow> ('r, 'o) ini_machine_scheme \<Rightarrow> string \<Rightarrow> bool" where
  "no_comment L ip l \<longleftrightarrow> first_match L 0 (enumerate 0 (linecomments ip)) l = Ret None \<and> hit L (enumerate 0 (comments ip)) l = Ret None"

definition no_rule :: "'r regex_lib \<Rightarrow> ('r, 'o) ini_machine_scheme \<Rightarrow> string \<Rightarrow> bool" where
  "no_rule L ip l \<longleftrightarrow> hit L (rxs_of (\<lambda>r. io_rx (sec_begin r)) (sections ip)) l = Ret None \<and> hit L (end_rules ip) l = Ret None"

definition value_line :: "'r regex_lib \<Rightarrow> ('r, 'o) ini_machine_scheme \<Rightarrow> nat \<Rightarrow> string \<Rightarrow> string \<Rightarrow> string \<Rightarrow> bool" where
  "value_line L ip i key val l \<longleftrightarrow> plain_line ip l \<and> no_comment L ip l \<and> no_rule L ip l
     \<and> (\<exists>m. hit L (rxs_of (\<lambda>r. io_rx (par_line r)) (params ip)) l = Ret (Some (i, m))
         \<and> submatch m 1 = Ret key \<and> submatch m 2 = Ret val
         \<and> hit L (begin_rules ip) (rm_rest m) = Ret None \<and> hit L (enumerate 0 (comments ip)) (rm_rest m) = Ret None)"

definition section_line :: "'r regex_lib \<Rightarrow> ('r, 'o) ini_machine_scheme \<Rightarrow> nat \<Rightarrow> string \<Rightarrow> string \<Rightarrow> bool" where
  "section_line L ip i name l \<longleftrightarrow> plain_line ip l \<and> no_comment L ip l
     \<and> (\<exists>m. hit L (rxs_of (\<lambda>r. io_rx (sec_begin r)) (sections ip)) l = Ret (Some (i, m)) \<and> submatch m 1 = Ret name
         \<and> hit L (end_rules ip) (rm_rest m) = Ret None \<and> hit L (rxs_of (\<lambda>r. io_rx (par_line r)) (params ip)) (rm_rest m) = Ret None
         \<and> hit L (begin_rules ip) (rm_rest m) = Ret None \<and> hit L (enumerate 0 (comments ip)) (rm_rest m) = Ret None)"

definition quiet_line :: "'r regex_lib \<Rightarrow> ('r, 'o) ini_machine_scheme \<Rightarrow> string \<Rightarrow> bool" where
  "quiet_line L ip l \<longleftrightarrow> no_comment L ip l \<and> no_rule L ip l
     \<and> hit L (rxs_of (\<lambda>r. io_rx (par_line r)) (params ip)) l = Ret None \<and> hit L (begin_rules ip) l = Ret None"

definition comment_text :: "'r regex_lib \<Rightarrow> ('r, 'o) ini_machine_scheme \<Rightarrow> string list \<Rightarrow> bool" where
  "comment_text L ip ls \<longleftrightarrow> (\<forall>l \<in> set ls. plain_line ip l \<and> comment_line L ip l)"

lemma parse_comment_line: "comment_line L ip (ps_line st) \<Longrightarrow> parse_line L ip st = Ret (st\<lparr>ps_comment := ps_comment st @ ps_line st @ [NL]\<rparr>)"
  by (auto simp: comment_line_def parse_line_def)

lemma parse_quiet_line: "quiet_line L ip (ps_line st) \<Longrightarrow> ps_multi st = None \<Longrightarrow> parse_line L ip st = Ret st"
  by (simp add: quiet_line_def no_comment_def no_rule_def parse_line_def on_line_comment_def broken_line_end_def section_begin_def
      section_end_def single_line_def broken_line_begin_def)

lemma on_line_comment_none [simp]: "hit L (enumerate 0 (comments ip)) (ps_line st) = Ret None \<Longrightarrow> on_line_comment L ip st = Ret st"
  by (simp add: on_line_comment_def)

lemma parse_value_line:
  assumes "value_line L ip i key val (ps_line st)" "ps_multi st = None"
  shows "\<exists>rest. parse_line L ip st = store_parsed ip key val i (st\<lparr>ps_line := rest\<rparr>)"
proof -
  from assms(1) obtain m where m: "hit L (rxs_of (\<lambda>r. io_rx (par_line r)) (params ip)) (ps_line st) = Ret (Some (i, m))"
    "submatch m 1 = Ret key" "submatch m 2 = Ret val" "hit L (begin_rules ip) (rm_rest m) = Ret None"
    "hit L (enumerate 0 (comments ip)) (rm_rest m) = Ret None" by (auto simp: value_line_def)
  let ?store = "store_parsed ip key val i (st\<lparr>ps_line := rm_rest m\<rparr>)"
  have "ps_line st' = rm_rest m" if "?store = Ret st'" for st'
    using that by (cases "parsed_value ip val"; cases "within_open (rev (ps_open st))
        (initValue ip key (case parsed_value ip val of Ret v \<Rightarrow> v) (ps_comment st) (int i)) (ps_ini st)")
      (auto simp: store_parsed_def split: if_splits)
  with m(4,5) have "obind ?store (\<lambda>st. obind (broken_line_begin L ip st) (\<lambda>st. if comments_last ip then on_line_comment L ip st else Ret st)) = ?store"
    by (cases ?store) (simp_all add: broken_line_begin_def)
  then have "parse_line L ip st = ?store"
    using assms m by (cases "comments_last ip") (simp_all add: value_line_def no_comment_def no_rule_def parse_line_def broken_line_end_def
      section_begin_def section_end_def single_line_def)
  then show ?thesis by blast
qed

lemma run_comment_lines:
  "comment_text L ip ls \<Longrightarrow> \<exists>rest. run_lines L ip ls st = Ret (st\<lparr>ps_comment := ps_comment st @ lines ls, ps_line := rest\<rparr>)"
proof (induction ls arbitrary: st)
  case (Cons l ls)
  from Cons.prems have "comment_line L ip l" "comment_text L ip ls" by (simp_all add: comment_text_def)
  with Cons.IH [of "st\<lparr>ps_line := l, ps_comment := ps_comment st @ l @ [NL]\<rparr>"] show ?case by (simp add: parse_comment_line)
next
  case Nil
  show ?case by (intro exI [of _ "ps_line st"]) simp
qed

section \<open>Values\<close>

text \<open>The lines of a value, which is indented \<open>n\<close> times, are read as its rule, name and value.\<close>

definition entry_lines :: "'r regex_lib \<Rightarrow> ('r, 'o) ini_machine_scheme \<Rightarrow> nat \<Rightarrow> ini_entry \<Rightarrow> string list \<Rightarrow> bool" where
  "entry_lines L ip n e ls \<longleftrightarrow> nul_free (i_comment e) \<and> nul_free (e_val e) \<and> (\<exists>cs i l. ls = cs @ [indent_of (subindent ip) n @ l] \<and> i_comment e = lines cs \<and> comment_text L ip cs
     \<and> i_read_by e = int i \<and> i < length (params ip) \<and> printed (io_out (par_line (params ip ! i))) [i_name e, written_value ip e] = Ret l
     \<and> value_line L ip i (i_name e) (written_value ip e) (indent_of (subindent ip) n @ l))"

lemma unquote_quote: "shell_unquote (shell_quote s) = Some s"
  using unquote_quoted [of "[]"] by (simp add: shell_unquote_def shell_quote_def)

lemma parsed_written: "nul_free (e_val e) \<Longrightarrow> parsed_value ip (written_value ip e) = Ret (e_val e)"
  by (simp add: parsed_value_def written_value_def unquote_quote)

text \<open>\<open>F t\<close> is a section in which \<open>t\<close> is at the path \<open>is\<close>.\<close>

definition at_path :: "nat list \<Rightarrow> (ini_section \<Rightarrow> ini_section) \<Rightarrow> bool" where
  "at_path is F \<longleftrightarrow> (\<forall>t. open_at is (F t) = Ret t \<and> (\<forall>g. within_open is g (F t) = obind (g t) (\<lambda>t'. Ret (F t'))))"

lemma at_top: "at_path [] (\<lambda>t. t)"
proof -
  have "obind r Ret = r" for r :: "ini_section outcome" by (cases r) simp_all
  then show ?thesis by (simp add: at_path_def)
qed

lemma push_container: "s_container (push_section k t s) = s_container s @ [(next_id s, SECTION t)]"
  by (simp add: push_section_def next_id_def Let_def)

lemma replace_fresh: "replace_id (fresh_id cs) x cs = cs"
  using fresh_id_new [of cs] unfolding replace_id_def by (intro map_idI) force

lemma replace_pushed: "replace_element (next_id s) (SECTION t') (push_section k t s) = push_section k t' s"
proof -
  have "replace_id (fresh_id cs) x (cs @ [(fresh_id cs, y)]) = cs @ [(fresh_id cs, x)]" for cs x and y :: ini_element
    using replace_fresh [of cs x] by (simp add: replace_id_def)
  then show ?thesis by (cases s) (simp add: replace_element_def push_section_def Let_def next_id_def)
qed

lemma at_pushed: "at_path [next_id s] (\<lambda>t. push_section k t s)"
  by (simp add: at_path_def replace_pushed)

text \<open>The names that \<^const>\<open>initValue\<close> and \<^const>\<open>initSection\<close> would find.\<close>

definition new_names :: "('o ini_options_scheme) \<Rightarrow> string list \<Rightarrow> ini_index \<Rightarrow> bool" where
  "new_names ip ks m \<longleftrightarrow> (\<forall>k \<in> set ks. changeCase ip k = k) \<and> (repeat_names ip \<or> distinct ks \<and> (\<forall>k \<in> set ks. mm_range k m = []))"

definition clean_entry :: "ini_entry \<Rightarrow> ini_entry" where
  "clean_entry e = e\<lparr>i_dirty := False\<rparr>"

lemma initValue_push:
  assumes "new_names ip (i_name e # ks) (s_ivalues s)"
  shows "initValue ip (i_name e) (e_val e) (i_comment e) (i_read_by e) s = Ret (push_value (i_name e) (clean_entry e) s)"
    "new_names ip ks (s_ivalues (push_value (i_name e) (clean_entry e) s))"
proof -
  have "init_entry (i_name e) (i_comment e) (i_read_by e) (e_val e) new_entry = clean_entry e"
    by (simp add: init_entry_def init_base_def new_entry_def base_read_def clean_entry_def ini_base.defs)
  with assms show "initValue ip (i_name e) (e_val e) (i_comment e) (i_read_by e) s = Ret (push_value (i_name e) (clean_entry e) s)"
    by (auto simp: initValue_def Let_def new_names_def)
qed (use assms in \<open>auto simp: new_names_def mm_range_def\<close>)

fun push_values :: "ini_entry list \<Rightarrow> ini_section \<Rightarrow> ini_section" where
  "push_values [] s = s"
| "push_values (e # es) s = push_values es (push_value (i_name e) (clean_entry e) s)"

lemma run_entry:
  assumes e: "entry_lines L ip n e ls" and st: "ps_multi st = None" "ps_comment st = []"
    "ps_open st = [] \<longrightarrow> global_values ip" and F: "at_path (rev (ps_open st)) F" "ps_ini st = F u"
    and new: "new_names ip (i_name e # ks) (s_ivalues u)"
  shows "\<exists>rest. run_lines L ip ls st = Ret (st\<lparr>ps_ini := F (push_value (i_name e) (clean_entry e) u), ps_line := rest\<rparr>)"
proof -
  from e have v: "nul_free (e_val e)" by (simp add: entry_lines_def)
  from e obtain cs i l where l: "ls = cs @ [indent_of (subindent ip) n @ l]" "i_comment e = lines cs" "comment_text L ip cs"
    "i_read_by e = int i" "value_line L ip i (i_name e) (written_value ip e) (indent_of (subindent ip) n @ l)"
    by (auto simp: entry_lines_def)
  from run_comment_lines [OF l(3), of st] obtain rest where
    c: "run_lines L ip cs st = Ret (st\<lparr>ps_comment := lines cs, ps_line := rest\<rparr>)" using st(2) by auto
  let ?st = "st\<lparr>ps_comment := lines cs, ps_line := indent_of (subindent ip) n @ l\<rparr>"
  from parse_value_line [of L ip i "i_name e" "written_value ip e" ?st] l(5) st(1) obtain rest' where
    p: "parse_line L ip ?st = store_parsed ip (i_name e) (written_value ip e) i (?st\<lparr>ps_line := rest'\<rparr>)" by auto
  have "store_parsed ip (i_name e) (written_value ip e) i (?st\<lparr>ps_line := rest'\<rparr>)
      = Ret (st\<lparr>ps_ini := F (push_value (i_name e) (clean_entry e) u), ps_line := rest'\<rparr>)"
    using initValue_push(1) [OF new] F st v l(2,4) by (auto simp: store_parsed_def parsed_written at_path_def)
  with l(1) c p show ?thesis by (auto simp: run_lines_append)
qed

fun entries_lines :: "'r regex_lib \<Rightarrow> ('r, 'o) ini_machine_scheme \<Rightarrow> nat \<Rightarrow> ini_entry list \<Rightarrow> string list \<Rightarrow> bool" where
  "entries_lines L ip n [] ls \<longleftrightarrow> ls = []"
| "entries_lines L ip n (e # es) ls \<longleftrightarrow> (\<exists>ks ms. ls = ks @ ms \<and> entry_lines L ip n e ks \<and> entries_lines L ip n es ms)"

lemma run_entries:
  assumes "entries_lines L ip n es ls" "ps_multi st = None" "ps_comment st = []" "ps_open st = [] \<and> es \<noteq> [] \<longrightarrow> global_values ip"
    "at_path (rev (ps_open st)) F" "ps_ini st = F u" "new_names ip (map i_name es) (s_ivalues u)"
  shows "\<exists>rest. run_lines L ip ls st = Ret (st\<lparr>ps_ini := F (push_values es u), ps_line := rest\<rparr>)"
  using assms
proof (induction es arbitrary: ls st u)
  case Nil
  then show ?case by (intro exI [of _ "ps_line st"]) simp
next
  case (Cons e es)
  then obtain ks ms where ls: "ls = ks @ ms" "entry_lines L ip n e ks" "entries_lines L ip n es ms" by auto
  let ?u = "push_value (i_name e) (clean_entry e) u"
  have new: "new_names ip (i_name e # map i_name es) (s_ivalues u)" using Cons.prems by simp
  from run_entry [OF ls(2) Cons.prems(2,3) _ Cons.prems(5,6) new] Cons.prems(4) obtain rest where
    s1: "run_lines L ip ks st = Ret (st\<lparr>ps_ini := F ?u, ps_line := rest\<rparr>)" by auto
  from Cons.IH [of ms "st\<lparr>ps_ini := F ?u, ps_line := rest\<rparr>" ?u] ls(3) Cons.prems(2-5) initValue_push(2) [OF new]
  obtain rest2 where "run_lines L ip ms (st\<lparr>ps_ini := F ?u, ps_line := rest\<rparr>)
      = Ret (st\<lparr>ps_ini := F (push_values es ?u), ps_line := rest2\<rparr>)" by auto
  with ls(1) s1 show ?case by (auto simp: run_lines_append)
qed

lemma write_entry_lines: "entry_lines L ip n e ls \<Longrightarrow> write_entry ip n e = Ret (lines ls)"
  by (auto simp: entry_lines_def write_entry_def rule_line_def rule_of_def)

lemma write_entries_lines:
  "entries_lines L ip n es ls \<Longrightarrow> oconcat (map (\<lambda>e. write_entry ip n e) es) = Ret (lines ls)"
  by (induction es arbitrary: ls) (auto simp: write_entry_lines)

section \<open>Sections\<close>

text \<open>The lines of a section that has values only and no end mark.\<close>

definition section_lines :: "'r regex_lib \<Rightarrow> ('r, 'o) ini_machine_scheme \<Rightarrow> ini_section \<Rightarrow> string list \<Rightarrow> bool" where
  "section_lines L ip t ls \<longleftrightarrow> nul_free (i_comment (s_base t)) \<and> s_end_comment t = [] \<and> \<not> s_private t \<and> s_rewrite_by t = - 1
     \<and> (\<exists>cs j l es ms. ls = cs @ [l] @ ms \<and> i_comment (s_base t) = lines cs \<and> comment_text L ip cs
         \<and> i_read_by (s_base t) = int j \<and> j < length (sections ip) \<and> sec_end (sections ip ! j) = None
         \<and> printed (io_out (sec_begin (sections ip ! j))) [i_name (s_base t)] = Ret l \<and> section_line L ip j (i_name (s_base t)) l
         \<and> map snd (s_container t) = map VALUE es \<and> entries_lines L ip 1 es ms \<and> new_names ip (map i_name es) [])"

fun sections_lines :: "'r regex_lib \<Rightarrow> ('r, 'o) ini_machine_scheme \<Rightarrow> ini_section list \<Rightarrow> string list \<Rightarrow> bool" where
  "sections_lines L ip [] ls \<longleftrightarrow> ls = []"
| "sections_lines L ip (t # ts) ls \<longleftrightarrow> (\<exists>ks ms. ls = ks @ ms \<and> section_lines L ip t ks \<and> sections_lines L ip ts ms)"

definition values_of :: "ini_section \<Rightarrow> ini_entry list" where
  "values_of t = List.map_filter (\<lambda>x. case snd x of VALUE e \<Rightarrow> Some e | SECTION _ \<Rightarrow> None) (s_container t)"

definition read_section :: "ini_section \<Rightarrow> ini_section" where
  "read_section t = push_values (values_of t)
     (init_section_base (i_name (s_base t)) (i_comment (s_base t)) (i_read_by (s_base t)) None new_section)"

lemma values_of_map: "map snd (s_container t) = map VALUE es \<Longrightarrow> values_of t = es"
proof -
  have "List.map_filter (\<lambda>x. case snd x of VALUE e \<Rightarrow> Some e | SECTION _ \<Rightarrow> None) cs = es" if "map snd cs = map VALUE es" for cs
    using that by (induction cs arbitrary: es) (auto simp: List.map_filter_def)
  then show "map snd (s_container t) = map VALUE es \<Longrightarrow> values_of t = es" by (simp add: values_of_def)
qed

text \<open>The sections that are open when a section begins have no end mark.\<close>

definition closable :: "('r, 'o) ini_machine_scheme \<Rightarrow> parse_state \<Rightarrow> bool" where
  "closable ip st \<longleftrightarrow> ps_open st = []
     \<or> (\<exists>i cur. ps_open st = [i] \<and> section_of (ps_ini st) i = Some cur \<and> sectionNeedsEnd ip (i_read_by (s_base cur)) = Ret False)"

lemma initSection_push:
  assumes "new_names ip (name # ks) (s_isections s)"
  shows "initSection ip name comment rb wb s = Ret (push_section name (init_section_base name comment rb wb new_section) s)"
    "new_names ip ks (s_isections (push_section name t s))"
  using assms by (auto simp: initSection_def Let_def new_names_def mm_range_def)

lemma parse_section_line:
  assumes l: "section_line L ip j name (ps_line st)" and st: "ps_multi st = None" "closable ip st"
    and new: "new_names ip (name # ks) (s_isections (ps_ini st))"
  shows "\<exists>rest. parse_line L ip st = Ret (st\<lparr>ps_ini := push_section name (init_section_base name (ps_comment st) (int j) None new_section) (ps_ini st),
    ps_open := [next_id (ps_ini st)], ps_comment := [], ps_line := rest\<rparr>)"
proof -
  from l obtain m where m: "hit L (rxs_of (\<lambda>r. io_rx (sec_begin r)) (sections ip)) (ps_line st) = Ret (Some (j, m))" "submatch m 1 = Ret name"
    "hit L (end_rules ip) (rm_rest m) = Ret None" "hit L (rxs_of (\<lambda>r. io_rx (par_line r)) (params ip)) (rm_rest m) = Ret None"
    "hit L (begin_rules ip) (rm_rest m) = Ret None" "hit L (enumerate 0 (comments ip)) (rm_rest m) = Ret None"
    by (auto simp: section_line_def)
  let ?s = "push_section name (init_section_base name (ps_comment st) (int j) None new_section) (ps_ini st)"
  let ?st = "st\<lparr>ps_ini := ?s, ps_open := [next_id (ps_ini st)], ps_comment := [], ps_line := rm_rest m\<rparr>"
  have "section_begin L ip st = Ret ?st"
    using m(1,2) st(2) initSection_push(1) [OF new]
    by (auto simp: section_begin_def closable_def push_container)
  moreover have "parse_line L ip st = obind (section_begin L ip st) (\<lambda>st. obind (section_end L ip st) (\<lambda>st. obind (single_line L ip st) (\<lambda>st.
      obind (broken_line_begin L ip st) (\<lambda>st. if comments_last ip then on_line_comment L ip st else Ret st))))"
    using l st(1) by (cases "comments_last ip") (simp_all add: section_line_def no_comment_def parse_line_def broken_line_end_def)
  ultimately show ?thesis using m(3-6) by (auto simp: section_end_def single_line_def broken_line_begin_def)
qed

lemma push_values_fields [simp]:
  "s_base (push_values es s) = s_base s" "s_end_comment (push_values es s) = s_end_comment s" "s_private (push_values es s) = s_private s"
  "s_rewrite_by (push_values es s) = s_rewrite_by s" "s_isections (push_values es s) = s_isections s"
  "map snd (s_container (push_values es s)) = map snd (s_container s) @ map (\<lambda>e. VALUE (clean_entry e)) es"
  by (induction es arbitrary: s) (simp_all add: push_value_def Let_def)

lemma read_section_fields [simp]:
  "i_read_by (s_base (read_section t)) = i_read_by (s_base t)"
  by (simp add: read_section_def init_section_base_def)

lemma run_section:
  assumes t: "section_lines L ip t ls" and st: "ps_multi st = None" "ps_comment st = []" "closable ip st"
    and new: "new_names ip (i_name (s_base t) # ks) (s_isections (ps_ini st))"
  shows "\<exists>rest. run_lines L ip ls st = Ret (st\<lparr>ps_ini := push_section (i_name (s_base t)) (read_section t) (ps_ini st),
      ps_open := [next_id (ps_ini st)], ps_line := rest\<rparr>)"
proof -
  from t obtain cs j l es ms where l: "ls = cs @ [l] @ ms" "i_comment (s_base t) = lines cs" "comment_text L ip cs"
    "i_read_by (s_base t) = int j" "section_line L ip j (i_name (s_base t)) l" "map snd (s_container t) = map VALUE es"
    "entries_lines L ip 1 es ms" "new_names ip (map i_name es) []" by (auto simp: section_lines_def)
  let ?n = "i_name (s_base t)" and ?s = "ps_ini st"
  let ?t = "init_section_base ?n (lines cs) (int j) None new_section"
  from run_comment_lines [OF l(3), of st] obtain r1 where
    c: "run_lines L ip cs st = Ret (st\<lparr>ps_comment := lines cs, ps_line := r1\<rparr>)" using st(2) by auto
  have "closable ip (st\<lparr>ps_comment := lines cs, ps_line := l\<rparr>)" using st(3) by (simp add: closable_def)
  from parse_section_line [OF _ _ this, of L j ?n ks] l(5) st(1) new obtain r2 where
    p: "parse_line L ip (st\<lparr>ps_comment := lines cs, ps_line := l\<rparr>)
      = Ret (st\<lparr>ps_ini := push_section ?n ?t ?s, ps_open := [next_id ?s], ps_comment := [], ps_line := r2\<rparr>)" by auto
  have "new_names ip (map i_name es) (s_ivalues ?t)" using l(8) by (simp add: init_section_base_def new_section_def)
  let ?st = "st\<lparr>ps_ini := push_section ?n ?t ?s, ps_open := [next_id ?s], ps_comment := [], ps_line := r2\<rparr>"
  have "\<exists>rest. run_lines L ip ms ?st = Ret (?st\<lparr>ps_ini := push_section ?n (push_values es ?t) ?s, ps_line := rest\<rparr>)"
    by (rule run_entries [OF l(7)]) (use \<open>new_names ip (map i_name es) (s_ivalues ?t)\<close> at_pushed st in simp_all)
  moreover have "push_values es ?t = read_section t" using values_of_map [OF l(6)] l(2,4) by (simp add: read_section_def)
  ultimately obtain rest where "run_lines L ip ls st = Ret (?st\<lparr>ps_ini := push_section ?n (read_section t) ?s, ps_line := rest\<rparr>)"
    using l(1) c p by (auto simp: run_lines_append)
  with st(2) show ?thesis by (cases st) auto
qed

fun push_sections :: "ini_section list \<Rightarrow> ini_section \<Rightarrow> ini_section" where
  "push_sections [] s = s"
| "push_sections (t # ts) s = push_sections ts (push_section (i_name (s_base t)) (read_section t) s)"

lemma run_sections:
  assumes "sections_lines L ip ts ls" "ps_multi st = None" "ps_comment st = []" "closable ip st"
    "new_names ip (map (\<lambda>t. i_name (s_base t)) ts) (s_isections (ps_ini st))"
  shows "\<exists>os rest. run_lines L ip ls st = Ret (st\<lparr>ps_ini := push_sections ts (ps_ini st), ps_open := os, ps_line := rest\<rparr>)"
  using assms
proof (induction ts arbitrary: ls st)
  case Nil
  then show ?case by (intro exI [of _ "ps_open st"] exI [of _ "ps_line st"]) simp
next
  case (Cons t ts)
  then obtain ks ms where ls: "ls = ks @ ms" "section_lines L ip t ks" "sections_lines L ip ts ms" by auto
  let ?s = "push_section (i_name (s_base t)) (read_section t) (ps_ini st)" and ?o = "[next_id (ps_ini st)]"
  have new: "new_names ip (i_name (s_base t) # map (\<lambda>t. i_name (s_base t)) ts) (s_isections (ps_ini st))" using Cons.prems by simp
  from run_section [OF ls(2) Cons.prems(2-4) new] obtain rest where
    r: "run_lines L ip ks st = Ret (st\<lparr>ps_ini := ?s, ps_open := ?o, ps_line := rest\<rparr>)" by blast
  have "closable ip (st\<lparr>ps_ini := ?s, ps_open := ?o, ps_line := rest\<rparr>)"
    using ls(2) by (auto simp: closable_def section_lines_def sectionNeedsEnd_def)
  from Cons.IH [OF ls(3) _ _ this] Cons.prems initSection_push(2) [OF new] obtain os rest2 where
    "run_lines L ip ms (st\<lparr>ps_ini := ?s, ps_open := ?o, ps_line := rest\<rparr>)
      = Ret (st\<lparr>ps_ini := push_sections ts ?s, ps_open := os, ps_line := rest2\<rparr>)" by auto
  with ls(1) r show ?case by (auto simp: run_lines_append)
qed

section \<open>Files\<close>

text \<open>A section without the numbers of its elements, its indices and dirty flags: what is in the file.\<close>

fun plain_section :: "ini_section \<Rightarrow> ini_section"
and plain_element :: "ini_element \<Rightarrow> ini_element" where
  "plain_section (IniSection b ec p rw cs vs ss) = IniSection (b\<lparr>i_dirty := False\<rparr>) ec p rw (map (\<lambda>x. (0, plain_element (snd x))) cs) [] []"
| "plain_element (VALUE e) = VALUE (e\<lparr>i_dirty := False\<rparr>)"
| "plain_element (SECTION t) = SECTION (plain_section t)"

text \<open>
  Values, then sections without end marks, then a comment that does not end in an empty line; all lines are read by the rules they are
  written with, and the empty line is a comment or nothing.
\<close>

definition file_parts ::
  "'r regex_lib \<Rightarrow> ('r, 'o) ini_machine_scheme \<Rightarrow> ini_section \<Rightarrow> ini_entry list \<Rightarrow> ini_section list
   \<Rightarrow> string list \<Rightarrow> string list \<Rightarrow> string list \<Rightarrow> bool" where
  "file_parts L ip s es ts vs ss cs \<longleftrightarrow>
     (s_base s)\<lparr>i_dirty := False\<rparr> = base_read (- 1) \<and> \<not> s_private s \<and> s_rewrite_by s = - 1
     \<and> map snd (s_container s) = map VALUE es @ map SECTION ts
     \<and> (es \<noteq> [] \<longrightarrow> global_values ip) \<and> entries_lines L ip 0 es vs \<and> new_names ip (map i_name es) []
     \<and> sections_lines L ip ts ss \<and> new_names ip (map (\<lambda>t. i_name (s_base t)) ts) []
     \<and> s_end_comment s = lines cs \<and> nul_free (lines cs) \<and> comment_text L ip cs
     \<and> (cs \<noteq> [] \<longrightarrow> last cs \<noteq> [] \<and> s_container s \<noteq> [])
     \<and> \<not> no_finalcomment_kill ip \<and> (comment_line L ip [] \<or> quiet_line L ip [])"

lemma write_section_lines: "section_lines L ip t ls \<Longrightarrow> write_helper ip 1 t = Ret (lines ls)"
proof -
  assume t: "section_lines L ip t ls"
  obtain b ec p rw xs vs ss where s: "t = IniSection b ec p rw xs vs ss" by (cases t)
  from t s obtain cs j l es ms where l: "ls = cs @ [l] @ ms" "i_comment b = lines cs" "i_read_by b = int j" "j < length (sections ip)"
    "sec_end (sections ip ! j) = None" "printed (io_out (sec_begin (sections ip ! j))) [i_name b] = Ret l" "map snd xs = map VALUE es"
    "entries_lines L ip 1 es ms" by (auto simp: section_lines_def)
  have "map (\<lambda>x. write_element ip 1 (snd x)) xs = map (\<lambda>e. write_entry ip 1 e) es"
    using l(7) by (metis (no_types, lifting) map_map comp_def write_element.simps(1) map_eq_conv)
  with write_entries_lines [OF l(8)] have "oconcat (map (\<lambda>x. write_element ip 1 (snd x)) xs) = Ret (lines ms)" by simp
  with t s l show ?thesis by (simp add: section_lines_def rule_line_def rule_of_def indent_of_def Let_def)
qed

lemma write_sections_lines:
  "sections_lines L ip ts ls \<Longrightarrow> oconcat (map (write_helper ip 1) ts) = Ret (lines ls)"
proof (induction ts arbitrary: ls)
  case (Cons t ts)
  then obtain ks ms where "ls = ks @ ms" "section_lines L ip t ks" "sections_lines L ip ts ms" by auto
  with Cons.IH [of ms] write_section_lines [of L ip t ks] show ?case by (simp del: One_nat_def)
qed simp

lemma oconcat_append: "oconcat (xs @ ys) = obind (oconcat xs) (\<lambda>s. obind (oconcat ys) (\<lambda>t. Ret (s @ t)))"
proof (induction xs)
  case (Cons x xs)
  then show ?case by (cases x; cases "oconcat xs"; cases "oconcat ys") simp_all
next
  case Nil
  show ?case by (cases "oconcat ys") simp_all
qed

lemma clean_base_read: "b\<lparr>i_dirty := False\<rparr> = base_read (- 1) \<Longrightarrow> i_name b = [] \<and> i_comment b = [] \<and> i_read_by b = - 1"
  by (cases b) (simp add: base_read_def)

lemma write_file_parts:
  assumes f: "file_parts L ip s es ts vs ss cs"
  shows "write_helper ip 0 s = Ret (lines (vs @ ss @ cs))"
proof -
  obtain b ec p rw xs iv ix where s: "s = IniSection b ec p rw xs iv ix" by (cases s)
  with f have xs: "map snd xs = map VALUE es @ map SECTION ts" by (simp add: file_parts_def)
  have "map (\<lambda>x. write_element ip 0 (snd x)) xs = map (write_element ip 0) (map snd xs)" by simp
  also have "oconcat \<dots> = Ret (lines vs @ lines ss)"
    using write_entries_lines [of L ip 0 es vs] write_sections_lines [of L ip ts ss] f
    by (simp add: xs oconcat_append comp_def file_parts_def)
  finally have "oconcat (map (\<lambda>x. write_element ip 0 (snd x)) xs) = Ret (lines vs @ lines ss)" .
  moreover have "i_read_by b = - 1" "i_comment b = []" using f s clean_base_read [of b] by (simp_all add: file_parts_def)
  ultimately show ?thesis using f s by (simp add: file_parts_def rule_line_def rule_of_def indent_of_def Let_def)
qed

lemma entries_plain: "entries_lines L ip n es ls \<Longrightarrow> l \<in> set ls \<Longrightarrow> plain_line ip l"
  by (induction es arbitrary: ls) (auto simp: entry_lines_def comment_text_def value_line_def)

lemma sections_plain: "sections_lines L ip ts ls \<Longrightarrow> l \<in> set ls \<Longrightarrow> plain_line ip l"
  by (induction ts arbitrary: ls) (auto simp: section_lines_def comment_text_def section_line_def dest: entries_plain)

lemma file_plain: "file_parts L ip s es ts vs ss cs \<Longrightarrow> \<forall>l \<in> set (vs @ ss @ cs). plain_line ip l"
  by (auto simp: file_parts_def comment_text_def dest: entries_plain sections_plain)

lemma final_comment_lines:
  assumes "comment_text L ip cs" "cs \<noteq> [] \<longrightarrow> last cs \<noteq> []" "\<not> no_finalcomment_kill ip" "nul_free (lines cs)" "e = [] \<or> e = [NL]"
  shows "c_str (final_comment ip (lines cs @ e)) = lines cs"
proof (cases cs rule: rev_cases)
  case Nil
  with assms show ?thesis by (auto simp: final_comment_def)
next
  case (snoc ds l)
  with assms have l: "NL \<notin> set l" "l \<noteq> []" by (auto simp: comment_text_def plain_line_def)
  then have "dropWhile (\<lambda>x. x = NL) (rev (lines cs @ e)) = rev (lines ds @ l)"
    using assms(5) snoc by (cases l rule: rev_cases) auto
  with assms(3-5) snoc l have "final_comment ip (lines cs @ e) = lines cs" by (auto simp: final_comment_def Let_def)
  with assms(4) show ?thesis by simp
qed

lemma plain_eqI:
  assumes "(s_base s)\<lparr>i_dirty := False\<rparr> = (s_base t)\<lparr>i_dirty := False\<rparr>" "s_end_comment s = s_end_comment t" "s_private s = s_private t"
    "s_rewrite_by s = s_rewrite_by t" "map plain_element (map snd (s_container s)) = map plain_element (map snd (s_container t))"
  shows "plain_section s = plain_section t"
proof -
  have "map (\<lambda>x. (0 :: nat, plain_element (snd x))) xs = map (Pair 0) (map plain_element (map snd xs))" for xs :: "(nat \<times> ini_element) list" by simp
  with assms show ?thesis by (cases s; cases t) (simp del: map_map)
qed

lemma plain_clean: "plain_element (VALUE (clean_entry e)) = plain_element (VALUE e)"
  by (simp add: clean_entry_def)

lemma plain_read_section:
  assumes "section_lines L ip t ls"
  shows "plain_section (read_section t) = plain_section t"
proof (rule plain_eqI)
  from assms obtain es where es: "map snd (s_container t) = map VALUE es" by (auto simp: section_lines_def)
  then show "map plain_element (map snd (s_container (read_section t))) = map plain_element (map snd (s_container t))"
    by (simp add: read_section_def values_of_map init_section_base_def new_section_def plain_clean comp_def del: map_map plain_element.simps)
      (simp add: comp_def clean_entry_def)
qed (use assms in \<open>simp_all add: section_lines_def read_section_def init_section_base_def new_section_def base_read_def\<close>)

lemma push_sections_fields [simp]:
  "s_base (push_sections ts s) = s_base s" "s_end_comment (push_sections ts s) = s_end_comment s" "s_private (push_sections ts s) = s_private s"
  "s_rewrite_by (push_sections ts s) = s_rewrite_by s"
  "map snd (s_container (push_sections ts s)) = map snd (s_container s) @ map (\<lambda>t. SECTION (read_section t)) ts"
  by (induction ts arbitrary: s) (simp_all add: push_section_def Let_def)

lemma plain_read_sections: "sections_lines L ip ts ls \<Longrightarrow> map (\<lambda>t. plain_section (read_section t)) ts = map plain_section ts"
  by (induction ts arbitrary: ls) (auto simp: plain_read_section)

lemma setEndComment_empty: "s_end_comment s = [] \<Longrightarrow> setEndComment [] s = s"
  by (cases s) (auto simp: setEndComment_def)

lemma plain_parsed:
  assumes f: "file_parts L ip s es ts vs ss cs" and e: "e = [] \<or> e = [NL]"
  shows "plain_section (if lines cs @ e = [] then push_sections ts (push_values es new_section)
      else setEndComment (lines cs) (push_sections ts (push_values es new_section))) = plain_section s"
proof -
  let ?S = "push_sections ts (push_values es new_section)"
  have c: "map snd (s_container ?S) = map (\<lambda>e. VALUE (clean_entry e)) es @ map (\<lambda>t. SECTION (read_section t)) ts"
    by (simp add: new_section_def)
  have "map plain_element (map snd (s_container ?S)) = map plain_element (map VALUE es @ map SECTION ts)"
    using plain_read_sections [of L ip ts ss] f unfolding c by (simp add: comp_def clean_entry_def file_parts_def)
  with f have elems: "map plain_element (map snd (s_container ?S)) = map plain_element (map snd (s_container s))" by (simp add: file_parts_def)
  have new: "s_base new_section = base_read (- 1)" "s_end_comment new_section = []" "\<not> s_private new_section" "s_rewrite_by new_section = - 1"
    by (simp_all add: new_section_def)
  have base: "(s_base s)\<lparr>i_dirty := False\<rparr> = base_read (- 1)" "(base_read (- 1))\<lparr>i_dirty := False\<rparr> = base_read (- 1)"
    using f by (simp_all add: file_parts_def base_read_def)
  show ?thesis
  proof (cases "cs = []")
    case True
    have "plain_section ?S = plain_section s" by (rule plain_eqI) (use f True new base elems in \<open>simp_all add: file_parts_def\<close>)
    moreover have "setEndComment [] ?S = ?S" by (rule setEndComment_empty) (simp add: new)
    ultimately show ?thesis using True by simp
  next
    case False
    with f have "s_container s \<noteq> []" by (simp add: file_parts_def)
    with elems have "s_container ?S \<noteq> []" by (metis list.map_disc_iff)
    then have "setEndComment (lines cs) ?S = set_rest (\<lambda>_. lines cs) id id ?S" by (simp add: setEndComment_def)
    moreover have "plain_section (set_rest (\<lambda>_. lines cs) id id ?S) = plain_section s"
      by (rule plain_eqI) (use f new base elems in \<open>simp_all add: file_parts_def\<close>)
    ultimately show ?thesis using False by simp
  qed
qed

text \<open>
  A file of values and of sections without end marks, with comments, is parsed again to the same names, values, comments, rules and
  sections in the same order; the empty line that the scanner adds at the end, and shell quoting, make no difference.
\<close>

lemma file_write_parse:
  assumes f: "file_parts L ip s es ts vs ss cs"
  shows "\<exists>t s'. write_helper ip 0 s = Ret t \<and> parse_helper L ip t new_section = Ret s' \<and> plain_section s' = plain_section s"
proof -
  let ?st = "\<lparr>ps_ini = new_section, ps_open = [], ps_comment = [], ps_key = [], ps_val = [], ps_multi = None, ps_line = []\<rparr>"
  let ?S = "push_sections ts (push_values es new_section)" and ?ls = "vs @ ss @ cs"
  have new: "s_ivalues new_section = []" "s_isections new_section = []" by (simp_all add: new_section_def)
  have "\<exists>rest. run_lines L ip vs ?st = Ret (?st\<lparr>ps_ini := push_values es new_section, ps_line := rest\<rparr>)"
    by (rule run_entries [of L ip 0 es vs _ "\<lambda>t. t"]) (use f at_top new in \<open>simp_all add: file_parts_def\<close>)
  then obtain r1 where v: "run_lines L ip vs ?st = Ret (?st\<lparr>ps_ini := push_values es new_section, ps_line := r1\<rparr>)" by blast
  have "\<exists>os rest. run_lines L ip ss (?st\<lparr>ps_ini := push_values es new_section, ps_line := r1\<rparr>)
      = Ret (?st\<lparr>ps_ini := push_values es new_section, ps_line := r1, ps_ini := ?S, ps_open := os, ps_line := rest\<rparr>)"
    using run_sections [of L ip ts ss "?st\<lparr>ps_ini := push_values es new_section, ps_line := r1\<rparr>"] f new by (simp add: file_parts_def closable_def)
  then obtain os r2 where t: "run_lines L ip ss (?st\<lparr>ps_ini := push_values es new_section, ps_line := r1\<rparr>)
      = Ret (?st\<lparr>ps_ini := ?S, ps_open := os, ps_line := r2\<rparr>)" by auto
  have "comment_text L ip cs" using f by (simp add: file_parts_def)
  from run_comment_lines [OF this, of "?st\<lparr>ps_ini := ?S, ps_open := os, ps_line := r2\<rparr>"] obtain r3 where
    c: "run_lines L ip cs (?st\<lparr>ps_ini := ?S, ps_open := os, ps_line := r2\<rparr>) = Ret (?st\<lparr>ps_ini := ?S, ps_open := os, ps_comment := lines cs, ps_line := r3\<rparr>)"
    by auto
  have "\<exists>e. (e = [] \<or> e = [NL]) \<and> parse_line L ip (?st\<lparr>ps_ini := ?S, ps_open := os, ps_comment := lines cs, ps_line := []\<rparr>)
      = Ret (?st\<lparr>ps_ini := ?S, ps_open := os, ps_comment := lines cs @ e, ps_line := []\<rparr>)"
  proof (cases "comment_line L ip []")
    case True
    then show ?thesis by (intro exI [of _ "[NL]"]) (simp add: parse_comment_line)
  next
    case False
    with f have "quiet_line L ip []" by (simp add: file_parts_def)
    then show ?thesis by (intro exI [of _ "[]"]) (simp add: parse_quiet_line)
  qed
  then obtain e where e: "e = [] \<or> e = [NL]" "parse_line L ip (?st\<lparr>ps_ini := ?S, ps_open := os, ps_comment := lines cs, ps_line := []\<rparr>)
      = Ret (?st\<lparr>ps_ini := ?S, ps_open := os, ps_comment := lines cs @ e, ps_line := []\<rparr>)" by blast
  have "parse_lines L ip (stream_of (lines ?ls)) ?st = Ret (?st\<lparr>ps_ini := ?S, ps_open := os, ps_comment := lines cs @ e, ps_line := []\<rparr>)"
    unfolding parse_lines_run [OF file_plain [OF f]] using v t c e(2) by (simp add: run_lines_append)
  moreover have "c_str (final_comment ip (lines cs @ e)) = lines cs"
    by (rule final_comment_lines [of L]) (use f e(1) in \<open>simp_all add: file_parts_def\<close>)
  ultimately have "parse_helper L ip (lines ?ls) new_section = Ret (if lines cs @ e = [] then ?S else setEndComment (lines cs) ?S)"
    by (simp add: parse_helper_def)
  with write_file_parts [OF f] plain_parsed [OF f e(1)] show ?thesis by blast
qed

definition sample_entry :: "string \<Rightarrow> string \<Rightarrow> ini_entry" where
  "sample_entry k v = init_entry k [] 0 v new_entry"

definition sample_sub :: ini_section where
  "sample_sub = IniSection ((base_read 0)\<lparr>i_name := ''a''\<rparr>) [] False (- 1) [(1, VALUE (sample_entry ''x'' ''y''))] [(''x'', 1)] []"

definition sample_file :: ini_section where
  "sample_file = IniSection (base_read (- 1)) [] False (- 1) [(1, VALUE (sample_entry ''k'' ''v'')), (2, SECTION sample_sub)] [(''k'', 1)] [(''a'', 2)]"

lemmas sample_machine_defs = sample_machine_def sample_options_def ini_options.defs sample_lib_def sample_exec_def

lemma sample_value_lines:
  "value_line sample_lib sample_machine 0 ''k'' ''v'' ''k=v''" "value_line sample_lib sample_machine 0 ''x'' ''y'' ''x=y''"
  by (simp_all add: value_line_def plain_line_def no_comment_def no_rule_def end_rules_def begin_rules_def List.map_filter_def
      RegexMatch_def match_part_def submatch_def c_str_def sample_machine_defs enumerate_eq_zip)

lemma sample_section_line: "section_line sample_lib sample_machine 0 ''a'' ''[a]''"
  by (simp add: section_line_def plain_line_def no_comment_def end_rules_def begin_rules_def List.map_filter_def
      RegexMatch_def match_part_def submatch_def c_str_def sample_machine_defs enumerate_eq_zip)

lemma sample_empty_line: "quiet_line sample_lib sample_machine []"
  by (simp add: quiet_line_def no_comment_def no_rule_def end_rules_def begin_rules_def List.map_filter_def
      RegexMatch_def c_str_def sample_machine_defs enumerate_eq_zip)

lemma sample_entry_lines:
  "entry_lines sample_lib sample_machine n (sample_entry ''k'' ''v'') [''k=v'']"
  "entry_lines sample_lib sample_machine n (sample_entry ''x'' ''y'') [''x=y'']"
  unfolding entry_lines_def
  by (intro conjI exI [of _ "[]"] exI [of _ 0] exI [of _ "''k=v''"] exI [of _ "''x=y''"];
      use sample_value_lines in \<open>simp add: sample_entry_def init_entry_def init_base_def new_entry_def base_read_def ini_base.defs indent_of_def
        comment_text_def printed_def written_value_def c_str_def sample_machine_def sample_options_def ini_options.defs\<close>)+

lemma sample_section_lines: "section_lines sample_lib sample_machine sample_sub [''[a]'', ''x=y'']"
  unfolding section_lines_def
  by (intro conjI exI [of _ "[]"] exI [of _ 0] exI [of _ "''[a]''"] exI [of _ "[sample_entry ''x'' ''y'']"] exI [of _ "[''x=y'']"];
      use sample_section_line sample_entry_lines(2) [of 1] in \<open>simp add: sample_sub_def base_read_def comment_text_def printed_def c_str_def new_names_def
        changeCase_def mm_range_def sample_machine_def sample_options_def ini_options.defs\<close>)

lemma sample_file_parts:
  "file_parts sample_lib sample_machine sample_file [sample_entry ''k'' ''v''] [sample_sub] [''k=v''] [''[a]'', ''x=y''] []"
  unfolding file_parts_def
  by (intro conjI; use sample_empty_line sample_section_lines sample_entry_lines(1) [of 0] in
      \<open>simp add: sample_file_def base_read_def new_names_def changeCase_def mm_range_def comment_text_def sample_machine_def sample_options_def ini_options.defs\<close>)

section \<open>Texts that are not read as they were meant\<close>

text \<open>A value behind a section without end mark is written, and so read again, as if it were in that section.\<close>

lemma value_after_section:
  assumes "subindent ip = []" "rule_of (sections ip) (i_read_by tb) = Some r" "sec_end r = None"
  shows "write_helper ip 0 (IniSection b ec p rw [(i, SECTION (IniSection tb [] tp trw cs tv ts)), (j, VALUE e)] iv ix)
    = write_helper ip 0 (IniSection b ec p rw [(i, SECTION (IniSection tb [] tp trw (cs @ [(j, VALUE e)]) tv' ts'))] iv' ix')"
proof -
  have i: "indent_of [] n = []" for n by (simp add: indent_of_def)
  have w: "write_entry ip n e = write_entry ip m e" for n m using assms(1) by (simp add: write_entry_def i)
  show ?thesis
    using assms w [of 0 1]
    by (cases "oconcat (map (\<lambda>x. write_element ip (Suc 0) (snd x)) cs)"; cases "write_entry ip 1 e";
        cases "rule_line [] (Some (sec_begin r)) [i_name tb]")
      (simp_all add: Let_def i oconcat_append rule_line_def [of _ None])
qed

text \<open>A comment at the end of the file that has no end of line is read twice.\<close>

lemma unterminated_comment_twice:
  assumes "comment_line L ip l" "NL \<notin> set l" "l \<noteq> []" "nul_free l" "\<not> line_can_continue ip" "no_finalcomment_kill ip"
  shows "parse_helper L ip l new_section = Ret (set_base (\<lambda>b. b\<lparr>i_comment := lines [l, l]\<rparr>) new_section)"
proof -
  let ?f = "\<lparr>is_rest = [], is_eof = True, is_fail = False\<rparr>"
  let ?st = "\<lparr>ps_ini = new_section, ps_open = [], ps_comment = [], ps_key = [], ps_val = [], ps_multi = None, ps_line = []\<rparr>"
  have g: "scanner_get False (stream_of l) s = Some (Some (?f, l))" "scanner_get False ?f l = Some (Some (?f\<lparr>is_fail := True\<rparr>, l))"
    "scanner_get False (?f\<lparr>is_fail := True\<rparr>) s = Some None" for s
    using assms by (simp_all add: scanner_get_def getline_def stream_of_def)
  have "parse_lines L ip (stream_of l) ?st = Ret (?st\<lparr>ps_comment := lines [l, l], ps_line := l\<rparr>)"
    using assms g(1) [of "[]"] g(2) g(3) [of l] by (simp add: parse_lines.simps parse_comment_line)
  with assms show ?thesis
    by (simp add: parse_helper_def final_comment_def setEndComment_def new_section_def base_read_def)
qed

text \<open>With \<^verbatim>\<open>no_finalcomment_kill\<close> and empty lines as comments, a file of comments gets an empty line each time it is read and written.\<close>

lemma final_comment_grows:
  assumes "comment_text L ip cs" "comment_line L ip []" "nul_free (lines cs)" "no_finalcomment_kill ip"
  shows "\<exists>s'. parse_helper L ip (lines cs) new_section = Ret s' \<and> write_helper ip 0 s' = Ret (lines (cs @ [[]]))"
proof -
  let ?st = "\<lparr>ps_ini = new_section, ps_open = [], ps_comment = [], ps_key = [], ps_val = [], ps_multi = None, ps_line = []\<rparr>"
  from run_comment_lines [OF assms(1), of ?st] obtain rest where "run_lines L ip cs ?st = Ret (?st\<lparr>ps_comment := lines cs, ps_line := rest\<rparr>)" by auto
  then have "run_lines L ip (cs @ [[]]) ?st = Ret (?st\<lparr>ps_comment := lines cs @ [NL], ps_line := []\<rparr>)"
    using assms(2) by (simp add: run_lines_append parse_comment_line)
  moreover have "\<forall>l \<in> set cs. plain_line ip l" using assms(1) by (simp add: comment_text_def)
  ultimately have "parse_helper L ip (lines cs) new_section = Ret (set_base (\<lambda>b. b\<lparr>i_comment := lines cs @ [NL]\<rparr>) new_section)"
    using assms(3,4) by (simp add: parse_helper_def parse_lines_run final_comment_def setEndComment_def new_section_def base_read_def)
  then show ?thesis
    using assms(3) by (simp add: new_section_def base_read_def rule_line_def rule_of_def Let_def)
qed

end
