(* ===== verification/Ini_All.thy ===== *)
theory Ini_All
  imports Ini_Laws
begin

text \<open>
  \<^verbatim>\<open>Read (.all)\<close> and \<^verbatim>\<open>Write (.all)\<close> of sections of ini files.
\<close>

section \<open>The maps\<close>

lemma ymap_inv_add: "ymap_inv m \<Longrightarrow> ymap_inv (ymap_add m (YString k) v)"
  by (rule ymap.inv_add) simp_all

lemma ymap_value_add:
  "ymap_inv m \<Longrightarrow> ymap_value (ymap_add m (YString k) v) (YString l) = (if l = k then v else ymap_value m (YString l))"
  using map_find_map_of [OF ymap_inv_add, of m "YString l" k v] map_find_map_of [of m "YString l"] map_of_ymap_add [of m "YString k" "YString l" v]
  by (simp add: ymap_value_def)

lemma ymap_inv_Nil [simp]: "ymap_inv []"
  by (simp add: ymap_inv_def)

lemma ymap_inv_base [simp]: "ymap_inv (base_all b)"
  by (simp add: base_all_def ymap_inv_add)

lemma base_all_values:
  "ymap_value (base_all b) (YString k) =
     (if k = ''comment'' then YString (i_comment b) else if k = ''type'' then YInteger (word_of_int (i_read_by b))
      else if k = ''name'' then YString (i_name b) else YNull)"
  by (simp add: base_all_def ymap_inv_add ymap_value_add) (simp add: ymap_value_def)

lemma ymap_inv_all [simp]: "ymap_inv (entry_all e)" "ymap_inv (getAllDoIt s)"
  by (simp add: entry_all_def ymap_inv_add, cases s, simp add: ymap_inv_add)

lemma entry_all_values:
  "ymap_value (entry_all e) (YString k) =
     (if k = ''value'' then YString (e_val e) else if k = ''kind'' then YString ''value'' else ymap_value (base_all e) (YString k))"
  by (simp add: entry_all_def ymap_inv_add ymap_value_add)

lemma section_all_values:
  "ymap_value (getAllDoIt s) (YString k) =
     (if k = ''value'' then YList (map (\<lambda>x. element_all (snd x)) (s_container s))
      else if k = ''file'' then YInteger (word_of_int (s_rewrite_by s))
      else if k = ''kind'' then YString ''section'' else ymap_value (base_all (s_base s)) (YString k))"
  by (cases s) (simp add: ymap_inv_add ymap_value_add)

section \<open>Numbers in range\<close>

definition int_ok :: "int \<Rightarrow> bool" where
  "int_ok i \<longleftrightarrow> - (2 ^ 31) \<le> i \<and> i < 2 ^ 31"

fun sec_ints :: "ini_section \<Rightarrow> bool"
and elem_ints :: "ini_element \<Rightarrow> bool" where
  "sec_ints (IniSection b ec p rw cs vs ss) \<longleftrightarrow> int_ok (i_read_by b) \<and> int_ok rw \<and> (\<forall>x \<in> set cs. elem_ints (snd x))"
| "elem_ints (VALUE e) \<longleftrightarrow> int_ok (i_read_by e)"
| "elem_ints (SECTION t) \<longleftrightarrow> sec_ints t"

lemma to_int32_ok: "int_ok i \<Longrightarrow> to_int32 (word_of_int i) = i"
  by (simp add: int_ok_def to_int32_small)

lemma base_setAll_all:
  assumes "int_ok (i_read_by a)" "ymap_value m (YString ''name'') = YString (i_name a)"
    "ymap_value m (YString ''type'') = YInteger (word_of_int (i_read_by a))" "ymap_value m (YString ''comment'') = YString (i_comment a)"
  shows "base_setAll m b = (b\<lparr>i_dirty := True, i_name := i_name a, i_read_by := i_read_by a, i_comment := i_comment a\<rparr>, True)"
  using assms by (simp add: base_setAll_def getMapString_def getMapInteger_def to_int32_ok Let_def)

lemma entry_setAll_all:
  assumes "int_ok (i_read_by e)"
  shows "\<exists>e'. entry_setAll (entry_all e) e0 = (e', True) \<and> element_all (VALUE e') = (element_all (VALUE e) :: 'c ycp)"
  using assms
  by (simp add: entry_setAll_def base_setAll_all [where a = e] entry_all_values base_all_values getMapString_def)
    (simp add: entry_all_def base_all_def)

section \<open>Round trip\<close>

abbreviation all_of :: "ini_section \<Rightarrow> 'c ycp list" where
  "all_of s \<equiv> map (\<lambda>x. element_all (snd x)) (s_container s)"

lemma push_element_fields [simp]:
  "s_base (push_element x s) = s_base s" "s_rewrite_by (push_element x s) = s_rewrite_by s"
  "s_end_comment (push_element x s) = s_end_comment s" "s_private (push_element x s) = s_private s"
  "s_container (push_element x s) = s_container s @ [(next_id s, x)]"
  by (simp_all add: push_element_def next_id_def)

lemma reindex_fields [simp]:
  "s_base (reindex ip s) = s_base s" "s_rewrite_by (reindex ip s) = s_rewrite_by s" "s_container (reindex ip s) = s_container s"
  by (simp_all add: reindex_def)

lemma getAll_eq:
  "i_name (s_base s) = i_name (s_base t) \<Longrightarrow> i_comment (s_base s) = i_comment (s_base t) \<Longrightarrow> i_read_by (s_base s) = i_read_by (s_base t)
   \<Longrightarrow> s_rewrite_by s = s_rewrite_by t \<Longrightarrow> all_of s = (all_of t :: 'c ycp list) \<Longrightarrow> getAllDoIt s = (getAllDoIt t :: 'c ymap)"
  by (cases s; cases t) (simp add: base_all_def)

lemma getAll_copy: "getAllDoIt (copy_section ip s) = (getAllDoIt s :: 'c ymap)"
  and element_all_copy: "element_all (copy_element ip x) = (element_all x :: 'c ycp)"
proof (induction ip s and ip x rule: copy_section_copy_element.induct)
  case (1 ip b ec p rw cs vs ss)
  then show ?case by (simp add: reindex_def comp_def cong: map_cong)
qed simp_all

text \<open>One item, and the items of a list.\<close>

definition item_echoes :: "('o ini_options_scheme) \<Rightarrow> 'c itself \<Rightarrow> ini_element \<Rightarrow> bool" where
  "item_echoes ip T x \<longleftrightarrow>
     (\<forall>l s D. \<exists>y. element_all y = (element_all x :: 'c ycp) \<and> set_items ip (element_all x # l) s D = set_items ip (l :: 'c ycp list) (push_element y s) D)"

lemma item_echoesD:
  assumes "item_echoes ip TYPE('c) x"
  obtains y where "element_all y = (element_all x :: 'c ycp)"
    "set_items ip (element_all x # l) s D = set_items ip (l :: 'c ycp list) (push_element y s) D"
proof -
  from assms have "\<exists>y. element_all y = (element_all x :: 'c ycp)
      \<and> set_items ip (element_all x # l) s D = set_items ip (l :: 'c ycp list) (push_element y s) D"
    by (simp only: item_echoes_def)
  then show thesis by (elim exE conjE) (rule that)
qed

lemma items_echo:
  "\<forall>x \<in> set cs. item_echoes ip TYPE('c) (snd x) \<Longrightarrow>
   \<exists>s'. set_items ip (map (\<lambda>x. element_all (snd x)) cs :: 'c ycp list) s D = Ret (s', D, True)
     \<and> s_base s' = s_base s \<and> s_rewrite_by s' = s_rewrite_by s \<and> all_of s' = (all_of s @ map (\<lambda>x. element_all (snd x)) cs :: 'c ycp list)"
proof (induction cs arbitrary: s)
  case (Cons x cs)
  let ?l = "map (\<lambda>x. element_all (snd x)) cs :: 'c ycp list"
  from Cons.prems have "item_echoes ip TYPE('c) (snd x)" by simp
  then obtain y where y: "element_all y = (element_all (snd x) :: 'c ycp)"
    "set_items ip (element_all (snd x) # ?l) s D = set_items ip ?l (push_element y s) D"
    by (rule item_echoesD)
  from Cons.prems have "\<forall>x \<in> set cs. item_echoes ip TYPE('c) (snd x)" by simp
  from Cons.IH [OF this, of "push_element y s"] obtain s' where
    s': "set_items ip ?l (push_element y s) D = Ret (s', D, True)"
      "s_base s' = s_base s" "s_rewrite_by s' = s_rewrite_by s"
      "all_of s' = (all_of s @ [element_all y] @ ?l :: 'c ycp list)" by (elim exE conjE) (simp only: push_element_fields map_append list.map snd_conv append_assoc)
  have "set_items ip (map (\<lambda>x. element_all (snd x)) (x # cs) :: 'c ycp list) s D = Ret (s', D, True)"
    by (simp only: list.map y(2) s'(1))
  moreover have "all_of s' = (all_of s @ map (\<lambda>x. element_all (snd x)) (x # cs) :: 'c ycp list)"
    by (simp only: s'(4) y(1) list.map append_Cons append_Nil)
  ultimately show ?case using s'(2,3) by blast
qed (simp add: set_items.simps)

lemma value_echoes: "int_ok (i_read_by e) \<Longrightarrow> item_echoes ip TYPE('c) (VALUE e)"
  unfolding item_echoes_def
proof (intro allI)
  fix l :: "'c ycp list" and s D
  assume "int_ok (i_read_by e)"
  from entry_setAll_all [OF this, of new_entry] obtain e' where
    e': "entry_setAll (entry_all e :: 'c ymap) new_entry = (e', True)" "element_all (VALUE e') = (element_all (VALUE e) :: 'c ycp)" by blast
  have "set_items ip (element_all (VALUE e) # l) s D = set_items ip l (push_element (VALUE e') s) D"
    using e'(1) by (simp add: set_items.simps(2) [of ip "YMap (entry_all e)"] getMapString_def entry_all_values)
  with e'(2) show "\<exists>y. element_all y = (element_all (VALUE e) :: 'c ycp)
      \<and> set_items ip (element_all (VALUE e) # l) s D = set_items ip l (push_element y s) D" by blast
qed

lemma section_echo:
  assumes "\<forall>x \<in> set (s_container s). item_echoes ip TYPE('c) (snd x)" "int_ok (i_read_by (s_base s))" "int_ok (s_rewrite_by s)"
  shows "\<exists>t'. setAllDoIt ip (YMap (getAllDoIt s) :: 'c ycp) t D = Ret (t', D, True) \<and> getAllDoIt t' = (getAllDoIt s :: 'c ymap)"
proof -
  let ?m = "getAllDoIt s :: 'c ymap"
  let ?b = "(s_base t)\<lparr>i_dirty := True, i_name := i_name (s_base s), i_read_by := i_read_by (s_base s), i_comment := i_comment (s_base s)\<rparr>"
  let ?t = "set_lists (\<lambda>_. []) id id (set_rest id id (\<lambda>_. s_rewrite_by s) (put_base ?b t))"
  have b: "base_setAll ?m (s_base t) = (?b, True)"
    using assms(2) by (simp add: base_setAll_all [where a = "s_base s"] section_all_values base_all_values)
  from items_echo [OF assms(1), of ?t D] obtain s' where
    s': "set_items ip (all_of s :: 'c ycp list) ?t D = Ret (s', D, True)" "s_base s' = ?b" "s_rewrite_by s' = s_rewrite_by s"
      "all_of s' = (all_of s :: 'c ycp list)"
    by (auto simp: put_base_def)
  have "setAllDoIt ip (YMap ?m) t D = Ret (reindex ip s', D, True)"
    using b s'(1) assms(3)
    by (simp add: setAllDoIt.simps [of ip "YMap ?m"] getMapString_def getMapInteger_def section_all_values to_int32_ok Let_def)
  moreover have "getAllDoIt (reindex ip s') = ?m" by (rule getAll_eq) (simp_all add: s')
  ultimately show ?thesis by blast
qed

lemma all_echoes: "sec_ints s \<Longrightarrow> item_echoes ip TYPE('c) (SECTION s)"
  and elem_echoes: "elem_ints x \<Longrightarrow> item_echoes ip TYPE('c) x"
proof (induction s and x rule: sec_ints_elem_ints.induct)
  case (1 b ec p rw cs vs ss)
  let ?s = "IniSection b ec p rw cs vs ss"
  show ?case
    unfolding item_echoes_def
  proof (intro allI)
    fix l :: "'c ycp list" and s D
    have "\<exists>t'. setAllDoIt ip (YMap (getAllDoIt ?s) :: 'c ycp) new_section D = Ret (t', D, True) \<and> getAllDoIt t' = (getAllDoIt ?s :: 'c ymap)"
      by (rule section_echo) (use 1 in auto)
    then obtain t' where t': "setAllDoIt ip (YMap (getAllDoIt ?s) :: 'c ycp) new_section D = Ret (t', D, True)" "getAllDoIt t' = (getAllDoIt ?s :: 'c ymap)"
      by blast
    have "set_items ip (element_all (SECTION ?s) # l) s D = set_items ip l (push_element (SECTION (copy_section ip t')) s) D"
      using t'(1) by (simp add: set_items.simps(2) [of ip "YMap (getAllDoIt ?s)"] getMapString_def section_all_values del: getAllDoIt.simps)
    moreover have "element_all (SECTION (copy_section ip t')) = (element_all (SECTION ?s) :: 'c ycp)"
      using t'(2) by (simp add: getAll_copy del: getAllDoIt.simps)
    ultimately show "\<exists>y. element_all y = (element_all (SECTION ?s) :: 'c ycp)
        \<and> set_items ip (element_all (SECTION ?s) # l) s D = set_items ip l (push_element y s) D" by blast
  qed
qed (simp_all add: value_echoes)

text \<open>
  C34. The map that \<^verbatim>\<open>Read (.all)\<close> gives for a section is accepted by \<^verbatim>\<open>Write (.all)\<close>, into any section, and read again from the
  result: all names, comments, rules, values and subsections, in their order, come back.
\<close>

theorem ini_all_roundtrip:
  assumes "sec_ints s"
  shows "\<exists>t'. setAll ip [] (YMap (getAllDoIt s) :: 'c ycp) t D = Ret (t', D, True) \<and> getAll ip [] t' = Ret (Some (YMap (getAllDoIt s) :: 'c ycp))"
proof -
  have "\<exists>t'. setAllDoIt ip (YMap (getAllDoIt s) :: 'c ycp) t D = Ret (t', D, True) \<and> getAllDoIt t' = (getAllDoIt s :: 'c ymap)"
  proof (rule section_echo)
    show "\<forall>x \<in> set (s_container s). item_echoes ip TYPE('c) (snd x)" using assms by (cases s) (simp add: elem_echoes)
  qed (use assms in \<open>cases s; simp\<close>)+
  then show ?thesis by auto
qed

definition sample_section :: ini_section where
  "sample_section = IniSection (base_read 0) [] False (- 1)
     [(0, VALUE (init_entry ''k'' [] 0 ''v'' new_entry)), (1, SECTION (added_section ''t''))] [(''k'', 0)] [(''t'', 1)]"

theorem ini_all_roundtrip_witness:
  "\<exists>t'. setAll sample_options [] (YMap (getAllDoIt sample_section) :: unit ycp) new_section [] = Ret (t', [], True)
    \<and> getAll sample_options [] t' = Ret (Some (YMap (getAllDoIt sample_section) :: unit ycp))"
proof -
  have "sec_ints sample_section"
    by (simp add: sample_section_def int_ok_def base_read_def added_section_def base_named_def init_entry_def init_base_def new_entry_def ini_base.defs)
  from ini_all_roundtrip [OF this, of sample_options new_section "[]"] show ?thesis .
qed

end
