(* ===== verification/Ini_Reload.thy ===== *)
theory Ini_Reload
  imports Ini_Safety
begin

text \<open>
  A file that changed on the disk is parsed into the sections that are there already.  Values that were written but not yet saved
  survive.
\<close>

lemma pending_fields [simp]: "pending ip ks v (set_base f s) \<longleftrightarrow> pending ip ks v s" "pending ip ks v (set_rest fe fp fr s) \<longleftrightarrow> pending ip ks v s"
  by (cases "(ip, ks, v, s)" rule: pending.cases; simp)+

lemma pending_end_comment: "pending ip ks v s \<Longrightarrow> pending ip ks v (setEndComment c s)"
  by (simp add: setEndComment_def)

lemma of_disjoint: "ent_of s i = Some e \<Longrightarrow> section_of s i = None" "section_of s i = Some t \<Longrightarrow> ent_of s i = None"
  by (auto simp: ent_of_def section_of_def split: option.splits ini_element.splits)

text \<open>Elements that are added or dropped do not matter, unless they are the one that is pending.\<close>

lemma pending_push_value:
  assumes "pending ip ks v s" "\<And>l. ks = [l] \<Longrightarrow> changeCase ip l \<noteq> k"
  shows "pending ip ks v (push_value k e s)"
  using assms by (cases "(ip, ks, v, s)" rule: pending.cases) (auto simp: ent_of_next(1))

lemma pending_drop_value:
  assumes "pending ip ks v s" "ent_of s j = Some e" "sec_ok ip s" "\<And>l. ks = [l] \<Longrightarrow> changeCase ip l \<noteq> entry_key ip e"
  shows "pending ip ks v (drop_value j s)"
proof (cases "(ip, ks, v, s)" rule: pending.cases)
  case (2 ip' k v' s')
  with assms obtain i f where f: "mm_range (changeCase ip k) (s_ivalues s) = [i]" "ent_of s i = Some f" "i_dirty f" "e_val f = v" by auto
  then have "entry_key ip f = changeCase ip k" using value_range [OF assms(3), of i "changeCase ip k"] by auto
  with f(2) assms(2,4) 2 have "i \<noteq> j" by auto
  with f 2 show ?thesis by (auto simp: mm_range_erase)
next
  case (3 ip' k l ls v' s')
  with assms(1) obtain i u where u: "mm_range (changeCase ip k) (s_isections s) = [i]" "section_of s i = Some u" "pending ip (l # ls) v u" by auto
  with assms(2) of_disjoint(1) have "i \<noteq> j" by fastforce
  with u 3 show ?thesis by auto
qed (use assms in auto)

lemma pending_drop_section:
  assumes "pending ip ks v s" "section_of s j = Some t" "sec_ok ip s" "\<And>l m ls. ks = l # m # ls \<Longrightarrow> changeCase ip l \<noteq> sec_key ip t"
  shows "pending ip ks v (drop_section j s)"
proof (cases "(ip, ks, v, s)" rule: pending.cases)
  case (3 ip' k l ls v' s')
  with assms obtain i u where u: "mm_range (changeCase ip k) (s_isections s) = [i]" "section_of s i = Some u" "pending ip (l # ls) v u" by auto
  then have "sec_key ip u = changeCase ip k" using section_range [OF assms(3), of i "changeCase ip k"] by auto
  with u(2) assms(2,4) 3 have "i \<noteq> j" by auto
  with u 3 show ?thesis by (auto simp: mm_range_erase)
next
  case (2 ip' k v' s')
  with assms(1) obtain i f where f: "mm_range (changeCase ip k) (s_ivalues s) = [i]" "ent_of s i = Some f" "i_dirty f" "e_val f = v" by auto
  with assms(2) of_disjoint(1) have "i \<noteq> j" by fastforce
  with f 2 show ?thesis by auto
qed (use assms in auto)

lemma pending_push_section:
  assumes "pending ip ks v s" "\<And>l m ls. ks = l # m # ls \<Longrightarrow> changeCase ip l \<noteq> k"
  shows "pending ip ks v (push_section k t s)"
  using assms by (cases "(ip, ks, v, s)" rule: pending.cases) (auto simp: ent_of_next(2))

lemma initValue_pending:
  assumes r: "\<not> repeat_names ip" and s: "sec_ok ip s" "pending ip ks v s" and i: "initValue ip key val c rb s = Ret s'"
  shows "pending ip ks v s'"
proof (cases "mm_range (changeCase ip key) (s_ivalues s)")
  case Nil
  with r i have "s' = push_value (changeCase ip key) (init_entry (changeCase ip key) c rb val new_entry) s" by (simp add: initValue_def Let_def)
  with s(2) Nil show ?thesis by (auto intro!: pending_push_value)
next
  case (Cons j js)
  with r i obtain e where e: "ent_of s j = Some e"
    "s' = push_value (changeCase ip key) (init_entry (changeCase ip key) c rb val e) (drop_value j s)"
    by (auto simp: initValue_def Let_def split: option.splits)
  have k: "entry_key ip e = changeCase ip key" using value_range [OF s(1), of j "changeCase ip key"] e(1) Cons by auto
  show ?thesis
  proof (cases "\<exists>l. ks = [l] \<and> changeCase ip l = changeCase ip key")
    case True
    with s(2) Cons e(1) have "mm_range (changeCase ip key) (s_ivalues s) = [j]" "i_dirty e" "e_val e = v" by auto
    with True e(2) show ?thesis by (auto simp: mm_range_erase init_entry_def)
  next
    case False
    with e k pending_drop_value [OF s(2) e(1) s(1)] show ?thesis by (auto intro!: pending_push_value)
  qed
qed

lemma initSection_pending:
  assumes r: "\<not> repeat_names ip" and s: "sec_ok ip s" "pending ip ks v s" and i: "initSection ip name c rb wb s = Ret s'"
  shows "pending ip ks v s'"
proof (cases "mm_range (changeCase ip name) (s_isections s)")
  case Nil
  with r i have "s' = push_section (changeCase ip name) (init_section_base (changeCase ip name) c rb wb new_section) s"
    by (simp add: initSection_def Let_def)
  with s(2) Nil show ?thesis by (auto intro!: pending_push_section)
next
  case (Cons j js)
  with r i obtain t where t: "section_of s j = Some t" by (auto simp: initSection_def Let_def split: option.splits)
  let ?t = "if i_dirty (s_base t) then t else init_section_base (changeCase ip name) c rb wb t"
  have s': "s' = push_section (changeCase ip name) ?t (drop_section j s)"
    using r i Cons t copy_ok [OF section_of_ok [OF s(1) t]] by (auto simp: initSection_def Let_def)
  have k: "sec_key ip t = changeCase ip name" using section_range [OF s(1), of j "changeCase ip name"] t Cons by auto
  have p: "pending ip ls v ?t \<longleftrightarrow> pending ip ls v t" for ls by (simp add: init_section_base_def)
  show ?thesis
  proof (cases "\<exists>l m ls. ks = l # m # ls \<and> changeCase ip l = changeCase ip name")
    case True
    with s(2) Cons t obtain l m ls where "ks = l # m # ls" "changeCase ip l = changeCase ip name"
      "mm_range (changeCase ip name) (s_isections s) = [j]" "pending ip (m # ls) v t" by auto
    with s' p show ?thesis by (simp add: mm_range_erase del: if_split)
  next
    case False
    with s' k pending_drop_section [OF s(2) t s(1)] show ?thesis by (auto intro!: pending_push_section)
  qed
qed

lemma within_open_pending:
  assumes f: "\<And>t t' ks. sec_ok ip t \<Longrightarrow> pending ip ks v t \<Longrightarrow> f t = Ret t' \<Longrightarrow> pending ip ks v t'"
  shows "sec_ok ip s \<Longrightarrow> pending ip ks v s \<Longrightarrow> within_open is f s = Ret s' \<Longrightarrow> pending ip ks v s'"
proof (induction "is" arbitrary: s s' ks)
  case Nil
  with f show ?case by auto
next
  case (Cons i js)
  then obtain u where u1: "section_of s i = Some u" "obind (within_open js f u) (\<lambda>t'. Ret (replace_element i (SECTION t') s)) = Ret s'"
    by (auto split: option.splits)
  then obtain u' where u: "section_of s i = Some u" "within_open js f u = Ret u'" "s' = replace_element i (SECTION u') s"
    by (cases "within_open js f u") auto
  have p: "pending ip ls v u \<Longrightarrow> pending ip ls v u'" for ls using Cons.IH u section_of_ok [OF Cons.prems(1) u(1)] by blast
  show ?case
  proof (cases "(ip, ks, v, s)" rule: pending.cases)
    case (3 ip' k l ls v' s1)
    with Cons.prems(2) obtain j t where "mm_range (changeCase ip k) (s_isections s) = [j]" "section_of s j = Some t" "pending ip (l # ls) v t" by auto
    with u(1,3) 3 p show ?thesis by auto
  qed (use Cons.prems(2) u in auto)
qed

interpretation kept: section_invariant "\<lambda>ip s. \<not> repeat_names ip \<and> pending ip ks v s" for ks v
proof (unfold_locales, goal_cases)
  case (1 ip s "is" key val comment rb s')
  then show ?case using within_open_pending [of ip v "initValue ip key val comment rb"] initValue_pending [of ip]
    unfolding tree_ok_def by blast
next
  case (2 ip s "is" name comment rb wb s')
  then show ?case using within_open_pending [of ip v "initSection ip name comment rb wb"] initSection_pending [of ip]
    unfolding tree_ok_def by blast
next
  case (3 ip s "is" comment s')
  then show ?case using within_open_pending [of ip v "\<lambda>t. Ret (setEndComment comment t)"] pending_end_comment
    unfolding tree_ok_def by blast
qed

section \<open>Rules of sections that are written to\<close>

lemma subs_ok_touch [simp]: "subs_ok n (touch s) \<longleftrightarrow> subs_ok n s" "i_read_by (s_base (touch s)) = i_read_by (s_base s)"
  by (simp_all add: touch_def)

definition keeps_rules :: "nat \<Rightarrow> ini_section \<Rightarrow> ini_res \<Rightarrow> bool" where
  "keeps_rules n s r \<longleftrightarrow> (\<forall>s' ok. r = Ret (s', ok) \<longrightarrow> subs_ok n s' \<and> i_read_by (s_base s') = i_read_by (s_base s))"

lemma keeps_rules_Ret: "subs_ok n s' \<Longrightarrow> i_read_by (s_base s') = i_read_by (s_base s) \<Longrightarrow> keeps_rules n s (Ret (s', ok))"
  by (simp add: keeps_rules_def)

lemma keeps_rules_base: "keeps_rules n s' r \<Longrightarrow> i_read_by (s_base s') = i_read_by (s_base s) \<Longrightarrow> keeps_rules n s r"
  by (auto simp: keeps_rules_def)

lemma set_values_rules: "subs_ok n s \<Longrightarrow> keeps_rules n s (set_values P k what is vs s)"
proof (induction P k what "is" vs s rule: set_values.induct)
  case (2 P k what i "is" s)
  have "subs_ok n (delValue1 i s)" "i_read_by (s_base (delValue1 i s)) = i_read_by (s_base s)"
    using "2.prems" by (simp_all add: delValue1_def subs_ok_changes)
  with "2.IH" show ?case by (auto intro: keeps_rules_base)
next
  case (3 P k what v vs s)
  have p: "subs_ok n (push_value k e s)" for e using "3.prems" by (simp add: subs_ok_changes)
  have "keeps_rules n s (set_values P k what [] vs (push_value k e s))"
    if "what = 0" "set_entry_prop P what v (new_entry\<lparr>i_name := k, i_dirty := True\<rparr>) = Some e" for e
  proof (rule keeps_rules_base)
    show "keeps_rules n (push_value k e s) (set_values P k what [] vs (push_value k e s))"
      by (rule "3.IH" [OF _ refl that(2) p]) (simp add: that(1))
  qed simp
  with p "3.prems" show ?case by (auto simp: Let_def intro!: keeps_rules_Ret split: option.split)
next
  case (4 P k what i "is" v vs s)
  have p: "subs_ok n (replace_element i (VALUE e) s)" for e using "4.prems" by (simp add: subs_ok_changes)
  have "keeps_rules n s (set_values P k what is vs (replace_element i (VALUE e') s))"
    if "ent_of s i = Some e" "set_entry_prop P what v e = Some e'" for e e'
  proof (rule keeps_rules_base)
    show "keeps_rules n (replace_element i (VALUE e') s) (set_values P k what is vs (replace_element i (VALUE e') s))"
      by (rule "4.IH" [OF that p])
  qed simp
  with "4.prems" show ?case by (auto intro!: keeps_rules_Ret split: option.split) (simp add: keeps_rules_def)
qed (simp add: keeps_rules_Ret)

lemma setValue_rules:
  "subs_ok n s \<Longrightarrow> 0 < n \<or> length ks \<le> 1 \<Longrightarrow> keeps_rules n s (ini_setValue ip P ks v what s)"
proof (induction ip P ks v what s rule: ini_setValue.induct)
  case (2 ip P k v what s)
  then show ?case by (auto simp: setMyValue_def Let_def split: option.split intro!: set_values_rules keeps_rules_Ret)
next
  case (3 ip P k l ks v what s)
  let ?k = "changeCase ip k"
  let ?s = "if mm_range ?k (s_isections s) = [] then push_section ?k (added_section ?k) s else s"
  let ?i = "last (mm_range ?k (s_isections ?s))"
  have s: "subs_ok n ?s" using "3.prems" by (auto intro!: subs_ok_changes simp: added_section_def base_named_def)
  show ?case
  proof (cases "section_of ?s ?i")
    case (Some t)
    have t: "sub_ok n (SECTION t)" by (rule section_of_sub [OF s Some])
    with "3.IH" [of t] "3.prems" have k: "keeps_rules n t (ini_setValue ip P (l # ks) v what t)" by simp
    show ?thesis
    proof (cases "ini_setValue ip P (l # ks) v what t")
      case (Ret r)
      obtain t' ok where r: "r = (t', ok)" by fastforce
      with k Ret t have "sub_ok n (SECTION t')" by (simp add: keeps_rules_def)
      with s Some Ret r show ?thesis
        by (simp add: within_added_def Let_def subs_ok_changes keeps_rules_def)
    qed (use Some in \<open>simp_all add: within_added_def Let_def keeps_rules_def\<close>)
  qed (simp add: within_added_def Let_def keeps_rules_def)
qed (simp add: keeps_rules_def)

section \<open>Written values\<close>

lemma write_pending:
  assumes ip: "\<not> repeat_names ip" "\<not> flat ip" "sections ip \<noteq> [] \<or> length ks = 1"
    and s: "tree_ok ip s" "single_path ip ks s" and ks: "ks \<noteq> []" "list_all nul_free ks"
  shows "\<exists>s'. ini_Write ip P (''v'' # ks) v rewrite s D = Ret (s', D, True) \<and> tree_ok ip s' \<and> pending ip ks (to_string P v) s'"
proof -
  have s0: "sec_ok ip s" "subs_ok (length (sections ip)) s" using s(1) by (simp_all add: tree_ok_def)
  from setValue_pending [OF s0(1) ip(1) ks s(2), of P v] obtain s' where
    s': "ini_setValue ip P ks v 0 s = Ret (s', True)" "pending ip ks (to_string P v) s'" by blast
  have "sec_ok ip s'" using setValue_ok [OF s0(1) ks, of P v 0] s'(1) by (simp add: good_res_def)
  moreover have "subs_ok (length (sections ip)) s'"
    using setValue_rules [OF s0(2), of ks ip P v 0] s'(1) ip(3) by (auto simp: keeps_rules_def)
  ultimately show ?thesis
    using s' ip(2) ks(1) by (simp add: ini_Write_def write_item_def keep_deleted_def tree_ok_def)
qed

lemma reload_pending:
  assumes ip: "machine_ok L ip" "\<not> repeat_names ip" "\<not> shell_quoted_value ip" and s: "tree_ok ip s" "pending ip ks v s"
    and t: "line_can_continue ip \<longrightarrow> no_open_end file_text"
  shows "\<exists>s'. parse_helper L ip file_text s = Ret s' \<and> pending ip ks v s'"
  using kept.parse_helper_keeps [OF ip(1) s(1) _ t, of ks v] s(2) ip(2,3) by (cases "parse_helper L ip file_text s") auto

lemma read_pending:
  "\<not> repeat_names ip \<Longrightarrow> \<not> flat ip \<Longrightarrow> pending ip ks v s \<Longrightarrow> ini_Read ip (''v'' # ks) rewrite s = Ret (Some (YString (c_str v) :: 'c ycp))"
  using pending_read [of ip ks v s] by (cases ks) (simp_all add: ini_Read_def)

end
