(* ===== verification/Ini_Agent.thy ===== *)
theory Ini_Agent
  imports Ini_Roundtrip Ini_All Ini_Reload
begin

text \<open>
  The agent for ini files as a whole: files with their times (\<^verbatim>\<open>parse\<close>, \<^verbatim>\<open>UpdateIfModif\<close> and \<^verbatim>\<open>write\<close> of
  \<^verbatim>\<open>agent-ini/src/IniParser.cc\<close>) and the commands of \<^verbatim>\<open>agent-ini/src/IniAgent.cc\<close>.

  The files are a map from names to contents, time and mode; what \<^verbatim>\<open>glob\<close> finds is a parameter.  A file can be read when it exists.  The
  directories that \<^verbatim>\<open>assert_dir\<close> makes are not in the map; whether a file can be opened for writing is a predicate of its name.
\<close>

unbundle bit_operations_syntax

section \<open>Files\<close>

type_synonym mode = "16 word"

record fs_file =
  f_text :: string
  f_mtime :: int
  f_mode :: mode

record ini_fs =
  fs_files :: "string \<rightharpoonup> fs_file"
  fs_writable :: "string \<Rightarrow> bool"
  fs_now :: int
  fs_umask :: mode

text \<open>\<open>ip_m\<close> has the options and rules, \<open>ip_multi\<close> is \<^verbatim>\<open>multi_files\<close>: the time stamps of the files that were read.\<close>

record 'r ini_parser =
  ip_m :: "'r ini_machine"
  ip_timestamp :: int
  ip_multi :: "string \<rightharpoonup> int"
  ip_file :: string
  ip_files :: "string list"
  multiple_files :: bool
  started :: bool
  deleted_sections :: "string list"
  inifile :: ini_section

type_synonym ini_glob = "string \<Rightarrow> ini_fs \<Rightarrow> string list"

definition initFiles_list :: "'c ycp list \<Rightarrow> 'r ini_parser \<Rightarrow> 'r ini_parser" where
  "initFiles_list f p =
     p\<lparr>multiple_files := True, ip_files := List.map_filter (\<lambda>v. case v of YString s \<Rightarrow> Some s | _ \<Rightarrow> None) f\<rparr>"

definition initFiles :: "string \<Rightarrow> 'r ini_parser \<Rightarrow> 'r ini_parser" where
  "initFiles fn p = p\<lparr>ip_file := c_str fn, multiple_files := False\<rparr>"

definition getTimeStamp :: "'r ini_parser \<Rightarrow> ini_fs \<Rightarrow> int outcome" where
  "getTimeStamp p fs =
     (if multiple_files p then Undef
      else Ret (case fs_files fs (c_str (ip_file p)) of None \<Rightarrow> 0 | Some f \<Rightarrow> f_mtime f))"

subsection \<open>Reading\<close>

text \<open>The section of a file, and the number of the rule that made its name.\<close>

definition section_name :: "'r regex_lib \<Rightarrow> 'r ini_parser \<Rightarrow> string \<Rightarrow> (string \<times> int) outcome" where
  "section_name L p f =
     obind (first_match L 20 (enumerate 0 (rewrite_rxs (ip_m p))) f) (\<lambda>r. case r of
         None \<Rightarrow> Ret (f, - 1)
       | Some (j, m) \<Rightarrow> obind (submatch m 1) (\<lambda>n. Ret (n, int j)))"

definition in_section :: "string \<Rightarrow> (ini_section \<Rightarrow> ini_section outcome) \<Rightarrow> ini_section \<Rightarrow> ini_section outcome" where
  "in_section n f s =
     (case mm_range n (s_isections s) of
        [] \<Rightarrow> Undef
      | is \<Rightarrow> (case section_of s (last is) of
            None \<Rightarrow> Undef
          | Some t \<Rightarrow> obind (f t) (\<lambda>t'. Ret (replace_element (last is) (SECTION t') s))))"

definition load_file :: "'r regex_lib \<Rightarrow> string \<Rightarrow> fs_file \<Rightarrow> string \<times> int \<Rightarrow> 'r ini_parser \<Rightarrow> 'r ini_parser outcome" where
  "load_file L f d n p =
     obind (initSection (ip_m p) (fst n) [] (- 1) (Some (snd n)) (inifile p)) (\<lambda>s.
       obind (in_section (c_str (fst n)) (parse_helper L (ip_m p) (f_text d)) s) (\<lambda>s'.
         Ret (p\<lparr>ip_multi := (ip_multi p)(f \<mapsto> f_mtime d), inifile := s'\<rparr>)))"

text \<open>A file is read when it is new and when its time is not the one it had.\<close>

definition parse_one :: "'r regex_lib \<Rightarrow> ini_fs \<Rightarrow> string \<Rightarrow> 'r ini_parser \<Rightarrow> 'r ini_parser outcome" where
  "parse_one L fs f p =
     obind (section_name L p f) (\<lambda>n.
       case fs_files fs f of
         None \<Rightarrow> Ret p
       | Some d \<Rightarrow> if ip_multi p f = Some (f_mtime d) then Ret p else load_file L f d n p)"

fun parse_all :: "'r regex_lib \<Rightarrow> ini_fs \<Rightarrow> string list \<Rightarrow> 'r ini_parser \<Rightarrow> 'r ini_parser outcome" where
  "parse_all L fs [] p = Ret p"
| "parse_all L fs (f # fl) p = obind (parse_one L fs f p) (parse_all L fs fl)"

text \<open>The second part is false for the result \<^verbatim>\<open>-1\<close>.  Without any pattern, \<^verbatim>\<open>do_files\<close> is not initialised.\<close>

definition ini_parse :: "'r regex_lib \<Rightarrow> ini_glob \<Rightarrow> ini_fs \<Rightarrow> 'r ini_parser \<Rightarrow> ('r ini_parser \<times> bool) outcome" where
  "ini_parse L G fs p =
     (if multiple_files p then
        if ip_files p = [] then Undef
        else obind (parse_all L fs (concat (map (\<lambda>g. G (c_str g) fs) (ip_files p))) p) (\<lambda>p'. Ret (p', True))
      else case fs_files fs (c_str (ip_file p)) of
        None \<Rightarrow> Ret (p, False)
      | Some d \<Rightarrow> obind (parse_helper L (ip_m p) (f_text d) (inifile p)) (\<lambda>s.
          obind (getTimeStamp p fs) (\<lambda>t. Ret (p\<lparr>inifile := s, ip_timestamp := t\<rparr>, True))))"

definition UpdateIfModif :: "'r regex_lib \<Rightarrow> ini_glob \<Rightarrow> ini_fs \<Rightarrow> 'r ini_parser \<Rightarrow> 'r ini_parser outcome" where
  "UpdateIfModif L G fs p =
     (if read_only (ip_m p) \<or> repeat_names (ip_m p) then Ret p
      else if multiple_files p then obind (ini_parse L G fs p) (\<lambda>r. Ret (fst r))
      else obind (getTimeStamp p fs) (\<lambda>t.
        if ip_timestamp p \<noteq> t then obind (ini_parse L G fs p) (\<lambda>r. Ret (fst r)) else Ret p))"

subsection \<open>Writing\<close>

definition created_mode :: "mode \<Rightarrow> mode" where
  "created_mode um = 0x1B6 AND NOT um"

text \<open>Modes and masks are octal in the code: 0666, 0077 and 0022.  The result is the files after the write, and whether it succeeded; the section is then clean.\<close>

definition write_file :: "('r, 'o) ini_machine_scheme \<Rightarrow> string \<Rightarrow> ini_section \<Rightarrow> ini_fs \<Rightarrow> (ini_fs \<times> bool) outcome" where
  "write_file ip filename s fs =
     (let um = (if s_private s then 0x3F else 0x12) in
      if \<not> fs_writable fs (c_str filename) then Ret (fs\<lparr>fs_umask := um\<rparr>, False)
      else obind (write_helper ip 0 s) (\<lambda>t.
        let m = (case fs_files fs (c_str filename) of None \<Rightarrow> created_mode um | Some d \<Rightarrow> f_mode d) in
        Ret (fs\<lparr>fs_files := (fs_files fs)(c_str filename \<mapsto> \<lparr>f_text = t, f_mtime = fs_now fs, f_mode = m\<rparr>)\<rparr>, True)))"

text \<open>The sections of several files: each goes into its own file, when it is dirty.\<close>

fun write_sections ::
  "'r ini_parser \<Rightarrow> (nat \<times> ini_element) list \<Rightarrow> string list \<Rightarrow> ini_fs
   \<Rightarrow> ((nat \<times> ini_element) list \<times> string list \<times> ini_fs \<times> bool) outcome" where
  "write_sections p [] D fs = Ret ([], D, fs, True)"
| "write_sections p ((i, VALUE e) # cs) D fs =
     obind (write_sections p cs D fs) (\<lambda>(cs', D', fs', ok). Ret ((i, VALUE e) # cs', D', fs', ok))"
| "write_sections p ((i, SECTION s) # cs) D fs =
     (case getFileName (ip_m p) (c_str (i_name (s_base s))) (s_rewrite_by s) of
        None \<Rightarrow> Undef
      | Some filename \<Rightarrow>
          let D = filter (\<lambda>d. d \<noteq> filename) D in
          obind (isDirty s) (\<lambda>dirty.
            if \<not> dirty
            then obind (write_sections p cs D fs) (\<lambda>(cs', D', fs', ok). Ret ((i, SECTION s) # cs', D', fs', ok))
            else let s = set_base (\<lambda>b. b\<lparr>i_read_by := - 1\<rparr>) s in
              obind (write_file (ip_m p) filename s fs) (\<lambda>(fs, ok1).
                obind (write_sections p cs D fs) (\<lambda>(cs', D', fs', ok).
                  Ret ((i, SECTION (if ok1 then clean_section s else s)) # cs', D', fs', ok1 \<and> ok)))))"

definition remove_files :: "'r ini_parser \<Rightarrow> string list \<Rightarrow> ini_fs \<Rightarrow> ini_fs" where
  "remove_files p D fs = fs\<lparr>fs_files := (\<lambda>f. if f \<in> c_str ` set (filter (\<lambda>d. ip_multi p d \<noteq> None) D) then None else fs_files fs f)\<rparr>"

definition write_all :: "'r ini_parser \<Rightarrow> ini_fs \<Rightarrow> ('r ini_parser \<times> ini_fs \<times> bool) outcome" where
  "write_all p fs =
     (if multiple_files p
      then obind (write_sections p (s_container (inifile p)) (deleted_sections p) fs) (\<lambda>(cs, D, fs, ok).
        Ret (p\<lparr>inifile := set_lists (\<lambda>_. cs) id id (inifile p), deleted_sections := D\<rparr>, remove_files p D fs, ok))
      else obind (write_file (ip_m p) (ip_file p) (inifile p) fs) (\<lambda>(fs, ok).
        obind (getTimeStamp p fs) (\<lambda>t.
          Ret (p\<lparr>inifile := (if ok then clean_section (inifile p) else inifile p), ip_timestamp := t\<rparr>, fs, ok))))"

definition ini_write :: "'r regex_lib \<Rightarrow> ini_glob \<Rightarrow> 'r ini_parser \<Rightarrow> ini_fs \<Rightarrow> ('r ini_parser \<times> ini_fs \<times> bool) outcome" where
  "ini_write L G p fs =
     obind (isDirty (inifile p)) (\<lambda>dirty.
       if \<not> dirty \<or> read_only (ip_m p) then Ret (p, fs, True)
       else obind (UpdateIfModif L G fs p) (\<lambda>p. write_all p fs))"

section \<open>Commands\<close>

definition agent_Dir :: "'r regex_lib \<Rightarrow> ini_glob \<Rightarrow> string list \<Rightarrow> 'r ini_parser \<Rightarrow> ini_fs \<Rightarrow> ('r ini_parser \<times> 'c ycp) outcome" where
  "agent_Dir L G path p fs =
     (if \<not> started p then Ret (p, YNull)
      else obind (UpdateIfModif L G fs p) (\<lambda>p.
        obind (ini_Dir (ip_m p) path (inifile p)) (\<lambda>r. Ret (p, case r of Some l \<Rightarrow> YList l | None \<Rightarrow> YNull))))"

definition agent_Read :: "'r regex_lib \<Rightarrow> ini_glob \<Rightarrow> string list \<Rightarrow> 'r ini_parser \<Rightarrow> ini_fs \<Rightarrow> ('r ini_parser \<times> 'c ycp) outcome" where
  "agent_Read L G path p fs =
     (if \<not> started p then Ret (p, YVoid)
      else obind (UpdateIfModif L G fs p) (\<lambda>p.
        obind (ini_Read (ip_m p) path (HaveRewrites (ip_m p)) (inifile p)) (\<lambda>r. Ret (p, case r of Some v \<Rightarrow> v | None \<Rightarrow> YVoid))))"

text \<open>The values that can be written: lists with \<^verbatim>\<open>repeat_names\<close>, otherwise scalars; anything at \<^verbatim>\<open>.all\<close>.\<close>

definition writes_value :: "'r ini_parser \<Rightarrow> string list \<Rightarrow> 'c ycp \<Rightarrow> bool" where
  "writes_value p path v \<longleftrightarrow>
     (case v of YList _ \<Rightarrow> repeat_names (ip_m p) | YString _ \<Rightarrow> \<not> repeat_names (ip_m p) | YBoolean _ \<Rightarrow> \<not> repeat_names (ip_m p) | YInteger _ \<Rightarrow> \<not> repeat_names (ip_m p)
      | _ \<Rightarrow> False) \<or> hd path = ''all''"

definition agent_delete :: "string list \<Rightarrow> 'r ini_parser \<Rightarrow> ('r ini_parser \<times> bool) outcome" where
  "agent_delete path p =
     (let del_sec = (if length path = 2 \<and> hd path \<in> {''s'', ''section''} then path ! 1 else []) in
      obind (if length path = 2 \<and> hd path \<in> {''s'', ''section''} then getSubSectionRewriteBy (c_str del_sec) (inifile p) else Ret (- 1)) (\<lambda>wb.
        obind (ini_Delete (ip_m p) path (inifile p)) (\<lambda>(s, ok).
          let p = p\<lparr>inifile := s\<rparr> in
          if \<not> ok then Ret (p, False)
          else if del_sec \<noteq> [] then
            (case getFileName (ip_m p) del_sec wb of
               None \<Rightarrow> Undef
             | Some f \<Rightarrow> Ret (p\<lparr>deleted_sections := List.insert f (deleted_sections p)\<rparr>, True))
          else Ret (p, True))))"

definition agent_Write ::
  "'r regex_lib \<Rightarrow> ini_glob \<Rightarrow> 'c printers \<Rightarrow> string list \<Rightarrow> 'c ycp \<Rightarrow> 'r ini_parser \<Rightarrow> ini_fs
   \<Rightarrow> ('r ini_parser \<times> ini_fs \<times> bool) outcome" where
  "agent_Write L G P path v p fs =
     (if \<not> started p then Ret (p, fs, False)
      else if path = [] then
        (let p = (case v of YString w \<Rightarrow>
             if w = ''force'' then p\<lparr>inifile := touch (inifile p)\<rparr>
             else if w = ''clean'' then p\<lparr>inifile := clean_section (inifile p)\<rparr> else p
           | _ \<Rightarrow> p)
         in ini_write L G p fs)
      else if writes_value p path v then
        obind (ini_Write (ip_m p) P path v (HaveRewrites (ip_m p)) (inifile p) (deleted_sections p)) (\<lambda>(s, D, ok).
          Ret (p\<lparr>inifile := s, deleted_sections := D\<rparr>, fs, ok))
      else if v = YVoid then obind (agent_delete path p) (\<lambda>(p, ok). Ret (p, fs, ok))
      else Ret (p, fs, False))"

subsection \<open>Mounting\<close>

definition generateSysConfigTemplate :: "string \<Rightarrow> 'c ycp list" where
  "generateSysConfigTemplate fn =
     (let TAB = CHR 0x09; Q = CHR 0x22; A = CHR 0x27;
        sp = ''['' @ '' '' @ [TAB] @ '']*'';
        pair = (\<lambda>a b. YList [YString a, YString b]);
        alnum = ''([[:alnum:]_]+)'' @ sp @ ''='' @ sp;
        alpha = ''([[:alpha:]_][[:alnum:]_]*)'' @ sp @ ''='' @ sp @ [A] @ ''([^'' @ [A] @ '']*)'';
        dq = alnum @ [Q] @ ''([^'' @ [Q] @ '']*)'';
        l = map YString [''flat'', ''line_can_continue'', ''global_values'', ''join_multiline'', ''comments_last''];
        c = map YString [''^'' @ sp @ ''#.*$'', ''#.*'', ''^'' @ sp @ ''$''];
        p1 = ymap_add (ymap_add [] (YString ''match'') (pair (dq @ [Q]) (''%s='' @ [Q] @ ''%s'' @ [Q])))
               (YString ''multiline'') (pair dq (''([^'' @ [Q] @ '']*)'' @ [Q]));
        p2 = ymap_add (ymap_add [] (YString ''match'') (pair (''^'' @ sp @ alpha @ [A]) (''%s='' @ [A] @ ''%s'' @ [A])))
               (YString ''multiline'') (pair alpha (''([^'' @ [A] @ '']*)'' @ [A]));
        p3 = ymap_add [] (YString ''match'')
               (pair (alnum @ ''([^'' @ [Q] @ '']*[^ '' @ [TAB, Q] @ '']|)'' @ sp @ ''$'') (''%s='' @ [Q] @ ''%s'' @ [Q]))
      in [YString fn, YMap (ymap_add (ymap_add (ymap_add [] (YString ''options'') (YList l)) (YString ''comments'') (YList c))
            (YString ''params'') (YList [YMap p1, YMap p2, YMap p3]))])"

text \<open>Errors give the null value.\<close>

definition mount_ini :: "'r regex_lib \<Rightarrow> ini_glob \<Rightarrow> 'c ycp list \<Rightarrow> 'r ini_parser \<Rightarrow> ini_fs \<Rightarrow> ('r ini_parser \<times> 'c ycp) outcome" where
  "mount_ini L G args p fs =
     (case args of
        [f, YMap scr] \<Rightarrow>
          (case (case f of YString fn \<Rightarrow> Some (initFiles fn p) | YList l \<Rightarrow> Some (initFiles_list l p) | _ \<Rightarrow> None) of
             None \<Rightarrow> Ret (p, YNull)
           | Some p \<Rightarrow> obind (ini_parse L G fs (p\<lparr>ip_m := initMachine L (multiple_files p) scr (ip_m p), started := True\<rparr>)) (\<lambda>(p, _). Ret (p, YVoid)))
      | _ \<Rightarrow> Ret (p, YNull))"

definition otherCommand :: "'r regex_lib \<Rightarrow> ini_glob \<Rightarrow> string \<Rightarrow> 'c ycp list \<Rightarrow> 'r ini_parser \<Rightarrow> ini_fs \<Rightarrow> ('r ini_parser \<times> 'c ycp) outcome" where
  "otherCommand L G cmd args p fs =
     (if cmd = ''SysConfigFile'' then
        (case args of [YString fn] \<Rightarrow> mount_ini L G (generateSysConfigTemplate fn) p fs | _ \<Rightarrow> Ret (p, YNull))
      else if cmd = ''IniAgent'' then mount_ini L G args p fs
      else Ret (p, YNull))"

text \<open>When the agent is destroyed, what was changed is written.\<close>

definition agent_destroy :: "'r regex_lib \<Rightarrow> ini_glob \<Rightarrow> 'r ini_parser \<Rightarrow> ini_fs \<Rightarrow> ini_fs outcome" where
  "agent_destroy L G p fs = (if started p then obind (ini_write L G p fs) (\<lambda>(p, fs, ok). Ret fs) else Ret fs)"

end
