(* ===== verification/Ini_Saving.thy ===== *)
theory Ini_Saving
  imports Ini_Agent
begin

text \<open>
  Saving and loading files of the agent: what is written can be loaded again, a file that did not change is not read again, and the
  rights of files with private sections.
\<close>

section \<open>Saving and loading\<close>

lemma clean_plain: "plain_section (clean_section s) = plain_section s" and "plain_element (clean_element x) = plain_element x"
  by (induction s and x rule: plain_section_plain_element.induct) simp_all


section \<open>Reading again\<close>

text \<open>
  A value that was written through the agent is read back through it, even when the file was changed, made or removed by someone
  else in between and is read again for that: the read returns, and gives the text of the value.
\<close>

lemma agent_write_survives:
  fixes P :: "'c printers"
  assumes p: "started p" "\<not> multiple_files p" "machine_ok L (ip_m p)" "\<not> repeat_names (ip_m p)" "\<not> flat (ip_m p)"
      "\<not> shell_quoted_value (ip_m p)" "sections (ip_m p) \<noteq> [] \<or> length ks = 1"
    and s: "tree_ok (ip_m p) (inifile p)" "single_path (ip_m p) ks (inifile p)" and ks: "ks \<noteq> []" "list_all nul_free ks"
    and v: "writes_value p (''v'' # ks) v"
    and t: "\<forall>d. fs_files fs' (c_str (ip_file p)) = Some d \<longrightarrow> line_can_continue (ip_m p) \<longrightarrow> no_open_end (f_text d)"
  shows "\<exists>p' q. agent_Write L G P (''v'' # ks) v p fs = Ret (p', fs, True)
    \<and> agent_Read L G (''v'' # ks) p' fs' = Ret (q, YString (c_str (to_string P v)) :: 'c ycp)"
proof -
  from write_pending [OF p(4,5,7) s ks, of P v "HaveRewrites (ip_m p)" "deleted_sections p"] obtain s' where
    s': "ini_Write (ip_m p) P (''v'' # ks) v (HaveRewrites (ip_m p)) (inifile p) (deleted_sections p) = Ret (s', deleted_sections p, True)"
      "tree_ok (ip_m p) s'" "pending (ip_m p) ks (to_string P v) s'" by blast
  let ?p = "p\<lparr>inifile := s'\<rparr>"
  have w: "agent_Write L G P (''v'' # ks) v p fs = Ret (?p, fs, True)"
    using p(1) v s'(1) by (simp add: agent_Write_def)
  have "\<exists>q. UpdateIfModif L G fs' ?p = Ret q \<and> ip_m q = ip_m p \<and> pending (ip_m p) ks (to_string P v) (inifile q)"
  proof (cases "fs_files fs' (c_str (ip_file p))")
    case None
    with p(2) s'(3) show ?thesis by (simp add: UpdateIfModif_def getTimeStamp_def ini_parse_def)
  next
    case (Some d)
    with t have "line_can_continue (ip_m p) \<longrightarrow> no_open_end (f_text d)" by blast
    from reload_pending [OF p(3,4,6) s'(2,3) this] Some p(2) s'(3) show ?thesis
      by (auto simp: UpdateIfModif_def getTimeStamp_def ini_parse_def)
  qed
  then obtain q where q: "UpdateIfModif L G fs' ?p = Ret q" "ip_m q = ip_m p" "pending (ip_m p) ks (to_string P v) (inifile q)" by blast
  have "ini_Read (ip_m p) (''v'' # ks) (HaveRewrites (ip_m p)) (inifile q) = Ret (Some (YString (c_str (to_string P v)) :: 'c ycp))"
    by (rule read_pending [OF p(4,5) q(3)])
  with w p(1) q(1,2) show ?thesis by (simp add: agent_Read_def)
qed

definition sample_parser :: "bool ini_parser" where
  "sample_parser = \<lparr>ip_m = sample_machine, ip_timestamp = 0, ip_multi = Map.empty, ip_file = ''f'', ip_files = [], multiple_files = False,
     started = True, deleted_sections = [], inifile = new_section\<rparr>"

definition sample_fs :: "string option \<Rightarrow> ini_fs" where
  "sample_fs t = \<lparr>fs_files = (\<lambda>f. map_option (\<lambda>t. \<lparr>f_text = t, f_mtime = 1, f_mode = 0\<rparr>) t), fs_writable = (\<lambda>_. True), fs_now = 2, fs_umask = 0\<rparr>"

lemma sample_options_off:
  "\<not> repeat_names sample_machine" "\<not> flat sample_machine" "\<not> shell_quoted_value sample_machine" "\<not> line_can_continue sample_machine"
  "\<not> read_only sample_machine" "sections sample_machine \<noteq> []"
  by (simp_all add: sample_machine_def sample_options_def ini_options.defs)

lemma agent_write_survives_sample:
  "\<exists>p' q. agent_Write sample_lib (\<lambda>_ _. []) sample_printers [''v'', ''a'', ''k''] (YInteger 5) sample_parser (sample_fs None) = Ret (p', sample_fs None, True)
    \<and> agent_Read sample_lib (\<lambda>_ _. []) [''v'', ''a'', ''k''] p' (sample_fs (Some (''[a]'' @ [NL] @ ''k=v''))) = Ret (q, YString ''5'' :: unit ycp)"
proof -
  have v: "to_string sample_printers (YInteger 5) = ''5''" by code_simp
  have n: "tree_ok sample_machine new_section" "single_path sample_machine [''a'', ''k''] new_section"
    by (simp_all add: tree_ok_def) (simp add: new_section_def mm_range_def)
  show ?thesis
    using agent_write_survives [of sample_parser sample_lib "[''a'', ''k'']" "YInteger 5" "sample_fs (Some (''[a]'' @ [NL] @ ''k=v''))"
        "\<lambda>_ _. []" sample_printers "sample_fs None"] sample_machine_ok sample_options_off n v
    by (simp add: sample_parser_def writes_value_def)
qed


section \<open>Files that did not change\<close>

text \<open>What parsing several files leaves alone, and that all files that exist are then known with their times.\<close>

definition settled :: "ini_fs \<Rightarrow> 'r ini_parser \<Rightarrow> string \<Rightarrow> bool" where
  "settled fs p f \<longleftrightarrow> (\<forall>d. fs_files fs f = Some d \<longrightarrow> ip_multi p f = Some (f_mtime d))"

definition same_setup :: "'r ini_parser \<Rightarrow> 'r ini_parser \<Rightarrow> bool" where
  "same_setup p q \<longleftrightarrow> ip_m q = ip_m p \<and> ip_files q = ip_files p \<and> multiple_files q = multiple_files p \<and> ip_file q = ip_file p"

lemma parse_one_cases:
  assumes "parse_one L fs f p = Ret q"
  shows "(\<exists>n. section_name L p f = Ret n)
    \<and> (q = p \<and> settled fs p f \<or> (\<exists>d s. fs_files fs f = Some d \<and> q = p\<lparr>ip_multi := (ip_multi p)(f \<mapsto> f_mtime d), inifile := s\<rparr>))"
proof -
  from assms obtain n where n: "section_name L p f = Ret n" by (auto simp: parse_one_def obind_Ret)
  show ?thesis
  proof (cases "settled fs p f")
    case True
    with assms n show ?thesis by (cases "fs_files fs f") (auto simp: parse_one_def settled_def)
  next
    case False
    then obtain d where "fs_files fs f = Some d" "ip_multi p f \<noteq> Some (f_mtime d)" by (auto simp: settled_def)
    with assms n show ?thesis by (auto simp: parse_one_def load_file_def obind_Ret)
  qed
qed

lemma parse_one_settles:
  assumes "parse_one L fs f p = Ret q"
  shows "same_setup p q" "settled fs q f" "settled fs p g \<Longrightarrow> settled fs q g" "\<exists>n. section_name L p f = Ret n"
  using parse_one_cases [OF assms] by (auto simp: same_setup_def settled_def)

lemma section_name_setup: "same_setup p q \<Longrightarrow> section_name L q f = section_name L p f"
  by (simp add: section_name_def same_setup_def)

lemma parse_all_settles:
  "parse_all L fs fl p = Ret q \<Longrightarrow>
   same_setup p q \<and> (\<forall>g. settled fs p g \<longrightarrow> settled fs q g) \<and> (\<forall>f \<in> set fl. settled fs q f \<and> (\<exists>n. section_name L p f = Ret n))"
proof (induction fl arbitrary: p)
  case Nil
  then show ?case by (simp add: same_setup_def)
next
  case (Cons f fl)
  then obtain p1 where p1: "parse_one L fs f p = Ret p1" "parse_all L fs fl p1 = Ret q" by (auto simp: obind_Ret)
  note one = parse_one_settles [OF p1(1)]
  from Cons.IH [OF p1(2)] one section_name_setup [OF one(1), of L] show ?case
    by (auto simp: same_setup_def)
qed

lemma parse_all_settled:
  "\<forall>f \<in> set fl. settled fs p f \<and> (\<exists>n. section_name L p f = Ret n) \<Longrightarrow> parse_all L fs fl p = Ret p"
proof (induction fl)
  case (Cons f fl)
  then have "parse_one L fs f p = Ret p" by (auto simp: parse_one_def settled_def split: option.split)
  with Cons show ?case by simp
qed simp

text \<open>
  Once the agent has looked for changed files, looking again finds nothing: as long as no file changes, the second look
  parses nothing and leaves the sections alone, for one file and for all files of a list of patterns.
\<close>

theorem UpdateIfModif_settles:
  assumes "UpdateIfModif L G fs p = Ret q"
  shows "UpdateIfModif L G fs q = Ret q"
proof (cases "read_only (ip_m p) \<or> repeat_names (ip_m p)")
  case True
  with assms show ?thesis by (auto simp: UpdateIfModif_def)
next
  case False
  let ?fl = "concat (map (\<lambda>g. G (c_str g) fs) (ip_files p))"
  show ?thesis
  proof (cases "multiple_files p")
    case True
    with assms False have q: "ip_files p \<noteq> []" "parse_all L fs ?fl p = Ret q"
      by (auto simp: UpdateIfModif_def ini_parse_def obind_Ret split: if_splits)
    note s = parse_all_settles [OF q(2)]
    have "parse_all L fs ?fl q = Ret q"
    proof (rule parse_all_settled, rule ballI)
      fix f
      assume "f \<in> set ?fl"
      with s section_name_setup [of p q L f] show "settled fs q f \<and> (\<exists>n. section_name L q f = Ret n)" by metis
    qed
    with s q(1) True show ?thesis by (simp add: UpdateIfModif_def ini_parse_def same_setup_def)
  next
    case single: False
    note [simp] = UpdateIfModif_def ini_parse_def getTimeStamp_def
    show ?thesis
    proof (cases "fs_files fs (c_str (ip_file p))")
      case None
      with assms single False have "q = p" by (cases "ip_timestamp p = 0") simp_all
      with assms show ?thesis by simp
    next
      case (Some d)
      show ?thesis
      proof (cases "ip_timestamp p = f_mtime d")
        case True
        with assms single False Some have "q = p" by simp
        with assms show ?thesis by simp
      next
        case changed: False
        with assms single False Some obtain s where "q = p\<lparr>inifile := s, ip_timestamp := f_mtime d\<rparr>" by (auto simp: obind_Ret)
        with single False Some show ?thesis by simp
      qed
    qed
  qed
qed

theorem UpdateIfModif_settles_witness:
  "\<exists>q. UpdateIfModif sample_lib (\<lambda>_ _. []) (sample_fs (Some ''k=v'')) sample_parser = Ret q
    \<and> UpdateIfModif sample_lib (\<lambda>_ _. []) (sample_fs (Some ''k=v'')) q = Ret q"
proof -
  have "tree_ok sample_machine new_section" by (simp add: tree_ok_def)
  from any_section.parse_helper_keeps [OF sample_machine_ok this, of "''k=v''"] sample_options_off
  obtain s where "parse_helper sample_lib sample_machine ''k=v'' new_section = Ret s"
    by (cases "parse_helper sample_lib sample_machine ''k=v'' new_section") auto
  then have "\<exists>q. UpdateIfModif sample_lib (\<lambda>_ _. []) (sample_fs (Some ''k=v'')) sample_parser = Ret q"
    using sample_options_off by (simp add: UpdateIfModif_def getTimeStamp_def ini_parse_def sample_parser_def sample_fs_def)
  then show ?thesis using UpdateIfModif_settles by blast
qed

section \<open>Rights\<close>

text \<open>
  The file that is made for a private section can be read and written by its owner only, any other file that is made by its
  owner written and by all read; after a write that succeeds the mask of the process is the one it had.
\<close>

theorem created_file_mode:
  assumes "write_file ip f s fs = Ret (fs', True)" "fs_files fs (c_str f) = None"
  shows "\<exists>d. fs_files fs' (c_str f) = Some d \<and> f_mode d = (if s_private s then 0x180 else 0x1A4) \<and> fs_umask fs' = fs_umask fs"
  using assms by (auto simp: write_file_def Let_def created_mode_def obind_Ret split: if_splits)

theorem created_file_mode_witness:
  "\<exists>fs' d. write_file sample_machine ''f'' (set_rest id (\<lambda>_. True) id new_section) (sample_fs None) = Ret (fs', True)
    \<and> fs_files fs' ''f'' = Some d \<and> f_mode d = 0x180"
proof -
  have "\<exists>fs'. write_file sample_machine ''f'' (set_rest id (\<lambda>_. True) id new_section) (sample_fs None) = Ret (fs', True)"
    by (simp add: write_file_def Let_def sample_fs_def new_section_def base_read_def rule_line_def rule_of_def)
  then obtain fs' where w: "write_file sample_machine ''f'' (set_rest id (\<lambda>_. True) id new_section) (sample_fs None) = Ret (fs', True)" by blast
  with created_file_mode [OF w] show ?thesis by (auto simp: sample_fs_def c_str_def)
qed

text \<open>A file that cannot be opened leaves the mask changed, and a file that exists keeps its mode, whether the section is private or not.\<close>

lemma failed_write_umask:
  "\<not> fs_writable fs (c_str f) \<Longrightarrow> write_file ip f s fs = Ret (fs\<lparr>fs_umask := if s_private s then 0x3F else 0x12\<rparr>, False)"
  by (simp add: write_file_def)

lemma private_file_keeps_mode:
  "write_file ip f s fs = Ret (fs', True) \<Longrightarrow> fs_files fs (c_str f) = Some d \<Longrightarrow> \<exists>d'. fs_files fs' (c_str f) = Some d' \<and> f_mode d' = f_mode d"
  by (auto simp: write_file_def Let_def obind_Ret split: if_splits)

text \<open>Files of sections that are not dirty are left alone.\<close>

lemma clean_not_written: "isDirty (inifile p) = Ret False \<Longrightarrow> ini_write L G p fs = Ret (p, fs, True)"
  by (simp add: ini_write_def)

end
