(* ===== verification/SCR_Ini.thy ===== *)
theory SCR_Ini
  imports SCR_Agents Ini_Saving
begin

text \<open>
  The agent for ini files behind the configuration repository: a builtin of the name space \<^verbatim>\<open>SCR\<close> goes through the scripting
  agent to the component of the agent (\<^verbatim>\<open>Y2CCIniAgent.cc\<close>) and to the section of the file.

  The world holds the files and the components with their parsers.  \<^verbatim>\<open>IniParser\<close> leaves its options uninitialised; what they are before the agent is mounted
  is a parameter.
\<close>

section \<open>The components\<close>

record 'r ini_world =
  iw_fs :: ini_fs
  iw_comps :: "nat \<rightharpoonup> 'r ini_parser option"
  iw_next :: nat

definition new_ini_parser :: "ini_options \<Rightarrow> 'r ini_parser" where
  "new_ini_parser opts =
     \<lparr>ip_m = ini_options.extend (opts\<lparr>rewrite_outs := []\<rparr>)
        \<lparr>rewrite_rxs = [], subindent = [], linecomments = [], comments = [], sections = [], params = []\<rparr>,
      ip_timestamp = 0, ip_multi = Map.empty, ip_file = [], ip_files = [], multiple_files = False, started = False,
      deleted_sections = [], inifile = new_section\<rparr>"

definition ini_agent :: "'r regex_lib \<Rightarrow> ini_glob \<Rightarrow> 'c printers \<Rightarrow> ('c, 'r ini_parser \<times> ini_fs) scr_agent" where
  "ini_agent L Gl P =
     (base_agent
        (\<lambda>p arg opt (ip, fs). obind (agent_Read L Gl (names p) ip fs) (\<lambda>(ip, v). Ret (v, ip, fs)))
        (\<lambda>p v arg (ip, fs). obind (agent_Write L Gl P (names p) v ip fs) (\<lambda>(ip, fs, ok). Ret (YBoolean ok, ip, fs)))
        (\<lambda>p (ip, fs). obind (agent_Dir L Gl (names p) ip fs) (\<lambda>(ip, v). Ret (v, ip, fs))))
       \<lparr>v_otherCommand := (\<lambda>cmd args (ip, fs). obind (otherCommand L Gl cmd args ip fs) (\<lambda>(ip, v). Ret (v, ip, fs)))\<rparr>"

text \<open>\<^verbatim>\<open>Y2CCAgentComp::create\<close> with the name \<^verbatim>\<open>ag_ini\<close>; the agent itself is made when it is needed first.\<close>

definition ini_create :: "string \<Rightarrow> 'r ini_world \<Rightarrow> nat option \<times> 'r ini_world" where
  "ini_create name w =
     (if name = ''ag_ini'' then (Some (iw_next w), w\<lparr>iw_comps := (iw_comps w)(iw_next w \<mapsto> None), iw_next := iw_next w + 1\<rparr>)
      else (None, w))"

definition ini_adopt :: "ini_options \<Rightarrow> nat \<Rightarrow> 'r ini_world \<Rightarrow> 'r ini_world" where
  "ini_adopt opts m w =
     (case iw_comps w m of Some None \<Rightarrow> w\<lparr>iw_comps := (iw_comps w)(m \<mapsto> Some (new_ini_parser opts))\<rparr> | _ \<Rightarrow> w)"

definition ini_evaluate ::
  "ini_options \<Rightarrow> 'r regex_lib \<Rightarrow> ini_glob \<Rightarrow> 'c printers \<Rightarrow> ('c \<Rightarrow> bool) \<Rightarrow> ('c \<Rightarrow> 'r ini_parser \<times> ini_fs \<Rightarrow> ('c ycp \<times> 'r ini_parser \<times> ini_fs) outcome)
   \<Rightarrow> nat \<Rightarrow> 'c ycp \<Rightarrow> 'r ini_world \<Rightarrow> ('c ycp \<times> 'r ini_world) outcome" where
  "ini_evaluate opts L Gl P is_term run m v w =
     (case iw_comps w m of
        None \<Rightarrow> Undef
      | Some a \<Rightarrow>
          obind (agent_evaluate (ini_agent L Gl P) (\<lambda>fs. Ret (new_ini_parser opts, fs)) is_term run v
              (case a of None \<Rightarrow> Inl (iw_fs w) | Some ip \<Rightarrow> Inr (ip, iw_fs w)))
            (\<lambda>(r, ip, fs). Ret (r, w\<lparr>iw_fs := fs, iw_comps := (iw_comps w)(m \<mapsto> Some ip)\<rparr>)))"

text \<open>The component is deleted with its agent, whose destructor writes the file.\<close>

definition ini_finish :: "'r regex_lib \<Rightarrow> ini_glob \<Rightarrow> nat \<Rightarrow> 'r ini_world \<Rightarrow> 'r ini_world outcome" where
  "ini_finish L Gl m w =
     (case iw_comps w m of
        None \<Rightarrow> Undef
      | Some None \<Rightarrow> Ret (w\<lparr>iw_comps := (iw_comps w)(m := None)\<rparr>)
      | Some (Some ip) \<Rightarrow> obind (agent_destroy L Gl ip (iw_fs w)) (\<lambda>fs. Ret (w\<lparr>iw_fs := fs, iw_comps := (iw_comps w)(m := None)\<rparr>)))"

definition ini_system ::
  "('c, nat, 'r ini_world) scr_system \<Rightarrow> ini_options \<Rightarrow> 'r regex_lib \<Rightarrow> ini_glob \<Rightarrow> 'c printers
   \<Rightarrow> ('c \<Rightarrow> 'r ini_parser \<times> ini_fs \<Rightarrow> ('c ycp \<times> 'r ini_parser \<times> ini_fs) outcome) \<Rightarrow> ('c, nat, 'r ini_world) scr_system" where
  "ini_system X opts L Gl P run =
     X\<lparr>sy_create := ini_create, sy_adopt := ini_adopt opts, sy_evaluate := ini_evaluate opts L Gl P (sy_is_term X) run,
       sy_finish := ini_finish L Gl\<rparr>"

section \<open>Through the repository\<close>

lemma handles_unique: "handles as i p \<Longrightarrow> handles as j p \<Longrightarrow> i = j"
  unfolding handles_def by (metis less_asym)

lemma handles_found:
  assumes "sorted_agents as" "handles as i p"
  shows "findSubagent p as = Some i"
proof (cases "findSubagent p as")
  case None
  with assms(2) show ?thesis by (auto simp: findSubagent_None handles_def)
next
  case (Some j)
  with findSubagent_handles [OF assms(1) Some] handles_unique [OF assms(2)] show ?thesis by simp
qed

lemma mounted_command:
  assumes "findSubagent p (agents st) = Some i" "my_comp (agents st ! i) = Some m"
  shows "executeSubagentCommand G cmd p arg opt st
    = obind (sy_evaluate G m (command_term cmd (drop (length (my_path (agents st ! i))) p) arg opt) (sc_world st)) (\<lambda>(v, w). Ret (v, st\<lparr>sc_world := w\<rparr>))"
  using assms
  by (simp add: executeSubagentCommand_def findAndRegisterSubagent_def mount_at_def sub_mount_def YCP_Path.path_at_def)

lemma ini_component_write:
  assumes "iw_comps w m = Some (Some ip)" "v \<noteq> YNull" "agent_Write L Gl P (names q) v ip (iw_fs w) = Ret (ip', fs', ok)"
  shows "ini_evaluate opts L Gl P it run m (command_term ''Write'' q v YNull) w
    = Ret (YBoolean ok, w\<lparr>iw_fs := fs', iw_comps := (iw_comps w)(m \<mapsto> Some ip')\<rparr>)"
  using assms by (simp add: ini_evaluate_def command_term_def agent_term_def path_argument_def list_value_def ini_agent_def base_agent_def)

lemma ini_component_read:
  assumes "iw_comps w m = Some (Some ip)" "agent_Read L Gl (names q) ip (iw_fs w) = Ret (ip', v)"
  shows "ini_evaluate opts L Gl P it run m (command_term ''Read'' q YNull YNull) w
    = Ret (v, w\<lparr>iw_fs := iw_fs w, iw_comps := (iw_comps w)(m \<mapsto> Some ip')\<rparr>)"
  using assms by (simp add: ini_evaluate_def command_term_def agent_term_def path_argument_def list_value_def ini_agent_def base_agent_def)


definition sample_ini_state :: "(unit, nat, bool ini_world) scripting" where
  "sample_ini_state =
     \<lparr>agents = [\<lparr>my_path = simple_path [''etc'', ''f''], my_value = YVoid, my_comp = Some 0\<rparr>], done_sweep = True, registration_dirs = [],
      sc_search = search_start, sc_world = \<lparr>iw_fs = sample_fs None, iw_comps = [0 \<mapsto> Some sample_parser], iw_next = 1\<rparr>\<rparr>"


end
