(* ===== verification/Any_Basic.thy ===== *)
theory Any_Basic
  imports Builtin_String
begin

text \<open>
  The basic types of the agent for any text file (\<^verbatim>\<open>agent-any/src/AnyAgentBasic.cc\<close>): what each reads from the line and what it writes.

  A reader gets the text from \<^verbatim>\<open>lptr\<close> up to the terminating NUL and gives the value and the text from where \<^verbatim>\<open>lptr\<close> is then.  The letters and
  digits are those of the C locale.  \<^verbatim>\<open>%f\<close> of \<^verbatim>\<open>sscanf\<close> and \<^verbatim>\<open>printf\<close> are parameters.

  The last section shows that every type reads back what it wrote, whatever follows it that cannot belong to it.
\<close>

unbundle bit_operations_syntax

record float_io =
  scan_float :: "string \<Rightarrow> double option"
  print_float :: "double \<Rightarrow> string"

section \<open>Numbers\<close>

text \<open>\<^verbatim>\<open>atoll\<close> and \<^verbatim>\<open>atoi\<close> of a text that starts with a digit; the latter cuts the result of \<^verbatim>\<open>strtol\<close> to an \<^verbatim>\<open>int\<close>.\<close>

definition atoll :: "string \<Rightarrow> int64" where
  "atoll s = clamp_signed (int (digits_val 10 (takeWhile is_digit s)))"

definition atoi_digits :: "string \<Rightarrow> int" where
  "atoi_digits s = to_int32 (atoll s)"

definition starts :: "(char \<Rightarrow> bool) \<Rightarrow> string \<Rightarrow> bool" where
  "starts p s \<longleftrightarrow> s \<noteq> [] \<and> p (hd s)"

text \<open>The rounds of the loop that are left; \<open>0 < k\<close> before the last one.\<close>

fun ip4_loop :: "nat \<Rightarrow> int64 \<Rightarrow> string \<Rightarrow> 'c ycp \<times> string" where
  "ip4_loop 0 num s = (YInteger num, s)"
| "ip4_loop (Suc k) num s =
     (if \<not> starts is_digit s then (YVoid, s)
      else let i = atoi_digits s in
        if i < 0 \<or> 255 < i then (YVoid, s)
        else let num' = push_bit 8 num + word_of_int i; r = dropWhile is_digit s in
          if 0 < k then if \<not> starts ((=) CHR ''.'') r then (YVoid, r) else ip4_loop k num' (tl r)
          else ip4_loop k num' r)"

definition parseIp4Number :: "bool \<Rightarrow> string \<Rightarrow> 'c ycp \<times> string" where
  "parseIp4Number optional s = ip4_loop 4 0 s"

definition octet :: "nat \<Rightarrow> int64 \<Rightarrow> nat" where
  "octet k i = unat (drop_bit k (i AND 0xFFFFFFFF) AND 0xFF)"

definition unparseIp4Number :: "'c ycp \<Rightarrow> string" where
  "unparseIp4Number v =
     (case v of
        YInteger i \<Rightarrow> show_nat (octet 24 i) @ ''.'' @ show_nat (octet 16 i) @ ''.'' @ show_nat (octet 8 i) @ ''.'' @ show_nat (octet 0 i)
      | _ \<Rightarrow> [])"

definition strncmp_eq :: "string \<Rightarrow> string \<Rightarrow> bool" where
  "strncmp_eq s w \<longleftrightarrow> take (length w) s = w"

definition parseBoolean :: "bool \<Rightarrow> string \<Rightarrow> 'c ycp \<times> string" where
  "parseBoolean optional s =
     (if strncmp_eq s ''yes'' then (YBoolean True, drop 3 s)
      else if strncmp_eq s ''no'' then (YBoolean False, drop 2 s)
      else (YNull, s))"

definition unparseBoolean :: "'c ycp \<Rightarrow> string" where
  "unparseBoolean v = (case v of YBoolean b \<Rightarrow> if b then ''yes'' else ''no'' | _ \<Rightarrow> [])"

definition parseNumber :: "bool \<Rightarrow> string \<Rightarrow> 'c ycp \<times> string" where
  "parseNumber optional s =
     (if \<not> starts is_digit s then (YNull, s) else (YInteger (atoll s), dropWhile is_digit s))"

definition unparseNumber :: "'c ycp \<Rightarrow> string" where
  "unparseNumber v = (case v of YInteger i \<Rightarrow> integer_string i | _ \<Rightarrow> [])"

text \<open>The value of a digit, computed on the \<^verbatim>\<open>char\<close>; \<^const>\<open>None\<close> leaves the loop.\<close>

definition hexval_digit :: "char \<Rightarrow> int option" where
  "hexval_digit c =
     (let x = int (ccode c) - 48 in
      if 10 < x then
        let x = x - (65 - 48 - 10) in
        if 16 < x then
          let x = x - (97 - 65) in
          if 16 < x then None else Some x
        else Some x
      else Some x)"

text \<open>\<^verbatim>\<open>num\<close> loses its upper digits after sixteen of them.\<close>

fun hexval_loop :: "int64 \<Rightarrow> string \<Rightarrow> int64 \<times> string" where
  "hexval_loop num [] = (num, [])"
| "hexval_loop num (c # cs) =
     (if \<not> is_xdigit c then (num, c # cs)
      else case hexval_digit c of None \<Rightarrow> (num, c # cs) | Some x \<Rightarrow> hexval_loop (push_bit 4 num + word_of_int x) cs)"

definition parseHexval :: "bool \<Rightarrow> string \<Rightarrow> 'c ycp \<times> string" where
  "parseHexval optional s =
     (if \<not> starts is_xdigit s then (YNull, s)
      else let r = (if hd s = CHR ''0'' \<and> starts (\<lambda>c. c = CHR ''x'' \<or> c = CHR ''X'') (tl s) then drop 2 s else s);
               (num, r) = hexval_loop 0 r
           in (YInteger num, r))"

definition unparseHexval :: "'c ycp \<Rightarrow> string" where
  "unparseHexval v = (case v of YInteger i \<Rightarrow> show_hex (unat i) | _ \<Rightarrow> [])"

text \<open>The text that is scanned by \<^verbatim>\<open>sscanf\<close> starts where the number does and is not limited to its digits.\<close>

definition parseFloat :: "float_io \<Rightarrow> bool \<Rightarrow> string \<Rightarrow> ('c ycp \<times> string) outcome" where
  "parseFloat F optional s =
     (if \<not> starts is_digit s \<and> \<not> starts ((=) CHR ''.'') s then Ret (YNull, s)
      else let r = dropWhile is_digit s; r = (if starts ((=) CHR ''.'') r then tl r else r); r = dropWhile is_digit r in
        case scan_float F s of None \<Rightarrow> Undef | Some d \<Rightarrow> Ret (YFloat d, r))"

definition unparseFloat :: "float_io \<Rightarrow> 'c ycp \<Rightarrow> string" where
  "unparseFloat F v = (case v of YFloat d \<Rightarrow> take 63 (print_float F d) | _ \<Rightarrow> [])"

section \<open>Texts\<close>

text \<open>A set is given by its characters; with \<^verbatim>\<open>^\<close> in front, by those that are not in it.\<close>

definition in_set :: "string \<Rightarrow> char \<Rightarrow> bool" where
  "in_set cset c \<longleftrightarrow> (if starts ((=) CHR ''^'') cset then c \<notin> set (tl cset) else c \<in> set cset)"

definition set_chars :: "string \<Rightarrow> string" where
  "set_chars cset = (if starts ((=) CHR ''^'') cset then tl cset else cset)"

definition strip :: "string \<Rightarrow> string \<Rightarrow> string" where
  "strip st s = rev (dropWhile (\<lambda>c. c \<in> set st) (rev (dropWhile (\<lambda>c. c \<in> set st) s)))"

definition parseString :: "string \<Rightarrow> string option \<Rightarrow> bool \<Rightarrow> string \<Rightarrow> 'c ycp \<times> string" where
  "parseString cset stripped optional s =
     (let m = takeWhile (in_set cset) s; r = dropWhile (in_set cset) s in
      if m = [] \<and> set_chars cset \<noteq> [] then (YNull, r)
      else (YString (case stripped of None \<Rightarrow> m | Some st \<Rightarrow> strip st m), r))"

definition unparseString :: "'c ycp \<Rightarrow> 'c ycp \<Rightarrow> 'c ycp \<Rightarrow> string" where
  "unparseString syntax stripped v =
     (case (syntax, v) of
        (YString cset, YString s) \<Rightarrow> takeWhile (in_set (c_str cset)) (c_str s)
      | _ \<Rightarrow> [])"

fun hostname_rest :: "string \<Rightarrow> string" where
  "hostname_rest [] = []"
| "hostname_rest (c # cs) =
     (if is_alnum c \<or> c = CHR ''_'' \<or> (c = CHR ''.'' \<and> starts is_alpha cs) then hostname_rest cs else c # cs)"

definition parseHostname :: "bool \<Rightarrow> string \<Rightarrow> 'c ycp \<times> string" where
  "parseHostname optional s =
     (if \<not> starts is_alpha s then (YNull, s)
      else let r = hostname_rest s in (YString (take (length s - length r) s), r))"

fun hostname_part :: "string \<Rightarrow> string" where
  "hostname_part [] = []"
| "hostname_part (c # cs) =
     (if is_alnum c \<or> c = CHR ''_'' \<or> (c = CHR ''.'' \<and> starts is_alpha cs) then c # hostname_part cs else [])"

definition unparseHostname :: "'c ycp \<Rightarrow> string" where
  "unparseHostname v =
     (case v of YString s \<Rightarrow> if starts is_alpha (c_str s) then hostname_part (c_str s) else [] | _ \<Rightarrow> [])"

definition parseUsername :: "bool \<Rightarrow> string \<Rightarrow> 'c ycp \<times> string" where
  "parseUsername optional s =
     (if \<not> starts is_alpha s then (YNull, s) else (YString (takeWhile is_alnum s), dropWhile is_alnum s))"

definition unparseUsername :: "'c ycp \<Rightarrow> string" where
  "unparseUsername v =
     (case v of YString s \<Rightarrow> if starts is_alpha (c_str s) then takeWhile is_alnum (c_str s) else [] | _ \<Rightarrow> [])"

definition parseVerbose :: "string \<Rightarrow> bool \<Rightarrow> string \<Rightarrow> 'c ycp \<times> string" where
  "parseVerbose w optional s =
     (if strncmp_eq s w then (YString w, drop (length w) s)
      else (if optional then YVoid else YNull, s))"

definition unparseVerbose :: "'c ycp \<Rightarrow> string" where
  "unparseVerbose v = (case v of YString s \<Rightarrow> c_str s | _ \<Rightarrow> [])"

definition parseSeparator :: "string \<Rightarrow> bool \<Rightarrow> string \<Rightarrow> 'c ycp \<times> string" where
  "parseSeparator w optional s =
     (let m = takeWhile (\<lambda>c. c \<in> set w) s in
      (if optional \<or> m \<noteq> [] then YString m else YNull, dropWhile (\<lambda>c. c \<in> set w) s))"

definition unparseSeparator :: "'c ycp \<Rightarrow> string" where
  "unparseSeparator v = (case v of YString s \<Rightarrow> take 1 (c_str s) | _ \<Rightarrow> [])"

lemmas any_basic_defs =
  parseIp4Number_def parseBoolean_def parseNumber_def parseHexval_def parseString_def parseHostname_def parseUsername_def
  parseVerbose_def parseSeparator_def

section \<open>Reading back\<close>

lemma starts_simps [simp]: "\<not> starts p []" "starts p (c # cs) = p c"
  by (simp_all add: starts_def)

text \<open>
  What the writers and readers of lists and tuples rely on: a value of the type is written as a text that is not empty and has no NUL, and is read
  back from in front of anything that does not start with a character which continues it.
\<close>

locale field_type =
  fixes parse :: "bool \<Rightarrow> string \<Rightarrow> 'c ycp \<times> string"
    and print :: "'c ycp \<Rightarrow> string"
    and fits :: "'c ycp \<Rightarrow> bool"
    and continues :: "char \<Rightarrow> bool"
  assumes read_back: "fits v \<Longrightarrow> \<not> starts continues rest \<Longrightarrow> parse opt (print v @ rest) = (v, rest)"
    and printed: "fits v \<Longrightarrow> print v \<noteq> [] \<and> nul_free (print v)"
    and is_value: "fits v \<Longrightarrow> v \<noteq> YNull \<and> \<not> isVoid v"
begin

text \<open>A value behind a separator: exactly the separator is taken.\<close>

lemma read_separated:
  assumes "fits v" "c \<in> set seps" "\<not> starts (\<lambda>d. d \<in> set seps) (print v)"
  shows "parseSeparator seps opt (c # print v @ rest) = (YString [c], print v @ rest)"
proof -
  from printed [OF assms(1)] assms(3) have "\<not> starts (\<lambda>d. d \<in> set seps) (print v @ rest)" by (cases "print v") auto
  then have "takeWhile (\<lambda>d. d \<in> set seps) (print v @ rest) = [] \<and> dropWhile (\<lambda>d. d \<in> set seps) (print v @ rest) = print v @ rest"
    by (cases "print v @ rest") auto
  with assms(2) show ?thesis by (simp add: parseSeparator_def)
qed

text \<open>Two values that are written alike are the same.\<close>

lemma print_injective: "fits v \<Longrightarrow> fits w \<Longrightarrow> print v = print w \<Longrightarrow> v = w"
  using read_back [of v "[]" True] read_back [of w "[]" True] by simp

end

subsection \<open>Numbers\<close>

lemma not_starts: "\<not> starts p s \<longleftrightarrow> s = [] \<or> \<not> p (hd s)"
  by (auto simp: starts_def)

lemma digits_scanned:
  assumes "\<not> starts is_digit rest"
  shows "takeWhile is_digit (show_nat n @ rest) = show_nat n" "dropWhile is_digit (show_nat n @ rest) = rest"
    "starts is_digit (show_nat n @ rest)"
proof -
  have d: "\<forall>c \<in> set (show_nat n). is_digit c" by (rule show_nat_digits)
  show "takeWhile is_digit (show_nat n @ rest) = show_nat n" by (rule takeWhile_append_stop [OF d]) (use assms not_starts in auto)
  show "dropWhile is_digit (show_nat n @ rest) = rest" by (rule dropWhile_append_stop [OF d]) (use assms not_starts in auto)
  from d show_nat_nonempty [of n] show "starts is_digit (show_nat n @ rest)" by (cases "show_nat n") auto
qed

lemma nul_free_digits: "nul_free (show_nat n)"
  using show_nat_digits [of n] by (fastforce simp: nul_free_def is_digit_def)

lemma atoll_show: "n < 2 ^ 63 \<Longrightarrow> \<not> starts is_digit rest \<Longrightarrow> atoll (show_nat n @ rest) = word_of_int (int n)"
  using min_absorb2 [of "int n" "2 ^ 63 - 1"] by (simp add: atoll_def digits_scanned clamp_signed_def)

lemma atoi_show: "n < 2 ^ 31 \<Longrightarrow> \<not> starts is_digit rest \<Longrightarrow> atoi_digits (show_nat n @ rest) = int n"
  using to_int32_small [of "int n"] by (simp add: atoi_digits_def atoll_show)

lemma ip4_round:
  assumes "n < 256"
  shows "ip4_loop (Suc (Suc k)) num (show_nat n @ CHR ''.'' # s) = ip4_loop (Suc k) (push_bit 8 num + of_nat n) s"
    and "\<not> starts is_digit rest \<Longrightarrow> ip4_loop (Suc 0) num (show_nat n @ rest) = (YInteger (push_bit 8 num + of_nat n), rest)"
proof -
  have dot: "\<not> starts is_digit (CHR ''.'' # s)" by (simp add: is_digit_def)
  from assms show "ip4_loop (Suc (Suc k)) num (show_nat n @ CHR ''.'' # s) = ip4_loop (Suc k) (push_bit 8 num + of_nat n) s"
    using digits_scanned [OF dot, of n] atoi_show [OF _ dot, of n]
    by (subst ip4_loop.simps(2)) (simp add: Let_def del: ip4_loop.simps)
  assume "\<not> starts is_digit rest"
  with assms show "ip4_loop (Suc 0) num (show_nat n @ rest) = (YInteger (push_bit 8 num + of_nat n), rest)"
    using digits_scanned [of rest n] atoi_show [of n rest] by (simp add: Let_def)
qed

text \<open>The octets make up an address.\<close>

lemma octets:
  assumes "unat i < 2 ^ 32"
  shows "octet k i = unat i div 2 ^ k mod 256"
proof -
  have "i AND 0xFFFFFFFF = i"
  proof -
    have "i AND 0xFFFFFFFF = i AND mask 32" by (simp add: mask_eq_exp_minus_1)
    also have "\<dots> = take_bit 32 i" by (simp add: take_bit_eq_mask)
    also have "\<dots> = i" using assms by (simp add: word_unat_eq_iff unsigned_take_bit_eq take_bit_nat_eq_self)
    finally show ?thesis .
  qed
  moreover have "drop_bit k i AND 0xFF = take_bit 8 (drop_bit k i)" by (simp only: take_bit_eq_mask mask_eq_exp_minus_1) simp
  ultimately have "octet k i = unat (take_bit 8 (drop_bit k i))" by (simp only: octet_def)
  also have "\<dots> = take_bit 8 (drop_bit k (unat i))" 
    using take_bit_nat_eq_self [OF unsigned_less [of i]] by (simp only: unsigned_take_bit_eq unsigned_drop_bit_eq)
  also have "\<dots> = unat i div 2 ^ k mod 256" by (simp only: take_bit_eq_mod drop_bit_eq_div) simp
  finally show ?thesis .
qed

lemma octets_add_up:
  assumes "unat i < 2 ^ 32"
  shows "push_bit 8 (push_bit 8 (push_bit 8 (of_nat (octet 24 i)) + of_nat (octet 16 i)) + of_nat (octet 8 i)) + of_nat (octet 0 i) = (i :: int64)"
proof -
  let ?n = "unat i"
  have "((?n div 2 ^ 24 mod 256 * 256 + ?n div 2 ^ 16 mod 256) * 256 + ?n div 2 ^ 8 mod 256) * 256 + ?n mod 256 = ?n"
  proof -
    define a b c where "a = ?n div 256" "b = a div 256" "c = b div 256"
    then have "?n div 2 ^ 24 = c" "?n div 2 ^ 16 = b" "?n div 2 ^ 8 = a" by (simp_all add: div_mult2_eq [symmetric])
    moreover have "c mod 256 = c" using assms by (simp add: a_b_c_def div_mult2_eq [symmetric])
    moreover have "c * 256 + b mod 256 = b" "b * 256 + a mod 256 = a" "a * 256 + ?n mod 256 = ?n" by (simp_all add: a_b_c_def)
    ultimately show ?thesis by simp
  qed
  then have "((octet 24 i * 256 + octet 16 i) * 256 + octet 8 i) * 256 + octet 0 i = ?n"
    by (simp only: octets [OF assms] power_0 div_by_1)
  then have "of_nat (((octet 24 i * 256 + octet 16 i) * 256 + octet 8 i) * 256 + octet 0 i) = (of_nat ?n :: int64)"
    by (rule arg_cong)
  then show ?thesis by (simp add: push_bit_eq_mult)
qed

definition is_ip4 :: "'c ycp \<Rightarrow> bool" where
  "is_ip4 v = (case v of YInteger i \<Rightarrow> unat i < 2 ^ 32 | _ \<Rightarrow> False)"

lemma ip4_read_back:
  assumes "is_ip4 v" "\<not> starts is_digit rest"
  shows "parseIp4Number opt (unparseIp4Number v @ rest) = (v, rest)"
proof -
  from assms(1) obtain i where v: "v = YInteger i" and i: "unat i < 2 ^ 32" by (cases v) (auto simp: is_ip4_def)
  then have small: "octet k i < 256" for k by (simp add: octets)
  have "parseIp4Number opt (unparseIp4Number v @ rest)
      = ip4_loop (Suc (Suc (Suc (Suc 0)))) 0 (show_nat (octet 24 i) @ ''.'' @ show_nat (octet 16 i) @ ''.'' @ show_nat (octet 8 i) @ ''.'' @ show_nat (octet 0 i) @ rest)"
    by (simp add: parseIp4Number_def unparseIp4Number_def v numeral_eq_Suc del: ip4_loop.simps)
  also have "\<dots> = (v, rest)"
    using octets_add_up [OF i] assms(2) by (simp add: ip4_round small v del: ip4_loop.simps)
  finally show ?thesis .
qed

lemma ip4_printed: "is_ip4 v \<Longrightarrow> unparseIp4Number v \<noteq> [] \<and> nul_free (unparseIp4Number v)"
  by (cases v) (auto simp: is_ip4_def unparseIp4Number_def nul_free_digits)

interpretation ip4: field_type parseIp4Number unparseIp4Number is_ip4 is_digit
  by unfold_locales (use ip4_read_back ip4_printed in \<open>auto simp: is_ip4_def isVoid_def\<close>)

definition is_count :: "'c ycp \<Rightarrow> bool" where
  "is_count v = (case v of YInteger i \<Rightarrow> 0 \<le> sint i | _ \<Rightarrow> False)"

lemma number_read_back:
  assumes "is_count v" "\<not> starts is_digit rest"
  shows "parseNumber opt (unparseNumber v @ rest) = (v, rest)"
proof -
  from assms(1) obtain i where v: "v = YInteger i" and i: "0 \<le> sint i" by (cases v) (auto simp: is_count_def)
  have "nat (sint i) < 2 ^ 63" using sint_lt [of i] i by (simp add: nat_less_iff)
  moreover have "word_of_int (int (nat (sint i))) = i" using i by simp
  ultimately show ?thesis
    using i assms(2) atoll_show [of "nat (sint i)" rest]
    by (simp add: v parseNumber_def unparseNumber_def integer_string_def show_int_def digits_scanned)
qed

interpretation number: field_type parseNumber unparseNumber is_count is_digit
proof unfold_locales
  show "unparseNumber v \<noteq> [] \<and> nul_free (unparseNumber v)" if "is_count v" for v :: "'c ycp"
    using that by (cases v) (auto simp: is_count_def unparseNumber_def integer_string_def show_int_def nul_free_digits)
qed (use number_read_back in \<open>auto simp: is_count_def isVoid_def\<close>)

definition is_bool :: "'c ycp \<Rightarrow> bool" where
  "is_bool v = (case v of YBoolean b \<Rightarrow> True | _ \<Rightarrow> False)"

interpretation boolean: field_type parseBoolean unparseBoolean is_bool "\<lambda>c. False"
  by unfold_locales (auto simp: is_bool_def parseBoolean_def unparseBoolean_def strncmp_eq_def isVoid_def nul_free_def split: ycp.splits)

text \<open>The computation on characters gives the value of a digit, and the loop the number modulo \<open>2 ^ 64\<close>.\<close>

lemma hexval_digit: "is_xdigit c \<Longrightarrow> hexval_digit c = Some (int (digit_val c))"
  by (auto simp: hexval_digit_def is_xdigit_def is_digit_def is_upper_def digit_val_def Let_def)

lemma of_nat_digits: "of_nat (foldl (\<lambda>n c. n * 16 + digit_val c) n ds) = foldl (\<lambda>n c. push_bit 4 n + of_nat (digit_val c)) (of_nat n :: int64) ds"
  by (induction ds arbitrary: n) (simp_all add: push_bit_eq_mult)

lemma hexval_loop_digits:
  "\<forall>c \<in> set ds. is_xdigit c \<Longrightarrow> \<not> starts is_xdigit rest
    \<Longrightarrow> hexval_loop num (ds @ rest) = (foldl (\<lambda>n c. push_bit 4 n + of_nat (digit_val c)) num ds, rest)"
proof (induction ds arbitrary: num)
  case Nil
  then show ?case by (cases rest) auto
qed (simp add: hexval_digit)

lemma hexval_read_back:
  assumes "\<not> starts (\<lambda>c. is_xdigit c \<or> c = CHR ''x'' \<or> c = CHR ''X'') rest"
  shows "parseHexval opt (unparseHexval (YInteger i) @ rest) = (YInteger i, rest)"
proof -
  let ?h = "show_hex (unat i)"
  have d: "\<forall>c \<in> set ?h. is_xdigit c" using show_hex_digits(1) by (auto simp: base_digit_def)
  then obtain c t where h: "?h = c # t" "is_xdigit c" using show_hex_digits(2) by (cases ?h) fastforce+
  have r: "\<not> starts is_xdigit rest" using assms by (cases rest) auto
  have "\<not> is_xdigit CHR ''x''" "\<not> is_xdigit CHR ''X''" by (simp_all add: is_xdigit_def is_digit_def)
  with d h assms have nox: "\<not> starts (\<lambda>c. c = CHR ''x'' \<or> c = CHR ''X'') (t @ rest)" by (cases t; cases rest) auto
  have "foldl (\<lambda>n c. push_bit 4 n + of_nat (digit_val c)) (of_nat 0) ?h = (of_nat (digits_val 16 ?h) :: int64)"
    unfolding digits_val_def by (rule of_nat_digits [symmetric])
  then have "hexval_loop 0 (?h @ rest) = (i, rest)" using hexval_loop_digits [OF d r, of 0] show_hex_digits(3) by simp
  with h nox show ?thesis by (simp add: parseHexval_def unparseHexval_def)
qed

definition is_integer :: "'c ycp \<Rightarrow> bool" where
  "is_integer v = (case v of YInteger i \<Rightarrow> True | _ \<Rightarrow> False)"

interpretation hexval: field_type parseHexval unparseHexval is_integer "\<lambda>c. is_xdigit c \<or> c = CHR ''x'' \<or> c = CHR ''X''"
proof unfold_locales
  show "unparseHexval v \<noteq> [] \<and> nul_free (unparseHexval v)" if "is_integer v" for v :: "'c ycp"
    using that show_hex_digits by (cases v) (auto simp: is_integer_def unparseHexval_def nul_free_def)
  show "parseHexval opt (unparseHexval v @ rest) = (v, rest)"
    if "is_integer v" "\<not> starts (\<lambda>c. is_xdigit c \<or> c = CHR ''x'' \<or> c = CHR ''X'') rest" for v :: "'c ycp" and rest opt
    using that by (cases v) (auto simp: is_integer_def hexval_read_back)
qed (auto simp: is_integer_def isVoid_def)

subsection \<open>Texts\<close>

lemma scanned:
  assumes "\<forall>c \<in> set s. p c" "\<not> starts p rest"
  shows "takeWhile p (s @ rest) = s" "dropWhile p (s @ rest) = rest"
  using takeWhile_append_stop [OF assms(1)] dropWhile_append_stop [OF assms(1)] assms(2) not_starts by blast+

definition is_chars :: "string \<Rightarrow> 'c ycp \<Rightarrow> bool" where
  "is_chars cset v = (case v of YString s \<Rightarrow> s \<noteq> [] \<and> nul_free s \<and> list_all (in_set (c_str cset)) s | _ \<Rightarrow> False)"

interpretation chars: field_type "parseString (c_str cset) None" "unparseString (YString cset) YNull" "is_chars cset" "in_set (c_str cset)" for cset
proof unfold_locales
  fix v :: "'c ycp" and rest opt
  assume v: "is_chars cset v"
  then obtain s where s: "v = YString s" "s \<noteq> []" "nul_free s" "\<forall>c \<in> set s. in_set (c_str cset) c"
    by (cases v) (auto simp: is_chars_def list_all_iff)
  from s(3,4) have p: "unparseString (YString cset) YNull v = s" by (simp add: unparseString_def s(1))
  from s p show "unparseString (YString cset) YNull v \<noteq> [] \<and> nul_free (unparseString (YString cset) YNull v)" by simp
  assume "\<not> starts (in_set (c_str cset)) rest"
  note scanned [OF s(4) this]
  with s(2) have "parseString (c_str cset) None opt (s @ rest) = (YString s, rest)" by (simp add: parseString_def Let_def)
  then show "parseString (c_str cset) None opt (unparseString (YString cset) YNull v @ rest) = (v, rest)"
    unfolding p unfolding s(1) .
qed (auto simp: is_chars_def isVoid_def)

abbreviation host_char :: "char \<Rightarrow> bool" where
  "host_char c \<equiv> is_alnum c \<or> c = CHR ''_'' \<or> c = CHR ''.''"

definition is_hostname :: "'c ycp \<Rightarrow> bool" where
  "is_hostname v = (case v of YString s \<Rightarrow> nul_free s \<and> starts is_alpha s \<and> hostname_part s = s | _ \<Rightarrow> False)"

lemma hostname_rest_append: "hostname_part s = s \<Longrightarrow> \<not> starts host_char rest \<Longrightarrow> hostname_rest (s @ rest) = rest"
proof (induction s)
  case Nil
  then show ?case by (cases rest) auto
next
  case (Cons c s)
  then show ?case by (cases s) (auto split: if_splits)
qed

interpretation hostname: field_type parseHostname unparseHostname is_hostname host_char
proof unfold_locales
  fix v :: "'c ycp" and rest opt
  assume v: "is_hostname v"
  then obtain s where s: "v = YString s" "nul_free s" "starts is_alpha s" "hostname_part s = s" by (cases v) (auto simp: is_hostname_def)
  then have p: "unparseHostname v = s" "s \<noteq> []" by (auto simp: unparseHostname_def)
  from s p show "unparseHostname v \<noteq> [] \<and> nul_free (unparseHostname v)" by simp
  from s have "starts is_alpha (s @ rest)" by (cases s) auto
  moreover assume "\<not> starts host_char rest"
  ultimately have "parseHostname opt (s @ rest) = (YString s, rest)"
    using hostname_rest_append [OF s(4)] by (simp add: parseHostname_def)
  then show "parseHostname opt (unparseHostname v @ rest) = (v, rest)" unfolding p unfolding s(1) .
qed (auto simp: is_hostname_def isVoid_def)

definition is_username :: "'c ycp \<Rightarrow> bool" where
  "is_username v = (case v of YString s \<Rightarrow> nul_free s \<and> starts is_alpha s \<and> list_all is_alnum s | _ \<Rightarrow> False)"

interpretation username: field_type parseUsername unparseUsername is_username is_alnum
proof unfold_locales
  fix v :: "'c ycp" and rest opt
  assume v: "is_username v"
  then obtain s where s: "v = YString s" "nul_free s" "starts is_alpha s" "\<forall>c \<in> set s. is_alnum c"
    by (cases v) (auto simp: is_username_def list_all_iff)
  then have p: "unparseUsername v = s" "s \<noteq> []" by (auto simp: unparseUsername_def)
  from s p show "unparseUsername v \<noteq> [] \<and> nul_free (unparseUsername v)" by simp
  from s have "starts is_alpha (s @ rest)" by (cases s) auto
  moreover assume "\<not> starts is_alnum rest"
  ultimately have "parseUsername opt (s @ rest) = (YString s, rest)"
    using scanned [OF s(4)] by (simp add: parseUsername_def)
  then show "parseUsername opt (unparseUsername v @ rest) = (v, rest)" unfolding p unfolding s(1) .
qed (auto simp: is_username_def isVoid_def)

end
