(* ===== verification/Any_Syntax.thy ===== *)
theory Any_Syntax
  imports Any_Basic
begin

text \<open>
  The syntax descriptions of the agent for any text file (\<^verbatim>\<open>agent-any/src/AnyAgentComplex.cc\<close>): \<^verbatim>\<open>parseData\<close> reads the lines of the file as a
  description says, \<^verbatim>\<open>unparseData\<close> writes a value.

  A pointer into the text is the buffer it points into, by the number of the line or \<open>- 1\<close> for the empty literal of \<^verbatim>\<open>getLine\<close>, with the text from there to the
  NUL; \<^const>\<open>None\<close> is the null pointer.  The loops of \<^verbatim>\<open>List\<close>, \<^verbatim>\<open>Tuple\<close> and \<^verbatim>\<open>Fillup\<close> need not end; each of their rounds costs
  one unit of fuel.  \<^verbatim>\<open>asString\<close> of another value ends the program: \<^const>\<open>Undef\<close>.
\<close>

section \<open>State\<close>

datatype mtype = MTYPE_NONE | MTYPE_FILE | MTYPE_PROG | MTYPE_LOCAL

text \<open>The members of \<^verbatim>\<open>AnyAgent\<close>, and the two statics of the file: \<^verbatim>\<open>currentMatch\<close> and \<^verbatim>\<open>got_anything\<close>.\<close>

record 'c any_agent =
  description_read :: bool
  an_mtime :: int
  cache :: "'c ycp"
  cchanged :: bool
  alldata :: "'c ycp list option"
  achanged :: bool
  mReadOnly :: bool
  mType :: mtype
  mName :: "'c ycp"
  mComment :: string
  isFillup :: bool
  mSyntax :: "'c ycp"
  mHeader :: "'c ycp"
  line_number :: int
  tupleName :: "string list"
  tupleValue :: "'c ycp list"
  tupleContinue :: bool
  currentMatch :: "'c ycp"
  got_anything :: bool

type_synonym any_ptr = "(int \<times> string) option"

type_synonym 'c any_result = "('c ycp \<times> any_ptr \<times> 'c any_agent) outcome"

type_synonym 'c any_parser = "bool \<Rightarrow> any_ptr \<Rightarrow> 'c any_agent \<Rightarrow> 'c any_result"

section \<open>Lines\<close>

definition first_char :: "string \<Rightarrow> char" where
  "first_char s = (if s = [] then NUL else hd s)"

definition is_comment :: "'c any_agent \<Rightarrow> string \<Rightarrow> bool" where
  "is_comment a s \<longleftrightarrow> first_char s \<in> set (mComment a)"

definition lines_left :: "'c any_agent \<Rightarrow> nat" where
  "lines_left a = (case alldata a of None \<Rightarrow> 0 | Some d \<Rightarrow> nat (int (length d) - line_number a))"

text \<open>
  \<^verbatim>\<open>getLine\<close>: the next line that is not empty and no comment.  At the end of the lines the result is the empty text and the null pointer in turn.
\<close>

function getLine :: "'c any_agent \<Rightarrow> (any_ptr \<times> 'c any_agent) outcome" where
  "getLine a =
     (case alldata a of
        None \<Rightarrow> Ret (None, a)
      | Some d \<Rightarrow>
          let a = a\<lparr>line_number := line_number a + 1\<rparr> in
          if int (length d) \<le> line_number a then
            if \<not> got_anything a then Ret (Some (- 1, []), a\<lparr>got_anything := True\<rparr>)
            else Ret (None, a\<lparr>got_anything := False\<rparr>)
          else case list_value d (line_number a) of
            YString s \<Rightarrow>
              if is_comment a s \<and> \<not> isFillup a then getLine a
              else if c_str s = [] then getLine a
              else Ret (Some (line_number a, c_str s), a\<lparr>got_anything := True\<rparr>)
          | _ \<Rightarrow> Undef)"
  by auto
termination by (relation "measure lines_left") (auto simp: lines_left_def)

declare getLine.simps [simp del]

section \<open>Constructs\<close>

text \<open>The constructs call \<^verbatim>\<open>parseData\<close> for their parts: \<open>P\<close>.\<close>

fun choice_loop :: "('c ycp \<Rightarrow> 'c any_parser) \<Rightarrow> 'c ycp list \<Rightarrow> 'c any_parser" where
  "choice_loop P [] optional line a = Ret (YNull, line, a)"
| "choice_loop P (v # vs) optional line a =
     (case v of
        YList element \<Rightarrow>
          if element = [] \<or> 2 < length element then Ret (YNull, line, a)
          else obind (P (element ! 0) False line a) (\<lambda>(m, try_line, a).
            let a = a\<lparr>currentMatch := m\<rparr>; action = (if 1 < length element then element ! 1 else YNull) in
            if m \<noteq> YNull then
              if action \<noteq> YNull then P action optional try_line a else Ret (m, try_line, a)
            else choice_loop P vs optional line a)
      | _ \<Rightarrow> Ret (YNull, line, a))"

definition parseChoice :: "('c ycp \<Rightarrow> 'c any_parser) \<Rightarrow> 'c ycp list \<Rightarrow> 'c any_parser" where
  "parseChoice P syntax optional line a = (if line = None then Ret (YNull, line, a) else choice_loop P syntax optional line a)"

text \<open>The loop gives false when a part does not match.\<close>

fun sequence_loop :: "('c ycp \<Rightarrow> 'c any_parser) \<Rightarrow> 'c ycp list \<Rightarrow> bool \<Rightarrow> any_ptr \<Rightarrow> 'c any_agent \<Rightarrow> (bool \<times> any_ptr \<times> 'c any_agent) outcome" where
  "sequence_loop P [] optional line a = Ret (True, line, a)"
| "sequence_loop P (e # es) optional line a =
     obind (P e optional line a) (\<lambda>(v, line, a).
       if v = YNull then Ret (False, line, a) else sequence_loop P es optional line a)"

text \<open>\<^verbatim>\<open>line - lstart\<close> is only defined when both point into the same line.\<close>

definition parseSequence :: "('c ycp \<Rightarrow> 'c any_parser) \<Rightarrow> 'c ycp list \<Rightarrow> 'c any_parser" where
  "parseSequence P syntax optional line a =
     obind (sequence_loop P syntax optional line a) (\<lambda>(ok, line', a).
       if \<not> ok then Ret (YNull, line', a)
       else case (line, line') of
         (Some (n, s), Some (n', s')) \<Rightarrow>
           if n = n' \<and> length s' \<le> length s then Ret (YString (take (length s - length s') s), line', a) else Undef
       | _ \<Rightarrow> Undef)"

fun parseList :: "nat \<Rightarrow> ('c ycp \<Rightarrow> 'c any_parser) \<Rightarrow> 'c ycp \<Rightarrow> 'c ycp \<Rightarrow> 'c ycp list \<Rightarrow> 'c any_parser" where
  "parseList 0 P e sep list optional line a = OutOfFuel"
| "parseList (Suc n) P e sep list optional line a =
     obind (P e optional line a) (\<lambda>(vl, line, a).
       if vl = YNull then Ret (YList list, line, a)
       else let list = (if isVoid vl then list else list @ [vl]) in
         obind (P sep False line a) (\<lambda>(vs, line, a).
           if vs = YNull then Ret (YList list, line, a) else parseList n P e sep list False line a))"

definition stack_set :: "'a \<Rightarrow> 'a list \<Rightarrow> 'a list" where
  "stack_set x st = x # tl st"

text \<open>What an element of a tuple leaves at the top of the stacks is taken over.\<close>

definition tuple_take :: "('c ycp \<times> 'c ycp) list \<Rightarrow> 'c any_agent \<Rightarrow> ('c ycp \<times> 'c ycp) list \<times> 'c any_agent" where
  "tuple_take m a =
     (case (tupleName a, tupleValue a) of
        (n # ns, v # vs) \<Rightarrow>
          if n \<noteq> [] \<and> v \<noteq> YNull \<and> \<not> isVoid v
          then (ymap_add m (YString n) v, a\<lparr>tupleName := [] # ns, tupleValue := YNull # vs\<rparr>)
          else (m, a)
      | _ \<Rightarrow> (m, a))"

text \<open>One pass over the elements, false for a part that does not match; the map goes along.\<close>

fun tuple_pass ::
  "('c ycp \<Rightarrow> 'c any_parser) \<Rightarrow> 'c ycp list \<Rightarrow> ('c ycp \<times> 'c ycp) list \<Rightarrow> bool \<Rightarrow> any_ptr \<Rightarrow> 'c any_agent
   \<Rightarrow> ((bool \<times> ('c ycp \<times> 'c ycp) list) \<times> any_ptr \<times> 'c any_agent) outcome" where
  "tuple_pass P [] m optional line a = Ret ((True, m), line, a)"
| "tuple_pass P (e # es) m optional line a =
     obind (P e optional line a) (\<lambda>(v, line, a).
       if v = YNull then Ret ((False, m), line, a)
       else tuple_pass P es (fst (tuple_take m a)) optional line (snd (tuple_take m a)))"

fun tuple_loop :: "nat \<Rightarrow> ('c ycp \<Rightarrow> 'c any_parser) \<Rightarrow> 'c ycp list \<Rightarrow> ('c ycp \<times> 'c ycp) list \<Rightarrow> 'c any_parser" where
  "tuple_loop 0 P syntax m optional line a = OutOfFuel"
| "tuple_loop (Suc n) P syntax m optional line a =
     obind (tuple_pass P syntax m optional line a) (\<lambda>(r, line, a).
       if \<not> fst r then Ret (if optional then YMap (snd r) else YNull, line, a)
       else if syntax \<noteq> [] \<and> tupleContinue a then tuple_loop n P syntax (snd r) True line (a\<lparr>tupleContinue := False\<rparr>)
       else Ret (YMap (snd r), line, a))"

definition parseTuple :: "nat \<Rightarrow> ('c ycp \<Rightarrow> 'c any_parser) \<Rightarrow> 'c ycp list \<Rightarrow> 'c any_parser" where
  "parseTuple n P syntax optional line a =
     (if line = None then Ret (YNull, line, a)
      else tuple_loop n P syntax [] optional line (a\<lparr>tupleContinue := False\<rparr>))"

text \<open>The term \<^verbatim>\<open>Tuple\<close>, with the stacks.\<close>

definition tuple_term :: "nat \<Rightarrow> ('c ycp \<Rightarrow> 'c any_parser) \<Rightarrow> 'c ycp list \<Rightarrow> 'c any_parser" where
  "tuple_term n P syntax optional line a =
     obind (parseTuple n P syntax optional line (a\<lparr>tupleName := [] # tupleName a, tupleValue := YNull # tupleValue a\<rparr>)) (\<lambda>(v, line, a).
       if tupleName a = [] \<or> tupleValue a = [] then Undef
       else Ret (v, line, a\<lparr>tupleName := tl (tupleName a), tupleValue := tl (tupleValue a)\<rparr>))"

fun var_loop :: "('c ycp \<Rightarrow> 'c any_parser) \<Rightarrow> 'c ycp list \<Rightarrow> 'c any_parser" where
  "var_loop P [] optional line a = Ret (YVoid, line, a)"
| "var_loop P (e # es) optional line a =
     obind (P e optional line a) (\<lambda>(v, line, a). if v = YNull then Ret (YVoid, line, a) else var_loop P es optional line a)"

text \<open>\<^verbatim>\<open>Or\<close>: \<open>ltry\<close> goes on where the alternative before has stopped; \<open>line\<close> is only left with a match.\<close>

fun or_loop :: "('c ycp \<Rightarrow> 'c any_parser) \<Rightarrow> 'c ycp list \<Rightarrow> any_ptr \<Rightarrow> 'c any_parser" where
  "or_loop P [] ltry optional line a = Ret (YVoid, line, a)"
| "or_loop P (e # es) ltry optional line a =
     obind (P e (es = [] \<and> optional) ltry a) (\<lambda>(v, ltry, a).
       if v \<noteq> YNull then Ret (v, ltry, a) else or_loop P es ltry optional line a)"

fun fillup_loop :: "nat \<Rightarrow> string \<Rightarrow> any_ptr \<Rightarrow> 'c any_agent \<Rightarrow> (string \<times> any_ptr \<times> 'c any_agent) outcome" where
  "fillup_loop 0 fillup line a = OutOfFuel"
| "fillup_loop (Suc n) fillup line a =
     (case line of
        None \<Rightarrow> Ret (fillup, line, a)
      | Some (i, s) \<Rightarrow>
          if is_comment a s then obind (getLine a) (\<lambda>(line, a). fillup_loop n (fillup @ s) line a)
          else Ret (fillup, line, a))"

definition KEY4FILLUP :: string where
  "KEY4FILLUP = CHR 0x60 # ''FILLUP''"

definition parseFillup :: "nat \<Rightarrow> any_ptr \<Rightarrow> 'c any_agent \<Rightarrow> 'c any_result" where
  "parseFillup n line a =
     obind (fillup_loop n [] line a) (\<lambda>(fillup, line, a).
       if tupleValue a = [] then Undef
       else Ret (YString fillup, line, a\<lparr>tupleName := stack_set KEY4FILLUP (tupleName a), tupleValue := stack_set (YString fillup) (tupleValue a)\<rparr>))"

text \<open>A reader of a basic type, at the pointer; those with an argument want a string.\<close>

definition at_line :: "(string \<Rightarrow> 'c ycp \<times> string) \<Rightarrow> any_ptr \<Rightarrow> 'c any_agent \<Rightarrow> 'c any_result" where
  "at_line p line a =
     (case line of None \<Rightarrow> Undef | Some (n, s) \<Rightarrow> case p s of (v, r) \<Rightarrow> Ret (v, Some (n, r), a))"

definition with_string :: "'c ycp \<Rightarrow> (string \<Rightarrow> 'r outcome) \<Rightarrow> 'r outcome" where
  "with_string v f = (case v of YString s \<Rightarrow> f (c_str s) | _ \<Rightarrow> Undef)"

section \<open>Reading data\<close>

text \<open>The constructs only use their parameter on the parts of the description.\<close>

lemma choice_loop_cong [fundef_cong]:
  assumes "vs = ws" "optional = optional'" "line = line'" "a = a'"
    "\<And>v es e q l b. v \<in> set ws \<Longrightarrow> v = YList es \<Longrightarrow> e \<in> set es \<Longrightarrow> P e q l b = Q e q l b"
  shows "choice_loop P vs optional line a = choice_loop Q ws optional' line' a'"
proof -
  from assms(5) have "choice_loop P ws q l b = choice_loop Q ws q l b" for q l b
  proof (induction ws arbitrary: q l b)
    case (Cons v vs)
    have IH: "choice_loop P vs q l b = choice_loop Q vs q l b" for q l b
      by (rule Cons.IH) (rule Cons.prems, auto)
    show ?case
    proof (cases v)
      case (YList element)
      have "P (element ! i) q l b = Q (element ! i) q l b" if "i < length element" for i q l b
        using Cons.prems [of v element "element ! i"] YList that by auto
      then show ?thesis using YList by (auto intro!: obind_cong simp: Let_def IH)
    qed auto
  qed simp
  with assms(1-4) show ?thesis by simp
qed

lemma parseChoice_cong [fundef_cong]:
  assumes "vs = ws" "optional = optional'" "line = line'" "a = a'"
    "\<And>v es e q l b. v \<in> set ws \<Longrightarrow> v = YList es \<Longrightarrow> e \<in> set es \<Longrightarrow> P e q l b = Q e q l b"
  shows "parseChoice P vs optional line a = parseChoice Q ws optional' line' a'"
  unfolding parseChoice_def using choice_loop_cong [OF assms] assms(1-4) by simp

lemma parseSequence_cong [fundef_cong]:
  assumes "vs = ws" "optional = optional'" "line = line'" "a = a'" "\<And>e q l b. e \<in> set ws \<Longrightarrow> P e q l b = Q e q l b"
  shows "parseSequence P vs optional line a = parseSequence Q ws optional' line' a'"
proof -
  from assms(5) have "sequence_loop P ws q l b = sequence_loop Q ws q l b" for q l b
    by (induction ws arbitrary: q l b) (auto intro!: obind_cong)
  with assms(1-4) show ?thesis by (simp add: parseSequence_def)
qed

lemma parseList_cong [fundef_cong]:
  assumes "n = n'" "e = e'" "sep = sep'" "list = list'" "optional = optional'" "line = line'" "a = a'"
    "\<And>q l b. P e' q l b = Q e' q l b" "\<And>q l b. P sep' q l b = Q sep' q l b"
  shows "parseList n P e sep list optional line a = parseList n' Q e' sep' list' optional' line' a'"
proof -
  from assms(8,9) have "parseList n' P e' sep' xs q l b = parseList n' Q e' sep' xs q l b" for xs q l b
    by (induction n' arbitrary: xs q l b) (auto intro!: obind_cong simp: Let_def)
  with assms(1-7) show ?thesis by simp
qed

lemma tuple_term_cong [fundef_cong]:
  assumes "n = n'" "vs = ws" "optional = optional'" "line = line'" "a = a'" "\<And>e q l b. e \<in> set ws \<Longrightarrow> P e q l b = Q e q l b"
  shows "tuple_term n P vs optional line a = tuple_term n' Q ws optional' line' a'"
proof -
  from assms(6) have "tuple_pass P ws m q l b = tuple_pass Q ws m q l b" for m q l b
    by (induction ws arbitrary: m q l b) (auto intro!: obind_cong)
  then have "tuple_loop n' P ws m q l b = tuple_loop n' Q ws m q l b" for m q l b
    by (induction n' arbitrary: m q l b) (auto intro!: obind_cong)
  with assms(1-5) show ?thesis by (simp add: tuple_term_def parseTuple_def)
qed

lemma var_loop_cong [fundef_cong]:
  assumes "vs = ws" "optional = optional'" "line = line'" "a = a'" "\<And>e q l b. e \<in> set ws \<Longrightarrow> P e q l b = Q e q l b"
  shows "var_loop P vs optional line a = var_loop Q ws optional' line' a'"
proof -
  from assms(5) have "var_loop P ws q l b = var_loop Q ws q l b" for q l b
    by (induction ws arbitrary: q l b) (auto intro!: obind_cong)
  with assms(1-4) show ?thesis by simp
qed

lemma or_loop_cong [fundef_cong]:
  assumes "vs = ws" "ltry = ltry'" "optional = optional'" "line = line'" "a = a'" "\<And>e q l b. e \<in> set ws \<Longrightarrow> P e q l b = Q e q l b"
  shows "or_loop P vs ltry optional line a = or_loop Q ws ltry' optional' line' a'"
proof -
  from assms(6) have "or_loop P ws t q l b = or_loop Q ws t q l b" for t q l b
    by (induction ws arbitrary: t q l b) (auto intro!: obind_cong)
  with assms(1-5) show ?thesis by simp
qed

lemma size_arg [termination_simp]: "e \<in> set args \<Longrightarrow> size e < size (YTerm s args)"
  using size_list_estimation' [of e args "size e" size] by auto

lemma size_choice [termination_simp]: "YList es \<in> set args \<Longrightarrow> e \<in> set es \<Longrightarrow> size e < size (YTerm s args)"
  using size_arg [of "YList es" args s] size_list_estimation' [of e es "size e" size] by simp

text \<open>
  \<^verbatim>\<open>parseData\<close>.  The first line fetches the next line of the file; the tests follow the order of the source, and a test of the number of arguments that
  fails goes on with the next one.
\<close>

definition next_line :: "any_ptr \<Rightarrow> 'c any_agent \<Rightarrow> (any_ptr \<times> 'c any_agent) outcome" where
  "next_line line a = (case line of None \<Rightarrow> getLine a | Some (n, s) \<Rightarrow> if s = [] then getLine a else Ret (line, a))"

record 'c any_lib =
  al_float :: float_io
  al_print :: "'c printers"

definition set_name :: "'c any_lib \<Rightarrow> 'c ycp \<Rightarrow> 'c any_agent \<Rightarrow> 'c any_agent" where
  "set_name L tn a =
     (if tn \<noteq> YNull \<and> tupleName a \<noteq> []
      then a\<lparr>tupleName := stack_set (case tn of YString s \<Rightarrow> s | _ \<Rightarrow> toString (al_print L) tn) (tupleName a)\<rparr> else a)"

definition set_value :: "'c ycp \<Rightarrow> 'c any_agent \<Rightarrow> 'c any_agent" where
  "set_value tv a =
     (if tv \<noteq> YNull \<and> tupleValue a \<noteq> [] then a\<lparr>tupleValue := stack_set tv (tupleValue a)\<rparr> else a)"

text \<open>The terms without parts that are read by \<^verbatim>\<open>parseData\<close>; \<^const>\<open>None\<close>: another term.\<close>

definition parse_basic :: "'c any_lib \<Rightarrow> string \<Rightarrow> 'c ycp list \<Rightarrow> bool \<Rightarrow> any_ptr \<Rightarrow> 'c any_agent \<Rightarrow> 'c any_result option" where
  "parse_basic L s args optional line a =
     (if s = ''Number'' then Some (at_line (parseNumber optional) line a)
      else if s = ''Hexval'' then Some (at_line (parseHexval optional) line a)
      else if s = ''Boolean'' then Some (at_line (parseBoolean optional) line a)
      else if s = ''Float'' then
        Some (case line of
            None \<Rightarrow> Undef
          | Some (n, t) \<Rightarrow> obind (parseFloat (al_float L) optional t) (\<lambda>(v, r). Ret (v, Some (n, r), a)))
      else if s = ''Ip4Number'' then Some (at_line (parseIp4Number optional) line a)
      else if s = ''Hostname'' then Some (at_line (parseHostname optional) line a)
      else if s = ''Username'' then Some (at_line (parseUsername optional) line a)
      else None)"

definition parse_chars :: "string \<Rightarrow> 'c ycp list \<Rightarrow> bool \<Rightarrow> any_ptr \<Rightarrow> 'c any_agent \<Rightarrow> 'c any_result option" where
  "parse_chars s args optional line a =
     (if s = ''Skip'' then Some (Ret (YVoid, line, a))
      else if s = ''Match'' then Some (Ret (currentMatch a, line, a))
      else if s = ''Separator'' \<and> length args = 1 then
        Some (with_string (args ! 0) (\<lambda>w. at_line (parseSeparator w optional) line a))
      else if s = ''Whitespace'' then Some (at_line (parseSeparator [CHR '' '', CHR 0x09] optional) line a)
      else if s = ''String'' \<and> args \<noteq> [] then
        Some (if length args = 1 then with_string (args ! 0) (\<lambda>w. at_line (parseString w None optional) line a)
              else if length args = 2 then
                with_string (args ! 0) (\<lambda>w. with_string (args ! 1) (\<lambda>st. at_line (parseString w (Some st) optional) line a))
              else Ret (YNull, line, a))
      else None)"

function parseData :: "'c any_lib \<Rightarrow> nat \<Rightarrow> 'c ycp \<Rightarrow> 'c any_parser" where
  "parseData L n syntax optional line0 a0 =
     obind (next_line line0 a0) (\<lambda>(line, a).
       if line = None then Ret (YNull, line, a)
       else case syntax of
         YTerm s args \<Rightarrow>
           if s = ''Optional'' \<and> args \<noteq> [] then
             obind (parseData L n (args ! 0) True line a) (\<lambda>(ov, line, a). Ret (if ov = YNull then YVoid else ov, line, a))
           else if s = ''Continue'' \<and> args \<noteq> [] then
             obind (parseData L n (args ! 0) False line a) (\<lambda>(tv, line, a).
               Ret (tv, line, if tv \<noteq> YNull then a\<lparr>tupleContinue := True\<rparr> else a))
           else if s = ''Choice'' \<and> args \<noteq> [] then parseChoice (\<lambda>e q l b. parseData L n e q l b) args optional line a
           else if s = ''Sequence'' \<and> args \<noteq> [] then parseSequence (\<lambda>e q l b. parseData L n e q l b) args optional line a
           else if s = ''List'' \<and> length args = 2 then
             parseList n (\<lambda>e q l b. parseData L n e q l b) (args ! 0) (args ! 1) [] optional line a
           else if s = ''Tuple'' \<and> args \<noteq> [] then tuple_term n (\<lambda>e q l b. parseData L n e q l b) args optional line a
           else if s = ''Var'' \<and> args \<noteq> [] then var_loop (\<lambda>e q l b. parseData L n e q l b) args optional line a
           else if s = ''Name'' \<and> length args = 1 then
             if \<not> mReadOnly a then Ret (YNull, line, a)
             else obind (parseData L n (args ! 0) False line a) (\<lambda>(tn, line, a). Ret (tn, line, set_name L tn a))
           else if s = ''Value'' \<and> length args = 1 then
             obind (parseData L n (args ! 0) False line a) (\<lambda>(tv, line, a). Ret (tv, line, set_value tv a))
           else if isFillup a \<and> s = ''Fillup'' \<and> args = [] \<and> tupleName a \<noteq> [] then parseFillup n line a
           else case parse_chars s args optional line a of
             Some r \<Rightarrow> r
           | None \<Rightarrow>
               if s = ''Or'' \<and> args \<noteq> [] then or_loop (\<lambda>e q l b. parseData L n e q l b) args line optional line a
               else case parse_basic L s args optional line a of
                 Some r \<Rightarrow> r
               | None \<Rightarrow>
                   if is_lower (first_char s) \<and> tupleName a \<noteq> [] \<and> length args = 1 then
                     if tupleValue a = [] then Undef
                     else obind (parseData L n (args ! 0) optional line (a\<lparr>tupleName := stack_set s (tupleName a)\<rparr>)) (\<lambda>(v, line, a).
                       if tupleValue a = [] then Undef else Ret (v, line, a\<lparr>tupleValue := stack_set v (tupleValue a)\<rparr>))
                   else Ret (YVoid, line, a)
       | YString m \<Rightarrow> at_line (parseVerbose (c_str m) optional) line a
       | _ \<Rightarrow> Ret (YNull, line, a))"
  by auto
termination
  by (relation "measure (\<lambda>(L, n, syntax, q, l, a). size syntax)") (auto intro: size_choice [simplified])

declare parseData.simps [simp del]

section \<open>Writing data\<close>

text \<open>
  The members are only read: what \<^verbatim>\<open>unparseData\<close> pushes on the stacks it pops again, and nothing looks at it.  The empty text is the failure.  Parts are written by \<open>U\<close>.
\<close>

definition skippable :: "'c ycp \<Rightarrow> bool" where
  "skippable e = (case e of YTerm s args \<Rightarrow> s = ''Skip'' \<or> s = ''Fillup'' | _ \<Rightarrow> False)"

fun unparse_elements :: "('c ycp \<Rightarrow> 'c ycp \<Rightarrow> string outcome) \<Rightarrow> 'c ycp \<Rightarrow> 'c ycp \<Rightarrow> 'c ycp list \<Rightarrow> string outcome" where
  "unparse_elements U e sep [] = Ret []"
| "unparse_elements U e sep (v # vs) =
     obind (U e v) (\<lambda>data.
       if data = [] then Ret []
       else if vs = [] then Ret data
       else obind (U sep YNull) (\<lambda>cont.
         if cont = [] \<and> sep = YNull then Undef
         else if cont = [] \<and> \<not> skippable sep then Ret []
         else obind (unparse_elements U e sep vs) (\<lambda>r. Ret (data @ cont @ r))))"

definition unparseList :: "('c ycp \<Rightarrow> 'c ycp \<Rightarrow> string outcome) \<Rightarrow> 'c ycp \<Rightarrow> 'c ycp \<Rightarrow> 'c ycp \<Rightarrow> string outcome" where
  "unparseList U e sep v = (case v of YList xs \<Rightarrow> unparse_elements U e sep xs | _ \<Rightarrow> Ret [])"

fun unparse_parts :: "('c ycp \<Rightarrow> 'c ycp \<Rightarrow> string outcome) \<Rightarrow> 'c ycp list \<Rightarrow> 'c ycp \<Rightarrow> string outcome" where
  "unparse_parts U [] v = Ret []"
| "unparse_parts U (e # es) v =
     obind (U e v) (\<lambda>data.
       if data = [] then
         if e = YNull then Undef else if skippable e then unparse_parts U es v else Ret []
       else obind (unparse_parts U es v) (\<lambda>r. Ret (data @ r)))"

definition unparseTuple :: "'c any_agent \<Rightarrow> ('c ycp \<Rightarrow> 'c ycp \<Rightarrow> string outcome) \<Rightarrow> 'c ycp list \<Rightarrow> 'c ycp \<Rightarrow> string outcome" where
  "unparseTuple a U syntax v =
     (case v of
        YMap m \<Rightarrow>
          let s = (if isFillup a then case ymap_value m (YString KEY4FILLUP) of YString f \<Rightarrow> f | _ \<Rightarrow> [] else []) in
          obind (unparse_parts U syntax v) (\<lambda>r. Ret (s @ r))
      | _ \<Rightarrow> Ret [])"

definition unparseChoice :: "'c ycp list \<Rightarrow> 'c ycp \<Rightarrow> string" where
  "unparseChoice syntax v = []"

definition unparseSequence :: "'c ycp list \<Rightarrow> 'c ycp \<Rightarrow> string" where
  "unparseSequence syntax v = []"

fun unparse_var :: "('c ycp \<Rightarrow> 'c ycp \<Rightarrow> string outcome) \<Rightarrow> 'c ycp list \<Rightarrow> 'c ycp \<Rightarrow> string outcome" where
  "unparse_var U [] v = Ret []"
| "unparse_var U (e # es) v = obind (U e v) (\<lambda>vdata. if vdata = [] then Ret [] else unparse_var U es v)"

lemma unparseList_cong [fundef_cong]:
  assumes "e = e'" "sep = sep'" "v = v'" "\<And>w. U e' w = V e' w" "\<And>w. U sep' w = V sep' w"
  shows "unparseList U e sep v = unparseList V e' sep' v'"
proof -
  from assms(4,5) have "unparse_elements U e' sep' xs = unparse_elements V e' sep' xs" for xs
    by (induction xs) (auto intro!: obind_cong)
  with assms(1-3) show ?thesis by (auto simp: unparseList_def split: ycp.splits)
qed

lemma unparseTuple_cong [fundef_cong]:
  assumes "a = a'" "es = es'" "v = v'" "\<And>e w. e \<in> set es' \<Longrightarrow> U e w = V e w"
  shows "unparseTuple a U es v = unparseTuple a' V es' v'"
proof -
  from assms(4) have "unparse_parts U es' w = unparse_parts V es' w" for w
    by (induction es') (auto intro!: obind_cong)
  with assms(1-3) show ?thesis by (auto simp: unparseTuple_def split: ycp.splits)
qed

lemma unparse_var_cong [fundef_cong]:
  assumes "es = es'" "v = v'" "\<And>e w. e \<in> set es' \<Longrightarrow> U e w = V e w"
  shows "unparse_var U es v = unparse_var V es' v'"
proof -
  from assms(3) have "unparse_var U es' w = unparse_var V es' w" for w
    by (induction es') (auto intro!: obind_cong)
  with assms(1,2) show ?thesis by simp
qed

definition unparse_chars :: "string \<Rightarrow> 'c ycp list \<Rightarrow> 'c ycp \<Rightarrow> string option" where
  "unparse_chars s args v =
     (if s = ''Separator'' \<and> length args = 1 then Some (unparseSeparator (args ! 0))
      else if s = ''Whitespace'' then Some (unparseSeparator (YString [CHR '' '', CHR 0x09] :: 'c ycp))
      else if s = ''Skip'' then Some []
      else if s = ''Fillup'' then Some []
      else if s = ''String'' \<and> args \<noteq> [] then
        Some (if length args = 1 then unparseString (args ! 0) YNull v
              else if length args = 2 then unparseString (args ! 0) (args ! 1) v else [])
      else None)"

text \<open>There is no \<^verbatim>\<open>Hexval\<close> among them.\<close>

definition unparse_basic :: "'c any_lib \<Rightarrow> string \<Rightarrow> 'c ycp \<Rightarrow> string option" where
  "unparse_basic L s v =
     (if s = ''Number'' then Some (unparseNumber v)
      else if s = ''Boolean'' then Some (unparseBoolean v)
      else if s = ''Float'' then Some (unparseFloat (al_float L) v)
      else if s = ''Ip4Number'' then Some (unparseIp4Number v)
      else if s = ''Hostname'' then Some (unparseHostname v)
      else if s = ''Username'' then Some (unparseUsername v)
      else None)"

function unparseData :: "'c any_lib \<Rightarrow> 'c any_agent \<Rightarrow> 'c ycp \<Rightarrow> 'c ycp \<Rightarrow> string outcome" where
  "unparseData L a syntax v =
     (case syntax of
        YTerm s args \<Rightarrow>
          if s = ''Optional'' \<and> args \<noteq> [] then unparseData L a (args ! 0) v
          else if s = ''Continue'' \<and> args \<noteq> [] then if tupleContinue a then unparseData L a (args ! 0) v else Ret []
          else if s = ''Choice'' \<and> args \<noteq> [] then Ret (unparseChoice args v)
          else if s = ''Sequence'' \<and> args \<noteq> [] then Ret (unparseSequence args v)
          else if s = ''List'' \<and> length args = 2 then unparseList (\<lambda>e w. unparseData L a e w) (args ! 0) (args ! 1) v
          else if s = ''Tuple'' \<and> args \<noteq> [] then unparseTuple a (\<lambda>e w. unparseData L a e w) args v
          else if s = ''Var'' \<and> args \<noteq> [] then unparse_var (\<lambda>e w. unparseData L a e w) args v
          else if s = ''Name'' \<and> length args = 1 then Ret []
          else if s = ''Value'' \<and> length args = 1 then unparseData L a (args ! 0) v
          else case unparse_chars s args v of
            Some r \<Rightarrow> Ret r
          | None \<Rightarrow>
              if s = ''Or'' \<and> length args = 2 then
                obind (unparseData L a (args ! 0) v) (\<lambda>vdata. if vdata \<noteq> [] then Ret vdata else unparseData L a (args ! 1) v)
              else case unparse_basic L s v of
                Some r \<Rightarrow> Ret r
              | None \<Rightarrow>
                  if is_lower (first_char s) \<and> length args = 1 then
                    case v of
                      YNull \<Rightarrow> Undef
                    | YMap m \<Rightarrow>
                        let w = ymap_value m (YString s) in if w = YNull then Ret [] else unparseData L a (args ! 0) w
                    | _ \<Rightarrow> Ret []
                  else Ret []
      | YString s \<Rightarrow> Ret (unparseVerbose syntax)
      | _ \<Rightarrow> Ret [])"
  by auto
termination
  by (relation "measure (\<lambda>(L, a, syntax, v). size syntax)") auto

declare unparseData.simps [simp del]

end
