(* ===== verification/Any_Agent.thy ===== *)
theory Any_Agent
  imports Any_Syntax SCR_Agents
begin

text \<open>
  The commands of the agent for any text file (\<^verbatim>\<open>agent-any/src/AnyAgent.cc\<close>) on a world of files: \<^verbatim>\<open>Description\<close>, \<^verbatim>\<open>Read\<close>, \<^verbatim>\<open>Write\<close> and
  \<^verbatim>\<open>Dir\<close>.

  A file has its text, its time and what \<^verbatim>\<open>fopen\<close> makes of it; what a program prints is a function of the command.  The text of a component of a path is
  taken to be there as long as the path is.
\<close>

section \<open>Files\<close>

datatype fopen_result = Opens | Not_permitted | Fails

record any_file =
  af_text :: string
  af_mtime :: int
  af_open :: fopen_result

record any_world =
  aw_files :: "string \<rightharpoonup> any_file"
  aw_stat_fails :: "string \<Rightarrow> bool"
  aw_writable :: "string \<Rightarrow> bool"
  aw_now :: int
  aw_run :: "string \<Rightarrow> string option"

text \<open>\<^verbatim>\<open>fgets\<close> into a buffer of 8192 bytes: up to the end of the line, at most 8191 characters; a NUL ends the text of the piece.\<close>

definition fgets_length :: "string \<Rightarrow> nat" where
  "fgets_length s = min 8191 (let k = length (takeWhile (\<lambda>c. c \<noteq> CHR 0x0A) s) in if k < length s then Suc k else k)"

function get_lines :: "string \<Rightarrow> string list" where
  "get_lines s = (if s = [] then [] else c_str (take (fgets_length s) s) # get_lines (drop (fgets_length s) s))"
  by auto
termination
  by (relation "measure length") (auto simp: fgets_length_def Let_def min_def takeWhile_eq_Nil_iff)

declare get_lines.simps [simp del]

section \<open>The description\<close>

definition an_new :: "bool \<Rightarrow> mtype \<Rightarrow> bool \<Rightarrow> int \<Rightarrow> 'c ycp \<Rightarrow> bool \<Rightarrow> 'c any_agent" where
  "an_new ro mt tc ln cm got =
     \<lparr>description_read = False, an_mtime = 0, cache = YNull, cchanged = True, alldata = None, achanged = True, mReadOnly = ro, mType = mt,
      mName = YNull, mComment = [], isFillup = False, mSyntax = YNull, mHeader = YNull, line_number = ln, tupleName = [], tupleValue = [],
      tupleContinue = tc, currentMatch = cm, got_anything = got\<rparr>"

definition source_type :: "string \<Rightarrow> mtype" where
  "source_type s =
     (if s = ''File'' then MTYPE_FILE else if s = ''Run'' then MTYPE_PROG else if s = ''Local'' then MTYPE_LOCAL else MTYPE_NONE)"

text \<open>\<^verbatim>\<open>File\<close>, \<^verbatim>\<open>Run\<close> or \<^verbatim>\<open>Local\<close> with its arguments; false: the command ends here.\<close>

definition describe_source :: "'c ycp \<Rightarrow> 'c any_agent \<Rightarrow> (bool \<times> 'c any_agent) outcome" where
  "describe_source v a =
     (let a = a\<lparr>mType := MTYPE_NONE\<rparr> in
      case v of
        YNull \<Rightarrow> Undef
      | YTerm s ts \<Rightarrow>
          if source_type s \<noteq> MTYPE_NONE \<and> ts \<noteq> [] then
            if length ts = 1 \<and> ts ! 0 = YNull then Undef
            else Ret (True, a\<lparr>mType := source_type s, mName := (if length ts = 1 \<and> isString (ts ! 0) then ts ! 0 else v)\<rparr>)
          else Ret (False, a)
      | _ \<Rightarrow> Ret (False, a))"

definition describe_comment :: "'c ycp \<Rightarrow> 'c any_agent \<Rightarrow> (bool \<times> 'c any_agent) outcome" where
  "describe_comment v a =
     (case v of
        YNull \<Rightarrow> Undef
      | YString s \<Rightarrow> Ret (True, a\<lparr>mComment := s\<rparr>)
      | YTerm s ts \<Rightarrow>
          (case ts of
             [YString c] \<Rightarrow> if s = ''Fillup'' then Ret (True, a\<lparr>isFillup := True, mComment := c\<rparr>) else Ret (False, a)
           | [YNull] \<Rightarrow> if s = ''Fillup'' then Undef else Ret (False, a)
           | _ \<Rightarrow> Ret (False, a))
      | _ \<Rightarrow> Ret (False, a))"

definition describe_readonly :: "'c ycp \<Rightarrow> 'c any_agent \<Rightarrow> 'c any_agent outcome" where
  "describe_readonly v a =
     (case v of
        YNull \<Rightarrow> Undef
      | YBoolean b \<Rightarrow> Ret (a\<lparr>mReadOnly := b \<or> mType a = MTYPE_PROG\<rparr>)
      | _ \<Rightarrow> Ret (a\<lparr>mReadOnly := True\<rparr>))"

definition any_otherCommand :: "string \<Rightarrow> 'c ycp list \<Rightarrow> 'c any_agent \<Rightarrow> ('c ycp \<times> 'c any_agent) outcome" where
  "any_otherCommand s args a =
     (if s = ''Description'' \<and> 4 \<le> length args then
        obind (describe_source (args ! 0) a) (\<lambda>(ok, a).
          if \<not> ok then Ret (YNull, a)
          else obind (describe_comment (args ! 1) a) (\<lambda>(ok, a).
            if \<not> ok then Ret (YNull, a)
            else obind (describe_readonly (args ! 2) a) (\<lambda>a.
              Ret (YVoid, a\<lparr>mSyntax := args ! 3, mHeader := (if 4 < length args then args ! 4 else YNull), description_read := True\<rparr>))))
      else Ret (YNull, a))"

section \<open>Reading files\<close>

text \<open>
  \<^verbatim>\<open>evalArg\<close>: the name made of the constants and of the arguments of the command.  The test of the index never holds, so an index out of range meets a null
  value.
\<close>

fun eval_parts :: "'c ycp list \<Rightarrow> 'c ycp list \<Rightarrow> string \<Rightarrow> string outcome" where
  "eval_parts l [] fullpath = Ret fullpath"
| "eval_parts l (t # ts) fullpath =
     (case t of
        YNull \<Rightarrow> Undef
      | YString s \<Rightarrow> eval_parts l ts (fullpath @ s)
      | YTerm n [YInteger i] \<Rightarrow>
          if n = ''arg'' then
            let ti = to_int32 i in
            if ti < 0 \<and> int (length l) \<le> ti then Ret []
            else case list_value l ti of
              YNull \<Rightarrow> Undef
            | YString s \<Rightarrow> eval_parts l ts (fullpath @ s)
            | _ \<Rightarrow> Ret []
          else Ret []
      | YTerm n [YNull] \<Rightarrow> if n = ''arg'' then Undef else Ret []
      | _ \<Rightarrow> Ret [])"

definition evalArg :: "'c any_agent \<Rightarrow> 'c ycp \<Rightarrow> string outcome" where
  "evalArg a arg =
     (case arg of
        YList l \<Rightarrow> (case mName a of YTerm n ts \<Rightarrow> eval_parts l ts [] | _ \<Rightarrow> Undef)
      | _ \<Rightarrow> Ret [])"

text \<open>The name, empty for a failure of \<^verbatim>\<open>evalArg\<close>; the flag tells that case from an empty constant.\<close>

definition source_name :: "'c any_agent \<Rightarrow> 'c ycp \<Rightarrow> (bool \<times> string) outcome" where
  "source_name a arg =
     (case mName a of
        YTerm n ts \<Rightarrow> obind (evalArg a arg) (\<lambda>s. Ret (s \<noteq> [], s))
      | YString s \<Rightarrow> Ret (True, s)
      | _ \<Rightarrow> Undef)"

definition take_lines :: "string \<Rightarrow> int \<Rightarrow> 'c any_agent \<Rightarrow> 'c any_agent" where
  "take_lines s t a = a\<lparr>an_mtime := t, alldata := Some (map YString (get_lines s)), achanged := False\<rparr>"

text \<open>The result is the list of lines, or nothing.\<close>

definition any_readFile :: "any_world \<Rightarrow> 'c ycp \<Rightarrow> 'c any_agent \<Rightarrow> ('c ycp list option \<times> 'c any_agent) outcome" where
  "any_readFile W arg a =
     obind (source_name a arg) (\<lambda>(ok, ss).
       if \<not> ok then Ret (None, a)
       else if mType a = MTYPE_PROG then
         (case aw_run W (c_str ss) of
            None \<Rightarrow> Ret (None, a)
          | Some t \<Rightarrow> let a = take_lines t 0 a in Ret (alldata a, a))
       else if aw_stat_fails W (c_str ss) then Ret (None, a\<lparr>an_mtime := 0\<rparr>)
       else case aw_files W (c_str ss) of
         None \<Rightarrow> Ret (Some [], a\<lparr>an_mtime := 0\<rparr>)
       | Some f \<Rightarrow>
           if af_mtime f = an_mtime a then Ret (alldata a, a)
           else case af_open f of
             Not_permitted \<Rightarrow> Ret (Some [], a)
           | Fails \<Rightarrow> Ret (None, a)
           | Opens \<Rightarrow> let a = take_lines (af_text f) (af_mtime f) a in Ret (alldata a, a))"

definition any_parse_lines :: "'c any_lib \<Rightarrow> nat \<Rightarrow> 'c any_agent \<Rightarrow> ('c ycp \<times> 'c any_agent) outcome" where
  "any_parse_lines L n a =
     obind (parseData L n (mSyntax a) False (Some (- 1, [])) (a\<lparr>cchanged := True, line_number := - 1\<rparr>)) (\<lambda>(v, line, a).
       Ret (v, if v \<noteq> YNull then a\<lparr>cache := v, cchanged := False\<rparr> else a))"

definition validateCache :: "'c any_lib \<Rightarrow> nat \<Rightarrow> any_world \<Rightarrow> 'c ycp list option \<Rightarrow> 'c ycp \<Rightarrow> 'c any_agent \<Rightarrow> ('c ycp \<times> 'c any_agent) outcome" where
  "validateCache L n W data arg a =
     (case data of
        None \<Rightarrow> obind (any_readFile W arg a) (\<lambda>(filedata, a).
          case filedata of None \<Rightarrow> Ret (YNull, a) | Some d \<Rightarrow> any_parse_lines L n (a\<lparr>alldata := Some d\<rparr>))
      | Some d \<Rightarrow> if \<not> cchanged a then Ret (cache a, a) else any_parse_lines L n (a\<lparr>alldata := Some d\<rparr>))"

section \<open>Parts of a value\<close>

definition path_strings :: "scr_path \<Rightarrow> string list" where
  "path_strings p = map component p"

text \<open>\<^verbatim>\<open>readValueByPath\<close>.  The methods are called on the value before, which may be null.\<close>

fun readValueByPath :: "'c ycp \<Rightarrow> string list \<Rightarrow> 'c ycp outcome" where
  "readValueByPath v [] = Ret v"
| "readValueByPath v (k # ks) =
     (let s = c_str k in
      if v = YNull then Undef
      else if is_digit (first_char s) then
        (case v of
           YList xs \<Rightarrow>
             if atoi_digits s < 0 \<or> int (length xs) < atoi_digits s then Ret YVoid else readValueByPath (list_value xs (atoi_digits s)) ks
         | YMap m \<Rightarrow>
             let w = ymap_value m (YString s) in if w = YNull then Ret YVoid else readValueByPath w ks
         | _ \<Rightarrow> readValueByPath v ks)
      else case v of
        YMap m \<Rightarrow> readValueByPath (ymap_value m (YString s)) ks
      | _ \<Rightarrow> Ret YVoid)"

text \<open>\<^verbatim>\<open>findSyntax\<close>: the description of a part.  A tuple without the element stays as it is.\<close>

fun nth_element :: "int \<Rightarrow> 'c ycp list \<Rightarrow> 'c ycp \<Rightarrow> 'c ycp outcome" where
  "nth_element tnum [] cur = Ret cur"
| "nth_element tnum (v # vs) cur =
     (case v of
        YNull \<Rightarrow> Undef
      | YTerm n ts \<Rightarrow>
          if is_lower (first_char n) \<and> ts \<noteq> [] then if tnum = 0 then Ret (hd ts) else nth_element (tnum - 1) vs cur
          else nth_element tnum vs cur
      | _ \<Rightarrow> nth_element tnum vs cur)"

fun named_element :: "string \<Rightarrow> 'c ycp list \<Rightarrow> 'c ycp \<Rightarrow> 'c ycp outcome" where
  "named_element p [] cur = Ret cur"
| "named_element p (v # vs) cur =
     (case v of
        YNull \<Rightarrow> Undef
      | YTerm n ts \<Rightarrow> if p = n \<and> ts \<noteq> [] then Ret (hd ts) else named_element p vs cur
      | _ \<Rightarrow> named_element p vs cur)"

definition syntax_step :: "'c ycp \<Rightarrow> string \<Rightarrow> 'c ycp outcome" where
  "syntax_step cur p =
     (case cur of
        YTerm s ts \<Rightarrow>
          if s = p \<and> ts \<noteq> [] then Ret (hd ts)
          else if s = ''Tuple'' \<and> ts \<noteq> [] then
            if is_digit (first_char p) then nth_element (atoi_digits (c_str p)) ts cur else named_element p ts cur
          else if s = ''List'' \<and> ts \<noteq> [] \<and> is_digit (first_char p) then Ret (hd ts)
          else Ret YNull
      | YString s \<Rightarrow> Ret cur
      | _ \<Rightarrow> Ret YNull)"

fun findSyntax_from :: "'c ycp \<Rightarrow> string list \<Rightarrow> 'c ycp outcome" where
  "findSyntax_from cur [] = Ret cur"
| "findSyntax_from cur (p # ps) = (if cur = YNull then Ret YNull else obind (syntax_step cur p) (\<lambda>c. findSyntax_from c ps))"

definition findSyntax :: "'c ycp \<Rightarrow> scr_path \<Rightarrow> 'c ycp outcome" where
  "findSyntax s p = (if s = YNull then Undef else findSyntax_from s (path_strings p))"

section \<open>Commands\<close>

definition raw_line :: "string list \<Rightarrow> int option" where
  "raw_line ks = (case ks of [u, k] \<Rightarrow> if is_digit (first_char k) then Some (atoi_digits (c_str k)) else None | _ \<Rightarrow> None)"

definition any_Read :: "'c any_lib \<Rightarrow> nat \<Rightarrow> scr_path \<Rightarrow> 'c ycp \<Rightarrow> 'c ycp \<Rightarrow> 'c any_agent \<times> any_world \<Rightarrow> ('c ycp \<times> 'c any_agent \<times> any_world) outcome" where
  "any_Read L n path arg opt st =
     (case st of (a, W) \<Rightarrow>
        if \<not> description_read a then Ret (YVoid, a, W)
        else obind (validateCache L n W None arg a) (\<lambda>(v, a).
          if v = YNull then Ret (YNull, a, W)
          else case path_strings path of
            [] \<Rightarrow> Ret (v, a, W)
          | k # ks \<Rightarrow>
              if k = ''_'' then
                if ks = [] then Ret (case alldata a of None \<Rightarrow> YNull | Some d \<Rightarrow> YList d, a, W)
                else case (raw_line (k # ks), alldata a) of
                  (Some num, Some d) \<Rightarrow>
                    if num < 0 \<or> int (length d) < num then Ret (YVoid, a, W) else Ret (list_value d num, a, W)
                | (Some num, None) \<Rightarrow> Undef
                | (None, _) \<Rightarrow> Ret (YVoid, a, W)
              else obind (readValueByPath v (k # ks)) (\<lambda>w. Ret (w, a, W))))"

text \<open>The lines with one of them replaced, or with one more.\<close>

definition replace_line :: "'c ycp list \<Rightarrow> int \<Rightarrow> 'c ycp \<Rightarrow> 'c ycp list" where
  "replace_line d num v = (if num = int (length d) then d @ [v] else map (\<lambda>i. if int i = num then v else d ! i) [0..<length d])"

definition raw_Write :: "'c any_lib \<Rightarrow> nat \<Rightarrow> string list \<Rightarrow> 'c ycp \<Rightarrow> 'c any_agent \<times> any_world \<Rightarrow> ('c ycp \<times> 'c any_agent \<times> any_world) outcome" where
  "raw_Write L n ks v st =
     (case st of (a, W) \<Rightarrow>
        let validated = (\<lambda>d. obind (validateCache L n W (Some d) YNull a) (\<lambda>(r, a). Ret (YBoolean (r \<noteq> YNull), a, W))) in
        if length ks = 1 \<and> isList v then (case v of YList d \<Rightarrow> validated d | _ \<Rightarrow> Undef)
        else case raw_line ks of
          None \<Rightarrow> Ret (YBoolean False, a, W)
        | Some num \<Rightarrow>
            if \<not> isString v \<or> num < 0 then Ret (YBoolean False, a, W)
            else case alldata a of None \<Rightarrow> Undef | Some d \<Rightarrow> validated (replace_line d num v))"

definition any_open_write :: "string \<Rightarrow> string \<Rightarrow> any_world \<Rightarrow> any_world" where
  "any_open_write fname s W =
     W\<lparr>aw_files := (aw_files W)(fname \<mapsto>
         \<lparr>af_text = c_str s @ [CHR 0x0A], af_mtime = aw_now W, af_open = (case aw_files W fname of None \<Rightarrow> Opens | Some f \<Rightarrow> af_open f)\<rparr>)\<rparr>"

definition any_Write :: "'c any_lib \<Rightarrow> nat \<Rightarrow> scr_path \<Rightarrow> 'c ycp \<Rightarrow> 'c ycp \<Rightarrow> 'c any_agent \<times> any_world \<Rightarrow> ('c ycp \<times> 'c any_agent \<times> any_world) outcome" where
  "any_Write L n path v arg st =
     (case st of (a, W) \<Rightarrow>
        if \<not> description_read a then Ret (YBoolean False, a, W)
        else if v = YNull then Undef
        else if mReadOnly a then Ret (YBoolean False, a, W)
        else if path \<noteq> [] \<and> hd (path_strings path) = ''_'' then raw_Write L n (path_strings path) v (a, W)
        else obind (findSyntax (mSyntax a) path) (\<lambda>syntax.
          if syntax = YNull then Ret (YBoolean False, a, W)
          else obind (unparseData L a syntax v) (\<lambda>s.
            if s = [] then Ret (YBoolean False, a, W)
            else obind (source_name a arg) (\<lambda>(ok, fname).
              if \<not> ok \<or> \<not> aw_writable W (c_str fname) then Ret (YBoolean False, a, W)
              else Ret (YBoolean True, a, any_open_write (c_str fname) s W)))))"

definition any_Dir :: "scr_path \<Rightarrow> 'c any_agent \<times> any_world \<Rightarrow> ('c ycp \<times> 'c any_agent \<times> any_world) outcome" where
  "any_Dir path st = (case st of (a, W) \<Rightarrow> Ret (if \<not> description_read a then YNull else YList [mSyntax a], a, W))"

text \<open>The agent as the repository sees it.\<close>

definition any_scr_agent :: "'c any_lib \<Rightarrow> nat \<Rightarrow> ('c, 'c any_agent \<times> any_world) scr_agent" where
  "any_scr_agent L n =
     (base_agent (any_Read L n) (any_Write L n) any_Dir)
     \<lparr>v_otherCommand := (\<lambda>s args (a, W). obind (any_otherCommand s args a) (\<lambda>(v, a). Ret (v, a, W)))\<rparr>"

end
