(* ===== verification/Any_Laws.thy ===== *)
theory Any_Laws
  imports Any_Agent
begin

text \<open>
  What every run of \<^const>\<open>parseData\<close> keeps: the settings of the agent, the stacks below their top, and that no text comes back.  From this: a description
  whose loops read something in every round ends on every file, with as much fuel as there are characters.
\<close>

section \<open>What is left\<close>

definition line_text :: "'c ycp \<Rightarrow> string" where
  "line_text v = (case v of YString s \<Rightarrow> c_str s | _ \<Rightarrow> [])"

definition text_after :: "'c any_agent \<Rightarrow> nat" where
  "text_after a = (case alldata a of None \<Rightarrow> 0 | Some d \<Rightarrow> sum_list (map (length \<circ> line_text) (drop (nat (line_number a + 1)) d)))"

definition room :: "any_ptr \<Rightarrow> 'c any_agent \<Rightarrow> nat" where
  "room l a = (case l of None \<Rightarrow> 0 | Some (n, s) \<Rightarrow> length s) + text_after a"

text \<open>The members that reading does not change.\<close>

definition settings :: "'c any_agent \<Rightarrow> 'c any_agent" where
  "settings a = a\<lparr>line_number := 0, tupleName := [], tupleValue := [], tupleContinue := False, currentMatch := YNull, got_anything := False\<rparr>"

definition later :: "'c any_agent \<Rightarrow> 'c any_agent \<Rightarrow> bool" where
  "later a a' \<longleftrightarrow> settings a' = settings a \<and> line_number a \<le> line_number a'
     \<and> length (tupleName a') = length (tupleName a) \<and> tl (tupleName a') = tl (tupleName a)
     \<and> length (tupleValue a') = length (tupleValue a) \<and> tl (tupleValue a') = tl (tupleValue a)"

definition ready :: "'c any_agent \<Rightarrow> bool" where
  "ready a \<longleftrightarrow> nul_free (mComment a) \<and> length (tupleName a) = length (tupleValue a) \<and> - 1 \<le> line_number a"

lemma later_refl [simp, intro]: "later a a"
  by (simp add: later_def)

lemma later_trans [trans]: "later a b \<Longrightarrow> later b c \<Longrightarrow> later a c"
  by (auto simp: later_def)

lemma settings_fields:
  "settings a' = settings a \<Longrightarrow> alldata a' = alldata a \<and> mComment a' = mComment a \<and> isFillup a' = isFillup a \<and> mReadOnly a' = mReadOnly a \<and> mSyntax a' = mSyntax a"
  by (cases a; cases a') (simp add: settings_def)

lemma settings_updates [simp]:
  "settings (a\<lparr>line_number := i\<rparr>) = settings a" "settings (a\<lparr>tupleName := ns\<rparr>) = settings a" "settings (a\<lparr>tupleValue := vs\<rparr>) = settings a"
  "settings (a\<lparr>tupleContinue := c\<rparr>) = settings a" "settings (a\<lparr>currentMatch := v\<rparr>) = settings a" "settings (a\<lparr>got_anything := g\<rparr>) = settings a"
  by (simp_all add: settings_def)

lemma later_ready: "later a a' \<Longrightarrow> ready a \<Longrightarrow> ready a'"
  using settings_fields [of a' a] by (auto simp: later_def ready_def)

lemma text_after_cong [simp]:
  "text_after (a\<lparr>tupleName := ns\<rparr>) = text_after a" "text_after (a\<lparr>tupleValue := vs\<rparr>) = text_after a" "text_after (a\<lparr>tupleContinue := c\<rparr>) = text_after a"
  "text_after (a\<lparr>currentMatch := v\<rparr>) = text_after a" "text_after (a\<lparr>got_anything := g\<rparr>) = text_after a"
  by (simp_all add: text_after_def split: option.split)

lemma room_cong [simp]:
  "room l (a\<lparr>tupleName := ns\<rparr>) = room l a" "room l (a\<lparr>tupleValue := vs\<rparr>) = room l a" "room l (a\<lparr>tupleContinue := c\<rparr>) = room l a"
  "room l (a\<lparr>currentMatch := v\<rparr>) = room l a" "room l (a\<lparr>got_anything := g\<rparr>) = room l a"
  by (simp_all add: room_def)

lemma later_update [simp]:
  "later b (a\<lparr>tupleContinue := c\<rparr>) = later b a" "later b (a\<lparr>currentMatch := v\<rparr>) = later b a" "later b (a\<lparr>got_anything := g\<rparr>) = later b a"
  "later (a\<lparr>tupleContinue := c\<rparr>) b = later a b" "later (a\<lparr>currentMatch := v\<rparr>) b = later a b"
  by (simp_all add: later_def)

lemma ready_update [simp]: "ready (a\<lparr>tupleContinue := c\<rparr>) = ready a" "ready (a\<lparr>currentMatch := v\<rparr>) = ready a"
  by (simp_all add: ready_def)

lemma text_after_later:
  fixes a a' :: "'c any_agent"
  assumes "later a a'" "- 1 \<le> line_number a"
  shows "text_after a' \<le> text_after a"
proof -
  have le: "sum_list (map f (drop j d)) \<le> sum_list (map f (drop i d))" if "i \<le> j" for i j and d :: "'c ycp list" and f :: "'c ycp \<Rightarrow> nat"
  proof -
    have "drop j d = drop (j - i) (drop i d)" using that by simp
    then have "sum_list (map f (drop i d)) = sum_list (map f (take (j - i) (drop i d))) + sum_list (map f (drop j d))"
      by (metis append_take_drop_id map_append sum_list_append)
    then show ?thesis by simp
  qed
  from assms settings_fields [of a' a] have "nat (line_number a + 1) \<le> nat (line_number a' + 1)" "alldata a' = alldata a"
    by (auto simp: later_def intro: nat_mono)
  from le [OF this(1)] this(2) show ?thesis by (simp add: text_after_def split: option.split)
qed

lemma room_later: "later a a' \<Longrightarrow> - 1 \<le> line_number a \<Longrightarrow> room l a' \<le> room l a"
  using text_after_later by (simp add: room_def)

lemma getLine_keeps:
  "ready a \<Longrightarrow> getLine a \<noteq> OutOfFuel \<and> (\<forall>l a'. getLine a = Ret (l, a') \<longrightarrow> later a a' \<and> room l a' \<le> text_after a \<and> tupleContinue a' = tupleContinue a)"
proof (induction a rule: getLine.induct)
  case (1 a)
  show ?case
  proof (cases "alldata a")
    case None
    then show ?thesis by (subst (1 2) getLine.simps) (simp add: room_def)
  next
    case (Some d)
    let ?b = "a\<lparr>line_number := line_number a + 1\<rparr>"
    have b: "later a ?b" "ready ?b" using "1.prems" by (auto simp: later_def ready_def)
    have tb: "text_after ?b \<le> text_after a" by (rule text_after_later) (use b "1.prems" in \<open>auto simp: ready_def\<close>)
    show ?thesis
    proof (cases "int (length d) \<le> line_number ?b")
      case True
      with Some b tb show ?thesis by (subst (1 2) getLine.simps) (auto simp: room_def Let_def)
    next
      case False
      show ?thesis
      proof (cases "list_value d (line_number ?b)")
        case (YString s)
        show ?thesis
        proof (cases "(is_comment ?b s \<and> \<not> isFillup ?b) \<or> c_str s = []")
          case True
          then have "getLine a = getLine ?b" using Some False YString by (subst getLine.simps) (auto simp: Let_def)
          moreover have "getLine ?b \<noteq> OutOfFuel \<and> (\<forall>l a'. getLine ?b = Ret (l, a') \<longrightarrow> later ?b a' \<and> room l a' \<le> text_after ?b \<and> tupleContinue a' = tupleContinue ?b)"
            using "1.IH" [OF Some refl False YString] b(2) True by blast
          moreover have "tupleContinue ?b = tupleContinue a" by simp
          ultimately show ?thesis using b(1) tb by (metis later_trans le_trans)
        next
          case False2: False
          then have g: "getLine a = Ret (Some (line_number ?b, c_str s), ?b\<lparr>got_anything := True\<rparr>)"
            using Some False YString by (subst getLine.simps) (auto simp: Let_def)
          have i: "nat (line_number a + 1) < length d" "d ! nat (line_number a + 1) = YString s"
            using False YString "1.prems" by (auto simp: list_value_def ready_def split: if_splits)
          then have "text_after a = length (c_str s) + text_after ?b"
            using Some "1.prems" Cons_nth_drop_Suc [OF i(1), symmetric]
            by (simp add: text_after_def line_text_def ready_def Suc_nat_eq_nat_zadd1 add.commute)
          then show ?thesis using g b by (simp add: room_def)
        qed
      qed (use Some False in \<open>subst (1 2) getLine.simps, simp\<close>)+
    qed
  qed
qed

section \<open>What reading keeps\<close>

text \<open>\<open>c\<close>: whether there may be a \<^verbatim>\<open>Continue\<close>, which is only set after something was read.\<close>

definition moved :: "bool \<Rightarrow> any_ptr \<Rightarrow> 'c any_agent \<Rightarrow> any_ptr \<Rightarrow> 'c any_agent \<Rightarrow> bool" where
  "moved c l a l' a' \<longleftrightarrow> later a a' \<and> room l' a' \<le> room l a \<and> (tupleContinue a' \<longrightarrow> tupleContinue a \<or> c \<and> room l' a' < room l a)"

definition behaves :: "bool \<Rightarrow> nat \<Rightarrow> any_ptr \<Rightarrow> 'c any_agent \<Rightarrow> ('v \<times> any_ptr \<times> 'c any_agent) outcome \<Rightarrow> bool" where
  "behaves c n l a r \<longleftrightarrow> (room l a < n \<longrightarrow> r \<noteq> OutOfFuel) \<and> (\<forall>v l' a'. r = Ret (v, l', a') \<longrightarrow> moved c l a l' a')"

lemma moved_refl [simp, intro]: "moved c l a l a"
  by (simp add: moved_def)

lemma moved_trans [trans]: "moved c l a l' a' \<Longrightarrow> moved c l' a' l'' a'' \<Longrightarrow> moved c l a l'' a''"
  unfolding moved_def using later_trans by fastforce

lemma moved_ready: "moved c l a l' a' \<Longrightarrow> ready a \<Longrightarrow> ready a'"
  using later_ready by (auto simp: moved_def)

lemma moved_mono: "moved c l a l' a' \<Longrightarrow> (c \<Longrightarrow> d) \<Longrightarrow> moved d l a l' a'"
  by (auto simp: moved_def)

lemma behaves_mono: "behaves c n l a r \<Longrightarrow> (c \<Longrightarrow> d) \<Longrightarrow> behaves d n l a r"
  by (auto simp: behaves_def intro: moved_mono)

lemma behaves_Ret [simp]: "behaves c n l a (Ret (v, l', a')) \<longleftrightarrow> moved c l a l' a'"
  by (auto simp: behaves_def)

lemma behaves_Undef [simp]: "behaves c n l a Undef"
  by (simp add: behaves_def)

lemma behaves_from:
  assumes "moved c l a l' a'" "behaves c n l' a' r"
  shows "behaves c n l a r"
proof -
  have "room l' a' \<le> room l a" using assms(1) by (simp add: moved_def)
  with assms(2) show ?thesis using moved_trans [OF assms(1)] unfolding behaves_def by auto
qed

lemma behaves_bind:
  assumes "behaves c n l a r" "\<And>v l' a'. r = Ret (v, l', a') \<Longrightarrow> moved c l a l' a' \<Longrightarrow> behaves c n l' a' (f v l' a')"
  shows "behaves c n l a (obind r (\<lambda>(v, l, a). f v l a))"
proof (cases r)
  case (Ret x)
  obtain v l' a' where x: "x = (v, l', a')" by (cases x) auto
  with assms(1) Ret have "moved c l a l' a'" by simp
  with behaves_from [OF this assms(2)] Ret x show ?thesis by simp
qed (use assms(1) in \<open>auto simp: behaves_def\<close>)

lemma next_line_keeps:
  assumes "ready a"
  shows "next_line l a \<noteq> OutOfFuel" "next_line l a = Ret (l', a') \<Longrightarrow> moved c l a l' a'"
proof -
  have "room l a \<ge> text_after a" by (simp add: room_def)
  with getLine_keeps [OF assms] show "next_line l a \<noteq> OutOfFuel" "next_line l a = Ret (l', a') \<Longrightarrow> moved c l a l' a'"
    by (force simp: next_line_def moved_def split: option.splits prod.splits if_splits)+
qed

subsection \<open>Basic types\<close>

definition leaves_less :: "(string \<Rightarrow> 'v \<times> string) \<Rightarrow> bool" where
  "leaves_less p \<longleftrightarrow> (\<forall>s. length (snd (p s)) \<le> length s)"

lemma at_line_behaves: "leaves_less p \<Longrightarrow> behaves c n l a (at_line p l a)"
  by (auto simp: at_line_def leaves_less_def moved_def room_def split: option.split prod.split) (metis snd_conv)

lemma ip4_loop_shrinks: "length (snd (ip4_loop k num s)) \<le> length s"
proof (induction k num s rule: ip4_loop.induct)
  case (2 k num s)
  have "length (dropWhile is_digit s) \<le> length s" by (rule length_dropWhile_le)
  with 2 show ?case by (fastforce simp: Let_def)
qed simp

lemma hexval_loop_shrinks: "length (snd (hexval_loop num s)) \<le> length s"
  by (induction num s rule: hexval_loop.induct) (auto split: option.split)

lemma hostname_rest_shrinks: "length (hostname_rest s) \<le> length s"
  by (induction s) auto

lemma basic_shrinks:
  "leaves_less (parseIp4Number q)" "leaves_less (parseBoolean q)" "leaves_less (parseNumber q)" "leaves_less (parseHexval q)" "leaves_less (parseString cset st q)"
  "leaves_less (parseHostname q)" "leaves_less (parseUsername q)" "leaves_less (parseVerbose w q)" "leaves_less (parseSeparator w q)"
proof -
  have "length (snd (case hexval_loop 0 r of (num, r) \<Rightarrow> (YInteger num, r))) \<le> length s" if "length r \<le> length s" for r s
    using hexval_loop_shrinks [of 0 r] that by (cases "hexval_loop 0 r") auto
  from this [of "drop 2 s" s for s] this [of s s for s] show "leaves_less (parseHexval q)"
    unfolding leaves_less_def parseHexval_def Let_def by auto
qed (auto simp: leaves_less_def any_basic_defs Let_def ip4_loop_shrinks hostname_rest_shrinks length_dropWhile_le)

text \<open>The terms that read something whenever they do not fail, when they are not optional.\<close>

definition shrinks_more :: "(string \<Rightarrow> 'c ycp \<times> string) \<Rightarrow> bool" where
  "shrinks_more p \<longleftrightarrow> (\<forall>s v r. p s = (v, r) \<longrightarrow> v \<noteq> YNull \<longrightarrow> length r < length s)"

lemma dropWhile_shorter: "s \<noteq> [] \<Longrightarrow> P (hd s) \<Longrightarrow> length (dropWhile P s) < length s"
  by (cases s) (auto simp: le_imp_less_Suc length_dropWhile_le)

lemma hexval_shrinks_more: "shrinks_more (parseHexval q :: string \<Rightarrow> 'c ycp \<times> string)"
  unfolding shrinks_more_def
proof (intro allI impI)
  fix s r and v :: "'c ycp"
  assume p: "parseHexval q s = (v, r)" "v \<noteq> YNull"
  then have x: "starts is_xdigit s" by (auto simp: parseHexval_def split: if_splits)
  then obtain c t where s: "s = c # t" "is_xdigit c" by (cases s) auto
  then have "length (snd (hexval_loop 0 s)) < length s"
    using hexval_loop_shrinks [of "word_of_int (int (digit_val c))" t] by (simp add: hexval_digit le_imp_less_Suc)
  moreover have "length (snd (hexval_loop 0 (drop 2 s))) < length s"
    using hexval_loop_shrinks [of 0 "drop 2 s"] s by simp
  ultimately show "length r < length s"
    using p x by (auto simp: parseHexval_def Let_def split: if_splits prod.splits)
qed

lemma hostname_shrinks_more: "shrinks_more (parseHostname q :: string \<Rightarrow> 'c ycp \<times> string)"
  unfolding shrinks_more_def
proof (intro allI impI)
  fix s r and v :: "'c ycp"
  assume p: "parseHostname q s = (v, r)" "v \<noteq> YNull"
  then obtain c t where "s = c # t" "is_alpha c" "r = hostname_rest s" by (cases s) (auto simp: parseHostname_def Let_def split: if_splits)
  then show "length r < length s" using hostname_rest_shrinks [of t] by (simp add: is_alnum_def le_imp_less_Suc)
qed

lemma basic_shrinks_more:
  "shrinks_more (parseBoolean q)" "shrinks_more (parseNumber q)" "shrinks_more (parseUsername q)"
  "w \<noteq> [] \<Longrightarrow> shrinks_more (parseVerbose w False)" "shrinks_more (parseSeparator w False)" "set_chars cset \<noteq> [] \<Longrightarrow> shrinks_more (parseString cset st q)"
proof -
  show "shrinks_more (parseBoolean q)" unfolding shrinks_more_def
    by (auto simp: parseBoolean_def strncmp_eq_def split: if_splits dest!: arg_cong [of _ _ length])
  show "shrinks_more (parseNumber q)" "shrinks_more (parseUsername q)" unfolding shrinks_more_def
    by (auto simp: parseNumber_def parseUsername_def starts_def is_alnum_def split: if_splits intro!: dropWhile_shorter)
  show "shrinks_more (parseVerbose w False)" if "w \<noteq> []" unfolding shrinks_more_def
  proof (intro allI impI)
    fix s v r
    assume "parseVerbose w False s = (v, r)" "v \<noteq> YNull"
    then have "take (length w) s = w" "r = drop (length w) s" by (auto simp: parseVerbose_def strncmp_eq_def split: if_splits)
    with that show "length r < length s" by (cases s) auto
  qed
  show "shrinks_more (parseSeparator w False)" unfolding shrinks_more_def
    by (auto simp: parseSeparator_def Let_def takeWhile_eq_Nil_iff split: if_splits intro!: dropWhile_shorter)
  show "shrinks_more (parseString cset st q)" if "set_chars cset \<noteq> []" using that unfolding shrinks_more_def
    by (auto simp: parseString_def Let_def takeWhile_eq_Nil_iff split: if_splits intro!: dropWhile_shorter)
qed

subsection \<open>Constructs\<close>

lemma choice_loop_behaves:
  assumes "\<And>v es e q l a. v \<in> set vs \<Longrightarrow> v = YList es \<Longrightarrow> e \<in> set es \<Longrightarrow> ready a \<Longrightarrow> behaves False n l a (P e q l a)" "ready a"
  shows "behaves False n l a (choice_loop P vs q l a)"
  using assms
proof (induction vs arbitrary: a)
  case (Cons v vs)
  have IH: "behaves False n l b (choice_loop P vs q l b)" if "ready b" for b
    by (rule Cons.IH [OF Cons.prems(1) that]) auto
  show ?case
  proof (cases v)
    case (YList es)
    show ?thesis
    proof (cases "es = [] \<or> 2 < length es")
      case False
      have p: "behaves False n l' b (P (es ! i) q' l' b)" if "i < length es" "ready b" for i b q' l'
        by (rule Cons.prems(1) [of v es]) (use YList that in auto)
      let ?act = "if 1 < length es then es ! 1 else YNull"
      let ?f = "\<lambda>m t a. let a = a\<lparr>currentMatch := m\<rparr>; action = ?act in
            if m \<noteq> YNull then if action \<noteq> YNull then P action q t a else Ret (m, t, a) else choice_loop P vs q l a"
      have f: "behaves False n l a (?f m t b)" if r: "P (es ! 0) False l a = Ret (m, t, b)" for m t b
      proof -
        have mv: "moved False l a t b" using p [of 0 a l False] False Cons.prems(2) r by auto
        then have b: "ready b" using moved_ready Cons.prems(2) by blast
        have "moved False l a l b" using mv room_later [of a b l] Cons.prems(2) by (auto simp: moved_def ready_def)
        then have stay: "moved False l a l (b\<lparr>currentMatch := m\<rparr>)" by (simp add: moved_def)
        from mv have go: "moved False l a t (b\<lparr>currentMatch := m\<rparr>)" by (simp add: moved_def)
        from b have "ready (b\<lparr>currentMatch := m\<rparr>)" by simp
        with behaves_from [OF stay IH] behaves_from [OF go p [of 1]] go show ?thesis by (auto simp: Let_def)
      qed
      have "P (es ! 0) False l a \<noteq> OutOfFuel" if "room l a < n" using p [of 0 a l False] that False Cons.prems(2) by (auto simp: behaves_def)
      with f have "behaves False n l a (obind (P (es ! 0) False l a) (\<lambda>(m, t, a). ?f m t a))"
        by (cases "P (es ! 0) False l a") (auto simp: behaves_def)
      with YList False show ?thesis by simp
    qed (use YList in auto)
  qed auto
qed simp

lemma sequence_loop_behaves:
  assumes "\<And>e q l a. e \<in> set es \<Longrightarrow> ready a \<Longrightarrow> behaves c n l a (P e q l a)" "ready a"
  shows "behaves c n l a (sequence_loop P es q l a)"
  using assms
proof (induction es arbitrary: l a)
  case (Cons e es)
  show ?case
    unfolding sequence_loop.simps
    by (rule behaves_bind) (use Cons moved_ready in \<open>auto intro!: Cons.IH\<close>)
qed simp

lemma parseSequence_behaves:
  assumes "\<And>e q l a. e \<in> set es \<Longrightarrow> ready a \<Longrightarrow> behaves c n l a (P e q l a)" "ready a"
  shows "behaves c n l a (parseSequence P es q l a)"
  unfolding parseSequence_def
  by (rule behaves_bind [OF sequence_loop_behaves [OF assms]]) (auto split: option.split)

lemma var_loop_behaves:
  assumes "\<And>e q l a. e \<in> set es \<Longrightarrow> ready a \<Longrightarrow> behaves c n l a (P e q l a)" "ready a"
  shows "behaves c n l a (var_loop P es q l a)"
  using assms
proof (induction es arbitrary: l a)
  case (Cons e es)
  show ?case
    unfolding var_loop.simps
    by (rule behaves_bind) (use Cons moved_ready in \<open>auto intro!: Cons.IH\<close>)
qed simp

lemma or_loop_behaves:
  assumes "\<And>e q l a. e \<in> set es \<Longrightarrow> ready a \<Longrightarrow> behaves False n l a (P e q l a)" "ready a" "moved False l0 a0 t a" "moved False l0 a0 l a"
  shows "behaves False n l0 a0 (or_loop P es t q l a)"
  using assms
proof (induction es arbitrary: t a)
  case (Cons e es)
  have p: "behaves False n t a (P e (es = [] \<and> q) t a)" by (rule Cons.prems(1)) (use Cons.prems in auto)
  have step: "behaves False n l0 a0 (if v \<noteq> YNull then Ret (v, t', b) else or_loop P es t' q l b)"
    if r: "P e (es = [] \<and> q) t a = Ret (v, t', b)" for v t' b
  proof -
    have mv: "moved False t a t' b" using p r by simp
    then have b: "ready b" "moved False l0 a0 t' b" using moved_ready moved_trans Cons.prems by blast+
    have "moved False l a l b" using mv room_later [of a b l] Cons.prems(2) by (auto simp: moved_def ready_def)
    then have "moved False l0 a0 l b" using moved_trans Cons.prems(4) by blast
    with b Cons.IH [OF Cons.prems(1) b(1) b(2)] show ?thesis by auto
  qed
  show ?case
  proof (cases "P e (es = [] \<and> q) t a")
    case OutOfFuel
    with p Cons.prems(3) show ?thesis by (auto simp: behaves_def moved_def)
  qed (use step in auto)
qed simp

lemma parseList_behaves:
  assumes e: "\<And>q l a. ready a \<Longrightarrow> behaves c n l a (P e q l a)" and sep: "\<And>q l a. ready a \<Longrightarrow> behaves c n l a (P sep q l a)"
    and strict: "\<And>l a v l' a'. ready a \<Longrightarrow> P sep False l a = Ret (v, l', a') \<Longrightarrow> v \<noteq> YNull \<Longrightarrow> room l' a' < room l a"
  shows "ready a \<Longrightarrow> (room l a < k \<longrightarrow> k \<le> n \<longrightarrow> parseList k P e sep xs q l a \<noteq> OutOfFuel)
    \<and> (\<forall>v l' a'. parseList k P e sep xs q l a = Ret (v, l', a') \<longrightarrow> moved c l a l' a')"
proof (induction k arbitrary: xs q l a)
  case (Suc k)
  show ?case
  proof (cases "P e q l a")
    case (Ret r)
    obtain vl l1 a1 where r: "r = (vl, l1, a1)" by (cases r) auto
    have m1: "moved c l a l1 a1" using e [OF Suc.prems, of l q] Ret r by simp
    show ?thesis
    proof (cases "vl = YNull \<or> P sep False l1 a1 = Undef")
      case False
      show ?thesis
      proof (cases "P sep False l1 a1")
        case Ret2: (Ret r2)
        obtain vs l2 a2 where r2: "r2 = (vs, l2, a2)" by (cases r2) auto
        have m2: "moved c l1 a1 l2 a2" using sep [of a1 l1 False] moved_ready [OF m1 Suc.prems] Ret2 r2 by simp
        have m: "moved c l a l2 a2" using moved_trans [OF m1 m2] .
        show ?thesis
        proof (cases "vs = YNull")
          case False2: False
          have "room l2 a2 < room l a" using strict [OF moved_ready [OF m1 Suc.prems] Ret2 [unfolded r2] False2] m1 by (simp add: moved_def)
          with Suc.IH [OF moved_ready [OF m Suc.prems], of l2 "if isVoid vl then xs else xs @ [vl]" False] moved_trans [OF m]
          show ?thesis using Ret r Ret2 r2 False False2 by (auto simp: Let_def)
        qed (use Ret r Ret2 r2 False m in \<open>auto simp: Let_def\<close>)
      next
        case OutOfFuel
        have "room l1 a1 \<le> room l a" using m1 by (simp add: moved_def)
        with sep [of a1 l1 False] moved_ready [OF m1 Suc.prems] OutOfFuel Ret r False show ?thesis by (auto simp: behaves_def Let_def)
      qed (use False in auto)
    qed (use Ret r m1 in \<open>auto simp: Let_def\<close>)
  next
    case OutOfFuel
    with e [OF Suc.prems, of l q] show ?thesis by (auto simp: behaves_def)
  qed simp
qed simp

lemma tuple_take_moved: "moved c l a l (snd (tuple_take m a))"
  by (auto simp: tuple_take_def moved_def later_def split: list.split)

lemma tuple_pass_behaves:
  assumes "\<And>e q l a. e \<in> set es \<Longrightarrow> ready a \<Longrightarrow> behaves c n l a (P e q l a)" "ready a"
  shows "behaves c n l a (tuple_pass P es m q l a)"
  using assms
proof (induction es arbitrary: m l a)
  case (Cons e es)
  have IH: "behaves c n l' b (tuple_pass P es m' q l' b)" if "ready b" for m' l' b
    by (rule Cons.IH [OF Cons.prems(1) that]) auto
  show ?case
    unfolding tuple_pass.simps
  proof (rule behaves_bind)
    fix v l' a'
    assume "moved c l a l' a'"
    then have "ready a'" using moved_ready Cons.prems(2) by blast
    then have "ready (snd (tuple_take m a'))" by (rule moved_ready [OF tuple_take_moved, of _ m])
    from behaves_from [OF tuple_take_moved IH [OF this]]
    show "behaves c n l' a' (if v = YNull then Ret ((False, m), l', a') else tuple_pass P es (fst (tuple_take m a')) q l' (snd (tuple_take m a')))"
      by simp
  qed (use Cons.prems in auto)
qed simp

text \<open>Another pass only follows one in which something was read.\<close>

lemma tuple_loop_behaves:
  assumes parts: "\<And>e q l a. e \<in> set es \<Longrightarrow> ready a \<Longrightarrow> behaves c n l a (P e q l a)"
  shows "ready a \<Longrightarrow> \<not> tupleContinue a \<Longrightarrow> (room l a < k \<longrightarrow> k \<le> n \<longrightarrow> tuple_loop k P es m q l a \<noteq> OutOfFuel)
    \<and> (\<forall>v l' a'. tuple_loop k P es m q l a = Ret (v, l', a') \<longrightarrow> moved c l a l' a')"
proof (induction k arbitrary: m q l a)
  case (Suc k)
  have pass: "behaves c n l a (tuple_pass P es m q l a)" by (rule tuple_pass_behaves [OF parts Suc.prems(1)])
  show ?case
  proof (cases "tuple_pass P es m q l a")
    case (Ret r)
    obtain x l1 a1 where r: "r = (x, l1, a1)" by (cases r) auto
    have m1: "moved c l a l1 a1" using pass Ret r by simp
    show ?thesis
    proof (cases "fst x \<and> es \<noteq> [] \<and> tupleContinue a1")
      case True
      let ?b = "a1\<lparr>tupleContinue := False\<rparr>"
      have less: "room l1 a1 < room l a" using m1 True Suc.prems(2) by (auto simp: moved_def)
      have m2: "moved c l a l1 ?b" using m1 by (simp add: moved_def)
      have "ready ?b" "\<not> tupleContinue ?b" using moved_ready [OF m1 Suc.prems(1)] by simp_all
      from Suc.IH [OF this, of l1 "snd x" True] less moved_trans [OF m2] show ?thesis using Ret r True by auto
    qed (use Ret r m1 in auto)
  next
    case OutOfFuel
    with pass show ?thesis by (auto simp: behaves_def)
  qed simp
qed simp

lemma tuple_term_behaves:
  assumes parts: "\<And>e q l a. e \<in> set es \<Longrightarrow> ready a \<Longrightarrow> behaves c n l a (P e q l a)" and "ready a"
  shows "behaves c n l a (tuple_term n P es q l a)"
proof -
  let ?b = "a\<lparr>tupleName := [] # tupleName a, tupleValue := YNull # tupleValue a\<rparr>"
  let ?c = "?b\<lparr>tupleContinue := False\<rparr>"
  have c: "ready ?c" "\<not> tupleContinue ?c" "room l ?c = room l a" using assms(2) by (simp_all add: ready_def)
  note loop = tuple_loop_behaves [OF parts c(1,2), where l = l and k = n and m = "[]" and q = q]
  show ?thesis
  proof (cases "parseTuple n P es q l ?b")
    case (Ret r)
    obtain v l' a' where r: "r = (v, l', a')" by (cases r) auto
    have "moved c l ?c l' a' \<or> l = None \<and> a' = ?b \<and> l' = l" using Ret r loop by (auto simp: parseTuple_def split: if_splits)
    then have "moved c l ?b l' a'" using c by (auto simp: moved_def)
    then have "moved c l a l' (a'\<lparr>tupleName := tl (tupleName a'), tupleValue := tl (tupleValue a')\<rparr>)"
      by (cases "tupleName a'"; cases "tupleValue a'") (auto simp: moved_def later_def)
    with Ret r show ?thesis by (simp add: tuple_term_def)
  next
    case OutOfFuel
    with loop c(3) show ?thesis by (auto simp: behaves_def tuple_term_def parseTuple_def split: if_splits)
  qed (simp add: tuple_term_def)
qed

lemma fillup_loop_behaves:
  "ready a \<Longrightarrow> (room l a < k \<longrightarrow> fillup_loop k f l a \<noteq> OutOfFuel) \<and> (\<forall>v l' a'. fillup_loop k f l a = Ret (v, l', a') \<longrightarrow> moved c l a l' a')"
proof (induction k arbitrary: f l a)
  case (Suc k)
  show ?case
  proof (cases "case l of None \<Rightarrow> False | Some (i, s) \<Rightarrow> is_comment a s")
    case True
    then obtain i s where l: "l = Some (i, s)" "is_comment a s" by (auto split: option.splits)
    then have s: "0 < length s" using Suc.prems by (auto simp: is_comment_def first_char_def ready_def nul_free_def split: if_splits)
    then have less: "text_after a < room l a" using l by (simp add: room_def)
    have g: "getLine a \<noteq> OutOfFuel" "\<And>l1 a1. getLine a = Ret (l1, a1) \<Longrightarrow> later a a1 \<and> room l1 a1 \<le> text_after a \<and> tupleContinue a1 = tupleContinue a"
      using getLine_keeps [OF Suc.prems] by auto
    show ?thesis
    proof (cases "getLine a")
      case (Ret r)
      obtain l1 a1 where r: "r = (l1, a1)" by (cases r) auto
      have k: "later a a1" "room l1 a1 < room l a" "tupleContinue a1 = tupleContinue a"
        using g(2) [of l1 a1] Ret r less by auto
      then have m: "moved c l a l1 a1" by (simp add: moved_def)
      from Suc.IH [OF moved_ready [OF m Suc.prems], of l1 "f @ s"] k(2) moved_trans [OF m] show ?thesis
        using Ret r l by (auto simp: less_Suc_eq_le intro: less_le_trans)
    qed (use l g in auto)
  qed (auto split: option.splits)
qed simp

lemma parseFillup_behaves: "ready a \<Longrightarrow> tupleName a \<noteq> [] \<Longrightarrow> behaves c n l a (parseFillup n l a)"
proof -
  assume a: "ready a" "tupleName a \<noteq> []"
  have "behaves c n l a (fillup_loop n [] l a)" using fillup_loop_behaves [OF a(1), of l n "[]" c] by (auto simp: behaves_def)
  then show ?thesis
    unfolding parseFillup_def
  proof (rule behaves_bind)
    fix v l' a'
    assume m: "moved c l a l' a'"
    then have "tupleName a' \<noteq> []" using a(2) by (auto simp: moved_def later_def)
    then show "behaves c n l' a' (if tupleValue a' = [] then Undef
        else Ret (YString v, l', a'\<lparr>tupleName := stack_set KEY4FILLUP (tupleName a'), tupleValue := stack_set (YString v) (tupleValue a')\<rparr>))"
      by (cases "tupleName a'"; cases "tupleValue a'") (auto simp: moved_def later_def stack_set_def)
  qed
qed

section \<open>Descriptions that end\<close>

text \<open>A part that reads something whenever it succeeds: what must stand between the elements of a list, and in \<^verbatim>\<open>Continue\<close>.\<close>

fun consuming :: "'c ycp \<Rightarrow> bool" where
  "consuming (YString m) \<longleftrightarrow> c_str m \<noteq> []"
| "consuming (YTerm s args) \<longleftrightarrow>
     (s = ''Separator'' \<and> length args = 1) \<or> s \<in> {''Whitespace'', ''Number'', ''Hexval'', ''Boolean'', ''Hostname'', ''Username''}
     \<or> (s = ''String'' \<and> (case args of [YString cset] \<Rightarrow> set_chars (c_str cset) \<noteq> [] | _ \<Rightarrow> False))
     \<or> (s = ''Sequence'' \<and> list_ex consuming args)"
| "consuming _ \<longleftrightarrow> False"

fun no_continue :: "'c ycp \<Rightarrow> bool" where
  "no_continue (YTerm s args) \<longleftrightarrow> s \<noteq> ''Continue'' \<and> list_all no_continue args"
| "no_continue (YList es) \<longleftrightarrow> list_all no_continue es"
| "no_continue _ \<longleftrightarrow> True"

text \<open>Alternatives go back to where they started, so that a \<^verbatim>\<open>Continue\<close> inside may be set although nothing was read.\<close>

fun productive :: "'c ycp \<Rightarrow> bool" where
  "productive (YTerm s args) \<longleftrightarrow> list_all productive args
     \<and> (s = ''List'' \<and> length args = 2 \<longrightarrow> consuming (args ! 1))
     \<and> (s = ''Continue'' \<and> args \<noteq> [] \<longrightarrow> consuming (args ! 0))
     \<and> (s = ''Choice'' \<or> s = ''Or'' \<longrightarrow> list_all no_continue args)"
| "productive (YList es) \<longleftrightarrow> list_all productive es"
| "productive _ \<longleftrightarrow> True"

lemma parse_data_behaves_step:
  assumes "ready a" "\<And>l' a'. next_line l a = Ret (l', a') \<Longrightarrow> ready a' \<Longrightarrow> l' \<noteq> None \<Longrightarrow> behaves c n l' a' (f l' a')"
  shows "behaves c n l a (obind (next_line l a) (\<lambda>(l, a). if l = None then Ret (YNull, l, a) else f l a))"
proof (cases "next_line l a")
  case (Ret r)
  obtain l' a' where r: "r = (l', a')" by (cases r) auto
  have m: "moved c l a l' a'" using next_line_keeps(2) [OF assms(1)] Ret r by blast
  have "l' \<noteq> None \<Longrightarrow> behaves c n l' a' (f l' a')" using assms(2) moved_ready [OF m assms(1)] Ret r by blast
  with behaves_from [OF m] m Ret r show ?thesis by auto
qed (use next_line_keeps(1) [OF assms(1)] in auto)

lemma parse_chars_behaves: "parse_chars s args q l a = Some r \<Longrightarrow> behaves c n l a r"
  by (auto simp: parse_chars_def with_string_def at_line_behaves basic_shrinks split: if_splits ycp.splits)

lemma parseFloat_shrinks: "parseFloat F q s = Ret (v, r) \<Longrightarrow> length r \<le> length s"
proof -
  assume p: "parseFloat F q s = Ret (v, r)"
  let ?r = "dropWhile is_digit s"
  have "length ?r \<le> length s" by (rule length_dropWhile_le)
  then have "length (dropWhile is_digit ?r) \<le> length s" "length (dropWhile is_digit (tl ?r)) \<le> length s"
    using length_dropWhile_le [of is_digit ?r] length_dropWhile_le [of is_digit "tl ?r"] by simp_all
  with p show ?thesis by (auto simp: parseFloat_def Let_def split: if_splits option.splits)
qed

lemma parseFloat_returns: "parseFloat F q s \<noteq> OutOfFuel"
  by (simp add: parseFloat_def Let_def split: option.split)

lemma parse_basic_behaves:
  fixes a :: "'c any_agent"
  shows "parse_basic L s args q l a = Some r \<Longrightarrow> l \<noteq> None \<Longrightarrow> behaves c n l a r"
proof -
  assume r: "parse_basic L s args q l a = Some r" and "l \<noteq> None"
  then obtain i t where l: "l = Some (i, t)" by auto
  have "behaves c n l a (obind p (\<lambda>(v, r). Ret (v, Some (i, r), a)))" if "p = parseFloat F q t" for F and p :: "('c ycp \<times> string) outcome"
  proof -
    have "p \<noteq> OutOfFuel" "\<forall>v r. p = Ret (v, r) \<longrightarrow> length r \<le> length t" using that parseFloat_returns parseFloat_shrinks by auto
    then show ?thesis by (cases p) (auto simp: l moved_def room_def)
  qed
  with r l show ?thesis by (auto simp: parse_basic_def at_line_behaves basic_shrinks split: if_splits)
qed

lemma list_all_nth: "list_all Q xs \<Longrightarrow> i < length xs \<Longrightarrow> Q (xs ! i)"
  by (simp add: list_all_length)

text \<open>A part that is consuming.\<close>

lemma at_line_strict:
  assumes "shrinks_more p" "at_line p l a = Ret (v, l', a')" "v \<noteq> YNull"
  shows "room l' a' < room l a"
  using assms by (auto simp: at_line_def shrinks_more_def room_def split: option.splits prod.splits)

lemma sequence_loop_strict:
  assumes "\<And>e q l a. e \<in> set es \<Longrightarrow> ready a \<Longrightarrow> behaves c n l a (P e q l a)"
    and "\<And>e l a v l' a'. e \<in> set es \<Longrightarrow> S e \<Longrightarrow> ready a \<Longrightarrow> P e False l a = Ret (v, l', a') \<Longrightarrow> v \<noteq> YNull \<Longrightarrow> room l' a' < room l a"
    and "list_ex S es" "ready a" "sequence_loop P es False l a = Ret (True, l', a')"
  shows "room l' a' < room l a"
  using assms
proof (induction es arbitrary: l a)
  case (Cons e es)
  from Cons.prems(5) obtain v l1 a1 where p: "P e False l a = Ret (v, l1, a1)" "v \<noteq> YNull" "sequence_loop P es False l1 a1 = Ret (True, l', a')"
    by (auto simp: obind_Ret split: if_splits)
  have m1: "moved c l a l1 a1" using Cons.prems(1) [of e a l False] Cons.prems(4) p(1) by simp
  have r1: "ready a1" using moved_ready [OF m1 Cons.prems(4)] .
  have rest: "behaves c n l1 a1 (sequence_loop P es False l1 a1)" by (rule sequence_loop_behaves [OF Cons.prems(1) r1]) auto
  show ?case
  proof (cases "S e")
    case True
    then have "room l1 a1 < room l a" using Cons.prems(2) [of e a l v l1 a1] Cons.prems(4) p by auto
    with rest p(3) show ?thesis by (auto simp: moved_def)
  next
    case False
    with Cons.prems(3) have "list_ex S es" by simp
    have "room l' a' < room l1 a1"
      by (rule Cons.IH [OF Cons.prems(1) Cons.prems(2) \<open>list_ex S es\<close> r1 p(3)]) auto
    with m1 show ?thesis by (simp add: moved_def)
  qed
qed simp

text \<open>The cases of \<^const>\<open>parseData\<close> after the line is there: they follow the order of the tests.\<close>

lemma behaves_set_name:
  assumes "behaves c n l a r"
  shows "behaves c n l a (obind r (\<lambda>(tn, line, a). Ret (tn, line, set_name L tn a)))"
proof (rule behaves_bind [OF assms])
  fix v l' a'
  show "behaves c n l' a' (Ret (v, l', set_name L v a'))"
    by (cases "tupleName a'") (auto simp: set_name_def stack_set_def moved_def later_def)
qed

lemma behaves_set_value:
  assumes "behaves c n l a r"
  shows "behaves c n l a (obind r (\<lambda>(tv, line, a). Ret (tv, line, set_value tv a)))"
proof (rule behaves_bind [OF assms])
  fix v l' a'
  show "behaves c n l' a' (Ret (v, l', set_value v a'))"
    by (cases "tupleValue a'") (auto simp: set_value_def stack_set_def moved_def later_def)
qed

lemma behaves_named:
  assumes "behaves c n l (a\<lparr>tupleName := stack_set s (tupleName a)\<rparr>) r" "tupleName a \<noteq> []"
  shows "behaves c n l a (obind r (\<lambda>(v, line, a). if tupleValue a = [] then Undef else Ret (v, line, a\<lparr>tupleValue := stack_set v (tupleValue a)\<rparr>)))"
proof -
  have "moved c l a l (a\<lparr>tupleName := stack_set s (tupleName a)\<rparr>)"
    using assms(2) by (cases "tupleName a") (auto simp: moved_def later_def stack_set_def)
  from behaves_from [OF this assms(1)] have "behaves c n l a r" .
  then show ?thesis
  proof (rule behaves_bind)
    fix v l' a'
    show "behaves c n l' a' (if tupleValue a' = [] then Undef else Ret (v, l', a'\<lparr>tupleValue := stack_set v (tupleValue a')\<rparr>))"
      by (cases "tupleValue a'") (auto simp: stack_set_def moved_def later_def)
  qed
qed

lemma ready_named: "ready a \<Longrightarrow> tupleName a \<noteq> [] \<Longrightarrow> ready (a\<lparr>tupleName := stack_set s (tupleName a)\<rparr>)"
  by (cases "tupleName a") (auto simp: ready_def stack_set_def)

lemma behaves_continue:
  assumes "behaves True n l a r" "\<And>v l' a'. r = Ret (v, l', a') \<Longrightarrow> v \<noteq> YNull \<Longrightarrow> room l' a' < room l a"
  shows "behaves True n l a (obind r (\<lambda>(tv, line, a). Ret (tv, line, if tv \<noteq> YNull then a\<lparr>tupleContinue := True\<rparr> else a)))"
proof (cases r)
  case (Ret x)
  obtain v l' a' where "x = (v, l', a')" by (cases x) auto
  with Ret assms(1) assms(2) [of v l' a'] show ?thesis by (auto simp: moved_def)
qed (use assms(1) in \<open>auto simp: behaves_def\<close>)

lemma behaves_optional:
  assumes "behaves c n l a r"
  shows "behaves c n l a (obind r (\<lambda>(ov, line, a). Ret (if ov = YNull then YVoid else ov, line, a)))"
  by (rule behaves_bind [OF assms]) auto

definition terminating :: "'c any_lib \<Rightarrow> nat \<Rightarrow> 'c ycp \<Rightarrow> bool" where
  "terminating L n syntax \<longleftrightarrow> (\<forall>q l a. ready a \<longrightarrow> behaves (\<not> no_continue syntax) n l a (parseData L n syntax q l a))"

definition strict :: "'c any_lib \<Rightarrow> nat \<Rightarrow> 'c ycp \<Rightarrow> bool" where
  "strict L n syntax \<longleftrightarrow> (\<forall>l a v l' a'. ready a \<longrightarrow> parseData L n syntax False l a = Ret (v, l', a') \<longrightarrow> v \<noteq> YNull \<longrightarrow> room l' a' < room l a)"

lemma behaves_if: "(b \<Longrightarrow> behaves c n l a r) \<Longrightarrow> (\<not> b \<Longrightarrow> behaves c n l a r') \<Longrightarrow> behaves c n l a (if b then r else r')"
  by simp

lemma behaves_option:
  "(\<And>r. x = Some r \<Longrightarrow> behaves c n l a r) \<Longrightarrow> (x = None \<Longrightarrow> behaves c n l a r') \<Longrightarrow> behaves c n l a (case x of Some r \<Rightarrow> r | None \<Rightarrow> r')"
  by (cases x) auto

lemma parse_term_terminating:
  fixes L :: "'c any_lib"
  assumes parts: "\<And>e. e \<in> set args \<Longrightarrow> terminating L n e" and alts: "\<And>es e. YList es \<in> set args \<Longrightarrow> e \<in> set es \<Longrightarrow> terminating L n e"
    and seps: "\<And>e. e \<in> set args \<Longrightarrow> consuming e \<Longrightarrow> strict L n e" and prod: "productive (YTerm s args)"
  shows "terminating L n (YTerm s args)"
  unfolding terminating_def
proof (intro allI impI)
  fix q l0 and a0 :: "'c any_agent"
  assume "ready a0"
  let ?c = "\<not> no_continue (YTerm s args)"
  show "behaves ?c n l0 a0 (parseData L n (YTerm s args) q l0 a0)"
    unfolding parseData.simps [of L n "YTerm s args"] ycp.case
  proof (rule parse_data_behaves_step [OF \<open>ready a0\<close>], intro behaves_if behaves_option)
    fix l :: any_ptr and a :: "'c any_agent"
    assume a: "ready a" and l: "l \<noteq> None"
    have part: "behaves ?c n l' b (parseData L n e q' l' b)" if "e \<in> set args" "ready b" for e q' l' b
    proof -
      have "behaves (\<not> no_continue e) n l' b (parseData L n e q' l' b)" using parts [OF that(1)] that(2) unfolding terminating_def by blast
      then show ?thesis by (rule behaves_mono) (use that(1) in \<open>auto simp: list_all_iff\<close>)
    qed
    have part0: "behaves ?c n l' b (parseData L n (args ! i) q' l' b)" if "i < length args" "ready b" for i q' l' b
      using part [of "args ! i"] that by simp
    have quiet: "behaves False n l' b (parseData L n e q' l' b)" if "e \<in> set args" "ready b" "list_all no_continue args" for e q' l' b
    proof -
      have "no_continue e" using that(1,3) by (simp add: list_all_iff)
      with parts [OF that(1)] that(2) show ?thesis unfolding terminating_def by metis
    qed
    have alt: "behaves False n l' b (parseData L n e q' l' b)" if "YList es \<in> set args" "e \<in> set es" "ready b" "list_all no_continue args" for es e q' l' b
    proof -
      have "no_continue e" using that(1,2,4) by (fastforce simp: list_all_iff)
      with alts [OF that(1,2)] that(3) show ?thesis unfolding terminating_def by metis
    qed
    show "behaves ?c n l a (obind (parseData L n (args ! 0) True l a) (\<lambda>(ov, line, a). Ret (if ov = YNull then YVoid else ov, line, a)))"
      if "s = ''Optional'' \<and> args \<noteq> []"
      using that a by (intro behaves_optional part0) auto
    show "behaves ?c n l a (obind (parseData L n (args ! 0) False l a) (\<lambda>(tv, line, a). Ret (tv, line, if tv \<noteq> YNull then a\<lparr>tupleContinue := True\<rparr> else a)))"
      if "s = ''Continue'' \<and> args \<noteq> []"
    proof -
      have "consuming (args ! 0)" "args ! 0 \<in> set args" using prod that by auto
      with seps [of "args ! 0"] a have "room l' a' < room l a" if "parseData L n (args ! 0) False l a = Ret (v, l', a')" "v \<noteq> YNull" for v l' a'
        using that by (auto simp: strict_def)
      then have "behaves True n l a (obind (parseData L n (args ! 0) False l a) (\<lambda>(tv, line, a). Ret (tv, line, if tv \<noteq> YNull then a\<lparr>tupleContinue := True\<rparr> else a)))"
        using part0 [of 0 a l False] that a by (intro behaves_continue) auto
      then show ?thesis using that by simp
    qed
    show "behaves ?c n l a (parseChoice (\<lambda>e q l b. parseData L n e q l b) args q l a)" if "s = ''Choice'' \<and> args \<noteq> []"
    proof -
      have "list_all no_continue args" using prod that by simp
      then have "behaves False n l a (choice_loop (\<lambda>e q l b. parseData L n e q l b) args q l a)"
        using a alt by (intro choice_loop_behaves) auto
      then show ?thesis using l by (auto simp: parseChoice_def intro: behaves_mono)
    qed
    show "behaves ?c n l a (parseSequence (\<lambda>e q l b. parseData L n e q l b) args q l a)"
      using part a by (rule parseSequence_behaves)
    show "behaves ?c n l a (parseList n (\<lambda>e q l b. parseData L n e q l b) (args ! 0) (args ! 1) [] q l a)" if "s = ''List'' \<and> length args = 2"
    proof -
      have "consuming (args ! 1)" "args ! 1 \<in> set args" using prod that by auto
      with seps [of "args ! 1"] have st: "ready b \<Longrightarrow> parseData L n (args ! 1) False l b = Ret (v, l', a') \<Longrightarrow> v \<noteq> YNull \<Longrightarrow> room l' a' < room l b" for l b v l' a'
        unfolding strict_def by blast
      let ?r = "parseList n (\<lambda>e q l b. parseData L n e q l b) (args ! 0) (args ! 1) [] q l a"
      have "(room l a < n \<longrightarrow> n \<le> n \<longrightarrow> ?r \<noteq> OutOfFuel) \<and> (\<forall>v l' a'. ?r = Ret (v, l', a') \<longrightarrow> moved ?c l a l' a')"
      proof (rule parseList_behaves)
        show "behaves ?c n l b (parseData L n (args ! 0) q l b)" if "ready b" for q l b
          by (rule part0) (use that \<open>s = ''List'' \<and> length args = 2\<close> in auto)
        show "behaves ?c n l b (parseData L n (args ! 1) q l b)" if "ready b" for q l b
          by (rule part0) (use that \<open>s = ''List'' \<and> length args = 2\<close> in auto)
        show "room l' a' < room l b" if "ready b" "parseData L n (args ! 1) False l b = Ret (v, l', a')" "v \<noteq> YNull" for l b v l' a'
          using that by (rule st)
      qed (rule a)
      then show ?thesis by (simp add: behaves_def)
    qed
    show "behaves ?c n l a (tuple_term n (\<lambda>e q l b. parseData L n e q l b) args q l a)"
      using part a by (rule tuple_term_behaves)
    show "behaves ?c n l a (var_loop (\<lambda>e q l b. parseData L n e q l b) args q l a)"
      using part a by (rule var_loop_behaves)
    show "behaves ?c n l a (obind (parseData L n (args ! 0) False l a) (\<lambda>(tn, line, a). Ret (tn, line, set_name L tn a)))" if "s = ''Name'' \<and> length args = 1"
      using that a by (intro behaves_set_name part0) auto
    show "behaves ?c n l a (obind (parseData L n (args ! 0) False l a) (\<lambda>(tv, line, a). Ret (tv, line, set_value tv a)))" if "s = ''Value'' \<and> length args = 1"
      using that a by (intro behaves_set_value part0) auto
    show "behaves ?c n l a (parseFillup n l a)" if "isFillup a \<and> s = ''Fillup'' \<and> args = [] \<and> tupleName a \<noteq> []"
      using that a by (intro parseFillup_behaves) auto
    show "behaves ?c n l a r" if "parse_chars s args q l a = Some r" for r
      using that by (rule parse_chars_behaves)
    show "behaves ?c n l a (or_loop (\<lambda>e q l b. parseData L n e q l b) args l q l a)" if "s = ''Or'' \<and> args \<noteq> []"
    proof -
      have "list_all no_continue args" using prod that by simp
      then have "behaves False n l a (or_loop (\<lambda>e q l b. parseData L n e q l b) args l q l a)"
        using a quiet by (intro or_loop_behaves) auto
      then show ?thesis by (rule behaves_mono) auto
    qed
    show "behaves ?c n l a r" if "parse_basic L s args q l a = Some r" for r
      using that l by (rule parse_basic_behaves)
    show "behaves ?c n l a (obind (parseData L n (args ! 0) q l (a\<lparr>tupleName := stack_set s (tupleName a)\<rparr>))
        (\<lambda>(v, line, a). if tupleValue a = [] then Undef else Ret (v, line, a\<lparr>tupleValue := stack_set v (tupleValue a)\<rparr>)))"
      if "is_lower (first_char s) \<and> tupleName a \<noteq> [] \<and> length args = 1"
      using that a by (intro behaves_named [where s = s] part0 ready_named) auto
  qed auto
qed

text \<open>\<^const>\<open>parseData\<close> of single terms.\<close>

definition at_next :: "any_ptr \<Rightarrow> 'c any_agent \<Rightarrow> (any_ptr \<Rightarrow> 'c any_agent \<Rightarrow> 'c any_result) \<Rightarrow> 'c any_result" where
  "at_next l a f = obind (next_line l a) (\<lambda>(l, a). if l = None then Ret (YNull, l, a) else f l a)"

lemma parseData_texts:
  "parseData L n (YString m) q l a = at_next l a (at_line (parseVerbose (c_str m) q))"
  "parseData L n (YTerm ''Separator'' [YString m]) q l a = at_next l a (at_line (parseSeparator (c_str m) q))"
  "parseData L n (YTerm ''Whitespace'' args) q l a = at_next l a (at_line (parseSeparator [CHR '' '', CHR 0x09] q))"
  "parseData L n (YTerm ''String'' [YString m]) q l a = at_next l a (at_line (parseString (c_str m) None q))"
  by (cases "next_line l a"; auto simp: parseData.simps [of L n _ q l a] at_next_def parse_chars_def with_string_def)+

lemma parseData_basic:
  "parseData L n (YTerm ''Number'' args) q l a = at_next l a (at_line (parseNumber q))"
  "parseData L n (YTerm ''Hexval'' args) q l a = at_next l a (at_line (parseHexval q))"
  "parseData L n (YTerm ''Boolean'' args) q l a = at_next l a (at_line (parseBoolean q))"
  "parseData L n (YTerm ''Ip4Number'' args) q l a = at_next l a (at_line (parseIp4Number q))"
  "parseData L n (YTerm ''Hostname'' args) q l a = at_next l a (at_line (parseHostname q))"
  "parseData L n (YTerm ''Username'' args) q l a = at_next l a (at_line (parseUsername q))"
  by (cases "next_line l a"; auto simp: parseData.simps [of L n _ q l a] at_next_def parse_chars_def parse_basic_def)+

lemma parseData_constructs:
  "parseData L n (YTerm ''List'' [e, sep]) q l a = at_next l a (parseList n (parseData L n) e sep [] q)"
  "args \<noteq> [] \<Longrightarrow> parseData L n (YTerm ''Tuple'' args) q l a = at_next l a (tuple_term n (parseData L n) args q)"
  "args \<noteq> [] \<Longrightarrow> parseData L n (YTerm ''Sequence'' args) q l a = at_next l a (parseSequence (parseData L n) args q)"
  by (cases "next_line l a"; auto simp: parseData.simps [of L n _ q l a] at_next_def)+

lemma parseData_other:
  assumes "\<And>s args. sy \<noteq> YTerm s args" "\<And>m. sy \<noteq> YString m"
  shows "parseData L n sy q l a = at_next l a (\<lambda>l a. Ret (YNull, l, a))"
  using assms by (cases sy; cases "next_line l a"; auto simp: parseData.simps [of L n _ q l a] at_next_def)

lemma at_next_strict:
  assumes "ready a0" "at_next l0 a0 f = Ret (v, l', a')" "v \<noteq> YNull"
    and "\<And>l a. ready a \<Longrightarrow> f l a = Ret (v, l', a') \<Longrightarrow> room l' a' < room l a"
  shows "room l' a' < room l0 a0"
proof -
  from assms(2,3) obtain l a where la: "next_line l0 a0 = Ret (l, a)" "f l a = Ret (v, l', a')"
    by (auto simp: at_next_def obind_Ret split: if_splits)
  have m: "moved True l0 a0 l a" using next_line_keeps(2) [OF assms(1) la(1)] .
  from assms(4) [OF moved_ready [OF m assms(1)] la(2)] m show ?thesis by (simp add: moved_def)
qed

lemma reader_strict:
  assumes "shrinks_more p" "\<And>l a. parseData L n syntax False l a = at_next l a (at_line p)"
  shows "strict L n syntax"
  unfolding strict_def assms(2)
proof (intro allI impI)
  fix l a v l' a'
  assume r: "ready a" "at_next l a (at_line p) = Ret (v, l', a')" "v \<noteq> YNull"
  show "room l' a' < room l a" by (rule at_next_strict [OF r]) (rule at_line_strict [OF assms(1) _ r(3)])
qed

lemma sequence_strict:
  fixes L :: "'c any_lib"
  assumes parts: "\<And>e. e \<in> set args \<Longrightarrow> terminating L n e" and seps: "\<And>e. e \<in> set args \<Longrightarrow> consuming e \<Longrightarrow> strict L n e"
    and ex: "list_ex consuming args"
  shows "strict L n (YTerm ''Sequence'' args)"
  unfolding strict_def
proof (intro allI impI)
  fix l0 l' :: any_ptr and a0 a' :: "'c any_agent" and v
  assume a0: "ready a0" and p: "parseData L n (YTerm ''Sequence'' args) False l0 a0 = Ret (v, l', a')" and v: "v \<noteq> YNull"
  from ex have "args \<noteq> []" by auto
  show "room l' a' < room l0 a0"
  proof (rule at_next_strict [OF a0 p [unfolded parseData_constructs(3) [OF \<open>args \<noteq> []\<close>]] v])
    fix l :: any_ptr and a :: "'c any_agent"
    assume a: "ready a" and r: "parseSequence (parseData L n) args False l a = Ret (v, l', a')"
    from r v have loop: "sequence_loop (parseData L n) args False l a = Ret (True, l', a')"
      by (auto simp: parseSequence_def obind_Ret split: if_splits option.splits)
    show "room l' a' < room l a"
    proof (rule sequence_loop_strict [where S = consuming and c = True and n = n, OF _ _ ex a loop])
      show "behaves True n l b (parseData L n e q l b)" if "e \<in> set args" "ready b" for e q l b
        using parts [OF that(1)] that(2) unfolding terminating_def by (blast intro: behaves_mono)
      show "room l' a' < room l b" if "e \<in> set args" "consuming e" "ready b" "parseData L n e False l b = Ret (v, l', a')" "v \<noteq> YNull" for e l b v l' a'
        using seps [OF that(1,2)] that(3-5) unfolding strict_def by blast
    qed
  qed
qed

lemma separator_strict: "strict L n (YTerm ''Separator'' [e])"
proof (cases e)
  case (YString m)
  then show ?thesis using reader_strict [OF basic_shrinks_more(5) parseData_texts(2)] by simp
qed (auto simp: strict_def parseData.simps [of L n] parse_chars_def with_string_def obind_Ret split: if_splits)

lemma consuming_strict:
  assumes "\<And>e. e \<in> set args \<Longrightarrow> terminating L n e" "\<And>e. e \<in> set args \<Longrightarrow> consuming e \<Longrightarrow> strict L n e" "consuming (YTerm s args)"
  shows "strict L n (YTerm s args)"
proof -
  note rs = reader_strict [OF basic_shrinks_more(5) parseData_texts(3)]
    reader_strict [OF basic_shrinks_more(2) parseData_basic(1)] reader_strict [OF hexval_shrinks_more parseData_basic(2)]
    reader_strict [OF basic_shrinks_more(1) parseData_basic(3)] reader_strict [OF hostname_shrinks_more parseData_basic(5)]
    reader_strict [OF basic_shrinks_more(3) parseData_basic(6)]
  have str: "strict L n (YTerm ''String'' [YString m])" if "set_chars (c_str m) \<noteq> []" for m
    using reader_strict [OF basic_shrinks_more(6) [OF that] parseData_texts(4)] .
  have seq: "strict L n (YTerm ''Sequence'' args)" if "list_ex consuming args"
    using assms(1,2) that by (rule sequence_strict)
  consider e where "s = ''Separator''" "args = [e]" | "s \<in> {''Whitespace'', ''Number'', ''Hexval'', ''Boolean'', ''Hostname'', ''Username''}"
    | m where "s = ''String''" "args = [YString m]" "set_chars (c_str m) \<noteq> []" | "s = ''Sequence''" "list_ex consuming args"
    using assms(3) by (cases "tl args") (auto simp: length_Suc_conv split: list.splits ycp.splits)
  then show ?thesis
    by cases (use rs separator_strict str seq in auto)
qed

lemma verbose_strict: "c_str m \<noteq> [] \<Longrightarrow> strict L n (YString m)"
  by (rule reader_strict [OF basic_shrinks_more(4) parseData_texts(1)])

text \<open>A description that is productive ends: fuel for every character that is left is enough.\<close>

lemma productive_terminates:
  fixes L :: "'c any_lib"
  shows "productive sy \<Longrightarrow> terminating L n sy \<and> (consuming sy \<longrightarrow> strict L n sy)"
proof (induction sy rule: measure_induct_rule [where f = size])
  case (less sy)
  have plain: "terminating L n sy" if "\<And>q l a. parseData L n sy q l a = at_next l a (f q)" "\<And>q l a. behaves (\<not> no_continue sy) n l a (f q l a)" for f
    unfolding terminating_def that(1) at_next_def by (intro allI impI parse_data_behaves_step) (use that(2) in auto)
  have other: "terminating L n sy" if "\<And>s args. sy \<noteq> YTerm s args" "\<And>m. sy \<noteq> YString m"
    by (rule plain [OF parseData_other [OF that]]) auto
  show ?case
  proof (cases sy)
    case (YTerm s args)
    have IH: "terminating L n e \<and> (consuming e \<longrightarrow> strict L n e)" if "e \<in> set args" for e
      using less.IH [of e] less.prems that YTerm size_arg [OF that, of s] by (auto simp: list_all_iff)
    have alt: "terminating L n e" if "YList es \<in> set args" "e \<in> set es" for es e
    proof -
      from less.prems that YTerm have "productive e" by (fastforce simp: list_all_iff)
      with less.IH [of e] YTerm size_choice [OF that, of s] show ?thesis by auto
    qed
    have "terminating L n (YTerm s args)"
      by (rule parse_term_terminating) (use IH alt less.prems YTerm in auto)
    moreover have "consuming (YTerm s args) \<longrightarrow> strict L n (YTerm s args)"
      using consuming_strict [of args L n s] IH by blast
    ultimately show ?thesis using YTerm by simp
  next
    case (YString m)
    have "terminating L n sy"
      by (rule plain) (use YString in \<open>auto simp: parseData_texts(1) at_line_behaves basic_shrinks\<close>)
    with YString verbose_strict [of m L n] show ?thesis by simp
  qed (use other in simp_all)
qed

section \<open>Reading a file\<close>

definition total_text :: "'c ycp list \<Rightarrow> nat" where
  "total_text d = sum_list (map (length \<circ> line_text) d)"

lemma any_parse_lines_keeps:
  assumes "productive (mSyntax a)" "alldata a = Some d" "nul_free (mComment a)" "length (tupleName a) = length (tupleValue a)"
  shows "total_text d < n \<Longrightarrow> any_parse_lines L n a \<noteq> OutOfFuel"
    and "any_parse_lines L n a = Ret (v, a') \<Longrightarrow> alldata a' = Some d \<and> mSyntax a' = mSyntax a \<and> mComment a' = mComment a
      \<and> length (tupleName a') = length (tupleName a) \<and> length (tupleValue a') = length (tupleValue a)
      \<and> tl (tupleName a') = tl (tupleName a) \<and> tl (tupleValue a') = tl (tupleValue a)"
proof -
  let ?a = "a\<lparr>cchanged := True, line_number := - 1\<rparr>" and ?l = "Some (- 1 :: int, [] :: string)"
  have r: "ready ?a" using assms by (simp add: ready_def)
  have "room ?l ?a = total_text d" using assms(2) by (simp add: room_def text_after_def total_text_def)
  with productive_terminates [OF assms(1), of L n] r
  have g: "behaves (\<not> no_continue (mSyntax a)) n ?l ?a (parseData L n (mSyntax a) False ?l ?a)" "room ?l ?a = total_text d"
    by (auto simp: terminating_def)
  show "any_parse_lines L n a \<noteq> OutOfFuel" if "total_text d < n"
    using g that by (cases "parseData L n (mSyntax a) False ?l ?a") (auto simp: behaves_def any_parse_lines_def split: prod.splits)
  assume "any_parse_lines L n a = Ret (v, a')"
  then obtain l b where p: "parseData L n (mSyntax a) False ?l ?a = Ret (v, l, b)" "a' = (if v \<noteq> YNull then b\<lparr>cache := v, cchanged := False\<rparr> else b)"
    by (auto simp: any_parse_lines_def obind_Ret)
  from g(1) p(1) have "later ?a b" by (simp add: moved_def)
  with settings_fields [of b ?a] assms(2) p(2) show "alldata a' = Some d \<and> mSyntax a' = mSyntax a \<and> mComment a' = mComment a
      \<and> length (tupleName a') = length (tupleName a) \<and> length (tupleValue a') = length (tupleValue a)
      \<and> tl (tupleName a') = tl (tupleName a) \<and> tl (tupleValue a') = tl (tupleValue a)"
    by (auto simp: later_def)
qed

lemma fgets_length_pos: "s \<noteq> [] \<Longrightarrow> 0 < fgets_length s"
  by (cases s) (auto simp: fgets_length_def Let_def)

lemma total_text_get_lines: "total_text (map YString (get_lines s) :: 'c ycp list) \<le> length s"
proof (induction s rule: get_lines.induct)
  case (1 s)
  show ?case
  proof (cases "s = []")
    case False
    let ?k = "fgets_length s"
    have "length (c_str (take ?k s)) \<le> length (take ?k s)" unfolding c_str_def by (rule length_takeWhile_le)
    moreover have "length (take ?k s) + length (drop ?k s) = length s" by simp
    moreover have "total_text (map YString (get_lines (drop ?k s)) :: 'c ycp list) \<le> length (drop ?k s)" using "1.IH" [OF False] .
    moreover have "total_text (map YString (get_lines s) :: 'c ycp list) = length (c_str (take ?k s)) + total_text (map YString (get_lines (drop ?k s)) :: 'c ycp list)"
      using False by (subst get_lines.simps) (simp add: total_text_def line_text_def)
    ultimately show ?thesis by linarith
  qed (simp add: get_lines.simps total_text_def)
qed

definition wellformed :: "'c any_agent \<Rightarrow> bool" where
  "wellformed a \<longleftrightarrow> productive (mSyntax a) \<and> nul_free (mComment a) \<and> tupleName a = [] \<and> tupleValue a = []"

text \<open>The fuel that is enough for all the texts the command may meet.\<close>

definition fuel_enough :: "nat \<Rightarrow> 'c any_agent \<Rightarrow> any_world \<Rightarrow> bool" where
  "fuel_enough n a W \<longleftrightarrow> 0 < n \<and> (\<forall>d. alldata a = Some d \<longrightarrow> total_text d < n)
     \<and> (\<forall>f file. aw_files W f = Some file \<longrightarrow> length (af_text file) < n) \<and> (\<forall>p t. aw_run W p = Some t \<longrightarrow> length t < n)"

lemma source_name_returns: "source_name a arg \<noteq> OutOfFuel"
proof -
  have "eval_parts l ts s \<noteq> OutOfFuel" for l :: "'a ycp list" and ts s
    by (induction l ts s rule: eval_parts.induct) (auto simp: Let_def split: ycp.split list.split)
  then show ?thesis by (auto simp: source_name_def evalArg_def obind_OutOfFuel split: ycp.split)
qed

lemma take_lines_fields:
  "wellformed (take_lines t i a) = wellformed a" "alldata (take_lines t i a) = Some (map YString (get_lines t))" "mSyntax (take_lines t i a) = mSyntax a"
  by (simp_all add: take_lines_def wellformed_def)

lemma any_readFile_keeps:
  fixes a :: "'c any_agent"
  assumes "wellformed a" "fuel_enough n a W"
  shows "any_readFile W arg a \<noteq> OutOfFuel"
    and "any_readFile W arg a = Ret (Some d, a') \<Longrightarrow> total_text d < n \<and> wellformed a'"
    and "any_readFile W arg a = Ret (r, a') \<Longrightarrow> wellformed a'"
proof -
  have t: "total_text (map YString (get_lines t) :: 'c ycp list) < n" if "length t < n" for t
    using total_text_get_lines [of t] that by (rule le_less_trans)
  have e: "total_text [] < n" using assms(2) by (simp add: fuel_enough_def total_text_def)
  have w: "wellformed (a\<lparr>an_mtime := i\<rparr>)" for i using assms(1) by (simp add: wellformed_def)
  show "any_readFile W arg a \<noteq> OutOfFuel"
    using source_name_returns [of a arg] by (auto simp: any_readFile_def obind_OutOfFuel Let_def split: option.splits if_splits fopen_result.splits)
  show "any_readFile W arg a = Ret (Some d, a') \<Longrightarrow> total_text d < n \<and> wellformed a'"
    using assms t e w by (auto simp: any_readFile_def obind_Ret take_lines_fields fuel_enough_def Let_def split: option.splits if_splits fopen_result.splits)
  show "any_readFile W arg a = Ret (r, a') \<Longrightarrow> wellformed a'"
    using assms w by (auto simp: any_readFile_def obind_Ret take_lines_fields Let_def split: option.splits if_splits fopen_result.splits)
qed

lemma any_parse_lines_wellformed:
  assumes "wellformed a" "alldata a = Some d"
  shows "total_text d < n \<Longrightarrow> any_parse_lines L n a \<noteq> OutOfFuel" "any_parse_lines L n a = Ret (v, a') \<Longrightarrow> wellformed a'"
proof -
  have p: "productive (mSyntax a)" "nul_free (mComment a)" "length (tupleName a) = length (tupleValue a)"
    using assms(1) by (simp_all add: wellformed_def)
  show "total_text d < n \<Longrightarrow> any_parse_lines L n a \<noteq> OutOfFuel" by (rule any_parse_lines_keeps(1) [OF p(1) assms(2) p(2,3)])
  show "any_parse_lines L n a = Ret (v, a') \<Longrightarrow> wellformed a'"
    using any_parse_lines_keeps(2) [OF p(1) assms(2) p(2,3), of L n v a'] assms(1) by (auto simp: wellformed_def)
qed

lemma validate_for_read:
  assumes "wellformed a" "fuel_enough n a W"
  shows "validateCache L n W None arg a \<noteq> OutOfFuel" "validateCache L n W None arg a = Ret (v, a') \<Longrightarrow> wellformed a'"
proof -
  have w: "wellformed (b\<lparr>alldata := Some d\<rparr>) = wellformed b" for b d by (simp add: wellformed_def)
  have p: "any_parse_lines L n (b\<lparr>alldata := Some d\<rparr>) \<noteq> OutOfFuel" if "any_readFile W arg a = Ret (Some d, b)" for d b
    by (rule any_parse_lines_wellformed(1)) (use any_readFile_keeps(2) [OF assms that] w in auto)
  show "validateCache L n W None arg a \<noteq> OutOfFuel"
    using any_readFile_keeps(1) [OF assms, of arg] p by (auto simp: validateCache_def obind_OutOfFuel split: option.splits)
  assume "validateCache L n W None arg a = Ret (v, a')"
  then obtain r b where b: "any_readFile W arg a = Ret (r, b)" "(case r of None \<Rightarrow> Ret (YNull, b) | Some d \<Rightarrow> any_parse_lines L n (b\<lparr>alldata := Some d\<rparr>)) = Ret (v, a')"
    by (auto simp: validateCache_def obind_Ret)
  have "wellformed b" using any_readFile_keeps(3) [OF assms b(1)] .
  with b(2) show "wellformed a'"
    by (cases r) (auto dest!: any_parse_lines_wellformed(2) [rotated 2] simp: w)
qed

lemma readValueByPath_returns: "readValueByPath v ks \<noteq> OutOfFuel"
  by (induction v ks rule: readValueByPath.induct) (auto simp: Let_def split: ycp.split)

text \<open>After the cache is there, \<^const>\<open>any_Read\<close> only looks at it.\<close>

definition read_cached :: "scr_path \<Rightarrow> 'c ycp \<Rightarrow> 'c any_agent \<Rightarrow> 'c ycp outcome" where
  "read_cached path v a =
     (if v = YNull then Ret YNull
      else case path_strings path of
        [] \<Rightarrow> Ret v
      | k # ks \<Rightarrow>
          if k = ''_'' then
            if ks = [] then Ret (case alldata a of None \<Rightarrow> YNull | Some d \<Rightarrow> YList d)
            else case (raw_line (k # ks), alldata a) of
              (Some num, Some d) \<Rightarrow> if num < 0 \<or> int (length d) < num then Ret YVoid else Ret (list_value d num)
            | (Some num, None) \<Rightarrow> Undef
            | (None, _) \<Rightarrow> Ret YVoid
          else readValueByPath v (k # ks))"

lemma any_Read_cached:
  assumes "description_read a"
  shows "any_Read L n path arg opt (a, W) = obind (validateCache L n W None arg a) (\<lambda>(v, a). obind (read_cached path v a) (\<lambda>w. Ret (w, a, W)))"
proof (cases "validateCache L n W None arg a")
  case (Ret r)
  obtain v b where "r = (v, b)" by (cases r)
  with Ret assms show ?thesis
    by (cases "path_strings path") (simp_all add: any_Read_def read_cached_def del: readValueByPath.simps split: option.split)
qed (use assms in \<open>simp_all add: any_Read_def\<close>)

lemma read_cached_returns: "read_cached path v a \<noteq> OutOfFuel"
  by (simp add: read_cached_def readValueByPath_returns del: readValueByPath.simps split: list.split option.split)



text \<open>A list whose elements and separators read nothing never ends.\<close>

lemma skip_list_never_ends:
  "parseData L n (YTerm ''List'' [YTerm ''Skip'' [], YTerm ''Skip'' []]) q (Some (i, c # s)) a = OutOfFuel"
proof -
  have skip: "parseData L n (YTerm ''Skip'' []) q (Some (i, c # s)) a = Ret (YVoid, Some (i, c # s), a)" for q
    by (simp add: parseData.simps next_line_def parse_chars_def)
  have "parseList k (parseData L n) (YTerm ''Skip'' []) (YTerm ''Skip'' []) xs q (Some (i, c # s)) a = OutOfFuel" for k xs q
    by (induction k arbitrary: xs q) (simp_all add: skip)
  then show ?thesis by (simp add: parseData_constructs at_next_def next_line_def)
qed

text \<open>
  The alternatives of \<^verbatim>\<open>Or\<close> do not start at the same place: on \<open>''ac''\<close> the second one of \<^verbatim>\<open>Or (Sequence ("a", "b"), "ac")\<close> gets \<open>''c''\<close>.  Those of \<^verbatim>\<open>Choice\<close> do.
\<close>

lemma or_does_not_go_back:
  "parseData L n (YTerm ''Or'' [YTerm ''Sequence'' [YString ''a'', YString ''b''], YString ''ac'']) False (Some (0, ''ac'')) a = Ret (YVoid, Some (0, ''ac''), a)"
  "parseData L n (YTerm ''Choice'' [YList [YTerm ''Sequence'' [YString ''a'', YString ''b'']], YList [YString ''ac'']]) False (Some (0, ''ac'')) a
    = Ret (YString ''ac'', Some (0, []), a\<lparr>currentMatch := YString ''ac''\<rparr>)"
  by (simp_all add: parseData.simps next_line_def parse_chars_def parseSequence_def parseChoice_def at_line_def parseVerbose_def strncmp_eq_def c_str_def)

end
