(* ===== verification/Any_Roundtrip.thy ===== *)
theory Any_Roundtrip
  imports Any_Laws Ini_All
begin

text \<open>
  What the agent for any text file writes, it reads: for files that are lists of lines, each line a tuple of columns of any of the basic types with separators between
  them.  The columns go through the locale \<open>field_type\<close>, so that the argument is made once for all types.
\<close>

section \<open>Columns\<close>

datatype column_type = CNumber | CBoolean | CIp4Number | CHostname | CUsername | CString string

fun column_syntax :: "column_type \<Rightarrow> 'c ycp" where
  "column_syntax CNumber = YTerm ''Number'' []"
| "column_syntax CBoolean = YTerm ''Boolean'' []"
| "column_syntax CIp4Number = YTerm ''Ip4Number'' []"
| "column_syntax CHostname = YTerm ''Hostname'' []"
| "column_syntax CUsername = YTerm ''Username'' []"
| "column_syntax (CString cset) = YTerm ''String'' [YString cset]"

fun column_parse :: "column_type \<Rightarrow> bool \<Rightarrow> string \<Rightarrow> 'c ycp \<times> string" where
  "column_parse CNumber = parseNumber"
| "column_parse CBoolean = parseBoolean"
| "column_parse CIp4Number = parseIp4Number"
| "column_parse CHostname = parseHostname"
| "column_parse CUsername = parseUsername"
| "column_parse (CString cset) = parseString (c_str cset) None"

fun column_print :: "column_type \<Rightarrow> 'c ycp \<Rightarrow> string" where
  "column_print CNumber = unparseNumber"
| "column_print CBoolean = unparseBoolean"
| "column_print CIp4Number = unparseIp4Number"
| "column_print CHostname = unparseHostname"
| "column_print CUsername = unparseUsername"
| "column_print (CString cset) = unparseString (YString cset) YNull"

fun column_fits :: "column_type \<Rightarrow> 'c ycp \<Rightarrow> bool" where
  "column_fits CNumber = is_count"
| "column_fits CBoolean = is_bool"
| "column_fits CIp4Number = is_ip4"
| "column_fits CHostname = is_hostname"
| "column_fits CUsername = is_username"
| "column_fits (CString cset) = is_chars cset"

fun column_continues :: "column_type \<Rightarrow> char \<Rightarrow> bool" where
  "column_continues CNumber = is_digit"
| "column_continues CBoolean = (\<lambda>c. False)"
| "column_continues CIp4Number = is_digit"
| "column_continues CHostname = (\<lambda>c. host_char c)"
| "column_continues CUsername = is_alnum"
| "column_continues (CString cset) = in_set (c_str cset)"

interpretation column: field_type "column_parse k" "column_print k" "column_fits k" "column_continues k" for k
  by (cases k) (simp_all add: number.field_type_axioms boolean.field_type_axioms ip4.field_type_axioms hostname.field_type_axioms
    username.field_type_axioms chars.field_type_axioms)

lemma parse_column: "parseData L n (column_syntax k) q l a = at_next l a (at_line (column_parse k q))"
  by (cases k) (simp_all add: parseData_basic parseData_texts)

lemma unparse_column: "unparseData L a (column_syntax k) v = Ret (column_print k v)"
  by (cases k) (simp_all add: unparseData.simps unparse_chars_def unparse_basic_def)

section \<open>Lines\<close>

text \<open>The first column, and the others with the separator in front of each.\<close>

type_synonym column = "string \<times> column_type"

definition name_ok :: "string \<Rightarrow> bool" where
  "name_ok s \<longleftrightarrow> is_lower (first_char s) \<and> s \<noteq> []"

definition named :: "column \<Rightarrow> 'c ycp" where
  "named c = YTerm (fst c) [column_syntax (snd c)]"

definition separator :: "string \<Rightarrow> 'c ycp" where
  "separator seps = YTerm ''Separator'' [YString seps]"

fun column_parts :: "(string \<times> column) list \<Rightarrow> 'c ycp list" where
  "column_parts [] = []"
| "column_parts ((seps, c) # cs) = separator seps # named c # column_parts cs"

definition line_syntax :: "column \<Rightarrow> (string \<times> column) list \<Rightarrow> 'c ycp" where
  "line_syntax c cs = YTerm ''Tuple'' (named c # column_parts cs)"

fun columns_text :: "(string \<times> column) list \<Rightarrow> 'c ycp list \<Rightarrow> string" where
  "columns_text ((seps, c) # cs) (v # vs) = hd seps # column_print (snd c) v @ columns_text cs vs"
| "columns_text _ _ = []"

definition row_text :: "column \<Rightarrow> (string \<times> column) list \<Rightarrow> 'c ycp \<Rightarrow> 'c ycp list \<Rightarrow> string" where
  "row_text c cs v vs = column_print (snd c) v @ columns_text cs vs"

fun columns_map :: "(string \<times> column) list \<Rightarrow> 'c ycp list \<Rightarrow> ('c ycp \<times> 'c ycp) list \<Rightarrow> ('c ycp \<times> 'c ycp) list" where
  "columns_map ((seps, c) # cs) (v # vs) m = columns_map cs vs (ymap_add m (YString (fst c)) v)"
| "columns_map _ _ m = m"

definition row_map :: "column \<Rightarrow> (string \<times> column) list \<Rightarrow> 'c ycp \<Rightarrow> 'c ycp list \<Rightarrow> ('c ycp \<times> 'c ycp) list" where
  "row_map c cs v vs = columns_map cs vs (ymap_add [] (YString (fst c)) v)"

text \<open>A separator does not continue the column in front of it and does not start the one behind it.\<close>

fun columns_ok :: "column_type \<Rightarrow> (string \<times> column) list \<Rightarrow> 'c ycp list \<Rightarrow> string \<Rightarrow> bool" where
  "columns_ok k [] vs rest \<longleftrightarrow> vs = [] \<and> \<not> starts (column_continues k) rest"
| "columns_ok k ((seps, c) # cs) (v # vs) rest \<longleftrightarrow>
     name_ok (fst c) \<and> seps \<noteq> [] \<and> nul_free seps \<and> \<not> column_continues k (hd seps) \<and> column_fits (snd c) v
     \<and> \<not> starts (\<lambda>d. d \<in> set seps) (column_print (snd c) v) \<and> columns_ok (snd c) cs vs rest"
| "columns_ok k (_ # _) [] rest \<longleftrightarrow> False"

lemma columns_start: "columns_ok k cs vs rest \<Longrightarrow> \<not> starts (column_continues k) (columns_text cs vs @ rest)"
  by (induction k cs vs rest rule: columns_ok.induct) auto

lemma next_line_here: "s \<noteq> [] \<Longrightarrow> next_line (Some (i, s)) a = Ret (Some (i, s), a)"
  by (simp add: next_line_def)

text \<open>A name in lower case is none of the words of the language of descriptions.\<close>

lemma name_reserved:
  assumes "name_ok s"
  shows "s \<notin> {''Optional'', ''Continue'', ''Choice'', ''Sequence'', ''List'', ''Tuple'', ''Var'', ''Name'', ''Value'', ''Fillup'', ''Skip'', ''Match'',
    ''Separator'', ''Whitespace'', ''String'', ''Or'', ''Number'', ''Hexval'', ''Boolean'', ''Float'', ''Ip4Number'', ''Hostname'', ''Username''}"
  using assms by (auto simp: name_ok_def first_char_def is_lower_def)

lemma parseData_named:
  assumes "name_ok s" "tupleName a \<noteq> []" "tupleValue a \<noteq> []" "t \<noteq> []"
  shows "parseData L n (YTerm s [e]) q (Some (i, t)) a = obind (parseData L n e q (Some (i, t)) (a\<lparr>tupleName := stack_set s (tupleName a)\<rparr>)) (\<lambda>(v, line, a).
    if tupleValue a = [] then Undef else Ret (v, line, a\<lparr>tupleValue := stack_set v (tupleValue a)\<rparr>))"
proof -
  have low: "is_lower (first_char s)" using assms(1) by (simp add: name_ok_def)
  show ?thesis
    using assms(2-4) name_reserved [OF assms(1)] low
    by (subst parseData.simps) (simp add: next_line_here parse_chars_def parse_basic_def)
qed

lemma unparseData_named:
  assumes "name_ok s"
  shows "unparseData L a (YTerm s [e]) (YMap m) = (if ymap_value m (YString s) = YNull then Ret [] else unparseData L a e (ymap_value m (YString s)))"
proof -
  have low: "is_lower (first_char s)" using assms by (simp add: name_ok_def)
  show ?thesis
    using name_reserved [OF assms] low by (subst unparseData.simps) (simp add: unparse_chars_def unparse_basic_def Let_def)
qed

text \<open>A column is read and left at the top of the stacks; from there it goes into the map.\<close>

lemma parse_named:
  assumes "name_ok (fst c)" "column_fits (snd c) v" "\<not> starts (column_continues (snd c)) rest" "tupleName a = x # ns" "tupleValue a = y # ws"
  shows "parseData L n (named c) q (Some (i, column_print (snd c) v @ rest)) a
    = Ret (v, Some (i, rest), a\<lparr>tupleName := fst c # ns, tupleValue := v # ws\<rparr>)"
proof -
  have s: "column_print (snd c) v @ rest \<noteq> []" using column.printed [OF assms(2)] by simp
  show ?thesis
    using parseData_named [OF assms(1), of a "column_print (snd c) v @ rest" L n "column_syntax (snd c)" q i] assms(4,5) s column.read_back [OF assms(2,3), of q]
    by (simp add: named_def parse_column at_next_def next_line_here at_line_def stack_set_def)
qed

lemma parse_separator:
  assumes "seps \<noteq> []" "nul_free seps" "column_fits k v" "\<not> starts (\<lambda>d. d \<in> set seps) (column_print k v)"
  shows "parseData L n (separator seps) q (Some (i, hd seps # column_print k v @ rest)) a = Ret (YString [hd seps], Some (i, column_print k v @ rest), a)"
  using assms(1,2) by (simp add: separator_def parseData_texts at_next_def next_line_here at_line_def column.read_separated [OF assms(3) _ assms(4)])

lemma take_named:
  assumes "name_ok n" "column_fits k v" "tupleName a = [] # ns" "tupleValue a = YNull # ws"
  shows "tuple_take m (a\<lparr>tupleName := n # ns, tupleValue := v # ws\<rparr>) = (ymap_add m (YString n) v, a)"
  using assms column.is_value [OF assms(2)] by (cases a) (auto simp: tuple_take_def name_ok_def)

lemma take_nothing: "tupleName a = [] # ns \<Longrightarrow> tuple_take m a = (m, a)"
  by (simp add: tuple_take_def split: list.split)

lemma pass_columns:
  assumes "columns_ok k cs vs rest" "tupleName a = [] # ns" "tupleValue a = YNull # ws"
  shows "tuple_pass (parseData L n) (column_parts cs) m q (Some (i, columns_text cs vs @ rest)) a = Ret ((True, columns_map cs vs m), Some (i, rest), a)"
  using assms
proof (induction k cs vs rest arbitrary: m rule: columns_ok.induct)
  case (2 k seps c cs v vs rest)
  have ok: "name_ok (fst c)" "seps \<noteq> []" "nul_free seps" "column_fits (snd c) v" "\<not> starts (\<lambda>d. d \<in> set seps) (column_print (snd c) v)" "columns_ok (snd c) cs vs rest"
    using "2.prems"(1) by auto
  have v: "v \<noteq> YNull" using column.is_value [OF ok(4)] by blast
  let ?r = "columns_text cs vs @ rest"
  have sep: "parseData L n (separator seps) q (Some (i, hd seps # column_print (snd c) v @ ?r)) a = Ret (YString [hd seps], Some (i, column_print (snd c) v @ ?r), a)"
    by (rule parse_separator [OF ok(2-5)])
  have col: "parseData L n (named c) q (Some (i, column_print (snd c) v @ ?r)) a = Ret (v, Some (i, ?r), a\<lparr>tupleName := fst c # ns, tupleValue := v # ws\<rparr>)"
    by (rule parse_named [OF ok(1,4) columns_start [OF ok(6)] "2.prems"(2,3)])
  show ?case
    using sep col v "2.IH" [OF ok(6) "2.prems"(2,3)] take_nothing [OF "2.prems"(2)] take_named [OF ok(1,4) "2.prems"(2,3)] by simp
qed auto

text \<open>A line gives its row, and leaves the stacks as they were.\<close>

lemma parse_row:
  assumes "name_ok (fst c)" "column_fits (snd c) v" "columns_ok (snd c) cs vs rest" "0 < n"
  shows "parseData L n (line_syntax c cs) q (Some (i, row_text c cs v vs @ rest)) a = Ret (YMap (row_map c cs v vs), Some (i, rest), a\<lparr>tupleContinue := False\<rparr>)"
proof -
  let ?r = "columns_text cs vs @ rest"
  let ?b = "a\<lparr>tupleName := [] # tupleName a, tupleValue := YNull # tupleValue a, tupleContinue := False\<rparr>"
  have s: "row_text c cs v vs @ rest \<noteq> []" using column.printed [OF assms(2)] by (simp add: row_text_def)
  have b: "tupleName ?b = [] # tupleName a" "tupleValue ?b = YNull # tupleValue a" by simp_all
  have v: "v \<noteq> YNull" using column.is_value [OF assms(2)] by blast
  have col: "parseData L n (named c) q (Some (i, column_print (snd c) v @ ?r)) ?b
      = Ret (v, Some (i, ?r), ?b\<lparr>tupleName := fst c # tupleName a, tupleValue := v # tupleValue a\<rparr>)"
    by (rule parse_named [OF assms(1,2) columns_start [OF assms(3)] b])
  have "tuple_pass (parseData L n) (named c # column_parts cs) [] q (Some (i, row_text c cs v vs @ rest)) ?b
      = Ret ((True, row_map c cs v vs), Some (i, rest), ?b)"
    using col v pass_columns [OF assms(3) b] take_named [OF assms(1,2) b] by (simp add: row_text_def row_map_def)
  moreover from assms(4) obtain k where "n = Suc k" by (cases n) auto
  moreover have "?b\<lparr>tupleName := tupleName a, tupleValue := tupleValue a\<rparr> = a\<lparr>tupleContinue := False\<rparr>" by (cases a) simp
  ultimately show ?thesis
    using s by (simp add: line_syntax_def parseData_constructs at_next_def next_line_here tuple_term_def parseTuple_def)
qed

text \<open>The same row is written as that line.\<close>

lemma columns_map_other:
  "ymap_inv m \<Longrightarrow> x \<notin> set (map (fst \<circ> snd) cs) \<Longrightarrow> ymap_value (columns_map cs vs m) (YString x) = ymap_value m (YString x)"
  by (induction cs vs m rule: columns_map.induct) (auto simp: ymap_inv_add ymap_value_add)

definition in_map :: "('c ycp \<times> 'c ycp) list \<Rightarrow> (string \<times> column) list \<Rightarrow> 'c ycp list \<Rightarrow> bool" where
  "in_map m cs vs \<longleftrightarrow> list_all2 (\<lambda>c v. ymap_value m (YString (fst (snd c))) = v) cs vs"

lemma columns_map_in_map:
  "ymap_inv m \<Longrightarrow> distinct (map (fst \<circ> snd) cs) \<Longrightarrow> length cs = length vs \<Longrightarrow> in_map (columns_map cs vs m) cs vs"
proof (induction cs vs m rule: columns_map.induct)
  case (1 seps c cs v vs m)
  then show ?case by (simp add: in_map_def ymap_inv_add columns_map_other ymap_value_add)
qed (auto simp: in_map_def)

lemma columns_ok_length: "columns_ok k cs vs rest \<Longrightarrow> length cs = length vs"
  by (induction k cs vs rest rule: columns_ok.induct) auto

lemma unparse_separator: "seps \<noteq> [] \<Longrightarrow> nul_free seps \<Longrightarrow> unparseData L a (separator seps) v = Ret [hd seps]"
  by (cases seps) (simp_all add: separator_def unparseData.simps unparse_chars_def unparseSeparator_def)

lemma unparse_named:
  "name_ok (fst c) \<Longrightarrow> ymap_value m (YString (fst c)) = v \<Longrightarrow> v \<noteq> YNull \<Longrightarrow> unparseData L a (named c) (YMap m) = Ret (column_print (snd c) v)"
  by (simp add: named_def unparseData_named unparse_column)

lemma unparse_columns:
  "columns_ok k cs vs rest \<Longrightarrow> in_map m cs vs \<Longrightarrow> unparse_parts (unparseData L a) (column_parts cs) (YMap m) = Ret (columns_text cs vs)"
proof (induction k cs vs rest rule: columns_ok.induct)
  case (2 k seps c cs v vs rest)
  have "v \<noteq> YNull" "column_print (snd c) v \<noteq> []"
    using column.is_value [of "snd c" v] column.printed [of "snd c" v] "2.prems" by auto
  moreover have "in_map m cs vs" "ymap_value m (YString (fst c)) = v" using "2.prems" by (auto simp: in_map_def)
  ultimately show ?case using 2 by (simp add: unparse_separator unparse_named)
qed auto

lemma unparse_row:
  assumes "name_ok (fst c)" "column_fits (snd c) v" "columns_ok (snd c) cs vs rest" "distinct (fst c # map (fst \<circ> snd) cs)" "\<not> isFillup a"
  shows "unparseData L a (line_syntax c cs) (YMap (row_map c cs v vs)) = Ret (row_text c cs v vs)"
proof -
  let ?m = "row_map c cs v vs"
  have inv: "ymap_inv (ymap_add [] (YString (fst c)) v)" by (simp add: ymap_inv_add)
  have first: "ymap_value ?m (YString (fst c)) = v"
    using assms(4) by (simp add: row_map_def columns_map_other [OF inv] ymap_value_add)
  have "in_map ?m cs vs"
    using columns_map_in_map [OF inv _ columns_ok_length [OF assms(3)]] assms(4) by (simp add: row_map_def)
  moreover have "v \<noteq> YNull" "column_print (snd c) v \<noteq> []" using column.is_value [OF assms(2)] column.printed [OF assms(2)] by auto
  ultimately show ?thesis
    using unparse_columns [OF assms(3), of ?m L a] unparse_named [OF assms(1) first] assms(5)
    by (simp add: line_syntax_def unparseData.simps [of L a "YTerm ''Tuple'' _"] unparseTuple_def row_text_def)
qed

section \<open>Files\<close>

abbreviation LF :: char where "LF \<equiv> CHR 0x0A"

definition file_syntax :: "column \<Rightarrow> (string \<times> column) list \<Rightarrow> 'c ycp" where
  "file_syntax c cs = YTerm ''List'' [line_syntax c cs, YString [LF]]"

text \<open>The rows as lists of values.\<close>

definition row_value :: "column \<Rightarrow> (string \<times> column) list \<Rightarrow> 'c ycp \<times> 'c ycp list \<Rightarrow> 'c ycp" where
  "row_value c cs r = YMap (row_map c cs (fst r) (snd r))"

definition row_line :: "column \<Rightarrow> (string \<times> column) list \<Rightarrow> 'c ycp \<times> 'c ycp list \<Rightarrow> string" where
  "row_line c cs r = row_text c cs (fst r) (snd r)"

text \<open>A row that fits: its columns do, its line has no end of line inside, is no comment and not longer than the buffer of \<^const>\<open>get_lines\<close>.\<close>

definition row_ok :: "string \<Rightarrow> column \<Rightarrow> (string \<times> column) list \<Rightarrow> 'c ycp \<times> 'c ycp list \<Rightarrow> bool" where
  "row_ok comment c cs r \<longleftrightarrow> column_fits (snd c) (fst r) \<and> columns_ok (snd c) cs (snd r) [LF]
     \<and> LF \<notin> set (row_line c cs r) \<and> first_char (row_line c cs r) \<notin> set comment \<and> length (row_line c cs r) < 8191"

definition columns_named :: "column \<Rightarrow> (string \<times> column) list \<Rightarrow> bool" where
  "columns_named c cs \<longleftrightarrow> name_ok (fst c) \<and> distinct (fst c # map (fst \<circ> snd) cs)"

lemma columns_text_nul_free: "columns_ok k cs vs rest \<Longrightarrow> nul_free (columns_text cs vs)"
proof (induction k cs vs rest rule: columns_ok.induct)
  case (2 k seps c cs v vs rest)
  then show ?case using column.printed [of "snd c" v] by (cases seps) auto
qed auto

lemma row_line_facts:
  assumes "row_ok comment c cs r"
  shows "row_line c cs r \<noteq> []" "nul_free (row_line c cs r)"
  using assms column.printed [of "snd c" "fst r"] columns_text_nul_free [of "snd c" cs "snd r"]
  by (auto simp: row_ok_def row_line_def row_text_def)

subsection \<open>Writing\<close>

definition file_text :: "string list \<Rightarrow> string" where
  "file_text ls = concat (map (\<lambda>t. t @ [LF]) ls)"

lemma unparse_file:
  assumes "columns_named c cs" "list_all (row_ok comment c cs) rs" "\<not> isFillup a" "rs \<noteq> []"
  shows "\<exists>s. unparseData L a (file_syntax c cs) (YList (map (row_value c cs) rs)) = Ret s \<and> s @ [LF] = file_text (map (row_line c cs) rs) \<and> s \<noteq> [] \<and> nul_free s"
proof -
  have row: "unparseData L a (line_syntax c cs) (row_value c cs r) = Ret (row_line c cs r)" if "row_ok comment c cs r" for r
    using that assms(1,3) unparse_row [of c "fst r" cs "snd r" "[LF]" a L] by (simp add: row_ok_def row_value_def row_line_def columns_named_def)
  have sep: "unparseData L a (YString [LF]) YNull = Ret [LF]" by (simp add: unparseData.simps unparseVerbose_def)
  from assms(2,4) have "\<exists>s. unparse_elements (unparseData L a) (line_syntax c cs) (YString [LF]) (map (row_value c cs) rs) = Ret s
      \<and> s @ [LF] = file_text (map (row_line c cs) rs) \<and> s \<noteq> [] \<and> nul_free s"
  proof (induction rs)
    case (Cons r rs)
    have r: "row_ok comment c cs r" using Cons.prems(1) by simp
    show ?case
    proof (cases "rs = []")
      case True
      then show ?thesis using row [OF r] row_line_facts [OF r] by (simp add: file_text_def)
    next
      case False
      with Cons obtain s where "unparse_elements (unparseData L a) (line_syntax c cs) (YString [LF]) (map (row_value c cs) rs) = Ret s"
        "s @ [LF] = file_text (map (row_line c cs) rs)" "s \<noteq> []" "nul_free s" by auto
      then show ?thesis using row [OF r] row_line_facts [OF r] sep False by (simp add: file_text_def)
    qed
  qed simp
  then show ?thesis by (simp add: file_syntax_def unparseData.simps [of L a "YTerm ''List'' _"] unparseList_def)
qed

subsection \<open>Reading\<close>

lemma get_lines_file:
  assumes "list_all (\<lambda>t. LF \<notin> set t \<and> nul_free t \<and> length t < 8191) ls"
  shows "get_lines (file_text ls) = map (\<lambda>t. t @ [LF]) ls"
  using assms
proof (induction ls)
  case (Cons t ls)
  have "takeWhile (\<lambda>c. c \<noteq> LF) (t @ LF # file_text ls) = t" using Cons.prems by (induction t) auto
  then have k: "fgets_length (t @ LF # file_text ls) = Suc (length t)"
    using Cons.prems by (auto simp: fgets_length_def Let_def)
  have "file_text (t # ls) = t @ LF # file_text ls" by (simp add: file_text_def)
  moreover have "nul_free (t @ [LF])" using Cons.prems by simp
  ultimately show ?case using Cons k by (subst get_lines.simps) simp
qed (simp add: get_lines.simps file_text_def)

lemma getLine_next:
  assumes "alldata a = Some d" "line_number a = int i - 1" "i < length d" "d ! i = YString s" "nul_free s" "s \<noteq> []" "first_char s \<notin> set (mComment a)"
  shows "getLine a = Ret (Some (int i, s), a\<lparr>line_number := int i, got_anything := True\<rparr>)"
  using assms by (subst getLine.simps) (simp add: list_value_def is_comment_def Let_def)

lemma getLine_end:
  assumes "alldata a = Some d" "int (length d) \<le> line_number a + 1" "got_anything a"
  shows "getLine a = Ret (None, a\<lparr>line_number := line_number a + 1, got_anything := False\<rparr>)"
  using assms by (subst getLine.simps) (simp add: Let_def)

lemma parse_line_next:
  assumes "next_line l a = Ret (Some (j, t), b)" "t \<noteq> []"
  shows "parseData L n (line_syntax c cs) q l a = parseData L n (line_syntax c cs) q (Some (j, t)) b"
  using assms by (simp add: line_syntax_def parseData_constructs at_next_def next_line_here)

lemma parse_newline: "parseData L n (YString [LF]) q (Some (i, [LF])) a = Ret (YString [LF], Some (i, []), a)"
  by (simp add: parseData_texts at_next_def next_line_here at_line_def parseVerbose_def strncmp_eq_def)

lemma drop_nth: "drop i xs = y # ys \<Longrightarrow> i < length xs \<and> xs ! i = y \<and> drop (Suc i) xs = ys"
  by (metis Cons_nth_drop_Suc drop_eq_Nil linorder_not_le list.inject list.simps(3))

abbreviation row_data :: "column \<Rightarrow> (string \<times> column) list \<Rightarrow> 'c ycp \<times> 'c ycp list \<Rightarrow> 'c ycp" where
  "row_data c cs r \<equiv> YString (row_line c cs r @ [LF])"

text \<open>From the start of a line, with the rows \<open>rs\<close> in the lines behind it.\<close>

lemma parse_rows:
  assumes "columns_named c cs" "0 < n" "list_all (row_ok (mComment a) c cs) (r # rs)" "alldata a = Some d" "line_number a = int i" "got_anything a"
    "drop (Suc i) d = map (row_data c cs) rs" "length rs + 1 < k"
  shows "\<exists>l' a'. parseList k (parseData L n) (line_syntax c cs) (YString [LF]) acc q (Some (int i, row_line c cs r @ [LF])) a
    = Ret (YList (acc @ map (row_value c cs) (r # rs)), l', a')"
  using assms(3-)
proof (induction rs arbitrary: k r acc q i a)
  case Nil
  from Nil.prems(6) obtain k' where k: "k = Suc (Suc k')" by (cases k; cases "k - 1") auto
  let ?b = "a\<lparr>tupleContinue := False\<rparr>"
  have row: "parseData L n (line_syntax c cs) q (Some (int i, row_line c cs r @ [LF])) a = Ret (row_value c cs r, Some (int i, [LF]), ?b)"
    using Nil.prems(1) assms(1,2) parse_row [of c "fst r" cs "snd r" "[LF]" n] by (simp add: row_ok_def row_line_def row_value_def columns_named_def)
  have "int (length d) \<le> line_number ?b + 1" using Nil.prems(3,5) by (simp add: drop_eq_Nil)
  then have "getLine ?b = Ret (None, ?b\<lparr>line_number := line_number ?b + 1, got_anything := False\<rparr>)"
    using getLine_end [of ?b d] Nil.prems(2,4) by simp
  then have "\<exists>b'. parseData L n (line_syntax c cs) False (Some (int i, [])) ?b = Ret (YNull, None, b')"
    by (simp add: line_syntax_def parseData_constructs at_next_def next_line_def)
  then show ?case using row by (auto simp: k parse_newline row_value_def Let_def)
next
  case (Cons r' rs)
  from Cons.prems(6) obtain k' where k: "k = Suc k'" "length rs + 1 < k'" by (cases k) auto
  let ?b = "a\<lparr>tupleContinue := False\<rparr>" and ?t = "row_line c cs r' @ [LF]"
  let ?d = "?b\<lparr>line_number := int (Suc i), got_anything := True\<rparr>"
  have row: "parseData L n (line_syntax c cs) q (Some (int i, row_line c cs r @ [LF])) a = Ret (row_value c cs r, Some (int i, [LF]), ?b)"
    using Cons.prems(1) assms(1,2) parse_row [of c "fst r" cs "snd r" "[LF]" n] by (simp add: row_ok_def row_line_def row_value_def columns_named_def)
  have d: "Suc i < length d" "d ! Suc i = YString ?t" "drop (Suc (Suc i)) d = map (row_data c cs) rs"
    using drop_nth [of "Suc i" d] Cons.prems(5) by auto
  have r': "row_ok (mComment a) c cs r'" using Cons.prems(1) by simp
  have t: "nul_free ?t" "?t \<noteq> []" "first_char ?t \<notin> set (mComment a)"
    using row_line_facts [OF r'] r' by (auto simp: row_ok_def first_char_def)
  have "getLine ?b = Ret (Some (int (Suc i), ?t), ?d)"
    by (rule getLine_next [where d = d]) (use Cons.prems(2,3) d t in auto)
  then have nl: "next_line (Some (int i, [])) ?b = Ret (Some (int (Suc i), ?t), ?d)" by (simp add: next_line_def)
  have "\<exists>l' a'. parseList k' (parseData L n) (line_syntax c cs) (YString [LF]) (acc @ [row_value c cs r]) False (Some (int (Suc i), ?t)) ?d
      = Ret (YList ((acc @ [row_value c cs r]) @ map (row_value c cs) (r' # rs)), l', a')"
    by (rule Cons.IH) (use Cons.prems(1,2) d(3) k(2) in auto)
  moreover have "parseList k' (parseData L n) (line_syntax c cs) (YString [LF]) xs False (Some (int i, [])) ?b
      = parseList k' (parseData L n) (line_syntax c cs) (YString [LF]) xs False (Some (int (Suc i), ?t)) ?d" for xs
    using k(2) parse_line_next [OF nl t(2), of L n c cs False] by (cases k') simp_all
  moreover have "row_value c cs r \<noteq> YNull" "\<not> isVoid (row_value c cs r)" by (simp_all add: row_value_def isVoid_def)
  ultimately show ?case using row by (simp add: k(1) parse_newline Let_def)
qed

lemma parse_file:
  assumes "columns_named c cs" "list_all (row_ok (mComment a) c cs) rs" "rs \<noteq> []" "length rs < n"
    "alldata a = Some (map (row_data c cs) rs)" "line_number a = - 1"
  shows "\<exists>l' a'. parseData L n (file_syntax c cs) q (Some (- 1, [])) a = Ret (YList (map (row_value c cs) rs), l', a')"
proof -
  obtain r rs' where rs: "rs = r # rs'" using assms(3) by (cases rs) auto
  let ?t = "row_line c cs r @ [LF]" and ?b = "a\<lparr>line_number := int 0, got_anything := True\<rparr>"
  have r: "row_ok (mComment a) c cs r" using assms(2) rs by simp
  have t: "nul_free ?t" "?t \<noteq> []" "first_char ?t \<notin> set (mComment a)"
    using row_line_facts [OF r] r by (auto simp: row_ok_def first_char_def)
  have "getLine a = Ret (Some (int 0, ?t), ?b)"
    by (rule getLine_next [where d = "map (row_data c cs) rs"]) (use assms(5,6) t rs in auto)
  then have "parseData L n (file_syntax c cs) q (Some (- 1, [])) a = parseList n (parseData L n) (line_syntax c cs) (YString [LF]) [] q (Some (int 0, ?t)) ?b"
    by (simp add: file_syntax_def parseData_constructs at_next_def next_line_def)
  moreover have "\<exists>l' a'. parseList n (parseData L n) (line_syntax c cs) (YString [LF]) [] q (Some (int 0, ?t)) ?b = Ret (YList ([] @ map (row_value c cs) (r # rs')), l', a')"
    by (rule parse_rows [OF assms(1)]) (use assms rs in auto)
  ultimately show ?thesis using rs by simp
qed

subsection \<open>The agent\<close>

text \<open>An agent that may write the file \<open>f\<close>, whose lines have the columns \<open>c\<close> and \<open>cs\<close>, in a world where the file can be written and read.\<close>

definition describes :: "'c any_agent \<Rightarrow> string \<Rightarrow> column \<Rightarrow> (string \<times> column) list \<Rightarrow> bool" where
  "describes a f c cs \<longleftrightarrow> description_read a \<and> \<not> mReadOnly a \<and> mType a \<noteq> MTYPE_PROG \<and> mName a = YString f \<and> \<not> isFillup a
     \<and> mSyntax a = file_syntax c cs \<and> columns_named c cs"

definition accessible :: "any_world \<Rightarrow> string \<Rightarrow> bool" where
  "accessible W f \<longleftrightarrow> aw_writable W f \<and> \<not> aw_stat_fails W f \<and> (case aw_files W f of None \<Rightarrow> True | Some file \<Rightarrow> af_open file = Opens)"

lemma write_syntax:
  assumes "describes a f c cs" "accessible W (c_str f)" "v \<noteq> YNull" "path = [] \<or> hd (path_strings path) \<noteq> ''_''"
    "findSyntax (mSyntax a) path = Ret sy" "sy \<noteq> YNull" "unparseData L a sy v = Ret s" "s \<noteq> []"
  shows "any_Write L n path v arg (a, W) = Ret (YBoolean True, a, any_open_write (c_str f) s W)"
  using assms by (auto simp: any_Write_def describes_def accessible_def source_name_def)

lemma read_written:
  assumes "describes a f c cs" "accessible W (c_str f)" "aw_now W \<noteq> an_mtime a" "nul_free s"
    and "get_lines (s @ [LF]) = map (\<lambda>r. row_line c cs r @ [LF]) rs" "list_all (row_ok (mComment a) c cs) rs" "rs \<noteq> []" "length rs < n"
  shows "\<exists>a'. any_Read L n [] arg opt (a, any_open_write (c_str f) s W) = Ret (YList (map (row_value c cs) rs), a', any_open_write (c_str f) s W)"
proof -
  let ?W = "any_open_write (c_str f) s W" and ?b = "take_lines (s @ [LF]) (aw_now W) a"
  have fl: "aw_files ?W (c_str f) = Some \<lparr>af_text = s @ [LF], af_mtime = aw_now W, af_open = Opens\<rparr>" "\<not> aw_stat_fails ?W (c_str f)"
    using assms(2,4) by (auto simp: any_open_write_def accessible_def split: option.splits)
  have rd: "any_readFile ?W arg a = Ret (Some (map (row_data c cs) rs), ?b)"
    using assms(1,3) fl by (simp add: any_readFile_def source_name_def describes_def Let_def take_lines_def assms(5) comp_def)
  let ?d = "?b\<lparr>alldata := Some (map (row_data c cs) rs), cchanged := True, line_number := - 1\<rparr>"
  have d: "mSyntax ?d = file_syntax c cs" "mComment ?d = mComment a" using assms(1) by (simp_all add: take_lines_def describes_def)
  have "\<exists>l' a'. parseData L n (file_syntax c cs) False (Some (- 1, [])) ?d = Ret (YList (map (row_value c cs) rs), l', a')"
    by (rule parse_file) (use assms(1,6-8) d(2) in \<open>auto simp: describes_def\<close>)
  then have "\<exists>a'. validateCache L n ?W None arg a = Ret (YList (map (row_value c cs) rs), a')"
    using rd d(1) by (auto simp: validateCache_def any_parse_lines_def take_lines_def)
  moreover have "description_read a" using assms(1) by (simp add: describes_def)
  ultimately show ?thesis by (auto simp: any_Read_cached read_cached_def path_strings_def)
qed


text \<open>A host table: addresses, white space, names.\<close>

definition hosts_column :: column where
  "hosts_column = (''ip'', CIp4Number)"

definition hosts_columns :: "(string \<times> column) list" where
  "hosts_columns = [('' '', ''name'', CHostname), ('' '', ''port'', CNumber)]"

definition hosts_agent :: "unit any_agent" where
  "hosts_agent = (an_new False MTYPE_FILE False 0 YNull False)\<lparr>description_read := True, mName := YString ''/etc/hosts'', mComment := ''#'',
     mSyntax := file_syntax hosts_column hosts_columns\<rparr>"

definition hosts_world :: any_world where
  "hosts_world = \<lparr>aw_files = Map.empty, aw_stat_fails = (\<lambda>_. False), aw_writable = (\<lambda>_. True), aw_now = 7, aw_run = Map.empty\<rparr>"

definition hosts_rows :: "(unit ycp \<times> unit ycp list) list" where
  "hosts_rows = [(YInteger 0x7F000001, [YString ''localhost'', YInteger 22]), (YInteger 0xC0A80001, [YString ''ns.example'', YInteger 53])]"

definition hosts_lib :: "unit any_lib" where
  "hosts_lib = \<lparr>al_float = \<lparr>scan_float = (\<lambda>_. None), print_float = (\<lambda>_. [])\<rparr>, al_print = sample_printers\<rparr>"

lemma hosts_described: "describes hosts_agent ''/etc/hosts'' hosts_column hosts_columns" "accessible hosts_world (c_str ''/etc/hosts'')"
  "aw_now hosts_world \<noteq> an_mtime hosts_agent"
  by (simp_all add: describes_def hosts_agent_def an_new_def columns_named_def hosts_column_def hosts_columns_def name_ok_def first_char_def is_lower_def
    accessible_def hosts_world_def)

lemma hosts_texts:
  "unparseIp4Number (YInteger 0x7F000001) = ''127.0.0.1''" "unparseIp4Number (YInteger 0xC0A80001) = ''192.168.0.1''"
  "unparseNumber (YInteger 22) = ''22''" "unparseNumber (YInteger 53) = ''53''"
  "unparseHostname (YString ''localhost'') = ''localhost''" "unparseHostname (YString ''ns.example'') = ''ns.example''"
proof -
  show "unparseIp4Number (YInteger 0x7F000001) = ''127.0.0.1''" "unparseIp4Number (YInteger 0xC0A80001) = ''192.168.0.1''"
    by (simp_all add: unparseIp4Number_def octets show_nat.simps digit_char_def char_of_def bit_0)
  show "unparseNumber (YInteger 22) = ''22''" "unparseNumber (YInteger 53) = ''53''"
    by (simp_all add: unparseNumber_def integer_string_def show_int_def show_nat.simps digit_char_def char_of_def bit_0)
  show "unparseHostname (YString ''localhost'') = ''localhost''" "unparseHostname (YString ''ns.example'') = ''ns.example''"
    by (simp_all add: unparseHostname_def is_alnum_def is_alpha_def is_upper_def is_lower_def is_digit_def)
qed

lemma hosts_fit:
  "is_ip4 (YInteger 0x7F000001)" "is_ip4 (YInteger 0xC0A80001)" "is_count (YInteger 22)" "is_count (YInteger 53)"
  "is_hostname (YString ''localhost'')" "is_hostname (YString ''ns.example'')"
  by (simp_all add: is_ip4_def is_count_def is_hostname_def is_alnum_def is_alpha_def is_upper_def is_lower_def is_digit_def)

lemma hosts_rows_ok: "list_all (row_ok ''#'' hosts_column hosts_columns) hosts_rows"
  by (simp add: hosts_rows_def hosts_column_def hosts_columns_def row_ok_def row_line_def row_text_def hosts_texts hosts_fit name_ok_def first_char_def
    is_alnum_def is_alpha_def is_upper_def is_lower_def is_digit_def)


section \<open>What is not written or read\<close>

text \<open>Once the file was read, \<^verbatim>\<open>Write\<close> of the raw lines answers true and does nothing.\<close>

lemma raw_write_ignored:
  assumes "description_read a" "\<not> mReadOnly a" "\<not> cchanged a" "cache a \<noteq> YNull" "component k = ''_''"
  shows "any_Write L n [k] (YList d) arg (a, W) = Ret (YBoolean True, a, W)"
  using assms by (simp add: any_Write_def path_strings_def raw_Write_def validateCache_def isList_def Let_def)

text \<open>A file that has changed within the second of the last read is not read again.\<close>

lemma same_time_not_read:
  assumes "mName a = YString f" "mType a \<noteq> MTYPE_PROG" "\<not> aw_stat_fails W (c_str f)" "aw_files W (c_str f) = Some g" "af_mtime g = an_mtime a"
  shows "any_readFile W arg a = Ret (alldata a, a)"
  using assms by (simp add: any_readFile_def source_name_def)

text \<open>Writing one row replaces the file by that row.\<close>

lemma part_write_replaces_file:
  assumes "describes a f c cs" "accessible W (c_str f)" "row_ok (mComment a) c cs r" "is_digit (first_char (component k))"
  shows "any_Write L n [k] (row_value c cs r) arg (a, W) = Ret (YBoolean True, a, any_open_write (c_str f) (row_line c cs r) W)"
proof (rule write_syntax [OF assms(1,2), where sy = "line_syntax c cs"])
  have k: "component k \<noteq> ''List''" "component k \<noteq> ''_''" using assms(4) by (auto simp: first_char_def is_digit_def)
  then show "[k] = [] \<or> hd (path_strings [k]) \<noteq> ''_''" by (simp add: path_strings_def)
  show "findSyntax (mSyntax a) [k] = Ret (line_syntax c cs)"
    using assms(1,4) k(1) by (auto simp: describes_def findSyntax_def path_strings_def file_syntax_def syntax_step_def)
  show "unparseData L a (line_syntax c cs) (row_value c cs r) = Ret (row_line c cs r)"
    using assms(1,3) unparse_row [of c "fst r" cs "snd r" "[LF]" a L] by (simp add: describes_def row_ok_def row_value_def row_line_def columns_named_def)
qed (use row_line_facts(1) [OF assms(3)] in \<open>auto simp: row_value_def line_syntax_def\<close>)

text \<open>Hexadecimal values, and \<^verbatim>\<open>Or\<close> with three alternatives, are read but cannot be written.\<close>

lemma not_written: "unparseData L a (YTerm ''Hexval'' []) v = Ret []" "unparseData L a (YTerm ''Or'' [x, y, z]) v = Ret []"
  by (simp_all add: unparseData.simps unparse_chars_def unparse_basic_def first_char_def is_lower_def)

text \<open>A number that does not fit an \<^verbatim>\<open>int\<close> passes for a part of an address.\<close>

lemma large_octet_accepted: "parseIp4Number q ''4294967297.0.0.1'' = (YInteger 0x01000001, [])"
proof -
  have "atoi_digits ''4294967297.0.0.1'' = 1"
    by (simp add: atoi_digits_def atoll_def is_digit_def digits_val_def digit_val_def clamp_signed_def to_int32_def)
  then have "ip4_loop (Suc (Suc (Suc (Suc 0)))) 0 ''4294967297.0.0.1'' = ip4_loop (Suc (Suc (Suc 0))) 1 ''0.0.1''"
    by (subst ip4_loop.simps(2)) (simp add: is_digit_def Let_def del: ip4_loop.simps)
  also have "\<dots> = ip4_loop (Suc (Suc 0)) (push_bit 8 1) ''0.1''" using ip4_round(1) [of 0 "Suc 0" 1 "''0.1''"] by simp
  also have "\<dots> = ip4_loop (Suc 0) (push_bit 8 (push_bit 8 1)) ''1''" using ip4_round(1) [of 0 0 "push_bit 8 1" "''1''"] by simp
  also have "\<dots> = (YInteger 0x01000001, [])"
    using ip4_round(2) [of 1 "[]" "push_bit 8 (push_bit 8 1)"] by (simp add: show_nat.simps digit_char_def char_of_def bit_0 push_bit_eq_mult del: ip4_loop.simps)
  finally show ?thesis by (simp add: parseIp4Number_def numeral_eq_Suc del: ip4_loop.simps)
qed

text \<open>A sequence that goes over the end of a line subtracts pointers into different texts.\<close>

lemma sequence_over_lines:
  assumes "alldata a = Some [YString ''a'', YString ''b'']" "line_number a = 0" "mComment a = []"
  shows "parseData L n (YTerm ''Sequence'' [YString ''a'', YString ''b'']) False (Some (0, ''a'')) a = Undef"
proof -
  have "getLine a = Ret (Some (int 1, ''b''), a\<lparr>line_number := int 1, got_anything := True\<rparr>)"
    by (rule getLine_next [OF assms(1)]) (use assms in auto)
  then show ?thesis
    by (simp add: parseData_constructs parseData_texts at_next_def next_line_def parseSequence_def at_line_def parseVerbose_def strncmp_eq_def)
qed

end
