(* ===== verification/Pathnames.thy ===== *)
theory Pathnames
  imports Prelude
begin

text \<open>
  File names (\<^verbatim>\<open>liby2util-r/src/Pathname.cc\<close>, \<^verbatim>\<open>Pathname.h\<close>): the stack of directories that brings a name into its normal form, and the
  operations that take names apart and put them together.

  The stack is a list with the bottom first; \<^verbatim>\<open>Push\<close> and \<^verbatim>\<open>Pop\<close> work at its end.
\<close>

section \<open>The stack of directories\<close>

definition ds_pop :: "string list \<Rightarrow> string list" where
  "ds_pop st = butlast st"

definition ds_push :: "string \<Rightarrow> string list \<Rightarrow> string list" where
  "ds_push n st =
     (if n = [] \<or> n = ''.'' then (if st \<noteq> [] then st else st @ [n])
      else if n = ''..'' \<and> st \<noteq> [] then
        (if last st = [] then st
         else if last st \<noteq> ''.'' \<and> last st \<noteq> ''..'' then ds_pop st
         else st @ [n])
      else st @ [n])"

fun slashed :: "string list \<Rightarrow> string" where
  "slashed [] = []"
| "slashed (w # ws) = CHR ''/'' # w @ slashed ws"

definition ds_str :: "string list \<Rightarrow> string" where
  "ds_str st =
     (case st of
        [] \<Rightarrow> []
      | b # ws \<Rightarrow> let ret = b @ slashed ws in if ret = [] then ''/'' else ret)"

section \<open>Names\<close>

record pathname =
  prfx_i :: nat
  name_t :: string

definition is_slash :: "char \<Rightarrow> bool" where
  "is_slash c \<longleftrightarrow> c = CHR ''/'' \<or> c = CHR 0x5C"

text \<open>The loop of \<^verbatim>\<open>_assign\<close>; \<open>buf\<close> is what was collected since the last slash.\<close>

fun assign_loop :: "string \<Rightarrow> string \<Rightarrow> string list \<Rightarrow> string list" where
  "assign_loop [] buf st = (if buf \<noteq> [] then ds_push buf st else st)"
| "assign_loop (c # r) buf st =
     (if is_slash c then assign_loop r [] (if buf \<noteq> [] then ds_push buf st else st)
      else assign_loop r (buf @ [c]) st)"

definition has_prefix :: "string \<Rightarrow> bool" where
  "has_prefix s \<longleftrightarrow> 2 \<le> length s \<and> s ! 1 = CHR '':'' \<and> is_alpha (s ! 0)"

definition directories :: "string \<Rightarrow> string list" where
  "directories r =
     (if r \<noteq> [] \<and> is_slash (hd r) then assign_loop (tl r) [] (ds_push [] [])
      else assign_loop r [] (ds_push ''.'' []))"

definition pn_assign :: "string \<Rightarrow> pathname" where
  "pn_assign s =
     (if s = [] then \<lparr>prfx_i = 0, name_t = []\<rparr>
      else if has_prefix s then \<lparr>prfx_i = 2, name_t = take 2 s @ ds_str (directories (drop 2 (c_str s)))\<rparr>
      else \<lparr>prfx_i = 0, name_t = ds_str (directories (c_str s))\<rparr>)"

definition pn_empty :: "pathname \<Rightarrow> bool" where
  "pn_empty p \<longleftrightarrow> name_t p = []"

text \<open>Reading one character behind the end of the name gives the terminating NUL.\<close>

definition pn_absolute :: "pathname \<Rightarrow> bool" where
  "pn_absolute p \<longleftrightarrow> \<not> pn_empty p \<and> prfx_i p < length (name_t p) \<and> name_t p ! prfx_i p = CHR ''/''"

definition pn_relative :: "pathname \<Rightarrow> bool" where
  "pn_relative p \<longleftrightarrow> \<not> pn_empty p \<and> \<not> (prfx_i p < length (name_t p) \<and> name_t p ! prfx_i p = CHR ''/'')"

text \<open>\<^verbatim>\<open>find_last_of ('/')\<close>.\<close>

definition last_slash :: "string \<Rightarrow> nat option" where
  "last_slash s =
     (if CHR ''/'' \<in> set s then Some (length s - 1 - length (takeWhile (\<lambda>c. c \<noteq> CHR ''/'') (rev s))) else None)"

definition pn_dirname :: "pathname \<Rightarrow> pathname" where
  "pn_dirname p =
     (if pn_empty p then pn_assign []
      else case last_slash (name_t p) of
        None \<Rightarrow> p\<lparr>name_t := take (prfx_i p) (name_t p) @ ''.''\<rparr>
      | Some idx \<Rightarrow>
          if idx = prfx_i p then p\<lparr>name_t := take (prfx_i p) (name_t p) @ ''/''\<rparr>
          else p\<lparr>name_t := take idx (name_t p)\<rparr>)"

definition pn_basename :: "pathname \<Rightarrow> string" where
  "pn_basename p =
     (if pn_empty p then []
      else let r = drop (prfx_i p) (name_t p) in
        case last_slash r of None \<Rightarrow> r | Some idx \<Rightarrow> drop (Suc idx) r)"

definition pn_cat :: "pathname \<Rightarrow> pathname \<Rightarrow> pathname" where
  "pn_cat p q =
     (if pn_empty q then p
      else if pn_empty p then q
      else pn_assign (name_t p @ ''/'' @ drop (prfx_i q) (name_t q)))"

definition pn_extend :: "pathname \<Rightarrow> string \<Rightarrow> pathname" where
  "pn_extend p r = pn_assign (name_t p @ r)"

definition pn_equal :: "pathname \<Rightarrow> pathname \<Rightarrow> bool" where
  "pn_equal p q \<longleftrightarrow> name_t p = name_t q"

definition pn_absolutename :: "pathname \<Rightarrow> pathname" where
  "pn_absolutename p = (if pn_relative p then pn_cat (pn_assign ''/'') p else p)"

definition pn_relativename :: "pathname \<Rightarrow> pathname" where
  "pn_relativename p = (if pn_absolute p then pn_cat (pn_assign ''.'') p else p)"

section \<open>The words of a name\<close>

fun name_words :: "string \<Rightarrow> string \<Rightarrow> string list" where
  "name_words [] buf = (if buf \<noteq> [] then [buf] else [])"
| "name_words (c # r) buf =
     (if is_slash c then (if buf \<noteq> [] then [buf] else []) @ name_words r [] else name_words r (buf @ [c]))"

lemma assign_loop_words: "assign_loop r buf st = fold ds_push (name_words r buf) st"
  by (induction r buf arbitrary: st rule: name_words.induct) auto

text \<open>A word: what stands between slashes.\<close>

definition is_word :: "string \<Rightarrow> bool" where
  "is_word w \<longleftrightarrow> w \<noteq> [] \<and> list_all (\<lambda>c. \<not> is_slash c) w"

lemma name_words_words: "list_all (\<lambda>c. \<not> is_slash c) buf \<Longrightarrow> list_all is_word (name_words r buf)"
  by (induction r buf rule: name_words.induct) (auto simp: is_word_def)

lemma name_words_word: "list_all (\<lambda>c. \<not> is_slash c) w \<Longrightarrow> name_words (w @ r) buf = name_words r (buf @ w)"
  by (induction w arbitrary: buf) auto

lemma name_words_slashed:
  assumes "list_all is_word ws"
  shows "name_words (slashed ws) [] = ws" "buf \<noteq> [] \<Longrightarrow> name_words (slashed ws) buf = buf # ws"
proof -
  have "name_words (slashed ws) buf = (if buf = [] then [] else [buf]) @ ws" for buf
    using assms
  proof (induction ws arbitrary: buf)
    case (Cons w ws)
    then have "name_words (w @ slashed ws) [] = w # ws" by (simp add: name_words_word is_word_def)
    then show ?case by (simp add: is_slash_def)
  qed simp
  then show "name_words (slashed ws) [] = ws" "buf \<noteq> [] \<Longrightarrow> name_words (slashed ws) buf = buf # ws" by simp_all
qed

section \<open>Normal form\<close>

text \<open>A root or a dot at the bottom, then names; two dots only before all others, and not behind a root.\<close>

definition normal_words :: "string \<Rightarrow> string list \<Rightarrow> bool" where
  "normal_words b ws \<longleftrightarrow> b \<in> {[], ''.''} \<and> list_all is_word ws \<and> ''.'' \<notin> set ws
     \<and> (b = [] \<longrightarrow> ''..'' \<notin> set ws) \<and> sorted_wrt (\<lambda>x y. y = ''..'' \<longrightarrow> x = ''..'') ws"

lemma normal_words_snoc:
  "normal_words b (ws @ [w]) \<longleftrightarrow> normal_words b ws \<and> is_word w \<and> w \<noteq> ''.''
     \<and> (w = ''..'' \<longrightarrow> b \<noteq> [] \<and> set ws \<subseteq> {''..''})"
  by (auto simp: normal_words_def sorted_wrt_append)

lemma normal_up:
  assumes "normal_words b ws" "ws \<noteq> []" "last ws = ''..''"
  shows "b \<noteq> [] \<and> set ws \<subseteq> {''..''}"
proof -
  obtain vs where ws: "ws = vs @ [''..'']" using assms(2,3) by (metis append_butlast_last_id)
  with assms(1) have "b \<noteq> [] \<and> set vs \<subseteq> {''..''}" unfolding ws normal_words_snoc by blast
  then show ?thesis by (simp add: ws)
qed

lemma push_normal:
  assumes "normal_words b ws" "is_word w"
  shows "\<exists>vs. ds_push w (b # ws) = b # vs \<and> normal_words b vs"
proof (cases "w = ''..''")
  case False
  with assms show ?thesis
    by (cases "w = ''.''") (auto simp: ds_push_def normal_words_snoc is_word_def intro: exI [of _ "ws @ [w]"])
next
  case up: True
  show ?thesis
  proof (cases ws rule: rev_cases)
    case Nil
    with assms up show ?thesis by (auto simp: ds_push_def normal_words_def is_word_def)
  next
    case (snoc vs v)
    with assms up have "v \<noteq> []" "v \<noteq> ''.''" by (auto simp: normal_words_snoc is_word_def)
    show ?thesis
    proof (cases "v = ''..''")
      case True
      with snoc have "b \<noteq> [] \<and> set ws \<subseteq> {''..''}" using normal_up [OF assms(1)] by simp
      with assms up have "normal_words b (ws @ [w])" by (simp add: normal_words_snoc)
      with True up snoc show ?thesis by (auto simp: ds_push_def)
    next
      case False
      with assms up snoc \<open>v \<noteq> []\<close> \<open>v \<noteq> ''.''\<close> show ?thesis
        by (auto simp: ds_push_def ds_pop_def normal_words_snoc butlast_append)
    qed
  qed
qed

lemma fold_push_normal:
  "normal_words b ws \<Longrightarrow> list_all is_word vs \<Longrightarrow> \<exists>us. fold ds_push vs (b # ws) = b # us \<and> normal_words b us"
proof (induction vs arbitrary: ws)
  case (Cons v vs)
  then obtain us where "ds_push v (b # ws) = b # us" "normal_words b us" using push_normal [of b ws v] by auto
  with Cons show ?case by simp
qed simp

text \<open>Pushing the words of a normal form gives it back.\<close>

lemma fold_push_again:
  "normal_words b ws \<Longrightarrow> fold ds_push ws [b] = b # ws"
proof (induction ws rule: rev_induct)
  case (snoc w ws)
  then have "fold ds_push ws [b] = b # ws" "w \<noteq> []" "w \<noteq> ''.''" by (auto simp: normal_words_snoc is_word_def)
  moreover have "ds_push w (b # ws) = b # ws @ [w]"
  proof (cases "w = ''..''")
    case True
    with snoc.prems have "normal_words b ws" "b \<noteq> []" "set ws \<subseteq> {''..''}" by (simp_all add: normal_words_snoc)
    then have "b = ''.''" "set ws \<subseteq> {''..''}" by (simp_all add: normal_words_def)
    moreover have "last ws = ''..''" if "ws \<noteq> []" using that \<open>set ws \<subseteq> {''..''}\<close> by (metis last_in_set singletonD subsetD)
    ultimately show ?thesis using True by (auto simp: ds_push_def)
  qed (use calculation in \<open>simp add: ds_push_def\<close>)
  ultimately show ?case by simp
qed simp

definition bottom :: "string \<Rightarrow> string" where
  "bottom r = (if r \<noteq> [] \<and> is_slash (hd r) then [] else ''.'')"

lemma directories_words: "directories r = fold ds_push (name_words r []) [bottom r]"
  by (cases r) (auto simp: directories_def bottom_def assign_loop_words ds_push_def)

lemma directories_normal: "\<exists>ws. directories r = bottom r # ws \<and> normal_words (bottom r) ws"
  using fold_push_normal [of "bottom r" "[]" "name_words r []"] name_words_words [of "[]" r]
  by (auto simp: directories_words normal_words_def bottom_def)

lemma words_of_str:
  assumes "normal_words b ws"
  shows "bottom (ds_str (b # ws)) = b"
    and "name_words (ds_str (b # ws)) [] = (if b = [] then ws else b # ws)"
proof -
  have w: "list_all is_word ws" using assms by (simp add: normal_words_def)
  have "b = [] \<or> b = ''.''" using assms by (auto simp: normal_words_def)
  then show "bottom (ds_str (b # ws)) = b"
    by (cases ws) (auto simp: ds_str_def Let_def bottom_def is_slash_def)
  have "name_words (''.'' @ slashed ws) [] = ''.'' # ws"
    using name_words_word [of "''.''" "slashed ws" "[]"] name_words_slashed(2) [OF w, of "''.''"] by (simp add: is_slash_def)
  with \<open>b = [] \<or> b = ''.''\<close> name_words_slashed(1) [OF w]
  show "name_words (ds_str (b # ws)) [] = (if b = [] then ws else b # ws)"
    by (cases ws) (auto simp: ds_str_def Let_def is_slash_def)
qed

lemma directories_str: "normal_words b ws \<Longrightarrow> directories (ds_str (b # ws)) = b # ws"
  using words_of_str [of b ws] fold_push_again [of b ws] by (auto simp: directories_words ds_push_def normal_words_def)

section \<open>Properties of names\<close>

lemma slashed_nul_free: "list_all nul_free ws \<Longrightarrow> nul_free (slashed ws)"
  by (induction ws) auto

lemma name_words_nul_free: "nul_free r \<Longrightarrow> nul_free buf \<Longrightarrow> list_all nul_free (name_words r buf)"
  by (induction r buf rule: name_words.induct) auto

lemma fold_push_subset: "set (fold ds_push vs st) \<subseteq> set vs \<union> set st"
proof (induction vs arbitrary: st)
  case (Cons v vs)
  have "set (ds_push v st) \<subseteq> insert v (set st)" by (auto simp: ds_push_def ds_pop_def dest: in_set_butlastD)
  with Cons [of "ds_push v st"] show ?case by auto
qed simp

lemma directories_nul_free:
  assumes "nul_free r" "directories r = b # ws"
  shows "list_all nul_free ws"
proof -
  have "set (directories r) \<subseteq> set (name_words r []) \<union> {bottom r}"
    using fold_push_subset [of "name_words r []" "[bottom r]"] by (simp add: directories_words)
  with name_words_nul_free [OF assms(1), of "[]"] assms(2) show ?thesis
    by (auto simp: list_all_iff bottom_def split: if_splits)
qed

lemma str_nul_free: "nul_free r \<Longrightarrow> nul_free (ds_str (directories r))"
proof -
  assume r: "nul_free r"
  obtain ws where ws: "directories r = bottom r # ws" using directories_normal by blast
  from slashed_nul_free [OF directories_nul_free [OF r ws]] show ?thesis by (simp add: ws ds_str_def bottom_def Let_def)
qed

lemma no_prefix_str: "normal_words b ws \<Longrightarrow> \<not> has_prefix (ds_str (b # ws))"
  by (cases ws) (auto simp: normal_words_def ds_str_def Let_def has_prefix_def is_alpha_def is_upper_def is_lower_def)

lemma str_nonempty: "ds_str (b # ws) \<noteq> []"
  by (simp add: ds_str_def Let_def)

lemma has_prefix_take: "has_prefix s \<Longrightarrow> has_prefix (take 2 s @ r) \<and> take 2 (take 2 s @ r) = take 2 s \<and> c_str (take 2 s @ r) = take 2 s @ c_str r"
  by (cases s rule: list.exhaust; cases "tl s" rule: list.exhaust)
    (auto simp: has_prefix_def c_str_def is_alpha_def is_upper_def is_lower_def numeral_2_eq_2)

lemma assign_again: "pn_assign (name_t (pn_assign s)) = pn_assign s"
proof (cases "s = []")
  case False
  let ?r = "if has_prefix s then drop 2 (c_str s) else c_str s"
  obtain ws where d: "directories ?r = bottom ?r # ws" "normal_words (bottom ?r) ws" using directories_normal by blast
  have nf: "nul_free ?r" using nul_free_c_str [of s] by (auto simp: nul_free_def dest: in_set_dropD)
  note n = str_nul_free [OF nf, unfolded d(1)] no_prefix_str [OF d(2)] directories_str [OF d(2)] str_nonempty [of "bottom ?r" ws]
  show ?thesis
  proof (cases "has_prefix s")
    case True
    with False d n has_prefix_take [OF True, of "ds_str (bottom ?r # ws)"] show ?thesis
      by (simp add: pn_assign_def)
  qed (use False d n in \<open>simp add: pn_assign_def\<close>)
qed (simp add: pn_assign_def)

section \<open>What a name means\<close>

text \<open>
  Where a name leads to from a directory, in a tree without links: each word goes down, a dot stays, two dots go up, but not above the root.
\<close>

definition go :: "string \<Rightarrow> string list \<Rightarrow> string list" where
  "go w loc = (if w = ''.'' then loc else if w = ''..'' then butlast loc else loc @ [w])"

definition location :: "string list \<Rightarrow> string \<Rightarrow> string list" where
  "location loc r = fold go (name_words r []) (if bottom r = [] then [] else loc)"

lemma push_go:
  assumes "normal_words b ws" "is_word w" "b = [] \<longrightarrow> loc = []"
  shows "fold go (tl (ds_push w (b # ws))) loc = go w (fold go ws loc)"
proof (cases "w = ''..''")
  case False
  with assms show ?thesis by (auto simp: ds_push_def is_word_def go_def)
next
  case up: True
  show ?thesis
  proof (cases ws rule: rev_cases)
    case Nil
    with assms up show ?thesis by (auto simp: ds_push_def go_def normal_words_def)
  next
    case (snoc vs v)
    with assms(1) have "v \<noteq> []" "v \<noteq> ''.''" by (auto simp: normal_words_snoc is_word_def)
    with up snoc show ?thesis by (auto simp: ds_push_def ds_pop_def go_def butlast_append)
  qed
qed

lemma fold_push_go:
  "normal_words b ws \<Longrightarrow> list_all is_word vs \<Longrightarrow> b = [] \<longrightarrow> loc = []
   \<Longrightarrow> fold go (tl (fold ds_push vs (b # ws))) loc = fold go vs (fold go ws loc)"
proof (induction vs arbitrary: ws)
  case (Cons v vs)
  then obtain us where us: "ds_push v (b # ws) = b # us" "normal_words b us" using push_normal [of b ws v] by auto
  with Cons.prems have "fold go us loc = go v (fold go ws loc)" using push_go [of b ws v loc] by simp
  with Cons us show ?case by simp
qed simp

lemma location_normal: "location loc (ds_str (directories r)) = location loc r"
proof -
  obtain ws where d: "directories r = bottom r # ws" "normal_words (bottom r) ws" using directories_normal by blast
  let ?loc = "if bottom r = [] then [] else loc"
  have "normal_words (bottom r) []" by (simp add: normal_words_def bottom_def)
  from fold_push_go [OF this name_words_words [of "[]" r], of ?loc] d(1)
  have "fold go ws ?loc = fold go (name_words r []) ?loc" by (simp add: directories_words)
  moreover have "go ''.'' x = x" for x by (simp add: go_def)
  moreover have "bottom r = [] \<or> bottom r = ''.''" by (simp add: bottom_def)
  ultimately show ?thesis using words_of_str [OF d(2)] by (auto simp: location_def d(1))
qed

text \<open>
  C35. The normal form of a name, behind its drive letter, leads from every directory to the place the name itself leads to, and bringing it into normal form again changes nothing.
\<close>

theorem pathname_normal_form:
  "pn_assign (name_t (pn_assign s)) = pn_assign s
   \<and> location loc (drop (prfx_i (pn_assign s)) (name_t (pn_assign s))) = location loc (drop (prfx_i (pn_assign s)) (c_str s))"
proof
  show "pn_assign (name_t (pn_assign s)) = pn_assign s" by (rule assign_again)
  have "has_prefix s \<Longrightarrow> drop 2 (take 2 s @ r) = r" for r by (simp add: has_prefix_def)
  then show "location loc (drop (prfx_i (pn_assign s)) (name_t (pn_assign s))) = location loc (drop (prfx_i (pn_assign s)) (c_str s))"
    by (simp add: pn_assign_def location_normal c_str_def)
qed

section \<open>Taking names apart\<close>

text \<open>The name of a normal form: a drive letter or nothing, then a stack.\<close>

lemma assign_shape:
  assumes "s \<noteq> []"
  shows "\<exists>pre b ws. pn_assign s = \<lparr>prfx_i = length pre, name_t = pre @ ds_str (b # ws)\<rparr> \<and> normal_words b ws
    \<and> list_all nul_free ws \<and> (pre = [] \<or> length pre = 2 \<and> has_prefix pre)"
proof -
  let ?r = "if has_prefix s then drop 2 (c_str s) else c_str s"
  obtain ws where d: "directories ?r = bottom ?r # ws" "normal_words (bottom ?r) ws" using directories_normal by blast
  have nf: "nul_free ?r" using nul_free_c_str [of s] by (auto simp: nul_free_def dest: in_set_dropD)
  have "list_all nul_free ws" by (rule directories_nul_free [OF nf d(1)])
  moreover have "has_prefix s \<Longrightarrow> has_prefix (take 2 s) \<and> length (take 2 s) = 2" using has_prefix_take [of s "[]"] by (simp add: has_prefix_def)
  ultimately show ?thesis
    using d assms
    by (intro exI [of _ "if has_prefix s then take 2 s else []"] exI [of _ "bottom ?r"] exI [of _ ws]) (auto simp: pn_assign_def)
qed

lemma name_words_slash: "name_words (x @ CHR ''/'' # y) buf = name_words x buf @ name_words y []"
  by (induction x buf rule: name_words.induct) (auto simp: is_slash_def)

lemma last_slash_append: "CHR ''/'' \<notin> set w \<Longrightarrow> last_slash (x @ CHR ''/'' # w) = Some (length x)"
proof -
  assume w: "CHR ''/'' \<notin> set w"
  then have "takeWhile (\<lambda>c. c \<noteq> CHR ''/'') (rev w @ CHR ''/'' # rev x) = rev w"
    by (subst takeWhile_append2) auto
  then show ?thesis by (simp add: last_slash_def)
qed

lemma slashed_append: "slashed (vs @ [w]) = slashed vs @ CHR ''/'' # w"
  by (induction vs) auto

lemma assign_word:
  assumes "is_word w" "nul_free w" "\<not> has_prefix w"
  shows "pn_assign w = \<lparr>prfx_i = 0, name_t = ds_str (ds_push w [''.''])\<rparr>"
proof -
  have "name_words w [] = [w]" using assms(1) name_words_word [of w "[]" "[]"] by (simp add: is_word_def)
  moreover have "bottom w = ''.''" using assms(1) by (cases w) (auto simp: bottom_def is_word_def)
  ultimately show ?thesis using assms by (simp add: pn_assign_def directories_words is_word_def)
qed

lemma word_no_slash: "is_word w \<Longrightarrow> CHR ''/'' \<notin> set w"
  by (auto simp: is_word_def list_all_iff is_slash_def)

lemma parts_of_name:
  assumes "p = \<lparr>prfx_i = length pre, name_t = pre @ ds_str (b # vs @ [w])\<rparr>" "normal_words b (vs @ [w])"
  shows "pn_dirname p = \<lparr>prfx_i = length pre, name_t = pre @ ds_str (b # vs)\<rparr>" and "pn_basename p = w"
proof -
  have w: "CHR ''/'' \<notin> set w" using assms(2) word_no_slash by (simp add: normal_words_snoc)
  have str: "ds_str (b # vs @ [w]) = (b @ slashed vs) @ CHR ''/'' # w" by (simp add: ds_str_def Let_def slashed_append)
  have "last_slash (name_t p) = Some (length (pre @ b @ slashed vs))"
    using last_slash_append [OF w, of "pre @ b @ slashed vs"] by (simp add: assms(1) str)
  then show "pn_dirname p = \<lparr>prfx_i = length pre, name_t = pre @ ds_str (b # vs)\<rparr>"
    by (cases "b @ slashed vs = []") (auto simp: pn_dirname_def pn_empty_def assms(1) slashed_append ds_str_def Let_def)
  show "pn_basename p = w"
    using last_slash_append [OF w, of "b @ slashed vs"] by (simp add: pn_basename_def pn_empty_def assms(1) str Let_def)
qed

lemma directories_down:
  assumes "normal_words b vs" "is_word w"
  shows "directories (ds_str (b # vs) @ CHR ''/'' # ds_str (ds_push w [''.''])) = ds_push w (b # vs)"
proof -
  have n: "normal_words ''.'' []" by (simp add: normal_words_def)
  obtain us where us: "ds_push w [''.''] = ''.'' # us" "normal_words ''.'' us" using push_normal [OF n assms(2)] by auto
  have "fold ds_push us st = ds_push w st" if "st \<noteq> []" for st
    using us(1) that assms(2) by (auto simp: ds_push_def is_word_def split: if_splits)
  moreover have "bottom (ds_str (b # vs) @ CHR ''/'' # r) = b" for r
    using words_of_str(1) [OF assms(1)] str_nonempty [of b vs] by (simp add: bottom_def)
  moreover have "fold ds_push (if b = [] then vs else b # vs) [b] = b # vs"
    using fold_push_again [OF assms(1)] assms(1) by (auto simp: ds_push_def normal_words_def)
  ultimately show ?thesis
    using words_of_str(2) [OF assms(1)] words_of_str(2) [OF us(2)]
    by (simp add: directories_words name_words_slash us(1) ds_push_def [of "''.''"])
qed

lemma assign_joined:
  assumes "pre = [] \<or> length pre = 2 \<and> has_prefix pre" "nul_free r" "r \<noteq> []" "pre = [] \<Longrightarrow> \<not> has_prefix r"
  shows "pn_assign (pre @ r) = \<lparr>prfx_i = length pre, name_t = pre @ ds_str (directories r)\<rparr>"
proof (cases "pre = []")
  case False
  with assms(1) have p: "has_prefix pre" "take 2 pre = pre" "drop 2 pre = []" "length pre = 2" by auto
  from has_prefix_take [OF p(1), of r] p assms(2,3) show ?thesis by (simp add: pn_assign_def)
qed (use assms in \<open>simp add: pn_assign_def\<close>)

text \<open>
  The directory and the last word of a name, put together again, are the name; the last word must not look like a drive letter.
\<close>

theorem dirname_cat_basename:
  assumes "\<not> has_prefix (pn_basename (pn_assign s))"
  shows "pn_cat (pn_dirname (pn_assign s)) (pn_assign (pn_basename (pn_assign s))) = pn_assign s"
proof (cases "s = []")
  case True
  then show ?thesis by (simp add: pn_assign_def pn_dirname_def pn_basename_def pn_cat_def pn_empty_def)
next
  case False
  from assign_shape [OF this] obtain pre b ws where
    p: "pn_assign s = \<lparr>prfx_i = length pre, name_t = pre @ ds_str (b # ws)\<rparr>" "normal_words b ws" "list_all nul_free ws"
      "pre = [] \<or> length pre = 2 \<and> has_prefix pre" by blast
  have nb: "nul_free b" "b = [] \<or> b = ''.''" using p(2) by (auto simp: normal_words_def)
  have np: "CHR ''/'' \<notin> set pre"
    using p(4) by (cases pre; cases "tl pre") (auto simp: has_prefix_def is_alpha_def is_upper_def is_lower_def numeral_2_eq_2)
  show ?thesis
  proof (cases ws rule: rev_cases)
    case Nil
    show ?thesis
    proof (cases "b = []")
      case True
      with p(1) Nil last_slash_append [of "[]" pre] last_slash_append [of "[]" "[]"] show ?thesis
        by (simp add: ds_str_def Let_def pn_dirname_def pn_basename_def pn_cat_def pn_empty_def) (simp add: pn_assign_def)
    next
      case False
      with nb have b: "b = ''.''" by simp
      have "pn_assign ''.'' = \<lparr>prfx_i = 0, name_t = ''.''\<rparr>" by code_simp
      moreover have "directories ''./.'' = [''.'']" by code_simp
      moreover have "pn_assign (pre @ ''./.'') = \<lparr>prfx_i = length pre, name_t = pre @ ds_str (directories ''./.'')\<rparr>"
        by (rule assign_joined [OF p(4)]) (simp_all add: has_prefix_def)
      ultimately show ?thesis using p(1) Nil b np
        by (simp add: ds_str_def Let_def pn_dirname_def pn_basename_def pn_cat_def pn_empty_def last_slash_def)
    qed
  next
    case (snoc vs w)
    have v: "normal_words b vs" "is_word w" "normal_words b (vs @ [w])" using p(2) snoc by (simp_all add: normal_words_snoc)
    note parts = parts_of_name [OF p(1) [unfolded snoc] v(3)]
    let ?r = "ds_str (b # vs) @ CHR ''/'' # ds_str (ds_push w [''.''])"
    have "nul_free w" using p(3) snoc by simp
    from assign_word [OF v(2) this] assms parts(2) have w: "pn_assign w = \<lparr>prfx_i = 0, name_t = ds_str (ds_push w [''.''])\<rparr>" by simp
    have e: "ds_str (ds_push w [''.'']) \<noteq> []" using str_nonempty by (cases "ds_push w [''.'']") (auto simp: ds_push_def split: if_splits)
    have "nul_free ?r"
      using p(3) snoc nb slashed_nul_free [of vs] \<open>nul_free w\<close> by (simp add: ds_str_def Let_def ds_push_def)
    moreover have "\<not> has_prefix ?r" using nb(2) by (cases vs) (auto simp: ds_str_def Let_def has_prefix_def is_alpha_def is_upper_def is_lower_def)
    ultimately have "pn_assign (pre @ ?r) = \<lparr>prfx_i = length pre, name_t = pre @ ds_str (directories ?r)\<rparr>"
      using str_nonempty [of b vs] by (intro assign_joined [OF p(4)]) auto
    moreover have "ds_push w (b # vs) = b # vs @ [w]"
      using fold_push_again [OF v(3)] fold_push_again [OF v(1)] by simp
    ultimately have "pn_assign (pre @ ?r) = pn_assign s" using directories_down [OF v(1,2)] p(1) snoc by simp
    with parts w e str_nonempty [of b vs] show ?thesis by (simp add: pn_cat_def pn_empty_def)
  qed
qed

theorem dirname_cat_basename_witness:
  "pn_cat (pn_dirname (pn_assign ''/usr/../etc/./fstab'')) (pn_assign (pn_basename (pn_assign ''/usr/../etc/./fstab''))) = pn_assign ''/etc/fstab''"
proof -
  have "pn_assign ''/usr/../etc/./fstab'' = pn_assign ''/etc/fstab''" "\<not> has_prefix (pn_basename (pn_assign ''/usr/../etc/./fstab''))" by code_simp+
  with dirname_cat_basename [of "''/usr/../etc/./fstab''"] show ?thesis by simp
qed

text \<open>A word that looks like a drive letter is dropped.\<close>

lemma drive_letter_dropped: "pn_cat (pn_assign ''/tmp'') (pn_assign ''c:x'') = pn_assign ''/tmp/x''"
  by code_simp

lemma absolutename_absolute: "\<not> pn_empty (pn_assign s) \<Longrightarrow> prfx_i (pn_assign s) = 0 \<Longrightarrow> pn_absolute (pn_absolutename (pn_assign s))"
proof -
  assume e: "\<not> pn_empty (pn_assign s)" "prfx_i (pn_assign s) = 0"
  show ?thesis
  proof (cases "pn_relative (pn_assign s)")
    case False
    with e show ?thesis by (auto simp: pn_absolutename_def pn_relative_def pn_absolute_def)
  next
    case True
    obtain ws where d: "directories (c_str (''//'' @ name_t (pn_assign s))) = [] # ws" "normal_words [] ws"
      using directories_normal [of "c_str (''//'' @ name_t (pn_assign s))"] by (auto simp: bottom_def c_str_def is_slash_def)
    have "pn_assign ''/'' = \<lparr>prfx_i = 0, name_t = ''/''\<rparr>" by code_simp
    moreover have "pn_assign (''//'' @ name_t (pn_assign s)) = \<lparr>prfx_i = 0, name_t = ds_str ([] # ws)\<rparr>"
      using d(1) by (simp add: pn_assign_def has_prefix_def)
    ultimately show ?thesis using True e
      by (cases ws) (simp_all add: pn_absolutename_def pn_cat_def pn_empty_def pn_absolute_def ds_str_def Let_def)
  qed
qed

end
