(* ===== verification/String_Util.thy ===== *)
theory String_Util
  imports Builtin_String
begin

text \<open>
  The string functions of \<^verbatim>\<open>liby2util-r/src/stringutil.cc\<close>: reading lines, splitting and joining, trimming, words, letter case.

  \<^const>\<open>None\<close>: a loop over separators runs behind the terminating NUL.
\<close>

section \<open>Blanks and letters\<close>

datatype su_trim = NO_TRIM | L_TRIM | R_TRIM | TRIM

definition su_blank :: "char \<Rightarrow> bool" where
  "su_blank c \<longleftrightarrow> c = CHR '' '' \<or> c = CHR 0x09 \<or> c = CHR 0x0A"

definition su_ltrim :: "string \<Rightarrow> string" where
  "su_ltrim s = dropWhile su_blank s"

definition su_rtrim :: "string \<Rightarrow> string" where
  "su_rtrim s = rev (dropWhile su_blank (rev s))"

definition trim_string :: "su_trim \<Rightarrow> string \<Rightarrow> string" where
  "trim_string t s =
     (case t of L_TRIM \<Rightarrow> su_ltrim s | R_TRIM \<Rightarrow> su_rtrim s | TRIM \<Rightarrow> su_ltrim (su_rtrim s) | NO_TRIM \<Rightarrow> s)"

definition toLower :: "string \<Rightarrow> string" where
  "toLower s = map char_lower s"

definition toUpper :: "string \<Rightarrow> string" where
  "toUpper s = map char_upper s"

section \<open>Lines\<close>

text \<open>
  One call of \<^verbatim>\<open>istream::getline\<close> with room for \<open>n\<close> characters: the text, the rest of the stream, and whether it failed because the line
  is longer.  The end of the stream is tested first, then the newline, then the room.
\<close>

fun read_chunk :: "nat \<Rightarrow> string \<Rightarrow> string \<times> string \<times> bool" where
  "read_chunk n [] = ([], [], False)"
| "read_chunk n (c # s) =
     (if c = CHR 0x0A then ([], s, False)
      else case n of
        0 \<Rightarrow> ([], c # s, True)
      | Suc m \<Rightarrow> (case read_chunk m s of (t, r, f) \<Rightarrow> (c # t, r, f)))"

lemma read_chunk_line: "read_chunk n s = (t, r, False) \<Longrightarrow> t = takeWhile (\<lambda>c. c \<noteq> CHR 0x0A) s \<and> r = tl (dropWhile (\<lambda>c. c \<noteq> CHR 0x0A) s)"
  by (induction n s arbitrary: t r rule: read_chunk.induct) (auto split: if_splits nat.splits prod.splits)

lemma read_chunk_full: "read_chunk n s = (t, r, True) \<Longrightarrow> s = t @ r \<and> length t = n \<and> CHR 0x0A \<notin> set t"
  by (induction n s arbitrary: t r rule: read_chunk.induct) (auto split: if_splits nat.splits prod.splits)

abbreviation tmpBuffLen :: nat where "tmpBuffLen \<equiv> 1024"

function su_getline_loop :: "string \<Rightarrow> string \<times> string" where
  "su_getline_loop s =
     (case read_chunk (tmpBuffLen - 1) s of
        (t, r, f) \<Rightarrow> if f then (let (l, r') = su_getline_loop r in (c_str t @ l, r')) else (c_str t, r))"
  by auto
termination
  by (relation "measure length") (auto dest!: read_chunk_full [OF sym])

declare su_getline_loop.simps [simp del]

definition su_getline :: "su_trim \<Rightarrow> string \<Rightarrow> string \<times> string" where
  "su_getline t s = (case su_getline_loop s of (l, r) \<Rightarrow> (trim_string t l, r))"

section \<open>Splitting and joining\<close>

definition skipSep :: "string \<Rightarrow> string \<Rightarrow> string option" where
  "skipSep sep s =
     (let r = dropWhile (\<lambda>c. c \<in> set sep) s in if r = [] \<and> NUL \<in> set sep then None else Some r)"

lemma skipSep_shorter: "skipSep sep r = Some r' \<Longrightarrow> r \<noteq> [] \<Longrightarrow> hd r \<in> set sep \<Longrightarrow> length r' < length r"
  by (cases r) (auto simp: skipSep_def Let_def le_imp_less_Suc length_dropWhile_le split: if_splits)

text \<open>The loop of \<^verbatim>\<open>split\<close>, at the beginning of a field.\<close>

function split_fields :: "bool \<Rightarrow> string \<Rightarrow> string \<Rightarrow> string list option" where
  "split_fields single sep s =
     (if s = [] then Some []
      else let w = takeWhile (\<lambda>c. c \<notin> set sep) s; r = dropWhile (\<lambda>c. c \<notin> set sep) s in
        if r = [] then Some [w]
        else if single then
          (if tl r = [] then Some [w, []] else map_option (Cons w) (split_fields single sep (tl r)))
        else case skipSep sep r of None \<Rightarrow> None | Some r' \<Rightarrow> map_option (Cons w) (split_fields single sep r'))"
  by auto
termination
proof (relation "measure (\<lambda>(single, sep, s). length s)", goal_cases)
  case (2 single sep s w r)
  then have r: "r \<noteq> []" "length r \<le> length s" by (simp_all add: length_dropWhile_le)
  then have "length (tl r) < length s" by (cases r) simp_all
  then show ?case by simp
next
  case (3 single sep s w r r')
  then have "hd r \<in> set sep" "length r \<le> length s" using hd_dropWhile [of "\<lambda>c. c \<notin> set sep" s] by (simp_all add: length_dropWhile_le)
  with skipSep_shorter [of sep r r'] 3 have "length r' < length s" by linarith
  then show ?case by simp
qed simp

declare split_fields.simps [simp del]

definition su_split :: "string \<Rightarrow> string \<Rightarrow> bool \<Rightarrow> string list option" where
  "su_split line sep single =
     (if line = [] then Some []
      else let s = c_str line in
        if \<not> single \<and> hd (s @ [NUL]) \<in> set sep
        then (case skipSep sep s of None \<Rightarrow> None | Some s \<Rightarrow> split_fields single sep s)
        else split_fields single sep s)"

definition su_join :: "string list \<Rightarrow> string \<Rightarrow> string" where
  "su_join ws sep = (case ws of [] \<Rightarrow> [] | w # ws \<Rightarrow> w @ concat (map (\<lambda>w. sep @ w) ws))"

definition splitToLines :: "string \<Rightarrow> string \<Rightarrow> string list option" where
  "splitToLines txt sep = su_split txt sep True"

definition stripFirstWord :: "string \<Rightarrow> bool \<Rightarrow> string \<times> string" where
  "stripFirstWord line ltrim_first =
     (let line = (if ltrim_first then su_ltrim line else line) in
      if line = [] then (line, line)
      else let w = takeWhile (\<lambda>c. c \<noteq> CHR '' '' \<and> c \<noteq> CHR 0x09) line in
        if w = line then (line, [])
        else if w = [] then ([], su_ltrim line)
        else (w, su_ltrim (drop (length w) line)))"

definition dumpOn :: "(nat \<Rightarrow> string) \<Rightarrow> string list \<Rightarrow> bool \<Rightarrow> string" where
  "dumpOn number l numbered =
     concat (map (\<lambda>(i, s). (if numbered then ''['' @ number i @ '']'' else []) @ s @ [CHR 0x0A]) (enumerate 0 l))"

section \<open>Properties\<close>

lemma trim_idempotent: "trim_string t (trim_string t s) = trim_string t s"
proof -
  have l: "su_ltrim (su_ltrim s) = su_ltrim s" for s by (simp add: su_ltrim_def dropWhile_idem)
  have r: "su_rtrim (su_rtrim s) = su_rtrim s" for s by (simp add: su_rtrim_def dropWhile_idem)
  have "su_rtrim (su_ltrim (su_rtrim s)) = su_ltrim (su_rtrim s)"
  proof (cases "su_ltrim (su_rtrim s) = []")
    case False
    then have "last (su_ltrim (su_rtrim s)) = last (su_rtrim s)"
      by (metis su_ltrim_def dropWhile_eq_drop last_drop length_greater_0_conv drop_eq_Nil linorder_not_le)
    moreover have "dropWhile su_blank (rev s) \<noteq> []" using False by (auto simp: su_rtrim_def su_ltrim_def simp del: dropWhile_eq_Nil_conv)
    then have "\<not> su_blank (last (su_rtrim s))" using hd_dropWhile [of su_blank "rev s"] by (simp add: su_rtrim_def last_rev del: dropWhile_eq_Nil_conv)
    ultimately show ?thesis
      using False by (metis append_butlast_last_id dropWhile.simps(2) rev_append rev_rev_ident rev_singleton_conv append_Cons append_Nil su_rtrim_def)
  qed (simp add: su_rtrim_def)
  with l r show ?thesis by (cases t) (simp_all add: trim_string_def)
qed

text \<open>Lines of any length are read whole.\<close>

lemma getline_whole:
  "nul_free (takeWhile (\<lambda>c. c \<noteq> CHR 0x0A) s) \<Longrightarrow>
   su_getline_loop s = (takeWhile (\<lambda>c. c \<noteq> CHR 0x0A) s, tl (dropWhile (\<lambda>c. c \<noteq> CHR 0x0A) s))"
proof (induction s rule: su_getline_loop.induct)
  case (1 s)
  obtain t r f where c: "read_chunk (tmpBuffLen - 1) s = (t, r, f)" by (cases "read_chunk (tmpBuffLen - 1) s") auto
  show ?case
  proof (cases f)
    case False
    with c read_chunk_line [of "tmpBuffLen - 1" s t r] 1(2) show ?thesis by (subst su_getline_loop.simps) simp
  next
    case True
    with c have s: "s = t @ r" "CHR 0x0A \<notin> set t" using read_chunk_full [of "tmpBuffLen - 1" s t r] by auto
    then have "\<forall>x \<in> set t. x \<noteq> CHR 0x0A" by blast
    then have tr: "takeWhile (\<lambda>c. c \<noteq> CHR 0x0A) s = t @ takeWhile (\<lambda>c. c \<noteq> CHR 0x0A) r"
      "dropWhile (\<lambda>c. c \<noteq> CHR 0x0A) s = dropWhile (\<lambda>c. c \<noteq> CHR 0x0A) r"
      unfolding s(1) by (simp_all add: takeWhile_append2 dropWhile_append2)
    with 1(2) have "nul_free t" "nul_free (takeWhile (\<lambda>c. c \<noteq> CHR 0x0A) r)" by simp_all
    with 1(1) [OF c [symmetric] refl True] c True tr show ?thesis by (subst su_getline_loop.simps) simp
  qed
qed

lemma join_Cons: "ws \<noteq> [] \<Longrightarrow> su_join (w # ws) sep = w @ sep @ su_join ws sep"
  by (cases ws) (simp_all add: su_join_def)

lemma split_fields_join:
  assumes "s \<noteq> []"
  shows "\<exists>ws. split_fields True [c] s = Some ws \<and> ws \<noteq> [] \<and> su_join ws [c] = s \<and> (\<forall>w \<in> set ws. c \<notin> set w)"
  using assms
proof (induction "length s" arbitrary: s rule: less_induct)
  case less
  let ?w = "takeWhile (\<lambda>d. d \<notin> set [c]) s" and ?r = "dropWhile (\<lambda>d. d \<notin> set [c]) s"
  have w: "c \<notin> set ?w" by (auto dest: set_takeWhileD)
  show ?case
  proof (cases ?r)
    case Nil
    then have "?w = s" by (metis append_Nil2 takeWhile_dropWhile_id)
    with Nil less.prems w show ?thesis by (subst split_fields.simps) (auto simp: su_join_def)
  next
    case (Cons d r)
    then have "hd ?r = d" "?r \<noteq> []" by simp_all
    with hd_dropWhile [of "\<lambda>d. d \<notin> set [c]" s] have d: "d = c" by simp
    have s: "?w @ c # r = s" using Cons d by (metis takeWhile_dropWhile_id)
    show ?thesis
    proof (cases "r = []")
      case True
      have "split_fields True [c] s = Some [?w, []]" using Cons d less.prems True by (subst split_fields.simps) simp
      with s True w show ?thesis by (auto simp: su_join_def)
    next
      case False
      have "length r < length s" by (subst s [symmetric]) simp
      from less.hyps [OF this False] obtain ws where
        ws: "split_fields True [c] r = Some ws" "ws \<noteq> []" "su_join ws [c] = r" "\<forall>w \<in> set ws. c \<notin> set w" by blast
      from ws Cons d less.prems False have "split_fields True [c] s = Some (?w # ws)"
        by (subst split_fields.simps) (simp add: Let_def)
      with ws s w show ?thesis by (auto simp: join_Cons)
    qed
  qed
qed

lemma split_fields_words:
  assumes "ws \<noteq> []" "ws \<noteq> [[]]" "\<forall>w \<in> set ws. c \<notin> set w"
  shows "split_fields True [c] (su_join ws [c]) = Some ws"
  using assms
proof (induction ws)
  case (Cons w ws)
  show ?case
  proof (cases "ws = []")
    case True
    with Cons.prems have "takeWhile (\<lambda>d. d \<noteq> c) w = w" "dropWhile (\<lambda>d. d \<noteq> c) w = []" by auto
    with True Cons.prems show ?thesis by (subst split_fields.simps) (simp add: su_join_def)
  next
    case ws: False
    have j: "su_join (w # ws) [c] = w @ c # su_join ws [c]" using ws by (simp add: join_Cons)
    have td: "takeWhile (\<lambda>d. d \<noteq> c) (w @ c # r) = w" "dropWhile (\<lambda>d. d \<noteq> c) (w @ c # r) = c # r" for r
      using Cons.prems by (auto simp: takeWhile_tail dropWhile_append3)
    show ?thesis
    proof (cases "ws = [[]]")
      case True
      with td show ?thesis unfolding j by (subst split_fields.simps) (simp add: su_join_def)
    next
      case False
      have "su_join ws [c] \<noteq> []" using ws False by (cases ws; cases "tl ws") (auto simp: su_join_def)
      with Cons ws False td show ?thesis unfolding j by (subst split_fields.simps) simp
    qed
  qed
qed simp

text \<open>
  Splitting at every single separator and joining are inverse to each other: a line that is split and joined is the line again, and words
  without the separator that are joined and split are the words again, unless there is just one word and that is empty.
\<close>

theorem split_join_inverse:
  assumes "c \<noteq> NUL" "nul_free line" "ws \<noteq> [[]]" "\<forall>w \<in> set ws. c \<notin> set w \<and> nul_free w"
  shows "(\<exists>vs. su_split line [c] True = Some vs \<and> su_join vs [c] = line) \<and> su_split (su_join ws [c]) [c] True = Some ws"
proof
  show "\<exists>vs. su_split line [c] True = Some vs \<and> su_join vs [c] = line"
    using split_fields_join [of line c] assms(2) by (cases "line = []") (auto simp: su_split_def su_join_def)
  have nf: "nul_free (su_join ws [c])"
    using assms(1,4) by (induction ws) (auto simp: su_join_def nul_free_def split: list.splits)
  show "su_split (su_join ws [c]) [c] True = Some ws"
  proof (cases "ws = []")
    case False
    then have "su_join ws [c] \<noteq> []" using assms(3) by (cases ws; cases "tl ws") (auto simp: su_join_def)
    with nf split_fields_words [OF False assms(3)] assms(4) show ?thesis by (simp add: su_split_def)
  qed (simp add: su_split_def su_join_def)
qed

theorem split_join_inverse_witness:
  "(\<exists>vs. su_split ''a::b'' '':'' True = Some vs \<and> su_join vs '':'' = ''a::b'') \<and> su_split (su_join [''x'', [], ''y''] '':'') '':'' True = Some [''x'', [], ''y'']"
  by (rule split_join_inverse) simp_all

end
