(* ===== verification/Spec2Isabelle.thy ===== *)
theory Spec2Isabelle
  imports Builtins Code_File Code_Total SCR_Ini Any_Roundtrip Pathnames String_Util
begin

text \<open>
  \<^bold>\<open>A verification library for yast-core.\<close>

  yast-core is the runtime of YaST: the interpreter of the language YCP (\<^verbatim>\<open>libycp\<close>), the component system
  that connects it to user interfaces and agents (\<^verbatim>\<open>liby2\<close>, \<^verbatim>\<open>scr\<close>, \<^verbatim>\<open>wfm\<close>, \<^verbatim>\<open>agent-*\<close>) and helper libraries.  A
  program is parsed into a tree of \<^verbatim>\<open>YCode\<close> objects, while names are kept in a \<^verbatim>\<open>SymbolTable\<close> and types are checked by the
  \<^verbatim>\<open>Type\<close> classes; the tree is evaluated, or written as byte code and read back later.  Evaluation computes
  \<^verbatim>\<open>YCPValue\<close>s, calls builtin functions and functions of other components, and keeps its variables in \<^verbatim>\<open>SymbolEntry\<close> objects.
  This library models that core; the paths below are relative to the source tree.

  \<^bold>\<open>The theories, in the order they build on each other\<close>

  \<^item> \<open>Prelude\<close>: machine types, C strings, character classes, the type \<open>outcome\<close> of computations that may be undefined or run
    out of fuel.  \<open>Ordering\<close>: three-way comparison; the locale \<open>three_way\<close> states what a comparator owes \<^verbatim>\<open>std::sort\<close>, \<^verbatim>\<open>std::set\<close>
    and \<^verbatim>\<open>std::map\<close> and what these give in return.
  \<^item> \<open>YCP_Value\<close>: the values and \<^verbatim>\<open>YCPValueRep::compare\<close> (\<^verbatim>\<open>libycp/src/YCPValue.cc\<close> and the file of each class): a total
    preorder on regular values, the lexicographic order on containers; interprets \<open>three_way\<close>.  \<open>YCP_Path\<close>: paths, their text
    and prefixes (\<^verbatim>\<open>YCPPath.cc\<close>).  \<open>YCP_Print\<close>: the text of the other values.  \<open>YCP_Container\<close>: lists and maps
    (\<^verbatim>\<open>YCPList.cc\<close>, \<^verbatim>\<open>YCPMap.cc\<close>); maps refine finite partial maps.  \<open>YCP_Float\<close>: conversion between integers and doubles.
  \<^item> \<open>Bytecode\<close>: \<^verbatim>\<open>Bytecode.cc\<close> and the \<^verbatim>\<open>toStream\<close> of the value classes: what is written is read back.
  \<^item> \<open>YCP_Type\<close>: \<^verbatim>\<open>Type.cc\<close>: match, canCast, equals, commontype, flex types, byte code of types; matching is sound for the
    values of the types.  \<open>YCP_Signature\<close>: \<^verbatim>\<open>TypeStatics.cc\<close>: the parser of signatures inverts printing and always ends.
  \<^item> \<open>Symbol_Table\<close>: \<^verbatim>\<open>SymbolTable.cc\<close>, \<^verbatim>\<open>YBlock::detachEnvironment\<close>: a store of linked table entries that refines a table of
    scopes for each name.
  \<^item> \<open>YCode\<close>: the code tree as one datatype, programs, interpreter states, \<^verbatim>\<open>liby2/src/SymbolEntry.cc\<close>, the recursion stacks of
    \<^verbatim>\<open>Y2Namespace.cc\<close>, \<^verbatim>\<open>ExecutionEnvironment.cc\<close>.  \<open>Interpreter\<close>: \<^verbatim>\<open>evaluate\<close> of every class (\<^verbatim>\<open>YExpression.cc\<close>,
    \<^verbatim>\<open>YStatement.cc\<close>, \<^verbatim>\<open>YBlock.cc\<close>, \<^verbatim>\<open>YCode.cc\<close>).  \<open>Evaluation\<close>: what holds of every evaluation, proved in the locale
    \<open>builtin_interface\<close>.  \<open>Access\<close>: bracket expressions and assignments, type propagation.
  \<^item> \<open>Declarations\<close>: lookup of builtin functions (\<^verbatim>\<open>StaticDeclaration.cc\<close>).  \<open>Code_Write\<close>, \<open>Code_Read\<close>: the byte code of programs, with
    \<^verbatim>\<open>toStream\<close> and the stream constructor of every class, of symbol entries, table entries (\<^verbatim>\<open>SymbolTable.cc\<close>) and positions
    (\<^verbatim>\<open>Point.cc\<close>), and the stack of name spaces that numbers symbols.  \<open>Code_Parts\<close> to \<open>Code_Roundtrip\<close>: a program is read back,
    proved class by class with a relation between a writer and the reader that undoes it (\<open>echo\<close>) and one between their
    stacks (\<open>sim\<close>).  \<open>Code_Total\<close>: reading ends on every stream.  \<open>Code_File\<close>: files and modules of byte code.
    \<open>Path_Search\<close>: where files are looked for (\<^verbatim>\<open>pathsearch.cc\<close>).
  \<^item> \<open>Builtin_List\<close>, \<open>Builtin_Scalar\<close>, \<open>Builtin_String\<close>: the builtin functions (\<^verbatim>\<open>YCPBuiltin*.cc\<close>); \<open>Builtins\<close>: their table, which
    interprets \<open>builtin_interface\<close>.
  \<^item> The agent for ini files (\<^verbatim>\<open>agent-ini\<close>).  \<open>Shell_Quotes\<close>: quoting for the shell (\<^verbatim>\<open>quotes.cc\<close>).  \<open>Ini_File\<close>: sections with their
    values, subsections and indices, and every operation on them (\<^verbatim>\<open>IniFile.h\<close>, \<^verbatim>\<open>IniFile.cc\<close>); \<open>Ini_Index\<close>, \<open>Ini_Laws\<close>: the indices
    stay in step with the containers, and what is written is read; \<open>Ini_All\<close>: whole sections as maps.  \<open>Ini_Parser\<close>: control script,
    scanner, parser and writer (\<^verbatim>\<open>IniParser.h\<close>, \<^verbatim>\<open>IniParser.cc\<close>); \<open>Ini_Safety\<close>: parsing is defined on every file and ends, with the
    locale \<open>section_invariant\<close> for what parsing keeps of a section; \<open>Ini_Reload\<close> interprets it for values that are not saved yet;
    \<open>Ini_Roundtrip\<close>: the text of a section is parsed to the section.  \<open>Ini_Agent\<close>: files with times and modes, and the commands
    (\<^verbatim>\<open>IniAgent.cc\<close>); \<open>Ini_Saving\<close>: saving, loading and reading again.
  \<^item> The configuration repository (\<^verbatim>\<open>scr\<close>, \<^verbatim>\<open>libscr\<close>).  \<open>Scripting_Agent\<close>: the agents registered at paths, their registration from
    files, mounting, and the dispatch of commands (\<^verbatim>\<open>ScriptingAgent.cc\<close>, \<^verbatim>\<open>SCRSubAgent.cc\<close>).  \<open>Scripting_Laws\<close>: the sorted vector
    of agents is a map, the scan from its end finds the longest prefix, and the locales \<open>registration_kept\<close> and \<open>commands_kept\<close> for what
    registration and commands keep of a state, with or without the promise that they return; \<open>Scripting_Commands\<close> interprets them and says who
    answers a command, and that an agent is found by its first use.  \<open>SCR_Agents\<close>: the methods of agents (\<^verbatim>\<open>SCRAgent.h\<close>), the component that calls
    them (\<^verbatim>\<open>Y2AgentComponent.h\<close>), the agent that forwards to another process (\<^verbatim>\<open>StdioSCRAgent.cc\<close>), the builtins (\<^verbatim>\<open>SCR.cc\<close>).
    \<open>SCR_Ini\<close>: ini files behind the repository, from the builtin to the section.
  \<^item> The agent for any text file (\<^verbatim>\<open>agent-any\<close>).  \<open>Any_Basic\<close>: the basic types (\<^verbatim>\<open>AnyAgentBasic.cc\<close>), each an interpretation of the
    locale \<open>field_type\<close>: what is written is read back.  \<open>Any_Syntax\<close>: the language of descriptions, for reading and writing (\<^verbatim>\<open>AnyAgentComplex.cc\<close>);
    \<open>Any_Agent\<close>: files and commands (\<^verbatim>\<open>AnyAgent.cc\<close>).  \<open>Any_Laws\<close>: what reading keeps, and that it ends; \<open>Any_Roundtrip\<close>: files of columns that
    are written and read.
  \<^item> Helpers (\<^verbatim>\<open>liby2util-r\<close>).  \<open>Pathnames\<close>: the normal form of file names (\<^verbatim>\<open>Pathname.cc\<close>) leads to the same place, and names are put
    together from their parts.  \<open>String_Util\<close>: lines, splitting, joining and trimming (\<^verbatim>\<open>stringutil.cc\<close>).
  \<^item> This theory: the properties of the interpreter with its own builtins.

  \<^bold>\<open>How state and effects are modelled\<close>

  Values are immutable or copied on writing, so a handle is its contents and null is the value \<open>YNull\<close>.  Symbol entries,
  blocks, functions and name spaces are shared objects and are numbers; what the parser fixed is in the record \<open>program\<close>, what
  running changes in the record \<open>ystate\<close>.  Table entries of the symbol table live in a store with one function for each
  pointer field.  An operation that may use a null pointer, a wrong cast or an index out of range gives \<^const>\<open>None\<close> or
  \<^const>\<open>Undef\<close>; what the code reports as an error is the value the code returns then.

  \<^bold>\<open>Fuel\<close>

  \<^const>\<open>evaluate\<close> has a bound on the depth of nested virtual calls and loop rounds, and gives \<^const>\<open>OutOfFuel\<close> when it was too
  small; \<open>evaluate_fuel\<close> says that more never changes a result, and \<open>yields\<close> is the existence of a bound that suffices.
  Readers of byte code have a bound on nesting; the length of the stream is always enough (\<open>readValue_terminates\<close>,
  \<open>readType_terminates\<close>, \<open>readCode_terminates\<close>).  \<open>determineFlexType\<close> and the parser of signatures are shown to end with stated bounds.
  A round of a loop of a description of \<^const>\<open>parseData\<close> costs one unit; the number of characters of the file is enough when every round reads something (\<open>any_read_ends\<close>).  Loops along pointers are
  \<^theory_text>\<open>partial_function\<close>s; where the code may loop for ever this is proved (\<open>remove_hidden_diverges\<close>,
  \<open>readInt_digits\<close>, \<open>shell_unquote_returns\<close>, \<open>scanner_get_stuck\<close>).

  \<^bold>\<open>Parameters\<close>

  Arithmetic of doubles and their text, character set conversion, regular expressions of the C library, collation, message catalogues,
  and the functions and call handlers of other components are arguments (\<open>blib\<close>, \<open>slib\<close>, \<open>printers\<close>, \<open>yenv\<close>); so are environment variables and the file system
  (\<open>surroundings\<close>, \<open>files\<close>, \<open>ini_fs\<close>, \<open>any_world\<close>), \<^verbatim>\<open>regcomp\<close> and \<^verbatim>\<open>regexec\<close> for ini files (\<open>regex_lib\<close>), \<^verbatim>\<open>glob\<close>, the component broker, the components and the parser of configuration terms (\<open>scr_system\<close>), the registry of builtins and the import of modules (\<open>renv\<close>).  The properties that need
  something of them say so.

  \<^bold>\<open>Not modelled\<close>

  The scanner and the generated parser; the debugger; XML output; messages to the log.  \<^verbatim>\<open>sort\<close> with a block, because the order of
  the comparisons of \<^verbatim>\<open>std::sort\<close> is not determined; encryption, time, random numbers, environment variables, sleeping.  The component
  broker, plugins, processes and pipes, the other agents and the workflow manager, which are input and output around this core.  Components that call back into the
  scripting agent while they evaluate a command.
\<close>

section \<open>Environments\<close>

text \<open>
  The environments the properties are about: the builtin functions are those of the table, and, where it matters, the
  functions of other components leave the interpreter's own state as they find it.
\<close>

definition ycp_env :: "yenv \<Rightarrow> bool" where
  "ycp_env E \<longleftrightarrow> (\<exists>L. e_builtin E = builtin_call (e_prog E) L)"

definition quiet :: "yenv \<Rightarrow> bool" where
  "quiet E \<longleftrightarrow> (\<forall>h f n args. keeps (e_prog E) (e_handler E h f n args)) \<and> (\<forall>k args. keeps (e_prog E) (e_foreign E k args))"

lemma ycp_env_serves:
  assumes "ycp_env E"
  obtains L where "ycp_builtins.serves (e_prog E) L E"
  using assms by (auto simp: ycp_env_def ycp_builtins.serves_def)

lemma plain_env [simp]: "ycp_env (plain_env P L)" "quiet (plain_env P L)" "e_prog (plain_env P L) = P"
  by (auto simp: ycp_env_def quiet_def plain_env_def)

section \<open>Properties of the interpreter\<close>



text \<open>
  C17. The evaluation of a constant subexpression, as the parser uses it, neither reads nor changes the state, and
  the value it gives is the one the evaluation at run time gives.
\<close>

theorem constant_folding:
  assumes "evaluate n E c True st = Ret (v, st1)"
  shows "st1 = st \<and> (\<forall>st2. evaluate n E c True st2 = Ret (v, st2)) \<and>
    (v \<noteq> YNull \<longrightarrow> (\<forall>st2. evaluate n E c False st2 = Ret (v, st2)))"
proof -
  obtain r where r: "evaluate n E c True = eout r" "\<And>v. r = Ret v \<Longrightarrow> \<not> isNull v \<Longrightarrow> evaluate n E c False = eret v"
    using evaluate_folds [of n E c] by (auto simp: folds_def)
  with assms have "r = Ret v" "st1 = st" by (cases r; simp add: eout_def)+
  with r show ?thesis by (auto simp: eout_def eret_def)
qed

theorem constant_folding_witness:
  "\<forall>L st. evaluate 2 (plain_env plain_program L) (YEList [YConst ycInteger (YInteger 4)]) False st = Ret (YList [YInteger 4], st)"
proof (intro allI)
  fix L and st :: ystate
  have "evaluate 2 (plain_env plain_program L) (YEList [YConst ycInteger (YInteger 4)]) True st = Ret (YList [YInteger 4], st)"
    by (simp add: numeral_2_eq_2 eval_code_def eret_def ebind_def)
  from constant_folding [OF this]
  show "evaluate 2 (plain_env plain_program L) (YEList [YConst ycInteger (YInteger 4)]) False st = Ret (YList [YInteger 4], st)"
    by simp
qed

text \<open>
  C3. An evaluation that returns has restored the environment: the running flags of the blocks and the backtrace
  are as before, nothing is missing from the recursion stack of any entry, and only a variable of a block or a
  parameter of a function without definition can have something left on it.
\<close>

theorem evaluate_keeps_environment:
  assumes "ycp_env E" "quiet E" "evaluate n E c cse st = Ret (v, st')"
  shows "m_running st' = m_running st \<and> m_backtrace st' = m_backtrace st \<and>
    (\<forall>e. suffix (rec_stack st e) (rec_stack st' e) \<and> (\<not> at_risk (e_prog E) e \<longrightarrow> rec_stack st' e = rec_stack st e))"
proof -
  obtain L where "ycp_builtins.serves (e_prog E) L E" using assms(1) by (rule ycp_env_serves)
  with ycp_builtins.evaluate_keeps [OF this] assms(2) have "keeps (e_prog E) (evaluate n E c cse)" by (simp add: quiet_def)
  with assms(3) have "kept (e_prog E) st st'" by (simp add: keeps_def)
  then show ?thesis by (simp add: kept_def)
qed

theorem evaluate_keeps_environment_witness:
  "\<forall>L st. \<exists>st'. evaluate 3 (plain_env plain_program L) (YBlock 0 b_statement [] [(7, YSBreak)]) False st = Ret (YBreak, st') \<and>
     m_running st' = m_running st \<and> m_backtrace st' = m_backtrace st"
proof (intro allI)
  fix L and st :: ystate
  have "\<exists>st'. evaluate 3 (plain_env plain_program L) (YBlock 0 b_statement [] [(7, YSBreak)]) False st = Ret (YBreak, st')"
    by (simp add: numeral_3_eq_3 eval_code_def yblock_evaluate_def run_block_def Let_def eval_defs set_running_def
        with_filename_def pushToStack_def popFromStack_def block_variables_def plain_program_def setLinenumber_def
        split: option.split)
  then obtain st' where r: "evaluate 3 (plain_env plain_program L) (YBlock 0 b_statement [] [(7, YSBreak)]) False st = Ret (YBreak, st')"
    by blast
  with evaluate_keeps_environment [OF plain_env(1,2) r]
  show "\<exists>st'. evaluate 3 (plain_env plain_program L) (YBlock 0 b_statement [] [(7, YSBreak)]) False st = Ret (YBreak, st') \<and>
     m_running st' = m_running st \<and> m_backtrace st' = m_backtrace st" by blast
qed

text \<open>
  C4. A call of a function that has a definition gives every parameter back the value it had before the call, however
  the body changed it and however deep it called itself.
\<close>

theorem call_restores_parameters:
  assumes "ycp_env E" "quiet E" "f_definition (p_function (e_prog E) f) = Some d"
    "evaluateCall E (evaluate n E) (YCPFunction f) args st = Ret (v, st')"
    "e \<in> set (f_params (p_function (e_prog E) f))" "\<not> at_risk (e_prog E) e"
  shows "m_value st' e = m_value st e"
proof -
  obtain L where "ycp_builtins.serves (e_prog E) L E" using assms(1) by (rule ycp_env_serves)
  from ycp_builtins.call_restores [OF this _ _ assms(3-6)] assms(2) show ?thesis by (simp add: quiet_def)
qed

theorem call_restores_parameters_witness:
  "\<exists>P. \<forall>L st. \<exists>st'. evaluateCall (plain_env P L) (evaluate 1 (plain_env P L)) (YCPFunction 0) [YInteger 7] st = Ret (YInteger 7, st') \<and>
     m_value st' 5 = m_value st 5"
proof -
  define P where "P = plain_program\<lparr>p_function := \<lambda>_. \<lparr>f_params = [5], f_definition = Some (YEVariable 5)\<rparr>\<rparr>"
  have fn: "p_function P 0 = \<lparr>f_params = [5], f_definition = Some (YEVariable 5)\<rparr>" by (simp add: P_def)
  have risk: "\<not> at_risk P 5" by (simp add: at_risk_def P_def plain_program_def block_variables_def)
  have "\<exists>st'. evaluateCall (plain_env P L) (evaluate 1 (plain_env P L)) (YCPFunction 0) [YInteger 7] st = Ret (YInteger 7, st') \<and>
     m_value st' 5 = m_value st 5" for L and st :: ystate
  proof -
    have set: "setValue P s 5 (YInteger 7) = Some (store_value s 5 (YInteger 7))" for s
      by (subst setValue.simps) (simp add: P_def plain_program_def)
    have get: "sym_value P s 5 = Some (m_value s 5)" for s
      by (subst sym_value.simps) (simp add: P_def plain_program_def)
    have "\<exists>st'. evaluateCall (plain_env P L) (evaluate 1 (plain_env P L)) (YCPFunction 0) [YInteger 7] st = Ret (YInteger 7, st')"
      by (simp add: evaluateCall_def ycp_evaluateCall_def eval_code_def yevariable_evaluate_def with_context_def eval_defs
          Let_def set get fn store_value_def setLinenumber_def setFilename_def sym_push_def sym_pop_def)
    then obtain st' where r: "evaluateCall (plain_env P L) (evaluate 1 (plain_env P L)) (YCPFunction 0) [YInteger 7] st = Ret (YInteger 7, st')"
      by blast
    from call_restores_parameters [of "plain_env P L" 0 "YEVariable 5" 1 "[YInteger 7]" st "YInteger 7" st' 5] r risk
    show ?thesis by (auto simp: P_def)
  qed
  then show ?thesis by blast
qed

text \<open>
  C23. \<^verbatim>\<open>do body while (cond)\<close> is \<^verbatim>\<open>body\<close> followed by \<^verbatim>\<open>while (cond) body\<close>, unless the body breaks or returns a value, for a
  body that has no \<^verbatim>\<open>return;\<close>.
\<close>

theorem do_is_body_and_while:
  assumes "ycp_env E" "\<forall>st l st1. yields E b st l st1 \<longrightarrow> \<not> isReturn l"
  shows "yields E (YSDo (Some b) c) st v st' \<longleftrightarrow>
    (\<exists>l st1. yields E b st l st1 \<and>
       (if nil l then yields E (YSWhile c (Some b)) st1 v st' else st' = st1 \<and> v = (if isBreak l then YNull else l)))"
proof -
  obtain L where "ycp_builtins.serves (e_prog E) L E" using assms(1) by (rule ycp_env_serves)
  from ycp_builtins.do_while_unrolls [OF this, of b c st v st'] assms(2) show ?thesis by blast
qed

lemma yields_const [simp]: "yields E (YConst k w) st v st' \<longleftrightarrow> v = w \<and> st' = st"
  and yields_break [simp]: "yields E YSBreak st v st' \<longleftrightarrow> v = YBreak \<and> st' = st"
  and yields_return [simp]: "yields E (YSReturn None) st v st' \<longleftrightarrow> v = YReturn \<and> st' = st"
proof -
  have *: "(\<exists>n. evaluate n E c False st = Ret (v, st')) \<longleftrightarrow> v = w \<and> st' = st"
    if "\<And>n. evaluate (Suc n) E c False = eret w" for c w
  proof
    assume "\<exists>n. evaluate n E c False st = Ret (v, st')"
    then obtain n where "evaluate n E c False st = Ret (v, st')" by blast
    with that show "v = w \<and> st' = st" by (cases n) (simp_all add: eret_def)
  next
    assume "v = w \<and> st' = st"
    with that [of 0] have "evaluate (Suc 0) E c False st = Ret (v, st')" by (simp add: eret_def)
    then show "\<exists>n. evaluate n E c False st = Ret (v, st')" by blast
  qed
  show "yields E (YConst k w) st v st' \<longleftrightarrow> v = w \<and> st' = st" "yields E YSBreak st v st' \<longleftrightarrow> v = YBreak \<and> st' = st"
    "yields E (YSReturn None) st v st' \<longleftrightarrow> v = YReturn \<and> st' = st"
    unfolding yields_def by (rule *, simp add: eval_code_def ysreturn_evaluate_def)+
qed

theorem do_is_body_and_while_witness:
  "\<forall>L st. yields (plain_env plain_program L) (YSDo (Some YSBreak) YSBreak) st YNull st"
proof (intro allI)
  fix L and st :: ystate
  show "yields (plain_env plain_program L) (YSDo (Some YSBreak) YSBreak) st YNull st"
    by (subst do_is_body_and_while) (simp_all add: isReturn_def isBreak_def nil_def)
qed

text \<open>
  A \<^verbatim>\<open>return;\<close> in the body leaves a \<^verbatim>\<open>while\<close> loop with the value that makes the function return, but in a \<^verbatim>\<open>do\<close> loop it
  is taken for the end of the round: the condition is evaluated, and when it is false the loop just ends.
\<close>

theorem do_ignores_void_return:
  assumes "ycp_env E" "yields E b st YReturn st1" "yields E c st1 (YBoolean False) st2" "yields E d st1 (YBoolean True) st"
  shows "yields E (YSDo (Some b) c) st YNull st2 \<and> yields E (YSWhile d (Some b)) st1 YReturn st1"
proof -
  obtain L where L: "ycp_builtins.serves (e_prog E) L E" using assms(1) by (rule ycp_env_serves)
  have "yields E (YSDo (Some b) c) st YNull st2"
    by (rule ycp_builtins.yields_do_again [OF L assms(2) _ assms(3)]) (simp_all add: nil_def)
  moreover have "yields E (YSWhile d (Some b)) st1 YReturn st1"
    by (rule ycp_builtins.yields_while_enter [OF L assms(4,2)]) (simp add: goes_on_def isReturn_def isBreak_def)
  ultimately show ?thesis ..
qed

theorem do_ignores_void_return_witness:
  "\<forall>L st. yields (plain_env plain_program L) (YSDo (Some (YSReturn None)) (YConst ycBoolean (YBoolean False))) st YNull st \<and>
     yields (plain_env plain_program L) (YSWhile (YConst ycBoolean (YBoolean True)) (Some (YSReturn None))) st YReturn st"
proof (intro allI)
  fix L and st :: ystate
  show "yields (plain_env plain_program L) (YSDo (Some (YSReturn None)) (YConst ycBoolean (YBoolean False))) st YNull st \<and>
     yields (plain_env plain_program L) (YSWhile (YConst ycBoolean (YBoolean True)) (Some (YSReturn None))) st YReturn st"
    by (rule do_ignores_void_return) simp_all
qed



end
